(* ===== verification/Prelude.thy ===== *)
theory Prelude
  imports Main "HOL-Library.Word"
begin

unbundle bit_operations_syntax

text \<open>
  Shared vocabulary of the development: the C integer types of the firmware, the truncating
  assignment of an \<open>int\<close> expression to a narrow unsigned variable, the millisecond timers,
  bit masks, and the combinator that models a \<open>for\<close> loop walking an array with an index
  and a running state.  The collections \<open>row_simps\<close> (masks on matrix rows) and
  \<open>loop_simps\<close> (the loop combinator) are filled here and in the component theories.
\<close>

named_theorems row_simps \<open>masks and single bits of matrix rows\<close>
named_theorems loop_simps \<open>indexed loops over arrays\<close>

section \<open>Integer types\<close>

type_synonym u8 = "8 word"
type_synonym u16 = "16 word"
type_synonym u32 = "32 word"
type_synonym u64 = "64 word"

text \<open>C promotes \<open>uint8_t\<close> and \<open>uint16_t\<close> operands to \<open>int\<close>; storing the result back
  truncates it.  \<open>as_u8\<close> and its kin are that store, \<open>i8\<close> the promoted value.\<close>

abbreviation as_u8 :: "int \<Rightarrow> u8" where "as_u8 \<equiv> word_of_int"
abbreviation as_u16 :: "int \<Rightarrow> u16" where "as_u16 \<equiv> word_of_int"
abbreviation as_u32 :: "int \<Rightarrow> u32" where "as_u32 \<equiv> word_of_int"

text \<open>\<open>TIMER_DIFF_32\<close>, \<open>TIMER_DIFF_16\<close> and \<open>TIMER_DIFF_FAST\<close> (32 bits on ARM) are unsigned
  subtractions at their width, so they survive one wrap of the counter.\<close>

definition timer_diff :: "'a::len word \<Rightarrow> 'a word \<Rightarrow> 'a word" where
  "timer_diff a b = a - b"

definition timer_elapsed32 :: "u32 \<Rightarrow> u32 \<Rightarrow> u32" where
  "timer_elapsed32 now t0 = timer_diff now t0"

lemma timer_diff_unat:
  "unat (timer_diff (t + of_nat n) t) = n mod 2 ^ LENGTH('a)" for t :: "'a::len word"
  by (simp add: timer_diff_def unat_of_nat take_bit_eq_mod)

lemma unat_word_of_int_id: "0 \<le> i \<Longrightarrow> i < 2 ^ LENGTH('a) \<Longrightarrow> uint (word_of_int i :: 'a::len word) = i"
  by (simp add: uint_word_of_int_eq take_bit_int_eq_self)

lemma unat_ucast_small: "unat x < 2 ^ LENGTH('b) \<Longrightarrow> unat (ucast x :: 'b::len word) = unat x" for x :: "'a::len word"
  by (simp add: unsigned_ucast_eq take_bit_nat_eq_self)

lemma uint_of_u8: "uint (x :: u8) < 256" "0 \<le> uint (x :: u8)"
  using uint_bounded [of x] by simp_all

section \<open>Rows of the key matrix\<close>

text \<open>\<open>matrix_row_t\<close> is \<open>uint8_t\<close>, \<open>uint16_t\<close> or \<open>uint32_t\<close> according to \<open>MATRIX_COLS\<close>:
  a word type \<open>'r\<close>.  A matrix is its list of rows.\<close>

type_synonym 'r matrix = "'r word list"

definition col_mask :: "nat \<Rightarrow> 'r::len word" where
  "col_mask c = push_bit c 1"

lemma bit_col_mask [row_simps]: "bit (col_mask c :: 'r::len word) n \<longleftrightarrow> n = c \<and> c < LENGTH('r)"
  by (auto simp: col_mask_def bit_simps)

lemma and_col_mask_iff [row_simps]:
  "(w AND col_mask c \<noteq> 0) \<longleftrightarrow> bit w c" for w :: "'r::len word"
proof
  assume "w AND col_mask c \<noteq> 0"
  then obtain n where "bit (w AND col_mask c) n"
    by (metis bit_eqI bit_0_eq bot_apply bot_bool_def)
  then show "bit w c" by (auto simp: bit_simps row_simps)
next
  assume b: "bit w c"
  then have "c < LENGTH('r)" by (rule bit_imp_le_length)
  with b have "bit (w AND col_mask c) c" by (simp add: bit_simps row_simps)
  then show "w AND col_mask c \<noteq> 0" by (metis bit_0_eq bot_apply bot_bool_def)
qed

lemma and_col_mask_zero [row_simps]:
  "(w AND col_mask c = 0) \<longleftrightarrow> \<not> bit w c" for w :: "'r::len word"
  using and_col_mask_iff [of w c] by blast

lemma bit_clear_mask [row_simps]:
  "bit (w AND NOT (col_mask c)) n \<longleftrightarrow> bit w n \<and> n \<noteq> c" for w :: "'r::len word"
  using bit_imp_le_length [of w n] by (auto simp: bit_simps row_simps)

lemma bit_set_mask [row_simps]:
  "bit (w OR col_mask c) n \<longleftrightarrow> bit w n \<or> (n = c \<and> c < LENGTH('r))" for w :: "'r::len word"
  by (auto simp: bit_simps row_simps)

lemma bit_flip_mask [row_simps]:
  "bit (w XOR col_mask c) n \<longleftrightarrow> (if n = c \<and> c < LENGTH('r) then \<not> bit w n else bit w n)"
  for w :: "'r::len word"
  by (auto simp: bit_simps row_simps)

lemma bit_le_unat: "bit w n \<Longrightarrow> 2 ^ n \<le> unat w" for w :: "'a::len word"
proof -
  assume "bit w n"
  then have "bit (unat w) n" using bit_imp_le_length by (simp add: bit_unsigned_iff)
  then have "odd (unat w div 2 ^ n)" by (simp add: bit_iff_odd)
  then show ?thesis by (metis div_less even_zero not_le)
qed

lemma small_bits: "unat w < 2 ^ n \<Longrightarrow> n \<le> k \<Longrightarrow> \<not> bit w k" for w :: "'a::len word"
  using bit_le_unat [of w k] power_increasing [of n k "2 :: nat"] by linarith

text \<open>Byte masks and single bits, in a form whose bits are read off.\<close>

lemma byte_masks:
  "(1 :: 'a::len word) = mask 1" "(3 :: 'a word) = mask 2" "(7 :: 'a word) = mask 3" "(15 :: 'a word) = mask 4"
  "(31 :: 'a word) = mask 5" "(63 :: 'a word) = mask 6" "(255 :: 'a word) = mask 8"
  by (simp_all add: mask_eq_exp_minus_1)

lemma byte_bits:
  "(32 :: 'a::len word) = col_mask 5" "(64 :: 'a word) = col_mask 6" "(128 :: 'a word) = col_mask 7"
  by (simp_all add: col_mask_def push_bit_eq_mult)

section \<open>Loops\<close>

text \<open>\<open>walk f i cs s\<close> is \<open>for (; i < n; i++) f(i, &cs[i])\<close>: \<open>f\<close> gets the index, the element it may
  overwrite and the state the loop carries.\<close>

fun walk :: "(nat \<Rightarrow> 'c \<Rightarrow> 's \<Rightarrow> 'c \<times> 's) \<Rightarrow> nat \<Rightarrow> 'c list \<Rightarrow> 's \<Rightarrow> 'c list \<times> 's" where
  "walk f i [] s = ([], s)"
| "walk f i (c # cs) s =
     (case f i c s of (c', s') \<Rightarrow> (case walk f (Suc i) cs s' of (cs', s'') \<Rightarrow> (c' # cs', s'')))"

lemma walk_Cons [loop_simps]:
  "walk f i (c # cs) s =
     (fst (f i c s) # fst (walk f (Suc i) cs (snd (f i c s))), snd (walk f (Suc i) cs (snd (f i c s))))"
  by (simp split: prod.splits)

declare walk.simps(2) [simp del]

lemma length_walk [simp]: "length (fst (walk f i cs s)) = length cs"
  by (induction cs arbitrary: i s) (simp_all add: walk_Cons)

text \<open>A loop whose body never touches its elements is a fold over the indices.\<close>

lemma walk_readonly:
  assumes "\<And>i c s. fst (f i c s) = c"
  shows "fst (walk f i cs s) = cs"
  using assms by (induction cs arbitrary: i s) (simp_all add: walk_Cons)

text \<open>An invariant of the carried state.\<close>

lemma walk_invariant:
  assumes "P s" and "\<And>j c s. P s \<Longrightarrow> P (snd (f j c s))"
  shows "P (snd (walk f i cs s))"
  using assms(1) by (induction cs arbitrary: i s) (simp_all add: walk_Cons assms(2))

text \<open>A property the body establishes of every element.\<close>

lemma walk_elements:
  assumes "\<And>j c s. Q c \<Longrightarrow> Q (fst (f j c s))" and "\<forall>c \<in> set cs. Q c"
  shows "\<forall>c \<in> set (fst (walk f i cs s)). Q c"
  using assms(2) by (induction cs arbitrary: i s) (simp_all add: walk_Cons assms(1))

section \<open>Lists\<close>

lemma nth_list_update_if: "xs[i := v] ! j = (if i = j \<and> i < length xs then v else xs ! j)"
  by (cases "i < length xs") (auto simp: nth_list_update list_update_beyond)

lemma mod_Suc_wrap: "i < n \<Longrightarrow> Suc i mod n = (if Suc i = n then 0 else Suc i)"
  by (simp add: mod_Suc)

text \<open>\<open>memcpy(&dest[a], src, ..)\<close> within the bounds of \<open>dest\<close>.\<close>

definition splice :: "'a list \<Rightarrow> nat \<Rightarrow> 'a list \<Rightarrow> 'a list" where
  "splice dest a src = take a dest @ src @ drop (a + length src) dest"

lemma splice_nil [simp]: "splice k a [] = k"
  by (simp add: splice_def)

lemma length_splice [simp]: "a + length v \<le> length k \<Longrightarrow> length (splice k a v) = length k"
  by (simp add: splice_def)

lemma splice_append: "a + length v + length v' \<le> length k \<Longrightarrow> splice (splice k a v) (a + length v) v' = splice k a (v @ v')"
  by (simp add: splice_def ac_simps)

lemma splice_1: "a < length k \<Longrightarrow> k[a := x] = splice k a [x]"
  by (simp add: splice_def upd_conv_take_nth_drop)

lemma splice_2: "a + 1 < length k \<Longrightarrow> k[a := x, a + 1 := y] = splice k a [x, y]"
  using splice_append [of a "[x]" "[y]" k] by (simp add: splice_1)

lemma nth_splice:
  "a + length v \<le> length k \<Longrightarrow> i < length k \<Longrightarrow> splice k a v ! i = (if a \<le> i \<and> i < a + length v then v ! (i - a) else k ! i)"
  by (auto simp: splice_def nth_append min_def)

lemma splice_read: "a + length v \<le> length k \<Longrightarrow> take (length v) (drop a (splice k a v)) = v"
  by (simp add: splice_def)

lemma splice_read_other:
  assumes "a + length v \<le> length k" and "b + n \<le> a \<or> a + length v \<le> b"
  shows "take n (drop b (splice k a v)) = take n (drop b k)"
proof (rule nth_equalityI)
  show "length (take n (drop b (splice k a v))) = length (take n (drop b k))" using assms(1) by simp
  fix i assume "i < length (take n (drop b (splice k a v)))"
  then have i: "i < n" "b + i < length k" using assms(1) by auto
  then have "\<not> (a \<le> b + i \<and> b + i < a + length v)" using assms(2) by linarith
  then show "take n (drop b (splice k a v)) ! i = take n (drop b k) ! i"
    using i assms(1) nth_splice [OF assms(1), of "b + i"] by (auto simp: if_not_P)
qed

end
