(* ===== verification/RingBuffer.thy ===== *)
theory RingBuffer
  imports Prelude
begin

text \<open>
  The circular byte queue of \<open>quantum/ring_buffer.h\<close> and the contract it shares with the
  firmware's other queues: an array with a head and a tail index that advance modulo its size,
  one slot kept free so that \<open>head = tail\<close> means empty.  The locale \<open>bounded_fifo\<close> states the
  contract, \<open>ring_contents\<close> is the queue that an array and two indices stand for, and the
  lemmas on \<open>ring_contents\<close> are reused by every queue of the development.
\<close>

section \<open>The queue an array and two indices stand for\<close>

definition ring_contents :: "nat \<Rightarrow> 'a list \<Rightarrow> nat \<Rightarrow> nat \<Rightarrow> 'a list" where
  "ring_contents n buf hd_ix tl_ix = map (\<lambda>k. buf ! ((tl_ix + k) mod n)) [0..<(hd_ix + n - tl_ix) mod n]"

definition ring_inv :: "nat \<Rightarrow> 'a list \<Rightarrow> nat \<Rightarrow> nat \<Rightarrow> bool" where
  "ring_inv n buf hd_ix tl_ix \<longleftrightarrow> 1 < n \<and> length buf = n \<and> hd_ix < n \<and> tl_ix < n"

lemma length_ring_contents: "length (ring_contents n buf h t) = (h + n - t) mod n"
  by (simp add: ring_contents_def)

lemma ring_distance:
  fixes h n t :: nat
  assumes "h < n" "t < n"
  shows "(h + n - t) mod n = (if t \<le> h then h - t else h + n - t)"
proof (cases "t \<le> h")
  case True
  with assms have "h + n - t = (h - t) + n" by arith
  then have "(h + n - t) mod n = (h - t) mod n" by (simp only: mod_add_self2)
  with True assms show ?thesis by simp
next
  case False
  with assms show ?thesis by simp
qed

lemma ring_empty_iff:
  assumes "ring_inv n buf h t"
  shows "ring_contents n buf h t = [] \<longleftrightarrow> h = t"
proof -
  from assms have b: "h < n" "t < n" by (auto simp: ring_inv_def)
  have "ring_contents n buf h t = [] \<longleftrightarrow> (h + n - t) mod n = 0"
    by (metis length_0_conv length_ring_contents)
  then show ?thesis using b by (auto simp: ring_distance)
qed

lemma ring_length_bound: "ring_inv n buf h t \<Longrightarrow> length (ring_contents n buf h t) \<le> n - 1"
proof -
  assume "ring_inv n buf h t"
  then have "0 < n" by (simp add: ring_inv_def)
  then have "(h + n - t) mod n < n" by simp
  then show ?thesis by (simp add: length_ring_contents)
qed

lemma ring_full_iff:
  assumes "ring_inv n buf h t"
  shows "Suc h mod n = t \<longleftrightarrow> length (ring_contents n buf h t) = n - 1"
  using assms by (auto simp: ring_inv_def length_ring_contents ring_distance mod_Suc split: if_splits)

lemma ring_push:
  assumes inv: "ring_inv n buf h t" and free: "Suc h mod n \<noteq> t"
  shows "ring_contents n (buf[h := x]) (Suc h mod n) t = ring_contents n buf h t @ [x]"
proof -
  from inv have b: "h < n" "t < n" "length buf = n" by (auto simp: ring_inv_def)
  let ?d = "(h + n - t) mod n"
  have d: "(Suc h mod n + n - t) mod n = Suc ?d"
    using b free by (auto simp: mod_Suc ring_distance)
  have at: "(t + ?d) mod n = h"
    using b by (auto simp: ring_distance)
  have other: "h \<noteq> (t + k) mod n" if "k < ?d" for k
  proof -
    from that b have "k < n" by (simp add: ring_distance split: if_splits)
    with that b show ?thesis by (auto simp: ring_distance mod_if split: if_splits)
  qed
  have "map (\<lambda>k. buf[h := x] ! ((t + k) mod n)) [0..<?d] = map (\<lambda>k. buf ! ((t + k) mod n)) [0..<?d]"
    using other by (auto simp: nth_list_update)
  then show ?thesis
    using b at by (simp add: ring_contents_def d)
qed

lemma ring_pop:
  assumes inv: "ring_inv n buf h t" and nonempty: "h \<noteq> t"
  shows "ring_contents n buf h t = buf ! t # ring_contents n buf h (Suc t mod n)"
proof -
  from inv have b: "h < n" "t < n" "length buf = n" by (auto simp: ring_inv_def)
  let ?d = "(h + n - Suc t mod n) mod n"
  have d: "(h + n - t) mod n = Suc ?d"
    using b nonempty by (auto simp: mod_Suc ring_distance split: if_splits)
  have "(t + Suc k) mod n = (Suc t mod n + k) mod n" for k
    by (simp add: mod_simps)
  then have "map (\<lambda>k. buf ! ((t + k) mod n)) (map Suc [0..<?d])
      = map (\<lambda>k. buf ! ((Suc t mod n + k) mod n)) [0..<?d]"
    by simp
  then show ?thesis
    using b by (simp add: ring_contents_def d upt_conv_Cons map_Suc_upt del: upt_Suc)
qed

lemma ring_inv_push: "ring_inv n buf h t \<Longrightarrow> ring_inv n (buf[h := x]) (Suc h mod n) t"
  by (simp add: ring_inv_def)

lemma ring_inv_pop: "ring_inv n buf h t \<Longrightarrow> ring_inv n buf h (Suc t mod n)"
  by (simp add: ring_inv_def)

section \<open>The contract of a bounded queue\<close>

datatype 'a fifo_op = Enq 'a | Deq

text \<open>Running a list of operations: the elements accepted and the elements delivered, in order.\<close>

fun fifo_run ::
  "('a \<Rightarrow> 's \<Rightarrow> bool \<times> 's) \<Rightarrow> ('s \<Rightarrow> 'a option \<times> 's) \<Rightarrow> 'a fifo_op list \<Rightarrow> 's \<Rightarrow> 'a list \<times> 'a list \<times> 's"
where
  "fifo_run enq deq [] s = ([], [], s)"
| "fifo_run enq deq (Enq x # ops) s =
     (case enq x s of (ok, s') \<Rightarrow> (case fifo_run enq deq ops s' of (acc, out, s'') \<Rightarrow>
        ((if ok then x # acc else acc), out, s'')))"
| "fifo_run enq deq (Deq # ops) s =
     (case deq s of (r, s') \<Rightarrow> (case fifo_run enq deq ops s' of (acc, out, s'') \<Rightarrow>
        (acc, (case r of None \<Rightarrow> out | Some x \<Rightarrow> x # out), s'')))"

locale bounded_fifo =
  fixes cap :: nat
    and inv :: "'s \<Rightarrow> bool"
    and contents :: "'s \<Rightarrow> 'a list"
    and enq :: "'a \<Rightarrow> 's \<Rightarrow> bool \<times> 's"
    and deq :: "'s \<Rightarrow> 'a option \<times> 's"
  assumes enq_space: "inv s \<Longrightarrow> length (contents s) < cap \<Longrightarrow>
      fst (enq x s) \<and> contents (snd (enq x s)) = contents s @ [x]"
    and enq_full: "inv s \<Longrightarrow> \<not> length (contents s) < cap \<Longrightarrow> enq x s = (False, s)"
    and deq_empty: "inv s \<Longrightarrow> contents s = [] \<Longrightarrow> deq s = (None, s)"
    and deq_first: "inv s \<Longrightarrow> contents s = x # xs \<Longrightarrow>
      fst (deq s) = Some x \<and> contents (snd (deq s)) = xs"
    and inv_enq: "inv s \<Longrightarrow> inv (snd (enq x s))"
    and inv_deq: "inv s \<Longrightarrow> inv (snd (deq s))"
begin

text \<open>Nothing accepted is lost, duplicated or reordered: what was queued before, followed by
  what was accepted, is what was delivered followed by what is still queued.\<close>

lemma enq_cases:
  assumes "inv s" and "enq x s = (ok, s')"
  shows "inv s' \<and> contents s' = (if ok then contents s @ [x] else contents s)
    \<and> ok = (length (contents s) < cap)"
  using assms enq_space [of s x] enq_full [of s x] inv_enq [of s x]
  by (cases "length (contents s) < cap") auto

lemma deq_cases:
  assumes "inv s" and "deq s = (r, s')"
  shows "inv s' \<and> contents s = (case r of None \<Rightarrow> [] | Some x \<Rightarrow> [x]) @ contents s'"
  using assms deq_empty [of s] deq_first [of s] inv_deq [of s]
  by (cases "contents s") auto

lemma run_in_order:
  assumes "inv s" and "fifo_run enq deq ops s = (acc, out, s')"
  shows "inv s' \<and> contents s @ acc = out @ contents s'"
  using assms
proof (induction ops arbitrary: s acc out s')
  case (Cons op ops)
  show ?case
  proof (cases op)
    case (Enq x)
    obtain ok s1 where e: "enq x s = (ok, s1)" by fastforce
    obtain acc1 out1 s2 where r: "fifo_run enq deq ops s1 = (acc1, out1, s2)"
      by (cases "fifo_run enq deq ops s1") auto
    from enq_cases [OF Cons.prems(1) e] Cons.IH [OF _ r] Cons.prems(2) Enq e r
    show ?thesis by (auto split: if_splits)
  next
    case Deq
    obtain r1 s1 where e: "deq s = (r1, s1)" by fastforce
    obtain acc1 out1 s2 where r: "fifo_run enq deq ops s1 = (acc1, out1, s2)"
      by (cases "fifo_run enq deq ops s1") auto
    from deq_cases [OF Cons.prems(1) e] Cons.IH [OF _ r] Cons.prems(2) Deq e r
    show ?thesis by (auto split: option.splits)
  qed
qed simp

text \<open>An element is refused only when the queue is full.\<close>

lemma accepted_when_space:
  "inv s \<Longrightarrow> fst (enq x s) = (length (contents s) < cap)"
  using enq_cases [of s x "fst (enq x s)" "snd (enq x s)"] by simp

end

section \<open>Every ring of an array and two indices meets the contract\<close>

lemma ring_bounded_fifo:
  assumes n: "0 < n"
    and enq: "\<And>x s. ring_inv n (buf s) (h s) (t s) \<Longrightarrow>
      (if Suc (h s) mod n = t s then enq x s = (False, s)
       else fst (enq x s) \<and> buf (snd (enq x s)) = (buf s)[h s := x] \<and> h (snd (enq x s)) = Suc (h s) mod n \<and> t (snd (enq x s)) = t s)"
    and deq: "\<And>s. ring_inv n (buf s) (h s) (t s) \<Longrightarrow>
      (if h s = t s then deq s = (None, s)
       else fst (deq s) = Some (buf s ! t s) \<and> buf (snd (deq s)) = buf s \<and> h (snd (deq s)) = h s \<and> t (snd (deq s)) = Suc (t s) mod n)"
  shows "bounded_fifo (n - 1) (\<lambda>s. ring_inv n (buf s) (h s) (t s)) (\<lambda>s. ring_contents n (buf s) (h s) (t s)) enq deq"
proof (unfold_locales, goal_cases)
  case (1 s x)
  then show ?case using enq [of s x] ring_full_iff [of n "buf s" "h s" "t s"] by (auto simp: ring_push)
next
  case (2 s x)
  then have "length (ring_contents n (buf s) (h s) (t s)) = n - 1" using ring_length_bound [of n "buf s" "h s" "t s"] by linarith
  then show ?case using 2 enq [of s x] ring_full_iff [of n "buf s" "h s" "t s"] by simp
next
  case (3 s)
  then show ?case using deq [of s] by (simp add: ring_empty_iff)
next
  case (4 s x xs)
  then have "h s \<noteq> t s" using ring_empty_iff [of n "buf s" "h s" "t s"] by auto
  then show ?case using 4 deq [of s] ring_pop [of n "buf s" "h s" "t s"] by simp
next
  case (5 s x)
  then show ?case using enq [of s x] by (auto simp: ring_inv_push split: if_splits)
next
  case (6 s)
  then show ?case using deq [of s] by (auto simp: ring_inv_pop split: if_splits)
qed

section \<open>The byte queue of ring_buffer.h\<close>

text \<open>The indices are \<open>uint8_t\<close> and stay below \<open>RBUF_SIZE\<close>, so they are modelled as \<open>nat\<close>.
  \<open>ATOMIC_BLOCK\<close> makes each operation one step; an operation of the model is one step too.\<close>

definition RBUF_SIZE :: nat where "RBUF_SIZE = 32"

record rbuf_state =
  rbuf :: "u8 list"
  rbuf_head :: nat
  rbuf_tail :: nat

definition rbuf_enqueue :: "u8 \<Rightarrow> rbuf_state \<Rightarrow> bool \<times> rbuf_state" where
  "rbuf_enqueue data s =
     (let nxt = (rbuf_head s + 1) mod RBUF_SIZE in
      if nxt \<noteq> rbuf_tail s
      then (True, s\<lparr>rbuf := (rbuf s)[rbuf_head s := data], rbuf_head := nxt\<rparr>)
      else (False, s))"

definition rbuf_dequeue :: "rbuf_state \<Rightarrow> u8 \<times> rbuf_state" where
  "rbuf_dequeue s =
     (if rbuf_head s \<noteq> rbuf_tail s
      then (rbuf s ! rbuf_tail s, s\<lparr>rbuf_tail := (rbuf_tail s + 1) mod RBUF_SIZE\<rparr>)
      else (0, s))"

definition rbuf_has_data :: "rbuf_state \<Rightarrow> bool" where
  "rbuf_has_data s = (rbuf_head s \<noteq> rbuf_tail s)"

definition rbuf_clear :: "rbuf_state \<Rightarrow> rbuf_state" where
  "rbuf_clear s = s\<lparr>rbuf_head := 0, rbuf_tail := 0\<rparr>"

definition rbuf_init :: rbuf_state where
  "rbuf_init = \<lparr>rbuf = replicate RBUF_SIZE 0, rbuf_head = 0, rbuf_tail = 0\<rparr>"

text \<open>A caller asks \<open>rbuf_has_data\<close> before it takes a byte: the queue's \<open>deq\<close>.\<close>

definition rbuf_take :: "rbuf_state \<Rightarrow> u8 option \<times> rbuf_state" where
  "rbuf_take s = (if rbuf_has_data s then (case rbuf_dequeue s of (v, s') \<Rightarrow> (Some v, s')) else (None, s))"

definition rbuf_inv :: "rbuf_state \<Rightarrow> bool" where
  "rbuf_inv s = ring_inv RBUF_SIZE (rbuf s) (rbuf_head s) (rbuf_tail s)"

definition rbuf_contents :: "rbuf_state \<Rightarrow> u8 list" where
  "rbuf_contents s = ring_contents RBUF_SIZE (rbuf s) (rbuf_head s) (rbuf_tail s)"

lemmas rbuf_defs = rbuf_enqueue_def rbuf_dequeue_def rbuf_has_data_def rbuf_take_def rbuf_inv_def
  rbuf_contents_def

lemma rbuf_inv_init: "rbuf_inv rbuf_init" "rbuf_contents rbuf_init = []"
  by (simp_all add: rbuf_inv_def rbuf_contents_def rbuf_init_def ring_inv_def ring_contents_def
      RBUF_SIZE_def)

lemma rbuf_clear_empty: "rbuf_inv s \<Longrightarrow> rbuf_inv (rbuf_clear s) \<and> rbuf_contents (rbuf_clear s) = []"
  by (simp add: rbuf_defs rbuf_clear_def ring_inv_def ring_contents_def)

interpretation rb: bounded_fifo "RBUF_SIZE - 1" rbuf_inv rbuf_contents rbuf_enqueue rbuf_take
  unfolding rbuf_inv_def [abs_def] rbuf_contents_def [abs_def]
  by (rule ring_bounded_fifo) (auto simp: rbuf_defs RBUF_SIZE_def Let_def)

text \<open>Over any interleaving of enqueue and dequeue, the bytes queued before plus the accepted ones
  are exactly the delivered ones plus those still queued, in order.\<close>

lemma rbuf_in_order:
  assumes "rbuf_inv s" and "fifo_run rbuf_enqueue rbuf_take ops s = (acc, out, s')"
  shows "rbuf_inv s' \<and> rbuf_contents s @ acc = out @ rbuf_contents s'"
  using assms by (rule rb.run_in_order)

lemma rbuf_in_order_witness:
  "\<exists>s'. rbuf_inv rbuf_init
     \<and> fifo_run rbuf_enqueue rbuf_take [Enq 7, Enq 9, Deq] rbuf_init = ([7, 9], [7], s')
     \<and> rbuf_contents rbuf_init @ [7, 9] = [7] @ rbuf_contents s'"
proof -
  define s' where "s' = snd (snd (fifo_run rbuf_enqueue rbuf_take [Enq 7, Enq 9, Deq] rbuf_init))"
  have r: "fifo_run rbuf_enqueue rbuf_take [Enq 7, Enq 9, Deq] rbuf_init = ([7, 9], [7], s')"
    by (simp add: s'_def rbuf_defs rbuf_init_def RBUF_SIZE_def Let_def nth_list_update)
  with rbuf_in_order [OF rbuf_inv_init(1) r] rbuf_inv_init(1) show ?thesis by blast
qed

end
