(* ===== verification/Triggers.thy ===== *)
theory Triggers
  imports Prelude
begin

text \<open>
  The per-key trigger state machines of the Hall-effect keyboards
  (\<open>keyboards/keychron/common/analog_matrix/\<close>: \<open>analog_matrix_type.h\<close>,
  \<open>action_regular_trigger.c\<close>, \<open>action_rapid_trigger.c\<close>, \<open>action_toggle.c\<close>, and
  \<open>analog_matrix_get_key_state\<close> of \<open>analog_matrix.c\<close>).  A key reports its travel in units of
  1/60 mm (\<open>0.1 mm / TRAVEL_SCALE\<close>) as a \<open>uint8_t\<close>; an action moves the key's state byte and
  says whether the logical key changed.  The locale \<open>trigger\<close> is the contract the matrix scan
  relies on; the rapid trigger is refined by an automaton over unbounded integers.
\<close>

section \<open>Constants\<close>

text \<open>The two enumerations are numbered by C; the state byte is shared with the numbering of
  \<open>action_okmc.c\<close>, so they stay numbers of type \<open>uint8_t\<close>.\<close>

abbreviation AKM_GLOBAL :: u8 where "AKM_GLOBAL \<equiv> 0"
abbreviation AKM_REGULAR :: u8 where "AKM_REGULAR \<equiv> 1"
abbreviation AKM_RAPID :: u8 where "AKM_RAPID \<equiv> 2"
abbreviation AKM_DKS :: u8 where "AKM_DKS \<equiv> 3"
abbreviation AKM_GAMEPAD :: u8 where "AKM_GAMEPAD \<equiv> 4"
abbreviation AKM_TOGGLE :: u8 where "AKM_TOGGLE \<equiv> 5"

abbreviation AKS_REGULAR_RELEASED :: u8 where "AKS_REGULAR_RELEASED \<equiv> 0"
abbreviation AKS_REGULAR_PRESSED :: u8 where "AKS_REGULAR_PRESSED \<equiv> 1"
abbreviation AKS_RAPID_RELEASED :: u8 where "AKS_RAPID_RELEASED \<equiv> 2"
abbreviation AKS_RAPID_PRESSED :: u8 where "AKS_RAPID_PRESSED \<equiv> 3"

abbreviation FULL_TRAVEL_UNIT :: int where "FULL_TRAVEL_UNIT \<equiv> 40"
abbreviation TRAVEL_SCALE :: int where "TRAVEL_SCALE \<equiv> 6"
abbreviation BOTTOM_DEAD_ZONE :: int where "BOTTOM_DEAD_ZONE \<equiv> 38"

section \<open>The key record\<close>

record activity_point =
  actn_pt :: u8
  deactn_pt :: u8

text \<open>\<open>analog_key_t\<close>.  The union of \<open>rpd_trig_sen\<close>, \<open>okmc_idx\<close>, \<open>js_axis\<close> and \<open>hold\<close> is one
  byte, \<open>ak_data\<close>: a write through one name is read through the others.  The union of \<open>rapid\<close>
  and \<open>full\<close> is two names of one \<open>activity_point_t\<close>.\<close>

record analog_key =
  ak_mode :: u8
  ak_state :: u8
  ak_travel :: u8
  ak_last_travel :: u8
  ak_debug :: bool
  ak_r :: u8
  ak_c :: u8
  ak_value :: u16
  ak_last_val :: u16
  ak_regular :: activity_point
  ak_rapid :: activity_point
  ak_data :: u8
  ak_rpd_trig_sen_rls :: u8

abbreviation rpd_trig_sen :: "analog_key \<Rightarrow> u8" where "rpd_trig_sen \<equiv> ak_data"
abbreviation hold :: "analog_key \<Rightarrow> u8" where "hold \<equiv> ak_data"

definition zero_key :: analog_key where
  "zero_key = \<lparr>ak_mode = 0, ak_state = 0, ak_travel = 0, ak_last_travel = 0, ak_debug = False,
     ak_r = 0, ak_c = 0, ak_value = 0, ak_last_val = 0, ak_regular = \<lparr>actn_pt = 0, deactn_pt = 0\<rparr>,
     ak_rapid = \<lparr>actn_pt = 0, deactn_pt = 0\<rparr>, ak_data = 0, ak_rpd_trig_sen_rls = 0\<rparr>"

section \<open>Regular and toggle triggers\<close>

definition regular_trigger_action :: "analog_key \<Rightarrow> bool \<times> analog_key" where
  "regular_trigger_action k =
     (if ak_state k = AKS_REGULAR_PRESSED \<and>
         (ak_travel k = 0 \<or> ak_travel k < deactn_pt (ak_regular k))
      then (True, k\<lparr>ak_state := AKS_REGULAR_RELEASED\<rparr>)
      else if ak_state k = AKS_REGULAR_RELEASED \<and> actn_pt (ak_regular k) \<le> ak_travel k
      then (True, k\<lparr>ak_state := AKS_REGULAR_PRESSED\<rparr>)
      else (False, k))"

definition toggle_action :: "analog_key \<Rightarrow> bool \<times> analog_key" where
  "toggle_action k =
     (if ak_state k = AKS_REGULAR_PRESSED \<and>
         (ak_travel k = 0 \<or> ak_travel k < deactn_pt (ak_regular k))
      then (False, k\<lparr>ak_state := AKS_REGULAR_RELEASED\<rparr>)
      else if ak_state k = AKS_REGULAR_RELEASED \<and> actn_pt (ak_regular k) < ak_travel k
      then (True, k\<lparr>ak_state := AKS_REGULAR_PRESSED, ak_data := (if hold k = 0 then 1 else 0)\<rparr>)
      else (False, k))"

section \<open>Rapid trigger\<close>

text \<open>The \<open>switch\<close> of \<open>rapid_trigger_action\<close>: new state, \<open>changed\<close> and \<open>update_rapid_pts\<close>.
  The comparison with \<open>BOTTOM_DEAD_ZONE * TRAVEL_SCALE - rpd_trig_sen_rls\<close> is done in \<open>int\<close>,
  where the right side may be negative.\<close>

definition rapid_release_cond :: "analog_key \<Rightarrow> bool" where
  "rapid_release_cond k \<longleftrightarrow>
     ak_travel k \<le> deactn_pt (ak_rapid k) \<and>
     uint (ak_travel k) < BOTTOM_DEAD_ZONE * TRAVEL_SCALE - uint (ak_rpd_trig_sen_rls k)"

definition rapid_switch :: "analog_key \<Rightarrow> u8 \<times> bool \<times> int" where
  "rapid_switch k =
     (if ak_state k = AKS_REGULAR_RELEASED then
        (if actn_pt (ak_regular k) \<le> ak_travel k
         then (AKS_REGULAR_PRESSED, True, 1) else (ak_state k, False, 0))
      else if ak_state k = AKS_REGULAR_PRESSED then
        (if ak_travel k \<le> deactn_pt (ak_regular k) then (AKS_REGULAR_RELEASED, True, 0)
         else if rapid_release_cond k then (AKS_RAPID_RELEASED, True, -1)
         else if actn_pt (ak_rapid k) < ak_travel k then (ak_state k, False, 1)
         else (ak_state k, False, 0))
      else if ak_state k = AKS_RAPID_RELEASED then
        (if ak_travel k \<le> deactn_pt (ak_regular k) then (AKS_REGULAR_RELEASED, False, 0)
         else if actn_pt (ak_rapid k) \<le> ak_travel k \<and> actn_pt (ak_regular k) \<le> ak_travel k
         then (AKS_RAPID_PRESSED, True, 1)
         else if ak_travel k < deactn_pt (ak_rapid k) then (ak_state k, False, -1)
         else (ak_state k, False, 0))
      else if ak_state k = AKS_RAPID_PRESSED then
        (if FULL_TRAVEL_UNIT * TRAVEL_SCALE < uint (ak_travel k) then (ak_state k, False, 0)
         else if ak_travel k \<le> deactn_pt (ak_regular k) then (AKS_REGULAR_RELEASED, True, 0)
         else if rapid_release_cond k then (AKS_RAPID_RELEASED, True, -1)
         else if actn_pt (ak_rapid k) < ak_travel k then (ak_state k, False, 1)
         else (ak_state k, False, 0))
      else (ak_state k, False, 0))"

text \<open>The rapid points follow the travel: down with \<open>update_rapid_pts > 0\<close>, up with \<open>< 0\<close>.  The
  new actuation point after a release is a sum truncated to \<open>uint8_t\<close>.\<close>

definition update_rapid_points :: "int \<Rightarrow> analog_key \<Rightarrow> analog_key" where
  "update_rapid_points upd k =
     (if upd = 0 then k
      else if 0 < upd then
        k\<lparr>ak_rapid := \<lparr>actn_pt = ak_travel k,
           deactn_pt = as_u8 (if 0 < uint (ak_travel k) - uint (ak_rpd_trig_sen_rls k)
                              then uint (ak_travel k) - uint (ak_rpd_trig_sen_rls k) else 0)\<rparr>\<rparr>
      else
        k\<lparr>ak_rapid := \<lparr>actn_pt = as_u8 (uint (ak_travel k) + uint (rpd_trig_sen k)),
           deactn_pt = ak_travel k\<rparr>\<rparr>)"

definition rapid_trigger_action :: "analog_key \<Rightarrow> bool \<times> analog_key" where
  "rapid_trigger_action k =
     (case rapid_switch k of (st, changed, upd) \<Rightarrow>
        (changed, update_rapid_points upd (k\<lparr>ak_state := st\<rparr>)))"

section \<open>The logical key state\<close>

text \<open>\<open>analog_matrix_get_key_state\<close>; \<open>gc\<close> is \<open>game_controller_type_enabled()\<close>.\<close>

definition analog_matrix_get_key_state :: "bool \<Rightarrow> analog_key \<Rightarrow> bool" where
  "analog_matrix_get_key_state gc k =
     (if ak_mode k = AKM_REGULAR then ak_state k = AKS_REGULAR_PRESSED
      else if ak_mode k = AKM_RAPID
      then ak_state k = AKS_REGULAR_PRESSED \<or> ak_state k = AKS_RAPID_PRESSED
      else if ak_mode k = AKM_GAMEPAD then gc \<and> ak_state k = AKS_REGULAR_PRESSED
      else if ak_mode k = AKM_TOGGLE then hold k \<noteq> 0
      else False)"

section \<open>The contract of a trigger action\<close>

text \<open>A trigger reports a change exactly when the logical key flips, and touches neither the
  key's configuration nor its travel.  \<open>conf\<close> is the part of the record an action keeps.\<close>

definition key_conf :: "analog_key \<Rightarrow> u8 \<times> u8 \<times> u8 \<times> u8 \<times> activity_point \<times> u8" where
  "key_conf k = (ak_mode k, ak_r k, ak_c k, ak_travel k, ak_regular k, ak_rpd_trig_sen_rls k)"

text \<open>Feeding a list of travel samples to an action: the reported changes, newest last.\<close>

fun trigger_run :: "(analog_key \<Rightarrow> bool \<times> analog_key) \<Rightarrow> u8 list \<Rightarrow> analog_key \<Rightarrow> bool list \<times> analog_key" where
  "trigger_run act [] k = ([], k)"
| "trigger_run act (t # ts) k =
     (case act (k\<lparr>ak_travel := t\<rparr>) of (ch, k1) \<Rightarrow>
       (case trigger_run act ts k1 of (chs, k2) \<Rightarrow> (ch # chs, k2)))"

lemma trigger_run_Cons [simp]:
  "trigger_run act (t # ts) k =
     (fst (act (k\<lparr>ak_travel := t\<rparr>)) # fst (trigger_run act ts (snd (act (k\<lparr>ak_travel := t\<rparr>)))),
      snd (trigger_run act ts (snd (act (k\<lparr>ak_travel := t\<rparr>)))))"
  by (simp split: prod.splits)

declare trigger_run.simps(2) [simp del]

locale trigger =
  fixes act :: "analog_key \<Rightarrow> bool \<times> analog_key"
    and wf :: "analog_key \<Rightarrow> bool"
    and pressed :: "analog_key \<Rightarrow> bool"
  assumes wf_act: "wf k \<Longrightarrow> wf (snd (act k))"
    and wf_travel: "wf k \<Longrightarrow> wf (k\<lparr>ak_travel := t\<rparr>)"
    and pressed_travel: "pressed (k\<lparr>ak_travel := t\<rparr>) = pressed k"
    and reports: "wf k \<Longrightarrow> fst (act k) \<longleftrightarrow> pressed (snd (act k)) \<noteq> pressed k"
    and keeps_conf: "wf k \<Longrightarrow> key_conf (snd (act k)) = key_conf k"
begin

text \<open>Every reported change is one flip of the logical key, so the parity of the reports is the
  difference between the first and the last logical state: the consumer that counts reports
  never disagrees with the key.\<close>

lemma run_wf: "wf k \<Longrightarrow> wf (snd (trigger_run act ts k))"
  by (induction ts arbitrary: k) (simp_all add: wf_act wf_travel)

lemma run_parity:
  "wf k \<Longrightarrow> odd (count_list (fst (trigger_run act ts k)) True)
     \<longleftrightarrow> pressed (snd (trigger_run act ts k)) \<noteq> pressed k"
proof (induction ts arbitrary: k)
  case (Cons t ts)
  let ?k1 = "snd (act (k\<lparr>ak_travel := t\<rparr>))"
  have "wf ?k1" and "fst (act (k\<lparr>ak_travel := t\<rparr>)) \<longleftrightarrow> pressed ?k1 \<noteq> pressed k"
    using wf_act reports wf_travel [OF Cons.prems, of t] by (simp_all add: pressed_travel)
  with Cons.IH [of ?k1] show ?case by auto
qed simp

end

definition regular_wf :: "analog_key \<Rightarrow> bool" where
  "regular_wf k \<longleftrightarrow> ak_mode k = AKM_REGULAR \<and> ak_state k \<le> 1"

definition toggle_wf :: "analog_key \<Rightarrow> bool" where
  "toggle_wf k \<longleftrightarrow> ak_mode k = AKM_TOGGLE \<and> ak_state k \<le> 1"

definition rapid_wf :: "analog_key \<Rightarrow> bool" where
  "rapid_wf k \<longleftrightarrow> ak_mode k = AKM_RAPID \<and> ak_state k \<le> 3"

lemma u8_le_1: "(x :: u8) \<le> 1 \<longleftrightarrow> x = 0 \<or> x = 1"
proof -
  have "unat x \<le> 1 \<longleftrightarrow> unat x = 0 \<or> unat x = 1" by arith
  then show ?thesis
    by (simp add: word_le_nat_alt word_unat_eq_iff)
qed

lemma u8_le_3: "(x :: u8) \<le> 3 \<longleftrightarrow> x = 0 \<or> x = 1 \<or> x = 2 \<or> x = 3"
proof -
  have "unat x \<le> 3 \<longleftrightarrow> unat x = 0 \<or> unat x = 1 \<or> unat x = 2 \<or> unat x = 3" by arith
  then show ?thesis
    by (simp add: word_le_nat_alt word_unat_eq_iff)
qed

lemma update_rapid_points_frame [simp]:
  "ak_state (update_rapid_points u k) = ak_state k"
  "ak_mode (update_rapid_points u k) = ak_mode k"
  "ak_data (update_rapid_points u k) = ak_data k"
  "key_conf (update_rapid_points u k) = key_conf k"
  "ak_rpd_trig_sen_rls (update_rapid_points u k) = ak_rpd_trig_sen_rls k"
  "ak_travel (update_rapid_points u k) = ak_travel k"
  "ak_regular (update_rapid_points u k) = ak_regular k"
  by (simp_all add: update_rapid_points_def key_conf_def)

lemma key_conf_state [simp]: "key_conf (k\<lparr>ak_state := st\<rparr>) = key_conf k"
  and key_conf_data [simp]: "key_conf (k\<lparr>ak_data := d\<rparr>) = key_conf k"
  by (simp_all add: key_conf_def)

interpretation reg: trigger regular_trigger_action regular_wf "analog_matrix_get_key_state gc"
  for gc
  by unfold_locales
    (auto simp: regular_trigger_action_def regular_wf_def analog_matrix_get_key_state_def u8_le_1)

interpretation tog: trigger toggle_action toggle_wf "analog_matrix_get_key_state gc"
  for gc
  by unfold_locales
    (auto simp: toggle_action_def toggle_wf_def analog_matrix_get_key_state_def u8_le_1)

text \<open>The states the rapid trigger moves through, and when it reports a change.\<close>

abbreviation is_down :: "u8 \<Rightarrow> bool" where
  "is_down st \<equiv> st = AKS_REGULAR_PRESSED \<or> st = AKS_RAPID_PRESSED"

lemma rapid_switch_reports:
  assumes "ak_state k \<le> 3" and "rapid_switch k = (st, ch, upd)"
  shows "st \<le> 3 \<and> (ch \<longleftrightarrow> is_down st \<noteq> is_down (ak_state k))"
proof -
  from assms(1) consider "ak_state k = 0" | "ak_state k = 1" | "ak_state k = 2" | "ak_state k = 3"
    unfolding u8_le_3 by blast
  then show ?thesis
    using assms(2) by cases (simp_all add: rapid_switch_def split: if_split_asm)
qed

interpretation rap: trigger rapid_trigger_action rapid_wf "analog_matrix_get_key_state gc"
  for gc
proof (unfold_locales, goal_cases)
  case (1 k)
  then show ?case
    using rapid_switch_reports [of k]
    by (simp add: rapid_trigger_action_def rapid_wf_def split: prod.splits)
next
  case (4 k)
  obtain st ch upd where sw: "rapid_switch k = (st, ch, upd)" by (cases "rapid_switch k")
  from 4 rapid_switch_reports [OF _ sw] sw show ?case
    by (simp add: rapid_trigger_action_def rapid_wf_def analog_matrix_get_key_state_def)
next
  case (5 k)
  then show ?case by (simp add: rapid_trigger_action_def split: prod.splits)
qed (simp_all add: rapid_wf_def analog_matrix_get_key_state_def)

section \<open>The rapid trigger refines an automaton over the integers\<close>

text \<open>What a rapid trigger promises, with unbounded travel: a key goes down at the actuation
  point, follows the deepest travel while it is down, lifts when it has risen by the release
  sensitivity, follows the shallowest travel while lifted, and goes down again when it has sunk by
  the press sensitivity.  \<open>First\<close> and \<open>Again\<close> keep the deepest travel, \<open>Lifted\<close> the shallowest.
  A re-pressed key ignores samples beyond full travel.\<close>

datatype rt = Idle | First int | Again int | Lifted int

record rt_conf =
  rt_act :: int
  rt_deact :: int
  rt_sen :: int
  rt_rls :: int

definition rt_lifts :: "rt_conf \<Rightarrow> int \<Rightarrow> int \<Rightarrow> bool" where
  "rt_lifts c t p \<longleftrightarrow> t \<le> max 0 (p - rt_rls c) \<and> t < BOTTOM_DEAD_ZONE * TRAVEL_SCALE - rt_rls c"

fun rt_step :: "rt_conf \<Rightarrow> int \<Rightarrow> rt \<Rightarrow> bool \<times> rt" where
  "rt_step c t Idle = (if rt_act c \<le> t then (True, First t) else (False, Idle))"
| "rt_step c t (First p) =
     (if t \<le> rt_deact c then (True, Idle)
      else if rt_lifts c t p then (True, Lifted t)
      else (False, First (max p t)))"
| "rt_step c t (Lifted v) =
     (if t \<le> rt_deact c then (False, Idle)
      else if v + rt_sen c \<le> t \<and> rt_act c \<le> t then (True, Again t)
      else (False, Lifted (min v t)))"
| "rt_step c t (Again p) =
     (if FULL_TRAVEL_UNIT * TRAVEL_SCALE < t then (False, Again p)
      else if t \<le> rt_deact c then (True, Idle)
      else if rt_lifts c t p then (True, Lifted t)
      else (False, Again (max p t)))"

definition rt_conf_of :: "analog_key \<Rightarrow> rt_conf" where
  "rt_conf_of k = \<lparr>rt_act = uint (actn_pt (ak_regular k)), rt_deact = uint (deactn_pt (ak_regular k)),
     rt_sen = uint (rpd_trig_sen k), rt_rls = uint (ak_rpd_trig_sen_rls k)\<rparr>"

definition rt_abs :: "analog_key \<Rightarrow> rt" where
  "rt_abs k =
     (if ak_state k = AKS_REGULAR_PRESSED then First (uint (actn_pt (ak_rapid k)))
      else if ak_state k = AKS_RAPID_PRESSED then Again (uint (actn_pt (ak_rapid k)))
      else if ak_state k = AKS_RAPID_RELEASED then Lifted (uint (deactn_pt (ak_rapid k)))
      else Idle)"

text \<open>While the key is down its release point trails the deepest travel; while it is lifted its
  next actuation point leads the shallowest travel, which stays above the bottom dead zone.\<close>

definition rt_inv :: "analog_key \<Rightarrow> bool" where
  "rt_inv k \<longleftrightarrow> ak_state k \<le> 3
     \<and> (is_down (ak_state k) \<longrightarrow>
          uint (deactn_pt (ak_rapid k)) = max 0 (uint (actn_pt (ak_rapid k)) - uint (ak_rpd_trig_sen_rls k)))
     \<and> (ak_state k = AKS_RAPID_RELEASED \<longrightarrow>
          uint (actn_pt (ak_rapid k)) = uint (deactn_pt (ak_rapid k)) + uint (rpd_trig_sen k)
          \<and> uint (deactn_pt (ak_rapid k)) < BOTTOM_DEAD_ZONE * TRAVEL_SCALE - uint (ak_rpd_trig_sen_rls k))"

text \<open>The sum that sets the next actuation point fits its byte under this bound.\<close>

definition rt_no_wrap :: "analog_key \<Rightarrow> bool" where
  "rt_no_wrap k \<longleftrightarrow> uint (rpd_trig_sen k) \<le> uint (ak_rpd_trig_sen_rls k) + 28"

lemma uint_sub_u8: "uint b \<le> uint a \<Longrightarrow> uint (a - b) = uint a - uint b" for a b :: u8
  using uint_sub_lem [of b a] by simp

lemma uint_add_u8: "uint a + uint b < 256 \<Longrightarrow> uint (a + b) = uint a + uint b" for a b :: u8
  using uint_add_lem [of a b] by simp

lemmas u8_order = word_le_def word_less_def

lemma update_rapid_points_rapid:
  "0 < u \<Longrightarrow> uint (actn_pt (ak_rapid (update_rapid_points u k))) = uint (ak_travel k)"
  "0 < u \<Longrightarrow> uint (deactn_pt (ak_rapid (update_rapid_points u k)))
     = max 0 (uint (ak_travel k) - uint (ak_rpd_trig_sen_rls k))"
  "u < 0 \<Longrightarrow> uint (deactn_pt (ak_rapid (update_rapid_points u k))) = uint (ak_travel k)"
  "u < 0 \<Longrightarrow> uint (ak_travel k) + uint (rpd_trig_sen k) < 256 \<Longrightarrow>
     uint (actn_pt (ak_rapid (update_rapid_points u k))) = uint (ak_travel k) + uint (rpd_trig_sen k)"
  by (simp_all add: update_rapid_points_def uint_sub_u8 uint_add_u8)

lemma rapid_switch_rt:
  assumes inv: "rt_inv k" and sw: "rapid_switch k = (st, ch, upd)"
  shows "(upd \<in> {-1, 0, 1}) \<and> (upd = 1 \<longrightarrow> is_down st) \<and> (upd = -1 \<longrightarrow> st = AKS_RAPID_RELEASED)
    \<and> (upd = -1 \<longrightarrow> uint (ak_travel k) < 228 - uint (ak_rpd_trig_sen_rls k))
    \<and> (upd = 0 \<longrightarrow> st = AKS_REGULAR_RELEASED \<or> st = ak_state k)"
proof -
  from inv have "ak_state k \<le> 3" by (simp add: rt_inv_def)
  then consider "ak_state k = 0" | "ak_state k = 1" | "ak_state k = 2" | "ak_state k = 3"
    unfolding u8_le_3 by blast
  then show ?thesis
  proof cases
    case 3
    with inv sw show ?thesis
      by (simp add: rapid_switch_def rt_inv_def u8_order split: if_split_asm)
  qed (use sw in \<open>simp_all add: rapid_switch_def rapid_release_cond_def split: if_split_asm\<close>)
qed

lemma rt_inv_step:
  assumes inv: "rt_inv k" and nw: "rt_no_wrap k"
  shows "rt_inv (snd (rapid_trigger_action k))"
proof -
  obtain st ch upd where sw: "rapid_switch k = (st, ch, upd)" by (cases "rapid_switch k")
  note facts = rapid_switch_rt [OF inv sw]
  have le3: "st \<le> 3" using rapid_switch_reports [OF _ sw] inv by (simp add: rt_inv_def)
  let ?k1 = "k\<lparr>ak_state := st\<rparr>"
  have res: "snd (rapid_trigger_action k) = update_rapid_points upd ?k1"
    by (simp add: rapid_trigger_action_def sw)
  from facts consider "upd = 1" "is_down st" | "upd = -1" "st = AKS_RAPID_RELEASED"
    | "upd = 0" "st = 0 \<or> st = ak_state k" by auto
  then show ?thesis
  proof cases
    case 1
    then show ?thesis
      using le3 by (auto simp: res rt_inv_def update_rapid_points_rapid)
  next
    case 2
    with facts nw have "uint (ak_travel k) + uint (rpd_trig_sen k) < 256"
      and "uint (ak_travel k) < 228 - uint (ak_rpd_trig_sen_rls k)"
      by (simp_all add: rt_no_wrap_def)
    with 2 show ?thesis
      using le3 by (simp add: res rt_inv_def update_rapid_points_rapid)
  next
    case 3
    with inv le3 show ?thesis
      by (auto simp: res rt_inv_def update_rapid_points_def)
  qed
qed

lemma update_rapid_points_0 [simp]: "update_rapid_points 0 k = k"
  by (simp add: update_rapid_points_def)

lemma rt_lifts_iff:
  "rt_inv k \<Longrightarrow> is_down (ak_state k) \<Longrightarrow>
    rapid_release_cond k = rt_lifts (rt_conf_of k) (uint (ak_travel k)) (uint (actn_pt (ak_rapid k)))"
  by (auto simp: rt_inv_def rapid_release_cond_def rt_lifts_def rt_conf_of_def u8_order)

lemma rt_step_sim:
  assumes inv: "rt_inv k"
  shows "rt_step (rt_conf_of k) (uint (ak_travel k)) (rt_abs k)
    = (fst (rapid_trigger_action k), rt_abs (snd (rapid_trigger_action k)))"
proof -
  from inv have "ak_state k \<le> 3" by (simp add: rt_inv_def)
  then consider "ak_state k = 0" | "ak_state k = 1" | "ak_state k = 2" | "ak_state k = 3"
    unfolding u8_le_3 by blast
  then show ?thesis
  proof cases
    case 1
    then show ?thesis
      by (simp add: rapid_trigger_action_def rapid_switch_def rt_abs_def rt_conf_of_def u8_order
          update_rapid_points_rapid)
  next
    case 2
    with rt_lifts_iff [OF inv] show ?thesis
      by (simp add: rapid_trigger_action_def rapid_switch_def rt_abs_def u8_order
          update_rapid_points_rapid) (simp add: rt_conf_of_def)
  next
    case 3
    with inv show ?thesis
      by (simp add: rapid_trigger_action_def rapid_switch_def rt_abs_def rt_conf_of_def u8_order
          update_rapid_points_rapid rt_inv_def)
  next
    case 4
    with rt_lifts_iff [OF inv] show ?thesis
      by (simp add: rapid_trigger_action_def rapid_switch_def rt_abs_def u8_order
          update_rapid_points_rapid) (simp add: rt_conf_of_def)
  qed
qed

fun rt_run :: "rt_conf \<Rightarrow> int list \<Rightarrow> rt \<Rightarrow> bool list \<times> rt" where
  "rt_run c [] a = ([], a)"
| "rt_run c (t # ts) a =
     (case rt_step c t a of (ch, a1) \<Rightarrow> (case rt_run c ts a1 of (chs, a2) \<Rightarrow> (ch # chs, a2)))"

lemma rt_travel_frame:
  "rt_inv (k\<lparr>ak_travel := t\<rparr>) = rt_inv k" "rt_no_wrap (k\<lparr>ak_travel := t\<rparr>) = rt_no_wrap k"
  "rt_conf_of (k\<lparr>ak_travel := t\<rparr>) = rt_conf_of k" "rt_abs (k\<lparr>ak_travel := t\<rparr>) = rt_abs k"
  by (simp_all add: rt_inv_def rt_no_wrap_def rt_conf_of_def rt_abs_def)

lemma rapid_keeps_conf:
  "rt_conf_of (snd (rapid_trigger_action k)) = rt_conf_of k"
  "rt_no_wrap (snd (rapid_trigger_action k)) = rt_no_wrap k"
  by (simp_all add: rapid_trigger_action_def rt_conf_of_def rt_no_wrap_def split: prod.splits)

section \<open>Properties of the triggers\<close>

text \<open>C1. Over any history of samples the byte-level rapid trigger reports the same changes and
  reaches the same state as an automaton over unbounded integers, when the press sensitivity
  exceeds the release sensitivity by at most 28 units.\<close>

theorem rapid_trigger_refines:
  assumes "rt_inv k" and "rt_no_wrap k"
    and "trigger_run rapid_trigger_action ts k = (chs, k')"
  shows "rt_run (rt_conf_of k) (map uint ts) (rt_abs k) = (chs, rt_abs k') \<and> rt_inv k'"
  using assms
proof (induction ts arbitrary: k chs k')
  case (Cons t ts)
  let ?k = "k\<lparr>ak_travel := t\<rparr>"
  obtain ch k1 where a: "rapid_trigger_action ?k = (ch, k1)" by fastforce
  obtain chs1 k2 where r: "trigger_run rapid_trigger_action ts k1 = (chs1, k2)" by fastforce
  have i: "rt_inv ?k" "rt_no_wrap ?k" using Cons.prems by (simp_all add: rt_travel_frame)
  have "rt_inv k1" "rt_no_wrap k1" "rt_conf_of k1 = rt_conf_of k"
    using rt_inv_step [OF i] rapid_keeps_conf [of ?k] i a by (simp_all add: rt_travel_frame)
  moreover have "rt_step (rt_conf_of k) (uint t) (rt_abs k) = (ch, rt_abs k1)"
    using rt_step_sim [OF i(1)] a by (simp add: rt_travel_frame)
  ultimately show ?case using Cons.IH [OF _ _ r] Cons.prems(3) a r by simp
qed simp

definition demo_key :: "u8 \<Rightarrow> u8 \<Rightarrow> analog_key" where
  "demo_key sen rls = zero_key\<lparr>ak_mode := AKM_RAPID, ak_regular := \<lparr>actn_pt = 120, deactn_pt = 102\<rparr>,
     ak_data := sen, ak_rpd_trig_sen_rls := rls\<rparr>"

lemmas demo_defs = demo_key_def zero_key_def rapid_trigger_action_def rapid_switch_def
  rapid_release_cond_def update_rapid_points_def

theorem rapid_trigger_refines_witness:
  "\<exists>k'. rt_inv (demo_key 24 24) \<and> rt_no_wrap (demo_key 24 24)
     \<and> trigger_run rapid_trigger_action [200, 170, 200] (demo_key 24 24) = ([True, True, True], k')
     \<and> rt_run (rt_conf_of (demo_key 24 24)) (map uint [200 :: u8, 170, 200]) (rt_abs (demo_key 24 24))
          = ([True, True, True], rt_abs k')"
proof -
  define k' where "k' = snd (trigger_run rapid_trigger_action [200, 170, 200] (demo_key 24 24))"
  have i: "rt_inv (demo_key 24 24)" "rt_no_wrap (demo_key 24 24)"
    by (simp_all add: rt_inv_def rt_no_wrap_def demo_defs)
  have r: "trigger_run rapid_trigger_action [200, 170, 200] (demo_key 24 24) = ([True, True, True], k')"
    by (simp add: k'_def demo_defs)
  from rapid_trigger_refines [OF i r] i r show ?thesis by blast
qed

text \<open>Whatever its history, a rapid-trigger key whose travel returns to 0 is released.\<close>

theorem rapid_rest_releases:
  assumes "rapid_wf k" and "0 < actn_pt (ak_regular k)"
  shows "ak_state (snd (rapid_trigger_action (k\<lparr>ak_travel := 0\<rparr>))) = AKS_REGULAR_RELEASED"
proof -
  from assms(1) consider "ak_state k = 0" | "ak_state k = 1" | "ak_state k = 2" | "ak_state k = 3"
    unfolding rapid_wf_def u8_le_3 by blast
  then show ?thesis
    using assms(2)
    by cases (simp_all add: rapid_trigger_action_def rapid_switch_def word_less_def word_le_def)
qed

theorem rapid_rest_releases_witness:
  "rapid_wf (demo_key 24 24) \<and> 0 < actn_pt (ak_regular (demo_key 24 24))
   \<and> ak_state (snd (rapid_trigger_action ((demo_key 24 24)\<lparr>ak_travel := 0\<rparr>))) = AKS_REGULAR_RELEASED"
proof -
  have "rapid_wf (demo_key 24 24)" "0 < actn_pt (ak_regular (demo_key 24 24))"
    by (simp_all add: rapid_wf_def demo_key_def zero_key_def)
  then show ?thesis using rapid_rest_releases by blast
qed

text \<open>C3. The rapid trigger's next actuation point wraps: a key that lifts at travel \<open>t\<close> with
  \<open>t + sensitivity\<close> beyond 255 is reported pressed again by the next sample \<open>t2\<close> even when that
  sample is higher up (the key is still rising), as soon as \<open>t2\<close> is at or above the actuation point
  and the wrapped sum.\<close>

theorem rapid_repress_while_rising:
  assumes "ak_state k = AKS_REGULAR_PRESSED" and "deactn_pt (ak_regular k) < actn_pt (ak_regular k)"
    and "deactn_pt (ak_regular k) < t" and "rapid_release_cond (k\<lparr>ak_travel := t\<rparr>)"
    and "256 \<le> uint t + uint (rpd_trig_sen k)"
    and "actn_pt (ak_regular k) \<le> t2" and "uint t + uint (rpd_trig_sen k) - 256 \<le> uint t2"
    and "t2 < t"
  shows "fst (trigger_run rapid_trigger_action [t, t2] k) = [True, True]
    \<and> is_down (ak_state (snd (trigger_run rapid_trigger_action [t, t2] k)))"
proof -
  have wrap: "uint (t + rpd_trig_sen k) = uint t + uint (rpd_trig_sen k) - 256"
    using assms(5) uint_of_u8(1) [of t] uint_of_u8(1) [of "rpd_trig_sen k"]
    by (simp add: uint_plus_if')
  let ?k1 = "snd (rapid_trigger_action (k\<lparr>ak_travel := t\<rparr>))"
  have "rapid_switch (k\<lparr>ak_travel := t\<rparr>) = (AKS_RAPID_RELEASED, True, -1)"
    using assms(1,3,4) by (simp add: rapid_switch_def not_le)
  then have k1: "rapid_trigger_action (k\<lparr>ak_travel := t\<rparr>) = (True, ?k1)"
    and st: "ak_state ?k1 = AKS_RAPID_RELEASED" "ak_regular ?k1 = ak_regular k"
    and pt: "actn_pt (ak_rapid ?k1) = t + rpd_trig_sen k"
    by (simp_all add: rapid_trigger_action_def update_rapid_points_def)
  have "\<not> t2 \<le> deactn_pt (ak_regular k)" using assms(2,6) by (simp add: u8_order)
  moreover have "t + rpd_trig_sen k \<le> t2" using assms(7) wrap by (simp add: word_le_def)
  ultimately have "rapid_switch (?k1\<lparr>ak_travel := t2\<rparr>) = (AKS_RAPID_PRESSED, True, 1)"
    using assms(6) st pt by (simp add: rapid_switch_def)
  then have "rapid_trigger_action (?k1\<lparr>ak_travel := t2\<rparr>)
      = (True, update_rapid_points 1 (?k1\<lparr>ak_travel := t2, ak_state := AKS_RAPID_PRESSED\<rparr>))"
    by (simp add: rapid_trigger_action_def)
  with k1 show ?thesis by (simp add: prod_eq_iff)
qed

lemma rapid_repress_while_rising_witness:
  "fst (trigger_run rapid_trigger_action [220, 219] (snd (trigger_run rapid_trigger_action [240] (demo_key 60 6))))
     = [True, True]
   \<and> is_down (ak_state (snd (trigger_run rapid_trigger_action [220, 219]
        (snd (trigger_run rapid_trigger_action [240] (demo_key 60 6))))))"
  by (rule rapid_repress_while_rising) (simp_all add: demo_defs)

text \<open>Samples inside the hysteresis band of a static trigger report nothing and keep the key
  state.\<close>

theorem regular_hysteresis:
  assumes "regular_wf k"
    and "list_all (\<lambda>t. 0 < t \<and> deactn_pt (ak_regular k) \<le> t \<and> t < actn_pt (ak_regular k)) ts"
  shows "fst (trigger_run regular_trigger_action ts k) = replicate (length ts) False
    \<and> ak_state (snd (trigger_run regular_trigger_action ts k)) = ak_state k"
  using assms
proof (induction ts arbitrary: k)
  case (Cons t ts)
  have "regular_trigger_action (k\<lparr>ak_travel := t\<rparr>) = (False, k\<lparr>ak_travel := t\<rparr>)"
    using Cons.prems(2) by (auto simp: regular_trigger_action_def not_less)
  moreover have "regular_wf (k\<lparr>ak_travel := t\<rparr>)"
    using Cons.prems(1) by (rule reg.wf_travel)
  ultimately show ?case using Cons.IH [of "k\<lparr>ak_travel := t\<rparr>"] Cons.prems by simp
qed simp

theorem regular_hysteresis_witness:
  "fst (trigger_run regular_trigger_action [110, 119, 102] (zero_key\<lparr>ak_mode := AKM_REGULAR,
      ak_state := 1, ak_regular := \<lparr>actn_pt = 120, deactn_pt = 102\<rparr>\<rparr>)) = replicate 3 False
   \<and> ak_state (snd (trigger_run regular_trigger_action [110, 119, 102] (zero_key\<lparr>ak_mode := AKM_REGULAR,
      ak_state := 1, ak_regular := \<lparr>actn_pt = 120, deactn_pt = 102\<rparr>\<rparr>))) = 1"
proof -
  let ?k = "zero_key\<lparr>ak_mode := AKM_REGULAR, ak_state := 1, ak_regular := \<lparr>actn_pt = 120, deactn_pt = 102\<rparr>\<rparr>"
  have "regular_wf ?k" by (simp add: regular_wf_def)
  moreover have "list_all (\<lambda>t. 0 < t \<and> deactn_pt (ak_regular ?k) \<le> t \<and> t < actn_pt (ak_regular ?k)) [110, 119, 102]"
    by simp
  ultimately show ?thesis
    using regular_hysteresis [of ?k "[110, 119, 102]"] by (simp add: numeral_3_eq_3 del: trigger_run_Cons)
qed

text \<open>C5. The reports of the rapid trigger account for the logical key: over any samples the number of
  reported changes is odd exactly when \<open>analog_matrix_get_key_state\<close> differs between the first and
  the last state.\<close>

theorem rapid_reports_parity:
  assumes "rapid_wf k"
  shows "odd (count_list (fst (trigger_run rapid_trigger_action ts k)) True)
    \<longleftrightarrow> analog_matrix_get_key_state gc (snd (trigger_run rapid_trigger_action ts k))
        \<noteq> analog_matrix_get_key_state gc k"
  using assms by (rule rap.run_parity)

lemma rapid_reports_parity_witness:
  "rapid_wf (demo_key 24 24)
   \<and> (odd (count_list (fst (trigger_run rapid_trigger_action [200] (demo_key 24 24))) True)
    \<longleftrightarrow> analog_matrix_get_key_state False (snd (trigger_run rapid_trigger_action [200] (demo_key 24 24)))
        \<noteq> analog_matrix_get_key_state False (demo_key 24 24))"
proof -
  have "rapid_wf (demo_key 24 24)" by (simp add: rapid_wf_def demo_key_def zero_key_def)
  then show ?thesis using rapid_reports_parity by blast
qed

end
