(* ===== verification/DebounceCore.thy ===== *)
theory DebounceCore
  imports Prelude
begin

text \<open>
  What the debouncers of \<open>keyboards/keychron/common/debounce/\<close> share.  The locale \<open>debouncer\<close> is
  the contract of \<open>debounce(raw, cooked, num_rows, changed)\<close> that the matrix scan uses;
  \<open>reporting_debouncer\<close> adds that the return value says whether \<open>cooked\<close> changed.
  \<open>each_row\<close> is the nested \<open>for\<close> over rows and columns with the pointer that walks the counter
  array, \<open>key_local\<close> says that a loop body acts on its own key only, and the transfer lemmas turn
  such a loop into one automaton per key.
\<close>

section \<open>The contract of a debouncer\<close>

type_synonym 'r scan = "u32 \<times> bool \<times> 'r matrix"

text \<open>One call per matrix scan: the time, the \<open>changed\<close> argument and the raw matrix.\<close>

fun debounce_run ::
  "(u32 \<Rightarrow> bool \<Rightarrow> 'r matrix \<Rightarrow> 'st \<times> 'r matrix \<Rightarrow> bool \<times> 'st \<times> 'r matrix)
   \<Rightarrow> 'r scan list \<Rightarrow> 'st \<times> 'r matrix \<Rightarrow> bool list \<times> 'st \<times> 'r::len matrix"
where
  "debounce_run step [] s = ([], s)"
| "debounce_run step ((now, ch, raw) # scans) s =
     (case step now ch raw s of (b, s1) \<Rightarrow>
       (case debounce_run step scans s1 of (bs, s2) \<Rightarrow> (b # bs, s2)))"

lemma debounce_run_Cons [simp]:
  "debounce_run step ((now, ch, raw) # scans) s =
     (fst (step now ch raw s) # fst (debounce_run step scans (snd (step now ch raw s))),
      snd (debounce_run step scans (snd (step now ch raw s))))"
  by (simp split: prod.splits)

declare debounce_run.simps(2) [simp del]

definition rows_ok :: "nat \<Rightarrow> 'r scan list \<Rightarrow> bool" where
  "rows_ok n scans \<longleftrightarrow> list_all (\<lambda>(now, ch, raw). length raw = n) scans"

locale debouncer =
  fixes step :: "u32 \<Rightarrow> bool \<Rightarrow> 'r::len matrix \<Rightarrow> 'st \<times> 'r matrix \<Rightarrow> bool \<times> 'st \<times> 'r matrix"
    and shape :: "nat \<Rightarrow> 'st \<Rightarrow> bool"
  assumes keeps_shape:
      "shape n st \<Longrightarrow> length raw = n \<Longrightarrow> length ck = n \<Longrightarrow>
        shape n (fst (snd (step now ch raw (st, ck)))) \<and> length (snd (snd (step now ch raw (st, ck)))) = n"
    and follows_raw:
      "shape n st \<Longrightarrow> length raw = n \<Longrightarrow> length ck = n \<Longrightarrow> r < n \<Longrightarrow>
        bit (snd (snd (step now ch raw (st, ck))) ! r) c = bit (ck ! r) c \<or>
        bit (snd (snd (step now ch raw (st, ck))) ! r) c = bit (raw ! r) c"
begin

text \<open>No ghost events: a key whose raw level equals its debounced level in every scan keeps it,
  whatever the other keys and the clock do.\<close>

lemma run_shape:
  assumes "shape n st" and "rows_ok n scans" and "length ck = n"
  shows "shape n (fst (snd (debounce_run step scans (st, ck))))
    \<and> length (snd (snd (debounce_run step scans (st, ck)))) = n"
  using assms
proof (induction scans arbitrary: st ck)
  case (Cons s scans)
  obtain now ch raw where s: "s = (now, ch, raw)" by (cases s)
  let ?s1 = "snd (step now ch raw (st, ck))"
  have "length raw = n" and "rows_ok n scans" using Cons.prems s by (simp_all add: rows_ok_def)
  with keeps_shape [OF Cons.prems(1) _ Cons.prems(3), of raw now ch] Cons.IH [of "fst ?s1" "snd ?s1"]
  show ?case by (simp add: s)
qed simp

lemma run_steady_key:
  assumes "shape n st" and "rows_ok n scans" and "length ck = n" and "r < n"
    and "bit (ck ! r) c = b" and "list_all (\<lambda>(now, ch, raw). bit (raw ! r) c = b) scans"
  shows "bit (snd (snd (debounce_run step scans (st, ck))) ! r) c = b"
  using assms
proof (induction scans arbitrary: st ck)
  case (Cons s scans)
  obtain now ch raw where s: "s = (now, ch, raw)" by (cases s)
  let ?s1 = "snd (step now ch raw (st, ck))"
  have l: "length raw = n" "rows_ok n scans" "bit (raw ! r) c = b"
    using Cons.prems s by (simp_all add: rows_ok_def)
  have "bit (snd ?s1 ! r) c = b"
    using follows_raw [OF Cons.prems(1) l(1) Cons.prems(3,4), of now ch c] Cons.prems(5) l(3) by auto
  with keeps_shape [OF Cons.prems(1) l(1) Cons.prems(3), of now ch] Cons.IH [of "fst ?s1" "snd ?s1"]
    Cons.prems(4,6) l(2)
  show ?case by (simp add: s)
qed simp

end

locale reporting_debouncer = debouncer +
  assumes reports:
    "shape n st \<Longrightarrow> length raw = n \<Longrightarrow> length ck = n \<Longrightarrow>
      fst (step now ch raw (st, ck)) \<longleftrightarrow> snd (snd (step now ch raw (st, ck))) \<noteq> ck"
begin

text \<open>The caller may skip its key processing on every scan that returns \<open>false\<close>: if no call of a
  run reported, the debounced matrix is the one it started with.\<close>

lemma run_silent:
  assumes "shape n st" and "rows_ok n scans" and "length ck = n"
    and "True \<notin> set (fst (debounce_run step scans (st, ck)))"
  shows "snd (snd (debounce_run step scans (st, ck))) = ck"
  using assms
proof (induction scans arbitrary: st ck)
  case (Cons s scans)
  obtain now ch raw where s: "s = (now, ch, raw)" by (cases s)
  let ?s1 = "snd (step now ch raw (st, ck))"
  have l: "length raw = n" "rows_ok n scans" using Cons.prems s by (simp_all add: rows_ok_def)
  obtain st1 ck1 where s1: "?s1 = (st1, ck1)" by fastforce
  have "ck1 = ck"
    using reports [OF Cons.prems(1) l(1) Cons.prems(3), of now ch] Cons.prems(4) s s1 by auto
  with keeps_shape [OF Cons.prems(1) l(1) Cons.prems(3), of now ch] Cons.IH [of st1 ck]
    Cons.prems(4) l(2) s1
  show ?case by (simp add: s)
qed simp

end

section \<open>Loops over rows and columns\<close>

text \<open>The key function gets the raw row, the cooked row as it was when the row was entered, the
  column, the key's counter, and the cooked row and flags it may change.\<close>

type_synonym ('c, 'r, 'f) key_body =
  "'r word \<Rightarrow> 'r word \<Rightarrow> nat \<Rightarrow> 'c \<Rightarrow> 'r word \<times> 'f \<Rightarrow> 'c \<times> 'r word \<times> 'f"

fun each_row ::
  "('c, 'r::len, 'f) key_body \<Rightarrow> 'r matrix \<Rightarrow> 'r matrix \<Rightarrow> 'c list list \<Rightarrow> 'f
   \<Rightarrow> 'c list list \<times> 'r matrix \<times> 'f"
where
  "each_row key (r # rs) (k # ks) (ds # dss) f =
     (case walk (key r k) 0 ds (k, f) of (ds', k', f') \<Rightarrow>
       (case each_row key rs ks dss f' of (dss', ks', f'') \<Rightarrow> (ds' # dss', k' # ks', f'')))"
| "each_row key _ ks dss f = (dss, ks, f)"

text \<open>A body is local when it computes the key's new counter and cooked bit from the key's own
  counter, raw bit and cooked bit (\<open>kf\<close>), leaves the other bits, and updates the flags by \<open>ff\<close>.\<close>

definition key_local ::
  "('c, 'r::len, 'f) key_body \<Rightarrow> (bool \<Rightarrow> bool \<Rightarrow> 'c \<Rightarrow> 'c \<times> bool) \<Rightarrow> (bool \<Rightarrow> bool \<Rightarrow> 'c \<Rightarrow> 'f \<Rightarrow> 'f) \<Rightarrow> bool"
where
  "key_local key kf ff \<longleftrightarrow>
     (\<forall>r k0 c d k f. c < LENGTH('r) \<longrightarrow> bit k c = bit k0 c \<longrightarrow>
        fst (key r k0 c d (k, f)) = fst (kf (bit r c) (bit k0 c) d) \<and>
        (\<forall>n. bit (fst (snd (key r k0 c d (k, f)))) n
              = (if n = c then snd (kf (bit r c) (bit k0 c) d) else bit k n)) \<and>
        snd (snd (key r k0 c d (k, f))) = ff (bit r c) (bit k0 c) d f)"

lemma key_localD:
  assumes "key_local key kf ff" and "c < LENGTH('r::len)" and "bit k c = bit (k0 :: 'r word) c"
  shows "fst (key r k0 c d (k, f)) = fst (kf (bit r c) (bit k0 c) d)"
    and "bit (fst (snd (key r k0 c d (k, f)))) n
      = (if n = c then snd (kf (bit r c) (bit k0 c) d) else bit k n)"
    and "snd (snd (key r k0 c d (k, f))) = ff (bit r c) (bit k0 c) d f"
  using assms unfolding key_local_def by blast+

lemma walk_local:
  fixes k0 :: "'r::len word"
  assumes loc: "key_local key kf ff" and "i + length ds \<le> LENGTH('r)"
    and "\<And>n. i \<le> n \<Longrightarrow> bit k n = bit k0 n"
  shows "(\<forall>j < length ds. fst (walk (key r k0) i ds (k, f)) ! j
            = fst (kf (bit r (i + j)) (bit k0 (i + j)) (ds ! j)))
     \<and> (\<forall>n. bit (fst (snd (walk (key r k0) i ds (k, f)))) n
            = (if i \<le> n \<and> n < i + length ds then snd (kf (bit r n) (bit k0 n) (ds ! (n - i))) else bit k n))
     \<and> snd (snd (walk (key r k0) i ds (k, f)))
            = fold (\<lambda>j. ff (bit r (i + j)) (bit k0 (i + j)) (ds ! j)) [0..<length ds] f"
  using assms(2,3)
proof (induction ds arbitrary: i k f)
  case (Cons d ds)
  let ?b = "key r k0 i d (k, f)"
  have i: "i < LENGTH('r)" "bit k i = bit k0 i" using Cons.prems by simp_all
  note b = key_localD [OF loc i, of r d f]
  have pre: "Suc i + length ds \<le> LENGTH('r)" "\<And>n. Suc i \<le> n \<Longrightarrow> bit (fst (snd ?b)) n = bit k0 n"
    using Cons.prems b(2) by simp_all
  note IH = Cons.IH [OF pre, of "snd (snd ?b)"]
  have fold: "fold (\<lambda>j. ff (bit r (i + j)) (bit k0 (i + j)) ((d # ds) ! j)) [0..<Suc (length ds)] f
    = fold (\<lambda>j. ff (bit r (Suc i + j)) (bit k0 (Suc i + j)) (ds ! j)) [0..<length ds] (ff (bit r i) (bit k0 i) d f)"
    by (simp add: upt_conv_Cons fold_map comp_def del: upt_Suc flip: map_Suc_upt)
  show ?case
  proof (intro conjI allI impI)
    fix j assume "j < length (d # ds)"
    with IH b(1) show "fst (walk (key r k0) i (d # ds) (k, f)) ! j
        = fst (kf (bit r (i + j)) (bit k0 (i + j)) ((d # ds) ! j))"
      by (cases j) (simp_all add: walk_Cons)
  next
    fix n
    from IH b(2) [of n] show "bit (fst (snd (walk (key r k0) i (d # ds) (k, f)))) n
      = (if i \<le> n \<and> n < i + length (d # ds) then snd (kf (bit r n) (bit k0 n) ((d # ds) ! (n - i))) else bit k n)"
      by (auto simp: walk_Cons nth_Cons' Suc_le_eq)
  next
    have "snd ?b = (fst (snd ?b), ff (bit r i) (bit k0 i) d f)" by (simp add: b(3) prod_eq_iff)
    with IH b(3) fold show "snd (snd (walk (key r k0) i (d # ds) (k, f)))
       = fold (\<lambda>j. ff (bit r (i + j)) (bit k0 (i + j)) ((d # ds) ! j)) [0..<length (d # ds)] f"
      by (simp add: walk_Cons)
  qed
qed auto

text \<open>A flag that each key may raise: after the loop it is up if it was or if some key raised it.\<close>

lemma fold_raises:
  assumes "\<And>a b d f. p (ff a b d f) \<longleftrightarrow> p f \<or> P a b d"
  shows "p (fold (\<lambda>j. ff (A j) (B j) (D j)) js f) \<longleftrightarrow> p f \<or> (\<exists>j \<in> set js. P (A j) (B j) (D j))"
  using assms by (induction js arbitrary: f) auto

text \<open>A row of counters may be any length up to the width of a matrix row.\<close>

definition counters_ok :: "nat \<Rightarrow> nat \<Rightarrow> 'c list list \<Rightarrow> bool" where
  "counters_ok bits n dss \<longleftrightarrow> length dss = n \<and> list_all (\<lambda>ds. length ds \<le> bits) dss"

lemma counters_ok_Cons [simp]:
  "counters_ok bits n (ds # dss) \<longleftrightarrow> 0 < n \<and> length ds \<le> bits \<and> counters_ok bits (n - 1) dss"
  by (auto simp: counters_ok_def)

lemma each_row_Cons [loop_simps]:
  "each_row key (r # rs) (k # ks) (ds # dss) f =
     (let w = walk (key r k) 0 ds (k, f); t = each_row key rs ks dss (snd (snd w)) in
       (fst w # fst t, fst (snd w) # fst (snd t), snd (snd t)))"
  by (simp add: Let_def split: prod.splits)

lemma each_row_shape:
  assumes "length rs = n" and "length ks = n" and "length dss = n"
  shows "map length (fst (each_row key rs ks dss f)) = map length dss
    \<and> length (fst (snd (each_row key rs ks dss f))) = n"
  using assms
proof (induction rs arbitrary: ks dss f n)
  case (Cons r0 rs)
  obtain k ks' where k: "ks = k # ks'" using Cons.prems by (cases ks) auto
  obtain ds dss' where d: "dss = ds # dss'" using Cons.prems by (cases dss) auto
  from Cons show ?case
    using Cons.IH [where ks = ks' and n = "n - 1" and dss = dss' and f = "snd (snd (walk (key r0 k) 0 ds (k, f)))"]
    by (auto simp: k d each_row_Cons Let_def simp del: each_row.simps)
qed simp

text \<open>The whole loop, key by key.\<close>

lemma each_row_local:
  fixes ks :: "'r::len matrix"
  assumes loc: "key_local key kf ff" and "length rs = n" and "length ks = n"
    and "counters_ok LENGTH('r) n dss" and "r < n"
  shows "(\<forall>c < length (dss ! r). fst (each_row key rs ks dss f) ! r ! c
            = fst (kf (bit (rs ! r) c) (bit (ks ! r) c) (dss ! r ! c)))
     \<and> (\<forall>c. bit (fst (snd (each_row key rs ks dss f)) ! r) c
            = (if c < length (dss ! r) then snd (kf (bit (rs ! r) c) (bit (ks ! r) c) (dss ! r ! c))
               else bit (ks ! r) c))"
  using assms(2-5)
proof (induction rs arbitrary: ks dss f n r)
  case (Cons r0 rs)
  obtain k ks' where k: "ks = k # ks'" using Cons.prems by (cases ks) auto
  obtain ds dss' where d: "dss = ds # dss'"
    using Cons.prems by (cases dss) (auto simp: counters_ok_def)
  let ?w = "walk (key r0 k) 0 ds (k, f)"
  have len: "length ds \<le> LENGTH('r)" using Cons.prems d by simp
  show ?case
  proof (cases r)
    case 0
    with walk_local [OF loc, of 0 ds k k r0 f] len k d show ?thesis
      by (auto simp: each_row_Cons Let_def simp del: each_row.simps)
  next
    case (Suc q)
    with Cons.prems Cons.IH [where ks = ks' and n = "n - 1" and dss = dss' and r = q and f = "snd (snd ?w)"] k d show ?thesis
      by (auto simp: each_row_Cons Let_def simp del: each_row.simps)
  qed
qed simp

lemma each_row_raises:
  fixes ks :: "'r::len matrix"
  assumes loc: "key_local key kf ff" and p: "\<And>a b d f. p (ff a b d f) \<longleftrightarrow> p f \<or> P a b d"
    and "length rs = n" and "length ks = n" and "counters_ok LENGTH('r) n dss"
  shows "p (snd (snd (each_row key rs ks dss f)))
     \<longleftrightarrow> p f \<or> (\<exists>r < n. \<exists>c < length (dss ! r). P (bit (rs ! r) c) (bit (ks ! r) c) (dss ! r ! c))"
  using assms(3-5)
proof (induction rs arbitrary: ks dss f n)
  case (Cons r0 rs)
  obtain k ks' where k: "ks = k # ks'" using Cons.prems by (cases ks) auto
  obtain ds dss' where d: "dss = ds # dss'"
    using Cons.prems by (cases dss) (auto simp: counters_ok_def)
  let ?f' = "snd (snd (walk (key r0 k) 0 ds (k, f)))"
  have "?f' = fold (\<lambda>j. ff (bit r0 j) (bit k j) (ds ! j)) [0..<length ds] f"
    using walk_local [OF loc, of 0 ds k k r0 f] Cons.prems d by simp
  moreover have "p (fold (\<lambda>j. ff (bit r0 j) (bit k j) (ds ! j)) [0..<length ds] f)
    \<longleftrightarrow> p f \<or> (\<exists>c \<in> set [0..<length ds]. P (bit r0 c) (bit k c) (ds ! c))"
    by (rule fold_raises) (rule p)
  ultimately have row: "p ?f' \<longleftrightarrow> p f \<or> (\<exists>c < length ds. P (bit r0 c) (bit k c) (ds ! c))"
    by (auto simp: Bex_def)
  obtain m where m: "n = Suc m" using Cons.prems by (cases n) auto
  have "p (snd (snd (each_row key rs ks' dss' ?f')))
     \<longleftrightarrow> p ?f' \<or> (\<exists>r < m. \<exists>c < length (dss' ! r). P (bit (rs ! r) c) (bit (ks' ! r) c) (dss' ! r ! c))"
    using Cons.IH [where ks = ks' and n = m and dss = dss' and f = ?f'] Cons.prems m k d by simp
  then show ?case using row m k d
    by (auto simp: Ex_less_Suc2 each_row_Cons Let_def simp del: each_row.simps)
qed (simp add: counters_ok_def)

end
