(* ===== verification/DebouncePerKey.thy ===== *)
theory DebouncePerKey
  imports DebounceCore
begin

text \<open>
  The per-key debouncers \<open>sym_defer_pk.c\<close>, \<open>sym_eager_pk.c\<close> and \<open>asym_eager_defer_pk.c\<close>.  The three
  files share the body of their \<open>debounce\<close> function, \<open>pk_debounce\<close> here; they differ in the loop
  body that counts the keys down (\<open>pk_tick\<close>) and the one that starts counters or transfers
  (\<open>pk_pass\<close> of the second body).  The locale \<open>pk_automaton\<close> states what such a pair of bodies must
  satisfy for the board-level function to act as one automaton per key; it is interpreted on the
  three algorithms, and the timing theorems are proved of the key automata.
\<close>

section \<open>The common body\<close>

text \<open>The file-level statics.  \<open>sym_defer_pk.c\<close> has no \<open>matrix_need_update\<close>: its field stays unused.\<close>

record 'c pk =
  pk_counters :: "'c list list"
  pk_last_time :: u32
  pk_counters_need_update :: bool
  pk_matrix_need_update :: bool

text \<open>\<open>counters_need_update\<close>, \<open>matrix_need_update\<close>, \<open>cooked_changed\<close> as a loop leaves them.\<close>

type_synonym pk_flags = "bool \<times> bool \<times> bool"

definition pk_pass ::
  "('c, 'r::len, pk_flags) key_body \<Rightarrow> 'r matrix \<Rightarrow> bool \<Rightarrow> 'c pk \<Rightarrow> 'r matrix \<Rightarrow> bool \<times> 'c pk \<times> 'r matrix"
where
  "pk_pass body raw cc s cooked =
     (case each_row body raw cooked (pk_counters s)
             (pk_counters_need_update s, pk_matrix_need_update s, cc) of
       (counters', cooked', nu, mnu, cc') \<Rightarrow>
         (cc', s\<lparr>pk_counters := counters', pk_counters_need_update := nu,
                pk_matrix_need_update := mnu\<rparr>, cooked'))"

definition clamp_elapsed :: "'a::len word \<Rightarrow> u8" where
  "clamp_elapsed t = (if unat t > 255 then 255 else ucast t)"

definition pk_tick ::
  "(u8 \<Rightarrow> ('c, 'r::len, pk_flags) key_body) \<Rightarrow> u32 \<Rightarrow> 'r matrix \<Rightarrow> 'c pk \<times> 'r matrix \<Rightarrow> bool \<times> 'c pk \<times> 'r matrix"
where
  "pk_tick upd now raw = (\<lambda>(s, cooked).
     if pk_counters_need_update s then
       (let elapsed = clamp_elapsed (timer_diff now (pk_last_time s));
            s1 = s\<lparr>pk_last_time := now\<rparr>
        in if elapsed > 0
           then pk_pass (upd elapsed) raw False
                  (s1\<lparr>pk_counters_need_update := False, pk_matrix_need_update := False\<rparr>) cooked
           else (False, s1, cooked))
     else (False, s, cooked))"

definition pk_debounce ::
  "bool \<Rightarrow> (u8 \<Rightarrow> ('c, 'r::len, pk_flags) key_body) \<Rightarrow> ('c, 'r, pk_flags) key_body
   \<Rightarrow> u32 \<Rightarrow> bool \<Rightarrow> 'r matrix \<Rightarrow> 'c pk \<times> 'r matrix \<Rightarrow> bool \<times> 'c pk \<times> 'r matrix"
where
  "pk_debounce eager upd tr now changed raw st =
     (case pk_tick upd now raw st of (cc, s1, cooked1) \<Rightarrow>
       if changed \<or> (eager \<and> pk_matrix_need_update s1) then
         pk_pass tr raw cc
           (s1\<lparr>pk_last_time := (if pk_counters_need_update (fst st) then pk_last_time s1 else now),
              pk_matrix_need_update := False\<rparr>) cooked1
       else (cc, s1, cooked1))"

section \<open>The interface of the loop bodies\<close>

text \<open>The milliseconds a call counts down; \<open>0\<close> when the countdown loop does not run.\<close>

definition pk_elapsed :: "u32 \<Rightarrow> 'c pk \<Rightarrow> u8" where
  "pk_elapsed now s =
     (if pk_counters_need_update s then clamp_elapsed (timer_diff now (pk_last_time s)) else 0)"

definition pk_shape :: "nat \<Rightarrow> nat \<Rightarrow> 'c pk \<Rightarrow> bool" where
  "pk_shape bits n s \<longleftrightarrow> counters_ok bits n (pk_counters s)"

text \<open>One key of a call: count down, then start or transfer when that loop runs.\<close>

definition pk_key ::
  "(u8 \<Rightarrow> bool \<Rightarrow> bool \<Rightarrow> 'c \<Rightarrow> 'c \<times> bool) \<Rightarrow> (bool \<Rightarrow> bool \<Rightarrow> 'c \<Rightarrow> 'c \<times> bool)
   \<Rightarrow> u8 \<Rightarrow> bool \<Rightarrow> bool \<Rightarrow> 'c \<times> bool \<Rightarrow> 'c \<times> bool"
where
  "pk_key kfu kft elapsed moved a = (\<lambda>(d, k).
     (let (d1, k1) = (if elapsed > 0 then kfu elapsed a k d else (d, k))
      in if moved then kft a k1 d1 else (d1, k1)))"

definition pk_view :: "nat \<Rightarrow> nat \<Rightarrow> 'c pk \<times> 'r::len matrix \<Rightarrow> 'c \<times> bool" where
  "pk_view r c = (\<lambda>(s, cooked). (pk_counters s ! r ! c, bit (cooked ! r) c))"

definition pk_flags_of :: "bool \<times> 'c pk \<times> 'm \<Rightarrow> pk_flags" where
  "pk_flags_of = (\<lambda>(cc, s, _). (pk_counters_need_update s, pk_matrix_need_update s, cc))"

lemma pk_pass_proj:
  fixes body :: "('c, 'r::len, pk_flags) key_body"
  defines "loop s cc raw cooked \<equiv> each_row body raw cooked (pk_counters s)
             (pk_counters_need_update s, pk_matrix_need_update s, cc)"
  shows "pk_counters (fst (snd (pk_pass body raw cc s cooked))) = fst (loop s cc raw cooked)"
    and "snd (snd (pk_pass body raw cc s cooked)) = fst (snd (loop s cc raw cooked))"
    and "pk_flags_of (pk_pass body raw cc s cooked) = snd (snd (loop s cc raw cooked))"
    and "pk_last_time (fst (snd (pk_pass body raw cc s cooked))) = pk_last_time s"
  by (simp_all add: pk_pass_def loop_def pk_flags_of_def split_beta)

lemma counters_ok_cong:
  assumes "map length dss = map length dss'"
  shows "counters_ok bits n dss \<longleftrightarrow> counters_ok bits n dss'"
proof -
  have "length dss = length dss'" using assms by (metis length_map)
  moreover have "list_all (\<lambda>ds. length ds \<le> bits) xs = list_all (\<lambda>l. l \<le> bits) (map length xs)"
    for xs :: "'b list list" by (simp add: list_all_iff)
  moreover have "list_all (\<lambda>ds. length ds \<le> bits) xs = list_all (\<lambda>l. l \<le> bits) (map length xs)"
    for xs :: "'a list list" by (simp add: list_all_iff)
  ultimately show ?thesis using assms by (simp add: counters_ok_def)
qed

lemma pass_shape:
  assumes "pk_shape bits n s" and "length raw = n" and "length cooked = n"
  shows "pk_shape bits n (fst (snd (pk_pass body raw cc s cooked)))"
    and "length (snd (snd (pk_pass body raw cc s cooked))) = n"
    and "map length (pk_counters (fst (snd (pk_pass body raw cc s cooked)))) = map length (pk_counters s)"
proof -
  have "length (pk_counters s) = n" using assms by (simp add: pk_shape_def counters_ok_def)
  note shape = each_row_shape [OF assms(2,3) this, of body
      "(pk_counters_need_update s, pk_matrix_need_update s, cc)"]
  then show "map length (pk_counters (fst (snd (pk_pass body raw cc s cooked)))) = map length (pk_counters s)"
    and "length (snd (snd (pk_pass body raw cc s cooked))) = n"
    by (simp_all add: pk_pass_proj)
  with shape assms(1) counters_ok_cong show "pk_shape bits n (fst (snd (pk_pass body raw cc s cooked)))"
    by (auto simp: pk_shape_def pk_pass_proj)
qed

text \<open>What one pass does to one key, and which flags it leaves.\<close>

lemma pass_view:
  fixes body :: "('c, 'r::len, pk_flags) key_body"
  assumes loc: "key_local body kf ff"
    and "pk_shape LENGTH('r) n s" and "length raw = n" and "length cooked = n"
    and "r < n" and "c < length (pk_counters s ! r)"
  shows "pk_view r c (snd (pk_pass body raw cc s cooked))
    = kf (bit (raw ! r) c) (bit (cooked ! r) c) (pk_counters s ! r ! c)"
  using each_row_local [OF loc assms(3,4) _ assms(5), of "pk_counters s"] assms(2,6)
  by (simp add: pk_view_def pk_pass_proj pk_shape_def prod_eq_iff split_beta)

lemma pass_outside:
  fixes body :: "('c, 'r::len, pk_flags) key_body"
  assumes loc: "key_local body kf ff"
    and "pk_shape LENGTH('r) n s" and "length raw = n" and "length cooked = n"
    and "r < n" and "\<not> c < length (pk_counters s ! r)"
  shows "bit (snd (snd (pk_pass body raw cc s cooked)) ! r) c = bit (cooked ! r) c"
  using each_row_local [OF loc assms(3,4) _ assms(5), of "pk_counters s"] assms(2,6)
  by (simp add: pk_pass_proj pk_shape_def)

lemma pass_flag:
  fixes body :: "('c, 'r::len, pk_flags) key_body"
  assumes loc: "key_local body kf ff"
    and "\<And>a b d f. p (ff a b d f) \<longleftrightarrow> p f \<or> P a b d"
    and "pk_shape LENGTH('r) n s" and "length raw = n" and "length cooked = n"
  shows "p (pk_flags_of (pk_pass body raw cc s cooked))
    \<longleftrightarrow> p (pk_counters_need_update s, pk_matrix_need_update s, cc)
      \<or> (\<exists>r < n. \<exists>c < length (pk_counters s ! r).
            P (bit (raw ! r) c) (bit (cooked ! r) c) (pk_counters s ! r ! c))"
  using each_row_raises [OF loc, of p P, OF assms(2,4,5), of "pk_counters s"] assms(3)
  by (simp add: pk_pass_proj pk_shape_def)

locale pk_automaton =
  fixes eager :: bool
    and upd :: "u8 \<Rightarrow> ('c, 'r::len, pk_flags) key_body"
    and tr :: "('c, 'r, pk_flags) key_body"
    and kfu :: "u8 \<Rightarrow> bool \<Rightarrow> bool \<Rightarrow> 'c \<Rightarrow> 'c \<times> bool"
    and ffu :: "u8 \<Rightarrow> bool \<Rightarrow> bool \<Rightarrow> 'c \<Rightarrow> pk_flags \<Rightarrow> pk_flags"
    and kft :: "bool \<Rightarrow> bool \<Rightarrow> 'c \<Rightarrow> 'c \<times> bool"
    and fft :: "bool \<Rightarrow> bool \<Rightarrow> 'c \<Rightarrow> pk_flags \<Rightarrow> pk_flags"
    and active :: "'c \<Rightarrow> bool" and starts :: "bool \<Rightarrow> bool \<Rightarrow> 'c \<Rightarrow> bool"
    and expires :: "u8 \<Rightarrow> 'c \<Rightarrow> bool"
  assumes upd_local: "key_local (upd el) (kfu el) (ffu el)"
    and tr_local: "key_local tr kft fft"
    and upd_cooked: "snd (kfu el a b d) = b \<or> snd (kfu el a b d) = a"
    and tr_cooked: "snd (kft a b d) = b \<or> snd (kft a b d) = a"
    and upd_flags: "fst (ffu el a b d f) \<longleftrightarrow> fst f \<or> active (fst (kfu el a b d))"
      "fst (snd (ffu el a b d f)) \<longleftrightarrow> fst (snd f) \<or> expires el d"
      "snd (snd (ffu el a b d f)) \<longleftrightarrow> snd (snd f) \<or> snd (kfu el a b d) \<noteq> b"
    and tr_flags: "fst (fft a b d f) \<longleftrightarrow> fst f \<or> starts a b d"
      "fst (snd (fft a b d f)) \<longleftrightarrow> fst (snd f)"
      "snd (snd (fft a b d f)) \<longleftrightarrow> snd (snd f) \<or> snd (kft a b d) \<noteq> b"
    and tr_active: "active (fst (kft a b d)) \<Longrightarrow> active d \<or> starts a b d"
begin

text \<open>Every key of a call is a step of its own automaton; the transfer loop runs for all keys or none.\<close>

lemma tick_shape:
  assumes "pk_shape bits n s" and "length raw = n" and "length cooked = n"
  shows "pk_shape bits n (fst (snd (pk_tick upd now raw (s, cooked))))"
    and "length (snd (snd (pk_tick upd now raw (s, cooked)))) = n"
    and "map length (pk_counters (fst (snd (pk_tick upd now raw (s, cooked))))) = map length (pk_counters s)"
  using assms pass_shape [of bits n
      "s\<lparr>pk_last_time := now, pk_counters_need_update := False, pk_matrix_need_update := False\<rparr>" raw cooked]
  by (simp_all add: pk_tick_def Let_def pk_shape_def)

lemma step_shape:
  assumes "pk_shape bits n s" and "length raw = n" and "length cooked = n"
  shows "pk_shape bits n (fst (snd (pk_debounce eager upd tr now changed raw (s, cooked))))"
    and "length (snd (snd (pk_debounce eager upd tr now changed raw (s, cooked)))) = n"
    and "map length (pk_counters (fst (snd (pk_debounce eager upd tr now changed raw (s, cooked))))) = map length (pk_counters s)"
proof -
  obtain cc s1 k1 where t: "pk_tick upd now raw (s, cooked) = (cc, s1, k1)" by (metis prod_cases3)
  note ts = tick_shape [OF assms, of now, unfolded t, simplified]
  let ?s2 = "s1\<lparr>pk_last_time := (if pk_counters_need_update s then pk_last_time s1 else now),
     pk_matrix_need_update := False\<rparr>"
  have "pk_shape bits n ?s2" using ts(1) by (simp add: pk_shape_def)
  note ps = pass_shape [OF this assms(2) ts(2), of tr cc]
  from ts ps show "pk_shape bits n (fst (snd (pk_debounce eager upd tr now changed raw (s, cooked))))"
    and "length (snd (snd (pk_debounce eager upd tr now changed raw (s, cooked)))) = n"
    and "map length (pk_counters (fst (snd (pk_debounce eager upd tr now changed raw (s, cooked))))) = map length (pk_counters s)"
    by (simp_all add: pk_debounce_def t)
qed

abbreviation kfu0 :: "u8 \<Rightarrow> bool \<Rightarrow> bool \<Rightarrow> 'c \<Rightarrow> 'c \<times> bool" where
  "kfu0 el a b d \<equiv> (if el > 0 then kfu el a b d else (d, b))"

lemma tick_view:
  assumes "pk_shape LENGTH('r) n s" and "length raw = n" and "length cooked = n"
    and "r < n" and "c < length (pk_counters s ! r)"
  shows "pk_view r c (snd (pk_tick upd now raw (s, cooked)))
    = kfu0 (pk_elapsed now s) (bit (raw ! r) c) (bit (cooked ! r) c) (pk_counters s ! r ! c)"
  using assms(4,5) pass_view [OF upd_local _ assms(2,3,4), of
      "s\<lparr>pk_last_time := now, pk_counters_need_update := False, pk_matrix_need_update := False\<rparr>" c] assms(1)
  by (auto simp: pk_tick_def pk_elapsed_def Let_def pk_shape_def) (simp_all add: pk_view_def)

lemma tick_outside:
  assumes "pk_shape LENGTH('r) n s" and "length raw = n" and "length cooked = n"
    and "r < n" and "\<not> c < length (pk_counters s ! r)"
  shows "bit (snd (snd (pk_tick upd now raw (s, cooked))) ! r) c = bit (cooked ! r) c"
  using assms(4,5) pass_outside [OF upd_local _ assms(2,3,4), of
      "s\<lparr>pk_last_time := now, pk_counters_need_update := False, pk_matrix_need_update := False\<rparr>" c] assms(1)
  by (simp add: pk_tick_def Let_def pk_shape_def)

lemma tick_flags:
  fixes now :: u32 and n :: nat and s :: "'c pk" and raw cooked :: "'r matrix"
  assumes "pk_shape LENGTH('r) n s" and "length raw = n" and "length cooked = n"
  defines "el \<equiv> pk_elapsed now s"
    and "some P \<equiv> \<exists>r < n. \<exists>c < length (pk_counters s ! r).
            P (bit (raw ! r) c) (bit (cooked ! r) c) (pk_counters s ! r ! c)"
  shows "pk_counters_need_update (fst (snd (pk_tick upd now raw (s, cooked))))
      \<longleftrightarrow> (if el > 0 then some (\<lambda>a b d. active (fst (kfu el a b d))) else pk_counters_need_update s)"
    and "pk_matrix_need_update (fst (snd (pk_tick upd now raw (s, cooked))))
      \<longleftrightarrow> (if el > 0 then some (\<lambda>a b d. expires el d) else pk_matrix_need_update s)"
    and "fst (pk_tick upd now raw (s, cooked)) \<longleftrightarrow> some (\<lambda>a b d. snd (kfu0 el a b d) \<noteq> b)"
proof -
  let ?s = "s\<lparr>pk_last_time := now, pk_counters_need_update := False, pk_matrix_need_update := False\<rparr>"
  have sh: "pk_shape LENGTH('r) n ?s" using assms(1) by (simp add: pk_shape_def)
  note flag = pass_flag [OF upd_local _ sh assms(2,3), of _ el _ False]
  note nu = flag [of fst "\<lambda>a b d. active (fst (kfu el a b d))", OF upd_flags(1)]
  note mnu = flag [of "\<lambda>f. fst (snd f)" "\<lambda>a b d. expires el d", OF upd_flags(2)]
  note cc = flag [of "\<lambda>f. snd (snd f)" "\<lambda>a b d. snd (kfu el a b d) \<noteq> b", OF upd_flags(3)]
  have flags: "pk_flags_of (pk_tick upd now raw (s, cooked)) =
      (if el > 0 then pk_flags_of (pk_pass (upd el) raw False ?s cooked)
       else (pk_counters_need_update s, pk_matrix_need_update s, False))"
    by (simp add: pk_tick_def el_def pk_elapsed_def Let_def pk_flags_of_def)
  have proj: "pk_counters_need_update (fst (snd t)) = fst (pk_flags_of t)"
    "pk_matrix_need_update (fst (snd t)) = fst (snd (pk_flags_of t))"
    "fst t = snd (snd (pk_flags_of t))" for t :: "bool \<times> 'c pk \<times> 'r matrix"
    by (simp_all add: pk_flags_of_def split_beta)
  show "pk_counters_need_update (fst (snd (pk_tick upd now raw (s, cooked))))
      \<longleftrightarrow> (if el > 0 then some (\<lambda>a b d. active (fst (kfu el a b d))) else pk_counters_need_update s)"
    unfolding proj flags using nu by (simp add: some_def)
  show "pk_matrix_need_update (fst (snd (pk_tick upd now raw (s, cooked))))
      \<longleftrightarrow> (if el > 0 then some (\<lambda>a b d. expires el d) else pk_matrix_need_update s)"
    unfolding proj flags using mnu by (simp add: some_def)
  show "fst (pk_tick upd now raw (s, cooked)) \<longleftrightarrow> some (\<lambda>a b d. snd (kfu0 el a b d) \<noteq> b)"
    unfolding proj flags using cc by (simp add: some_def)
qed

text \<open>Whether a call runs its second loop.\<close>

definition moves :: "u32 \<Rightarrow> bool \<Rightarrow> 'r matrix \<Rightarrow> 'c pk \<times> 'r matrix \<Rightarrow> bool" where
  "moves now changed raw st \<longleftrightarrow>
     changed \<or> (eager \<and> pk_matrix_need_update (fst (snd (pk_tick upd now raw st))))"

lemma step_view:
  assumes "pk_shape LENGTH('r) n s" and "length raw = n" and "length cooked = n"
    and "r < n" and "c < length (pk_counters s ! r)"
  shows "pk_view r c (snd (pk_debounce eager upd tr now changed raw (s, cooked)))
    = pk_key kfu kft (pk_elapsed now s) (moves now changed raw (s, cooked)) (bit (raw ! r) c)
        (pk_view r c (s, cooked))"
proof -
  obtain cc s1 k1 where t: "pk_tick upd now raw (s, cooked) = (cc, s1, k1)" by (metis prod_cases3)
  note ts = tick_shape [OF assms(1-3), of now, unfolded t, simplified]
  note tv = tick_view [OF assms, of now, unfolded t, simplified]
  let ?s2 = "s1\<lparr>pk_last_time := (if pk_counters_need_update s then pk_last_time s1 else now),
     pk_matrix_need_update := False\<rparr>"
  have "pk_shape LENGTH('r) n ?s2" using ts(1) by (simp add: pk_shape_def)
  moreover have "c < length (pk_counters ?s2 ! r)"
    using assms(4,5) ts(3) assms(1) by (simp add: pk_shape_def counters_ok_def) (metis length_map nth_map)
  ultimately have "pk_view r c (snd (pk_pass tr raw cc ?s2 k1))
      = kft (bit (raw ! r) c) (bit (k1 ! r) c) (pk_counters s1 ! r ! c)"
    using pass_view [OF tr_local _ assms(2) ts(2) assms(4), of ?s2 c] by simp
  with tv show ?thesis
    by (auto simp: pk_debounce_def moves_def pk_key_def t pk_view_def split: prod.splits if_splits)
qed

lemma step_flags:
  fixes now :: u32 and n :: nat and s :: "'c pk" and raw cooked :: "'r matrix"
  assumes "pk_shape LENGTH('r) n s" and "length raw = n" and "length cooked = n"
    and t: "pk_tick upd now raw (s, cooked) = (cc, s1, k1)"
  defines "some P \<equiv> \<exists>r < n. \<exists>c < length (pk_counters s ! r).
            P (bit (raw ! r) c) (bit (k1 ! r) c) (pk_counters s1 ! r ! c)"
  shows "pk_counters_need_update (fst (snd (pk_debounce eager upd tr now changed raw (s, cooked))))
      \<longleftrightarrow> pk_counters_need_update s1 \<or> (moves now changed raw (s, cooked) \<and> some starts)"
    and "fst (pk_debounce eager upd tr now changed raw (s, cooked))
      \<longleftrightarrow> cc \<or> (moves now changed raw (s, cooked) \<and> some (\<lambda>a b d. snd (kft a b d) \<noteq> b))"
proof -
  note ts = tick_shape [OF assms(1-3), of now, unfolded t, simplified]
  let ?s2 = "s1\<lparr>pk_last_time := (if pk_counters_need_update s then pk_last_time s1 else now),
     pk_matrix_need_update := False\<rparr>"
  have sh: "pk_shape LENGTH('r) n ?s2" using ts(1) by (simp add: pk_shape_def)
  have lens: "length (pk_counters s1 ! r) = length (pk_counters s ! r)" if "r < n" for r
    using that ts(3) assms(1) by (simp add: pk_shape_def counters_ok_def) (metis length_map nth_map)
  note flag = pass_flag [OF tr_local _ sh assms(2) ts(2), of _ _ cc]
  note nu = flag [of fst starts, OF tr_flags(1)]
  note rep = flag [of "\<lambda>f. snd (snd f)" "\<lambda>a b d. snd (kft a b d) \<noteq> b", OF tr_flags(3)]
  have some_cong: "(\<exists>r < n. \<exists>c < length (pk_counters s1 ! r).
      P (bit (raw ! r) c) (bit (k1 ! r) c) (pk_counters s1 ! r ! c)) \<longleftrightarrow> some P" for P
    unfolding some_def using lens by metis
  have nu': "pk_counters_need_update (fst (snd (pk_pass tr raw cc ?s2 k1))) \<longleftrightarrow> pk_counters_need_update s1 \<or> some starts"
    using nu some_cong [of starts] by (simp add: pk_flags_of_def split_beta)
  have rep': "fst (pk_pass tr raw cc ?s2 k1) \<longleftrightarrow> cc \<or> some (\<lambda>a b d. snd (kft a b d) \<noteq> b)"
    using rep some_cong [of "\<lambda>a b d. snd (kft a b d) \<noteq> b"] by (simp add: pk_flags_of_def split_beta)
  have step: "pk_debounce eager upd tr now changed raw (s, cooked) =
      (if moves now changed raw (s, cooked) then pk_pass tr raw cc ?s2 k1 else (cc, s1, k1))"
    by (simp add: moves_def t pk_debounce_def)
  show "pk_counters_need_update (fst (snd (pk_debounce eager upd tr now changed raw (s, cooked))))
      \<longleftrightarrow> pk_counters_need_update s1 \<or> (moves now changed raw (s, cooked) \<and> some starts)"
    unfolding step using nu' by (cases "moves now changed raw (s, cooked)") simp_all
  show "fst (pk_debounce eager upd tr now changed raw (s, cooked))
      \<longleftrightarrow> cc \<or> (moves now changed raw (s, cooked) \<and> some (\<lambda>a b d. snd (kft a b d) \<noteq> b))"
    unfolding step using rep' by (cases "moves now changed raw (s, cooked)") simp_all
qed

lemma step_outside:
  assumes "pk_shape LENGTH('r) n s" and "length raw = n" and "length cooked = n"
    and "r < n" and "\<not> c < length (pk_counters s ! r)"
  shows "bit (snd (snd (pk_debounce eager upd tr now changed raw (s, cooked))) ! r) c = bit (cooked ! r) c"
proof -
  obtain cc s1 k1 where t: "pk_tick upd now raw (s, cooked) = (cc, s1, k1)" by (metis prod_cases3)
  note ts = tick_shape [OF assms(1-3), of now, unfolded t, simplified]
  let ?s2 = "s1\<lparr>pk_last_time := (if pk_counters_need_update s then pk_last_time s1 else now),
     pk_matrix_need_update := False\<rparr>"
  have "pk_shape LENGTH('r) n ?s2" using ts(1) by (simp add: pk_shape_def)
  moreover have "\<not> c < length (pk_counters ?s2 ! r)"
    using assms(4,5) ts(3) assms(1) by (simp add: pk_shape_def counters_ok_def) (metis length_map nth_map)
  ultimately show ?thesis
    using pass_outside [OF tr_local _ assms(2) ts(2) assms(4), of ?s2 c cc] tick_outside [OF assms, of now]
    by (simp add: pk_debounce_def t)
qed

lemma pk_key_follows: "snd (pk_key kfu kft el m a (d, b)) = b \<or> snd (pk_key kfu kft el m a (d, b)) = a"
  using upd_cooked [of el a b d] tr_cooked [of a _ "fst (kfu el a b d)"] tr_cooked [of a b d]
  by (auto simp: pk_key_def Let_def split_beta)

lemma pk_key_changes:
  "snd (pk_key kfu kft el m a (d, b)) \<noteq> b \<longleftrightarrow>
    snd (kfu0 el a b d) \<noteq> b \<or> (m \<and> snd (kft a (snd (kfu0 el a b d)) (fst (kfu0 el a b d))) \<noteq> snd (kfu0 el a b d))"
  using upd_cooked [of el a b d] tr_cooked [of a "snd (kfu0 el a b d)" "fst (kfu0 el a b d)"]
  by (auto simp: pk_key_def Let_def split_beta)

lemma step_reports:
  assumes "pk_shape LENGTH('r) n s" and "length raw = n" and "length cooked = n"
  shows "fst (pk_debounce eager upd tr now changed raw (s, cooked))
    \<longleftrightarrow> snd (snd (pk_debounce eager upd tr now changed raw (s, cooked))) \<noteq> cooked"
proof -
  obtain cc s1 k1 where t: "pk_tick upd now raw (s, cooked) = (cc, s1, k1)" by (metis prod_cases3)
  let ?new = "snd (snd (pk_debounce eager upd tr now changed raw (s, cooked)))"
  let ?el = "pk_elapsed now s" and ?m = "moves now changed raw (s, cooked)"
  let ?in = "\<lambda>r c. r < n \<and> c < length (pk_counters s ! r)"
  have tv: "pk_counters s1 ! r ! c = fst (kfu0 ?el (bit (raw ! r) c) (bit (cooked ! r) c) (pk_counters s ! r ! c))
      \<and> bit (k1 ! r) c = snd (kfu0 ?el (bit (raw ! r) c) (bit (cooked ! r) c) (pk_counters s ! r ! c))"
    if "?in r c" for r c
    using tick_view [OF assms, of r c now, unfolded t] that by (simp add: pk_view_def prod_eq_iff)
  have "(\<exists>r < n. \<exists>c < length (pk_counters s ! r).
        snd (kft (bit (raw ! r) c) (bit (k1 ! r) c) (pk_counters s1 ! r ! c)) \<noteq> bit (k1 ! r) c)
    \<longleftrightarrow> (\<exists>r < n. \<exists>c < length (pk_counters s ! r).
        snd (kft (bit (raw ! r) c) (snd (kfu0 ?el (bit (raw ! r) c) (bit (cooked ! r) c) (pk_counters s ! r ! c)))
              (fst (kfu0 ?el (bit (raw ! r) c) (bit (cooked ! r) c) (pk_counters s ! r ! c))))
          \<noteq> snd (kfu0 ?el (bit (raw ! r) c) (bit (cooked ! r) c) (pk_counters s ! r ! c)))"
    using tv by (intro ex_cong1 conj_cong refl) simp
  then have "fst (pk_debounce eager upd tr now changed raw (s, cooked)) \<longleftrightarrow>
      (\<exists>r < n. \<exists>c < length (pk_counters s ! r).
        snd (pk_key kfu kft ?el ?m (bit (raw ! r) c) (pk_counters s ! r ! c, bit (cooked ! r) c)) \<noteq> bit (cooked ! r) c)"
    unfolding step_flags(2) [OF assms t] pk_key_changes
    unfolding tick_flags(3) [OF assms, of now, unfolded t fst_conv] by blast
  also have "\<dots> \<longleftrightarrow> (\<exists>r < n. \<exists>c < length (pk_counters s ! r). bit (?new ! r) c \<noteq> bit (cooked ! r) c)"
    using step_view [OF assms, of _ _ now changed]
    by (intro ex_cong1 conj_cong refl) (simp add: pk_view_def split_beta prod_eq_iff)
  also have "\<dots> \<longleftrightarrow> (\<exists>r < n. ?new ! r \<noteq> cooked ! r)"
    using step_outside [OF assms, of _ _ now changed] by (metis bit_word_eqI)
  also have "\<dots> \<longleftrightarrow> ?new \<noteq> cooked"
    using step_shape(2) [OF assms, of now changed] assms(3) by (metis nth_equalityI)
  finally show ?thesis .
qed

end

sublocale pk_automaton \<subseteq> reporting_debouncer "pk_debounce eager upd tr" "pk_shape LENGTH('r)"
proof
  show "pk_shape LENGTH('r) n (fst (snd (pk_debounce eager upd tr now ch raw (st, ck))))
      \<and> length (snd (snd (pk_debounce eager upd tr now ch raw (st, ck)))) = n"
    if "pk_shape LENGTH('r) n st" "length raw = n" "length ck = n" for n st raw ck now ch
    using step_shape [OF that] by blast
  show "bit (snd (snd (pk_debounce eager upd tr now ch raw (st, ck))) ! r) c = bit (ck ! r) c
      \<or> bit (snd (snd (pk_debounce eager upd tr now ch raw (st, ck))) ! r) c = bit (raw ! r) c"
    if "pk_shape LENGTH('r) n st" "length raw = n" "length ck = n" "r < n" for n st raw ck r now ch c
  proof (cases "c < length (pk_counters st ! r)")
    case True
    with step_view [OF that True, of now ch] pk_key_follows show ?thesis
      by (simp add: pk_view_def split_beta) (metis snd_conv)
  qed (use step_outside [OF that] in blast)
  show "fst (pk_debounce eager upd tr now ch raw (st, ck))
      \<longleftrightarrow> snd (snd (pk_debounce eager upd tr now ch raw (st, ck))) \<noteq> ck"
    if "pk_shape LENGTH('r) n st" "length raw = n" "length ck = n" for n st raw ck now ch
    using step_reports [OF that] .
qed

section \<open>Runs of one key\<close>

text \<open>The samples one key sees: the time of the scan, the \<open>changed\<close> argument, its raw level.\<close>

type_synonym key_sample = "u32 \<times> bool \<times> bool"

inductive pk_key_run ::
  "bool \<Rightarrow> (u8 \<Rightarrow> bool \<Rightarrow> bool \<Rightarrow> 'c \<Rightarrow> 'c \<times> bool) \<Rightarrow> (bool \<Rightarrow> bool \<Rightarrow> 'c \<Rightarrow> 'c \<times> bool) \<Rightarrow> (u8 \<Rightarrow> 'c \<Rightarrow> bool)
   \<Rightarrow> u32 \<Rightarrow> 'c \<times> bool \<Rightarrow> key_sample list \<Rightarrow> 'c \<times> bool \<Rightarrow> bool"
  for eager kfu kft expires
where
  run_Nil: "pk_key_run eager kfu kft expires t v [] v"
| run_Cons: "\<lbrakk>el = clamp_elapsed (timer_diff now t); changed \<Longrightarrow> moved; moved \<Longrightarrow> changed \<or> eager;
     eager \<Longrightarrow> el > 0 \<Longrightarrow> expires el (fst v) \<Longrightarrow> moved;
     pk_key_run eager kfu kft expires now (pk_key kfu kft el moved a v) samples v'\<rbrakk>
   \<Longrightarrow> pk_key_run eager kfu kft expires t v ((now, changed, a) # samples) v'"

inductive_cases run_NilE [elim!]: "pk_key_run eager kfu kft expires t v [] v'"
inductive_cases run_ConsE: "pk_key_run eager kfu kft expires t v ((now, changed, a) # ss) v'"

definition samples_of :: "nat \<Rightarrow> nat \<Rightarrow> 'r::len scan list \<Rightarrow> key_sample list" where
  "samples_of r c = map (\<lambda>(now, changed, raw). (now, changed, bit (raw ! r) c))"

text \<open>A counter that runs has set \<open>counters_need_update\<close>, and then \<open>last_time\<close> is the last scan.\<close>

definition pk_ready :: "('c \<Rightarrow> bool) \<Rightarrow> u32 \<Rightarrow> 'c pk \<Rightarrow> bool" where
  "pk_ready active t s \<longleftrightarrow>
     (pk_counters_need_update s \<longrightarrow> pk_last_time s = t) \<and>
     (\<forall>r < length (pk_counters s). \<forall>c < length (pk_counters s ! r).
        active (pk_counters s ! r ! c) \<longrightarrow> pk_counters_need_update s)"

locale pk_timer = pk_automaton eager upd tr kfu ffu kft fft active starts expires
  for eager :: bool and upd :: "u8 \<Rightarrow> ('c, 'r::len, pk_flags) key_body" and tr kfu ffu kft fft
    and active :: "'c \<Rightarrow> bool" and starts expires +
  assumes idle: "\<not> active d \<Longrightarrow> kfu el a b d = (d, b)"
    and expires_active: "expires el d \<Longrightarrow> active d"
begin

lemma step_ready:
  assumes "pk_shape LENGTH('r) n s" and "length raw = n" and "length cooked = n" and "pk_ready active t s"
  shows "pk_ready active now (fst (snd (pk_debounce eager upd tr now changed raw (s, cooked))))"
proof -
  obtain cc s1 k1 where t: "pk_tick upd now raw (s, cooked) = (cc, s1, k1)" by (metis prod_cases3)
  let ?s' = "fst (snd (pk_debounce eager upd tr now changed raw (s, cooked)))"
  let ?el = "pk_elapsed now s" and ?m = "moves now changed raw (s, cooked)"
  note ss = step_shape [OF assms(1-3), of now changed]
  have n: "length (pk_counters s) = n" "length (pk_counters ?s') = n"
    using assms(1) ss(1) by (simp_all add: pk_shape_def counters_ok_def)
  have lens: "length (pk_counters ?s' ! r) = length (pk_counters s ! r)" if "r < n" for r
    using that ss(3) n by (metis length_map nth_map)
  note nu = step_flags(1) [OF assms(1-3) t, of changed]
  note nu1 = tick_flags(1) [OF assms(1-3), of now, unfolded t, simplified]
  have tv: "pk_counters s1 ! r ! c = fst (kfu0 ?el (bit (raw ! r) c) (bit (cooked ! r) c) (pk_counters s ! r ! c))
      \<and> bit (k1 ! r) c = snd (kfu0 ?el (bit (raw ! r) c) (bit (cooked ! r) c) (pk_counters s ! r ! c))"
    if "r < n" "c < length (pk_counters s ! r)" for r c
    using tick_view [OF assms(1-3) that, of now, unfolded t] by (simp add: pk_view_def prod_eq_iff)
  have sv: "pk_counters ?s' ! r ! c = fst (if ?m then kft (bit (raw ! r) c) (bit (k1 ! r) c) (pk_counters s1 ! r ! c)
      else (pk_counters s1 ! r ! c, bit (k1 ! r) c))"
    if "r < n" "c < length (pk_counters s ! r)" for r c
    using step_view [OF assms(1-3) that, of now changed] tv [OF that]
    by (simp add: pk_view_def pk_key_def Let_def split_beta prod_eq_iff split: if_split_asm)
  have active1: "pk_counters_need_update s1"
    if "r < n" "c < length (pk_counters s ! r)" "active (pk_counters s1 ! r ! c)" for r c
  proof (cases "?el > 0")
    case True
    with nu1 tv [OF that(1,2)] that show ?thesis by auto
  next
    case False
    with nu1 tv [OF that(1,2)] that assms(4) n show ?thesis by (auto simp: pk_ready_def)
  qed
  have "pk_counters_need_update ?s'"
    if "r < n" "c < length (pk_counters s ! r)" "active (pk_counters ?s' ! r ! c)" for r c
    using that sv [OF that(1,2)] active1 [OF that(1,2)]
      tr_active [of "bit (raw ! r) c" "bit (k1 ! r) c" "pk_counters s1 ! r ! c"] nu
    by (cases ?m) auto
  moreover have "pk_last_time ?s' = now" if "pk_counters_need_update ?s'"
  proof -
    have "pk_last_time s1 = now" if "pk_counters_need_update s"
      using t that by (auto simp: pk_tick_def Let_def pk_pass_def split: prod.splits if_splits)
    moreover have "pk_counters_need_update s1 \<longrightarrow> pk_counters_need_update s"
      using t by (auto simp: pk_tick_def split: if_splits)
    ultimately show ?thesis
      using that by (auto simp: pk_debounce_def t pk_pass_proj(4) split: if_splits)
  qed
  ultimately show ?thesis using n lens by (simp add: pk_ready_def)
qed

lemma step_key:
  assumes "pk_shape LENGTH('r) n s" and "length raw = n" and "length cooked = n" and "pk_ready active t s"
    and "r < n" and "c < length (pk_counters s ! r)"
  shows "pk_view r c (snd (pk_debounce eager upd tr now changed raw (s, cooked)))
    = pk_key kfu kft (clamp_elapsed (timer_diff now t)) (moves now changed raw (s, cooked)) (bit (raw ! r) c)
        (pk_view r c (s, cooked))"
    and "eager \<Longrightarrow> clamp_elapsed (timer_diff now t) > 0
       \<Longrightarrow> expires (clamp_elapsed (timer_diff now t)) (pk_counters s ! r ! c) \<Longrightarrow> moves now changed raw (s, cooked)"
proof -
  let ?d = "pk_counters s ! r ! c" and ?el = "clamp_elapsed (timer_diff now t)"
  have n: "length (pk_counters s) = n" using assms(1) by (simp add: pk_shape_def counters_ok_def)
  have el: "pk_elapsed now s = ?el" if "active ?d"
    using that assms(4-6) n by (auto simp: pk_ready_def pk_elapsed_def)
  have "pk_key kfu kft (pk_elapsed now s) m a (?d, b) = pk_key kfu kft ?el m a (?d, b)" for m a b
    using el idle [of ?d] by (cases "active ?d") (simp_all add: pk_key_def Let_def)
  then show "pk_view r c (snd (pk_debounce eager upd tr now changed raw (s, cooked)))
    = pk_key kfu kft ?el (moves now changed raw (s, cooked)) (bit (raw ! r) c) (pk_view r c (s, cooked))"
    using step_view [OF assms(1-3,5,6), of now changed] by (simp add: pk_view_def)
  assume e: eager and "?el > 0" and "expires ?el ?d"
  then have "pk_elapsed now s = ?el" using el expires_active by blast
  then have "pk_matrix_need_update (fst (snd (pk_tick upd now raw (s, cooked))))"
    using tick_flags(2) [OF assms(1-3), of now] \<open>?el > 0\<close> \<open>expires ?el ?d\<close> assms(5,6) by auto
  with e show "moves now changed raw (s, cooked)" unfolding moves_def by blast
qed

text \<open>Every key of a run of the board is a run of its automaton.\<close>

lemma run_key:
  assumes "pk_shape LENGTH('r) n s" and "rows_ok n scans" and "length cooked = n" and "pk_ready active t s"
    and "r < n" and "c < length (pk_counters s ! r)"
  shows "pk_key_run eager kfu kft expires t (pk_view r c (s, cooked)) (samples_of r c scans)
    (pk_view r c (snd (debounce_run (pk_debounce eager upd tr) scans (s, cooked))))"
  using assms
proof (induction scans arbitrary: s cooked t)
  case Nil
  then show ?case by (simp add: samples_of_def run_Nil)
next
  case (Cons scan scans)
  obtain now ch raw where scan: "scan = (now, ch, raw)" by (cases scan)
  have l: "length raw = n" "rows_ok n scans" using Cons.prems(2) by (simp_all add: rows_ok_def scan)
  let ?st = "snd (pk_debounce eager upd tr now ch raw (s, cooked))"
  note sh = step_shape [OF Cons.prems(1) l(1) Cons.prems(3), of now ch]
  have "length (pk_counters s) = n" using Cons.prems(1) by (simp add: pk_shape_def counters_ok_def)
  then have "c < length (pk_counters (fst ?st) ! r)"
    using Cons.prems(5,6) sh(1,3) by (simp add: pk_shape_def counters_ok_def) (metis length_map nth_map)
  note IH = Cons.IH [OF sh(1) l(2) sh(2) step_ready [OF Cons.prems(1) l(1) Cons.prems(3,4)] Cons.prems(5) this]
  note key = step_key [OF Cons.prems(1) l(1) Cons.prems(3-6), of now ch]
  show ?case
    unfolding samples_of_def scan list.map prod.case
    using IH key
    by (intro run_Cons [OF refl, where moved = "moves now ch raw (s, cooked)"])
       (auto simp: moves_def samples_of_def pk_view_def)
qed

end

end
