(* ===== verification/DebounceKeys.thy ===== *)
theory DebounceKeys
  imports DebouncePerKey
begin

text \<open>
  The three per-key algorithms as interpretations of \<open>pk_timer\<close>, and their timing theorems.
  \<open>span t scans\<close> is the time the scans take after \<open>t\<close> in milliseconds, whatever the wraps of the
  32-bit timer.  For each algorithm: how long a key is held back or locked out, and that the
  debounced level reaches a stable raw level within the debounce time.
\<close>

section \<open>Elapsed time\<close>

fun span :: "u32 \<Rightarrow> (u32 \<times> 'x) list \<Rightarrow> nat" where
  "span t [] = 0"
| "span t ((now, x) # xs) = unat (timer_diff now t) + span now xs"

lemma span_samples_of [simp]: "span t (samples_of r c scans) = span t scans"
  by (induction t scans rule: span.induct) (simp_all add: samples_of_def split: prod.splits)

lemma expired_iff: "d \<le> clamp_elapsed w \<longleftrightarrow> unat d \<le> unat w" for w :: "'a::len word" and d :: u8
proof (cases "unat w > 255")
  case True
  with unsigned_less [of d, where ?'a = nat] show ?thesis
    by (simp add: clamp_elapsed_def word_le_nat_alt)
next
  case False
  then have "unat (ucast w :: u8) = unat w"
    by (simp add: unsigned_ucast_eq take_bit_nat_eq_self)
  with False show ?thesis by (simp add: clamp_elapsed_def word_le_nat_alt)
qed

lemma unat_clamp: "unat (clamp_elapsed w) = min 255 (unat w)" for w :: "'a::len word"
  by (simp add: clamp_elapsed_def unsigned_ucast_eq take_bit_nat_eq_self min_def)

lemma countdown: "\<not> d \<le> clamp_elapsed w \<Longrightarrow> unat (d - clamp_elapsed w) = unat d - unat w \<and> unat w < unat d"
  for w :: "'a::len word" and d :: u8
  using unat_clamp [of w] expired_iff [of d w] unsigned_less [of d, where ?'a = nat]
  by (simp add: unat_sub not_le word_less_nat_alt word_le_nat_alt)

section \<open>\<open>sym_defer_pk.c\<close>\<close>

definition sym_defer_update :: "u8 \<Rightarrow> (u8, 'r::len, pk_flags) key_body" where
  "sym_defer_update elapsed raw _ col d = (\<lambda>(cooked, nu, mnu, cooked_changed).
     if d \<noteq> 0 then
       if d \<le> elapsed then
         (let cooked_next = (cooked AND NOT (col_mask col)) OR (raw AND col_mask col)
          in (0, cooked_next, nu, mnu, cooked_changed \<or> cooked XOR cooked_next \<noteq> 0))
       else (d - elapsed, cooked, True, mnu, cooked_changed)
     else (d, cooked, nu, mnu, cooked_changed))"

definition sym_defer_start :: "u8 \<Rightarrow> (u8, 'r::len, pk_flags) key_body" where
  "sym_defer_start debounce_time raw cooked0 col d = (\<lambda>(cooked, nu, mnu, cooked_changed).
     (let delta = raw XOR cooked0 in
      if delta AND col_mask col \<noteq> 0 then
        if d = 0 then (debounce_time, cooked, True, mnu, cooked_changed)
        else (d, cooked, nu, mnu, cooked_changed)
      else (0, cooked, nu, mnu, cooked_changed)))"

definition sym_defer_pk_debounce ::
  "u8 \<Rightarrow> u32 \<Rightarrow> bool \<Rightarrow> 'r::len matrix \<Rightarrow> u8 pk \<times> 'r matrix \<Rightarrow> bool \<times> u8 pk \<times> 'r matrix"
where
  "sym_defer_pk_debounce debounce_time =
     pk_debounce False sym_defer_update (sym_defer_start debounce_time)"

definition pk_counters_init :: "nat \<Rightarrow> nat \<Rightarrow> u8 pk \<Rightarrow> u8 pk" where
  "pk_counters_init num_rows cols s = s\<lparr>pk_counters := replicate num_rows (replicate cols 0)\<rparr>"

text \<open>The automaton of one key: raw level, debounced level, counter.\<close>

definition sd_count :: "u8 \<Rightarrow> bool \<Rightarrow> bool \<Rightarrow> u8 \<Rightarrow> u8 \<times> bool" where
  "sd_count el a k d = (if d = 0 then (d, k) else if d \<le> el then (0, a) else (d - el, k))"

definition sd_start :: "u8 \<Rightarrow> bool \<Rightarrow> bool \<Rightarrow> u8 \<Rightarrow> u8 \<times> bool" where
  "sd_start dt a k d = (if a = k then 0 else if d = 0 then dt else d, k)"

lemma xor_self_iff: "w XOR v \<noteq> 0 \<longleftrightarrow> w \<noteq> v" for w v :: "'r::len word"
  by (metis bit.xor_left_self bit.xor_self xor.right_neutral)

lemma merge_bit [row_simps]:
  "bit ((w AND NOT (col_mask c)) OR (v AND col_mask c)) n \<longleftrightarrow> (if n = c then bit v n else bit w n)"
  for w v :: "'r::len word"
  using bit_imp_le_length [of v n] bit_imp_le_length [of w n] by (auto simp: bit_simps row_simps)

lemma merge_changes [row_simps]:
  "(w AND NOT (col_mask c)) OR (v AND col_mask c) = w \<longleftrightarrow> bit v c = bit w c" for w v :: "'r::len word"
  by (rule iffI) (metis merge_bit, metis (no_types) bit_word_eqI merge_bit)

lemma sym_defer_update_local:
  "key_local (sym_defer_update el :: (u8, 'r::len, pk_flags) key_body) (sd_count el)
     (\<lambda>a k d (nu, mnu, cc). (nu \<or> fst (sd_count el a k d) \<noteq> 0, mnu, cc \<or> snd (sd_count el a k d) \<noteq> k))"
  unfolding key_local_def sym_defer_update_def sd_count_def
  by (auto simp: Let_def xor_self_iff row_simps eq_commute [of _ "_ OR _"])

lemma sym_defer_start_local:
  "key_local (sym_defer_start dt :: (u8, 'r::len, pk_flags) key_body) (sd_start dt)
     (\<lambda>a k d (nu, mnu, cc). (nu \<or> (a \<noteq> k \<and> d = 0), mnu, cc))"
  unfolding key_local_def sym_defer_start_def sd_start_def
  by (auto simp: Let_def row_simps bit_simps)

interpretation sym_defer: pk_timer False "sym_defer_update" "sym_defer_start dt" sd_count
    "\<lambda>el a k d (nu, mnu, cc). (nu \<or> fst (sd_count el a k d) \<noteq> 0, mnu, cc \<or> snd (sd_count el a k d) \<noteq> k)"
    "sd_start dt" "\<lambda>a k d (nu, mnu, cc). (nu \<or> (a \<noteq> k \<and> d = 0), mnu, cc)"
    "\<lambda>d. d \<noteq> 0" "\<lambda>a k d. a \<noteq> k \<and> d = 0" "\<lambda>el d. False" for dt
  by unfold_locales
    (rule sym_defer_update_local sym_defer_start_local
      | auto simp: sd_count_def sd_start_def split: if_splits)+

lemma pk_key_count:
  assumes "\<And>a k d. kfu 0 a k d = (d, k)"
  shows "pk_key kfu kft el m a (d, k) =
    (if m then kft a (snd (kfu el a k d)) (fst (kfu el a k d)) else kfu el a k d)"
  using assms by (cases "el = 0") (simp_all add: pk_key_def Let_def split_beta word_gt_0)

lemma sd_count_zero: "sd_count 0 a k d = (d, k)"
  by (simp add: sd_count_def)

lemmas sd_key = pk_key_count [of sd_count, OF sd_count_zero] sd_count_def sd_start_def

text \<open>A deferred change needs the debounce time: it is not earlier\<dots>\<close>

lemma sd_quiet:
  assumes "pk_key_run False sd_count (sd_start dt) ex t v samples v'"
    and "fst v = 0 \<or> unat dt \<le> unat (fst v) + m" and "m + span t samples < unat dt"
  shows "snd v' = snd v"
  using assms
proof (induction arbitrary: m)
  case (run_Cons el now t changed moved v a samples v')
  obtain d k where v: "v = (d, k)" by (cases v)
  let ?g = "unat (timer_diff now t)"
  obtain d1 k1 where step: "pk_key sd_count (sd_start dt) el moved a (d, k) = (d1, k1)" by fastforce
  have "d = 0 \<or> \<not> d \<le> el" using run_Cons v by (auto simp: expired_iff)
  with countdown [of d "timer_diff now t"] step run_Cons.prems(1) v run_Cons.hyps(1)
  have "k1 = k" "d1 = 0 \<or> unat dt \<le> unat d1 + (m + ?g)"
    by (auto simp: sd_key split: if_splits)
  with run_Cons.IH [of "m + ?g"] run_Cons.prems(2) step v show ?case by simp
qed simp

text \<open>\<dots>and not later, once the raw level is stable.\<close>

lemma sd_delivers:
  assumes "pk_key_run False sd_count (sd_start dt) ex t v samples v'"
    and "snd v = a \<or> (fst v \<noteq> 0 \<and> unat (fst v) + m \<le> unat dt)" and "unat dt \<le> m + span t samples"
    and "list_all (\<lambda>(now, changed, b). b = a) samples"
  shows "snd v' = a"
  using assms
proof (induction arbitrary: m)
  case (run_Nil t v)
  then have "unat (fst v) = 0 \<or> snd v = a" by auto
  with run_Nil show ?case by (auto simp: unat_eq_0)
next
  case (run_Cons el now t changed moved v b samples v')
  obtain d k where v: "v = (d, k)" by (cases v)
  let ?g = "unat (timer_diff now t)"
  obtain d1 k1 where step: "pk_key sd_count (sd_start dt) el moved a (d, k) = (d1, k1)" by fastforce
  have b: "b = a" using run_Cons.prems(3) by simp
  have "k1 = a \<or> (d1 \<noteq> 0 \<and> unat d1 + (m + ?g) \<le> unat dt)"
  proof (cases "k = a \<or> d \<le> el")
    case True
    with step run_Cons.prems(1) v show ?thesis
      by (auto simp: sd_key split: if_splits)
  next
    case False
    with countdown [of d "timer_diff now t"] step run_Cons.prems(1) v run_Cons.hyps(1)
    show ?thesis
      by (auto simp: sd_key split: if_splits)
  qed
  with run_Cons.IH [of "m + ?g"] run_Cons.prems step v b show ?case by simp
qed

lemma sd_delivers_change:
  assumes "pk_key_run False sd_count (sd_start dt) ex t (d, k) ((t1, True, a) # samples) v'"
    and "dt \<noteq> 0" and "d \<le> dt" and "unat dt \<le> span t1 samples"
    and "list_all (\<lambda>(now, changed, b). b = a) samples"
  shows "snd v' = a"
  using assms(1)
proof (rule run_ConsE)
  let ?el = "clamp_elapsed (timer_diff t1 t)"
  fix moved
  assume "True \<Longrightarrow> moved"
    and run: "pk_key_run False sd_count (sd_start dt) ex t1 (pk_key sd_count (sd_start dt) ?el moved a (d, k)) samples v'"
  then have m: moved by simp
  let ?v = "pk_key sd_count (sd_start dt) ?el True a (d, k)"
  have "snd ?v = a \<or> (fst ?v \<noteq> 0 \<and> unat (fst ?v) \<le> unat dt)"
  proof (cases "d \<le> ?el")
    case True
    with assms(2) show ?thesis by (auto simp: sd_key)
  next
    case False
    with countdown [of d "timer_diff t1 t"] assms(2,3) show ?thesis
      by (auto simp: sd_key word_le_nat_alt)
  qed
  with sd_delivers [OF run, of a 0] m assms(4,5) show "snd v' = a" by simp
qed

text \<open>C2. With symmetric deferred per-key debouncing no sequence of scans that takes less than the
  debounce time, whatever its raw levels, changes a debounced key whose counter is idle.\<close>

theorem sym_defer_no_glitch:
  fixes cooked :: "'r::len matrix"
  assumes "pk_shape LENGTH('r) n s" and "rows_ok n scans" and "length cooked = n"
    and "pk_ready (\<lambda>d. d \<noteq> 0) t s" and "r < n" and "c < length (pk_counters s ! r)"
    and "pk_counters s ! r ! c = 0" and "span t scans < unat dt"
  shows "bit (snd (snd (debounce_run (sym_defer_pk_debounce dt) scans (s, cooked))) ! r) c
    = bit (cooked ! r) c"
  using sd_quiet [OF sym_defer.run_key [OF assms(1-6)], of dt 0] assms(7,8)
  by (simp add: sym_defer_pk_debounce_def pk_view_def split_beta)

lemma sym_defer_no_glitch_witness:
  "bit (snd (snd (debounce_run (sym_defer_pk_debounce 5) [(10, True, [1]), (13, True, [0])]
     (\<lparr>pk_counters = [[0]], pk_last_time = 3, pk_counters_need_update = False,
       pk_matrix_need_update = False\<rparr>, [0 :: u8]))) ! 0) 0 = bit (0 :: u8) 0"
  using sym_defer_no_glitch [of 1 "\<lparr>pk_counters = [[0]], pk_last_time = 3,
      pk_counters_need_update = False, pk_matrix_need_update = False\<rparr>"
      "[(10, True, [1]), (13, True, [0])]" "[0 :: u8]" 9 0 0 5]
  by (simp add: pk_shape_def counters_ok_def rows_ok_def pk_ready_def timer_diff_def)

text \<open>C3. A raw level that changed and then stays for the debounce time is the debounced level at the
  end, whatever the other keys, the scan gaps and timer wraps.\<close>

theorem sym_defer_delivers_stable:
  fixes cooked :: "'r::len matrix"
  assumes "pk_shape LENGTH('r) n s" and "rows_ok n ((t1, True, raw) # scans)" and "length cooked = n"
    and "pk_ready (\<lambda>d. d \<noteq> 0) t s" and "r < n" and "c < length (pk_counters s ! r)"
    and "pk_counters s ! r ! c \<le> dt" and "dt \<noteq> 0"
    and "list_all (\<lambda>(now, changed, raw'). bit (raw' ! r) c = bit (raw ! r) c) scans"
    and "unat dt \<le> span t1 scans"
  shows "bit (snd (snd (debounce_run (sym_defer_pk_debounce dt) ((t1, True, raw) # scans) (s, cooked))) ! r) c
    = bit (raw ! r) c"
proof -
  have "list_all (\<lambda>(now, changed, b). b = bit (raw ! r) c) (samples_of r c scans)"
    using assms(9) by (auto simp: samples_of_def list_all_iff)
  with sd_delivers_change [OF sym_defer.run_key [OF assms(1-6), of dt,
      unfolded samples_of_def pk_view_def prod.case list.map, folded samples_of_def]] assms(7,8,10)
  show ?thesis by (simp add: sym_defer_pk_debounce_def split_beta)
qed

lemma sym_defer_delivers_stable_witness:
  "bit (snd (snd (debounce_run (sym_defer_pk_debounce 5) [(10, True, [1]), (12, False, [1]), (16, False, [1])]
     (\<lparr>pk_counters = [[0]], pk_last_time = 3, pk_counters_need_update = False,
       pk_matrix_need_update = False\<rparr>, [0 :: u8]))) ! 0) 0 = bit (1 :: u8) 0"
  using sym_defer_delivers_stable [of 1 "\<lparr>pk_counters = [[0]], pk_last_time = 3,
      pk_counters_need_update = False, pk_matrix_need_update = False\<rparr>" 10 "[1]"
      "[(12, False, [1]), (16, False, [1])]" "[0 :: u8]" 9 0 0 5]
  by (simp add: pk_shape_def counters_ok_def rows_ok_def pk_ready_def timer_diff_def)

section \<open>\<open>sym_eager_pk.c\<close>\<close>

definition sym_eager_update :: "u8 \<Rightarrow> (u8, 'r::len, pk_flags) key_body" where
  "sym_eager_update elapsed raw _ col d = (\<lambda>(cooked, nu, mnu, cooked_changed).
     if d \<noteq> 0 then
       if d \<le> elapsed then (0, cooked, nu, True, cooked_changed)
       else (d - elapsed, cooked, True, mnu, cooked_changed)
     else (d, cooked, nu, mnu, cooked_changed))"

text \<open>\<open>existing_row\<close> collects the flips of a row and is stored once at its end.\<close>

definition sym_eager_transfer :: "u8 \<Rightarrow> (u8, 'r::len, pk_flags) key_body" where
  "sym_eager_transfer debounce_time raw cooked0 col d = (\<lambda>(existing_row, nu, mnu, cooked_changed).
     (let delta = raw XOR cooked0 in
      if delta AND col_mask col \<noteq> 0 then
        if d = 0 then (debounce_time, existing_row XOR col_mask col, True, mnu, True)
        else (d, existing_row, nu, mnu, cooked_changed)
      else (d, existing_row, nu, mnu, cooked_changed)))"

definition sym_eager_pk_debounce ::
  "u8 \<Rightarrow> u32 \<Rightarrow> bool \<Rightarrow> 'r::len matrix \<Rightarrow> u8 pk \<times> 'r matrix \<Rightarrow> bool \<times> u8 pk \<times> 'r matrix"
where
  "sym_eager_pk_debounce debounce_time =
     pk_debounce True sym_eager_update (sym_eager_transfer debounce_time)"

definition se_count :: "u8 \<Rightarrow> bool \<Rightarrow> bool \<Rightarrow> u8 \<Rightarrow> u8 \<times> bool" where
  "se_count el a k d = (if d \<le> el then 0 else d - el, k)"

definition se_transfer :: "u8 \<Rightarrow> bool \<Rightarrow> bool \<Rightarrow> u8 \<Rightarrow> u8 \<times> bool" where
  "se_transfer dt a k d = (if a \<noteq> k \<and> d = 0 then (dt, a) else (d, k))"

lemma sym_eager_update_local:
  "key_local (sym_eager_update el :: (u8, 'r::len, pk_flags) key_body) (se_count el)
     (\<lambda>a k d (nu, mnu, cc). (nu \<or> fst (se_count el a k d) \<noteq> 0, mnu \<or> (d \<noteq> 0 \<and> d \<le> el), cc))"
  unfolding key_local_def sym_eager_update_def se_count_def by auto

lemma sym_eager_transfer_local:
  "key_local (sym_eager_transfer dt :: (u8, 'r::len, pk_flags) key_body) (se_transfer dt)
     (\<lambda>a k d (nu, mnu, cc). (nu \<or> (a \<noteq> k \<and> d = 0), mnu, cc \<or> snd (se_transfer dt a k d) \<noteq> k))"
  unfolding key_local_def sym_eager_transfer_def se_transfer_def
  by (auto simp: Let_def row_simps bit_simps)

interpretation sym_eager: pk_timer True "sym_eager_update" "sym_eager_transfer dt" se_count
    "\<lambda>el a k d (nu, mnu, cc). (nu \<or> fst (se_count el a k d) \<noteq> 0, mnu \<or> (d \<noteq> 0 \<and> d \<le> el), cc)"
    "se_transfer dt" "\<lambda>a k d (nu, mnu, cc). (nu \<or> (a \<noteq> k \<and> d = 0), mnu, cc \<or> snd (se_transfer dt a k d) \<noteq> k)"
    "\<lambda>d. d \<noteq> 0" "\<lambda>a k d. a \<noteq> k \<and> d = 0" "\<lambda>el d. d \<noteq> 0 \<and> d \<le> el" for dt
  by unfold_locales
    (rule sym_eager_update_local sym_eager_transfer_local
      | auto simp: se_count_def se_transfer_def split: if_splits)+

lemma se_count_zero: "se_count 0 a k d = (d, k)"
  by (simp add: se_count_def)

lemmas se_key = pk_key_count [of se_count, OF se_count_zero] se_count_def se_transfer_def

text \<open>After a change the key is locked out for the debounce time\<dots>\<close>

lemma se_locked:
  assumes "pk_key_run True se_count (se_transfer dt) ex t v samples v'" and "span t samples < unat (fst v)"
  shows "snd v' = snd v"
  using assms
proof (induction)
  case (run_Cons el now t changed moved v a samples v')
  obtain d k where v: "v = (d, k)" by (cases v)
  have "\<not> d \<le> el" using run_Cons v by (auto simp: expired_iff)
  with countdown [of d "timer_diff now t"] v run_Cons.hyps(1) run_Cons.prems
  have "pk_key se_count (se_transfer dt) el moved a v = (d - el, k)" "span now samples < unat (d - el)"
    by (auto simp: se_key)
  with run_Cons.IH v show ?case by simp
qed simp

text \<open>\<dots>and then follows the raw level again.\<close>

lemma se_delivers:
  assumes "pk_key_run True se_count (se_transfer dt) (\<lambda>el d. d \<noteq> 0 \<and> d \<le> el) t v samples v'"
    and "snd v = a \<or> (fst v \<noteq> 0 \<and> unat (fst v) + m \<le> unat dt)" and "unat dt \<le> m + span t samples"
    and "list_all (\<lambda>(now, changed, b). b = a) samples"
  shows "snd v' = a"
  using assms
proof (induction arbitrary: m)
  case (run_Nil t v)
  then have "unat (fst v) = 0 \<or> snd v = a" by auto
  with run_Nil show ?case by (auto simp: unat_eq_0)
next
  case (run_Cons el now t changed moved v b samples v')
  obtain d k where v: "v = (d, k)" by (cases v)
  let ?g = "unat (timer_diff now t)"
  obtain d1 k1 where step: "pk_key se_count (se_transfer dt) el moved a (d, k) = (d1, k1)" by fastforce
  have b: "b = a" using run_Cons.prems(3) by simp
  have "k1 = a \<or> (d1 \<noteq> 0 \<and> unat d1 + (m + ?g) \<le> unat dt)"
  proof (cases "k = a")
    case True
    with step show ?thesis by (auto simp: se_key split: if_splits)
  next
    case k: False
    show ?thesis
    proof (cases "d \<le> el")
      case True
      with k run_Cons.prems(1) v have "d \<noteq> 0" by auto
      with True run_Cons.hyps(4) v have moved by (cases "el = 0") (auto simp: word_gt_0)
      with True step show ?thesis by (auto simp: se_key split: if_splits)
    next
      case False
      with countdown [of d "timer_diff now t"] step run_Cons.prems(1) v run_Cons.hyps(1) k
      show ?thesis by (auto simp: se_key split: if_splits)
    qed
  qed
  with run_Cons.IH [of "m + ?g"] run_Cons.prems step v b show ?case by simp
qed

lemma se_change:
  assumes "pk_key_run True se_count (se_transfer dt) ex t (d, k) ((t1, True, a) # samples) v'"
  obtains v1 where "pk_key_run True se_count (se_transfer dt) ex t1 v1 samples v'"
    and "v1 = pk_key se_count (se_transfer dt) (clamp_elapsed (timer_diff t1 t)) True a (d, k)"
  using assms by (rule run_ConsE) simp

text \<open>With eager debouncing a change is debounced in the same call and no bounce within the
  debounce time is seen.\<close>

theorem sym_eager_flip_then_lockout:
  fixes cooked :: "'r::len matrix"
  assumes "pk_shape LENGTH('r) n s" and "rows_ok n ((t1, True, raw) # scans)" and "length cooked = n"
    and "pk_ready (\<lambda>d. d \<noteq> 0) t s" and "r < n" and "c < length (pk_counters s ! r)"
    and "pk_counters s ! r ! c = 0" and "bit (raw ! r) c \<noteq> bit (cooked ! r) c" and "span t1 scans < unat dt"
  shows "bit (snd (snd (debounce_run (sym_eager_pk_debounce dt) ((t1, True, raw) # scans) (s, cooked))) ! r) c
    = bit (raw ! r) c"
proof -
  obtain v1 where run: "pk_key_run True se_count (se_transfer dt) (\<lambda>el d. d \<noteq> 0 \<and> d \<le> el) t1 v1 (samples_of r c scans)
      (pk_view r c (snd (debounce_run (sym_eager_pk_debounce dt) ((t1, True, raw) # scans) (s, cooked))))"
    and v1: "v1 = pk_key se_count (se_transfer dt) (clamp_elapsed (timer_diff t1 t)) True (bit (raw ! r) c)
      (0, bit (cooked ! r) c)"
    using sym_eager.run_key [OF assms(1-6), of dt] assms(7)
    by (auto simp: samples_of_def pk_view_def sym_eager_pk_debounce_def elim!: se_change simp del: debounce_run_Cons)
  have "v1 = (dt, bit (raw ! r) c)" using v1 assms(8) by (simp add: se_key)
  with se_locked [OF run] assms(9) show ?thesis by (simp add: pk_view_def split_beta)
qed

lemma sym_eager_flip_then_lockout_witness:
  "bit (snd (snd (debounce_run (sym_eager_pk_debounce 5) [(10, True, [1]), (12, True, [0]), (14, True, [1])]
     (\<lparr>pk_counters = [[0]], pk_last_time = 3, pk_counters_need_update = False,
       pk_matrix_need_update = False\<rparr>, [0 :: u8]))) ! 0) 0 = bit (1 :: u8) 0"
  using sym_eager_flip_then_lockout [of 1 "\<lparr>pk_counters = [[0]], pk_last_time = 3,
      pk_counters_need_update = False, pk_matrix_need_update = False\<rparr>" 10 "[1]"
      "[(12, True, [0]), (14, True, [1])]" "[0 :: u8]" 9 0 0 5]
  by (simp add: pk_shape_def counters_ok_def rows_ok_def pk_ready_def timer_diff_def)

text \<open>A raw level that stays for the debounce time wins over the lock-out: it is the debounced
  level at the end.\<close>

lemma sym_eager_delivers_stable:
  fixes cooked :: "'r::len matrix"
  assumes "pk_shape LENGTH('r) n s" and "rows_ok n ((t1, True, raw) # scans)" and "length cooked = n"
    and "pk_ready (\<lambda>d. d \<noteq> 0) t s" and "r < n" and "c < length (pk_counters s ! r)"
    and "pk_counters s ! r ! c \<le> dt"
    and "list_all (\<lambda>(now, changed, raw'). bit (raw' ! r) c = bit (raw ! r) c) scans"
    and "unat dt \<le> span t1 scans"
  shows "bit (snd (snd (debounce_run (sym_eager_pk_debounce dt) ((t1, True, raw) # scans) (s, cooked))) ! r) c
    = bit (raw ! r) c"
proof -
  let ?d = "pk_counters s ! r ! c" and ?el = "clamp_elapsed (timer_diff t1 t)"
  obtain v1 where run: "pk_key_run True se_count (se_transfer dt) (\<lambda>el d. d \<noteq> 0 \<and> d \<le> el) t1 v1 (samples_of r c scans)
      (pk_view r c (snd (debounce_run (sym_eager_pk_debounce dt) ((t1, True, raw) # scans) (s, cooked))))"
    and v1: "v1 = pk_key se_count (se_transfer dt) ?el True (bit (raw ! r) c) (?d, bit (cooked ! r) c)"
    using sym_eager.run_key [OF assms(1-6), of dt]
    by (auto simp: samples_of_def pk_view_def sym_eager_pk_debounce_def elim!: se_change simp del: debounce_run_Cons)
  have "snd v1 = bit (raw ! r) c \<or> (fst v1 \<noteq> 0 \<and> unat (fst v1) + 0 \<le> unat dt)"
    using v1 assms(7) countdown [of ?d "timer_diff t1 t"]
    by (cases "?d \<le> ?el") (auto simp: se_key word_le_nat_alt)
  moreover have "list_all (\<lambda>(now, changed, b). b = bit (raw ! r) c) (samples_of r c scans)"
    using assms(8) by (auto simp: samples_of_def list_all_iff)
  ultimately show ?thesis
    using se_delivers [OF run, of "bit (raw ! r) c" 0] assms(9) by (simp add: pk_view_def split_beta)
qed

lemma sym_eager_delivers_stable_witness:
  "bit (snd (snd (debounce_run (sym_eager_pk_debounce 5) [(10, True, [0]), (12, False, [0]), (16, False, [0])]
     (\<lparr>pk_counters = [[4]], pk_last_time = 9, pk_counters_need_update = True,
       pk_matrix_need_update = False\<rparr>, [1 :: u8]))) ! 0) 0 = bit (0 :: u8) 0"
  using sym_eager_delivers_stable [of 1 "\<lparr>pk_counters = [[4]], pk_last_time = 9,
      pk_counters_need_update = True, pk_matrix_need_update = False\<rparr>" 10 "[0]"
      "[(12, False, [0]), (16, False, [0])]" "[1 :: u8]" 9 0 0 5]
  by (simp add: pk_shape_def counters_ok_def rows_ok_def pk_ready_def timer_diff_def)

section \<open>\<open>asym_eager_defer_pk.c\<close>\<close>

text \<open>\<open>bool pressed : 1; uint8_t time : 7\<close>: a seven-bit field, promoted when it is compared.\<close>

record asym_counter =
  ac_pressed :: bool
  ac_time :: "7 word"

definition asym_update :: "u8 \<Rightarrow> (asym_counter, 'r::len, pk_flags) key_body" where
  "asym_update elapsed raw _ col d = (\<lambda>(cooked, nu, mnu, cooked_changed).
     if ac_time d \<noteq> 0 then
       if unat (ac_time d) \<le> unat elapsed then
         (let d1 = d\<lparr>ac_time := 0\<rparr> in
          if ac_pressed d1 then (d1, cooked, nu, True, cooked_changed)
          else
            (let cooked_next = (cooked AND NOT (col_mask col)) OR (raw AND col_mask col)
             in (d1, cooked_next, nu, mnu, cooked_changed \<or> cooked_next XOR cooked \<noteq> 0)))
       else (d\<lparr>ac_time := ac_time d - ucast elapsed\<rparr>, cooked, True, mnu, cooked_changed)
     else (d, cooked, nu, mnu, cooked_changed))"

definition asym_transfer :: "u8 \<Rightarrow> (asym_counter, 'r::len, pk_flags) key_body" where
  "asym_transfer debounce_time raw cooked0 col d = (\<lambda>(cooked, nu, mnu, cooked_changed).
     (let delta = raw XOR cooked0 in
      if delta AND col_mask col \<noteq> 0 then
        if ac_time d = 0 then
          (let d1 = \<lparr>ac_pressed = (raw AND col_mask col \<noteq> 0), ac_time = ucast debounce_time\<rparr> in
           if ac_pressed d1 then (d1, cooked XOR col_mask col, True, mnu, True)
           else (d1, cooked, True, mnu, cooked_changed))
        else (d, cooked, nu, mnu, cooked_changed)
      else if ac_time d \<noteq> 0 \<and> \<not> ac_pressed d then (d\<lparr>ac_time := 0\<rparr>, cooked, nu, mnu, cooked_changed)
      else (d, cooked, nu, mnu, cooked_changed)))"

definition asym_eager_defer_pk_debounce ::
  "u8 \<Rightarrow> u32 \<Rightarrow> bool \<Rightarrow> 'r::len matrix \<Rightarrow> asym_counter pk \<times> 'r matrix \<Rightarrow> bool \<times> asym_counter pk \<times> 'r matrix"
where
  "asym_eager_defer_pk_debounce debounce_time =
     pk_debounce True asym_update (asym_transfer debounce_time)"

text \<open>\<open>malloc\<close> leaves \<open>pressed\<close> as it finds it: \<open>garbage\<close>.\<close>

definition asym_counters_init :: "(nat \<Rightarrow> nat \<Rightarrow> bool) \<Rightarrow> nat \<Rightarrow> nat \<Rightarrow> asym_counter pk \<Rightarrow> asym_counter pk" where
  "asym_counters_init garbage num_rows cols s =
     s\<lparr>pk_counters := map (\<lambda>r. map (\<lambda>c. \<lparr>ac_pressed = garbage r c, ac_time = 0\<rparr>) [0..<cols]) [0..<num_rows]\<rparr>"

definition ae_count :: "u8 \<Rightarrow> bool \<Rightarrow> bool \<Rightarrow> asym_counter \<Rightarrow> asym_counter \<times> bool" where
  "ae_count el a k d =
     (if ac_time d = 0 then (d, k)
      else if unat (ac_time d) \<le> unat el then (d\<lparr>ac_time := 0\<rparr>, if ac_pressed d then k else a)
      else (d\<lparr>ac_time := ac_time d - ucast el\<rparr>, k))"

definition ae_transfer :: "u8 \<Rightarrow> bool \<Rightarrow> bool \<Rightarrow> asym_counter \<Rightarrow> asym_counter \<times> bool" where
  "ae_transfer dt a k d =
     (if a \<noteq> k then
        if ac_time d = 0 then (\<lparr>ac_pressed = a, ac_time = ucast dt\<rparr>, k \<or> a) else (d, k)
      else (if ac_pressed d then d else d\<lparr>ac_time := 0\<rparr>, k))"

lemma asym_update_local:
  "key_local (asym_update el :: (asym_counter, 'r::len, pk_flags) key_body) (ae_count el)
     (\<lambda>a k d (nu, mnu, cc). (nu \<or> (ac_time d \<noteq> 0 \<and> \<not> unat (ac_time d) \<le> unat el),
        mnu \<or> (ac_time d \<noteq> 0 \<and> unat (ac_time d) \<le> unat el \<and> ac_pressed d), cc \<or> snd (ae_count el a k d) \<noteq> k))"
  unfolding key_local_def asym_update_def ae_count_def
  by (auto simp: Let_def xor_self_iff row_simps)

lemma asym_transfer_local:
  "key_local (asym_transfer dt :: (asym_counter, 'r::len, pk_flags) key_body) (ae_transfer dt)
     (\<lambda>a k d (nu, mnu, cc). (nu \<or> (a \<noteq> k \<and> ac_time d = 0), mnu, cc \<or> snd (ae_transfer dt a k d) \<noteq> k))"
  unfolding key_local_def asym_transfer_def ae_transfer_def
  by (auto simp: Let_def row_simps bit_simps)

lemma countdown7:
  fixes w :: "'a::len word" and d :: "7 word"
  assumes "\<not> unat d \<le> unat (clamp_elapsed w)"
  shows "unat (d - ucast (clamp_elapsed w)) = unat d - unat w \<and> unat w < unat d \<and> d - ucast (clamp_elapsed w) \<noteq> 0"
proof -
  have d: "unat d < 128" using unsigned_less [of d, where ?'a = nat] by simp
  with assms have w: "unat w < unat d" "unat (clamp_elapsed w) = unat w"
    by (auto simp: unat_clamp min_def split: if_splits)
  with d have u: "unat (ucast (clamp_elapsed w) :: 7 word) = unat w"
    by (simp add: unsigned_ucast_eq take_bit_nat_eq_self)
  with w have "unat (d - ucast (clamp_elapsed w)) = unat d - unat w"
    by (simp add: unat_sub word_le_nat_alt)
  with w show ?thesis by (metis unat_0 zero_less_diff less_numeral_extra(3))
qed

lemma countdown7_active:
  fixes el :: u8 and d :: "7 word"
  assumes "\<not> unat d \<le> unat el"
  shows "d - ucast el \<noteq> 0"
proof -
  have "clamp_elapsed el = el" using unsigned_less [of el, where ?'a = nat]
    by (simp add: clamp_elapsed_def)
  with countdown7 [of d el] assms show ?thesis by simp
qed

interpretation asym: pk_timer True "asym_update" "asym_transfer dt" ae_count
    "\<lambda>el a k d (nu, mnu, cc). (nu \<or> (ac_time d \<noteq> 0 \<and> \<not> unat (ac_time d) \<le> unat el),
        mnu \<or> (ac_time d \<noteq> 0 \<and> unat (ac_time d) \<le> unat el \<and> ac_pressed d), cc \<or> snd (ae_count el a k d) \<noteq> k)"
    "ae_transfer dt"
    "\<lambda>a k d (nu, mnu, cc). (nu \<or> (a \<noteq> k \<and> ac_time d = 0), mnu, cc \<or> snd (ae_transfer dt a k d) \<noteq> k)"
    "\<lambda>d. ac_time d \<noteq> 0" "\<lambda>a k d. a \<noteq> k \<and> ac_time d = 0"
    "\<lambda>el d. ac_time d \<noteq> 0 \<and> unat (ac_time d) \<le> unat el \<and> ac_pressed d" for dt
  by unfold_locales
    (rule asym_update_local asym_transfer_local
      | auto simp: ae_count_def ae_transfer_def dest: countdown7_active split: if_splits)+

lemma ae_count_zero: "ae_count 0 a k d = (d, k)"
  by (simp add: ae_count_def unat_eq_0)

lemmas ae_key = pk_key_count [of ae_count, OF ae_count_zero] ae_count_def ae_transfer_def

text \<open>A pressed key stays pressed while its press counter runs.\<close>

lemma ae_held:
  assumes "pk_key_run True ae_count (ae_transfer dt) ex t v samples v'"
    and "ac_pressed (fst v)" and "span t samples < unat (ac_time (fst v))"
  shows "snd v' = snd v"
  using assms
proof (induction)
  case (run_Cons el now t changed moved v a samples v')
  obtain d k where v: "v = (d, k)" by (cases v)
  have "\<not> unat (ac_time d) \<le> unat el" using run_Cons v by (auto simp: unat_clamp)
  with countdown7 [of "ac_time d" "timer_diff now t"] v run_Cons.hyps(1) run_Cons.prems
  have "pk_key ae_count (ae_transfer dt) el moved a v = (d\<lparr>ac_time := ac_time d - ucast el\<rparr>, k)"
    "span now samples < unat (ac_time d - ucast el)"
    by (auto simp: ae_key)
  with run_Cons.IH v run_Cons.prems(1) show ?case by simp
qed simp

text \<open>A release needs the debounce time.\<close>

lemma ae_no_early_release:
  assumes "pk_key_run True ae_count (ae_transfer dt) ex t v samples v'" and "snd v"
    and "ac_time (fst v) = 0 \<or> (\<not> ac_pressed (fst v) \<and> unat (ucast dt :: 7 word) \<le> unat (ac_time (fst v)) + m)"
    and "m + span t samples < unat (ucast dt :: 7 word)"
  shows "snd v'"
  using assms
proof (induction arbitrary: m)
  case (run_Cons el now t changed moved v a samples v')
  obtain d k where v: "v = (d, k)" by (cases v)
  let ?g = "unat (timer_diff now t)"
  obtain d1 k1 where step: "pk_key ae_count (ae_transfer dt) el moved a (d, k) = (d1, k1)" by fastforce
  have "ac_time d = 0 \<or> \<not> unat (ac_time d) \<le> unat el" using run_Cons v by (auto simp: unat_clamp)
  with countdown7 [of "ac_time d" "timer_diff now t"] step run_Cons.prems(1,2) v run_Cons.hyps(1)
  have "k1" "ac_time d1 = 0 \<or> (\<not> ac_pressed d1 \<and> unat (ucast dt :: 7 word) \<le> unat (ac_time d1) + (m + ?g))"
    by (auto simp: ae_key split: if_splits)
  with run_Cons.IH [of "m + ?g"] run_Cons.prems(3) step v show ?case by simp
qed simp

lemma ae_release_delivers:
  assumes "pk_key_run True ae_count (ae_transfer dt) ex t v samples v'"
    and "\<not> snd v \<or> (ac_time (fst v) \<noteq> 0 \<and> \<not> ac_pressed (fst v)
      \<and> unat (ac_time (fst v)) + m \<le> unat (ucast dt :: 7 word))"
    and "unat (ucast dt :: 7 word) \<le> m + span t samples"
    and "list_all (\<lambda>(now, changed, b). \<not> b) samples"
  shows "\<not> snd v'"
  using assms
proof (induction arbitrary: m)
  case (run_Nil t v)
  then have "unat (ac_time (fst v)) = 0 \<or> \<not> snd v" by auto
  with run_Nil show ?case by (auto simp: unat_eq_0)
next
  case (run_Cons el now t changed moved v b samples v')
  obtain d k where v: "v = (d, k)" by (cases v)
  let ?g = "unat (timer_diff now t)"
  obtain d1 k1 where step: "pk_key ae_count (ae_transfer dt) el moved False (d, k) = (d1, k1)" by fastforce
  have b: "\<not> b" using run_Cons.prems(3) by simp
  have "\<not> k1 \<or> (ac_time d1 \<noteq> 0 \<and> \<not> ac_pressed d1 \<and> unat (ac_time d1) + (m + ?g) \<le> unat (ucast dt :: 7 word))"
  proof (cases "\<not> k \<or> unat (ac_time d) \<le> unat el")
    case True
    with step run_Cons.prems(1) v show ?thesis by (auto simp: ae_key split: if_splits)
  next
    case False
    with countdown7 [of "ac_time d" "timer_diff now t"] step run_Cons.prems(1) v run_Cons.hyps(1)
    show ?thesis by (auto simp: ae_key split: if_splits)
  qed
  with run_Cons.IH [of "m + ?g"] run_Cons.prems step v b show ?case by simp
qed

lemma ae_change:
  assumes "pk_key_run True ae_count (ae_transfer dt) ex t (d, k) ((t1, True, a) # samples) v'"
  obtains v1 where "pk_key_run True ae_count (ae_transfer dt) ex t1 v1 samples v'"
    and "v1 = pk_key ae_count (ae_transfer dt) (clamp_elapsed (timer_diff t1 t)) True a (d, k)"
  using assms by (rule run_ConsE) simp

lemma unat_time7: "dt \<le> 127 \<Longrightarrow> unat (ucast dt :: 7 word) = unat dt" for dt :: u8
  by (simp add: unsigned_ucast_eq take_bit_nat_eq_self word_le_nat_alt)

text \<open>With asymmetric debouncing a press appears in the same call and no bounce within the
  debounce time releases it.\<close>

lemma asym_press_then_held:
  fixes cooked :: "'r::len matrix"
  assumes "pk_shape LENGTH('r) n s" and "rows_ok n ((t1, True, raw) # scans)" and "length cooked = n"
    and "pk_ready (\<lambda>d. ac_time d \<noteq> 0) t s" and "r < n" and "c < length (pk_counters s ! r)"
    and "ac_time (pk_counters s ! r ! c) = 0" and "bit (raw ! r) c" and "\<not> bit (cooked ! r) c"
    and "dt \<le> 127" and "span t1 scans < unat dt"
  shows "bit (snd (snd (debounce_run (asym_eager_defer_pk_debounce dt) ((t1, True, raw) # scans) (s, cooked))) ! r) c"
proof -
  obtain v1 where run: "pk_key_run True ae_count (ae_transfer dt)
      (\<lambda>el d. ac_time d \<noteq> 0 \<and> unat (ac_time d) \<le> unat el \<and> ac_pressed d) t1 v1 (samples_of r c scans)
      (pk_view r c (snd (debounce_run (asym_eager_defer_pk_debounce dt) ((t1, True, raw) # scans) (s, cooked))))"
    and v1: "v1 = pk_key ae_count (ae_transfer dt) (clamp_elapsed (timer_diff t1 t)) True (bit (raw ! r) c)
      (pk_counters s ! r ! c, bit (cooked ! r) c)"
    using asym.run_key [OF assms(1-6), of dt]
    by (auto simp: samples_of_def pk_view_def asym_eager_defer_pk_debounce_def elim!: ae_change simp del: debounce_run_Cons)
  have "v1 = (\<lparr>ac_pressed = True, ac_time = ucast dt\<rparr>, True)" using v1 assms(7-9) by (simp add: ae_key)
  with ae_held [OF run] assms(10,11) show ?thesis by (simp add: pk_view_def split_beta unat_time7)
qed

lemma asym_press_then_held_witness:
  "bit (snd (snd (debounce_run (asym_eager_defer_pk_debounce 5) [(10, True, [1]), (12, True, [0])]
     (\<lparr>pk_counters = [[\<lparr>ac_pressed = False, ac_time = 0\<rparr>]], pk_last_time = 3,
       pk_counters_need_update = False, pk_matrix_need_update = False\<rparr>, [0 :: u8]))) ! 0) 0"
  using asym_press_then_held [of 1 "\<lparr>pk_counters = [[\<lparr>ac_pressed = False, ac_time = 0\<rparr>]], pk_last_time = 3,
      pk_counters_need_update = False, pk_matrix_need_update = False\<rparr>" 10 "[1]"
      "[(12, True, [0])]" "[0 :: u8]" 9 0 0 5]
  by (simp add: pk_shape_def counters_ok_def rows_ok_def pk_ready_def timer_diff_def)

text \<open>With asymmetric debouncing a pressed idle key is not released by any scans that take less
  than the debounce time.\<close>

theorem asym_release_deferred:
  fixes cooked :: "'r::len matrix"
  assumes "pk_shape LENGTH('r) n s" and "rows_ok n scans" and "length cooked = n"
    and "pk_ready (\<lambda>d. ac_time d \<noteq> 0) t s" and "r < n" and "c < length (pk_counters s ! r)"
    and "ac_time (pk_counters s ! r ! c) = 0" and "bit (cooked ! r) c"
    and "dt \<le> 127" and "span t scans < unat dt"
  shows "bit (snd (snd (debounce_run (asym_eager_defer_pk_debounce dt) scans (s, cooked))) ! r) c"
  using ae_no_early_release [OF asym.run_key [OF assms(1-6)], of dt 0] assms(7-10)
  by (simp add: asym_eager_defer_pk_debounce_def pk_view_def split_beta unat_time7)

lemma asym_release_deferred_witness:
  "bit (snd (snd (debounce_run (asym_eager_defer_pk_debounce 5) [(10, True, [0]), (13, True, [1])]
     (\<lparr>pk_counters = [[\<lparr>ac_pressed = True, ac_time = 0\<rparr>]], pk_last_time = 3,
       pk_counters_need_update = False, pk_matrix_need_update = False\<rparr>, [1 :: u8]))) ! 0) 0"
  using asym_release_deferred [of 1 "\<lparr>pk_counters = [[\<lparr>ac_pressed = True, ac_time = 0\<rparr>]], pk_last_time = 3,
      pk_counters_need_update = False, pk_matrix_need_update = False\<rparr>"
      "[(10, True, [0]), (13, True, [1])]" "[1 :: u8]" 9 0 0 5]
  by (simp add: pk_shape_def counters_ok_def rows_ok_def pk_ready_def timer_diff_def)

text \<open>A release that stays for the debounce time is reported.\<close>

lemma asym_release_delivers:
  fixes cooked :: "'r::len matrix"
  assumes "pk_shape LENGTH('r) n s" and "rows_ok n ((t1, True, raw) # scans)" and "length cooked = n"
    and "pk_ready (\<lambda>d. ac_time d \<noteq> 0) t s" and "r < n" and "c < length (pk_counters s ! r)"
    and "ac_time (pk_counters s ! r ! c) = 0" and "\<not> bit (raw ! r) c" and "0 < dt" and "dt \<le> 127"
    and "list_all (\<lambda>(now, changed, raw'). \<not> bit (raw' ! r) c) scans" and "unat dt \<le> span t1 scans"
  shows "\<not> bit (snd (snd (debounce_run (asym_eager_defer_pk_debounce dt) ((t1, True, raw) # scans) (s, cooked))) ! r) c"
proof -
  obtain v1 where run: "pk_key_run True ae_count (ae_transfer dt)
      (\<lambda>el d. ac_time d \<noteq> 0 \<and> unat (ac_time d) \<le> unat el \<and> ac_pressed d) t1 v1 (samples_of r c scans)
      (pk_view r c (snd (debounce_run (asym_eager_defer_pk_debounce dt) ((t1, True, raw) # scans) (s, cooked))))"
    and v1: "v1 = pk_key ae_count (ae_transfer dt) (clamp_elapsed (timer_diff t1 t)) True (bit (raw ! r) c)
      (pk_counters s ! r ! c, bit (cooked ! r) c)"
    using asym.run_key [OF assms(1-6), of dt]
    by (auto simp: samples_of_def pk_view_def asym_eager_defer_pk_debounce_def elim!: ae_change simp del: debounce_run_Cons)
  have dt: "unat (ucast dt :: 7 word) = unat dt" "(ucast dt :: 7 word) \<noteq> 0"
    using assms(9,10) unat_time7 [of dt] by (simp_all add: word_gt_0) (metis unat_0 unat_eq_0)
  then have "\<not> snd v1 \<or> (ac_time (fst v1) \<noteq> 0 \<and> \<not> ac_pressed (fst v1)
      \<and> unat (ac_time (fst v1)) + 0 \<le> unat (ucast dt :: 7 word))"
    using v1 assms(7,8) by (simp add: ae_key)
  moreover have "list_all (\<lambda>(now, changed, b). \<not> b) (samples_of r c scans)"
    using assms(11) by (auto simp: samples_of_def list_all_iff)
  ultimately show ?thesis
    using ae_release_delivers [OF run, of 0] assms(12) dt by (simp add: pk_view_def split_beta)
qed

lemma asym_release_delivers_witness:
  "\<not> bit (snd (snd (debounce_run (asym_eager_defer_pk_debounce 5) [(10, True, [0]), (12, False, [0]), (16, False, [0])]
     (\<lparr>pk_counters = [[\<lparr>ac_pressed = True, ac_time = 0\<rparr>]], pk_last_time = 3,
       pk_counters_need_update = False, pk_matrix_need_update = False\<rparr>, [1 :: u8]))) ! 0) 0"
  using asym_release_delivers [of 1 "\<lparr>pk_counters = [[\<lparr>ac_pressed = True, ac_time = 0\<rparr>]], pk_last_time = 3,
      pk_counters_need_update = False, pk_matrix_need_update = False\<rparr>" 10 "[0]"
      "[(12, False, [0]), (16, False, [0])]" "[1 :: u8]" 9 0 0 5]
  by (simp add: pk_shape_def counters_ok_def rows_ok_def pk_ready_def timer_diff_def)

end
