(* ===== verification/Debounce.thy ===== *)
theory Debounce
  imports DebounceKeys
begin

text \<open>
  The debouncers that work on rows (\<open>sym_defer_pr.c\<close>, \<open>sym_eager_pr.c\<close>), on the whole matrix
  (\<open>sym_defer_g.c\<close>) or not at all (\<open>none.c\<close>), and the module \<open>keychron_debounce.c\<close> that selects one
  of the seven at run time, answers the configuration command and keeps type and time in EEPROM.
\<close>

section \<open>\<open>sym_defer_pr.c\<close>\<close>

record 'row defer_pr =
  dp_last_time :: u16
  dp_countdowns :: "u8 list"
  dp_last_raw :: "'row list"

text \<open>\<open>calloc\<close> clears both arrays; \<open>timer_read()\<close> is the low half of the timer.\<close>

definition sym_defer_pr_debounce_init :: "u32 \<Rightarrow> nat \<Rightarrow> 'r::len word defer_pr" where
  "sym_defer_pr_debounce_init now num_rows =
     \<lparr>dp_last_time = ucast now, dp_countdowns = replicate num_rows 0, dp_last_raw = replicate num_rows 0\<rparr>"

fun defer_rows ::
  "u8 \<Rightarrow> u8 \<Rightarrow> 'r::len matrix \<Rightarrow> 'r matrix \<Rightarrow> u8 list \<Rightarrow> 'r word list \<Rightarrow> bool
   \<Rightarrow> 'r matrix \<times> u8 list \<times> 'r word list \<times> bool"
where
  "defer_rows debounce_time elapsed (raw_row # raws) (k # ks) (d # ds) (l # ls) cooked_changed =
     (let (k', d', l', cc') =
        (if raw_row \<noteq> l then (k, debounce_time, raw_row, cooked_changed)
         else if d > elapsed then (k, d - elapsed, l, cooked_changed)
         else if d \<noteq> 0 then (raw_row, 0, l, cooked_changed \<or> k XOR raw_row \<noteq> 0)
         else (k, d, l, cooked_changed));
        (ks', ds', ls', cc'') = defer_rows debounce_time elapsed raws ks ds ls cc'
      in (k' # ks', d' # ds', l' # ls', cc''))"
| "defer_rows debounce_time elapsed _ ks ds ls cooked_changed = (ks, ds, ls, cooked_changed)"

definition sym_defer_pr_debounce ::
  "u8 \<Rightarrow> u32 \<Rightarrow> bool \<Rightarrow> 'r::len matrix \<Rightarrow> 'r word defer_pr \<times> 'r matrix \<Rightarrow> bool \<times> 'r word defer_pr \<times> 'r matrix"
where
  "sym_defer_pr_debounce debounce_time now changed raw = (\<lambda>(s, cooked).
     (let now16 = ucast now;
          elapsed = clamp_elapsed (timer_diff now16 (dp_last_time s));
          (cooked', countdowns', last_raw', cooked_changed) =
            defer_rows debounce_time elapsed raw cooked (dp_countdowns s) (dp_last_raw s) False
      in (cooked_changed,
          \<lparr>dp_last_time = now16, dp_countdowns = countdowns', dp_last_raw = last_raw'\<rparr>, cooked')))"

definition dp_shape :: "nat \<Rightarrow> 'r::len word defer_pr \<Rightarrow> bool" where
  "dp_shape n s \<longleftrightarrow> length (dp_countdowns s) = n \<and> length (dp_last_raw s) = n"

lemma defer_rows_props:
  assumes "length raws = n" and "length ks = n" and "length ds = n" and "length ls = n"
    and "defer_rows dt el raws ks ds ls cc = (ks', ds', ls', cc')"
  shows "length ks' = n \<and> length ds' = n \<and> length ls' = n
    \<and> (cc' \<longleftrightarrow> cc \<or> ks' \<noteq> ks) \<and> (\<forall>r < n. ks' ! r = ks ! r \<or> ks' ! r = raws ! r)"
  using assms
proof (induction raws arbitrary: ks ds ls cc n ks' ds' ls' cc')
  case (Cons raw raws)
  obtain m where m: "n = Suc m" using Cons.prems by (cases n) auto
  obtain k ksr where k: "ks = k # ksr" using Cons.prems m by (cases ks) auto
  obtain d dsr where d: "ds = d # dsr" using Cons.prems m by (cases ds) auto
  obtain l lsr where l: "ls = l # lsr" using Cons.prems m by (cases ls) auto
  define step where "step = (if raw \<noteq> l then (k, dt, raw, cc)
         else if d > el then (k, d - el, l, cc)
         else if d \<noteq> 0 then (raw, 0, l, cc \<or> k XOR raw \<noteq> 0)
         else (k, d, l, cc))"
  obtain k1 d1 l1 c1 where s: "step = (k1, d1, l1, c1)" by (metis prod_cases4)
  obtain ks2 ds2 ls2 c2 where r: "defer_rows dt el raws ksr dsr lsr c1 = (ks2, ds2, ls2, c2)"
    by (metis prod_cases4)
  have "(k1 = k \<or> k1 = raw) \<and> (c1 \<longleftrightarrow> cc \<or> k1 \<noteq> k)"
    using s unfolding step_def by (auto simp: xor_self_iff split: if_splits)
  moreover have "(ks', ds', ls', cc') = (k1 # ks2, d1 # ds2, l1 # ls2, c2)"
    using Cons.prems(5) s r unfolding k d l defer_rows.simps step_def [symmetric] by simp
  moreover have "length ks2 = m \<and> length ds2 = m \<and> length ls2 = m \<and> (c2 \<longleftrightarrow> c1 \<or> ks2 \<noteq> ksr)
      \<and> (\<forall>r < m. ks2 ! r = ksr ! r \<or> ks2 ! r = raws ! r)"
    using Cons.IH [OF _ _ _ _ r, of m] Cons.prems m k d l by simp
  ultimately show ?case using m k by (auto simp: less_Suc_eq_0_disj)
qed auto

interpretation sym_defer_pr: reporting_debouncer "sym_defer_pr_debounce dt" dp_shape for dt
proof
  fix n :: nat and st :: "'a word defer_pr" and raw ck :: "'a matrix" and now :: u32 and ch r c
  assume a: "dp_shape n st" "length raw = n" "length ck = n"
  obtain ck' ds' ls' cc where d: "defer_rows dt
      (clamp_elapsed (timer_diff (ucast now) (dp_last_time st))) raw ck (dp_countdowns st) (dp_last_raw st) False
      = (ck', ds', ls', cc)" by (metis prod_cases4)
  note p = defer_rows_props [OF a(2,3) _ _ d]
  show "dp_shape n (fst (snd (sym_defer_pr_debounce dt now ch raw (st, ck))))
      \<and> length (snd (snd (sym_defer_pr_debounce dt now ch raw (st, ck)))) = n"
    and "fst (sym_defer_pr_debounce dt now ch raw (st, ck))
      \<longleftrightarrow> snd (snd (sym_defer_pr_debounce dt now ch raw (st, ck))) \<noteq> ck"
    using a(1) p d by (simp_all add: sym_defer_pr_debounce_def dp_shape_def Let_def)
  assume "r < n"
  then show "bit (snd (snd (sym_defer_pr_debounce dt now ch raw (st, ck))) ! r) c = bit (ck ! r) c
      \<or> bit (snd (snd (sym_defer_pr_debounce dt now ch raw (st, ck))) ! r) c = bit (raw ! r) c"
    using a(1) p d by (auto simp: sym_defer_pr_debounce_def dp_shape_def Let_def)
qed

section \<open>\<open>sym_eager_pr.c\<close>\<close>

record eager_pr =
  ep_counters :: "u8 list"
  ep_last_time :: u32
  ep_counters_need_update :: bool
  ep_matrix_need_update :: bool

definition sym_eager_pr_debounce_init :: "nat \<Rightarrow> eager_pr \<Rightarrow> eager_pr" where
  "sym_eager_pr_debounce_init num_rows s = s\<lparr>ep_counters := replicate num_rows 0\<rparr>"

fun eager_rows_update :: "u8 \<Rightarrow> u8 list \<Rightarrow> bool \<times> bool \<Rightarrow> u8 list \<times> bool \<times> bool" where
  "eager_rows_update elapsed [] f = ([], f)"
| "eager_rows_update elapsed (d # ds) (nu, mnu) =
     (let (d', f') =
        (if d \<noteq> 0 then (if d \<le> elapsed then (0, (nu, True)) else (d - elapsed, (True, mnu)))
         else (d, (nu, mnu)));
        (ds', f'') = eager_rows_update elapsed ds f'
      in (d' # ds', f''))"

fun eager_rows_transfer ::
  "u8 \<Rightarrow> 'r::len matrix \<Rightarrow> 'r matrix \<Rightarrow> u8 list \<Rightarrow> bool \<times> bool \<Rightarrow> 'r matrix \<times> u8 list \<times> bool \<times> bool"
where
  "eager_rows_transfer debounce_time (raw_row # raws) (k # ks) (d # ds) (nu, cooked_changed) =
     (let (k', d', f') =
        (if k \<noteq> raw_row \<and> d = 0 then (raw_row, debounce_time, True, cooked_changed \<or> k XOR raw_row \<noteq> 0)
         else (k, d, nu, cooked_changed));
        (ks', ds', f'') = eager_rows_transfer debounce_time raws ks ds f'
      in (k' # ks', d' # ds', f''))"
| "eager_rows_transfer debounce_time _ ks ds f = (ks, ds, f)"

definition sym_eager_pr_debounce ::
  "u8 \<Rightarrow> u32 \<Rightarrow> bool \<Rightarrow> 'r::len matrix \<Rightarrow> eager_pr \<times> 'r matrix \<Rightarrow> bool \<times> eager_pr \<times> 'r matrix"
where
  "sym_eager_pr_debounce debounce_time now changed raw = (\<lambda>(s, cooked).
     (let s1 =
        (if ep_counters_need_update s then
           (let elapsed = clamp_elapsed (timer_diff now (ep_last_time s))
            in if elapsed > 0 then
                 (let (ds, nu, mnu) = eager_rows_update elapsed (ep_counters s) (False, False)
                  in \<lparr>ep_counters = ds, ep_last_time = now,
                      ep_counters_need_update = nu, ep_matrix_need_update = mnu\<rparr>)
               else s\<lparr>ep_last_time := now\<rparr>)
         else s)
      in if changed \<or> ep_matrix_need_update s1 then
           (let (cooked', ds, nu, cc) =
              eager_rows_transfer debounce_time raw cooked (ep_counters s1) (ep_counters_need_update s1, False)
            in (cc, \<lparr>ep_counters = ds,
                     ep_last_time = (if ep_counters_need_update s then ep_last_time s1 else now),
                     ep_counters_need_update = nu, ep_matrix_need_update = False\<rparr>, cooked'))
         else (False, s1, cooked)))"

definition ep_shape :: "nat \<Rightarrow> eager_pr \<Rightarrow> bool" where
  "ep_shape n s \<longleftrightarrow> length (ep_counters s) = n"

lemma length_eager_rows_update: "length (fst (eager_rows_update el ds f)) = length ds"
  by (induction el ds f rule: eager_rows_update.induct) (auto simp: Let_def split: prod.splits if_splits)

lemma eager_rows_transfer_props:
  assumes "length raws = n" and "length ks = n" and "length ds = n"
    and "eager_rows_transfer dt raws ks ds (nu, cc) = (ks', ds', nu', cc')"
  shows "length ks' = n \<and> length ds' = n
    \<and> (cc' \<longleftrightarrow> cc \<or> ks' \<noteq> ks) \<and> (\<forall>r < n. ks' ! r = ks ! r \<or> ks' ! r = raws ! r)"
  using assms
proof (induction raws arbitrary: ks ds nu cc n ks' ds' nu' cc')
  case (Cons raw raws)
  obtain m where m: "n = Suc m" using Cons.prems by (cases n) auto
  obtain k ksr where k: "ks = k # ksr" using Cons.prems m by (cases ks) auto
  obtain d dsr where d: "ds = d # dsr" using Cons.prems m by (cases ds) auto
  define step where "step = (if k \<noteq> raw \<and> d = 0 then (raw, dt, True, cc \<or> k XOR raw \<noteq> 0) else (k, d, nu, cc))"
  obtain k1 d1 n1 c1 where s: "step = (k1, d1, n1, c1)" by (metis prod_cases4)
  obtain ks2 ds2 n2 c2 where r: "eager_rows_transfer dt raws ksr dsr (n1, c1) = (ks2, ds2, n2, c2)"
    by (metis prod_cases4)
  have "(k1 = k \<or> k1 = raw) \<and> (c1 \<longleftrightarrow> cc \<or> k1 \<noteq> k)"
    using s unfolding step_def by (auto simp: xor_self_iff split: if_splits)
  moreover have "(ks', ds', nu', cc') = (k1 # ks2, d1 # ds2, n2, c2)"
    using Cons.prems(4) s r unfolding k d eager_rows_transfer.simps step_def [symmetric] by simp
  moreover have "length ks2 = m \<and> length ds2 = m \<and> (c2 \<longleftrightarrow> c1 \<or> ks2 \<noteq> ksr)
      \<and> (\<forall>r < m. ks2 ! r = ksr ! r \<or> ks2 ! r = raws ! r)"
    using Cons.IH [OF _ _ _ r, of m] Cons.prems m k d by simp
  ultimately show ?case using m k by (auto simp: less_Suc_eq_0_disj)
qed auto

lemma sym_eager_pr_props:
  assumes "ep_shape n st" and "length raw = n" and "length ck = n"
  shows "ep_shape n (fst (snd (sym_eager_pr_debounce dt now ch raw (st, ck))))
      \<and> length (snd (snd (sym_eager_pr_debounce dt now ch raw (st, ck)))) = n
      \<and> (fst (sym_eager_pr_debounce dt now ch raw (st, ck))
          \<longleftrightarrow> snd (snd (sym_eager_pr_debounce dt now ch raw (st, ck))) \<noteq> ck)
      \<and> (\<forall>r < n. snd (snd (sym_eager_pr_debounce dt now ch raw (st, ck))) ! r \<in> {ck ! r, raw ! r})"
proof -
  define s1 where "s1 =
        (if ep_counters_need_update st then
           (let elapsed = clamp_elapsed (timer_diff now (ep_last_time st))
            in if elapsed > 0 then
                 (let (ds, nu, mnu) = eager_rows_update elapsed (ep_counters st) (False, False)
                  in \<lparr>ep_counters = ds, ep_last_time = now,
                      ep_counters_need_update = nu, ep_matrix_need_update = mnu\<rparr>)
               else st\<lparr>ep_last_time := now\<rparr>)
         else st)"
  have s1: "length (ep_counters s1) = n"
    using assms(1) length_eager_rows_update [of "clamp_elapsed (timer_diff now (ep_last_time st))" "ep_counters st" "(False, False)"]
    by (auto simp: s1_def ep_shape_def Let_def split: prod.splits)
  obtain ck' ds nu cc where t: "eager_rows_transfer dt raw ck (ep_counters s1) (ep_counters_need_update s1, False)
      = (ck', ds, nu, cc)" by (metis prod_cases4)
  show ?thesis
    using eager_rows_transfer_props [OF assms(2,3) s1 t] s1 assms(3) t
    unfolding sym_eager_pr_debounce_def case_prod_conv s1_def [symmetric]
    by (auto simp: Let_def ep_shape_def)
qed

interpretation sym_eager_pr: reporting_debouncer "sym_eager_pr_debounce dt" ep_shape for dt
proof (unfold_locales, goal_cases)
  case (1 n st raw ck now ch)
  from sym_eager_pr_props [OF 1] show ?case by blast
next
  case (2 n st raw ck r now ch c)
  from sym_eager_pr_props [OF 2(1-3), of dt now ch] 2(4) show ?case by auto
next
  case (3 n st raw ck now ch)
  from sym_eager_pr_props [OF 3] show ?case by blast
qed

section \<open>\<open>sym_defer_g.c\<close> and \<open>none.c\<close>\<close>

record defer_g =
  dg_debouncing :: bool
  dg_time :: u32

definition sym_defer_g_debounce ::
  "u8 \<Rightarrow> u32 \<Rightarrow> bool \<Rightarrow> 'r::len matrix \<Rightarrow> defer_g \<times> 'r matrix \<Rightarrow> bool \<times> defer_g \<times> 'r matrix"
where
  "sym_defer_g_debounce debounce_time now changed raw = (\<lambda>(s, cooked).
     if changed then (False, \<lparr>dg_debouncing = True, dg_time = now\<rparr>, cooked)
     else if dg_debouncing s \<and> unat (timer_elapsed32 now (dg_time s)) \<ge> unat debounce_time then
       (cooked \<noteq> raw, s\<lparr>dg_debouncing := False\<rparr>, raw)
     else (False, s, cooked))"

definition none_debounce ::
  "u32 \<Rightarrow> bool \<Rightarrow> 'r::len matrix \<Rightarrow> unit \<times> 'r matrix \<Rightarrow> bool \<times> unit \<times> 'r matrix"
where
  "none_debounce now changed raw = (\<lambda>(s, cooked).
     if changed then (cooked \<noteq> raw, s, raw) else (False, s, cooked))"

interpretation sym_defer_g: reporting_debouncer "sym_defer_g_debounce dt" "\<lambda>n s. True" for dt
  by unfold_locales (auto simp: sym_defer_g_debounce_def)

interpretation none: reporting_debouncer "none_debounce" "\<lambda>n s. True"
  by unfold_locales (auto simp: none_debounce_def)

section \<open>\<open>keychron_debounce.c\<close>\<close>

text \<open>The enumeration is stored and transmitted as a byte; its order matters.\<close>

datatype algorithm = SYM_DEFER_GLOBAL | SYM_DEFER_PER_ROW | SYM_DEFER_PER_KEY | SYM_EAGER_PER_ROW
  | SYM_EAGER_PER_KEY | ASYM_EAGER_DEFER_PER_KEY | NONE

abbreviation DEBOUNCE_MAX :: u8 where "DEBOUNCE_MAX \<equiv> 7"

definition algorithm_of :: "u8 \<Rightarrow> algorithm option" where
  "algorithm_of code =
     (if code = 0 then Some SYM_DEFER_GLOBAL else if code = 1 then Some SYM_DEFER_PER_ROW
      else if code = 2 then Some SYM_DEFER_PER_KEY else if code = 3 then Some SYM_EAGER_PER_ROW
      else if code = 4 then Some SYM_EAGER_PER_KEY else if code = 5 then Some ASYM_EAGER_DEFER_PER_KEY
      else if code = 6 then Some NONE else None)"

text \<open>The module's statics, the statics of the seven files, and the two EEPROM bytes at
  \<open>OFFSET_DEBOUNCE\<close>.  \<open>db_func\<close> is \<open>debounce_func\<close>: the three pointers are always set together.\<close>

record 'row debounce_state =
  db_type :: u8
  db_time :: u8
  db_func :: "algorithm option"
  db_g :: defer_g
  db_pr :: "'row defer_pr"
  db_pk :: "u8 pk"
  db_epr :: eager_pr
  db_epk :: "u8 pk"
  db_apk :: "asym_counter pk"
  db_eeprom :: "u8 \<times> u8"

text \<open>\<open>(debounce_func.debounce_init)(MATRIX_ROWS)\<close>.\<close>

definition run_init ::
  "algorithm \<Rightarrow> u32 \<Rightarrow> (nat \<Rightarrow> nat \<Rightarrow> bool) \<Rightarrow> nat \<Rightarrow> nat \<Rightarrow> 'r::len word debounce_state \<Rightarrow> 'r word debounce_state"
where
  "run_init alg now garbage rows cols s =
     (case alg of
        SYM_DEFER_GLOBAL \<Rightarrow> s
      | SYM_DEFER_PER_ROW \<Rightarrow> s\<lparr>db_pr := sym_defer_pr_debounce_init now rows\<rparr>
      | SYM_DEFER_PER_KEY \<Rightarrow> s\<lparr>db_pk := pk_counters_init rows cols (db_pk s)\<rparr>
      | SYM_EAGER_PER_ROW \<Rightarrow> s\<lparr>db_epr := sym_eager_pr_debounce_init rows (db_epr s)\<rparr>
      | SYM_EAGER_PER_KEY \<Rightarrow> s\<lparr>db_epk := pk_counters_init rows cols (db_epk s)\<rparr>
      | ASYM_EAGER_DEFER_PER_KEY \<Rightarrow> s\<lparr>db_apk := asym_counters_init garbage rows cols (db_apk s)\<rparr>
      | NONE \<Rightarrow> s)"

text \<open>\<open>(debounce_func.debounce_free)()\<close>: the arrays are gone.\<close>

definition run_free :: "algorithm \<Rightarrow> 'r::len word debounce_state \<Rightarrow> 'r word debounce_state" where
  "run_free alg s =
     (case alg of
        SYM_DEFER_PER_ROW \<Rightarrow> s\<lparr>db_pr := (db_pr s)\<lparr>dp_countdowns := [], dp_last_raw := []\<rparr>\<rparr>
      | SYM_DEFER_PER_KEY \<Rightarrow> s\<lparr>db_pk := (db_pk s)\<lparr>pk_counters := []\<rparr>\<rparr>
      | SYM_EAGER_PER_ROW \<Rightarrow> s\<lparr>db_epr := (db_epr s)\<lparr>ep_counters := []\<rparr>\<rparr>
      | SYM_EAGER_PER_KEY \<Rightarrow> s\<lparr>db_epk := (db_epk s)\<lparr>pk_counters := []\<rparr>\<rparr>
      | ASYM_EAGER_DEFER_PER_KEY \<Rightarrow> s\<lparr>db_apk := (db_apk s)\<lparr>pk_counters := []\<rparr>\<rparr>
      | _ \<Rightarrow> s)"

definition debounce_free :: "'r::len word debounce_state \<Rightarrow> 'r word debounce_state" where
  "debounce_free s = (case db_func s of Some alg \<Rightarrow> run_free alg s | None \<Rightarrow> s)"

definition debounce_set ::
  "u32 \<Rightarrow> (nat \<Rightarrow> nat \<Rightarrow> bool) \<Rightarrow> nat \<Rightarrow> nat \<Rightarrow> u8 \<Rightarrow> u8 \<Rightarrow> bool
   \<Rightarrow> 'r::len word debounce_state \<Rightarrow> 'r word debounce_state"
where
  "debounce_set now garbage rows cols new_type time force s =
     (if new_type = db_type s \<and> time = db_time s \<and> \<not> force then s
      else
        (let s1 = (debounce_free s)\<lparr>db_type := new_type, db_time := time\<rparr>;
             selected = (if db_time s1 = 0 then 6 else new_type);
             s2 = (case algorithm_of selected of
                     Some alg \<Rightarrow> s1\<lparr>db_func := Some alg\<rparr>
                   | None \<Rightarrow> s1);
             s3 = (if selected = 5 \<and> db_time s2 > 127 then s2\<lparr>db_time := 127\<rparr> else s2)
         in (case db_func s3 of Some alg \<Rightarrow> run_init alg now garbage rows cols s3 | None \<Rightarrow> s3)))"

definition debounce_save :: "'r::len word debounce_state \<Rightarrow> 'r word debounce_state" where
  "debounce_save s = s\<lparr>db_eeprom := (db_type s, db_time s)\<rparr>"

text \<open>\<open>eeconfig_is_enabled\<close> and \<open>eeconfig_init\<close> belong to the configuration store: \<open>db_eeprom\<close> is what
  the two bytes hold after them.  \<open>DEFAULT_DEBOUNCE_TYPE\<close> and \<open>DEBOUNCE\<close> are build options.\<close>

definition debounce_init ::
  "u8 \<Rightarrow> u32 \<Rightarrow> (nat \<Rightarrow> nat \<Rightarrow> bool) \<Rightarrow> nat \<Rightarrow> nat \<Rightarrow> 'r::len word debounce_state \<Rightarrow> 'r word debounce_state"
where
  "debounce_init default_type now garbage rows cols s =
     (let s0 = s\<lparr>db_type := 0\<rparr>;
          stored = fst (db_eeprom s0);
          type' = (if stored \<ge> DEBOUNCE_MAX then default_type else stored)
      in debounce_set now garbage rows cols type' (snd (db_eeprom s0)) (db_type s0 = type') s0)"

definition debounce_config_reset ::
  "u8 \<Rightarrow> u8 \<Rightarrow> u32 \<Rightarrow> (nat \<Rightarrow> nat \<Rightarrow> bool) \<Rightarrow> nat \<Rightarrow> nat \<Rightarrow> 'r::len word debounce_state \<Rightarrow> 'r word debounce_state"
where
  "debounce_config_reset default_type default_time now garbage rows cols s =
     debounce_save (debounce_set now garbage rows cols default_type default_time True s)"

definition debounce_time_set :: "u8 \<Rightarrow> 'r::len word debounce_state \<Rightarrow> 'r word debounce_state" where
  "debounce_time_set time s = s\<lparr>db_time := time\<rparr>"

abbreviation DEBOUNCE_GET :: u8 where "DEBOUNCE_GET \<equiv> 5"
abbreviation DEBOUNCE_SET :: u8 where "DEBOUNCE_SET \<equiv> 6"

definition debounce_rx ::
  "u32 \<Rightarrow> (nat \<Rightarrow> nat \<Rightarrow> bool) \<Rightarrow> nat \<Rightarrow> nat \<Rightarrow> u8 list \<Rightarrow> 'r::len word debounce_state
   \<Rightarrow> u8 list \<times> 'r word debounce_state"
where
  "debounce_rx now garbage rows cols data s =
     (let cmd = data ! 1 in
      if cmd = DEBOUNCE_GET then (data[2 := 0, 3 := 0, 4 := db_type s, 5 := db_time s], s)
      else if cmd = DEBOUNCE_SET then
        (let type' = data ! 2; time = data ! 3 in
         if type' < DEBOUNCE_MAX then
           (data[2 := 0], debounce_save (debounce_set now garbage rows cols type' time False s))
         else (data[2 := 1], s))
      else (data[0 := 0xFF], s))"

text \<open>The call of the matrix scan.\<close>

definition debounce ::
  "u32 \<Rightarrow> bool \<Rightarrow> 'r::len matrix \<Rightarrow> 'r word debounce_state \<times> 'r matrix \<Rightarrow> bool \<times> 'r word debounce_state \<times> 'r matrix"
where
  "debounce now changed raw = (\<lambda>(s, cooked).
     (let dt = db_time s;
          (s', cooked') =
            (case db_func s of
               None \<Rightarrow> (s, cooked)
             | Some SYM_DEFER_GLOBAL \<Rightarrow>
                 (case sym_defer_g_debounce dt now changed raw (db_g s, cooked) of (_, x, k) \<Rightarrow> (s\<lparr>db_g := x\<rparr>, k))
             | Some SYM_DEFER_PER_ROW \<Rightarrow>
                 (case sym_defer_pr_debounce dt now changed raw (db_pr s, cooked) of (_, x, k) \<Rightarrow> (s\<lparr>db_pr := x\<rparr>, k))
             | Some SYM_DEFER_PER_KEY \<Rightarrow>
                 (case sym_defer_pk_debounce dt now changed raw (db_pk s, cooked) of (_, x, k) \<Rightarrow> (s\<lparr>db_pk := x\<rparr>, k))
             | Some SYM_EAGER_PER_ROW \<Rightarrow>
                 (case sym_eager_pr_debounce dt now changed raw (db_epr s, cooked) of (_, x, k) \<Rightarrow> (s\<lparr>db_epr := x\<rparr>, k))
             | Some SYM_EAGER_PER_KEY \<Rightarrow>
                 (case sym_eager_pk_debounce dt now changed raw (db_epk s, cooked) of (_, x, k) \<Rightarrow> (s\<lparr>db_epk := x\<rparr>, k))
             | Some ASYM_EAGER_DEFER_PER_KEY \<Rightarrow>
                 (case asym_eager_defer_pk_debounce dt now changed raw (db_apk s, cooked) of (_, x, k) \<Rightarrow> (s\<lparr>db_apk := x\<rparr>, k))
             | Some NONE \<Rightarrow>
                 (case none_debounce now changed raw ((), cooked) of (_, _, k) \<Rightarrow> (s, k)))
      in (False, s', cooked')))"

text \<open>The selected algorithm has its arrays.\<close>

definition db_shape :: "nat \<Rightarrow> nat \<Rightarrow> 'r::len word debounce_state \<Rightarrow> bool" where
  "db_shape bits n s \<longleftrightarrow>
     (case db_func s of
        Some SYM_DEFER_PER_ROW \<Rightarrow> dp_shape n (db_pr s)
      | Some SYM_DEFER_PER_KEY \<Rightarrow> pk_shape bits n (db_pk s)
      | Some SYM_EAGER_PER_ROW \<Rightarrow> ep_shape n (db_epr s)
      | Some SYM_EAGER_PER_KEY \<Rightarrow> pk_shape bits n (db_epk s)
      | Some ASYM_EAGER_DEFER_PER_KEY \<Rightarrow> pk_shape bits n (db_apk s)
      | _ \<Rightarrow> True)"

text \<open>The module after reset: the static initialisers, with what EEPROM holds.\<close>

definition debounce_cold :: "u8 \<times> u8 \<Rightarrow> 'r::len word debounce_state" where
  "debounce_cold eeprom =
     \<lparr>db_type = 0, db_time = 0, db_func = None, db_g = \<lparr>dg_debouncing = False, dg_time = 0\<rparr>,
      db_pr = \<lparr>dp_last_time = 0, dp_countdowns = [], dp_last_raw = []\<rparr>,
      db_pk = \<lparr>pk_counters = [], pk_last_time = 0, pk_counters_need_update = False, pk_matrix_need_update = False\<rparr>,
      db_epr = \<lparr>ep_counters = [], ep_last_time = 0, ep_counters_need_update = False, ep_matrix_need_update = False\<rparr>,
      db_epk = \<lparr>pk_counters = [], pk_last_time = 0, pk_counters_need_update = False, pk_matrix_need_update = False\<rparr>,
      db_apk = \<lparr>pk_counters = [], pk_last_time = 0, pk_counters_need_update = False, pk_matrix_need_update = False\<rparr>,
      db_eeprom = eeprom\<rparr>"

subsection \<open>Configuration\<close>

lemma algorithm_of_Some:
  assumes "code < DEBOUNCE_MAX"
  obtains alg where "algorithm_of code = Some alg"
proof -
  have "unat code < 7" using assms by (simp add: word_less_nat_alt)
  then have "algorithm_of code \<noteq> None"
    by (simp add: algorithm_of_def word_unat_eq_iff)
  then show thesis using that by blast
qed

lemma run_init_fields [simp]:
  "db_type (run_init alg now garbage rows cols s) = db_type s"
  "db_time (run_init alg now garbage rows cols s) = db_time s"
  "db_func (run_init alg now garbage rows cols s) = db_func s"
  "db_eeprom (run_init alg now garbage rows cols s) = db_eeprom s"
  by (simp_all add: run_init_def split: algorithm.splits)

lemma debounce_free_fields [simp]:
  "db_type (debounce_free s) = db_type s" "db_time (debounce_free s) = db_time s"
  "db_func (debounce_free s) = db_func s" "db_eeprom (debounce_free s) = db_eeprom s"
  by (simp_all add: debounce_free_def run_free_def split: option.splits algorithm.splits)

text \<open>The time in force: 127 at most for the asymmetric algorithm.\<close>

definition effective_time :: "u8 \<Rightarrow> u8 \<Rightarrow> u8" where
  "effective_time type time = (if type = 5 \<and> time > 127 then 127 else time)"

definition effective_algorithm :: "u8 \<Rightarrow> u8 \<Rightarrow> algorithm option" where
  "effective_algorithm type time = (if time = 0 then Some NONE else algorithm_of type)"

text \<open>The module's static initialisation and every call agree on type, time and pointers.\<close>

definition db_consistent :: "'r::len word debounce_state \<Rightarrow> bool" where
  "db_consistent s \<longleftrightarrow> db_func s = effective_algorithm (db_type s) (db_time s)
     \<and> db_type s < DEBOUNCE_MAX \<and> (db_type s = 5 \<longrightarrow> db_time s \<le> 127)"

lemma effective_algorithm_Some:
  assumes "type < DEBOUNCE_MAX"
  obtains alg where "effective_algorithm type time = Some alg"
  using algorithm_of_Some [OF assms] by (metis effective_algorithm_def)

lemma debounce_set_runs:
  assumes "effective_algorithm type time = Some alg"
    and "\<not> (type = db_type s \<and> time = db_time s \<and> \<not> force)"
  shows "debounce_set now garbage rows cols type time force s =
    run_init alg now garbage rows cols
      ((debounce_free s)\<lparr>db_type := type, db_time := effective_time type time, db_func := Some alg\<rparr>)"
proof (cases "time = 0")
  case True
  with assms(1) have "alg = NONE" by (simp add: effective_algorithm_def)
  moreover have "algorithm_of 6 = Some NONE" by (simp add: algorithm_of_def)
  ultimately show ?thesis unfolding debounce_set_def if_not_P [OF assms(2)] using True
    by (simp add: Let_def effective_time_def)
next
  case False
  with assms(1) have "algorithm_of type = Some alg" by (simp add: effective_algorithm_def)
  with False show ?thesis unfolding debounce_set_def if_not_P [OF assms(2)]
    by (cases "debounce_free s"; cases "type = 5") (simp_all add: Let_def effective_time_def)
qed

lemma debounce_set_config:
  assumes "type < DEBOUNCE_MAX" and "force \<or> type \<noteq> db_type s \<or> time \<noteq> db_time s \<or> db_consistent s"
  shows "db_type (debounce_set now garbage rows cols type time force s) = type"
    and "db_time (debounce_set now garbage rows cols type time force s) = effective_time type time"
    and "db_func (debounce_set now garbage rows cols type time force s) = effective_algorithm type time"
    and "db_eeprom (debounce_set now garbage rows cols type time force s) = db_eeprom s"
proof -
  let ?s = "debounce_set now garbage rows cols type time force s"
  obtain alg where alg: "effective_algorithm type time = Some alg"
    using effective_algorithm_Some [OF assms(1)] .
  have "db_type ?s = type \<and> db_time ?s = effective_time type time
      \<and> db_func ?s = effective_algorithm type time \<and> db_eeprom ?s = db_eeprom s"
  proof (cases "type = db_type s \<and> time = db_time s \<and> \<not> force")
    case True
    with assms(2) have "db_consistent s" by blast
    moreover from True have "?s = s" by (simp add: debounce_set_def)
    ultimately show ?thesis using True by (auto simp: db_consistent_def effective_time_def)
  next
    case False
    from debounce_set_runs [OF alg this] alg show ?thesis by simp
  qed
  then show "db_type ?s = type" and "db_time ?s = effective_time type time"
    and "db_func ?s = effective_algorithm type time" and "db_eeprom ?s = db_eeprom s" by simp_all
qed

lemma effective_time_consistent:
  "effective_algorithm type (effective_time type time) = effective_algorithm type time"
  "effective_time type (effective_time type time) = effective_time type time"
  "effective_time 5 time \<le> 127"
  by (auto simp: effective_algorithm_def effective_time_def word_less_nat_alt word_le_nat_alt)

lemma debounce_set_consistent:
  assumes "type < DEBOUNCE_MAX" and "force \<or> type \<noteq> db_type s \<or> time \<noteq> db_time s \<or> db_consistent s"
  shows "db_consistent (debounce_set now garbage rows cols type time force s)"
  unfolding db_consistent_def debounce_set_config [OF assms]
  using assms(1) effective_time_consistent by auto

lemma debounce_init_consistent:
  assumes "default_type < DEBOUNCE_MAX"
  shows "db_consistent (debounce_init default_type now garbage rows cols s)"
  unfolding debounce_init_def Let_def
  by (rule debounce_set_consistent) (use assms in \<open>auto simp: not_le\<close>)

text \<open>A debounce set command takes effect, the get command answers the type and the time in force,
  and a restart from the saved EEPROM bytes restores the same configuration.\<close>

lemma debounce_config_roundtrip:
  assumes "db_consistent s" and "length data \<ge> 6" and "data ! 1 = DEBOUNCE_SET"
    and "data ! 2 < DEBOUNCE_MAX" and "length query \<ge> 6" and "query ! 1 = DEBOUNCE_GET"
    and "debounce_rx now garbage rows cols data s = (answer, s1)"
    and "db_eeprom cold = db_eeprom s1"
  shows "answer ! 2 = 0
    \<and> fst (debounce_rx now' garbage' rows cols query s1) ! 4 = data ! 2
    \<and> fst (debounce_rx now' garbage' rows cols query s1) ! 5 = effective_time (data ! 2) (data ! 3)
    \<and> db_func s1 = effective_algorithm (data ! 2) (data ! 3)
    \<and> db_type (debounce_init dflt now' garbage' rows cols cold) = db_type s1
    \<and> db_time (debounce_init dflt now' garbage' rows cols cold) = db_time s1
    \<and> db_func (debounce_init dflt now' garbage' rows cols cold) = db_func s1"
proof -
  let ?t = "data ! 2" and ?m = "data ! 3"
  let ?s = "debounce_set now garbage rows cols ?t ?m False s"
  have s1: "s1 = debounce_save ?s" "answer = data[2 := 0]"
    using assms(3,4,7) by (simp_all add: debounce_rx_def Let_def)
  have "False \<or> ?t \<noteq> db_type s \<or> ?m \<noteq> db_time s \<or> db_consistent s" using assms(1) by simp
  note set = debounce_set_config [OF assms(4) this, of now garbage rows cols]
  have c: "db_type s1 = ?t" "db_time s1 = effective_time ?t ?m" "db_func s1 = effective_algorithm ?t ?m"
    "db_eeprom s1 = (?t, effective_time ?t ?m)"
    unfolding s1 debounce_save_def using set by simp_all
  let ?cold = "cold\<lparr>db_type := 0\<rparr>"
  have init: "debounce_init dflt now' garbage' rows cols cold
      = debounce_set now' garbage' rows cols ?t (effective_time ?t ?m) (0 = ?t) ?cold"
    using assms(4,8) c(4) by (simp add: debounce_init_def Let_def not_le)
  have "0 = ?t \<or> ?t \<noteq> db_type ?cold \<or> effective_time ?t ?m \<noteq> db_time ?cold \<or> db_consistent ?cold" by auto
  note again = debounce_set_config [OF assms(4) this, of now' garbage' rows cols, folded init]
  have q: "fst (debounce_rx now' garbage' rows cols query s1) = query[2 := 0, 3 := 0, 4 := ?t, 5 := effective_time ?t ?m]"
    using c assms(6) by (simp add: debounce_rx_def Let_def)
  show ?thesis
    unfolding q again c s1(2) effective_time_consistent using assms(2,5) by simp
qed

lemma debounce_config_roundtrip_witness:
  defines "s \<equiv> debounce_init 4 0 (\<lambda>_ _. False) 1 8 (debounce_cold (4, 5)) :: 8 word debounce_state"
  defines "s1 \<equiv> snd (debounce_rx 100 (\<lambda>_ _. False) 1 8 [0xA7, 6, 5, 200, 0, 0] s)"
  shows "fst (debounce_rx 100 (\<lambda>_ _. False) 1 8 [0xA7, 6, 5, 200, 0, 0] s) ! 2 = 0
    \<and> fst (debounce_rx 200 (\<lambda>_ _. False) 1 8 [0xA7, 5, 0, 0, 0, 0] s1) ! 5 = 127
    \<and> db_func (debounce_init 4 0 (\<lambda>_ _. True) 1 8 (debounce_cold (db_eeprom s1)) :: 8 word debounce_state)
        = db_func s1"
proof -
  have c: "db_consistent s" unfolding s_def by (rule debounce_init_consistent) simp
  have e: "effective_time 5 200 = 127" by (simp add: effective_time_def)
  have d: "db_eeprom (debounce_cold (db_eeprom s1) :: 8 word debounce_state) = db_eeprom s1"
    by (simp add: debounce_cold_def)
  let ?data = "[0xA7, 6, 5, 200, 0, 0] :: u8 list" and ?query = "[0xA7, 5, 0, 0, 0, 0] :: u8 list"
  obtain answer where rx: "debounce_rx 100 (\<lambda>_ _. False) 1 8 ?data s = (answer, s1)"
    unfolding s1_def by (metis prod.collapse)
  have "6 \<le> length ?data" "?data ! 1 = 6" "?data ! 2 < 7" "6 \<le> length ?query" "?query ! 1 = 5" by simp_all
  note R = debounce_config_roundtrip [OF c this rx d]
  from R [of 200 "\<lambda>_ _. False" 4] R [of 0 "\<lambda>_ _. True" 4] e rx show ?thesis by simp
qed

text \<open>The value returned to the matrix scan says nothing, although \<open>keychron_debounce.h\<close> documents it
  as \<open>true\<close> when \<open>cooked\<close> changed: \<open>debounce\<close> drops what the algorithm returned.\<close>

lemma debounce_returns_false: "\<not> fst (debounce now changed raw st)"
  by (simp add: debounce_def Let_def split_beta)

subsection \<open>The contract\<close>

lemma run_init_shape:
  assumes "cols \<le> bits" and "db_func s = Some alg"
  shows "db_shape bits rows (run_init alg now garbage rows cols s)"
proof -
  have "list_all (\<lambda>ds. length ds \<le> bits) (replicate rows (replicate cols (0 :: u8)))"
    using assms(1) by (simp add: list_all_length)
  with assms show ?thesis
    by (cases alg) (auto simp: db_shape_def run_init_def dp_shape_def ep_shape_def pk_shape_def counters_ok_def
        sym_defer_pr_debounce_init_def sym_eager_pr_debounce_init_def pk_counters_init_def
        asym_counters_init_def list_all_iff)
qed

lemma debounce_init_shape:
  assumes "default_type < DEBOUNCE_MAX" and "cols \<le> bits"
  shows "db_shape bits rows (debounce_init default_type now garbage rows cols s)"
proof -
  let ?s = "s\<lparr>db_type := 0\<rparr>"
  define type where "type = (if fst (db_eeprom s) \<ge> DEBOUNCE_MAX then default_type else fst (db_eeprom s))"
  have t: "type < DEBOUNCE_MAX" using assms(1) by (auto simp: type_def not_le)
  obtain alg where alg: "effective_algorithm type (snd (db_eeprom s)) = Some alg"
    using effective_algorithm_Some [OF t] .
  have "\<not> (type = db_type ?s \<and> snd (db_eeprom s) = db_time ?s \<and> \<not> (0 = type))" by auto
  note runs = debounce_set_runs [OF alg this]
  have "debounce_init default_type now garbage rows cols s
      = debounce_set now garbage rows cols type (snd (db_eeprom s)) (0 = type) ?s"
    by (simp add: debounce_init_def Let_def type_def)
  then show ?thesis unfolding runs by (simp add: run_init_shape [OF assms(2)])
qed

lemma debounce_keeps_shape:
  fixes ck :: "'r::len matrix"
  assumes "db_shape LENGTH('r) n st" and "length raw = n" and "length ck = n"
  shows "db_shape LENGTH('r) n (fst (snd (debounce now ch raw (st, ck))))
    \<and> length (snd (snd (debounce now ch raw (st, ck)))) = n"
proof (cases "db_func st")
  case None
  with assms show ?thesis by (simp add: debounce_def db_shape_def)
next
  case (Some alg)
  then show ?thesis
    using assms
      sym_defer_g.keeps_shape [where n = n and st = "db_g st" and raw = raw and ck = ck and dt = "db_time st" and now = now and ch = ch]
      sym_defer_pr.keeps_shape [where n = n and st = "db_pr st" and raw = raw and ck = ck and dt = "db_time st" and now = now and ch = ch]
      sym_defer.keeps_shape [where n = n and st = "db_pk st" and raw = raw and ck = ck and dt = "db_time st" and now = now and ch = ch]
      sym_eager_pr.keeps_shape [where n = n and st = "db_epr st" and raw = raw and ck = ck and dt = "db_time st" and now = now and ch = ch]
      sym_eager.keeps_shape [where n = n and st = "db_epk st" and raw = raw and ck = ck and dt = "db_time st" and now = now and ch = ch]
      asym.keeps_shape [where n = n and st = "db_apk st" and raw = raw and ck = ck and dt = "db_time st" and now = now and ch = ch]
      none.keeps_shape [where n = n and raw = raw and ck = ck and now = now and ch = ch and st = "()"]
    by (cases alg) (auto simp: debounce_def db_shape_def Let_def sym_defer_pk_debounce_def
        sym_eager_pk_debounce_def asym_eager_defer_pk_debounce_def split: prod.splits)
qed

lemma debounce_follows_raw:
  fixes ck :: "'r::len matrix"
  assumes "db_shape LENGTH('r) n st" and "length raw = n" and "length ck = n" and "r < n"
  shows "bit (snd (snd (debounce now ch raw (st, ck))) ! r) c \<in> {bit (ck ! r) c, bit (raw ! r) c}"
proof (cases "db_func st")
  case None
  with assms show ?thesis by (simp add: debounce_def db_shape_def)
next
  case (Some alg)
  then show ?thesis
    using assms
      sym_defer_g.follows_raw [where n = n and st = "db_g st" and raw = raw and ck = ck and dt = "db_time st" and now = now and ch = ch and r = r and c = c]
      sym_defer_pr.follows_raw [where n = n and st = "db_pr st" and raw = raw and ck = ck and dt = "db_time st" and now = now and ch = ch and r = r and c = c]
      sym_defer.follows_raw [where n = n and st = "db_pk st" and raw = raw and ck = ck and dt = "db_time st" and now = now and ch = ch and r = r and c = c]
      sym_eager_pr.follows_raw [where n = n and st = "db_epr st" and raw = raw and ck = ck and dt = "db_time st" and now = now and ch = ch and r = r and c = c]
      sym_eager.follows_raw [where n = n and st = "db_epk st" and raw = raw and ck = ck and dt = "db_time st" and now = now and ch = ch and r = r and c = c]
      asym.follows_raw [where n = n and st = "db_apk st" and raw = raw and ck = ck and dt = "db_time st" and now = now and ch = ch and r = r and c = c]
      none.follows_raw [where n = n and st = "()" and raw = raw and ck = ck and now = now and ch = ch and r = r and c = c]
    by (cases alg) (auto simp: debounce_def db_shape_def Let_def sym_defer_pk_debounce_def
        sym_eager_pk_debounce_def asym_eager_defer_pk_debounce_def split: prod.splits)
qed

interpretation dispatcher: debouncer
    "debounce :: u32 \<Rightarrow> bool \<Rightarrow> 'r::len matrix \<Rightarrow> 'r word debounce_state \<times> 'r matrix \<Rightarrow> _"
    "db_shape LENGTH('r)"
  by unfold_locales (use debounce_keeps_shape debounce_follows_raw in blast)+

text \<open>After initialisation from any EEPROM content, a key whose raw level equals its debounced
  level in every scan keeps it, whichever algorithm runs.\<close>

lemma debounce_no_ghost_events:
  fixes scans :: "'r::len scan list"
  assumes "default_type < DEBOUNCE_MAX" and "cols \<le> LENGTH('r)"
    and "rows_ok rows scans" and "length cooked = rows" and "r < rows" and "bit (cooked ! r) c = b"
    and "list_all (\<lambda>(now, changed, raw). bit (raw ! r) c = b) scans"
  shows "bit (snd (snd (debounce_run debounce scans
    (debounce_init default_type t garbage rows cols s, cooked))) ! r) c = b"
  using dispatcher.run_steady_key [OF debounce_init_shape [OF assms(1,2)] assms(3-7)] .

lemma debounce_no_ghost_events_witness:
  "bit (snd (snd (debounce_run debounce [(10, True, [1 :: u8]), (13, True, [3])]
    (debounce_init 4 0 (\<lambda>_ _. False) 1 8 (debounce_cold (4, 5)), [0]))) ! 0) 2 = False"
  by (rule debounce_no_ghost_events)
     (simp_all add: rows_ok_def bit_numeral_word_iff bit_1_iff)

end
