(* ===== verification/Socd.thy ===== *)
theory Socd
  imports Prelude
begin

text \<open>
  Simultaneous opposing cardinal directions, \<open>action_socd.c\<close>: pairs of keys of which the scan may
  hide one (or both) while both are down.  The four matrices are \<open>analog_raw_matrix\<close> (which keys
  the analog scan sees down), \<open>raw_matrix\<close> (what the previous call let through), \<open>changed_matrix\<close>,
  and the travel of each key.
\<close>

text \<open>\<open>socd_config_t\<close>, with its bit fields.\<close>

record socd_config =
  key_1_row :: "3 word"
  key_1_col :: "5 word"
  key_2_row :: "3 word"
  key_2_col :: "5 word"
  socd_type :: u8

abbreviation SOCD_PRI_NONE :: u8 where "SOCD_PRI_NONE \<equiv> 0"
abbreviation SOCD_PRI_DEEPER_TRAVEL :: u8 where "SOCD_PRI_DEEPER_TRAVEL \<equiv> 1"
abbreviation SOCD_PRI_DEEPER_TRAVEL_SINGLE :: u8 where "SOCD_PRI_DEEPER_TRAVEL_SINGLE \<equiv> 2"
abbreviation SOCD_PRI_LAST_KEYSTROKE :: u8 where "SOCD_PRI_LAST_KEYSTROKE \<equiv> 3"
abbreviation SOCD_PRI_KEY_1 :: u8 where "SOCD_PRI_KEY_1 \<equiv> 4"
abbreviation SOCD_PRI_KEY_2 :: u8 where "SOCD_PRI_KEY_2 \<equiv> 5"
abbreviation SOCD_PRI_NEUTRAL :: u8 where "SOCD_PRI_NEUTRAL \<equiv> 6"

abbreviation KEY_1_ACTIVE :: u8 where "KEY_1_ACTIVE \<equiv> 1"
abbreviation KEY_2_ACTIVE :: u8 where "KEY_2_ACTIVE \<equiv> 2"

type_synonym key_pos = "nat \<times> nat"

definition key_1 :: "socd_config \<Rightarrow> key_pos" where "key_1 p = (unat (key_1_row p), unat (key_1_col p))"
definition key_2 :: "socd_config \<Rightarrow> key_pos" where "key_2 p = (unat (key_2_row p), unat (key_2_col p))"

definition key_in :: "'r::len matrix \<Rightarrow> key_pos \<Rightarrow> bool" where
  "key_in m k \<longleftrightarrow> m ! fst k AND col_mask (snd k) \<noteq> 0"

definition hide :: "key_pos \<Rightarrow> 'r::len matrix \<Rightarrow> 'r matrix" where
  "hide k msk = msk[fst k := msk ! fst k AND NOT (col_mask (snd k))]"

text \<open>The body of the loop over the pairs.\<close>

definition socd_pair ::
  "(key_pos \<Rightarrow> u8) \<Rightarrow> 'r::len matrix \<Rightarrow> 'r matrix \<Rightarrow> 'r matrix \<Rightarrow> socd_config
   \<Rightarrow> u8 \<times> 'r matrix \<Rightarrow> u8 \<times> 'r matrix"
where
  "socd_pair travel analog_raw raw changed p = (\<lambda>(state, msk).
     if socd_type p = SOCD_PRI_NONE then (state, msk)
     else
       (let k1 = key_1 p; k2 = key_2 p;
            (state', msk', keep_last_state) =
              (if key_in analog_raw k1 \<and> key_in analog_raw k2 then
                 if socd_type p = SOCD_PRI_DEEPER_TRAVEL \<or> socd_type p = SOCD_PRI_DEEPER_TRAVEL_SINGLE then
                   if travel k1 > 230 \<and> travel k2 > 230 then
                     (state, msk, socd_type p = SOCD_PRI_DEEPER_TRAVEL_SINGLE)
                   else if state = KEY_2_ACTIVE \<and> travel k1 > travel k2 then (state, hide k2 msk, False)
                   else if state = KEY_1_ACTIVE \<and> travel k1 < travel k2 then (state, hide k1 msk, False)
                   else (state, msk, True)
                 else if socd_type p = SOCD_PRI_LAST_KEYSTROKE then
                   if key_in raw k1 \<and> key_in analog_raw k2 \<and> key_in changed k2 then
                     (KEY_2_ACTIVE, hide k1 msk, False)
                   else if key_in raw k2 \<and> key_in analog_raw k1 \<and> key_in changed k1 then
                     (KEY_1_ACTIVE, hide k2 msk, False)
                   else (state, msk, True)
                 else if socd_type p = SOCD_PRI_KEY_1 then (KEY_1_ACTIVE, hide k2 msk, False)
                 else if socd_type p = SOCD_PRI_KEY_2 then (KEY_2_ACTIVE, hide k1 msk, False)
                 else if socd_type p = SOCD_PRI_NEUTRAL then (0, hide k2 (hide k1 msk), False)
                 else (state, msk, False)
               else if key_in analog_raw k1 then (KEY_1_ACTIVE, msk, False)
               else if key_in analog_raw k2 then (KEY_2_ACTIVE, msk, False)
               else (state, msk, False))
        in if keep_last_state then
             if state' = KEY_1_ACTIVE then (state', hide k2 msk')
             else if state' = KEY_2_ACTIVE then (state', hide k1 msk')
             else (state', msk')
           else (state', msk')))"

fun socd_loop ::
  "(key_pos \<Rightarrow> u8) \<Rightarrow> 'r::len matrix \<Rightarrow> 'r matrix \<Rightarrow> 'r matrix \<Rightarrow> socd_config list \<Rightarrow> u8 list
   \<Rightarrow> 'r matrix \<Rightarrow> u8 list \<times> 'r matrix"
where
  "socd_loop travel analog_raw raw changed (p # ps) (st # sts) msk =
     (let (st', msk') = socd_pair travel analog_raw raw changed p (st, msk);
          (sts', msk'') = socd_loop travel analog_raw raw changed ps sts msk'
      in (st' # sts', msk''))"
| "socd_loop travel analog_raw raw changed _ sts msk = (sts, msk)"

definition socd_action ::
  "(key_pos \<Rightarrow> u8) \<Rightarrow> 'r::len matrix \<Rightarrow> 'r matrix \<Rightarrow> 'r matrix \<Rightarrow> socd_config list \<Rightarrow> u8 list
   \<Rightarrow> u8 list \<times> 'r matrix"
where
  "socd_action travel analog_raw raw changed socd state =
     (let (state', msk) =
        socd_loop travel analog_raw raw changed socd state (replicate (length analog_raw) (NOT 0))
      in (state', map2 (AND) analog_raw msk))"

section \<open>Masks\<close>

lemma key_in_bit [row_simps]: "key_in m k \<longleftrightarrow> bit (m ! fst k) (snd k)"
  by (simp add: key_in_def row_simps)

lemma length_hide [simp]: "length (hide k msk) = length msk"
  by (simp add: hide_def)

lemma hide_bit [row_simps]:
  "r < length msk \<Longrightarrow> bit (hide k msk ! r) c \<longleftrightarrow> bit (msk ! r) c \<and> (r, c) \<noteq> k"
  by (cases k) (auto simp: hide_def nth_list_update_if row_simps)

definition visible :: "'r::len matrix \<Rightarrow> key_pos \<Rightarrow> bool" where
  "visible msk k \<longleftrightarrow> fst k < length msk \<and> bit (msk ! fst k) (snd k)"

lemma visible_hide [row_simps]: "visible (hide k msk) k' \<longleftrightarrow> visible msk k' \<and> k' \<noteq> k"
  by (cases k') (auto simp: visible_def row_simps)

text \<open>The decision of a pair: its new state, and whether each of its keys is hidden.\<close>

definition socd_decide ::
  "(key_pos \<Rightarrow> u8) \<Rightarrow> 'r::len matrix \<Rightarrow> 'r matrix \<Rightarrow> 'r matrix \<Rightarrow> socd_config \<Rightarrow> u8 \<Rightarrow> u8 \<times> bool \<times> bool"
where
  "socd_decide travel an raw ch p st =
     (let k1 = key_1 p; k2 = key_2 p; t = socd_type p;
          last_state = (st, st = KEY_2_ACTIVE, st = KEY_1_ACTIVE)
      in if t = SOCD_PRI_NONE then (st, False, False)
         else if \<not> key_in an k1 then (if key_in an k2 then KEY_2_ACTIVE else st, False, False)
         else if \<not> key_in an k2 then (KEY_1_ACTIVE, False, False)
         else if t = SOCD_PRI_KEY_1 then (KEY_1_ACTIVE, False, True)
         else if t = SOCD_PRI_KEY_2 then (KEY_2_ACTIVE, True, False)
         else if t = SOCD_PRI_NEUTRAL then (0, True, True)
         else if t = SOCD_PRI_LAST_KEYSTROKE then
           if key_in raw k1 \<and> key_in ch k2 then (KEY_2_ACTIVE, True, False)
           else if key_in raw k2 \<and> key_in ch k1 then (KEY_1_ACTIVE, False, True)
           else last_state
         else if t = SOCD_PRI_DEEPER_TRAVEL \<or> t = SOCD_PRI_DEEPER_TRAVEL_SINGLE then
           if travel k1 > 230 \<and> travel k2 > 230 then
             if t = SOCD_PRI_DEEPER_TRAVEL_SINGLE then last_state else (st, False, False)
           else if st = KEY_2_ACTIVE \<and> travel k1 > travel k2 then (st, False, True)
           else if st = KEY_1_ACTIVE \<and> travel k1 < travel k2 then (st, True, False)
           else last_state
         else (st, False, False))"

lemma socd_pair_decide:
  "socd_pair tr an raw ch p (st, msk) =
     (case socd_decide tr an raw ch p st of (st', h1, h2) \<Rightarrow>
        (st', (if h2 then hide (key_2 p) else id) ((if h1 then hide (key_1 p) else id) msk)))"
proof (cases "key_in an (key_1 p) \<and> key_in an (key_2 p)")
  case True
  note defs = socd_pair_def socd_decide_def Let_def
  show ?thesis
  proof (cases "socd_type p = SOCD_PRI_DEEPER_TRAVEL \<or> socd_type p = SOCD_PRI_DEEPER_TRAVEL_SINGLE")
    case deeper: True
    show ?thesis
      by (cases "tr (key_1 p) > 230 \<and> tr (key_2 p) > 230"; cases "tr (key_1 p) < tr (key_2 p)";
          cases "tr (key_2 p) < tr (key_1 p)"; use True deeper in \<open>elim disjE\<close>)
         (auto simp: defs)
  next
    case False
    with True show ?thesis by (simp add: defs)
  qed
next
  case False
  then show ?thesis by (auto simp: socd_pair_def socd_decide_def Let_def)
qed

text \<open>A pair hides some of its own keys, and none unless both are down.\<close>

lemma decide_both:
  assumes "socd_decide tr an raw ch p st = (st', h1, h2)" and "h1 \<or> h2"
  shows "key_in an (key_1 p) \<and> key_in an (key_2 p)"
  using assms unfolding socd_decide_def Let_def by (auto split: if_split_asm)

lemma pair_visible:
  assumes "socd_decide tr an raw ch p st = (st', h1, h2)"
  shows "visible (snd (socd_pair tr an raw ch p (st, msk))) k \<longleftrightarrow>
    visible msk k \<and> (h1 \<longrightarrow> k \<noteq> key_1 p) \<and> (h2 \<longrightarrow> k \<noteq> key_2 p)"
  by (auto simp: socd_pair_decide assms row_simps)

lemma socd_pair_length [simp]: "length (snd (socd_pair tr an raw ch p (st, msk))) = length msk"
  by (simp add: socd_pair_decide split: prod.splits)

lemma socd_pair_fst: "fst (socd_pair tr an raw ch p (st, msk)) = fst (socd_decide tr an raw ch p st)"
  by (simp add: socd_pair_decide split: prod.splits)

lemma socd_pair_hides: "visible (snd (socd_pair tr an raw ch p (st, msk))) k \<Longrightarrow> visible msk k"
  by (cases "socd_decide tr an raw ch p st") (simp add: pair_visible)

lemma socd_pair_keeps:
  assumes "visible msk k" and "key_in an (key_1 p) \<and> key_in an (key_2 p) \<Longrightarrow> k \<notin> {key_1 p, key_2 p}"
  shows "visible (snd (socd_pair tr an raw ch p (st, msk))) k"
proof -
  obtain st' h1 h2 where d: "socd_decide tr an raw ch p st = (st', h1, h2)" by (metis prod_cases3)
  with assms decide_both [OF d] show ?thesis by (auto simp: pair_visible [OF d])
qed

text \<open>When a pair is sure to leave at most one of its keys.\<close>

definition resolves :: "(key_pos \<Rightarrow> u8) \<Rightarrow> socd_config \<Rightarrow> u8 \<Rightarrow> bool" where
  "resolves travel p state \<longleftrightarrow>
     socd_type p \<in> {SOCD_PRI_KEY_1, SOCD_PRI_KEY_2, SOCD_PRI_NEUTRAL} \<or>
     (state \<in> {KEY_1_ACTIVE, KEY_2_ACTIVE} \<and>
       (socd_type p \<in> {SOCD_PRI_DEEPER_TRAVEL_SINGLE, SOCD_PRI_LAST_KEYSTROKE} \<or>
        (socd_type p = SOCD_PRI_DEEPER_TRAVEL \<and> \<not> (travel (key_1 p) > 230 \<and> travel (key_2 p) > 230))))"

lemma socd_pair_resolves:
  assumes "resolves tr p st" and "key_in an (key_1 p)" and "key_in an (key_2 p)"
  shows "\<not> (visible (snd (socd_pair tr an raw ch p (st, msk))) (key_1 p)
    \<and> visible (snd (socd_pair tr an raw ch p (st, msk))) (key_2 p))"
proof -
  obtain st' h1 h2 where d: "socd_decide tr an raw ch p st = (st', h1, h2)" by (metis prod_cases3)
  have "h1 \<or> h2"
    using d assms unfolding socd_decide_def resolves_def Let_def by (auto split: if_split_asm)
  then show ?thesis by (auto simp: pair_visible [OF d])
qed

lemma socd_pair_state:
  assumes "socd_type p \<noteq> SOCD_PRI_NEUTRAL" and "socd_type p \<noteq> SOCD_PRI_NONE"
    and "st \<in> {KEY_1_ACTIVE, KEY_2_ACTIVE} \<or> key_in an (key_1 p) \<noteq> key_in an (key_2 p)"
  shows "fst (socd_decide tr an raw ch p st) \<in> {KEY_1_ACTIVE, KEY_2_ACTIVE}"
  using assms unfolding socd_decide_def Let_def by auto

section \<open>The loop over the pairs\<close>

lemma socd_loop_Cons [loop_simps]:
  "socd_loop tr an raw ch (p # ps) (st # sts) msk =
     (fst (socd_pair tr an raw ch p (st, msk))
        # fst (socd_loop tr an raw ch ps sts (snd (socd_pair tr an raw ch p (st, msk)))),
      snd (socd_loop tr an raw ch ps sts (snd (socd_pair tr an raw ch p (st, msk)))))"
  by (simp add: Let_def split: prod.splits)

declare socd_loop.simps(1) [simp del]

lemma socd_loop_length [simp]:
  "length (snd (socd_loop tr an raw ch ps sts msk)) = length msk"
  "length (fst (socd_loop tr an raw ch ps sts msk)) = length sts"
proof (induction ps arbitrary: sts msk)
  case (Cons p ps)
  {
    case 1
    with Cons show ?case by (cases sts) (simp_all add: socd_loop_Cons)
  next
    case 2
    with Cons show ?case by (cases sts) (simp_all add: socd_loop_Cons)
  }
qed simp_all

lemma socd_loop_hides:
  "visible (snd (socd_loop tr an raw ch ps sts msk)) k \<Longrightarrow> visible msk k"
proof (induction ps arbitrary: sts msk)
  case (Cons p ps)
  then show ?case by (cases sts) (auto simp: socd_loop_Cons dest: socd_pair_hides)
qed simp

lemma socd_loop_keeps:
  assumes "visible msk k"
    and "\<And>p. p \<in> set ps \<Longrightarrow> key_in an (key_1 p) \<and> key_in an (key_2 p) \<Longrightarrow> k \<notin> {key_1 p, key_2 p}"
  shows "visible (snd (socd_loop tr an raw ch ps sts msk)) k"
  using assms
proof (induction ps arbitrary: sts msk)
  case (Cons p ps)
  have "visible (snd (socd_pair tr an raw ch p (st, msk))) k" for st
    by (rule socd_pair_keeps [OF Cons.prems(1)]) (use Cons.prems(2) [of p] in simp)
  then show ?case using Cons by (cases sts) (auto simp: socd_loop_Cons)
qed simp

lemma socd_loop_pair:
  assumes "i < length ps" and "length sts = length ps"
  shows "\<exists>m. fst (socd_loop tr an raw ch ps sts msk) ! i = fst (socd_decide tr an raw ch (ps ! i) (sts ! i))
    \<and> (\<forall>k. visible (snd (socd_loop tr an raw ch ps sts msk)) k
          \<longrightarrow> visible (snd (socd_pair tr an raw ch (ps ! i) (sts ! i, m))) k)"
  using assms
proof (induction ps arbitrary: sts msk i)
  case (Cons p ps)
  obtain st sts' where sts: "sts = st # sts'" using Cons.prems by (cases sts) auto
  show ?case
  proof (cases i)
    case 0
    then show ?thesis using sts by (auto simp: socd_loop_Cons socd_pair_fst dest: socd_loop_hides)
  next
    case (Suc j)
    with Cons.IH [of j sts' "snd (socd_pair tr an raw ch p (st, msk))"] Cons.prems sts
    show ?thesis by (simp add: socd_loop_Cons)
  qed
qed simp

section \<open>The whole action\<close>

lemma socd_action_visible:
  fixes an :: "'r::len matrix"
  shows "visible (snd (socd_action tr an raw ch ps sts)) k \<longleftrightarrow>
    visible an k \<and> visible (snd (socd_loop tr an raw ch ps sts (replicate (length an) (NOT 0)))) k"
  by (cases k) (auto simp: socd_action_def visible_def bit_simps split_beta)

lemma all_visible:
  fixes an :: "'r::len matrix"
  shows "visible (replicate (length an) (NOT 0 :: 'r word)) k \<longleftrightarrow> fst k < length an \<and> snd k < LENGTH('r)"
  by (auto simp: visible_def bit_simps)

text \<open>The matrix a scan lets through is part of what it saw.\<close>

lemma socd_subset: "visible (snd (socd_action tr an raw ch ps sts)) k \<Longrightarrow> visible an k"
  by (simp add: socd_action_visible)

lemma key_in_visible: "fst k < length m \<Longrightarrow> key_in m k \<longleftrightarrow> visible m k"
  by (simp add: visible_def row_simps)

lemma socd_action_length [simp]: "length (snd (socd_action tr an raw ch ps sts)) = length an"
  by (simp add: socd_action_def split_beta)

definition in_range :: "nat \<Rightarrow> socd_config \<Rightarrow> bool" where
  "in_range rows p \<longleftrightarrow> fst (key_1 p) < rows \<and> fst (key_2 p) < rows"

lemma socd_exclusive:
  assumes "i < length ps" and "length sts = length ps" and "in_range (length an) (ps ! i)"
    and "resolves tr (ps ! i) (sts ! i)"
  shows "\<not> (key_in (snd (socd_action tr an raw ch ps sts)) (key_1 (ps ! i))
    \<and> key_in (snd (socd_action tr an raw ch ps sts)) (key_2 (ps ! i)))"
proof
  let ?m = "snd (socd_loop tr an raw ch ps sts (replicate (length an) (NOT 0)))"
  assume "key_in (snd (socd_action tr an raw ch ps sts)) (key_1 (ps ! i))
    \<and> key_in (snd (socd_action tr an raw ch ps sts)) (key_2 (ps ! i))"
  then have v: "visible an (key_1 (ps ! i))" "visible ?m (key_1 (ps ! i))"
    "visible an (key_2 (ps ! i))" "visible ?m (key_2 (ps ! i))"
    using assms(3) by (simp_all add: in_range_def key_in_visible socd_action_visible)
  then have "key_in an (key_1 (ps ! i))" "key_in an (key_2 (ps ! i))"
    using assms(3) by (simp_all add: in_range_def key_in_visible)
  with socd_pair_resolves [OF assms(4)] socd_loop_pair [OF assms(1,2), of tr an raw ch "replicate (length an) (NOT 0)"] v
  show False by blast
qed

text \<open>A key that is down passes the SOCD filter whenever no pair it belongs to has both keys
  down.\<close>

lemma socd_transparent:
  fixes an :: "'r::len matrix"
  assumes "fst k < length an" and "key_in an k"
    and "\<And>p. p \<in> set ps \<Longrightarrow> k \<in> {key_1 p, key_2 p} \<Longrightarrow> \<not> (key_in an (key_1 p) \<and> key_in an (key_2 p))"
  shows "key_in (snd (socd_action tr an raw ch ps sts)) k"
proof -
  have v: "visible an k" using assms(1,2) by (simp add: key_in_visible)
  then have "visible (replicate (length an) (NOT 0 :: 'r word)) k"
    using assms(1) bit_imp_le_length [of "an ! fst k" "snd k"] by (simp add: all_visible visible_def)
  then have "visible (snd (socd_loop tr an raw ch ps sts (replicate (length an) (NOT 0)))) k"
    by (rule socd_loop_keeps) (use assms(3) in blast)
  with v assms(1) show ?thesis by (simp add: key_in_visible socd_action_visible)
qed

section \<open>Runs of scans\<close>

text \<open>Successive scans: \<open>raw_matrix\<close> is fed back, \<open>state\<close> is the function's static array.\<close>

fun socd_run ::
  "socd_config list \<Rightarrow> ((key_pos \<Rightarrow> u8) \<times> 'r::len matrix \<times> 'r matrix) list \<Rightarrow> u8 list \<times> 'r matrix
   \<Rightarrow> 'r matrix list"
where
  "socd_run ps [] s = []"
| "socd_run ps ((travel, an, ch) # scans) (sts, raw) =
     (let s' = socd_action travel an raw ch ps sts in snd s' # socd_run ps scans s')"

lemma socd_action_state:
  assumes "i < length ps" and "length sts = length ps"
  shows "fst (socd_action tr an raw ch ps sts) ! i = fst (socd_decide tr an raw ch (ps ! i) (sts ! i))"
    and "length (fst (socd_action tr an raw ch ps sts)) = length ps"
  using socd_loop_pair [OF assms, of tr an raw ch "replicate (length an) (NOT 0)"] assms
  by (auto simp: socd_action_def split_beta)

text \<open>C4. Over any scans, a pair with a resolving rule whose last active key is known never lets both
  its keys through, whatever the travels and the other pairs.\<close>

theorem socd_run_exclusive:
  assumes "i < length ps" and "length sts = length ps" and "in_range rows (ps ! i)"
    and "socd_type (ps ! i) \<in> {SOCD_PRI_DEEPER_TRAVEL_SINGLE, SOCD_PRI_LAST_KEYSTROKE, SOCD_PRI_KEY_1, SOCD_PRI_KEY_2}"
    and "sts ! i \<in> {KEY_1_ACTIVE, KEY_2_ACTIVE}"
    and "list_all (\<lambda>(travel, an, ch). length an = rows) scans" and "out \<in> set (socd_run ps scans (sts, raw))"
  shows "\<not> (key_in out (key_1 (ps ! i)) \<and> key_in out (key_2 (ps ! i)))"
  using assms(2,5-7)
proof (induction scans arbitrary: sts raw)
  case (Cons scan scans)
  obtain tr an ch where scan: "scan = (tr, an, ch)" by (cases scan)
  let ?s = "socd_action tr an raw ch ps sts"
  note st = socd_action_state [OF assms(1) Cons.prems(1), of tr an raw ch]
  have "fst ?s ! i \<in> {KEY_1_ACTIVE, KEY_2_ACTIVE}"
    unfolding st(1) by (rule socd_pair_state) (use assms(4) Cons.prems(2) in auto)
  moreover have "resolves tr (ps ! i) (sts ! i)" using assms(4) Cons.prems(2) by (auto simp: resolves_def)
  moreover have "out = snd ?s \<or> out \<in> set (socd_run ps scans (fst ?s, snd ?s))"
    using Cons.prems(4) by (auto simp: scan Let_def)
  ultimately show ?case
    using Cons.IH [of "fst ?s" "snd ?s"] st(2) socd_exclusive [OF assms(1) Cons.prems(1), of an tr raw ch]
      Cons.prems(3) assms(3) by (auto simp: scan)
qed simp

lemma socd_run_exclusive_witness:
  fixes p :: socd_config
  defines "p \<equiv> \<lparr>key_1_row = 0, key_1_col = 0, key_2_row = 0, key_2_col = 1, socd_type = 3\<rparr>"
  shows "list_all (\<lambda>out. \<not> (key_in out (0, 0) \<and> key_in out (0, 1)))
    (socd_run [p] [(\<lambda>_. 50, [1 :: u8], [1]), (\<lambda>_. 50, [3], [2])] ([1], [0]))"
proof -
  have k: "key_1 p = (0, 0)" "key_2 p = (0, 1)" by (simp_all add: p_def key_1_def key_2_def)
  show ?thesis
    using socd_run_exclusive [of 0 "[p]" "[1]" 1 "[(\<lambda>_. 50, [1 :: u8], [1]), (\<lambda>_. 50, [3], [2])]" _ "[0]"] k
    by (simp add: in_range_def p_def list_all_iff)
qed

lemma socd_transparent_witness:
  "key_in (snd (socd_action (\<lambda>_. 50) [5 :: u8] [0] [5]
      [\<lparr>key_1_row = 0, key_1_col = 0, key_2_row = 0, key_2_col = 1, socd_type = 6\<rparr>] [0])) (0, 0)"
  by (rule socd_transparent) (simp_all add: key_1_def key_2_def key_in_bit bit_numeral_word_iff)

text \<open>The first pair of a session: while neither key has been down alone, \<open>state\<close> is 0, and two keys
  that go down in the same scan are both let through by the travel and last-keystroke rules.\<close>

lemma socd_simultaneous_first_press:
  "socd_action (\<lambda>_. 100) [3 :: u8] [0] [3]
     [\<lparr>key_1_row = 0, key_1_col = 0, key_2_row = 0, key_2_col = 1, socd_type = SOCD_PRI_LAST_KEYSTROKE\<rparr>] [0]
   = ([0], [3])"
  by (simp add: socd_action_def socd_loop_Cons socd_pair_decide socd_decide_def key_1_def key_2_def
      key_in_bit Let_def bit_numeral_word_iff)

end
