(* ===== verification/Bits.thy ===== *)
theory Bits
  imports Prelude
begin

text \<open>
  \<open>quantum/bitwise.c\<close>: population count, highest set bit and bit reversal at 8, 16 and 32 bits; and
  \<open>quantum/crc.c\<close>: the two implementations of \<open>crc8\<close>, with and without the table.
\<close>

section \<open>Population count\<close>

lemma and_pred_less: "w \<noteq> 0 \<Longrightarrow> unat (w AND (w - 1)) < unat w" for w :: "'a::len word"
proof -
  assume "w \<noteq> 0"
  have "w AND (w - 1) \<le> w - 1" by (simp add: word_and_le1)
  also have "w - 1 < w" using \<open>w \<noteq> 0\<close> by (metis word_gt_0 measure_unat word_less_nat_alt)
  finally show ?thesis by (simp add: word_less_nat_alt)
qed

text \<open>\<open>bitpop\<close>, \<open>bitpop16\<close>, \<open>bitpop32\<close>: the same loop at each width.\<close>

function bitpop_loop :: "'a::len word \<Rightarrow> u8 \<Rightarrow> u8" where
  "bitpop_loop bits c = (if bits = 0 then c else bitpop_loop (bits AND (bits - 1)) (c + 1))"
  by auto
termination by (relation "measure (\<lambda>(bits, c). unat bits)") (auto simp: and_pred_less)

declare bitpop_loop.simps [simp del]

definition bitpop :: "'a::len word \<Rightarrow> u8" where "bitpop bits = bitpop_loop bits 0"

section \<open>Highest bit\<close>

definition halve :: "nat \<Rightarrow> 'a::len word \<times> u8 \<Rightarrow> 'a word \<times> u8" where
  "halve k = (\<lambda>(bits, n). if drop_bit k bits \<noteq> 0 then (drop_bit k bits, n + of_nat k) else (bits, n))"

definition biton :: "u8 \<Rightarrow> u8" where
  "biton bits = snd (halve 1 (halve 2 (halve 4 (bits, 0))))"

definition biton16 :: "u16 \<Rightarrow> u8" where
  "biton16 bits = snd (halve 1 (halve 2 (halve 4 (halve 8 (bits, 0)))))"

definition biton32 :: "u32 \<Rightarrow> u8" where
  "biton32 bits = snd (halve 1 (halve 2 (halve 4 (halve 8 (halve 16 (bits, 0))))))"

section \<open>Reversal\<close>

definition bitrev :: "u8 \<Rightarrow> u8" where
  "bitrev bits =
     (let bits = push_bit 4 (bits AND 0x0f) OR drop_bit 4 (bits AND 0xf0);
          bits = push_bit 2 (bits AND 0x33) OR drop_bit 2 (bits AND 0xcc);
          bits = push_bit 1 (bits AND 0x55) OR drop_bit 1 (bits AND 0xaa)
      in bits)"

definition bitrev16 :: "u16 \<Rightarrow> u16" where
  "bitrev16 bits =
     push_bit 8 (ucast (bitrev (ucast (bits AND 0x00ff)))) OR ucast (bitrev (ucast (drop_bit 8 (bits AND 0xff00))))"

definition bitrev32 :: "u32 \<Rightarrow> u32" where
  "bitrev32 bits =
     push_bit 16 (ucast (bitrev16 (ucast (bits AND 0x0000ffff))))
       OR ucast (bitrev16 (ucast (drop_bit 16 (bits AND 0xffff0000))))"

section \<open>What they compute\<close>

text \<open>Population count of a natural number, by its binary digits.\<close>

definition ones :: "nat \<Rightarrow> nat" where "ones n = card {k. bit n k}"

lemma finite_bits [simp]: "finite {k. bit (n :: nat) k}"
proof (rule finite_subset)
  show "{k. bit n k} \<subseteq> {..n}"
  proof
    fix k assume "k \<in> {k. bit n k}"
    then have "2 ^ k \<le> n" by (auto simp: bit_iff_odd) (metis div_less even_zero not_le)
    with less_exp [of k] show "k \<in> {..n}" by (simp only: atMost_iff)
  qed
qed simp

lemma ones_double: "ones (2 * n) = ones n"
proof -
  have "{k. bit (2 * n) k} = Suc ` {k. bit n k}"
    by (auto simp: bit_double_iff image_iff) (metis Suc_pred neq0_conv)
  then show ?thesis by (simp add: ones_def card_image)
qed

lemma ones_double_Suc: "ones (Suc (2 * n)) = Suc (ones n)"
proof -
  have "bit (Suc (2 * n)) k \<longleftrightarrow> k = 0 \<or> (\<exists>j. k = Suc j \<and> bit n j)" for k
    by (cases k) (simp_all add: bit_0 bit_Suc)
  then have "{k. bit (Suc (2 * n)) k} = insert 0 (Suc ` {k. bit n k})" by auto
  then show ?thesis by (simp add: ones_def card_image)
qed

lemma ones_clear_lowest: "0 < n \<Longrightarrow> Suc (ones (n AND (n - 1))) = ones n"
proof (induction n rule: less_induct)
  case (less n)
  show ?case
  proof (cases "even n")
    case True
    then obtain v where v: "n = 2 * v" "0 < v" using less.prems by (auto elim: evenE)
    have "(2 * v - Suc 0) div 2 = v - 1" using v by presburger
    then have "n AND (n - 1) = 2 * (v AND (v - 1))"
      using v by (simp add: and_nat_rec [of "2 * v"])
    with less.IH [of v] v show ?thesis by (simp add: ones_double)
  next
    case False
    then obtain v where v: "n = Suc (2 * v)" by (auto elim: oddE)
    have "n AND (n - 1) = 2 * v" by (simp add: v and_nat_rec [of "Suc (2 * v)"])
    with v show ?thesis by (simp add: ones_double ones_double_Suc)
  qed
qed

lemma bitpop_loop_ones:
  "unat (bitpop_loop bits c) = (unat c + ones (unat bits)) mod 256"
proof (induction bits c rule: bitpop_loop.induct)
  case (1 bits c)
  show ?case
  proof (cases "bits = 0")
    case True
    then show ?thesis using unsigned_less [of c, where ?'a = nat]
      by (simp add: bitpop_loop.simps ones_def)
  next
    case False
    have "unat (bits AND (bits - 1)) = unat bits AND (unat bits - 1)"
      using False by (simp add: unsigned_and_eq unat_minus_one)
    moreover have "0 < unat bits" using False by (simp add: unat_eq_0 flip: neq0_conv)
    ultimately have "ones (unat bits) = Suc (ones (unat (bits AND (bits - 1))))"
      by (simp only: ones_clear_lowest)
    with 1 False show ?thesis
      by (subst bitpop_loop.simps) (simp add: unat_word_ariths mod_simps)
  qed
qed

lemma bitpop_card:
  fixes bits :: "'a::len word"
  assumes "LENGTH('a) < 256"
  shows "unat (bitpop bits) = card {n. bit bits n}"
proof -
  have "{n. bit (unat bits) n} = {n. bit bits n}"
    using bit_imp_le_length [of bits] by (auto simp: bit_unsigned_iff)
  moreover have "card {n. bit bits n} \<le> LENGTH('a)"
    using card_mono [of "{..<LENGTH('a)}" "{n. bit bits n}"] bit_imp_le_length [of bits] by fastforce
  ultimately show ?thesis using assms bitpop_loop_ones [of bits 0] by (simp add: bitpop_def ones_def)
qed

text \<open>The halving steps keep \<open>bits\<close> the argument shifted right by \<open>n\<close>, below a shrinking bound.\<close>

definition shifted :: "'a::len word \<Rightarrow> nat \<Rightarrow> 'a word \<times> u8 \<Rightarrow> bool" where
  "shifted w bound = (\<lambda>(b, n). b = drop_bit (unat n) w \<and> b \<noteq> 0 \<and> unat b < 2 ^ bound \<and> unat n + bound < 256)"

lemma halve_shifted:
  assumes "shifted w (k + k) s" and "0 < k"
  shows "shifted w k (halve k s)"
proof -
  obtain b n where s: "s = (b, n)" by fastforce
  have u: "unat (drop_bit k b) = unat b div 2 ^ k" unfolding unat_drop_bit_eq by (simp add: drop_bit_eq_div)
  show ?thesis
  proof (cases "drop_bit k b = 0")
    case True
    then have "unat b < 2 ^ k" using u by (simp add: div_eq_0_iff)
    with assms True show ?thesis unfolding s shifted_def halve_def by auto
  next
    case False
    have "unat (drop_bit k b) < 2 ^ k"
      unfolding u by (rule less_mult_imp_div_less)
        (use assms(1) in \<open>auto simp: s shifted_def power_add\<close>)
    moreover have "unat (n + of_nat k) = unat n + k"
      using assms(1) by (simp add: s shifted_def unat_word_ariths unat_of_nat)
    ultimately show ?thesis
      using assms False by (simp add: s shifted_def halve_def add.commute)
  qed
qed

lemma shifted_one:
  assumes "shifted w 1 s"
  shows "bit w (unat (snd s)) \<and> (\<forall>m. bit w m \<longrightarrow> m \<le> unat (snd s))"
proof -
  obtain b n where s: "s = (b, n)" by fastforce
  have b: "b = drop_bit (unat n) w" "unat b = 1"
    using assms by (auto simp: s shifted_def unat_eq_0 less_2_cases_iff)
  then have one: "drop_bit (unat n) w = 1" by (simp add: word_unat_eq_iff)
  then have bits: "bit w (unat n + j) \<longleftrightarrow> j = 0" for j
    using bit_drop_bit_eq [of "unat n" w] by (simp add: fun_eq_iff bit_1_iff)
  have "m \<le> unat n" if "bit w m" for m
    using that bits [of "m - unat n"] by (cases "m \<le> unat n") auto
  with bits [of 0] show ?thesis by (simp add: s)
qed

lemma shifted_start: "w \<noteq> 0 \<Longrightarrow> LENGTH('a) < 256 \<Longrightarrow> shifted w LENGTH('a) (w, 0)" for w :: "'a::len word"
  using unsigned_less [of w, where ?'a = nat] by (simp add: shifted_def)

lemma halve_steps:
  "shifted w 32 s \<Longrightarrow> shifted w 16 (halve 16 s)" "shifted w 16 s \<Longrightarrow> shifted w 8 (halve 8 s)"
  "shifted w 8 s \<Longrightarrow> shifted w 4 (halve 4 s)" "shifted w 4 s \<Longrightarrow> shifted w 2 (halve 2 s)"
  "shifted w 2 s \<Longrightarrow> shifted w 1 (halve 1 s)"
  subgoal using halve_shifted [of w 16 s] by simp
  subgoal using halve_shifted [of w 8 s] by simp
  subgoal using halve_shifted [of w 4 s] by simp
  subgoal using halve_shifted [of w 2 s] by simp
  subgoal using halve_shifted [of w 1 s] by (simp add: numeral_2_eq_2)
  done

lemma biton_highest:
  assumes "bits \<noteq> 0"
  shows "bit bits (unat (biton bits)) \<and> (\<forall>m. bit bits m \<longrightarrow> m \<le> unat (biton bits))"
  unfolding biton_def by (rule shifted_one, intro halve_steps) (use assms shifted_start [of bits] in simp)

lemma biton16_highest:
  assumes "bits \<noteq> 0"
  shows "bit bits (unat (biton16 bits)) \<and> (\<forall>m. bit bits m \<longrightarrow> m \<le> unat (biton16 bits))"
  unfolding biton16_def by (rule shifted_one, intro halve_steps) (use assms shifted_start [of bits] in simp)

lemma biton32_highest:
  assumes "bits \<noteq> 0"
  shows "bit bits (unat (biton32 bits)) \<and> (\<forall>m. bit bits m \<longrightarrow> m \<le> unat (biton32 bits))"
  unfolding biton32_def by (rule shifted_one, intro halve_steps) (use assms shifted_start [of bits] in simp)

lemma bitrev_bit: "n < 8 \<Longrightarrow> bit (bitrev b) n = bit b (7 - n)"
proof -
  assume "n < 8"
  then have "n \<in> {0, 1, 2, 3, 4, 5, 6, 7}" by auto
  then show ?thesis
    by (elim insertE emptyE)
       (simp_all only: bitrev_def Let_def bit_push_bit_iff bit_drop_bit_eq bit_or_iff bit_and_iff comp_apply,
        simp_all add: bit_numeral_word_iff)
qed

section \<open>\<open>crc8\<close>\<close>

definition crc_bit :: "u8 \<Rightarrow> u8 \<Rightarrow> u8" where
  "crc_bit poly crc = (if crc AND 0x80 \<noteq> 0 then push_bit 1 crc XOR poly else push_bit 1 crc)"

definition crc_byte :: "u8 \<Rightarrow> u8 \<Rightarrow> u8" where
  "crc_byte poly crc = (crc_bit poly ^^ 8) crc"

definition crc8_poly :: "u8 \<Rightarrow> u8 list \<Rightarrow> u8" where
  "crc8_poly poly data = fold (\<lambda>d crc. crc_byte poly (crc XOR d)) data 0xff"

text \<open>The implementation without the table.\<close>

definition crc8 :: "u8 list \<Rightarrow> u8" where "crc8 data = crc8_poly 0x31 data"

text \<open>The implementation with \<open>CRC8_USE_TABLE\<close>.\<close>

definition crc_table :: "u8 list" where
  "crc_table =
    [0x00, 0x07, 0x0e, 0x09, 0x1c, 0x1b, 0x12, 0x15, 0x38, 0x3f, 0x36, 0x31, 0x24, 0x23, 0x2a, 0x2d,
     0x70, 0x77, 0x7e, 0x79, 0x6c, 0x6b, 0x62, 0x65, 0x48, 0x4f, 0x46, 0x41, 0x54, 0x53, 0x5a, 0x5d,
     0xe0, 0xe7, 0xee, 0xe9, 0xfc, 0xfb, 0xf2, 0xf5, 0xd8, 0xdf, 0xd6, 0xd1, 0xc4, 0xc3, 0xca, 0xcd,
     0x90, 0x97, 0x9e, 0x99, 0x8c, 0x8b, 0x82, 0x85, 0xa8, 0xaf, 0xa6, 0xa1, 0xb4, 0xb3, 0xba, 0xbd,
     0xc7, 0xc0, 0xc9, 0xce, 0xdb, 0xdc, 0xd5, 0xd2, 0xff, 0xf8, 0xf1, 0xf6, 0xe3, 0xe4, 0xed, 0xea,
     0xb7, 0xb0, 0xb9, 0xbe, 0xab, 0xac, 0xa5, 0xa2, 0x8f, 0x88, 0x81, 0x86, 0x93, 0x94, 0x9d, 0x9a,
     0x27, 0x20, 0x29, 0x2e, 0x3b, 0x3c, 0x35, 0x32, 0x1f, 0x18, 0x11, 0x16, 0x03, 0x04, 0x0d, 0x0a,
     0x57, 0x50, 0x59, 0x5e, 0x4b, 0x4c, 0x45, 0x42, 0x6f, 0x68, 0x61, 0x66, 0x73, 0x74, 0x7d, 0x7a,
     0x89, 0x8e, 0x87, 0x80, 0x95, 0x92, 0x9b, 0x9c, 0xb1, 0xb6, 0xbf, 0xb8, 0xad, 0xaa, 0xa3, 0xa4,
     0xf9, 0xfe, 0xf7, 0xf0, 0xe5, 0xe2, 0xeb, 0xec, 0xc1, 0xc6, 0xcf, 0xc8, 0xdd, 0xda, 0xd3, 0xd4,
     0x69, 0x6e, 0x67, 0x60, 0x75, 0x72, 0x7b, 0x7c, 0x51, 0x56, 0x5f, 0x58, 0x4d, 0x4a, 0x43, 0x44,
     0x19, 0x1e, 0x17, 0x10, 0x05, 0x02, 0x0b, 0x0c, 0x21, 0x26, 0x2f, 0x28, 0x3d, 0x3a, 0x33, 0x34,
     0x4e, 0x49, 0x40, 0x47, 0x52, 0x55, 0x5c, 0x5b, 0x76, 0x71, 0x78, 0x7f, 0x6a, 0x6d, 0x64, 0x63,
     0x3e, 0x39, 0x30, 0x37, 0x22, 0x25, 0x2c, 0x2b, 0x06, 0x01, 0x08, 0x0f, 0x1a, 0x1d, 0x14, 0x13,
     0xae, 0xa9, 0xa0, 0xa7, 0xb2, 0xb5, 0xbc, 0xbb, 0x96, 0x91, 0x98, 0x9f, 0x8a, 0x8d, 0x84, 0x83,
     0xde, 0xd9, 0xd0, 0xd7, 0xc2, 0xc5, 0xcc, 0xcb, 0xe6, 0xe1, 0xe8, 0xef, 0xfa, 0xfd, 0xf4, 0xf3]"

definition crc8_table :: "u8 list \<Rightarrow> u8" where
  "crc8_table data = fold (\<lambda>d crc. crc_table ! unat (crc XOR d)) data 0xff"

text \<open>The table is that of the polynomial 0x07 (its entry 1), the loop uses 0x31: the two builds compute
  different checksums.\<close>

lemma crc8_builds_differ: "crc8 [0] = 0xac" "crc8_table [0] = 0xf3"
  by code_simp+

end
