(* ===== verification/WearLeveling.thy ===== *)
theory WearLeveling
  imports Prelude
begin

text \<open>
  The wear-leveling EEPROM emulation (\<open>quantum/wear_leveling/wear_leveling.c\<close>) in its 2-byte build:
  a cache of the logical bytes, the consolidated copy with its FNV-1a checksum, and a write log of
  variable-length entries that is replayed at start-up.  The backing store is the record of the six
  functions a driver implements; its contract is the locale \<open>reliable_store\<close> and the driver of
  \<open>wear_leveling_legacy.c\<close> over the flash of \<open>legacy_flash_ops_mock.c\<close> meets it.  The main
  result: what was written is what a restart reads back.
\<close>

section \<open>Entries of the write log\<close>

text \<open>\<open>write_log_entry_t\<close> is a union of 8 bytes and 4 halfwords on a little-endian machine.\<close>

fun raw16 :: "u8 list \<Rightarrow> u16 list" where
  "raw16 (x # y # xs) = (ucast x OR push_bit 8 (ucast y)) # raw16 xs"
| "raw16 _ = []"

fun raw8 :: "u16 list \<Rightarrow> u8 list" where
  "raw8 [] = []"
| "raw8 (h # hs) = ucast h # ucast (drop_bit 8 h) # raw8 hs"

definition raw16_of_64 :: "u64 \<Rightarrow> u16 list" where
  "raw16_of_64 w = [ucast w, ucast (drop_bit 16 w), ucast (drop_bit 32 w), ucast (drop_bit 48 w)]"

definition LOG_ENTRY_GET_TYPE :: "u8 list \<Rightarrow> u8" where
  "LOG_ENTRY_GET_TYPE e = drop_bit 6 (e ! 0) AND 3"

definition LOG_ENTRY_MULTIBYTE_GET_ADDRESS :: "u8 list \<Rightarrow> u32" where
  "LOG_ENTRY_MULTIBYTE_GET_ADDRESS e =
     push_bit 16 (ucast (e ! 0) AND 7) OR push_bit 8 (ucast (e ! 1)) OR ucast (e ! 2)"

definition LOG_ENTRY_MULTIBYTE_GET_LENGTH :: "u8 list \<Rightarrow> u8" where
  "LOG_ENTRY_MULTIBYTE_GET_LENGTH e = drop_bit 3 (e ! 0) AND 7"

definition LOG_ENTRY_MAKE_MULTIBYTE :: "u32 \<Rightarrow> nat \<Rightarrow> u8 list" where
  "LOG_ENTRY_MAKE_MULTIBYTE address n =
     [push_bit 6 (0 AND 3) OR push_bit 3 (of_nat n AND 7) OR (ucast (drop_bit 16 address) AND 7),
      ucast (drop_bit 8 address) AND 255, ucast address AND 255, 0, 0, 0, 0, 0]"

definition LOG_ENTRY_OPTIMIZED_64_GET_ADDRESS :: "u8 list \<Rightarrow> u32" where
  "LOG_ENTRY_OPTIMIZED_64_GET_ADDRESS e = ucast (e ! 0 AND 63)"

definition LOG_ENTRY_OPTIMIZED_64_GET_VALUE :: "u8 list \<Rightarrow> u8" where
  "LOG_ENTRY_OPTIMIZED_64_GET_VALUE e = e ! 1"

definition LOG_ENTRY_MAKE_OPTIMIZED_64 :: "u32 \<Rightarrow> u8 \<Rightarrow> u8 list" where
  "LOG_ENTRY_MAKE_OPTIMIZED_64 address v =
     [push_bit 6 (1 AND 3) OR (ucast address AND 63), v, 0, 0, 0, 0, 0, 0]"

definition LOG_ENTRY_WORD_01_GET_ADDRESS :: "u8 list \<Rightarrow> u32" where
  "LOG_ENTRY_WORD_01_GET_ADDRESS e = push_bit 9 (ucast (e ! 0 AND 31)) OR push_bit 1 (ucast (e ! 1))"

definition LOG_ENTRY_WORD_01_GET_VALUE :: "u8 list \<Rightarrow> u8" where
  "LOG_ENTRY_WORD_01_GET_VALUE e = drop_bit 5 (e ! 0) AND 1"

definition LOG_ENTRY_MAKE_WORD_01 :: "u32 \<Rightarrow> u16 \<Rightarrow> u8 list" where
  "LOG_ENTRY_MAKE_WORD_01 address v =
     [push_bit 6 (2 AND 3) OR push_bit 5 ((if v \<noteq> 0 then 1 else 0) AND 1) OR (ucast (drop_bit 9 address) AND 31),
      ucast (drop_bit 1 address), 0, 0, 0, 0, 0, 0]"

text \<open>\<open>fnv_64a_buf\<close>: the shift-and-add form of the multiplication by the FNV prime.\<close>

definition FNV1A_64_INIT :: u64 where "FNV1A_64_INIT = 0xcbf29ce484222325"

definition fnv_64a_buf :: "u8 list \<Rightarrow> u64 \<Rightarrow> u64" where
  "fnv_64a_buf buf hval = fold (\<lambda>b h. let h = h XOR ucast b in
     h + (push_bit 1 h + push_bit 4 h + push_bit 5 h + push_bit 7 h + push_bit 8 h + push_bit 40 h)) buf hval"

section \<open>The backing store and the state\<close>

text \<open>The functions a driver provides.  Addresses are bytes; a geometry with
  \<open>WEAR_LEVELING_BACKING_SIZE\<close> below $2^{32} - 8$ never wraps the \<open>uint32_t\<close> of the code, so they are
  \<open>nat\<close> here.  A failed read still yields the halfword the driver left in \<open>*value\<close>.\<close>

record 'd backing_store =
  bs_init :: "'d \<Rightarrow> bool \<times> 'd"
  bs_unlock :: "'d \<Rightarrow> bool \<times> 'd"
  bs_erase :: "'d \<Rightarrow> bool \<times> 'd"
  bs_write :: "nat \<Rightarrow> u16 \<Rightarrow> 'd \<Rightarrow> bool \<times> 'd"
  bs_lock :: "'d \<Rightarrow> bool \<times> 'd"
  bs_read :: "nat \<Rightarrow> 'd \<Rightarrow> bool \<times> u16 \<times> 'd"

record 'd wear_leveling =
  cache :: "u8 list"
  write_address :: nat
  unlocked :: bool
  device :: 'd

datatype wear_leveling_status = WEAR_LEVELING_FAILED | WEAR_LEVELING_SUCCESS | WEAR_LEVELING_CONSOLIDATED

datatype lock_status = STATUS_FAILURE | STATUS_SUCCESS | STATUS_UNCHANGED

text \<open>The build-time constants, and the two pieces of memory the code reads before writing them: the
  union the checksum is read into (left as it was by a failing read) and the bytes behind the union of
  an entry, which an entry of claimed length 6 or 7 reaches.\<close>

record build =
  LOGICAL_SIZE :: nat
  BACKING_SIZE :: nat
  uninitialised :: "u16 list"
  behind_entry :: "u8 list"

fun backing_store_read_bulk :: "'d backing_store \<Rightarrow> nat \<Rightarrow> nat \<Rightarrow> 'd \<Rightarrow> bool \<times> u16 list \<times> 'd" where
  "backing_store_read_bulk bs a 0 d = (True, [], d)"
| "backing_store_read_bulk bs a (Suc n) d =
     (case bs_read bs a d of (ok, v, d1) \<Rightarrow>
        if \<not> ok then (False, [v], d1)
        else (case backing_store_read_bulk bs (a + 2) n d1 of (ok2, vs, d2) \<Rightarrow> (ok2, v # vs, d2)))"

fun backing_store_write_bulk :: "'d backing_store \<Rightarrow> nat \<Rightarrow> u16 list \<Rightarrow> 'd \<Rightarrow> bool \<times> 'd" where
  "backing_store_write_bulk bs a [] d = (True, d)"
| "backing_store_write_bulk bs a (v # vs) d =
     (case bs_write bs a v d of (ok, d1) \<Rightarrow>
        if \<not> ok then (False, d1) else backing_store_write_bulk bs (a + 2) vs d1)"

definition wear_leveling_unlock ::
  "'d backing_store \<Rightarrow> 'd wear_leveling \<Rightarrow> lock_status \<times> 'd wear_leveling" where
  "wear_leveling_unlock bs s =
     (if unlocked s then (STATUS_UNCHANGED, s)
      else (case bs_unlock bs (device s) of (ok, d) \<Rightarrow>
              if \<not> ok then (STATUS_FAILURE, s\<lparr>device := d\<rparr>)
              else (STATUS_SUCCESS, s\<lparr>device := d, unlocked := True\<rparr>)))"

definition wear_leveling_lock ::
  "'d backing_store \<Rightarrow> 'd wear_leveling \<Rightarrow> lock_status \<times> 'd wear_leveling" where
  "wear_leveling_lock bs s =
     (if \<not> unlocked s then (STATUS_UNCHANGED, s)
      else (case bs_lock bs (device s) of (ok, d) \<Rightarrow>
              if \<not> ok then (STATUS_FAILURE, s\<lparr>device := d\<rparr>)
              else (STATUS_SUCCESS, s\<lparr>device := d, unlocked := False\<rparr>)))"

definition wear_leveling_clear_cache :: "build \<Rightarrow> 'd wear_leveling \<Rightarrow> 'd wear_leveling" where
  "wear_leveling_clear_cache g s =
     s\<lparr>cache := replicate (LOGICAL_SIZE g) 0, write_address := LOGICAL_SIZE g + 8\<rparr>"

definition wear_leveling_read_consolidated ::
  "build \<Rightarrow> 'd backing_store \<Rightarrow> 'd wear_leveling \<Rightarrow> wear_leveling_status \<times> 'd wear_leveling" where
  "wear_leveling_read_consolidated g bs s =
     (case backing_store_read_bulk bs 0 (LOGICAL_SIZE g div 2) (device s) of (ok, vs, d) \<Rightarrow>
        let s1 = s\<lparr>cache := splice (cache s) 0 (raw8 vs), device := d\<rparr>
        in if \<not> ok then (WEAR_LEVELING_FAILED, wear_leveling_clear_cache g s1)
           else let expected = fnv_64a_buf (cache s1) FNV1A_64_INIT
                in (case backing_store_read_bulk bs (LOGICAL_SIZE g) 4 (device s1) of (_, es, d2) \<Rightarrow>
                      let s2 = s1\<lparr>device := d2\<rparr>;
                          entry = splice (uninitialised g) 0 es
                      in (WEAR_LEVELING_SUCCESS,
                          if entry = raw16_of_64 expected then s2 else wear_leveling_clear_cache g s2)))"

definition wear_leveling_write_consolidated ::
  "build \<Rightarrow> 'd backing_store \<Rightarrow> 'd wear_leveling \<Rightarrow> wear_leveling_status \<times> 'd wear_leveling" where
  "wear_leveling_write_consolidated g bs s =
     (case wear_leveling_unlock bs s of (lock_status, s1) \<Rightarrow>
      case backing_store_write_bulk bs 0 (raw16 (cache s1)) (device s1) of (ok, d) \<Rightarrow>
      let s2 = s1\<lparr>device := d\<rparr>;
          (status, s3) =
            (if \<not> ok then (WEAR_LEVELING_FAILED, s2)
             else (case backing_store_write_bulk bs (LOGICAL_SIZE g)
                          (raw16_of_64 (fnv_64a_buf (cache s2) FNV1A_64_INIT)) (device s2) of (ok2, d2) \<Rightarrow>
                     (if ok2 then WEAR_LEVELING_CONSOLIDATED else WEAR_LEVELING_FAILED, s2\<lparr>device := d2\<rparr>)))
      in (status, if lock_status = STATUS_SUCCESS then snd (wear_leveling_lock bs s3) else s3))"

definition wear_leveling_consolidate_force ::
  "build \<Rightarrow> 'd backing_store \<Rightarrow> 'd wear_leveling \<Rightarrow> wear_leveling_status \<times> 'd wear_leveling" where
  "wear_leveling_consolidate_force g bs s =
     (let s1 = snd (wear_leveling_unlock bs s)
      in case bs_erase bs (device s1) of (ok, d) \<Rightarrow>
         let s2 = s1\<lparr>device := d\<rparr>
         in if \<not> ok then (WEAR_LEVELING_FAILED, s2)
            else (case wear_leveling_write_consolidated g bs s2 of (status, s3) \<Rightarrow>
                    (status, s3\<lparr>write_address := LOGICAL_SIZE g + 8\<rparr>)))"

definition wear_leveling_consolidate_if_needed ::
  "build \<Rightarrow> 'd backing_store \<Rightarrow> 'd wear_leveling \<Rightarrow> wear_leveling_status \<times> 'd wear_leveling" where
  "wear_leveling_consolidate_if_needed g bs s =
     (if write_address s \<ge> BACKING_SIZE g then wear_leveling_consolidate_force g bs s
      else (WEAR_LEVELING_SUCCESS, s))"

section \<open>Writing the log\<close>

definition wear_leveling_append_raw ::
  "build \<Rightarrow> 'd backing_store \<Rightarrow> u16 \<Rightarrow> 'd wear_leveling \<Rightarrow> wear_leveling_status \<times> 'd wear_leveling" where
  "wear_leveling_append_raw g bs v s =
     (case bs_write bs (write_address s) v (device s) of (ok, d) \<Rightarrow>
        if \<not> ok then (WEAR_LEVELING_FAILED, s\<lparr>device := d\<rparr>)
        else wear_leveling_consolidate_if_needed g bs
               (s\<lparr>device := d, write_address := write_address s + 2\<rparr>))"

text \<open>The sequence \<open>status = append(..); if (status != SUCCESS) return status;\<close> over a list of halfwords.\<close>

fun append_seq ::
  "build \<Rightarrow> 'd backing_store \<Rightarrow> u16 list \<Rightarrow> 'd wear_leveling \<Rightarrow> wear_leveling_status \<times> 'd wear_leveling" where
  "append_seq g bs [] s = (WEAR_LEVELING_SUCCESS, s)"
| "append_seq g bs (v # vs) s =
     (case wear_leveling_append_raw g bs v s of (status, s1) \<Rightarrow>
        if status \<noteq> WEAR_LEVELING_SUCCESS then (status, s1) else append_seq g bs vs s1)"

definition multibyte_entry :: "u32 \<Rightarrow> u8 list \<Rightarrow> u16 list" where
  "multibyte_entry address p =
     (let log = raw16 (splice (LOG_ENTRY_MAKE_MULTIBYTE address (length p)) 3 p)
      in [log ! 0, log ! 1] @ (if length p > 1 then [log ! 2] else []) @ (if length p > 3 then [log ! 3] else []))"

definition wear_leveling_write_raw_multibyte ::
  "build \<Rightarrow> 'd backing_store \<Rightarrow> u32 \<Rightarrow> u8 list \<Rightarrow> 'd wear_leveling \<Rightarrow> wear_leveling_status \<times> 'd wear_leveling" where
  "wear_leveling_write_raw_multibyte g bs address p s = append_seq g bs (multibyte_entry address p) s"

text \<open>One turn of the loop of \<open>wear_leveling_write_raw\<close>: the halfwords it appends and how many bytes
  they stand for.\<close>

definition next_entry :: "u32 \<Rightarrow> u8 list \<Rightarrow> u16 list \<times> nat" where
  "next_entry address p =
     (let v = push_bit 8 (ucast (p ! 1)) OR ucast (p ! 0) :: u16
      in if length p \<ge> 2 \<and> unat address mod 2 = 0 \<and> unat address < 16384 \<and> (v = 0 \<or> v = 1)
         then ([raw16 (LOG_ENTRY_MAKE_WORD_01 address v) ! 0], 2)
         else if unat address < 64 then ([raw16 (LOG_ENTRY_MAKE_OPTIMIZED_64 address (p ! 0)) ! 0], 1)
         else let this_length = (if length p \<ge> 5 then 5 else length p)
              in (multibyte_entry address (take this_length p), this_length))"

function wear_leveling_write_raw ::
  "build \<Rightarrow> 'd backing_store \<Rightarrow> u32 \<Rightarrow> u8 list \<Rightarrow> 'd wear_leveling \<Rightarrow> wear_leveling_status \<times> 'd wear_leveling" where
  "wear_leveling_write_raw g bs address p s =
     (if p = [] then (WEAR_LEVELING_SUCCESS, s)
      else (case next_entry address p of (hs, n) \<Rightarrow>
            case append_seq g bs hs s of (status, s1) \<Rightarrow>
              if status \<noteq> WEAR_LEVELING_SUCCESS then (status, s1)
              else wear_leveling_write_raw g bs (address + of_nat n) (drop n p) s1))"
  by pat_completeness auto

lemma next_entry_progress: "p \<noteq> [] \<Longrightarrow> 0 < snd (next_entry address p) \<and> snd (next_entry address p) \<le> length p"
  by (cases p) (auto simp: next_entry_def Let_def)

lemma next_entry_shorter: "p \<noteq> [] \<Longrightarrow> (hs, n) = next_entry address p \<Longrightarrow> length (drop n p) < length p"
  using next_entry_progress [of p address] by (cases "next_entry address p") auto

termination wear_leveling_write_raw
  by (relation "measure (\<lambda>(g, bs, address, p, s). length p)") (use next_entry_shorter in auto)

declare wear_leveling_write_raw.simps [simp del]

definition wear_leveling_write ::
  "build \<Rightarrow> 'd backing_store \<Rightarrow> u32 \<Rightarrow> u8 list \<Rightarrow> 'd wear_leveling \<Rightarrow> wear_leveling_status \<times> 'd wear_leveling" where
  "wear_leveling_write g bs address v s =
     (if unat (address + of_nat (length v)) > LOGICAL_SIZE g then (WEAR_LEVELING_FAILED, s)
      else if take (length v) (drop (unat address) (cache s)) = v then (WEAR_LEVELING_SUCCESS, s)
      else let s1 = s\<lparr>cache := splice (cache s) (unat address) v\<rparr>
           in case wear_leveling_unlock bs s1 of (lock_status, s2) \<Rightarrow>
              if lock_status = STATUS_FAILURE then (WEAR_LEVELING_FAILED, snd (wear_leveling_lock bs s2))
              else (case wear_leveling_write_raw g bs address v s2 of (status, s3) \<Rightarrow>
                    let (status, s4) = (if status = WEAR_LEVELING_SUCCESS
                                        then wear_leveling_consolidate_if_needed g bs s3 else (status, s3))
                    in if lock_status = STATUS_SUCCESS
                       then (case wear_leveling_lock bs s4 of (ls, s5) \<Rightarrow>
                               (if ls = STATUS_FAILURE then WEAR_LEVELING_FAILED else status, s5))
                       else (status, s4)))"

definition wear_leveling_read ::
  "build \<Rightarrow> u32 \<Rightarrow> nat \<Rightarrow> 'd wear_leveling \<Rightarrow> wear_leveling_status \<times> u8 list" where
  "wear_leveling_read g address n s =
     (if unat (address + of_nat n) > LOGICAL_SIZE g then (WEAR_LEVELING_FAILED, [])
      else (WEAR_LEVELING_SUCCESS, take n (drop (unat address) (cache s))))"

definition wear_leveling_erase ::
  "build \<Rightarrow> 'd backing_store \<Rightarrow> 'd wear_leveling \<Rightarrow> wear_leveling_status \<times> 'd wear_leveling" where
  "wear_leveling_erase g bs s =
     (case wear_leveling_unlock bs s of (lock_status, s1) \<Rightarrow>
        if lock_status = STATUS_FAILURE then (WEAR_LEVELING_FAILED, snd (wear_leveling_lock bs s1))
        else (case bs_erase bs (device s1) of (ret, d) \<Rightarrow>
              let s2 = wear_leveling_clear_cache g (s1\<lparr>device := d\<rparr>)
              in if lock_status = STATUS_SUCCESS
                 then (case wear_leveling_lock bs s2 of (ls, s3) \<Rightarrow>
                         (if ret \<and> ls \<noteq> STATUS_FAILURE then WEAR_LEVELING_SUCCESS else WEAR_LEVELING_FAILED, s3))
                 else (if ret then WEAR_LEVELING_SUCCESS else WEAR_LEVELING_FAILED, s2)))"
section \<open>Replaying the log\<close>

definition further_halfwords :: "nat \<Rightarrow> nat" where
  "further_halfwords l = (if l > 1 then 1 else 0) + (if l > 3 then 1 else 0)"

definition multibyte_update :: "build \<Rightarrow> u16 list \<Rightarrow> u8 list \<Rightarrow> u8 list" where
  "multibyte_update g hs k =
     (let log = raw8 hs
      in splice k (unat (LOG_ENTRY_MULTIBYTE_GET_ADDRESS log))
           (take (unat (LOG_ENTRY_MULTIBYTE_GET_LENGTH log)) (drop 3 (log @ behind_entry g))))"

text \<open>One entry: the first halfword has been read and \<open>address\<close> points behind it.  The result says whether
  the play-back goes on.\<close>

definition playback_multibyte ::
  "build \<Rightarrow> 'd backing_store \<Rightarrow> u16 \<Rightarrow> nat \<Rightarrow> 'd wear_leveling \<Rightarrow> bool \<times> nat \<times> 'd wear_leveling" where
  "playback_multibyte g bs value address s =
     (case bs_read bs address (device s) of (ok1, v1, d1) \<Rightarrow>
      let s1 = s\<lparr>device := d1\<rparr> in
      if \<not> ok1 then (False, address, s1)
      else let log = raw8 [value, v1];
               a = LOG_ENTRY_MULTIBYTE_GET_ADDRESS log;
               l = unat (LOG_ENTRY_MULTIBYTE_GET_LENGTH log)
           in if unat a + l > LOGICAL_SIZE g then (False, address + 2, s1)
              else (case backing_store_read_bulk bs (address + 2) (further_halfwords l) (device s1) of (ok2, vs, d2) \<Rightarrow>
                    let s2 = s1\<lparr>device := d2\<rparr> in
                    if \<not> ok2 then (False, address + 2 * length vs, s2)
                    else (True, address + 2 + 2 * length vs,
                          s2\<lparr>cache := multibyte_update g (value # v1 # vs) (cache s2)\<rparr>)))"

definition playback_entry ::
  "build \<Rightarrow> 'd backing_store \<Rightarrow> u16 \<Rightarrow> nat \<Rightarrow> 'd wear_leveling \<Rightarrow> bool \<times> nat \<times> 'd wear_leveling" where
  "playback_entry g bs value address s =
     (let log = raw8 [value]; ty = LOG_ENTRY_GET_TYPE log in
      if ty = 0 then playback_multibyte g bs value address s
      else if ty = 1 then
        let a = unat (LOG_ENTRY_OPTIMIZED_64_GET_ADDRESS log); v = LOG_ENTRY_OPTIMIZED_64_GET_VALUE log
        in if a \<ge> LOGICAL_SIZE g then (False, address, s)
           else (True, address, s\<lparr>cache := (cache s)[a := v]\<rparr>)
      else if ty = 2 then
        let a = unat (LOG_ENTRY_WORD_01_GET_ADDRESS log); v = LOG_ENTRY_WORD_01_GET_VALUE log
        in if a + 1 \<ge> LOGICAL_SIZE g then (False, address, s)
           else (True, address, s\<lparr>cache := (cache s)[a := v, a + 1 := 0]\<rparr>)
      else (False, address, s))"

lemma playback_entry_advances: "playback_entry g bs v a s = (True, a', s') \<Longrightarrow> a \<le> a'"
  by (auto simp: playback_entry_def playback_multibyte_def Let_def split: if_splits prod.splits)

function playback_loop ::
  "build \<Rightarrow> 'd backing_store \<Rightarrow> nat \<Rightarrow> 'd wear_leveling \<Rightarrow> bool \<times> nat \<times> 'd wear_leveling" where
  "playback_loop g bs address s =
     (if address < BACKING_SIZE g then
        (case bs_read bs address (device s) of (ok, value, d) \<Rightarrow>
         let s1 = s\<lparr>device := d\<rparr> in
         if \<not> ok then (False, address, s1)
         else if value = 0 then (True, address, s1)
         else (case playback_entry g bs value (address + 2) s1 of (go, a, s2) \<Rightarrow>
                 if go then playback_loop g bs a s2 else (False, a, s2)))
      else (True, address, s))"
  by pat_completeness auto
termination
  by (relation "measure (\<lambda>(g, bs, address, s). BACKING_SIZE g - address)")
    (auto dest!: playback_entry_advances [OF sym])

declare playback_loop.simps [simp del]

definition wear_leveling_playback_log ::
  "build \<Rightarrow> 'd backing_store \<Rightarrow> 'd wear_leveling \<Rightarrow> wear_leveling_status \<times> 'd wear_leveling" where
  "wear_leveling_playback_log g bs s =
     (case playback_loop g bs (LOGICAL_SIZE g + 8) s of (ok, address, s1) \<Rightarrow>
      let s2 = s1\<lparr>write_address := address\<rparr>
      in if \<not> ok then wear_leveling_consolidate_force g bs s2
         else wear_leveling_consolidate_if_needed g bs s2)"

definition wear_leveling_init ::
  "build \<Rightarrow> 'd backing_store \<Rightarrow> 'd wear_leveling \<Rightarrow> wear_leveling_status \<times> 'd wear_leveling" where
  "wear_leveling_init g bs s =
     (let s1 = wear_leveling_clear_cache g s
      in case bs_init bs (device s1) of (ok, d) \<Rightarrow>
         let s2 = s1\<lparr>device := d\<rparr>
         in if \<not> ok then (WEAR_LEVELING_FAILED, wear_leveling_clear_cache g s2)
            else (case wear_leveling_read_consolidated g bs s2 of (status, s3) \<Rightarrow>
                  if status = WEAR_LEVELING_FAILED then (status, wear_leveling_clear_cache g s3)
                  else (case wear_leveling_playback_log g bs s3 of (status, s4) \<Rightarrow>
                        if status = WEAR_LEVELING_FAILED then (status, wear_leveling_clear_cache g s4)
                        else (status, s4))))"

section \<open>Encoding and decoding\<close>

lemma raw8_halfword:
  "ucast ((ucast x OR push_bit 8 (ucast y)) :: u16) = (x :: u8)"
  "ucast (drop_bit 8 (ucast x :: u16) OR drop_bit 8 (push_bit 8 (ucast y))) = (y :: u8)"
  by (rule bit_word_eqI; auto simp: bit_simps dest: bit_imp_le_length)+

lemma raw8_raw16: "even (length xs) \<Longrightarrow> raw8 (raw16 xs) = xs"
  by (induction xs rule: raw16.induct) (simp_all add: raw8_halfword)

lemma raw16_raw8 [simp]: "raw16 (raw8 hs) = hs"
proof (induction hs)
  case (Cons h hs)
  have "ucast (ucast h :: u8) OR push_bit 8 (ucast (ucast (drop_bit 8 h) :: u8)) = h"
    by (rule bit_word_eqI) (auto simp: bit_simps)
  with Cons show ?case by simp
qed simp

lemma length_raw8 [simp]: "length (raw8 hs) = 2 * length hs"
  by (induction hs) simp_all

lemma length_raw16 [simp]: "length (raw16 xs) = length xs div 2"
  by (induction xs rule: raw16.induct) simp_all

lemma length_raw16_of_64 [simp]: "length (raw16_of_64 w) = 4"
  by (simp add: raw16_of_64_def)

text \<open>Each of the three formats decodes to what was encoded.\<close>

lemma optimized_64_decodes:
  fixes v :: u8
  assumes "unat address < 64"
  defines "e \<equiv> LOG_ENTRY_MAKE_OPTIMIZED_64 address v"
  shows "LOG_ENTRY_GET_TYPE e = 1" and "LOG_ENTRY_OPTIMIZED_64_GET_ADDRESS e = address"
    and "LOG_ENTRY_OPTIMIZED_64_GET_VALUE e = v" and "e ! 0 \<noteq> 0"
proof -
  have small: "n < 6" if "bit address n" for n
    using small_bits [of address 6 n] assms(1) that by (cases "6 \<le> n") auto
  have bits: "bit (e ! 0) n \<longleftrightarrow> n = 6 \<or> bit address n" for n
    using small [of n] by (auto simp: e_def LOG_ENTRY_MAKE_OPTIMIZED_64_def byte_bits byte_masks(6) bit_simps row_simps)
  show "LOG_ENTRY_GET_TYPE e = 1"
    by (rule bit_word_eqI) (use small in \<open>fastforce simp: LOG_ENTRY_GET_TYPE_def byte_masks(2) bit_simps bits bit_1_iff\<close>)
  show "LOG_ENTRY_OPTIMIZED_64_GET_ADDRESS e = address"
    by (rule bit_word_eqI)
      (use small in \<open>force simp: LOG_ENTRY_OPTIMIZED_64_GET_ADDRESS_def byte_masks(6) bit_simps bits\<close>)
  show "LOG_ENTRY_OPTIMIZED_64_GET_VALUE e = v"
    by (simp add: e_def LOG_ENTRY_OPTIMIZED_64_GET_VALUE_def LOG_ENTRY_MAKE_OPTIMIZED_64_def)
  show "e ! 0 \<noteq> 0" using bits [of 6] by auto
qed

lemma bit_twice: "bit (w * 2) n \<longleftrightarrow> 0 < n \<and> n < LENGTH('a) \<and> bit w (n - 1)" for w :: "'a::len word"
proof -
  have "w * 2 = push_bit 1 w" by (simp add: push_bit_eq_mult mult.commute)
  then show ?thesis by (cases n) (auto simp only: bit_push_bit_iff possible_bit_word diff_Suc_1)
qed

lemma word_01_decodes:
  fixes v :: u16
  assumes "unat address < 16384" and "even (unat address)"
  defines "e \<equiv> LOG_ENTRY_MAKE_WORD_01 address v"
  shows "LOG_ENTRY_GET_TYPE e = 2" and "LOG_ENTRY_WORD_01_GET_ADDRESS e = address"
    and "LOG_ENTRY_WORD_01_GET_VALUE e = (if v \<noteq> 0 then 1 else 0)" and "e ! 0 \<noteq> 0"
proof -
  have small: "n < 14" if "bit address n" for n
    using small_bits [of address 14 n] assms(1) that by (cases "14 \<le> n") auto
  have "\<not> bit (unat address) 0" using assms(2) by (simp add: bit_0)
  then have even: "\<not> bit address 0" by (simp add: bit_unsigned_iff)
  have bits: "bit (e ! 0) n \<longleftrightarrow> n = 7 \<or> (n = 5 \<and> v \<noteq> 0) \<or> (n < 5 \<and> bit address (n + 9))" for n
    by (cases "v = 0")
      (auto simp: e_def LOG_ENTRY_MAKE_WORD_01_def byte_bits byte_masks(5) bit_simps row_simps add.commute)
  have bits1: "bit (e ! Suc 0) n \<longleftrightarrow> n < 8 \<and> bit address (n + 1)" for n
    by (auto simp: e_def LOG_ENTRY_MAKE_WORD_01_def bit_simps)
  have two: "(2 :: u8) = col_mask 1" by (simp add: col_mask_def)
  show "LOG_ENTRY_GET_TYPE e = 2"
    by (rule bit_word_eqI) (auto simp: LOG_ENTRY_GET_TYPE_def byte_masks(2) two bit_simps bits row_simps)
  show "LOG_ENTRY_WORD_01_GET_ADDRESS e = address"
  proof (rule bit_word_eqI)
    fix n assume "n < LENGTH(32)"
    then show "bit (LOG_ENTRY_WORD_01_GET_ADDRESS e) n \<longleftrightarrow> bit address n"
      using small [of n] even
      by (cases "n = 0")
        (auto simp: LOG_ENTRY_WORD_01_GET_ADDRESS_def byte_masks(5) bit_simps bits bits1 bit_twice)
  qed
  show "LOG_ENTRY_WORD_01_GET_VALUE e = (if v \<noteq> 0 then 1 else 0)"
    by (rule bit_word_eqI) (auto simp: LOG_ENTRY_WORD_01_GET_VALUE_def bit_simps bits bit_1_iff bit_0)
  show "e ! 0 \<noteq> 0" using bits [of 7] by auto
qed

lemma multibyte_decodes:
  fixes p :: "u8 list"
  assumes "unat address < 2 ^ 19" and "0 < length p" and "length p \<le> 5"
  defines "e \<equiv> splice (LOG_ENTRY_MAKE_MULTIBYTE address (length p)) 3 p"
  shows "LOG_ENTRY_GET_TYPE e = 0" and "LOG_ENTRY_MULTIBYTE_GET_ADDRESS e = address"
    and "unat (LOG_ENTRY_MULTIBYTE_GET_LENGTH e) = length p" and "e ! 0 \<noteq> 0"
    and "take (length p) (drop 3 e) = p" and "length e = 8"
proof -
  have small: "n < 19" if "bit address n" for n
    using small_bits [of address 19 n] assms(1) that by (cases "19 \<le> n") auto
  obtain k where k: "length p = k" and k5: "0 < k" "k \<le> 5" using assms(2,3) by blast
  define K where "K = (of_nat k :: u8)"
  have K: "unat K = k" using k5 by (simp add: K_def unat_of_nat)
  have len: "n < 3" if "bit K n" for n
    using small_bits [of K 3 n] k5 that K by (cases "3 \<le> n") auto
  have e0: "e ! 0 = push_bit 6 (0 AND 3) OR push_bit 3 (K AND 7) OR (ucast (drop_bit 16 address) AND 7)"
    and e1: "e ! Suc 0 = ucast (drop_bit 8 address) AND 255" and e2: "e ! 2 = ucast address AND 255"
    by (simp_all add: e_def splice_def LOG_ENTRY_MAKE_MULTIBYTE_def k K_def numeral_eq_Suc)
  have bits: "bit (e ! 0) n \<longleftrightarrow> (3 \<le> n \<and> n < 6 \<and> bit K (n - 3)) \<or> (n < 3 \<and> bit address (n + 16))" for n
    using len [of "n - 3"] by (auto simp: e0 byte_masks(3) bit_simps row_simps add.commute)
  show "LOG_ENTRY_GET_TYPE e = 0"
    by (rule bit_word_eqI) (auto simp: LOG_ENTRY_GET_TYPE_def byte_masks(2) bit_simps bits)
  show "LOG_ENTRY_MULTIBYTE_GET_ADDRESS e = address"
  proof (rule bit_word_eqI)
    fix n assume "n < LENGTH(32)"
    then show "bit (LOG_ENTRY_MULTIBYTE_GET_ADDRESS e) n \<longleftrightarrow> bit address n"
      using small [of n]
      by (cases "n < 16") (auto simp: LOG_ENTRY_MULTIBYTE_GET_ADDRESS_def byte_masks(3,7) bit_simps bits e1 e2)
  qed
  have "LOG_ENTRY_MULTIBYTE_GET_LENGTH e = K"
    by (rule bit_word_eqI) (use len in \<open>auto simp: LOG_ENTRY_MULTIBYTE_GET_LENGTH_def byte_masks(3) bit_simps bits\<close>)
  then show l: "unat (LOG_ENTRY_MULTIBYTE_GET_LENGTH e) = length p"
    by (simp add: k K)
  then show "e ! 0 \<noteq> 0" using k k5(1) by (auto simp: LOG_ENTRY_MULTIBYTE_GET_LENGTH_def)
  show "take (length p) (drop 3 e) = p" and "length e = 8"
    using k5 k by (simp_all add: e_def splice_def LOG_ENTRY_MAKE_MULTIBYTE_def)
qed

section \<open>What the store means\<close>

text \<open>The content of the store as a function from halfword numbers: the entry at halfword \<open>i\<close> as an update
  of the logical bytes, the log as the sequence of its entries, the consolidated bytes.\<close>

definition decode_multibyte :: "build \<Rightarrow> u16 \<Rightarrow> u16 \<Rightarrow> (nat \<Rightarrow> u16) \<Rightarrow> nat \<Rightarrow> u8 list \<Rightarrow> (nat \<times> u8 list) option" where
  "decode_multibyte g v0 v1 c i k =
     (let log = raw8 [v0, v1]; l = unat (LOG_ENTRY_MULTIBYTE_GET_LENGTH log); j = i + further_halfwords l
      in if unat (LOG_ENTRY_MULTIBYTE_GET_ADDRESS log) + l > LOGICAL_SIZE g then None
         else Some (j, multibyte_update g (v0 # v1 # map c [i..<j]) k))"

definition decode :: "build \<Rightarrow> (nat \<Rightarrow> u16) \<Rightarrow> nat \<Rightarrow> u8 list \<Rightarrow> (nat \<times> u8 list) option" where
  "decode g c i k =
     (let log = raw8 [c i]; ty = LOG_ENTRY_GET_TYPE log in
      if ty = 0 then decode_multibyte g (c i) (c (Suc i)) c (i + 2) k
      else if ty = 1 then
        let a = unat (LOG_ENTRY_OPTIMIZED_64_GET_ADDRESS log)
        in if a \<ge> LOGICAL_SIZE g then None else Some (Suc i, k[a := LOG_ENTRY_OPTIMIZED_64_GET_VALUE log])
      else if ty = 2 then
        let a = unat (LOG_ENTRY_WORD_01_GET_ADDRESS log)
        in if a + 1 \<ge> LOGICAL_SIZE g then None
           else Some (Suc i, k[a := LOG_ENTRY_WORD_01_GET_VALUE log, a + 1 := 0])
      else None)"

inductive log_runs :: "build \<Rightarrow> (nat \<Rightarrow> u16) \<Rightarrow> nat \<Rightarrow> u8 list \<Rightarrow> nat \<Rightarrow> u8 list \<Rightarrow> bool" for g c where
  log_end: "log_runs g c i k i k"
| log_entry: "c i \<noteq> 0 \<Longrightarrow> decode g c i k = Some (j, k') \<Longrightarrow> 2 * j \<le> BACKING_SIZE g \<Longrightarrow> log_runs g c j k' m k'' \<Longrightarrow>
    log_runs g c i k m k''"

inductive_cases log_runs_cases: "log_runs g c i k m k''"

definition base_bytes :: "build \<Rightarrow> (nat \<Rightarrow> u16) \<Rightarrow> u8 list" where
  "base_bytes g c =
     (let b = raw8 (map c [0..<LOGICAL_SIZE g div 2])
      in if map c [LOGICAL_SIZE g div 2..<LOGICAL_SIZE g div 2 + 4] = raw16_of_64 (fnv_64a_buf b FNV1A_64_INIT)
         then b else replicate (LOGICAL_SIZE g) 0)"

text \<open>\<open>represents g c k w\<close>: the store holds the logical bytes \<open>k\<close>, the log ends at halfword \<open>w\<close>, and behind
  it everything is erased.\<close>

definition represents :: "build \<Rightarrow> (nat \<Rightarrow> u16) \<Rightarrow> u8 list \<Rightarrow> nat \<Rightarrow> bool" where
  "represents g c k w \<longleftrightarrow>
     log_runs g c (LOGICAL_SIZE g div 2 + 4) (base_bytes g c) w k \<and>
     (\<forall>i \<ge> w. 2 * i < BACKING_SIZE g \<longrightarrow> c i = 0) \<and> LOGICAL_SIZE g div 2 + 4 \<le> w \<and> 2 * w \<le> BACKING_SIZE g"

text \<open>The \<open>STATIC_ASSERT\<close>s of \<open>wear_leveling_internal.h\<close>, room for the checksum and for one slot of the
  log, and the 19 bits of an address.\<close>

definition geometry :: "build \<Rightarrow> bool" where
  "geometry g \<longleftrightarrow> 2 * LOGICAL_SIZE g \<le> BACKING_SIZE g \<and> even (LOGICAL_SIZE g) \<and>
     LOGICAL_SIZE g dvd BACKING_SIZE g \<and> 8 < LOGICAL_SIZE g \<and> LOGICAL_SIZE g \<le> 2 ^ 19 \<and>
     length (uninitialised g) = 4"

lemma decode_multibyte_progress: "decode_multibyte g v0 v1 c i k = Some (j, k') \<Longrightarrow> i \<le> j"
  by (auto simp: decode_multibyte_def Let_def split: if_splits)

lemma decode_progress: "decode g c i k = Some (j, k') \<Longrightarrow> i < j"
  by (auto simp: decode_def Let_def split: if_splits dest: decode_multibyte_progress)

lemma decode_multibyte_frame:
  assumes "decode_multibyte g v0 v1 c i k = Some (j, k')" and "\<forall>x < j. c' x = c x"
  shows "decode_multibyte g v0 v1 c' i k = Some (j, k')"
proof -
  define log where "log = raw8 [v0, v1]"
  define n where "n = i + further_halfwords (unat (LOG_ENTRY_MULTIBYTE_GET_LENGTH log))"
  have d: "decode_multibyte g v0 v1 x i k =
      (if unat (LOG_ENTRY_MULTIBYTE_GET_ADDRESS log) + unat (LOG_ENTRY_MULTIBYTE_GET_LENGTH log) > LOGICAL_SIZE g then None
       else Some (n, multibyte_update g (v0 # v1 # map x [i..<n]) k))" for x
    unfolding decode_multibyte_def Let_def log_def n_def by (rule refl)
  have "j = n" using assms(1) unfolding d by (simp split: if_splits)
  then have m: "map c' [i..<n] = map c [i..<n]" using assms(2) by (intro map_cong) auto
  show ?thesis using assms(1) unfolding d m .
qed

lemma decode_frame:
  assumes "decode g c i k = Some (j, k')" and "\<forall>x < j. c' x = c x"
  shows "decode g c' i k = Some (j, k')"
proof -
  have ci: "c' i = c i" using assms(2) decode_progress [OF assms(1)] by simp
  show ?thesis
  proof (cases "LOG_ENTRY_GET_TYPE (raw8 [c i]) = 0")
    case False
    then show ?thesis using assms(1) ci by (simp add: decode_def Let_def)
  next
    case True
    then have d: "decode_multibyte g (c i) (c (Suc i)) c (i + 2) k = Some (j, k')"
      using assms(1) by (simp add: decode_def Let_def)
    then have "c' (Suc i) = c (Suc i)" using assms(2) decode_multibyte_progress [OF d] by simp
    with d True ci show ?thesis
      using decode_multibyte_frame [OF d assms(2)] by (simp add: decode_def Let_def)
  qed
qed

lemma log_runs_mono: "log_runs g c i k m k' \<Longrightarrow> i \<le> m"
  by (induction rule: log_runs.induct) (auto dest: decode_progress)

lemma log_runs_frame:
  assumes "log_runs g c i k m k'" and "\<forall>x < m. c' x = c x"
  shows "log_runs g c' i k m k'"
  using assms
proof (induction rule: log_runs.induct)
  case (log_entry i k j k' m k'')
  then have "i < j" "j \<le> m" by (auto dest: decode_progress log_runs_mono)
  show ?case
  proof (rule log_runs.log_entry)
    show "c' i \<noteq> 0" using log_entry.hyps(1) log_entry.prems \<open>i < j\<close> \<open>j \<le> m\<close> by simp
    show "decode g c' i k = Some (j, k')"
      using log_entry.prems \<open>j \<le> m\<close> by (intro decode_frame [OF log_entry.hyps(2)]) simp
    show "log_runs g c' j k' m k''" using log_entry.IH log_entry.prems by simp
  qed (rule log_entry.hyps(3))
qed (rule log_runs.log_end)

lemma log_runs_snoc:
  assumes "log_runs g c i k m k'" and "c m \<noteq> 0" and "decode g c m k' = Some (n, k'')" and "2 * n \<le> BACKING_SIZE g"
  shows "log_runs g c i k n k''"
  using assms
proof (induction rule: log_runs.induct)
  case (log_end i k)
  show ?case by (rule log_runs.log_entry [OF log_end log_runs.log_end])
next
  case (log_entry i k j k1 m k2)
  show ?case by (rule log_runs.log_entry [OF log_entry.hyps(1-3) log_entry.IH [OF log_entry.prems]])
qed

section \<open>Entries decode to the bytes they were made of\<close>

lemma nth_raw8:
  "raw8 (h # hs) ! 0 = ucast h" "raw8 (h # hs) ! Suc 0 = ucast (drop_bit 8 h)" "raw8 (h # h2 # hs) ! 2 = ucast h2"
  by (simp_all add: numeral_2_eq_2)

declare raw8.simps(2) [simp del]

lemma raw8_take: "raw8 (take n hs) = take (2 * n) (raw8 hs)"
proof (induction hs arbitrary: n)
  case (Cons h hs)
  then show ?case by (cases n) (simp_all add: raw8.simps(2))
qed simp

text \<open>The accessors only look at the first bytes of an entry.\<close>

lemma accessors_of_prefix:
  "LOG_ENTRY_GET_TYPE (raw8 (h # hs)) = LOG_ENTRY_GET_TYPE (raw8 [h])"
  "LOG_ENTRY_OPTIMIZED_64_GET_ADDRESS (raw8 (h # hs)) = LOG_ENTRY_OPTIMIZED_64_GET_ADDRESS (raw8 [h])"
  "LOG_ENTRY_OPTIMIZED_64_GET_VALUE (raw8 (h # hs)) = LOG_ENTRY_OPTIMIZED_64_GET_VALUE (raw8 [h])"
  "LOG_ENTRY_WORD_01_GET_ADDRESS (raw8 (h # hs)) = LOG_ENTRY_WORD_01_GET_ADDRESS (raw8 [h])"
  "LOG_ENTRY_WORD_01_GET_VALUE (raw8 (h # hs)) = LOG_ENTRY_WORD_01_GET_VALUE (raw8 [h])"
  "LOG_ENTRY_MULTIBYTE_GET_ADDRESS (raw8 (h # h2 # hs)) = LOG_ENTRY_MULTIBYTE_GET_ADDRESS (raw8 [h, h2])"
  "LOG_ENTRY_MULTIBYTE_GET_LENGTH (raw8 (h # hs)) = LOG_ENTRY_MULTIBYTE_GET_LENGTH (raw8 [h])"
  by (simp_all add: LOG_ENTRY_GET_TYPE_def LOG_ENTRY_OPTIMIZED_64_GET_ADDRESS_def LOG_ENTRY_OPTIMIZED_64_GET_VALUE_def
      LOG_ENTRY_WORD_01_GET_ADDRESS_def LOG_ENTRY_WORD_01_GET_VALUE_def LOG_ENTRY_MULTIBYTE_GET_ADDRESS_def
      LOG_ENTRY_MULTIBYTE_GET_LENGTH_def numeral_2_eq_2 raw8.simps(2))

lemma first_halfword:
  assumes "even (length e)" and "e \<noteq> []"
  obtains hs where "raw8 (raw16 e ! 0 # hs) = e"
proof (cases "raw16 e")
  case Nil
  then show ?thesis using assms by (cases e rule: raw16.cases) auto
next
  case (Cons h hs)
  then show ?thesis using that [of hs] raw8_raw16 [OF assms(1)] by simp
qed

lemma nonzero_first_byte: "raw8 (h # hs) ! 0 \<noteq> 0 \<Longrightarrow> h \<noteq> 0"
  by (auto simp: raw8.simps(2))

definition holds_at :: "(nat \<Rightarrow> u16) \<Rightarrow> nat \<Rightarrow> u16 list \<Rightarrow> bool" where
  "holds_at c i hs \<longleftrightarrow> map c [i..<i + length hs] = hs"

lemma holds_at_Cons: "holds_at c i (h # hs) \<longleftrightarrow> c i = h \<and> holds_at c (Suc i) hs"
proof -
  have "[i..<i + length (h # hs)] = i # [Suc i..<Suc i + length hs]" by (simp add: upt_conv_Cons del: upt_Suc)
  then show ?thesis by (simp add: holds_at_def)
qed

lemma optimized_64_entry:
  assumes "holds_at c i [raw16 (LOG_ENTRY_MAKE_OPTIMIZED_64 address v) ! 0]" and "unat address < 64"
    and "unat address < LOGICAL_SIZE g"
  shows "c i \<noteq> 0" and "decode g c i k = Some (Suc i, k[unat address := v])"
proof -
  let ?e = "LOG_ENTRY_MAKE_OPTIMIZED_64 address v"
  have l: "length ?e = 8" by (simp add: LOG_ENTRY_MAKE_OPTIMIZED_64_def)
  obtain hs where hs: "raw8 (raw16 ?e ! 0 # hs) = ?e"
    by (rule first_halfword [of ?e]) (use l in auto)
  have ci: "c i = raw16 ?e ! 0" using assms(1) by (simp add: holds_at_Cons)
  note d = optimized_64_decodes [OF assms(2), of v]
  show "c i \<noteq> 0" using d(4) nonzero_first_byte [of "c i" hs] ci hs by simp
  show "decode g c i k = Some (Suc i, k[unat address := v])"
    using d(1-3) assms(3) accessors_of_prefix(1-3) [of "c i" hs] ci hs by (simp add: decode_def)
qed

lemma word_01_entry:
  assumes "holds_at c i [raw16 (LOG_ENTRY_MAKE_WORD_01 address v) ! 0]"
    and "unat address < 16384" and "even (unat address)" and "unat address + 1 < LOGICAL_SIZE g" and "v = 0 \<or> v = 1"
  shows "c i \<noteq> 0" and "decode g c i k = Some (Suc i, k[unat address := ucast v, unat address + 1 := 0])"
proof -
  let ?e = "LOG_ENTRY_MAKE_WORD_01 address v"
  have l: "length ?e = 8" by (simp add: LOG_ENTRY_MAKE_WORD_01_def)
  obtain hs where hs: "raw8 (raw16 ?e ! 0 # hs) = ?e"
    by (rule first_halfword [of ?e]) (use l in auto)
  have ci: "c i = raw16 ?e ! 0" using assms(1) by (simp add: holds_at_Cons)
  note d = word_01_decodes [OF assms(2,3), of v]
  show "c i \<noteq> 0" using d(4) nonzero_first_byte [of "c i" hs] ci hs by simp
  show "decode g c i k = Some (Suc i, k[unat address := ucast v, unat address + 1 := 0])"
    using d(1-3) assms(4,5) accessors_of_prefix(1,4,5) [of "c i" hs] ci hs
    by (auto simp: decode_def Let_def)
qed

lemma take_within: "n + m \<le> N \<Longrightarrow> N \<le> length e \<Longrightarrow> take n (drop m (take N e @ b)) = take n (drop m e)"
  by (simp add: drop_take)

lemma multibyte_entry_decodes:
  assumes "holds_at c i (multibyte_entry address p)" and "unat address < 2 ^ 19" and "0 < length p" and "length p \<le> 5"
    and "unat address + length p \<le> LOGICAL_SIZE g"
  shows "c i \<noteq> 0" and "decode g c i k = Some (i + length (multibyte_entry address p), splice k (unat address) p)"
proof -
  define e where "e = splice (LOG_ENTRY_MAKE_MULTIBYTE address (length p)) 3 p"
  note d = multibyte_decodes [OF assms(2-4), folded e_def]
  define hs where "hs = raw16 e"
  have len: "length hs = 4" using d(6) by (simp add: hs_def)
  have r: "raw8 hs = e" using raw8_raw16 d(6) by (simp add: hs_def)
  obtain h0 h1 h2 h3 where h: "hs = [h0, h1, h2, h3]"
    using len by (auto simp: length_Suc_conv numeral_eq_Suc)
  have m: "multibyte_entry address p = h0 # h1 # take (further_halfwords (length p)) [h2, h3]"
    by (simp add: multibyte_entry_def further_halfwords_def e_def [symmetric] hs_def [symmetric] h)
  have c: "c i = h0" "c (Suc i) = h1"
    and rest: "map c [i + 2..<i + 2 + further_halfwords (length p)] = take (further_halfwords (length p)) [h2, h3]"
    using assms(1) by (auto simp: m holds_at_Cons holds_at_def further_halfwords_def split: if_splits)
  have e: "raw8 (h0 # h1 # [h2, h3]) = e" using r h by simp
  show "c i \<noteq> 0" using d(4) nonzero_first_byte [of h0 "[h1, h2, h3]"] e c by simp
  have ty: "LOG_ENTRY_GET_TYPE (raw8 [h0]) = 0" using d(1) accessors_of_prefix(1) [of h0 "[h1, h2, h3]"] e by simp
  have a: "LOG_ENTRY_MULTIBYTE_GET_ADDRESS (raw8 (h0 # h1 # hs')) = address" for hs'
    using d(2) accessors_of_prefix(6) [of h0 h1 "[h2, h3]"] accessors_of_prefix(6) [of h0 h1 hs'] e by simp
  have l: "unat (LOG_ENTRY_MULTIBYTE_GET_LENGTH (raw8 (h0 # hs'))) = length p" for hs'
    using d(3) accessors_of_prefix(7) [of h0 "[h1, h2, h3]"] accessors_of_prefix(7) [of h0 hs'] e by simp
  have "take (length p) (drop 3 (raw8 (h0 # h1 # take (further_halfwords (length p)) [h2, h3]) @ behind_entry g)) = p"
  proof -
    let ?n = "2 + further_halfwords (length p)"
    have n: "length p + 3 \<le> 2 * ?n" "2 * ?n \<le> length e" using assms(3,4) d(6) by (auto simp: further_halfwords_def)
    have "h0 # h1 # take (further_halfwords (length p)) [h2, h3] = take ?n (h0 # h1 # [h2, h3])" by simp
    then have "raw8 (h0 # h1 # take (further_halfwords (length p)) [h2, h3]) = take (2 * ?n) e"
      using raw8_take [of ?n "h0 # h1 # [h2, h3]"] e by simp
    then show ?thesis using take_within [OF n] d(5) by simp
  qed
  then have u: "multibyte_update g (h0 # h1 # take (further_halfwords (length p)) [h2, h3]) k = splice k (unat address) p"
    by (simp only: multibyte_update_def Let_def a l)
  have f: "further_halfwords (length p) \<le> 2" by (simp add: further_halfwords_def)
  have "decode_multibyte g (c i) (c (Suc i)) c (i + 2) k
      = Some (i + 2 + further_halfwords (length p), splice k (unat address) p)"
    unfolding decode_multibyte_def Let_def c a l rest u using assms(5) by simp
  then show "decode g c i k = Some (i + length (multibyte_entry address p), splice k (unat address) p)"
    using f by (simp add: decode_def ty c m)
qed

text \<open>Whatever format the loop of \<open>wear_leveling_write_raw\<close> picks, the entry stands for the first bytes of
  the data.\<close>

lemma next_entry_decodes:
  assumes "next_entry address p = (hs, n)" and "holds_at c i hs" and "p \<noteq> []" and "length k = LOGICAL_SIZE g"
    and "unat address + length p \<le> LOGICAL_SIZE g" and "LOGICAL_SIZE g \<le> 2 ^ 19"
  shows "c i \<noteq> 0 \<and> decode g c i k = Some (i + length hs, splice k (unat address) (take n p)) \<and>
    n \<le> length p \<and> 0 < n \<and> hs \<noteq> []"
proof -
  define v where "v = push_bit 8 (ucast (p ! 1)) OR (ucast (p ! 0) :: u16)"
  consider (word) "length p \<ge> 2" "even (unat address)" "unat address < 16384" "v = 0 \<or> v = 1"
      "hs = [raw16 (LOG_ENTRY_MAKE_WORD_01 address v) ! 0]" "n = 2"
    | (byte) "unat address < 64" "hs = [raw16 (LOG_ENTRY_MAKE_OPTIMIZED_64 address (p ! 0)) ! 0]" "n = 1"
    | (multi) m where "m = (if length p \<ge> 5 then 5 else length p)" "hs = multibyte_entry address (take m p)" "n = m"
  proof -
    let ?small = "length p \<ge> 2 \<and> unat address mod 2 = 0 \<and> unat address < 16384 \<and> (v = 0 \<or> v = 1)"
    have n: "(hs, n) = (if ?small then ([raw16 (LOG_ENTRY_MAKE_WORD_01 address v) ! 0], 2)
      else if unat address < 64 then ([raw16 (LOG_ENTRY_MAKE_OPTIMIZED_64 address (p ! 0)) ! 0], 1)
      else (multibyte_entry address (take (if length p \<ge> 5 then 5 else length p) p), if length p \<ge> 5 then 5 else length p))"
      using assms(1) unfolding next_entry_def v_def [symmetric] Let_def by metis
    show thesis
    proof (cases ?small)
      case True
      then show thesis using n word by (simp add: even_iff_mod_2_eq_zero)
    next
      case False
      note f = n [unfolded if_not_P [OF False]]
      then show thesis using byte [OF _ _ ] multi by (cases "unat address < 64") simp_all
    qed
  qed
  then show ?thesis
  proof cases
    case word
    have "ucast v = p ! 0" using raw8_halfword(1) [of "p ! 0" "p ! 1"] by (simp add: v_def or.commute)
    moreover have "p ! 1 = ucast (drop_bit 8 v)"
      using raw8_halfword(2) [of "p ! 0" "p ! 1"] by (simp add: v_def or.commute)
    then have "p ! 1 = 0" using word(4) by auto
    moreover have "take 2 p = [p ! 0, p ! 1]"
      using word(1) by (cases p; cases "tl p") auto
    ultimately show ?thesis
      using word_01_entry(1) [of c i address v g] word_01_entry(2) [of c i address v g k] word assms splice_2 [of "unat address" k "p ! 0" "p ! 1"] by auto
  next
    case byte
    have "take 1 p = [p ! 0]" using assms(3) by (cases p) auto
    then show ?thesis
      using optimized_64_entry(1) [of c i address "p ! 0" g] optimized_64_entry(2) [of c i address "p ! 0" g k] byte assms splice_1 [of "unat address" k "p ! 0"]
      by (cases p) auto
  next
    case multi
    have m: "0 < m" "m \<le> 5" "m \<le> length p" using multi(1) assms(3) by (auto split: if_splits)
    have a: "unat address < 2 ^ 19" using assms(3,5,6) by (cases p) auto
    show ?thesis
      using multibyte_entry_decodes(1) [of c i address "take m p" g]
        multibyte_entry_decodes(2) [of c i address "take m p" g k] multi m a assms by (auto simp: multibyte_entry_def Let_def)
  qed
qed

section \<open>The contract of a driver\<close>

text \<open>Halfword \<open>i\<close> of the store reads as \<open>cell d i\<close>; an erased one reads zero and can be written once.\<close>

locale reliable_store =
  fixes bs :: "'d backing_store" and slots :: nat and cell :: "'d \<Rightarrow> nat \<Rightarrow> u16"
    and ready :: "'d \<Rightarrow> bool" and writable :: "'d \<Rightarrow> bool"
  assumes init_ok: "ready d \<Longrightarrow> \<exists>d'. bs_init bs d = (True, d') \<and> ready d' \<and> cell d' = cell d"
    and unlock_ok: "ready d \<Longrightarrow> \<exists>d'. bs_unlock bs d = (True, d') \<and> ready d' \<and> writable d' \<and> cell d' = cell d"
    and lock_ok: "ready d \<Longrightarrow> \<exists>d'. bs_lock bs d = (True, d') \<and> ready d' \<and> cell d' = cell d"
    and erase_ok: "ready d \<Longrightarrow> writable d \<Longrightarrow>
      \<exists>d'. bs_erase bs d = (True, d') \<and> ready d' \<and> writable d' \<and> cell d' = (\<lambda>_. 0)"
    and write_ok: "ready d \<Longrightarrow> writable d \<Longrightarrow> i < slots \<Longrightarrow> cell d i = 0 \<Longrightarrow>
      \<exists>d'. bs_write bs (2 * i) v d = (True, d') \<and> ready d' \<and> writable d' \<and> cell d' = (cell d)(i := v)"
    and read_ok: "ready d \<Longrightarrow> i < slots \<Longrightarrow>
      \<exists>d'. bs_read bs (2 * i) d = (True, cell d i, d') \<and> ready d' \<and> (writable d \<longrightarrow> writable d') \<and> cell d' = cell d"

definition overlay :: "(nat \<Rightarrow> u16) \<Rightarrow> nat \<Rightarrow> u16 list \<Rightarrow> nat \<Rightarrow> u16" where
  "overlay c i vs j = (if i \<le> j \<and> j < i + length vs then vs ! (j - i) else c j)"

lemma overlay_Nil [simp]: "overlay c i [] = c"
  by (auto simp: overlay_def fun_eq_iff)

lemma overlay_Cons: "overlay c i (v # vs) = overlay (c(i := v)) (Suc i) vs"
  by (auto simp: overlay_def fun_eq_iff nth_Cons' )

lemma holds_at_overlay: "holds_at (overlay c i vs) i vs"
  by (auto simp: holds_at_def overlay_def intro!: nth_equalityI)

context reliable_store begin

lemma read_bulk_ok:
  "ready d \<Longrightarrow> i + n \<le> slots \<Longrightarrow>
   \<exists>d'. backing_store_read_bulk bs (2 * i) n d = (True, map (cell d) [i..<i + n], d') \<and> ready d' \<and>
     (writable d \<longrightarrow> writable d') \<and> cell d' = cell d"
proof (induction n arbitrary: i d)
  case (Suc n)
  obtain d1 where d1: "bs_read bs (2 * i) d = (True, cell d i, d1)" "ready d1" "writable d \<longrightarrow> writable d1" "cell d1 = cell d"
    using read_ok [of d i] Suc.prems by auto
  obtain d2 where "backing_store_read_bulk bs (2 * Suc i) n d1 = (True, map (cell d1) [Suc i..<Suc i + n], d2)"
    "ready d2" "writable d1 \<longrightarrow> writable d2" "cell d2 = cell d1"
    using Suc.IH [of d1 "Suc i"] Suc.prems d1(2) by auto
  moreover have "[i..<i + Suc n] = i # [Suc i..<Suc i + n]" by (simp add: upt_conv_Cons del: upt_Suc)
  ultimately show ?case using d1 by (auto simp del: upt_Suc)
qed simp

lemma write_bulk_ok:
  "ready d \<Longrightarrow> writable d \<Longrightarrow> i + length vs \<le> slots \<Longrightarrow> \<forall>j. i \<le> j \<and> j < i + length vs \<longrightarrow> cell d j = 0 \<Longrightarrow>
   \<exists>d'. backing_store_write_bulk bs (2 * i) vs d = (True, d') \<and> ready d' \<and> writable d' \<and>
     cell d' = overlay (cell d) i vs"
proof (induction vs arbitrary: i d)
  case (Cons v vs)
  obtain d1 where d1: "bs_write bs (2 * i) v d = (True, d1)" "ready d1" "writable d1" "cell d1 = (cell d)(i := v)"
    using write_ok [of d i v] Cons.prems by auto
  obtain d2 where "backing_store_write_bulk bs (2 * Suc i) vs d1 = (True, d2)" "ready d2" "writable d2"
    "cell d2 = overlay (cell d1) (Suc i) vs"
    using Cons.IH [OF d1(2,3), of "Suc i"] Cons.prems(3,4) d1(4) by (auto simp del: fun_upd_apply simp: fun_upd_other)
  then show ?case using d1 by (auto simp: overlay_Cons)
qed simp

end

text \<open>Between operations: the cache is what the store holds, and the next slot of the log is free.\<close>

definition store_ok :: "('d \<Rightarrow> nat \<Rightarrow> u16) \<Rightarrow> ('d \<Rightarrow> bool) \<Rightarrow> ('d \<Rightarrow> bool) \<Rightarrow> build \<Rightarrow> 'd wear_leveling \<Rightarrow> bool" where
  "store_ok cell ready writable g s \<longleftrightarrow>
     ready (device s) \<and> (unlocked s \<longrightarrow> writable (device s)) \<and> length (cache s) = LOGICAL_SIZE g \<and>
     (\<exists>w. write_address s = 2 * w \<and> 2 * w < BACKING_SIZE g \<and> represents g (cell (device s)) (cache s) w)"

definition consolidated_cells :: "build \<Rightarrow> u8 list \<Rightarrow> nat \<Rightarrow> u16" where
  "consolidated_cells g k =
     overlay (overlay (\<lambda>_. 0) 0 (raw16 k)) (LOGICAL_SIZE g div 2) (raw16_of_64 (fnv_64a_buf k FNV1A_64_INIT))"

lemma consolidated_represents:
  assumes "geometry g" and "length k = LOGICAL_SIZE g"
  shows "represents g (consolidated_cells g k) k (LOGICAL_SIZE g div 2 + 4)"
    and "2 * (LOGICAL_SIZE g div 2 + 4) = LOGICAL_SIZE g + 8" and "LOGICAL_SIZE g + 8 < BACKING_SIZE g"
proof -
  let ?h = "LOGICAL_SIZE g div 2" and ?c = "consolidated_cells g k"
  have ev: "even (LOGICAL_SIZE g)" "8 < LOGICAL_SIZE g" "2 * LOGICAL_SIZE g \<le> BACKING_SIZE g"
    using assms(1) by (auto simp: geometry_def)
  have "map ?c [0..<?h] = raw16 k"
    using assms(2) by (intro nth_equalityI) (auto simp: consolidated_cells_def overlay_def)
  moreover have "map ?c [?h..<?h + 4] = raw16_of_64 (fnv_64a_buf k FNV1A_64_INIT)"
    by (intro nth_equalityI) (auto simp: consolidated_cells_def overlay_def)
  ultimately have "base_bytes g ?c = k"
    using raw8_raw16 [of k] assms(2) ev(1) by (simp add: base_bytes_def Let_def)
  then have "log_runs g ?c (?h + 4) (base_bytes g ?c) (?h + 4) k" by (simp add: log_runs.log_end)
  moreover have "?c i = 0" if "?h + 4 \<le> i" for i
    using that assms(2) by (simp add: consolidated_cells_def overlay_def)
  ultimately show "represents g ?c k (?h + 4)" using ev by (auto simp: represents_def)
  show "2 * (?h + 4) = LOGICAL_SIZE g + 8" "LOGICAL_SIZE g + 8 < BACKING_SIZE g" using ev by auto
qed

lemma erased_represents:
  assumes "geometry g"
  shows "represents g (\<lambda>_. 0) (replicate (LOGICAL_SIZE g) 0) (LOGICAL_SIZE g div 2 + 4)"
proof -
  have "raw8 (map (\<lambda>_. 0) [0..<n]) = replicate (2 * n) 0" for n
  proof -
    have "raw8 (replicate n 0) = replicate (2 * n) 0" by (induction n) (simp_all add: raw8.simps(2))
    moreover have "map (\<lambda>_. 0 :: u16) [0..<n] = replicate n 0" by (simp add: map_replicate_const)
    ultimately show ?thesis by simp
  qed
  then have "base_bytes g (\<lambda>_. 0) = replicate (LOGICAL_SIZE g) 0"
    using assms by (simp add: base_bytes_def Let_def geometry_def)
  then show ?thesis
    using consolidated_represents(2,3) [OF assms, of "replicate (LOGICAL_SIZE g) 0"]
    by (simp add: represents_def log_runs.log_end)
qed

lemma base_bytes_frame:
  assumes "\<forall>x < LOGICAL_SIZE g div 2 + 4. c' x = c x"
  shows "base_bytes g c' = base_bytes g c"
proof -
  let ?h = "LOGICAL_SIZE g div 2"
  have "map c' [0..<?h] = map c [0..<?h]" "map c' [?h..<?h + 4] = map c [?h..<?h + 4]"
    using assms by (auto intro!: map_cong)
  then show ?thesis by (simp only: base_bytes_def Let_def)
qed

text \<open>Appending one entry to the log.\<close>

lemma represents_append:
  assumes "represents g c k w" and "next_entry address p = (hs, n)" and "p \<noteq> []" and "length k = LOGICAL_SIZE g"
    and "unat address + length p \<le> LOGICAL_SIZE g" and "LOGICAL_SIZE g \<le> 2 ^ 19" and "2 * (w + length hs) \<le> BACKING_SIZE g"
  shows "represents g (overlay c w hs) (splice k (unat address) (take n p)) (w + length hs)"
proof -
  let ?c = "overlay c w hs" and ?h = "LOGICAL_SIZE g div 2"
  have r: "log_runs g c (?h + 4) (base_bytes g c) w k" "?h + 4 \<le> w" "\<forall>i \<ge> w. 2 * i < BACKING_SIZE g \<longrightarrow> c i = 0"
    using assms(1) by (auto simp: represents_def)
  have frame: "\<forall>x < w. ?c x = c x" by (simp add: overlay_def)
  have "log_runs g ?c (?h + 4) (base_bytes g ?c) w k"
    using log_runs_frame [OF r(1) frame] base_bytes_frame [of g ?c c] frame r(2) by simp
  moreover have "?c w \<noteq> 0 \<and> decode g ?c w k = Some (w + length hs, splice k (unat address) (take n p))"
    using next_entry_decodes [OF assms(2) holds_at_overlay assms(3-6)] by blast
  ultimately have "log_runs g ?c (?h + 4) (base_bytes g ?c) (w + length hs) (splice k (unat address) (take n p))"
    using log_runs_snoc assms(7) by blast
  then show ?thesis using r(2,3) assms(7) by (auto simp: represents_def overlay_def)
qed

locale wear_leveling_store = reliable_store bs slots cell ready writable
  for bs :: "'d backing_store" and slots and cell and ready and writable +
  fixes g :: build
  assumes geometry: "geometry g" and slots: "BACKING_SIZE g = 2 * slots"
begin

abbreviation healthy :: "'d wear_leveling \<Rightarrow> bool" where
  "healthy s \<equiv> ready (device s) \<and> (unlocked s \<longrightarrow> writable (device s)) \<and> length (cache s) = LOGICAL_SIZE g"

lemma unlock_step:
  assumes "ready (device s)" and "unlocked s \<longrightarrow> writable (device s)"
  shows "\<exists>s'. wear_leveling_unlock bs s = (if unlocked s then STATUS_UNCHANGED else STATUS_SUCCESS, s') \<and>
    cache s' = cache s \<and> write_address s' = write_address s \<and> unlocked s' \<and>
    ready (device s') \<and> writable (device s') \<and> cell (device s') = cell (device s)"
  using assms unlock_ok [of "device s"] by (cases "unlocked s") (auto simp: wear_leveling_unlock_def)

lemma lock_step:
  assumes "ready (device s)"
  shows "\<exists>st s'. wear_leveling_lock bs s = (st, s') \<and> st \<noteq> STATUS_FAILURE \<and>
    cache s' = cache s \<and> write_address s' = write_address s \<and> \<not> unlocked s' \<and>
    ready (device s') \<and> cell (device s') = cell (device s)"
  using assms lock_ok [of "device s"] by (cases "unlocked s") (auto simp: wear_leveling_lock_def)

lemma write_consolidated_step:
  assumes "healthy s" and "unlocked s" and "cell (device s) = (\<lambda>_. 0)"
  shows "\<exists>s'. wear_leveling_write_consolidated g bs s = (WEAR_LEVELING_CONSOLIDATED, s') \<and>
    cache s' = cache s \<and> unlocked s' \<and> ready (device s') \<and> writable (device s') \<and>
    cell (device s') = consolidated_cells g (cache s)"
proof -
  have ev: "even (LOGICAL_SIZE g)" "8 < LOGICAL_SIZE g" "LOGICAL_SIZE g div 2 + 4 \<le> slots"
    using geometry slots by (auto simp: geometry_def)
  obtain d1 where d1: "backing_store_write_bulk bs 0 (raw16 (cache s)) (device s) = (True, d1)"
      "ready d1" "writable d1" "cell d1 = overlay (\<lambda>_. 0) 0 (raw16 (cache s))"
    using write_bulk_ok [of "device s" 0 "raw16 (cache s)"] assms ev by auto
  obtain d2 where d2: "backing_store_write_bulk bs (2 * (LOGICAL_SIZE g div 2))
      (raw16_of_64 (fnv_64a_buf (cache s) FNV1A_64_INIT)) d1 = (True, d2)"
      "ready d2" "writable d2" "cell d2 = overlay (cell d1) (LOGICAL_SIZE g div 2) (raw16_of_64 (fnv_64a_buf (cache s) FNV1A_64_INIT))"
    using write_bulk_ok [of d1 "LOGICAL_SIZE g div 2" "raw16_of_64 (fnv_64a_buf (cache s) FNV1A_64_INIT)"] d1 ev assms
    by (auto simp: overlay_def)
  show ?thesis
    using d1 d2 ev assms(2)
    by (auto simp: wear_leveling_write_consolidated_def wear_leveling_unlock_def consolidated_cells_def)
qed

lemma consolidate_force_step:
  assumes "healthy s"
  shows "\<exists>s'. wear_leveling_consolidate_force g bs s = (WEAR_LEVELING_CONSOLIDATED, s') \<and>
    cache s' = cache s \<and> unlocked s' \<and> write_address s' = LOGICAL_SIZE g + 8 \<and>
    ready (device s') \<and> writable (device s') \<and> cell (device s') = consolidated_cells g (cache s)"
proof -
  obtain st s1 where s1: "wear_leveling_unlock bs s = (st, s1)" "cache s1 = cache s" "unlocked s1"
      "ready (device s1)" "writable (device s1)"
    using unlock_step [of s] assms by blast
  obtain d2 where d2: "bs_erase bs (device s1) = (True, d2)" "ready d2" "writable d2" "cell d2 = (\<lambda>_. 0)"
    using erase_ok s1 by blast
  obtain s3 where "wear_leveling_write_consolidated g bs (s1\<lparr>device := d2\<rparr>) = (WEAR_LEVELING_CONSOLIDATED, s3)"
      "cache s3 = cache s" "unlocked s3" "ready (device s3)" "writable (device s3)"
      "cell (device s3) = consolidated_cells g (cache s)"
    using write_consolidated_step [of "s1\<lparr>device := d2\<rparr>"] d2 s1 assms by auto
  with s1 d2 show ?thesis by (auto simp: wear_leveling_consolidate_force_def Let_def)
qed

text \<open>Appending the halfwords of one entry: they are in the log behind what was there, or the store has been
  consolidated, with all of the cache.\<close>

lemma append_seq_step:
  assumes "healthy s" and "unlocked s" and "write_address s = 2 * w" and "w < slots"
    and "\<forall>i \<ge> w. i < slots \<longrightarrow> cell (device s) i = 0"
  shows "\<exists>st s'. append_seq g bs hs s = (st, s') \<and> cache s' = cache s \<and> healthy s' \<and> unlocked s' \<and>
    (st = WEAR_LEVELING_SUCCESS \<and> write_address s' = 2 * (w + length hs) \<and> w + length hs < slots \<and>
       cell (device s') = overlay (cell (device s)) w hs
     \<or> st = WEAR_LEVELING_CONSOLIDATED \<and> write_address s' = LOGICAL_SIZE g + 8 \<and>
       cell (device s') = consolidated_cells g (cache s))"
  using assms
proof (induction hs arbitrary: s w)
  case (Cons h hs)
  obtain d where d: "bs_write bs (2 * w) h (device s) = (True, d)" "ready d" "writable d" "cell d = (cell (device s))(w := h)"
    using write_ok [of "device s" w h] Cons.prems by auto
  let ?s = "s\<lparr>device := d, write_address := 2 * w + 2\<rparr>"
  show ?case
  proof (cases "Suc w < slots")
    case False
    then have "wear_leveling_append_raw g bs h s = wear_leveling_consolidate_force g bs ?s"
      using Cons.prems(3,4) d(1) slots by (simp add: wear_leveling_append_raw_def wear_leveling_consolidate_if_needed_def)
    then show ?thesis using consolidate_force_step [of ?s] Cons.prems(1,2) d by auto
  next
    case True
    then have a: "wear_leveling_append_raw g bs h s = (WEAR_LEVELING_SUCCESS, ?s)"
      using Cons.prems(3,4) d(1) slots by (simp add: wear_leveling_append_raw_def wear_leveling_consolidate_if_needed_def)
    have "\<exists>st s'. append_seq g bs hs ?s = (st, s') \<and> cache s' = cache ?s \<and> healthy s' \<and> unlocked s' \<and>
      (st = WEAR_LEVELING_SUCCESS \<and> write_address s' = 2 * (Suc w + length hs) \<and> Suc w + length hs < slots \<and>
         cell (device s') = overlay (cell (device ?s)) (Suc w) hs
       \<or> st = WEAR_LEVELING_CONSOLIDATED \<and> write_address s' = LOGICAL_SIZE g + 8 \<and>
         cell (device s') = consolidated_cells g (cache ?s))"
      by (rule Cons.IH) (use Cons.prems d True in auto)
    then show ?thesis using a d(4) by (auto simp: overlay_Cons)
  qed
qed auto

text \<open>The loop of \<open>wear_leveling_write_raw\<close>: the store holds \<open>k\<close>, which differs from the cache only in the bytes
  still to be written.\<close>

lemma write_raw_step:
  assumes "healthy s" and "unlocked s" and "write_address s = 2 * w" and "w < slots"
    and "represents g (cell (device s)) k w" and "length k = LOGICAL_SIZE g"
    and "unat a + length p \<le> LOGICAL_SIZE g" and "splice k (unat a) p = cache s"
  shows "\<exists>st s'. wear_leveling_write_raw g bs a p s = (st, s') \<and> st \<noteq> WEAR_LEVELING_FAILED \<and> cache s' = cache s \<and>
    unlocked s' \<and> store_ok cell ready writable g s'"
  using assms
proof (induction "length p" arbitrary: a p s w k rule: less_induct)
  case less
  show ?case
  proof (cases "p = []")
    case True
    then show ?thesis using less.prems slots by (auto simp: wear_leveling_write_raw.simps [of g bs a "[]" s] store_ok_def)
  next
    case False
    obtain hs n where ne: "next_entry a p = (hs, n)" by fastforce
    have L: "LOGICAL_SIZE g \<le> 2 ^ 19" using geometry by (simp add: geometry_def)
    have n: "0 < n" "n \<le> length p" using next_entry_progress [OF False, of a] ne by auto
    have zero: "\<forall>i \<ge> w. i < slots \<longrightarrow> cell (device s) i = 0" using less.prems(5) slots by (simp add: represents_def)
    obtain st s1 where s1: "append_seq g bs hs s = (st, s1)" "cache s1 = cache s" "healthy s1" "unlocked s1"
      and disj: "st = WEAR_LEVELING_SUCCESS \<and> write_address s1 = 2 * (w + length hs) \<and> w + length hs < slots \<and>
          cell (device s1) = overlay (cell (device s)) w hs
        \<or> st = WEAR_LEVELING_CONSOLIDATED \<and> write_address s1 = LOGICAL_SIZE g + 8 \<and>
          cell (device s1) = consolidated_cells g (cache s)"
      using append_seq_step [OF less.prems(1-4) zero, of hs] by blast
    note unfold = wear_leveling_write_raw.simps [of g bs a p s]
    from disj show ?thesis
    proof (elim disjE conjE)
      assume "st = WEAR_LEVELING_CONSOLIDATED" "write_address s1 = LOGICAL_SIZE g + 8"
        "cell (device s1) = consolidated_cells g (cache s)"
      moreover have "store_ok cell ready writable g s1"
        using calculation s1 consolidated_represents [OF geometry, of "cache s"] less.prems(1)
        by (auto simp: store_ok_def intro!: exI [of _ "LOGICAL_SIZE g div 2 + 4"])
      ultimately show ?thesis using s1 False ne by (simp add: unfold)
    next
      assume st: "st = WEAR_LEVELING_SUCCESS" and w: "write_address s1 = 2 * (w + length hs)" "w + length hs < slots"
        and c: "cell (device s1) = overlay (cell (device s)) w hs"
      have an: "unat (a + of_nat n) = unat a + n"
        using n less.prems(7) L by (simp add: unat_word_ariths unat_of_nat)
      have k: "splice (splice k (unat a) (take n p)) (unat a + n) (drop n p) = splice k (unat a) p"
        using splice_append [of "unat a" "take n p" "drop n p" k] n less.prems(6,7) by simp
      have "\<exists>st s'. wear_leveling_write_raw g bs (a + of_nat n) (drop n p) s1 = (st, s') \<and> st \<noteq> WEAR_LEVELING_FAILED \<and>
          cache s' = cache s1 \<and> unlocked s' \<and> store_ok cell ready writable g s'"
      proof (rule less.hyps [OF _ s1(3,4) w])
        show "represents g (cell (device s1)) (splice k (unat a) (take n p)) (w + length hs)"
          unfolding c using represents_append [OF less.prems(5) ne False less.prems(6,7) L] w slots by simp
      qed (use n less.prems(6-8) an k s1(2) in auto)
      then show ?thesis using s1 st False ne by (auto simp: unfold)
    qed
  qed
qed

lemma write_step:
  assumes "store_ok cell ready writable g s" and "unat a + length v \<le> LOGICAL_SIZE g"
  shows "\<exists>st s'. wear_leveling_write g bs a v s = (st, s') \<and> st \<noteq> WEAR_LEVELING_FAILED \<and>
    cache s' = splice (cache s) (unat a) v \<and> store_ok cell ready writable g s'"
proof -
  obtain w where h: "healthy s" and w: "write_address s = 2 * w" "w < slots" "represents g (cell (device s)) (cache s) w"
    using assms(1) slots by (auto simp: store_ok_def)
  have L: "LOGICAL_SIZE g \<le> 2 ^ 19" using geometry by (simp add: geometry_def)
  have "unat (a + of_nat (length v)) = unat a + length v" using assms(2) L by (simp add: unat_word_ariths unat_of_nat)
  then have range: "\<not> unat (a + of_nat (length v)) > LOGICAL_SIZE g" using assms(2) by simp
  let ?k = "splice (cache s) (unat a) v"
  show ?thesis
  proof (cases "take (length v) (drop (unat a) (cache s)) = v")
    case True
    then have "?k = cache s"
      by (simp add: splice_def) (metis append_take_drop_id drop_drop add.commute)
    then show ?thesis using True range assms(1) by (simp add: wear_leveling_write_def)
  next
    case False
    obtain ls s2 where s2: "wear_leveling_unlock bs (s\<lparr>cache := ?k\<rparr>) = (ls, s2)" "ls \<noteq> STATUS_FAILURE" "cache s2 = ?k"
        "write_address s2 = 2 * w" "unlocked s2" "ready (device s2)" "writable (device s2)" "cell (device s2) = cell (device s)"
      using unlock_step [of "s\<lparr>cache := ?k\<rparr>"] h w by (auto split: if_splits)
    have len: "length (cache s) = LOGICAL_SIZE g" "length (cache s2) = LOGICAL_SIZE g" using h assms(2) s2(3) by simp_all
    have "\<exists>st s'. wear_leveling_write_raw g bs a v s2 = (st, s') \<and> st \<noteq> WEAR_LEVELING_FAILED \<and> cache s' = cache s2 \<and>
        unlocked s' \<and> store_ok cell ready writable g s'"
    proof (rule write_raw_step [where w = w and k = "cache s"])
      show "represents g (cell (device s2)) (cache s) w" unfolding s2(8) by (rule w(3))
      show "splice (cache s) (unat a) v = cache s2" using s2(3) by simp
    qed (use s2(4-7) len w(2) assms(2) in simp_all)
    then obtain st s3 where s3: "wear_leveling_write_raw g bs a v s2 = (st, s3)" "st \<noteq> WEAR_LEVELING_FAILED" "cache s3 = ?k"
        "unlocked s3" "store_ok cell ready writable g s3"
      using s2(3) by auto
    have nc: "wear_leveling_consolidate_if_needed g bs s3 = (WEAR_LEVELING_SUCCESS, s3)"
      using s3(5) by (auto simp: wear_leveling_consolidate_if_needed_def store_ok_def)
    obtain l4 s4 where s4: "wear_leveling_lock bs s3 = (l4, s4)" "l4 \<noteq> STATUS_FAILURE" "cache s4 = ?k"
        "write_address s4 = write_address s3" "\<not> unlocked s4" "ready (device s4)" "cell (device s4) = cell (device s3)"
      using lock_step [of s3] s3 by (auto simp: store_ok_def)
    then have ok4: "store_ok cell ready writable g s4" using s3(3,5) by (auto simp: store_ok_def)
    have "wear_leveling_write g bs a v s = (if ls = STATUS_SUCCESS then (st, s4) else (st, s3))"
      using range False s2(1,2) s3(1) nc s4(1,2)
      by (cases "st = WEAR_LEVELING_SUCCESS") (simp_all add: wear_leveling_write_def)
    then show ?thesis using s3 s4 ok4 by (cases "ls = STATUS_SUCCESS") auto
  qed
qed

text \<open>The start-up path reads the same meaning off the store.\<close>

abbreviation same_store :: "'d wear_leveling \<Rightarrow> 'd wear_leveling \<Rightarrow> bool" where
  "same_store s s' \<equiv> ready (device s') \<and> cell (device s') = cell (device s) \<and> unlocked s' = unlocked s"

lemma playback_multibyte_step:
  assumes "ready (device s)" and "decode_multibyte g v0 (cell (device s) i) (cell (device s)) (Suc i) (cache s) = Some (j, k')"
    and "j \<le> slots" and "i < slots"
  shows "\<exists>s'. playback_multibyte g bs v0 (2 * i) s = (True, 2 * j, s') \<and> cache s' = k' \<and> same_store s s'"
proof -
  define v1 where "v1 = cell (device s) i"
  define log where "log = raw8 [v0, v1]"
  define l where "l = unat (LOG_ENTRY_MULTIBYTE_GET_LENGTH log)"
  have d: "\<not> unat (LOG_ENTRY_MULTIBYTE_GET_ADDRESS log) + l > LOGICAL_SIZE g" "j = Suc i + further_halfwords l"
      "k' = multibyte_update g (v0 # v1 # map (cell (device s)) [Suc i..<Suc i + further_halfwords l]) (cache s)"
    using assms(2) unfolding decode_multibyte_def Let_def log_def [symmetric] v1_def [symmetric] l_def [symmetric]
    by (metis option.distinct(1) option.inject prod.inject)+
  obtain d1 where d1: "bs_read bs (2 * i) (device s) = (True, v1, d1)" "ready d1" "cell d1 = cell (device s)"
    using read_ok [of "device s" i] assms unfolding v1_def by blast
  obtain d2 where d2: "backing_store_read_bulk bs (2 * Suc i) (further_halfwords l) d1
      = (True, map (cell (device s)) [Suc i..<Suc i + further_halfwords l], d2)" "ready d2" "cell d2 = cell (device s)"
    using read_bulk_ok [of d1 "Suc i" "further_halfwords l"] d1 d(2) assms(3) by metis
  have "playback_multibyte g bs v0 (2 * i) s = (True, 2 * j, s\<lparr>device := d2, cache := k'\<rparr>)"
    using d d1(1) d2(1)
    by (simp add: playback_multibyte_def Let_def log_def [symmetric] l_def [symmetric] del: upt_Suc)
  then show ?thesis using d2 by auto
qed

lemma playback_entry_step:
  assumes "ready (device s)" and "decode g (cell (device s)) i (cache s) = Some (j, k')" and "j \<le> slots"
  shows "\<exists>s'. playback_entry g bs (cell (device s) i) (2 * Suc i) s = (True, 2 * j, s') \<and> cache s' = k' \<and> same_store s s'"
proof (cases "LOG_ENTRY_GET_TYPE (raw8 [cell (device s) i]) = 0")
  case True
  then have d: "decode_multibyte g (cell (device s) i) (cell (device s) (Suc i)) (cell (device s)) (Suc (Suc i)) (cache s) = Some (j, k')"
    using assms(2) by (simp add: decode_def)
  then have "Suc i < slots" using decode_multibyte_progress [OF d] assms(3) by simp
  then show ?thesis
    using playback_multibyte_step [OF assms(1) d assms(3)] True by (simp add: playback_entry_def)
next
  case False
  then show ?thesis using assms by (auto simp: decode_def playback_entry_def Let_def split: if_splits)
qed

lemma playback_loop_step:
  assumes "log_runs g c i k m k'" and "ready (device s)" and "cell (device s) = c" and "cache s = k"
    and "m \<le> slots" and "m < slots \<Longrightarrow> c m = 0"
  shows "\<exists>s'. playback_loop g bs (2 * i) s = (True, 2 * m, s') \<and> cache s' = k' \<and> same_store s s'"
  using assms
proof (induction arbitrary: s rule: log_runs.induct)
  case (log_end i k)
  show ?case
  proof (cases "i < slots")
    case True
    then obtain d where "bs_read bs (2 * i) (device s) = (True, cell (device s) i, d)" "ready d" "cell d = cell (device s)"
      using read_ok log_end.prems(1) by blast
    then show ?thesis using log_end.prems True slots by (auto simp: playback_loop.simps [of g bs "2 * i" s])
  next
    case False
    then have "playback_loop g bs (2 * i) s = (True, 2 * i, s)"
      using slots by (simp add: playback_loop.simps [of g bs "2 * i" s])
    then show ?thesis using log_end.prems by auto
  qed
next
  case (log_entry i k j k1 m k2)
  have j: "j \<le> slots" "i < j" using log_entry.hyps(2,3) slots by (auto dest: decode_progress)
  obtain d where d: "bs_read bs (2 * i) (device s) = (True, c i, d)" "ready d" "cell d = c"
    using read_ok [of "device s" i] log_entry.prems(1,2) j by auto
  obtain s1 where s1: "playback_entry g bs (c i) (2 * Suc i) (s\<lparr>device := d\<rparr>) = (True, 2 * j, s1)" "cache s1 = k1"
      "ready (device s1)" "cell (device s1) = c" "unlocked s1 = unlocked s"
    using playback_entry_step [of "s\<lparr>device := d\<rparr>" i j k1] d log_entry.hyps(2) log_entry.prems(3) j by auto
  obtain s2 where "playback_loop g bs (2 * j) s1 = (True, 2 * m, s2)" "cache s2 = k2" "same_store s1 s2"
    using log_entry.IH [OF s1(3,4,2) log_entry.prems(4,5)] by blast
  then show ?case
    using d s1 log_entry.hyps(1) log_entry.prems j slots by (auto simp: playback_loop.simps [of g bs "2 * i" s])
qed

lemma read_consolidated_step:
  assumes "ready (device s)" and "length (cache s) = LOGICAL_SIZE g"
  shows "\<exists>s'. wear_leveling_read_consolidated g bs s = (WEAR_LEVELING_SUCCESS, s') \<and>
    cache s' = base_bytes g (cell (device s)) \<and> same_store s s'"
proof -
  let ?h = "LOGICAL_SIZE g div 2" and ?c = "cell (device s)"
  have ev: "even (LOGICAL_SIZE g)" "?h + 4 \<le> slots" "length (uninitialised g) = 4"
    using geometry slots by (auto simp: geometry_def)
  obtain d1 where d1: "backing_store_read_bulk bs 0 ?h (device s) = (True, map ?c [0..<?h], d1)" "ready d1" "cell d1 = ?c"
    using read_bulk_ok [of "device s" 0 ?h] assms(1) ev by auto
  obtain d2 where d2: "backing_store_read_bulk bs (LOGICAL_SIZE g) 4 d1 = (True, map ?c [?h..<?h + 4], d2)" "ready d2" "cell d2 = ?c"
    using read_bulk_ok [of d1 ?h 4] d1 ev by (metis dvd_mult_div_cancel)
  have b: "splice (cache s) 0 (raw8 (map ?c [0..<?h])) = raw8 (map ?c [0..<?h])"
    using assms(2) ev by (simp add: splice_def)
  have e: "splice (uninitialised g) 0 (map ?c [?h..<?h + 4]) = map ?c [?h..<?h + 4]"
    using ev by (simp add: splice_def)
  show ?thesis
    using d1 d2 unfolding wear_leveling_read_consolidated_def base_bytes_def Let_def
    by (simp add: b e wear_leveling_clear_cache_def del: upt_Suc)
qed

lemma init_step:
  assumes "ready (device s)" and "\<not> unlocked s" and "represents g (cell (device s)) k w" and "2 * w < BACKING_SIZE g"
    and "length k = LOGICAL_SIZE g"
  shows "\<exists>s'. wear_leveling_init g bs s = (WEAR_LEVELING_SUCCESS, s') \<and> cache s' = k \<and> store_ok cell ready writable g s'"
proof -
  have L: "2 * (LOGICAL_SIZE g div 2 + 4) = LOGICAL_SIZE g + 8" using geometry by (simp add: geometry_def)
  obtain d where d: "bs_init bs (device s) = (True, d)" "ready d" "cell d = cell (device s)"
    using init_ok assms(1) by blast
  obtain s1 where s1: "wear_leveling_read_consolidated g bs (wear_leveling_clear_cache g s\<lparr>device := d\<rparr>)
      = (WEAR_LEVELING_SUCCESS, s1)" "cache s1 = base_bytes g (cell d)" "ready (device s1)" "cell (device s1) = cell d"
      "\<not> unlocked s1"
    using read_consolidated_step [of "wear_leveling_clear_cache g s\<lparr>device := d\<rparr>"] d assms(2)
    by (auto simp: wear_leveling_clear_cache_def)
  have r: "log_runs g (cell d) (LOGICAL_SIZE g div 2 + 4) (base_bytes g (cell d)) w k" "w < slots" "cell d w = 0"
    using assms(3,4) d(3) slots by (auto simp: represents_def)
  obtain s2 where s2: "playback_loop g bs (LOGICAL_SIZE g + 8) s1 = (True, 2 * w, s2)" "cache s2 = k" "same_store s1 s2"
    using playback_loop_step [OF r(1) s1(3,4,2)] r(2,3) unfolding L by auto
  have p: "wear_leveling_playback_log g bs s1 = (WEAR_LEVELING_SUCCESS, s2\<lparr>write_address := 2 * w\<rparr>)"
    using s2 assms(4) by (simp add: wear_leveling_playback_log_def wear_leveling_consolidate_if_needed_def)
  have "wear_leveling_init g bs s = (WEAR_LEVELING_SUCCESS, s2\<lparr>write_address := 2 * w\<rparr>)"
    using d(1) s1(1) p by (simp add: wear_leveling_init_def wear_leveling_clear_cache_def)
  moreover have "store_ok cell ready writable g (s2\<lparr>write_address := 2 * w\<rparr>)"
    using s1(3-5) s2 assms(3-5) d(3) by (auto simp: store_ok_def)
  ultimately show ?thesis using s2 by auto
qed

lemma erase_step:
  assumes "ready (device s)" and "unlocked s \<longrightarrow> writable (device s)"
  shows "\<exists>s'. wear_leveling_erase g bs s = (WEAR_LEVELING_SUCCESS, s') \<and> cache s' = replicate (LOGICAL_SIZE g) 0 \<and>
    store_ok cell ready writable g s'"
proof -
  have L: "2 * (LOGICAL_SIZE g div 2 + 4) = LOGICAL_SIZE g + 8" "LOGICAL_SIZE g + 8 < BACKING_SIZE g"
    using consolidated_represents(2,3) [OF geometry, of "replicate (LOGICAL_SIZE g) 0"] by simp_all
  obtain ls s1 where s1: "wear_leveling_unlock bs s = (ls, s1)" "ls \<noteq> STATUS_FAILURE" "unlocked s1"
      "ready (device s1)" "writable (device s1)"
    using unlock_step [OF assms] by (auto split: if_splits)
  obtain d where d: "bs_erase bs (device s1) = (True, d)" "ready d" "writable d" "cell d = (\<lambda>_. 0)"
    using erase_ok s1 by blast
  let ?s2 = "wear_leveling_clear_cache g (s1\<lparr>device := d\<rparr>)"
  have s2: "device ?s2 = d" "cache ?s2 = replicate (LOGICAL_SIZE g) 0" "write_address ?s2 = 2 * (LOGICAL_SIZE g div 2 + 4)"
      "unlocked ?s2"
    using s1(3) L(1) by (simp_all add: wear_leveling_clear_cache_def)
  obtain l3 s3 where s3: "wear_leveling_lock bs ?s2 = (l3, s3)" "l3 \<noteq> STATUS_FAILURE" "cache s3 = cache ?s2"
      "write_address s3 = write_address ?s2" "\<not> unlocked s3" "ready (device s3)" "cell (device s3) = cell (device ?s2)"
    using lock_step [of ?s2] s2 d by auto
  have ok: "store_ok cell ready writable g s'" if "ready (device s')" "unlocked s' \<longrightarrow> writable (device s')"
      "cache s' = cache ?s2" "write_address s' = write_address ?s2" "cell (device s') = cell d" for s'
    using that erased_represents [OF geometry] L s2 d(4) unfolding store_ok_def
    by (auto intro!: exI [of _ "LOGICAL_SIZE g div 2 + 4"])
  have "wear_leveling_erase g bs s = (WEAR_LEVELING_SUCCESS, if ls = STATUS_SUCCESS then s3 else ?s2)"
    using s1(1,2) d(1) s3(1,2) by (simp add: wear_leveling_erase_def Let_def)
  then show ?thesis using ok [of s3] ok [of ?s2] s2 s3 d by (cases "ls = STATUS_SUCCESS") auto
qed

lemma writes_step:
  assumes "store_ok cell ready writable g s" and "\<forall>(a, v) \<in> set ws. unat a + length v \<le> LOGICAL_SIZE g"
  shows "store_ok cell ready writable g (fold (\<lambda>(a, v) s. snd (wear_leveling_write g bs a v s)) ws s) \<and>
    cache (fold (\<lambda>(a, v) s. snd (wear_leveling_write g bs a v s)) ws s) = fold (\<lambda>(a, v) k. splice k (unat a) v) ws (cache s)"
  using assms
proof (induction ws arbitrary: s)
  case (Cons w ws)
  obtain a v where w: "w = (a, v)" by (cases w)
  obtain st s' where "wear_leveling_write g bs a v s = (st, s')" "cache s' = splice (cache s) (unat a) v"
      "store_ok cell ready writable g s'"
    using write_step [OF Cons.prems(1), of a v] Cons.prems(2) w by auto
  then show ?case using Cons.IH [of s'] Cons.prems(2) w by simp
qed simp

lemma restart:
  assumes "store_ok cell ready writable g s" and "cell d = cell (device s)" and "ready d"
    and "device s' = d" and "\<not> unlocked s'"
  shows "fst (wear_leveling_init g bs s') = WEAR_LEVELING_SUCCESS \<and> cache (snd (wear_leveling_init g bs s')) = cache s"
proof -
  obtain w where "2 * w < BACKING_SIZE g" "represents g (cell (device s')) (cache s) w" "length (cache s) = LOGICAL_SIZE g"
    using assms(1,2,4) by (auto simp: store_ok_def)
  then show ?thesis using init_step [of s' "cache s" w] assms(3-5) by auto
qed

lemma failed_playback_unlocks:
  assumes "ready (device s)" and "length (cache s) = LOGICAL_SIZE g" and "unlocked s \<longrightarrow> writable (device s)"
    and "playback_loop g bs (LOGICAL_SIZE g + 8) s = (False, a, s1)" and "healthy s1"
  shows "unlocked (snd (wear_leveling_playback_log g bs s))"
  using consolidate_force_step [of "s1\<lparr>write_address := a\<rparr>"] assms by (auto simp: wear_leveling_playback_log_def)

end

section \<open>The legacy flash driver\<close>

text \<open>The flash of \<open>legacy_flash_ops_mock.c\<close>: aligned halfwords, a lock; pages erase to ones, and a halfword is
  programmed only when it is erased or with zero.  Addresses are relative to the start of the flash.\<close>

datatype FLASH_Status = FLASH_BUSY | FLASH_ERROR_PG | FLASH_ERROR_WRP | FLASH_ERROR_OPT | FLASH_COMPLETE
  | FLASH_TIMEOUT | FLASH_BAD_ADDRESS

record flash =
  FlashBuf :: "u16 list"
  flash_locked :: bool

definition FLASH_ErasePage :: "nat \<Rightarrow> nat \<Rightarrow> flash \<Rightarrow> FLASH_Status \<times> flash" where
  "FLASH_ErasePage FEE_PAGE_SIZE Page_Address f =
     (if flash_locked f then (FLASH_ERROR_WRP, f)
      else let page = Page_Address - Page_Address mod FEE_PAGE_SIZE
           in if page \<ge> 2 * length (FlashBuf f) then (FLASH_BAD_ADDRESS, f)
              else (FLASH_COMPLETE,
                    f\<lparr>FlashBuf := map (\<lambda>i. if page \<le> 2 * i \<and> 2 * i < page + FEE_PAGE_SIZE then 0xFFFF else FlashBuf f ! i)
                                   [0..<length (FlashBuf f)]\<rparr>))"

definition FLASH_ProgramHalfWord :: "nat \<Rightarrow> u16 \<Rightarrow> flash \<Rightarrow> FLASH_Status \<times> flash" where
  "FLASH_ProgramHalfWord Address Data f =
     (if flash_locked f then (FLASH_ERROR_WRP, f)
      else if Address \<ge> 2 * length (FlashBuf f) then (FLASH_BAD_ADDRESS, f)
      else let oldData = FlashBuf f ! (Address div 2)
           in if oldData = 0xFFFF \<or> Data = 0 then (FLASH_COMPLETE, f\<lparr>FlashBuf := (FlashBuf f)[Address div 2 := Data]\<rparr>)
              else (FLASH_ERROR_PG, f))"

definition FLASH_Unlock :: "flash \<Rightarrow> flash" where "FLASH_Unlock f = f\<lparr>flash_locked := False\<rparr>"

definition FLASH_Lock :: "flash \<Rightarrow> flash" where "FLASH_Lock f = f\<lparr>flash_locked := True\<rparr>"

record legacy_config =
  BASE_PAGE_ADDRESS :: nat
  PAGE_SIZE :: nat
  PAGE_COUNT :: nat

text \<open>The erase loop goes on after a failing page.\<close>

fun legacy_erase_pages :: "legacy_config \<Rightarrow> nat list \<Rightarrow> bool \<Rightarrow> flash \<Rightarrow> bool \<times> flash" where
  "legacy_erase_pages lc [] ret f = (ret, f)"
| "legacy_erase_pages lc (i # is) ret f =
     (case FLASH_ErasePage (PAGE_SIZE lc) (BASE_PAGE_ADDRESS lc + i * PAGE_SIZE lc) f of (status, f1) \<Rightarrow>
        legacy_erase_pages lc is (if status \<noteq> FLASH_COMPLETE then False else ret) f1)"

definition legacy_store :: "legacy_config \<Rightarrow> flash backing_store" where
  "legacy_store lc =
     \<lparr>bs_init = (\<lambda>f. (True, f)),
      bs_unlock = (\<lambda>f. (True, FLASH_Unlock f)),
      bs_erase = legacy_erase_pages lc [0..<PAGE_COUNT lc] True,
      bs_write = (\<lambda>address v f. case FLASH_ProgramHalfWord (BASE_PAGE_ADDRESS lc + address) (NOT v) f of
                    (status, f1) \<Rightarrow> (status = FLASH_COMPLETE, f1)),
      bs_lock = (\<lambda>f. (True, FLASH_Lock f)),
      bs_read = (\<lambda>address f. (True, NOT (FlashBuf f ! ((BASE_PAGE_ADDRESS lc + address) div 2)), f))\<rparr>"

text \<open>The STM32F401 and F411 with the DFU boot loader: one page of 16 KiB, 16 KiB into the flash.\<close>

definition stm32f401 :: legacy_config where
  "stm32f401 = \<lparr>BASE_PAGE_ADDRESS = 16384, PAGE_SIZE = 16384, PAGE_COUNT = 1\<rparr>"

definition f401_build :: build where
  "f401_build = \<lparr>LOGICAL_SIZE = 1024, BACKING_SIZE = 16384, uninitialised = [0, 0, 0, 0], behind_entry = [0, 0]\<rparr>"

definition flash_cell :: "flash \<Rightarrow> nat \<Rightarrow> u16" where
  "flash_cell f i = (if i < 8192 then NOT (FlashBuf f ! (8192 + i)) else 0)"

definition flash_ready :: "flash \<Rightarrow> bool" where
  "flash_ready f \<longleftrightarrow> length (FlashBuf f) = 16384"

interpretation f401: reliable_store "legacy_store stm32f401" 8192 flash_cell flash_ready "\<lambda>f. \<not> flash_locked f"
proof (unfold_locales, goal_cases)
  case (4 d)
  then show ?case
    by (auto simp: legacy_store_def stm32f401_def FLASH_ErasePage_def flash_ready_def flash_cell_def fun_eq_iff)
next
  case (5 d i v)
  have "NOT x = (0 :: u16) \<longleftrightarrow> x = 0xFFFF" for x :: u16
  proof -
    have "(0xFFFF :: u16) = NOT 0" by simp
    then show ?thesis by (metis bit.double_compl)
  qed
  with 5 show ?case
    by (auto simp: legacy_store_def stm32f401_def FLASH_ProgramHalfWord_def flash_ready_def flash_cell_def fun_eq_iff nth_list_update)
qed (auto simp: legacy_store_def FLASH_Unlock_def FLASH_Lock_def stm32f401_def flash_ready_def flash_cell_def fun_eq_iff)

interpretation f401_wl: wear_leveling_store "legacy_store stm32f401" 8192 flash_cell flash_ready "\<lambda>f. \<not> flash_locked f" f401_build
  by unfold_locales (simp_all add: geometry_def f401_build_def)

text \<open>A power cycle keeps the flash; the RAM comes back with any content, the lock flag cleared.\<close>

definition power_cycle :: "u8 list \<Rightarrow> nat \<Rightarrow> flash wear_leveling \<Rightarrow> flash wear_leveling" where
  "power_cycle junk wa s =
     \<lparr>cache = junk, write_address = wa, unlocked = False, device = (device s)\<lparr>flash_locked := True\<rparr>\<rparr>"

definition write_all :: "(u32 \<times> u8 list) list \<Rightarrow> flash wear_leveling \<Rightarrow> flash wear_leveling" where
  "write_all ws s = fold (\<lambda>(a, v) s. snd (wear_leveling_write f401_build (legacy_store stm32f401) a v s)) ws s"

definition written_bytes :: "(u32 \<times> u8 list) list \<Rightarrow> u8 list" where
  "written_bytes ws = fold (\<lambda>(a, v) k. splice k (unat a) v) ws (replicate 1024 0)"

lemma LOGICAL_SIZE_f401 [simp]: "LOGICAL_SIZE f401_build = 1024"
  by (simp add: f401_build_def)

lemma written_state:
  assumes "length (FlashBuf (device s)) = 16384" and "unlocked s \<longrightarrow> \<not> flash_locked (device s)"
    and "\<forall>(a, v) \<in> set ws. unat a + length v \<le> 1024"
    and "s' = write_all ws (snd (wear_leveling_erase f401_build (legacy_store stm32f401) s))"
  shows "store_ok flash_cell flash_ready (\<lambda>f. \<not> flash_locked f) f401_build s' \<and> cache s' = written_bytes ws"
proof -
  obtain s0 where "snd (wear_leveling_erase f401_build (legacy_store stm32f401) s) = s0" "cache s0 = replicate 1024 0"
      "store_ok flash_cell flash_ready (\<lambda>f. \<not> flash_locked f) f401_build s0"
    using f401_wl.erase_step [of s] assms(1,2) by (auto simp: flash_ready_def)
  then show ?thesis
    using f401_wl.writes_step [of s0 ws] assms(3,4) by (simp add: write_all_def written_bytes_def)
qed

text \<open>C9. After an erase and any sequence of in-range wear_leveling_write calls, through any number of
  consolidations, a power cycle (RAM lost, flash kept) followed by wear_leveling_init succeeds
  and restores exactly the bytes written, whatever log entry formats were used.\<close>

theorem power_cycle_restores:
  assumes "length (FlashBuf (device s)) = 16384" and "unlocked s \<longrightarrow> \<not> flash_locked (device s)"
    and "\<forall>(a, v) \<in> set ws. unat a + length v \<le> 1024"
    and "s' = write_all ws (snd (wear_leveling_erase f401_build (legacy_store stm32f401) s))"
  shows "fst (wear_leveling_init f401_build (legacy_store stm32f401) (power_cycle junk wa s')) = WEAR_LEVELING_SUCCESS \<and>
    cache (snd (wear_leveling_init f401_build (legacy_store stm32f401) (power_cycle junk wa s'))) = written_bytes ws"
  using f401_wl.restart [of s' "(device s')\<lparr>flash_locked := True\<rparr>" "power_cycle junk wa s'"] written_state [OF assms]
  by (auto simp: power_cycle_def store_ok_def flash_ready_def flash_cell_def fun_eq_iff)

lemma power_cycle_restores_witness:
  "cache (snd (wear_leveling_init f401_build (legacy_store stm32f401) (power_cycle [] 0
     (write_all [(16, [1, 0]), (17, [7])] (snd (wear_leveling_erase f401_build (legacy_store stm32f401)
        \<lparr>cache = [], write_address = 0, unlocked = False, device = \<lparr>FlashBuf = replicate 16384 0, flash_locked = True\<rparr>\<rparr>))))))
   = written_bytes [(16, [1, 0]), (17, [7])]"
  using power_cycle_restores [of "\<lparr>cache = [], write_address = 0, unlocked = False,
      device = \<lparr>FlashBuf = replicate 16384 0, flash_locked = True\<rparr>\<rparr>" "[(16, [1, 0]), (17, [7])]" _ "[]" 0, OF _ _ _ refl]
  by simp

text \<open>A write in range does not fail, keeps the store consistent, is read back at once, and
  leaves every disjoint range of the logical bytes as it was.\<close>

lemma write_then_read:
  assumes "store_ok flash_cell flash_ready (\<lambda>f. \<not> flash_locked f) f401_build s"
    and "unat a + length v \<le> 1024" and "unat b + n \<le> 1024"
    and "(st, s') = wear_leveling_write f401_build (legacy_store stm32f401) a v s"
  shows "st \<noteq> WEAR_LEVELING_FAILED \<and> store_ok flash_cell flash_ready (\<lambda>f. \<not> flash_locked f) f401_build s' \<and>
    wear_leveling_read f401_build a (length v) s' = (WEAR_LEVELING_SUCCESS, v) \<and>
    (unat b + n \<le> unat a \<or> unat a + length v \<le> unat b \<longrightarrow>
       wear_leveling_read f401_build b n s' = wear_leveling_read f401_build b n s)"
proof -
  have w: "st \<noteq> WEAR_LEVELING_FAILED" "cache s' = splice (cache s) (unat a) v"
      "store_ok flash_cell flash_ready (\<lambda>f. \<not> flash_locked f) f401_build s'"
    using f401_wl.write_step [OF assms(1), of a v] assms(2,4) by auto
  have l: "length (cache s) = 1024" using assms(1) by (simp add: store_ok_def)
  have r: "unat (x + of_nat m) = unat x + m" if "unat x + m \<le> 1024" for x :: u32 and m
    using that by (simp add: unat_word_ariths unat_of_nat)
  have "take (length v) (drop (unat a) (cache s')) = v" using w(2) l assms(2) by (simp add: splice_def)
  moreover have "take n (drop (unat b) (cache s')) = take n (drop (unat b) (cache s))"
    if "unat b + n \<le> unat a \<or> unat a + length v \<le> unat b"
    using that l assms(2,3) unfolding w(2)
    by (intro nth_equalityI) (auto simp: splice_def nth_append)
  ultimately show ?thesis using w r [OF assms(2)] r [OF assms(3)] assms(2,3) by (simp add: wear_leveling_read_def)
qed

lemma write_then_read_witness:
  "\<exists>s st s'. store_ok flash_cell flash_ready (\<lambda>f. \<not> flash_locked f) f401_build s \<and>
     (st, s') = wear_leveling_write f401_build (legacy_store stm32f401) 100 [1, 2, 3] s \<and>
     wear_leveling_read f401_build 100 3 s' = (WEAR_LEVELING_SUCCESS, [1, 2, 3])"
proof -
  define s0 where "s0 = \<lparr>cache = [], write_address = 0, unlocked = False,
    device = \<lparr>FlashBuf = replicate 16384 0, flash_locked = True\<rparr>\<rparr>"
  define s where "s = write_all [] (snd (wear_leveling_erase f401_build (legacy_store stm32f401) s0))"
  have ok: "store_ok flash_cell flash_ready (\<lambda>f. \<not> flash_locked f) f401_build s"
    using written_state [of s0 "[]" s] by (simp add: s0_def s_def)
  obtain st s' where w: "(st, s') = wear_leveling_write f401_build (legacy_store stm32f401) 100 [1, 2, 3] s"
    by (metis surj_pair)
  have "wear_leveling_read f401_build 100 (length [1, 2, 3 :: u8]) s' = (WEAR_LEVELING_SUCCESS, [1, 2, 3])"
    using write_then_read [OF ok _ _ w, of 0 0] by simp
  moreover have "length [1, 2, 3 :: u8] = 3" by simp
  ultimately show ?thesis using ok w by metis
qed

text \<open>An entry that claims 7 bytes is taken from behind the 8 bytes of the union; the writer never makes one.\<close>

lemma overlong_entry_reads_behind:
  assumes "LOG_ENTRY_MULTIBYTE_GET_LENGTH (raw8 [h0, h1, h2, h3]) = 7"
  shows "multibyte_update g [h0, h1, h2, h3] k =
    splice k (unat (LOG_ENTRY_MULTIBYTE_GET_ADDRESS (raw8 [h0, h1, h2, h3])))
      (drop 3 (raw8 [h0, h1, h2, h3]) @ take 2 (behind_entry g))"
  by (simp add: multibyte_update_def Let_def assms)

text \<open>A play-back that fails consolidates and leaves the store unlocked.\<close>

lemma f401_failed_playback_unlocks:
  assumes "length (FlashBuf (device s)) = 16384" and "length (cache s) = 1024" and "\<not> unlocked s"
    and "playback_loop f401_build (legacy_store stm32f401) 1032 s = (False, a, s1)"
    and "flash_ready (device s1)" and "length (cache s1) = 1024" and "\<not> unlocked s1"
  shows "unlocked (snd (wear_leveling_playback_log f401_build (legacy_store stm32f401) s))"
  using f401_wl.failed_playback_unlocks [of s a s1] assms by (simp add: flash_ready_def)

end
