(* ===== verification/DeferredExec.thy ===== *)
theory DeferredExec
  imports Prelude
begin

text \<open>
  Deferred execution (\<open>quantum/deferred_exec.c\<close>): a table of executors, each named by an 8-bit token,
  and the task that runs the ones that are due.  A callback may itself queue, extend and cancel, so
  it is a function on the whole state, the parameter \<open>call\<close>.  Calling through an entry without a
  callback is the result \<open>None\<close>; the invariant \<open>tokens_ok\<close> excludes it.
\<close>

section \<open>State\<close>

record ('cb, 'a) executor =
  token :: u8
  trigger_time :: u32
  callback :: "'cb option"
  cb_arg :: "'a option"

record ('cb, 'a, 'w) deferred =
  current_token :: u8
  executors :: "('cb, 'a) executor list"
  last_execution_time :: u32
  outside :: 'w

abbreviation INVALID_DEFERRED_TOKEN :: u8 where "INVALID_DEFERRED_TOKEN \<equiv> 0"

definition free_executor :: "('cb, 'a) executor" where
  "free_executor = \<lparr>token = INVALID_DEFERRED_TOKEN, trigger_time = 0, callback = None, cb_arg = None\<rparr>"

section \<open>Tokens\<close>

definition token_can_be_used :: "('cb, 'a) executor list \<Rightarrow> u8 \<Rightarrow> bool" where
  "token_can_be_used table t \<longleftrightarrow> t \<noteq> INVALID_DEFERRED_TOKEN \<and> list_all (\<lambda>e. token e \<noteq> t) table"

text \<open>The loop of \<open>allocate_token\<close>: the token it returns and the value \<open>current_token\<close> is left at.\<close>

function allocate_loop :: "('cb, 'a) executor list \<Rightarrow> u8 \<Rightarrow> u8 \<Rightarrow> u8 \<times> u8" where
  "allocate_loop table first cur =
     (if token_can_be_used table cur then (cur, cur)
      else if cur + 1 = first then (INVALID_DEFERRED_TOKEN, cur + 1)
      else allocate_loop table first (cur + 1))"
  by pat_completeness auto

lemma allocate_distance:
  fixes cur first :: u8
  assumes "cur + 1 \<noteq> first"
  shows "unat (first - (cur + 1) - 1) < unat (first - cur - 1)"
proof -
  define d where "d = first - cur - 1"
  have "d \<noteq> 0" using assms by (auto simp: d_def algebra_simps)
  then have "unat (d - 1) < unat d" by (simp add: unat_minus_one unat_gt_0)
  then show ?thesis by (simp add: d_def algebra_simps)
qed

termination allocate_loop
  by (relation "measure (\<lambda>(table, first, cur). unat (first - cur - 1))") (use allocate_distance in auto)

declare allocate_loop.simps [simp del]

definition allocate_token :: "('cb, 'a, 'w) deferred \<Rightarrow> u8 \<times> ('cb, 'a, 'w) deferred" where
  "allocate_token s =
     (let first = current_token s + 1;
          (t, cur) = allocate_loop (executors s) first first
      in (t, s\<lparr>current_token := cur\<rparr>))"

section \<open>Queueing, extending, cancelling\<close>

text \<open>The index of the first entry the loops stop at.\<close>

fun find_entry :: "u8 \<Rightarrow> nat \<Rightarrow> ('cb, 'a) executor list \<Rightarrow> nat option" where
  "find_entry t i [] = None"
| "find_entry t i (e # es) = (if token e = t then Some i else find_entry t (Suc i) es)"

definition defer_exec_advanced ::
  "u32 \<Rightarrow> u32 \<Rightarrow> 'cb option \<Rightarrow> 'a option \<Rightarrow> ('cb, 'a, 'w) deferred \<Rightarrow> u8 \<times> ('cb, 'a, 'w) deferred" where
  "defer_exec_advanced now delay_ms cb arg s =
     (if executors s = [] \<or> delay_ms = 0 \<or> cb = None then (INVALID_DEFERRED_TOKEN, s)
      else (case find_entry INVALID_DEFERRED_TOKEN 0 (executors s) of
              None \<Rightarrow> (INVALID_DEFERRED_TOKEN, s)
            | Some i \<Rightarrow>
                (case allocate_token s of (t, s1) \<Rightarrow>
                   if t = INVALID_DEFERRED_TOKEN then (0, s1)
                   else (current_token s1,
                         s1\<lparr>executors := (executors s1)[i := \<lparr>token = current_token s1, trigger_time = now + delay_ms,
                                                              callback = cb, cb_arg = arg\<rparr>]\<rparr>))))"

definition extend_deferred_exec_advanced ::
  "u32 \<Rightarrow> u8 \<Rightarrow> u32 \<Rightarrow> ('cb, 'a, 'w) deferred \<Rightarrow> bool \<times> ('cb, 'a, 'w) deferred" where
  "extend_deferred_exec_advanced now t delay_ms s =
     (if executors s = [] \<or> delay_ms = 0 \<or> t = INVALID_DEFERRED_TOKEN then (False, s)
      else (case find_entry t 0 (executors s) of
              None \<Rightarrow> (False, s)
            | Some i \<Rightarrow> (True, s\<lparr>executors := (executors s)[i := (executors s ! i)\<lparr>trigger_time := now + delay_ms\<rparr>]\<rparr>)))"

definition cancel_deferred_exec_advanced :: "u8 \<Rightarrow> ('cb, 'a, 'w) deferred \<Rightarrow> bool \<times> ('cb, 'a, 'w) deferred" where
  "cancel_deferred_exec_advanced t s =
     (if executors s = [] \<or> t = INVALID_DEFERRED_TOKEN then (False, s)
      else (case find_entry t 0 (executors s) of
              None \<Rightarrow> (False, s)
            | Some i \<Rightarrow> (True, s\<lparr>executors := (executors s)[i := free_executor]\<rparr>)))"

section \<open>The task\<close>

type_synonym ('cb, 'a, 'w) caller =
  "'cb \<Rightarrow> u32 \<Rightarrow> 'a option \<Rightarrow> ('cb, 'a, 'w) deferred \<Rightarrow> u32 \<times> ('cb, 'a, 'w) deferred"

definition due :: "u32 \<Rightarrow> ('cb, 'a) executor \<Rightarrow> bool" where
  "due now e \<longleftrightarrow> token e \<noteq> INVALID_DEFERRED_TOKEN \<and> sint (timer_diff (trigger_time e) now) \<le> 0"

definition after_callback :: "u32 \<Rightarrow> ('cb, 'a) executor \<Rightarrow> ('cb, 'a) executor" where
  "after_callback delay_ms e =
     (if delay_ms > 0 then e\<lparr>trigger_time := trigger_time e + delay_ms\<rparr> else free_executor)"

definition run_entry ::
  "('cb, 'a, 'w) caller \<Rightarrow> u32 \<Rightarrow> nat \<Rightarrow> ('cb, 'a, 'w) deferred \<Rightarrow> ('cb, 'a, 'w) deferred option" where
  "run_entry call now i s =
     (let entry = executors s ! i; curr_token = token entry
      in if \<not> due now entry then Some s
         else (case callback entry of
                 None \<Rightarrow> None
               | Some cb \<Rightarrow>
                   (case call cb (trigger_time entry) (cb_arg entry) s of (delay_ms, s1) \<Rightarrow>
                      if token (executors s1 ! i) \<noteq> curr_token then Some s1
                      else Some (s1\<lparr>executors := (executors s1)[i := after_callback delay_ms (executors s1 ! i)]\<rparr>))))"

fun run_entries ::
  "('cb, 'a, 'w) caller \<Rightarrow> u32 \<Rightarrow> nat list \<Rightarrow> ('cb, 'a, 'w) deferred \<Rightarrow> ('cb, 'a, 'w) deferred option" where
  "run_entries call now [] s = Some s"
| "run_entries call now (i # is) s =
     (case run_entry call now i s of None \<Rightarrow> None | Some s1 \<Rightarrow> run_entries call now is s1)"

definition deferred_exec_advanced_task ::
  "('cb, 'a, 'w) caller \<Rightarrow> u32 \<Rightarrow> ('cb, 'a, 'w) deferred \<Rightarrow> ('cb, 'a, 'w) deferred option" where
  "deferred_exec_advanced_task call now s =
     (if sint (timer_diff now (last_execution_time s)) > 0
      then run_entries call now [0..<length (executors s)] (s\<lparr>last_execution_time := now\<rparr>)
      else Some s)"

section \<open>Allocation\<close>

lemma allocate_loop_spec:
  assumes "cur = first + of_nat k" and "k < 256" and "\<forall>j < k. \<not> token_can_be_used table (first + of_nat j)"
  shows "(token_can_be_used table (fst (allocate_loop table first cur)) \<and>
            snd (allocate_loop table first cur) = fst (allocate_loop table first cur))
      \<or> (fst (allocate_loop table first cur) = 0 \<and> (\<forall>t. \<not> token_can_be_used table t))"
  using assms
proof (induction table first cur arbitrary: k rule: allocate_loop.induct)
  case (1 table first cur)
  note unfold = allocate_loop.simps [of table first cur]
  show ?case
  proof (cases "token_can_be_used table cur")
    case True
    then show ?thesis by (simp add: unfold)
  next
    case False
    have step: "\<forall>j < Suc k. \<not> token_can_be_used table (first + of_nat j)"
      using False 1(2,4) by (auto simp: less_Suc_eq)
    show ?thesis
    proof (cases "cur + 1 = first")
      case True
      then have "of_nat (Suc k) = (0 :: u8)" using 1(2) by (simp add: algebra_simps)
      then have k: "k = 255" using 1(3) by (simp add: word_unat_eq_iff unat_word_ariths unat_of_nat) presburger
      have "\<not> token_can_be_used table t" for t
      proof -
        have "t = first + of_nat (unat (t - first))" by simp
        moreover have "unat (t - first) < Suc k" using k unsigned_less [of "t - first", where ?'a = nat] by simp
        ultimately show ?thesis using step by metis
      qed
      then show ?thesis using False True by (simp add: unfold)
    next
      case ne: False
      have "k \<noteq> 255"
      proof
        assume "k = 255"
        then have "cur + 1 = first + of_nat (Suc 255)" using 1(2) by (simp add: algebra_simps)
        moreover have "of_nat (Suc 255) = (0 :: u8)" by (simp add: word_unat_eq_iff unat_of_nat)
        ultimately show False using ne by simp
      qed
      then have "Suc k < 256" using 1(3) by simp
      moreover have "cur + 1 = first + of_nat (Suc k)" using 1(2) by (simp add: algebra_simps)
      moreover have "allocate_loop table first cur = allocate_loop table first (cur + 1)"
        using False ne by (simp add: unfold)
      ultimately show ?thesis using 1(1) [OF False ne, of "Suc k"] step by simp
    qed
  qed
qed

lemma allocate_token_spec:
  assumes "allocate_token s = (t, s1)"
  shows "executors s1 = executors s \<and> outside s1 = outside s \<and> last_execution_time s1 = last_execution_time s \<and>
    ((token_can_be_used (executors s) t \<and> current_token s1 = t) \<or> (t = 0 \<and> (\<forall>u. \<not> token_can_be_used (executors s) u)))"
  using assms allocate_loop_spec [of "current_token s + 1" "current_token s + 1" 0 "executors s"]
  by (auto simp: allocate_token_def Let_def split: prod.splits)

text \<open>With at most 254 entries in use some of the 255 tokens is free.\<close>

lemma some_token_usable:
  assumes "card (token ` {e \<in> set table. token e \<noteq> 0}) < 255"
  shows "\<exists>t. token_can_be_used table t"
proof (rule ccontr)
  assume "\<not> (\<exists>t. token_can_be_used table t)"
  then have "UNIV - {0} \<subseteq> token ` {e \<in> set table. token e \<noteq> 0}"
    by (auto simp: token_can_be_used_def list_all_iff)
  then have "card (UNIV - {0 :: u8}) \<le> card (token ` {e \<in> set table. token e \<noteq> 0})"
    by (intro card_mono) auto
  moreover have "card (UNIV - {0 :: u8}) = 255"
    by (simp add: card_Diff_singleton card_word)
  ultimately show False using assms by simp
qed

lemma usable_in_short_table:
  assumes "length table \<le> 255" and "i < length table" and "token (table ! i) = 0"
  shows "\<exists>t. token_can_be_used table t"
proof (rule some_token_usable)
  have "token ` {e \<in> set table. token e \<noteq> 0} \<subseteq> (\<lambda>j. token (table ! j)) ` ({..<length table} - {i})"
    using assms(3) by (auto simp: in_set_conv_nth)
  then have "card (token ` {e \<in> set table. token e \<noteq> 0}) \<le> card ((\<lambda>j. token (table ! j)) ` ({..<length table} - {i}))"
    by (intro card_mono) auto
  also have "\<dots> \<le> card ({..<length table} - {i})" by (rule card_image_le) simp
  also have "\<dots> < 255" using assms(1,2) by simp
  finally show "card (token ` {e \<in> set table. token e \<noteq> 0}) < 255" .
qed

lemma find_entry_Some: "find_entry t k es = Some i \<Longrightarrow> k \<le> i \<and> i - k < length es \<and> token (es ! (i - k)) = t"
proof (induction es arbitrary: k)
  case (Cons e es)
  then show ?case by (fastforce split: if_splits simp: nth_Cons')
qed simp

lemma find_entry_0: "find_entry t 0 es = Some i \<Longrightarrow> i < length es \<and> token (es ! i) = t"
  using find_entry_Some [of t 0 es i] by simp

lemma find_entry_None: "find_entry t k es = None \<longleftrightarrow> (\<forall>e \<in> set es. token e \<noteq> t)"
  by (induction es arbitrary: k) auto

section \<open>The table invariant\<close>

text \<open>Live tokens are pairwise different and every live entry can be called.\<close>

definition tokens_ok :: "('cb, 'a, 'w) deferred \<Rightarrow> bool" where
  "tokens_ok s \<longleftrightarrow>
     (\<forall>i < length (executors s). \<forall>j < length (executors s).
        token (executors s ! i) = token (executors s ! j) \<and> token (executors s ! i) \<noteq> 0 \<longrightarrow> i = j) \<and>
     (\<forall>e \<in> set (executors s). token e \<noteq> 0 \<longrightarrow> callback e \<noteq> None)"

lemma tokens_ok_update:
  assumes "tokens_ok s" and "i < length (executors s)"
    and "token e \<noteq> 0 \<longrightarrow> callback e \<noteq> None \<and> (\<forall>j < length (executors s). j \<noteq> i \<longrightarrow> token (executors s ! j) \<noteq> token e)"
  shows "tokens_ok (s\<lparr>executors := (executors s)[i := e]\<rparr>)"
proof -
  have "set ((executors s)[i := e]) \<subseteq> insert e (set (executors s))" by (rule set_update_subset_insert)
  then show ?thesis using assms by (auto simp: tokens_ok_def nth_list_update)
qed

lemma tokens_ok_cong: "executors s' = executors s \<Longrightarrow> tokens_ok s' = tokens_ok s"
  by (simp add: tokens_ok_def)

lemma tokens_ok_other_fields [simp]:
  "tokens_ok (s\<lparr>outside := w\<rparr>) = tokens_ok s" "tokens_ok (s\<lparr>last_execution_time := n\<rparr>) = tokens_ok s"
  by (rule tokens_ok_cong, simp)+

lemma defer_exec_cases:
  assumes "defer_exec_advanced now d cb arg s = (t, s')"
  obtains (refused) "t = 0" "executors s' = executors s"
  | (queued) i where "i < length (executors s)" "token (executors s ! i) = 0" "token_can_be_used (executors s) t"
      "cb \<noteq> None" "d \<noteq> 0"
      "executors s' = (executors s)[i := \<lparr>token = t, trigger_time = now + d, callback = cb, cb_arg = arg\<rparr>]"
proof (cases "executors s = [] \<or> d = 0 \<or> cb = None \<or> find_entry 0 0 (executors s) = None")
  case True
  then have "defer_exec_advanced now d cb arg s = (0, s)" by (auto simp: defer_exec_advanced_def)
  then show ?thesis using assms refused by simp
next
  case False
  then obtain i where i: "find_entry 0 0 (executors s) = Some i" by auto
  obtain u s1 where u: "allocate_token s = (u, s1)" by fastforce
  show ?thesis
  proof (cases "u = 0")
    case True
    then show ?thesis using assms refused False i u allocate_token_spec [OF u] by (auto simp: defer_exec_advanced_def)
  next
    case ne: False
    then have a: "token_can_be_used (executors s) u" "current_token s1 = u" "executors s1 = executors s"
      using allocate_token_spec [OF u] by auto
    show ?thesis
      by (rule queued [of i]) (use find_entry_0 [OF i] a ne False assms i u in \<open>auto simp: defer_exec_advanced_def\<close>)
  qed
qed

lemma tokens_ok_defer:
  assumes "tokens_ok s" and "defer_exec_advanced now d cb arg s = (t, s')"
  shows "tokens_ok s' \<and> length (executors s') = length (executors s)"
  using assms(2)
proof (cases rule: defer_exec_cases)
  case refused
  then show ?thesis using assms(1) tokens_ok_cong [of s' s] by simp
next
  case (queued i)
  let ?e = "\<lparr>token = t, trigger_time = now + d, callback = cb, cb_arg = arg\<rparr>"
  have "tokens_ok (s\<lparr>executors := (executors s)[i := ?e]\<rparr>)"
    using assms(1) queued by (intro tokens_ok_update) (auto simp: token_can_be_used_def list_all_iff)
  then show ?thesis using queued(6) tokens_ok_cong [of s' "s\<lparr>executors := (executors s)[i := ?e]\<rparr>"] by simp
qed

lemma tokens_ok_extend:
  assumes "tokens_ok s"
  shows "tokens_ok (snd (extend_deferred_exec_advanced now t d s))"
proof (cases "find_entry t 0 (executors s)")
  case (Some i)
  note f = find_entry_0 [OF Some]
  have "tokens_ok (s\<lparr>executors := (executors s)[i := (executors s ! i)\<lparr>trigger_time := now + d\<rparr>]\<rparr>)"
    using assms f by (intro tokens_ok_update) (auto simp: tokens_ok_def)
  then show ?thesis using assms Some by (simp add: extend_deferred_exec_advanced_def)
qed (use assms in \<open>simp add: extend_deferred_exec_advanced_def\<close>)

lemma tokens_ok_cancel:
  assumes "tokens_ok s"
  shows "tokens_ok (snd (cancel_deferred_exec_advanced t s))"
proof (cases "find_entry t 0 (executors s)")
  case (Some i)
  then have "tokens_ok (s\<lparr>executors := (executors s)[i := free_executor]\<rparr>)"
    using assms find_entry_0 [OF Some] by (intro tokens_ok_update) (auto simp: free_executor_def)
  then show ?thesis using assms Some by (simp add: cancel_deferred_exec_advanced_def)
qed (use assms in \<open>simp add: cancel_deferred_exec_advanced_def\<close>)

text \<open>What a callback may do: anything that keeps the table well formed and of its size.\<close>

definition well_behaved :: "('cb, 'a, 'w) caller \<Rightarrow> bool" where
  "well_behaved call \<longleftrightarrow> (\<forall>cb t a s. tokens_ok s \<longrightarrow>
     tokens_ok (snd (call cb t a s)) \<and> length (executors (snd (call cb t a s))) = length (executors s))"

lemma run_entry_ok:
  assumes "well_behaved call" and "tokens_ok s" and "i < length (executors s)"
  shows "\<exists>s'. run_entry call now i s = Some s' \<and> tokens_ok s' \<and> length (executors s') = length (executors s)"
proof (cases "due now (executors s ! i)")
  case False
  then show ?thesis using assms(2) by (simp add: run_entry_def)
next
  case True
  let ?e = "executors s ! i"
  obtain cb where cb: "callback ?e = Some cb"
    using True assms(2,3) by (auto simp: tokens_ok_def due_def dest!: bspec [of _ _ ?e])
  obtain d s1 where c: "call cb (trigger_time ?e) (cb_arg ?e) s = (d, s1)" by fastforce
  have s1: "tokens_ok s1" "length (executors s1) = length (executors s)"
  proof -
    have "tokens_ok (snd (call cb (trigger_time ?e) (cb_arg ?e) s)) \<and>
        length (executors (snd (call cb (trigger_time ?e) (cb_arg ?e) s))) = length (executors s)"
      using assms(1,2) unfolding well_behaved_def by blast
    then show "tokens_ok s1" "length (executors s1) = length (executors s)" using c by simp_all
  qed
  show ?thesis
  proof (cases "token (executors s1 ! i) = token ?e")
    case False
    then show ?thesis using True cb c s1 by (simp add: run_entry_def)
  next
    case same: True
    have "tokens_ok (s1\<lparr>executors := (executors s1)[i := after_callback d (executors s1 ! i)]\<rparr>)"
      using s1 assms(3) by (intro tokens_ok_update) (auto simp: after_callback_def free_executor_def tokens_ok_def)
    then show ?thesis using True cb c s1 same by (simp add: run_entry_def)
  qed
qed

lemma run_entries_ok:
  assumes "well_behaved call" and "tokens_ok s" and "\<forall>i \<in> set is. i < length (executors s)"
  shows "\<exists>s'. run_entries call now is s = Some s' \<and> tokens_ok s' \<and> length (executors s') = length (executors s)"
  using assms(2,3)
proof (induction "is" arbitrary: s)
  case (Cons i "is")
  obtain s1 where s1: "run_entry call now i s = Some s1" "tokens_ok s1" "length (executors s1) = length (executors s)"
    using run_entry_ok [OF assms(1) Cons.prems(1), of i] Cons.prems(2) by auto
  then show ?case using Cons.IH [OF s1(2)] Cons.prems(2) by auto
qed simp

section \<open>Properties\<close>

text \<open>C10. Queueing, extending and cancelling keep the live tokens pairwise different and every live
  entry callable, and the task, whatever well-behaved callbacks do to the table, never calls
  through a null callback and keeps that invariant.\<close>

theorem deferred_table_safe:
  assumes "tokens_ok s" and "well_behaved call"
  shows "tokens_ok (snd (defer_exec_advanced now d cb arg s)) \<and>
    tokens_ok (snd (extend_deferred_exec_advanced now t d s)) \<and>
    tokens_ok (snd (cancel_deferred_exec_advanced t s)) \<and>
    (\<exists>s'. deferred_exec_advanced_task call now s = Some s' \<and> tokens_ok s')"
proof -
  let ?s = "s\<lparr>last_execution_time := now\<rparr>"
  have "tokens_ok ?s" using assms(1) by simp
  then have "\<exists>s'. run_entries call now [0..<length (executors ?s)] ?s = Some s' \<and> tokens_ok s' \<and>
      length (executors s') = length (executors ?s)"
    by (rule run_entries_ok [OF assms(2)]) simp
  then have "\<exists>s'. deferred_exec_advanced_task call now s = Some s' \<and> tokens_ok s'"
    using assms(1) by (auto simp: deferred_exec_advanced_task_def)
  then show ?thesis
    using tokens_ok_defer [OF assms(1), of now d cb arg "fst (defer_exec_advanced now d cb arg s)"]
      tokens_ok_extend [OF assms(1)] tokens_ok_cancel [OF assms(1)] by simp
qed

text \<open>A one-shot callback that counts its calls.\<close>

definition count_once :: "(unit, unit, nat) caller" where
  "count_once cb t a s = (0, s\<lparr>outside := Suc (outside s)\<rparr>)"

lemma count_once_well_behaved: "well_behaved count_once"
  by (simp add: well_behaved_def count_once_def)

definition two_executors :: "(unit, unit, nat) deferred" where
  "two_executors = \<lparr>current_token = 2, executors =
     [\<lparr>token = 2, trigger_time = 10, callback = Some (), cb_arg = None\<rparr>, free_executor], last_execution_time = 0, outside = 0\<rparr>"

lemma two_executors_ok: "tokens_ok two_executors"
  by (auto simp: tokens_ok_def two_executors_def free_executor_def less_Suc_eq nth_Cons')

lemma deferred_table_safe_witness: "\<exists>s'. deferred_exec_advanced_task count_once 10 two_executors = Some s' \<and> tokens_ok s'"
  using deferred_table_safe [OF two_executors_ok count_once_well_behaved] by blast

text \<open>With a free slot in a table of at most 255 entries the token search ends with a non-zero
  token no entry uses, and exactly one free slot gets the new executor with its deadline.\<close>

lemma defer_exec_queues:
  assumes "length (executors s) \<le> 255" and "\<exists>e \<in> set (executors s). token e = 0" and "d \<noteq> 0"
    and "(t, s') = defer_exec_advanced now d (Some cb) arg s"
  shows "t \<noteq> 0 \<and> (\<forall>e \<in> set (executors s). token e \<noteq> t) \<and>
    (\<exists>i < length (executors s). token (executors s ! i) = 0 \<and>
       executors s' = (executors s)[i := \<lparr>token = t, trigger_time = now + d, callback = Some cb, cb_arg = arg\<rparr>])"
proof -
  obtain i where i: "find_entry 0 0 (executors s) = Some i"
    using assms(2) find_entry_None [of 0 0 "executors s"] by (cases "find_entry 0 0 (executors s)") auto
  note fi = find_entry_0 [OF i]
  obtain u s1 where u: "allocate_token s = (u, s1)" by fastforce
  have "\<exists>t. token_can_be_used (executors s) t" using usable_in_short_table [OF assms(1)] fi by blast
  then have a: "token_can_be_used (executors s) u" "current_token s1 = u" "executors s1 = executors s"
    using allocate_token_spec [OF u] by blast+
  have ne: "executors s \<noteq> []" "u \<noteq> 0" using fi a(1) by (auto simp: token_can_be_used_def)
  then have "t = u" "executors s' = (executors s)[i := \<lparr>token = u, trigger_time = now + d, callback = Some cb, cb_arg = arg\<rparr>]"
    using assms(3,4) i u a(2,3) by (simp_all add: defer_exec_advanced_def)
  then show ?thesis using fi a(1) by (auto simp: token_can_be_used_def list_all_iff)
qed

lemma defer_exec_queues_witness:
  "fst (defer_exec_advanced 100 5 (Some ()) None two_executors) \<noteq> 0"
  using defer_exec_queues [of two_executors 5 "fst (defer_exec_advanced 100 5 (Some ()) None two_executors)"
      "snd (defer_exec_advanced 100 5 (Some ()) None two_executors)" 100 "()" None]
  by (simp add: two_executors_def free_executor_def)

text \<open>Callbacks that only act on the outside world: the task is then a map over the table.\<close>

definition delay_only :: "('cb \<Rightarrow> u32 \<Rightarrow> 'a option \<Rightarrow> 'w \<Rightarrow> u32 \<times> 'w) \<Rightarrow> ('cb, 'a, 'w) caller" where
  "delay_only f cb t a s = (case f cb t a (outside s) of (d, w) \<Rightarrow> (d, s\<lparr>outside := w\<rparr>))"

fun run_table :: "('cb \<Rightarrow> u32 \<Rightarrow> 'a option \<Rightarrow> 'w \<Rightarrow> u32 \<times> 'w) \<Rightarrow> u32 \<Rightarrow> ('cb, 'a) executor list \<Rightarrow> 'w \<Rightarrow> ('cb, 'a) executor list \<times> 'w" where
  "run_table f now [] w = ([], w)"
| "run_table f now (e # es) w =
     (let (e', w') = (if due now e then (case f (the (callback e)) (trigger_time e) (cb_arg e) w of (d, w1) \<Rightarrow> (after_callback d e, w1))
                      else (e, w));
          (es', w'') = run_table f now es w'
      in (e' # es', w''))"

lemma run_entries_table:
  assumes "executors s = pre @ es" and "\<forall>e \<in> set es. token e \<noteq> 0 \<longrightarrow> callback e \<noteq> None"
  shows "run_entries (delay_only f) now [length pre..<length pre + length es] s =
    Some (s\<lparr>executors := pre @ fst (run_table f now es (outside s)), outside := snd (run_table f now es (outside s))\<rparr>)"
  using assms
proof (induction es arbitrary: pre s)
  case (Cons e es)
  define r where "r = (if due now e then (case f (the (callback e)) (trigger_time e) (cb_arg e) (outside s) of (d, w1) \<Rightarrow> (after_callback d e, w1))
                      else (e, outside s))"
  let ?s1 = "s\<lparr>executors := pre @ fst r # es, outside := snd r\<rparr>"
  have "\<exists>cb. callback e = Some cb" if "due now e" using that Cons.prems(2) by (auto simp: due_def)
  then have "run_entry (delay_only f) now (length pre) s = Some ?s1"
    using Cons.prems(1) by (auto simp: run_entry_def delay_only_def r_def Let_def split: prod.splits)
  moreover have "run_entries (delay_only f) now [length (pre @ [fst r])..<length (pre @ [fst r]) + length es] ?s1 =
      Some (?s1\<lparr>executors := (pre @ [fst r]) @ fst (run_table f now es (outside ?s1)), outside := snd (run_table f now es (outside ?s1))\<rparr>)"
    by (rule Cons.IH) (use Cons.prems in auto)
  moreover have "[length pre..<length pre + length (e # es)] = length pre # [Suc (length pre)..<Suc (length pre) + length es]"
    by (simp add: upt_conv_Cons del: upt_Suc)
  moreover have "run_table f now (e # es) (outside s) =
      (fst r # fst (run_table f now es (snd r)), snd (run_table f now es (snd r)))"
    by (simp add: r_def [symmetric] Let_def split: prod.splits)
  ultimately show ?case by (simp del: upt_Suc run_table.simps(2))
qed simp

text \<open>When callbacks leave the table alone the task calls exactly the due executors in table
  order, advances the deadline of the repeating ones by their delay from the old deadline, frees
  the others and leaves the rest of the table as it was.\<close>

theorem deferred_task_runs_due:
  assumes "tokens_ok s" and "sint (timer_diff now (last_execution_time s)) > 0"
  shows "deferred_exec_advanced_task (delay_only f) now s =
    Some (s\<lparr>last_execution_time := now, executors := fst (run_table f now (executors s) (outside s)),
            outside := snd (run_table f now (executors s) (outside s))\<rparr>)"
  using run_entries_table [of "s\<lparr>last_execution_time := now\<rparr>" "[]" "executors s" f now] assms
  by (simp add: deferred_exec_advanced_task_def tokens_ok_def)

lemma deferred_task_runs_due_witness:
  "deferred_exec_advanced_task (delay_only (\<lambda>_ _ _ n. (0, Suc n))) 10 two_executors =
   Some \<lparr>current_token = 2, executors = [free_executor, free_executor], last_execution_time = 10, outside = Suc 0\<rparr>"
proof -
  have "sint (timer_diff 10 (last_execution_time two_executors)) > 0" by (simp add: two_executors_def timer_diff_def)
  from deferred_task_runs_due [OF two_executors_ok this, of "\<lambda>_ _ _ n. (0, Suc n)"] show ?thesis
    by (simp add: two_executors_def free_executor_def due_def after_callback_def timer_diff_def)
qed

end
