(* ===== verification/Profile.thy ===== *)
theory Profile
  imports Triggers Socd Packed
begin

text \<open>
  The profiles of the Hall-effect keyboards (\<open>analog_matrix/profile.c\<close>, \<open>analog_matrix_type.h\<close>,
  \<open>analog_matrix_eeconfig.h\<close>): the packed structures with their bit fields, the setters the raw HID
  commands call, the defaults, and the byte image that is kept in the emulated EEPROM.
\<close>

section \<open>Structures\<close>

record analog_key_config =
  kc_mode :: "2 word"
  kc_act_pt :: "6 word"
  kc_rpd_trig_sen :: "6 word"
  kc_rpd_trig_sen_deact :: "6 word"
  kc_adv_mode :: "4 word"
  kc_adv_data :: u8

record okmc_travel =
  shallow_act :: "6 word"
  shallow_deact :: "6 word"
  deep_act :: "6 word"
  deep_deact :: "6 word"

record okmc_act =
  on_shallow_act :: "4 word"
  on_shallow_deact :: "4 word"
  on_deep_act :: "4 word"
  on_deep_deact :: "4 word"

record okmc_config =
  okmc_travel :: okmc_travel
  okmc_keycode :: "u16 list"
  okmc_acts :: "okmc_act list"

record profile =
  global :: analog_key_config
  key_config :: "analog_key_config list list"
  okmc :: "okmc_config list"
  socd :: "socd_config list"
  name :: "u8 list"
  crc16 :: u16

text \<open>The board: the size of its matrix, the defaults of its keymap file.\<close>

record board =
  MATRIX_ROWS :: nat
  MATRIX_COLS :: nat
  profile_gobal_mode :: "u8 list"
  default_profiles :: "u16 list list list"
  PROF_KEY_COL_OFFSET :: nat

abbreviation PROFILE_COUNT :: nat where "PROFILE_COUNT \<equiv> 3"
abbreviation OKMC_COUNT :: nat where "OKMC_COUNT \<equiv> 20"
abbreviation SOCD_COUNT :: nat where "SOCD_COUNT \<equiv> 20"
abbreviation PROFILE_NAME_LEN :: nat where "PROFILE_NAME_LEN \<equiv> 30"
abbreviation GC_MAX :: u8 where "GC_MAX \<equiv> 12"
abbreviation GC_BUTTON_MAX :: u8 where "GC_BUTTON_MAX \<equiv> 45"
abbreviation SOCD_PRI_MAX :: u8 where "SOCD_PRI_MAX \<equiv> 7"

abbreviation DEFAULT_ACTUATION_POINT :: "6 word" where "DEFAULT_ACTUATION_POINT \<equiv> 20"
abbreviation DEFAULT_RAPID_TRIGGER_SENSITIVITY :: "6 word" where "DEFAULT_RAPID_TRIGGER_SENSITIVITY \<equiv> 4"

section \<open>Byte images\<close>

definition key_config_word :: "analog_key_config \<Rightarrow> u32" where
  "key_config_word c =
     ucast (kc_mode c) OR push_bit 2 (ucast (kc_act_pt c)) OR push_bit 8 (ucast (kc_rpd_trig_sen c)) OR
     push_bit 14 (ucast (kc_rpd_trig_sen_deact c)) OR push_bit 20 (ucast (kc_adv_mode c)) OR
     push_bit 24 (ucast (kc_adv_data c))"

definition key_config_of_word :: "u32 \<Rightarrow> analog_key_config" where
  "key_config_of_word w =
     \<lparr>kc_mode = ucast w, kc_act_pt = ucast (drop_bit 2 w), kc_rpd_trig_sen = ucast (drop_bit 8 w),
      kc_rpd_trig_sen_deact = ucast (drop_bit 14 w), kc_adv_mode = ucast (drop_bit 20 w),
      kc_adv_data = ucast (drop_bit 24 w)\<rparr>"

definition key_config_bytes :: "analog_key_config \<Rightarrow> u8 list" where
  "key_config_bytes c = le_bytes 4 (key_config_word c)"

definition key_config_of_bytes :: "u8 list \<Rightarrow> analog_key_config" where
  "key_config_of_bytes bs = key_config_of_word (of_le_bytes bs)"

definition okmc_travel_word :: "okmc_travel \<Rightarrow> 24 word" where
  "okmc_travel_word t =
     ucast (shallow_act t) OR push_bit 6 (ucast (shallow_deact t)) OR push_bit 12 (ucast (deep_act t)) OR
     push_bit 18 (ucast (deep_deact t))"

definition okmc_travel_of_word :: "24 word \<Rightarrow> okmc_travel" where
  "okmc_travel_of_word w =
     \<lparr>shallow_act = ucast w, shallow_deact = ucast (drop_bit 6 w), deep_act = ucast (drop_bit 12 w),
      deep_deact = ucast (drop_bit 18 w)\<rparr>"

definition okmc_act_word :: "okmc_act \<Rightarrow> u16" where
  "okmc_act_word a =
     ucast (on_shallow_act a) OR push_bit 4 (ucast (on_shallow_deact a)) OR push_bit 8 (ucast (on_deep_act a)) OR
     push_bit 12 (ucast (on_deep_deact a))"

definition okmc_act_of_word :: "u16 \<Rightarrow> okmc_act" where
  "okmc_act_of_word w =
     \<lparr>on_shallow_act = ucast w, on_shallow_deact = ucast (drop_bit 4 w), on_deep_act = ucast (drop_bit 8 w),
      on_deep_deact = ucast (drop_bit 12 w)\<rparr>"

definition okmc_bytes :: "okmc_config \<Rightarrow> u8 list" where
  "okmc_bytes k = le_bytes 3 (okmc_travel_word (okmc_travel k)) @
     concat (map (le_bytes 2) (okmc_keycode k)) @ concat (map (le_bytes 2 \<circ> okmc_act_word) (okmc_acts k))"

definition okmc_of_bytes :: "u8 list \<Rightarrow> okmc_config" where
  "okmc_of_bytes bs =
     \<lparr>okmc_travel = okmc_travel_of_word (of_le_bytes (take 3 bs)),
      okmc_keycode = map of_le_bytes (cut 2 4 (drop 3 bs)),
      okmc_acts = map (okmc_act_of_word \<circ> of_le_bytes) (cut 2 4 (drop 11 bs))\<rparr>"

definition socd_bytes :: "socd_config \<Rightarrow> u8 list" where
  "socd_bytes p = [ucast (key_1_row p) OR push_bit 3 (ucast (key_1_col p)),
     ucast (key_2_row p) OR push_bit 3 (ucast (key_2_col p)), socd_type p]"

definition socd_of_bytes :: "u8 list \<Rightarrow> socd_config" where
  "socd_of_bytes bs =
     \<lparr>key_1_row = ucast (bs ! 0), key_1_col = ucast (drop_bit 3 (bs ! 0)),
      key_2_row = ucast (bs ! 1), key_2_col = ucast (drop_bit 3 (bs ! 1)), socd_type = bs ! 2\<rparr>"

definition PROFILE_SIZE :: "board \<Rightarrow> nat" where
  "PROFILE_SIZE b = 2 + 4 * (MATRIX_ROWS b * MATRIX_COLS b + 1) + PROFILE_NAME_LEN + 19 * OKMC_COUNT + 3 * SOCD_COUNT"

definition profile_bytes :: "profile \<Rightarrow> u8 list" where
  "profile_bytes p =
     key_config_bytes (global p) @ concat (map key_config_bytes (concat (key_config p))) @
     concat (map okmc_bytes (okmc p)) @ concat (map socd_bytes (socd p)) @ name p @ le_bytes 2 (crc16 p)"

definition profile_of_bytes :: "board \<Rightarrow> u8 list \<Rightarrow> profile" where
  "profile_of_bytes b bs =
     (let n = MATRIX_ROWS b * MATRIX_COLS b;
          b1 = drop 4 bs; b2 = drop (4 * n) b1; b3 = drop (19 * OKMC_COUNT) b2; b4 = drop (3 * SOCD_COUNT) b3
      in \<lparr>global = key_config_of_bytes (take 4 bs),
          key_config = cut (MATRIX_COLS b) (MATRIX_ROWS b) (map key_config_of_bytes (cut 4 n b1)),
          okmc = map okmc_of_bytes (cut 19 OKMC_COUNT b2),
          socd = map socd_of_bytes (cut 3 SOCD_COUNT b3),
          name = take PROFILE_NAME_LEN b4,
          crc16 = of_le_bytes (take 2 (drop PROFILE_NAME_LEN b4))\<rparr>)"

text \<open>The shape of a profile of the board.\<close>

definition profile_shape :: "board \<Rightarrow> profile \<Rightarrow> bool" where
  "profile_shape b p \<longleftrightarrow>
     length (key_config p) = MATRIX_ROWS b \<and> (\<forall>row \<in> set (key_config p). length row = MATRIX_COLS b) \<and>
     length (okmc p) = OKMC_COUNT \<and> (\<forall>o' \<in> set (okmc p). length (okmc_keycode o') = 4 \<and> length (okmc_acts o') = 4) \<and>
     length (socd p) = SOCD_COUNT \<and> length (name p) = PROFILE_NAME_LEN"

lemma key_config_word_inverse [simp]: "key_config_of_word (key_config_word c) = c"
proof -
  have "ucast (key_config_word c) = kc_mode c" "ucast (drop_bit 2 (key_config_word c)) = kc_act_pt c"
    "ucast (drop_bit 8 (key_config_word c)) = kc_rpd_trig_sen c"
    "ucast (drop_bit 14 (key_config_word c)) = kc_rpd_trig_sen_deact c"
    "ucast (drop_bit 20 (key_config_word c)) = kc_adv_mode c" "ucast (drop_bit 24 (key_config_word c)) = kc_adv_data c"
    by (rule bit_word_eqI; auto simp: key_config_word_def bit_simps dest: bit_imp_le_length)+
  then show ?thesis by (simp add: key_config_of_word_def)
qed

lemma okmc_travel_word_inverse [simp]: "okmc_travel_of_word (okmc_travel_word t) = t"
proof -
  have "ucast (okmc_travel_word t) = shallow_act t" "ucast (drop_bit 6 (okmc_travel_word t)) = shallow_deact t"
    "ucast (drop_bit 12 (okmc_travel_word t)) = deep_act t" "ucast (drop_bit 18 (okmc_travel_word t)) = deep_deact t"
    by (rule bit_word_eqI; auto simp: okmc_travel_word_def bit_simps dest: bit_imp_le_length)+
  then show ?thesis by (simp add: okmc_travel_of_word_def)
qed

lemma okmc_act_word_inverse [simp]: "okmc_act_of_word (okmc_act_word a) = a"
proof -
  have "ucast (okmc_act_word a) = on_shallow_act a" "ucast (drop_bit 4 (okmc_act_word a)) = on_shallow_deact a"
    "ucast (drop_bit 8 (okmc_act_word a)) = on_deep_act a" "ucast (drop_bit 12 (okmc_act_word a)) = on_deep_deact a"
    by (rule bit_word_eqI; auto simp: okmc_act_word_def bit_simps dest: bit_imp_le_length)+
  then show ?thesis by (simp add: okmc_act_of_word_def)
qed

lemma socd_bytes_inverse [simp]: "socd_of_bytes (socd_bytes p) = p"
proof -
  have "ucast (ucast r OR push_bit 3 (ucast c) :: u8) = r" "ucast (drop_bit 3 (ucast r OR push_bit 3 (ucast c) :: u8)) = c"
    for r :: "3 word" and c :: "5 word"
    by (rule bit_word_eqI; auto simp: bit_simps dest: bit_imp_le_length)+
  then show ?thesis by (simp add: socd_bytes_def socd_of_bytes_def del: drop_bit_or)
qed

lemma length_images [simp]:
  "length (key_config_bytes c) = 4" "length (socd_bytes p) = 3"
  by (simp_all add: key_config_bytes_def socd_bytes_def)

lemma length_okmc_bytes: "length (okmc_keycode k) = 4 \<Longrightarrow> length (okmc_acts k) = 4 \<Longrightarrow> length (okmc_bytes k) = 19"
  by (simp add: okmc_bytes_def length_concat_const [where n = 2] del: length_concat)

lemma key_config_image [simp]: "key_config_of_bytes (key_config_bytes c) = c"
  by (simp add: key_config_of_bytes_def key_config_bytes_def of_le_bytes_le_bytes)

lemma okmc_image:
  assumes "length (okmc_keycode k) = 4" and "length (okmc_acts k) = 4"
  shows "okmc_of_bytes (okmc_bytes k) = k"
proof -
  let ?kb = "concat (map (le_bytes 2) (okmc_keycode k))" and ?ab = "concat (map (le_bytes 2 \<circ> okmc_act_word) (okmc_acts k))"
  have kb: "length ?kb = 8" using assms(1) by (subst length_concat_const [where n = 2]) auto
  have d3: "drop 3 (okmc_bytes k) = ?kb @ ?ab" by (simp add: okmc_bytes_def)
  have d11: "drop 11 (okmc_bytes k) = ?ab @ []" using kb by (simp add: okmc_bytes_def)
  have ks: "cut 2 4 (?kb @ ?ab) = map (le_bytes 2) (okmc_keycode k)"
    using cut_concat [of "map (le_bytes 2) (okmc_keycode k)" 2 ?ab] assms(1) by simp
  have as: "cut 2 4 (?ab @ []) = map (le_bytes 2 \<circ> okmc_act_word) (okmc_acts k)"
    using cut_concat [of "map (le_bytes 2 \<circ> okmc_act_word) (okmc_acts k)" 2 "[]"] assms(2) by simp
  have t: "okmc_travel_of_word (of_le_bytes (take 3 (okmc_bytes k))) = okmc_travel k"
    by (simp add: okmc_bytes_def of_le_bytes_le_bytes)
  show ?thesis
    unfolding okmc_of_bytes_def d3 d11 ks as t
    by (simp add: comp_def of_le_bytes_le_bytes map_idI)
qed

lemma profile_image:
  assumes "profile_shape b p"
  shows "profile_of_bytes b (profile_bytes p @ rest) = p" and "length (profile_bytes p) = PROFILE_SIZE b"
proof -
  let ?n = "MATRIX_ROWS b * MATRIX_COLS b"
  let ?G = "key_config_bytes (global p)" and ?K = "concat (map key_config_bytes (concat (key_config p)))"
  let ?O = "concat (map okmc_bytes (okmc p))" and ?S = "concat (map socd_bytes (socd p))"
  note sh = assms [unfolded profile_shape_def]
  have n: "length (concat (key_config p)) = ?n" 
    using length_concat_const [of "key_config p" "MATRIX_COLS b"] sh by (simp add: mult.commute del: length_concat)
  have K: "length ?K = 4 * ?n" using n by (subst length_concat_const [where n = 4]) auto
  have ok: "\<forall>x \<in> set (map okmc_bytes (okmc p)). length x = 19" using sh length_okmc_bytes by auto
  have O: "length ?O = 19 * OKMC_COUNT" using sh ok by (subst length_concat_const [where n = 19]) auto
  have S: "length ?S = 3 * SOCD_COUNT" using sh by (subst length_concat_const [where n = 3]) auto
  show "length (profile_bytes p) = PROFILE_SIZE b"
    using K O S sh by (simp add: profile_bytes_def PROFILE_SIZE_def)
  define b1 b2 b3 b4 where "b1 = ?K @ ?O @ ?S @ name p @ le_bytes 2 (crc16 p) @ rest"
    and "b2 = ?O @ ?S @ name p @ le_bytes 2 (crc16 p) @ rest" and "b3 = ?S @ name p @ le_bytes 2 (crc16 p) @ rest"
    and "b4 = name p @ le_bytes 2 (crc16 p) @ rest"
  have im: "profile_bytes p @ rest = ?G @ b1" by (simp add: profile_bytes_def b1_def)
  have d: "drop 4 (?G @ b1) = b1" "drop (4 * ?n) b1 = b2" "drop (19 * OKMC_COUNT) b2 = b3" "drop (3 * SOCD_COUNT) b3 = b4"
    using K O S by (simp_all add: b1_def b2_def b3_def b4_def)
  have "cut 4 ?n b1 = map key_config_bytes (concat (key_config p))"
    using cut_concat [of "map key_config_bytes (concat (key_config p))" 4 b2] n by (simp add: b1_def b2_def)
  then have k: "cut (MATRIX_COLS b) (MATRIX_ROWS b) (map key_config_of_bytes (cut 4 ?n b1)) = key_config p"
    using cut_concat [of "key_config p" "MATRIX_COLS b" "[]"] sh by (simp add: comp_def)
  have "cut 19 OKMC_COUNT b2 = map okmc_bytes (okmc p)"
    using cut_concat [of "map okmc_bytes (okmc p)" 19 b3] ok sh by (simp add: b2_def b3_def)
  then have o': "map okmc_of_bytes (cut 19 OKMC_COUNT b2) = okmc p"
    using sh okmc_image by (simp add: map_idI)
  have "cut 3 SOCD_COUNT b3 = map socd_bytes (socd p)"
    using cut_concat [of "map socd_bytes (socd p)" 3 b4] sh by (simp add: b3_def b4_def)
  then have s': "map socd_of_bytes (cut 3 SOCD_COUNT b3) = socd p" by (simp add: comp_def)
  have nm: "take PROFILE_NAME_LEN b4 = name p" "of_le_bytes (take 2 (drop PROFILE_NAME_LEN b4)) = crc16 p"
    using sh by (simp_all add: b4_def of_le_bytes_le_bytes)
  show "profile_of_bytes b (profile_bytes p @ rest) = p"
    unfolding im profile_of_bytes_def Let_def d k o' s' nm by simp
qed

section \<open>State and the update of a key\<close>

text \<open>The statics of \<open>profile.c\<close>, the key matrix of \<open>analog_matrix.c\<close>, the analog region of the emulated
  EEPROM with the keyboard data version word in front of it, and \<open>okmc_matrix\<close>.  \<open>cur_prof\<close> always points to
  the profile of \<open>current_profile_index\<close>.\<close>

record 'row prof_state =
  profiles :: "profile list"
  current_profile_index :: u8
  prof_combo :: u8
  prof_ind_state :: u8
  pro_ind_timer :: u32
  analog_key_matrix :: "analog_key list list"
  okmc_matrix :: "'row list"
  analog_eeprom :: "u8 list"
  kb_data_version :: u32

abbreviation OFFSET_CALIBRATION :: nat where "OFFSET_CALIBRATION \<equiv> 0"
abbreviation OFFSET_CURRENT_PROFILE :: nat where "OFFSET_CURRENT_PROFILE \<equiv> 1"
abbreviation OFFSET_CALIBRATED_DATA_START :: nat where "OFFSET_CALIBRATED_DATA_START \<equiv> OFFSET_CURRENT_PROFILE"
abbreviation EECONFIG_KB_DATA_VERSION :: u32 where "EECONFIG_KB_DATA_VERSION \<equiv> 0x34340004"

definition OFFSET_PROFILES_START :: "board \<Rightarrow> nat" where
  "OFFSET_PROFILES_START b = OFFSET_CALIBRATED_DATA_START + MATRIX_ROWS b * MATRIX_COLS b * 3"

definition EECONFIG_SIZE_ANALOG_MATRIX :: "board \<Rightarrow> nat" where
  "EECONFIG_SIZE_ANALOG_MATRIX b = OFFSET_PROFILES_START b + PROFILE_SIZE b * PROFILE_COUNT + 4 * 2 + 1"

definition current_profile :: "'row prof_state \<Rightarrow> profile" where
  "current_profile s = profiles s ! unat (current_profile_index s)"

definition scaled :: "u8 \<Rightarrow> u8" where
  "scaled x = as_u8 (uint x * TRAVEL_SCALE)"

text \<open>The bytes of the key that depend on the basic configuration, then the advanced mode.  The fields
  \<open>rpd_trig_sen\<close>, \<open>okmc_idx\<close>, \<open>js_axis\<close> and \<open>hold\<close> are one byte.\<close>

definition update_basic :: "profile \<Rightarrow> analog_key_config \<Rightarrow> nat \<Rightarrow> nat \<Rightarrow> analog_key \<Rightarrow> analog_key" where
  "update_basic prof cfg r c k =
     (let mode = (if ucast (kc_mode cfg) = AKM_GLOBAL then ucast (kc_mode (global prof)) else ucast (kc_mode cfg)) :: u8;
          mode = (if kc_adv_mode cfg \<noteq> 0 then ucast (kc_adv_mode cfg) else mode);
          actn = (if kc_act_pt cfg = 0 then ucast (kc_act_pt (global prof)) else ucast (kc_act_pt cfg)) :: u8;
          deactn = (if uint actn - 3 > 0 then as_u8 (uint actn - 3) else 0);
          sen = (if kc_rpd_trig_sen cfg = 0 then ucast (kc_rpd_trig_sen (global prof)) else ucast (kc_rpd_trig_sen cfg)) :: u8;
          rls = (if kc_rpd_trig_sen_deact cfg = 0
                 then (if kc_rpd_trig_sen_deact (global prof) = 0 then ucast (kc_rpd_trig_sen (global prof))
                       else ucast (kc_rpd_trig_sen_deact (global prof)))
                 else ucast (kc_rpd_trig_sen_deact cfg)) :: u8
      in k\<lparr>ak_r := of_nat r, ak_c := of_nat c, ak_mode := mode,
           ak_regular := \<lparr>actn_pt = scaled actn, deactn_pt = scaled deactn\<rparr>,
           ak_data := scaled sen, ak_rpd_trig_sen_rls := scaled rls\<rparr>)"

definition update_advanced :: "analog_key_config \<Rightarrow> analog_key \<Rightarrow> analog_key_config \<times> analog_key" where
  "update_advanced cfg k =
     (let adv = ucast (kc_adv_mode cfg) :: u8; d = kc_adv_data cfg in
      if adv = AKM_DKS \<and> d < of_nat OKMC_COUNT then (cfg, k\<lparr>ak_data := d\<rparr>)
      else if adv = AKM_GAMEPAD \<and> d < GC_BUTTON_MAX \<and> d \<noteq> GC_MAX then (cfg, k\<lparr>ak_data := d\<rparr>)
      else if adv = AKM_TOGGLE then (cfg, k\<lparr>ak_data := 0\<rparr>)
      else (cfg\<lparr>kc_adv_mode := 0\<rparr>, k))"

definition update_key :: "profile \<Rightarrow> nat \<Rightarrow> nat \<Rightarrow> analog_key \<Rightarrow> analog_key_config \<times> analog_key" where
  "update_key prof r c k =
     (let cfg = key_config prof ! r ! c in update_advanced cfg (update_basic prof cfg r c k))"

definition set_cell :: "'a list list \<Rightarrow> nat \<Rightarrow> nat \<Rightarrow> 'a \<Rightarrow> 'a list list" where
  "set_cell m r c x = m[r := (m ! r)[c := x]]"

definition with_config :: "profile \<Rightarrow> nat \<Rightarrow> nat \<Rightarrow> (analog_key_config \<Rightarrow> analog_key_config) \<Rightarrow> profile" where
  "with_config p r c f = p\<lparr>key_config := set_cell (key_config p) r c (f (key_config p ! r ! c))\<rparr>"

definition update_key_config :: "nat \<Rightarrow> nat \<Rightarrow> 'row prof_state \<Rightarrow> 'row prof_state" where
  "update_key_config r c s =
     (case update_key (current_profile s) r c (analog_key_matrix s ! r ! c) of (cfg, k) \<Rightarrow>
        s\<lparr>profiles := (profiles s)[unat (current_profile_index s) := with_config (current_profile s) r c (\<lambda>_. cfg)],
          analog_key_matrix := set_cell (analog_key_matrix s) r c k\<rparr>)"

text \<open>The two nested loops over the keys.\<close>

definition for_keys :: "board \<Rightarrow> (nat \<Rightarrow> nat \<Rightarrow> 's \<Rightarrow> 's) \<Rightarrow> 's \<Rightarrow> 's" where
  "for_keys b f s = fold (\<lambda>r s. fold (\<lambda>c s. f r c s) [0..<MATRIX_COLS b] s) [0..<MATRIX_ROWS b] s"

definition update_travel_configs :: "board \<Rightarrow> 'row prof_state \<Rightarrow> 'row prof_state" where
  "update_travel_configs b s = for_keys b update_key_config s"

definition analog_matrix_clear :: "'row prof_state \<Rightarrow> 'row prof_state" where
  "analog_matrix_clear s = s\<lparr>analog_key_matrix := map (map (\<lambda>_. zero_key)) (analog_key_matrix s)\<rparr>"

definition analog_matrix_eeprom_update :: "u8 list \<Rightarrow> nat \<Rightarrow> 'row prof_state \<Rightarrow> 'row prof_state" where
  "analog_matrix_eeprom_update buf addr s = s\<lparr>analog_eeprom := splice (analog_eeprom s) addr buf\<rparr>"

section \<open>Selecting, saving, resetting\<close>

text \<open>The LED calls of the indication are left out; \<open>now\<close> is \<open>timer_read32()\<close>.\<close>

definition profile_select :: "board \<Rightarrow> u32 \<Rightarrow> u8 \<Rightarrow> bool \<Rightarrow> 'r::len word prof_state \<Rightarrow> bool \<times> 'r word prof_state" where
  "profile_select b now prof_idx indication s =
     (if unat prof_idx \<ge> PROFILE_COUNT then (False, s)
      else
        let s1 = (if prof_idx \<noteq> current_profile_index s then
                    let s1 = update_travel_configs b (analog_matrix_clear (s\<lparr>current_profile_index := prof_idx\<rparr>));
                        s2 = analog_matrix_eeprom_update [prof_idx] OFFSET_CURRENT_PROFILE (s1\<lparr>kb_data_version := EECONFIG_KB_DATA_VERSION\<rparr>)
                    in s2\<lparr>okmc_matrix := map (\<lambda>_. 0) (okmc_matrix s2)\<rparr>
                  else s)
        in (True, if indication then s1\<lparr>pro_ind_timer := now, prof_ind_state := 0x86\<rparr> else s1))"

definition profile_save :: "board \<Rightarrow> u8 \<Rightarrow> 'row prof_state \<Rightarrow> bool \<times> 'row prof_state" where
  "profile_save b prof_index s =
     (if unat prof_index \<ge> PROFILE_COUNT then (False, s)
      else let s1 = (if kb_data_version s \<noteq> EECONFIG_KB_DATA_VERSION
                     then s\<lparr>kb_data_version := EECONFIG_KB_DATA_VERSION\<rparr> else s)
           in (True, analog_matrix_eeprom_update (profile_bytes (profiles s1 ! unat prof_index))
                       (OFFSET_PROFILES_START b + unat prof_index * PROFILE_SIZE b) s1))"

definition zero_config :: analog_key_config where
  "zero_config = \<lparr>kc_mode = 0, kc_act_pt = 0, kc_rpd_trig_sen = 0, kc_rpd_trig_sen_deact = 0, kc_adv_mode = 0, kc_adv_data = 0\<rparr>"

definition zero_okmc :: okmc_config where
  "zero_okmc = \<lparr>okmc_travel = \<lparr>shallow_act = 0, shallow_deact = 0, deep_act = 0, deep_deact = 0\<rparr>,
     okmc_keycode = replicate 4 0,
     okmc_acts = replicate 4 \<lparr>on_shallow_act = 0, on_shallow_deact = 0, on_deep_act = 0, on_deep_deact = 0\<rparr>\<rparr>"

definition zero_socd :: socd_config where
  "zero_socd = \<lparr>key_1_row = 0, key_1_col = 0, key_2_row = 0, key_2_col = 0, socd_type = 0\<rparr>"

text \<open>A default of the keymap file: basic mode, advanced mode, gamepad button.\<close>

definition default_config :: "u16 \<Rightarrow> analog_key_config" where
  "default_config d =
     (let cfg = zero_config\<lparr>kc_mode := ucast (d AND 3), kc_adv_mode := ucast (drop_bit 2 d AND 7)\<rparr>
      in if ucast (kc_adv_mode cfg) = AKM_GAMEPAD then cfg\<lparr>kc_adv_data := ucast (drop_bit 5 d)\<rparr> else cfg)"

definition default_profile :: "board \<Rightarrow> nat \<Rightarrow> profile" where
  "default_profile b i =
     \<lparr>global = zero_config\<lparr>kc_mode := ucast (profile_gobal_mode b ! i), kc_act_pt := DEFAULT_ACTUATION_POINT,
                kc_rpd_trig_sen := DEFAULT_RAPID_TRIGGER_SENSITIVITY,
                kc_rpd_trig_sen_deact := DEFAULT_RAPID_TRIGGER_SENSITIVITY\<rparr>,
      key_config = map (\<lambda>r. map (\<lambda>c. default_config (default_profiles b ! i ! r ! c)) [0..<MATRIX_COLS b]) [0..<MATRIX_ROWS b],
      okmc = replicate OKMC_COUNT zero_okmc, socd = replicate SOCD_COUNT zero_socd,
      name = replicate PROFILE_NAME_LEN 0, crc16 = 0\<rparr>"

definition profile_reset :: "board \<Rightarrow> u8 \<Rightarrow> 'row prof_state \<Rightarrow> bool \<times> 'row prof_state" where
  "profile_reset b prof_index s =
     (if unat prof_index \<ge> PROFILE_COUNT then (False, s)
      else (True, snd (profile_save b prof_index
              (s\<lparr>profiles := (profiles s)[unat prof_index := default_profile b (unat prof_index)]\<rparr>))))"

text \<open>The repairs of \<open>profile_init\<close>, in its order; the last one tests \<open>rpd_trig_sen\<close> again.\<close>

definition repair_global :: "u8 \<Rightarrow> analog_key_config \<Rightarrow> analog_key_config" where
  "repair_global gmode g =
     (let g = (if kc_mode g = 0 then g\<lparr>kc_mode := ucast gmode\<rparr> else g);
          g = (if kc_act_pt g = 0 \<or> kc_act_pt g > 40 then g\<lparr>kc_act_pt := DEFAULT_ACTUATION_POINT\<rparr> else g);
          g = (if kc_rpd_trig_sen g = 0 \<or> kc_rpd_trig_sen g > 39
               then g\<lparr>kc_rpd_trig_sen := DEFAULT_RAPID_TRIGGER_SENSITIVITY\<rparr> else g)
      in if kc_rpd_trig_sen_deact g = 0 \<or> kc_rpd_trig_sen g > 39
         then g\<lparr>kc_rpd_trig_sen_deact := kc_rpd_trig_sen g\<rparr> else g)"

definition load_profile :: "board \<Rightarrow> u8 list \<Rightarrow> nat \<Rightarrow> profile" where
  "load_profile b buf i =
     (let p = profile_of_bytes b (drop (OFFSET_PROFILES_START b + i * PROFILE_SIZE b) buf)
      in p\<lparr>global := repair_global (profile_gobal_mode b ! i) (global p)\<rparr>)"

definition profile_init :: "board \<Rightarrow> bool \<Rightarrow> 'row prof_state \<Rightarrow> 'row prof_state" where
  "profile_init b reset s =
     (if reset then fold (\<lambda>i s. snd (profile_reset b i s)) [0, 1, 2] s
      else let buf = take (EECONFIG_SIZE_ANALOG_MATRIX b) (analog_eeprom s);
               idx = buf ! OFFSET_CURRENT_PROFILE;
               idx = (if unat idx \<ge> PROFILE_COUNT then 0 else idx)
           in s\<lparr>current_profile_index := idx, profiles := map (load_profile b buf) [0..<PROFILE_COUNT]\<rparr>)"

section \<open>Setters\<close>

definition set_basic :: "u8 \<Rightarrow> u8 \<Rightarrow> u8 \<Rightarrow> u8 \<Rightarrow> analog_key_config \<Rightarrow> analog_key_config" where
  "set_basic mode act sens rls c =
     c\<lparr>kc_mode := ucast mode, kc_act_pt := ucast act, kc_rpd_trig_sen := ucast sens, kc_rpd_trig_sen_deact := ucast rls\<rparr>"

definition with_profile :: "u8 \<Rightarrow> (profile \<Rightarrow> profile) \<Rightarrow> 'row prof_state \<Rightarrow> 'row prof_state" where
  "with_profile i f s = s\<lparr>profiles := (profiles s)[unat i := f (profiles s ! unat i)]\<rparr>"

definition profile_set_traval ::
  "board \<Rightarrow> u8 \<Rightarrow> u8 \<Rightarrow> u8 \<Rightarrow> u8 \<Rightarrow> u8 \<Rightarrow> bool \<Rightarrow> u32 list \<Rightarrow> 'row prof_state \<Rightarrow> bool \<times> 'row prof_state" where
  "profile_set_traval b prof_idx mode act sens rls glob row s =
     (if unat prof_idx \<ge> PROFILE_COUNT \<or> mode > AKM_RAPID \<or> act > 39 \<or> (glob \<and> mode = AKM_GLOBAL) then (False, s)
      else (True,
        if glob then with_profile prof_idx (\<lambda>p. p\<lparr>global := set_basic mode act sens rls (global p)\<rparr>) s
        else for_keys b (\<lambda>r c s.
               if row ! r AND col_mask c \<noteq> 0 then
                 let s1 = with_profile prof_idx (\<lambda>p. with_config p r c (set_basic mode act sens rls)) s
                 in if prof_idx = current_profile_index s1 then update_key_config r c s1 else s1
               else s) s))"

abbreviation ADV_MODE_CLEAR :: u8 where "ADV_MODE_CLEAR \<equiv> 0"
abbreviation ADV_MODE_OKMC :: u8 where "ADV_MODE_OKMC \<equiv> 1"
abbreviation ADV_MODE_GAME_CONTROLLER :: u8 where "ADV_MODE_GAME_CONTROLLER \<equiv> 2"
abbreviation ADV_MODE_TOGGLE :: u8 where "ADV_MODE_TOGGLE \<equiv> 3"

definition okmc_of_command :: "u8 list \<Rightarrow> okmc_config" where
  "okmc_of_command d =
     \<lparr>okmc_travel = \<lparr>shallow_act = ucast (d ! 5), shallow_deact = ucast (d ! 6), deep_act = ucast (d ! 7), deep_deact = ucast (d ! 8)\<rparr>,
      okmc_keycode = map of_le_bytes (cut 2 4 (drop 9 d)),
      okmc_acts = map (okmc_act_of_word \<circ> of_le_bytes) (cut 2 4 (drop 17 d))\<rparr>"

text \<open>The \<open>switch\<close> over the mode; \<open>None\<close> is \<open>return false\<close>.\<close>

definition set_adv :: "u8 list \<Rightarrow> profile \<Rightarrow> profile option" where
  "set_adv d p =
     (let mode = d ! 1; row = unat (d ! 2); col = unat (d ! 3); index = d ! 4;
          adv = (\<lambda>m x p. with_config p row col (\<lambda>c. c\<lparr>kc_adv_mode := m, kc_adv_data := x\<rparr>))
      in if mode = ADV_MODE_CLEAR then Some (adv 0 0 p)
         else if mode = ADV_MODE_OKMC then
           (if unat index \<ge> OKMC_COUNT then None
            else Some (adv (ucast AKM_DKS) index (p\<lparr>okmc := (okmc p)[unat index := okmc_of_command d]\<rparr>)))
         else if mode = ADV_MODE_GAME_CONTROLLER then
           (if index \<ge> GC_BUTTON_MAX then None else Some (adv (ucast AKM_GAMEPAD) index p))
         else if mode = ADV_MODE_TOGGLE then Some (adv (ucast AKM_TOGGLE) 0 p)
         else None)"

definition profile_set_adv_mode :: "board \<Rightarrow> u8 list \<Rightarrow> 'row prof_state \<Rightarrow> bool \<times> 'row prof_state" where
  "profile_set_adv_mode b d s =
     (let prof_idx = d ! 0; row = unat (d ! 2); col = unat (d ! 3) in
      if unat prof_idx \<ge> PROFILE_COUNT then (False, s)
      else if row \<ge> MATRIX_ROWS b \<or> col \<ge> MATRIX_COLS b then (False, s)
      else (case set_adv d (profiles s ! unat prof_idx) of
              None \<Rightarrow> (False, s)
            | Some p \<Rightarrow>
                let s1 = s\<lparr>profiles := (profiles s)[unat prof_idx := p]\<rparr>
                in (True, if prof_idx = current_profile_index s1 then update_key_config row col s1 else s1)))"

definition profile_set_socd :: "board \<Rightarrow> u8 list \<Rightarrow> 'row prof_state \<Rightarrow> bool \<times> 'row prof_state" where
  "profile_set_socd b d s =
     (let prof_idx = d ! 0; row1 = d ! 1; col1 = d ! 2; row2 = d ! 3; col2 = d ! 4; index = unat (d ! 5); type = d ! 6 in
      if unat prof_idx \<ge> PROFILE_COUNT \<or> unat row1 \<ge> MATRIX_ROWS b \<or> unat col1 \<ge> MATRIX_COLS b \<or>
         unat row2 \<ge> MATRIX_ROWS b \<or> unat col2 \<ge> MATRIX_COLS b \<or> index \<ge> SOCD_COUNT \<or> type \<ge> SOCD_PRI_MAX then (False, s)
      else if type \<noteq> 0 \<and> row1 = row2 \<and> col1 = col2 then (False, s)
      else (True, with_profile prof_idx (\<lambda>p. p\<lparr>socd := (socd p)[index :=
              if type \<noteq> 0 then \<lparr>key_1_row = ucast row1, key_1_col = ucast col1, key_2_row = ucast row2, key_2_col = ucast col2,
                                socd_type = type\<rparr>
              else zero_socd]\<rparr>) s))"

definition profile_set_name :: "u8 \<Rightarrow> u8 \<Rightarrow> u8 list \<Rightarrow> 'row prof_state \<Rightarrow> bool \<times> 'row prof_state" where
  "profile_set_name prof_idx len nm s =
     (if unat prof_idx \<ge> PROFILE_COUNT \<or> len > 28 then (False, s)
      else (True, with_profile prof_idx
              (\<lambda>p. p\<lparr>name := splice (replicate PROFILE_NAME_LEN 0) 0 (take (unat len) nm)\<rparr>) s))"

text \<open>The bytes written to \<open>data\<close>: zeros for the size asked for, then the copy, whose size is computed in
  \<open>uint8_t\<close> when the request runs past the profile.\<close>

definition profile_get_raw_data :: "board \<Rightarrow> u8 \<Rightarrow> u16 \<Rightarrow> u8 \<Rightarrow> 'row prof_state \<Rightarrow> u8 list option" where
  "profile_get_raw_data b prof_idx offset sz s =
     (let end_pos = unat offset + unat sz in
      if unat prof_idx \<ge> PROFILE_COUNT \<or> end_pos > PROFILE_SIZE b * PROFILE_COUNT then None
      else let n = (if end_pos > PROFILE_SIZE b then unat (as_u8 (int (PROFILE_SIZE b) - int (unat offset))) else unat sz);
               memory = concat (map profile_bytes (profiles s));
               copied = take n (drop (unat prof_idx * PROFILE_SIZE b + unat offset) memory)
           in Some (copied @ drop (length copied) (replicate (unat sz) 0)))"

section \<open>Profile keys and indication\<close>

abbreviation KEY_PRESS_FN :: u8 where "KEY_PRESS_FN \<equiv> 1"
abbreviation KEY_PRESS_P :: u8 where "KEY_PRESS_P \<equiv> 2"
abbreviation KEY_PRESS_PROF_COMBO :: u8 where "KEY_PRESS_PROF_COMBO \<equiv> KEY_PRESS_FN OR KEY_PRESS_P"

definition PROF_TRIG_KEY_ROW :: "board \<Rightarrow> nat" where "PROF_TRIG_KEY_ROW b = (if MATRIX_ROWS b = 5 then 1 else 2)"
definition PROF_KEY_ROW :: "board \<Rightarrow> nat" where "PROF_KEY_ROW b = (if MATRIX_ROWS b = 5 then 3 else 4)"

definition KEY_MASK :: "'r::len matrix \<Rightarrow> nat \<Rightarrow> nat \<Rightarrow> bool" where
  "KEY_MASK virtual_matrix r c \<longleftrightarrow> virtual_matrix ! r AND col_mask c \<noteq> 0"

definition process_profile_select_combo ::
  "board \<Rightarrow> u32 \<Rightarrow> 'r::len matrix \<Rightarrow> 'r word prof_state \<Rightarrow> 'r word prof_state" where
  "process_profile_select_combo b now vm s =
     (if prof_combo s AND KEY_PRESS_FN \<noteq> 0 then
        let trig = KEY_MASK vm (PROF_TRIG_KEY_ROW b) (PROF_KEY_COL_OFFSET b + 10);
            s1 = (if prof_combo s AND KEY_PRESS_P = 0 \<and> trig then s\<lparr>prof_combo := prof_combo s OR KEY_PRESS_P\<rparr>
                  else if prof_combo s AND KEY_PRESS_P \<noteq> 0 \<and> \<not> trig then s\<lparr>prof_combo := prof_combo s AND NOT KEY_PRESS_P\<rparr>
                  else s)
        in if prof_combo s1 AND KEY_PRESS_PROF_COMBO = KEY_PRESS_PROF_COMBO then
             if KEY_MASK vm (PROF_KEY_ROW b) (PROF_KEY_COL_OFFSET b + 2) then snd (profile_select b now 0 True s1)
             else if KEY_MASK vm (PROF_KEY_ROW b) (PROF_KEY_COL_OFFSET b + 3) then snd (profile_select b now 1 True s1)
             else if KEY_MASK vm (PROF_KEY_ROW b) (PROF_KEY_COL_OFFSET b + 4) then snd (profile_select b now 2 True s1)
             else s1
           else s1
      else s)"

text \<open>\<open>PROF1\<close> to \<open>PROF3\<close> are consecutive custom keycodes from \<open>prof1\<close>; \<open>MO(n)\<close> is \<open>0x5220 + n\<close>.\<close>

definition process_record_profile ::
  "board \<Rightarrow> u16 \<Rightarrow> u32 \<Rightarrow> u16 \<Rightarrow> bool \<Rightarrow> 'r::len word prof_state \<Rightarrow> bool \<times> 'r word prof_state" where
  "process_record_profile b prof1 now keycode pressed s =
     (if keycode = prof1 \<or> keycode = prof1 + 1 \<or> keycode = prof1 + 2 then
        (False, if pressed then snd (profile_select b now (ucast (keycode - prof1)) True s) else s)
      else if 0x5220 \<le> keycode \<and> keycode \<le> 0x522F then
        (True, if pressed then s\<lparr>prof_combo := prof_combo s OR KEY_PRESS_FN\<rparr>
               else s\<lparr>prof_combo := prof_combo s AND NOT KEY_PRESS_FN\<rparr>)
      else (True, s))"

definition profile_indication_enable :: "u32 \<Rightarrow> 'row prof_state \<Rightarrow> 'row prof_state" where
  "profile_indication_enable now s = s\<lparr>pro_ind_timer := now, prof_ind_state := 1\<rparr>"

definition profile_indication_timer_check :: "u32 \<Rightarrow> 'row prof_state \<Rightarrow> 'row prof_state" where
  "profile_indication_timer_check now s =
     (if pro_ind_timer s \<noteq> 0 \<and> timer_elapsed32 now (pro_ind_timer s) > 500 then
        (if prof_ind_state s AND 0xF > 6 then s\<lparr>pro_ind_timer := 0, prof_ind_state := 0\<rparr>
         else s\<lparr>prof_ind_state := prof_ind_state s + 1, pro_ind_timer := now\<rparr>)
      else s)"

section \<open>Well-formed profiles\<close>

text \<open>References inside a profile stay in range: the OKMC slot of a key, the keys of an SOCD pair.\<close>

definition config_ok :: "analog_key_config \<Rightarrow> bool" where
  "config_ok c \<longleftrightarrow> (ucast (kc_adv_mode c) = AKM_DKS \<longrightarrow> unat (kc_adv_data c) < OKMC_COUNT)"

definition socd_ok :: "board \<Rightarrow> socd_config \<Rightarrow> bool" where
  "socd_ok b q \<longleftrightarrow> socd_type q < SOCD_PRI_MAX \<and> (socd_type q \<noteq> 0 \<longrightarrow>
     fst (key_1 q) < MATRIX_ROWS b \<and> snd (key_1 q) < MATRIX_COLS b \<and>
     fst (key_2 q) < MATRIX_ROWS b \<and> snd (key_2 q) < MATRIX_COLS b \<and> key_1 q \<noteq> key_2 q)"

definition profile_ok :: "board \<Rightarrow> profile \<Rightarrow> bool" where
  "profile_ok b p \<longleftrightarrow> profile_shape b p \<and> (\<forall>row \<in> set (key_config p). \<forall>c \<in> set row. config_ok c) \<and>
     (\<forall>q \<in> set (socd p). socd_ok b q)"

definition profiles_ok :: "board \<Rightarrow> 'row prof_state \<Rightarrow> bool" where
  "profiles_ok b s \<longleftrightarrow> length (profiles s) = PROFILE_COUNT \<and> (\<forall>p \<in> set (profiles s). profile_ok b p) \<and>
     unat (current_profile_index s) < PROFILE_COUNT"

definition board_ok :: "board \<Rightarrow> bool" where
  "board_ok b \<longleftrightarrow> 0 < MATRIX_ROWS b \<and> MATRIX_ROWS b \<le> 8 \<and> 0 < MATRIX_COLS b \<and> MATRIX_COLS b \<le> 32"

lemma for_keys_invariant:
  assumes "P s" and "\<And>r c s. r < MATRIX_ROWS b \<Longrightarrow> c < MATRIX_COLS b \<Longrightarrow> P s \<Longrightarrow> P (f r c s)"
  shows "P (for_keys b f s)"
proof -
  have inner: "P (fold (f r) cs s)" if "r < MATRIX_ROWS b" "set cs \<subseteq> {..<MATRIX_COLS b}" "P s" for r cs s
    using that by (induction cs arbitrary: s) (simp_all add: assms(2))
  have "P (fold (\<lambda>r s. fold (f r) [0..<MATRIX_COLS b] s) rs s)" if "set rs \<subseteq> {..<MATRIX_ROWS b}" "P s" for rs s
    using that
  proof (induction rs arbitrary: s)
    case (Cons r rs)
    then show ?case by (simp add: inner atLeast0LessThan)
  qed simp
  then show ?thesis using assms(1) by (simp add: for_keys_def atLeast0LessThan)
qed

lemma set_cell_cells:
  assumes "\<forall>row \<in> set m. length row = n \<and> (\<forall>x \<in> set row. Q x)" and "r < length m" and "Q x"
  shows "length (set_cell m r c x) = length m \<and> (\<forall>row \<in> set (set_cell m r c x). length row = n \<and> (\<forall>x \<in> set row. Q x))"
proof -
  have "m ! r \<in> set m" using assms(2) by simp
  then have "length ((m ! r)[c := x]) = n \<and> (\<forall>y \<in> set ((m ! r)[c := x]). Q y)"
    using assms(1,3) set_update_subset_insert [of "m ! r" c x] by auto
  then show ?thesis using assms(1) set_update_subset_insert [of m r "(m ! r)[c := x]"] by (auto simp: set_cell_def)
qed

lemma profile_ok_with_config:
  assumes "profile_ok b p" and "r < MATRIX_ROWS b" and "config_ok (f (key_config p ! r ! c))"
  shows "profile_ok b (with_config p r c f)"
  using assms set_cell_cells [of "key_config p" "MATRIX_COLS b" config_ok r "f (key_config p ! r ! c)" c]
  by (auto simp: profile_ok_def profile_shape_def with_config_def)

lemma config_ok_nth:
  "profile_ok b p \<Longrightarrow> r < MATRIX_ROWS b \<Longrightarrow> c < MATRIX_COLS b \<Longrightarrow> config_ok (key_config p ! r ! c)"
  unfolding profile_ok_def profile_shape_def by (metis nth_mem)

lemma config_ok_basic [simp]: "config_ok (set_basic m a se rl c) = config_ok c"
  by (simp add: config_ok_def set_basic_def)

lemma config_ok_update_advanced: "config_ok (fst (update_advanced cfg k))"
  by (auto simp: update_advanced_def config_ok_def Let_def word_less_nat_alt)

lemma profiles_ok_update:
  assumes "profiles_ok b s" and "profile_ok b p"
  shows "profiles_ok b (s\<lparr>profiles := (profiles s)[i := p]\<rparr>)"
  using assms set_update_subset_insert [of "profiles s" i p] by (auto simp: profiles_ok_def)

lemma profiles_ok_nth: "profiles_ok b s \<Longrightarrow> i < PROFILE_COUNT \<Longrightarrow> profile_ok b (profiles s ! i)"
  by (simp add: profiles_ok_def)

lemma profiles_ok_cong:
  "profiles s' = profiles s \<Longrightarrow> current_profile_index s' = current_profile_index s \<Longrightarrow> profiles_ok b s' = profiles_ok b s"
  by (simp add: profiles_ok_def)

lemma profiles_ok_update_key:
  assumes "profiles_ok b s" and "r < MATRIX_ROWS b"
  shows "profiles_ok b (update_key_config r c s)"
proof -
  obtain cfg k where u: "update_key (current_profile s) r c (analog_key_matrix s ! r ! c) = (cfg, k)" by fastforce
  have "config_ok cfg" using config_ok_update_advanced u by (metis fst_conv update_key_def)
  moreover have "profile_ok b (current_profile s)"
    using assms(1) profiles_ok_nth [OF assms(1)] by (simp add: current_profile_def profiles_ok_def)
  ultimately have "profile_ok b (with_config (current_profile s) r c (\<lambda>_. cfg))"
    using assms(2) by (intro profile_ok_with_config) auto
  from profiles_ok_update [OF assms(1) this, of "unat (current_profile_index s)"]
  show ?thesis by (simp add: update_key_config_def u profiles_ok_def)
qed

lemma profiles_ok_update_travel: "profiles_ok b s \<Longrightarrow> profiles_ok b (update_travel_configs b s)"
  unfolding update_travel_configs_def by (rule for_keys_invariant) (auto intro: profiles_ok_update_key)

lemma profile_ok_default:
  assumes "i < PROFILE_COUNT"
  shows "profile_ok b (default_profile b i)"
proof -
  have "config_ok (default_config d)" for d
    by (auto simp: default_config_def config_ok_def zero_config_def Let_def)
  moreover have "socd_ok b zero_socd" by (simp add: socd_ok_def zero_socd_def)
  ultimately show ?thesis
    by (auto simp: profile_ok_def profile_shape_def default_profile_def zero_okmc_def)
qed

lemma profiles_ok_save: "profiles_ok b (snd (profile_save b i s)) = profiles_ok b s"
  by (simp add: profile_save_def analog_matrix_eeprom_update_def profiles_ok_def)

lemma length_cut [simp]: "length (cut n k xs) = k"
  by (induction n k xs rule: cut.induct) simp_all

lemma profile_ok_set_adv:
  assumes "profile_ok b p" and "set_adv d p = Some p'" and "unat (d ! 2) < MATRIX_ROWS b"
  shows "profile_ok b p'"
proof -
  have adv: "profile_ok b (with_config q (unat (d ! 2)) (unat (d ! 3)) (\<lambda>c. c\<lparr>kc_adv_mode := m, kc_adv_data := x\<rparr>))"
    if "profile_ok b q" "ucast m = AKM_DKS \<longrightarrow> unat x < OKMC_COUNT" for q m x
    using that assms(3) by (intro profile_ok_with_config) (auto simp: config_ok_def)
  have okmc: "profile_ok b (p\<lparr>okmc := (okmc p)[unat (d ! 4) := okmc_of_command d]\<rparr>)"
    using assms(1) set_update_subset_insert [of "okmc p" "unat (d ! 4)" "okmc_of_command d"]
    by (auto simp: profile_ok_def profile_shape_def okmc_of_command_def)
  show ?thesis
    using assms(1,2) adv [OF assms(1)] adv [OF okmc]
    by (auto simp: set_adv_def Let_def split: if_splits)
qed

text \<open>One setter of the raw HID interface.\<close>

lemma ok_set_traval:
  assumes "profiles_ok b s"
  shows "profiles_ok b (snd (profile_set_traval b i m a se rl glob row s))"
proof (cases "unat i \<ge> PROFILE_COUNT")
  case False
  have glob: "profiles_ok b (with_profile i (\<lambda>p. p\<lparr>global := set_basic m a se rl (global p)\<rparr>) s)"
    unfolding with_profile_def using assms profiles_ok_nth [OF assms, of "unat i"] False
    by (intro profiles_ok_update) (auto simp: profile_ok_def profile_shape_def)
  have "profiles_ok b (for_keys b (\<lambda>r c s. if row ! r AND col_mask c \<noteq> 0 then
      let s1 = with_profile i (\<lambda>p. with_config p r c (set_basic m a se rl)) s
      in if i = current_profile_index s1 then update_key_config r c s1 else s1 else s) s)"
  proof (rule for_keys_invariant [where P = "profiles_ok b"], rule assms)
    fix r c and s :: "'a prof_state" assume rc: "r < MATRIX_ROWS b" "c < MATRIX_COLS b" and ok: "profiles_ok b s"
    have "profiles_ok b (with_profile i (\<lambda>p. with_config p r c (set_basic m a se rl)) s)"
      unfolding with_profile_def using profiles_ok_nth [OF ok, of "unat i"] False rc ok
      by (intro profiles_ok_update profile_ok_with_config) (auto intro: config_ok_nth)
    then show "profiles_ok b (if row ! r AND col_mask c \<noteq> 0 then
      let s1 = with_profile i (\<lambda>p. with_config p r c (set_basic m a se rl)) s
      in if i = current_profile_index s1 then update_key_config r c s1 else s1 else s)"
      using ok rc by (auto simp: Let_def intro: profiles_ok_update_key)
  qed
  then show ?thesis using glob assms by (simp add: profile_set_traval_def)
qed (use assms in \<open>simp add: profile_set_traval_def\<close>)

lemma ok_set_adv:
  assumes "profiles_ok b s"
  shows "profiles_ok b (snd (profile_set_adv_mode b d s))"
proof (cases "unat (d ! 0) \<ge> PROFILE_COUNT \<or> unat (d ! 2) \<ge> MATRIX_ROWS b \<or> unat (d ! 3) \<ge> MATRIX_COLS b
    \<or> set_adv d (profiles s ! unat (d ! 0)) = None")
  case True
  then show ?thesis using assms by (auto simp: profile_set_adv_mode_def Let_def split: option.splits)
next
  case False
  then obtain p where p: "set_adv d (profiles s ! unat (d ! 0)) = Some p" by auto
  have "profile_ok b p"
    using profile_ok_set_adv [OF profiles_ok_nth [OF assms, of "unat (d ! 0)"] p] False by simp
  then have "profiles_ok b (s\<lparr>profiles := (profiles s)[unat (d ! 0) := p]\<rparr>)" by (rule profiles_ok_update [OF assms])
  then show ?thesis using False p by (auto simp: profile_set_adv_mode_def Let_def intro: profiles_ok_update_key)
qed


lemma ok_set_socd:
  assumes "profiles_ok b s" and "board_ok b"
  shows "profiles_ok b (snd (profile_set_socd b d s))"
proof -
  define q where "q = (if d ! 6 \<noteq> 0 then \<lparr>key_1_row = ucast (d ! 1), key_1_col = ucast (d ! 2), key_2_row = ucast (d ! 3),
      key_2_col = ucast (d ! 4), socd_type = d ! 6\<rparr> else zero_socd)"
  define bad where "bad \<longleftrightarrow> unat (d ! 0) \<ge> PROFILE_COUNT \<or> unat (d ! 1) \<ge> MATRIX_ROWS b \<or> unat (d ! 2) \<ge> MATRIX_COLS b \<or>
         unat (d ! 3) \<ge> MATRIX_ROWS b \<or> unat (d ! 4) \<ge> MATRIX_COLS b \<or> unat (d ! 5) \<ge> SOCD_COUNT \<or> d ! 6 \<ge> SOCD_PRI_MAX
         \<or> (d ! 6 \<noteq> 0 \<and> d ! 1 = d ! 3 \<and> d ! 2 = d ! 4)"
  show ?thesis
  proof (cases bad)
    case True
    then show ?thesis using assms(1) by (auto simp: profile_set_socd_def Let_def bad_def)
  next
    case False
    then have "socd_ok b q"
      using assms(2)
      by (auto simp: q_def bad_def socd_ok_def zero_socd_def key_1_def key_2_def board_ok_def unat_ucast_small not_le word_unat_eq_iff)
    then have "profile_ok b ((profiles s ! unat (d ! 0))\<lparr>socd := (socd (profiles s ! unat (d ! 0)))[unat (d ! 5) := q]\<rparr>)"
      using profiles_ok_nth [OF assms(1), of "unat (d ! 0)"] False
        set_update_subset_insert [of "socd (profiles s ! unat (d ! 0))" "unat (d ! 5)" q]
      by (auto simp: profile_ok_def profile_shape_def bad_def)
    then have "profiles_ok b (with_profile (d ! 0) (\<lambda>p. p\<lparr>socd := (socd p)[unat (d ! 5) := q]\<rparr>) s)"
      unfolding with_profile_def by (rule profiles_ok_update [OF assms(1)])
    then show ?thesis using False by (auto simp: profile_set_socd_def Let_def bad_def q_def)
  qed
qed

lemma ok_set_name:
  assumes "profiles_ok b s"
  shows "profiles_ok b (snd (profile_set_name i len nm s))"
proof (cases "unat i \<ge> PROFILE_COUNT \<or> len > 28")
  case False
  then have "unat len \<le> 28" by (simp add: not_less word_le_nat_alt)
  then have "length (splice (replicate PROFILE_NAME_LEN (0 :: u8)) 0 (take (unat len) nm)) = PROFILE_NAME_LEN"
    by (intro trans [OF length_splice]) auto
  then have "profiles_ok b (with_profile i (\<lambda>p. p\<lparr>name := splice (replicate PROFILE_NAME_LEN 0) 0 (take (unat len) nm)\<rparr>) s)"
    unfolding with_profile_def using assms profiles_ok_nth [OF assms, of "unat i"] False
    by (intro profiles_ok_update) (auto simp: profile_ok_def profile_shape_def)
  then show ?thesis using False by (simp add: profile_set_name_def)
qed (use assms in \<open>simp add: profile_set_name_def\<close>)

lemma ok_reset:
  assumes "profiles_ok b s"
  shows "profiles_ok b (snd (profile_reset b i s))"
  using assms profile_ok_default [of "unat i" b] profiles_ok_update [OF assms, of "default_profile b (unat i)" "unat i"]
  by (cases "unat i \<ge> PROFILE_COUNT") (simp_all add: profile_reset_def profiles_ok_save)

lemma ok_select:
  fixes s :: "'r::len word prof_state"
  assumes "profiles_ok b s"
  shows "profiles_ok b (snd (profile_select b now i ind s))"
proof (cases "unat i \<ge> PROFILE_COUNT")
  case False
  have "profiles_ok b (analog_matrix_clear (s\<lparr>current_profile_index := i\<rparr>))"
    using assms False by (simp add: profiles_ok_def analog_matrix_clear_def)
  then have "profiles_ok b (update_travel_configs b (analog_matrix_clear (s\<lparr>current_profile_index := i\<rparr>)))"
    by (rule profiles_ok_update_travel)
  then show ?thesis using assms by (simp add: profile_select_def Let_def profiles_ok_def analog_matrix_eeprom_update_def)
qed (use assms in \<open>simp add: profile_select_def\<close>)

section \<open>Saving and loading\<close>

lemma cut_take: "sz * n \<le> m \<Longrightarrow> cut sz n (take m xs) = cut sz n xs"
proof (induction n arbitrary: m xs)
  case (Suc n)
  then have "sz \<le> m" "sz * n \<le> m - sz" by auto
  then show ?case using Suc.IH [of "m - sz" "drop sz xs"] by (simp add: min_absorb1 drop_take)
qed simp

text \<open>Decoding a profile reads \<open>PROFILE_SIZE\<close> bytes.\<close>

lemma profile_of_bytes_take: "profile_of_bytes b (take (PROFILE_SIZE b) bs) = profile_of_bytes b bs"
  by (simp add: profile_of_bytes_def PROFILE_SIZE_def Let_def drop_take cut_take min_absorb1 algebra_simps)

lemma load_profile_cong:
  assumes "take (PROFILE_SIZE b) (drop (OFFSET_PROFILES_START b + i * PROFILE_SIZE b) xs)
     = take (PROFILE_SIZE b) (drop (OFFSET_PROFILES_START b + i * PROFILE_SIZE b) ys)"
  shows "load_profile b xs i = load_profile b ys i"
  unfolding load_profile_def by (metis assms profile_of_bytes_take)

lemma profile_slot_in:
  assumes "i < PROFILE_COUNT"
  shows "OFFSET_PROFILES_START b + i * PROFILE_SIZE b + PROFILE_SIZE b \<le> EECONFIG_SIZE_ANALOG_MATRIX b"
proof -
  have "i * PROFILE_SIZE b + PROFILE_SIZE b \<le> PROFILE_SIZE b * PROFILE_COUNT"
    using assms mult_le_mono1 [of "Suc i" PROFILE_COUNT "PROFILE_SIZE b"] by (simp add: mult.commute)
  then show ?thesis by (simp only: EECONFIG_SIZE_ANALOG_MATRIX_def)
qed

lemma load_profile_image:
  assumes "i < PROFILE_COUNT" and "EECONFIG_SIZE_ANALOG_MATRIX b \<le> length ee"
  shows "load_profile b (take (EECONFIG_SIZE_ANALOG_MATRIX b) ee) i = load_profile b ee i"
  using profile_slot_in [OF assms(1), of b] by (intro load_profile_cong) (simp add: drop_take min_absorb1)

lemma slots_disjoint: "i \<noteq> j \<Longrightarrow> i * n + n \<le> j * n \<or> j * n + n \<le> (i :: nat) * n"
proof -
  assume "i \<noteq> j"
  then have "Suc i \<le> j \<or> Suc j \<le> i" by arith
  then show ?thesis using mult_le_mono1 [of "Suc i" j n] mult_le_mono1 [of "Suc j" i n] by auto
qed

lemma profiles_init:
  assumes "i < PROFILE_COUNT" and "EECONFIG_SIZE_ANALOG_MATRIX b \<le> length (analog_eeprom s)"
  shows "profiles (profile_init b False s) ! i = load_profile b (analog_eeprom s) i"
  using load_profile_image [OF assms] assms(1) by (simp add: profile_init_def Let_def del: upt_Suc)

text \<open>C11. After a profile is saved, whatever the RAM holds, profile_init from that EEPROM loads it
  with its global settings repaired, loads every other profile and selects the same profile
  index as before the save.\<close>

theorem profile_save_restores:
  assumes "board_ok b" and "unat i < PROFILE_COUNT" and "profile_shape b (profiles s ! unat i)"
    and "EECONFIG_SIZE_ANALOG_MATRIX b \<le> length (analog_eeprom s)"
    and "analog_eeprom r = analog_eeprom (snd (profile_save b i s))"
  shows "profiles (profile_init b False r) ! unat i = (profiles s ! unat i)
            \<lparr>global := repair_global (profile_gobal_mode b ! unat i) (global (profiles s ! unat i))\<rparr>
    \<and> (\<forall>j \<in> {0, 1, 2} - {unat i}. profiles (profile_init b False r) ! j = profiles (profile_init b False s) ! j)
    \<and> current_profile_index (profile_init b False r) = current_profile_index (profile_init b False s)"
proof (intro conjI ballI)
  let ?at = "OFFSET_PROFILES_START b + unat i * PROFILE_SIZE b" and ?p = "profiles s ! unat i"
  have len: "length (profile_bytes ?p) = PROFILE_SIZE b" using profile_image(2) assms(3) by blast
  have ee: "analog_eeprom r = splice (analog_eeprom s) ?at (profile_bytes ?p)"
    using assms(2,5) by (simp add: profile_save_def analog_matrix_eeprom_update_def Let_def)
  have fits: "?at + length (profile_bytes ?p) \<le> length (analog_eeprom s)"
    using profile_slot_in [OF assms(2), of b] assms(4) len by simp
  have rlen: "EECONFIG_SIZE_ANALOG_MATRIX b \<le> length (analog_eeprom r)" using assms(4) fits ee by simp
  note load = profiles_init [OF _ rlen] profiles_init [OF _ assms(4)]
  have "profile_of_bytes b (drop ?at (analog_eeprom r)) = ?p"
    using splice_read [OF fits] ee len profile_of_bytes_take [of b "drop ?at (analog_eeprom r)"]
      profile_image(1) [OF assms(3), of "[]"] by simp
  then show "profiles (profile_init b False r) ! unat i
      = ?p\<lparr>global := repair_global (profile_gobal_mode b ! unat i) (global ?p)\<rparr>"
    using load(1) [OF assms(2)] by (simp only: load_profile_def Let_def)
  show "profiles (profile_init b False r) ! j = profiles (profile_init b False s) ! j" if "j \<in> {0, 1, 2} - {unat i}" for j
  proof -
    have j: "j < PROFILE_COUNT" "j \<noteq> unat i" using that by auto
    have "take (PROFILE_SIZE b) (drop (OFFSET_PROFILES_START b + j * PROFILE_SIZE b) (analog_eeprom r))
      = take (PROFILE_SIZE b) (drop (OFFSET_PROFILES_START b + j * PROFILE_SIZE b) (analog_eeprom s))"
      unfolding ee
    proof (rule splice_read_other [OF fits])
      show "OFFSET_PROFILES_START b + j * PROFILE_SIZE b + PROFILE_SIZE b \<le> ?at
        \<or> ?at + length (profile_bytes ?p) \<le> OFFSET_PROFILES_START b + j * PROFILE_SIZE b"
        using slots_disjoint [OF j(2), of "PROFILE_SIZE b"] unfolding len by linarith
    qed
    then show ?thesis using load [OF j(1)] load_profile_cong by metis
  qed
  have "OFFSET_CURRENT_PROFILE < ?at" using assms(1) by (simp add: board_ok_def OFFSET_PROFILES_START_def)
  moreover have "OFFSET_CURRENT_PROFILE < length (analog_eeprom s)" using fits \<open>OFFSET_CURRENT_PROFILE < ?at\<close> by linarith
  ultimately have "analog_eeprom r ! OFFSET_CURRENT_PROFILE = analog_eeprom s ! OFFSET_CURRENT_PROFILE"
    using nth_splice [OF fits, of OFFSET_CURRENT_PROFILE] ee by simp
  moreover have "OFFSET_CURRENT_PROFILE < EECONFIG_SIZE_ANALOG_MATRIX b" by (simp add: EECONFIG_SIZE_ANALOG_MATRIX_def)
  ultimately show "current_profile_index (profile_init b False r) = current_profile_index (profile_init b False s)"
    by (simp add: profile_init_def Let_def)
qed

text \<open>A board with one key.\<close>

definition demo_board :: board where
  "demo_board = \<lparr>MATRIX_ROWS = 1, MATRIX_COLS = 1, profile_gobal_mode = [1, 2, 1],
     default_profiles = [[[1]], [[2]], [[0]]], PROF_KEY_COL_OFFSET = 0\<rparr>"

definition demo_profiles :: "u8 list \<Rightarrow> u32 prof_state" where
  "demo_profiles ee = \<lparr>profiles = map (default_profile demo_board) [0, 1, 2], current_profile_index = 1, prof_combo = 0,
     prof_ind_state = 0, pro_ind_timer = 0, analog_key_matrix = [[zero_key]], okmc_matrix = [0],
     analog_eeprom = ee, kb_data_version = 0\<rparr>"

lemma demo_sizes:
  "PROFILE_SIZE demo_board = 480" "EECONFIG_SIZE_ANALOG_MATRIX demo_board = 1453" "board_ok demo_board"
  by (simp_all add: PROFILE_SIZE_def EECONFIG_SIZE_ANALOG_MATRIX_def OFFSET_PROFILES_START_def demo_board_def board_ok_def)

lemma demo_profiles_ok: "profiles_ok demo_board (demo_profiles ee)"
  using profile_ok_default [of 0 demo_board] profile_ok_default [of 1 demo_board] profile_ok_default [of 2 demo_board]
  by (simp add: profiles_ok_def demo_profiles_def)

theorem profile_save_restores_witness:
  "\<exists>r :: u32 prof_state. analog_eeprom r = analog_eeprom (snd (profile_save demo_board 1 (demo_profiles (replicate 1453 7))))
    \<and> global (profiles (profile_init demo_board False r) ! 1) = global (default_profile demo_board 1)
    \<and> kc_mode (global (profiles (profile_init demo_board False r) ! 1)) = 2"
proof -
  define s r where "s = demo_profiles (replicate 1453 7)" and "r = demo_profiles (analog_eeprom (snd (profile_save demo_board 1 s)))"
  have "profile_shape demo_board (profiles s ! unat (1 :: u8))"
    using profiles_ok_nth [OF demo_profiles_ok, of "unat (1 :: u8)"] by (simp add: s_def profile_ok_def)
  moreover have "EECONFIG_SIZE_ANALOG_MATRIX demo_board \<le> length (analog_eeprom s)"
    by (simp add: demo_sizes s_def demo_profiles_def)
  moreover have r: "analog_eeprom r = analog_eeprom (snd (profile_save demo_board 1 s))"
    by (simp add: r_def demo_profiles_def)
  ultimately have "profiles (profile_init demo_board False r) ! unat (1 :: u8) = (profiles s ! unat (1 :: u8))
      \<lparr>global := repair_global (profile_gobal_mode demo_board ! unat (1 :: u8)) (global (profiles s ! unat (1 :: u8)))\<rparr>"
    using profile_save_restores [of demo_board 1 s r] demo_sizes(3) by simp
  then have "global (profiles (profile_init demo_board False r) ! 1) = global (default_profile demo_board 1)
    \<and> kc_mode (global (profiles (profile_init demo_board False r) ! 1)) = 2"
    by (simp add: s_def demo_profiles_def repair_global_def default_profile_def demo_board_def zero_config_def)
  then show ?thesis using r unfolding s_def by blast
qed

section \<open>From a configuration to its trigger\<close>

text \<open>A key whose advanced mode is off, with settings in the range the setters and the repairs allow, gets
  the trigger bytes of its own settings, or of the global ones where its own are 0, six times finer, and starts in
  the states the triggers are proved for.\<close>

definition eff :: "6 word \<Rightarrow> 6 word \<Rightarrow> int" where
  "eff own glob = (if own = 0 then uint glob else uint own)"

definition config_in_range :: "analog_key_config \<Rightarrow> analog_key_config \<Rightarrow> bool" where
  "config_in_range g c \<longleftrightarrow> kc_adv_mode c = 0 \<and> eff (kc_act_pt c) (kc_act_pt g) \<in> {1..40} \<and>
     eff (kc_rpd_trig_sen c) (kc_rpd_trig_sen g) \<in> {1..42} \<and>
     eff (kc_rpd_trig_sen_deact c) (kc_rpd_trig_sen_deact g) \<in> {1..42}"

lemma uint_ucast_6 [simp]: "uint (ucast (x :: 6 word) :: u8) = uint x"
  by (rule uint_up_ucast) (simp add: is_up)

lemma uint_as_u8: "0 \<le> z \<Longrightarrow> z < 256 \<Longrightarrow> uint (as_u8 z) = z"
  by (simp add: uint_word_of_int)

lemma uint_scaled: "uint x \<le> 42 \<Longrightarrow> uint (scaled x) = uint x * 6"
  unfolding scaled_def by (subst uint_as_u8) auto

lemma uint_6_le: "uint (x :: 6 word) \<le> 63"
  using uint_bounded [of x] by simp

lemma effective_settings:
  fixes g c :: analog_key_config
  assumes "config_in_range g c"
  defines "a \<equiv> (if kc_act_pt c = 0 then ucast (kc_act_pt g) else ucast (kc_act_pt c)) :: u8"
    and "sn \<equiv> (if kc_rpd_trig_sen c = 0 then ucast (kc_rpd_trig_sen g) else ucast (kc_rpd_trig_sen c)) :: u8"
    and "rl \<equiv> (if kc_rpd_trig_sen_deact c = 0
                then (if kc_rpd_trig_sen_deact g = 0 then ucast (kc_rpd_trig_sen g) else ucast (kc_rpd_trig_sen_deact g))
                else ucast (kc_rpd_trig_sen_deact c)) :: u8"
  shows "uint a = eff (kc_act_pt c) (kc_act_pt g)" and "uint sn = eff (kc_rpd_trig_sen c) (kc_rpd_trig_sen g)"
    and "uint rl = eff (kc_rpd_trig_sen_deact c) (kc_rpd_trig_sen_deact g)"
  using assms(1) by (auto simp: a_def sn_def rl_def eff_def config_in_range_def)

lemma update_key_plain:
  "kc_adv_mode (key_config p ! r ! c) = 0 \<Longrightarrow> update_key p r c k
     = ((key_config p ! r ! c)\<lparr>kc_adv_mode := 0\<rparr>, update_basic p (key_config p ! r ! c) r c k)"
  by (simp add: update_key_def update_advanced_def Let_def)

lemma update_basic_state [simp]:
  "ak_state (update_basic p cfg r c k) = ak_state k" "ak_rapid (update_basic p cfg r c k) = ak_rapid k"
  by (simp_all add: update_basic_def Let_def)

lemma update_key_state: "ak_state (snd (update_key p r c k)) = ak_state k"
  by (simp add: update_key_def update_advanced_def Let_def)

lemma update_key_settings:
  assumes "config_in_range (global p) (key_config p ! r ! c)" and "update_key p r c k = (cfg, k')"
  shows "cfg = (key_config p ! r ! c)\<lparr>kc_adv_mode := 0\<rparr>"
    and "uint (actn_pt (ak_regular k')) = 6 * eff (kc_act_pt (key_config p ! r ! c)) (kc_act_pt (global p))"
    and "uint (deactn_pt (ak_regular k')) = 6 * max 0 (eff (kc_act_pt (key_config p ! r ! c)) (kc_act_pt (global p)) - 3)"
    and "uint (rpd_trig_sen k') = 6 * eff (kc_rpd_trig_sen (key_config p ! r ! c)) (kc_rpd_trig_sen (global p))"
    and "uint (ak_rpd_trig_sen_rls k') = 6 * eff (kc_rpd_trig_sen_deact (key_config p ! r ! c)) (kc_rpd_trig_sen_deact (global p))"
    and "ak_state k' = ak_state k" and "ak_rapid k' = ak_rapid k"
proof -
  let ?c = "key_config p ! r ! c" and ?g = "global p"
  note e = effective_settings [OF assms(1)] and rng = assms(1) [unfolded config_in_range_def]
  define a :: u8 where "a = (if kc_act_pt ?c = 0 then ucast (kc_act_pt ?g) else ucast (kc_act_pt ?c))"
  have a: "uint a = eff (kc_act_pt ?c) (kc_act_pt ?g)" using e(1) by (simp add: a_def)
  define dt :: u8 where "dt = (if uint a - 3 > 0 then as_u8 (uint a - 3) else 0)"
  have d: "uint dt = max 0 (uint a - 3)"
  proof (cases "3 < uint a")
    case True
    then have "uint (as_u8 (uint a - 3)) = uint a - 3" using uint_bounded [of a] by (intro uint_as_u8) auto
    with True show ?thesis by (simp only: dt_def) simp
  qed (simp add: dt_def)
  have cfg: "cfg = ?c\<lparr>kc_adv_mode := 0\<rparr>" and k'_eq: "k' = update_basic p ?c r c k"
    using assms(2) update_key_plain [of p r c k] rng by simp_all
  have k': "cfg = ?c\<lparr>kc_adv_mode := 0\<rparr>" "actn_pt (ak_regular k') = scaled a" "deactn_pt (ak_regular k') = scaled dt"
    "rpd_trig_sen k' = scaled (if kc_rpd_trig_sen ?c = 0 then ucast (kc_rpd_trig_sen ?g) else ucast (kc_rpd_trig_sen ?c))"
    "ak_rpd_trig_sen_rls k' = scaled (if kc_rpd_trig_sen_deact ?c = 0
                then (if kc_rpd_trig_sen_deact ?g = 0 then ucast (kc_rpd_trig_sen ?g) else ucast (kc_rpd_trig_sen_deact ?g))
                else ucast (kc_rpd_trig_sen_deact ?c))"
    "ak_state k' = ak_state k" "ak_rapid k' = ak_rapid k"
    unfolding k'_eq update_basic_def Let_def a_def dt_def by (rule cfg | simp split del: if_split cong: if_cong)+
  show "cfg = ?c\<lparr>kc_adv_mode := 0\<rparr>" "ak_state k' = ak_state k" "ak_rapid k' = ak_rapid k" by (fact k')+
  show "uint (actn_pt (ak_regular k')) = 6 * eff (kc_act_pt ?c) (kc_act_pt ?g)"
    unfolding k'(2) using rng a by (subst uint_scaled) auto
  show "uint (deactn_pt (ak_regular k')) = 6 * max 0 (eff (kc_act_pt ?c) (kc_act_pt ?g) - 3)"
    unfolding k'(3) using rng a d by (subst uint_scaled) auto
  show "uint (rpd_trig_sen k') = 6 * eff (kc_rpd_trig_sen ?c) (kc_rpd_trig_sen ?g)"
    unfolding k'(4) using rng e(2) by (subst uint_scaled) auto
  show "uint (ak_rpd_trig_sen_rls k') = 6 * eff (kc_rpd_trig_sen_deact ?c) (kc_rpd_trig_sen_deact ?g)"
    unfolding k'(5) using rng e(3) by (subst uint_scaled) auto
qed

text \<open>For settings in range with the advanced mode off, update_key_config gives a cleared key
  exactly six times its own settings (the global ones where its own are 0) without wrap-around,
  a release point below its press point and the rapid-trigger invariant; the sums of the rapid
  trigger are free of wrap-around exactly when the press sensitivity exceeds the release one by
  at most 4 steps.\<close>

lemma updated_key_ready:
  assumes "config_in_range (global p) (key_config p ! r ! c)" and "update_key p r c zero_key = (cfg, k)"
  shows "uint (actn_pt (ak_regular k)) = 6 * eff (kc_act_pt (key_config p ! r ! c)) (kc_act_pt (global p))
    \<and> uint (deactn_pt (ak_regular k)) = 6 * max 0 (eff (kc_act_pt (key_config p ! r ! c)) (kc_act_pt (global p)) - 3)
    \<and> deactn_pt (ak_regular k) < actn_pt (ak_regular k)
    \<and> rt_inv k
    \<and> (rt_no_wrap k \<longleftrightarrow> eff (kc_rpd_trig_sen (key_config p ! r ! c)) (kc_rpd_trig_sen (global p))
                       \<le> eff (kc_rpd_trig_sen_deact (key_config p ! r ! c)) (kc_rpd_trig_sen_deact (global p)) + 4)"
proof -
  note s = update_key_settings [OF assms]
  have "deactn_pt (ak_regular k) < actn_pt (ak_regular k)"
    using s(2,3) assms(1) by (simp add: word_less_def config_in_range_def)
  moreover have "rt_inv k" using s(6) by (simp add: rt_inv_def zero_key_def)
  moreover have "rt_no_wrap k \<longleftrightarrow> eff (kc_rpd_trig_sen (key_config p ! r ! c)) (kc_rpd_trig_sen (global p))
                       \<le> eff (kc_rpd_trig_sen_deact (key_config p ! r ! c)) (kc_rpd_trig_sen_deact (global p)) + 4"
    unfolding rt_no_wrap_def s(4,5) by presburger
  ultimately show ?thesis using s(2,3) by blast
qed

lemma updated_key_ready_witness:
  "\<exists>cfg k. update_key (default_profile demo_board 1) 0 0 zero_key = (cfg, k) \<and>
     config_in_range (global (default_profile demo_board 1)) (key_config (default_profile demo_board 1) ! 0 ! 0) \<and>
     ak_mode k = AKM_RAPID \<and> rt_inv k \<and> rt_no_wrap k \<and> uint (actn_pt (ak_regular k)) = 120"
proof -
  let ?p = "default_profile demo_board 1"
  obtain cfg k where u: "update_key ?p 0 0 zero_key = (cfg, k)" by fastforce
  have r: "config_in_range (global ?p) (key_config ?p ! 0 ! 0)"
    by (simp add: config_in_range_def eff_def default_profile_def default_config_def demo_board_def zero_config_def Let_def)
  have e: "eff (kc_act_pt (key_config ?p ! 0 ! 0)) (kc_act_pt (global ?p)) = 20"
    "eff (kc_rpd_trig_sen (key_config ?p ! 0 ! 0)) (kc_rpd_trig_sen (global ?p)) = 4"
    "eff (kc_rpd_trig_sen_deact (key_config ?p ! 0 ! 0)) (kc_rpd_trig_sen_deact (global ?p)) = 4"
    by (simp_all add: eff_def default_profile_def default_config_def demo_board_def zero_config_def Let_def)
  have "ak_mode k = AKM_RAPID"
    using u by (auto simp: update_key_def update_advanced_def update_basic_def default_profile_def default_config_def
      demo_board_def zero_config_def Let_def)
  then show ?thesis using updated_key_ready [OF r u] r u unfolding e by simp
qed

text \<open>A key whose mode is changed to the static trigger while its rapid trigger is in one of its
  rapid states keeps that state, which no travel leaves: the static trigger never reports it
  again and it is never pressed.\<close>

lemma mode_change_strands_key:
  assumes "ak_state k = AKS_RAPID_PRESSED \<or> ak_state k = AKS_RAPID_RELEASED"
    and "update_key p r c k = (cfg, k')" and "ak_mode k' = AKM_REGULAR"
  shows "fst (trigger_run regular_trigger_action ts k') = replicate (length ts) False
    \<and> \<not> analog_matrix_get_key_state gc (snd (trigger_run regular_trigger_action ts k'))"
proof -
  have st: "ak_state k' = 2 \<or> ak_state k' = 3"
    using assms(1,2) update_key_state [of p r c k] by auto
  have "fst (trigger_run regular_trigger_action ts k') = replicate (length ts) False
      \<and> ak_state (snd (trigger_run regular_trigger_action ts k')) = ak_state k'
      \<and> ak_mode (snd (trigger_run regular_trigger_action ts k')) = AKM_REGULAR"
    using st assms(3)
  proof (induction ts arbitrary: k')
    case (Cons t ts)
    have "regular_trigger_action (k'\<lparr>ak_travel := t\<rparr>) = (False, k'\<lparr>ak_travel := t\<rparr>)"
      using Cons.prems(1) by (auto simp: regular_trigger_action_def)
    then show ?case using Cons.IH [of "k'\<lparr>ak_travel := t\<rparr>"] Cons.prems by simp
  qed simp
  then show ?thesis using st by (auto simp: analog_matrix_get_key_state_def)
qed

lemma mode_change_strands_key_witness:
  "\<exists>cfg k'. update_key (with_config (default_profile demo_board 1) 0 0 (set_basic AKM_REGULAR 20 4 4)) 0 0
       (zero_key\<lparr>ak_mode := AKM_RAPID, ak_state := AKS_RAPID_PRESSED, ak_travel := 200\<rparr>) = (cfg, k')
     \<and> ak_mode k' = AKM_REGULAR
     \<and> fst (trigger_run regular_trigger_action [0, 240, 0] k') = [False, False, False]"
proof -
  let ?p = "with_config (default_profile demo_board 1) 0 0 (set_basic AKM_REGULAR 20 4 4)"
  let ?k = "zero_key\<lparr>ak_mode := AKM_RAPID, ak_state := AKS_RAPID_PRESSED, ak_travel := 200\<rparr>"
  obtain cfg k' where u: "update_key ?p 0 0 ?k = (cfg, k')" by fastforce
  have m: "ak_mode k' = AKM_REGULAR"
    using u by (auto simp: update_key_def update_advanced_def update_basic_def default_profile_def default_config_def
      demo_board_def zero_config_def Let_def with_config_def set_cell_def set_basic_def)
  have "ak_state ?k = AKS_RAPID_PRESSED \<or> ak_state ?k = AKS_RAPID_RELEASED" by simp
  from mode_change_strands_key [OF this u m, of "[0, 240, 0]"] u m show ?thesis by (simp add: numeral_3_eq_3)
qed

end
