(* ===== verification/KeyReport.thy ===== *)
theory KeyReport
  imports Prelude
begin

text \<open>
  The keyboard reports, \<open>tmk_core/protocol/report.c\<close>, in the configuration \<open>keychron_common.mk\<close> builds
  (\<open>NKRO_ENABLE\<close> and \<open>APDAPTIVE_NKRO_ENABLE\<close>): six key bytes first, and a bitmap of 240 codes for the
  keys that no longer fit.  \<open>kb_report_changed\<close>, \<open>kb_keys_count\<close> and \<open>nkro_bit_count\<close> are the
  statics that say which report to send and how many keys each holds.  The locale \<open>key_set\<close> is what
  the action layer relies on: adding and deleting keys behaves like a set.
\<close>

section \<open>State\<close>

abbreviation KB_RPT_STD :: u8 where "KB_RPT_STD \<equiv> col_mask 0"
abbreviation KB_RPT_NKRO :: u8 where "KB_RPT_NKRO \<equiv> col_mask 1"

record key_report =
  rp_keys :: "u8 list"
  rp_bits :: "u8 list"
  kb_report_changed :: u8
  kb_keys_count :: u8
  nkro_bit_count :: u8

abbreviation KEYBOARD_REPORT_KEYS :: nat where "KEYBOARD_REPORT_KEYS \<equiv> 6"
abbreviation NKRO_REPORT_BITS :: nat where "NKRO_REPORT_BITS \<equiv> 30"

definition bits_index :: "u8 \<Rightarrow> nat" where "bits_index code = unat (drop_bit 3 code)"
definition bits_mask :: "u8 \<Rightarrow> u8" where "bits_mask code = col_mask (unat (code AND 7))"

section \<open>Operations\<close>

text \<open>The search of \<open>add_key_byte\<close>: whether \<open>code\<close> is there, and the first empty slot before it.\<close>

fun find_slot :: "u8 \<Rightarrow> nat \<Rightarrow> u8 list \<Rightarrow> nat option \<Rightarrow> bool \<times> nat option" where
  "find_slot code i [] free = (False, free)"
| "find_slot code i (k # ks) free =
     (if k = code then (True, free)
      else find_slot code (Suc i) ks (if free = None \<and> k = 0 then Some i else free))"

definition add_key_byte :: "u8 \<Rightarrow> 'z key_report_scheme \<Rightarrow> 'z key_report_scheme" where
  "add_key_byte code s =
     (case find_slot code 0 (rp_keys s) None of
        (False, Some free) \<Rightarrow>
          s\<lparr>rp_keys := (rp_keys s)[free := code],
            kb_report_changed := kb_report_changed s OR KB_RPT_STD,
            kb_keys_count := kb_keys_count s + 1\<rparr>
      | _ \<Rightarrow> s)"

definition del_key_byte :: "u8 \<Rightarrow> 'z key_report_scheme \<Rightarrow> 'z key_report_scheme" where
  "del_key_byte code s =
     (case walk (\<lambda>i k (changed, count).
                   if k = code then (0, (changed OR KB_RPT_STD, count - 1)) else (k, (changed, count)))
             0 (rp_keys s) (kb_report_changed s, kb_keys_count s) of
        (keys', changed', count') \<Rightarrow>
          s\<lparr>rp_keys := keys', kb_report_changed := changed', kb_keys_count := count'\<rparr>)"

definition add_key_bit :: "u8 \<Rightarrow> 'z key_report_scheme \<Rightarrow> 'z key_report_scheme" where
  "add_key_bit code s =
     (if bits_index code < NKRO_REPORT_BITS then
        (let byte = rp_bits s ! bits_index code;
             s1 = (if byte AND bits_mask code = 0
                   then s\<lparr>kb_report_changed := kb_report_changed s OR KB_RPT_NKRO,
                          nkro_bit_count := nkro_bit_count s + 1\<rparr>
                   else s)
         in s1\<lparr>rp_bits := (rp_bits s1)[bits_index code := byte OR bits_mask code]\<rparr>)
      else s)"

definition del_key_bit :: "u8 \<Rightarrow> 'z key_report_scheme \<Rightarrow> bool \<times> 'z key_report_scheme" where
  "del_key_bit code s =
     (if bits_index code < NKRO_REPORT_BITS then
        (let byte = rp_bits s ! bits_index code in
         if byte AND bits_mask code \<noteq> 0
         then (True, s\<lparr>rp_bits := (rp_bits s)[bits_index code := byte AND NOT (bits_mask code)],
                       kb_report_changed := kb_report_changed s OR KB_RPT_NKRO,
                       nkro_bit_count := nkro_bit_count s - 1\<rparr>)
         else (False, s\<lparr>rp_bits := (rp_bits s)[bits_index code := byte AND NOT (bits_mask code)]\<rparr>))
      else (False, s))"

text \<open>\<open>host_can_send_nkro()\<close>, the USB protocol, is an argument.\<close>

definition add_key_to_report :: "bool \<Rightarrow> u8 \<Rightarrow> 'z key_report_scheme \<Rightarrow> 'z key_report_scheme" where
  "add_key_to_report can_nkro key s =
     (if can_nkro \<and> unat (kb_keys_count s) = KEYBOARD_REPORT_KEYS then add_key_bit key s
      else add_key_byte key s)"

definition del_key_from_report :: "bool \<Rightarrow> u8 \<Rightarrow> 'z key_report_scheme \<Rightarrow> 'z key_report_scheme" where
  "del_key_from_report can_nkro key s =
     (if can_nkro \<and> nkro_bit_count s \<noteq> 0 then
        (case del_key_bit key s of (found, s1) \<Rightarrow> if found then s1 else del_key_byte key s1)
      else del_key_byte key s)"

definition clear_keys_from_report :: "bool \<Rightarrow> 'z key_report_scheme \<Rightarrow> 'z key_report_scheme" where
  "clear_keys_from_report can_nkro s =
     (let s1 = (if can_nkro
                then s\<lparr>rp_bits := replicate (length (rp_bits s)) 0,
                       kb_report_changed := kb_report_changed s OR KB_RPT_NKRO\<rparr>
                else s)
      in s1\<lparr>rp_keys := replicate (length (rp_keys s1)) 0,
            kb_report_changed := kb_report_changed s1 OR KB_RPT_STD\<rparr>)"

definition is_key_pressed :: "bool \<Rightarrow> u8 \<Rightarrow> 'z key_report_scheme \<Rightarrow> bool" where
  "is_key_pressed can_nkro key s =
     (if key = 0 then False
      else if can_nkro \<and> nkro_bit_count s \<noteq> 0 \<and> bits_index key < NKRO_REPORT_BITS
           \<and> rp_bits s ! bits_index key AND bits_mask key \<noteq> 0 then True
      else list_ex (\<lambda>k. k = key) (rp_keys s))"

definition has_anykey :: "'z key_report_scheme \<Rightarrow> u8" where
  "has_anykey s = kb_keys_count s + nkro_bit_count s"

definition get_first_key :: "'z key_report_scheme \<Rightarrow> u8" where
  "get_first_key s = rp_keys s ! 0"

section \<open>The keys a report holds\<close>

definition bit_keys :: "'z key_report_scheme \<Rightarrow> u8 set" where
  "bit_keys s = {k. bits_index k < length (rp_bits s) \<and> bit (rp_bits s ! bits_index k) (unat (k AND 7))}"

definition byte_keys :: "'z key_report_scheme \<Rightarrow> u8 set" where
  "byte_keys s = set (rp_keys s) - {0}"

definition held_keys :: "'z key_report_scheme \<Rightarrow> u8 set" where
  "held_keys s = byte_keys s \<union> bit_keys s"

text \<open>The two counts are right, and no key is in both reports.\<close>

definition report_ok :: "'z key_report_scheme \<Rightarrow> bool" where
  "report_ok s \<longleftrightarrow> length (rp_keys s) = KEYBOARD_REPORT_KEYS \<and> length (rp_bits s) = NKRO_REPORT_BITS
     \<and> distinct (filter (\<lambda>k. k \<noteq> 0) (rp_keys s))
     \<and> unat (kb_keys_count s) = length (filter (\<lambda>k. k \<noteq> 0) (rp_keys s))
     \<and> unat (nkro_bit_count s) = card (bit_keys s) \<and> byte_keys s \<inter> bit_keys s = {}"

lemma low_bits: "unat (k AND 7) = unat k mod 8" for k :: u8
proof -
  have "(7 :: u8) = mask 3" by (simp add: mask_eq_exp_minus_1)
  then have "k AND 7 = take_bit 3 k" by (simp add: take_bit_eq_mask)
  then show ?thesis by (simp add: take_bit_eq_mod unat_mod)
qed

lemma bits_index_div: "bits_index k = unat k div 8"
  by (simp add: bits_index_def drop_bit_eq_div unat_div)

lemma code_eq: "bits_index k = bits_index k' \<and> unat (k AND 7) = unat (k' AND 7) \<longleftrightarrow> k = k'"
  by (metis bits_index_div low_bits div_mult_mod_eq word_unat_eq_iff)

lemma low_bits_less: "unat (k AND 7) < 8" for k :: u8
  by (simp add: low_bits)

section \<open>The byte array\<close>

lemma find_slot_spec:
  "find_slot code i ks free = (code \<in> set ks,
     if code \<in> set ks then snd (find_slot code i ks free)
     else if free \<noteq> None then free
     else if 0 \<in> set ks then Some (i + length (takeWhile (\<lambda>k. k \<noteq> 0) ks)) else None)"
  by (induction code i ks free rule: find_slot.induct) auto

lemma takeWhile_slot:
  assumes "0 \<in> set ks"
  defines "j \<equiv> length (takeWhile (\<lambda>k. k \<noteq> (0 :: u8)) ks)"
  shows "j < length ks" and "ks ! j = 0"
proof -
  show "j < length ks"
    unfolding j_def using assms(1) by (metis (mono_tags) length_takeWhile_le nat_less_le takeWhile_eq_all_conv takeWhile_eq_take take_all order_refl)
  then show "ks ! j = 0" unfolding j_def using nth_length_takeWhile by blast
qed

lemma add_key_byte_eq:
  assumes "code \<noteq> 0"
  shows "add_key_byte code s =
     (if code \<in> set (rp_keys s) \<or> 0 \<notin> set (rp_keys s) then s
      else s\<lparr>rp_keys := (rp_keys s)[length (takeWhile (\<lambda>k. k \<noteq> 0) (rp_keys s)) := code],
             kb_report_changed := kb_report_changed s OR KB_RPT_STD,
             kb_keys_count := kb_keys_count s + 1\<rparr>)"
  unfolding add_key_byte_def
  by (subst find_slot_spec) (auto split: option.splits)

lemma set_fill_slot:
  assumes "i < length ks" and "ks ! i = (0 :: u8)" and "code \<noteq> 0" and "distinct (filter (\<lambda>k. k \<noteq> 0) ks)"
    and "code \<notin> set ks"
  shows "set (ks[i := code]) - {0} = insert code (set ks - {0})"
    and "distinct (filter (\<lambda>k. k \<noteq> 0) (ks[i := code]))"
    and "length (filter (\<lambda>k. k \<noteq> 0) (ks[i := code])) = Suc (length (filter (\<lambda>k. k \<noteq> 0) ks))"
proof -
  have ks: "ks = take i ks @ 0 # drop (Suc i) ks" using assms(1,2) by (metis id_take_nth_drop)
  have up: "ks[i := code] = take i ks @ code # drop (Suc i) ks" using assms(1) by (rule upd_conv_take_nth_drop)
  have f: "filter (\<lambda>k. k \<noteq> 0) ks = filter (\<lambda>k. k \<noteq> 0) (take i ks) @ filter (\<lambda>k. k \<noteq> 0) (drop (Suc i) ks)"
    by (subst ks) simp
  have set: "set ks = insert 0 (set (take i ks) \<union> set (drop (Suc i) ks))"
    by (subst ks) (simp del: append_take_drop_id)
  show "set (ks[i := code]) - {0} = insert code (set ks - {0})"
    unfolding up set using assms(3) by auto
  have "code \<notin> set (take i ks)" "code \<notin> set (drop (Suc i) ks)" using assms(5) set by auto
  with assms(3,4) f show "distinct (filter (\<lambda>k. k \<noteq> 0) (ks[i := code]))"
    unfolding up by auto
  show "length (filter (\<lambda>k. k \<noteq> 0) (ks[i := code])) = Suc (length (filter (\<lambda>k. k \<noteq> 0) ks))"
    unfolding up f using assms(3) by simp
qed

lemma del_walk:
  "walk (\<lambda>i k (changed, count). if k = code then (0, (changed OR KB_RPT_STD, count - 1)) else (k, (changed, count)))
     i ks (changed, count)
   = (map (\<lambda>k. if k = code then 0 else k) ks,
      (if code \<in> set ks then changed OR KB_RPT_STD else changed, count - of_nat (count_list ks code)))"
  for count :: u8
  by (induction ks arbitrary: i changed count) (auto simp: walk_Cons)

lemma del_key_byte_eq:
  "del_key_byte code s =
     s\<lparr>rp_keys := map (\<lambda>k. if k = code then 0 else k) (rp_keys s),
       kb_report_changed := (if code \<in> set (rp_keys s) then kb_report_changed s OR KB_RPT_STD else kb_report_changed s),
       kb_keys_count := kb_keys_count s - of_nat (count_list (rp_keys s) code)\<rparr>"
  by (simp add: del_key_byte_def del_walk)

section \<open>The bit array\<close>

lemma bit_bits_mask: "bit (bits_mask k) n \<longleftrightarrow> n = unat (k AND 7)"
  using low_bits_less [of k] by (auto simp: bits_mask_def row_simps)

lemma bits_mask_test: "b AND bits_mask k \<noteq> 0 \<longleftrightarrow> bit b (unat (k AND 7))"
  by (simp add: bits_mask_def row_simps)

lemma in_bit_keys:
  "k \<in> bit_keys s \<longleftrightarrow> bits_index k < length (rp_bits s) \<and> rp_bits s ! bits_index k AND bits_mask k \<noteq> 0"
  by (simp add: bit_keys_def bits_mask_test)

lemma finite_bit_keys [simp]: "finite (bit_keys s)"
  by (rule finite_subset [OF subset_UNIV]) simp

lemma bit_keys_set:
  fixes s :: "'z key_report_scheme"
  assumes "bits_index k < length (rp_bits s)"
    and "rp_bits s' = (rp_bits s)[bits_index k := rp_bits s ! bits_index k OR bits_mask k]"
  shows "bit_keys s' = insert k (bit_keys s)"
proof (rule set_eqI)
  fix k'
  show "k' \<in> bit_keys s' \<longleftrightarrow> k' \<in> insert k (bit_keys s)"
    using assms code_eq [of k k'] by (auto simp: bit_keys_def nth_list_update_if bit_or_iff bit_bits_mask)
qed

lemma bit_keys_clear:
  fixes s :: "'z key_report_scheme"
  assumes "bits_index k < length (rp_bits s)"
    and "rp_bits s' = (rp_bits s)[bits_index k := rp_bits s ! bits_index k AND NOT (bits_mask k)]"
  shows "bit_keys s' = bit_keys s - {k}"
proof (rule set_eqI)
  fix k'
  show "k' \<in> bit_keys s' \<longleftrightarrow> k' \<in> bit_keys s - {k}"
    using assms code_eq [of k k'] low_bits_less [of k']
    by (auto simp: bit_keys_def nth_list_update_if bit_and_iff bit_not_iff bit_bits_mask)
qed

lemma bit_keys_cong: "rp_bits s' = rp_bits s \<Longrightarrow> bit_keys s' = bit_keys s"
  by (simp add: bit_keys_def)

lemma card_bit_keys: "length (rp_bits s) = NKRO_REPORT_BITS \<Longrightarrow> card (bit_keys s) \<le> 240"
proof -
  assume len: "length (rp_bits s) = NKRO_REPORT_BITS"
  have "unat ` bit_keys s \<subseteq> {..<240}"
    using len by (auto simp: bit_keys_def bits_index_div)
  then have "card (unat ` bit_keys s) \<le> 240" using card_mono [of "{..<240 :: nat}"] by fastforce
  moreover have "inj_on unat (bit_keys s)" by (simp add: inj_on_def word_unat_eq_iff)
  ultimately show ?thesis by (simp add: card_image)
qed

section \<open>Adding and deleting keys\<close>

lemma unat_incr8: "unat n < 255 \<Longrightarrow> unat (n + 1) = Suc (unat n)" for n :: u8
  by (simp add: unat_word_ariths)

lemma add_key_ok:
  fixes s :: "'z key_report_scheme"
  assumes "report_ok s" and "k \<noteq> 0" and "unat k < 240" and "k \<notin> held_keys s"
  shows "report_ok (add_key_to_report True k s) \<and> held_keys (add_key_to_report True k s) = insert k (held_keys s)"
proof (cases "unat (kb_keys_count s) = KEYBOARD_REPORT_KEYS")
  case True
  let ?s = "add_key_bit k s"
  have ix: "bits_index k < 30" using assms(3) by (simp add: bits_index_div)
  have "rp_bits s ! bits_index k AND bits_mask k = 0"
    using assms(1,4) ix by (auto simp: held_keys_def in_bit_keys report_ok_def)
  then have e: "?s = s\<lparr>rp_bits := (rp_bits s)[bits_index k := rp_bits s ! bits_index k OR bits_mask k],
      kb_report_changed := kb_report_changed s OR KB_RPT_NKRO, nkro_bit_count := nkro_bit_count s + 1\<rparr>"
    using ix by (cases s) (simp add: add_key_bit_def Let_def)
  have bk: "bit_keys ?s = insert k (bit_keys s)"
    by (rule bit_keys_set) (use ix assms(1) e in \<open>simp_all add: report_ok_def\<close>)
  have "card (insert k (bit_keys s)) = Suc (card (bit_keys s))"
    using assms(4) by (simp add: held_keys_def)
  moreover have "unat (nkro_bit_count s) < 255"
    using assms(1) card_bit_keys [of s] by (simp add: report_ok_def)
  moreover have "byte_keys ?s = byte_keys s" by (simp add: e byte_keys_def)
  ultimately show ?thesis
    using True assms(1,4) bk e
    by (simp add: add_key_to_report_def report_ok_def held_keys_def unat_incr8)
next
  case False
  let ?ks = "rp_keys s" and ?i = "length (takeWhile (\<lambda>k. k \<noteq> 0) (rp_keys s))"
  have count: "unat (kb_keys_count s) = length (filter (\<lambda>k. k \<noteq> 0) ?ks)" "length ?ks = 6"
    using assms(1) by (simp_all add: report_ok_def)
  have "0 \<in> set ?ks"
  proof (rule ccontr)
    assume "0 \<notin> set ?ks"
    then have "filter (\<lambda>k. k \<noteq> 0) ?ks = ?ks" by (auto simp: filter_id_conv)
    with count False show False by simp
  qed
  note slot = takeWhile_slot [OF this]
  have notin: "k \<notin> set ?ks" using assms(2,4) by (auto simp: held_keys_def byte_keys_def)
  have e: "add_key_byte k s = s\<lparr>rp_keys := ?ks[?i := k],
      kb_report_changed := kb_report_changed s OR KB_RPT_STD, kb_keys_count := kb_keys_count s + 1\<rparr>"
    using notin \<open>0 \<in> set ?ks\<close> by (simp add: add_key_byte_eq assms(2))
  note fill = set_fill_slot [OF slot assms(2) _ notin]
  have "length (filter (\<lambda>k. k \<noteq> 0) ?ks) \<le> 6" using length_filter_le [of _ ?ks] count by simp
  then have "unat (kb_keys_count s + 1) = Suc (unat (kb_keys_count s))"
    using count by (simp add: unat_incr8)
  with fill assms(1,4) e False show ?thesis
    using bit_keys_cong [of "add_key_byte k s" s]
    by (simp add: add_key_to_report_def report_ok_def held_keys_def byte_keys_def)
qed

lemma count_list_distinct:
  "distinct (filter (\<lambda>k. k \<noteq> 0) ks) \<Longrightarrow> code \<noteq> 0 \<Longrightarrow> count_list ks code = (if code \<in> set ks then 1 else 0)"
  for code :: u8
  by (induction ks) (auto split: if_splits)

lemma filter_zeroed:
  "filter (\<lambda>k. k \<noteq> 0) (map (\<lambda>k. if k = code then 0 else k) ks) = filter (\<lambda>k. k \<noteq> 0 \<and> k \<noteq> code) ks" for code :: u8
  by (induction ks) auto

lemma length_filter_remove:
  "distinct (filter (\<lambda>k. k \<noteq> 0) ks) \<Longrightarrow> code \<noteq> 0 \<Longrightarrow>
    length (filter (\<lambda>k. k \<noteq> 0 \<and> k \<noteq> code) ks) = length (filter (\<lambda>k. k \<noteq> 0) ks) - (if code \<in> set ks then 1 else 0)"
  for code :: u8
proof (induction ks)
  case (Cons k ks)
  have "length (filter (\<lambda>k. k \<noteq> 0) ks) > 0" if "code \<in> set ks"
    using that Cons.prems(2) by (induction ks) auto
  with Cons show ?case by (auto split: if_splits)
qed simp

lemma del_key_byte_ok:
  fixes s :: "'z key_report_scheme"
  assumes "report_ok s" and "k \<noteq> 0"
  shows "report_ok (del_key_byte k s)" and "byte_keys (del_key_byte k s) = byte_keys s - {k}"
    and "bit_keys (del_key_byte k s) = bit_keys s"
proof -
  let ?ks = "rp_keys s"
  have d: "distinct (filter (\<lambda>k. k \<noteq> 0) ?ks)" using assms(1) by (simp add: report_ok_def)
  show byte: "byte_keys (del_key_byte k s) = byte_keys s - {k}"
    using assms(2) by (auto simp: byte_keys_def del_key_byte_eq image_iff)
  show bits: "bit_keys (del_key_byte k s) = bit_keys s"
    by (rule bit_keys_cong) (simp add: del_key_byte_eq)
  have "unat (kb_keys_count s - of_nat (count_list ?ks k))
      = unat (kb_keys_count s) - (if k \<in> set ?ks then 1 else 0)"
  proof (cases "k \<in> set ?ks")
    case True
    then have "k \<in> set (filter (\<lambda>k. k \<noteq> 0) ?ks)" using assms(2) by simp
    then have "filter (\<lambda>k. k \<noteq> 0) ?ks \<noteq> []" by (metis empty_iff list.set(1))
    then have "kb_keys_count s \<noteq> 0" using assms(1) by (auto simp: report_ok_def)
    then have "1 \<le> kb_keys_count s" by (simp add: word_le_nat_alt word_unat_eq_iff)
    then show ?thesis using True count_list_distinct [OF d assms(2)] by (simp add: unat_sub)
  qed (use count_list_distinct [OF d assms(2)] in simp)
  with assms(1) byte bits show "report_ok (del_key_byte k s)"
    using length_filter_remove [OF d assms(2)] distinct_filter [of "filter (\<lambda>k. k \<noteq> 0) ?ks" "\<lambda>c. c \<noteq> k"] d
    by (auto simp: report_ok_def filter_zeroed del_key_byte_eq conj_commute)
qed

lemma del_key_ok:
  fixes s :: "'z key_report_scheme"
  assumes "report_ok s" and "k \<noteq> 0" and "unat k < 240"
  shows "report_ok (del_key_from_report True k s)
    \<and> held_keys (del_key_from_report True k s) = held_keys s - {k}"
proof (cases "k \<in> bit_keys s")
  case True
  have ix: "bits_index k < 30" using assms(3) by (simp add: bits_index_div)
  have "card (bit_keys s) \<noteq> 0" using True by auto
  then have c: "unat (nkro_bit_count s) \<noteq> 0" using assms(1) by (simp add: report_ok_def)
  then have n: "nkro_bit_count s \<noteq> 0" "1 \<le> nkro_bit_count s"
    by (auto simp: word_le_nat_alt)
  let ?s = "snd (del_key_bit k s)"
  have e: "del_key_bit k s = (True, s\<lparr>rp_bits := (rp_bits s)[bits_index k := rp_bits s ! bits_index k AND NOT (bits_mask k)],
      kb_report_changed := kb_report_changed s OR KB_RPT_NKRO, nkro_bit_count := nkro_bit_count s - 1\<rparr>)"
    using True ix by (simp add: in_bit_keys del_key_bit_def Let_def)
  have bk: "bit_keys ?s = bit_keys s - {k}"
    by (rule bit_keys_clear) (use ix assms(1) e in \<open>simp_all add: report_ok_def\<close>)
  have "byte_keys ?s = byte_keys s" by (simp add: e byte_keys_def)
  moreover have "k \<notin> byte_keys s" using True assms(1) by (auto simp: report_ok_def)
  moreover have "unat (nkro_bit_count s - 1) = card (bit_keys s - {k})"
    using n(2) True assms(1) by (simp add: unat_sub report_ok_def)
  moreover have "del_key_from_report True k s = ?s" using e n by (simp add: del_key_from_report_def)
  ultimately show ?thesis
    using assms(1) bk e by (auto simp: report_ok_def held_keys_def)
next
  case False
  define s1 where "s1 = (if nkro_bit_count s \<noteq> 0 then snd (del_key_bit k s) else s)"
  have ix: "bits_index k < 30" using assms(3) by (simp add: bits_index_div)
  have same: "(rp_bits s)[bits_index k := rp_bits s ! bits_index k AND NOT (bits_mask k)] = rp_bits s"
  proof -
    have "\<not> bit (rp_bits s ! bits_index k) (unat (k AND 7))"
      using False ix assms(1) by (simp add: bit_keys_def report_ok_def)
    then have "rp_bits s ! bits_index k AND NOT (bits_mask k) = rp_bits s ! bits_index k"
      by (intro bit_word_eqI) (auto simp: bit_and_iff bit_not_iff bit_bits_mask)
    then show ?thesis by simp
  qed
  have "s1 = s" "nkro_bit_count s \<noteq> 0 \<longrightarrow> \<not> fst (del_key_bit k s)"
    using False ix assms(1) same by (simp_all add: s1_def del_key_bit_def Let_def in_bit_keys report_ok_def)
  then have "del_key_from_report True k s = del_key_byte k s"
    unfolding del_key_from_report_def s1_def by (auto simp: split_beta split: if_splits)
  with del_key_byte_ok [OF assms(1,2)] False show ?thesis by (auto simp: held_keys_def)
qed

section \<open>The interface to the action layer\<close>

datatype key_event = Press u8 | Release u8

primrec event_key :: "key_event \<Rightarrow> u8" where
  "event_key (Press k) = k" | "event_key (Release k) = k"

primrec apply_event :: "u8 set \<Rightarrow> key_event \<Rightarrow> u8 set" where
  "apply_event K (Press k) = insert k K" | "apply_event K (Release k) = K - {k}"

text \<open>A history in which no code is pressed twice without a release in between.\<close>

fun well_paired :: "u8 set \<Rightarrow> key_event list \<Rightarrow> bool" where
  "well_paired K [] \<longleftrightarrow> True"
| "well_paired K (e # es) \<longleftrightarrow> (\<forall>k. e = Press k \<longrightarrow> k \<notin> K) \<and> well_paired (apply_event K e) es"

locale key_set =
  fixes add del :: "u8 \<Rightarrow> 's \<Rightarrow> 's" and held :: "'s \<Rightarrow> u8 set" and ok :: "'s \<Rightarrow> bool"
    and usable :: "u8 \<Rightarrow> bool"
  assumes add_law: "ok s \<Longrightarrow> usable k \<Longrightarrow> k \<notin> held s \<Longrightarrow> ok (add k s) \<and> held (add k s) = insert k (held s)"
    and del_law: "ok s \<Longrightarrow> usable k \<Longrightarrow> ok (del k s) \<and> held (del k s) = held s - {k}"
begin

definition run :: "key_event list \<Rightarrow> 's \<Rightarrow> 's" where
  "run = fold (case_key_event add del)"

lemma run_simps [simp]:
  "run [] s = s" "run (Press k # es) s = run es (add k s)" "run (Release k # es) s = run es (del k s)"
  by (simp_all add: run_def)

text \<open>The client's view: after any well-paired history exactly the keys that are down are held.\<close>

lemma run_held:
  assumes "ok s" and "\<forall>e \<in> set es. usable (event_key e)" and "well_paired (held s) es"
  shows "ok (run es s) \<and> held (run es s) = foldl apply_event (held s) es"
  using assms
proof (induction es arbitrary: s)
  case (Cons e es)
  show ?case
  proof (cases e)
    case (Press k)
    with Cons.prems add_law [of s k] Cons.IH [of "add k s"] show ?thesis by simp
  next
    case (Release k)
    with Cons.prems del_law [of s k] Cons.IH [of "del k s"] show ?thesis by simp
  qed
qed simp

end

definition reportable :: "u8 \<Rightarrow> bool" where
  "reportable k \<longleftrightarrow> k \<noteq> 0 \<and> unat k < 240"

interpretation adaptive: key_set "add_key_to_report True" "del_key_from_report True" held_keys report_ok reportable
  by unfold_locales (simp_all add: reportable_def add_key_ok del_key_ok)

text \<open>The bitmap alone keeps the same contract.\<close>

definition bits_ok :: "'z key_report_scheme \<Rightarrow> bool" where
  "bits_ok s \<longleftrightarrow> length (rp_bits s) = NKRO_REPORT_BITS"

interpretation bitmap: key_set add_key_bit "\<lambda>k s. snd (del_key_bit k s)" bit_keys bits_ok "\<lambda>k. unat k < 240"
proof
  fix s :: "'a key_report_scheme" and k :: u8
  assume ok: "bits_ok s" and "unat k < 240"
  then have ix: "bits_index k < length (rp_bits s)" "bits_index k < 30" by (simp_all add: bits_ok_def bits_index_div)
  have "rp_bits (snd (del_key_bit k s)) = (rp_bits s)[bits_index k := rp_bits s ! bits_index k AND NOT (bits_mask k)]"
    using ix by (simp add: del_key_bit_def Let_def)
  with bit_keys_clear [OF ix(1) this] ok
  show "bits_ok (snd (del_key_bit k s)) \<and> bit_keys (snd (del_key_bit k s)) = bit_keys s - {k}"
    by (simp add: bits_ok_def)
  have "rp_bits (add_key_bit k s) = (rp_bits s)[bits_index k := rp_bits s ! bits_index k OR bits_mask k]"
    using ix by (simp add: add_key_bit_def Let_def)
  with bit_keys_set [OF ix(1) this] ok
  show "bits_ok (add_key_bit k s) \<and> bit_keys (add_key_bit k s) = insert k (bit_keys s)"
    by (simp add: bits_ok_def)
qed

section \<open>Properties\<close>

definition key_report_init :: key_report where
  "key_report_init = \<lparr>rp_keys = replicate 6 0, rp_bits = replicate 30 0, kb_report_changed = 0,
     kb_keys_count = 0, nkro_bit_count = 0\<rparr>"

lemma report_ok_init: "report_ok key_report_init" and held_init: "held_keys key_report_init = {}"
proof -
  have "bit_keys key_report_init = {}" by (auto simp: bit_keys_def key_report_init_def)
  then show "report_ok key_report_init" and "held_keys key_report_init = {}"
    by (simp_all add: report_ok_def held_keys_def byte_keys_def key_report_init_def)
qed

lemma card_byte_keys:
  "distinct (filter (\<lambda>k. k \<noteq> 0) (rp_keys s)) \<Longrightarrow> card (byte_keys s) = length (filter (\<lambda>k. k \<noteq> 0) (rp_keys s))"
  using distinct_card [of "filter (\<lambda>k. k \<noteq> 0) (rp_keys s)"]
  by (simp add: byte_keys_def set_diff_eq)

lemma has_anykey_card:
  assumes "report_ok s"
  shows "unat (has_anykey s) = card (held_keys s)"
proof -
  have "card (held_keys s) = unat (kb_keys_count s) + unat (nkro_bit_count s)"
    using assms card_Un_disjoint [of "byte_keys s" "bit_keys s"] card_byte_keys [of s]
    by (simp add: report_ok_def held_keys_def byte_keys_def)
  moreover have "unat (kb_keys_count s) \<le> 6" "unat (nkro_bit_count s) \<le> 240"
    using assms card_bit_keys [of s] length_filter_le [of "\<lambda>k. k \<noteq> 0" "rp_keys s"]
    by (simp_all add: report_ok_def)
  ultimately show ?thesis by (simp add: has_anykey_def unat_word_ariths)
qed

text \<open>C5. After any history in which no code is pressed twice without a release, the key bytes and the
  NKRO bitmap together hold exactly the keys that are down, and has_anykey is their number.\<close>

theorem adaptive_rollover:
  assumes "list_all (\<lambda>e. reportable (event_key e)) es" and "well_paired {} es"
  shows "held_keys (fold (case_key_event (add_key_to_report True) (del_key_from_report True)) es key_report_init)
      = foldl apply_event {} es
    \<and> unat (has_anykey (fold (case_key_event (add_key_to_report True) (del_key_from_report True)) es key_report_init))
      = card (foldl apply_event {} es)"
proof -
  let ?s = "fold (case_key_event (add_key_to_report True) (del_key_from_report True)) es key_report_init"
  have run: "report_ok ?s \<and> held_keys ?s = foldl apply_event {} es"
    using adaptive.run_held [OF report_ok_init, of es] assms held_init
    unfolding adaptive.run_def list_all_iff by simp
  with has_anykey_card [of ?s] show ?thesis by auto
qed

lemma adaptive_rollover_witness:
  "held_keys (fold (case_key_event (add_key_to_report True) (del_key_from_report True))
      [Press 4, Press 5, Press 6, Press 7, Press 8, Press 9, Press 10, Release 5, Press 11] key_report_init)
    = {4, 6, 7, 8, 9, 10, 11}"
proof -
  let ?es = "[Press 4, Press 5, Press 6, Press 7, Press 8, Press 9, Press 10, Release 5, Press 11]"
  have "list_all (\<lambda>e. reportable (event_key e)) ?es" "well_paired {} ?es"
    by (simp_all add: reportable_def)
  note conjunct1 [OF adaptive_rollover [OF this]]
  also have "foldl apply_event {} ?es = {4, 6, 7, 8, 9, 10, 11}" by auto
  finally show ?thesis .
qed

text \<open>Clearing the reports leaves the counts: \<open>has_anykey\<close> still counts a key that is gone, and no
  later event of that key brings the count down.\<close>

lemma clear_keys_leaves_count:
  defines "s \<equiv> clear_keys_from_report True (add_key_to_report True 4 key_report_init)"
  shows "held_keys s = {}" and "has_anykey s = 1" and "has_anykey (del_key_from_report True 4 s) = 1"
proof -
  have six: "replicate 6 (0 :: u8) = [0, 0, 0, 0, 0, 0]" by (simp add: numeral_eq_Suc)
  have "rp_keys s = replicate 6 0" "rp_bits s = replicate 30 0" "kb_keys_count s = 1" "nkro_bit_count s = 0"
    by (simp_all add: s_def clear_keys_from_report_def add_key_to_report_def add_key_byte_eq key_report_init_def six)
  then show "held_keys s = {}" and "has_anykey s = 1" and "has_anykey (del_key_from_report True 4 s) = 1"
    by (auto simp: held_keys_def byte_keys_def bit_keys_def has_anykey_def del_key_from_report_def
        del_key_byte_eq)
qed

end
