(* ===== verification/Modifiers.thy ===== *)
theory Modifiers
  imports KeyReport
begin

text \<open>
  Modifiers and the sending of reports, \<open>quantum/action_util.c\<close>, on top of the report buffers of
  \<open>KeyReport\<close>.  Same configuration: adaptive NKRO, key overrides and one-shot keys enabled,
  \<open>ONESHOT_TIMEOUT\<close> undefined.  What the host was sent is kept in \<open>sent\<close>, the last report of each
  kind in \<open>last_std\<close> and \<open>last_nkro\<close> (the static \<open>last_report\<close> of the two send functions).
\<close>

section \<open>State\<close>

datatype host_report = Std u8 "u8 list" | Nkro "u8 list"

record host_state = key_report +
  real_mods :: u8
  weak_mods :: u8
  weak_override_mods :: u8
  suppressed_mods :: u8
  oneshot_mods :: u8
  oneshot_locked_mods :: u8
  oneshot_enable :: bool
  last_std :: "u8 \<times> u8 list"
  last_nkro :: "u8 list"
  sent :: "host_report list"

definition flag_std :: "bool \<Rightarrow> 'z key_report_scheme \<Rightarrow> 'z key_report_scheme" where
  "flag_std c s = (if c then s\<lparr>kb_report_changed := kb_report_changed s OR KB_RPT_STD\<rparr> else s)"

section \<open>Modifiers\<close>

definition add_mods :: "u8 \<Rightarrow> host_state \<Rightarrow> host_state" where
  "add_mods mods s = (flag_std (real_mods s AND mods \<noteq> mods) s)\<lparr>real_mods := real_mods s OR mods\<rparr>"

definition del_mods :: "u8 \<Rightarrow> host_state \<Rightarrow> host_state" where
  "del_mods mods s = (flag_std (real_mods s AND mods \<noteq> 0) s)\<lparr>real_mods := real_mods s AND NOT mods\<rparr>"

definition set_mods :: "u8 \<Rightarrow> host_state \<Rightarrow> host_state" where
  "set_mods mods s = (flag_std (real_mods s \<noteq> mods) s)\<lparr>real_mods := mods\<rparr>"

definition clear_mods :: "host_state \<Rightarrow> host_state" where
  "clear_mods s = (flag_std (real_mods s \<noteq> 0) s)\<lparr>real_mods := 0\<rparr>"

definition add_weak_mods :: "u8 \<Rightarrow> host_state \<Rightarrow> host_state" where
  "add_weak_mods mods s = (flag_std (weak_mods s AND mods \<noteq> mods) s)\<lparr>weak_mods := weak_mods s OR mods\<rparr>"

definition del_weak_mods :: "u8 \<Rightarrow> host_state \<Rightarrow> host_state" where
  "del_weak_mods mods s = (flag_std (weak_mods s AND mods \<noteq> 0) s)\<lparr>weak_mods := weak_mods s AND NOT mods\<rparr>"

definition set_weak_mods :: "u8 \<Rightarrow> host_state \<Rightarrow> host_state" where
  "set_weak_mods mods s = (flag_std (weak_mods s \<noteq> mods) s)\<lparr>weak_mods := mods\<rparr>"

definition clear_weak_mods :: "host_state \<Rightarrow> host_state" where
  "clear_weak_mods s = (flag_std (weak_mods s \<noteq> 0) s)\<lparr>weak_mods := 0\<rparr>"

definition set_weak_override_mods :: "u8 \<Rightarrow> host_state \<Rightarrow> host_state" where
  "set_weak_override_mods mods s =
     (flag_std (weak_override_mods s \<noteq> mods) s)\<lparr>weak_override_mods := mods\<rparr>"

definition clear_weak_override_mods :: "host_state \<Rightarrow> host_state" where
  "clear_weak_override_mods s =
     (flag_std (weak_override_mods s \<noteq> 0) s)\<lparr>weak_override_mods := 0\<rparr>"

text \<open>The flag goes into \<open>suppressed_mods\<close> itself, and is overwritten.\<close>

definition set_suppressed_override_mods :: "u8 \<Rightarrow> host_state \<Rightarrow> host_state" where
  "set_suppressed_override_mods mods s =
     (let s1 = (if weak_override_mods s \<noteq> mods
                then s\<lparr>suppressed_mods := suppressed_mods s OR KB_RPT_STD\<rparr> else s)
      in s1\<lparr>suppressed_mods := mods\<rparr>)"

definition clear_suppressed_override_mods :: "host_state \<Rightarrow> host_state" where
  "clear_suppressed_override_mods s =
     (flag_std (suppressed_mods s \<noteq> 0) s)\<lparr>suppressed_mods := 0\<rparr>"

definition has_anymod :: "host_state \<Rightarrow> nat" where
  "has_anymod s = card {n. bit (real_mods s) n}"

section \<open>One-shot modifiers\<close>

text \<open>The \<open>_changed_kb\<close> callbacks are weak and empty.\<close>

definition add_oneshot_mods :: "u8 \<Rightarrow> host_state \<Rightarrow> host_state" where
  "add_oneshot_mods mods s =
     (if oneshot_mods s AND mods \<noteq> mods then s\<lparr>oneshot_mods := oneshot_mods s OR mods\<rparr> else s)"

definition del_oneshot_mods :: "u8 \<Rightarrow> host_state \<Rightarrow> host_state" where
  "del_oneshot_mods mods s =
     (if oneshot_mods s AND mods \<noteq> 0 then s\<lparr>oneshot_mods := oneshot_mods s AND NOT mods\<rparr> else s)"

definition set_oneshot_mods :: "u8 \<Rightarrow> host_state \<Rightarrow> host_state" where
  "set_oneshot_mods mods s =
     (if oneshot_enable s then (if oneshot_mods s \<noteq> mods then s\<lparr>oneshot_mods := mods\<rparr> else s) else s)"

definition clear_oneshot_mods :: "host_state \<Rightarrow> host_state" where
  "clear_oneshot_mods s = (if oneshot_mods s \<noteq> 0 then s\<lparr>oneshot_mods := 0\<rparr> else s)"

definition add_oneshot_locked_mods :: "u8 \<Rightarrow> host_state \<Rightarrow> host_state" where
  "add_oneshot_locked_mods mods s =
     (if oneshot_locked_mods s AND mods \<noteq> mods
      then s\<lparr>oneshot_locked_mods := oneshot_locked_mods s OR mods\<rparr> else s)"

definition set_oneshot_locked_mods :: "u8 \<Rightarrow> host_state \<Rightarrow> host_state" where
  "set_oneshot_locked_mods mods s =
     (if mods \<noteq> oneshot_locked_mods s then s\<lparr>oneshot_locked_mods := mods\<rparr> else s)"

definition clear_oneshot_locked_mods :: "host_state \<Rightarrow> host_state" where
  "clear_oneshot_locked_mods s =
     (if oneshot_locked_mods s \<noteq> 0 then s\<lparr>oneshot_locked_mods := 0\<rparr> else s)"

definition del_oneshot_locked_mods :: "u8 \<Rightarrow> host_state \<Rightarrow> host_state" where
  "del_oneshot_locked_mods mods s =
     (if oneshot_locked_mods s AND mods \<noteq> 0
      then s\<lparr>oneshot_locked_mods := oneshot_locked_mods s AND NOT mods\<rparr> else s)"

section \<open>Sending\<close>

definition get_mods_for_report :: "host_state \<Rightarrow> u8 \<times> host_state" where
  "get_mods_for_report s =
     (let mods = real_mods s OR weak_mods s;
          (mods, s1) =
            (if oneshot_mods s \<noteq> 0 then
               (let mods = mods OR oneshot_mods s
                in (mods, if has_anykey s \<noteq> 0 then clear_oneshot_mods s else s))
             else (mods, s));
          mods = (mods AND NOT (suppressed_mods s1)) OR weak_override_mods s1
      in (mods, s1))"

definition send_6kro_report :: "host_state \<Rightarrow> host_state" where
  "send_6kro_report s =
     (let (mods, s1) = get_mods_for_report s;
          s2 = (if (mods, rp_keys s1) \<noteq> last_std s1
                then s1\<lparr>last_std := (mods, rp_keys s1), sent := sent s1 @ [Std mods (rp_keys s1)]\<rparr> else s1)
      in s2\<lparr>kb_report_changed := kb_report_changed s2 AND NOT KB_RPT_STD\<rparr>)"

definition send_nkro_report :: "host_state \<Rightarrow> host_state" where
  "send_nkro_report s =
     (let s1 = (if rp_bits s \<noteq> last_nkro s
                then s\<lparr>last_nkro := rp_bits s, sent := sent s @ [Nkro (rp_bits s)]\<rparr> else s)
      in s1\<lparr>kb_report_changed := kb_report_changed s1 AND NOT KB_RPT_NKRO\<rparr>)"

definition send_keyboard_report :: "bool \<Rightarrow> host_state \<Rightarrow> host_state" where
  "send_keyboard_report can_nkro s =
     (let s1 = (if kb_report_changed s AND KB_RPT_STD \<noteq> 0 then send_6kro_report s else s)
      in if can_nkro \<and> kb_report_changed s1 AND KB_RPT_NKRO \<noteq> 0 then send_nkro_report s1 else s1)"

section \<open>Changes are noticed\<close>

definition effective_mods :: "host_state \<Rightarrow> u8" where
  "effective_mods s =
     ((real_mods s OR weak_mods s OR oneshot_mods s) AND NOT (suppressed_mods s)) OR weak_override_mods s"

definition up_to_date :: "host_state \<Rightarrow> bool" where
  "up_to_date s \<longleftrightarrow> last_std s = (effective_mods s, rp_keys s) \<and> last_nkro s = rp_bits s"

text \<open>A report whose flag is down is the one the host has.\<close>

definition tracked :: "host_state \<Rightarrow> bool" where
  "tracked s \<longleftrightarrow> oneshot_mods s = 0
     \<and> (\<not> bit (kb_report_changed s) 0 \<longrightarrow> last_std s = (effective_mods s, rp_keys s))
     \<and> (\<not> bit (kb_report_changed s) 1 \<longrightarrow> last_nkro s = rp_bits s)"

datatype report_op =
    AddKey u8 | DelKey u8 | ClearKeys
  | AddMods u8 | DelMods u8 | SetMods u8 | ClearMods
  | AddWeak u8 | DelWeak u8 | SetWeak u8 | ClearWeak
  | SetOverride u8 | ClearOverride | SetSuppressed u8 | ClearSuppressed | Send

fun exec_op :: "report_op \<Rightarrow> host_state \<Rightarrow> host_state" where
  "exec_op (AddKey k) s = add_key_to_report True k s"
| "exec_op (DelKey k) s = del_key_from_report True k s"
| "exec_op ClearKeys s = clear_keys_from_report True s"
| "exec_op (AddMods m) s = add_mods m s"
| "exec_op (DelMods m) s = del_mods m s"
| "exec_op (SetMods m) s = set_mods m s"
| "exec_op ClearMods s = clear_mods s"
| "exec_op (AddWeak m) s = add_weak_mods m s"
| "exec_op (DelWeak m) s = del_weak_mods m s"
| "exec_op (SetWeak m) s = set_weak_mods m s"
| "exec_op ClearWeak s = clear_weak_mods s"
| "exec_op (SetOverride m) s = set_weak_override_mods m s"
| "exec_op ClearOverride s = clear_weak_override_mods s"
| "exec_op (SetSuppressed m) s = set_suppressed_override_mods m s"
| "exec_op ClearSuppressed s = clear_suppressed_override_mods s"
| "exec_op Send s = send_keyboard_report True s"

text \<open>What the report operations leave alone, and when they raise a flag.\<close>

definition same_host :: "host_state \<Rightarrow> host_state \<Rightarrow> bool" where
  "same_host s s' \<longleftrightarrow> effective_mods s' = effective_mods s \<and> oneshot_mods s' = oneshot_mods s
     \<and> last_std s' = last_std s \<and> last_nkro s' = last_nkro s"

definition notices :: "host_state \<Rightarrow> host_state \<Rightarrow> bool" where
  "notices s s' \<longleftrightarrow>
     (bit (kb_report_changed s) 0 \<longrightarrow> bit (kb_report_changed s') 0) \<and>
     (bit (kb_report_changed s) 1 \<longrightarrow> bit (kb_report_changed s') 1) \<and>
     (rp_keys s' \<noteq> rp_keys s \<longrightarrow> bit (kb_report_changed s') 0) \<and>
     (rp_bits s' \<noteq> rp_bits s \<longrightarrow> bit (kb_report_changed s') 1)"

lemma tracked_step: "tracked s \<Longrightarrow> same_host s s' \<Longrightarrow> notices s s' \<Longrightarrow> tracked s'"
  unfolding tracked_def same_host_def notices_def by metis

lemma steps_trans:
  "same_host s s' \<Longrightarrow> same_host s' s'' \<Longrightarrow> same_host s s''"
  "notices s s' \<Longrightarrow> notices s' s'' \<Longrightarrow> notices s s''"
  by (auto simp: same_host_def notices_def)

lemmas flag_bits [simp] = bit_set_mask [where w = "w :: u8" for w] bit_clear_mask [where w = "w :: u8" for w]

lemma add_key_byte_step: "same_host s (add_key_byte k s) \<and> notices s (add_key_byte k s)"
  by (auto simp: add_key_byte_def same_host_def notices_def effective_mods_def split: prod.splits option.splits bool.splits)

lemma del_key_byte_step: "same_host s (del_key_byte k s) \<and> notices s (del_key_byte k s)"
proof -
  have "map (\<lambda>c. if c = k then 0 else c) ks = ks" if "k \<notin> set ks" for ks
    using that by (induction ks) auto
  then show ?thesis by (auto simp: del_key_byte_eq same_host_def notices_def effective_mods_def)
qed

lemma or_bit_id: "b AND bits_mask k \<noteq> 0 \<Longrightarrow> b OR bits_mask k = b"
  by (intro bit_word_eqI) (auto simp: bits_mask_test bit_or_iff bit_bits_mask)

lemma and_bit_id: "b AND bits_mask k = 0 \<Longrightarrow> b AND NOT (bits_mask k) = b"
  using bits_mask_test [of b k]
  by (intro bit_word_eqI) (auto simp: bit_and_iff bit_not_iff bit_bits_mask)

lemma add_key_bit_step: "same_host s (add_key_bit k s) \<and> notices s (add_key_bit k s)"
  by (auto simp: add_key_bit_def same_host_def notices_def effective_mods_def Let_def or_bit_id)

lemma del_key_bit_step: "same_host s (snd (del_key_bit k s)) \<and> notices s (snd (del_key_bit k s))"
  by (auto simp: del_key_bit_def same_host_def notices_def effective_mods_def Let_def and_bit_id)

lemma key_op_step:
  "same_host s (add_key_to_report c k s) \<and> notices s (add_key_to_report c k s)"
  "same_host s (del_key_from_report c k s) \<and> notices s (del_key_from_report c k s)"
  "same_host s (clear_keys_from_report True s) \<and> notices s (clear_keys_from_report True s)"
  subgoal by (simp add: add_key_to_report_def add_key_bit_step add_key_byte_step)
  subgoal
    using del_key_bit_step [of s k] del_key_byte_step [of s k] del_key_byte_step [of "snd (del_key_bit k s)" k]
    by (auto simp: del_key_from_report_def split_beta intro: steps_trans)
  subgoal by (auto simp: clear_keys_from_report_def same_host_def notices_def effective_mods_def)
  done

lemma key_op_tracked:
  assumes "tracked s"
  shows "tracked (add_key_to_report c k s)" "tracked (del_key_from_report c k s)"
    "tracked (clear_keys_from_report True s)"
  using tracked_step [OF assms] key_op_step by blast+

lemma mods_op_tracked:
  assumes "tracked s"
  shows "tracked (add_mods m s)" "tracked (del_mods m s)" "tracked (set_mods m s)" "tracked (clear_mods s)"
    "tracked (add_weak_mods m s)" "tracked (del_weak_mods m s)" "tracked (set_weak_mods m s)"
    "tracked (clear_weak_mods s)" "tracked (set_weak_override_mods m s)" "tracked (clear_weak_override_mods s)"
    "tracked (clear_suppressed_override_mods s)"
proof -
  have idem: "a AND b = b \<Longrightarrow> a OR b = a" "a AND b = 0 \<Longrightarrow> a AND NOT b = a" for a b :: u8
    by (auto simp: bit_eq_iff bit_simps)
  show "tracked (add_mods m s)" "tracked (del_mods m s)" "tracked (set_mods m s)" "tracked (clear_mods s)"
    "tracked (add_weak_mods m s)" "tracked (del_weak_mods m s)" "tracked (set_weak_mods m s)"
    "tracked (clear_weak_mods s)" "tracked (set_weak_override_mods m s)" "tracked (clear_weak_override_mods s)"
    "tracked (clear_suppressed_override_mods s)"
    using assms idem by (auto simp: tracked_def effective_mods_def flag_std_def add_mods_def del_mods_def
        set_mods_def clear_mods_def add_weak_mods_def del_weak_mods_def set_weak_mods_def clear_weak_mods_def
        set_weak_override_mods_def clear_weak_override_mods_def clear_suppressed_override_mods_def)
qed

lemma send_6kro_tracked:
  assumes "tracked s"
  shows "tracked (send_6kro_report s)" and "last_std (send_6kro_report s) = (effective_mods s, rp_keys s)"
    and "effective_mods (send_6kro_report s) = effective_mods s"
    and "rp_keys (send_6kro_report s) = rp_keys s" and "rp_bits (send_6kro_report s) = rp_bits s"
    and "last_nkro (send_6kro_report s) = last_nkro s"
    and "bit (kb_report_changed (send_6kro_report s)) 1 = bit (kb_report_changed s) 1"
    and "\<not> bit (kb_report_changed (send_6kro_report s)) 0"
  using assms by (auto simp: send_6kro_report_def get_mods_for_report_def tracked_def effective_mods_def Let_def)

lemma send_nkro_tracked:
  assumes "tracked s"
  shows "tracked (send_nkro_report s)" and "last_nkro (send_nkro_report s) = rp_bits s"
    and "effective_mods (send_nkro_report s) = effective_mods s"
    and "rp_keys (send_nkro_report s) = rp_keys s" and "rp_bits (send_nkro_report s) = rp_bits s"
    and "last_std (send_nkro_report s) = last_std s"
  using assms by (auto simp: send_nkro_report_def tracked_def effective_mods_def Let_def)

lemma send_tracked:
  assumes "tracked s"
  shows "tracked (send_keyboard_report True s)" and "up_to_date (send_keyboard_report True s)"
proof -
  define s1 where "s1 = (if bit (kb_report_changed s) 0 then send_6kro_report s else s)"
  have s1: "tracked s1" "last_std s1 = (effective_mods s1, rp_keys s1)"
    using assms send_6kro_tracked [OF assms] by (auto simp: s1_def tracked_def)
  have send: "send_keyboard_report True s = (if bit (kb_report_changed s1) 1 then send_nkro_report s1 else s1)"
    by (simp add: send_keyboard_report_def s1_def Let_def and_col_mask_iff)
  show "tracked (send_keyboard_report True s)"
    unfolding send using s1(1) send_nkro_tracked(1) by simp
  show "up_to_date (send_keyboard_report True s)"
    unfolding send up_to_date_def using s1 send_nkro_tracked [OF s1(1)] by (auto simp: tracked_def)
qed

lemma exec_tracked:
  assumes "tracked s" and "\<And>m. op \<noteq> SetSuppressed m"
  shows "tracked (exec_op op s)"
  using assms by (cases op) (auto simp: mods_op_tracked send_tracked key_op_tracked)


definition host_init :: host_state where
  "host_init = key_report.extend key_report_init
     \<lparr>real_mods = 0, weak_mods = 0, weak_override_mods = 0, suppressed_mods = 0, oneshot_mods = 0,
      oneshot_locked_mods = 0, oneshot_enable = True, last_std = (0, replicate 6 0),
      last_nkro = replicate 30 0, sent = []\<rparr>"

lemma tracked_init: "tracked host_init"
  by (simp add: tracked_def host_init_def key_report_init_def key_report.defs effective_mods_def)


text \<open>Suppressing a modifier is not noticed: the next send tells the host nothing.\<close>

lemma suppressed_mods_not_sent:
  defines "s \<equiv> set_suppressed_override_mods 2 (send_keyboard_report True (add_mods 2 host_init))"
  shows "effective_mods s = 0" and "last_std s = (2, replicate 6 0)"
    and "send_keyboard_report True s = s"
proof -
  have "s = host_init\<lparr>real_mods := 2, suppressed_mods := 2, last_std := (2, replicate 6 0),
      sent := [Std 2 (replicate 6 0)]\<rparr>"
    by (simp add: s_def set_suppressed_override_mods_def add_mods_def flag_std_def send_keyboard_report_def
        send_6kro_report_def get_mods_for_report_def host_init_def key_report_init_def key_report.defs col_mask_def)
  then show "effective_mods s = 0" and "last_std s = (2, replicate 6 0)" and "send_keyboard_report True s = s"
    by (simp_all add: effective_mods_def send_keyboard_report_def host_init_def key_report_init_def key_report.defs)
qed

lemma report_cong:
  fixes s :: "'y key_report_scheme" and s' :: "'z key_report_scheme"
  assumes "rp_keys s' = rp_keys s" and "rp_bits s' = rp_bits s" and "kb_keys_count s' = kb_keys_count s"
    and "nkro_bit_count s' = nkro_bit_count s"
  shows "report_ok s' \<longleftrightarrow> report_ok s" and "held_keys s' = held_keys s"
  using assms by (simp_all add: report_ok_def held_keys_def byte_keys_def bit_keys_def)

text \<open>A send with the flag up, whatever the one-shot modifiers.\<close>

lemma send_flagged:
  assumes "bit (kb_report_changed s) 0"
  defines "s' \<equiv> send_keyboard_report True s"
  shows "last_std s' = (effective_mods s, rp_keys s)"
    and "oneshot_mods s' = (if has_anykey s = 0 then oneshot_mods s else 0)"
    and "rp_keys s' = rp_keys s" "rp_bits s' = rp_bits s"
      "kb_keys_count s' = kb_keys_count s" "nkro_bit_count s' = nkro_bit_count s"
    and "real_mods s' = real_mods s" "weak_mods s' = weak_mods s" "suppressed_mods s' = suppressed_mods s"
      "weak_override_mods s' = weak_override_mods s"
  using assms(1)
  by (auto simp: s'_def send_keyboard_report_def send_6kro_report_def send_nkro_report_def get_mods_for_report_def
      clear_oneshot_mods_def effective_mods_def and_col_mask_iff Let_def or.assoc)

lemma oneshot_press:
  assumes "report_ok s" and "held_keys s = {}" and "k \<noteq> 0"
  shows "add_key_to_report True k s = add_key_byte k s" and "bit (kb_report_changed (add_key_byte k s)) 0"
    and "k \<in> set (rp_keys (add_key_byte k s))"
proof -
  have "unat (kb_keys_count s) = 0"
    using has_anykey_card [OF assms(1)] assms card_byte_keys [of s]
    by (simp add: report_ok_def held_keys_def)
  then show "add_key_to_report True k s = add_key_byte k s" by (simp add: add_key_to_report_def)
  have "set (rp_keys s) \<subseteq> {0}" "rp_keys s \<noteq> []"
    using assms(1,2) by (auto simp: held_keys_def byte_keys_def report_ok_def)
  then have "k \<notin> set (rp_keys s)" "0 \<in> set (rp_keys s)" using assms(3) by (auto simp: neq_Nil_conv)
  with takeWhile_slot [OF this(2)]
  show "bit (kb_report_changed (add_key_byte k s)) 0" and "k \<in> set (rp_keys (add_key_byte k s))"
    by (simp_all add: add_key_byte_eq assms(3) set_update_memI)
qed



end
