(* ===== verification/Keycodes.thy ===== *)
theory Keycodes
  imports Prelude
begin

text \<open>
  Keycodes and action codes: the ranges of \<open>keycodes.h\<close>, the bit fields of \<open>action_t\<close> (\<open>action_code.h\<close>), the remapping
  of \<open>keycode_config.c\<close>, the translation of a keycode to an action (\<open>keymap_common.c\<close>), the usages of \<open>report.h\<close> and the
  magic keycodes (\<open>process_magic.c\<close>).  Configuration: \<open>EXTRAKEY_ENABLE\<close>, tapping and one-shot keys, no swap hands, no audio.
\<close>

section \<open>Ranges\<close>

definition IS_BASIC_KEYCODE :: "u16 \<Rightarrow> bool" where "IS_BASIC_KEYCODE k \<longleftrightarrow> 0x04 \<le> k \<and> k \<le> 0xA4"
definition IS_MODIFIER_KEYCODE :: "u16 \<Rightarrow> bool" where "IS_MODIFIER_KEYCODE k \<longleftrightarrow> 0xE0 \<le> k \<and> k \<le> 0xE7"
definition IS_SYSTEM_KEYCODE :: "u16 \<Rightarrow> bool" where "IS_SYSTEM_KEYCODE k \<longleftrightarrow> 0xA5 \<le> k \<and> k \<le> 0xA7"
definition IS_CONSUMER_KEYCODE :: "u16 \<Rightarrow> bool" where "IS_CONSUMER_KEYCODE k \<longleftrightarrow> 0xA8 \<le> k \<and> k \<le> 0xC2"
definition IS_CONSUMER_RESERVED_KEYCODE :: "u16 \<Rightarrow> bool" where "IS_CONSUMER_RESERVED_KEYCODE k \<longleftrightarrow> 0x7F00 \<le> k \<and> k \<le> 0x7F33"
definition IS_MOUSE_KEYCODE :: "u16 \<Rightarrow> bool" where "IS_MOUSE_KEYCODE k \<longleftrightarrow> 0xCD \<le> k \<and> k \<le> 0xDF"
definition IS_MAGIC_KEYCODE :: "u16 \<Rightarrow> bool" where "IS_MAGIC_KEYCODE k \<longleftrightarrow> 0x7000 \<le> k \<and> k \<le> 0x7022"

definition MOD_BIT :: "u16 \<Rightarrow> u8" where "MOD_BIT k = col_mask (unat (k AND 7))"

abbreviation KC_ESCAPE :: u16 where "KC_ESCAPE \<equiv> 0x29"
abbreviation KC_BACKSPACE :: u16 where "KC_BACKSPACE \<equiv> 0x2A"
abbreviation KC_BACKSLASH :: u16 where "KC_BACKSLASH \<equiv> 0x31"
abbreviation KC_GRAVE :: u16 where "KC_GRAVE \<equiv> 0x35"
abbreviation KC_CAPS_LOCK :: u16 where "KC_CAPS_LOCK \<equiv> 0x39"
abbreviation KC_LOCKING_CAPS_LOCK :: u16 where "KC_LOCKING_CAPS_LOCK \<equiv> 0x82"
abbreviation KC_LEFT_CTRL :: u16 where "KC_LEFT_CTRL \<equiv> 0xE0"
abbreviation KC_LEFT_ALT :: u16 where "KC_LEFT_ALT \<equiv> 0xE2"
abbreviation KC_LEFT_GUI :: u16 where "KC_LEFT_GUI \<equiv> 0xE3"
abbreviation KC_RIGHT_CTRL :: u16 where "KC_RIGHT_CTRL \<equiv> 0xE4"
abbreviation KC_RIGHT_ALT :: u16 where "KC_RIGHT_ALT \<equiv> 0xE6"
abbreviation KC_RIGHT_GUI :: u16 where "KC_RIGHT_GUI \<equiv> 0xE7"

section \<open>The keymap configuration\<close>

record keymap_config =
  swap_control_capslock :: bool
  capslock_to_control :: bool
  swap_lalt_lgui :: bool
  swap_ralt_rgui :: bool
  no_gui :: bool
  swap_grave_esc :: bool
  swap_backslash_backspace :: bool
  nkro :: bool
  swap_lctl_lgui :: bool
  swap_rctl_rgui :: bool
  kc_oneshot_enable :: bool
  swap_escape_capslock :: bool
  autocorrect_enable :: bool

definition keycode_config :: "keymap_config \<Rightarrow> u16 \<Rightarrow> u16" where
  "keycode_config c k =
     (if k = KC_CAPS_LOCK \<or> k = KC_LOCKING_CAPS_LOCK then
        (if swap_control_capslock c \<or> capslock_to_control c then KC_LEFT_CTRL
         else if swap_escape_capslock c then KC_ESCAPE else k)
      else if k = KC_LEFT_CTRL then
        (if swap_control_capslock c then KC_CAPS_LOCK
         else if swap_lctl_lgui c then (if no_gui c then 0 else KC_LEFT_GUI) else k)
      else if k = KC_LEFT_ALT then (if swap_lalt_lgui c then (if no_gui c then 0 else KC_LEFT_GUI) else k)
      else if k = KC_LEFT_GUI then
        (if swap_lalt_lgui c then KC_LEFT_ALT else if swap_lctl_lgui c then KC_LEFT_CTRL else if no_gui c then 0 else k)
      else if k = KC_RIGHT_CTRL then (if swap_rctl_rgui c then (if no_gui c then 0 else KC_RIGHT_GUI) else k)
      else if k = KC_RIGHT_ALT then (if swap_ralt_rgui c then (if no_gui c then 0 else KC_RIGHT_GUI) else k)
      else if k = KC_RIGHT_GUI then
        (if swap_ralt_rgui c then KC_RIGHT_ALT else if swap_rctl_rgui c then KC_RIGHT_CTRL else if no_gui c then 0 else k)
      else if k = KC_GRAVE then (if swap_grave_esc c then KC_ESCAPE else k)
      else if k = KC_ESCAPE then
        (if swap_grave_esc c then KC_GRAVE else if swap_escape_capslock c then KC_CAPS_LOCK else k)
      else if k = KC_BACKSLASH then (if swap_backslash_backspace c then KC_BACKSPACE else k)
      else if k = KC_BACKSPACE then (if swap_backslash_backspace c then KC_BACKSLASH else k)
      else k)"

text \<open>Packed modifiers: four bits and the right-hand bit 4.\<close>

abbreviation MOD_LCTL :: u8 where "MOD_LCTL \<equiv> 0x01"
abbreviation MOD_LALT :: u8 where "MOD_LALT \<equiv> 0x04"
abbreviation MOD_LGUI :: u8 where "MOD_LGUI \<equiv> 0x08"
abbreviation MOD_RCTL :: u8 where "MOD_RCTL \<equiv> 0x11"
abbreviation MOD_RALT :: u8 where "MOD_RALT \<equiv> 0x14"
abbreviation MOD_RGUI :: u8 where "MOD_RGUI \<equiv> 0x18"

definition swap_mods :: "bool \<Rightarrow> u8 \<Rightarrow> u8 \<Rightarrow> u8 \<Rightarrow> u8 \<Rightarrow> u8 \<Rightarrow> u8 \<Rightarrow> u8" where
  "swap_mods on m1 v1 m2 v2 flip x =
     (if on \<and> (x AND m1 = v1) \<noteq> (x AND m2 = v2) then x XOR flip else x)"

definition mod_config :: "keymap_config \<Rightarrow> u8 \<Rightarrow> u8" where
  "mod_config c x =
     (let x = swap_mods (swap_lalt_lgui c) MOD_RALT MOD_LALT MOD_RGUI MOD_LGUI (MOD_LALT OR MOD_LGUI) x;
          x = swap_mods (swap_ralt_rgui c) MOD_RALT MOD_RALT MOD_RGUI MOD_RGUI (MOD_LALT OR MOD_LGUI) x;
          x = swap_mods (swap_lctl_lgui c) MOD_RCTL MOD_LCTL MOD_RGUI MOD_LGUI (MOD_LCTL OR MOD_LGUI) x;
          x = swap_mods (swap_rctl_rgui c) MOD_RCTL MOD_RCTL MOD_RGUI MOD_RGUI (MOD_LCTL OR MOD_LGUI) x
      in if no_gui c then x AND NOT MOD_LGUI AND NOT MOD_RGUI else x)"

section \<open>Action codes\<close>

definition kind_id :: "u16 \<Rightarrow> u16" where "kind_id a = drop_bit 12 a"
definition key_code :: "u16 \<Rightarrow> u8" where "key_code a = ucast a"
definition key_mods :: "u16 \<Rightarrow> u8" where "key_mods a = ucast (drop_bit 8 a AND 0xF)"

text \<open>\<open>layer_tap.val\<close>, \<open>layer_mods\<close>, \<open>layer_bitop\<close> and \<open>usage\<close>.\<close>

definition layer_tap_val :: "u16 \<Rightarrow> u8" where "layer_tap_val a = ucast (drop_bit 8 a AND 0x1F)"
definition layer_mods_mods :: "u16 \<Rightarrow> u8" where "layer_mods_mods a = ucast a"
definition layer_mods_layer :: "u16 \<Rightarrow> u8" where "layer_mods_layer a = ucast (drop_bit 8 a AND 0xF)"
definition bitop_bits :: "u16 \<Rightarrow> u8" where "bitop_bits a = ucast (a AND 0xF)"
definition bitop_xbit :: "u16 \<Rightarrow> bool" where "bitop_xbit a = bit a 4"
definition bitop_part :: "u16 \<Rightarrow> nat" where "bitop_part a = unat (drop_bit 5 a AND 7)"
definition bitop_on :: "u16 \<Rightarrow> u8" where "bitop_on a = ucast (drop_bit 8 a AND 3)"
definition bitop_op :: "u16 \<Rightarrow> u8" where "bitop_op a = ucast (drop_bit 10 a AND 3)"
definition usage_code :: "u16 \<Rightarrow> u16" where "usage_code a = a AND 0x3FF"
definition usage_page :: "u16 \<Rightarrow> u8" where "usage_page a = ucast (drop_bit 10 a AND 3)"

abbreviation ACT_LMODS :: u16 where "ACT_LMODS \<equiv> 0"
abbreviation ACT_RMODS :: u16 where "ACT_RMODS \<equiv> 1"
abbreviation ACT_LMODS_TAP :: u16 where "ACT_LMODS_TAP \<equiv> 2"
abbreviation ACT_RMODS_TAP :: u16 where "ACT_RMODS_TAP \<equiv> 3"
abbreviation ACT_USAGE :: u16 where "ACT_USAGE \<equiv> 4"
abbreviation ACT_MOUSEKEY :: u16 where "ACT_MOUSEKEY \<equiv> 5"
abbreviation ACT_SWAP_HANDS :: u16 where "ACT_SWAP_HANDS \<equiv> 6"
abbreviation ACT_LAYER :: u16 where "ACT_LAYER \<equiv> 8"
abbreviation ACT_LAYER_MODS :: u16 where "ACT_LAYER_MODS \<equiv> 9"
abbreviation ACT_LAYER_TAP :: u16 where "ACT_LAYER_TAP \<equiv> 10"
abbreviation ACT_LAYER_TAP_EXT :: u16 where "ACT_LAYER_TAP_EXT \<equiv> 11"

abbreviation OP_TAP_TOGGLE :: u8 where "OP_TAP_TOGGLE \<equiv> 0xF0"
abbreviation OP_ON_OFF :: u8 where "OP_ON_OFF \<equiv> 0xF1"
abbreviation OP_OFF_ON :: u8 where "OP_OFF_ON \<equiv> 0xF2"
abbreviation OP_SET_CLEAR :: u8 where "OP_SET_CLEAR \<equiv> 0xF3"
abbreviation OP_ONESHOT :: u8 where "OP_ONESHOT \<equiv> 0xF4"
abbreviation OP_SH_TAP_TOGGLE :: u8 where "OP_SH_TAP_TOGGLE \<equiv> 0xF1"

abbreviation OP_BIT_AND :: u8 where "OP_BIT_AND \<equiv> 0"
abbreviation OP_BIT_OR :: u8 where "OP_BIT_OR \<equiv> 1"
abbreviation OP_BIT_XOR :: u8 where "OP_BIT_XOR \<equiv> 2"
abbreviation OP_BIT_SET :: u8 where "OP_BIT_SET \<equiv> 3"

abbreviation MODS_ONESHOT :: u8 where "MODS_ONESHOT \<equiv> 0"
abbreviation MODS_TAP_TOGGLE :: u8 where "MODS_TAP_TOGGLE \<equiv> 1"

definition ACTION :: "u16 \<Rightarrow> u16 \<Rightarrow> u16" where
  "ACTION kind param = push_bit 12 kind OR param"

definition ACTION_MODS_KEY :: "u16 \<Rightarrow> u8 \<Rightarrow> u16 \<Rightarrow> u16" where
  "ACTION_MODS_KEY kind mods key = ACTION kind (push_bit 8 (ucast mods AND 0x1F) OR key)"

definition ACTION_LAYER_BITOP :: "u8 \<Rightarrow> u16 \<Rightarrow> u16 \<Rightarrow> u16 \<Rightarrow> u16" where
  "ACTION_LAYER_BITOP op part bits on =
     ACTION ACT_LAYER (push_bit 10 (ucast op) OR push_bit 8 on OR push_bit 5 part OR (bits AND 0x1F))"

definition layer_bit :: "u16 \<Rightarrow> u16" where "layer_bit l = push_bit (unat (l mod 4)) 1"

definition ACTION_LAYER_TAP :: "u16 \<Rightarrow> u16 \<Rightarrow> u16" where
  "ACTION_LAYER_TAP layer key = ACTION ACT_LAYER_TAP (push_bit 8 layer OR key)"

definition KEYCODE2SYSTEM :: "u16 \<Rightarrow> u16" where
  "KEYCODE2SYSTEM k = (if k = 0xA5 then 0x81 else if k = 0xA6 then 0x82 else if k = 0xA7 then 0x83 else 0)"

text \<open>The usages of \<open>KC_AUDIO_MUTE\<close> 0xA8 to \<open>KC_LAUNCHPAD\<close> 0xC2, in keycode order.\<close>

definition consumer_usages :: "u16 list" where
  "consumer_usages =
     [0x0E2, 0x0E9, 0x0EA, 0x0B5, 0x0B6, 0x0B7, 0x0CD, 0x183, 0x0CC, 0x18A, 0x192, 0x194, 0x221, 0x223, 0x224, 0x225,
      0x226, 0x227, 0x22A, 0x0B3, 0x0B4, 0x06F, 0x070, 0x19F, 0x1CB, 0x29F, 0x2A0]"

definition KEYCODE2CONSUMER :: "u16 \<Rightarrow> u16" where
  "KEYCODE2CONSUMER k =
     (if IS_CONSUMER_KEYCODE k then consumer_usages ! (unat k - 0xA8)
      else if IS_CONSUMER_RESERVED_KEYCODE k then 0x1CC + (k - 0x7F00) else 0)"

definition action_for_keycode :: "keymap_config \<Rightarrow> u16 \<Rightarrow> u16" where
  "action_for_keycode c kc =
     (let k = keycode_config c kc; low = k AND 0xFF; l = k AND 0x1F; m8 = ucast (drop_bit 8 k AND 0x1F) :: u8 in
      if IS_BASIC_KEYCODE k \<or> IS_MODIFIER_KEYCODE k then ACTION ACT_LMODS k
      else if IS_SYSTEM_KEYCODE k then ACTION ACT_USAGE (KEYCODE2SYSTEM k)
      else if IS_CONSUMER_KEYCODE k \<or> IS_CONSUMER_RESERVED_KEYCODE k then ACTION ACT_USAGE (push_bit 10 1 OR KEYCODE2CONSUMER k)
      else if IS_MOUSE_KEYCODE k then ACTION ACT_MOUSEKEY k
      else if k = 1 then 1
      else if 0x0100 \<le> k \<and> k \<le> 0x1FFF then ACTION_MODS_KEY ACT_LMODS (mod_config c m8) (keycode_config c low)
      else if 0x4000 \<le> k \<and> k \<le> 0x4FFF then ACTION_LAYER_TAP (drop_bit 8 k AND 0xF) (keycode_config c low)
      else if 0x5200 \<le> k \<and> k \<le> 0x521F then ACTION_LAYER_BITOP OP_BIT_SET (l div 4) (layer_bit l) 1
      else if 0x5220 \<le> k \<and> k \<le> 0x523F then ACTION_LAYER_TAP l 0xF1
      else if 0x5240 \<le> k \<and> k \<le> 0x525F then ACTION_LAYER_BITOP OP_BIT_SET (l div 4) (layer_bit l) 0
      else if 0x5260 \<le> k \<and> k \<le> 0x527F then ACTION_LAYER_BITOP OP_BIT_XOR (l div 4) (layer_bit l) 2
      else if 0x5280 \<le> k \<and> k \<le> 0x529F then ACTION_LAYER_TAP l 0xF4
      else if 0x52A0 \<le> k \<and> k \<le> 0x52BF then ACTION_MODS_KEY ACT_LMODS_TAP (mod_config c (ucast l)) 0
      else if 0x52C0 \<le> k \<and> k \<le> 0x52DF then ACTION_LAYER_TAP l 0xF0
      else if 0x5000 \<le> k \<and> k \<le> 0x51FF then
        (let x = mod_config c (ucast l)
         in ACTION ACT_LAYER_MODS (push_bit 8 (drop_bit 5 k AND 0xF) OR ucast (if x AND 0x10 \<noteq> 0 then push_bit 4 (x AND 0xF) else x)))
      else if 0x2000 \<le> k \<and> k \<le> 0x3FFF then ACTION_MODS_KEY ACT_LMODS_TAP (mod_config c m8) (keycode_config c low)
      else 0)"

section \<open>Modifiers under \<open>no_gui\<close>\<close>

text \<open>With \<open>no_gui\<close> no GUI bit is left, but \<open>MOD_RGUI\<close> also holds the right-hand bit: every right-hand modifier becomes a
  left-hand one.\<close>

lemma no_gui_clears: "no_gui c \<Longrightarrow> mod_config c x AND MOD_RGUI = 0"
  by (simp add: mod_config_def Let_def bit_eq_iff bit_simps)

lemma no_gui_right_hand:
  "no_gui c \<Longrightarrow> \<not> swap_rctl_rgui c \<Longrightarrow> \<not> swap_lctl_lgui c \<Longrightarrow> mod_config c MOD_RCTL = MOD_LCTL"
  by (simp add: mod_config_def swap_mods_def)

end
