(* ===== verification/Okmc.thy ===== *)
theory Okmc
  imports Profile Modifiers Keycodes
begin

text \<open>
  One key, multiple commands (\<open>analog_matrix/action_okmc.c\<close>): a key with four travel points runs the
  actions of up to four keycodes on each of them.  The key reports it drives are those of \<open>KeyReport\<close> and
  \<open>Modifiers\<close>, through the contract \<open>key_set\<close>.
\<close>

section \<open>Actions\<close>

abbreviation OKMC_RELEASED :: u8 where "OKMC_RELEASED \<equiv> 0"
abbreviation OKMC_SHALLOW_ACTUATED :: u8 where "OKMC_SHALLOW_ACTUATED \<equiv> 1"
abbreviation OKMC_DEEP_ACTUATED :: u8 where "OKMC_DEEP_ACTUATED \<equiv> 2"
abbreviation OKMC_DEEP_DEACT_READY :: u8 where "OKMC_DEEP_DEACT_READY \<equiv> 3"
abbreviation OKMC_DEEP_DEACTUATED :: u8 where "OKMC_DEEP_DEACTUATED \<equiv> 4"


definition report_action :: "bool \<Rightarrow> u16 \<Rightarrow> host_state \<Rightarrow> host_state" where
  "report_action add k h =
     (if add then
        (if IS_BASIC_KEYCODE k then
           (if \<not> is_key_pressed True (ucast k) h then add_key_to_report True (ucast k) h else h)
         else if IS_MODIFIER_KEYCODE k then add_mods (MOD_BIT k) h else h)
      else
        (if IS_BASIC_KEYCODE k then
           (if is_key_pressed True (ucast k) h then del_key_from_report True (ucast k) h else h)
         else if IS_MODIFIER_KEYCODE k then del_mods (MOD_BIT k) h else h))"

definition release_okmc_keys :: "okmc_config \<Rightarrow> host_state \<Rightarrow> host_state" where
  "release_okmc_keys k h =
     send_keyboard_report True
       (fold (\<lambda>i h. if okmc_keycode k ! i \<noteq> 0 then report_action False (okmc_keycode k ! i) h else h) [0..<4] h)"

text \<open>The body the four \<open>shallow_actuate\<close> to \<open>deep_deactuate\<close> share; \<open>sel\<close> is the field they test.
  Bits 0 and 2 release, bit 1 presses.\<close>

definition okmc_point :: "(okmc_act \<Rightarrow> 4 word) \<Rightarrow> okmc_config \<Rightarrow> nat \<Rightarrow> nat \<Rightarrow> bool \<times> host_state \<Rightarrow> bool \<times> host_state" where
  "okmc_point sel k n i = (\<lambda>(any_action, h).
     if okmc_keycode k ! i \<noteq> 0 \<and> sel (okmc_acts k ! i) AND col_mask n \<noteq> 0
     then (True, report_action (odd n) (okmc_keycode k ! i) h) else (any_action, h))"

definition okmc_actions :: "(okmc_act \<Rightarrow> 4 word) \<Rightarrow> okmc_config \<Rightarrow> host_state \<Rightarrow> host_state" where
  "okmc_actions sel k h =
     fold (\<lambda>n h. case fold (okmc_point sel k n) [0..<4] (False, h) of
                   (any_action, h) \<Rightarrow> if any_action then send_keyboard_report True h else h) [0, 1, 2] h"

definition shallow_actuate :: "okmc_config \<Rightarrow> host_state \<Rightarrow> host_state" where
  "shallow_actuate = okmc_actions on_shallow_act"

definition shallow_deactuate :: "okmc_config \<Rightarrow> host_state \<Rightarrow> host_state" where
  "shallow_deactuate k h = release_okmc_keys k (send_keyboard_report True (okmc_actions on_shallow_deact k h))"

definition deep_actuate :: "okmc_config \<Rightarrow> host_state \<Rightarrow> host_state" where
  "deep_actuate = okmc_actions on_deep_act"

definition deep_deactuate :: "okmc_config \<Rightarrow> host_state \<Rightarrow> host_state" where
  "deep_deactuate = okmc_actions on_deep_deact"

section \<open>The state machine\<close>

text \<open>The comparisons are done in \<open>int\<close>, where \<open>shallow_act - 1\<close> may be -1.\<close>

definition okmc_switch :: "okmc_config \<Rightarrow> analog_key \<Rightarrow> host_state \<Rightarrow> bool \<times> u8 \<times> host_state" where
  "okmc_switch k key h =
     (let t = uint (ak_travel key); st = ak_state key; cfg = okmc_travel k;
          at = (\<lambda>p :: 6 word. uint p * TRAVEL_SCALE);
          up = (t < at (shallow_deact cfg) \<and> t < (uint (shallow_act cfg) - 1) * TRAVEL_SCALE)
      in if st = OKMC_RELEASED then
           (if t \<ge> at (shallow_act cfg) then (True, OKMC_SHALLOW_ACTUATED, shallow_actuate k h) else (False, st, h))
         else if st = OKMC_SHALLOW_ACTUATED then
           (if up then (True, OKMC_RELEASED, release_okmc_keys k h)
            else if t \<ge> at (deep_act cfg) then (True, OKMC_DEEP_ACTUATED, deep_actuate k h)
            else (False, st, h))
         else if st = OKMC_DEEP_ACTUATED then
           (if t > at (deep_deact cfg) then (False, OKMC_DEEP_DEACT_READY, h)
            else if up then (True, OKMC_RELEASED, release_okmc_keys k h)
            else (False, st, h))
         else if st = OKMC_DEEP_DEACT_READY then
           (if t \<le> at (deep_deact cfg) then (True, OKMC_DEEP_DEACTUATED, deep_deactuate k h) else (False, st, h))
         else if st = OKMC_DEEP_DEACTUATED then
           (if t \<le> at (shallow_deact cfg) \<and> t < (uint (shallow_act cfg) - 1) * TRAVEL_SCALE
            then (True, OKMC_RELEASED, shallow_deactuate k h) else (False, st, h))
         else (False, st, h))"

definition okmc_action ::
  "profile \<Rightarrow> analog_key \<Rightarrow> host_state \<times> 'r::len word list \<Rightarrow> bool \<times> analog_key \<times> host_state \<times> 'r word list" where
  "okmc_action cur_prof key = (\<lambda>(h, m).
     case okmc_switch (okmc cur_prof ! unat (ak_data key)) key h of (changed, st, h1) \<Rightarrow>
       let r = unat (ak_r key); c = unat (ak_c key)
       in (changed, key\<lparr>ak_state := st\<rparr>, h1,
           if changed then
             (if OKMC_SHALLOW_ACTUATED \<le> st \<and> st \<le> OKMC_DEEP_DEACT_READY
              then m[r := m ! r OR col_mask c] else m[r := m ! r AND NOT (col_mask c)])
           else m))"

definition okmc_clear :: "'r::len word list \<Rightarrow> 'r word list" where
  "okmc_clear m = map (\<lambda>_. 0) m"

section \<open>What the actions keep\<close>

lemma send_frame [simp]:
  "rp_keys (send_keyboard_report c h) = rp_keys h" "rp_bits (send_keyboard_report c h) = rp_bits h"
  "kb_keys_count (send_keyboard_report c h) = kb_keys_count h" "nkro_bit_count (send_keyboard_report c h) = nkro_bit_count h"
  "real_mods (send_keyboard_report c h) = real_mods h"
  by (auto simp: send_keyboard_report_def send_6kro_report_def send_nkro_report_def get_mods_for_report_def
      clear_oneshot_mods_def Let_def split_beta)

lemma report_sets_cong:
  assumes "rp_keys h' = rp_keys h" "rp_bits h' = rp_bits h"
  shows "held_keys h' = held_keys h" "byte_keys h' = byte_keys h" "bit_keys h' = bit_keys h"
  using assms by (simp_all add: held_keys_def byte_keys_def bit_keys_def)

lemma report_ok_cong:
  assumes "rp_keys h' = rp_keys h" "rp_bits h' = rp_bits h" "kb_keys_count h' = kb_keys_count h" "nkro_bit_count h' = nkro_bit_count h"
  shows "report_ok h' = report_ok h"
  using assms report_sets_cong [OF assms(1,2)] by (simp add: report_ok_def)

lemma send_held [simp]:
  "held_keys (send_keyboard_report c h) = held_keys h" "report_ok (send_keyboard_report c h) = report_ok h"
  by (rule report_sets_cong report_ok_cong; simp)+

lemma mods_frame [simp]:
  "held_keys (add_mods x h) = held_keys h" "report_ok (add_mods x h) = report_ok h"
  "held_keys (del_mods x h) = held_keys h" "report_ok (del_mods x h) = report_ok h"
  by (rule report_sets_cong report_ok_cong; simp add: add_mods_def del_mods_def flag_std_def)+

lemma is_key_pressed_held:
  assumes "report_ok h" and "reportable k"
  shows "is_key_pressed True k h \<longleftrightarrow> k \<in> held_keys h"
proof -
  have "bits_index k < NKRO_REPORT_BITS" using assms(2) by (simp add: reportable_def bits_index_div less_mult_imp_div_less)
  then have "k \<in> bit_keys h \<longleftrightarrow> rp_bits h ! bits_index k AND bits_mask k \<noteq> 0"
    using assms(1) by (simp add: in_bit_keys report_ok_def)
  moreover note \<open>bits_index k < NKRO_REPORT_BITS\<close>
  moreover have "nkro_bit_count h = 0 \<Longrightarrow> bit_keys h = {}"
    using assms(1) by (auto simp: report_ok_def)
  ultimately show ?thesis
    using assms by (auto simp: is_key_pressed_def held_keys_def byte_keys_def reportable_def list_ex_iff)
qed

lemma basic_reportable:
  assumes "IS_BASIC_KEYCODE k"
  shows "reportable (ucast k)" and "unat (ucast k :: u8) = unat k"
proof -
  have k: "4 \<le> unat k" "unat k \<le> 164" using assms by (simp_all add: IS_BASIC_KEYCODE_def word_le_nat_alt)
  then show u: "unat (ucast k :: u8) = unat k" by (intro unat_ucast_small) simp
  with k have "unat (ucast k :: u8) \<noteq> 0" by linarith
  then show "reportable (ucast k)" using k u by (auto simp: reportable_def)
qed

definition host_ok :: "host_state \<Rightarrow> bool" where
  "host_ok h \<longleftrightarrow> report_ok h \<and> tracked h"

text \<open>The keycode is neither a key nor a modifier the reports hold down.\<close>

definition freed :: "host_state \<Rightarrow> u16 \<Rightarrow> bool" where
  "freed h k \<longleftrightarrow> (IS_BASIC_KEYCODE k \<longrightarrow> ucast k \<notin> held_keys h) \<and> (IS_MODIFIER_KEYCODE k \<longrightarrow> real_mods h AND MOD_BIT k = 0)"

definition shrinks :: "host_state \<Rightarrow> host_state \<Rightarrow> bool" where
  "shrinks h h' \<longleftrightarrow> held_keys h' \<subseteq> held_keys h \<and> real_mods h' AND NOT (real_mods h) = 0"

lemma freed_shrinks: "freed h k \<Longrightarrow> shrinks h h' \<Longrightarrow> freed h' k"
  by (auto simp: freed_def shrinks_def bit_eq_iff bit_simps)

lemma shrinks_refl [simp]: "shrinks h h"
  by (simp add: shrinks_def)

lemma shrinks_trans: "shrinks h h' \<Longrightarrow> shrinks h' h'' \<Longrightarrow> shrinks h h''"
  by (auto simp: shrinks_def bit_eq_iff bit_simps)

lemma key_mods_frame [simp]:
  "real_mods (add_key_to_report c k h) = real_mods h" "real_mods (del_key_from_report c k h) = real_mods h"
  by (auto simp: add_key_to_report_def add_key_bit_def add_key_byte_def del_key_from_report_def del_key_bit_def
      del_key_byte_def Let_def split: prod.splits option.splits bool.splits)

lemma send_ok: "host_ok h \<Longrightarrow> host_ok (send_keyboard_report True h) \<and> up_to_date (send_keyboard_report True h)
    \<and> shrinks h (send_keyboard_report True h)"
  using send_tracked [of h] by (simp add: host_ok_def shrinks_def)

lemma report_action_ok:
  assumes "host_ok h"
  shows "host_ok (report_action a k h)" and "shrinks h (report_action False k h) \<and> freed (report_action False k h) k"
proof -
  note ok = assms [unfolded host_ok_def]
  have disj: "\<not> (IS_BASIC_KEYCODE k \<and> IS_MODIFIER_KEYCODE k)"
    by (auto simp: IS_BASIC_KEYCODE_def IS_MODIFIER_KEYCODE_def word_le_nat_alt)
  note pressed = is_key_pressed_held [OF conjunct1 [OF ok] basic_reportable(1)]
  show "host_ok (report_action a k h)"
    using ok pressed adaptive.add_law [of h "ucast k"] adaptive.del_law [of h "ucast k"] basic_reportable(1) [of k]
      key_op_tracked [OF conjunct2 [OF ok]] mods_op_tracked [OF conjunct2 [OF ok]]
    by (auto simp: report_action_def host_ok_def)
  show "shrinks h (report_action False k h) \<and> freed (report_action False k h) k"
  proof (cases "IS_BASIC_KEYCODE k")
    case True
    then show ?thesis
      using ok pressed adaptive.del_law [of h "ucast k"] basic_reportable(1) [of k] disj
      by (auto simp: report_action_def shrinks_def freed_def)
  next
    case False
    then show ?thesis by (auto simp: report_action_def shrinks_def freed_def del_mods_def flag_std_def bit_eq_iff bit_simps
      held_keys_def byte_keys_def bit_keys_def)
  qed
qed

lemma release_fold:
  assumes "host_ok h"
  shows "host_ok (fold (\<lambda>i h. if ks ! i \<noteq> 0 then report_action False (ks ! i) h else h) is h)
    \<and> shrinks h (fold (\<lambda>i h. if ks ! i \<noteq> 0 then report_action False (ks ! i) h else h) is h)
    \<and> (\<forall>i \<in> set is. freed (fold (\<lambda>i h. if ks ! i \<noteq> 0 then report_action False (ks ! i) h else h) is h) (ks ! i))"
  using assms
proof (induction "is" arbitrary: h)
  case (Cons i "is")
  define h1 where "h1 = (if ks ! i \<noteq> 0 then report_action False (ks ! i) h else h)"
  have "freed h 0" for h by (simp add: freed_def IS_BASIC_KEYCODE_def IS_MODIFIER_KEYCODE_def)
  then have "host_ok h1" "shrinks h h1" "freed h1 (ks ! i)"
    using Cons.prems report_action_ok(1) report_action_ok(2) [OF Cons.prems, of "ks ! i"] by (auto simp: h1_def)
  with Cons.IH [of h1] show ?case
    by (auto simp: h1_def [symmetric] intro: shrinks_trans freed_shrinks)
qed simp

lemma release_okmc:
  assumes "host_ok h"
  shows "host_ok (release_okmc_keys k h) \<and> up_to_date (release_okmc_keys k h)
    \<and> (\<forall>i < 4. freed (release_okmc_keys k h) (okmc_keycode k ! i))"
proof -
  define h1 where "h1 = fold (\<lambda>i h. if okmc_keycode k ! i \<noteq> 0 then report_action False (okmc_keycode k ! i) h else h) [0..<4] h"
  have f: "host_ok h1" "\<forall>i < 4. freed h1 (okmc_keycode k ! i)"
    using release_fold [OF assms, of "okmc_keycode k" "[0..<4]"] unfolding h1_def by auto
  note s = send_ok [OF f(1)]
  have "release_okmc_keys k h = send_keyboard_report True h1" by (simp add: release_okmc_keys_def h1_def)
  then show ?thesis using f s freed_shrinks by metis
qed

lemma okmc_actions_ok:
  assumes "host_ok h"
  shows "host_ok (okmc_actions sel k h)"
proof -
  have inner: "host_ok h \<Longrightarrow> host_ok (snd (fold (okmc_point sel k n) is (b, h)))" for n "is" b h
    by (induction "is" arbitrary: b h) (auto simp: okmc_point_def report_action_ok(1))
  have step: "host_ok (case fold (okmc_point sel k n) [0..<4] (False, h) of (a, h) \<Rightarrow> if a then send_keyboard_report True h else h)"
    if "host_ok h" for n h
    using inner [OF that, of n "[0..<4]" False] send_ok by (auto simp: split_beta)
  have "host_ok (fold (\<lambda>n h. case fold (okmc_point sel k n) [0..<4] (False, h) of (a, h) \<Rightarrow> if a then send_keyboard_report True h else h) ns h)"
    if "host_ok h" for ns
    using that by (induction ns arbitrary: h) (auto simp del: upt_Suc intro: step)
  then show ?thesis using assms unfolding okmc_actions_def by blast
qed

lemma okmc_switch_ok:
  assumes "host_ok h" and "okmc_switch k key h = (ch, st, h')"
  shows "host_ok h'"
  using assms okmc_actions_ok [OF assms(1)] release_okmc [OF assms(1)] release_okmc [OF conjunct1 [OF send_ok [OF okmc_actions_ok [OF assms(1)]]]]
  by (auto simp: okmc_switch_def shallow_actuate_def deep_actuate_def deep_deactuate_def shallow_deactuate_def Let_def split: if_splits)

section \<open>At rest\<close>

text \<open>A travel of 0 ends every state but one at once; the state that waits for the deep release point needs a
  second call.\<close>

lemma okmc_switch_rest:
  assumes "ak_travel key = 0" and "1 \<le> shallow_deact (okmc_travel k)" and "2 \<le> shallow_act (okmc_travel k)"
  shows "ak_state key = 0 \<Longrightarrow> okmc_switch k key h = (False, 0, h)"
    and "ak_state key = 1 \<or> ak_state key = 2 \<Longrightarrow> okmc_switch k key h = (True, 0, release_okmc_keys k h)"
    and "ak_state key = 3 \<Longrightarrow> okmc_switch k key h = (True, 4, deep_deactuate k h)"
    and "ak_state key = 4 \<Longrightarrow> okmc_switch k key h = (True, 0, shallow_deactuate k h)"
  using assms by (auto simp: okmc_switch_def Let_def word_le_def not_less not_le)

lemma okmc_action_rest:
  assumes "host_ok h" and "k = okmc p ! unat (ak_data key)"
    and "ak_travel key = 0" and "1 \<le> shallow_deact (okmc_travel k)" and "2 \<le> shallow_act (okmc_travel k)"
    and "ak_state key = 1 \<or> ak_state key = 2 \<or> ak_state key = 4" and "unat (ak_r key) < length m"
    and "okmc_action p key (h, m) = (ch, key', h', m')"
  shows "ch \<and> ak_state key' = 0 \<and> key' = key\<lparr>ak_state := 0\<rparr> \<and> host_ok h' \<and> up_to_date h'
    \<and> (\<forall>i < 4. freed h' (okmc_keycode k ! i)) \<and> \<not> bit (m' ! unat (ak_r key)) (unat (ak_c key))"
proof -
  obtain h0 where h0: "host_ok h0" "okmc_switch k key h = (True, 0, release_okmc_keys k h0)"
    using okmc_switch_rest(2,4) [OF assms(3-5), of h] assms(1,6) send_ok okmc_actions_ok
    by (metis shallow_deactuate_def)
  have a: "okmc_action p key (h, m) = (True, key\<lparr>ak_state := 0\<rparr>, release_okmc_keys k h0,
      m[unat (ak_r key) := m ! unat (ak_r key) AND NOT (col_mask (unat (ak_c key)))])"
    using h0(2) assms(2) by (simp add: okmc_action_def Let_def)
  then show ?thesis
    using assms(7,8) release_okmc [OF h0(1), of k] by (auto simp: row_simps)
qed


definition demo_okmc :: okmc_config where
  "demo_okmc = \<lparr>okmc_travel = \<lparr>shallow_act = 10, shallow_deact = 8, deep_act = 30, deep_deact = 25\<rparr>,
     okmc_keycode = [0x04, 0xE1, 0, 0],
     okmc_acts = replicate 4 \<lparr>on_shallow_act = 2, on_shallow_deact = 1, on_deep_act = 0, on_deep_deact = 0\<rparr>\<rparr>"

lemma host_ok_init: "host_ok host_init"
  using tracked_init report_ok_init report_ok_cong [of host_init key_report_init]
  by (simp add: host_ok_def host_init_def key_report.defs)


text \<open>One call does not do: a key that springs back from beyond the deep release point stays in
  \<open>OKMC_DEEP_DEACTUATED\<close>, and with no action on the deep release its keycodes stay held.\<close>

lemma okmc_fast_release_holds:
  assumes "ak_travel key = 0" and "ak_state key = 3" and "k = okmc p ! unat (ak_data key)"
    and "\<forall>i < 4. on_deep_deact (okmc_acts k ! i) = 0" and "1 \<le> shallow_deact (okmc_travel k)" and "2 \<le> shallow_act (okmc_travel k)"
    and "okmc_action p key (h, m) = (ch, key', h', m')"
  shows "ak_state key' = OKMC_DEEP_DEACTUATED \<and> h' = h"
proof -
  have "fold (okmc_point on_deep_deact k n) is (False, h) = (False, h)" if "set is \<subseteq> {..<4}" for n "is" h
    using that by (induction "is") (auto simp: okmc_point_def assms(4))
  from this [of "[0..<4]"] have "deep_deactuate k h = h"
    by (simp add: deep_deactuate_def okmc_actions_def atLeast0LessThan del: upt_Suc)
  then show ?thesis using okmc_switch_rest(3) [OF assms(1,5,6,2), of h] assms(3,7) by (auto simp: okmc_action_def Let_def)
qed

end
