(* ===== verification/Sqrt.thy ===== *)
theory Sqrt
  imports Prelude
begin

text \<open>
  The integer square root of \<open>analog_matrix/sqrt.c\<close>: Newton's iteration from above on \<open>uint32_t\<close>.
  A division by zero, which C leaves undefined, is \<open>None\<close>.
\<close>

function sqrt_loop :: "u32 \<Rightarrow> u32 \<Rightarrow> u32 \<Rightarrow> u32 option" where
  "sqrt_loop n x y =
     (if y < x then (if y = 0 then None else sqrt_loop n y ((y + n div y) div 2)) else Some x)"
  by pat_completeness auto
termination
  by (relation "measure (\<lambda>(n, x, y). unat x)") (auto simp: word_less_nat_alt)

declare sqrt_loop.simps [simp del]

definition sqrt_uint32 :: "u32 \<Rightarrow> u32 option" where
  "sqrt_uint32 n = sqrt_loop n n ((n + 1) div 2)"

section \<open>Newton's step on the naturals\<close>

lemma newton_above:
  fixes n x :: nat
  assumes "0 < x" and "y = (x + n div x) div 2"
  shows "n < (y + 1) * (y + 1)"
proof -
  define q where "q = n div x"
  have "n = q * x + n mod x" by (simp add: q_def)
  then have n: "n < (q + 1) * x" using mod_less_divisor [OF assms(1), of n] by (simp add: algebra_simps)
  have y: "x + q + 1 \<le> 2 * (y + 1)" using assms(2) unfolding q_def [symmetric] by presburger
  have "4 * ((q + 1) * x) \<le> (x + q + 1) * (x + q + 1)"
  proof -
    have "int (4 * ((q + 1) * x)) \<le> int ((x + q + 1) * (x + q + 1))"
      using zero_le_square [of "int x - (int q + 1)"] by (simp add: algebra_simps)
    then show ?thesis by linarith
  qed
  moreover have "(x + q + 1) * (x + q + 1) \<le> 2 * (y + 1) * (2 * (y + 1))" by (rule mult_mono [OF y y]) simp_all
  ultimately have "4 * n < 4 * ((y + 1) * (y + 1))" using n by (simp add: algebra_simps)
  then show ?thesis by simp
qed

lemma newton_stop:
  fixes n x :: nat
  assumes "x \<le> (x + n div x) div 2"
  shows "x * x \<le> n"
proof -
  have "x \<le> n div x" using assms by linarith
  then have "x * x \<le> n div x * x" by (rule mult_le_mono1)
  also have "\<dots> \<le> n" by simp
  finally show ?thesis .
qed

lemma newton_sum:
  fixes n x :: nat
  assumes "1 \<le> x" and "x \<le> n"
  shows "x + n div x \<le> n + 1"
proof -
  obtain d where d: "n = x + d" using assms(2) le_Suc_ex by blast
  have "d \<le> d * x" using assms(1) by simp
  then have "n \<le> (n + 1 - x) * x" by (simp add: d algebra_simps)
  then have "n div x \<le> n + 1 - x" by (metis assms(1) div_le_mono nonzero_mult_div_cancel_right not_one_le_zero)
  then show ?thesis using assms by linarith
qed

section \<open>The loop on words\<close>

definition newton_inv :: "u32 \<Rightarrow> u32 \<Rightarrow> u32 \<Rightarrow> bool" where
  "newton_inv n x y \<longleftrightarrow> 1 \<le> unat x \<and> unat x \<le> unat n \<and> unat y = (unat x + unat n div unat x) div 2 \<and>
     unat n < (unat x + 1) * (unat x + 1)"

lemma unat_newton_step:
  assumes "1 \<le> unat x" and "unat x \<le> unat n" and "unat n < 2 ^ 32 - 1"
  shows "unat ((x + n div x) div 2 :: u32) = (unat x + unat n div unat x) div 2"
proof -
  have "unat x + unat (n div x) < 2 ^ LENGTH(32)" using newton_sum [OF assms(1,2)] assms(3) by (simp add: unat_div_distrib)
  then have "unat (x + n div x) = unat x + unat (n div x)" by (simp add: unat_word_ariths)
  then show ?thesis by (simp add: unat_div_distrib)
qed

lemma sqrt_loop_correct:
  assumes "newton_inv n x y" and "unat n < 2 ^ 32 - 1"
  shows "\<exists>r. sqrt_loop n x y = Some r \<and> unat r * unat r \<le> unat n \<and> unat n < (unat r + 1) * (unat r + 1)"
  using assms
proof (induction n x y rule: sqrt_loop.induct)
  case (1 n x y)
  note inv = "1.prems"(1) [unfolded newton_inv_def]
  show ?case
  proof (cases "y < x")
    case True
    have above: "unat n < (unat y + 1) * (unat y + 1)" using newton_above [of "unat x" "unat y" "unat n"] inv by simp
    have "unat y \<noteq> 0"
    proof
      assume "unat y = 0"
      with above have "unat n < 1" by simp
      with inv show False by linarith
    qed
    then have y: "y \<noteq> 0" "1 \<le> unat y" "unat y \<le> unat n" using True inv by (auto simp: word_less_nat_alt)
    then have "newton_inv n y ((y + n div y) div 2)"
      using above unat_newton_step [OF y(2,3) "1.prems"(2)] by (simp add: newton_inv_def)
    with "1.IH" [OF True y(1) this "1.prems"(2)] True y(1) show ?thesis
      by (subst sqrt_loop.simps) simp
  next
    case False
    then have "unat x \<le> (unat x + unat n div unat x) div 2" using inv by (simp add: word_less_nat_alt)
    then have "unat x * unat x \<le> unat n" by (rule newton_stop)
    then show ?thesis using False inv by (subst sqrt_loop.simps) simp
  qed
qed

lemma sqrt_uint32_sound:
  assumes "n < 0xFFFFFFFF"
  shows "\<exists>r. sqrt_uint32 n = Some r \<and> unat r * unat r \<le> unat n \<and> unat n < (unat r + 1) * (unat r + 1)"
proof (cases "n = 0")
  case True
  then show ?thesis by (simp add: sqrt_uint32_def sqrt_loop.simps)
next
  case False
  then have n: "1 \<le> unat n" "unat n < 2 ^ 32 - 1" using assms by (auto simp: word_less_nat_alt unat_eq_0 Suc_le_eq intro: gr0I)
  have "unat ((n + 1) div 2) = (unat n + 1) div 2"
    using n(2) by (simp add: unat_div_distrib unat_word_ariths)
  then have "newton_inv n n ((n + 1) div 2)"
    using n by (simp add: newton_inv_def algebra_simps)
  from sqrt_loop_correct [OF this n(2)] show ?thesis by (simp add: sqrt_uint32_def)
qed

text \<open>C13. For every argument below 2^32 - 1 the iteration ends without dividing by zero and returns
  the integer square root.\<close>

theorem sqrt_uint32_correct:
  assumes "n < 0xFFFFFFFF"
  shows "\<exists>r. sqrt_uint32 n = Some r \<and> (unat r)\<^sup>2 \<le> unat n \<and> unat n < (unat r + 1)\<^sup>2"
  using sqrt_uint32_sound [OF assms] by (simp add: power2_eq_square)

theorem sqrt_uint32_correct_witness:
  "(66049 :: u32) < 0xFFFFFFFF \<and> (\<exists>r. sqrt_uint32 66049 = Some r \<and> (unat r)\<^sup>2 \<le> 66049 \<and> 66049 < (unat r + 1)\<^sup>2)"
  using sqrt_uint32_correct [of 66049] by simp

text \<open>At the largest argument the first guess \<open>(x + 1) / 2\<close> wraps to 0, the divisor of the next step.\<close>

lemma sqrt_uint32_top: "sqrt_uint32 0xFFFFFFFF = None"
  by (simp add: sqrt_uint32_def sqrt_loop.simps)

end
