(* ===== verification/Floats.thy ===== *)
theory Floats
  imports Complex_Main Prelude
begin

text \<open>
  The floating point arithmetic of the Hall-effect code: values are rationals, each operation computes exactly and
  rounds with \<open>f32\<close> or \<open>f64\<close>.  The rounding functions, the bytes of a \<open>float\<close> and the result of a conversion that does not fit its
  integer type, which C leaves undefined, are those of the target and so an argument of the model.
\<close>

record float_env =
  f32 :: "rat \<Rightarrow> rat"
  f64 :: "rat \<Rightarrow> rat"
  out_of_range :: "rat \<Rightarrow> int"
  f32_bytes :: "rat \<Rightarrow> u8 list"

definition trunc_rat :: "rat \<Rightarrow> int" where
  "trunc_rat q = (if 0 \<le> q then \<lfloor>q\<rfloor> else - \<lfloor>- q\<rfloor>)"

definition f_to_int :: "int \<Rightarrow> int \<Rightarrow> float_env \<Rightarrow> rat \<Rightarrow> int" where
  "f_to_int lo hi fe q = (if lo \<le> trunc_rat q \<and> trunc_rat q \<le> hi then trunc_rat q else out_of_range fe q)"

text \<open>What the proofs use of rounding: it is monotone, and exact on the integers of 24 bits, which both IEEE formats hold.\<close>

definition rounding :: "(rat \<Rightarrow> rat) \<Rightarrow> bool" where
  "rounding f \<longleftrightarrow> mono f \<and> (\<forall>i. \<bar>i\<bar> \<le> 2 ^ 24 \<longrightarrow> f (of_int i) = of_int i)"

definition float_ok :: "float_env \<Rightarrow> bool" where
  "float_ok fe \<longleftrightarrow> rounding (f32 fe) \<and> rounding (f64 fe)"

definition exact_floats :: float_env where
  "exact_floats = \<lparr>f32 = id, f64 = id, out_of_range = (\<lambda>_. 0), f32_bytes = (\<lambda>_. replicate 4 0)\<rparr>"

lemma exact_floats_ok: "float_ok exact_floats"
  by (simp add: float_ok_def rounding_def exact_floats_def mono_def)

lemma rounding_int: "rounding f \<Longrightarrow> \<bar>i\<bar> \<le> 2 ^ 24 \<Longrightarrow> f (of_int i) = of_int i"
  by (simp add: rounding_def)

lemma rounding_0 [simp]: "rounding f \<Longrightarrow> f 0 = 0"
  using rounding_int [of f 0] by simp

lemma rounding_sign:
  assumes "rounding f"
  shows "0 \<le> q \<Longrightarrow> 0 \<le> f q" and "q \<le> 0 \<Longrightarrow> f q \<le> 0"
  using assms monoD [of f 0 q] monoD [of f q 0] rounding_0 [OF assms] by (auto simp: rounding_def)

lemma rounding_mono: "rounding f \<Longrightarrow> p \<le> q \<Longrightarrow> f p \<le> f q"
  by (simp add: rounding_def monoD)

lemma rounding_nat: "rounding f \<Longrightarrow> n \<le> 2 ^ 24 \<Longrightarrow> f (of_nat n) = of_nat n"
  using rounding_int [of f "int n"] by simp

text \<open>A rounded value stays between integers the format holds.\<close>

lemma rounding_between:
  assumes "rounding f" and "of_int lo \<le> q" and "q \<le> of_int hi" and "\<bar>lo\<bar> \<le> 2 ^ 24" and "\<bar>hi\<bar> \<le> 2 ^ 24"
  shows "of_int lo \<le> f q \<and> f q \<le> of_int hi"
  using rounding_mono [OF assms(1,2)] rounding_mono [OF assms(1,3)] rounding_int [OF assms(1)] assms(4,5) by simp

lemma trunc_rat_between:
  assumes "of_int lo \<le> q" and "q \<le> of_int hi" and "lo \<le> 0" and "0 \<le> hi"
  shows "lo \<le> trunc_rat q \<and> trunc_rat q \<le> hi"
proof (cases "0 \<le> q")
  case True
  then show ?thesis using assms by (auto simp: trunc_rat_def le_floor_iff floor_le_iff)
next
  case False
  then have "trunc_rat q = \<lceil>q\<rceil>" by (simp add: trunc_rat_def ceiling_def)
  moreover have "lo \<le> \<lceil>q\<rceil>" using assms(1) ceiling_mono [of "of_int lo" q] by simp
  moreover have "\<lceil>q\<rceil> \<le> 0" using False by (simp add: ceiling_le_iff)
  ultimately show ?thesis using assms(4) by linarith
qed

lemma trunc_rat_sign: "0 \<le> q \<Longrightarrow> 0 \<le> trunc_rat q" "q \<le> 0 \<Longrightarrow> trunc_rat q \<le> 0"
  by (auto simp: trunc_rat_def)

lemma trunc_rat_mono: "0 \<le> p \<Longrightarrow> p \<le> q \<Longrightarrow> trunc_rat p \<le> trunc_rat q"
  by (simp add: trunc_rat_def floor_mono)

lemma trunc_rat_of_int [simp]: "trunc_rat (of_int i) = i"
proof -
  have "\<lfloor>- (of_int i :: rat)\<rfloor> = - i" by (simp flip: of_int_minus)
  then show ?thesis by (simp add: trunc_rat_def)
qed

end
