(* ===== verification/GameController.thy ===== *)
theory GameController
  imports Profile Sqrt Floats
begin

text \<open>
  Analog keys as a game controller: the response curve (\<open>analog_matrix/game_controller_common.c\<close>), the
  HID joystick (\<open>action_joystick.c\<close>, with \<open>quantum/joystick.c\<close>) and the XInput report (\<open>action_xinput.c\<close>).
  Boards build both (\<open>JOYSTICK_ENABLE\<close>, \<open>XINPUT_ENABLE\<close>) and a mode bit chooses.
\<close>

section \<open>State\<close>

record axes_state =
  axis_travel :: "u8 list"
  axis_changed :: "bool list"
  axis_dir :: "int list"
  axis_value :: "int list"

record xinput_report =
  xi_buttons :: u16
  left_trigger :: u8
  right_trigger :: u8
  xi_x :: u16
  xi_y :: u16
  xi_rx :: u16
  xi_ry :: u16

record joystick_state =
  js_buttons :: "u8 list"
  js_axes :: "int list"
  js_dirty :: bool
  js_sent :: "(u8 list \<times> int list) list"

record 'row gc_state =
  game_controller_mode :: u8
  curve :: "(u8 \<times> u8) list"
  slope :: "rat list"
  game_controller_matrix :: "'row list"
  js_ax :: axes_state
  js_rep :: joystick_state
  xi_ax :: axes_state
  xi_rep :: xinput_report
  xinput_changed :: bool
  xi_last_report :: xinput_report
  xi_sent :: "xinput_report list"

abbreviation GC_AXIS_MAX :: nat where "GC_AXIS_MAX \<equiv> 6"
abbreviation GC_BUTTON_0 :: u8 where "GC_BUTTON_0 \<equiv> 13"
abbreviation GC_BUTTON_31 :: u8 where "GC_BUTTON_31 \<equiv> 44"
abbreviation JOYSTICK_BUTTON_COUNT :: nat where "JOYSTICK_BUTTON_COUNT \<equiv> 16"
abbreviation JOYSTICK_MAX_VALUE :: int where "JOYSTICK_MAX_VALUE \<equiv> 127"
abbreviation CURVE_POINTS_COUNT :: nat where "CURVE_POINTS_COUNT \<equiv> 4"

definition axes_clear :: axes_state where
  "axes_clear = \<lparr>axis_travel = replicate 12 0, axis_changed = replicate 12 False, axis_dir = replicate 6 0, axis_value = replicate 6 0\<rparr>"

definition xinput_zero :: xinput_report where
  "xinput_zero = \<lparr>xi_buttons = 0, left_trigger = 0, right_trigger = 0, xi_x = 0, xi_y = 0, xi_rx = 0, xi_ry = 0\<rparr>"

section \<open>The curve\<close>

definition curve_x :: "'row gc_state \<Rightarrow> nat \<Rightarrow> int" where "curve_x s i = uint (fst (curve s ! i))"
definition curve_y :: "'row gc_state \<Rightarrow> nat \<Rightarrow> int" where "curve_y s i = uint (snd (curve s ! i))"

definition game_controller_curve_init :: "float_env \<Rightarrow> (u8 \<times> u8) list \<Rightarrow> 'row gc_state \<Rightarrow> 'row gc_state" where
  "game_controller_curve_init fe pt s =
     (let s1 = s\<lparr>curve := take CURVE_POINTS_COUNT pt\<rparr>
      in if curve_y s1 0 = 0 \<and> curve_y s1 1 = 0 \<and> curve_y s1 2 = 0 \<and> curve_y s1 3 = 0
         then s1\<lparr>curve := [(0, 0), (10, 31), (30, 95), (40, 127)], slope := replicate 3 (f32 fe (3175 / 1000))\<rparr>
         else s1)"

definition game_controller_mode_init :: "u8 \<Rightarrow> 'row gc_state \<Rightarrow> 'row gc_state" where
  "game_controller_mode_init mode s = s\<lparr>game_controller_mode := mode\<rparr>"

definition OFFSET_CURVE_PTS_START :: "board \<Rightarrow> nat" where
  "OFFSET_CURVE_PTS_START b = OFFSET_PROFILES_START b + PROFILE_SIZE b * PROFILE_COUNT"

definition OFFSET_GAME_CONTROLLER_MODE_START :: "board \<Rightarrow> nat" where
  "OFFSET_GAME_CONTROLLER_MODE_START b = OFFSET_CURVE_PTS_START b + CURVE_POINTS_COUNT * 2"

definition curve_bytes :: "(u8 \<times> u8) list \<Rightarrow> u8 list" where
  "curve_bytes pts = concat (map (\<lambda>(x, y). [x, y]) pts)"

text \<open>The setters also write the emulated EEPROM, which is part of the profile state.\<close>

definition game_controller_mode_set ::
  "board \<Rightarrow> u8 \<Rightarrow> 'row gc_state \<times> 'row prof_state \<Rightarrow> bool \<times> 'row gc_state \<times> 'row prof_state" where
  "game_controller_mode_set b mode = (\<lambda>(s, p).
     if game_controller_mode s = mode then (False, s, p)
     else (True, s\<lparr>game_controller_mode := mode\<rparr>,
           analog_matrix_eeprom_update [mode] (OFFSET_GAME_CONTROLLER_MODE_START b)
             (if kb_data_version p \<noteq> EECONFIG_KB_DATA_VERSION then p\<lparr>kb_data_version := EECONFIG_KB_DATA_VERSION\<rparr> else p)))"

definition curve_slope :: "float_env \<Rightarrow> 'row gc_state \<Rightarrow> nat \<Rightarrow> rat \<Rightarrow> rat" where
  "curve_slope fe s i old =
     (if curve_x s i \<noteq> curve_x s (i + 1)
      then f32 fe (of_int (curve_y s (i + 1) - curve_y s i) / of_int (curve_x s (i + 1) - curve_x s i)) else old)"

text \<open>The check reads the curve in use, not the new one.\<close>

definition game_controller_set_curve ::
  "board \<Rightarrow> float_env \<Rightarrow> (u8 \<times> u8) list \<Rightarrow> 'row gc_state \<times> 'row prof_state \<Rightarrow> bool \<times> 'row gc_state \<times> 'row prof_state" where
  "game_controller_set_curve b fe pt = (\<lambda>(s, p).
     if curve_x s 0 > curve_x s 1 \<or> curve_x s 1 > curve_x s 2 \<or> curve_x s 2 > curve_x s 3 then (False, s, p)
     else let s1 = s\<lparr>curve := take CURVE_POINTS_COUNT pt\<rparr>
          in (True, s1\<lparr>slope := map (\<lambda>i. curve_slope fe s1 i (slope s ! i)) [0, 1, 2]\<rparr>,
              analog_matrix_eeprom_update (curve_bytes (curve s1)) (OFFSET_CURVE_PTS_START b) p))"

definition game_controller_get_curve :: "'row gc_state \<Rightarrow> u8 list" where
  "game_controller_get_curve s = curve_bytes (curve s)"

definition game_controller_xinput_enabled :: "'row gc_state \<Rightarrow> bool" where
  "game_controller_xinput_enabled s \<longleftrightarrow> game_controller_mode s AND col_mask 0 \<noteq> 0"

definition game_controller_type_enabled :: "'row gc_state \<Rightarrow> bool" where
  "game_controller_type_enabled s \<longleftrightarrow> game_controller_mode s AND col_mask 1 \<noteq> 0"

section \<open>The HID joystick report\<close>

definition joystick_flush :: "joystick_state \<Rightarrow> joystick_state" where
  "joystick_flush j = (if js_dirty j then j\<lparr>js_sent := js_sent j @ [(js_buttons j, js_axes j)], js_dirty := False\<rparr> else j)"

definition register_joystick_button :: "u8 \<Rightarrow> joystick_state \<Rightarrow> joystick_state" where
  "register_joystick_button button j =
     (if unat button \<ge> JOYSTICK_BUTTON_COUNT then j
      else let i = unat button div 8
           in joystick_flush (j\<lparr>js_buttons := (js_buttons j)[i := js_buttons j ! i OR col_mask (unat button mod 8)], js_dirty := True\<rparr>))"

definition unregister_joystick_button :: "u8 \<Rightarrow> joystick_state \<Rightarrow> joystick_state" where
  "unregister_joystick_button button j =
     (if unat button \<ge> JOYSTICK_BUTTON_COUNT then j
      else let i = unat button div 8
           in joystick_flush (j\<lparr>js_buttons := (js_buttons j)[i := js_buttons j ! i AND NOT (col_mask (unat button mod 8))], js_dirty := True\<rparr>))"

definition joystick_set_axis :: "nat \<Rightarrow> int \<Rightarrow> joystick_state \<Rightarrow> joystick_state" where
  "joystick_set_axis axis v j =
     (let value = sint (as_u16 v)
      in if axis \<ge> GC_AXIS_MAX then j
         else if value \<noteq> js_axes j ! axis then j\<lparr>js_axes := (js_axes j)[axis := value], js_dirty := True\<rparr> else j)"

section \<open>Travel to axes\<close>

text \<open>The direction of an axis and its value, shared by the two reports; \<open>conv\<close> is their conversion.\<close>

definition axis_direction :: "u8 \<Rightarrow> u8 \<Rightarrow> int \<Rightarrow> int" where
  "axis_direction neg pos dir =
     (if uint neg > TRAVEL_SCALE \<and> uint pos > TRAVEL_SCALE then
        (if uint neg > uint pos + 2 * TRAVEL_SCALE then -1
         else if uint neg + 2 * TRAVEL_SCALE < uint pos then 1 else dir)
      else if neg \<noteq> 0 then -1 else if pos \<noteq> 0 then 1 else 0)"

definition axis_step :: "(nat \<Rightarrow> u8 \<Rightarrow> int) \<Rightarrow> nat \<Rightarrow> axes_state \<Rightarrow> axes_state" where
  "axis_step conv i a =
     (let neg = axis_travel a ! (i * 2); pos = axis_travel a ! (i * 2 + 1);
          dir = axis_direction neg pos (axis_dir a ! i);
          v = (if dir < 0 then - conv (i * 2) neg else conv (i * 2 + 1) pos)
      in a\<lparr>axis_dir := (axis_dir a)[i := dir], axis_value := (axis_value a)[i := v]\<rparr>)"

definition axis_touched :: "axes_state \<Rightarrow> nat \<Rightarrow> bool" where
  "axis_touched a i \<longleftrightarrow> axis_changed a ! i \<or> axis_changed a ! (i * 2 + 1)"

text \<open>One axis of a pair that is outside the circle, scaled and clamped in its direction.\<close>

definition clamp_axis :: "int \<Rightarrow> int \<Rightarrow> int \<Rightarrow> int \<Rightarrow> int" where
  "clamp_axis lo hi dir v = (if dir < 0 then (if v < lo then lo else v) else (if v > hi then hi else v))"

definition scale_axis :: "float_env \<Rightarrow> rat \<Rightarrow> int \<Rightarrow> int \<Rightarrow> nat \<Rightarrow> axes_state \<Rightarrow> axes_state" where
  "scale_axis fe ratio lo hi i a =
     (let v = f_to_int (- (2 ^ 31)) (2 ^ 31 - 1) fe (f32 fe (f32 fe (of_int (axis_value a ! i)) * ratio))
      in a\<lparr>axis_value := (axis_value a)[i := clamp_axis lo hi (axis_dir a ! i) v]\<rparr>)"

definition limit_pair :: "float_env \<Rightarrow> rat \<Rightarrow> int \<Rightarrow> int \<Rightarrow> u32 \<Rightarrow> u32 \<Rightarrow> nat \<Rightarrow> nat \<Rightarrow> axes_state \<Rightarrow> axes_state" where
  "limit_pair fe numer lo hi r_square square i k a =
     (if square > r_square then
        (case sqrt_uint32 square of None \<Rightarrow> a
         | Some q \<Rightarrow> let ratio = f32 fe (numer / f32 fe (of_nat (unat q)))
                     in scale_axis fe ratio lo hi k (scale_axis fe ratio lo hi i a))
      else a)"

section \<open>Joystick\<close>

definition travel_to_joystick_axis :: "float_env \<Rightarrow> 'row gc_state \<Rightarrow> nat \<Rightarrow> u8 \<Rightarrow> int" where
  "travel_to_joystick_axis fe s axis travel =
     (let t = uint travel div 6;
          piece = (\<lambda>i. f_to_int 0 255 fe (f32 fe (of_int (curve_y s i) + f32 fe (slope s ! i * of_int (t - curve_x s i)))));
          v = (if t > curve_x s 3 then curve_y s 3
               else if t > curve_x s 2 then piece 2
               else if t > curve_x s 1 then piece 1
               else if t > curve_x s 0 then piece 0 else 0);
          v = uint (as_u8 v)
      in if v > JOYSTICK_MAX_VALUE then JOYSTICK_MAX_VALUE else v)"

definition gc_travel :: "analog_key \<Rightarrow> analog_key" where
  "gc_travel key = (if uint (ak_travel key) < 1 * TRAVEL_SCALE then key\<lparr>ak_travel := 0\<rparr> else key)"

definition touch_axis :: "u8 \<Rightarrow> u8 \<Rightarrow> axes_state \<Rightarrow> axes_state" where
  "touch_axis js_axis travel a =
     (if js_axis < GC_MAX
      then a\<lparr>axis_travel := (axis_travel a)[unat js_axis := travel], axis_changed := (axis_changed a)[unat js_axis := True]\<rparr>
      else a)"

definition mark_key :: "bool \<Rightarrow> analog_key \<Rightarrow> 'r::len word list \<Rightarrow> 'r word list" where
  "mark_key on key m =
     (let r = unat (ak_r key); c = unat (ak_c key)
      in m[r := if on then m ! r OR col_mask c else m ! r AND NOT (col_mask c)])"

text \<open>\<open>register_joystick_button\<close> takes a \<open>uint8_t\<close>: \<open>QK_JOYSTICK_BUTTON_0 + n\<close>, \<open>0x7400 + n\<close>, is truncated to \<open>n\<close>.\<close>

definition joystick_update :: "analog_key \<Rightarrow> 'r::len word gc_state \<Rightarrow> bool \<times> analog_key \<times> 'r word gc_state" where
  "joystick_update key s =
     (let key = gc_travel key; js_axis = ak_data key;
          s = s\<lparr>js_ax := touch_axis js_axis (ak_travel key) (js_ax s)\<rparr>;
          button = GC_BUTTON_0 \<le> js_axis \<and> js_axis \<le> GC_BUTTON_31;
          code = ucast (0x7400 + ucast (js_axis - GC_BUTTON_0) :: u16) :: u8
      in case regular_trigger_action key of
           (False, key) \<Rightarrow> (False, key, s)
         | (True, key) \<Rightarrow>
             let on = (ak_state key = AKS_REGULAR_PRESSED);
                 s = (if button then s\<lparr>js_rep := (if on then register_joystick_button code (js_rep s)
                                                   else unregister_joystick_button code (js_rep s))\<rparr> else s);
                 s = s\<lparr>game_controller_matrix := mark_key on key (game_controller_matrix s)\<rparr>
             in (game_controller_type_enabled s, key, s))"

definition joystick_clear :: "'row gc_state \<Rightarrow> 'row gc_state" where
  "joystick_clear s =
     (let j = fold (\<lambda>i. unregister_joystick_button (of_nat i)) [0..<JOYSTICK_BUTTON_COUNT] (js_rep s);
          j = fold (\<lambda>i. joystick_set_axis i 0) [0..<GC_AXIS_MAX] j
      in s\<lparr>js_ax := axes_clear, js_rep := joystick_flush j\<rparr>)"

text \<open>The travel of an axis in its direction, squared and summed with that of the other axis of the pair.\<close>

definition travel_square :: "axes_state \<Rightarrow> nat \<Rightarrow> nat \<Rightarrow> u32" where
  "travel_square a i k =
     (let t = (\<lambda>i. ucast (if axis_dir a ! i < 0 then axis_travel a ! (i * 2) else axis_travel a ! (i * 2 + 1)) :: u32)
      in t i * t i + t k * t k)"

definition joystick_limits :: "float_env \<Rightarrow> axes_state \<Rightarrow> axes_state" where
  "joystick_limits fe a =
     (let r_square = as_u32 (((FULL_TRAVEL_UNIT + 1) * TRAVEL_SCALE) * ((FULL_TRAVEL_UNIT + 1) * TRAVEL_SCALE));
          a = limit_pair fe 276 (- JOYSTICK_MAX_VALUE) JOYSTICK_MAX_VALUE r_square (travel_square a 0 1) 0 1 a
      in limit_pair fe 276 (- JOYSTICK_MAX_VALUE) JOYSTICK_MAX_VALUE r_square (travel_square a 3 4) 3 4 a)"

definition joystick_action :: "float_env \<Rightarrow> 'row gc_state \<Rightarrow> 'row gc_state" where
  "joystick_action fe s =
     (case fold (\<lambda>i (changed, a). if axis_touched a i then (True, axis_step (travel_to_joystick_axis fe s) i a) else (changed, a))
             [0..<GC_AXIS_MAX] (False, js_ax s) of
        (changed, a) \<Rightarrow>
          if changed then
            let a = joystick_limits fe a;
                j = fold (\<lambda>i. joystick_set_axis i (if i = 1 \<or> i = 4 then - (axis_value a ! i) else axis_value a ! i))
                      [0..<GC_AXIS_MAX] (js_rep s)
            in s\<lparr>js_ax := a, js_rep := joystick_flush j\<rparr>
          else s\<lparr>js_ax := a\<rparr>)"

definition joystick_action_task :: "float_env \<Rightarrow> 'row gc_state \<Rightarrow> 'row gc_state" where
  "joystick_action_task fe s = (if \<not> game_controller_xinput_enabled s then joystick_action fe s else s)"

section \<open>XInput\<close>

definition max_values :: "int list" where
  "max_values = [0x8000, 0x7FFF, 0x8000, 0x7FFF, 0xFF, 0xFF, 0x8000, 0x7FFF, 0x8000, 0x7FFF, 0x8000, 0x7FFF]"

text \<open>The products of \<open>uint32_t\<close> are taken at their width.\<close>

definition travel_to_xinput_value :: "float_env \<Rightarrow> 'row gc_state \<Rightarrow> nat \<Rightarrow> u8 \<Rightarrow> int" where
  "travel_to_xinput_value fe s axis travel =
     (let t = uint travel;
          piece = (\<lambda>i. f_to_int 0 (2 ^ 32 - 1) fe
                     (f32 fe (of_int (curve_y s i) +
                        f32 fe (f32 fe (slope s ! i * of_int (t - curve_x s i * TRAVEL_SCALE)) / of_int TRAVEL_SCALE))));
          v = (if axis = 4 \<or> axis = 5 then t * 127 div FULL_TRAVEL_UNIT div TRAVEL_SCALE
               else if t = 0 then 0
               else if t \<ge> curve_x s 3 * TRAVEL_SCALE then curve_y s 3
               else if t \<ge> curve_x s 2 * TRAVEL_SCALE then piece 2
               else if t \<ge> curve_x s 1 * TRAVEL_SCALE then piece 1
               else if t \<ge> curve_x s 0 * TRAVEL_SCALE then piece 0 else 0);
          range = max_values ! axis;
          v = uint (as_u32 v * as_u32 range) div 127
      in if v > range then range else v)"

definition xinput_buttons_map :: "nat list" where
  "xinput_buttons_map = [12, 13, 14, 15, 8, 9, 5, 4, 6, 7, 0, 1, 2, 3, 10, 11]"

definition xinput_update :: "analog_key \<Rightarrow> 'r::len word gc_state \<Rightarrow> bool \<times> analog_key \<times> 'r word gc_state" where
  "xinput_update key s =
     (let key = gc_travel key; js_axis = ak_data key;
          s = s\<lparr>xi_ax := touch_axis js_axis (ak_travel key) (xi_ax s)\<rparr>;
          button = GC_BUTTON_0 \<le> js_axis \<and> js_axis < GC_BUTTON_0 + 16;
          bit_mask = col_mask (xinput_buttons_map ! unat (js_axis - GC_BUTTON_0))
      in case regular_trigger_action key of
           (False, key) \<Rightarrow> (False, key, s)
         | (True, key) \<Rightarrow>
             let on = (ak_state key = AKS_REGULAR_PRESSED); x = xi_rep s;
                 s = (if button then s\<lparr>xi_rep := x\<lparr>xi_buttons := if on then xi_buttons x OR bit_mask else xi_buttons x AND NOT bit_mask\<rparr>,
                                     xinput_changed := True\<rparr> else s);
                 s = s\<lparr>game_controller_matrix := mark_key on key (game_controller_matrix s)\<rparr>
             in (game_controller_type_enabled s, key, s))"

definition xinput_flush :: "'row gc_state \<Rightarrow> 'row gc_state" where
  "xinput_flush s =
     (if xinput_changed s then
        (if xi_rep s \<noteq> xi_last_report s
         then s\<lparr>xi_last_report := xi_rep s, xi_sent := xi_sent s @ [xi_rep s], xinput_changed := False\<rparr>
         else s\<lparr>xinput_changed := False\<rparr>)
      else s)"

definition xinput_axis :: "float_env \<Rightarrow> nat \<Rightarrow> 'row gc_state \<Rightarrow> 'row gc_state" where
  "xinput_axis fe i s =
     (let conv = travel_to_xinput_value fe s in
      if i = 2 then
        s\<lparr>xi_rep := (xi_rep s)\<lparr>left_trigger := as_u8 (conv 4 (axis_travel (xi_ax s) ! 4)),
                                right_trigger := as_u8 (conv 5 (axis_travel (xi_ax s) ! 5))\<rparr>, xinput_changed := True\<rparr>
      else if axis_touched (xi_ax s) i then s\<lparr>xi_ax := axis_step conv i (xi_ax s), xinput_changed := True\<rparr>
      else s)"

definition value_square :: "axes_state \<Rightarrow> nat \<Rightarrow> nat \<Rightarrow> u32" where
  "value_square a i k = (let v = (\<lambda>i. as_u32 (axis_value a ! i div 256)) in v i * v i + v k * v k)"

definition xinput_action :: "float_env \<Rightarrow> 'row gc_state \<Rightarrow> 'row gc_state" where
  "xinput_action fe s =
     (let s = fold (xinput_axis fe) [0..<GC_AXIS_MAX] s in
      if xinput_changed s then
        let a = xi_ax s;
            a = limit_pair fe 140 (- 0x8000) 0x7FFF (0x80 * 0x80) (value_square a 0 1) 0 1 a;
            a = limit_pair fe 140 (- 0x8000) 0x7FFF (0x80 * 0x80) (value_square a 3 4) 3 4 a
        in s\<lparr>xi_ax := a, xi_rep := (xi_rep s)\<lparr>xi_x := as_u16 (axis_value a ! 0), xi_y := as_u16 (axis_value a ! 1),
               xi_rx := as_u16 (axis_value a ! 3), xi_ry := as_u16 (axis_value a ! 4)\<rparr>\<rparr>
      else s)"

definition xinput_clear :: "'row gc_state \<Rightarrow> 'row gc_state" where
  "xinput_clear s = xinput_flush (s\<lparr>xi_ax := axes_clear, xi_rep := xinput_zero, xinput_changed := True\<rparr>)"

definition xinput_task :: "float_env \<Rightarrow> 'row gc_state \<Rightarrow> 'row gc_state" where
  "xinput_task fe s = (if game_controller_xinput_enabled s then xinput_flush (xinput_action fe s) else s)"

definition game_controller_clear :: "'r::len word gc_state \<Rightarrow> 'r word gc_state" where
  "game_controller_clear s =
     (let s = s\<lparr>game_controller_matrix := map (\<lambda>_. 0) (game_controller_matrix s)\<rparr>;
          s = (if \<not> game_controller_xinput_enabled s then joystick_clear s else s)
      in if game_controller_xinput_enabled s then xinput_clear s else s)"

section \<open>Axes stay in range\<close>

text \<open>A value follows its direction: never positive under a negative one.\<close>

definition axis_in :: "int \<Rightarrow> int \<Rightarrow> int \<Rightarrow> int \<Rightarrow> bool" where
  "axis_in lo hi dir v \<longleftrightarrow> (if dir < 0 then lo \<le> v \<and> v \<le> 0 else 0 \<le> v \<and> v \<le> hi)"

definition axes_ok :: "int \<Rightarrow> int \<Rightarrow> axes_state \<Rightarrow> bool" where
  "axes_ok lo hi a \<longleftrightarrow> length (axis_dir a) = 6 \<and> length (axis_value a) = 6 \<and>
     (\<forall>i < 6. axis_in lo hi (axis_dir a ! i) (axis_value a ! i))"

lemma axes_ok_step:
  assumes "axes_ok lo hi a" and "i < 6" and "0 \<le> conv (i * 2) (axis_travel a ! (i * 2))" "conv (i * 2) (axis_travel a ! (i * 2)) \<le> - lo"
    and "0 \<le> conv (i * 2 + 1) (axis_travel a ! (i * 2 + 1))" "conv (i * 2 + 1) (axis_travel a ! (i * 2 + 1)) \<le> hi"
  shows "axes_ok lo hi (axis_step conv i a)"
  using assms by (auto simp: axes_ok_def axis_step_def axis_in_def Let_def nth_list_update)

lemma scaled_value:
  assumes "float_ok fe" and "0 \<le> ratio" and "ratio \<le> 2" and "\<bar>v\<bar> \<le> 2 ^ 16"
  defines "w \<equiv> f_to_int (- (2 ^ 31)) (2 ^ 31 - 1) fe (f32 fe (f32 fe (of_int v) * ratio))"
  shows "0 \<le> v \<Longrightarrow> 0 \<le> w" and "v \<le> 0 \<Longrightarrow> w \<le> 0"
proof -
  have rnd: "rounding (f32 fe)" using assms(1) by (simp add: float_ok_def)
  have v: "f32 fe (of_int v) = of_int v" using rounding_int [OF rnd, of v] assms(4) by simp
  have w: "lo \<le> w \<and> w \<le> hi"
    if "of_int lo \<le> of_int v * ratio" "of_int v * ratio \<le> of_int hi" "- (2 ^ 24) \<le> lo" "lo \<le> 0" "0 \<le> hi" "hi \<le> 2 ^ 24" for lo hi
  proof -
    have "of_int lo \<le> f32 fe (of_int v * ratio) \<and> f32 fe (of_int v * ratio) \<le> of_int hi"
      by (rule rounding_between [OF rnd that(1,2)]) (use that in auto)
    from trunc_rat_between [of lo _ hi, OF conjunct1 [OF this] conjunct2 [OF this]] that show ?thesis
      by (simp add: w_def v f_to_int_def)
  qed
  show "0 \<le> v \<Longrightarrow> 0 \<le> w"
  proof -
    assume "0 \<le> v"
    then have "of_int 0 \<le> of_int v * ratio" "of_int v * ratio \<le> of_int (v * 2)"
      using assms(2,3) by (simp_all add: mult_left_mono)
    from w [OF this] show "0 \<le> w" using \<open>0 \<le> v\<close> assms(4) by simp
  qed
  show "v \<le> 0 \<Longrightarrow> w \<le> 0"
  proof -
    assume "v \<le> 0"
    then have "of_int (v * 2) \<le> of_int v * ratio" "of_int v * ratio \<le> of_int 0"
      using assms(2,3) by (simp_all add: mult_left_mono_neg mult_nonpos_nonneg)
    from w [OF this] show "w \<le> 0" using \<open>v \<le> 0\<close> assms(4) by simp
  qed
qed

lemma axes_ok_scale:
  assumes "float_ok fe" and "0 \<le> ratio" and "ratio \<le> 2" and "axes_ok lo hi a" and "i < 6"
    and "- (2 ^ 16) \<le> lo" and "lo \<le> 0" and "0 \<le> hi" and "hi \<le> 2 ^ 16"
  shows "axes_ok lo hi (scale_axis fe ratio lo hi i a)"
proof -
  let ?v = "axis_value a ! i" and ?w = "f_to_int (- (2 ^ 31)) (2 ^ 31 - 1) fe (f32 fe (f32 fe (of_int (axis_value a ! i)) * ratio))"
  have i: "axis_in lo hi (axis_dir a ! i) ?v" using assms(4,5) by (simp add: axes_ok_def)
  then have v: "\<bar>?v\<bar> \<le> 2 ^ 16" using assms(6-9) by (auto simp: axis_in_def split: if_splits)
  have "axis_in lo hi (axis_dir a ! i) (clamp_axis lo hi (axis_dir a ! i) ?w)"
    using scaled_value [OF assms(1-3) v] i assms(7,8) by (auto simp: axis_in_def clamp_axis_def)
  then show ?thesis using assms(4) by (auto simp: axes_ok_def scale_axis_def Let_def nth_list_update_if split: if_splits)
qed

lemma quotient_le_2:
  fixes p :: rat
  assumes "p \<le> 2 * of_nat b" and "b \<le> n"
  shows "p / of_nat n \<le> 2"
proof (cases "n = 0")
  case False
  have "(2 :: rat) * of_nat b \<le> 2 * of_nat n" using assms(2) by simp
  then have "p \<le> 2 * of_nat n" using assms(1) by linarith
  then show ?thesis using False by (simp add: divide_le_eq)
qed simp

lemma axes_ok_limit:
  assumes "float_ok fe" and "axes_ok lo hi a" and "i < 6" and "k < 6" and "- (2 ^ 16) \<le> lo" and "lo \<le> 0" and "0 \<le> hi" and "hi \<le> 2 ^ 16"
    and "0 \<le> numer" and "numer \<le> 2 * of_nat b" and "b * b \<le> unat r_square" and "square < 0xFFFFFFFF"
  shows "axes_ok lo hi (limit_pair fe numer lo hi r_square square i k a)"
proof (cases "square > r_square")
  case True
  have rnd: "rounding (f32 fe)" using assms(1) by (simp add: float_ok_def)
  obtain q where q: "sqrt_uint32 square = Some q" "unat q * unat q \<le> unat square" "unat square < (unat q + 1) * (unat q + 1)"
    using sqrt_uint32_sound [OF assms(12)] by blast
  have "b * b < (unat q + 1) * (unat q + 1)" using q(3) assms(11) True by (simp add: word_less_nat_alt)
  then have b: "b \<le> unat q" by (metis add.commute less_Suc_eq_le mult_le_mono not_le plus_1_eq_Suc)
  have "unat q < 2 ^ 16"
  proof (rule ccontr)
    assume "\<not> unat q < 2 ^ 16"
    then have "(2 ^ 16) * 2 ^ 16 \<le> unat q * unat q" by (intro mult_le_mono) simp_all
    then show False using q(2) unsigned_less [of square, where ?'a = nat] by simp
  qed
  then have fq: "f32 fe (of_nat (unat q)) = of_nat (unat q)" by (intro rounding_nat [OF rnd]) simp
  define ratio where "ratio = f32 fe (numer / of_nat (unat q))"
  have "numer / of_nat (unat q) \<le> 2" by (rule quotient_le_2 [OF assms(10) b])
  then have r: "0 \<le> ratio" "ratio \<le> 2"
  proof -
    have "0 \<le> numer / of_nat (unat q)" by (rule divide_nonneg_nonneg [OF assms(9) of_nat_0_le_iff])
    then have "of_int 0 \<le> ratio \<and> ratio \<le> of_int 2"
      unfolding ratio_def using \<open>numer / of_nat (unat q) \<le> 2\<close> by (intro rounding_between [OF rnd]) simp_all
    then show "0 \<le> ratio" "ratio \<le> 2" by simp_all
  qed
  note step = axes_ok_scale [OF assms(1) r _ _ assms(5-8)]
  show ?thesis using True q(1) step [OF step [OF assms(2,3)] assms(4)] by (simp add: limit_pair_def fq [simplified] ratio_def Let_def)
qed (use assms(2) in \<open>simp add: limit_pair_def\<close>)

text \<open>The squares of the joystick stay far below \<open>uint32_t\<close>.\<close>

lemma travel_square_small: "travel_square a i k < 0xFFFFFFFF"
proof -
  have u: "unat (ucast (x :: u8) :: u32) = unat x" for x by (rule unat_ucast_small) (use unsigned_less [of x, where ?'a = nat] in simp)
  have sq: "unat (ucast (x :: u8) * ucast x :: u32) \<le> 65025" for x
  proof -
    have "unat x \<le> 255" using unsigned_less [of x, where ?'a = nat] by simp
    then have "unat x * unat x \<le> 255 * 255" by (intro mult_le_mono)
    then show ?thesis by (simp add: unat_word_ariths u)
  qed
  have "unat (ucast x * ucast x + ucast y * ucast y :: u32) \<le> 130050" for x y :: u8
    using sq [of x] sq [of y] by (simp add: unat_word_ariths)
  then show ?thesis
    unfolding travel_square_def Let_def word_less_nat_alt by (rule le_less_trans) simp
qed

definition axes_wf :: "int \<Rightarrow> int \<Rightarrow> axes_state \<Rightarrow> bool" where
  "axes_wf lo hi a \<longleftrightarrow> axes_ok lo hi a \<and> length (axis_travel a) = 12 \<and> length (axis_changed a) = 12"

text \<open>The axes of the joystick and everything it has sent lie in the range the HID descriptor announces.\<close>

definition joystick_ok :: "'row gc_state \<Rightarrow> bool" where
  "joystick_ok s \<longleftrightarrow> axes_wf (- JOYSTICK_MAX_VALUE) JOYSTICK_MAX_VALUE (js_ax s) \<and>
     length (js_axes (js_rep s)) = 6 \<and> (\<forall>v \<in> set (js_axes (js_rep s)). \<bar>v\<bar> \<le> JOYSTICK_MAX_VALUE) \<and>
     (\<forall>(bs, vs) \<in> set (js_sent (js_rep s)). \<forall>v \<in> set vs. \<bar>v\<bar> \<le> JOYSTICK_MAX_VALUE)"

definition rep_ok :: "joystick_state \<Rightarrow> bool" where
  "rep_ok j \<longleftrightarrow> length (js_axes j) = 6 \<and> (\<forall>v \<in> set (js_axes j). \<bar>v\<bar> \<le> JOYSTICK_MAX_VALUE) \<and>
     (\<forall>(bs, vs) \<in> set (js_sent j). \<forall>v \<in> set vs. \<bar>v\<bar> \<le> JOYSTICK_MAX_VALUE)"

lemma joystick_ok_alt: "joystick_ok s \<longleftrightarrow> axes_wf (- JOYSTICK_MAX_VALUE) JOYSTICK_MAX_VALUE (js_ax s) \<and> rep_ok (js_rep s)"
  by (simp add: joystick_ok_def rep_ok_def)

lemma rep_ok_buttons [simp]: "rep_ok (j\<lparr>js_buttons := x, js_dirty := y\<rparr>) = rep_ok j"
  by (simp add: rep_ok_def)

lemma rep_ok_ops:
  assumes "rep_ok j"
  shows "rep_ok (joystick_flush j)" and "rep_ok (register_joystick_button n j)" and "rep_ok (unregister_joystick_button n j)"
    and "\<bar>v\<bar> \<le> JOYSTICK_MAX_VALUE \<Longrightarrow> rep_ok (joystick_set_axis i v j)"
proof -
  have flush: "rep_ok j \<Longrightarrow> rep_ok (joystick_flush j)" for j by (auto simp: rep_ok_def joystick_flush_def)
  show "rep_ok (joystick_flush j)" by (rule flush [OF assms])
  show "rep_ok (register_joystick_button n j)" "rep_ok (unregister_joystick_button n j)"
    using assms by (auto simp: register_joystick_button_def unregister_joystick_button_def Let_def intro!: flush)
  assume v: "\<bar>v\<bar> \<le> JOYSTICK_MAX_VALUE"
  then have "sint (as_u16 v) = v" by (subst sint_sbintrunc') (auto intro!: signed_take_bit_int_eq_self)
  then show "rep_ok (joystick_set_axis i v j)"
    using assms v set_update_subset_insert [of "js_axes j" i v] by (auto simp: joystick_set_axis_def rep_ok_def Let_def)
qed

lemma rep_ok_fold:
  assumes "rep_ok j" and "\<And>i j. i \<in> set is \<Longrightarrow> rep_ok j \<Longrightarrow> rep_ok (f i j)"
  shows "rep_ok (fold f is j)"
  using assms by (induction "is" arbitrary: j) simp_all

lemma axes_wf_step:
  assumes "axes_wf (- JOYSTICK_MAX_VALUE) JOYSTICK_MAX_VALUE a" and "i < 6"
  shows "axes_wf (- JOYSTICK_MAX_VALUE) JOYSTICK_MAX_VALUE (axis_step (travel_to_joystick_axis fe s) i a)"
proof -
  have c: "0 \<le> travel_to_joystick_axis fe s n t" "travel_to_joystick_axis fe s n t \<le> JOYSTICK_MAX_VALUE" for n t
    by (simp_all add: travel_to_joystick_axis_def Let_def)
  then have "axes_ok (- JOYSTICK_MAX_VALUE) JOYSTICK_MAX_VALUE (axis_step (travel_to_joystick_axis fe s) i a)"
    using assms by (intro axes_ok_step) (simp_all add: axes_wf_def)
  then show ?thesis using assms(1) by (simp add: axes_wf_def axis_step_def Let_def)
qed

lemma limit_frame [simp]:
  "axis_travel (limit_pair fe n lo hi r sq i k a) = axis_travel a" "axis_changed (limit_pair fe n lo hi r sq i k a) = axis_changed a"
  by (auto simp: limit_pair_def scale_axis_def Let_def split: option.splits)

lemma joystick_action_ok:
  assumes "float_ok fe" and "joystick_ok s"
  shows "joystick_ok (joystick_action fe s)"
proof -
  let ?ok = "axes_wf (- JOYSTICK_MAX_VALUE) JOYSTICK_MAX_VALUE"
  let ?f = "\<lambda>i (changed, a). if axis_touched a i then (True, axis_step (travel_to_joystick_axis fe s) i a) else (changed, a)"
  have fold_ok: "?ok (snd (fold ?f is (ch, a)))" if "set is \<subseteq> {..<6}" "?ok a" for "is" ch a
    using that by (induction "is" arbitrary: ch a) (auto simp: axes_wf_step)
  obtain ch a where r: "fold ?f [0..<GC_AXIS_MAX] (False, js_ax s) = (ch, a)" by fastforce
  then have a: "?ok a" using fold_ok [of "[0..<GC_AXIS_MAX]" "js_ax s" False] assms(2)
    by (simp add: joystick_ok_alt atLeast0LessThan del: upt_Suc)
  have lim: "?ok (limit_pair fe 276 (- JOYSTICK_MAX_VALUE) JOYSTICK_MAX_VALUE 60516 (travel_square x i k) i k y)"
    if "?ok y" "i < 6" "k < 6" for x y i k
    using that axes_ok_limit [OF assms(1), of "- JOYSTICK_MAX_VALUE" JOYSTICK_MAX_VALUE y i k 276 138 60516, OF _ _ _ _ _ _ _ _ _ _ travel_square_small]
    by (simp add: axes_wf_def)
  have l: "?ok (joystick_limits fe a)" unfolding joystick_limits_def Let_def using a by (auto intro!: lim)
  have "rep_ok (fold (\<lambda>i. joystick_set_axis i (if i = 1 \<or> i = 4 then - (axis_value (joystick_limits fe a) ! i)
      else axis_value (joystick_limits fe a) ! i)) [0..<GC_AXIS_MAX] (js_rep s))"
  proof (rule rep_ok_fold)
    show "rep_ok (js_rep s)" using assms(2) by (simp add: joystick_ok_alt)
    fix i j assume i: "i \<in> set [0..<GC_AXIS_MAX]" and j: "rep_ok j"
    have "axis_in (- JOYSTICK_MAX_VALUE) JOYSTICK_MAX_VALUE (axis_dir (joystick_limits fe a) ! i) (axis_value (joystick_limits fe a) ! i)"
      using l i by (simp add: axes_wf_def axes_ok_def)
    then have "\<bar>if i = 1 \<or> i = 4 then - (axis_value (joystick_limits fe a) ! i) else axis_value (joystick_limits fe a) ! i\<bar> \<le> JOYSTICK_MAX_VALUE"
      by (auto simp: axis_in_def split: if_splits)
    then show "rep_ok (joystick_set_axis i (if i = 1 \<or> i = 4 then - (axis_value (joystick_limits fe a) ! i)
      else axis_value (joystick_limits fe a) ! i) j)" by (rule rep_ok_ops(4) [OF j])
  qed
  then show ?thesis using a l assms(2) r by (auto simp: joystick_action_def joystick_ok_alt Let_def rep_ok_ops(1) simp del: upt_Suc)
qed

text \<open>What the joystick sees: a sample of a gamepad key, its task, and the clear on a profile switch.\<close>

datatype gc_event = Sample analog_key | Task | Clear

fun gc_step :: "float_env \<Rightarrow> gc_event \<Rightarrow> 'r::len word gc_state \<Rightarrow> 'r word gc_state" where
  "gc_step fe (Sample k) s = snd (snd (joystick_update k s))"
| "gc_step fe Task s = joystick_action_task fe s"
| "gc_step fe Clear s = joystick_clear s"

lemma axes_wf_touch: "axes_wf lo hi (touch_axis x t a) = axes_wf lo hi a"
  by (simp add: axes_wf_def axes_ok_def touch_axis_def)

lemma joystick_update_frame:
  "js_ax (snd (snd (joystick_update k s))) = touch_axis (ak_data (gc_travel k)) (ak_travel (gc_travel k)) (js_ax s)"
  "\<exists>f \<in> {id} \<union> range register_joystick_button \<union> range unregister_joystick_button. js_rep (snd (snd (joystick_update k s))) = f (js_rep s)"
  "ak_data k < GC_MAX \<Longrightarrow> js_rep (snd (snd (joystick_update k s))) = js_rep s"
  by (auto simp: joystick_update_def Let_def gc_travel_def word_le_nat_alt word_less_nat_alt split: prod.splits bool.splits)

lemma joystick_ok_update:
  assumes "joystick_ok s"
  shows "joystick_ok (snd (snd (joystick_update k s)))"
proof -
  obtain f where "f \<in> {id} \<union> range register_joystick_button \<union> range unregister_joystick_button"
    and f: "js_rep (snd (snd (joystick_update k s))) = f (js_rep s)" using joystick_update_frame(2) by blast
  then have "rep_ok (f (js_rep s))" using assms rep_ok_ops(2,3) by (auto simp: joystick_ok_alt)
  then show ?thesis using assms f by (simp add: joystick_ok_alt joystick_update_frame(1) axes_wf_touch)
qed

lemma axes_clear_wf: "axes_wf (- JOYSTICK_MAX_VALUE) JOYSTICK_MAX_VALUE axes_clear"
  by (simp add: axes_wf_def axes_ok_def axes_clear_def axis_in_def)

lemma joystick_ok_clear:
  assumes "joystick_ok s"
  shows "joystick_ok (joystick_clear s)"
proof -
  have "rep_ok (fold (\<lambda>i. joystick_set_axis i 0) [0..<GC_AXIS_MAX]
      (fold (\<lambda>i. unregister_joystick_button (of_nat i)) [0..<JOYSTICK_BUTTON_COUNT] (js_rep s)))"
    using assms by (intro rep_ok_fold) (auto simp: joystick_ok_alt intro: rep_ok_ops)
  then show ?thesis using axes_clear_wf by (simp add: joystick_clear_def joystick_ok_alt Let_def rep_ok_ops(1) del: upt_Suc)
qed

text \<open>Whatever keys, travels, tasks and clears come, and however its floats round, the joystick
  keeps every axis in the sign and range of its direction and only ever sends axis values
  between -127 and 127.\<close>

lemma joystick_in_range:
  assumes "float_ok fe" and "joystick_ok s"
  shows "joystick_ok (fold (gc_step fe) es s)"
  using assms(2)
proof (induction es arbitrary: s)
  case (Cons e es)
  have "joystick_ok (gc_step fe e s)"
    using joystick_action_ok [OF assms(1) Cons.prems] joystick_ok_update [OF Cons.prems] joystick_ok_clear [OF Cons.prems] Cons.prems
    by (cases e) (simp_all add: joystick_action_task_def)
  then show ?case using Cons.IH by simp
qed simp

definition demo_gc :: "u32 gc_state" where
  "demo_gc = \<lparr>game_controller_mode = 0, curve = [(0, 0), (10, 31), (30, 95), (40, 127)], slope = replicate 3 (3175 / 1000),
     game_controller_matrix = [0], js_ax = axes_clear,
     js_rep = \<lparr>js_buttons = [0, 0], js_axes = replicate 6 0, js_dirty = False, js_sent = []\<rparr>,
     xi_ax = axes_clear, xi_rep = xinput_zero, xinput_changed = False, xi_last_report = xinput_zero, xi_sent = []\<rparr>"

definition gamepad_key :: "u8 \<Rightarrow> u8 \<Rightarrow> analog_key" where
  "gamepad_key x t = zero_key\<lparr>ak_mode := AKM_GAMEPAD, ak_regular := \<lparr>actn_pt = 120, deactn_pt = 102\<rparr>, ak_data := x, ak_travel := t\<rparr>"

lemma joystick_in_range_witness:
  "float_ok exact_floats \<and> joystick_ok demo_gc
   \<and> joystick_ok (fold (gc_step exact_floats) [Sample (gamepad_key 0 240), Sample (gamepad_key 3 245), Task, Clear] demo_gc)"
proof -
  have "joystick_ok demo_gc" by (simp add: joystick_ok_alt rep_ok_def demo_gc_def axes_clear_wf)
  then show ?thesis using joystick_in_range exact_floats_ok by blast
qed

text \<open>The direction test reads \<open>axis_changed[i]\<close> where the negative direction of axis \<open>i\<close> is \<open>2 * i\<close>.\<close>

definition axis_untouched :: "nat \<Rightarrow> axes_state \<Rightarrow> bool" where
  "axis_untouched i a \<longleftrightarrow> (\<forall>j < 12. axis_changed a ! j \<longrightarrow> j = i * 2) \<and> axis_dir a ! i = 0 \<and> axis_value a ! i = 0 \<and>
     length (axis_changed a) = 12 \<and> length (axis_dir a) = 6 \<and> length (axis_value a) = 6"

lemma untouched_touch:
  assumes "axis_untouched i a" and "unat x = i * 2"
  shows "axis_untouched i (touch_axis x t a)"
proof (cases "x < GC_MAX")
  case True
  note u = assms(1) [unfolded axis_untouched_def]
  have "\<forall>j < 12. (axis_changed a)[unat x := True] ! j \<longrightarrow> j = i * 2"
  proof (intro allI impI)
    fix j assume "j < 12" and ch: "(axis_changed a)[unat x := True] ! j"
    show "j = i * 2"
    proof (rule ccontr)
      assume ne: "j \<noteq> i * 2"
      then have "axis_changed a ! j" using ch by (metis assms(2) nth_list_update_neq)
      with u \<open>j < 12\<close> ne show False by blast
    qed
  qed
  moreover have "axis_changed (touch_axis x t a) = (axis_changed a)[unat x := True]" "axis_dir (touch_axis x t a) = axis_dir a"
      "axis_value (touch_axis x t a) = axis_value a"
    using True by (simp_all add: touch_axis_def)
  ultimately show ?thesis using u unfolding axis_untouched_def by (simp only: length_list_update)
next
  case False
  then show ?thesis using assms(1) by (simp add: touch_axis_def)
qed

lemma untouched_scale:
  assumes "float_ok fe" and "axis_untouched i a" and "0 \<le> hi"
  shows "axis_untouched i (scale_axis fe ratio lo hi k a)"
proof -
  have "f32 fe 0 = 0" using assms(1) by (simp add: float_ok_def)
  moreover have "trunc_rat 0 = 0" using trunc_rat_of_int [of 0] by simp
  ultimately show ?thesis using assms(2,3) by (auto simp: axis_untouched_def scale_axis_def Let_def nth_list_update_if f_to_int_def clamp_axis_def)
qed

lemma untouched_limit:
  "float_ok fe \<Longrightarrow> axis_untouched i a \<Longrightarrow> 0 \<le> hi \<Longrightarrow> axis_untouched i (limit_pair fe n lo hi r sq k m a)"
  by (auto simp: limit_pair_def Let_def untouched_scale split: option.splits)

lemma untouched_loop:
  assumes "axis_untouched i a" and "1 \<le> i" and "i < 6" and "set is \<subseteq> {..<6}"
  shows "axis_untouched i (snd (fold (\<lambda>i (changed, a). if axis_touched a i then (True, axis_step conv i a) else (changed, a)) is (ch, a)))"
  using assms(1,4)
proof (induction "is" arbitrary: ch a)
  case (Cons k ks)
  have "axis_changed a ! j \<longrightarrow> j = i * 2" if "j < 12" for j using Cons.prems(1) that by (simp add: axis_untouched_def)
  from this [of i] this [of "i * 2 + 1"] have "\<not> axis_touched a i" using assms(2,3) unfolding axis_touched_def by linarith
  then have "axis_touched a k \<Longrightarrow> k \<noteq> i" by blast
  then have "axis_touched a k \<Longrightarrow> axis_untouched i (axis_step conv k a)"
    using Cons.prems(1) by (auto simp: axis_untouched_def axis_step_def Let_def)
  then show ?case using Cons by simp
qed simp

lemma set_axis_other:
  "joystick_set_axis k v j = j' \<Longrightarrow> js_axes j' ! i = (if k = i \<and> i < 6 \<and> i < length (js_axes j) then sint (as_u16 v) else js_axes j ! i)
    \<and> length (js_axes j') = length (js_axes j)"
  by (auto simp: joystick_set_axis_def Let_def nth_list_update_if)

lemma fold_set_axes:
  assumes "length (js_axes j) = 6"
  shows "js_axes (fold (\<lambda>k. joystick_set_axis k (v k)) is j) ! i =
     (if i \<in> set is \<and> i < 6 then sint (as_u16 (v i)) else js_axes j ! i)
    \<and> length (js_axes (fold (\<lambda>k. joystick_set_axis k (v k)) is j)) = 6"
  using assms
proof (induction "is" arbitrary: j)
  case (Cons k ks)
  show ?case using Cons.IH [of "joystick_set_axis k (v k) j"] set_axis_other [of k "v k" j _ i, OF refl] Cons.prems by auto
qed simp

lemma flush_axes [simp]: "js_axes (joystick_flush j) = js_axes j"
  by (simp add: joystick_flush_def)

text \<open>Keys assigned to the negative direction of the Y axis or of a later one move nothing by
  themselves: however far and often they are pressed, the reported axis stays 0.\<close>

lemma negative_axis_lost:
  assumes "float_ok fe" and "1 \<le> i" and "i < 6" and "\<forall>e \<in> set es. \<forall>k. e = Sample k \<longrightarrow> unat (ak_data k) = i * 2" and "Clear \<notin> set es"
    and "js_ax s = axes_clear" and "js_axes (js_rep s) = replicate 6 0"
  shows "js_axes (js_rep (fold (gc_step fe) es s)) ! i = 0"
proof -
  let ?P = "\<lambda>s. axis_untouched i (js_ax s) \<and> length (js_axes (js_rep s)) = 6 \<and> js_axes (js_rep s) ! i = 0"
  have step: "?P (gc_step fe e s)" if P: "?P s" and "\<forall>k. e = Sample k \<longrightarrow> unat (ak_data k) = i * 2" and "e \<noteq> Clear" for e s
  proof (cases e)
    case (Sample k)
    then have d: "unat (ak_data k) = i * 2" "ak_data k < GC_MAX" using that(2) assms(3) by (auto simp: word_less_nat_alt)
    have "ak_data (gc_travel k) = ak_data k" by (simp add: gc_travel_def)
    then show ?thesis using P d Sample by (simp add: joystick_update_frame untouched_touch)
  next
    case Task
    let ?f = "\<lambda>i (changed, a). if axis_touched a i then (True, axis_step (travel_to_joystick_axis fe s) i a) else (changed, a)"
    obtain ch a where r: "fold ?f [0..<GC_AXIS_MAX] (False, js_ax s) = (ch, a)" by fastforce
    have a: "axis_untouched i a" using untouched_loop [of i "js_ax s" "[0..<GC_AXIS_MAX]" "travel_to_joystick_axis fe s" False] P assms(2,3) r
      by (simp add: atLeast0LessThan del: upt_Suc)
    then have l: "axis_untouched i (joystick_limits fe a)" by (simp add: joystick_limits_def Let_def untouched_limit assms(1))
    then have v: "axis_value (joystick_limits fe a) ! i = 0" by (simp add: axis_untouched_def)
    define w where "w = (\<lambda>k. if k = 1 \<or> k = 4 then - (axis_value (joystick_limits fe a) ! k) else axis_value (joystick_limits fe a) ! k)"
    have "w i = 0" using v by (simp add: w_def)
    have "joystick_action fe s = (if ch then s\<lparr>js_ax := joystick_limits fe a,
        js_rep := joystick_flush (fold (\<lambda>k. joystick_set_axis k (w k)) [0..<GC_AXIS_MAX] (js_rep s))\<rparr> else s\<lparr>js_ax := a\<rparr>)"
      unfolding joystick_action_def r Let_def w_def by simp
    moreover have "js_axes (fold (\<lambda>k. joystick_set_axis k (w k)) [0..<GC_AXIS_MAX] (js_rep s)) ! i = 0
        \<and> length (js_axes (fold (\<lambda>k. joystick_set_axis k (w k)) [0..<GC_AXIS_MAX] (js_rep s))) = 6"
      using fold_set_axes [of "js_rep s" w "[0..<GC_AXIS_MAX]" i] P \<open>w i = 0\<close> by (simp del: upt_Suc)
    ultimately have "?P (joystick_action fe s)" using P a l by (simp del: upt_Suc)
    then show ?thesis using Task P by (simp add: joystick_action_task_def)
  qed (use that(3) in simp)
  have "?P (fold (gc_step fe) es s)" if "?P s" for s
    using that assms(4,5)
  proof (induction es arbitrary: s)
    case (Cons e es)
    then show ?case using step [of s e] by auto
  qed simp
  moreover have "?P s" using assms(3,6,7) by (simp add: axis_untouched_def axes_clear_def)
  ultimately show ?thesis by blast
qed

lemma negative_axis_lost_witness:
  "js_axes (js_rep (fold (gc_step exact_floats) [Sample (gamepad_key 2 240), Task] demo_gc)) ! 1 = 0"
proof (rule negative_axis_lost [OF exact_floats_ok])
  show "\<forall>e \<in> set [Sample (gamepad_key 2 240), Task]. \<forall>k. e = Sample k \<longrightarrow> unat (ak_data k) = 1 * 2"
    by (simp add: gamepad_key_def)
qed (simp_all add: demo_gc_def)

text \<open>Setting a curve does not look at the new points: one with decreasing positions is taken.\<close>

lemma set_curve_unchecked:
  "fst (game_controller_set_curve b fe [(40, 0), (30, 95), (10, 31), (0, 127)] (demo_gc, p)) = True"
  by (simp add: game_controller_set_curve_def curve_x_def demo_gc_def Let_def)

text \<open>A curve of its own in the EEPROM is loaded without slopes.\<close>

lemma curve_init_keeps_slope:
  "snd (pt ! 3) \<noteq> 0 \<Longrightarrow> 4 \<le> length pt \<Longrightarrow> slope (game_controller_curve_init fe pt s) = slope s"
  by (auto simp: game_controller_curve_init_def curve_y_def Let_def uint_0_iff)

end
