(* ===== verification/Calibration.thy ===== *)
theory Calibration
  imports Profile Floats
begin

text \<open>
  Calibration of the Hall sensors (\<open>analog_matrix/analog_matrix.c\<close>): raw value to travel, the calibration at power on
  and by command, the automatic calibration while typing, and where the values are kept.
\<close>

section \<open>Constants and state\<close>

abbreviation CAL_SAMPL_CNT :: nat where "CAL_SAMPL_CNT \<equiv> 8"
abbreviation REF_ZERO_TRAVEL :: int where "REF_ZERO_TRAVEL \<equiv> 3121"
abbreviation DEFAULT_ZERO_TRAVEL_VALUE :: int where "DEFAULT_ZERO_TRAVEL_VALUE \<equiv> 3000"
abbreviation DEFAULT_FULL_RANGE :: int where "DEFAULT_FULL_RANGE \<equiv> 900"
abbreviation DEFAULT_FULL_TRAVEL_VALUE :: int where "DEFAULT_FULL_TRAVEL_VALUE \<equiv> DEFAULT_ZERO_TRAVEL_VALUE - DEFAULT_FULL_RANGE"
abbreviation VALID_ANALOG_RAW_VALUE_MIN :: int where "VALID_ANALOG_RAW_VALUE_MIN \<equiv> 1200"
abbreviation VALID_ANALOG_RAW_VALUE_MAX :: int where "VALID_ANALOG_RAW_VALUE_MAX \<equiv> 3500"
abbreviation ZERO_TRAVEL_DEAD_ZONE :: int where "ZERO_TRAVEL_DEAD_ZONE \<equiv> 20"
abbreviation BOTTOM_JITTER :: int where "BOTTOM_JITTER \<equiv> 80"
abbreviation AUTO_CALIB_FULL_TRAVEL_THRESHOLD_VALUE :: int where
  "AUTO_CALIB_FULL_TRAVEL_THRESHOLD_VALUE \<equiv> DEFAULT_ZERO_TRAVEL_VALUE - DEFAULT_FULL_RANGE + 100"
abbreviation AUTO_CALIB_ZERO_TRAVEL_JITTER_VALUE :: int where "AUTO_CALIB_ZERO_TRAVEL_JITTER_VALUE \<equiv> 50"
abbreviation AUTO_CALIB_FULL_TRAVEL_JITTER_VALUE :: int where "AUTO_CALIB_FULL_TRAVEL_JITTER_VALUE \<equiv> 100"
abbreviation AUTO_CALIB_ZERO_TRAVEL_THRESHOLD_VALUE :: int where
  "AUTO_CALIB_ZERO_TRAVEL_THRESHOLD_VALUE \<equiv> DEFAULT_FULL_RANGE - AUTO_CALIB_FULL_TRAVEL_JITTER_VALUE"
abbreviation AUTO_CALIB_VALID_RELASING_TIME :: u32 where "AUTO_CALIB_VALID_RELASING_TIME \<equiv> 1000"

abbreviation CALIB_OFF :: u8 where "CALIB_OFF \<equiv> 0"
abbreviation CALIB_ZERO_TRAVEL_POWER_ON :: u8 where "CALIB_ZERO_TRAVEL_POWER_ON \<equiv> 1"
abbreviation CALIB_ZERO_TRAVEL_MANUAL :: u8 where "CALIB_ZERO_TRAVEL_MANUAL \<equiv> 2"
abbreviation CALIB_FULL_TRAVEL_MANUAL :: u8 where "CALIB_FULL_TRAVEL_MANUAL \<equiv> 3"
abbreviation CALIB_SAVE_AND_EXIT :: u8 where "CALIB_SAVE_AND_EXIT \<equiv> 4"

abbreviation CALI_ZERO_TRAVEL :: u8 where "CALI_ZERO_TRAVEL \<equiv> 1"
abbreviation CALI_FULL_TRAVEL :: u8 where "CALI_FULL_TRAVEL \<equiv> 2"

abbreviation AUTO_CALIB_OFF :: "4 word" where "AUTO_CALIB_OFF \<equiv> 0"
abbreviation AUTO_CALIB_NEXT_LOOP :: "4 word" where "AUTO_CALIB_NEXT_LOOP \<equiv> 1"
abbreviation AUTO_CALIB_ZERO_TRAVEL :: "4 word" where "AUTO_CALIB_ZERO_TRAVEL \<equiv> 2"
abbreviation AUTO_CALIB_FULL_TRAVEL :: "4 word" where "AUTO_CALIB_FULL_TRAVEL \<equiv> 3"
abbreviation AUTO_CALIB_FINISHED :: "4 word" where "AUTO_CALIB_FINISHED \<equiv> 4"

text \<open>The two travels are bit fields of 12 bits.\<close>

record calibrated_value =
  zero_travel :: "12 word"
  full_travel :: "12 word"

record calibration =
  au_calibrated :: bool
  au_pressed :: bool
  au_new_calib_value :: bool
  au_state :: "4 word"
  confidence :: u8
  au_value :: calibrated_value
  full_travel_time :: u32
  cycle :: u8

text \<open>The statics of \<open>analog_matrix.c\<close>, the local statics \<open>calib_timer\<close> and the two \<open>eeprom_calibrated\<close>, and the
  external EEPROM.  The key matrix and the emulated EEPROM are in \<open>prof_state\<close>.\<close>

record 'row cal_state =
  cal_prof :: "'row prof_state"
  calib_values :: "calibrated_value list list"
  saved_calib_values :: "calibrated_value list list"
  calibrate_values :: "u16 list list list"
  auto_calib :: "calibration list list"
  cali_state :: u8
  last_cali_state :: u8
  cur_calib :: u8
  scale_factor :: "rat list list"
  calib_state_matrix :: "'row list"
  manual_calib_zero_invalid :: "'row list"
  calibrated :: u8
  calib_ind_timer :: u32
  last_calib_row :: u8
  last_calib_col :: u8
  calib_timer :: u32
  eeprom_calibrated_one :: u8
  eeprom_calibrated_all :: u8
  he_eeprom :: "u8 list"

definition zero_calib :: calibrated_value where
  "zero_calib = \<lparr>zero_travel = 0, full_travel = 0\<rparr>"

definition zero_auto :: calibration where
  "zero_auto = \<lparr>au_calibrated = False, au_pressed = False, au_new_calib_value = False, au_state = 0, confidence = 0,
     au_value = zero_calib, full_travel_time = 0, cycle = 0\<rparr>"

abbreviation cell :: "'a list list \<Rightarrow> nat \<Rightarrow> nat \<Rightarrow> 'a" where "cell m r c \<equiv> m ! r ! c"

section \<open>Travel\<close>

definition TRAVEL_POLYNOMIAL :: "float_env \<Rightarrow> int \<Rightarrow> rat" where
  "TRAVEL_POLYNOMIAL fe x =
     (let r = f64 fe; A1 = r (42688962 / 100000); B1 = r (- 48358 / 100000); C1 = r (204637 / 1000000000);
          D1 = r (- 299368 / 10000000000000); x = of_int x
      in r (r (r (A1 + r (B1 * x)) + r (r (C1 * x) * x)) + r (r (r (D1 * x) * x) * x)))"

text \<open>The raw value moved to the reference curve, a \<open>uint16_t\<close>; the offset is an \<open>int16_t\<close>.\<close>

definition ref_value :: "calibrated_value \<Rightarrow> int \<Rightarrow> int" where
  "ref_value p value =
     (let offset = sint (as_u16 (uint (zero_travel p) - REF_ZERO_TRAVEL)) in uint (as_u16 (value - offset)))"

definition convert_to_travel :: "float_env \<Rightarrow> calibrated_value \<Rightarrow> rat \<Rightarrow> u16 \<Rightarrow> u8" where
  "convert_to_travel fe p scale value =
     (let x = ref_value p (uint value); r = f64 fe in
      if x > REF_ZERO_TRAVEL then 0
      else let d = r (r (r (r (TRAVEL_POLYNOMIAL fe x - TRAVEL_POLYNOMIAL fe REF_ZERO_TRAVEL) * scale) * of_int TRAVEL_SCALE) + 1 / 2);
               travel = uint (as_u16 (f_to_int 0 65535 fe d));
               travel = (if travel > (FULL_TRAVEL_UNIT + 1) * TRAVEL_SCALE - 1 then (FULL_TRAVEL_UNIT + 1) * TRAVEL_SCALE - 1 else travel)
           in as_u8 travel AND 0xFF)"

text \<open>The \<open>else\<close> branch, a scale of 1, is never taken: the test is \<open>calibrated | CALI_FULL_TRAVEL\<close>.\<close>

definition scale_of :: "float_env \<Rightarrow> u8 \<Rightarrow> calibrated_value \<Rightarrow> rat" where
  "scale_of fe cal p =
     (if cal OR CALI_FULL_TRAVEL \<noteq> 0 then
        (let x = ref_value p (uint (full_travel p));
             full = f32 fe (f64 fe (TRAVEL_POLYNOMIAL fe x - TRAVEL_POLYNOMIAL fe REF_ZERO_TRAVEL))
         in f32 fe (of_int FULL_TRAVEL_UNIT / full))
      else 1)"

definition update_scale_factor :: "float_env \<Rightarrow> nat \<Rightarrow> nat \<Rightarrow> 'row cal_state \<Rightarrow> 'row cal_state" where
  "update_scale_factor fe r c s =
     s\<lparr>scale_factor := set_cell (scale_factor s) r c (scale_of fe (calibrated s) (cell (calib_values s) r c))\<rparr>"

definition update_scale_factors :: "board \<Rightarrow> float_env \<Rightarrow> 'row cal_state \<Rightarrow> 'row cal_state" where
  "update_scale_factors b fe s = for_keys b (update_scale_factor fe) s"

section \<open>Saving\<close>

text \<open>Only the keys the board has (\<open>analog_matrix_mask\<close>) are calibrated.\<close>

definition has_key :: "'r::len word list \<Rightarrow> nat \<Rightarrow> nat \<Rightarrow> bool" where
  "has_key msk r c \<longleftrightarrow> msk ! r AND col_mask c \<noteq> 0"

definition update_default_travel :: "board \<Rightarrow> 'r::len word list \<Rightarrow> 'r word cal_state \<Rightarrow> 'r word cal_state" where
  "update_default_travel b msk s =
     for_keys b (\<lambda>r c s.
       if \<not> has_key msk r c then s
       else let v = cell (saved_calib_values s) r c;
                v = (if zero_travel v = 0 then v\<lparr>zero_travel := word_of_int DEFAULT_ZERO_TRAVEL_VALUE\<rparr> else v);
                v = (if full_travel v = 0 then v\<lparr>full_travel := word_of_int (uint (zero_travel v) - DEFAULT_FULL_RANGE)\<rparr> else v)
            in s\<lparr>saved_calib_values := set_cell (saved_calib_values s) r c v\<rparr>) s"

definition calib_bytes :: "calibrated_value \<Rightarrow> u8 list" where
  "calib_bytes v = le_bytes 3 (ucast (zero_travel v) OR push_bit 12 (ucast (full_travel v)) :: 24 word)"

definition calib_of_bytes :: "u8 list \<Rightarrow> calibrated_value" where
  "calib_of_bytes bs = (let w = of_le_bytes bs :: 24 word in \<lparr>zero_travel = ucast w, full_travel = ucast (drop_bit 12 w)\<rparr>)"

abbreviation EXTERNAL_EEPROM_OFFSET :: nat where "EXTERNAL_EEPROM_OFFSET \<equiv> 4"

definition with_prof :: "('row prof_state \<Rightarrow> 'row prof_state) \<Rightarrow> 'row cal_state \<Rightarrow> 'row cal_state" where
  "with_prof f s = s\<lparr>cal_prof := f (cal_prof s)\<rparr>"

definition he_write :: "u8 list \<Rightarrow> nat \<Rightarrow> 'row cal_state \<Rightarrow> 'row cal_state" where
  "he_write buf addr s = s\<lparr>he_eeprom := splice (he_eeprom s) addr buf\<rparr>"

definition validate_datablock :: "'row prof_state \<Rightarrow> 'row prof_state" where
  "validate_datablock p =
     (if kb_data_version p \<noteq> EECONFIG_KB_DATA_VERSION then p\<lparr>kb_data_version := EECONFIG_KB_DATA_VERSION\<rparr> else p)"

definition save_calibration_value :: "board \<Rightarrow> nat \<Rightarrow> nat \<Rightarrow> 'row cal_state \<Rightarrow> 'row cal_state" where
  "save_calibration_value b r c s =
     (let s = (if eeprom_calibrated_one s \<noteq> calibrated s
               then he_write [calibrated s] (EXTERNAL_EEPROM_OFFSET + OFFSET_CALIBRATION) (s\<lparr>eeprom_calibrated_one := calibrated s\<rparr>) else s);
          offset = OFFSET_CALIBRATED_DATA_START + (r * MATRIX_COLS b + c) * 3;
          v = calib_bytes (cell (saved_calib_values s) r c);
          s = he_write v (EXTERNAL_EEPROM_OFFSET + offset) s
      in with_prof (analog_matrix_eeprom_update v offset \<circ> analog_matrix_eeprom_update [calibrated s] OFFSET_CALIBRATION \<circ> validate_datablock) s)"

definition save_calibration_values ::
  "board \<Rightarrow> float_env \<Rightarrow> 'r::len word list \<Rightarrow> 'r word cal_state \<Rightarrow> 'r word cal_state" where
  "save_calibration_values b fe msk s =
     (let s = (if eeprom_calibrated_all s \<noteq> calibrated s
               then he_write [calibrated s] (EXTERNAL_EEPROM_OFFSET + OFFSET_CALIBRATION) (s\<lparr>eeprom_calibrated_all := calibrated s\<rparr>) else s);
          v = concat (map calib_bytes (concat (saved_calib_values s)));
          s = he_write v (EXTERNAL_EEPROM_OFFSET + OFFSET_CALIBRATED_DATA_START) s;
          s = with_prof (analog_matrix_eeprom_update v OFFSET_CALIBRATED_DATA_START
                         \<circ> analog_matrix_eeprom_update [calibrated s] OFFSET_CALIBRATION \<circ> validate_datablock) s
      in update_scale_factors b fe (with_prof (update_travel_configs b) (update_default_travel b msk s)))"

section \<open>Calibration at power on and by command\<close>

abbreviation sum_samples :: "u16 list \<Rightarrow> u32" where
  "sum_samples xs \<equiv> sum_list (map ucast (take CAL_SAMPL_CNT xs))"

text \<open>One key of the full travel calibration.  The loop over the samples reads \<open>cur_calib\<close> in every round, so
  its sum is eight times the current sample, or 0 when that one is out of range.\<close>

definition full_sample_sum :: "u8 \<Rightarrow> u16 list \<Rightarrow> u32" where
  "full_sample_sum cur samples =
     (let v = samples ! unat cur in
      if uint v > VALID_ANALOG_RAW_VALUE_MIN then fold (\<lambda>_ sum. sum + ucast v) [0..<CAL_SAMPL_CNT] 0 else 0)"

definition full_travel_key ::
  "'r::len word list \<Rightarrow> u32 \<Rightarrow> nat \<Rightarrow> nat \<Rightarrow> bool \<times> 'r word cal_state \<Rightarrow> bool \<times> 'r word cal_state" where
  "full_travel_key msk now r c = (\<lambda>(finished, s).
     if \<not> has_key msk r c then (finished, s)
     else
       let v = cell (calib_values s) r c;
           sum = full_sample_sum (cur_calib s) (cell (calibrate_values s) r c);
           avg = uint (ucast (sum div of_nat CAL_SAMPL_CNT) :: u16);
           hit = (sum \<noteq> 0 \<and>
                  ((full_travel v = 0 \<and> avg < uint (zero_travel v) - DEFAULT_FULL_RANGE + 100) \<or>
                   (full_travel v \<noteq> 0 \<and> avg + BOTTOM_JITTER < uint (full_travel v))));
           v1 = v\<lparr>full_travel := word_of_int (avg + BOTTOM_JITTER)\<rparr>;
           s1 = (if hit then
                   s\<lparr>saved_calib_values := set_cell (saved_calib_values s) r c v1,
                     calib_values := set_cell (calib_values s) r c v1,
                     calib_state_matrix := (calib_state_matrix s)[r := calib_state_matrix s ! r OR col_mask c],
                     calib_ind_timer := now, last_calib_row := of_nat r, last_calib_col := of_nat c\<rparr>
                 else s)
       in (if full_travel (cell (calib_values s1) r c) = 0 then False else finished, s1))"

text \<open>One key of the zero travel calibration.\<close>

definition zero_travel_key ::
  "'r::len word list \<Rightarrow> nat \<Rightarrow> nat \<Rightarrow> bool \<times> 'r word cal_state \<Rightarrow> bool \<times> 'r word cal_state" where
  "zero_travel_key msk r c = (\<lambda>(valid, s).
     if \<not> has_key msk r c then (valid, s)
     else
       let avg_val = ucast (sum_samples (cell (calibrate_values s) r c) div of_nat CAL_SAMPL_CNT) :: u16;
           low = (uint avg_val < DEFAULT_ZERO_TRAVEL_VALUE - DEFAULT_FULL_RANGE div 5);
           power_on = (cali_state s = CALIB_ZERO_TRAVEL_POWER_ON);
           p = cell (auto_calib s) r c; v = cell (calib_values s) r c
       in if uint avg_val > VALID_ANALOG_RAW_VALUE_MAX \<or> low then
            (if power_on then False else valid,
             s\<lparr>manual_calib_zero_invalid := (manual_calib_zero_invalid s)[r := manual_calib_zero_invalid s ! r OR col_mask c],
               auto_calib := (if low \<and> power_on then set_cell (auto_calib s) r c (p\<lparr>au_pressed := True\<rparr>) else auto_calib s)\<rparr>)
          else
            (let avg_val = as_u16 (uint avg_val - ZERO_TRAVEL_DEAD_ZONE) in
             if \<bar>uint avg_val - uint (zero_travel v)\<bar> > 30 then
               (valid, s\<lparr>auto_calib := set_cell (auto_calib s) r c (p\<lparr>au_new_calib_value := True\<rparr>),
                         calib_values := set_cell (calib_values s) r c
                           (if power_on then v\<lparr>zero_travel := ucast avg_val, full_travel := word_of_int (uint avg_val - DEFAULT_FULL_RANGE)\<rparr>
                            else v\<lparr>zero_travel := ucast avg_val\<rparr>)\<rparr>)
             else (valid, s)))"

text \<open>The end of a finished calibration: the values are saved and the state goes off.\<close>

definition calibrate_end ::
  "board \<Rightarrow> float_env \<Rightarrow> 'r::len word list \<Rightarrow> bool \<Rightarrow> 'r word cal_state \<Rightarrow> 'r word cal_state" where
  "calibrate_end b fe msk update s =
     (if update then
        let s = save_calibration_values b fe msk s
        in if cali_state s = CALIB_ZERO_TRAVEL_POWER_ON \<or> cali_state s = CALIB_FULL_TRAVEL_MANUAL then s\<lparr>cali_state := CALIB_OFF\<rparr> else s
      else if cali_state s = CALIB_ZERO_TRAVEL_POWER_ON then s\<lparr>cali_state := CALIB_OFF\<rparr>
      else s)"

definition calibrate_full ::
  "board \<Rightarrow> float_env \<Rightarrow> 'r::len word list \<Rightarrow> u32 \<Rightarrow> 'r word cal_state \<Rightarrow> bool \<times> 'r word cal_state" where
  "calibrate_full b fe msk now s =
     (case for_keys b (full_travel_key msk now) (True, s) of (finished, s) \<Rightarrow>
        let s = s\<lparr>cur_calib := if cur_calib s + 1 \<ge> of_nat CAL_SAMPL_CNT then 0 else cur_calib s + 1\<rparr>;
            s = (if finished \<and> calib_timer s = 0 then s\<lparr>calib_timer := now\<rparr> else s)
        in if calib_timer s \<noteq> 0 \<and> timer_elapsed32 now (calib_timer s) > 3000 then
             let s = with_prof (profile_indication_enable now) (s\<lparr>calib_timer := 0, calibrated := calibrated s OR CALI_FULL_TRAVEL\<rparr>)
             in (True, calibrate_end b fe msk True s)
           else (False, s))"

definition calibrate_zero ::
  "board \<Rightarrow> float_env \<Rightarrow> 'r::len word list \<Rightarrow> 'r word cal_state \<Rightarrow> bool \<times> 'r word cal_state" where
  "calibrate_zero b fe msk s =
     (if uint (cur_calib s) + 1 < int CAL_SAMPL_CNT then (False, s\<lparr>cur_calib := cur_calib s + 1\<rparr>)
      else case for_keys b (zero_travel_key msk) (True, s) of (valid, s) \<Rightarrow>
        let manual = (cali_state s = CALIB_ZERO_TRAVEL_MANUAL);
            update = (\<not> manual \<and> valid \<and> calibrated s AND CALI_ZERO_TRAVEL = 0);
            s = (if manual then s\<lparr>cali_state := CALIB_FULL_TRAVEL_MANUAL\<rparr>
                 else if update then
                   for_keys b (\<lambda>r c s. s\<lparr>saved_calib_values := set_cell (saved_calib_values s) r c
                     ((cell (saved_calib_values s) r c)\<lparr>zero_travel := zero_travel (cell (calib_values s) r c)\<rparr>)\<rparr>) s
                 else s);
            s = (if valid then s\<lparr>calibrated := calibrated s OR CALI_ZERO_TRAVEL\<rparr> else s\<lparr>cali_state := CALIB_OFF\<rparr>)
        in (True, calibrate_end b fe msk update s))"

definition calibrate_save_and_exit ::
  "board \<Rightarrow> float_env \<Rightarrow> 'r::len word list \<Rightarrow> 'r word cal_state \<Rightarrow> bool \<times> 'r word cal_state" where
  "calibrate_save_and_exit b fe msk s =
     (let update = (last_cali_state s = CALIB_FULL_TRAVEL_MANUAL);
          s = (if update then
                 for_keys b (\<lambda>r c s.
                   if has_key msk r c \<and> full_travel (cell (calib_values s) r c) = 0
                   then s\<lparr>calib_values := set_cell (calib_values s) r c
                          ((cell (calib_values s) r c)\<lparr>full_travel := full_travel (cell (saved_calib_values s) r c)\<rparr>)\<rparr>
                   else s) s
               else s)
      in (True, calibrate_end b fe msk update (s\<lparr>cali_state := CALIB_OFF\<rparr>)))"

definition calibrate ::
  "board \<Rightarrow> float_env \<Rightarrow> 'r::len word list \<Rightarrow> u32 \<Rightarrow> 'r word cal_state \<Rightarrow> bool \<times> 'r word cal_state" where
  "calibrate b fe msk now s =
     (if cali_state s = CALIB_OFF then (False, s)
      else if cali_state s = CALIB_FULL_TRAVEL_MANUAL then calibrate_full b fe msk now s
      else if cali_state s = CALIB_ZERO_TRAVEL_POWER_ON \<or> cali_state s = CALIB_ZERO_TRAVEL_MANUAL then calibrate_zero b fe msk s
      else if cali_state s = CALIB_SAVE_AND_EXIT then calibrate_save_and_exit b fe msk s
      else (True, calibrate_end b fe msk False s))"

definition set_calibrate :: "board \<Rightarrow> u8 \<Rightarrow> 'r::len word cal_state \<Rightarrow> bool \<times> 'r word cal_state" where
  "set_calibrate b new_cali_state s =
     (if new_cali_state = CALIB_ZERO_TRAVEL_MANUAL then
        (True, s\<lparr>cali_state := new_cali_state, cur_calib := 0,
                 calibrate_values := map (map (map (\<lambda>_. 0))) (calibrate_values s), calib_ind_timer := 0,
                 calib_values := map (map (\<lambda>_. zero_calib)) (calib_values s),
                 calib_state_matrix := map (\<lambda>_. 0) (calib_state_matrix s),
                 manual_calib_zero_invalid := map (\<lambda>_. 0) (manual_calib_zero_invalid s)\<rparr>)
      else if new_cali_state = CALIB_SAVE_AND_EXIT then
        (True, if cali_state s = CALIB_ZERO_TRAVEL_MANUAL \<or> cali_state s = CALIB_FULL_TRAVEL_MANUAL
               then s\<lparr>last_cali_state := cali_state s, cali_state := new_cali_state\<rparr> else s)
      else (False, s))"

definition calibration_validate :: "board \<Rightarrow> 'r::len word list \<Rightarrow> 'r word cal_state \<Rightarrow> 'r word cal_state" where
  "calibration_validate b msk s =
     for_keys b (\<lambda>r c s.
       if \<not> has_key msk r c then s
       else if uint (zero_travel (cell (saved_calib_values s) r c)) < DEFAULT_ZERO_TRAVEL_VALUE - DEFAULT_FULL_RANGE div 5
       then s\<lparr>saved_calib_values := set_cell (saved_calib_values s) r c
              \<lparr>zero_travel = word_of_int DEFAULT_ZERO_TRAVEL_VALUE,
               full_travel = word_of_int (DEFAULT_ZERO_TRAVEL_VALUE - DEFAULT_FULL_RANGE)\<rparr>\<rparr>
       else s) s"

section \<open>Automatic calibration\<close>

definition auto_calibration_init :: "'row cal_state \<Rightarrow> 'row cal_state" where
  "auto_calibration_init s = s\<lparr>auto_calib := map (map (\<lambda>_. zero_auto)) (auto_calib s)\<rparr>"

text \<open>The average of the eight samples and the confidence it earns; the difference is taken in \<open>uint32_t\<close>.\<close>

definition auto_average :: "u16 list \<Rightarrow> calibration \<Rightarrow> calibration" where
  "auto_average samples p =
     (let avg_val = sum_samples samples div of_nat CAL_SAMPL_CNT - as_u32 ZERO_TRAVEL_DEAD_ZONE;
          range = avg_val - ucast (full_travel (au_value p));
          p = p\<lparr>au_value := (au_value p)\<lparr>zero_travel := ucast avg_val\<rparr>\<rparr>
      in if range > 1100 then p\<lparr>confidence := confidence p + (if au_calibrated p then 12 else 6)\<rparr>
         else if range > 1000 then p\<lparr>confidence := confidence p + (if au_calibrated p then 4 else 3)\<rparr>
         else if range > 900 then p\<lparr>confidence := confidence p + (if au_calibrated p then 3 else 2)\<rparr>
         else p)"

text \<open>The states of one key; the samples are its row of \<open>calibrate_values\<close>.\<close>

definition auto_step :: "u32 \<Rightarrow> u16 \<Rightarrow> u16 list \<times> calibration \<Rightarrow> u16 list \<times> calibration" where
  "auto_step now value = (\<lambda>(samples, p).
     let v = uint value; zero = uint (zero_travel (au_value p)); full = uint (full_travel (au_value p)); st = au_state p;
         with_full = (\<lambda>p. p\<lparr>au_value := (au_value p)\<lparr>full_travel := ucast value\<rparr>, full_travel_time := now\<rparr>) in
     if st = AUTO_CALIB_OFF then
       (if au_pressed p \<and> \<not> v > DEFAULT_ZERO_TRAVEL_VALUE - DEFAULT_FULL_RANGE div 5 then (samples, p)
        else (samples, p\<lparr>au_pressed := False, au_state := AUTO_CALIB_NEXT_LOOP, confidence := 0\<rparr>))
     else if st = AUTO_CALIB_NEXT_LOOP then
       (if v < AUTO_CALIB_FULL_TRAVEL_THRESHOLD_VALUE then (samples, (with_full p)\<lparr>au_state := AUTO_CALIB_FULL_TRAVEL\<rparr>)
        else (samples, p))
     else if st = AUTO_CALIB_ZERO_TRAVEL then
       (if v > zero then (samples, p\<lparr>au_value := (au_value p)\<lparr>zero_travel := ucast value\<rparr>, cycle := 0\<rparr>)
        else if \<bar>zero - v\<bar> \<le> AUTO_CALIB_ZERO_TRAVEL_JITTER_VALUE then
          (let samples = samples[unat (cycle p) := value]; p = p\<lparr>cycle := cycle p + 1\<rparr> in
           if unat (cycle p) \<ge> CAL_SAMPL_CNT then
             (samples, (if timer_elapsed32 now (full_travel_time p) < AUTO_CALIB_VALID_RELASING_TIME
                        then auto_average samples p else p)\<lparr>au_state := AUTO_CALIB_NEXT_LOOP\<rparr>)
           else (samples, p))
        else (samples, p\<lparr>au_state := AUTO_CALIB_NEXT_LOOP\<rparr>))
     else if st = AUTO_CALIB_FULL_TRAVEL then
       (if v < full then (samples, with_full p)
        else if v - full \<le> AUTO_CALIB_FULL_TRAVEL_JITTER_VALUE then (samples, p\<lparr>full_travel_time := now\<rparr>)
        else if v - full > AUTO_CALIB_ZERO_TRAVEL_THRESHOLD_VALUE
        then (samples, p\<lparr>au_value := (au_value p)\<lparr>zero_travel := ucast value\<rparr>, au_state := AUTO_CALIB_ZERO_TRAVEL, cycle := 0\<rparr>)
        else (samples, p))
     else if st = AUTO_CALIB_FINISHED then
       (if v > zero + 50 then (samples, p\<lparr>au_state := AUTO_CALIB_OFF\<rparr>) else (samples, p))
     else (samples, p))"

definition auto_commit ::
  "board \<Rightarrow> float_env \<Rightarrow> 'r::len word list \<Rightarrow> nat \<Rightarrow> nat \<Rightarrow> calibration \<Rightarrow> 'r word cal_state \<Rightarrow> 'r word cal_state" where
  "auto_commit b fe msk r c p s =
     (let v = cell (calib_values s) r c; zero = uint (zero_travel (au_value p)); full = uint (full_travel (au_value p)) in
      if \<bar>zero - uint (zero_travel v)\<bar> > 10 \<or> \<bar>full + BOTTOM_JITTER - uint (full_travel v)\<bar> > 30 then
        let v = \<lparr>zero_travel = zero_travel (au_value p), full_travel = word_of_int (full + BOTTOM_JITTER)\<rparr>;
            s = s\<lparr>calib_values := set_cell (calib_values s) r c v\<rparr>;
            w = cell (saved_calib_values s) r c;
            s = (if \<bar>uint (zero_travel w) - uint (zero_travel v)\<bar> > 15 \<or> \<bar>uint (full_travel w) - uint (full_travel v)\<bar> > 50
                 then save_calibration_value b r c (s\<lparr>saved_calib_values := set_cell (saved_calib_values s) r c v\<rparr>)
                 else s\<lparr>calib_values := set_cell (calib_values s) r c (v\<lparr>full_travel := word_of_int (full - 15)\<rparr>)\<rparr>)
        in update_scale_factors b fe (with_prof (update_travel_configs b) (update_default_travel b msk s))
      else s)"

definition auto_caliration_check ::
  "board \<Rightarrow> float_env \<Rightarrow> 'r::len word list \<Rightarrow> u32 \<Rightarrow> nat \<Rightarrow> nat \<Rightarrow> u16 \<Rightarrow> 'r word cal_state \<Rightarrow> 'r word cal_state" where
  "auto_caliration_check b fe msk now r c value s =
     (case auto_step now value (cell (calibrate_values s) r c, cell (auto_calib s) r c) of (samples, p) \<Rightarrow>
        let finished = (au_state (cell (auto_calib s) r c) = AUTO_CALIB_ZERO_TRAVEL \<and> confidence p \<ge> 12);
            p = (if finished then p\<lparr>au_state := AUTO_CALIB_FINISHED\<rparr> else p);
            s = s\<lparr>calibrate_values := set_cell (calibrate_values s) r c samples, auto_calib := set_cell (auto_calib s) r c p\<rparr>
        in if finished then auto_commit b fe msk r c p s else s)"

section \<open>The automatic calibration is sound\<close>

text \<open>What each state of a key knows.  The samples collected so far lie at most 50 below the zero travel.\<close>

definition auto_inv :: "u16 list \<Rightarrow> calibration \<Rightarrow> bool" where
  "auto_inv samples p \<longleftrightarrow>
     (let zero = uint (zero_travel (au_value p)); full = uint (full_travel (au_value p)); st = au_state p in
      length samples = CAL_SAMPL_CNT \<and>
      (st \<in> {AUTO_CALIB_NEXT_LOOP, AUTO_CALIB_ZERO_TRAVEL, AUTO_CALIB_FULL_TRAVEL} \<longrightarrow> confidence p < 12) \<and>
      (st \<in> {AUTO_CALIB_ZERO_TRAVEL, AUTO_CALIB_FULL_TRAVEL} \<longrightarrow>
         VALID_ANALOG_RAW_VALUE_MIN \<le> full \<and> full < AUTO_CALIB_FULL_TRAVEL_THRESHOLD_VALUE) \<and>
      (st = AUTO_CALIB_ZERO_TRAVEL \<longrightarrow> full + AUTO_CALIB_ZERO_TRAVEL_THRESHOLD_VALUE < zero \<and> zero \<le> VALID_ANALOG_RAW_VALUE_MAX \<and>
         unat (cycle p) < CAL_SAMPL_CNT \<and>
         (\<forall>i < unat (cycle p). zero - AUTO_CALIB_ZERO_TRAVEL_JITTER_VALUE \<le> uint (samples ! i) \<and> uint (samples ! i) \<le> zero)))"

definition raw_in_range :: "u16 \<Rightarrow> bool" where
  "raw_in_range v \<longleftrightarrow> VALID_ANALOG_RAW_VALUE_MIN \<le> uint v \<and> uint v \<le> VALID_ANALOG_RAW_VALUE_MAX"

lemma uint_12: "uint v < 4096 \<Longrightarrow> uint (ucast v :: 12 word) = uint v" for v :: "'a::len word"
  by (simp add: unsigned_ucast_eq take_bit_int_eq_self)

lemma sum_list_bounds:
  assumes "\<forall>x \<in> set xs. (a :: int) \<le> f x \<and> f x \<le> b"
  shows "int (length xs) * a \<le> sum_list (map f xs)" and "sum_list (map f xs) \<le> int (length xs) * b"
  using assms by (induction xs) (auto simp: algebra_simps)

lemma uint_sum_samples:
  fixes xs :: "u16 list"
  assumes "length xs \<le> 8"
  shows "uint (sum_list (map ucast xs) :: u32) = sum_list (map uint xs)"
  using assms
proof (induction xs)
  case (Cons x xs)
  have "sum_list (map uint xs) \<le> int (length xs) * 65535"
  proof (rule sum_list_bounds(2) [where a = 0], intro ballI conjI)
    fix x :: u16
    show "uint x \<le> 65535" using uint_bounded [of x] by simp
  qed simp
  moreover have "0 \<le> sum_list (map uint xs)" by (rule sum_list_nonneg) auto
  moreover have "uint (ucast x :: u32) = uint x" by (simp add: unsigned_ucast_eq take_bit_int_eq_self order.strict_trans2 [OF uint_bounded])
  moreover have "uint x < 65536" using uint_bounded [of x] by simp
  ultimately show ?case using Cons by (simp add: uint_word_ariths)
qed simp

lemma uint_sub: "uint b \<le> uint a \<Longrightarrow> uint (a - b) = uint a - uint b" for a b :: "'a::len word"
  by (simp add: uint_sub_if')

lemma auto_average_value:
  assumes "length samples = CAL_SAMPL_CNT" and "\<forall>x \<in> set samples. zero - 50 \<le> uint x \<and> uint x \<le> zero"
    and "zero \<le> VALID_ANALOG_RAW_VALUE_MAX" and "uint (full_travel (au_value p)) + 800 < zero"
  defines "avg \<equiv> sum_list (map uint samples) div 8 - 20"
  shows "zero - 70 \<le> avg \<and> avg \<le> zero - 20"
    and "uint (zero_travel (au_value (auto_average samples p))) = avg"
    and "full_travel (au_value (auto_average samples p)) = full_travel (au_value p)"
    and "confidence (auto_average samples p) = confidence p + (let range = avg - uint (full_travel (au_value p)) in
      if range > 1100 then (if au_calibrated p then 12 else 6) else if range > 1000 then (if au_calibrated p then 4 else 3)
      else if range > 900 then (if au_calibrated p then 3 else 2) else 0)"
proof -
  let ?full = "uint (full_travel (au_value p))"
  have S: "8 * (zero - 50) \<le> sum_list (map uint samples)" "sum_list (map uint samples) \<le> 8 * zero"
    using sum_list_bounds [of samples "zero - 50" uint zero] assms(1,2) by simp_all
  then show avg: "zero - 70 \<le> avg \<and> avg \<le> zero - 20" unfolding avg_def by presburger
  have full: "0 \<le> ?full" by simp
  define w :: u32 where "w = sum_samples samples div of_nat CAL_SAMPL_CNT - as_u32 ZERO_TRAVEL_DEAD_ZONE"
  have d: "uint (sum_samples samples div 8) = sum_list (map uint samples) div 8"
    using assms(1) uint_sum_samples [of samples] by (simp add: uint_div_distrib)
  have "20 \<le> sum_list (map uint samples) div 8" using avg full assms(4) unfolding avg_def by linarith
  then have w: "uint w = avg" using d by (simp add: w_def avg_def uint_sub)
  have r: "uint (w - ucast (full_travel (au_value p))) = avg - ?full"
  proof -
    have "uint (ucast (full_travel (au_value p)) :: u32) = ?full"
      using uint_bounded [of "full_travel (au_value p)"] by (simp add: unsigned_ucast_eq take_bit_int_eq_self)
    then show ?thesis using w avg assms(4) by (simp add: uint_sub)
  qed
  have a: "auto_average samples p = (let range = w - ucast (full_travel (au_value p));
          p = p\<lparr>au_value := (au_value p)\<lparr>zero_travel := ucast w\<rparr>\<rparr>
      in if range > 1100 then p\<lparr>confidence := confidence p + (if au_calibrated p then 12 else 6)\<rparr>
         else if range > 1000 then p\<lparr>confidence := confidence p + (if au_calibrated p then 4 else 3)\<rparr>
         else if range > 900 then p\<lparr>confidence := confidence p + (if au_calibrated p then 3 else 2)\<rparr>
         else p)" by (simp add: auto_average_def w_def Let_def)
  have z: "uint (ucast w :: 12 word) = avg" using w avg assms(3) by (simp add: uint_12)
  show "uint (zero_travel (au_value (auto_average samples p))) = avg"
    "full_travel (au_value (auto_average samples p)) = full_travel (au_value p)"
    using z by (simp_all add: a Let_def)
  show "confidence (auto_average samples p) = confidence p + (let range = avg - ?full in
      if range > 1100 then (if au_calibrated p then 12 else 6) else if range > 1000 then (if au_calibrated p then 4 else 3)
      else if range > 900 then (if au_calibrated p then 3 else 2) else 0)"
    using r by (simp add: a Let_def word_less_def)
qed

text \<open>One sample: the entry of \<open>calibrate_values\<close> that is written exists, and a key whose confidence suffices has a
  range of more than 900 between its travels.\<close>

lemma auto_step_sound:
  assumes "auto_inv samples p" and "raw_in_range value" and "auto_step now value (samples, p) = (samples', p')"
  shows "if au_state p = AUTO_CALIB_ZERO_TRAVEL \<and> confidence p' \<ge> 12
    then length samples' = CAL_SAMPL_CNT \<and> uint (full_travel (au_value p')) + DEFAULT_FULL_RANGE < uint (zero_travel (au_value p'))
      \<and> VALID_ANALOG_RAW_VALUE_MIN \<le> uint (full_travel (au_value p'))
      \<and> uint (full_travel (au_value p')) < AUTO_CALIB_FULL_TRAVEL_THRESHOLD_VALUE \<and> uint (zero_travel (au_value p')) \<le> VALID_ANALOG_RAW_VALUE_MAX
    else auto_inv samples' p'"
proof -
  have v: "uint (ucast value :: 12 word) = uint value" using assms(2) by (simp add: raw_in_range_def uint_12)
  note inv = assms(1) [unfolded auto_inv_def Let_def]
  consider "au_state p = AUTO_CALIB_OFF" | "au_state p = AUTO_CALIB_NEXT_LOOP" | "au_state p = AUTO_CALIB_ZERO_TRAVEL"
    | "au_state p = AUTO_CALIB_FULL_TRAVEL" | "au_state p = AUTO_CALIB_FINISHED"
    | "au_state p \<notin> {AUTO_CALIB_OFF, AUTO_CALIB_NEXT_LOOP, AUTO_CALIB_ZERO_TRAVEL, AUTO_CALIB_FULL_TRAVEL, AUTO_CALIB_FINISHED}" by blast
  then show ?thesis
  proof cases
    case 3
    let ?zero = "uint (zero_travel (au_value p))" and ?full = "uint (full_travel (au_value p))"
    consider (up) "uint value > ?zero" | (near) "\<not> uint value > ?zero" "\<bar>?zero - uint value\<bar> \<le> 50" | (far) "\<not> uint value > ?zero" "\<not> \<bar>?zero - uint value\<bar> \<le> 50"
      by blast
    then show ?thesis
    proof cases
      case up
      then show ?thesis using 3 inv assms(2,3) v by (auto simp: auto_step_def auto_inv_def Let_def raw_in_range_def)
    next
      case far
      then show ?thesis using 3 inv assms(3) by (auto simp: auto_step_def auto_inv_def Let_def)
    next
      case near
      let ?s = "samples[unat (cycle p) := value]" and ?p = "p\<lparr>cycle := cycle p + 1\<rparr>"
      have cyc: "unat (cycle p) < 8" "length samples = 8" using inv 3 by simp_all
      then have c: "unat (cycle p + 1) = unat (cycle p) + 1" by (simp add: unat_word_ariths)
      have near_all: "\<forall>i < unat (cycle p) + 1. ?zero - 50 \<le> uint (?s ! i) \<and> uint (?s ! i) \<le> ?zero"
        using inv 3 near cyc by (auto simp: nth_list_update_if less_Suc_eq)
      show ?thesis
      proof (cases "unat (cycle p) + 1 \<ge> 8")
        case True
        then have "unat (cycle p) + 1 = 8" using cyc by simp
        then have all: "\<forall>x \<in> set ?s. ?zero - 50 \<le> uint x \<and> uint x \<le> ?zero" using near_all cyc(2) by (auto simp: in_set_conv_nth)
        have z: "?zero \<le> 3500" "?full + 800 < ?zero" "?full < 2200" "1200 \<le> ?full" "confidence p < 12" using inv 3 by simp_all
        note av = auto_average_value [of ?s ?zero ?p, simplified, OF cyc(2) all z(1,2)]
        have r: "samples' = ?s" "p' = (if timer_elapsed32 now (full_travel_time p) < AUTO_CALIB_VALID_RELASING_TIME
            then auto_average ?s ?p else ?p)\<lparr>au_state := AUTO_CALIB_NEXT_LOOP\<rparr>"
          using assms(3) 3 near True c by (auto simp: auto_step_def Let_def)
        show ?thesis
        proof (cases "timer_elapsed32 now (full_travel_time p) < AUTO_CALIB_VALID_RELASING_TIME")
          case elapsed: True
          have "confidence p' \<ge> 12 \<Longrightarrow> uint (full_travel (au_value p')) + 900 < uint (zero_travel (au_value p'))"
            using av elapsed r z(5) by (auto simp: Let_def not_less [symmetric] split: if_splits)
          then show ?thesis using 3 r av elapsed cyc z by (auto simp: auto_inv_def Let_def not_le)
        next
          case False
          then show ?thesis using 3 r cyc z by (auto simp: auto_inv_def Let_def not_le)
        qed
      next
        case False
        then have "samples' = ?s" "p' = ?p" using assms(3) 3 near c by (auto simp: auto_step_def Let_def)
        then show ?thesis using 3 inv near_all cyc c False by (auto simp: auto_inv_def Let_def)
      qed
    qed
  qed (use inv assms(2,3) v in \<open>auto simp: auto_step_def auto_inv_def Let_def raw_in_range_def split: if_splits\<close>)
qed

text \<open>The whole matrix; the travels in use stay more than 820 apart.\<close>

definition shaped :: "board \<Rightarrow> 'a list list \<Rightarrow> bool" where
  "shaped b m \<longleftrightarrow> length m = MATRIX_ROWS b \<and> (\<forall>r < MATRIX_ROWS b. length (m ! r) = MATRIX_COLS b)"

definition auto_ok :: "board \<Rightarrow> 'row cal_state \<Rightarrow> bool" where
  "auto_ok b s \<longleftrightarrow> shaped b (calibrate_values s) \<and> shaped b (auto_calib s) \<and> shaped b (calib_values s) \<and>
     (\<forall>r < MATRIX_ROWS b. \<forall>c < MATRIX_COLS b. auto_inv (cell (calibrate_values s) r c) (cell (auto_calib s) r c) \<and>
        uint (full_travel (cell (calib_values s) r c)) + 820 < uint (zero_travel (cell (calib_values s) r c)))"

lemma shaped_set_cell [simp]: "shaped b m \<Longrightarrow> shaped b (set_cell m r c x)"
  by (auto simp: shaped_def set_cell_def nth_list_update_if)

lemma cell_set_cell:
  "shaped b m \<Longrightarrow> r < MATRIX_ROWS b \<Longrightarrow> c < MATRIX_COLS b \<Longrightarrow> cell (set_cell m r c x) r' c' = (if r' = r \<and> c' = c then x else cell m r' c')"
  by (auto simp: shaped_def set_cell_def nth_list_update_if)

text \<open>The helpers leave these fields alone.\<close>

definition same_auto :: "'row cal_state \<Rightarrow> 'row cal_state \<Rightarrow> bool" where
  "same_auto s s' \<longleftrightarrow> calibrate_values s' = calibrate_values s \<and> auto_calib s' = auto_calib s \<and> calib_values s' = calib_values s"

lemma same_auto_refl [simp]: "same_auto s s"
  by (simp add: same_auto_def)

lemma same_auto_helpers:
  "same_auto s (update_scale_factors b fe s)" "same_auto s (update_default_travel b msk s)"
  "same_auto s (with_prof f s)" "same_auto s (save_calibration_value b r c s)"
  subgoal unfolding update_scale_factors_def
    by (rule for_keys_invariant [where P = "same_auto s"]) (auto simp: same_auto_def update_scale_factor_def)
  subgoal unfolding update_default_travel_def
    by (rule for_keys_invariant [where P = "same_auto s"]) (auto simp: same_auto_def Let_def)
  subgoal by (simp add: same_auto_def with_prof_def)
  subgoal by (simp add: same_auto_def save_calibration_value_def Let_def with_prof_def he_write_def)
  done

lemma same_auto_trans: "same_auto s s' \<Longrightarrow> same_auto s' s'' \<Longrightarrow> same_auto s s''"
  by (simp add: same_auto_def)

text \<open>A commit stores the travels of the key, the full travel raised by 80 or lowered by 15.\<close>

lemma auto_commit_fields:
  assumes "shaped b (calib_values s)" and "r < MATRIX_ROWS b" and "c < MATRIX_COLS b"
    and "auto_commit b fe msk r c p s = s'"
  shows "calibrate_values s' = calibrate_values s \<and> auto_calib s' = auto_calib s \<and>
    (calib_values s' = calib_values s \<or>
     (\<exists>v. calib_values s' = set_cell (calib_values s) r c v \<and> zero_travel v = zero_travel (au_value p) \<and>
       (full_travel v = word_of_int (uint (full_travel (au_value p)) + 80) \<or> full_travel v = word_of_int (uint (full_travel (au_value p)) - 15))))"
proof -
  have twice: "set_cell (set_cell m r c x) r c y = set_cell m r c y" if "r < length m" for m :: "calibrated_value list list" and x y
    using that by (simp add: set_cell_def)
  have r: "r < length (calib_values s)" using assms(1,2) by (simp add: shaped_def)
  define tail where "tail = (\<lambda>t. update_scale_factors b fe (with_prof (update_travel_configs b) (update_default_travel b msk t)))"
  have tail: "calibrate_values (tail t) = calibrate_values t \<and> auto_calib (tail t) = auto_calib t \<and> calib_values (tail t) = calib_values t" for t
    using same_auto_helpers(1-3) unfolding tail_def same_auto_def by metis
  define v where "v = \<lparr>zero_travel = zero_travel (au_value p), full_travel = word_of_int (uint (full_travel (au_value p)) + 80)\<rparr>"
  define t where "t = s\<lparr>calib_values := set_cell (calib_values s) r c v\<rparr>"
  define t1 where "t1 = save_calibration_value b r c (t\<lparr>saved_calib_values := set_cell (saved_calib_values t) r c v\<rparr>)"
  define t2 where "t2 = t\<lparr>calib_values := set_cell (calib_values t) r c (v\<lparr>full_travel := word_of_int (uint (full_travel (au_value p)) - 15)\<rparr>)\<rparr>"
  have "s' = s \<or> s' = tail t1 \<or> s' = tail t2"
    using assms(4) by (auto simp: auto_commit_def tail_def v_def t_def t1_def t2_def Let_def)
  moreover have "calibrate_values t1 = calibrate_values s \<and> auto_calib t1 = auto_calib s \<and> calib_values t1 = set_cell (calib_values s) r c v"
    using same_auto_helpers(4) [of "t\<lparr>saved_calib_values := set_cell (saved_calib_values t) r c v\<rparr>" b r c] by (simp add: t1_def t_def same_auto_def)
  moreover have "calibrate_values t2 = calibrate_values s \<and> auto_calib t2 = auto_calib s \<and>
      calib_values t2 = set_cell (calib_values s) r c (v\<lparr>full_travel := word_of_int (uint (full_travel (au_value p)) - 15)\<rparr>)"
    using r by (simp add: t2_def t_def twice)
  ultimately show ?thesis using tail by (auto simp: v_def)
qed


definition demo_cal :: "u32 cal_state" where
  "demo_cal = \<lparr>cal_prof = demo_profiles (replicate 1453 0), calib_values = [[\<lparr>zero_travel = 2900, full_travel = 2000\<rparr>]],
     saved_calib_values = [[\<lparr>zero_travel = 2900, full_travel = 2000\<rparr>]], calibrate_values = [[replicate 8 0]],
     auto_calib = [[zero_auto\<lparr>au_state := AUTO_CALIB_NEXT_LOOP\<rparr>]], cali_state = 1, last_cali_state = 0, cur_calib = 0,
     scale_factor = [[1]], calib_state_matrix = [0], manual_calib_zero_invalid = [0], calibrated = 3, calib_ind_timer = 0,
     last_calib_row = 255, last_calib_col = 255, calib_timer = 0, eeprom_calibrated_one = 3, eeprom_calibrated_all = 3,
     he_eeprom = replicate 1024 0\<rparr>"


section \<open>The calibration at power on ends\<close>

text \<open>What the zero travel pass keeps.\<close>

lemma zero_key_frame [simp]: "cali_state (snd (zero_travel_key msk r c x)) = cali_state (snd x)"
  by (cases x) (simp add: zero_travel_key_def Let_def)

lemma zero_pass_frame:
  "cali_state (snd (for_keys b (zero_travel_key msk) (v, s))) = cali_state s"
proof -
  show ?thesis
    by (rule for_keys_invariant [where P = "\<lambda>x. cali_state (snd x) = cali_state s"]) simp_all
qed

lemma save_values_frame:
  "cali_state (save_calibration_values b fe msk s) = cali_state s"
proof -
  have sf: "cali_state (update_scale_factors b fe s) = cali_state s" for s
    unfolding update_scale_factors_def
    by (rule for_keys_invariant [where P = "\<lambda>t. cali_state t = cali_state s"]) (auto simp: update_scale_factor_def)
  have dt: "cali_state (update_default_travel b msk s) = cali_state s" for s
    unfolding update_default_travel_def
    by (rule for_keys_invariant [where P = "\<lambda>t. cali_state t = cali_state s"]) (auto simp: Let_def)
  show ?thesis by (simp add: save_calibration_values_def Let_def sf dt with_prof_def he_write_def)
qed

lemma power_on_pass:
  assumes "cali_state s = CALIB_ZERO_TRAVEL_POWER_ON" and "unat (cur_calib s) = 7"
  shows "cali_state (snd (calibrate b fe msk now s)) = CALIB_OFF"
proof -
  obtain v t where p: "for_keys b (zero_travel_key msk) (True, s) = (v, t)" by fastforce
  have t: "cali_state t = CALIB_ZERO_TRAVEL_POWER_ON" using zero_pass_frame [of b msk True s] p assms(1) by simp
  have "cali_state (for_keys b (\<lambda>r c s. s\<lparr>saved_calib_values := set_cell (saved_calib_values s) r c
      ((cell (saved_calib_values s) r c)\<lparr>zero_travel := zero_travel (cell (calib_values s) r c)\<rparr>)\<rparr>) t) = cali_state t"
    by (rule for_keys_invariant [where P = "\<lambda>u. cali_state u = cali_state t"]) auto
  moreover have "\<not> uint (cur_calib s) + 1 < 8" using assms(2) by (simp add: uint_nat)
  ultimately show ?thesis using assms(1) p t
    by (simp add: calibrate_def calibrate_zero_def calibrate_end_def Let_def save_values_frame)
qed

text \<open>Eight calls of calibrate after power on end the zero travel calibration, whatever samples
  arrive in between and valid or not, so raw values reach the triggers again.\<close>

lemma power_on_calibration_ends:
  assumes "cali_state (f 0) = CALIB_ZERO_TRAVEL_POWER_ON" and "cur_calib (f 0) = 0"
    and "\<forall>i < 8. cali_state (f (Suc i)) = cali_state (snd (calibrate b fe msk (now i) (f i)))
              \<and> cur_calib (f (Suc i)) = cur_calib (snd (calibrate b fe msk (now i) (f i)))"
  shows "cali_state (f 8) = CALIB_OFF"
proof -
  have "cali_state (f i) = CALIB_ZERO_TRAVEL_POWER_ON \<and> unat (cur_calib (f i)) = i" if "i \<le> 7" for i
    using that
  proof (induction i)
    case (Suc i)
    then have "uint (cur_calib (f i)) + 1 < 8" "unat (cur_calib (f i) + 1) = Suc i" by (simp_all add: uint_nat unat_word_ariths)
    with Suc assms(3) show ?case by (simp add: calibrate_def calibrate_zero_def)
  qed (use assms(1,2) in simp)
  from this [of 7] power_on_pass [of "f 7"] have "cali_state (snd (calibrate b fe msk (now 7) (f 7))) = CALIB_OFF" by simp
  moreover have "cali_state (f 8) = cali_state (snd (calibrate b fe msk (now 7) (f 7)))" using assms(3) [rule_format, of 7] by simp
  ultimately show ?thesis by simp
qed

lemma power_on_calibration_ends_witness:
  "cali_state (rec_nat demo_cal (\<lambda>i s. snd (calibrate demo_board exact_floats [1] (of_nat i) s)) 8) = CALIB_OFF"
  by (rule power_on_calibration_ends [where now = of_nat and b = demo_board and fe = exact_floats and msk = "[1]"])
    (simp_all add: demo_cal_def)

section \<open>Raw value to travel\<close>

lemma ref_value_eq:
  assumes "0 \<le> v" and "v \<le> 4095"
  shows "ref_value p v = (v - uint (zero_travel p) + REF_ZERO_TRAVEL) mod 65536"
proof -
  let ?o = "uint (zero_travel p) - REF_ZERO_TRAVEL"
  have z: "0 \<le> uint (zero_travel p)" "uint (zero_travel p) < 4096" using uint_bounded [of "zero_travel p"] by simp_all
  then have o': "sint (as_u16 ?o) = ?o" by (subst sint_sbintrunc') (auto intro!: signed_take_bit_int_eq_self)
  have "ref_value p v = uint (as_u16 (v - ?o))" by (simp only: ref_value_def Let_def o')
  also have "\<dots> = (v - ?o) mod 65536" by (subst uint_word_of_int) simp
  finally show ?thesis by (simp add: algebra_simps)
qed

lemma ref_value_raw:
  assumes "raw_in_range v"
  shows "ref_value p (uint v) = uint v - uint (zero_travel p) + REF_ZERO_TRAVEL"
proof -
  have z: "0 \<le> uint (zero_travel p)" "uint (zero_travel p) < 4096" "1200 \<le> uint v" "uint v \<le> 3500"
    using assms uint_bounded [of "zero_travel p"] by (simp_all add: raw_in_range_def)
  have "ref_value p (uint v) = (uint v - uint (zero_travel p) + REF_ZERO_TRAVEL) mod 65536"
    by (rule ref_value_eq) (use z in linarith)+
  also have "\<dots> = uint v - uint (zero_travel p) + REF_ZERO_TRAVEL"
    by (rule mod_pos_pos_trivial) (use z in linarith)+
  finally show ?thesis .
qed

text \<open>The curve falls on the range in use, and the scaled travels stay far from the bound of \<open>uint16_t\<close>.\<close>

definition curve_ok :: "float_env \<Rightarrow> rat \<Rightarrow> bool" where
  "curve_ok fe scale \<longleftrightarrow> 0 \<le> scale \<and> scale \<le> 10 \<and>
     TRAVEL_POLYNOMIAL fe 0 - TRAVEL_POLYNOMIAL fe REF_ZERO_TRAVEL \<le> 1000 \<and>
     (\<forall>x y. 0 \<le> x \<and> x \<le> y \<and> y \<le> REF_ZERO_TRAVEL \<longrightarrow> TRAVEL_POLYNOMIAL fe y \<le> TRAVEL_POLYNOMIAL fe x)"

definition travel_real :: "float_env \<Rightarrow> rat \<Rightarrow> int \<Rightarrow> rat" where
  "travel_real fe scale x =
     (let r = f64 fe in
      r (r (r (r (TRAVEL_POLYNOMIAL fe x - TRAVEL_POLYNOMIAL fe REF_ZERO_TRAVEL) * scale) * of_int TRAVEL_SCALE) + 1 / 2))"

lemma travel_real_bounds:
  assumes "float_ok fe" and "curve_ok fe scale" and "0 \<le> x" and "x \<le> REF_ZERO_TRAVEL"
  shows "0 \<le> travel_real fe scale x \<and> travel_real fe scale x \<le> 60001"
proof -
  have r: "rounding (f64 fe)" using assms(1) by (simp add: float_ok_def)
  note c = assms(2) [unfolded curve_ok_def]
  let ?d = "TRAVEL_POLYNOMIAL fe x - TRAVEL_POLYNOMIAL fe REF_ZERO_TRAVEL"
  have d: "of_int 0 \<le> ?d" "?d \<le> of_int 1000" 
  proof -
    have "TRAVEL_POLYNOMIAL fe x \<le> TRAVEL_POLYNOMIAL fe 0" "TRAVEL_POLYNOMIAL fe REF_ZERO_TRAVEL \<le> TRAVEL_POLYNOMIAL fe x"
      using c assms(3,4) by blast+
    then show "of_int 0 \<le> ?d" "?d \<le> of_int 1000" using c by simp_all
  qed
  have b1: "of_int 0 \<le> f64 fe ?d \<and> f64 fe ?d \<le> of_int 1000" by (rule rounding_between [OF r d]) simp_all
  then have "of_int 0 \<le> f64 fe ?d * scale" "f64 fe ?d * scale \<le> of_int 10000"
    using c mult_mono [of "f64 fe ?d" 1000 scale 10] by simp_all
  then have b2: "of_int 0 \<le> f64 fe (f64 fe ?d * scale) \<and> f64 fe (f64 fe ?d * scale) \<le> of_int 10000" by (rule rounding_between [OF r]) simp_all
  have b3: "of_int 0 \<le> f64 fe (f64 fe (f64 fe ?d * scale) * of_int TRAVEL_SCALE) \<and> f64 fe (f64 fe (f64 fe ?d * scale) * of_int TRAVEL_SCALE) \<le> of_int 60000"
    by (rule rounding_between [OF r]) (use b2 in simp_all)
  have "of_int 0 \<le> travel_real fe scale x \<and> travel_real fe scale x \<le> of_int 60001"
    unfolding travel_real_def Let_def by (rule rounding_between [OF r]) (use b3 in simp_all)
  then show ?thesis by simp
qed

lemma travel_real_mono:
  assumes "float_ok fe" and "curve_ok fe scale" and "0 \<le> x" and "x \<le> y" and "y \<le> REF_ZERO_TRAVEL"
  shows "travel_real fe scale y \<le> travel_real fe scale x"
proof -
  have r: "rounding (f64 fe)" using assms(1) by (simp add: float_ok_def)
  have "TRAVEL_POLYNOMIAL fe y \<le> TRAVEL_POLYNOMIAL fe x" "0 \<le> scale" using assms by (simp_all add: curve_ok_def)
  then show ?thesis unfolding travel_real_def Let_def
    by (intro rounding_mono [OF r] add_right_mono mult_right_mono diff_right_mono) simp_all
qed

text \<open>The conversion as a function of the reference value.\<close>

definition travel_at :: "float_env \<Rightarrow> rat \<Rightarrow> int \<Rightarrow> int" where
  "travel_at fe scale x = (if x > REF_ZERO_TRAVEL then 0 else min 245 (trunc_rat (travel_real fe scale x)))"

lemma convert_travel_at:
  assumes "float_ok fe" and "curve_ok fe scale" and "raw_in_range v" and "0 \<le> uint v - uint (zero_travel p) + REF_ZERO_TRAVEL"
  shows "uint (convert_to_travel fe p scale v) = travel_at fe scale (uint v - uint (zero_travel p) + REF_ZERO_TRAVEL)"
proof -
  let ?x = "uint v - uint (zero_travel p) + REF_ZERO_TRAVEL"
  have x: "ref_value p (uint v) = ?x" by (rule ref_value_raw [OF assms(3)])
  show ?thesis
  proof (cases "?x > REF_ZERO_TRAVEL")
    case True
    then show ?thesis by (simp add: convert_to_travel_def x travel_at_def)
  next
    case False
    define t where "t = trunc_rat (travel_real fe scale ?x)"
    have t: "0 \<le> t" "t \<le> 60001"
      using travel_real_bounds [OF assms(1,2,4)] False trunc_rat_between [of 0 "travel_real fe scale ?x" 60001] by (simp_all add: t_def)
    have t16: "uint (as_u16 (f_to_int 0 65535 fe (travel_real fe scale ?x))) = t"
      using t by (simp add: f_to_int_def t_def [symmetric] uint_word_of_int)
    have ff: "(w :: u8) AND 0xFF = w" for w
      by (rule bit_word_eqI) (auto simp: byte_masks(7) bit_simps)
    have "convert_to_travel fe p scale v = as_u8 (min 245 t)"
      using False t16 by (simp add: convert_to_travel_def x Let_def travel_real_def ff min_def)
    then show ?thesis using False t by (simp add: travel_at_def t_def uint_word_of_int)
  qed
qed

text \<open>The curve as written, in exact arithmetic, falls.\<close>

lemma exact_polynomial:
  "TRAVEL_POLYNOMIAL exact_floats x = 42688962 / 100000 - 48358 / 100000 * of_int x + 204637 / 1000000000 * (of_int x)\<^sup>2
     - 299368 / 10000000000000 * (of_int x) ^ 3"
  by (simp add: TRAVEL_POLYNOMIAL_def exact_floats_def Let_def power2_eq_square power3_eq_cube)

lemma exact_curve_falls:
  assumes "x \<le> y"
  shows "TRAVEL_POLYNOMIAL exact_floats y \<le> TRAVEL_POLYNOMIAL exact_floats x"
proof -
  define X Y :: rat where "X = of_int x" and "Y = of_int y"
  let ?D = "299368 / 10000000000000 :: rat" and ?C = "204637 / 1000000000 :: rat" and ?B = "48358 / 100000 :: rat"
  have "?B - ?C * (X + Y) + ?D * (X\<^sup>2 + X * Y + Y\<^sup>2)
    = 3 / 4 * ?D * (X + Y - 2 * ?C / (3 * ?D))\<^sup>2 + 1 / 4 * ?D * (X - Y)\<^sup>2 + (?B - ?C\<^sup>2 / (3 * ?D))"
    by (simp add: power2_eq_square field_simps)
  also have "\<dots> \<ge> 0" by (simp add: power2_eq_square)
  finally have "0 \<le> (Y - X) * (?B - ?C * (X + Y) + ?D * (X\<^sup>2 + X * Y + Y\<^sup>2))"
    using assms by (intro mult_nonneg_nonneg) (simp_all add: X_def Y_def)
  also have "\<dots> = TRAVEL_POLYNOMIAL exact_floats x - TRAVEL_POLYNOMIAL exact_floats y"
    by (simp add: exact_polynomial X_def [symmetric] Y_def [symmetric] power2_eq_square power3_eq_cube field_simps)
  finally show ?thesis by simp
qed

lemma exact_curve_ok: "0 \<le> scale \<Longrightarrow> scale \<le> 10 \<Longrightarrow> curve_ok exact_floats scale"
  using exact_curve_falls by (auto simp: curve_ok_def exact_polynomial)

text \<open>On a falling curve, with any monotone rounding, a deeper raw value never gives a smaller
  travel, no travel exceeds 245, and a raw value above the zero travel gives 0.\<close>

lemma travel_monotone:
  assumes "float_ok fe" and "curve_ok fe scale" and "raw_in_range v" and "raw_in_range w" and "v \<le> w"
    and "uint (zero_travel p) \<le> uint v + REF_ZERO_TRAVEL"
  shows "convert_to_travel fe p scale w \<le> convert_to_travel fe p scale v
    \<and> uint (convert_to_travel fe p scale v) \<le> 245
    \<and> (uint (zero_travel p) < uint w \<longrightarrow> convert_to_travel fe p scale w = 0)"
proof -
  let ?x = "\<lambda>v. uint v - uint (zero_travel p) + REF_ZERO_TRAVEL"
  have le: "?x v \<le> ?x w" "0 \<le> ?x v" "0 \<le> ?x w" using assms(5,6) by (simp_all add: word_le_def)
  have c: "uint (convert_to_travel fe p scale v) = travel_at fe scale (?x v)" "uint (convert_to_travel fe p scale w) = travel_at fe scale (?x w)"
    using convert_travel_at [OF assms(1,2)] assms(3,4) le by simp_all
  have "travel_at fe scale (?x w) \<le> travel_at fe scale (?x v)"
  proof (cases "?x w > REF_ZERO_TRAVEL")
    case True
    then have "travel_at fe scale (?x w) = 0" by (simp add: travel_at_def)
    then show ?thesis using c(1) by (metis uint_ge_0)
  next
    case False
    have "trunc_rat (travel_real fe scale (?x w)) \<le> trunc_rat (travel_real fe scale (?x v))"
      using travel_real_bounds [OF assms(1,2) le(3)] travel_real_mono [OF assms(1,2) le(2,1)] False by (intro trunc_rat_mono) simp_all
    then show ?thesis using False le(1) by (simp add: travel_at_def)
  qed
  moreover have "travel_at fe scale (?x v) \<le> 245" by (simp add: travel_at_def)
  moreover have "travel_at fe scale (?x w) = 0" if "uint (zero_travel p) < uint w" using that by (simp add: travel_at_def)
  ultimately show ?thesis using c by (auto simp: word_le_def uint_0_iff)
qed

lemma travel_monotone_witness:
  "curve_ok exact_floats 1 \<and> convert_to_travel exact_floats \<lparr>zero_travel = 2900, full_travel = 2000\<rparr> 1 2800
    \<le> convert_to_travel exact_floats \<lparr>zero_travel = 2900, full_travel = 2000\<rparr> 1 2000"
proof -
  have "raw_in_range 2000" "raw_in_range 2800" "(2000 :: u16) \<le> 2800" by (simp_all add: raw_in_range_def)
  with travel_monotone [OF exact_floats_ok exact_curve_ok, of 1 2000 2800 "\<lparr>zero_travel = 2900, full_travel = 2000\<rparr>"] exact_curve_ok [of 1]
  show ?thesis by simp
qed

section \<open>A timer that outlives its calibration\<close>

text \<open>Nothing but the end of the full travel calibration resets \<open>calib_timer\<close>: left running by an exit, it ends the
  next full travel calibration in its first pass, whatever keys have not been pressed.\<close>

lemma calib_timer_survives: "calib_timer (snd (set_calibrate b x s)) = calib_timer s"
  by (simp add: set_calibrate_def)

lemma full_key_frame [simp]:
  "cali_state (snd (full_travel_key msk now r c x)) = cali_state (snd x)" "calib_timer (snd (full_travel_key msk now r c x)) = calib_timer (snd x)"
  by (cases x; simp add: full_travel_key_def Let_def)+

lemma stale_timer_ends_calibration:
  assumes "cali_state s = CALIB_FULL_TRAVEL_MANUAL" and "calib_timer s \<noteq> 0" and "timer_elapsed32 now (calib_timer s) > 3000"
  shows "cali_state (snd (calibrate b fe msk now s)) = CALIB_OFF"
proof -
  obtain fin t where p: "for_keys b (full_travel_key msk now) (True, s) = (fin, t)" by fastforce
  have "cali_state (snd (for_keys b (full_travel_key msk now) (True, s))) = cali_state s
      \<and> calib_timer (snd (for_keys b (full_travel_key msk now) (True, s))) = calib_timer s"
    by (rule for_keys_invariant [where P = "\<lambda>x. cali_state (snd x) = cali_state s \<and> calib_timer (snd x) = calib_timer s"]) simp_all
  then have "cali_state t = CALIB_FULL_TRAVEL_MANUAL" "calib_timer t = calib_timer s" using p assms(1) by simp_all
  then show ?thesis using assms p
    by (simp add: calibrate_def calibrate_full_def calibrate_end_def Let_def save_values_frame with_prof_def)
qed

section \<open>The saved values and the profile index\<close>

lemma for_keys_field: "(\<And>r c s. f (g r c s) = f s) \<Longrightarrow> f (for_keys b g s) = f s"
  by (rule for_keys_invariant [where P = "\<lambda>t. f t = f s"]) simp_all

lemma update_travel_eeprom [simp]: "analog_eeprom (update_travel_configs b s) = analog_eeprom s"
  unfolding update_travel_configs_def by (rule for_keys_field) (simp add: update_key_config_def split_beta)

lemma update_helpers_prof [simp]:
  "cal_prof (update_scale_factors b fe s) = cal_prof s" "cal_prof (update_default_travel b msk s) = cal_prof s"
  unfolding update_scale_factors_def update_default_travel_def
  by (rule for_keys_field; simp add: update_scale_factor_def Let_def)+

lemma save_values_eeprom:
  "analog_eeprom (cal_prof (save_calibration_values b fe msk s)) =
     splice (splice (analog_eeprom (cal_prof s)) 0 [calibrated s]) 1 (concat (map calib_bytes (concat (saved_calib_values s))))"
  by (simp add: save_calibration_values_def with_prof_def he_write_def Let_def analog_matrix_eeprom_update_def validate_datablock_def)

lemma length_calib_bytes [simp]: "length (calib_bytes v) = 3"
  by (simp add: calib_bytes_def)

lemma calib_bytes_first: "calib_bytes v ! 0 = ucast (zero_travel v)"
proof -
  have "(ucast (ucast (zero_travel v) OR push_bit 12 (ucast (full_travel v)) :: 24 word) :: u8) = ucast (zero_travel v)"
    by (rule bit_word_eqI) (auto simp: bit_simps dest: bit_imp_le_length)
  then show ?thesis by (simp add: calib_bytes_def numeral_3_eq_3)
qed

text \<open>After the calibration values are saved, the next boot selects the profile whose index is
  the low byte of the zero travel of the first key, or profile 0: the saved profile index is
  overwritten.\<close>

lemma calibration_clobbers_profile:
  assumes "board_ok b" and "shaped b (saved_calib_values s)"
    and "EECONFIG_SIZE_ANALOG_MATRIX b \<le> length (analog_eeprom (cal_prof s))"
    and "analog_eeprom r = analog_eeprom (cal_prof (save_calibration_values b fe msk s))"
    and "low = (ucast (zero_travel (cell (saved_calib_values s) 0 0)) :: u8)"
  shows "current_profile_index (profile_init b False r) = (if 3 \<le> unat low then 0 else low)"
proof -
  let ?m = "saved_calib_values s"
  have dims: "0 < MATRIX_ROWS b" "0 < MATRIX_COLS b" using assms(1) by (simp_all add: board_ok_def)
  then have "?m \<noteq> []" "?m ! 0 \<noteq> []" using assms(2) by (auto simp: shaped_def)
  then obtain v row rest where m: "?m = (v # row) # rest" by (metis neq_Nil_conv nth_Cons_0)
  let ?v = "concat (map calib_bytes (concat ?m))"
  have "\<forall>row \<in> set ?m. length row = MATRIX_COLS b" using assms(2) by (auto simp: shaped_def in_set_conv_nth)
  then have "length (concat ?m) = MATRIX_COLS b * MATRIX_ROWS b"
    using length_concat_const [of ?m "MATRIX_COLS b"] assms(2) by (simp add: shaped_def)
  then have lv: "length ?v = 3 * (MATRIX_ROWS b * MATRIX_COLS b)"
    by (subst length_concat_const [where n = 3]) auto
  let ?e = "splice (analog_eeprom (cal_prof s)) 0 [calibrated s]"
  have len: "length ?e = length (analog_eeprom (cal_prof s))" "1 + length ?v \<le> length ?e" "0 < length ?v"
    using assms(3) lv dims by (simp_all add: EECONFIG_SIZE_ANALOG_MATRIX_def OFFSET_PROFILES_START_def)
  have "analog_eeprom r ! 1 = ?v ! 0"
    unfolding assms(4) save_values_eeprom using nth_splice [OF len(2), of 1] len by simp
  also have "\<dots> = low" using calib_bytes_first [of v] by (simp add: m assms(5) nth_append)
  finally have "analog_eeprom r ! 1 = low" .
  then show ?thesis by (simp add: profile_init_def Let_def EECONFIG_SIZE_ANALOG_MATRIX_def)
qed

lemma calibration_clobbers_profile_witness:
  "current_profile_index (profile_init demo_board False (demo_profiles (replicate 1453 1))) = 1
   \<and> (\<exists>r :: u32 prof_state. analog_eeprom r = analog_eeprom (cal_prof (save_calibration_values demo_board exact_floats [1]
        (demo_cal\<lparr>cal_prof := demo_profiles (replicate 1453 1)\<rparr>)))
      \<and> current_profile_index (profile_init demo_board False r) = 0)"
proof -
  let ?s = "demo_cal\<lparr>cal_prof := demo_profiles (replicate 1453 1)\<rparr>"
  define r where "r = demo_profiles (analog_eeprom (cal_prof (save_calibration_values demo_board exact_floats [1] ?s)))"
  have e: "analog_eeprom r = analog_eeprom (cal_prof (save_calibration_values demo_board exact_floats [1] ?s))"
    by (simp add: r_def demo_profiles_def)
  have sh: "shaped demo_board (saved_calib_values ?s)" by (simp add: shaped_def demo_cal_def demo_board_def)
  have len: "EECONFIG_SIZE_ANALOG_MATRIX demo_board \<le> length (analog_eeprom (cal_prof ?s))"
    by (simp add: demo_sizes demo_profiles_def)
  from calibration_clobbers_profile [OF demo_sizes(3) sh len e refl]
  have "current_profile_index (profile_init demo_board False r) = 0" by (simp add: demo_cal_def)
  moreover have "current_profile_index (profile_init demo_board False (demo_profiles (replicate 1453 1))) = 1"
    by (simp add: profile_init_def demo_profiles_def demo_sizes Let_def)
  ultimately show ?thesis using e by blast
qed

end
