(* ===== verification/AnalogMatrix.thy ===== *)
theory AnalogMatrix
  imports Okmc GameController Calibration
begin

text \<open>
  The Hall-effect matrix as a whole (\<open>analog_matrix/analog_matrix.c\<close>, \<open>analog_matrix_scan.c\<close>): a raw value becomes
  a travel and goes to the trigger of its key, a column is read until three conversions agree, the tasks run after
  every scan, and the raw HID commands reach the profiles, the game controller and the calibration.
\<close>

section \<open>State\<close>

record 'row analog =
  cal :: "'row cal_state"
  gc :: "'row gc_state"
  host :: host_state
  analog_raw_matrix :: "'row list"
  changed_matrix :: "'row list"
  raw_matrix :: "'row list"
  virtual_matrix :: "'row list"
  debounced_matrix :: "'row list"
  matrix_changed :: bool
  socd_state :: "u8 list"

text \<open>The key matrix and \<open>okmc_matrix\<close> live in the profile state, which the calibration state holds.\<close>

abbreviation prof :: "'r::len word analog \<Rightarrow> 'r word prof_state" where "prof s \<equiv> cal_prof (cal s)"

definition with_profs :: "('r word prof_state \<Rightarrow> 'r word prof_state) \<Rightarrow> 'r::len word analog \<Rightarrow> 'r word analog" where
  "with_profs f s = s\<lparr>cal := with_prof f (cal s)\<rparr>"

definition get_key :: "nat \<Rightarrow> nat \<Rightarrow> 'r::len word analog \<Rightarrow> analog_key" where
  "get_key r c s = cell (analog_key_matrix (prof s)) r c"

definition put_key :: "nat \<Rightarrow> nat \<Rightarrow> analog_key \<Rightarrow> 'r::len word analog \<Rightarrow> 'r word analog" where
  "put_key r c k = with_profs (\<lambda>p. p\<lparr>analog_key_matrix := set_cell (analog_key_matrix p) r c k\<rparr>)"

definition analog_matrix_get_travel :: "nat \<Rightarrow> nat \<Rightarrow> 'r::len word analog \<Rightarrow> u8" where
  "analog_matrix_get_travel r c s = ak_travel (get_key r c s)"

definition analog_matrix_get_key_mode :: "nat \<Rightarrow> nat \<Rightarrow> 'r::len word analog \<Rightarrow> u8" where
  "analog_matrix_get_key_mode r c s = ak_mode (get_key r c s)"

section \<open>A raw value\<close>

text \<open>The \<open>switch\<close> over the mode of the key.\<close>

definition run_trigger :: "analog_key \<Rightarrow> 'r::len word analog \<Rightarrow> bool \<times> analog_key \<times> 'r word analog" where
  "run_trigger k s =
     (if ak_mode k = AKM_RAPID then (case rapid_trigger_action k of (ret, k) \<Rightarrow> (ret, k, s))
      else if ak_mode k = AKM_DKS then
        (case okmc_action (current_profile (prof s)) k (host s, okmc_matrix (prof s)) of (ret, k, h, m) \<Rightarrow>
           (ret, k, with_profs (\<lambda>p. p\<lparr>okmc_matrix := m\<rparr>) (s\<lparr>host := h\<rparr>)))
      else if ak_mode k = AKM_GAMEPAD then
        (if game_controller_xinput_enabled (gc s)
         then (case xinput_update k (gc s) of (ret, k, g) \<Rightarrow> (ret, k, s\<lparr>gc := g\<rparr>))
         else (case joystick_update k (gc s) of (ret, k, g) \<Rightarrow> (ret, k, s\<lparr>gc := g\<rparr>)))
      else if ak_mode k = AKM_TOGGLE then (case toggle_action k of (ret, k) \<Rightarrow> (ret, k, s))
      else (case regular_trigger_action k of (ret, k) \<Rightarrow> (ret, k, s)))"

definition update_raw_value ::
  "board \<Rightarrow> float_env \<Rightarrow> 'r matrix \<Rightarrow> u32 \<Rightarrow> nat \<Rightarrow> nat \<Rightarrow> u16 \<Rightarrow> 'r::len word analog \<Rightarrow> bool \<times> 'r word analog" where
  "update_raw_value b fe msk now r c v s =
     (if uint v < VALID_ANALOG_RAW_VALUE_MIN \<or> uint v > VALID_ANALOG_RAW_VALUE_MAX then (False, s)
      else if cali_state (cal s) \<noteq> 0 then
        (let samples = cell (calibrate_values (cal s)) r c; cs = cal s;
             s = s\<lparr>cal := cs\<lparr>calibrate_values := set_cell (calibrate_values cs) r c (samples[unat (cur_calib cs) := v])\<rparr>\<rparr>
         in (False, put_key r c ((get_key r c s)\<lparr>ak_value := v\<rparr>) s))
      else
        let s = s\<lparr>cal := auto_caliration_check b fe msk now r c v (cal s)\<rparr>; k = get_key r c s in
        if \<bar>uint (ak_last_val k) - uint v\<bar> < 5 then (False, s)
        else
          let k = k\<lparr>ak_last_val := v, ak_value := v,
                    ak_travel := convert_to_travel fe (cell (calib_values (cal s)) r c) (cell (scale_factor (cal s)) r c) v\<rparr>
          in if ak_travel k = ak_last_travel k then (False, put_key r c k s)
             else case run_trigger (k\<lparr>ak_last_travel := ak_travel k\<rparr>) s of (ret, k, s) \<Rightarrow> (ret, put_key r c k s))"

section \<open>Scanning\<close>

text \<open>One conversion of a column: every row's sample is fed to its key, and the pressed rows are collected in
  \<open>row_value\<close> or \<open>row_value_recheck\<close>.  The third component is \<open>changed\<close>.\<close>

definition read_row ::
  "board \<Rightarrow> float_env \<Rightarrow> 'r matrix \<Rightarrow> u32 \<Rightarrow> nat \<Rightarrow> u16 list \<Rightarrow> nat \<Rightarrow> u8 \<times> bool \<times> 'r::len word analog \<Rightarrow> u8 \<times> bool \<times> 'r word analog" where
  "read_row b fe msk now c samples r = (\<lambda>(row_value, changed, s).
     let s = snd (update_raw_value b fe msk now r c (samples ! r) s);
         pressed = analog_matrix_get_key_state (game_controller_type_enabled (gc s)) (get_key r c s);
         on = (analog_raw_matrix s ! r AND col_mask c \<noteq> 0)
     in if pressed then (row_value OR col_mask r, if \<not> on then True else changed, s)
        else (row_value, if on then True else changed, s))"

definition convert_column ::
  "board \<Rightarrow> float_env \<Rightarrow> 'r matrix \<Rightarrow> u32 \<Rightarrow> nat \<Rightarrow> u16 list \<Rightarrow> bool \<Rightarrow> 'r::len word analog \<Rightarrow> u8 \<times> bool \<times> 'r word analog" where
  "convert_column b fe msk now c samples changed s =
     fold (read_row b fe msk now c samples) [0..<MATRIX_ROWS b] (0, changed, s)"

text \<open>The \<open>do\<close> loop: after the first conversion the others, \<open>ANALOG_DEBOUCE_TIME\<close> 3 in all, must find the same rows.\<close>

fun recheck ::
  "board \<Rightarrow> float_env \<Rightarrow> 'r matrix \<Rightarrow> u32 \<Rightarrow> nat \<Rightarrow> u16 list list \<Rightarrow> u8 \<Rightarrow> 'r::len word analog \<Rightarrow> bool \<times> 'r word analog" where
  "recheck b fe msk now c [] row_value s = (True, s)"
| "recheck b fe msk now c (samples # rest) row_value s =
     (case convert_column b fe msk now c samples True s of (again, changed, s) \<Rightarrow>
        if row_value \<noteq> again then (False, s) else recheck b fe msk now c rest row_value s)"

definition update_row :: "nat \<Rightarrow> u8 \<Rightarrow> 'r word \<Rightarrow> 'r::len word analog \<Rightarrow> 'r word analog" where
  "update_row r row_value row_shifter s =
     (let an = analog_raw_matrix s ! r; ch = changed_matrix s ! r in
      if row_value AND col_mask r \<noteq> 0 then
        s\<lparr>changed_matrix := (changed_matrix s)[r := if an AND row_shifter = 0 then ch OR row_shifter else ch],
          analog_raw_matrix := (analog_raw_matrix s)[r := an OR row_shifter]\<rparr>
      else
        s\<lparr>changed_matrix := (changed_matrix s)[r := if an AND row_shifter \<noteq> 0 then ch OR row_shifter else ch],
          analog_raw_matrix := (analog_raw_matrix s)[r := an AND NOT row_shifter]\<rparr>)"

definition matrix_read_rows_on_col ::
  "board \<Rightarrow> float_env \<Rightarrow> 'r matrix \<Rightarrow> u32 \<Rightarrow> nat \<Rightarrow> 'r word \<Rightarrow> u16 list \<Rightarrow> u16 list list \<Rightarrow> 'r::len word analog \<Rightarrow> 'r word analog" where
  "matrix_read_rows_on_col b fe msk now c row_shifter first rest s =
     (case convert_column b fe msk now c first False s of (row_value, changed, s) \<Rightarrow>
        if \<not> changed then s
        else case recheck b fe msk now c (take 2 rest) row_value s of (changed, s) \<Rightarrow>
          if changed
          then fold (\<lambda>r. update_row r row_value row_shifter) [0..<MATRIX_ROWS b] (s\<lparr>matrix_changed := True\<rparr>)
          else s)"

text \<open>The tasks after a scan.\<close>

definition analog_matrix_task :: "board \<Rightarrow> float_env \<Rightarrow> 'r matrix \<Rightarrow> u32 \<Rightarrow> 'r::len word analog \<Rightarrow> 'r word analog" where
  "analog_matrix_task b fe msk now s =
     (let s = s\<lparr>cal := snd (calibrate b fe msk now (cal s))\<rparr>;
          s = with_profs (profile_indication_timer_check now) s;
          (st, raw) = socd_action (\<lambda>(r, c). analog_matrix_get_travel r c s) (analog_raw_matrix s) (raw_matrix s) (changed_matrix s)
                        (socd (current_profile (prof s))) (socd_state s);
          s = s\<lparr>socd_state := st, raw_matrix := raw\<rparr>
      in s\<lparr>gc := xinput_task fe (joystick_action_task fe (gc s))\<rparr>)"

text \<open>\<open>conv c\<close> gives the conversions of column \<open>c\<close>; \<open>enc\<close> is the key of the encoder switch and its pin, where the
  board has one.  \<open>matrix_scan_kb\<close> is the keyboard's.\<close>

definition matrix_scan_custom ::
  "board \<Rightarrow> float_env \<Rightarrow> 'r matrix \<Rightarrow> u32 \<Rightarrow> (nat \<Rightarrow> u16 list \<times> u16 list list) \<Rightarrow> (nat \<times> nat \<times> bool) option \<Rightarrow> 'r::len word analog \<Rightarrow> bool \<times> 'r word analog" where
  "matrix_scan_custom b fe msk now conv enc s =
     (let last_raw = raw_matrix s;
          s = s\<lparr>virtual_matrix := debounced_matrix s, changed_matrix := map (\<lambda>_. 0) (changed_matrix s), matrix_changed := False\<rparr>;
          s = fold (\<lambda>c. matrix_read_rows_on_col b fe msk now c (col_mask c) (fst (conv c)) (snd (conv c))) [0..<MATRIX_COLS b] s;
          s = analog_matrix_task b fe msk now s;
          s = s\<lparr>raw_matrix := map2 (AND) (raw_matrix s) msk\<rparr>;
          s = (case enc of None \<Rightarrow> s
               | Some (r, c, pin) \<Rightarrow>
                   let on = (raw_matrix s ! r AND col_mask c \<noteq> 0)
                   in if \<not> pin \<and> \<not> on then s\<lparr>matrix_changed := True, raw_matrix := (raw_matrix s)[r := raw_matrix s ! r OR col_mask c]\<rparr>
                      else if pin \<and> on then s\<lparr>matrix_changed := True, raw_matrix := (raw_matrix s)[r := raw_matrix s ! r AND NOT (col_mask c)]\<rparr>
                      else s);
          s = s\<lparr>virtual_matrix := map2 (OR) (virtual_matrix s) (map2 (OR) (game_controller_matrix (gc s)) (okmc_matrix (prof s)))\<rparr>
      in (matrix_changed s \<or> raw_matrix s \<noteq> last_raw, s))"

section \<open>Boot\<close>

definition calib_rows :: "board \<Rightarrow> u8 list \<Rightarrow> calibrated_value list list" where
  "calib_rows b bs = cut (MATRIX_COLS b) (MATRIX_ROWS b) (map calib_of_bytes (cut 3 (MATRIX_ROWS b * MATRIX_COLS b) bs))"

text \<open>Calibration data comes from the emulated EEPROM, else from the external one, which is erased unless it starts with
  the vendor id \<open>vendor\<close>.\<close>

definition load_calibration :: "board \<Rightarrow> u32 \<Rightarrow> u8 list \<Rightarrow> 'r::len word cal_state \<Rightarrow> 'r word cal_state" where
  "load_calibration b vendor buf s =
     (let zeros = replicate (MATRIX_ROWS b) (replicate (MATRIX_COLS b) zero_calib);
          s = s\<lparr>calibrated := buf ! OFFSET_CALIBRATION, calib_values := zeros, saved_calib_values := zeros\<rparr>
      in if calibrated s \<noteq> 0 then s\<lparr>saved_calib_values := calib_rows b (drop OFFSET_CALIBRATED_DATA_START buf)\<rparr>
         else if of_le_bytes (take 4 (he_eeprom s)) \<noteq> vendor
         then s\<lparr>he_eeprom := splice (replicate (length (he_eeprom s)) 0) 0 (le_bytes 4 vendor)\<rparr>
         else
           let s = s\<lparr>calibrated := he_eeprom s ! (EXTERNAL_EEPROM_OFFSET + OFFSET_CALIBRATION)\<rparr>
           in if calibrated s \<noteq> 0 then
                let rows = calib_rows b (drop (EXTERNAL_EEPROM_OFFSET + OFFSET_CALIBRATED_DATA_START) (he_eeprom s))
                in with_prof (analog_matrix_eeprom_update (concat (map calib_bytes (concat rows))) OFFSET_CALIBRATED_DATA_START
                              \<circ> analog_matrix_eeprom_update [calibrated s] OFFSET_CALIBRATION) (s\<lparr>saved_calib_values := rows\<rparr>)
              else s)"

text \<open>\<open>Reset to default if calibrated data is invalid\<close>.\<close>

definition repair_calib :: "calibrated_value \<Rightarrow> calibrated_value" where
  "repair_calib v =
     (let z = uint (zero_travel v); f = uint (full_travel v);
          v = (if z > VALID_ANALOG_RAW_VALUE_MAX \<or> z < DEFAULT_ZERO_TRAVEL_VALUE - 300
               then v\<lparr>zero_travel := word_of_int DEFAULT_ZERO_TRAVEL_VALUE\<rparr> else v)
      in if f > DEFAULT_FULL_TRAVEL_VALUE + 400 \<or> f < VALID_ANALOG_RAW_VALUE_MIN
         then v\<lparr>full_travel := word_of_int (uint (zero_travel v) - DEFAULT_FULL_RANGE)\<rparr> else v)"

definition repair_saved :: "board \<Rightarrow> 'r::len word list \<Rightarrow> 'r word cal_state \<Rightarrow> 'r word cal_state" where
  "repair_saved b msk s =
     for_keys b (\<lambda>r c s. if \<not> has_key msk r c then s
       else s\<lparr>saved_calib_values := set_cell (saved_calib_values s) r c (repair_calib (cell (saved_calib_values s) r c))\<rparr>) s"

definition curve_of_bytes :: "u8 list \<Rightarrow> (u8 \<times> u8) list" where
  "curve_of_bytes bs = map (\<lambda>i. (bs ! (2 * i), bs ! (2 * i + 1))) [0..<CURVE_POINTS_COUNT]"

definition calibration_boot :: "board \<Rightarrow> float_env \<Rightarrow> 'r::len word list \<Rightarrow> u32 \<Rightarrow> u8 list \<Rightarrow> 'r word cal_state \<Rightarrow> 'r word cal_state" where
  "calibration_boot b fe msk vendor buf s =
     (let s = repair_saved b msk (load_calibration b vendor buf s);
          s = (if calibrated s \<noteq> 0 then update_default_travel b msk (calibration_validate b msk s) else s);
          s = s\<lparr>calib_values := saved_calib_values s\<rparr>;
          s = with_prof (update_travel_configs b \<circ> analog_matrix_clear) s
      in (auto_calibration_init (update_scale_factors b fe s))\<lparr>cali_state := CALIB_ZERO_TRAVEL_POWER_ON\<rparr>)"

text \<open>\<open>enabled\<close> is \<open>eeconfig_is_enabled()\<close>; the other data \<open>eeconfig_init\<close> resets is not part of this state.\<close>

definition analog_matrix_eeconfig_init ::
  "board \<Rightarrow> float_env \<Rightarrow> 'r matrix \<Rightarrow> u32 \<Rightarrow> bool \<Rightarrow> 'r::len word analog \<Rightarrow> 'r word analog" where
  "analog_matrix_eeconfig_init b fe msk vendor enabled s =
     (let s = with_profs (profile_init b (\<not> enabled)) s;
          buf = take (EECONFIG_SIZE_ANALOG_MATRIX b) (analog_eeprom (prof s));
          g = game_controller_curve_init fe (curve_of_bytes (drop (OFFSET_CURVE_PTS_START b) buf)) (gc s);
          g = game_controller_mode_init (buf ! OFFSET_GAME_CONTROLLER_MODE_START b) g
      in s\<lparr>gc := g, cal := calibration_boot b fe msk vendor buf (cal s)\<rparr>)"

section \<open>Raw HID commands\<close>

text \<open>The packet \<open>d\<close> is written where the code writes \<open>data\<close>.\<close>

definition write_at :: "nat \<Rightarrow> u8 list \<Rightarrow> u8 list \<Rightarrow> u8 list" where
  "write_at i bs d = splice d i bs"

definition lo_hi :: "u16 \<Rightarrow> u8 list" where
  "lo_hi w = [ucast w, ucast (drop_bit 8 w)]"

definition get_realtime_travel :: "board \<Rightarrow> u8 list \<Rightarrow> 'r::len word analog \<Rightarrow> bool \<times> u8 list" where
  "get_realtime_travel b d s =
     (let row = d ! 2; col = d ! 3; r = unat row; c = unat col; k = get_key r c s; v = cell (calib_values (cal s)) r c in
      if r \<ge> MATRIX_ROWS b \<or> c \<ge> MATRIX_COLS b then (False, d)
      else (True, write_at 3
        ([row, col, as_u8 (uint (ak_travel k) div TRAVEL_SCALE), ak_travel k] @ lo_hi (ak_value k) @
         lo_hi (ucast (zero_travel v)) @ lo_hi (ucast (full_travel v)) @
         [if analog_raw_matrix s ! r AND col_mask c \<noteq> 0 then 0x11 else 0x10]) d))"

definition get_calibrate_state :: "board \<Rightarrow> u8 list \<Rightarrow> 'r::len word analog \<Rightarrow> u8 list" where
  "get_calibrate_state b d s =
     write_at 2 ([calibrated (cal s), cali_state (cal s)] @
       concat (map (\<lambda>r. le_bytes 3 (ucast (calib_state_matrix (cal s) ! r) :: u32)) [0..<MATRIX_ROWS b])) d"

text \<open>With 0xFF for both row and column the code goes on to read \<open>analog_matrix_mask[0xFF]\<close>: \<open>None\<close>.\<close>

definition get_calibrated_value :: "board \<Rightarrow> float_env \<Rightarrow> 'r matrix \<Rightarrow> u8 list \<Rightarrow> 'r::len word analog \<Rightarrow> (bool \<times> u8 list) option" where
  "get_calibrated_value b fe msk d s =
     (let row = d ! 2; col = d ! 3; r = unat row; c = unat col; v = cell (saved_calib_values (cal s)) r c in
      if row = 0xFF \<and> col = 0xFF then None
      else if r \<ge> MATRIX_ROWS b \<or> c \<ge> MATRIX_COLS b then Some (False, d)
      else Some (True, write_at 5
        ((if has_key msk r c then lo_hi (ucast (zero_travel v)) @ lo_hi (ucast (full_travel v)) else replicate 4 0)
         @ f32_bytes fe (cell (scale_factor (cal s)) r c)) d))"

datatype rx_result = Ignored | Undefined | Reply "u8 list"

definition status :: "nat \<Rightarrow> bool \<Rightarrow> u8 list \<Rightarrow> rx_result" where
  "status i success d = Reply (d[i := if success then 0 else 1])"

definition row_masks :: "board \<Rightarrow> u8 list \<Rightarrow> u32 list" where
  "row_masks b d = (if d ! 7 \<noteq> 0 then replicate (MATRIX_ROWS b) 0
                    else map of_le_bytes (cut 3 (MATRIX_ROWS b) (drop 8 d)))"

text \<open>A setter of the profiles, answered with its status in byte 2.\<close>

definition set_profiles ::
  "('r word prof_state \<Rightarrow> bool \<times> 'r word prof_state) \<Rightarrow> u8 list \<Rightarrow> 'r::len word analog \<Rightarrow> rx_result \<times> 'r word analog" where
  "set_profiles f d s = (case f (prof s) of (ok, p) \<Rightarrow> (status 2 ok d, with_profs (\<lambda>_. p) s))"

text \<open>Selecting another profile also clears the OKMC rows (part of \<open>profile_select\<close>) and the game controller.\<close>

definition rx_select :: "board \<Rightarrow> u32 \<Rightarrow> u8 list \<Rightarrow> 'r::len word analog \<Rightarrow> rx_result \<times> 'r word analog" where
  "rx_select b now d s =
     (let switch = (unat (d ! 2) < PROFILE_COUNT \<and> d ! 2 \<noteq> current_profile_index (prof s)) in
      case set_profiles (profile_select b now (d ! 2) False) d s of (r, s) \<Rightarrow>
        (r, if switch then s\<lparr>gc := game_controller_clear (gc s)\<rparr> else s))"

definition rx_game_controller ::
  "('r word gc_state \<times> 'r word prof_state \<Rightarrow> bool \<times> 'r word gc_state \<times> 'r word prof_state) \<Rightarrow> 'r::len word analog \<Rightarrow> bool \<times> 'r word analog" where
  "rx_game_controller f s = (case f (gc s, prof s) of (ok, g, p) \<Rightarrow> (ok, with_profs (\<lambda>_. p) (s\<lparr>gc := g\<rparr>)))"

definition analog_matrix_rx ::
  "board \<Rightarrow> float_env \<Rightarrow> 'r matrix \<Rightarrow> u32 \<Rightarrow> u8 list \<Rightarrow> 'r::len word analog \<Rightarrow> rx_result \<times> 'r word analog" where
  "analog_matrix_rx b fe msk now d s =
     (let cmd = d ! 1 in
      if d ! 0 \<noteq> 0xA9 then (Ignored, s)
      else if cmd = 0x01 then (Reply (d[2 := 0x04]), s)
      else if cmd = 0x10 then
        (Reply (write_at 2 ([current_profile_index (prof s), of_nat PROFILE_COUNT] @ lo_hi (of_nat (PROFILE_SIZE b)) @
                            [of_nat OKMC_COUNT, of_nat SOCD_COUNT]) d), s)
      else if cmd = 0x11 then rx_select b now d s
      else if cmd = 0x12 then
        (case profile_get_raw_data b (d ! 2) (ucast (d ! 4) * 256 OR ucast (d ! 3)) (d ! 5) (prof s) of
           None \<Rightarrow> (Reply d, s) | Some bs \<Rightarrow> (Reply (write_at 6 bs d), s))
      else if cmd = 0x13 then set_profiles (profile_set_name (d ! 2) (d ! 3) (drop 4 d)) d s
      else if cmd = 0x14 then
        set_profiles (profile_set_traval b (d ! 2) (d ! 3) (d ! 4) (d ! 5) (d ! 6) (d ! 7 \<noteq> 0) (row_masks b d)) d s
      else if cmd = 0x15 then set_profiles (profile_set_adv_mode b (drop 2 d)) d s
      else if cmd = 0x16 then set_profiles (profile_set_socd b (drop 2 d)) d s
      else if cmd = 0x30 then (case get_realtime_travel b d s of (ok, d) \<Rightarrow> (status 2 ok d, s))
      else if cmd = 0x1E then
        (case set_profiles (profile_reset b (d ! 2)) d s of (r, s) \<Rightarrow> (r, with_profs (update_travel_configs b) s))
      else if cmd = 0x1F then set_profiles (profile_save b (d ! 2)) d s
      else if cmd = 0x20 then (Reply (write_at 2 (game_controller_get_curve (gc s)) d), s)
      else if cmd = 0x21 then
        (case rx_game_controller (game_controller_set_curve b fe (curve_of_bytes (drop 2 d))) s of (ok, s) \<Rightarrow> (status 2 ok d, s))
      else if cmd = 0x22 then (status 2 True (d[3 := game_controller_mode (gc s)]), s)
      else if cmd = 0x23 then
        (case rx_game_controller (game_controller_mode_set b (d ! 2)) s of (ok, s) \<Rightarrow> (Reply d, s))
      else if cmd = 0x40 then (case set_calibrate b (d ! 2) (cal s) of (ok, c) \<Rightarrow> (status 2 ok d, s\<lparr>cal := c\<rparr>))
      else if cmd = 0x41 then (Reply (get_calibrate_state b d s), s)
      else if cmd = 0x42 then
        (case get_calibrated_value b fe msk d s of None \<Rightarrow> (Undefined, s) | Some (ok, d) \<Rightarrow> (status 4 ok d, s))
      else (Reply d, s))"


section \<open>Commands keep the profiles well-formed\<close>

lemma prof_with_profs [simp]: "prof (with_profs f s) = f (prof s)"
  by (simp add: with_profs_def with_prof_def)

lemma with_profs_same [simp]: "with_profs (\<lambda>_. prof s) s = s"
  by (simp add: with_profs_def with_prof_def)

lemma prof_set_profiles: "prof (snd (set_profiles f d s)) = snd (f (prof s))"
  by (simp add: set_profiles_def split: prod.splits)

lemma prof_set_calibrate: "cal_prof (snd (set_calibrate b x c)) = cal_prof c"
  by (simp add: set_calibrate_def)

lemma profiles_ok_curve: "profiles_ok b (snd (snd (game_controller_set_curve b fe pt (g, p)))) = profiles_ok b p"
  by (simp add: game_controller_set_curve_def Let_def profiles_ok_def analog_matrix_eeprom_update_def)

lemma profiles_ok_mode: "profiles_ok b (snd (snd (game_controller_mode_set b' x (g, p)))) = profiles_ok b p"
  by (simp add: game_controller_mode_set_def profiles_ok_def analog_matrix_eeprom_update_def)

lemma prof_rx_game_controller: "prof (snd (rx_game_controller f s)) = snd (snd (f (gc s, prof s)))"
  by (simp add: rx_game_controller_def split: prod.splits)

lemma prof_rx_select: "prof (snd (rx_select b now d s)) = snd (profile_select b now (d ! 2) False (prof s))"
  using prof_set_profiles [of "profile_select b now (d ! 2) False" d s]
  by (simp add: rx_select_def Let_def case_prod_beta)

lemmas rx_profiles = prof_set_profiles prof_rx_select prof_rx_game_controller prof_set_calibrate
lemmas ok_commands = ok_set_traval ok_set_adv ok_set_socd ok_set_name ok_reset ok_select profiles_ok_update_travel

text \<open>C15. Every raw HID packet, well-formed or not, keeps the profiles well-formed: three profiles of
  the board's shape, a valid current profile, DKS keys with an existing slot, SOCD pairs of two
  different keys on the board.\<close>

theorem rx_keeps_profiles_ok:
  assumes "board_ok b" and "profiles_ok b (prof s)"
  shows "profiles_ok b (prof (snd (analog_matrix_rx b fe msk now d s)))"
  using assms
  by (simp add: analog_matrix_rx_def Let_def rx_profiles profiles_ok_curve profiles_ok_mode profiles_ok_save ok_commands
        case_prod_beta split: option.splits)


definition demo_analog :: "u32 analog" where
  "demo_analog = \<lparr>cal = demo_cal, gc = demo_gc, host = host_init, analog_raw_matrix = [0], changed_matrix = [0],
     raw_matrix = [0], virtual_matrix = [0], debounced_matrix = [0], matrix_changed = False, socd_state = replicate 20 0\<rparr>"

lemma demo_analog_ok: "profiles_ok demo_board (prof demo_analog)"
  by (simp add: demo_analog_def demo_cal_def demo_profiles_ok)

theorem rx_keeps_profiles_ok_witness:
  "profiles_ok demo_board (prof (snd (analog_matrix_rx demo_board exact_floats [1] 9 (0xA9 # 0x15 # replicate 30 0) demo_analog)))"
  by (rule rx_keeps_profiles_ok [OF demo_sizes(3) demo_analog_ok])

text \<open>A refused setter returns its argument.\<close>

definition refuses_unchanged :: "('s \<Rightarrow> bool \<times> 's) \<Rightarrow> bool" where
  "refuses_unchanged f \<longleftrightarrow> (\<forall>x. fst (f x) \<or> snd (f x) = x)"

lemma refused_setters:
  "refuses_unchanged (profile_select b now i ind)"
  "refuses_unchanged (profile_set_name i len nm)"
  "refuses_unchanged (profile_set_traval b i m a se rl glob row)"
  "refuses_unchanged (profile_set_adv_mode b d)"
  "refuses_unchanged (profile_set_socd b d)"
  "refuses_unchanged (profile_save b i)"
  "refuses_unchanged (game_controller_set_curve b fe pt)"
  "refuses_unchanged (set_calibrate b x)"
  by (simp_all add: refuses_unchanged_def profile_select_def profile_set_name_def profile_set_traval_def profile_set_adv_mode_def
      profile_set_socd_def profile_save_def game_controller_set_curve_def set_calibrate_def Let_def case_prod_beta split: option.splits)

lemma set_profiles_refused:
  assumes "refuses_unchanged f" and "2 < length d"
  shows "(\<exists>d'. fst (set_profiles f d s) = Reply d' \<and> d' ! 2 = 0) \<or> snd (set_profiles f d s) = s"
  using assms(1) [unfolded refuses_unchanged_def, rule_format, of "prof s"] assms(2)
  by (auto simp: set_profiles_def status_def case_prod_beta)

lemma rx_select_refused:
  assumes "2 < length d"
  shows "(\<exists>d'. fst (rx_select b now d s) = Reply d' \<and> d' ! 2 = 0) \<or> snd (rx_select b now d s) = s"
proof (cases "unat (d ! 2) < PROFILE_COUNT")
  case True
  then show ?thesis using assms by (simp add: rx_select_def set_profiles_def status_def profile_select_def case_prod_beta Let_def)
next
  case False
  then show ?thesis
    using set_profiles_refused [OF refused_setters(1) assms, of b now "d ! 2" False s] by (simp add: rx_select_def case_prod_beta Let_def)
qed

lemma rx_game_controller_refused:
  assumes "refuses_unchanged f"
  shows "fst (rx_game_controller f s) \<or> snd (rx_game_controller f s) = s"
proof -
  have "s\<lparr>gc := gc s\<rparr> = s" by simp
  then show ?thesis using assms [unfolded refuses_unchanged_def, rule_format, of "(gc s, prof s)"]
    by (auto simp: rx_game_controller_def case_prod_beta)
qed

text \<open>C16. A select, name, travel, advanced mode, SOCD, save, curve or calibration command that is
  answered with the failure status leaves the whole state as it was.\<close>

theorem rx_refused_no_change:
  assumes "d ! 1 \<in> {0x11, 0x13, 0x14, 0x15, 0x16, 0x1F, 0x21, 0x40}" and "2 < length d"
    and "analog_matrix_rx b fe msk now d s = (Reply d', s')" and "d' ! 2 = 1"
  shows "s' = s"
proof -
  note sp = set_profiles_refused [OF _ assms(2)]
  have "(\<exists>d'. fst (analog_matrix_rx b fe msk now d s) = Reply d' \<and> d' ! 2 = 0) \<or> snd (analog_matrix_rx b fe msk now d s) = s"
    if "d ! 0 = 0xA9"
    using assms(1)
  proof (elim insertE emptyE)
    assume "d ! 1 = 0x21"
    then show ?thesis
      using that assms(2) rx_game_controller_refused [OF refused_setters(7), of b fe "curve_of_bytes (drop 2 d)" s]
      by (auto simp: analog_matrix_rx_def Let_def case_prod_beta status_def)
  next
    assume "d ! 1 = 0x40"
    then show ?thesis using that assms(2) refused_setters(8) [of b "d ! 2", unfolded refuses_unchanged_def, rule_format, of "cal s"]
      by (auto simp: analog_matrix_rx_def Let_def case_prod_beta status_def)
  qed (use that sp [OF refused_setters(2)] sp [OF refused_setters(3)] sp [OF refused_setters(4)] sp [OF refused_setters(5)]
      sp [OF refused_setters(6)] rx_select_refused [OF assms(2)] in \<open>simp_all add: analog_matrix_rx_def Let_def\<close>)
  moreover have ?thesis if "d ! 0 \<noteq> 0xA9" using that assms(3) by (simp add: analog_matrix_rx_def)
  ultimately show ?thesis using assms(3,4) by fastforce
qed

theorem rx_refused_no_change_witness:
  "\<exists>d'. analog_matrix_rx demo_board exact_floats [1] 9 (0xA9 # 0x11 # replicate 30 3) demo_analog = (Reply d', demo_analog) \<and> d' ! 2 = 1"
proof -
  let ?d = "0xA9 # 0x11 # replicate 30 3 :: u8 list"
  obtain s' where r: "analog_matrix_rx demo_board exact_floats [1] 9 ?d demo_analog = (Reply (?d[2 := 1]), s')"
    by (simp add: analog_matrix_rx_def rx_select_def set_profiles_def profile_select_def status_def Let_def)
  have "s' = demo_analog" by (rule rx_refused_no_change [OF _ _ r]) simp_all
  with r show ?thesis by simp
qed


section \<open>Calibration at boot\<close>

text \<open>What a pass over the keys establishes of one of them.\<close>

lemma for_keys_establishes:
  assumes rc: "ra < MATRIX_ROWS b" "ca < MATRIX_COLS b" and init: "I s"
    and keep: "\<And>r c s. r < MATRIX_ROWS b \<Longrightarrow> c < MATRIX_COLS b \<Longrightarrow> I s \<Longrightarrow> I (f r c s)"
    and est: "\<And>s. I s \<Longrightarrow> Q (f ra ca s)"
    and other: "\<And>r c s. (r, c) \<noteq> (ra, ca) \<Longrightarrow> I s \<Longrightarrow> Q s \<Longrightarrow> Q (f r c s)"
  shows "Q (for_keys b f s)"
proof -
  let ?row = "\<lambda>r s. fold (f r) [0..<MATRIX_COLS b] s"
  have stay: "Q (f r c s)" if "I s" "Q s" for r c s using that est other by (cases "(r, c) = (ra, ca)") auto
  have I_in: "I (fold (f r) cs s)" if "r < MATRIX_ROWS b" "set cs \<subseteq> {..<MATRIX_COLS b}" "I s" for r cs s
    using that by (induction cs arbitrary: s) (simp_all add: keep)
  have Q_in: "Q (fold (f r) cs s)" if "r < MATRIX_ROWS b" "set cs \<subseteq> {..<MATRIX_COLS b}" "I s" "Q s" for r cs s
    using that by (induction cs arbitrary: s) (simp_all add: keep stay)
  have atrow: "Q (fold (f ra) cs s)" if "set cs \<subseteq> {..<MATRIX_COLS b}" "ca \<in> set cs" "I s" for cs s
    using that
  proof (induction cs arbitrary: s)
    case (Cons c cs)
    have i: "I (f ra c s)" using Cons.prems rc(1) keep by simp
    show ?case
    proof (cases "c = ca")
      case True
      then show ?thesis using Q_in [of ra cs "f ra ca s"] rc(1) Cons.prems i est by simp
    next
      case False
      then show ?thesis using Cons i by simp
    qed
  qed simp
  have Q_rows: "Q (fold ?row rs s)" if "set rs \<subseteq> {..<MATRIX_ROWS b}" "I s" "Q s" for rs s
    using that by (induction rs arbitrary: s) (simp_all add: I_in Q_in atLeast0LessThan)
  have "Q (fold ?row rs s)" if "set rs \<subseteq> {..<MATRIX_ROWS b}" "ra \<in> set rs" "I s" for rs s
    using that
  proof (induction rs arbitrary: s)
    case (Cons r rs)
    have i: "I (?row r s)" using Cons.prems I_in by (simp add: atLeast0LessThan)
    show ?case
    proof (cases "r = ra")
      case True
      then show ?thesis using Q_rows [of rs "?row ra s"] atrow [of "[0..<MATRIX_COLS b]" s] rc(2) Cons.prems i
        by (simp add: atLeast0LessThan)
    next
      case False
      then show ?thesis using Cons i by simp
    qed
  qed simp
  from this [of "[0..<MATRIX_ROWS b]" s] show ?thesis using rc(1) init by (simp add: for_keys_def atLeast0LessThan)
qed

definition calib_valid :: "calibrated_value \<Rightarrow> bool" where
  "calib_valid v \<longleftrightarrow> DEFAULT_ZERO_TRAVEL_VALUE - 300 \<le> uint (zero_travel v) \<and> uint (zero_travel v) \<le> VALID_ANALOG_RAW_VALUE_MAX \<and>
     VALID_ANALOG_RAW_VALUE_MIN \<le> uint (full_travel v) \<and> uint (full_travel v) + 200 \<le> uint (zero_travel v)"

lemma uint_word_12: "0 \<le> i \<Longrightarrow> i < 4096 \<Longrightarrow> uint (word_of_int i :: 12 word) = i"
  by (rule unat_word_of_int_id) simp_all

lemma calib_valid_repair: "calib_valid (repair_calib v)"
proof -
  define z where "z = (if uint (zero_travel v) > 3500 \<or> uint (zero_travel v) < 2700 then 3000 else zero_travel v)"
  have z: "2700 \<le> uint z" "uint z \<le> 3500" by (auto simp: z_def)
  have f: "uint (word_of_int (uint z - 900) :: 12 word) = uint z - 900" using z by (intro uint_word_12) simp_all
  have "zero_travel (repair_calib v) = z \<and> full_travel (repair_calib v) =
      (if uint (full_travel v) > 2500 \<or> uint (full_travel v) < 1200 then word_of_int (uint z - 900) else full_travel v)"
    by (auto simp: repair_calib_def z_def Let_def)
  then show ?thesis using z f by (auto simp: calib_valid_def)
qed

text \<open>A pass that rewrites saved values in place.\<close>

abbreviation saved_shaped :: "board \<Rightarrow> 'row cal_state \<Rightarrow> bool" where
  "saved_shaped b s \<equiv> shaped b (saved_calib_values s)"

lemma saved_pass:
  assumes "saved_shaped b s" and "r < MATRIX_ROWS b" and "c < MATRIX_COLS b" and "has_key msk r c"
    and step: "\<And>r c s. f r c s = (if \<not> has_key msk r c \<or> skip (cell (saved_calib_values s) r c) then s
                 else s\<lparr>saved_calib_values := set_cell (saved_calib_values s) r c (g (cell (saved_calib_values s) r c))\<rparr>)"
    and good: "\<And>v. I v \<Longrightarrow> Q (if skip v then v else g v)" "\<And>v. I v \<Longrightarrow> I (if skip v then v else g v)"
    and init: "\<forall>r < MATRIX_ROWS b. \<forall>c < MATRIX_COLS b. has_key msk r c \<longrightarrow> I (cell (saved_calib_values s) r c)"
  shows "Q (cell (saved_calib_values (for_keys b f s)) r c)"
proof -
  let ?I = "\<lambda>s. saved_shaped b s \<and> (\<forall>r < MATRIX_ROWS b. \<forall>c < MATRIX_COLS b. has_key msk r c \<longrightarrow> I (cell (saved_calib_values s) r c))"
  have g: "skip v \<Longrightarrow> I v \<Longrightarrow> Q v" "\<not> skip v \<Longrightarrow> I v \<Longrightarrow> Q (g v)" "\<not> skip v \<Longrightarrow> I v \<Longrightarrow> I (g v)" for v
    using good [of v] by simp_all
  have other: "cell (saved_calib_values (f r' c' s)) r c = cell (saved_calib_values s) r c" if "(r', c') \<noteq> (r, c)" for r' c' s
    using that by (auto simp: step set_cell_def nth_list_update_if)
  show ?thesis
    by (rule for_keys_establishes [where ra = r and ca = c and Q = "\<lambda>s. Q (cell (saved_calib_values s) r c)" and I = ?I])
      (use assms(1-4) init in \<open>simp_all add: other\<close>, auto simp: step cell_set_cell g)
qed

lemma shaped_pass:
  assumes "saved_shaped b s"
    and "\<And>r c s. f r c s = (if \<not> has_key msk r c \<or> skip (cell (saved_calib_values s) r c) then s
                 else s\<lparr>saved_calib_values := set_cell (saved_calib_values s) r c (g (cell (saved_calib_values s) r c))\<rparr>)"
  shows "saved_shaped b (for_keys b f s)"
  by (rule for_keys_invariant [where P = "saved_shaped b"]) (simp_all add: assms)

definition saved_valid :: "board \<Rightarrow> 'r::len word list \<Rightarrow> 'r word cal_state \<Rightarrow> bool" where
  "saved_valid b msk s \<longleftrightarrow> saved_shaped b s \<and>
     (\<forall>r < MATRIX_ROWS b. \<forall>c < MATRIX_COLS b. has_key msk r c \<longrightarrow> calib_valid (cell (saved_calib_values s) r c))"

lemma repair_saved_valid:
  assumes "saved_shaped b s"
  shows "saved_valid b msk (repair_saved b msk s)"
proof -
  note pass = saved_pass [OF assms, where I = "\<lambda>_. True" and skip = "\<lambda>_. False" and g = repair_calib and Q = calib_valid and msk = msk]
  show ?thesis
    unfolding saved_valid_def repair_saved_def
    by (intro conjI allI impI pass shaped_pass [OF assms, where skip = "\<lambda>_. False" and g = repair_calib and msk = msk])
      (simp_all add: calib_valid_repair)
qed

lemma saved_pass_valid:
  assumes "saved_valid b msk s"
    and step: "\<And>r c s. f r c s = (if \<not> has_key msk r c \<or> skip (cell (saved_calib_values s) r c) then s
                 else s\<lparr>saved_calib_values := set_cell (saved_calib_values s) r c (g (cell (saved_calib_values s) r c))\<rparr>)"
    and good: "\<And>v. calib_valid v \<Longrightarrow> calib_valid (if skip v then v else g v)"
  shows "saved_valid b msk (for_keys b f s)"
proof -
  note v = assms(1) [unfolded saved_valid_def]
  have sh: "saved_shaped b s" using v by blast
  show ?thesis
    unfolding saved_valid_def
    using saved_pass [where I = calib_valid and Q = calib_valid and skip = skip and g = g and f = f and msk = msk, OF sh _ _ _ step good good]
      shaped_pass [where skip = skip and g = g and f = f and msk = msk, OF sh step] v by blast
qed

lemma validate_valid: "saved_valid b msk s \<Longrightarrow> saved_valid b msk (calibration_validate b msk s)"
  unfolding calibration_validate_def
  by (rule saved_pass_valid [where skip = "\<lambda>v. \<not> uint (zero_travel v) < 2820" and g = "\<lambda>_. \<lparr>zero_travel = word_of_int 3000, full_travel = word_of_int 2100\<rparr>"])
    (auto simp: calib_valid_def)

lemma default_travel_valid: "saved_valid b msk s \<Longrightarrow> saved_valid b msk (update_default_travel b msk s)"
  unfolding update_default_travel_def
proof (rule saved_pass_valid [where skip = "\<lambda>_. False" and g = "\<lambda>v.
    let v = (if zero_travel v = 0 then v\<lparr>zero_travel := word_of_int DEFAULT_ZERO_TRAVEL_VALUE\<rparr> else v)
    in if full_travel v = 0 then v\<lparr>full_travel := word_of_int (uint (zero_travel v) - DEFAULT_FULL_RANGE)\<rparr> else v"])
  fix v assume "calib_valid v"
  moreover from this have "zero_travel v \<noteq> 0" "full_travel v \<noteq> 0" by (auto simp: calib_valid_def)
  ultimately show "calib_valid (if False then v else
    let v = (if zero_travel v = 0 then v\<lparr>zero_travel := word_of_int DEFAULT_ZERO_TRAVEL_VALUE\<rparr> else v)
    in if full_travel v = 0 then v\<lparr>full_travel := word_of_int (uint (zero_travel v) - DEFAULT_FULL_RANGE)\<rparr> else v)" by simp
qed (simp_all add: Let_def)

lemma cut_rows: "n * k \<le> length xs \<Longrightarrow> i < k \<Longrightarrow> length (cut n k xs ! i) = n"
proof (induction n k xs arbitrary: i rule: cut.induct)
  case (2 n k xs)
  then show ?case by (cases i) simp_all
qed simp

lemma shaped_calib_rows: "shaped b (calib_rows b bs)"
  by (simp add: shaped_def calib_rows_def cut_rows mult.commute)

lemma load_calibration_shaped: "saved_shaped b (load_calibration b vendor buf s)"
proof -
  have "shaped b (replicate (MATRIX_ROWS b) (replicate (MATRIX_COLS b) zero_calib))" by (simp add: shaped_def)
  then show ?thesis by (simp add: load_calibration_def Let_def shaped_calib_rows with_prof_def)
qed

text \<open>C17. Whatever the two EEPROMs hold, after boot every key of the board has a zero travel in
  2700..3500 and a full travel of at least 1200 and at least 200 below it.\<close>

theorem boot_calibration_valid:
  assumes "r < MATRIX_ROWS b" and "c < MATRIX_COLS b" and "has_key msk r c"
  shows "calib_valid (cell (calib_values (calibration_boot b fe msk vendor buf s)) r c)"
proof -
  let ?s = "repair_saved b msk (load_calibration b vendor buf s)"
  let ?t = "if calibrated ?s \<noteq> 0 then update_default_travel b msk (calibration_validate b msk ?s) else ?s"
  have "saved_valid b msk ?t"
    by (simp add: validate_valid default_travel_valid repair_saved_valid [OF load_calibration_shaped])
  moreover have "calib_values (update_scale_factors b fe u) = calib_values u" "calib_values (with_prof f u) = calib_values u" for f and u :: "'a word cal_state"
    using same_auto_helpers(1,3) unfolding same_auto_def by blast+
  ultimately show ?thesis using assms
    by (simp add: calibration_boot_def Let_def saved_valid_def auto_calibration_init_def)
qed

theorem boot_calibration_valid_witness:
  "calib_valid (cell (calib_values (calibration_boot demo_board exact_floats [1] 0x3434 (replicate 1453 0xFF) demo_cal)) 0 0)"
  by (rule boot_calibration_valid) (simp_all add: demo_board_def has_key_def col_mask_def)


section \<open>A column is read like three agreeing conversions\<close>

text \<open>A sample never touches the scanned matrices.\<close>

lemma run_trigger_frame [simp]:
  "analog_raw_matrix (snd (snd (run_trigger k s))) = analog_raw_matrix s"
  "changed_matrix (snd (snd (run_trigger k s))) = changed_matrix s"
  by (simp_all add: run_trigger_def case_prod_beta with_profs_def)

lemma update_raw_value_frame [simp]:
  "analog_raw_matrix (snd (update_raw_value b fe msk now r c v s)) = analog_raw_matrix s"
  "changed_matrix (snd (update_raw_value b fe msk now r c v s)) = changed_matrix s"
  by (simp_all add: update_raw_value_def Let_def case_prod_beta put_key_def with_profs_def)

lemma convert_rows:
  fixes s :: "'r::len word analog"
  assumes "n \<le> 8" and "fold (read_row b fe msk now c samples) [0..<n] (0, changed, s) = (v, changed', s')"
  shows "analog_raw_matrix s' = analog_raw_matrix s \<and> changed_matrix s' = changed_matrix s \<and> (\<forall>i \<ge> n. \<not> bit v i)
    \<and> (changed' \<longleftrightarrow> changed \<or> (\<exists>r < n. bit v r \<noteq> bit (analog_raw_matrix s ! r) c))"
  using assms
proof (induction n arbitrary: v changed' s')
  case (Suc n)
  obtain w ch t where p: "fold (read_row b fe msk now c samples) [0..<n] (0, changed, s) = (w, ch, t)" by (cases "fold (read_row b fe msk now c samples) [0..<n] (0, changed, s)")
  note ih = Suc.IH [OF _ p]
  let ?t = "snd (update_raw_value b fe msk now n c (samples ! n) t)"
  let ?on = "analog_matrix_get_key_state (game_controller_type_enabled (gc ?t)) (get_key n c ?t)"
  have "read_row b fe msk now c samples n (w, ch, t) = (v, changed', s')" using Suc.prems(2) p by simp
  then have s': "s' = ?t" and v: "v = (if ?on then w OR col_mask n else w)"
    and ch': "changed' \<longleftrightarrow> ch \<or> (?on \<longleftrightarrow> \<not> bit (analog_raw_matrix t ! n) c)"
    by (auto simp: read_row_def Let_def row_simps split: if_splits)
  have bits: "bit v i = (if i = n then ?on else bit w i)" for i
    using ih Suc.prems(1) by (auto simp: v row_simps)
  show ?case using ih Suc.prems(1) by (auto simp: s' bits ch' less_Suc_eq)
qed simp

lemma convert_column_sound:
  assumes "MATRIX_ROWS b \<le> 8" and "convert_column b fe msk now c samples changed s = (v, changed', s')"
  shows "analog_raw_matrix s' = analog_raw_matrix s \<and> changed_matrix s' = changed_matrix s \<and> (\<forall>i \<ge> MATRIX_ROWS b. \<not> bit v i)
    \<and> (changed' \<longleftrightarrow> changed \<or> (\<exists>r < MATRIX_ROWS b. bit v r \<noteq> bit (analog_raw_matrix s ! r) c))"
  by (rule convert_rows [OF assms(1) assms(2) [unfolded convert_column_def]])

text \<open>The column written by the second loop.\<close>

definition set_column :: "nat \<Rightarrow> u8 \<Rightarrow> 'r matrix \<Rightarrow> 'r::len matrix" where
  "set_column c v m = map (\<lambda>r. if bit v r then m ! r OR col_mask c else m ! r AND NOT (col_mask c)) [0..<length m]"

lemma column_bits:
  fixes x :: "'r::len word"
  assumes "c < LENGTH('r)"
  shows "bit x c \<Longrightarrow> x OR col_mask c = x" and "bit x c \<Longrightarrow> x XOR (x AND NOT (col_mask c)) = col_mask c"
    and "\<not> bit x c \<Longrightarrow> x XOR (x OR col_mask c) = col_mask c" and "\<not> bit x c \<Longrightarrow> x AND NOT (col_mask c) = x"
  using assms by (auto intro!: bit_word_eqI simp: row_simps bit_xor_iff)

lemma update_rows:
  fixes s :: "'r::len word analog"
  assumes "c < LENGTH('r)" and "n \<le> length (analog_raw_matrix s)" and "length (changed_matrix s) = length (analog_raw_matrix s)"
    and "t = fold (\<lambda>r. update_row r v (col_mask c)) [0..<n] s"
  shows "length (analog_raw_matrix t) = length (analog_raw_matrix s) \<and> length (changed_matrix t) = length (changed_matrix s) \<and>
    (\<forall>r < length (analog_raw_matrix s). analog_raw_matrix t ! r = (if r < n then set_column c v (analog_raw_matrix s) ! r else analog_raw_matrix s ! r)
       \<and> changed_matrix t ! r = (changed_matrix s ! r OR (analog_raw_matrix s ! r XOR analog_raw_matrix t ! r)))"
  using assms
proof (induction n arbitrary: t)
  case (Suc n)
  define u where "u = fold (\<lambda>r. update_row r v (col_mask c)) [0..<n] s"
  note ih = Suc.IH [OF Suc.prems(1) _ Suc.prems(3) u_def]
  have t: "t = update_row n v (col_mask c) u" using Suc.prems(4) by (simp add: u_def)
  let ?x = "analog_raw_matrix s ! n"
  have n: "n < length (analog_raw_matrix s)" using Suc.prems(2) by simp
  have u_n: "analog_raw_matrix u ! n = ?x" "changed_matrix u ! n = changed_matrix s ! n" using ih n by simp_all
  have row: "analog_raw_matrix t = (analog_raw_matrix u)[n := set_column c v (analog_raw_matrix s) ! n]"
    using n by (auto simp: t update_row_def Let_def row_simps u_n set_column_def)
  have ch: "changed_matrix t = (changed_matrix u)[n := changed_matrix s ! n OR (?x XOR set_column c v (analog_raw_matrix s) ! n)]"
    using n by (auto simp: t update_row_def Let_def row_simps u_n set_column_def column_bits [OF Suc.prems(1)])
  show ?case using ih Suc.prems(2,3) n by (auto simp: row ch nth_list_update_if less_Suc_eq)
qed simp

text \<open>The reference: three conversions whatever they find, and the rows they agree on.\<close>

definition agreed_rows ::
  "board \<Rightarrow> float_env \<Rightarrow> 'r matrix \<Rightarrow> u32 \<Rightarrow> nat \<Rightarrow> u16 list \<Rightarrow> u16 list \<Rightarrow> u16 list \<Rightarrow> 'r::len word analog \<Rightarrow> u8 option" where
  "agreed_rows b fe msk now c first second third s =
     (case convert_column b fe msk now c first False s of (v1, _, s) \<Rightarrow>
      case convert_column b fe msk now c second True s of (v2, _, s) \<Rightarrow>
      case convert_column b fe msk now c third True s of (v3, _, s) \<Rightarrow> if v1 = v2 \<and> v1 = v3 then Some v1 else None)"


lemma xor_self_word: "ch OR (x XOR x) = ch" for x ch :: "'r::len word"
  by simp

lemma set_column_same:
  assumes "c < LENGTH('r)" and "\<forall>r < length m. bit v r = bit (m ! r) c"
  shows "set_column c v m = (m :: 'r::len matrix)"
  using assms by (auto intro!: nth_equalityI simp: set_column_def column_bits)

lemma map2_unchanged: "length ch = length m \<Longrightarrow> map2 (OR) ch (map2 (XOR) m m) = (ch :: 'r::len matrix)"
  by (auto intro!: nth_equalityI)

text \<open>C18. Reading a column gives what three unconditional conversions agree on: the column of the
  matrix becomes the rows all three found, or stays when they differ, and exactly the changed
  positions are marked.\<close>

theorem column_read_agrees:
  fixes s :: "'r::len word analog"
  assumes "board_ok b" and "c < LENGTH('r)" and "length (analog_raw_matrix s) = MATRIX_ROWS b"
    and "length (changed_matrix s) = MATRIX_ROWS b"
  shows "let s' = matrix_read_rows_on_col b fe msk now c (col_mask c) first [second, third] s in
    analog_raw_matrix s' = (case agreed_rows b fe msk now c first second third s of
           None \<Rightarrow> analog_raw_matrix s | Some v \<Rightarrow> set_column c v (analog_raw_matrix s))
    \<and> changed_matrix s' = map2 (OR) (changed_matrix s) (map2 (XOR) (analog_raw_matrix s) (analog_raw_matrix s'))"
proof -
  define s' where "s' = matrix_read_rows_on_col b fe msk now c (col_mask c) first [second, third] s"
  let ?m = "analog_raw_matrix s" and ?ch = "changed_matrix s"
  obtain v1 c1 s1 where p1: "convert_column b fe msk now c first False s = (v1, c1, s1)" by (cases "convert_column b fe msk now c first False s")
  obtain v2 c2 s2 where p2: "convert_column b fe msk now c second True s1 = (v2, c2, s2)" by (cases "convert_column b fe msk now c second True s1")
  obtain v3 c3 s3 where p3: "convert_column b fe msk now c third True s2 = (v3, c3, s3)" by (cases "convert_column b fe msk now c third True s2")
  have rows: "MATRIX_ROWS b \<le> 8" using assms(1) by (simp add: board_ok_def)
  note f1 = convert_column_sound [OF rows p1] and f2 = convert_column_sound [OF rows p2] and f3 = convert_column_sound [OF rows p3]
  have frame: "analog_raw_matrix s1 = ?m" "changed_matrix s1 = ?ch" "analog_raw_matrix s2 = ?m" "changed_matrix s2 = ?ch"
    "analog_raw_matrix s3 = ?m" "changed_matrix s3 = ?ch" using f1 f2 f3 by simp_all
  have agreed: "agreed_rows b fe msk now c first second third s = (if v1 = v2 \<and> v1 = v3 then Some v1 else None)"
    by (simp add: agreed_rows_def p1 p2 p3)
  note red = matrix_read_rows_on_col_def p1 p2 p3
  have same: "map2 (OR) ?ch (map2 (XOR) ?m ?m) = ?ch" by (rule map2_unchanged) (simp add: assms(3,4))
  have goal: "analog_raw_matrix s' = (if v1 = v2 \<and> v1 = v3 then set_column c v1 ?m else ?m)
      \<and> changed_matrix s' = map2 (OR) ?ch (map2 (XOR) ?m (analog_raw_matrix s'))"
  proof (cases "c1 \<and> v1 = v2 \<and> v1 = v3")
    case True
    define u where "u = s3\<lparr>matrix_changed := True\<rparr>"
    have s': "s' = fold (\<lambda>r. update_row r v1 (col_mask c)) [0..<MATRIX_ROWS b] u"
      using True by (auto simp: s'_def red u_def numeral_2_eq_2)
    have u: "analog_raw_matrix u = ?m" "changed_matrix u = ?ch" by (simp_all add: u_def frame)
    note w = update_rows [OF assms(2) _ _ s', unfolded u assms(3,4), OF order_refl refl]
    show ?thesis using True w assms(3,4)
      by (auto intro!: nth_equalityI simp: set_column_def)
  next
    case False
    then have s': "analog_raw_matrix s' = ?m" "changed_matrix s' = ?ch" by (auto simp: s'_def red frame numeral_2_eq_2)
    moreover have "set_column c v1 ?m = ?m" if "\<not> c1"
      using that f1 assms(3) by (intro set_column_same [OF assms(2)]) auto
    ultimately show ?thesis using False same by auto
  qed
  have c: "(case (if P then Some v else None) of None \<Rightarrow> m | Some v \<Rightarrow> g v) = (if P then g v else m)" for P v and m :: "'r matrix" and g
    by simp
  show ?thesis unfolding s'_def [symmetric] Let_def agreed c by (rule goal)
qed

theorem column_read_agrees_witness:
  "board_ok demo_board \<and> (let s' = matrix_read_rows_on_col demo_board exact_floats [1] 5 0 (col_mask 0) [2000] [[2000], [2000]] demo_analog in
     analog_raw_matrix s' = (case agreed_rows demo_board exact_floats [1] 5 0 [2000] [2000] [2000] demo_analog of
        None \<Rightarrow> analog_raw_matrix demo_analog | Some v \<Rightarrow> set_column 0 v (analog_raw_matrix demo_analog))
     \<and> changed_matrix s' = map2 (OR) (changed_matrix demo_analog) (map2 (XOR) (analog_raw_matrix demo_analog) (analog_raw_matrix s')))"
proof -
  have "length (analog_raw_matrix demo_analog) = MATRIX_ROWS demo_board" "length (changed_matrix demo_analog) = MATRIX_ROWS demo_board"
    by (simp_all add: demo_analog_def demo_board_def)
  from column_read_agrees [OF demo_sizes(3) _ this, of 0] show ?thesis using demo_sizes(3) by simp
qed

end
