(* ===== verification/Layers.thy ===== *)
theory Layers
  imports Bits
begin

text \<open>
  The layer stack: \<open>quantum/action_layer.c\<close>, the one-shot layer of \<open>quantum/action_util.c\<close>,
  \<open>quantum/layer_lock.c\<close> and \<open>quantum/tri_layer.c\<close>.  \<open>layer_state_t\<close> is a word of 8, 16 or 32
  bits: \<open>'l word\<close>.  \<open>action_for_key\<close>, the keymap lookup, is an argument; the \<open>_set_kb\<close>, \<open>_set_user\<close>
  and \<open>_modules\<close> hooks are weak identity functions, and neither \<open>STRICT_LAYER_RELEASE\<close> nor its
  milder form is defined.
\<close>

section \<open>State\<close>

record 'w layers =
  default_layer_state :: 'w
  layer_state :: 'w
  oneshot_layer_data :: u8
  oneshot_on :: bool
  locked_layers :: 'w
  layer_lock_timer :: u32

section \<open>\<open>action_layer.c\<close>\<close>

definition default_layer_set :: "'l::len word \<Rightarrow> 'l word layers \<Rightarrow> 'l word layers" where
  "default_layer_set state s = s\<lparr>default_layer_state := state\<rparr>"

definition default_layer_or :: "'l::len word \<Rightarrow> 'l word layers \<Rightarrow> 'l word layers" where
  "default_layer_or state s = default_layer_set (default_layer_state s OR state) s"

definition default_layer_and :: "'l::len word \<Rightarrow> 'l word layers \<Rightarrow> 'l word layers" where
  "default_layer_and state s = default_layer_set (default_layer_state s AND state) s"

definition default_layer_xor :: "'l::len word \<Rightarrow> 'l word layers \<Rightarrow> 'l word layers" where
  "default_layer_xor state s = default_layer_set (default_layer_state s XOR state) s"

definition layer_state_set :: "'l::len word \<Rightarrow> 'l word layers \<Rightarrow> 'l word layers" where
  "layer_state_set state s = s\<lparr>layer_state := state\<rparr>"

definition layer_clear :: "'l::len word layers \<Rightarrow> 'l word layers" where
  "layer_clear = layer_state_set 0"

definition layer_state_cmp :: "'l::len word \<Rightarrow> u8 \<Rightarrow> bool" where
  "layer_state_cmp cmp layer = (if cmp = 0 then layer = 0 else cmp AND col_mask (unat layer) \<noteq> 0)"

definition layer_state_is :: "u8 \<Rightarrow> 'l::len word layers \<Rightarrow> bool" where
  "layer_state_is layer s = layer_state_cmp (layer_state s) layer"

definition layer_move :: "u8 \<Rightarrow> 'l::len word layers \<Rightarrow> 'l word layers" where
  "layer_move layer = layer_state_set (col_mask (unat layer))"

definition layer_on :: "u8 \<Rightarrow> 'l::len word layers \<Rightarrow> 'l word layers" where
  "layer_on layer s = layer_state_set (layer_state s OR col_mask (unat layer)) s"

definition layer_off :: "u8 \<Rightarrow> 'l::len word layers \<Rightarrow> 'l word layers" where
  "layer_off layer s = layer_state_set (layer_state s AND NOT (col_mask (unat layer))) s"

definition layer_invert :: "u8 \<Rightarrow> 'l::len word layers \<Rightarrow> 'l word layers" where
  "layer_invert layer s = layer_state_set (layer_state s XOR col_mask (unat layer)) s"

definition layer_or :: "'l::len word \<Rightarrow> 'l word layers \<Rightarrow> 'l word layers" where
  "layer_or state s = layer_state_set (layer_state s OR state) s"

definition layer_and :: "'l::len word \<Rightarrow> 'l word layers \<Rightarrow> 'l word layers" where
  "layer_and state s = layer_state_set (layer_state s AND state) s"

definition layer_xor :: "'l::len word \<Rightarrow> 'l word layers \<Rightarrow> 'l word layers" where
  "layer_xor state s = layer_state_set (layer_state s XOR state) s"

subsection \<open>The source layer cache\<close>

text \<open>\<open>source_layers_cache[entry / 8][bit]\<close>: one row of \<open>MAX_LAYER_BITS\<close> bytes for eight keys.
  \<open>-(x != 0)\<close> is all ones or zero.\<close>

type_synonym layer_cache = "u8 list list"

definition update_source_layers_cache_impl :: "u8 \<Rightarrow> nat \<Rightarrow> layer_cache \<Rightarrow> layer_cache" where
  "update_source_layers_cache_impl layer entry_number cache =
     (let storage_idx = entry_number div 8; storage_bit = entry_number mod 8;
          row = fst (walk (\<lambda>bit_number byte (_ :: unit).
                  (byte XOR (((if layer AND col_mask bit_number \<noteq> 0 then - 1 else 0) XOR byte)
                             AND col_mask storage_bit), ())) 0 (cache ! storage_idx) ())
      in cache[storage_idx := row])"

definition read_source_layers_cache_impl :: "nat \<Rightarrow> layer_cache \<Rightarrow> u8" where
  "read_source_layers_cache_impl entry_number cache =
     (let storage_idx = entry_number div 8; storage_bit = entry_number mod 8
      in snd (walk (\<lambda>bit_number byte layer.
                (byte, layer OR push_bit bit_number (if byte AND col_mask storage_bit \<noteq> 0 then 1 else 0)))
              0 (cache ! storage_idx) 0))"

type_synonym keypos = "nat \<times> nat"

definition entry_of :: "nat \<Rightarrow> keypos \<Rightarrow> nat" where
  "entry_of cols key = fst key * cols + snd key"

definition update_source_layers_cache :: "nat \<Rightarrow> nat \<Rightarrow> keypos \<Rightarrow> u8 \<Rightarrow> layer_cache \<Rightarrow> layer_cache" where
  "update_source_layers_cache rows cols key layer cache =
     (if fst key < rows \<and> snd key < cols
      then update_source_layers_cache_impl layer (entry_of cols key) cache else cache)"

definition read_source_layers_cache :: "nat \<Rightarrow> nat \<Rightarrow> keypos \<Rightarrow> layer_cache \<Rightarrow> u8" where
  "read_source_layers_cache rows cols key cache =
     (if fst key < rows \<and> snd key < cols
      then read_source_layers_cache_impl (entry_of cols key) cache else 0)"

subsection \<open>Resolving a key\<close>

abbreviation ACTION_TRANSPARENT :: u16 where "ACTION_TRANSPARENT \<equiv> 1"

text \<open>The loop \<open>for (i = MAX_LAYER - 1; i >= 0; i--)\<close>; \<open>n\<close> is \<open>i + 1\<close>.\<close>

fun search_layer :: "(u8 \<Rightarrow> keypos \<Rightarrow> u16) \<Rightarrow> keypos \<Rightarrow> 'l::len word \<Rightarrow> nat \<Rightarrow> u8" where
  "search_layer action_for_key key layers 0 = 0"
| "search_layer action_for_key key layers (Suc i) =
     (if layers AND col_mask i \<noteq> 0 \<and> action_for_key (of_nat i) key \<noteq> ACTION_TRANSPARENT then of_nat i
      else search_layer action_for_key key layers i)"

definition layer_switch_get_layer :: "(u8 \<Rightarrow> keypos \<Rightarrow> u16) \<Rightarrow> nat \<Rightarrow> keypos \<Rightarrow> 'l::len word layers \<Rightarrow> u8" where
  "layer_switch_get_layer action_for_key max_layer key s =
     search_layer action_for_key key (layer_state s OR default_layer_state s) max_layer"

definition layer_switch_get_action :: "(u8 \<Rightarrow> keypos \<Rightarrow> u16) \<Rightarrow> nat \<Rightarrow> keypos \<Rightarrow> 'l::len word layers \<Rightarrow> u16" where
  "layer_switch_get_action action_for_key max_layer key s =
     action_for_key (layer_switch_get_layer action_for_key max_layer key s) key"

definition store_or_get_action ::
  "(u8 \<Rightarrow> keypos \<Rightarrow> u16) \<Rightarrow> nat \<Rightarrow> nat \<Rightarrow> nat \<Rightarrow> bool \<Rightarrow> bool \<Rightarrow> keypos \<Rightarrow> 'l::len word layers
   \<Rightarrow> layer_cache \<Rightarrow> u16 \<times> layer_cache"
where
  "store_or_get_action action_for_key max_layer rows cols disable_action_cache pressed key s cache =
     (if disable_action_cache then (layer_switch_get_action action_for_key max_layer key s, cache)
      else if pressed then
        (let layer = layer_switch_get_layer action_for_key max_layer key s
         in (action_for_key layer key, update_source_layers_cache rows cols key layer cache))
      else (action_for_key (read_source_layers_cache rows cols key cache) key, cache))"

definition update_tri_layer_state :: "'l::len word \<Rightarrow> u8 \<Rightarrow> u8 \<Rightarrow> u8 \<Rightarrow> 'l word" where
  "update_tri_layer_state state layer1 layer2 layer3 =
     (let mask12 = col_mask (unat layer1) OR col_mask (unat layer2); mask3 = col_mask (unat layer3)
      in if state AND mask12 = mask12 then state OR mask3 else state AND NOT mask3)"

definition update_tri_layer :: "u8 \<Rightarrow> u8 \<Rightarrow> u8 \<Rightarrow> 'l::len word layers \<Rightarrow> 'l word layers" where
  "update_tri_layer layer1 layer2 layer3 s =
     layer_state_set (update_tri_layer_state (layer_state s) layer1 layer2 layer3) s"

section \<open>The one-shot layer\<close>

abbreviation ONESHOT_PRESSED :: u8 where "ONESHOT_PRESSED \<equiv> 1"
abbreviation ONESHOT_OTHER_KEY_PRESSED :: u8 where "ONESHOT_OTHER_KEY_PRESSED \<equiv> 2"
abbreviation ONESHOT_START :: u8 where "ONESHOT_START \<equiv> 3"
abbreviation ONESHOT_TOGGLED :: u8 where "ONESHOT_TOGGLED \<equiv> 4"

definition get_oneshot_layer :: "'l::len word layers \<Rightarrow> u8" where
  "get_oneshot_layer s = drop_bit 3 (oneshot_layer_data s)"

definition get_oneshot_layer_state :: "'l::len word layers \<Rightarrow> u8" where
  "get_oneshot_layer_state s = oneshot_layer_data s AND 7"

definition set_oneshot_layer :: "u8 \<Rightarrow> u8 \<Rightarrow> 'l::len word layers \<Rightarrow> 'l word layers" where
  "set_oneshot_layer layer state s =
     (if oneshot_on s then layer_on layer (s\<lparr>oneshot_layer_data := push_bit 3 layer OR state\<rparr>)
      else layer_on layer s)"

definition reset_oneshot_layer :: "'l::len word layers \<Rightarrow> 'l word layers" where
  "reset_oneshot_layer s = s\<lparr>oneshot_layer_data := 0\<rparr>"

definition clear_oneshot_layer_state :: "u8 \<Rightarrow> 'l::len word layers \<Rightarrow> 'l word layers" where
  "clear_oneshot_layer_state state s =
     (let start_state = oneshot_layer_data s;
          s1 = s\<lparr>oneshot_layer_data := start_state AND NOT state\<rparr>
      in if get_oneshot_layer_state s1 = 0 \<and> start_state \<noteq> oneshot_layer_data s1 \<and> oneshot_on s1
         then reset_oneshot_layer (layer_off (get_oneshot_layer s1) s1) else s1)"

definition is_oneshot_layer_active :: "'l::len word layers \<Rightarrow> bool" where
  "is_oneshot_layer_active s \<longleftrightarrow> get_oneshot_layer_state s \<noteq> 0"

section \<open>\<open>layer_lock.c\<close>\<close>

text \<open>With \<open>LAYER_LOCK_IDLE_TIMEOUT\<close> defined as \<open>idle_timeout\<close>.\<close>

definition layer_lock_activity_trigger :: "u32 \<Rightarrow> 'l::len word layers \<Rightarrow> 'l word layers" where
  "layer_lock_activity_trigger now s = s\<lparr>layer_lock_timer := now\<rparr>"

definition is_layer_locked :: "u8 \<Rightarrow> 'l::len word layers \<Rightarrow> bool" where
  "is_layer_locked layer s \<longleftrightarrow> locked_layers s AND col_mask (unat layer) \<noteq> 0"

definition layer_lock_invert :: "u32 \<Rightarrow> u8 \<Rightarrow> 'l::len word layers \<Rightarrow> 'l word layers" where
  "layer_lock_invert now layer s =
     (let mask = col_mask (unat layer);
          s1 = (if locked_layers s AND mask = 0 then
                  layer_lock_activity_trigger now
                    (layer_on layer (if layer = get_oneshot_layer s then reset_oneshot_layer s else s))
                else layer_off layer s)
      in s1\<lparr>locked_layers := locked_layers s1 XOR mask\<rparr>)"

definition layer_lock_on :: "u32 \<Rightarrow> u8 \<Rightarrow> 'l::len word layers \<Rightarrow> 'l word layers" where
  "layer_lock_on now layer s = (if \<not> is_layer_locked layer s then layer_lock_invert now layer s else s)"

definition layer_lock_off :: "u32 \<Rightarrow> u8 \<Rightarrow> 'l::len word layers \<Rightarrow> 'l word layers" where
  "layer_lock_off now layer s = (if is_layer_locked layer s then layer_lock_invert now layer s else s)"

definition layer_lock_all_off :: "'l::len word layers \<Rightarrow> 'l word layers" where
  "layer_lock_all_off s = (layer_and (NOT (locked_layers s)) s)\<lparr>locked_layers := 0\<rparr>"

definition layer_lock_timeout_task :: "u32 \<Rightarrow> u32 \<Rightarrow> 'l::len word layers \<Rightarrow> 'l word layers" where
  "layer_lock_timeout_task idle_timeout now s =
     (if locked_layers s \<noteq> 0 \<and> timer_elapsed32 now (layer_lock_timer s) > idle_timeout
      then (layer_lock_all_off s)\<lparr>layer_lock_timer := now\<rparr> else s)"

section \<open>Masks of bytes and rows of the cache\<close>

lemma update_row_bit:
  fixes byte :: u8
  shows "bit (byte XOR (((if b then - 1 else 0) XOR byte) AND col_mask k)) n
    \<longleftrightarrow> (if n = k then b \<and> k < 8 else bit byte n)"
  using bit_imp_le_length [of byte n] by (auto simp: bit_simps row_simps)

lemma update_row_nth:
  "j < length row \<Longrightarrow> fst (walk (\<lambda>i byte. Pair (f i byte)) k row ()) ! j = f (k + j) (row ! j)"
  by (induction row arbitrary: k j) (auto simp: walk_Cons nth_Cons split: nat.split)

lemma read_row_bit:
  "bit (snd (walk (\<lambda>i byte layer. (byte, layer OR push_bit i (if bit byte k then 1 else 0))) i row (l :: u8))) n
    \<longleftrightarrow> bit l n \<or> (i \<le> n \<and> n < i + length row \<and> n < 8 \<and> bit (row ! (n - i)) k)"
proof (induction row arbitrary: i l)
  case (Cons b row)
  have "bit (push_bit i (if bit b k then 1 else 0 :: u8)) n \<longleftrightarrow> bit b k \<and> n = i \<and> n < 8"
    by (auto simp: bit_push_bit_iff bit_1_iff)
  with Cons show ?case
    by (auto simp: walk_Cons bit_or_iff nth_Cons' Suc_le_eq)
qed auto

definition cache_ok :: "nat \<Rightarrow> nat \<Rightarrow> layer_cache \<Rightarrow> bool" where
  "cache_ok nbits entries cache \<longleftrightarrow> nbits \<le> 8 \<and> entries \<le> 8 * length cache \<and> list_all (\<lambda>row. length row = nbits) cache"

lemma cache_ok_update:
  assumes "cache_ok nbits entries cache"
  shows "cache_ok nbits entries (update_source_layers_cache_impl layer e cache)"
proof (cases "e div 8 < length cache")
  case True
  with assms show ?thesis
    by (auto simp: cache_ok_def update_source_layers_cache_impl_def Let_def list_all_length nth_list_update_if)
next
  case False
  then show ?thesis using assms by (simp add: update_source_layers_cache_impl_def Let_def list_update_beyond)
qed

lemma read_update:
  assumes "cache_ok nbits entries cache" and "e < entries" and "e' < entries" and "unat layer < 2 ^ nbits"
  shows "read_source_layers_cache_impl e' (update_source_layers_cache_impl layer e cache)
    = (if e' = e then layer else read_source_layers_cache_impl e' cache)"
proof (rule bit_word_eqI)
  fix n assume n: "n < LENGTH(8)"
  have ix: "e div 8 < length cache" "e' div 8 < length cache"
    using assms(1-3) by (auto simp: cache_ok_def less_mult_imp_div_less mult.commute)
  have len: "length (cache ! (e div 8)) = nbits" "length (cache ! (e' div 8)) = nbits"
    using assms(1) ix by (simp_all add: cache_ok_def list_all_length)
  have top: "\<not> bit layer n" if "nbits \<le> n"
  proof
    assume "bit layer n"
    then have "2 ^ n \<le> unat layer" by (rule bit_le_unat)
    moreover have "(2 :: nat) ^ nbits \<le> 2 ^ n" using that by simp
    ultimately show False using assms(4) by linarith
  qed
  have same: "e' = e \<longleftrightarrow> e' div 8 = e div 8 \<and> e' mod 8 = e mod 8" by (metis div_mult_mod_eq)
  show "bit (read_source_layers_cache_impl e' (update_source_layers_cache_impl layer e cache)) n
    = bit (if e' = e then layer else read_source_layers_cache_impl e' cache) n"
    using n ix len top
    by (cases "n < nbits")
       (auto simp: read_source_layers_cache_impl_def update_source_layers_cache_impl_def Let_def
        and_col_mask_iff read_row_bit nth_list_update_if same update_row_nth update_row_bit)
qed

section \<open>Which layer a key uses\<close>

text \<open>The highest active layer that is not transparent for the key, layer 0 if there is none.\<close>

lemma search_layer_spec:
  fixes layers :: "'l::len word"
  shows "(search_layer act key layers n = 0 \<and> (\<forall>i < n. bit layers i \<longrightarrow> act (of_nat i) key = ACTION_TRANSPARENT))
    \<or> (\<exists>i < n. search_layer act key layers n = of_nat i \<and> bit layers i \<and> act (of_nat i) key \<noteq> ACTION_TRANSPARENT
        \<and> (\<forall>j. i < j \<and> j < n \<longrightarrow> bit layers j \<longrightarrow> act (of_nat j) key = ACTION_TRANSPARENT))"
proof (induction n)
  case (Suc n)
  show ?case
  proof (cases "bit layers n \<and> act (of_nat n) key \<noteq> ACTION_TRANSPARENT")
    case True
    then show ?thesis by (intro disjI2 exI [of _ n]) (auto simp: and_col_mask_iff)
  next
    case False
    then have "search_layer act key layers (Suc n) = search_layer act key layers n"
      by (auto simp: and_col_mask_iff)
    with Suc False show ?thesis by (auto simp: less_Suc_eq)
  qed
qed simp

lemma search_layer_bound: "n \<le> 256 \<Longrightarrow> 0 < n \<Longrightarrow> unat (search_layer act key layers n) < n"
  by (induction n) (auto simp: unat_of_nat less_Suc_eq)

section \<open>A release uses the layer of its press\<close>

text \<open>Key events with the layer stack in force at each.\<close>

type_synonym 'l key_run = "(bool \<times> keypos \<times> 'l word layers) list"

definition cache_run ::
  "(u8 \<Rightarrow> keypos \<Rightarrow> u16) \<Rightarrow> nat \<Rightarrow> nat \<Rightarrow> nat \<Rightarrow> 'l::len key_run \<Rightarrow> layer_cache \<Rightarrow> layer_cache"
where
  "cache_run act max_layer rows cols =
     fold (\<lambda>(pressed, key, s) cache. snd (store_or_get_action act max_layer rows cols False pressed key s cache))"

lemma entry_of_inj:
  assumes "snd k < cols" and "snd k' < cols"
  shows "entry_of cols k = entry_of cols k' \<longleftrightarrow> k = k'"
proof
  assume "entry_of cols k = entry_of cols k'"
  then have e: "fst k * cols + snd k = fst k' * cols + snd k'" by (simp add: entry_of_def)
  then have "(fst k * cols + snd k) div cols = (fst k' * cols + snd k') div cols" by simp
  then have "fst k = fst k'" using assms by simp
  with e show "k = k'" by (simp add: prod_eq_iff)
qed simp

lemma entry_of_less: "fst k < rows \<Longrightarrow> snd k < cols \<Longrightarrow> entry_of cols k < rows * cols"
proof -
  assume a: "fst k < rows" "snd k < cols"
  then have "fst k * cols + snd k < Suc (fst k) * cols" by simp
  also have "\<dots> \<le> rows * cols" using a(1) by (intro mult_right_mono) simp_all
  finally show ?thesis by (simp add: entry_of_def)
qed

lemma store_keeps_other:
  fixes s :: "'l::len word layers" and act :: "u8 \<Rightarrow> keypos \<Rightarrow> u16"
  assumes "cache_ok nbits (rows * cols) cache" and "fst key < rows" and "snd key < cols"
    and "max_layer \<le> 2 ^ nbits" and "0 < max_layer" and "\<not> (pressed \<and> key' = key)"
  defines "cache' \<equiv> snd (store_or_get_action act max_layer rows cols False pressed key' s cache)"
  shows "cache_ok nbits (rows * cols) cache'
    \<and> read_source_layers_cache rows cols key cache' = read_source_layers_cache rows cols key cache"
proof (cases "pressed \<and> fst key' < rows \<and> snd key' < cols")
  case True
  let ?l = "layer_switch_get_layer act max_layer key' s"
  have "(2 :: nat) ^ nbits \<le> 2 ^ 8" using assms(1) by (intro power_increasing) (simp_all add: cache_ok_def)
  then have "unat ?l < 2 ^ nbits"
    using search_layer_bound [of max_layer act key' "layer_state s OR default_layer_state s"] assms(4,5)
    by (simp add: layer_switch_get_layer_def)
  then show ?thesis
    using True assms(2,3,6) read_update [OF assms(1), of "entry_of cols key'" "entry_of cols key" ?l]
      cache_ok_update [OF assms(1)] entry_of_inj [of key cols key'] entry_of_less [of _ rows cols]
    by (auto simp: cache'_def store_or_get_action_def Let_def update_source_layers_cache_def read_source_layers_cache_def)
next
  case False
  then show ?thesis
    using assms(1) by (auto simp: cache'_def store_or_get_action_def Let_def update_source_layers_cache_def)
qed

text \<open>C8. The release of a key resolves to the action its press resolved to, whatever layer changes
  and events of other keys come between them.\<close>

theorem release_matches_press:
  fixes s :: "'l::len word layers"
  assumes "cache_ok nbits (rows * cols) cache" and "fst key < rows" and "snd key < cols"
    and "max_layer \<le> 2 ^ nbits" and "0 < max_layer" and "list_all (\<lambda>(pressed, k, _). \<not> (pressed \<and> k = key)) es"
    and "store_or_get_action act max_layer rows cols False True key s cache = (action, cache1)"
  shows "fst (store_or_get_action act max_layer rows cols False False key s'
      (cache_run act max_layer rows cols es cache1)) = action"
proof -
  let ?l = "layer_switch_get_layer act max_layer key s"
  have c1: "cache1 = update_source_layers_cache_impl ?l (entry_of cols key) cache" "action = act ?l key"
    using assms(2,3,7) by (auto simp: store_or_get_action_def Let_def update_source_layers_cache_def)
  have "(2 :: nat) ^ nbits \<le> 2 ^ 8" using assms(1) by (intro power_increasing) (simp_all add: cache_ok_def)
  then have "unat ?l < 2 ^ nbits"
    using search_layer_bound [of max_layer act key "layer_state s OR default_layer_state s"] assms(4,5)
    by (simp add: layer_switch_get_layer_def)
  note read = read_update [OF assms(1) entry_of_less [OF assms(2,3)] entry_of_less [OF assms(2,3)] this]
  have ok: "cache_ok nbits (rows * cols) cache1 \<and> read_source_layers_cache rows cols key cache1 = ?l"
    using read cache_ok_update [OF assms(1)] assms(2,3) by (simp add: c1(1) read_source_layers_cache_def)
  have "cache_ok nbits (rows * cols) c \<Longrightarrow>
      read_source_layers_cache rows cols key (cache_run act max_layer rows cols es c)
        = read_source_layers_cache rows cols key c" for c
    using assms(6)
  proof (induction es arbitrary: c)
    case (Cons e es)
    obtain pressed k t where e: "e = (pressed, k, t)" by (cases e)
    have "\<not> (pressed \<and> k = key)" using Cons.prems(2) e by simp
    note step = store_keeps_other [OF Cons.prems(1) assms(2-5) this, of act t]
    with Cons show ?case by (simp add: cache_run_def e)
  qed (simp add: cache_run_def)
  with ok c1(2) show ?thesis by (simp add: store_or_get_action_def)
qed

lemma release_matches_press_witness:
  defines "base \<equiv> \<lparr>default_layer_state = 1, layer_state = (0 :: u16), oneshot_layer_data = 0, oneshot_on = True,
      locked_layers = 0, layer_lock_timer = 0\<rparr>"
    and "act \<equiv> \<lambda>(l :: u8) (k :: keypos). if l = 2 then 23 else 7 :: u16"
  shows "fst (store_or_get_action act (Suc (Suc (Suc 0))) 1 8 False False (0, 3) base
      (cache_run act (Suc (Suc (Suc 0))) 1 8 [(False, (0, 2), base), (True, (0, 4), base)]
        (snd (store_or_get_action act (Suc (Suc (Suc 0))) 1 8 False True (0, 3) (base\<lparr>layer_state := 4\<rparr>)
          [[0, 0, 0, 0]])))) = 23"
proof -
  let ?s = "base\<lparr>layer_state := 4\<rparr>"
  have ok: "cache_ok 4 (1 * 8) [[0, 0, 0, 0]]" by (simp add: cache_ok_def)
  have "layer_switch_get_layer act (Suc (Suc (Suc 0))) (0, 3) ?s = 2"
    by (simp add: layer_switch_get_layer_def base_def act_def and_col_mask_iff bit_numeral_word_iff)
  then have a: "store_or_get_action act (Suc (Suc (Suc 0))) 1 8 False True (0, 3) ?s [[0, 0, 0, 0]]
      = (23, snd (store_or_get_action act (Suc (Suc (Suc 0))) 1 8 False True (0, 3) ?s [[0, 0, 0, 0]]))"
    by (simp add: store_or_get_action_def act_def)
  show ?thesis by (rule release_matches_press [OF ok _ _ _ _ _ a]) simp_all
qed

section \<open>The one-shot layer is on until both events have come\<close>

lemma oneshot_data:
  fixes layer st m :: u8
  assumes "unat layer < 32" and "unat st < 8"
  shows "drop_bit 3 (push_bit 3 layer OR st) = layer"
    and "(push_bit 3 layer OR st) AND 7 = st"
    and "unat m < 8 \<Longrightarrow> (push_bit 3 layer OR st) AND NOT m = push_bit 3 layer OR (st AND NOT m)"
proof -
  have l: "n < 5" if "bit layer n" for n using small_bits [of layer 5 n] assms(1) that by (cases "5 \<le> n") auto
  have s: "n < 3" if "bit st n" for n using small_bits [of st 3 n] assms(2) that by (cases "3 \<le> n") auto
  have seven: "(7 :: u8) = mask 3" by (simp add: mask_eq_exp_minus_1)
  show "drop_bit 3 (push_bit 3 layer OR st) = layer"
    by (intro bit_word_eqI) (auto simp: bit_simps dest: l s)
  show "(push_bit 3 layer OR st) AND 7 = st"
    unfolding seven by (intro bit_word_eqI) (auto simp: bit_simps dest: s)
  assume "unat m < 8"
  then have m: "n < 3" if "bit m n" for n using small_bits [of m 3 n] that by (cases "3 \<le> n") auto
  show "(push_bit 3 layer OR st) AND NOT m = push_bit 3 layer OR (st AND NOT m)"
    by (intro bit_word_eqI) (auto simp: bit_simps dest: m)
qed

text \<open>A one-shot layer stays on after the first of its two ending events and is off after the
  second, in either order, with the rest of the stack as before.\<close>

lemma oneshot_layer_lifecycle:
  fixes s :: "'l::len word layers"
  assumes "oneshot_on s" and "unat layer < 32" and "unat layer < LENGTH('l)" and "\<not> bit (layer_state s) (unat layer)"
    and "(first, second) \<in> {(ONESHOT_PRESSED, ONESHOT_OTHER_KEY_PRESSED), (ONESHOT_OTHER_KEY_PRESSED, ONESHOT_PRESSED)}"
    and "s1 = clear_oneshot_layer_state first (set_oneshot_layer layer ONESHOT_START s)"
    and "s2 = clear_oneshot_layer_state second s1"
  shows "bit (layer_state s1) (unat layer) \<and> is_oneshot_layer_active s1
    \<and> layer_state s2 = layer_state s \<and> \<not> is_oneshot_layer_active s2"
proof -
  have first: "first \<in> {1, 2}" "unat first < 8" "unat second < 8" "3 AND NOT first = second" "second \<noteq> 0"
    "second AND NOT second = 0" "first \<noteq> 0" "second \<noteq> 3"
    using assms(5) by auto
  let ?d = "push_bit 3 layer OR 3"
  have s0: "set_oneshot_layer layer ONESHOT_START s
      = s\<lparr>oneshot_layer_data := ?d, layer_state := layer_state s OR col_mask (unat layer)\<rparr>"
    using assms(1) by (simp add: set_oneshot_layer_def layer_on_def layer_state_set_def)
  have d1: "?d AND NOT first = push_bit 3 layer OR second"
    using oneshot_data(3) [OF assms(2), of 3 first] first by simp
  have s1: "s1 = s\<lparr>oneshot_layer_data := push_bit 3 layer OR second,
      layer_state := layer_state s OR col_mask (unat layer)\<rparr>"
    using first oneshot_data(2) [OF assms(2), of second]
    by (simp add: assms(6) s0 clear_oneshot_layer_state_def Let_def d1 get_oneshot_layer_state_def)
  have d2: "(push_bit 3 layer OR second) AND NOT second = push_bit 3 layer"
    using oneshot_data(3) [OF assms(2), of second second] first by simp
  have "push_bit 3 layer AND 7 = 0" "drop_bit 3 (push_bit 3 layer) = layer"
    using oneshot_data(1,2) [OF assms(2), of 0] by simp_all
  moreover have "push_bit 3 layer OR second \<noteq> push_bit 3 layer"
    using oneshot_data(2) [OF assms(2), of second] first \<open>push_bit 3 layer AND 7 = 0\<close> by metis
  moreover have "(layer_state s OR col_mask (unat layer)) AND NOT (col_mask (unat layer)) = layer_state s"
    using assms(4) by (intro bit_word_eqI) (auto simp: row_simps)
  ultimately have s2: "s2 = s\<lparr>oneshot_layer_data := 0\<rparr>"
    using assms(1) by (simp add: assms(7) s1 clear_oneshot_layer_state_def Let_def d2 get_oneshot_layer_state_def
        get_oneshot_layer_def layer_off_def layer_state_set_def reset_oneshot_layer_def)
  show ?thesis
    using s1 s2 assms(3) first oneshot_data(2) [OF assms(2), of second]
    by (simp add: is_oneshot_layer_active_def get_oneshot_layer_state_def row_simps)
qed

lemma oneshot_layer_lifecycle_witness:
  defines "s \<equiv> \<lparr>default_layer_state = 1, layer_state = (0 :: u16), oneshot_layer_data = 0, oneshot_on = True,
      locked_layers = 0, layer_lock_timer = 0\<rparr>"
  shows "bit (layer_state (clear_oneshot_layer_state ONESHOT_PRESSED (set_oneshot_layer 5 ONESHOT_START s))) 5
    \<and> layer_state (clear_oneshot_layer_state ONESHOT_OTHER_KEY_PRESSED
        (clear_oneshot_layer_state ONESHOT_PRESSED (set_oneshot_layer 5 ONESHOT_START s))) = 0"
  using oneshot_layer_lifecycle [OF _ _ _ _ _ refl refl, of s 5 ONESHOT_PRESSED ONESHOT_OTHER_KEY_PRESSED]
  by (simp add: s_def)

section \<open>Locked layers stay on\<close>

definition locks_active :: "'l::len word layers \<Rightarrow> bool" where
  "locks_active s \<longleftrightarrow> (\<forall>n. bit (locked_layers s) n \<longrightarrow> bit (layer_state s) n)"

lemma locks_active_invert: "locks_active s \<Longrightarrow> locks_active (layer_lock_invert now layer s)"
  by (auto simp: locks_active_def layer_lock_invert_def Let_def layer_on_def layer_off_def layer_state_set_def
      layer_lock_activity_trigger_def reset_oneshot_layer_def row_simps split: if_splits dest: bit_imp_le_length)

lemma locks_active_all_off: "locks_active (layer_lock_all_off s)"
  by (simp add: locks_active_def layer_lock_all_off_def layer_and_def layer_state_set_def)

lemma lock_all_off_layers:
  "bit (layer_state (layer_lock_all_off s)) n \<longleftrightarrow> bit (layer_state s) n \<and> \<not> bit (locked_layers s) n"
  using bit_imp_le_length [of "layer_state s" n]
  by (auto simp: layer_lock_all_off_def layer_and_def layer_state_set_def bit_simps)

section \<open>\<open>tri_layer.c\<close> and \<open>process_tri_layer.c\<close>\<close>

record tri_layers =
  tri_layer_lower_layer :: u8
  tri_layer_upper_layer :: u8
  tri_layer_adjust_layer :: u8

definition set_tri_layer_layers :: "u8 \<Rightarrow> u8 \<Rightarrow> u8 \<Rightarrow> tri_layers" where
  "set_tri_layer_layers lower raise adjust =
     \<lparr>tri_layer_lower_layer = lower, tri_layer_upper_layer = raise, tri_layer_adjust_layer = adjust\<rparr>"

abbreviation QK_TRI_LAYER_LOWER :: u16 where "QK_TRI_LAYER_LOWER \<equiv> 0x7C77"
abbreviation QK_TRI_LAYER_UPPER :: u16 where "QK_TRI_LAYER_UPPER \<equiv> 0x7C78"

definition process_tri_layer :: "tri_layers \<Rightarrow> u16 \<Rightarrow> bool \<Rightarrow> 'l::len word layers \<Rightarrow> bool \<times> 'l word layers" where
  "process_tri_layer t keycode pressed s =
     (let update = update_tri_layer (tri_layer_lower_layer t) (tri_layer_upper_layer t) (tri_layer_adjust_layer t)
      in if keycode = QK_TRI_LAYER_LOWER then
           (False, update (if pressed then layer_on (tri_layer_lower_layer t) s
                           else layer_off (tri_layer_lower_layer t) s))
         else if keycode = QK_TRI_LAYER_UPPER then
           (False, update (if pressed then layer_on (tri_layer_upper_layer t) s
                           else layer_off (tri_layer_upper_layer t) s))
         else (True, s))"

lemma both_masks:
  fixes w :: "'l::len word"
  assumes "a < LENGTH('l)" and "b < LENGTH('l)"
  shows "w AND (col_mask a OR col_mask b) = col_mask a OR col_mask b \<longleftrightarrow> bit w a \<and> bit w b"
proof
  assume e: "w AND (col_mask a OR col_mask b) = col_mask a OR col_mask b"
  have "bit (w AND (col_mask a OR col_mask b)) n \<longleftrightarrow> bit (col_mask a OR col_mask b :: 'l word) n" for n
    by (simp only: e)
  from this [of a] this [of b] show "bit w a \<and> bit w b"
    using assms by (simp add: bit_and_iff bit_or_iff bit_col_mask)
next
  assume "bit w a \<and> bit w b"
  then show "w AND (col_mask a OR col_mask b) = col_mask a OR col_mask b"
    by (intro bit_word_eqI) (auto simp: bit_and_iff bit_or_iff bit_col_mask)
qed

lemma tri_state_bits:
  fixes w :: "'l::len word"
  assumes "unat a < LENGTH('l)" and "unat b < LENGTH('l)" and "unat c < LENGTH('l)"
  shows "bit (update_tri_layer_state w a b c) n \<longleftrightarrow>
    (if n = unat c then bit w (unat a) \<and> bit w (unat b) else bit w n)"
  using assms both_masks [of "unat a" "unat b" w]
  by (auto simp: update_tri_layer_state_def Let_def row_simps)

lemma process_tri_layer_adjust:
  fixes s :: "'l::len word layers"
  assumes "keycode = QK_TRI_LAYER_LOWER \<or> keycode = QK_TRI_LAYER_UPPER"
    and "unat (tri_layer_lower_layer t) < LENGTH('l)" and "unat (tri_layer_upper_layer t) < LENGTH('l)"
    and "unat (tri_layer_adjust_layer t) < LENGTH('l)"
    and "tri_layer_adjust_layer t \<noteq> tri_layer_lower_layer t" and "tri_layer_adjust_layer t \<noteq> tri_layer_upper_layer t"
    and s': "s' = snd (process_tri_layer t keycode pressed s)"
  shows "bit (layer_state s') (unat (tri_layer_adjust_layer t)) \<longleftrightarrow>
    bit (layer_state s') (unat (tri_layer_lower_layer t)) \<and> bit (layer_state s') (unat (tri_layer_upper_layer t))"
proof -
  have ne: "unat (tri_layer_lower_layer t) \<noteq> unat (tri_layer_adjust_layer t)"
    "unat (tri_layer_upper_layer t) \<noteq> unat (tri_layer_adjust_layer t)"
    using assms(5,6) by (simp_all add: word_unat_eq_iff)
  obtain s1 where "s' = update_tri_layer (tri_layer_lower_layer t) (tri_layer_upper_layer t) (tri_layer_adjust_layer t) s1"
    using assms(1) s' by (auto simp: process_tri_layer_def Let_def)
  with ne tri_state_bits [OF assms(2-4)] show ?thesis
    by (simp add: update_tri_layer_def layer_state_set_def)
qed

end
