(* ===== verification/Tapping.thy ===== *)
theory Tapping
  imports Keycodes Layers RingBuffer "HOL-Library.Multiset"
begin

text \<open>
  Tap or hold (\<open>quantum/action_tapping.c\<close>): the state machine that withholds key events until it is known whether a
  dual-role key is tapped or held.  Configuration: \<open>PERMISSIVE_HOLD_PER_KEY\<close>, \<open>HOLD_ON_OTHER_KEY_PRESS_PER_KEY\<close>,
  \<open>TAPPING_TERM_PER_KEY\<close> and \<open>QUICK_TAP_TERM_PER_KEY\<close> (the other builds are constant functions), without chordal hold,
  flow tap, retro shift and combos.  What the machine calls is gathered in \<open>tap_env\<close>; \<open>Actions\<close> supplies it.
\<close>

section \<open>Events and records\<close>

abbreviation TICK_EVENT :: u8 where "TICK_EVENT \<equiv> 0"
abbreviation KEY_EVENT :: u8 where "KEY_EVENT \<equiv> 1"
abbreviation COMBO_EVENT :: u8 where "COMBO_EVENT \<equiv> 4"

record keyevent =
  ev_key :: keypos
  ev_time :: u16
  ev_type :: u8
  ev_pressed :: bool

record tap_t =
  interrupted :: bool
  tap_count :: "4 word"

record keyrecord =
  event :: keyevent
  tap :: tap_t

definition IS_NOEVENT :: "keyevent \<Rightarrow> bool" where "IS_NOEVENT e \<longleftrightarrow> ev_type e = TICK_EVENT"

definition no_tap :: tap_t where "no_tap = \<lparr>interrupted = False, tap_count = 0\<rparr>"

text \<open>\<open>(keyrecord_t){0}\<close>.\<close>

definition no_record :: keyrecord where
  "no_record = \<lparr>event = \<lparr>ev_key = (0, 0), ev_time = 0, ev_type = TICK_EVENT, ev_pressed = False\<rparr>, tap = no_tap\<rparr>"

definition TIMER_DIFF_16 :: "u16 \<Rightarrow> u16 \<Rightarrow> u16" where "TIMER_DIFF_16 a b = timer_diff a b"

section \<open>Tap actions\<close>

definition IS_MODIFIER_CODE :: "u8 \<Rightarrow> bool" where "IS_MODIFIER_CODE k \<longleftrightarrow> 0xE0 \<le> k \<and> k \<le> 0xE7"

definition is_tap_action :: "u16 \<Rightarrow> bool" where
  "is_tap_action a =
     (if kind_id a \<in> {ACT_LMODS_TAP, ACT_RMODS_TAP, ACT_LAYER_TAP, ACT_LAYER_TAP_EXT}
      then key_code a \<le> 0xE7 \<or> key_code a = OP_TAP_TOGGLE \<or> key_code a = OP_ONESHOT
      else if kind_id a = ACT_SWAP_HANDS then key_code a \<le> 0xE7 \<or> key_code a = OP_SH_TAP_TOGGLE
      else False)"

text \<open>The \<open>switch\<close> that keeps the release of a held modifier or layer for later.\<close>

definition retained :: "u16 \<Rightarrow> 4 word \<Rightarrow> bool" where
  "retained a n =
     (if kind_id a \<in> {ACT_LMODS, ACT_RMODS} then
        (key_mods a \<noteq> 0 \<and> key_code a = 0) \<or> IS_MODIFIER_CODE (key_code a)
      else if kind_id a \<in> {ACT_LMODS_TAP, ACT_RMODS_TAP} then
        (key_mods a \<noteq> 0 \<and> n = 0) \<or> IS_MODIFIER_CODE (key_code a)
      else if kind_id a \<in> {ACT_LAYER_TAP, ACT_LAYER_TAP_EXT} then
        key_code a < OP_TAP_TOGGLE \<or> key_code a \<in> {OP_ON_OFF, OP_OFF_ON, OP_SET_CLEAR}
      else False)"

section \<open>State\<close>

text \<open>The callees: \<open>process_record\<close> may change the record it is given, the keycode of a record is looked up in the
  layers, which are part of the world \<open>'s\<close>.\<close>

record 's tap_env =
  call_process_record :: "keyrecord \<Rightarrow> 's \<Rightarrow> keyrecord \<times> 's"
  call_tap_hint :: "keyrecord \<Rightarrow> 's \<Rightarrow> 's"
  switch_action :: "keypos \<Rightarrow> 's \<Rightarrow> u16"
  tapping_term :: "keyrecord \<Rightarrow> 's \<Rightarrow> u16"
  quick_tap_term :: "keyrecord \<Rightarrow> 's \<Rightarrow> u16"
  permissive_hold :: "keyrecord \<Rightarrow> 's \<Rightarrow> bool"
  hold_on_other_key_press :: "keyrecord \<Rightarrow> 's \<Rightarrow> bool"
  call_clear_keyboard :: "'s \<Rightarrow> 's"

abbreviation WAITING_BUFFER_SIZE :: nat where "WAITING_BUFFER_SIZE \<equiv> 8"

record 's tapping =
  tapping_key :: keyrecord
  waiting_buffer :: "keyrecord list"
  waiting_buffer_head :: nat
  waiting_buffer_tail :: nat
  world :: 's

definition tapping_init :: "'s \<Rightarrow> 's tapping" where
  "tapping_init w = \<lparr>tapping_key = no_record, waiting_buffer = replicate WAITING_BUFFER_SIZE no_record,
     waiting_buffer_head = 0, waiting_buffer_tail = 0, world = w\<rparr>"

definition is_tap_record :: "'s tap_env \<Rightarrow> keyrecord \<Rightarrow> 's tapping \<Rightarrow> bool" where
  "is_tap_record env r st = (if IS_NOEVENT (event r) then False else is_tap_action (switch_action env (ev_key (event r)) (world st)))"

definition IS_TAPPING_RECORD :: "keyrecord \<Rightarrow> 's tapping \<Rightarrow> bool" where
  "IS_TAPPING_RECORD r st \<longleftrightarrow> ev_key (event (tapping_key st)) = ev_key (event r)"

definition WITHIN_TAPPING_TERM :: "'s tap_env \<Rightarrow> keyevent \<Rightarrow> 's tapping \<Rightarrow> bool" where
  "WITHIN_TAPPING_TERM env e st \<longleftrightarrow>
     TIMER_DIFF_16 (ev_time e) (ev_time (event (tapping_key st))) < tapping_term env (tapping_key st) (world st)"

definition WITHIN_QUICK_TAP_TERM :: "'s tap_env \<Rightarrow> keyevent \<Rightarrow> 's tapping \<Rightarrow> bool" where
  "WITHIN_QUICK_TAP_TERM env e st \<longleftrightarrow>
     TIMER_DIFF_16 (ev_time e) (ev_time (event (tapping_key st))) < quick_tap_term env (tapping_key st) (world st)"

section \<open>The waiting buffer\<close>

definition queued :: "'s tapping \<Rightarrow> keyrecord list" where
  "queued st = ring_contents WAITING_BUFFER_SIZE (waiting_buffer st) (waiting_buffer_head st) (waiting_buffer_tail st)"

definition waiting_buffer_enq :: "keyrecord \<Rightarrow> 's tapping \<Rightarrow> bool \<times> 's tapping" where
  "waiting_buffer_enq r st =
     (if IS_NOEVENT (event r) then (True, st)
      else if (waiting_buffer_head st + 1) mod WAITING_BUFFER_SIZE = waiting_buffer_tail st then (False, st)
      else (True, st\<lparr>waiting_buffer := (waiting_buffer st)[waiting_buffer_head st := r],
                     waiting_buffer_head := (waiting_buffer_head st + 1) mod WAITING_BUFFER_SIZE\<rparr>))"

definition waiting_buffer_clear :: "'s tapping \<Rightarrow> 's tapping" where
  "waiting_buffer_clear st = st\<lparr>waiting_buffer_head := 0, waiting_buffer_tail := 0\<rparr>"

text \<open>The index \<open>i\<close> walks from the tail to the head; \<open>n\<close> is the number of entries between them.\<close>

fun buffer_indices :: "nat \<Rightarrow> nat \<Rightarrow> nat list" where
  "buffer_indices i 0 = []"
| "buffer_indices i (Suc n) = i # buffer_indices ((i + 1) mod WAITING_BUFFER_SIZE) n"

definition live_indices :: "'s tapping \<Rightarrow> nat list" where
  "live_indices st = buffer_indices (waiting_buffer_tail st)
     ((waiting_buffer_head st + WAITING_BUFFER_SIZE - waiting_buffer_tail st) mod WAITING_BUFFER_SIZE)"

definition waiting_buffer_typed :: "keyevent \<Rightarrow> 's tapping \<Rightarrow> bool" where
  "waiting_buffer_typed e st =
     list_ex (\<lambda>i. let b = event (waiting_buffer st ! i) in ev_key e = ev_key b \<and> ev_pressed e \<noteq> ev_pressed b) (live_indices st)"

definition waiting_buffer_has_anykey_pressed :: "'s tapping \<Rightarrow> bool" where
  "waiting_buffer_has_anykey_pressed st = list_ex (\<lambda>i. ev_pressed (event (waiting_buffer st ! i))) (live_indices st)"

text \<open>\<open>process_record(&tapping_key)\<close>.\<close>

definition process_tapping_key :: "'s tap_env \<Rightarrow> 's tapping \<Rightarrow> 's tapping" where
  "process_tapping_key env st =
     (case call_process_record env (tapping_key st) (world st) of (r, w) \<Rightarrow> st\<lparr>tapping_key := r, world := w\<rparr>)"

definition set_count :: "4 word \<Rightarrow> keyrecord \<Rightarrow> keyrecord" where
  "set_count n r = r\<lparr>tap := (tap r)\<lparr>tap_count := n\<rparr>\<rparr>"

definition scan_candidate :: "'s tap_env \<Rightarrow> 's tapping \<Rightarrow> nat \<Rightarrow> bool" where
  "scan_candidate env st i =
     (let c = event (waiting_buffer st ! i)
      in \<not> IS_NOEVENT c \<and> ev_key c = ev_key (event (tapping_key st)) \<and> \<not> ev_pressed c \<and> WITHIN_TAPPING_TERM env c st)"

definition waiting_buffer_scan_tap :: "'s tap_env \<Rightarrow> 's tapping \<Rightarrow> 's tapping" where
  "waiting_buffer_scan_tap env st =
     (if tap_count (tap (tapping_key st)) > 0 \<or> \<not> ev_pressed (event (tapping_key st)) then st
      else case find (scan_candidate env st) (live_indices st) of
             None \<Rightarrow> st
           | Some i \<Rightarrow> process_tapping_key env
               (st\<lparr>tapping_key := set_count 1 (tapping_key st),
                   waiting_buffer := (waiting_buffer st)[i := set_count 1 (waiting_buffer st ! i)]\<rparr>))"


section \<open>The state machine\<close>

text \<open>Each part returns whether the event is consumed, the record as the caller sees it afterwards, and the state.\<close>

definition process_keyp :: "'s tap_env \<Rightarrow> keyrecord \<Rightarrow> 's tapping \<Rightarrow> keyrecord \<times> 's tapping" where
  "process_keyp env keyp st = (case call_process_record env keyp (world st) of (r, w) \<Rightarrow> (r, st\<lparr>world := w\<rparr>))"

definition pass_on :: "'s tap_env \<Rightarrow> keyrecord \<Rightarrow> 's tapping \<Rightarrow> bool \<times> keyrecord \<times> 's tapping" where
  "pass_on env keyp st = (case process_keyp env keyp st of (k, st) \<Rightarrow> (True, k, st))"

definition end_tapping :: "'s tapping \<Rightarrow> 's tapping" where
  "end_tapping st = st\<lparr>tapping_key := no_record\<rparr>"

definition tap_reset :: "'s tap_env \<Rightarrow> keyrecord \<Rightarrow> 's tapping \<Rightarrow> bool \<times> keyrecord \<times> 's tapping" where
  "tap_reset env keyp st =
     (if IS_NOEVENT (event keyp) then (True, keyp, st)
      else if ev_pressed (event keyp) \<and> is_tap_record env keyp st then
        (True, keyp, waiting_buffer_scan_tap env
           (st\<lparr>tapping_key := keyp, world := call_tap_hint env keyp (world st)\<rparr>))
      else pass_on env keyp st)"

text \<open>The tapping key is down, its term runs and it is not settled.\<close>

definition tap_pending :: "'s tap_env \<Rightarrow> keyrecord \<Rightarrow> 's tapping \<Rightarrow> bool \<times> keyrecord \<times> 's tapping" where
  "tap_pending env keyp st =
     (let e = event keyp; typed = waiting_buffer_typed e st in
      if IS_TAPPING_RECORD keyp st \<and> \<not> ev_pressed e then
        (let st = process_tapping_key env (st\<lparr>tapping_key := set_count 1 (tapping_key st)\<rparr>)
         in (False, keyp\<lparr>tap := tap (tapping_key st)\<rparr>, st))
      else if \<not> ev_pressed e \<and> typed \<and> permissive_hold env (tapping_key st) (world st) then
        (False, keyp, end_tapping (process_tapping_key env st))
      else if \<not> ev_pressed e \<and> \<not> typed then
        (if retained (switch_action env (ev_key e) (world st)) (tap_count (tap keyp)) then (False, keyp, st)
         else pass_on env keyp st)
      else if ev_pressed e then
        (let st = st\<lparr>tapping_key := (tapping_key st)\<lparr>tap := (tap (tapping_key st))\<lparr>interrupted := True\<rparr>\<rparr>\<rparr>
         in (False, keyp, if hold_on_other_key_press env (tapping_key st) (world st)
                          then end_tapping (process_tapping_key env st) else st))
      else (False, keyp, st))"

text \<open>Another tap key goes down while the settled one is still down; one tapped repeatedly is released first.\<close>

definition last_tap_release :: "keyevent \<Rightarrow> keyrecord \<Rightarrow> keyrecord" where
  "last_tap_release e tk =
     \<lparr>event = \<lparr>ev_key = ev_key (event tk), ev_time = ev_time e, ev_type = ev_type (event tk), ev_pressed = False\<rparr>, tap = tap tk\<rparr>"

definition start_new_tap :: "'s tap_env \<Rightarrow> keyrecord \<Rightarrow> 's tapping \<Rightarrow> bool \<times> keyrecord \<times> 's tapping" where
  "start_new_tap env keyp st =
     (let st = (if tap_count (tap (tapping_key st)) > 1
                then snd (process_keyp env (last_tap_release (event keyp) (tapping_key st)) st) else st)
      in (True, keyp, waiting_buffer_scan_tap env (st\<lparr>tapping_key := keyp\<rparr>)))"

definition tap_settled :: "'s tap_env \<Rightarrow> bool \<Rightarrow> keyrecord \<Rightarrow> 's tapping \<Rightarrow> bool \<times> keyrecord \<times> 's tapping" where
  "tap_settled env within keyp st =
     (let e = event keyp in
      if IS_TAPPING_RECORD keyp st \<and> \<not> ev_pressed e then
        (case process_keyp env (keyp\<lparr>tap := tap (tapping_key st)\<rparr>) st of (k, st) \<Rightarrow>
           (True, k, if within then st\<lparr>tapping_key := k\<rparr> else end_tapping st))
      else if is_tap_record env keyp st \<and> ev_pressed e then start_new_tap env keyp st
      else pass_on env keyp st)"

text \<open>The tapping key was tapped and is up.\<close>

definition tap_released :: "'s tap_env \<Rightarrow> keyrecord \<Rightarrow> 's tapping \<Rightarrow> bool \<times> keyrecord \<times> 's tapping" where
  "tap_released env keyp st =
     (let e = event keyp; tk = tap (tapping_key st) in
      if ev_pressed e then
        if IS_TAPPING_RECORD keyp st then
          if WITHIN_QUICK_TAP_TERM env e st \<and> \<not> interrupted tk \<and> tap_count tk > 0 then
            (case process_keyp env (keyp\<lparr>tap := tk\<lparr>tap_count := if tap_count tk < 15 then tap_count tk + 1 else tap_count tk\<rparr>\<rparr>) st of
               (k, st) \<Rightarrow> (True, k, st\<lparr>tapping_key := k\<rparr>))
          else (True, keyp, st\<lparr>tapping_key := keyp\<rparr>)
        else if is_tap_record env keyp st then
          (True, keyp, waiting_buffer_scan_tap env (st\<lparr>tapping_key := keyp\<rparr>))
        else pass_on env keyp (st\<lparr>tapping_key := (tapping_key st)\<lparr>tap := tk\<lparr>interrupted := True\<rparr>\<rparr>\<rparr>)
      else pass_on env keyp st)"

definition process_tapping :: "'s tap_env \<Rightarrow> keyrecord \<Rightarrow> 's tapping \<Rightarrow> bool \<times> keyrecord \<times> 's tapping" where
  "process_tapping env keyp st =
     (let e = event keyp; tk = tapping_key st; within = WITHIN_TAPPING_TERM env e st in
      if IS_NOEVENT (event tk) then tap_reset env keyp st
      else if ev_pressed (event tk) then
        if within then
          if IS_NOEVENT e then (True, keyp, st)
          else if tap_count (tap tk) = 0 then tap_pending env keyp st
          else tap_settled env True keyp st
        else if tap_count (tap tk) = 0 then (False, keyp, end_tapping (process_tapping_key env st))
        else if IS_NOEVENT e then (True, keyp, st)
        else tap_settled env False keyp st
      else if within then
        if IS_NOEVENT e then (True, keyp, st) else tap_released env keyp st
      else (False, keyp, end_tapping st))"

text \<open>The loop over the waiting buffer; \<open>process_tapping\<close> works on the entry in place.  Fuel: the buffer holds at
  most seven entries.\<close>

fun drain_waiting_buffer :: "'s tap_env \<Rightarrow> nat \<Rightarrow> 's tapping \<Rightarrow> 's tapping" where
  "drain_waiting_buffer env 0 st = st"
| "drain_waiting_buffer env (Suc n) st =
     (if waiting_buffer_tail st = waiting_buffer_head st then st
      else let tail = waiting_buffer_tail st in
        case process_tapping env (waiting_buffer st ! tail) st of (consumed, k, st) \<Rightarrow>
          let st = st\<lparr>waiting_buffer := (waiting_buffer st)[tail := k]\<rparr>
          in if consumed then drain_waiting_buffer env n (st\<lparr>waiting_buffer_tail := (tail + 1) mod WAITING_BUFFER_SIZE\<rparr>)
             else st)"

definition action_tapping_process :: "'s tap_env \<Rightarrow> keyrecord \<Rightarrow> 's tapping \<Rightarrow> 's tapping" where
  "action_tapping_process env r st =
     (let st = (case process_tapping env r st of (consumed, k, st) \<Rightarrow>
                  if consumed then st
                  else case waiting_buffer_enq k st of (ok, st) \<Rightarrow>
                    if ok then st
                    else end_tapping (waiting_buffer_clear (st\<lparr>world := call_clear_keyboard env (world st)\<rparr>)))
      in drain_waiting_buffer env WAITING_BUFFER_SIZE st)"


text \<open>One event as \<open>action_exec\<close> hands it over: what it does to the rest of the keyboard first, then this machine.\<close>

definition tap_exec :: "'s tap_env \<Rightarrow> (u32 \<Rightarrow> keyevent \<Rightarrow> 's \<Rightarrow> 's) \<Rightarrow> u32 \<times> keyevent \<Rightarrow> 's tapping \<Rightarrow> 's tapping" where
  "tap_exec env prepare i st =
     action_tapping_process env \<lparr>event = snd i, tap = no_tap\<rparr> (st\<lparr>world := prepare (fst i) (snd i) (world st)\<rparr>)"

section \<open>The waiting buffer is a queue\<close>

definition buffer_ok :: "'s tapping \<Rightarrow> bool" where
  "buffer_ok st \<longleftrightarrow> ring_inv WAITING_BUFFER_SIZE (waiting_buffer st) (waiting_buffer_head st) (waiting_buffer_tail st)"

lemma buffer_indices_alt: "i < 8 \<Longrightarrow> buffer_indices i n = map (\<lambda>k. (i + k) mod 8) [0..<n]"
proof (induction n arbitrary: i)
  case (Suc n)
  have "map (\<lambda>k. ((i + 1) mod 8 + k) mod 8) [0..<n] = map ((\<lambda>k. (i + k) mod 8) \<circ> Suc) [0..<n]"
    by (simp add: mod_simps)
  then show ?case using Suc by (simp add: upt_conv_Cons map_Suc_upt [symmetric] del: upt_Suc)
qed simp

lemma queued_alt: "buffer_ok st \<Longrightarrow> queued st = map ((!) (waiting_buffer st)) (live_indices st)"
  by (simp add: queued_def ring_contents_def live_indices_def buffer_ok_def ring_inv_def buffer_indices_alt)

lemma live_indices_distinct: "buffer_ok st \<Longrightarrow> distinct (live_indices st) \<and> (\<forall>i \<in> set (live_indices st). i < 8)"
proof -
  assume "buffer_ok st"
  then have t: "waiting_buffer_tail st < 8" by (simp add: buffer_ok_def ring_inv_def)
  let ?n = "(waiting_buffer_head st + 8 - waiting_buffer_tail st) mod 8"
  have "inj_on (\<lambda>k. (waiting_buffer_tail st + k) mod 8) {0..<?n}"
  proof (rule inj_onI)
    fix a b assume "a \<in> {0..<?n}" "b \<in> {0..<?n}" and eq: "(waiting_buffer_tail st + a) mod 8 = (waiting_buffer_tail st + b) mod 8"
    then have "a < 8" "b < 8" by (auto intro: order.strict_trans)
    with eq t show "a = b" by (auto simp: mod_if split: if_splits)
  qed
  then show ?thesis using t by (simp add: live_indices_def buffer_indices_alt distinct_map)
qed

lemma typed_alt:
  "buffer_ok st \<Longrightarrow> waiting_buffer_typed e st \<longleftrightarrow> (\<exists>b \<in> set (queued st). ev_key e = ev_key (event b) \<and> ev_pressed e \<noteq> ev_pressed (event b))"
  by (auto simp: waiting_buffer_typed_def list_ex_iff queued_alt Let_def)

text \<open>Replacing an entry by one with the same event leaves the queued events.\<close>

lemma queued_update:
  assumes "buffer_ok st" and "event r = event (waiting_buffer st ! i)"
  defines "st' \<equiv> st\<lparr>waiting_buffer := (waiting_buffer st)[i := r]\<rparr>"
  shows "buffer_ok st'" and "map event (queued st') = map event (queued st)"
    and "\<forall>x \<in> set (queued st'). x \<in> set (queued st) \<or> x = r"
proof -
  have len: "length (waiting_buffer st) = 8" using assms(1) by (simp add: buffer_ok_def ring_inv_def)
  show ok: "buffer_ok st'" using assms(1) by (simp add: buffer_ok_def ring_inv_def st'_def)
  have li: "live_indices st' = live_indices st" by (simp add: live_indices_def st'_def)
  show "map event (queued st') = map event (queued st)"
    unfolding queued_alt [OF ok] queued_alt [OF assms(1)] li
    using assms(2) live_indices_distinct [OF assms(1)] len by (auto simp: st'_def nth_list_update_if)
  show "\<forall>x \<in> set (queued st'). x \<in> set (queued st) \<or> x = r"
    unfolding queued_alt [OF ok] queued_alt [OF assms(1)] li
    using live_indices_distinct [OF assms(1)] len by (auto simp: st'_def nth_list_update_if)
qed

lemma ring_pop_update:
  assumes "ring_inv n buf h t" and "h \<noteq> t"
  shows "ring_contents n (buf[t := x]) h (Suc t mod n) = ring_contents n buf h (Suc t mod n)"
proof -
  from assms have b: "h < n" "t < n" "length buf = n" by (auto simp: ring_inv_def)
  let ?d = "(h + n - Suc t mod n) mod n"
  have "t \<noteq> (Suc t mod n + k) mod n" if "k < ?d" for k
  proof -
    have "Suc t mod n < n" using b by simp
    then have "k < n - 1" using that b assms(2) by (auto simp: ring_distance mod_Suc split: if_splits)
    then show ?thesis using b by (auto simp: mod_Suc mod_if)
  qed
  then show ?thesis by (auto simp: ring_contents_def nth_list_update)
qed

lemma enq_queued:
  assumes "buffer_ok st" and "waiting_buffer_enq r st = (ok, st')"
  shows "buffer_ok st' \<and> tapping_key st' = tapping_key st \<and> world st' = world st
    \<and> (ok \<longleftrightarrow> IS_NOEVENT (event r) \<or> length (queued st) < 7)
    \<and> queued st' = (if ok \<and> \<not> IS_NOEVENT (event r) then queued st @ [r] else queued st)"
  using assms ring_push [of 8 "waiting_buffer st" "waiting_buffer_head st" "waiting_buffer_tail st" r]
    ring_inv_push [of 8 "waiting_buffer st" "waiting_buffer_head st" "waiting_buffer_tail st" r]
    ring_full_iff [of 8 "waiting_buffer st" "waiting_buffer_head st" "waiting_buffer_tail st"]
    ring_length_bound [of 8 "waiting_buffer st" "waiting_buffer_head st" "waiting_buffer_tail st"]
  by (auto simp: waiting_buffer_enq_def buffer_ok_def queued_def split: if_splits)

section \<open>No event is lost\<close>

text \<open>\<open>accounted old new\<close>: the presses of \<open>old\<close> are those of \<open>new\<close> in the same order, and every event of \<open>old\<close> is in
  \<open>new\<close>, which may hold further releases.\<close>

definition accounted :: "keyevent list \<Rightarrow> keyevent list \<Rightarrow> bool" where
  "accounted old new \<longleftrightarrow> filter ev_pressed new = filter ev_pressed old \<and>
     (\<exists>X. (\<forall>x \<in> set X. \<not> ev_pressed x) \<and> mset new = mset old + mset X)"

lemma accounted_refl [simp]: "accounted xs xs"
  unfolding accounted_def by (intro conjI exI [of _ "[]"]) simp_all

lemma accounted_trans: "accounted xs ys \<Longrightarrow> accounted ys zs \<Longrightarrow> accounted xs zs"
proof -
  assume "accounted xs ys" "accounted ys zs"
  then obtain X Y where "\<forall>x \<in> set X. \<not> ev_pressed x" "mset ys = mset xs + mset X"
      "\<forall>x \<in> set Y. \<not> ev_pressed x" "mset zs = mset ys + mset Y" and p: "filter ev_pressed zs = filter ev_pressed xs"
    by (auto simp: accounted_def)
  then have "(\<forall>x \<in> set (X @ Y). \<not> ev_pressed x) \<and> mset zs = mset xs + mset (X @ Y)" by auto
  with p show ?thesis unfolding accounted_def by blast
qed

lemma accounted_append: "accounted xs ys \<Longrightarrow> accounted (xs @ zs) (ys @ zs)"
  by (auto simp: accounted_def)

lemma accounted_extra: "\<forall>x \<in> set X. \<not> ev_pressed x \<Longrightarrow> accounted (xs @ zs) (xs @ X @ zs)"
  by (auto simp: accounted_def filter_empty_conv intro!: exI [of _ X])

lemma accounted_release: "\<not> ev_pressed e \<Longrightarrow> accounted (xs @ ys @ [e]) (xs @ e # ys)"
  unfolding accounted_def by (intro conjI exI [of _ "[]"]) simp_all

definition pending_key :: "'s tapping \<Rightarrow> keyevent list" where
  "pending_key st = (if ev_pressed (event (tapping_key st)) \<and> tap_count (tap (tapping_key st)) = 0 then [event (tapping_key st)] else [])"

definition tapping_ok :: "'s tapping \<Rightarrow> bool" where
  "tapping_ok st \<longleftrightarrow> buffer_ok st \<and> (IS_NOEVENT (event (tapping_key st)) \<longrightarrow> \<not> ev_pressed (event (tapping_key st))) \<and>
     (\<forall>r \<in> set (queued st). \<not> IS_NOEVENT (event r) \<and> (ev_pressed (event r) \<longrightarrow> tap_count (tap r) = 0))"

text \<open>What the machine still owes: the unsettled tapping key, then the buffer.\<close>

definition owed :: "'s tapping \<Rightarrow> keyevent list" where
  "owed st = pending_key st @ map event (queued st)"

definition real_events :: "keyevent \<Rightarrow> keyevent list" where
  "real_events e = (if IS_NOEVENT e then [] else [e])"

text \<open>The event just processed can go in front of the queue, so one more condition is needed for the order.\<close>

definition ready :: "'s tapping \<Rightarrow> bool" where
  "ready st \<longleftrightarrow> queued st = [] \<or> pending_key st \<noteq> []"

text \<open>Over a whole run: the buffer is never full when an event arrives, and \<open>P\<close> holds then.\<close>

fun calm_run :: "('s tapping \<Rightarrow> bool) \<Rightarrow> ('i \<Rightarrow> 's tapping \<Rightarrow> 's tapping) \<Rightarrow> 'i list \<Rightarrow> 's tapping \<Rightarrow> bool" where
  "calm_run P step [] st \<longleftrightarrow> True"
| "calm_run P step (i # is) st \<longleftrightarrow> P st \<and> length (queued st) < 7 \<and> calm_run P step is (step i st)"

text \<open>The laws \<open>process_record\<close> keeps: the record it is given is the next event processed, further ones are releases;
  a press stays a press of a settled key when it was one, and nothing becomes a press.\<close>

locale tap_client =
  fixes env :: "'s tap_env" and processed :: "'s \<Rightarrow> keyevent list" and prepare :: "u32 \<Rightarrow> keyevent \<Rightarrow> 's \<Rightarrow> 's"
  assumes record_processed: "call_process_record env r w = (r', w') \<Longrightarrow> \<not> IS_NOEVENT (event r) \<Longrightarrow>
      \<exists>X. processed w' = processed w @ event r # X \<and> (\<forall>x \<in> set X. \<not> ev_pressed x)"
    and record_press: "call_process_record env r w = (r', w') \<Longrightarrow> ev_pressed (event r') \<Longrightarrow>
      ev_pressed (event r) \<and> ev_type (event r') = ev_type (event r) \<and> (tap_count (tap r) \<noteq> 0 \<longrightarrow> tap_count (tap r') \<noteq> 0)"
    and record_extends: "call_process_record env r w = (r', w') \<Longrightarrow> \<exists>X. processed w' = processed w @ X"
    and hint_processed: "processed (call_tap_hint env r w) = processed w"
    and prepare_processed: "processed (prepare now e w) = processed w"
begin

lemma process_accounted:
  assumes "call_process_record env r w = (r', w')" and "\<not> IS_NOEVENT (event r)"
  shows "accounted (processed w @ event r # zs) (processed w' @ zs)"
proof -
  from record_processed [OF assms] obtain X where X: "processed w' = processed w @ event r # X" "\<forall>x \<in> set X. \<not> ev_pressed x" by blast
  then show ?thesis using accounted_extra [of X "processed w @ [event r]" zs] by simp
qed

text \<open>Running \<open>process_record\<close> on the tapping key settles it.\<close>

lemma process_tapping_key_steps:
  assumes "tapping_ok st" and "ev_pressed (event (tapping_key st))"
  shows "accounted (processed (world st) @ event (tapping_key st) # zs) (processed (world (process_tapping_key env st)) @ zs)"
    and "waiting_buffer (process_tapping_key env st) = waiting_buffer st"
    and "waiting_buffer_head (process_tapping_key env st) = waiting_buffer_head st"
    and "waiting_buffer_tail (process_tapping_key env st) = waiting_buffer_tail st"
    and "tap_count (tap (tapping_key st)) \<noteq> 0 \<Longrightarrow> pending_key (process_tapping_key env st) = []"
    and "ev_pressed (event (tapping_key (process_tapping_key env st))) \<Longrightarrow>
      \<not> IS_NOEVENT (event (tapping_key (process_tapping_key env st)))"
proof -
  obtain r w where pr: "call_process_record env (tapping_key st) (world st) = (r, w)" by fastforce
  have st': "process_tapping_key env st = st\<lparr>tapping_key := r, world := w\<rparr>" by (simp add: process_tapping_key_def pr)
  show "accounted (processed (world st) @ event (tapping_key st) # zs) (processed (world (process_tapping_key env st)) @ zs)"
    using process_accounted [OF pr] assms by (auto simp: st' tapping_ok_def)
  show "tap_count (tap (tapping_key st)) \<noteq> 0 \<Longrightarrow> pending_key (process_tapping_key env st) = []"
    using record_press [OF pr] by (auto simp: pending_key_def st')
  show "ev_pressed (event (tapping_key (process_tapping_key env st))) \<Longrightarrow>
      \<not> IS_NOEVENT (event (tapping_key (process_tapping_key env st)))"
    using record_press [OF pr] assms by (auto simp: st' tapping_ok_def IS_NOEVENT_def)
qed (simp_all add: process_tapping_key_def split: prod.splits)

definition queue_kept :: "'s tapping \<Rightarrow> 's tapping \<Rightarrow> bool" where
  "queue_kept st st' \<longleftrightarrow> waiting_buffer_head st' = waiting_buffer_head st \<and> waiting_buffer_tail st' = waiting_buffer_tail st
     \<and> map event (queued st') = map event (queued st)"

text \<open>One call: the state stays good, the queue keeps its events, and the event is accounted for.\<close>

definition step_ok :: "keyrecord \<Rightarrow> 's tapping \<Rightarrow> bool \<times> keyrecord \<times> 's tapping \<Rightarrow> bool" where
  "step_ok keyp st = (\<lambda>(consumed, k, st').
     tapping_ok st' \<and> queue_kept st st' \<and> (\<not> consumed \<longrightarrow> event k = event keyp \<and> (ev_pressed (event k) \<longrightarrow> tap k = tap keyp)) \<and>
     accounted (processed (world st) @ pending_key st @ (if IS_NOEVENT (event keyp) then [] else [event keyp]))
       (processed (world st') @ pending_key st' @ (if consumed \<or> IS_NOEVENT (event keyp) then [] else [event keyp])))"

lemma queue_kept_refl [simp]: "queue_kept st st"
  by (simp add: queue_kept_def)

lemma queued_cong:
  "waiting_buffer st' = waiting_buffer st \<Longrightarrow> waiting_buffer_head st' = waiting_buffer_head st \<Longrightarrow>
   waiting_buffer_tail st' = waiting_buffer_tail st \<Longrightarrow> queued st' = queued st \<and> buffer_ok st' = buffer_ok st \<and> queue_kept st st'"
  by (simp add: queued_def buffer_ok_def queue_kept_def)

text \<open>The scan settles a fresh tapping key when its release waits in the buffer.\<close>

lemma scan_tap_ok:
  assumes "tapping_ok st" and "waiting_buffer_scan_tap env st = st'"
  shows "tapping_ok st' \<and> queue_kept st st' \<and>
    accounted (processed (world st) @ pending_key st @ zs) (processed (world st') @ pending_key st' @ zs)"
proof (cases "tap_count (tap (tapping_key st)) > 0 \<or> \<not> ev_pressed (event (tapping_key st)) \<or> find (scan_candidate env st) (live_indices st) = None")
  case True
  then have "st' = st" using assms(2) by (auto simp: waiting_buffer_scan_tap_def)
  then show ?thesis using assms(1) by simp
next
  case False
  then obtain i where i: "find (scan_candidate env st) (live_indices st) = Some i" and pressed: "ev_pressed (event (tapping_key st))"
    and c0: "tap_count (tap (tapping_key st)) = 0" by (auto simp: word_gt_0)
  have cand: "scan_candidate env st i" "i \<in> set (live_indices st)" using i by (auto simp: find_Some_iff)
  define u where "u = st\<lparr>tapping_key := set_count 1 (tapping_key st), waiting_buffer := (waiting_buffer st)[i := set_count 1 (waiting_buffer st ! i)]\<rparr>"
  have st': "st' = process_tapping_key env u" using assms(2) False i by (auto simp: waiting_buffer_scan_tap_def u_def word_gt_0)
  have bok: "buffer_ok st" using assms(1) by (simp add: tapping_ok_def)
  note qu = queued_update [OF bok, of "set_count 1 (waiting_buffer st ! i)" i]
  have "queued u = queued (st\<lparr>waiting_buffer := (waiting_buffer st)[i := set_count 1 (waiting_buffer st ! i)]\<rparr>)"
    "buffer_ok u = buffer_ok (st\<lparr>waiting_buffer := (waiting_buffer st)[i := set_count 1 (waiting_buffer st ! i)]\<rparr>)"
    by (simp_all add: u_def queued_def buffer_ok_def)
  with qu have u: "buffer_ok u" "map event (queued u) = map event (queued st)"
    "\<forall>x \<in> set (queued u). x \<in> set (queued st) \<or> x = set_count 1 (waiting_buffer st ! i)" by (simp_all add: set_count_def)
  have ok: "tapping_ok u"
    using assms(1) u cand(1) pressed by (auto simp: tapping_ok_def u_def set_count_def scan_candidate_def Let_def)
  have key: "event (tapping_key u) = event (tapping_key st)" "tap_count (tap (tapping_key u)) = 1" "world u = world st"
    by (simp_all add: u_def set_count_def)
  note p = process_tapping_key_steps [OF ok, unfolded key, OF pressed]
  have q: "queued st' = queued u" "buffer_ok st' = buffer_ok u" using queued_cong [OF p(2,3,4)] by (simp_all add: st')
  have pend: "pending_key st = [event (tapping_key st)]" "pending_key st' = []" using pressed c0 p(5) by (simp_all add: pending_key_def st')
  show ?thesis
    using ok u p(1) [of zs] p(3,4,6) q pend by (auto simp: tapping_ok_def queue_kept_def u_def st')
qed

lemma process_keyp_ok:
  assumes "tapping_ok st" and "process_keyp env keyp st = (k, st')" and "\<not> IS_NOEVENT (event keyp)"
  shows "\<exists>w. st' = st\<lparr>world := w\<rparr>" and "tapping_ok st'" and "queue_kept st st'" and "pending_key st' = pending_key st"
    and "accounted (processed (world st) @ event keyp # zs) (processed (world st') @ zs)"
    and "ev_pressed (event k) \<Longrightarrow> ev_pressed (event keyp) \<and> ev_type (event k) = ev_type (event keyp) \<and>
           (tap_count (tap keyp) \<noteq> 0 \<longrightarrow> tap_count (tap k) \<noteq> 0)"
proof -
  obtain w where pr: "call_process_record env keyp (world st) = (k, w)" and st': "st' = st\<lparr>world := w\<rparr>"
    using assms(2) by (auto simp: process_keyp_def split: prod.splits)
  show "\<exists>w. st' = st\<lparr>world := w\<rparr>" using st' by blast
  show "tapping_ok st'" "queue_kept st st'" "pending_key st' = pending_key st"
    using assms(1) queued_cong [of st' st] by (auto simp: st' tapping_ok_def pending_key_def)
  show "accounted (processed (world st) @ event keyp # zs) (processed (world st') @ zs)" using process_accounted [OF pr] assms(3) by (simp add: st')
  show "ev_pressed (event k) \<Longrightarrow> ev_pressed (event keyp) \<and> ev_type (event k) = ev_type (event keyp) \<and>
     (tap_count (tap keyp) \<noteq> 0 \<longrightarrow> tap_count (tap k) \<noteq> 0)" using record_press [OF pr] by blast
qed

lemma tapping_ok_key:
  assumes "tapping_ok st" and "IS_NOEVENT (event r) \<longrightarrow> \<not> ev_pressed (event r)"
  shows "tapping_ok (st\<lparr>tapping_key := r\<rparr>)" and "queue_kept st (st\<lparr>tapping_key := r\<rparr>)"
  using assms queued_cong [of "st\<lparr>tapping_key := r\<rparr>" st] by (auto simp: tapping_ok_def)

lemma queue_kept_trans: "queue_kept s t \<Longrightarrow> queue_kept t u \<Longrightarrow> queue_kept s u"
  by (simp add: queue_kept_def)

lemma pass_on_ok:
  assumes "tapping_ok st" and "\<not> IS_NOEVENT (event keyp)" and "pending_key st = [] \<or> \<not> ev_pressed (event keyp)"
  shows "step_ok keyp st (pass_on env keyp st)"
proof -
  obtain k st' where p: "process_keyp env keyp st = (k, st')" by fastforce
  note ok = process_keyp_ok [OF assms(1) p assms(2)]
  have "accounted (processed (world st) @ pending_key st @ [event keyp]) (processed (world st) @ event keyp # pending_key st)"
    using assms(3) accounted_release [of "event keyp" "processed (world st)" "pending_key st"] by (cases "pending_key st = []") auto
  then have "accounted (processed (world st) @ pending_key st @ [event keyp]) (processed (world st') @ pending_key st)"
    using ok(5) [of "pending_key st"] accounted_trans by blast
  then show ?thesis using ok(2-4) assms(2) by (simp add: step_ok_def pass_on_def p)
qed

text \<open>A fresh key becomes the tapping key.\<close>

lemma new_tapping_key:
  assumes "tapping_ok st" and "\<not> IS_NOEVENT (event keyp)" and "ev_pressed (event keyp)" and "tap_count (tap keyp) = 0"
    and "pending_key st = []"
  shows "accounted (processed (world st) @ pending_key st @ [event keyp] @ zs)
     (processed (world st) @ pending_key (st\<lparr>tapping_key := keyp\<rparr>) @ zs)"
  using assms by (simp add: pending_key_def)

lemma start_scan_ok:
  assumes "tapping_ok st" and "\<not> IS_NOEVENT (event keyp)" and "ev_pressed (event keyp)" and "tap_count (tap keyp) = 0"
    and "pending_key st = []" and "processed w = processed (world st)"
  shows "step_ok keyp st (True, keyp, waiting_buffer_scan_tap env (st\<lparr>tapping_key := keyp, world := w\<rparr>))"
proof -
  define u where "u = st\<lparr>tapping_key := keyp, world := w\<rparr>"
  have u: "tapping_ok u" "queue_kept st u" using assms(1,2) queued_cong [of u st] by (auto simp: tapping_ok_def u_def)
  have "pending_key u = [event keyp]" "processed (world u) = processed (world st)" using assms(3,4,6) by (simp_all add: pending_key_def u_def)
  then show ?thesis
    using scan_tap_ok [OF u(1) refl, of "[]"] u(2) assms(2,5) queue_kept_trans by (auto simp: step_ok_def u_def [symmetric])
qed

lemma tick_ok: "tapping_ok st \<Longrightarrow> IS_NOEVENT (event keyp) \<Longrightarrow> step_ok keyp st (True, keyp, st)"
  by (simp add: step_ok_def)

lemma tap_reset_ok:
  assumes "tapping_ok st" and "pending_key st = []" and "ev_pressed (event keyp) \<longrightarrow> tap_count (tap keyp) = 0"
  shows "step_ok keyp st (tap_reset env keyp st)"
  using assms start_scan_ok [of st keyp] pass_on_ok [of st keyp] hint_processed
  by (auto simp: tap_reset_def tick_ok)

lemma tap_pending_ok:
  assumes "tapping_ok st" and "\<not> IS_NOEVENT (event keyp)" and "ev_pressed (event (tapping_key st))" and "tap_count (tap (tapping_key st)) = 0"
  shows "step_ok keyp st (tap_pending env keyp st)"
proof -
  have pend: "pending_key st = [event (tapping_key st)]" using assms(3,4) by (simp add: pending_key_def)
  have settle: "tapping_ok (process_tapping_key env u) \<and> queue_kept st (process_tapping_key env u) \<and>
      accounted (processed (world st) @ event (tapping_key st) # zs) (processed (world (process_tapping_key env u)) @ zs)
      \<and> (tap_count (tap (tapping_key u)) \<noteq> 0 \<longrightarrow> pending_key (process_tapping_key env u) = [])"
    if "u = st\<lparr>tapping_key := (tapping_key st)\<lparr>tap := t\<rparr>\<rparr>" for u t zs
  proof -
    have u: "tapping_ok u" "queue_kept st u" "ev_pressed (event (tapping_key u))"
      using assms(1,3) tapping_ok_key [of st "(tapping_key st)\<lparr>tap := t\<rparr>"] that by (auto simp: tapping_ok_def)
    note p = process_tapping_key_steps [OF u(1,3)]
    note q = queued_cong [OF p(2-4)]
    show ?thesis using u p q that queue_kept_trans by (auto simp: tapping_ok_def)
  qed
  have tapped: "step_ok keyp st (False, keyp\<lparr>tap := t\<rparr>, process_tapping_key env (st\<lparr>tapping_key := set_count 1 (tapping_key st)\<rparr>))"
    if "\<not> ev_pressed (event keyp)" for t
    using settle [of "st\<lparr>tapping_key := set_count 1 (tapping_key st)\<rparr>" _ "[event keyp]"] assms(2) pend that
    by (auto simp: step_ok_def set_count_def)
  have held: "step_ok keyp st (False, keyp, end_tapping (process_tapping_key env u))"
    if u: "u = st\<lparr>tapping_key := (tapping_key st)\<lparr>tap := t\<rparr>\<rparr>" for u t
    using settle [OF u, of "[event keyp]"] tapping_ok_key [of "process_tapping_key env u" no_record] assms(2) pend queue_kept_trans
    by (auto simp: step_ok_def end_tapping_def pending_key_def no_record_def)
  have same: "step_ok keyp st (False, keyp, st\<lparr>tapping_key := (tapping_key st)\<lparr>tap := (tap (tapping_key st))\<lparr>interrupted := x\<rparr>\<rparr>\<rparr>)" for x
    using assms tapping_ok_key [of st "(tapping_key st)\<lparr>tap := (tap (tapping_key st))\<lparr>interrupted := x\<rparr>\<rparr>"]
    by (auto simp: step_ok_def pending_key_def tapping_ok_def)
  have stay: "step_ok keyp st (False, keyp, st)" using assms(1,2) by (simp add: step_ok_def)
  show ?thesis
    using tapped held [of st "tap (tapping_key st)"] held same stay pass_on_ok [OF assms(1,2)] by (auto simp: tap_pending_def Let_def)
qed

lemma start_new_tap_ok:
  assumes "tapping_ok st" and "\<not> IS_NOEVENT (event keyp)" and "ev_pressed (event keyp)" and "tap_count (tap keyp) = 0"
    and "pending_key st = []" and "\<not> IS_NOEVENT (event (tapping_key st))"
  shows "step_ok keyp st (start_new_tap env keyp st)"
proof -
  define rel where "rel = last_tap_release (event keyp) (tapping_key st)"
  obtain k u where u: "process_keyp env rel st = (k, u)" by fastforce
  have "\<not> IS_NOEVENT (event rel)" using assms(6) by (simp add: rel_def last_tap_release_def IS_NOEVENT_def)
  note ok = process_keyp_ok [OF assms(1) u this]
  have direct: "step_ok keyp v (True, keyp, waiting_buffer_scan_tap env (v\<lparr>tapping_key := keyp\<rparr>))"
    if "tapping_ok v" "pending_key v = []" for v
    using start_scan_ok [OF that(1) assms(2-4) that(2), of "world v"] by simp
  have "step_ok keyp st (True, keyp, waiting_buffer_scan_tap env (u\<lparr>tapping_key := keyp\<rparr>))"
  proof -
    have d: "step_ok keyp u (True, keyp, waiting_buffer_scan_tap env (u\<lparr>tapping_key := keyp\<rparr>))"
      using direct ok(2,4) assms(5) by simp
    have "accounted (processed (world st) @ [event keyp]) (processed (world st) @ [event rel] @ [event keyp])"
      using accounted_extra [of "[event rel]" "processed (world st)" "[event keyp]"] by (simp add: rel_def last_tap_release_def)
    then have "accounted (processed (world st) @ [event keyp]) (processed (world u) @ [event keyp])"
      using ok(5) [of "[event keyp]"] accounted_trans by fastforce
    then show ?thesis using d ok(3,4) assms(2,5) accounted_trans queue_kept_trans by (fastforce simp: step_ok_def)
  qed
  then show ?thesis using direct [OF assms(1,5)] u by (simp add: start_new_tap_def rel_def)
qed

lemma keyp_tapping_key:
  assumes "tapping_ok st" and "\<not> IS_NOEVENT (event keyp)" and "pending_key st = []"
    and "process_keyp env (keyp\<lparr>tap := t\<rparr>) st = (k, u)" and "ev_pressed (event keyp) \<longrightarrow> tap_count t \<noteq> 0"
  shows "step_ok keyp st (True, k, u\<lparr>tapping_key := k\<rparr>)" and "step_ok keyp st (True, k, end_tapping u)"
proof -
  have nk: "\<not> IS_NOEVENT (event (keyp\<lparr>tap := t\<rparr>))" using assms(2) by simp
  note ok = process_keyp_ok [OF assms(1,4) nk]
  have k: "IS_NOEVENT (event k) \<longrightarrow> \<not> ev_pressed (event k)" using ok(6) assms(2) by (auto simp: IS_NOEVENT_def)
  have p: "pending_key (u\<lparr>tapping_key := k\<rparr>) = []" "pending_key (end_tapping u) = []"
    using ok(6) assms(5) by (auto simp: pending_key_def end_tapping_def no_record_def)
  have a: "accounted (processed (world st) @ [event keyp]) (processed (world u))" using ok(5) [of "[]"] by simp
  have n: "IS_NOEVENT (event no_record) \<longrightarrow> \<not> ev_pressed (event no_record)" by (simp add: no_record_def)
  note kept = queue_kept_trans [OF ok(3) tapping_ok_key(2) [OF ok(2) k]] queue_kept_trans [OF ok(3) tapping_ok_key(2) [OF ok(2) n]]
  show "step_ok keyp st (True, k, u\<lparr>tapping_key := k\<rparr>)"
    using tapping_ok_key(1) [OF ok(2) k] kept(1) a p(1) assms(2,3) by (simp add: step_ok_def)
  show "step_ok keyp st (True, k, end_tapping u)"
    using tapping_ok_key(1) [OF ok(2) n] kept(2) a p(2) assms(2,3) by (simp add: step_ok_def end_tapping_def)
qed

lemma tap_settled_ok:
  assumes "tapping_ok st" and "\<not> IS_NOEVENT (event keyp)" and "pending_key st = []" and "ev_pressed (event keyp) \<longrightarrow> tap_count (tap keyp) = 0"
    and "\<not> IS_NOEVENT (event (tapping_key st))"
  shows "step_ok keyp st (tap_settled env within keyp st)"
proof -
  obtain k u where u: "process_keyp env (keyp\<lparr>tap := tap (tapping_key st)\<rparr>) st = (k, u)" by fastforce
  show ?thesis
    using keyp_tapping_key [OF assms(1-3) u] start_new_tap_ok [OF assms(1,2)] pass_on_ok [OF assms(1,2)] assms(3-5)
    by (auto simp: tap_settled_def Let_def u)
qed

lemma if_cases: "(P \<Longrightarrow> R a) \<Longrightarrow> (\<not> P \<Longrightarrow> R b) \<Longrightarrow> R (if P then a else b)"
  by simp

lemma tap_released_ok:
  assumes "tapping_ok st" and "\<not> IS_NOEVENT (event keyp)" and "\<not> ev_pressed (event (tapping_key st))"
    and "ev_pressed (event keyp) \<longrightarrow> tap_count (tap keyp) = 0"
  shows "step_ok keyp st (tap_released env keyp st)"
proof -
  have pend: "pending_key st = []" using assms(3) by (simp add: pending_key_def)
  let ?n = "\<lambda>c :: 4 word. if c < 15 then c + 1 else c"
  have n: "?n c \<noteq> 0" if "c > 0" for c
  proof (cases "c < 15")
    case True
    then have "unat c < 15" by (simp add: word_less_nat_alt)
    then have "unat (c + 1) = unat c + 1" by (simp add: unat_word_ariths)
    then have "c + 1 \<noteq> 0" by (metis add_is_0 unat_0 zero_neq_one)
    then show ?thesis using True by simp
  qed (use that in auto)
  obtain k u where u: "process_keyp env (keyp\<lparr>tap := (tap (tapping_key st))\<lparr>tap_count := ?n (tap_count (tap (tapping_key st)))\<rparr>\<rparr>) st = (k, u)"
    by fastforce
  have sequential: "step_ok keyp st (True, k, u\<lparr>tapping_key := k\<rparr>)" if "tap_count (tap (tapping_key st)) > 0"
    using keyp_tapping_key(1) [OF assms(1,2) pend u] n that by simp
  have again: "step_ok keyp st (True, keyp, st\<lparr>tapping_key := keyp\<rparr>)" if "ev_pressed (event keyp)"
    using tapping_ok_key [OF assms(1), of keyp] assms(2,4) that pend by (auto simp: step_ok_def pending_key_def)
  have other: "step_ok keyp st (True, keyp, waiting_buffer_scan_tap env (st\<lparr>tapping_key := keyp\<rparr>))" if "ev_pressed (event keyp)"
    using start_scan_ok [OF assms(1,2) that _ pend, of "world st"] assms(4) that by simp
  have inter: "step_ok keyp st (pass_on env keyp (st\<lparr>tapping_key := (tapping_key st)\<lparr>tap := t\<rparr>\<rparr>))" for t
  proof -
    let ?v = "st\<lparr>tapping_key := (tapping_key st)\<lparr>tap := t\<rparr>\<rparr>"
    have "tapping_ok ?v" "queue_kept st ?v" "pending_key ?v = []"
      using tapping_ok_key [OF assms(1), of "(tapping_key st)\<lparr>tap := t\<rparr>"] assms(3) by (auto simp: pending_key_def)
    then show ?thesis
      using pass_on_ok [of ?v keyp] assms(2) pend queue_kept_trans [of st ?v "snd (snd (pass_on env keyp ?v))"]
      by (simp add: step_ok_def case_prod_beta)
  qed
  show ?thesis
    unfolding tap_released_def Let_def u prod.case
    using sequential again other inter pass_on_ok [OF assms(1,2)] pend by (auto split del: if_split intro: if_cases)
qed

lemma process_tapping_ok:
  assumes "tapping_ok st" and "ev_pressed (event keyp) \<longrightarrow> tap_count (tap keyp) = 0"
  shows "step_ok keyp st (process_tapping env keyp st)"
proof -
  let ?tk = "tapping_key st"
  have timeout: "step_ok keyp st (False, keyp, end_tapping (process_tapping_key env st))"
    if "ev_pressed (event ?tk)" "tap_count (tap ?tk) = 0"
  proof -
    note p = process_tapping_key_steps [OF assms(1) that(1)]
    have "tapping_ok (end_tapping (process_tapping_key env st))" "queue_kept st (end_tapping (process_tapping_key env st))"
      using queued_cong [of "end_tapping (process_tapping_key env st)" st] assms(1) p(2-4)
      by (auto simp: tapping_ok_def end_tapping_def no_record_def)
    then show ?thesis
      using p(1) [of "[event keyp]"] p(1) [of "[]"] that by (auto simp: step_ok_def end_tapping_def pending_key_def no_record_def)
  qed
  have over: "step_ok keyp st (False, keyp, end_tapping st)" if "\<not> ev_pressed (event ?tk)"
    using tapping_ok_key [OF assms(1), of no_record] that by (auto simp: step_ok_def end_tapping_def pending_key_def no_record_def)
  have none: "pending_key st = []" if "IS_NOEVENT (event ?tk) \<or> \<not> ev_pressed (event ?tk) \<or> tap_count (tap ?tk) \<noteq> 0"
    using assms(1) that by (auto simp: tapping_ok_def pending_key_def)
  consider "IS_NOEVENT (event ?tk)" | "ev_pressed (event ?tk)" "tap_count (tap ?tk) = 0" "\<not> IS_NOEVENT (event ?tk)"
    | "ev_pressed (event ?tk)" "tap_count (tap ?tk) \<noteq> 0" "\<not> IS_NOEVENT (event ?tk)" | "\<not> ev_pressed (event ?tk)" "\<not> IS_NOEVENT (event ?tk)"
    by blast
  then show ?thesis
  proof cases
    case 1
    then show ?thesis using tap_reset_ok [OF assms(1) none assms(2)] by (simp add: process_tapping_def)
  next
    case 2
    then show ?thesis using timeout tick_ok [OF assms(1)] tap_pending_ok [OF assms(1)] by (auto simp: process_tapping_def Let_def)
  next
    case 3
    then show ?thesis using tick_ok [OF assms(1)] tap_settled_ok [OF assms(1) _ none assms(2) 3(3)] by (auto simp: process_tapping_def Let_def)
  next
    case 4
    then show ?thesis using over tick_ok [OF assms(1)] tap_released_ok [OF assms(1) _ _ assms(2)] by (auto simp: process_tapping_def Let_def)
  qed
qed

lemma drain_ok:
  assumes "tapping_ok st"
  shows "tapping_ok (drain_waiting_buffer env n st) \<and>
    accounted (processed (world st) @ pending_key st @ map event (queued st))
      (processed (world (drain_waiting_buffer env n st)) @ pending_key (drain_waiting_buffer env n st)
        @ map event (queued (drain_waiting_buffer env n st)))"
  using assms
proof (induction n arbitrary: st)
  case (Suc n)
  show ?case
  proof (cases "waiting_buffer_tail st = waiting_buffer_head st")
    case False
    let ?t = "waiting_buffer_tail st"
    define r where "r = waiting_buffer st ! ?t"
    obtain consumed k u where p: "process_tapping env r st = (consumed, k, u)" by (cases "process_tapping env r st")
    have bok: "buffer_ok st" using Suc.prems by (simp add: tapping_ok_def)
    have pop: "queued st = r # ring_contents 8 (waiting_buffer st) (waiting_buffer_head st) (Suc ?t mod 8)"
      using ring_pop [of 8 "waiting_buffer st" "waiting_buffer_head st" ?t] bok False by (simp add: queued_def buffer_ok_def r_def)
    have r: "\<not> IS_NOEVENT (event r)" "ev_pressed (event r) \<longrightarrow> tap_count (tap r) = 0"
      using Suc.prems pop by (auto simp: tapping_ok_def)
    note s = process_tapping_ok [OF Suc.prems r(2), unfolded p step_ok_def, simplified]
    have kept: "waiting_buffer_head u = waiting_buffer_head st" "waiting_buffer_tail u = ?t" "map event (queued u) = map event (queued st)"
      and uok: "buffer_ok u" "tapping_ok u" using s by (auto simp: queue_kept_def tapping_ok_def)
    have popu: "queued u = waiting_buffer u ! ?t # ring_contents 8 (waiting_buffer u) (waiting_buffer_head u) (Suc ?t mod 8)"
      using ring_pop [of 8 "waiting_buffer u" "waiting_buffer_head u" ?t] uok(1) False kept by (simp add: queued_def buffer_ok_def)
    have head: "event (waiting_buffer u ! ?t) = event r" using kept(3) pop popu by simp
    define v where "v = u\<lparr>waiting_buffer := (waiting_buffer u)[?t := k]\<rparr>"
    have acc: "accounted (processed (world st) @ pending_key st @ event r # zs)
        (processed (world u) @ pending_key u @ (if consumed then zs else event r # zs))" for zs
      using s accounted_append [of "processed (world st) @ pending_key st @ [event r]" "processed (world u) @ pending_key u" zs]
        accounted_append [of "processed (world st) @ pending_key st @ [event r]" "processed (world u) @ pending_key u @ [event r]" zs] r(1)
      by (cases consumed) simp_all
    show ?thesis
    proof (cases consumed)
      case True
      define w where "w = v\<lparr>waiting_buffer_tail := (?t + 1) mod 8\<rparr>"
      have "ring_contents 8 ((waiting_buffer u)[?t := k]) (waiting_buffer_head u) (Suc ?t mod 8) =
          ring_contents 8 (waiting_buffer u) (waiting_buffer_head u) (Suc ?t mod 8)"
        using ring_pop_update [of 8 "waiting_buffer u" "waiting_buffer_head u" ?t] uok(1) False kept(1,2) by (simp add: buffer_ok_def)
      then have q: "queued w = ring_contents 8 (waiting_buffer u) (waiting_buffer_head u) (Suc ?t mod 8)"
        by (simp add: w_def v_def queued_def)
      have "buffer_ok w" using uok(1) kept(2) by (simp add: w_def v_def buffer_ok_def ring_inv_def)
      then have w: "tapping_ok w" using uok(2) popu q by (auto simp: tapping_ok_def w_def v_def)
      have wu: "pending_key w = pending_key u" "world w = world u" by (simp_all add: w_def v_def pending_key_def)
      have "map event (queued w) = tl (map event (queued st))" unfolding kept(3) [symmetric] popu q by simp
      then have "accounted (processed (world st) @ pending_key st @ map event (queued st)) (processed (world w) @ pending_key w @ map event (queued w))"
        using acc [of "map event (queued w)"] True pop wu by simp
      moreover have "drain_waiting_buffer env (Suc n) st = drain_waiting_buffer env n w"
        using False True p by (simp add: w_def v_def Let_def r_def [symmetric])
      ultimately show ?thesis using Suc.IH [OF w] accounted_trans by auto
    next
      case stop: False
      have "event k = event (waiting_buffer u ! ?t)" using s stop head by simp
      note qu = queued_update [OF uok(1) this, folded v_def]
      have k: "\<not> IS_NOEVENT (event k)" "ev_pressed (event k) \<longrightarrow> tap_count (tap k) = 0" using s stop r by auto
      have vu: "pending_key v = pending_key u" "world v = world u" by (simp_all add: v_def pending_key_def)
      have v: "tapping_ok v" using uok(2) qu k by (auto simp: tapping_ok_def v_def)
      have "accounted (processed (world st) @ pending_key st @ map event (queued st)) (processed (world v) @ pending_key v @ map event (queued v))"
        using acc [of "map event (tl (queued st))"] stop pop qu(2) kept(3) vu by simp
      moreover have "drain_waiting_buffer env (Suc n) st = v" using False stop p by (simp add: v_def Let_def r_def [symmetric])
      ultimately show ?thesis using v by simp
    qed
  qed (use Suc.prems in simp)
qed simp

lemma pending_keeps_presses:
  assumes "tapping_ok st" and "pending_key st \<noteq> []" and "process_tapping env r st = (True, k, st')"
  shows "IS_NOEVENT (event r) \<or> \<not> ev_pressed (event r)"
proof -
  have "ev_pressed (event (tapping_key st))" "tap_count (tap (tapping_key st)) = 0" "\<not> IS_NOEVENT (event (tapping_key st))"
    using assms(1,2) by (auto simp: pending_key_def tapping_ok_def split: if_splits)
  then show ?thesis using assms(3) by (auto simp: process_tapping_def tap_pending_def Let_def split: if_splits)
qed

lemma action_tapping_ok:
  assumes "tapping_ok st" and "length (queued st) < 7" and "tap r = no_tap" and "st' = action_tapping_process env r st"
  shows "tapping_ok st' \<and> (\<exists>mid. accounted mid (processed (world st') @ owed st') \<and>
      mset mid = mset (processed (world st) @ owed st @ real_events (event r)) \<and>
      (ready st \<longrightarrow> accounted (processed (world st) @ owed st @ real_events (event r)) mid))"
proof -
  let ?P = "processed (world st)" and ?K = "pending_key st" and ?Q = "map event (queued st)" and ?R = "real_events (event r)"
  obtain consumed k u where p: "process_tapping env r st = (consumed, k, u)" by (cases "process_tapping env r st")
  have "ev_pressed (event r) \<longrightarrow> tap_count (tap r) = 0" using assms(3) by (simp add: no_tap_def)
  note s = process_tapping_ok [OF assms(1) this, unfolded p step_ok_def, simplified]
  have qu: "map event (queued u) = ?Q" using s by (simp add: queue_kept_def)
  show ?thesis
  proof (cases consumed)
    case True
    have "accounted (?P @ ?K @ ?R) (processed (world u) @ pending_key u)" using s True by (simp add: real_events_def)
    from accounted_append [OF this, of ?Q] have "accounted (?P @ ?K @ ?R @ ?Q) (processed (world u) @ owed u)" by (simp add: owed_def qu)
    moreover have "st' = drain_waiting_buffer env 8 u" using assms(4) True p by (simp add: action_tapping_process_def)
    moreover have "accounted (?P @ ?K @ ?Q @ ?R) (?P @ ?K @ ?R @ ?Q)" if "ready st"
    proof (cases "queued st = []")
      case False
      then have "?R = [] \<or> \<not> ev_pressed (event r)"
        using that pending_keeps_presses [OF assms(1)] p True by (auto simp: ready_def real_events_def)
      then show ?thesis using accounted_release [of "event r" "?P @ ?K" ?Q] by (cases "?R = []") (auto simp: real_events_def)
    qed simp
    moreover have "tapping_ok u" using s by simp
    ultimately show ?thesis using drain_ok [of u 8] accounted_trans
      by (intro conjI exI [of _ "?P @ ?K @ ?R @ ?Q"]) (auto simp: owed_def)
  next
    case False
    obtain ok v where e: "waiting_buffer_enq k u = (ok, v)" by fastforce
    have "length (queued u) < 7" using assms(2) arg_cong [OF qu, of length] by simp
    then have v: "ok" "buffer_ok v" "tapping_key v = tapping_key u" "world v = world u"
      "queued v = (if IS_NOEVENT (event k) then queued u else queued u @ [k])"
      using enq_queued [OF _ e] s by (auto simp: tapping_ok_def)
    have k: "event k = event r" "ev_pressed (event k) \<longrightarrow> tap_count (tap k) = 0" using s False assms(3) by (auto simp: no_tap_def)
    have vok: "tapping_ok v" using s v k by (auto simp: tapping_ok_def)
    have "accounted (?P @ ?K) (processed (world u) @ pending_key u)"
    proof -
      have "accounted (?P @ ?K @ ?R) (processed (world u) @ pending_key u @ ?R)" using s False by (simp add: real_events_def)
      then show ?thesis unfolding accounted_def by auto
    qed
    from accounted_append [OF this, of "?Q @ ?R"] have "accounted (?P @ ?K @ ?Q @ ?R) (processed (world v) @ owed v)"
      using v k qu by (auto simp: owed_def pending_key_def real_events_def)
    moreover have "st' = drain_waiting_buffer env 8 v" using assms(4) False p e v(1) by (simp add: action_tapping_process_def)
    ultimately show ?thesis using drain_ok [OF vok, of 8] accounted_trans
      by (intro conjI exI [of _ "?P @ ?K @ ?Q @ ?R"]) (auto simp: owed_def)
  qed
qed

text \<open>One event handed over by \<open>action_exec\<close>.\<close>

abbreviation exec_event :: "u32 \<times> keyevent \<Rightarrow> 's tapping \<Rightarrow> 's tapping" where
  "exec_event \<equiv> tap_exec env prepare"

lemma prepared:
  "tapping_ok (st\<lparr>world := w\<rparr>) = tapping_ok st" "queued (st\<lparr>world := w\<rparr>) = queued st" "owed (st\<lparr>world := w\<rparr>) = owed st"
  "ready (st\<lparr>world := w\<rparr>) = ready st"
  by (simp_all add: tapping_ok_def buffer_ok_def queued_def owed_def pending_key_def ready_def)

lemma exec_event_ok:
  assumes "tapping_ok st" and "length (queued st) < 7"
  shows "tapping_ok (exec_event i st) \<and> (\<exists>mid. accounted mid (processed (world (exec_event i st)) @ owed (exec_event i st)) \<and>
      mset mid = mset (processed (world st) @ owed st @ real_events (snd i)) \<and>
      (ready st \<longrightarrow> accounted (processed (world st) @ owed st @ real_events (snd i)) mid))"
  using action_tapping_ok [of "st\<lparr>world := prepare (fst i) (snd i) (world st)\<rparr>" "\<lparr>event = snd i, tap = no_tap\<rparr>", OF _ _ _ refl] assms
  by (simp add: prepared tap_exec_def prepare_processed)

lemma run_events:
  assumes "tapping_ok st" and "calm_run (\<lambda>_. True) exec_event is st"
  shows "tapping_ok (fold exec_event is st) \<and>
    (\<exists>X. (\<forall>x \<in> set X. \<not> ev_pressed x) \<and>
      mset (processed (world (fold exec_event is st)) @ owed (fold exec_event is st)) =
      mset (processed (world st) @ owed st @ concat (map (\<lambda>i. real_events (snd i)) is)) + mset X)"
  using assms
proof (induction "is" arbitrary: st)
  case Nil
  then show ?case by (auto intro: exI [of _ "[]"])
next
  case (Cons i "is")
  let ?u = "exec_event i st"
  have step: "length (queued st) < 7" "calm_run (\<lambda>_. True) exec_event is ?u" using Cons.prems(2) by simp_all
  from exec_event_ok [OF Cons.prems(1) step(1), of i] obtain mid X where u: "tapping_ok ?u"
    "mset mid = mset (processed (world st) @ owed st @ real_events (snd i))" "\<forall>x \<in> set X. \<not> ev_pressed x"
    "mset (processed (world ?u) @ owed ?u) = mset mid + mset X" unfolding accounted_def by blast
  from Cons.IH [OF u(1) step(2)] obtain Y where Y: "\<forall>x \<in> set Y. \<not> ev_pressed x"
    "mset (processed (world (fold exec_event is ?u)) @ owed (fold exec_event is ?u)) =
      mset (processed (world ?u) @ owed ?u @ concat (map (\<lambda>i. real_events (snd i)) is)) + mset Y"
    "tapping_ok (fold exec_event is ?u)" by blast
  have "mset (processed (world ?u) @ owed ?u @ concat (map (\<lambda>i. real_events (snd i)) is)) =
      mset (processed (world st) @ owed st @ concat (map (\<lambda>i. real_events (snd i)) (i # is))) + mset X"
    using u(2,4) by simp
  then show ?case using Y u(3) by (intro conjI exI [of _ "X @ Y"]) auto
qed

lemma run_presses:
  assumes "tapping_ok st" and "calm_run ready exec_event is st"
  shows "filter ev_pressed (processed (world (fold exec_event is st)) @ owed (fold exec_event is st)) =
    filter ev_pressed (processed (world st) @ owed st @ concat (map (\<lambda>i. real_events (snd i)) is))"
  using assms
proof (induction "is" arbitrary: st)
  case (Cons i "is")
  let ?u = "exec_event i st"
  have step: "length (queued st) < 7" "ready st" "calm_run ready exec_event is ?u" using Cons.prems(2) by simp_all
  from exec_event_ok [OF Cons.prems(1) step(1), of i] step(2) obtain mid where "tapping_ok ?u"
    "accounted (processed (world st) @ owed st @ real_events (snd i)) mid" "accounted mid (processed (world ?u) @ owed ?u)" by blast
  then have "tapping_ok ?u" "filter ev_pressed (processed (world ?u) @ owed ?u) = filter ev_pressed (processed (world st) @ owed st @ real_events (snd i))"
    unfolding accounted_def by simp_all
  with Cons.IH [OF _ step(3)] show ?case by simp
qed simp

subsection \<open>What is processed stays processed\<close>

definition extends :: "'s tapping \<Rightarrow> 's tapping \<Rightarrow> bool" where
  "extends st st' \<longleftrightarrow> (\<exists>X. processed (world st') = processed (world st) @ X)"

lemma extends_same: "processed (world st') = processed (world st) \<Longrightarrow> extends st st'"
  by (simp add: extends_def)

lemma extends_trans: "extends st su \<Longrightarrow> extends su sv \<Longrightarrow> extends st sv"
  by (auto simp: extends_def)

lemma process_tapping_key_extends: "processed (world u) = processed (world st) \<Longrightarrow> extends st (process_tapping_key env u)"
proof -
  assume u: "processed (world u) = processed (world st)"
  obtain r w where p: "call_process_record env (tapping_key u) (world u) = (r, w)" by fastforce
  from record_extends [OF p] show ?thesis by (simp add: extends_def process_tapping_key_def p u)
qed

lemma process_keyp_extends: "process_keyp env keyp u = (k, st') \<Longrightarrow> processed (world u) = processed (world st) \<Longrightarrow> extends st st'"
  using record_extends [of keyp "world u"] by (auto simp: process_keyp_def extends_def split: prod.splits)

lemma scan_extends: "processed (world u) = processed (world st) \<Longrightarrow> extends st (waiting_buffer_scan_tap env u)"
  by (auto simp: waiting_buffer_scan_tap_def extends_same split: option.split intro: process_tapping_key_extends)

lemma process_keyp_extends_snd: "processed (world u) = processed (world st) \<Longrightarrow> extends st (snd (process_keyp env keyp u))"
  using process_keyp_extends [of keyp u "fst (process_keyp env keyp u)"] by simp

lemma pass_on_extends: "processed (world u) = processed (world st) \<Longrightarrow> extends st (snd (snd (pass_on env keyp u)))"
  using process_keyp_extends_snd [of u st keyp] by (simp add: pass_on_def case_prod_beta)

lemma end_tapping_extends: "extends st u \<Longrightarrow> extends st (end_tapping u)"
  by (simp add: extends_def end_tapping_def)

lemma start_new_tap_extends: "extends st (snd (snd (start_new_tap env keyp st)))"
proof -
  have "extends st (if tap_count (tap (tapping_key st)) > 1 then snd (process_keyp env (last_tap_release (event keyp) (tapping_key st)) st) else st)"
    by (simp add: extends_same process_keyp_extends_snd)
  then show ?thesis unfolding start_new_tap_def Let_def snd_conv
    by (rule extends_trans) (simp add: scan_extends)
qed

lemmas extends_simps = extends_same [of st st for st] extends_same [of "st\<lparr>tapping_key := r\<rparr>" st for st r]
  end_tapping_extends process_tapping_key_extends scan_extends pass_on_extends start_new_tap_extends

lemma tap_pending_extends: "extends st (snd (snd (tap_pending env keyp st)))"
  by (simp add: tap_pending_def Let_def extends_simps)

lemma tap_settled_extends: "extends st (snd (snd (tap_settled env within keyp st)))"
proof -
  obtain k u where u: "process_keyp env (keyp\<lparr>tap := tap (tapping_key st)\<rparr>) st = (k, u)" by fastforce
  have "extends st u" by (rule process_keyp_extends [OF u refl])
  then have "extends st (u\<lparr>tapping_key := k\<rparr>)" "extends st (end_tapping u)" by (simp_all add: extends_def end_tapping_def)
  then show ?thesis by (simp add: tap_settled_def Let_def u extends_simps)
qed

lemma tap_released_extends: "extends st (snd (snd (tap_released env keyp st)))"
proof -
  let ?n = "\<lambda>c :: 4 word. if c < 15 then c + 1 else c"
  obtain k u where u: "process_keyp env (keyp\<lparr>tap := (tap (tapping_key st))\<lparr>tap_count := ?n (tap_count (tap (tapping_key st)))\<rparr>\<rparr>) st = (k, u)"
    by fastforce
  have "extends st u" by (rule process_keyp_extends [OF u refl])
  then have "extends st (u\<lparr>tapping_key := k\<rparr>)" by (simp add: extends_def)
  then show ?thesis unfolding tap_released_def Let_def u prod.case by (simp add: extends_simps)
qed

lemma process_tapping_extends: "extends st (snd (snd (process_tapping env keyp st)))"
  by (simp add: process_tapping_def tap_reset_def Let_def hint_processed extends_simps tap_pending_extends tap_settled_extends tap_released_extends)

lemma drain_extends: "extends st (drain_waiting_buffer env n st)"
proof (induction n arbitrary: st)
  case (Suc n)
  let ?r = "waiting_buffer st ! waiting_buffer_tail st"
  obtain c k u where p: "process_tapping env ?r st = (c, k, u)" by (cases "process_tapping env ?r st")
  have u: "extends st u" using process_tapping_extends [of st ?r] p by simp
  let ?v = "u\<lparr>waiting_buffer := (waiting_buffer u)[waiting_buffer_tail st := k]\<rparr>"
  let ?w = "?v\<lparr>waiting_buffer_tail := (waiting_buffer_tail st + 1) mod 8\<rparr>"
  have "extends st ?v" "extends st ?w" using u by (simp_all add: extends_def)
  then show ?case using extends_trans [OF _ Suc.IH [of ?w]] by (auto simp: p Let_def extends_same)
qed (simp add: extends_same)

text \<open>A timer event after the tapping term settles the waiting key as a hold, whatever else is queued.\<close>

lemma tick_settles:
  assumes "tapping_ok st" and "pending_key st \<noteq> []" and "IS_NOEVENT (snd i)"
    and "\<not> WITHIN_TAPPING_TERM env (snd i) (st\<lparr>world := prepare (fst i) (snd i) (world st)\<rparr>)"
  shows "\<exists>X. processed (world (exec_event i st)) = processed (world st) @ pending_key st @ X"
proof -
  let ?u = "st\<lparr>world := prepare (fst i) (snd i) (world st)\<rparr>" and ?r = "\<lparr>event = snd i, tap = no_tap\<rparr>"
  have k: "ev_pressed (event (tapping_key st))" "tap_count (tap (tapping_key st)) = 0" "\<not> IS_NOEVENT (event (tapping_key st))"
    "pending_key st = [event (tapping_key st)]"
    using assms(1,2) by (auto simp: pending_key_def tapping_ok_def split: if_splits)
  let ?v = "end_tapping (process_tapping_key env ?u)"
  have p: "process_tapping env ?r ?u = (False, ?r, ?v)" using k assms(4) by (simp add: process_tapping_def Let_def)
  have e: "exec_event i st = drain_waiting_buffer env 8 ?v"
    using assms(3) by (simp add: tap_exec_def action_tapping_process_def p waiting_buffer_enq_def)
  obtain r w where c: "call_process_record env (tapping_key st) (prepare (fst i) (snd i) (world st)) = (r, w)" by fastforce
  from record_processed [OF c k(3)] obtain X where "processed (world ?v) = processed (world st) @ event (tapping_key st) # X"
    by (auto simp: prepare_processed end_tapping_def process_tapping_key_def c)
  then show ?thesis using drain_extends [of ?v 8] k(4) by (auto simp: e extends_def)
qed

end

section \<open>A lone key\<close>

text \<open>An idle machine, and a key that goes down and up with nothing else in between.\<close>

definition idle :: "'s tapping \<Rightarrow> bool" where
  "idle st \<longleftrightarrow> buffer_ok st \<and> IS_NOEVENT (event (tapping_key st)) \<and> queued st = []"

lemma idle_init: "idle (tapping_init w)"
  by (simp add: idle_def buffer_ok_def tapping_init_def ring_inv_def no_record_def IS_NOEVENT_def queued_def ring_contents_def)

lemma tapping_ok_init: "tapping_ok (tapping_init w)"
  using idle_init [of w] by (simp add: tapping_ok_def idle_def) (simp add: tapping_init_def no_record_def)

lemma ring_empty: "h < 8 \<Longrightarrow> t < 8 \<Longrightarrow> ring_contents 8 buf h t = [] \<longleftrightarrow> t = h"
  by (auto simp: ring_contents_def mod_if split: if_splits)

lemma queued_empty: "buffer_ok st \<Longrightarrow> queued st = [] \<longleftrightarrow> waiting_buffer_tail st = waiting_buffer_head st"
  by (auto simp: buffer_ok_def ring_inv_def queued_def ring_empty)

lemma drain_done: "waiting_buffer_tail st = waiting_buffer_head st \<Longrightarrow> drain_waiting_buffer env n st = st"
  by (cases n) simp_all

lemma drain_empty: "buffer_ok st \<Longrightarrow> queued st = [] \<Longrightarrow> drain_waiting_buffer env n st = st"
  by (cases n) (simp_all add: queued_empty)

lemma scan_empty: "buffer_ok st \<Longrightarrow> queued st = [] \<Longrightarrow> waiting_buffer_scan_tap env st = st"
  by (auto simp: waiting_buffer_scan_tap_def queued_alt)

lemma lone_press:
  assumes "idle st" and "ev_pressed (event r)" and "is_tap_record env r st"
  shows "action_tapping_process env r st = st\<lparr>tapping_key := r, world := call_tap_hint env r (world st)\<rparr>"
proof -
  let ?u = "st\<lparr>tapping_key := r, world := call_tap_hint env r (world st)\<rparr>"
  have "\<not> IS_NOEVENT (event r)" using assms(3) by (auto simp: is_tap_record_def split: if_splits)
  moreover have "buffer_ok ?u" "queued ?u = []" using assms(1) by (simp_all add: idle_def buffer_ok_def queued_def)
  ultimately show ?thesis using assms scan_empty [of ?u env] drain_empty [of ?u env]
    by (simp add: action_tapping_process_def process_tapping_def tap_reset_def idle_def Let_def)
qed

lemma idle_release:
  assumes "idle st" and "\<not> IS_NOEVENT (event r)" and "\<not> ev_pressed (event r)"
  shows "action_tapping_process env r st = st\<lparr>world := snd (call_process_record env r (world st))\<rparr>"
proof -
  let ?u = "st\<lparr>world := snd (call_process_record env r (world st))\<rparr>"
  have "buffer_ok ?u" "queued ?u = []" using assms(1) by (simp_all add: idle_def buffer_ok_def queued_def)
  then show ?thesis using assms drain_empty [of ?u env]
    by (simp add: action_tapping_process_def process_tapping_def tap_reset_def pass_on_def process_keyp_def idle_def Let_def case_prod_beta)
qed

text \<open>The key \<open>tk\<close> waits alone for its decision.\<close>

definition waiting_alone :: "keyrecord \<Rightarrow> 's tapping \<Rightarrow> bool" where
  "waiting_alone tk st \<longleftrightarrow> buffer_ok st \<and> queued st = [] \<and> tapping_key st = tk \<and> \<not> IS_NOEVENT (event tk) \<and> ev_pressed (event tk)
     \<and> tap_count (tap tk) = 0"

lemma lone_timeout:
  assumes "waiting_alone tk st" and "IS_NOEVENT (event q)" and "\<not> WITHIN_TAPPING_TERM env (event q) st"
  shows "action_tapping_process env q st = st\<lparr>tapping_key := no_record, world := snd (call_process_record env tk (world st))\<rparr>"
proof -
  let ?u = "end_tapping (process_tapping_key env st)"
  have "buffer_ok ?u" "queued ?u = []"
    using assms(1) by (simp_all add: waiting_alone_def buffer_ok_def queued_def end_tapping_def process_tapping_key_def case_prod_beta)
  then have "action_tapping_process env q st = ?u"
    using assms drain_empty [of ?u env]
    by (simp add: action_tapping_process_def process_tapping_def waiting_alone_def waiting_buffer_enq_def Let_def)
  then show ?thesis using assms(1) by (simp add: end_tapping_def process_tapping_key_def case_prod_beta waiting_alone_def)
qed

lemma enq_one:
  assumes "buffer_ok st" and "queued st = []" and "\<not> IS_NOEVENT (event r)"
  shows "\<exists>st'. waiting_buffer_enq r st = (True, st') \<and> buffer_ok st' \<and> queued st' = [r] \<and> tapping_key st' = tapping_key st \<and> world st' = world st"
proof -
  obtain ok st' where e: "waiting_buffer_enq r st = (ok, st')" by fastforce
  show ?thesis using enq_queued [OF assms(1) e] assms e by auto
qed

text \<open>The queue holds one event, which is consumed.\<close>

lemma drain_one:
  assumes "buffer_ok st" and "queued st = [r]" and "process_tapping env r st = (True, k, u)"
    and "waiting_buffer_head u = waiting_buffer_head st" and "waiting_buffer_tail u = waiting_buffer_tail st"
  shows "world (drain_waiting_buffer env 8 st) = world u \<and> tapping_key (drain_waiting_buffer env 8 st) = tapping_key u"
proof -
  let ?t = "waiting_buffer_tail st"
  have ne: "?t \<noteq> waiting_buffer_head st" using queued_empty [OF assms(1)] assms(2) by simp
  have pop: "queued st = waiting_buffer st ! ?t # ring_contents 8 (waiting_buffer st) (waiting_buffer_head st) (Suc ?t mod 8)"
    using ring_pop [of 8 "waiting_buffer st" "waiting_buffer_head st" ?t] assms(1) ne by (simp add: queued_def buffer_ok_def)
  then have r: "waiting_buffer st ! ?t = r" and e: "ring_contents 8 (waiting_buffer st) (waiting_buffer_head st) (Suc ?t mod 8) = []"
    using assms(2) by simp_all
  have b: "waiting_buffer_head st < 8" "Suc ?t mod 8 < 8" using assms(1) by (auto simp: buffer_ok_def ring_inv_def)
  then have stop: "Suc ?t mod 8 = waiting_buffer_head st" using e by (simp only: ring_empty)
  define v where "v = u\<lparr>waiting_buffer := (waiting_buffer u)[?t := k]\<rparr>"
  define w where "w = v\<lparr>waiting_buffer_tail := (?t + 1) mod 8\<rparr>"
  have "drain_waiting_buffer env 8 st = drain_waiting_buffer env (Suc 7) st" by simp
  also have "\<dots> = drain_waiting_buffer env 7 w"
    unfolding drain_waiting_buffer.simps(2) Let_def using ne r assms(3) by (simp add: v_def w_def)
  also have "\<dots> = w" using stop assms(4) by (intro drain_done) (simp add: w_def v_def)
  finally show ?thesis by (simp add: w_def v_def)
qed

lemma lone_tap:
  assumes "waiting_alone tk st" and "\<not> IS_NOEVENT (event q)" and "\<not> ev_pressed (event q)" and "ev_key (event q) = ev_key (event tk)"
    and "WITHIN_TAPPING_TERM env (event q) st"
    and settled: "call_process_record env (set_count 1 tk) (world st) = (set_count 1 tk, w)"
  shows "world (action_tapping_process env q st) = snd (call_process_record env (q\<lparr>tap := (tap tk)\<lparr>tap_count := 1\<rparr>\<rparr>) w)"
proof -
  let ?q = "q\<lparr>tap := (tap tk)\<lparr>tap_count := 1\<rparr>\<rparr>"
  define u where "u = st\<lparr>tapping_key := set_count 1 tk, world := w\<rparr>"
  have tk: "tapping_key st = tk" "\<not> IS_NOEVENT (event tk)" "ev_pressed (event tk)" "tap_count (tap tk) = 0" "buffer_ok st" "queued st = []"
    using assms(1) by (simp_all add: waiting_alone_def)
  have p: "process_tapping env q st = (False, ?q, u)"
    using assms(2-5) tk settled by (simp add: process_tapping_def tap_pending_def IS_TAPPING_RECORD_def process_tapping_key_def u_def set_count_def Let_def)
  have "buffer_ok u" "queued u = []" using tk by (simp_all add: u_def buffer_ok_def queued_def)
  then obtain v where v: "waiting_buffer_enq ?q u = (True, v)" "buffer_ok v" "queued v = [?q]" "tapping_key v = set_count 1 tk" "world v = w"
    using enq_one [of u ?q] assms(2) by (auto simp: u_def)
  obtain k x where c: "call_process_record env ?q w = (k, x)" by fastforce
  have "\<exists>z. process_tapping env ?q v = (True, k, z) \<and> world z = x \<and> waiting_buffer_head z = waiting_buffer_head v \<and> waiting_buffer_tail z = waiting_buffer_tail v"
    using assms(2-4) tk v c
    by (auto simp: process_tapping_def tap_settled_def IS_TAPPING_RECORD_def process_keyp_def set_count_def end_tapping_def Let_def)
  then obtain z where z: "process_tapping env ?q v = (True, k, z)" "world z = x" "waiting_buffer_head z = waiting_buffer_head v"
    "waiting_buffer_tail z = waiting_buffer_tail v" by blast
  show ?thesis using drain_one [OF v(2,3) z(1,3,4)] z(2) v(1) c by (simp add: action_tapping_process_def p)
qed

end
