(* ===== verification/Mousekey.thy ===== *)
theory Mousekey
  imports Prelude
begin

text \<open>
  Mouse keys (\<open>quantum/mousekey.c\<close>) in the default accelerated mode (no \<open>MK_3_SPEED\<close>, \<open>MK_COMBINED\<close>,
  \<open>MK_KINETIC_SPEED\<close>, \<open>MOUSEKEY_INERTIA\<close> or \<open>MOUSEKEY_OVERLAP_RESET\<close>): eight keys move the pointer and the wheel, eight press buttons and three hold
  a speed.  The report has signed bytes; \<open>as_i8\<close> is the store into one.  What the host was sent is kept in \<open>mouse_sent\<close>.
\<close>

section \<open>State\<close>

abbreviation as_i8 :: "int \<Rightarrow> int" where "as_i8 \<equiv> signed_take_bit 7"

record mouse_report =
  mr_buttons :: u8
  mr_x :: int
  mr_y :: int
  mr_v :: int
  mr_h :: int

definition no_mouse_report :: mouse_report where
  "no_mouse_report = \<lparr>mr_buttons = 0, mr_x = 0, mr_y = 0, mr_v = 0, mr_h = 0\<rparr>"

record mk_config =
  mk_delay :: u8
  mk_interval :: u8
  mk_max_speed :: u8
  mk_time_to_max :: u8
  mk_wheel_delay :: u8
  mk_wheel_interval :: u8
  mk_wheel_max_speed :: u8
  mk_wheel_time_to_max :: u8

definition mk_default :: mk_config where
  "mk_default = \<lparr>mk_delay = 1, mk_interval = 20, mk_max_speed = 10, mk_time_to_max = 30,
     mk_wheel_delay = 1, mk_wheel_interval = 80, mk_wheel_max_speed = 8, mk_wheel_time_to_max = 40\<rparr>"

record mouse =
  mouse_report :: mouse_report
  mousekey_accel :: u8
  mousekey_repeat :: u8
  mousekey_wheel_repeat :: u8
  last_timer_c :: u16
  last_timer_w :: u16
  mouse_sent :: "mouse_report list"

abbreviation MOUSEKEY_MOVE_DELTA :: int where "MOUSEKEY_MOVE_DELTA \<equiv> 8"
abbreviation MOUSEKEY_WHEEL_DELTA :: int where "MOUSEKEY_WHEEL_DELTA \<equiv> 1"
abbreviation MOUSEKEY_MOVE_MAX :: int where "MOUSEKEY_MOVE_MAX \<equiv> 127"
abbreviation MOUSEKEY_WHEEL_MAX :: int where "MOUSEKEY_WHEEL_MAX \<equiv> 127"

section \<open>Speed\<close>

text \<open>The operands are non-negative, so the C division is \<open>div\<close>; \<open>unit\<close> is an \<open>uint16_t\<close>.  The two functions differ in their constants.\<close>

definition speed_unit :: "int \<Rightarrow> int \<Rightarrow> u8 \<Rightarrow> u8 \<Rightarrow> u8 \<Rightarrow> u8 \<Rightarrow> int" where
  "speed_unit delta lim max_speed time_to_max accel rep =
     (let unit = uint (as_u16 (
        if accel AND col_mask 0 \<noteq> 0 then (delta * uint max_speed) div 4
        else if accel AND col_mask 1 \<noteq> 0 then (delta * uint max_speed) div 2
        else if accel AND col_mask 2 \<noteq> 0 then delta * uint max_speed
        else if rep = 0 then delta
        else if rep \<ge> time_to_max then delta * uint max_speed
        else (delta * uint max_speed * uint rep) div uint time_to_max))
      in if unit > lim then lim else if unit = 0 then 1 else unit)"

definition move_unit :: "mk_config \<Rightarrow> mouse \<Rightarrow> int" where
  "move_unit c s = speed_unit MOUSEKEY_MOVE_DELTA MOUSEKEY_MOVE_MAX (mk_max_speed c) (mk_time_to_max c) (mousekey_accel s) (mousekey_repeat s)"

definition wheel_unit :: "mk_config \<Rightarrow> mouse \<Rightarrow> int" where
  "wheel_unit c s = speed_unit MOUSEKEY_WHEEL_DELTA MOUSEKEY_WHEEL_MAX (mk_wheel_max_speed c) (mk_wheel_time_to_max c)
     (mousekey_accel s) (mousekey_wheel_repeat s)"

text \<open>Both constants are promoted to \<open>int\<close>; C division truncates towards zero.\<close>

definition times_inv_sqrt2 :: "int \<Rightarrow> int" where
  "times_inv_sqrt2 x = (let n = x * 181 in as_i8 (if n < 0 then - ((128 - n) div 256) else (n + 128) div 256))"

definition diagonal :: "int \<Rightarrow> int" where
  "diagonal x = (let d = times_inv_sqrt2 x in if d = 0 then 1 else d)"

section \<open>Reports\<close>

definition should_mousekey_report_send :: "mouse_report \<Rightarrow> bool" where
  "should_mousekey_report_send r \<longleftrightarrow> mr_x r \<noteq> 0 \<or> mr_y r \<noteq> 0 \<or> mr_v r \<noteq> 0 \<or> mr_h r \<noteq> 0"

definition has_mouse_report_changed :: "mouse_report \<Rightarrow> mouse_report \<Rightarrow> bool" where
  "has_mouse_report_changed new old \<longleftrightarrow> mr_buttons new \<noteq> mr_buttons old
     \<or> (mr_x new \<noteq> 0 \<and> mr_x new \<noteq> mr_x old) \<or> (mr_y new \<noteq> 0 \<and> mr_y new \<noteq> mr_y old)
     \<or> (mr_h new \<noteq> 0 \<and> mr_h new \<noteq> mr_h old) \<or> (mr_v new \<noteq> 0 \<and> mr_v new \<noteq> mr_v old)"

definition mousekey_send :: "u16 \<Rightarrow> mouse \<Rightarrow> mouse" where
  "mousekey_send now s =
     (let r = mouse_report s;
          s = (if mr_x r \<noteq> 0 \<or> mr_y r \<noteq> 0 then s\<lparr>last_timer_c := now\<rparr> else s);
          s = (if mr_v r \<noteq> 0 \<or> mr_h r \<noteq> 0 then s\<lparr>last_timer_w := now\<rparr> else s)
      in s\<lparr>mouse_sent := mouse_sent s @ [r]\<rparr>)"

definition mousekey_clear :: "mouse \<Rightarrow> mouse" where
  "mousekey_clear s = s\<lparr>mouse_report := no_mouse_report, mousekey_repeat := 0, mousekey_wheel_repeat := 0, mousekey_accel := 0\<rparr>"

section \<open>Keys\<close>

abbreviation QK_MOUSE_CURSOR_UP :: u8 where "QK_MOUSE_CURSOR_UP \<equiv> 0xCD"
abbreviation QK_MOUSE_CURSOR_DOWN :: u8 where "QK_MOUSE_CURSOR_DOWN \<equiv> 0xCE"
abbreviation QK_MOUSE_CURSOR_LEFT :: u8 where "QK_MOUSE_CURSOR_LEFT \<equiv> 0xCF"
abbreviation QK_MOUSE_CURSOR_RIGHT :: u8 where "QK_MOUSE_CURSOR_RIGHT \<equiv> 0xD0"
abbreviation QK_MOUSE_BUTTON_1 :: u8 where "QK_MOUSE_BUTTON_1 \<equiv> 0xD1"
abbreviation QK_MOUSE_WHEEL_UP :: u8 where "QK_MOUSE_WHEEL_UP \<equiv> 0xD9"
abbreviation QK_MOUSE_WHEEL_DOWN :: u8 where "QK_MOUSE_WHEEL_DOWN \<equiv> 0xDA"
abbreviation QK_MOUSE_WHEEL_LEFT :: u8 where "QK_MOUSE_WHEEL_LEFT \<equiv> 0xDB"
abbreviation QK_MOUSE_WHEEL_RIGHT :: u8 where "QK_MOUSE_WHEEL_RIGHT \<equiv> 0xDC"
abbreviation QK_MOUSE_ACCELERATION_0 :: u8 where "QK_MOUSE_ACCELERATION_0 \<equiv> 0xDD"
abbreviation QK_MOUSE_ACCELERATION_1 :: u8 where "QK_MOUSE_ACCELERATION_1 \<equiv> 0xDE"
abbreviation QK_MOUSE_ACCELERATION_2 :: u8 where "QK_MOUSE_ACCELERATION_2 \<equiv> 0xDF"

definition IS_MOUSEKEY_BUTTON :: "u8 \<Rightarrow> bool" where "IS_MOUSEKEY_BUTTON code \<longleftrightarrow> 0xD1 \<le> code \<and> code \<le> 0xD8"

definition button_mask :: "u8 \<Rightarrow> u8" where "button_mask code = col_mask (unat (code - QK_MOUSE_BUTTON_1))"

definition set_report :: "(mouse_report \<Rightarrow> mouse_report) \<Rightarrow> mouse \<Rightarrow> mouse" where
  "set_report f s = s\<lparr>mouse_report := f (mouse_report s)\<rparr>"

definition mousekey_on :: "mk_config \<Rightarrow> u8 \<Rightarrow> mouse \<Rightarrow> mouse" where
  "mousekey_on c code s =
     (if code = QK_MOUSE_CURSOR_UP then set_report (mr_y_update (\<lambda>_. as_i8 (move_unit c s * -1))) s
      else if code = QK_MOUSE_CURSOR_DOWN then set_report (mr_y_update (\<lambda>_. as_i8 (move_unit c s))) s
      else if code = QK_MOUSE_CURSOR_LEFT then set_report (mr_x_update (\<lambda>_. as_i8 (move_unit c s * -1))) s
      else if code = QK_MOUSE_CURSOR_RIGHT then set_report (mr_x_update (\<lambda>_. as_i8 (move_unit c s))) s
      else if code = QK_MOUSE_WHEEL_UP then set_report (mr_v_update (\<lambda>_. as_i8 (wheel_unit c s))) s
      else if code = QK_MOUSE_WHEEL_DOWN then set_report (mr_v_update (\<lambda>_. as_i8 (wheel_unit c s * -1))) s
      else if code = QK_MOUSE_WHEEL_LEFT then set_report (mr_h_update (\<lambda>_. as_i8 (wheel_unit c s * -1))) s
      else if code = QK_MOUSE_WHEEL_RIGHT then set_report (mr_h_update (\<lambda>_. as_i8 (wheel_unit c s))) s
      else if IS_MOUSEKEY_BUTTON code then set_report (mr_buttons_update (\<lambda>b. b OR button_mask code)) s
      else if code = QK_MOUSE_ACCELERATION_0 then s\<lparr>mousekey_accel := mousekey_accel s OR col_mask 0\<rparr>
      else if code = QK_MOUSE_ACCELERATION_1 then s\<lparr>mousekey_accel := mousekey_accel s OR col_mask 1\<rparr>
      else if code = QK_MOUSE_ACCELERATION_2 then s\<lparr>mousekey_accel := mousekey_accel s OR col_mask 2\<rparr>
      else s)"

definition mousekey_release :: "u8 \<Rightarrow> mouse \<Rightarrow> mouse" where
  "mousekey_release code s =
     (let r = mouse_report s in
      if code = QK_MOUSE_CURSOR_UP \<and> mr_y r < 0 then set_report (mr_y_update (\<lambda>_. 0)) s
      else if code = QK_MOUSE_CURSOR_DOWN \<and> mr_y r > 0 then set_report (mr_y_update (\<lambda>_. 0)) s
      else if code = QK_MOUSE_CURSOR_LEFT \<and> mr_x r < 0 then set_report (mr_x_update (\<lambda>_. 0)) s
      else if code = QK_MOUSE_CURSOR_RIGHT \<and> mr_x r > 0 then set_report (mr_x_update (\<lambda>_. 0)) s
      else if code = QK_MOUSE_WHEEL_UP \<and> mr_v r > 0 then set_report (mr_v_update (\<lambda>_. 0)) s
      else if code = QK_MOUSE_WHEEL_DOWN \<and> mr_v r < 0 then set_report (mr_v_update (\<lambda>_. 0)) s
      else if code = QK_MOUSE_WHEEL_LEFT \<and> mr_h r < 0 then set_report (mr_h_update (\<lambda>_. 0)) s
      else if code = QK_MOUSE_WHEEL_RIGHT \<and> mr_h r > 0 then set_report (mr_h_update (\<lambda>_. 0)) s
      else if IS_MOUSEKEY_BUTTON code then set_report (mr_buttons_update (\<lambda>b. b AND NOT (button_mask code))) s
      else if code = QK_MOUSE_ACCELERATION_0 then s\<lparr>mousekey_accel := mousekey_accel s AND NOT (col_mask 0)\<rparr>
      else if code = QK_MOUSE_ACCELERATION_1 then s\<lparr>mousekey_accel := mousekey_accel s AND NOT (col_mask 1)\<rparr>
      else if code = QK_MOUSE_ACCELERATION_2 then s\<lparr>mousekey_accel := mousekey_accel s AND NOT (col_mask 2)\<rparr>
      else s)"

definition mousekey_off :: "u8 \<Rightarrow> mouse \<Rightarrow> mouse" where
  "mousekey_off code s =
     (let s = mousekey_release code s; r = mouse_report s;
          s = (if mr_x r = 0 \<and> mr_y r = 0 then s\<lparr>mousekey_repeat := 0\<rparr> else s)
      in if mr_v r = 0 \<and> mr_h r = 0 then s\<lparr>mousekey_wheel_repeat := 0\<rparr> else s)"

section \<open>Repetition\<close>

definition bump :: "u8 \<Rightarrow> u8" where "bump n = (if n \<noteq> 0xFF then n + 1 else n)"

definition sign_of :: "int \<Rightarrow> int" where "sign_of d = (if d > 0 then 1 else - 1)"

text \<open>One pair of axes: the signs of what is held, at the speed of the moment, shortened on the diagonal.\<close>

definition moved :: "int \<Rightarrow> int \<Rightarrow> int \<Rightarrow> int \<times> int" where
  "moved unit a b =
     (let a' = (if a \<noteq> 0 then as_i8 (unit * sign_of a) else 0); b' = (if b \<noteq> 0 then as_i8 (unit * sign_of b) else 0)
      in if a' \<noteq> 0 \<and> b' \<noteq> 0 then (diagonal a', diagonal b') else (a', b'))"

definition pointer_step :: "mk_config \<Rightarrow> u16 \<Rightarrow> mouse_report \<Rightarrow> mouse \<Rightarrow> mouse" where
  "pointer_step c now tmp s =
     (if (mr_x tmp \<noteq> 0 \<or> mr_y tmp \<noteq> 0) \<and>
         uint (timer_diff now (last_timer_c s)) > (if mousekey_repeat s \<noteq> 0 then uint (mk_interval c) else uint (mk_delay c) * 10)
      then let s = s\<lparr>mousekey_repeat := bump (mousekey_repeat s)\<rparr>; m = moved (move_unit c s) (mr_x tmp) (mr_y tmp)
           in set_report (\<lambda>r. r\<lparr>mr_x := fst m, mr_y := snd m\<rparr>) s
      else s)"

definition wheel_step :: "mk_config \<Rightarrow> u16 \<Rightarrow> mouse_report \<Rightarrow> mouse \<Rightarrow> mouse" where
  "wheel_step c now tmp s =
     (if (mr_v tmp \<noteq> 0 \<or> mr_h tmp \<noteq> 0) \<and>
         uint (timer_diff now (last_timer_w s)) > (if mousekey_wheel_repeat s \<noteq> 0 then uint (mk_wheel_interval c) else uint (mk_wheel_delay c) * 10)
      then let s = s\<lparr>mousekey_wheel_repeat := bump (mousekey_wheel_repeat s)\<rparr>; m = moved (wheel_unit c s) (mr_v tmp) (mr_h tmp)
           in set_report (\<lambda>r. r\<lparr>mr_v := fst m, mr_h := snd m\<rparr>) s
      else s)"

definition mousekey_task :: "mk_config \<Rightarrow> u16 \<Rightarrow> mouse \<Rightarrow> mouse" where
  "mousekey_task c now s =
     (let tmp = mouse_report s;
          s = set_report (\<lambda>r. r\<lparr>mr_x := 0, mr_y := 0, mr_v := 0, mr_h := 0\<rparr>) s;
          s = wheel_step c now tmp (pointer_step c now tmp s);
          s = (if has_mouse_report_changed (mouse_report s) tmp \<or> should_mousekey_report_send (mouse_report s)
               then mousekey_send now s else s)
      in set_report (\<lambda>_. tmp) s)"

section \<open>Speeds stay in the report's range\<close>

lemma as_i8_id [simp]: "- 128 \<le> i \<Longrightarrow> i \<le> 127 \<Longrightarrow> as_i8 i = i"
  by (simp add: signed_take_bit_int_eq_self)

lemma speed_unit_range: "0 < lim \<Longrightarrow> 1 \<le> speed_unit d lim m t a r \<and> speed_unit d lim m t a r \<le> lim"
proof -
  have "0 \<le> uint (as_u16 i)" for i by simp
  then show "0 < lim \<Longrightarrow> ?thesis" unfolding speed_unit_def Let_def by (smt (verit))
qed

lemma move_unit_range: "1 \<le> move_unit c s" "move_unit c s \<le> 127"
  using speed_unit_range [of 127] by (simp_all add: move_unit_def)

lemma wheel_unit_range: "1 \<le> wheel_unit c s" "wheel_unit c s \<le> 127"
  using speed_unit_range [of 127] by (simp_all add: wheel_unit_def)

lemma scale_bounds:
  assumes "0 < y" "y \<le> 127"
  shows "1 \<le> (y * 181 + 128) div (256 :: int)" "(y * 181 + 128) div (256 :: int) \<le> 90" "(y * 181 + 128) div 256 \<le> y"
proof -
  define q where "q = (y * 181 + 128) div 256"
  have "256 * q + (y * 181 + 128) mod 256 = y * 181 + 128" unfolding q_def by simp
  moreover have "0 \<le> (y * 181 + 128) mod 256" "(y * 181 + 128) mod 256 < 256" by simp_all
  ultimately have "256 * q \<le> y * 181 + 128" "y * 181 + 128 < 256 * q + 256" by linarith+
  with assms have "1 \<le> q" "q \<le> 90" "q \<le> y" by linarith+
  then show "1 \<le> (y * 181 + 128) div (256 :: int)" "(y * 181 + 128) div (256 :: int) \<le> 90" "(y * 181 + 128) div 256 \<le> y"
    by (simp_all add: q_def)
qed

text \<open>The diagonal factor keeps the sign and never reaches zero, so the test for zero never fires.\<close>

lemma times_inv_sqrt2_range:
  "0 < x \<Longrightarrow> x \<le> 127 \<Longrightarrow> 1 \<le> times_inv_sqrt2 x \<and> times_inv_sqrt2 x \<le> 90"
  "x < 0 \<Longrightarrow> - 127 \<le> x \<Longrightarrow> - 90 \<le> times_inv_sqrt2 x \<and> times_inv_sqrt2 x \<le> - 1"
proof -
  show "0 < x \<Longrightarrow> x \<le> 127 \<Longrightarrow> 1 \<le> times_inv_sqrt2 x \<and> times_inv_sqrt2 x \<le> 90"
    using scale_bounds [of x] by (simp add: times_inv_sqrt2_def Let_def)
  show "x < 0 \<Longrightarrow> - 127 \<le> x \<Longrightarrow> - 90 \<le> times_inv_sqrt2 x \<and> times_inv_sqrt2 x \<le> - 1"
    using scale_bounds [of "- x"] by (simp add: times_inv_sqrt2_def Let_def)
qed

definition axis_ok :: "int \<Rightarrow> bool" where "axis_ok d \<longleftrightarrow> - 127 \<le> d \<and> d \<le> 127"

lemma diagonal_sgn: "axis_ok d \<Longrightarrow> d \<noteq> 0 \<Longrightarrow> axis_ok (diagonal d) \<and> sgn (diagonal d) = sgn d \<and> \<bar>diagonal d\<bar> \<le> \<bar>d\<bar>"
proof -
  assume d: "axis_ok d" "d \<noteq> 0"
  then consider "0 < d" "d \<le> 127" | "d < 0" "- 127 \<le> d" by (cases "0 < d") (auto simp: axis_ok_def)
  then show ?thesis
  proof cases
    case 1
    then have "times_inv_sqrt2 d = (d * 181 + 128) div 256" using scale_bounds [OF 1] by (simp add: times_inv_sqrt2_def Let_def)
    then show ?thesis using scale_bounds [OF 1] 1 by (simp add: diagonal_def Let_def axis_ok_def)
  next
    case 2
    then have m: "0 < - d" "- d \<le> 127" by simp_all
    then have "times_inv_sqrt2 d = - ((- d * 181 + 128) div 256)" using scale_bounds [OF m] 2 by (simp add: times_inv_sqrt2_def Let_def)
    then show ?thesis using scale_bounds [OF m] 2 by (simp add: diagonal_def Let_def axis_ok_def)
  qed
qed

lemma moved_axes:
  assumes "1 \<le> u" "u \<le> 127"
  shows "axis_ok (fst (moved u a b)) \<and> axis_ok (snd (moved u a b)) \<and> sgn (fst (moved u a b)) = sgn a \<and> sgn (snd (moved u a b)) = sgn b
    \<and> \<bar>fst (moved u a b)\<bar> \<le> u \<and> \<bar>snd (moved u a b)\<bar> \<le> u"
proof -
  have s: "axis_ok (as_i8 (u * sign_of d)) \<and> as_i8 (u * sign_of d) \<noteq> 0 \<and> sgn (as_i8 (u * sign_of d)) = sgn d \<and> \<bar>as_i8 (u * sign_of d)\<bar> = u"
    if "d \<noteq> 0" for d using assms that by (auto simp: sign_of_def axis_ok_def)
  note d = diagonal_sgn [of "as_i8 (u * sign_of a)"] diagonal_sgn [of "as_i8 (u * sign_of b)"]
  show ?thesis
  proof (cases "a = 0 \<or> b = 0")
    case True
    then show ?thesis using s [of a] s [of b] assms by (auto simp: moved_def Let_def axis_ok_def)
  next
    case False
    then show ?thesis using s [of a] s [of b] d by (simp add: moved_def Let_def)
  qed
qed


section \<open>What the host is sent\<close>

definition report_ok :: "mouse_report \<Rightarrow> bool" where
  "report_ok r \<longleftrightarrow> axis_ok (mr_x r) \<and> axis_ok (mr_y r) \<and> axis_ok (mr_v r) \<and> axis_ok (mr_h r)"

definition mouse_ok :: "mouse \<Rightarrow> bool" where
  "mouse_ok s \<longleftrightarrow> report_ok (mouse_report s) \<and> list_all report_ok (mouse_sent s)"

lemma send_simps [simp]:
  "mouse_report (mousekey_send now s) = mouse_report s"
  "mouse_sent (mousekey_send now s) = mouse_sent s @ [mouse_report s]"
  "mousekey_repeat (mousekey_send now s) = mousekey_repeat s"
  "mousekey_wheel_repeat (mousekey_send now s) = mousekey_wheel_repeat s"
  "mousekey_accel (mousekey_send now s) = mousekey_accel s"
  by (simp_all add: mousekey_send_def Let_def)

lemma mousekey_send_ok: "mouse_ok s \<Longrightarrow> mouse_ok (mousekey_send now s)"
  by (simp add: mouse_ok_def)

lemma on_ok: "mouse_ok s \<Longrightarrow> mouse_ok (mousekey_on c code s)"
  using move_unit_range [of c s] wheel_unit_range [of c s]
  by (simp add: mouse_ok_def report_ok_def axis_ok_def mousekey_on_def set_report_def)

lemma release_ok: "mouse_ok s \<Longrightarrow> mouse_ok (mousekey_release code s)"
  by (simp add: mouse_ok_def report_ok_def axis_ok_def mousekey_release_def set_report_def Let_def)

lemma off_ok: "mouse_ok s \<Longrightarrow> mouse_ok (mousekey_off code s)"
  using release_ok [of s code] by (simp add: mouse_ok_def mousekey_off_def Let_def)

lemma clear_ok: "mouse_ok s \<Longrightarrow> mouse_ok (mousekey_clear s)"
  by (simp add: mouse_ok_def mousekey_clear_def no_mouse_report_def report_ok_def axis_ok_def)

section \<open>The periodic task\<close>

definition pointer_due :: "mk_config \<Rightarrow> u16 \<Rightarrow> mouse \<Rightarrow> bool" where
  "pointer_due c now s \<longleftrightarrow> (mr_x (mouse_report s) \<noteq> 0 \<or> mr_y (mouse_report s) \<noteq> 0) \<and>
     uint (timer_diff now (last_timer_c s)) > (if mousekey_repeat s \<noteq> 0 then uint (mk_interval c) else uint (mk_delay c) * 10)"

definition wheel_due :: "mk_config \<Rightarrow> u16 \<Rightarrow> mouse \<Rightarrow> bool" where
  "wheel_due c now s \<longleftrightarrow> (mr_v (mouse_report s) \<noteq> 0 \<or> mr_h (mouse_report s) \<noteq> 0) \<and>
     uint (timer_diff now (last_timer_w s)) > (if mousekey_wheel_repeat s \<noteq> 0 then uint (mk_wheel_interval c) else uint (mk_wheel_delay c) * 10)"

text \<open>The report that one run of the task sends: an axis pair that is due moves the way the held keys point.\<close>

definition moves_as :: "bool \<Rightarrow> int \<times> int \<Rightarrow> int \<times> int \<Rightarrow> bool" where
  "moves_as due held sent \<longleftrightarrow> axis_ok (fst sent) \<and> axis_ok (snd sent) \<and>
     (if due then sgn (fst sent) = sgn (fst held) \<and> sgn (snd sent) = sgn (snd held) else sent = (0, 0))"

definition task_report :: "mk_config \<Rightarrow> u16 \<Rightarrow> mouse \<Rightarrow> mouse_report \<Rightarrow> bool" where
  "task_report c now s r \<longleftrightarrow> mr_buttons r = mr_buttons (mouse_report s)
     \<and> moves_as (pointer_due c now s) (mr_x (mouse_report s), mr_y (mouse_report s)) (mr_x r, mr_y r)
     \<and> moves_as (wheel_due c now s) (mr_v (mouse_report s), mr_h (mouse_report s)) (mr_v r, mr_h r)"

lemma moved_moves:
  "1 \<le> u \<Longrightarrow> u \<le> 127 \<Longrightarrow> moves_as True (a, b) (moved u a b)"
  using moved_axes [of u a b] by (simp add: moves_as_def)

lemma task_report_step:
  "task_report c now s (mouse_report (wheel_step c now (mouse_report s) (pointer_step c now (mouse_report s)
     (set_report (\<lambda>r. r\<lparr>mr_x := 0, mr_y := 0, mr_v := 0, mr_h := 0\<rparr>) s))))"
  (is "task_report c now s (mouse_report (wheel_step c now ?t (pointer_step c now ?t ?z)))")
proof -
  define u where "u = pointer_step c now ?t ?z"
  have still: "moves_as False held (0, 0)" for held by (simp add: moves_as_def axis_ok_def)
  have x: "moves_as (pointer_due c now s) (mr_x ?t, mr_y ?t) (mr_x (mouse_report u), mr_y (mouse_report u))"
    and u: "mr_v (mouse_report u) = 0" "mr_h (mouse_report u) = 0" "mr_buttons (mouse_report u) = mr_buttons ?t"
      "last_timer_w u = last_timer_w s" "mousekey_wheel_repeat u = mousekey_wheel_repeat s"
    using still moved_moves [OF move_unit_range]
    by (simp_all add: u_def pointer_step_def pointer_due_def set_report_def Let_def)
  have v: "moves_as (wheel_due c now s) (mr_v ?t, mr_h ?t) (mr_v (mouse_report (wheel_step c now ?t u)), mr_h (mouse_report (wheel_step c now ?t u)))"
    and w: "mr_x (mouse_report (wheel_step c now ?t u)) = mr_x (mouse_report u)" "mr_y (mouse_report (wheel_step c now ?t u)) = mr_y (mouse_report u)"
      "mr_buttons (mouse_report (wheel_step c now ?t u)) = mr_buttons (mouse_report u)"
    using still moved_moves [OF wheel_unit_range] u
    by (simp_all add: wheel_step_def wheel_due_def set_report_def Let_def)
  show ?thesis using x v w u(3) by (simp add: task_report_def u_def [symmetric])
qed

lemma task_steps:
  fixes c now s
  defines "u \<equiv> wheel_step c now (mouse_report s) (pointer_step c now (mouse_report s) (set_report (\<lambda>r. r\<lparr>mr_x := 0, mr_y := 0, mr_v := 0, mr_h := 0\<rparr>) s))"
  shows "mouse_report (mousekey_task c now s) = mouse_report s"
    and "mouse_sent (mousekey_task c now s) = mouse_sent s @ (if should_mousekey_report_send (mouse_report u) then [mouse_report u] else [])"
    and "mousekey_repeat (mousekey_task c now s) = (if pointer_due c now s then bump (mousekey_repeat s) else mousekey_repeat s)"
    and "mousekey_wheel_repeat (mousekey_task c now s) = (if wheel_due c now s then bump (mousekey_wheel_repeat s) else mousekey_wheel_repeat s)"
    and "mousekey_accel (mousekey_task c now s) = mousekey_accel s"
    and "task_report c now s (mouse_report u)"
proof -
  show t: "task_report c now s (mouse_report u)" unfolding u_def by (rule task_report_step)
  have g: "has_mouse_report_changed (mouse_report u) (mouse_report s) \<or> should_mousekey_report_send (mouse_report u) \<longleftrightarrow> should_mousekey_report_send (mouse_report u)"
    using t by (auto simp: task_report_def has_mouse_report_changed_def should_mousekey_report_send_def)
  have f: "mouse_sent u = mouse_sent s" "mousekey_accel u = mousekey_accel s"
    "mousekey_repeat u = (if pointer_due c now s then bump (mousekey_repeat s) else mousekey_repeat s)"
    "mousekey_wheel_repeat u = (if wheel_due c now s then bump (mousekey_wheel_repeat s) else mousekey_wheel_repeat s)"
    by (simp_all add: u_def wheel_step_def pointer_step_def pointer_due_def wheel_due_def set_report_def Let_def)
  have e: "mousekey_task c now s = set_report (\<lambda>_. mouse_report s) (if should_mousekey_report_send (mouse_report u) then mousekey_send now u else u)"
    using g by (simp add: mousekey_task_def u_def [symmetric] Let_def)
  show "mouse_report (mousekey_task c now s) = mouse_report s"
    "mouse_sent (mousekey_task c now s) = mouse_sent s @ (if should_mousekey_report_send (mouse_report u) then [mouse_report u] else [])"
    "mousekey_repeat (mousekey_task c now s) = (if pointer_due c now s then bump (mousekey_repeat s) else mousekey_repeat s)"
    "mousekey_wheel_repeat (mousekey_task c now s) = (if wheel_due c now s then bump (mousekey_wheel_repeat s) else mousekey_wheel_repeat s)"
    "mousekey_accel (mousekey_task c now s) = mousekey_accel s"
    using f by (simp_all add: e set_report_def)
qed

lemma task_ok: "mouse_ok s \<Longrightarrow> mouse_ok (mousekey_task c now s)"
  using task_steps [of c now s]
  by (auto simp: mouse_ok_def task_report_def moves_as_def report_ok_def)

lemma should_send_iff:
  "task_report c now s r \<Longrightarrow> should_mousekey_report_send r \<longleftrightarrow> pointer_due c now s \<or> wheel_due c now s"
proof -
  have z: "sgn a = sgn b \<Longrightarrow> a = 0 \<longleftrightarrow> b = 0" for a b :: int by (metis sgn_0_0)
  assume "task_report c now s r"
  then show ?thesis
    unfolding task_report_def moves_as_def should_mousekey_report_send_def pointer_due_def wheel_due_def
    by (auto split: if_splits dest: z)
qed

text \<open>The task by itself: what is held stays held, and exactly when something is due one report moves that way.\<close>

text \<open>Each run of mousekey_task sends at most one report, which moves exactly the axes whose
  interval has passed, in the direction held and within 1 to 127 units, and keeps what is held
  for the next run.\<close>

lemma mousekey_task_moves:
  "mouse_report (mousekey_task c now s) = mouse_report s \<and>
   (if pointer_due c now s \<or> wheel_due c now s
    then \<exists>r. mouse_sent (mousekey_task c now s) = mouse_sent s @ [r] \<and> task_report c now s r
    else mouse_sent (mousekey_task c now s) = mouse_sent s)"
  using task_steps [of c now s] should_send_iff by auto

text \<open>The ramp: a longer hold is never slower, once the first repetition is over.\<close>

lemma ramp_mono:
  assumes "d = 8 \<or> d = 1" and "1 \<le> ra" and "ra \<le> rb"
  shows "speed_unit d 127 m t 0 ra \<le> speed_unit d 127 m t 0 rb"
proof -
  have r: "uint ra \<ge> 1" "uint ra \<le> uint rb" using assms(2,3) by (simp_all add: word_le_def)
  then have nz: "ra \<noteq> 0" "rb \<noteq> 0" by auto
  have m: "0 \<le> d * uint m" "d * uint m \<le> 2040" using assms(1) uint_of_u8 [of m] by auto
  define f where "f r = (if r \<ge> t then d * uint m else (d * uint m * uint r) div uint t)" for r :: u8
  have part: "0 \<le> f r \<and> f r \<le> d * uint m" if "r \<noteq> 0" for r
  proof (cases "r \<ge> t")
    case False
    then have "uint r \<le> uint t" "0 < uint t" by (simp_all add: word_le_def) (metis not_le order_le_less_trans uint_ge_0)
    then have "d * uint m * uint r \<le> d * uint m * uint t" using m by (simp add: mult_left_mono)
    then have "f r \<le> (d * uint m * uint t) div uint t" using False \<open>0 < uint t\<close> zdiv_mono1 [of "d * uint m * uint r" "d * uint m * uint t" "uint t"] by (simp add: f_def)
    then show ?thesis using False \<open>0 < uint t\<close> m by (simp add: f_def pos_imp_zdiv_nonneg_iff)
  qed (use m in \<open>simp add: f_def\<close>)
  have mono: "f ra \<le> f rb"
  proof (cases "rb \<ge> t")
    case False
    then have "\<not> ra \<ge> t" "0 < uint t" using assms(3) by (auto simp: word_le_def) (metis not_le order_le_less_trans uint_ge_0)
    then show ?thesis using False r m by (simp add: f_def zdiv_mono1 mult_left_mono)
  qed (use part [of ra] r nz in \<open>auto simp: f_def\<close>)
  have u: "speed_unit d 127 m t 0 r = (if f r > 127 then 127 else if f r = 0 then 1 else f r)" if "r \<noteq> 0" for r
  proof -
    have "uint (as_u16 (f r)) = f r" using part [OF that] m by (intro unat_word_of_int_id) simp_all
    then show ?thesis using that by (simp add: speed_unit_def f_def Let_def)
  qed
  show ?thesis using mono part [OF nz(1)] by (simp add: u [OF nz(1)] u [OF nz(2)])
qed

section \<open>Runs\<close>

datatype mouse_op = MousePress u8 | MouseRelease u8 | MouseTick | MouseClear

fun mouse_exec :: "mk_config \<Rightarrow> u16 \<times> mouse_op \<Rightarrow> mouse \<Rightarrow> mouse" where
  "mouse_exec c (now, MousePress k) s = mousekey_send now (mousekey_on c k s)"
| "mouse_exec c (now, MouseRelease k) s = mousekey_send now (mousekey_off k s)"
| "mouse_exec c (now, MouseTick) s = mousekey_task c now s"
| "mouse_exec c (now, MouseClear) s = mousekey_send now (mousekey_clear s)"

definition mouse_init :: mouse where
  "mouse_init = \<lparr>mouse_report = no_mouse_report, mousekey_accel = 0, mousekey_repeat = 0, mousekey_wheel_repeat = 0,
     last_timer_c = 0, last_timer_w = 0, mouse_sent = []\<rparr>"

lemma exec_ok: "mouse_ok s \<Longrightarrow> mouse_ok (mouse_exec c e s)"
  by (cases e; cases "snd e") (auto intro: mousekey_send_ok on_ok off_ok clear_ok task_ok)

lemma run_ok: "mouse_ok s \<Longrightarrow> mouse_ok (fold (mouse_exec c) es s)"
  by (induction es arbitrary: s) (simp_all add: exec_ok)


lemma mouse_demo:
  "map (\<lambda>r. (mr_x r, mr_y r)) (mouse_sent (fold (mouse_exec mk_default)
     [(100, MousePress QK_MOUSE_CURSOR_RIGHT), (111, MouseTick), (120, MousePress QK_MOUSE_CURSOR_UP), (150, MouseTick),
      (160, MouseRelease QK_MOUSE_CURSOR_RIGHT), (161, MouseRelease QK_MOUSE_CURSOR_UP)] mouse_init)) =
   [(8, 0), (2, 0), (8, -2), (4, -4), (0, -2), (0, 0)]"
  by code_simp

end
