(* ===== verification/Actions.thy ===== *)
theory Actions
  imports Tapping Modifiers Mousekey
begin

text \<open>
  Executing actions (\<open>quantum/action.c\<close>): what a press or a release does to the reports, the layers, the mouse and the
  usages, once \<open>Tapping\<close> has settled it; the lookups of \<open>keymap_common.c\<close> and \<open>keymap_introspection.c\<close> and the usage
  reports of \<open>host.c\<close>.  Configuration: \<open>EXTRAKEY_ENABLE\<close>, \<open>MOUSEKEY_ENABLE\<close>, \<open>NKRO_ENABLE\<close>, \<open>ENCODER_MAP_ENABLE\<close>, one-shot keys
  without \<open>ONESHOT_TAP_TOGGLE\<close> and timeout, no swap hands, retro tapping, locking keys, command console or pointing
  device.  \<open>history\<close> is a ghost: the events \<open>process_record\<close> has handled.
\<close>

section \<open>State\<close>

text \<open>\<open>user\<close> is whatever the keyboard's and the keymap's hooks keep.\<close>

record ('w, 'u) kbd =
  host :: host_state
  lay :: "'w layers"
  cache :: layer_cache
  conf :: keymap_config
  ee_keymap :: keymap_config
  ee_default_layer :: u8
  ee_handedness :: bool
  ee_disabled :: bool
  mouse_st :: mouse
  last_system_usage :: u16
  last_consumer_usage :: u16
  extra_sent :: "(u8 \<times> u16) list"
  clock :: u32
  sc_last :: u8
  sc_timer :: u16
  grave_esc_was_shifted :: bool
  debug_enable :: bool
  restarted :: "bool option"
  user :: 'u
  history :: "keyevent list"

text \<open>What is fixed at build time (the keymap, sizes, the per-key tapping callbacks of the keymap), and \<open>host_can_send_nkro\<close>.\<close>

record kb_env =
  keymaps :: "u8 \<Rightarrow> keypos \<Rightarrow> u16"
  encoder_map :: "u8 \<Rightarrow> nat \<Rightarrow> bool \<Rightarrow> u16"
  num_keymap_layers :: nat
  max_layer :: nat
  matrix_rows :: nat
  matrix_cols :: nat
  num_encoders :: nat
  can_nkro :: bool
  mk :: mk_config
  tri :: tri_layers
  get_tapping_term :: "u16 \<Rightarrow> keyrecord \<Rightarrow> u16"
  get_quick_tap_term :: "u16 \<Rightarrow> keyrecord \<Rightarrow> u16"
  get_permissive_hold :: "u16 \<Rightarrow> keyrecord \<Rightarrow> bool"
  get_hold_on_other_key_press :: "u16 \<Rightarrow> keyrecord \<Rightarrow> bool"

definition on_host :: "(host_state \<Rightarrow> host_state) \<Rightarrow> ('w, 'u) kbd \<Rightarrow> ('w, 'u) kbd" where
  "on_host f s = s\<lparr>host := f (host s)\<rparr>"

definition on_lay :: "('w layers \<Rightarrow> 'w layers) \<Rightarrow> ('w, 'u) kbd \<Rightarrow> ('w, 'u) kbd" where
  "on_lay f s = s\<lparr>lay := f (lay s)\<rparr>"

definition on_mouse :: "(mouse \<Rightarrow> mouse) \<Rightarrow> ('w, 'u) kbd \<Rightarrow> ('w, 'u) kbd" where
  "on_mouse f s = s\<lparr>mouse_st := f (mouse_st s)\<rparr>"

definition timer_read :: "('w, 'u) kbd \<Rightarrow> u16" where
  "timer_read s = ucast (clock s)"

definition wait_ms :: "u32 \<Rightarrow> ('w, 'u) kbd \<Rightarrow> ('w, 'u) kbd" where
  "wait_ms d s = s\<lparr>clock := clock s + d\<rparr>"

section \<open>The keymap\<close>

abbreviation KC_TRNS :: u16 where "KC_TRNS \<equiv> 1"
abbreviation KEYLOC_ENCODER_CW :: nat where "KEYLOC_ENCODER_CW \<equiv> 253"
abbreviation KEYLOC_ENCODER_CCW :: nat where "KEYLOC_ENCODER_CCW \<equiv> 252"

definition keycode_at_keymap_location :: "kb_env \<Rightarrow> u8 \<Rightarrow> keypos \<Rightarrow> u16" where
  "keycode_at_keymap_location env layer key =
     (if unat layer < num_keymap_layers env \<and> fst key < matrix_rows env \<and> snd key < matrix_cols env
      then keymaps env layer key else KC_TRNS)"

definition keycode_at_encodermap_location :: "kb_env \<Rightarrow> u8 \<Rightarrow> nat \<Rightarrow> bool \<Rightarrow> u16" where
  "keycode_at_encodermap_location env layer idx clockwise =
     (if unat layer < num_keymap_layers env \<and> idx < num_encoders env then encoder_map env layer idx clockwise else KC_TRNS)"

definition keymap_key_to_keycode :: "kb_env \<Rightarrow> u8 \<Rightarrow> keypos \<Rightarrow> u16" where
  "keymap_key_to_keycode env layer key =
     (if fst key < matrix_rows env \<and> snd key < matrix_cols env then keycode_at_keymap_location env layer key
      else if fst key = KEYLOC_ENCODER_CW \<and> snd key < num_encoders env then keycode_at_encodermap_location env layer (snd key) True
      else if fst key = KEYLOC_ENCODER_CCW \<and> snd key < num_encoders env then keycode_at_encodermap_location env layer (snd key) False
      else 0)"

definition action_for_key :: "kb_env \<Rightarrow> ('w, 'u) kbd \<Rightarrow> u8 \<Rightarrow> keypos \<Rightarrow> u16" where
  "action_for_key env s layer key = action_for_keycode (conf s) (keymap_key_to_keycode env layer key)"

definition switch_layer :: "kb_env \<Rightarrow> keypos \<Rightarrow> ('l::len word, 'u) kbd \<Rightarrow> u8" where
  "switch_layer env key s = layer_switch_get_layer (action_for_key env s) (max_layer env) key (lay s)"

definition key_action :: "kb_env \<Rightarrow> keypos \<Rightarrow> ('l::len word, 'u) kbd \<Rightarrow> u16" where
  "key_action env key s = layer_switch_get_action (action_for_key env s) (max_layer env) key (lay s)"

definition get_event_keycode :: "kb_env \<Rightarrow> bool \<Rightarrow> keyevent \<Rightarrow> ('l::len word, 'u) kbd \<Rightarrow> u16 \<times> ('l word, 'u) kbd" where
  "get_event_keycode env update_layer_cache e s =
     (if ev_pressed e \<and> update_layer_cache then
        (let layer = switch_layer env (ev_key e) s
         in (keymap_key_to_keycode env layer (ev_key e),
             s\<lparr>cache := update_source_layers_cache (matrix_rows env) (matrix_cols env) (ev_key e) layer (cache s)\<rparr>))
      else (keymap_key_to_keycode env (read_source_layers_cache (matrix_rows env) (matrix_cols env) (ev_key e) (cache s)) (ev_key e), s))"

section \<open>Sending\<close>

abbreviation REPORT_ID_SYSTEM :: u8 where "REPORT_ID_SYSTEM \<equiv> 3"
abbreviation REPORT_ID_CONSUMER :: u8 where "REPORT_ID_CONSUMER \<equiv> 4"

definition send_report :: "kb_env \<Rightarrow> ('w, 'u) kbd \<Rightarrow> ('w, 'u) kbd" where
  "send_report env = on_host (send_keyboard_report (can_nkro env))"

definition host_system_send :: "u16 \<Rightarrow> ('w, 'u) kbd \<Rightarrow> ('w, 'u) kbd" where
  "host_system_send usage s =
     (if usage = last_system_usage s then s
      else s\<lparr>last_system_usage := usage, extra_sent := extra_sent s @ [(REPORT_ID_SYSTEM, usage)]\<rparr>)"

definition host_consumer_send :: "u16 \<Rightarrow> ('w, 'u) kbd \<Rightarrow> ('w, 'u) kbd" where
  "host_consumer_send usage s =
     (if usage = last_consumer_usage s then s
      else s\<lparr>last_consumer_usage := usage, extra_sent := extra_sent s @ [(REPORT_ID_CONSUMER, usage)]\<rparr>)"

definition register_mouse :: "kb_env \<Rightarrow> u8 \<Rightarrow> bool \<Rightarrow> ('w, 'u) kbd \<Rightarrow> ('w, 'u) kbd" where
  "register_mouse env code pressed s =
     on_mouse (mousekey_send (timer_read s) \<circ> (if pressed then mousekey_on (mk env) code else mousekey_off code)) s"

section \<open>Codes and modifiers\<close>

definition register_code :: "kb_env \<Rightarrow> u8 \<Rightarrow> ('w, 'u) kbd \<Rightarrow> ('w, 'u) kbd" where
  "register_code env code s =
     (let k = ucast code :: u16 in
      if code = 0 then s
      else if IS_BASIC_KEYCODE k then
        (let s = (if is_key_pressed (can_nkro env) code (host s)
                  then send_report env (on_host (del_key_from_report (can_nkro env) code) s) else s)
         in send_report env (on_host (add_key_to_report (can_nkro env) code) s))
      else if IS_MODIFIER_KEYCODE k then send_report env (on_host (add_mods (MOD_BIT k)) s)
      else if IS_SYSTEM_KEYCODE k then host_system_send (KEYCODE2SYSTEM k) s
      else if IS_CONSUMER_KEYCODE k \<or> IS_CONSUMER_RESERVED_KEYCODE k then host_consumer_send (KEYCODE2CONSUMER k) s
      else if IS_MOUSE_KEYCODE k then register_mouse env code True s
      else s)"

definition unregister_code :: "kb_env \<Rightarrow> u8 \<Rightarrow> ('w, 'u) kbd \<Rightarrow> ('w, 'u) kbd" where
  "unregister_code env code s =
     (let k = ucast code :: u16 in
      if code = 0 then s
      else if IS_BASIC_KEYCODE k then send_report env (on_host (del_key_from_report (can_nkro env) code) s)
      else if IS_MODIFIER_KEYCODE k then send_report env (on_host (del_mods (MOD_BIT k)) s)
      else if IS_SYSTEM_KEYCODE k then host_system_send 0 s
      else if IS_CONSUMER_KEYCODE k \<or> IS_CONSUMER_RESERVED_KEYCODE k then host_consumer_send 0 s
      else if IS_MOUSE_KEYCODE k then register_mouse env code False s
      else s)"

abbreviation KC_CAPS :: u8 where "KC_CAPS \<equiv> 0x39"
abbreviation TAP_CODE_DELAY :: u32 where "TAP_CODE_DELAY \<equiv> 0"
abbreviation TAP_HOLD_CAPS_DELAY :: u32 where "TAP_HOLD_CAPS_DELAY \<equiv> 80"

definition tap_delay :: "u8 \<Rightarrow> u32" where
  "tap_delay code = (if code = KC_CAPS then TAP_HOLD_CAPS_DELAY else TAP_CODE_DELAY)"

definition tap_code_delay :: "kb_env \<Rightarrow> u8 \<Rightarrow> u32 \<Rightarrow> ('w, 'u) kbd \<Rightarrow> ('w, 'u) kbd" where
  "tap_code_delay env code d s = unregister_code env code (wait_ms d (register_code env code s))"

definition tap_code :: "kb_env \<Rightarrow> u8 \<Rightarrow> ('w, 'u) kbd \<Rightarrow> ('w, 'u) kbd" where
  "tap_code env code = tap_code_delay env code (tap_delay code)"

definition register_mods :: "kb_env \<Rightarrow> u8 \<Rightarrow> ('w, 'u) kbd \<Rightarrow> ('w, 'u) kbd" where
  "register_mods env mods s = (if mods \<noteq> 0 then send_report env (on_host (add_mods mods) s) else s)"

definition unregister_mods :: "kb_env \<Rightarrow> u8 \<Rightarrow> ('w, 'u) kbd \<Rightarrow> ('w, 'u) kbd" where
  "unregister_mods env mods s = (if mods \<noteq> 0 then send_report env (on_host (del_mods mods) s) else s)"

definition register_weak_mods :: "kb_env \<Rightarrow> u8 \<Rightarrow> ('w, 'u) kbd \<Rightarrow> ('w, 'u) kbd" where
  "register_weak_mods env mods s = (if mods \<noteq> 0 then send_report env (on_host (add_weak_mods mods) s) else s)"

definition unregister_weak_mods :: "kb_env \<Rightarrow> u8 \<Rightarrow> ('w, 'u) kbd \<Rightarrow> ('w, 'u) kbd" where
  "unregister_weak_mods env mods s = (if mods \<noteq> 0 then send_report env (on_host (del_weak_mods mods) s) else s)"

definition clear_keyboard_but_mods_and_keys :: "kb_env \<Rightarrow> ('w, 'u) kbd \<Rightarrow> ('w, 'u) kbd" where
  "clear_keyboard_but_mods_and_keys env s =
     (let s = send_report env (on_host clear_weak_mods (host_consumer_send 0 (host_system_send 0 s)))
      in on_mouse (mousekey_send (timer_read s) \<circ> mousekey_clear) s)"

definition clear_keyboard_but_mods :: "kb_env \<Rightarrow> ('w, 'u) kbd \<Rightarrow> ('w, 'u) kbd" where
  "clear_keyboard_but_mods env s = clear_keyboard_but_mods_and_keys env (on_host (clear_keys_from_report (can_nkro env)) s)"

definition clear_keyboard :: "kb_env \<Rightarrow> ('w, 'u) kbd \<Rightarrow> ('w, 'u) kbd" where
  "clear_keyboard env s = clear_keyboard_but_mods env (on_host clear_mods s)"

section \<open>Executing an action\<close>

definition action_mods :: "u16 \<Rightarrow> u8" where
  "action_mods a = (if kind_id a = ACT_LMODS \<or> kind_id a = ACT_LMODS_TAP then key_mods a else push_bit 4 (key_mods a))"

text \<open>A key with modifiers: they are weak unless the key is itself a modifier or missing.\<close>

definition mods_key :: "kb_env \<Rightarrow> u16 \<Rightarrow> bool \<Rightarrow> ('w, 'u) kbd \<Rightarrow> ('w, 'u) kbd" where
  "mods_key env a pressed s =
     (let mods = action_mods a; code = key_code a; strong = IS_MODIFIER_CODE code \<or> code = 0 in
      if pressed then
        register_code env code
          (if mods \<noteq> 0 then send_report env (on_host (if strong then add_mods mods else add_weak_mods mods) s) else s)
      else
        (let s = unregister_code env code s
         in if mods \<noteq> 0 then send_report env (on_host (if strong then del_mods mods else del_weak_mods mods) s) else s))"

abbreviation TAPPING_TOGGLE :: "4 word" where "TAPPING_TOGGLE \<equiv> 5"

definition oneshot_mods_key :: "kb_env \<Rightarrow> u16 \<Rightarrow> bool \<Rightarrow> 4 word \<Rightarrow> ('w, 'u) kbd \<Rightarrow> ('w, 'u) kbd" where
  "oneshot_mods_key env a pressed n s =
     (let mods = action_mods a in
      if \<not> kc_oneshot_enable (conf s) then mods_key env a pressed s
      else if pressed then
        (if n = 0 then register_mods env mods s
         else if n = 1 then on_host (add_oneshot_mods mods) s else s)
      else
        (if n = 0 then on_host (del_oneshot_locked_mods mods \<circ> del_oneshot_mods mods) (unregister_mods env mods s) else s))"

definition mods_tap_key :: "kb_env \<Rightarrow> u16 \<Rightarrow> bool \<Rightarrow> 4 word \<Rightarrow> ('w, 'u) kbd \<Rightarrow> ('w, 'u) kbd" where
  "mods_tap_key env a pressed n s =
     (let mods = action_mods a; code = key_code a in
      if code = MODS_ONESHOT then oneshot_mods_key env a pressed n s
      else if code = MODS_TAP_TOGGLE then
        (if pressed then (if n \<le> TAPPING_TOGGLE then register_mods env mods s else s)
         else if n < TAPPING_TOGGLE then unregister_mods env mods s else s)
      else if pressed then (if n > 0 then register_code env code s else register_mods env mods s)
      else if n > 0 then unregister_code env code (wait_ms (tap_delay code) s)
      else unregister_mods env mods s)"

abbreviation PAGE_SYSTEM :: u8 where "PAGE_SYSTEM \<equiv> 0"
abbreviation PAGE_CONSUMER :: u8 where "PAGE_CONSUMER \<equiv> 1"

definition usage_key :: "u16 \<Rightarrow> bool \<Rightarrow> ('w, 'u) kbd \<Rightarrow> ('w, 'u) kbd" where
  "usage_key a pressed s =
     (let usage = (if pressed then usage_code a else 0) in
      if usage_page a = PAGE_SYSTEM then host_system_send usage s
      else if usage_page a = PAGE_CONSUMER then host_consumer_send usage s else s)"

abbreviation ON_PRESS :: u8 where "ON_PRESS \<equiv> 1"
abbreviation ON_RELEASE :: u8 where "ON_RELEASE \<equiv> 2"

text \<open>Four layers at a time: the bits of one part, the other parts kept when \<open>xbit\<close> asks for it.\<close>

definition bitop_operand :: "u16 \<Rightarrow> 'l::len word" where
  "bitop_operand a =
     (let shift = bitop_part a * 4
      in push_bit shift (ucast (bitop_bits a)) OR (if bitop_xbit a then NOT (push_bit shift 0xF) else 0))"

definition layer_bitop :: "u16 \<Rightarrow> bool \<Rightarrow> 'l::len word layers \<Rightarrow> 'l word layers" where
  "layer_bitop a pressed ls =
     (let w = bitop_operand a; opr = bitop_op a in
      if bitop_on a = 0 then
        (if pressed then ls
         else if opr = OP_BIT_AND then default_layer_and w ls
         else if opr = OP_BIT_OR then default_layer_or w ls
         else if opr = OP_BIT_XOR then default_layer_xor w ls
         else default_layer_set w ls)
      else if bitop_on a AND (if pressed then ON_PRESS else ON_RELEASE) \<noteq> 0 then
        (if opr = OP_BIT_AND then layer_and w ls
         else if opr = OP_BIT_OR then layer_or w ls
         else if opr = OP_BIT_XOR then layer_xor w ls
         else layer_state_set w ls)
      else ls)"

definition layer_mods_key :: "kb_env \<Rightarrow> u16 \<Rightarrow> bool \<Rightarrow> ('l::len word, 'u) kbd \<Rightarrow> ('l word, 'u) kbd" where
  "layer_mods_key env a pressed s =
     (if pressed then register_mods env (layer_mods_mods a) (on_lay (layer_on (layer_mods_layer a)) s)
      else on_lay (layer_off (layer_mods_layer a)) (unregister_mods env (layer_mods_mods a) s))"

definition oneshot_layer_key :: "u8 \<Rightarrow> bool \<Rightarrow> 4 word \<Rightarrow> ('l::len word, 'u) kbd \<Rightarrow> ('l word, 'u) kbd" where
  "oneshot_layer_key layer pressed n s =
     (if \<not> kc_oneshot_enable (conf s) then on_lay (if pressed then layer_on layer else layer_off layer) s
      else if pressed then on_lay (set_oneshot_layer layer ONESHOT_START) s
      else
        (let s = on_lay (clear_oneshot_layer_state ONESHOT_PRESSED) s
         in if n > 1 then on_lay (clear_oneshot_layer_state ONESHOT_OTHER_KEY_PRESSED) s else s))"

definition layer_tap_key :: "kb_env \<Rightarrow> u16 \<Rightarrow> bool \<Rightarrow> 4 word \<Rightarrow> ('l::len word, 'u) kbd \<Rightarrow> ('l word, 'u) kbd" where
  "layer_tap_key env a pressed n s =
     (let code = key_code a; layer = layer_tap_val a in
      if code = OP_TAP_TOGGLE then
        (if (if pressed then n < TAPPING_TOGGLE else n \<le> TAPPING_TOGGLE) then on_lay (layer_invert layer) s else s)
      else if code = OP_ON_OFF then on_lay (if pressed then layer_on layer else layer_off layer) s
      else if code = OP_OFF_ON then on_lay (if pressed then layer_off layer else layer_on layer) s
      else if code = OP_SET_CLEAR then on_lay (if pressed then layer_move layer else layer_clear) s
      else if code = OP_ONESHOT then oneshot_layer_key layer pressed n s
      else if pressed then (if n > 0 then register_code env code s else on_lay (layer_on layer) s)
      else if n > 0 then unregister_code env code (wait_ms (tap_delay code) s)
      else on_lay (layer_off layer) s)"

text \<open>A key that is not a modifier ends the one-shot layer.\<close>

definition ends_oneshot :: "u16 \<Rightarrow> bool \<Rightarrow> 4 word \<Rightarrow> ('l::len word, 'u) kbd \<Rightarrow> bool" where
  "ends_oneshot a pressed n s \<longleftrightarrow> is_oneshot_layer_active (lay s) \<and> pressed \<and>
     (kind_id a = ACT_USAGE \<or>
      \<not> (IS_MODIFIER_CODE (key_code a) \<or>
         (kind_id a \<in> {ACT_LMODS_TAP, ACT_RMODS_TAP} \<and> (key_code a \<le> MODS_TAP_TOGGLE \<or> n = 0)))) \<and>
     kc_oneshot_enable (conf s)"

definition is_layer_action :: "u16 \<Rightarrow> bool" where
  "is_layer_action a \<longleftrightarrow> kind_id a \<in> {ACT_LAYER, ACT_LAYER_MODS, ACT_LAYER_TAP, ACT_LAYER_TAP_EXT}"

definition execute_action :: "kb_env \<Rightarrow> u16 \<Rightarrow> bool \<Rightarrow> 4 word \<Rightarrow> ('l::len word, 'u) kbd \<Rightarrow> ('l word, 'u) kbd" where
  "execute_action env a pressed n s =
     (let k = kind_id a in
      if k = ACT_LMODS \<or> k = ACT_RMODS then mods_key env a pressed s
      else if k = ACT_LMODS_TAP \<or> k = ACT_RMODS_TAP then mods_tap_key env a pressed n s
      else if k = ACT_USAGE then usage_key a pressed s
      else if k = ACT_MOUSEKEY then register_mouse env (key_code a) pressed s
      else if k = ACT_LAYER then on_lay (layer_bitop a pressed) s
      else if k = ACT_LAYER_MODS then layer_mods_key env a pressed s
      else if k = ACT_LAYER_TAP \<or> k = ACT_LAYER_TAP_EXT then layer_tap_key env a pressed n s
      else s)"

text \<open>\<open>again\<close> is the call back to \<open>process_record\<close> that releases the key a one-shot layer was for; the LEDs that a layer
  action refreshes are not part of the state.\<close>

definition process_action ::
  "kb_env \<Rightarrow> (keyrecord \<Rightarrow> ('l::len word, 'u) kbd \<Rightarrow> keyrecord \<times> ('l word, 'u) kbd) \<Rightarrow> u16 \<Rightarrow> keyrecord
   \<Rightarrow> ('l word, 'u) kbd \<Rightarrow> keyrecord \<times> ('l word, 'u) kbd"
where
  "process_action env again a r s =
     (let pressed = ev_pressed (event r); n = tap_count (tap r); ends = ends_oneshot a pressed n s;
          s = (if ends then on_lay (clear_oneshot_layer_state ONESHOT_OTHER_KEY_PRESSED) s else s);
          do_release_oneshot = (ends \<and> \<not> is_oneshot_layer_active (lay s) \<and> \<not> is_layer_action a);
          s = execute_action env a pressed n s
      in if do_release_oneshot \<and> get_oneshot_layer_state (lay s) AND ONESHOT_PRESSED = 0 then
           (let r = r\<lparr>event := (event r)\<lparr>ev_pressed := False\<rparr>\<rparr>;
                s = on_lay (layer_on (get_oneshot_layer (lay s))) s
            in case again r s of (r, s) \<Rightarrow> (r, on_lay (layer_off (get_oneshot_layer (lay s))) s))
         else (r, s))"

section \<open>\<open>process_record\<close>\<close>

definition process_record_handler ::
  "kb_env \<Rightarrow> (keyrecord \<Rightarrow> ('l::len word, 'u) kbd \<Rightarrow> keyrecord \<times> ('l word, 'u) kbd) \<Rightarrow> keyrecord
   \<Rightarrow> ('l word, 'u) kbd \<Rightarrow> keyrecord \<times> ('l word, 'u) kbd"
where
  "process_record_handler env again r s =
     (case store_or_get_action (action_for_key env s) (max_layer env) (matrix_rows env) (matrix_cols env) False
             (ev_pressed (event r)) (ev_key (event r)) (lay s) (cache s) of
        (a, c) \<Rightarrow> process_action env again a r (s\<lparr>cache := c\<rparr>))"

text \<open>\<open>quantum\<close> is \<open>process_record_quantum\<close>, defined in \<open>Handlers\<close>; \<open>post\<close> is \<open>post_process_record_quantum\<close>, whose hooks are
  the keyboard's own.\<close>

definition process_record_with ::
  "kb_env \<Rightarrow> (keyrecord \<Rightarrow> ('l::len word, 'u) kbd \<Rightarrow> bool \<times> ('l word, 'u) kbd) \<Rightarrow> (keyrecord \<Rightarrow> ('l word, 'u) kbd \<Rightarrow> ('l word, 'u) kbd)
   \<Rightarrow> (keyrecord \<Rightarrow> ('l word, 'u) kbd \<Rightarrow> keyrecord \<times> ('l word, 'u) kbd) \<Rightarrow> keyrecord \<Rightarrow> ('l word, 'u) kbd \<Rightarrow> keyrecord \<times> ('l word, 'u) kbd"
where
  "process_record_with env quantum post again r s =
     (if IS_NOEVENT (event r) then (r, s)
      else case quantum r (s\<lparr>history := history s @ [event r]\<rparr>) of (continue, s) \<Rightarrow>
        if \<not> continue then
          (r, if is_oneshot_layer_active (lay s) \<and> ev_pressed (event r) \<and> kc_oneshot_enable (conf s)
              then on_lay (clear_oneshot_layer_state ONESHOT_OTHER_KEY_PRESSED) s else s)
        else case process_record_handler env again r s of (r, s) \<Rightarrow> (r, post r s))"

text \<open>The record handed back is a release, and a release is never handed back again.\<close>

definition process_record ::
  "kb_env \<Rightarrow> (keyrecord \<Rightarrow> ('l::len word, 'u) kbd \<Rightarrow> bool \<times> ('l word, 'u) kbd) \<Rightarrow> (keyrecord \<Rightarrow> ('l word, 'u) kbd \<Rightarrow> ('l word, 'u) kbd)
   \<Rightarrow> keyrecord \<Rightarrow> ('l word, 'u) kbd \<Rightarrow> keyrecord \<times> ('l word, 'u) kbd"
where
  "process_record env quantum post = process_record_with env quantum post (process_record_with env quantum post Pair)"

lemma release_not_again:
  assumes "\<not> ev_pressed (event r)"
  shows "process_record_with env quantum post f r s = process_record_with env quantum post g r s"
proof -
  have "process_action env f a r s = process_action env g a r s" for a s
    using assms by (simp add: process_action_def ends_oneshot_def Let_def)
  then show ?thesis by (simp add: process_record_with_def process_record_handler_def case_prod_beta)
qed

text \<open>So \<open>process_record\<close> solves the recursion of the code.\<close>

lemma process_record_unfold:
  "process_record env quantum post r s = process_record_with env quantum post (process_record env quantum post) r s"
proof -
  let ?f = "process_record_with env quantum post Pair" and ?p = "process_record env quantum post"
  have rel: "?f r s = ?p r s" if "\<not> ev_pressed (event r)" for r s
    unfolding process_record_def by (rule release_not_again [OF that])
  have "process_action env ?f a r s = process_action env ?p a r s" for a s
    by (simp add: process_action_def Let_def rel)
  then show ?thesis
    unfolding process_record_def [of env quantum post] by (simp add: process_record_with_def process_record_handler_def process_record_def case_prod_beta)
qed

section \<open>The event log\<close>

text \<open>Nothing but \<open>process_record\<close> writes the log.\<close>

lemma base_history [simp]:
  "history (on_host f s) = history s" "history (on_lay g s) = history s" "history (on_mouse h s) = history s"
  "history (wait_ms d s) = history s" "history (host_system_send u s) = history s" "history (host_consumer_send u s) = history s"
  by (simp_all add: on_host_def on_lay_def on_mouse_def wait_ms_def host_system_send_def host_consumer_send_def)

lemma code_history [simp]:
  "history (send_report env s) = history s" "history (register_mouse env code b s) = history s"
  "history (register_code env code s) = history s" "history (unregister_code env code s) = history s"
  "history (register_mods env m s) = history s" "history (unregister_mods env m s) = history s"
  "history (register_weak_mods env m s) = history s" "history (unregister_weak_mods env m s) = history s"
  by (simp_all add: send_report_def register_mouse_def register_code_def unregister_code_def register_mods_def unregister_mods_def
        register_weak_mods_def unregister_weak_mods_def Let_def)

lemma tap_history [simp]:
  "history (tap_code env code s) = history s" "history (clear_keyboard env s) = history s"
  by (simp_all add: tap_code_def tap_code_delay_def clear_keyboard_def clear_keyboard_but_mods_def
        clear_keyboard_but_mods_and_keys_def Let_def)

lemma execute_action_history [simp]: "history (execute_action env a b n s) = history s"
  by (simp add: execute_action_def mods_key_def mods_tap_key_def oneshot_mods_key_def usage_key_def layer_mods_key_def
        layer_tap_key_def oneshot_layer_key_def Let_def)

definition released :: "keyrecord \<Rightarrow> keyrecord" where
  "released r = r\<lparr>event := (event r)\<lparr>ev_pressed := False\<rparr>\<rparr>"

lemma released_simps [simp]:
  "ev_pressed (event (released r)) = False" "ev_type (event (released r)) = ev_type (event r)" "tap (released r) = tap r"
  "IS_NOEVENT (event (released r)) = IS_NOEVENT (event r)" "released (released r) = released r"
  by (simp_all add: released_def IS_NOEVENT_def)

text \<open>An action is executed on the record itself, or the record comes back released after one call of \<open>again\<close>.\<close>

lemma process_action_shape:
  "\<exists>u b. history u = history s \<and> (b \<longrightarrow> ev_pressed (event r)) \<and> process_action env again a r s =
     (if b then (case again (released r) u of (r', v) \<Rightarrow> (r', on_lay (layer_off (get_oneshot_layer (lay v))) v)) else (r, u))"
proof -
  define e where "e = ends_oneshot a (ev_pressed (event r)) (tap_count (tap r)) s"
  define x where "x = (if e then on_lay (clear_oneshot_layer_state ONESHOT_OTHER_KEY_PRESSED) s else s)"
  define y where "y = execute_action env a (ev_pressed (event r)) (tap_count (tap r)) x"
  define b where "b \<longleftrightarrow> e \<and> \<not> is_oneshot_layer_active (lay x) \<and> \<not> is_layer_action a \<and> get_oneshot_layer_state (lay y) AND ONESHOT_PRESSED = 0"
  have "history x = history s" "history y = history s" by (simp_all add: x_def y_def)
  moreover have "b \<longrightarrow> ev_pressed (event r)" by (simp add: b_def e_def ends_oneshot_def)
  moreover have "process_action env again a r s =
      (if b then (case again (released r) (on_lay (layer_on (get_oneshot_layer (lay y))) y) of (r', v) \<Rightarrow> (r', on_lay (layer_off (get_oneshot_layer (lay v))) v)) else (r, y))"
    by (simp add: process_action_def Let_def released_def x_def y_def b_def e_def)
  ultimately show ?thesis
    by (intro exI [of _ "if b then on_lay (layer_on (get_oneshot_layer (lay y))) y else y"] exI [of _ b]) simp
qed

lemma process_action_cases:
  assumes "process_action env again a r s = (r', s')"
  shows "r' = r \<and> history s' = history s \<or>
    (\<exists>u v. ev_pressed (event r) \<and> history u = history s \<and> again (released r) u = (r', v) \<and> history s' = history v)"
proof -
  from process_action_shape obtain u b where u: "history u = history s" "b \<longrightarrow> ev_pressed (event r)"
    and p: "process_action env again a r s =
      (if b then (case again (released r) u of (r', v) \<Rightarrow> (r', on_lay (layer_off (get_oneshot_layer (lay v))) v)) else (r, u))"
    by blast
  obtain r1 v where "again (released r) u = (r1, v)" by fastforce
  then show ?thesis using p u assms by (cases b) auto
qed

definition quiet :: "(keyrecord \<Rightarrow> ('w, 'u) kbd \<Rightarrow> bool \<times> ('w, 'u) kbd) \<Rightarrow> (keyrecord \<Rightarrow> ('w, 'u) kbd \<Rightarrow> ('w, 'u) kbd) \<Rightarrow> bool" where
  "quiet quantum post \<longleftrightarrow> (\<forall>r s. history (snd (quantum r s)) = history s) \<and> (\<forall>r s. history (post r s) = history s)"

lemma quantum_logged: "quiet quantum post \<Longrightarrow> quantum r (s\<lparr>history := h\<rparr>) = (go, u) \<Longrightarrow> history u = h"
proof -
  assume "quiet quantum post" and q: "quantum r (s\<lparr>history := h\<rparr>) = (go, u)"
  then have "history (snd (quantum r (s\<lparr>history := h\<rparr>))) = history (s\<lparr>history := h\<rparr>)" unfolding quiet_def by blast
  then show "history u = h" by (simp add: q)
qed

lemma record_cases:
  assumes "quiet quantum post" and "\<not> IS_NOEVENT (event r)" and "process_record_with env quantum post again r s = (r', s')"
  shows "r' = r \<and> history s' = history s @ [event r] \<or>
    (\<exists>u v. ev_pressed (event r) \<and> history u = history s @ [event r] \<and> again (released r) u = (r', v) \<and> history s' = history v)"
proof -
  obtain go u where q: "quantum r (s\<lparr>history := history s @ [event r]\<rparr>) = (go, u)" by fastforce
  have u: "history u = history s @ [event r]" using quantum_logged [OF assms(1) q] .
  obtain r1 v where p: "process_record_handler env again r u = (r1, v)" by fastforce
  then obtain a c where a: "process_action env again a r (u\<lparr>cache := c\<rparr>) = (r1, v)"
    by (auto simp: process_record_handler_def split: prod.splits)
  show ?thesis
  proof (cases go)
    case True
    then have e: "r1 = r'" "post r1 v = s'" using assms(2,3) q p by (auto simp: process_record_with_def)
    then have "history s' = history v" using assms(1) by (auto simp: quiet_def)
    then show ?thesis using process_action_cases [OF a] e u by auto
  next
    case False
    then show ?thesis using assms(2,3) q u by (auto simp: process_record_with_def split: if_splits)
  qed
qed

lemma release_logged:
  assumes "quiet quantum post" and "\<not> IS_NOEVENT (event r)" and "\<not> ev_pressed (event r)"
    and "process_record_with env quantum post again r s = (r', s')"
  shows "r' = r \<and> history s' = history s @ [event r]"
  using record_cases [OF assms(1,2,4)] assms(3) by blast

text \<open>One call logs its event, and at most the release of the same key after it.\<close>

lemma record_logged:
  assumes "quiet quantum post" and "\<not> IS_NOEVENT (event r)" and "process_record env quantum post r s = (r', s')"
  shows "r' = r \<and> history s' = history s @ [event r] \<or>
    ev_pressed (event r) \<and> r' = released r \<and> history s' = history s @ [event r, event (released r)]"
  using record_cases [OF assms(1,2) assms(3) [unfolded process_record_def]]
proof (elim disjE exE conjE)
  fix u v assume "ev_pressed (event r)" "history u = history s @ [event r]"
    and a: "process_record_with env quantum post Pair (released r) u = (r', v)" and "history s' = history v"
  then show ?thesis using release_logged [OF assms(1) _ _ a] assms(2) by simp
qed simp

section \<open>The release of a one-shot key\<close>

text \<open>When the one-shot layer ends its number is forgotten, so the layer that \<open>process_action\<close> switches on around the
  release is always layer 0.\<close>

lemma oneshot_over:
  fixes ls :: "'l::len word layers"
  assumes "is_oneshot_layer_active ls" and "oneshot_on ls" and "\<not> is_oneshot_layer_active (clear_oneshot_layer_state st ls)"
  shows "get_oneshot_layer (clear_oneshot_layer_state st ls) = 0"
proof -
  have "oneshot_layer_data ls AND NOT st \<noteq> oneshot_layer_data ls" if "(oneshot_layer_data ls AND NOT st) AND 7 = 0"
    using that assms(1) by (metis is_oneshot_layer_active_def get_oneshot_layer_state_def)
  then show ?thesis using assms(2,3)
    by (simp add: clear_oneshot_layer_state_def Let_def is_oneshot_layer_active_def get_oneshot_layer_state_def
        get_oneshot_layer_def reset_oneshot_layer_def split: if_splits)
qed

end
