(* ===== verification/Handlers.thy ===== *)
theory Handlers
  imports Actions
begin

text \<open>
  The keycode handlers that run before an action: \<open>process_record_quantum\<close> (\<open>quantum/quantum.c\<close>) and the
  \<open>process_*.c\<close> files of a default build (magic, space cadet, grave escape, tri layer, default layer, layer lock, one-shot
  and quantum keycodes).  \<open>layer_state_t\<close> has its default width of 16 bits.  The hooks of modules, keyboard and keymap,
  \<open>process_record_modules\<close> and \<open>process_record_kb\<close>, are an argument.
\<close>

type_synonym 'u keyboard = "(u16, 'u) kbd"
type_synonym 'u handler = "u16 \<Rightarrow> keyrecord \<Rightarrow> 'u keyboard \<Rightarrow> bool \<times> 'u keyboard"

section \<open>Keycodes with modifiers\<close>

definition extract_mod_bits :: "u16 \<Rightarrow> u8" where
  "extract_mod_bits code =
     (if 0x0100 \<le> code \<and> code \<le> 0x1FFF then
        (let bits = ucast (drop_bit 8 code AND 0xF) :: u8 in if code AND 0x1000 \<noteq> 0 then push_bit 4 bits else bits)
      else 0)"

definition register_code16 :: "kb_env \<Rightarrow> u16 \<Rightarrow> 'u keyboard \<Rightarrow> 'u keyboard" where
  "register_code16 env code s =
     register_code env (ucast code)
       ((if IS_MODIFIER_KEYCODE code \<or> code = 0 then register_mods env (extract_mod_bits code)
         else register_weak_mods env (extract_mod_bits code)) s)"

definition unregister_code16 :: "kb_env \<Rightarrow> u16 \<Rightarrow> 'u keyboard \<Rightarrow> 'u keyboard" where
  "unregister_code16 env code s =
     (if IS_MODIFIER_KEYCODE code \<or> code = 0 then unregister_mods env (extract_mod_bits code)
      else unregister_weak_mods env (extract_mod_bits code)) (unregister_code env (ucast code) s)"

definition tap_code16 :: "kb_env \<Rightarrow> u16 \<Rightarrow> 'u keyboard \<Rightarrow> 'u keyboard" where
  "tap_code16 env code s =
     unregister_code16 env code (wait_ms (if code = ucast KC_CAPS then TAP_HOLD_CAPS_DELAY else TAP_CODE_DELAY) (register_code16 env code s))"

section \<open>Stored configuration\<close>

text \<open>The EEPROM holds the default layer in one byte.\<close>

definition eeconfig_update_default_layer :: "u16 \<Rightarrow> 'u keyboard \<Rightarrow> 'u keyboard" where
  "eeconfig_update_default_layer state s = s\<lparr>ee_default_layer := ucast state\<rparr>"

definition eeconfig_read_default_layer :: "'u keyboard \<Rightarrow> u16" where
  "eeconfig_read_default_layer s = ucast (ee_default_layer s)"

text \<open>\<open>keymap_config\<close> is one variable; \<open>Modifiers\<close> and \<open>Layers\<close> each keep a copy of its one-shot bit.\<close>

definition set_conf :: "keymap_config \<Rightarrow> 'u keyboard \<Rightarrow> 'u keyboard" where
  "set_conf c s =
     s\<lparr>conf := c, host := (host s)\<lparr>oneshot_enable := kc_oneshot_enable c\<rparr>, lay := (lay s)\<lparr>oneshot_on := kc_oneshot_enable c\<rparr>\<rparr>"

definition eeconfig_read_keymap :: "'u keyboard \<Rightarrow> 'u keyboard" where
  "eeconfig_read_keymap s = set_conf (ee_keymap s) s"

definition eeconfig_update_keymap :: "'u keyboard \<Rightarrow> 'u keyboard" where
  "eeconfig_update_keymap s = s\<lparr>ee_keymap := conf s\<rparr>"

definition set_single_persistent_default_layer :: "u8 \<Rightarrow> 'u keyboard \<Rightarrow> 'u keyboard" where
  "set_single_persistent_default_layer layer s =
     on_lay (default_layer_set (col_mask (unat layer))) (eeconfig_update_default_layer (col_mask (unat layer)) s)"

definition oneshot_set :: "bool \<Rightarrow> 'u keyboard \<Rightarrow> 'u keyboard" where
  "oneshot_set active s =
     (if kc_oneshot_enable (conf s) \<noteq> active then
        on_lay (clear_oneshot_layer_state ONESHOT_OTHER_KEY_PRESSED)
          (eeconfig_update_keymap (set_conf ((conf s)\<lparr>kc_oneshot_enable := active\<rparr>) s))
      else s)"

section \<open>Handlers\<close>

definition perform_space_cadet :: "kb_env \<Rightarrow> keyrecord \<Rightarrow> u16 \<Rightarrow> u8 \<Rightarrow> u8 \<Rightarrow> u8 \<Rightarrow> 'u keyboard \<Rightarrow> 'u keyboard" where
  "perform_space_cadet env r keycode hold_mod tap_mod key s =
     (let is_mod = IS_MODIFIER_CODE; bit_of = (\<lambda>m. MOD_BIT (ucast (m :: u8))) in
      if ev_pressed (event r) then
        (let s = s\<lparr>sc_last := hold_mod, sc_timer := timer_read s\<rparr>
         in if is_mod hold_mod then register_mods env (bit_of hold_mod) s else s)
      else if sc_last s = hold_mod \<and> timer_diff (timer_read s) (sc_timer s) < get_tapping_term env keycode r then
        (let s = (if hold_mod \<noteq> tap_mod then
                    (let s = (if is_mod hold_mod then unregister_mods env (bit_of hold_mod) s else s)
                     in if is_mod tap_mod then register_mods env (bit_of tap_mod) s else s)
                  else s);
             s = tap_code env key s
         in if is_mod tap_mod then unregister_mods env (bit_of tap_mod) s else s)
      else if is_mod hold_mod then unregister_mods env (bit_of hold_mod) s else s)"

definition process_space_cadet :: "kb_env \<Rightarrow> 'u handler" where
  "process_space_cadet env keycode r s =
     (let go = (\<lambda>h t k. (False, perform_space_cadet env r keycode h t k s)) in
      if keycode = 0x7C1A then go 0xE1 0xE1 0x26
      else if keycode = 0x7C1B then go 0xE5 0xE5 0x27
      else if keycode = 0x7C18 then go 0xE0 0xE1 0x26
      else if keycode = 0x7C19 then go 0xE4 0xE5 0x27
      else if keycode = 0x7C1C then go 0xE2 0xE1 0x26
      else if keycode = 0x7C1D then go 0xE6 0xE5 0x27
      else if keycode = 0x7C1E then go 0xE5 1 0x28
      else (True, if ev_pressed (event r) then s\<lparr>sc_last := 0\<rparr> else s))"

abbreviation QK_GRAVE_ESCAPE :: u16 where "QK_GRAVE_ESCAPE \<equiv> 0x7C16"
abbreviation MOD_MASK_SG :: u8 where "MOD_MASK_SG \<equiv> 0xAA"

definition process_grave_esc :: "kb_env \<Rightarrow> 'u handler" where
  "process_grave_esc env keycode r s =
     (if keycode = QK_GRAVE_ESCAPE then
        (let shifted = real_mods (host s) AND MOD_MASK_SG \<noteq> 0; code = (\<lambda>sh. if sh then 0x35 else 0x29);
             s = (if ev_pressed (event r)
                  then on_host (add_key_to_report (can_nkro env) (code shifted)) (s\<lparr>grave_esc_was_shifted := shifted\<rparr>)
                  else on_host (del_key_from_report (can_nkro env) (code (grave_esc_was_shifted s))) s)
         in (False, send_report env s))
      else (True, s))"

text \<open>The \<open>switch\<close> of \<open>process_magic\<close> on the configuration, and the keycodes that first release everything.\<close>

definition magic_conf :: "u16 \<Rightarrow> keymap_config \<Rightarrow> keymap_config" where
  "magic_conf k c =
     (if k = 0x7000 then c\<lparr>swap_control_capslock := True\<rparr> else if k = 0x7001 then c\<lparr>swap_control_capslock := False\<rparr>
      else if k = 0x7002 then c\<lparr>swap_control_capslock := \<not> swap_control_capslock c\<rparr>
      else if k = 0x7003 then c\<lparr>capslock_to_control := False\<rparr> else if k = 0x7004 then c\<lparr>capslock_to_control := True\<rparr>
      else if k = 0x7005 then c\<lparr>swap_lalt_lgui := True\<rparr> else if k = 0x7006 then c\<lparr>swap_lalt_lgui := False\<rparr>
      else if k = 0x7007 then c\<lparr>swap_ralt_rgui := True\<rparr> else if k = 0x7008 then c\<lparr>swap_ralt_rgui := False\<rparr>
      else if k = 0x7009 then c\<lparr>no_gui := False\<rparr> else if k = 0x700A then c\<lparr>no_gui := True\<rparr>
      else if k = 0x700B then c\<lparr>no_gui := \<not> no_gui c\<rparr>
      else if k = 0x700C then c\<lparr>swap_grave_esc := True\<rparr> else if k = 0x700D then c\<lparr>swap_grave_esc := False\<rparr>
      else if k = 0x700E then c\<lparr>swap_backslash_backspace := True\<rparr> else if k = 0x700F then c\<lparr>swap_backslash_backspace := False\<rparr>
      else if k = 0x7010 then c\<lparr>swap_backslash_backspace := \<not> swap_backslash_backspace c\<rparr>
      else if k = 0x7011 then c\<lparr>nkro := True\<rparr> else if k = 0x7012 then c\<lparr>nkro := False\<rparr>
      else if k = 0x7013 then c\<lparr>nkro := \<not> nkro c\<rparr>
      else if k = 0x7014 then c\<lparr>swap_ralt_rgui := True, swap_lalt_lgui := True\<rparr>
      else if k = 0x7015 then c\<lparr>swap_ralt_rgui := False, swap_lalt_lgui := False\<rparr>
      else if k = 0x7016 then c\<lparr>swap_lalt_lgui := \<not> swap_lalt_lgui c, swap_ralt_rgui := \<not> swap_lalt_lgui c\<rparr>
      else if k = 0x7017 then c\<lparr>swap_lctl_lgui := True\<rparr> else if k = 0x7018 then c\<lparr>swap_lctl_lgui := False\<rparr>
      else if k = 0x7019 then c\<lparr>swap_rctl_rgui := True\<rparr> else if k = 0x701A then c\<lparr>swap_rctl_rgui := False\<rparr>
      else if k = 0x701B then c\<lparr>swap_rctl_rgui := True, swap_lctl_lgui := True\<rparr>
      else if k = 0x701C then c\<lparr>swap_rctl_rgui := False, swap_lctl_lgui := False\<rparr>
      else if k = 0x701D then c\<lparr>swap_lctl_lgui := \<not> swap_lctl_lgui c, swap_rctl_rgui := \<not> swap_lctl_lgui c\<rparr>
      else if k = 0x7020 then c\<lparr>swap_escape_capslock := True\<rparr> else if k = 0x7021 then c\<lparr>swap_escape_capslock := False\<rparr>
      else if k = 0x7022 then c\<lparr>swap_escape_capslock := \<not> swap_escape_capslock c\<rparr>
      else c)"

definition process_magic :: "kb_env \<Rightarrow> 'u handler" where
  "process_magic env keycode r s =
     (if ev_pressed (event r) \<and> IS_MAGIC_KEYCODE keycode then
        (let s = eeconfig_read_keymap s;
             s = (if keycode \<in> {0x7011, 0x7012, 0x7013} then clear_keyboard env s else s);
             s = set_conf (magic_conf keycode (conf s)) s;
             s = (if keycode = 0x701E then s\<lparr>ee_handedness := True\<rparr>
                  else if keycode = 0x701F then s\<lparr>ee_handedness := False\<rparr> else s)
         in (False, clear_keyboard env (eeconfig_update_keymap s)))
      else (True, s))"

definition process_tri_layer_key :: "kb_env \<Rightarrow> 'u handler" where
  "process_tri_layer_key env keycode r s =
     (case process_tri_layer (tri env) keycode (ev_pressed (event r)) (lay s) of (go, ls) \<Rightarrow> (go, s\<lparr>lay := ls\<rparr>))"

definition process_default_layer :: "'u handler" where
  "process_default_layer keycode r s =
     (if 0x52E0 \<le> keycode \<and> keycode \<le> 0x52FF \<and> \<not> ev_pressed (event r)
      then (False, set_single_persistent_default_layer (ucast (keycode AND 0x1F)) s) else (True, s))"

definition handle_mo_or_tt :: "u8 \<Rightarrow> keyrecord \<Rightarrow> 'u keyboard \<Rightarrow> bool \<times> 'u keyboard" where
  "handle_mo_or_tt layer r s =
     (if is_layer_locked layer (lay s)
      then (False, if ev_pressed (event r) then on_lay (layer_lock_invert (clock s) layer) s else s) else (True, s))"

abbreviation QK_LAYER_LOCK :: u16 where "QK_LAYER_LOCK \<equiv> 0x7C7B"

definition process_layer_lock :: "kb_env \<Rightarrow> 'u handler" where
  "process_layer_lock env keycode r s =
     (let pressed = ev_pressed (event r);
          s = on_lay (layer_lock_activity_trigger (clock s)) s;
          s = (if locked_layers (lay s) AND NOT (layer_state (lay s)) \<noteq> 0
               then on_lay (\<lambda>ls. ls\<lparr>locked_layers := locked_layers ls AND layer_state ls\<rparr>) s else s) in
      if keycode = QK_LAYER_LOCK then
        (False, if pressed then on_lay (layer_lock_invert (clock s) (biton16 (layer_state (lay s)))) s else s)
      else if 0x5220 \<le> keycode \<and> keycode \<le> 0x523F \<or> 0x52C0 \<le> keycode \<and> keycode \<le> 0x52DF then
        handle_mo_or_tt (ucast (keycode AND 0x1F)) r s
      else if 0x5000 \<le> keycode \<and> keycode \<le> 0x51FF then
        (let layer = ucast (drop_bit 5 keycode AND 0xF) in
         if is_layer_locked layer (lay s) then
           (False, if pressed then on_lay (layer_lock_invert (clock s) layer) s else send_report env (on_host clear_mods s))
         else (True, s))
      else if 0x4000 \<le> keycode \<and> keycode \<le> 0x4FFF then
        (\<not> (tap_count (tap r) = 0 \<and> \<not> pressed \<and> is_layer_locked (ucast (drop_bit 8 keycode AND 0xF)) (lay s)), s)
      else (True, s))"

definition process_oneshot :: "'u handler" where
  "process_oneshot keycode r s =
     (if ev_pressed (event r) then
        (if keycode = 0x7C5C then (False, oneshot_set (\<not> kc_oneshot_enable (conf s)) s)
         else if keycode = 0x7C5A then (False, oneshot_set True s)
         else if keycode = 0x7C5B then (False, oneshot_set False s)
         else (True, s))
      else (True, s))"

text \<open>Jumping to the bootloader or resetting does not return; \<open>restarted\<close> records which of them was called.\<close>

definition shutdown_quantum :: "kb_env \<Rightarrow> bool \<Rightarrow> 'u keyboard \<Rightarrow> 'u keyboard" where
  "shutdown_quantum env jump s = (wait_ms 250 (clear_keyboard env s))\<lparr>restarted := Some jump\<rparr>"

definition process_quantum :: "kb_env \<Rightarrow> 'u handler" where
  "process_quantum env keycode r s =
     (if ev_pressed (event r) then
        (if keycode = 0x7C00 then (False, shutdown_quantum env True s)
         else if keycode = 0x7C01 then (False, shutdown_quantum env False s)
         else if keycode = 0x7C02 then (False, s\<lparr>debug_enable := \<not> debug_enable s\<rparr>)
         else if keycode = 0x7C03 then (False, shutdown_quantum env False (s\<lparr>ee_disabled := True\<rparr>))
         else (True, s))
      else (True, s))"

section \<open>\<open>process_record_quantum\<close>\<close>

text \<open>A chain of handlers joined by \<open>&&\<close>.\<close>

fun chain :: "'u handler list \<Rightarrow> 'u handler" where
  "chain [] keycode r s = (True, s)"
| "chain (h # hs) keycode r s = (case h keycode r s of (go, s) \<Rightarrow> if go then chain hs keycode r s else (False, s))"

text \<open>The ghost \<open>history\<close> is out of the hooks' reach.\<close>

definition shielded :: "'u handler \<Rightarrow> 'u handler" where
  "shielded h keycode r s = (case h keycode r s of (go, u) \<Rightarrow> (go, u\<lparr>history := history s\<rparr>))"

definition quantum_handlers :: "kb_env \<Rightarrow> 'u handler \<Rightarrow> 'u handler list" where
  "quantum_handlers env hooks =
     [shielded hooks, process_space_cadet env, process_magic env, process_grave_esc env, process_tri_layer_key env, process_default_layer,
      process_layer_lock env, process_oneshot, process_quantum env]"

definition process_record_quantum :: "kb_env \<Rightarrow> 'u handler \<Rightarrow> keyrecord \<Rightarrow> 'u keyboard \<Rightarrow> bool \<times> 'u keyboard" where
  "process_record_quantum env hooks r s =
     (case get_event_keycode env True (event r) s of (keycode, s) \<Rightarrow> chain (quantum_handlers env hooks) keycode r s)"

definition post_process_record_quantum ::
  "kb_env \<Rightarrow> (u16 \<Rightarrow> keyrecord \<Rightarrow> 'u keyboard \<Rightarrow> 'u keyboard) \<Rightarrow> keyrecord \<Rightarrow> 'u keyboard \<Rightarrow> 'u keyboard"
where
  "post_process_record_quantum env post r s = (case get_event_keycode env False (event r) s of (keycode, s) \<Rightarrow> (post keycode r s)\<lparr>history := history s\<rparr>)"

section \<open>No handler touches the event log\<close>

definition silent :: "'u handler \<Rightarrow> bool" where
  "silent h \<longleftrightarrow> (\<forall>k r s. history (snd (h k r s)) = history s)"

lemma conf_history [simp]:
  "history (set_conf c s) = history s" "history (eeconfig_read_keymap s) = history s" "history (eeconfig_update_keymap s) = history s"
  "history (set_single_persistent_default_layer l s) = history s" "history (oneshot_set b s) = history s"
  "history (shutdown_quantum env j s) = history s" "history (perform_space_cadet env r k h t key s) = history s"
  by (simp_all add: set_conf_def eeconfig_read_keymap_def eeconfig_update_keymap_def set_single_persistent_default_layer_def
        eeconfig_update_default_layer_def oneshot_set_def shutdown_quantum_def perform_space_cadet_def Let_def)

lemma get_event_keycode_history [simp]: "history (snd (get_event_keycode env b e s)) = history s"
  by (simp add: get_event_keycode_def Let_def)

lemma handlers_silent: "h \<in> set (quantum_handlers env hooks) \<Longrightarrow> silent h"
  by (auto simp: quantum_handlers_def silent_def shielded_def process_space_cadet_def process_magic_def process_grave_esc_def
        process_tri_layer_key_def process_default_layer_def process_layer_lock_def handle_mo_or_tt_def process_oneshot_def
        process_quantum_def Let_def split: prod.splits)

lemma chain_silent: "(\<And>h. h \<in> set hs \<Longrightarrow> silent h) \<Longrightarrow> history (snd (chain hs k r s)) = history s"
proof (induction hs arbitrary: s)
  case (Cons h hs)
  obtain go u where h: "h k r s = (go, u)" by fastforce
  have "history u = history s" using Cons.prems [of h] h unfolding silent_def by (metis list.set_intros(1) snd_conv)
  then show ?case using Cons h by simp
qed simp

lemma quantum_quiet:
  fixes hooks :: "'u handler"
  shows "quiet (process_record_quantum env hooks) (post_process_record_quantum env post)"
  unfolding quiet_def
proof (intro conjI allI)
  fix r :: keyrecord and s :: "'u keyboard"
  obtain k u where u: "get_event_keycode env True (event r) s = (k, u)" by fastforce
  then have "history u = history s" using get_event_keycode_history [of env True "event r" s] by simp
  then show "history (snd (process_record_quantum env hooks r s)) = history s"
    using chain_silent [of "quantum_handlers env hooks" k r u, OF handlers_silent] by (simp add: process_record_quantum_def u)
  obtain k u where u: "get_event_keycode env False (event r) s = (k, u)" by fastforce
  then have "history u = history s" using get_event_keycode_history [of env False "event r" s] by simp
  then show "history (post_process_record_quantum env post r s) = history s" by (simp add: post_process_record_quantum_def u)
qed

section \<open>The stored default layer\<close>

text \<open>One byte: a default layer from 8 on comes back as no layer.\<close>

lemma byte_of_mask: "ucast (ucast (col_mask n :: u16) :: u8) = (if n < 8 then col_mask n else 0 :: u16)"
  by (rule bit_word_eqI) (auto simp: bit_simps row_simps)

lemma persistent_layer_read:
  "eeconfig_read_default_layer (set_single_persistent_default_layer layer s) =
    (if unat layer < 8 then default_layer_state (lay (set_single_persistent_default_layer layer s)) else 0)"
  by (simp add: eeconfig_read_default_layer_def set_single_persistent_default_layer_def eeconfig_update_default_layer_def
        on_lay_def default_layer_set_def byte_of_mask)

section \<open>Magic keycodes\<close>

text \<open>What the keymap configuration becomes is what is stored, so it survives a restart.\<close>

lemma magic_stored:
  "ev_pressed (event r) \<Longrightarrow> IS_MAGIC_KEYCODE k \<Longrightarrow>
   conf (snd (process_magic env k r s)) = magic_conf k (ee_keymap s) \<and> ee_keymap (snd (process_magic env k r s)) = magic_conf k (ee_keymap s)"
proof -
  have c: "conf (clear_keyboard env u) = conf u \<and> ee_keymap (clear_keyboard env u) = ee_keymap u" for u :: "'u keyboard"
    by (simp add: clear_keyboard_def clear_keyboard_but_mods_def clear_keyboard_but_mods_and_keys_def on_host_def on_mouse_def
          host_system_send_def host_consumer_send_def send_report_def Let_def)
  show "ev_pressed (event r) \<Longrightarrow> IS_MAGIC_KEYCODE k \<Longrightarrow> ?thesis"
    by (auto simp: process_magic_def eeconfig_read_keymap_def eeconfig_update_keymap_def set_conf_def c Let_def)
qed

section \<open>A small keyboard\<close>

text \<open>One row: \<open>MT(MOD_LSFT, KC_A)\<close> and \<open>KC_B\<close>, tapping term 200.\<close>

definition demo_env :: kb_env where
  "demo_env = \<lparr>keymaps = (\<lambda>l k. if k = (0, 0) then 0x2204 else 0x0005), encoder_map = (\<lambda>_ _ _. 0), num_keymap_layers = 1,
     max_layer = 16, matrix_rows = 1, matrix_cols = 2, num_encoders = 0, can_nkro = True, mk = mk_default,
     tri = set_tri_layer_layers 1 2 3, get_tapping_term = (\<lambda>_ _. 200), get_quick_tap_term = (\<lambda>_ _. 200),
     get_permissive_hold = (\<lambda>_ _. False), get_hold_on_other_key_press = (\<lambda>_ _. False)\<rparr>"

definition default_conf :: keymap_config where
  "default_conf = \<lparr>swap_control_capslock = False, capslock_to_control = False, swap_lalt_lgui = False, swap_ralt_rgui = False,
     no_gui = False, swap_grave_esc = False, swap_backslash_backspace = False, nkro = False, swap_lctl_lgui = False, swap_rctl_rgui = False,
     kc_oneshot_enable = True, swap_escape_capslock = False, autocorrect_enable = True\<rparr>"

definition demo_kbd :: "unit keyboard" where
  "demo_kbd = \<lparr>host = host_init,
     lay = \<lparr>default_layer_state = 1, layer_state = 0, oneshot_layer_data = 0, oneshot_on = True, locked_layers = 0, layer_lock_timer = 0\<rparr>,
     cache = [[0, 0, 0, 0]], conf = default_conf, ee_keymap = default_conf, ee_default_layer = 1, ee_handedness = False, ee_disabled = False,
     mouse_st = mouse_init, last_system_usage = 0, last_consumer_usage = 0, extra_sent = [], clock = 0, sc_last = 0, sc_timer = 0,
     grave_esc_was_shifted = False, debug_enable = False, restarted = None, user = (), history = []\<rparr>"

end
