(* ===== verification/Pipeline.thy ===== *)
theory Pipeline
  imports Handlers
begin

text \<open>
  The path of an event: \<open>action_exec\<close> (\<open>quantum/action.c\<close>) hands it to the state machine of \<open>Tapping\<close>, which calls
  \<open>process_record\<close> of \<open>Actions\<close> with the handlers of \<open>Handlers\<close> and looks keys up in the keymap.  Here the contract
  \<open>tap_client\<close> is discharged on that code, and what holds of the whole path is stated.  \<open>pre_process_record\<close> hooks
  are the empty ones, and combos are off.
\<close>

section \<open>\<open>action_exec\<close>\<close>

definition process_record_tap_hint :: "keyrecord \<Rightarrow> 'u keyboard \<Rightarrow> 'u keyboard" where
  "process_record_tap_hint r s = s"

definition record_keycode :: "kb_env \<Rightarrow> keyrecord \<Rightarrow> 'u keyboard \<Rightarrow> u16" where
  "record_keycode env r s = fst (get_event_keycode env False (event r) s)"

record 'u hooks =
  process_record_kb :: "'u handler"
  post_process_record_kb :: "u16 \<Rightarrow> keyrecord \<Rightarrow> 'u keyboard \<Rightarrow> 'u keyboard"

definition kb_process_record :: "kb_env \<Rightarrow> 'u hooks \<Rightarrow> keyrecord \<Rightarrow> 'u keyboard \<Rightarrow> keyrecord \<times> 'u keyboard" where
  "kb_process_record env hk =
     process_record env (process_record_quantum env (process_record_kb hk)) (post_process_record_quantum env (post_process_record_kb hk))"

definition tap_callees :: "kb_env \<Rightarrow> 'u hooks \<Rightarrow> 'u keyboard tap_env" where
  "tap_callees env hk =
     \<lparr>call_process_record = kb_process_record env hk,
      call_tap_hint = process_record_tap_hint,
      switch_action = key_action env,
      tapping_term = (\<lambda>r s. get_tapping_term env (record_keycode env r s) r),
      quick_tap_term = (\<lambda>r s. get_quick_tap_term env (record_keycode env r s) r),
      permissive_hold = (\<lambda>r s. get_permissive_hold env (record_keycode env r s) r),
      hold_on_other_key_press = (\<lambda>r s. get_hold_on_other_key_press env (record_keycode env r s) r),
      call_clear_keyboard = clear_keyboard env\<rparr>"

text \<open>What \<open>action_exec\<close> does before the state machine runs; \<open>now\<close> is the timer.  Looking the keycode up for
  \<open>pre_process_record_quantum\<close> already writes the layer of a press into the cache.\<close>

definition before_tapping :: "kb_env \<Rightarrow> u32 \<Rightarrow> keyevent \<Rightarrow> 'u keyboard \<Rightarrow> 'u keyboard" where
  "before_tapping env now e s =
     (let s = s\<lparr>clock := now\<rparr>;
          s = (if ev_pressed e then on_host clear_weak_mods s else s)
      in if IS_NOEVENT e then s else snd (get_event_keycode env True e s))"

definition action_exec :: "kb_env \<Rightarrow> 'u hooks \<Rightarrow> u32 \<times> keyevent \<Rightarrow> 'u keyboard tapping \<Rightarrow> 'u keyboard tapping" where
  "action_exec env hk = tap_exec (tap_callees env hk) (before_tapping env)"

section \<open>The contract of the state machine\<close>

lemma before_tapping_history: "history (before_tapping env now e s) = history s"
  by (simp add: before_tapping_def Let_def)

interpretation key_path: tap_client "tap_callees env hk" history "before_tapping env"
  for env :: kb_env and hk :: "'u hooks"
proof
  fix r r' :: keyrecord and w w' now e
  note logged = record_logged [OF quantum_quiet]
  assume p: "call_process_record (tap_callees env hk) r w = (r', w')"
  then have p': "process_record env (process_record_quantum env (process_record_kb hk))
      (post_process_record_quantum env (post_process_record_kb hk)) r w = (r', w')"
    by (simp add: tap_callees_def kb_process_record_def)
  show "\<exists>X. history w' = history w @ event r # X \<and> (\<forall>x \<in> set X. \<not> ev_pressed x)" if "\<not> IS_NOEVENT (event r)"
    using logged [OF that p'] by (auto intro: exI [of _ "[]"] exI [of _ "[event (released r)]"])
  show "\<exists>X. history w' = history w @ X"
  proof (cases "IS_NOEVENT (event r)")
    case True
    then have "w' = w" using p' by (simp add: process_record_def process_record_with_def)
    then show ?thesis by simp
  qed (use logged p' in blast)
  show "ev_pressed (event r) \<and> ev_type (event r') = ev_type (event r) \<and> (tap_count (tap r) \<noteq> 0 \<longrightarrow> tap_count (tap r') \<noteq> 0)"
    if "ev_pressed (event r')"
  proof (cases "IS_NOEVENT (event r)")
    case True
    then have "r' = r" using p' by (simp add: process_record_def process_record_with_def)
    then show ?thesis using that by simp
  next
    case False
    then show ?thesis using logged [OF False p'] that by auto
  qed
qed (simp_all add: tap_callees_def process_record_tap_hint_def before_tapping_history)

section \<open>No event is lost, no press overtakes another\<close>

text \<open>Over any run of events in which the waiting buffer never overflows, process_record has
  handled, with what still waits, exactly the events that came in: each once and none invented.\<close>

lemma no_event_lost:
  assumes "calm_run (\<lambda>_. True) (action_exec env hk) es (tapping_init w)"
  shows "\<exists>X. (\<forall>x \<in> set X. \<not> ev_pressed x) \<and>
    mset (history (world (fold (action_exec env hk) es (tapping_init w))) @ owed (fold (action_exec env hk) es (tapping_init w))) =
    mset (history w @ concat (map (\<lambda>i. real_events (snd i)) es)) + mset X"
proof -
  have "world (tapping_init w) = w" "owed (tapping_init w) = []"
    using idle_init [of w] by (simp_all add: tapping_init_def owed_def idle_def pending_key_def no_record_def queued_def ring_contents_def)
  then show ?thesis
    using key_path.run_events [OF tapping_ok_init assms [unfolded action_exec_def]] by (simp add: action_exec_def)
qed

text \<open>C20. Over any run in which each event finds the machine pending or its buffer empty, the presses
  are processed in the order in which the keys went down.\<close>

theorem presses_keep_order:
  assumes "calm_run ready (action_exec env hk) es (tapping_init w)"
  shows "filter ev_pressed (history (world (fold (action_exec env hk) es (tapping_init w))) @ owed (fold (action_exec env hk) es (tapping_init w))) =
    filter ev_pressed (history w @ concat (map (\<lambda>i. real_events (snd i)) es))"
proof -
  have "world (tapping_init w) = w" "owed (tapping_init w) = []"
    using idle_init [of w] by (simp_all add: tapping_init_def owed_def idle_def pending_key_def no_record_def queued_def ring_contents_def)
  then show ?thesis
    using key_path.run_presses [OF tapping_ok_init assms [unfolded action_exec_def]] by (simp add: action_exec_def)
qed

section \<open>Overflow\<close>

text \<open>\<open>clear_keyboard\<close> leaves nothing held.\<close>

definition all_released :: "('w, 'u) kbd \<Rightarrow> bool" where
  "all_released s \<longleftrightarrow> held_keys (host s) = {} \<and> real_mods (host s) = 0 \<and> weak_mods (host s) = 0 \<and>
     last_system_usage s = 0 \<and> last_consumer_usage s = 0 \<and> mouse_report (mouse_st s) = no_mouse_report"

lemma send_keeps:
  "rp_keys (send_keyboard_report n h) = rp_keys h" "rp_bits (send_keyboard_report n h) = rp_bits h"
  "real_mods (send_keyboard_report n h) = real_mods h" "weak_mods (send_keyboard_report n h) = weak_mods h"
  by (simp_all add: send_keyboard_report_def send_6kro_report_def send_nkro_report_def get_mods_for_report_def clear_oneshot_mods_def Let_def case_prod_beta)

lemma held_none: "set (rp_keys h) \<subseteq> {0} \<Longrightarrow> set (rp_bits h) \<subseteq> {0} \<Longrightarrow> held_keys h = {}"
proof -
  assume "set (rp_keys h) \<subseteq> {0}" "set (rp_bits h) \<subseteq> {0}"
  then have "rp_bits h ! i = 0" if "i < length (rp_bits h)" for i using nth_mem [OF that] by blast
  then show "held_keys h = {}" using \<open>set (rp_keys h) \<subseteq> {0}\<close> by (auto simp: held_keys_def byte_keys_def bit_keys_def)
qed

lemma clear_keyboard_releases: "can_nkro env \<Longrightarrow> all_released (clear_keyboard env s)"
  unfolding all_released_def
  by (intro conjI held_none)
     (simp_all add: clear_keyboard_def clear_keyboard_but_mods_def clear_keyboard_but_mods_and_keys_def send_report_def on_host_def on_mouse_def
       host_system_send_def host_consumer_send_def send_keeps clear_keys_from_report_def clear_mods_def clear_weak_mods_def flag_std_def
       mousekey_clear_def set_replicate_conv_if Let_def)

lemma overflow_cleared:
  assumes "tapping_ok st" and "length (queued st) = 7" and "\<not> IS_NOEVENT (event r)" and "process_tapping env r st = (False, r', u)"
    and "length (queued u) = 7" and "buffer_ok u" and "event r' = event r"
  shows "action_tapping_process env r st = (let v = end_tapping (waiting_buffer_clear (u\<lparr>world := call_clear_keyboard env (world u)\<rparr>)) in v)"
    and "queued (action_tapping_process env r st) = []"
proof -
  obtain ok v where e: "waiting_buffer_enq r' u = (ok, v)" by fastforce
  then have "\<not> ok" using enq_queued [OF assms(6) e] assms(3,5,7) by simp
  then have uv: "waiting_buffer_enq r' u = (False, u)" using e by (auto simp: waiting_buffer_enq_def split: if_splits)
  let ?v = "end_tapping (waiting_buffer_clear (u\<lparr>world := call_clear_keyboard env (world u)\<rparr>))"
  have "waiting_buffer_tail ?v = waiting_buffer_head ?v" by (simp add: end_tapping_def waiting_buffer_clear_def)
  then show a: "action_tapping_process env r st = (let v = ?v in v)"
    by (simp add: action_tapping_process_def assms(4) uv drain_done)
  show "queued (action_tapping_process env r st) = []"
    by (simp add: a end_tapping_def waiting_buffer_clear_def queued_def ring_contents_def)
qed

lemma press_not_consumed:
  assumes "\<not> IS_NOEVENT (event (tapping_key st))" and "ev_pressed (event (tapping_key st))" and "tap_count (tap (tapping_key st)) = 0"
    and "WITHIN_TAPPING_TERM env (event r) st" and "\<not> IS_NOEVENT (event r)" and "ev_pressed (event r)"
  shows "\<not> fst (process_tapping env r st)"
  using assms by (simp add: process_tapping_def tap_pending_def Let_def)


section \<open>A mod-tap key on its own\<close>

text \<open>What pressing and releasing does to the reports alone.\<close>

definition key_down :: "kb_env \<Rightarrow> u8 \<Rightarrow> host_state \<Rightarrow> host_state" where
  "key_down env c h =
     (let n = can_nkro env; h = (if is_key_pressed n c h then send_keyboard_report n (del_key_from_report n c h) else h)
      in send_keyboard_report n (add_key_to_report n c h))"

definition key_up :: "kb_env \<Rightarrow> u8 \<Rightarrow> host_state \<Rightarrow> host_state" where
  "key_up env c h = send_keyboard_report (can_nkro env) (del_key_from_report (can_nkro env) c h)"

definition mods_down :: "kb_env \<Rightarrow> u8 \<Rightarrow> host_state \<Rightarrow> host_state" where
  "mods_down env m h = (if m \<noteq> 0 then send_keyboard_report (can_nkro env) (add_mods m h) else h)"

definition mods_up :: "kb_env \<Rightarrow> u8 \<Rightarrow> host_state \<Rightarrow> host_state" where
  "mods_up env m h = (if m \<noteq> 0 then send_keyboard_report (can_nkro env) (del_mods m h) else h)"

definition mod_tap_host :: "kb_env \<Rightarrow> u16 \<Rightarrow> bool \<Rightarrow> 4 word \<Rightarrow> host_state \<Rightarrow> host_state" where
  "mod_tap_host env a pressed n =
     (if n > 0 then (if pressed then key_down else key_up) env (key_code a) else (if pressed then mods_down else mods_up) env (action_mods a))"

text \<open>The state that decides what a key means.\<close>

definition same_look :: "'u keyboard \<Rightarrow> 'u keyboard \<Rightarrow> bool" where
  "same_look s u \<longleftrightarrow> conf u = conf s \<and> layer_state (lay u) = layer_state (lay s) \<and> default_layer_state (lay u) = default_layer_state (lay s)
     \<and> oneshot_layer_data (lay u) = oneshot_layer_data (lay s)"

lemma same_look_refl [simp]: "same_look s s"
  by (simp add: same_look_def)

lemma same_look_trans: "same_look s t \<Longrightarrow> same_look t u \<Longrightarrow> same_look s u"
  by (simp add: same_look_def)

lemma same_look_keys:
  assumes "same_look s u"
  shows "switch_layer env key u = switch_layer env key s" and "action_for_key env u = action_for_key env s"
    and "is_oneshot_layer_active (lay u) = is_oneshot_layer_active (lay s)"
  using assms by (simp_all add: same_look_def switch_layer_def layer_switch_get_layer_def action_for_key_def [abs_def] is_oneshot_layer_active_def
      get_oneshot_layer_state_def)

definition mod_tap_action :: "u16 \<Rightarrow> bool" where
  "mod_tap_action a \<longleftrightarrow> (kind_id a = ACT_LMODS_TAP \<or> kind_id a = ACT_RMODS_TAP) \<and> 4 \<le> key_code a \<and> key_code a \<le> 0xA4"

lemma code_host:
  assumes "4 \<le> c" and "c \<le> 0xA4"
  shows "host (register_code env c s) = key_down env c (host s)" "host (unregister_code env c s) = key_up env c (host s)"
    "lay (register_code env c s) = lay s" "lay (unregister_code env c s) = lay s"
    "conf (register_code env c s) = conf s" "conf (unregister_code env c s) = conf s"
    "cache (register_code env c s) = cache s" "cache (unregister_code env c s) = cache s"
proof -
  have "unat (4 :: u8) \<le> unat c" "unat c \<le> unat (0xA4 :: u8)" using assms by (simp_all only: word_le_nat_alt)
  then have "IS_BASIC_KEYCODE (ucast c)" "c \<noteq> 0"
    using unat_ucast_small [of c, where 'b = 16] unsigned_less [of c, where ?'a = nat]
    by (auto simp: IS_BASIC_KEYCODE_def word_le_nat_alt)
  then show "host (register_code env c s) = key_down env c (host s)" "host (unregister_code env c s) = key_up env c (host s)"
    "lay (register_code env c s) = lay s" "lay (unregister_code env c s) = lay s"
    "conf (register_code env c s) = conf s" "conf (unregister_code env c s) = conf s"
    "cache (register_code env c s) = cache s" "cache (unregister_code env c s) = cache s"
    by (simp_all add: register_code_def unregister_code_def key_down_def key_up_def send_report_def on_host_def Let_def)
qed

lemma mods_host:
  "host (register_mods env m s) = mods_down env m (host s)" "host (unregister_mods env m s) = mods_up env m (host s)"
  "lay (register_mods env m s) = lay s" "lay (unregister_mods env m s) = lay s"
  "conf (register_mods env m s) = conf s" "conf (unregister_mods env m s) = conf s"
  "cache (register_mods env m s) = cache s" "cache (unregister_mods env m s) = cache s"
  by (simp_all add: register_mods_def unregister_mods_def mods_down_def mods_up_def send_report_def on_host_def)

lemma mod_tap_execute:
  assumes "mod_tap_action a"
  shows "host (execute_action env a pressed n s) = mod_tap_host env a pressed n (host s)"
    and "same_look s (execute_action env a pressed n s)" and "cache (execute_action env a pressed n s) = cache s"
proof -
  have c: "4 \<le> key_code a" "key_code a \<le> 0xA4" using assms by (simp_all add: mod_tap_action_def)
  then have ne: "key_code a \<noteq> 0" "key_code a \<noteq> 1" by (auto simp: word_le_nat_alt)
  have e: "execute_action env a pressed n s = mods_tap_key env a pressed n s"
    using assms by (auto simp: execute_action_def mod_tap_action_def)
  show "host (execute_action env a pressed n s) = mod_tap_host env a pressed n (host s)"
    "same_look s (execute_action env a pressed n s)" "cache (execute_action env a pressed n s) = cache s"
    using ne by (simp_all add: e mods_tap_key_def mod_tap_host_def same_look_def code_host [OF c] mods_host wait_ms_def Let_def)
qed

text \<open>Hooks that leave a keycode alone.\<close>

definition passes :: "'u hooks \<Rightarrow> u16 \<Rightarrow> bool" where
  "passes hk k \<longleftrightarrow> (\<forall>r s. process_record_kb hk k r s = (True, s) \<and> post_process_record_kb hk k r s = s)"

lemma chain_mod_tap:
  assumes "passes hk k" and "0x2000 \<le> k" and "k \<le> 0x3FFF"
  shows "\<exists>u. chain (quantum_handlers env (process_record_kb hk)) k r s = (True, u) \<and> host u = host s \<and> cache u = cache s \<and> same_look s u"
proof -
  have "unat (0x2000 :: u16) \<le> unat k" "unat k \<le> unat (0x3FFF :: u16)" using assms(2,3) by (simp_all only: word_le_nat_alt)
  then have n: "0x2000 \<le> unat k" "unat k \<le> 0x3FFF" by simp_all
  have ge: "\<not> x \<le> k" "k \<noteq> x" if "0x4000 \<le> unat x" for x using that n by (auto simp: word_le_nat_alt)
  have q: "process_space_cadet env k r s = (True, if ev_pressed (event r) then s\<lparr>sc_last := 0\<rparr> else s)"
    "process_magic env k r s = (True, s)" "process_grave_esc env k r s = (True, s)" "process_default_layer k r s = (True, s)"
    "process_oneshot k r s = (True, s)" "process_quantum env k r s = (True, s)" "process_tri_layer_key env k r s = (True, s)" for s
    by (simp_all add: process_space_cadet_def process_magic_def IS_MAGIC_KEYCODE_def process_grave_esc_def process_default_layer_def process_oneshot_def
        process_quantum_def process_tri_layer_key_def process_tri_layer_def ge Let_def)
  define v where "v = (if ev_pressed (event r) then s\<lparr>sc_last := 0\<rparr> else s)"
  have v: "host v = host s" "cache v = cache s" "same_look s v" by (simp_all add: v_def same_look_def)
  have "\<exists>u. process_layer_lock env k r v = (True, u) \<and> host u = host v \<and> cache u = cache v \<and> same_look v u"
    by (simp add: process_layer_lock_def ge Let_def on_lay_def same_look_def layer_lock_activity_trigger_def)
  then obtain u where u: "process_layer_lock env k r v = (True, u)" "host u = host s" "cache u = cache s" "same_look v u" using v by auto
  have "same_look s u" using same_look_trans [OF v(3) u(4)] .
  moreover have "shielded (process_record_kb hk) k r s = (True, s)" using assms(1) by (simp add: passes_def shielded_def)
  ultimately show ?thesis using u(1-3) by (simp add: quantum_handlers_def q v_def [symmetric])
qed

text \<open>The keycode and the action of a key, by the layers now or by the cache.\<close>

definition pressed_keycode :: "kb_env \<Rightarrow> keypos \<Rightarrow> 'u keyboard \<Rightarrow> u16" where
  "pressed_keycode env key s = keymap_key_to_keycode env (switch_layer env key s) key"

definition cached_layer :: "kb_env \<Rightarrow> keypos \<Rightarrow> 'u keyboard \<Rightarrow> u8" where
  "cached_layer env key s = read_source_layers_cache (matrix_rows env) (matrix_cols env) key (cache s)"

definition cached_keycode :: "kb_env \<Rightarrow> keypos \<Rightarrow> 'u keyboard \<Rightarrow> u16" where
  "cached_keycode env key s = keymap_key_to_keycode env (cached_layer env key s) key"

lemma cached_look: "cache u = cache s \<Longrightarrow> cached_layer env key u = cached_layer env key s"
  by (simp add: cached_layer_def)

text \<open>The cache covers the matrix and its entries can hold every layer.\<close>

definition board_fits :: "kb_env \<Rightarrow> nat \<Rightarrow> bool" where
  "board_fits env nbits \<longleftrightarrow> 0 < max_layer env \<and> max_layer env \<le> 2 ^ nbits \<and> nbits \<le> 8"

lemma switch_layer_bound: "board_fits env nbits \<Longrightarrow> unat (switch_layer env key s) < 2 ^ nbits"
proof -
  assume b: "board_fits env nbits"
  have "(2 :: nat) ^ nbits \<le> 2 ^ 8" using b by (intro power_increasing) (simp_all add: board_fits_def)
  then have "max_layer env \<le> 256" using b by (simp add: board_fits_def)
  then have "unat (switch_layer env key s) < max_layer env"
    using b search_layer_bound [of "max_layer env"] by (simp add: switch_layer_def layer_switch_get_layer_def board_fits_def)
  then show ?thesis using b by (simp add: board_fits_def)
qed

definition cache_good :: "kb_env \<Rightarrow> nat \<Rightarrow> 'u keyboard \<Rightarrow> bool" where
  "cache_good env nbits s \<longleftrightarrow> cache_ok nbits (matrix_rows env * matrix_cols env) (cache s)"

definition in_matrix :: "kb_env \<Rightarrow> keypos \<Rightarrow> bool" where
  "in_matrix env key \<longleftrightarrow> fst key < matrix_rows env \<and> snd key < matrix_cols env"

definition store_layer :: "kb_env \<Rightarrow> keypos \<Rightarrow> u8 \<Rightarrow> 'u keyboard \<Rightarrow> 'u keyboard" where
  "store_layer env key layer s = s\<lparr>cache := update_source_layers_cache (matrix_rows env) (matrix_cols env) key layer (cache s)\<rparr>"

lemma store_layer_simps [simp]:
  "host (store_layer env key l s) = host s" "lay (store_layer env key l s) = lay s" "conf (store_layer env key l s) = conf s"
  "same_look s (store_layer env key l s)" "same_look t (store_layer env key l s) = same_look t s"
  "clock (store_layer env key l s) = clock s"
  by (simp_all add: store_layer_def same_look_def)

lemma store_layer_read:
  assumes "board_fits env nbits" and "cache_good env nbits s" and "in_matrix env key" and "unat l < 2 ^ nbits"
  shows "cached_layer env key (store_layer env key l s) = l" and "cache_good env nbits (store_layer env key l s)"
  using assms read_update [of nbits "matrix_rows env * matrix_cols env" "cache s" "entry_of (matrix_cols env) key" "entry_of (matrix_cols env) key" l]
    entry_of_less [of key "matrix_rows env" "matrix_cols env"] cache_ok_update [of nbits _ "cache s"]
  by (simp_all add: cached_layer_def store_layer_def cache_good_def in_matrix_def read_source_layers_cache_def update_source_layers_cache_def)

lemma get_event_keycode_press: "ev_pressed e \<Longrightarrow> get_event_keycode env True e s =
    (pressed_keycode env (ev_key e) s, store_layer env (ev_key e) (switch_layer env (ev_key e) s) s)"
  by (simp add: get_event_keycode_def pressed_keycode_def store_layer_def Let_def)

lemma get_event_keycode_cached: "\<not> (ev_pressed e \<and> b) \<Longrightarrow> get_event_keycode env b e s = (cached_keycode env (ev_key e) s, s)"
  by (auto simp: get_event_keycode_def cached_keycode_def cached_layer_def)

text \<open>\<open>process_record\<close> on a mod-tap key is the reports' part of its action.\<close>

definition mod_tap_keycode :: "kb_env \<Rightarrow> 'u hooks \<Rightarrow> keymap_config \<Rightarrow> u16 \<Rightarrow> bool" where
  "mod_tap_keycode env hk c k \<longleftrightarrow> 0x2000 \<le> k \<and> k \<le> 0x3FFF \<and> passes hk k \<and> mod_tap_action (action_for_keycode c k)"

lemma post_mod_tap: "passes hk k \<Longrightarrow> cached_keycode env (ev_key (event r)) s = k \<Longrightarrow>
    post_process_record_quantum env (post_process_record_kb hk) r s = s"
  by (simp add: post_process_record_quantum_def get_event_keycode_cached passes_def)

lemma handled_mod_tap:
  assumes "\<not> IS_NOEVENT (event r)" and "process_record_quantum env (process_record_kb hk) r (s\<lparr>history := history s @ [event r]\<rparr>) = (True, u)"
    and "process_action env again a r (u\<lparr>cache := c\<rparr>) = (r, v)"
    and "store_or_get_action (action_for_key env u) (max_layer env) (matrix_rows env) (matrix_cols env) False (ev_pressed (event r)) (ev_key (event r)) (lay u) (cache u) = (a, c)"
    and "post_process_record_quantum env (post_process_record_kb hk) r v = v"
  shows "process_record_with env (process_record_quantum env (process_record_kb hk)) (post_process_record_quantum env (post_process_record_kb hk)) again r s = (r, v)"
  using assms by (simp add: process_record_with_def process_record_handler_def)

lemma action_mod_tap:
  assumes "mod_tap_action a" and "\<not> is_oneshot_layer_active (lay s)"
  shows "process_action env again a r s = (r, execute_action env a (ev_pressed (event r)) (tap_count (tap r)) s)"
  using assms by (simp add: process_action_def ends_oneshot_def Let_def)

lemma record_mod_tap_press:
  assumes "\<not> IS_NOEVENT (event r)" and "ev_pressed (event r)" and "key = ev_key (event r)"
    and "mod_tap_keycode env hk (conf s) (pressed_keycode env key s)" and "\<not> is_oneshot_layer_active (lay s)"
    and "board_fits env nbits" and "cache_good env nbits s" and "in_matrix env key"
  shows "\<exists>v. kb_process_record env hk r s = (r, v) \<and> same_look s v \<and> cache_good env nbits v \<and> cached_layer env key v = switch_layer env key s
    \<and> host v = mod_tap_host env (action_for_keycode (conf s) (pressed_keycode env key s)) True (tap_count (tap r)) (host s)"
proof -
  let ?k = "pressed_keycode env key s" and ?l = "switch_layer env key s" and ?s = "s\<lparr>history := history s @ [event r]\<rparr>"
  have s: "same_look s ?s" "pressed_keycode env key ?s = ?k" "switch_layer env key ?s = ?l" "cache_good env nbits ?s" "host ?s = host s"
    using assms(7) by (simp_all add: same_look_def pressed_keycode_def switch_layer_def action_for_key_def [abs_def] cache_good_def)
  from chain_mod_tap [of hk ?k env r "store_layer env key ?l ?s"] assms(4) obtain u where
    u: "chain (quantum_handlers env (process_record_kb hk)) ?k r (store_layer env key ?l ?s) = (True, u)" "host u = host s"
      "cache u = cache (store_layer env key ?l ?s)" "same_look (store_layer env key ?l ?s) u"
    by (auto simp: mod_tap_keycode_def)
  have q: "process_record_quantum env (process_record_kb hk) r ?s = (True, u)"
    using u(1) s assms(2,3) by (simp add: process_record_quantum_def get_event_keycode_press)
  have su: "same_look s u" using same_look_trans [OF s(1) same_look_trans [OF store_layer_simps(4) u(4)]] .
  note look = same_look_keys [OF su]
  have lb: "unat ?l < 2 ^ nbits" by (rule switch_layer_bound [OF assms(6)])
  have cu: "cache_good env nbits u" using store_layer_read [OF assms(6) s(4) assms(8) lb] u(3) by (simp add: cache_good_def)
  let ?a = "action_for_keycode (conf s) ?k" and ?c = "cache (store_layer env key ?l u)"
  have sg: "store_or_get_action (action_for_key env u) (max_layer env) (matrix_rows env) (matrix_cols env) False (ev_pressed (event r)) (ev_key (event r)) (lay u) (cache u) = (?a, ?c)"
    using assms(2,3) look(1) [of env key] su
    by (simp add: store_or_get_action_def switch_layer_def [symmetric] store_layer_def action_for_key_def pressed_keycode_def same_look_def Let_def)
  let ?v = "execute_action env ?a True (tap_count (tap r)) (u\<lparr>cache := ?c\<rparr>)"
  have mt: "mod_tap_action ?a" using assms(4) by (simp add: mod_tap_keycode_def)
  note x = mod_tap_execute [OF mt, where env = env and pressed = True and n = "tap_count (tap r)" and s = "u\<lparr>cache := ?c\<rparr>"]
  have p: "process_action env again ?a r (u\<lparr>cache := ?c\<rparr>) = (r, ?v)" for again
    using action_mod_tap [OF mt, of "u\<lparr>cache := ?c\<rparr>"] look(3) assms(2,5) by simp
  have cv: "cached_layer env key ?v = ?l" "cache_good env nbits ?v"
    using store_layer_read [OF assms(6) cu assms(8) lb] cached_look [OF x(3)] by (simp_all add: x(3) cached_layer_def cache_good_def)
  have post: "post_process_record_quantum env (post_process_record_kb hk) r ?v = ?v"
    using assms(3,4) cv(1) by (intro post_mod_tap [of hk ?k]) (simp_all add: mod_tap_keycode_def cached_keycode_def pressed_keycode_def)
  have "kb_process_record env hk r s = (r, ?v)"
    unfolding kb_process_record_def process_record_def by (rule handled_mod_tap [OF assms(1) q p sg post])
  moreover have "same_look s ?v" using same_look_trans [OF su] x(2) by (simp add: same_look_def)
  moreover have "host ?v = mod_tap_host env ?a True (tap_count (tap r)) (host s)" using x(1) u(2) by simp
  ultimately show ?thesis using cv by blast
qed

lemma record_mod_tap_release:
  assumes "\<not> IS_NOEVENT (event r)" and "\<not> ev_pressed (event r)" and "key = ev_key (event r)"
    and "mod_tap_keycode env hk (conf s) (cached_keycode env key s)" and "\<not> is_oneshot_layer_active (lay s)"
  shows "\<exists>v. kb_process_record env hk r s = (r, v) \<and> same_look s v \<and> cache v = cache s
    \<and> host v = mod_tap_host env (action_for_keycode (conf s) (cached_keycode env key s)) False (tap_count (tap r)) (host s)"
proof -
  let ?k = "cached_keycode env key s" and ?s = "s\<lparr>history := history s @ [event r]\<rparr>"
  have s: "same_look s ?s" "cached_keycode env key ?s = ?k" by (simp_all add: same_look_def cached_keycode_def cached_layer_def)
  from chain_mod_tap [of hk ?k env r ?s] assms(4) obtain u where
    u: "chain (quantum_handlers env (process_record_kb hk)) ?k r ?s = (True, u)" "host u = host s" "cache u = cache s" "same_look ?s u"
    by (auto simp: mod_tap_keycode_def)
  have q: "process_record_quantum env (process_record_kb hk) r ?s = (True, u)"
    using u(1) s assms(2,3) by (simp add: process_record_quantum_def get_event_keycode_cached)
  have su: "same_look s u" using same_look_trans [OF s(1) u(4)] .
  let ?a = "action_for_keycode (conf s) ?k"
  have sg: "store_or_get_action (action_for_key env u) (max_layer env) (matrix_rows env) (matrix_cols env) False (ev_pressed (event r)) (ev_key (event r)) (lay u) (cache u) = (?a, cache u)"
    using assms(2,3) su u(3) by (simp add: store_or_get_action_def action_for_key_def cached_keycode_def cached_layer_def same_look_def)
  let ?v = "execute_action env ?a False (tap_count (tap r)) (u\<lparr>cache := cache u\<rparr>)"
  have mt: "mod_tap_action ?a" using assms(4) by (simp add: mod_tap_keycode_def)
  note x = mod_tap_execute [OF mt, where env = env and pressed = False and n = "tap_count (tap r)" and s = "u\<lparr>cache := cache u\<rparr>"]
  have p: "process_action env again ?a r (u\<lparr>cache := cache u\<rparr>) = (r, ?v)" for again
    using action_mod_tap [OF mt, of "u\<lparr>cache := cache u\<rparr>"] same_look_keys(3) [OF su] assms(2,5) by simp
  have cv: "cache ?v = cache s" using x(3) u(3) by simp
  have post: "post_process_record_quantum env (post_process_record_kb hk) r ?v = ?v"
    using assms(3,4) cached_look [OF cv] by (intro post_mod_tap [of hk ?k]) (simp_all add: mod_tap_keycode_def cached_keycode_def)
  have "kb_process_record env hk r s = (r, ?v)"
    unfolding kb_process_record_def process_record_def by (rule handled_mod_tap [OF assms(1) q p sg post])
  moreover have "same_look s ?v" using same_look_trans [OF su] x(2) by (simp add: same_look_def)
  moreover have "host ?v = mod_tap_host env ?a False (tap_count (tap r)) (host s)" using x(1) u(2) by simp
  ultimately show ?thesis using cv by blast
qed

text \<open>A mod-tap key in the layers of \<open>w\<close>, with nothing one-shot pending.\<close>

definition lone_mod_tap :: "kb_env \<Rightarrow> 'u hooks \<Rightarrow> nat \<Rightarrow> keypos \<Rightarrow> 'u keyboard \<Rightarrow> bool" where
  "lone_mod_tap env hk nbits key w \<longleftrightarrow> mod_tap_keycode env hk (conf w) (pressed_keycode env key w) \<and> \<not> is_oneshot_layer_active (lay w)
     \<and> board_fits env nbits \<and> cache_good env nbits w \<and> in_matrix env key"

definition lone_action :: "kb_env \<Rightarrow> keypos \<Rightarrow> 'u keyboard \<Rightarrow> u16" where
  "lone_action env key w = action_for_keycode (conf w) (pressed_keycode env key w)"

text \<open>The world after such a press was handed over, and as long as the key is only waiting.\<close>

definition holds_press :: "kb_env \<Rightarrow> keypos \<Rightarrow> nat \<Rightarrow> 'u keyboard \<Rightarrow> 'u keyboard \<Rightarrow> bool" where
  "holds_press env key nbits w v \<longleftrightarrow> same_look w v \<and> cache_good env nbits v \<and> cached_layer env key v = switch_layer env key w"

lemma holds_press_clock: "holds_press env key nbits w v \<Longrightarrow> same_look v u \<Longrightarrow> cache u = cache v \<Longrightarrow> holds_press env key nbits w u"
  by (auto simp: holds_press_def cached_layer_def cache_good_def intro: same_look_trans)

lemma holds_press_keycode:
  assumes "holds_press env key nbits w v"
  shows "cached_keycode env key v = pressed_keycode env key w" and "pressed_keycode env key v = pressed_keycode env key w"
    and "conf v = conf w" and "switch_layer env k v = switch_layer env k w"
    and "is_oneshot_layer_active (lay v) = is_oneshot_layer_active (lay w)" and "cache_good env nbits v"
  using assms same_look_keys [of w v] by (simp_all add: holds_press_def cached_keycode_def pressed_keycode_def same_look_def)

lemma before_press:
  assumes "lone_mod_tap env hk nbits (ev_key e) w" and "ev_pressed e" and "\<not> IS_NOEVENT e"
  shows "holds_press env (ev_key e) nbits w (before_tapping env t e w)" and "host (before_tapping env t e w) = clear_weak_mods (host w)"
proof -
  let ?v = "on_host clear_weak_mods (w\<lparr>clock := t\<rparr>)"
  have v: "same_look w ?v" "cache ?v = cache w" by (simp_all add: same_look_def on_host_def)
  have b: "before_tapping env t e w = store_layer env (ev_key e) (switch_layer env (ev_key e) w) ?v"
    using assms(2,3) same_look_keys(1) [OF v(1)] by (simp add: before_tapping_def get_event_keycode_press)
  have "cache_good env nbits ?v" using assms(1) v(2) by (simp add: lone_mod_tap_def cache_good_def)
  then show "holds_press env (ev_key e) nbits w (before_tapping env t e w)"
    using store_layer_read [of env nbits ?v "ev_key e" "switch_layer env (ev_key e) w"] assms(1) v(1) switch_layer_bound [of env nbits "ev_key e" w]
    by (simp add: holds_press_def b lone_mod_tap_def)
  show "host (before_tapping env t e w) = clear_weak_mods (host w)" by (simp add: b on_host_def)
qed

lemma before_other: "\<not> ev_pressed e \<Longrightarrow> before_tapping env t e v = v\<lparr>clock := t\<rparr>"
  by (simp add: before_tapping_def get_event_keycode_cached Let_def)

lemma clock_look: "same_look v (v\<lparr>clock := t\<rparr>)" "cache (v\<lparr>clock := t\<rparr>) = cache v" "host (v\<lparr>clock := t\<rparr>) = host v"
  by (simp_all add: same_look_def)

text \<open>After the press the key waits.\<close>

lemma press_waits:
  fixes t :: u32
  assumes "idle st" and "lone_mod_tap env hk nbits (ev_key e) (world st)" and "ev_pressed e" and "\<not> IS_NOEVENT e"
  defines "r \<equiv> \<lparr>event = e, tap = no_tap\<rparr>" and "st' \<equiv> action_exec env hk (t, e) st"
  shows "waiting_alone r st' \<and> holds_press env (ev_key e) nbits (world st) (world st') \<and> host (world st') = clear_weak_mods (host (world st))"
proof -
  let ?w = "before_tapping env t e (world st)" and ?u = "st\<lparr>world := before_tapping env t e (world st)\<rparr>"
  note b = before_press [OF assms(2-4), of t]
  have idle: "idle ?u" using assms(1) by (simp add: idle_def buffer_ok_def queued_def)
  have "switch_action (tap_callees env hk) (ev_key e) ?w = lone_action env (ev_key e) (world st)"
    using holds_press_keycode [OF b(1)]
    by (simp add: tap_callees_def key_action_def layer_switch_get_action_def switch_layer_def [symmetric] lone_action_def action_for_key_def pressed_keycode_def)
  moreover have "is_tap_action (lone_action env (ev_key e) (world st))"
  proof -
    have "mod_tap_action (lone_action env (ev_key e) (world st))" using assms(2) by (simp add: lone_mod_tap_def mod_tap_keycode_def lone_action_def)
    then show ?thesis by (auto simp: mod_tap_action_def is_tap_action_def word_le_nat_alt)
  qed
  ultimately have "is_tap_record (tap_callees env hk) r ?u" using assms(4) by (simp add: is_tap_record_def r_def)
  then have "action_tapping_process (tap_callees env hk) r ?u = ?u\<lparr>tapping_key := r\<rparr>"
    using lone_press [OF idle, of r] assms(3) by (simp add: r_def tap_callees_def process_record_tap_hint_def)
  then have "st' = ?u\<lparr>tapping_key := r\<rparr>" by (simp add: st'_def action_exec_def tap_exec_def r_def)
  then show ?thesis using b idle assms(3,4) by (simp add: waiting_alone_def idle_def buffer_ok_def queued_def r_def no_tap_def)
qed

lemma tapping_term_lone:
  "holds_press env (ev_key (event r)) nbits w v \<Longrightarrow> tapping_term (tap_callees env hk) r v = get_tapping_term env (pressed_keycode env (ev_key (event r)) w) r"
  using holds_press_keycode(1) [of env "ev_key (event r)" nbits w v] by (simp add: tap_callees_def record_keycode_def get_event_keycode_cached)

text \<open>C22. A mod-tap key pressed alone and released within its tapping term presses and releases its
  keycode, and never its modifier.\<close>

theorem mod_tap_tapped:
  assumes "idle st" and "lone_mod_tap env hk nbits (ev_key e) (world st)"
    and "ev_pressed e" and "\<not> IS_NOEVENT e" and "\<not> ev_pressed e'" and "\<not> IS_NOEVENT e'" and "ev_key e' = ev_key e"
    and "TIMER_DIFF_16 (ev_time e') (ev_time e) < get_tapping_term env (pressed_keycode env (ev_key e) (world st)) \<lparr>event = e, tap = no_tap\<rparr>"
  shows "host (world (action_exec env hk (t', e') (action_exec env hk (t, e) st))) =
    (let c = key_code (lone_action env (ev_key e) (world st)) in key_up env c (key_down env c (clear_weak_mods (host (world st)))))"
proof -
  let ?tk = "\<lparr>event = e, tap = no_tap\<rparr>" and ?w = "world st" and ?key = "ev_key e"
  define su where "su = action_exec env hk (t, e) st"
  define v where "v = (world su)\<lparr>clock := t'\<rparr>"
  note pw = press_waits [OF assms(1-4), of t, folded su_def]
  then have su: "waiting_alone ?tk su" "host (world su) = clear_weak_mods (host ?w)" by simp_all
  have hv: "holds_press env ?key nbits ?w v" using pw holds_press_clock clock_look unfolding v_def by blast
  note kv = holds_press_keycode [OF hv]
  have lone: "mod_tap_keycode env hk (conf v) (pressed_keycode env ?key v)" "\<not> is_oneshot_layer_active (lay v)" "board_fits env nbits"
    "cache_good env nbits v" "in_matrix env ?key"
    using assms(2) by (simp_all add: lone_mod_tap_def kv)
  let ?a = "lone_action env ?key ?w" and ?r = "set_count 1 ?tk" and ?q = "\<lparr>event = e', tap = no_tap\<lparr>tap_count := 1\<rparr>\<rparr>"
  obtain x where x: "kb_process_record env hk ?r v = (?r, x)" "same_look v x" "cached_layer env ?key x = switch_layer env ?key v"
    "host x = mod_tap_host env (action_for_keycode (conf v) (pressed_keycode env ?key v)) True 1 (host v)"
    using record_mod_tap_press [of ?r ?key env hk v nbits] lone assms(3,4) by (auto simp: set_count_def)
  have kx: "cached_keycode env ?key x = pressed_keycode env ?key ?w" "conf x = conf ?w"
    using x(2,3) kv hv by (simp_all add: cached_keycode_def pressed_keycode_def same_look_def holds_press_def)
  obtain y where y: "kb_process_record env hk ?q x = (?q, y)"
    "host y = mod_tap_host env (action_for_keycode (conf x) (cached_keycode env ?key x)) False 1 (host x)"
    using record_mod_tap_release [of ?q ?key env hk x] assms(5-7) kx lone(1,2) kv same_look_keys(3) [OF x(2)] by (auto simp: no_tap_def)
  have wu: "waiting_alone ?tk (su\<lparr>world := v\<rparr>)" using su(1) by (simp add: waiting_alone_def buffer_ok_def queued_def)
  have "WITHIN_TAPPING_TERM (tap_callees env hk) e' (su\<lparr>world := v\<rparr>)"
    using assms(8) tapping_term_lone [of env ?tk nbits ?w v hk] hv su(1) by (simp add: WITHIN_TAPPING_TERM_def waiting_alone_def)
  then have "world (action_tapping_process (tap_callees env hk) \<lparr>event = e', tap = no_tap\<rparr> (su\<lparr>world := v\<rparr>)) = y"
    using lone_tap [OF wu, of "\<lparr>event = e', tap = no_tap\<rparr>" "tap_callees env hk" x] assms(5-7) x(1) y(1)
    by (simp add: tap_callees_def set_count_def)
  then have "host (world (action_exec env hk (t', e') su)) = host y"
    using assms(5) by (simp add: action_exec_def tap_exec_def before_other v_def)
  also have "\<dots> = mod_tap_host env ?a False 1 (mod_tap_host env ?a True 1 (clear_weak_mods (host ?w)))"
    using x(4) y(2) kx kv su(2) by (simp add: lone_action_def v_def)
  finally show ?thesis by (simp add: su_def mod_tap_host_def Let_def)
qed

text \<open>C23. A mod-tap key pressed alone and still down when its tapping term has passed holds its
  modifier from then on, and its release takes the modifier back.\<close>

theorem mod_tap_held:
  assumes "idle st" and "lone_mod_tap env hk nbits (ev_key e) (world st)"
    and "ev_pressed e" and "\<not> IS_NOEVENT e" and "IS_NOEVENT tick" and "\<not> ev_pressed tick"
    and "\<not> TIMER_DIFF_16 (ev_time tick) (ev_time e) < get_tapping_term env (pressed_keycode env (ev_key e) (world st)) \<lparr>event = e, tap = no_tap\<rparr>"
    and "\<not> ev_pressed e'" and "\<not> IS_NOEVENT e'" and "ev_key e' = ev_key e"
  shows "(let m = action_mods (lone_action env (ev_key e) (world st));
             su = action_exec env hk (t', tick) (action_exec env hk (t, e) st); sv = action_exec env hk (t'', e') su
         in host (world su) = mods_down env m (clear_weak_mods (host (world st))) \<and>
            host (world sv) = mods_up env m (mods_down env m (clear_weak_mods (host (world st)))) \<and> idle sv)"
proof -
  let ?tk = "\<lparr>event = e, tap = no_tap\<rparr>" and ?w = "world st" and ?key = "ev_key e" and ?a = "lone_action env (ev_key e) (world st)"
  define su where "su = action_exec env hk (t, e) st"
  define v where "v = (world su)\<lparr>clock := t'\<rparr>"
  note pw = press_waits [OF assms(1-4), of t, folded su_def]
  then have su: "waiting_alone ?tk su" "host (world su) = clear_weak_mods (host ?w)" by simp_all
  have hv: "holds_press env ?key nbits ?w v" using pw holds_press_clock clock_look unfolding v_def by blast
  note kv = holds_press_keycode [OF hv]
  have lone: "mod_tap_keycode env hk (conf v) (pressed_keycode env ?key v)" "\<not> is_oneshot_layer_active (lay v)" "board_fits env nbits"
    "cache_good env nbits v" "in_matrix env ?key"
    using assms(2) by (simp_all add: lone_mod_tap_def kv)
  obtain x where x: "kb_process_record env hk ?tk v = (?tk, x)" "same_look v x" "cached_layer env ?key x = switch_layer env ?key v"
    "host x = mod_tap_host env (action_for_keycode (conf v) (pressed_keycode env ?key v)) True 0 (host v)"
    using record_mod_tap_press [of ?tk ?key env hk v nbits] lone assms(3,4) by (auto simp: no_tap_def)
  have wu: "waiting_alone ?tk (su\<lparr>world := v\<rparr>)" using su(1) by (simp add: waiting_alone_def buffer_ok_def queued_def)
  have "\<not> WITHIN_TAPPING_TERM (tap_callees env hk) tick (su\<lparr>world := v\<rparr>)"
    using assms(7) tapping_term_lone [of env ?tk nbits ?w v hk] hv su(1) by (simp add: WITHIN_TAPPING_TERM_def waiting_alone_def)
  then have sv: "action_exec env hk (t', tick) su = su\<lparr>tapping_key := no_record, world := x\<rparr>"
    using lone_timeout [OF wu, of "\<lparr>event = tick, tap = no_tap\<rparr>" "tap_callees env hk"] assms(5,6) x(1)
    by (simp add: action_exec_def tap_exec_def before_other v_def tap_callees_def)
  have held: "host x = mods_down env (action_mods ?a) (clear_weak_mods (host ?w))"
    using x(4) kv su(2) by (simp add: mod_tap_host_def lone_action_def v_def)
  define z where "z = x\<lparr>clock := t''\<rparr>"
  have kz: "cached_keycode env ?key z = pressed_keycode env ?key ?w" "conf z = conf ?w" "is_oneshot_layer_active (lay z) = is_oneshot_layer_active (lay v)"
    using x(2,3) kv hv same_look_keys(3) [OF x(2)]
    by (simp_all add: z_def cached_keycode_def cached_layer_def pressed_keycode_def same_look_def holds_press_def)
  let ?q = "\<lparr>event = e', tap = no_tap\<rparr>"
  obtain y where y: "kb_process_record env hk ?q z = (?q, y)"
    "host y = mod_tap_host env (action_for_keycode (conf z) (cached_keycode env ?key z)) False 0 (host z)"
    using record_mod_tap_release [of ?q ?key env hk z] assms(8-10) kz lone(1,2) kv by (auto simp: no_tap_def)
  let ?s = "su\<lparr>tapping_key := no_record, world := z\<rparr>"
  have idle: "idle ?s" "idle (?s\<lparr>world := y\<rparr>)"
    using su(1) by (simp_all add: idle_def waiting_alone_def buffer_ok_def queued_def no_record_def IS_NOEVENT_def)
  have "action_exec env hk (t'', e') (su\<lparr>tapping_key := no_record, world := x\<rparr>) = ?s\<lparr>world := y\<rparr>"
    using idle_release [OF idle(1), of ?q "tap_callees env hk"] assms(8-10) y(1)
    by (simp add: action_exec_def tap_exec_def before_other z_def tap_callees_def)
  moreover have "host y = mods_up env (action_mods ?a) (mods_down env (action_mods ?a) (clear_weak_mods (host ?w)))"
    using y(2) kz held by (simp add: mod_tap_host_def lone_action_def z_def)
  ultimately show ?thesis using held idle(2) sv by (simp add: su_def [symmetric] Let_def)
qed

section \<open>A small keyboard\<close>

definition no_hooks :: "'u hooks" where
  "no_hooks = \<lparr>process_record_kb = (\<lambda>_ _ s. (True, s)), post_process_record_kb = (\<lambda>_ _ s. s)\<rparr>"

definition key_event_at :: "nat \<Rightarrow> u16 \<Rightarrow> bool \<Rightarrow> keyevent" where
  "key_event_at col t pressed = \<lparr>ev_key = (0, col), ev_time = t, ev_type = KEY_EVENT, ev_pressed = pressed\<rparr>"

definition tick_at :: "u16 \<Rightarrow> keyevent" where
  "tick_at t = \<lparr>ev_key = (0, 0), ev_time = t, ev_type = TICK_EVENT, ev_pressed = False\<rparr>"

lemma demo_action: "action_for_keycode default_conf 0x2204 = 0x2204"
  by code_simp

lemma demo_keycode: "pressed_keycode demo_env (0, 0) demo_kbd = 0x2204"
proof -
  have "switch_layer demo_env (0, 0) demo_kbd = 0" by code_simp
  then show ?thesis by (simp add: pressed_keycode_def keymap_key_to_keycode_def keycode_at_keymap_location_def demo_env_def)
qed

lemma demo_lone: "lone_mod_tap demo_env no_hooks 4 (0, 0) demo_kbd"
proof -
  have "conf demo_kbd = default_conf" "\<not> is_oneshot_layer_active (lay demo_kbd)" "cache_good demo_env 4 demo_kbd" "board_fits demo_env 4" "in_matrix demo_env (0, 0)"
    by (simp_all add: demo_kbd_def is_oneshot_layer_active_def get_oneshot_layer_state_def cache_good_def cache_ok_def demo_env_def board_fits_def in_matrix_def)
  moreover have "mod_tap_action 0x2204" by code_simp
  ultimately show ?thesis by (simp add: lone_mod_tap_def mod_tap_keycode_def demo_keycode demo_action passes_def no_hooks_def)
qed

lemma demo_term: "get_tapping_term demo_env k r = 200"
  by (simp add: demo_env_def)

lemma demo_calm:
  "calm_run ready (action_exec demo_env no_hooks) [(100, key_event_at 0 100 True), (150, key_event_at 0 150 False)] (tapping_init demo_kbd)"
proof -
  have "world (tapping_init demo_kbd) = demo_kbd" by (simp add: tapping_init_def)
  then have "waiting_alone \<lparr>event = key_event_at 0 100 True, tap = no_tap\<rparr> (action_exec demo_env no_hooks (100, key_event_at 0 100 True) (tapping_init demo_kbd))"
    using press_waits [OF idle_init, of demo_env no_hooks 4 "key_event_at 0 100 True" demo_kbd 100] demo_lone
    by (simp add: key_event_at_def IS_NOEVENT_def)
  then show ?thesis using idle_init [of demo_kbd]
    by (simp add: idle_def ready_def waiting_alone_def pending_key_def no_tap_def)
qed

lemma no_event_lost_witness:
  "\<exists>X. (\<forall>x \<in> set X. \<not> ev_pressed x) \<and>
    mset (history (world (fold (action_exec demo_env no_hooks) [(100, key_event_at 0 100 True), (150, key_event_at 0 150 False)] (tapping_init demo_kbd)))
        @ owed (fold (action_exec demo_env no_hooks) [(100, key_event_at 0 100 True), (150, key_event_at 0 150 False)] (tapping_init demo_kbd))) =
    mset [key_event_at 0 100 True, key_event_at 0 150 False] + mset X"
proof -
  have "calm_run (\<lambda>_. True) (action_exec demo_env no_hooks) [(100, key_event_at 0 100 True), (150, key_event_at 0 150 False)] (tapping_init demo_kbd)"
    using demo_calm by simp
  from no_event_lost [OF this] show ?thesis by (simp add: key_event_at_def real_events_def IS_NOEVENT_def demo_kbd_def)
qed

theorem presses_keep_order_witness:
  "filter ev_pressed (history (world (fold (action_exec demo_env no_hooks) [(100, key_event_at 0 100 True), (150, key_event_at 0 150 False)] (tapping_init demo_kbd)))
        @ owed (fold (action_exec demo_env no_hooks) [(100, key_event_at 0 100 True), (150, key_event_at 0 150 False)] (tapping_init demo_kbd))) =
   [key_event_at 0 100 True]"
  using presses_keep_order [OF demo_calm] by (simp add: key_event_at_def real_events_def IS_NOEVENT_def demo_kbd_def)

text \<open>A full buffer: the mod-tap key is undecided, and seven presses of the other key wait.\<close>

definition demo_full :: "unit keyboard tapping" where
  "demo_full = \<lparr>tapping_key = \<lparr>event = key_event_at 0 100 True, tap = no_tap\<rparr>,
     waiting_buffer = replicate 8 \<lparr>event = key_event_at 1 110 True, tap = no_tap\<rparr>,
     waiting_buffer_head = 7, waiting_buffer_tail = 0, world = demo_kbd\<rparr>"


theorem mod_tap_tapped_witness:
  "host (world (action_exec demo_env no_hooks (150, key_event_at 0 150 False) (action_exec demo_env no_hooks (100, key_event_at 0 100 True) (tapping_init demo_kbd)))) =
   key_up demo_env 4 (key_down demo_env 4 (clear_weak_mods host_init))"
proof -
  have w: "world (tapping_init demo_kbd) = demo_kbd" "host demo_kbd = host_init" "lone_action demo_env (0, 0) demo_kbd = 0x2204"
    by (simp_all add: tapping_init_def demo_kbd_def lone_action_def demo_keycode [unfolded demo_kbd_def] demo_action)
  have "key_code 0x2204 = 4" by code_simp
  then show ?thesis
    using mod_tap_tapped [OF idle_init, of demo_env no_hooks 4 "key_event_at 0 100 True" demo_kbd "key_event_at 0 150 False" 150 100] demo_lone w
    by (simp add: key_event_at_def IS_NOEVENT_def TIMER_DIFF_16_def timer_diff_def demo_term Let_def)
qed

theorem mod_tap_held_witness:
  "host (world (action_exec demo_env no_hooks (320, tick_at 320) (action_exec demo_env no_hooks (100, key_event_at 0 100 True) (tapping_init demo_kbd)))) =
     mods_down demo_env 2 (clear_weak_mods host_init)"
proof -
  have w: "world (tapping_init demo_kbd) = demo_kbd" "host demo_kbd = host_init" "lone_action demo_env (0, 0) demo_kbd = 0x2204"
    by (simp_all add: tapping_init_def demo_kbd_def lone_action_def demo_keycode [unfolded demo_kbd_def] demo_action)
  have "action_mods 0x2204 = 2" by code_simp
  then show ?thesis
    using mod_tap_held [OF idle_init, of demo_env no_hooks 4 "key_event_at 0 100 True" demo_kbd "tick_at 320" "key_event_at 0 400 False" 320 100 400] demo_lone w
    by (simp add: key_event_at_def tick_at_def IS_NOEVENT_def TIMER_DIFF_16_def timer_diff_def demo_term Let_def)
qed

section \<open>A press can overtake another\<close>

text \<open>Without the condition of \<open>presses_keep_order\<close> the order can change.  Two dual-role keys at columns 0 and 1, the second with
  \<open>HOLD_ON_OTHER_KEY_PRESS\<close>, and two plain keys; the callees only log what they are given.  When the first key is
  released, the loop over the waiting buffer settles the second key and stops, with the press of column 2 still in
  the buffer; the press of column 3 that follows in the same scan is processed before it.\<close>

definition log_env :: "keyevent list tap_env" where
  "log_env = \<lparr>call_process_record = (\<lambda>r w. (r, w @ [event r])), call_tap_hint = (\<lambda>_ w. w),
     switch_action = (\<lambda>k w. if snd k \<le> 1 then 0x2204 else 0x0005), tapping_term = (\<lambda>_ _. 200), quick_tap_term = (\<lambda>_ _. 200),
     permissive_hold = (\<lambda>_ _. False), hold_on_other_key_press = (\<lambda>r _. snd (ev_key (event r)) = 1), call_clear_keyboard = (\<lambda>w. w)\<rparr>"

definition rec_at :: "nat \<Rightarrow> u16 \<Rightarrow> bool \<Rightarrow> keyrecord" where
  "rec_at col t pressed = \<lparr>event = key_event_at col t pressed, tap = no_tap\<rparr>"

lemma presses_can_overtake:
  "map (snd \<circ> ev_key) (filter ev_pressed (world (fold (action_tapping_process log_env)
     [rec_at 0 1 True, rec_at 1 10 True, rec_at 2 20 True, rec_at 0 30 False, rec_at 3 30 True] (tapping_init [])))) = [0, 1, 3, 2]"
  by code_simp

end
