(* ===== verification/ReportBuffer.thy ===== *)
theory ReportBuffer
  imports RingBuffer
begin

text \<open>
  The report buffer of the wireless keyboards (\<open>keyboards/keychron/common/wireless/report_buffer.c\<close>, with
  \<open>LK_WIRELESS_ENABLE\<close>): a queue of 256 reports in front of the radio module, which sends one report at a time and
  repeats it until the module acknowledges it or the retries run out.  The queue meets \<open>bounded_fifo\<close>.  \<open>rb_sent\<close> is the
  sequence of calls to the transport; all reads of the timer in one call are the same \<open>now\<close>, and \<open>lpm_timer_reset\<close> is the
  caller's.
\<close>

section \<open>State\<close>

text \<open>\<open>report_buffer_t\<close>: the tag and the member of the union it selects, a report as its bytes.\<close>

datatype report = NoReport | KbReport "u8 list" | NkroReport "u8 list" | ConsumerReport u16

abbreviation REPORT_BUFFER_QUEUE_SIZE :: nat where "REPORT_BUFFER_QUEUE_SIZE \<equiv> 256"
abbreviation REPORT_BUFFER_RETRY_INTERVAL :: u32 where "REPORT_BUFFER_RETRY_INTERVAL \<equiv> 2"
abbreviation RETPORT_RETRY_COUNT :: u8 where "RETPORT_RETRY_COUNT \<equiv> 30"
abbreviation DEFAULT_2P4G_REPORT_INVERVAL_MS :: u8 where "DEFAULT_2P4G_REPORT_INVERVAL_MS \<equiv> 1"

record report_queue =
  report_buffer_queue :: "report list"
  report_buffer_queue_head :: nat
  report_buffer_queue_tail :: nat
  kb_rpt :: report
  retry :: u8
  report_interval :: u8
  report_timer_buffer :: u32
  retry_time_buffer :: u32
  rb_sent :: "report list"

definition report_queue_start :: report_queue where
  "report_queue_start = \<lparr>report_buffer_queue = replicate REPORT_BUFFER_QUEUE_SIZE NoReport,
     report_buffer_queue_head = 0, report_buffer_queue_tail = 0, kb_rpt = NoReport, retry = 0,
     report_interval = DEFAULT_2P4G_REPORT_INVERVAL_MS, report_timer_buffer = 0, retry_time_buffer = 0, rb_sent = []\<rparr>"

section \<open>Operations\<close>

definition report_buffer_init :: "u32 \<Rightarrow> report_queue \<Rightarrow> report_queue" where
  "report_buffer_init now s =
     s\<lparr>report_buffer_queue_head := 0, report_buffer_queue_tail := 0, retry := 0, report_timer_buffer := now\<rparr>"

definition report_buffer_enqueue :: "report \<Rightarrow> report_queue \<Rightarrow> bool \<times> report_queue" where
  "report_buffer_enqueue r s =
     (let nxt = (report_buffer_queue_head s + 1) mod REPORT_BUFFER_QUEUE_SIZE in
      if nxt = report_buffer_queue_tail s then (False, s)
      else (True, s\<lparr>report_buffer_queue := (report_buffer_queue s)[report_buffer_queue_head s := r],
                    report_buffer_queue_head := nxt\<rparr>))"

text \<open>The report it writes through the pointer is the \<open>Some\<close>.\<close>

definition report_buffer_dequeue :: "report_queue \<Rightarrow> report option \<times> report_queue" where
  "report_buffer_dequeue s =
     (if report_buffer_queue_head s = report_buffer_queue_tail s then (None, s)
      else (Some (report_buffer_queue s ! report_buffer_queue_tail s),
            s\<lparr>report_buffer_queue_tail := (report_buffer_queue_tail s + 1) mod REPORT_BUFFER_QUEUE_SIZE\<rparr>))"

definition report_buffer_is_empty :: "report_queue \<Rightarrow> bool" where
  "report_buffer_is_empty s \<longleftrightarrow> report_buffer_queue_head s = report_buffer_queue_tail s"

definition report_buffer_update_timer :: "u32 \<Rightarrow> report_queue \<Rightarrow> report_queue" where
  "report_buffer_update_timer now s = s\<lparr>report_timer_buffer := now\<rparr>"

definition report_buffer_next_inverval :: "u32 \<Rightarrow> report_queue \<Rightarrow> bool" where
  "report_buffer_next_inverval now s \<longleftrightarrow> timer_elapsed32 now (report_timer_buffer s) > ucast (report_interval s)"

definition report_buffer_set_inverval :: "u8 \<Rightarrow> report_queue \<Rightarrow> report_queue" where
  "report_buffer_set_inverval interval s = s\<lparr>report_interval := interval\<rparr>"

definition report_buffer_set_retry :: "u8 \<Rightarrow> report_queue \<Rightarrow> report_queue" where
  "report_buffer_set_retry n s = s\<lparr>retry := n\<rparr>"

text \<open>What the transport is called with: NKRO reports only in a build with \<open>WIRELESS_NKRO_ENABLE\<close>.\<close>

definition transmitted :: "bool \<Rightarrow> report \<Rightarrow> report list" where
  "transmitted wireless_nkro r =
     (case r of NoReport \<Rightarrow> [] | NkroReport _ \<Rightarrow> if wireless_nkro then [r] else [] | _ \<Rightarrow> [r])"

text \<open>The choice of the next report: a fresh one, or the current one again.\<close>

definition next_pending :: "u32 \<Rightarrow> report_queue \<Rightarrow> bool \<times> report_queue" where
  "next_pending now s =
     (if retry s = 0 then
        (case report_buffer_dequeue s of
           (None, s) \<Rightarrow> (False, s)
         | (Some r, s) \<Rightarrow>
             (let s = s\<lparr>kb_rpt := r\<rparr> in
              if r \<noteq> NoReport \<and> now > 2
              then (True, s\<lparr>retry := RETPORT_RETRY_COUNT, retry_time_buffer := now\<rparr>) else (False, s)))
      else if timer_elapsed32 now (retry_time_buffer s) > REPORT_BUFFER_RETRY_INTERVAL
      then (True, s\<lparr>retry := retry s - 1, retry_time_buffer := now\<rparr>) else (False, s))"

text \<open>\<open>ready\<close> is the test of the connection state; the result says whether a report went out, that is whether the idle timer
  is reset.\<close>

definition report_buffer_task :: "bool \<Rightarrow> bool \<Rightarrow> u32 \<Rightarrow> report_queue \<Rightarrow> bool \<times> report_queue" where
  "report_buffer_task wireless_nkro ready now s =
     (if ready \<and> (\<not> report_buffer_is_empty s \<or> retry s \<noteq> 0) \<and> report_buffer_next_inverval now s then
        (case next_pending now s of (pending, s) \<Rightarrow>
           (pending, if pending then s\<lparr>rb_sent := rb_sent s @ transmitted wireless_nkro (kb_rpt s), report_timer_buffer := now\<rparr> else s))
      else (False, s))"

section \<open>The queue\<close>

definition report_queue_ok :: "report_queue \<Rightarrow> bool" where
  "report_queue_ok s \<longleftrightarrow>
     ring_inv REPORT_BUFFER_QUEUE_SIZE (report_buffer_queue s) (report_buffer_queue_head s) (report_buffer_queue_tail s)"

definition queued_reports :: "report_queue \<Rightarrow> report list" where
  "queued_reports s =
     ring_contents REPORT_BUFFER_QUEUE_SIZE (report_buffer_queue s) (report_buffer_queue_head s) (report_buffer_queue_tail s)"

lemmas report_queue_defs = report_queue_ok_def queued_reports_def report_buffer_enqueue_def report_buffer_dequeue_def

interpretation reports: bounded_fifo "REPORT_BUFFER_QUEUE_SIZE - 1" report_queue_ok queued_reports report_buffer_enqueue report_buffer_dequeue
  unfolding report_queue_ok_def [abs_def] queued_reports_def [abs_def]
  by (rule ring_bounded_fifo) (auto simp: report_queue_defs Let_def)

section \<open>What the transport sees\<close>

text \<open>The acknowledgement of \<open>ack_handler\<close> stops the repetition; \<open>accepted\<close> is a ghost.\<close>

datatype report_op = Report report | Task bool u32 | Acked | Interval u8

fun report_exec :: "bool \<Rightarrow> report_op \<Rightarrow> report_queue \<times> report list \<Rightarrow> report_queue \<times> report list" where
  "report_exec nk (Report r) (s, acc) = (case report_buffer_enqueue r s of (ok, s) \<Rightarrow> (s, if ok then acc @ [r] else acc))"
| "report_exec nk (Task ready now) (s, acc) = (snd (report_buffer_task nk ready now s), acc)"
| "report_exec nk Acked (s, acc) = (report_buffer_set_retry 0 s, acc)"
| "report_exec nk (Interval i) (s, acc) = (report_buffer_set_inverval i s, acc)"

text \<open>A report sent \<open>n\<close> times in a row.\<close>

definition repeated :: "bool \<Rightarrow> report \<times> nat \<Rightarrow> report list" where
  "repeated nk b = concat (replicate (snd b) (transmitted nk (fst b)))"

definition block_ok :: "report \<times> nat \<Rightarrow> bool" where
  "block_ok b \<longleftrightarrow> 1 \<le> snd b \<and> snd b \<le> 31"

definition sent_as :: "bool \<Rightarrow> (report \<times> nat) list \<Rightarrow> report_queue \<Rightarrow> report list \<Rightarrow> bool" where
  "sent_as nk bs s acc \<longleftrightarrow> map fst bs @ queued_reports s = acc \<and> (\<forall>b \<in> set bs. block_ok b) \<and>
     rb_sent s = concat (map (repeated nk) bs) \<and>
     (retry s \<noteq> 0 \<longrightarrow> bs \<noteq> [] \<and> kb_rpt s = fst (last bs) \<and> snd (last bs) + unat (retry s) = 31)"

definition buffer_inv :: "bool \<Rightarrow> report_queue \<times> report list \<Rightarrow> bool" where
  "buffer_inv nk c \<longleftrightarrow> report_queue_ok (fst c) \<and> NoReport \<notin> set (snd c) \<and> (\<exists>bs. sent_as nk bs (fst c) (snd c))"

lemma queue_frame [simp]:
  "report_queue_ok (s\<lparr>kb_rpt := r\<rparr>) = report_queue_ok s" "queued_reports (s\<lparr>kb_rpt := r\<rparr>) = queued_reports s"
  "report_queue_ok (s\<lparr>retry := n\<rparr>) = report_queue_ok s" "queued_reports (s\<lparr>retry := n\<rparr>) = queued_reports s"
  "report_queue_ok (s\<lparr>retry_time_buffer := t\<rparr>) = report_queue_ok s" "queued_reports (s\<lparr>retry_time_buffer := t\<rparr>) = queued_reports s"
  "report_queue_ok (s\<lparr>report_timer_buffer := t\<rparr>) = report_queue_ok s" "queued_reports (s\<lparr>report_timer_buffer := t\<rparr>) = queued_reports s"
  "report_queue_ok (s\<lparr>report_interval := i\<rparr>) = report_queue_ok s" "queued_reports (s\<lparr>report_interval := i\<rparr>) = queued_reports s"
  "report_queue_ok (s\<lparr>rb_sent := l\<rparr>) = report_queue_ok s" "queued_reports (s\<lparr>rb_sent := l\<rparr>) = queued_reports s"
  by (simp_all add: report_queue_ok_def queued_reports_def)

lemma dequeue_frame:
  assumes "report_buffer_dequeue s = (r, s')"
  shows "kb_rpt s' = kb_rpt s" "retry s' = retry s" "rb_sent s' = rb_sent s" "report_interval s' = report_interval s"
    "report_timer_buffer s' = report_timer_buffer s" "retry_time_buffer s' = retry_time_buffer s"
  using assms by (auto simp: report_buffer_dequeue_def split: if_splits)

lemma enqueue_frame:
  assumes "report_buffer_enqueue r s = (ok, s')"
  shows "kb_rpt s' = kb_rpt s" "retry s' = retry s" "rb_sent s' = rb_sent s"
  using assms by (auto simp: report_buffer_enqueue_def Let_def split: if_splits)

lemma is_empty_iff: "report_queue_ok s \<Longrightarrow> report_buffer_is_empty s \<longleftrightarrow> queued_reports s = []"
  by (simp add: report_buffer_is_empty_def report_queue_ok_def queued_reports_def ring_empty_iff)

lemma unat_minus_1: "x \<noteq> 0 \<Longrightarrow> unat (x - 1) = unat x - 1" for x :: "'a::len word"
  by (metis unat_minus_one)

text \<open>One due call of \<open>report_buffer_task\<close> sends exactly one report: a fresh one or the current one again.\<close>

lemma task_fresh:
  assumes "report_queue_ok s" and "retry s = 0" and "queued_reports s = r # rest" and "r \<noteq> NoReport" and "2 < now"
    and "report_buffer_next_inverval now s"
  obtains s' where "report_buffer_task nk True now s = (True, s')" and "report_queue_ok s'" and "queued_reports s' = rest" and "kb_rpt s' = r"
    and "retry s' = 30" and "rb_sent s' = rb_sent s @ transmitted nk r" and "report_timer_buffer s' = now" and "retry_time_buffer s' = now"
    and "report_interval s' = report_interval s"
proof -
  obtain q u where d: "report_buffer_dequeue s = (q, u)" by fastforce
  have q: "q = Some r" "queued_reports u = rest" "report_queue_ok u"
    using reports.deq_cases [OF assms(1) d] assms(3) reports.deq_first [OF assms(1,3)] d by auto
  have "\<not> report_buffer_is_empty s" using assms(1,3) by (simp add: is_empty_iff)
  then show ?thesis
    using that assms d q dequeue_frame [OF d] by (simp add: report_buffer_task_def next_pending_def Let_def)
qed

lemma task_again:
  assumes "report_queue_ok s" and "retry s \<noteq> 0" and "report_buffer_next_inverval now s" and "2 < timer_elapsed32 now (retry_time_buffer s)"
  obtains s' where "report_buffer_task nk True now s = (True, s')" and "report_queue_ok s'" and "queued_reports s' = queued_reports s" and "kb_rpt s' = kb_rpt s"
    and "retry s' = retry s - 1" and "rb_sent s' = rb_sent s @ transmitted nk (kb_rpt s)" and "report_timer_buffer s' = now" and "retry_time_buffer s' = now"
    and "report_interval s' = report_interval s"
  using that assms by (simp add: report_buffer_task_def next_pending_def)

lemma task_cases:
  assumes "report_queue_ok s" and "NoReport \<notin> set (queued_reports s)" and "2 < now"
  obtains (idle) "snd (report_buffer_task nk ready now s) = s"
  | (fresh) r rest where "ready" "retry s = 0" "queued_reports s = r # rest" "report_buffer_next_inverval now s"
  | (again) "ready" "retry s \<noteq> 0" "report_buffer_next_inverval now s" "2 < timer_elapsed32 now (retry_time_buffer s)"
proof (cases "ready \<and> (\<not> report_buffer_is_empty s \<or> retry s \<noteq> 0) \<and> report_buffer_next_inverval now s")
  case True
  show ?thesis
  proof (cases "retry s = 0")
    case True
    then show ?thesis using fresh \<open>ready \<and> _\<close> assms(1) by (cases "queued_reports s") (auto simp: is_empty_iff)
  next
    case False
    then show ?thesis
      using again idle \<open>ready \<and> _\<close> by (cases "2 < timer_elapsed32 now (retry_time_buffer s)") (auto simp: report_buffer_task_def next_pending_def)
  qed
next
  case False
  then show ?thesis using idle by (auto simp: report_buffer_task_def)
qed

lemma task_inv:
  assumes "buffer_inv nk (s, acc)" and "2 < now"
  shows "buffer_inv nk (snd (report_buffer_task nk ready now s), acc)"
proof -
  obtain bs where ok: "report_queue_ok s" "NoReport \<notin> set acc" and bs: "sent_as nk bs s acc"
    using assms(1) by (auto simp: buffer_inv_def)
  have no: "NoReport \<notin> set (queued_reports s)" using bs ok(2) by (auto simp: sent_as_def)
  show ?thesis
  proof (cases rule: task_cases [OF ok(1) no assms(2), of nk ready, case_names idle fresh again])
    case idle
    then show ?thesis using assms(1) by simp
  next
    case (fresh r rest)
    have r: "r \<noteq> NoReport" using no fresh(3) by auto
    obtain s' where t: "report_buffer_task nk True now s = (True, s')" "report_queue_ok s'" "queued_reports s' = rest" "kb_rpt s' = r"
      "retry s' = 30" "rb_sent s' = rb_sent s @ transmitted nk r"
      using task_fresh [OF ok(1) fresh(2,3) r assms(2) fresh(4)] by metis
    have "sent_as nk (bs @ [(r, 1)]) s' acc"
      using bs t fresh(3) by (auto simp: sent_as_def block_ok_def repeated_def)
    then show ?thesis using t ok fresh(1) by (auto simp: buffer_inv_def)
  next
    case again
    obtain s' where t: "report_buffer_task nk True now s = (True, s')" "report_queue_ok s'" "queued_reports s' = queued_reports s"
      "kb_rpt s' = kb_rpt s" "retry s' = retry s - 1" "rb_sent s' = rb_sent s @ transmitted nk (kb_rpt s)"
      using task_again [OF ok(1) again(2,3,4)] by metis
    obtain cs r n where b: "bs = cs @ [(r, n)]" "kb_rpt s = r" "n + unat (retry s) = 31"
      using bs again(2) by (cases bs rule: rev_cases) (auto simp: sent_as_def)
    have u: "0 < unat (retry s)" "unat (retry s - 1) = unat (retry s) - 1" using again(2) unat_minus_1 [OF again(2)] by (auto simp: unat_gt_0)
    have "sent_as nk (cs @ [(r, Suc n)]) s' acc"
      using bs b t u by (auto simp: sent_as_def block_ok_def repeated_def replicate_append_same [symmetric])
    then show ?thesis using t ok again(1) by (auto simp: buffer_inv_def)
  qed
qed

fun usual :: "report_op \<Rightarrow> bool" where
  "usual (Report r) \<longleftrightarrow> r \<noteq> NoReport"
| "usual (Task ready now) \<longleftrightarrow> 2 < now"
| "usual Acked \<longleftrightarrow> True"
| "usual (Interval i) \<longleftrightarrow> True"

lemma exec_inv:
  assumes "buffer_inv nk c" and "usual x"
  shows "buffer_inv nk (report_exec nk x c)"
proof -
  obtain s acc where c: "c = (s, acc)" by fastforce
  obtain bs where ok: "report_queue_ok s" "NoReport \<notin> set acc" and bs: "sent_as nk bs s acc"
    using assms(1) by (auto simp: buffer_inv_def c)
  show ?thesis
  proof (cases x)
    case (Report r)
    obtain k s' where e: "report_buffer_enqueue r s = (k, s')" by fastforce
    have "sent_as nk bs s' (if k then acc @ [r] else acc)"
      using bs enqueue_frame [OF e] reports.enq_cases [OF ok(1) e] by (auto simp: sent_as_def)
    then show ?thesis using Report e ok assms(2) reports.enq_cases [OF ok(1) e] by (auto simp: buffer_inv_def c)
  next
    case (Task ready now)
    then show ?thesis using task_inv [of nk s acc now ready] assms by (simp add: c)
  next
    case Acked
    then show ?thesis using bs ok by (auto simp: buffer_inv_def c sent_as_def report_buffer_set_retry_def)
  next
    case (Interval i)
    then show ?thesis using bs ok by (auto simp: buffer_inv_def c sent_as_def report_buffer_set_inverval_def)
  qed
qed

lemma start_inv: "buffer_inv nk (report_queue_start, [])"
  by (auto simp: buffer_inv_def report_queue_start_def report_queue_ok_def sent_as_def queued_reports_def ring_inv_def ring_contents_def)

lemma run_inv: "\<forall>x \<in> set xs. usual x \<Longrightarrow> buffer_inv nk c \<Longrightarrow> buffer_inv nk (fold (report_exec nk) xs c)"
  by (induction xs arbitrary: c) (simp_all add: exec_inv del: split_paired_All)



section \<open>The buffer drains without acknowledgements\<close>

definition weight :: "report_queue \<Rightarrow> nat" where
  "weight s = 31 * length (queued_reports s) + unat (retry s)"

text \<open>Calls far enough apart, the first one counted from \<open>a\<close>.\<close>

fun spaced :: "u8 \<Rightarrow> u32 \<Rightarrow> u32 list \<Rightarrow> bool" where
  "spaced i a [] \<longleftrightarrow> True"
| "spaced i a (t # ts) \<longleftrightarrow> 2 < t \<and> 2 < timer_elapsed32 t a \<and> ucast i < timer_elapsed32 t a \<and> spaced i t ts"

definition tasks :: "bool \<Rightarrow> u32 list \<Rightarrow> report_queue \<Rightarrow> report_queue" where
  "tasks nk = fold (\<lambda>t s. snd (report_buffer_task nk True t s))"

lemma task_progress:
  assumes "report_queue_ok s" and "NoReport \<notin> set (queued_reports s)" and "0 < weight s" and "2 < now"
    and "ucast (report_interval s) < timer_elapsed32 now (report_timer_buffer s)"
    and "retry s \<noteq> 0 \<longrightarrow> 2 < timer_elapsed32 now (retry_time_buffer s)"
  shows "let s' = snd (report_buffer_task nk True now s) in report_queue_ok s' \<and> NoReport \<notin> set (queued_reports s') \<and>
    weight s' = weight s - 1 \<and> report_timer_buffer s' = now \<and> retry_time_buffer s' = now \<and> report_interval s' = report_interval s"
proof -
  have due: "report_buffer_next_inverval now s" using assms(5) by (simp add: report_buffer_next_inverval_def)
  show ?thesis
  proof (cases "retry s = 0")
    case True
    then obtain r rest where q: "queued_reports s = r # rest" using assms(3) by (cases "queued_reports s") (auto simp: weight_def)
    moreover have "r \<noteq> NoReport" using assms(2) q by auto
    ultimately obtain s' where t: "report_buffer_task nk True now s = (True, s')" "report_queue_ok s'" "queued_reports s' = rest"
      "retry s' = 30" "report_timer_buffer s' = now" "retry_time_buffer s' = now" "report_interval s' = report_interval s"
      using task_fresh [OF assms(1) True q _ assms(4) due, of nk] by metis
    then show ?thesis using assms(2) q by (simp add: weight_def True)
  next
    case False
    obtain s' where t: "report_buffer_task nk True now s = (True, s')" "report_queue_ok s'" "queued_reports s' = queued_reports s"
      "retry s' = retry s - 1" "report_timer_buffer s' = now" "retry_time_buffer s' = now" "report_interval s' = report_interval s"
      using task_again [OF assms(1) False due, of nk] assms(6) False by metis
    moreover have "0 < unat (retry s)" using False by (simp add: unat_gt_0)
    ultimately show ?thesis using assms(2) unat_minus_1 [OF False] by (simp add: weight_def)
  qed
qed

lemma no_weight: "report_queue_ok s \<Longrightarrow> weight s = 0 \<Longrightarrow> snd (report_buffer_task nk True now s) = s"
  using is_empty_iff [of s] by (auto simp: weight_def report_buffer_task_def unat_eq_0)

text \<open>C25. Even if the module never acknowledges anything, calls of the task that are far enough apart
  empty the report buffer and its retries after at most 31 calls per queued report plus the
  retries left.\<close>

theorem report_buffer_drains:
  assumes "report_queue_ok s" and "NoReport \<notin> set (queued_reports s)" and "report_timer_buffer s = a" and "retry s \<noteq> 0 \<longrightarrow> retry_time_buffer s = a"
    and "spaced (report_interval s) a ts" and "weight s \<le> length ts"
  shows "queued_reports (tasks nk ts s) = [] \<and> retry (tasks nk ts s) = 0"
  using assms
proof (induction ts arbitrary: s a)
  case Nil
  then show ?case by (simp add: tasks_def weight_def unat_eq_0)
next
  case (Cons t ts)
  let ?s = "snd (report_buffer_task nk True t s)"
  show ?case
  proof (cases "weight s = 0")
    case True
    have "tasks nk us s = s" for us
      using no_weight [OF Cons.prems(1) True] by (induction us) (simp_all add: tasks_def)
    then show ?thesis using True by (simp add: weight_def unat_eq_0)
  next
    case False
    have p: "report_queue_ok ?s" "NoReport \<notin> set (queued_reports ?s)" "weight ?s = weight s - 1" "report_timer_buffer ?s = t"
      "retry_time_buffer ?s = t" "report_interval ?s = report_interval s"
      using task_progress [of s t nk] Cons.prems False by (auto simp: Let_def)
    then have "queued_reports (tasks nk ts ?s) = [] \<and> retry (tasks nk ts ?s) = 0"
      using Cons.prems(5,6) by (intro Cons.IH [of ?s t]) auto
    then show ?thesis by (simp add: tasks_def)
  qed
qed

theorem report_buffer_drains_witness:
  "let s = snd (report_buffer_enqueue (KbReport [0, 4]) report_queue_start); ts = map (\<lambda>k. of_nat (4 * k)) [1..<33]
   in queued_reports (tasks False ts s) = [] \<and> retry (tasks False ts s) = 0"
proof -
  define s where "s = snd (report_buffer_enqueue (KbReport [0, 4]) report_queue_start)"
  define ts :: "u32 list" where "ts = map (\<lambda>k. of_nat (4 * k)) [1..<33]"
  have q: "queued_reports s = [KbReport [0, 4]]" "report_queue_ok s"
    by (simp_all add: s_def report_queue_defs report_queue_start_def ring_inv_def ring_contents_def Let_def)
  have f: "report_timer_buffer s = 0" "retry s = 0" "report_interval s = 1"
    by (simp_all add: s_def report_buffer_enqueue_def report_queue_start_def Let_def)
  have t: "spaced 1 0 ts" "length ts = 32" unfolding ts_def by code_simp+
  have "queued_reports (tasks False ts s) = [] \<and> retry (tasks False ts s) = 0"
    using report_buffer_drains [of s 0 ts False] q f t by (simp add: weight_def)
  then show ?thesis by (simp only: Let_def s_def [symmetric] ts_def [symmetric])
qed

end
