(* ===== verification/Battery.thy ===== *)
theory Battery
  imports Prelude
begin

text \<open>
  Battery supervision of the wireless keyboards (\<open>keyboards/keychron/common/wireless/battery.c\<close>, with \<open>LK_WIRELESS_ENABLE\<close> and
  \<open>RGB_MATRIX_ENABLE\<close>, without a charging pin): the voltage from the module or from the converter, the charge shown, the
  counters of low readings and what they trigger.  \<open>bat_calls\<close> is the sequence of calls to other modules.
\<close>

abbreviation EMPTY_VOLTAGE_VALUE :: u16 where "EMPTY_VOLTAGE_VALUE \<equiv> 3500"
abbreviation SHUTDOWN_VOLTAGE_VALUE :: u16 where "SHUTDOWN_VOLTAGE_VALUE \<equiv> 3300"
abbreviation BATTERY_EMPTY_COUNT :: u8 where "BATTERY_EMPTY_COUNT \<equiv> 10"
abbreviation CRITICAL_LOW_COUNT :: u8 where "CRITICAL_LOW_COUNT \<equiv> 20"
abbreviation VOLTAGE_POWER_ON_MEASURE_COUNT :: u8 where "VOLTAGE_POWER_ON_MEASURE_COUNT \<equiv> 15"
abbreviation VOLTAGE_MEASURE_INTERVAL :: u32 where "VOLTAGE_MEASURE_INTERVAL \<equiv> 3000"
abbreviation BACKLIGHT_OFF_VOLTAGE_MEASURE_INTERVAL :: u32 where "BACKLIGHT_OFF_VOLTAGE_MEASURE_INTERVAL \<equiv> 200"
abbreviation RTC_MAX_TIME :: u32 where "RTC_MAX_TIME \<equiv> 86400000"

datatype battery_call = BatteryLowEnable bool | LowBatteryShutdown | MeasureBattery | RtcClear

record battery =
  bat_monitor_timer_buffer :: u32
  voltage :: u16
  bat_empty :: u8
  critical_low :: u8
  power_on_sample :: u8
  bat_calls :: "battery_call list"

definition battery_start :: battery where
  "battery_start = \<lparr>bat_monitor_timer_buffer = 0, voltage = 4100, bat_empty = 0, critical_low = 0, power_on_sample = 0, bat_calls = []\<rparr>"

definition bat_call :: "battery_call \<Rightarrow> battery \<Rightarrow> battery" where
  "bat_call c s = s\<lparr>bat_calls := bat_calls s @ [c]\<rparr>"

section \<open>Voltage\<close>

definition battery_set_voltage :: "u16 \<Rightarrow> battery \<Rightarrow> battery" where
  "battery_set_voltage v s = s\<lparr>voltage := v\<rparr>"

text \<open>The divider of the module (560 and 499 kOhm) or of the converter (10 and 10); \<open>compensation\<close> is 30 times the total
  duty ratio of the LED driver, a float, truncated, while the matrix is on.  The products fit \<open>uint32_t\<close>.\<close>

definition battery_calculate_voltage :: "bool \<Rightarrow> u16 \<Rightarrow> u32 option \<Rightarrow> battery \<Rightarrow> battery" where
  "battery_calculate_voltage src_bt v compensation s =
     (let volt = as_u16 (if src_bt then uint v * (560 + 499) div 499 else uint v * 3300 div 1024 * (10 + 10) div 10);
          volt = (case compensation of None \<Rightarrow> volt | Some c \<Rightarrow> as_u16 (uint volt + uint c))
      in battery_set_voltage volt s)"

definition battery_get_percentage :: "battery \<Rightarrow> u8" where
  "battery_get_percentage s =
     (let v = uint (voltage s) in
      if v > 4100 then 100
      else if v > 3500 then as_u8 ((v - 3500) * 80 div (4100 - 3500) + 20)
      else if v > 3300 then as_u8 ((v - 3300) * 20 div (3500 - 3300))
      else 0)"

section \<open>Supervision\<close>

definition battery_is_empty :: "battery \<Rightarrow> bool" where
  "battery_is_empty s \<longleftrightarrow> bat_empty s > BATTERY_EMPTY_COUNT"

definition battery_is_critical_low :: "battery \<Rightarrow> bool" where
  "battery_is_critical_low s \<longleftrightarrow> critical_low s > CRITICAL_LOW_COUNT"

definition battery_check_empty :: "battery \<Rightarrow> battery" where
  "battery_check_empty s =
     (if voltage s < EMPTY_VOLTAGE_VALUE \<and> bat_empty s \<le> BATTERY_EMPTY_COUNT then
        (let s = s\<lparr>bat_empty := bat_empty s + 1\<rparr> in
         if bat_empty s > BATTERY_EMPTY_COUNT
         then (bat_call (BatteryLowEnable True) s)\<lparr>power_on_sample := VOLTAGE_POWER_ON_MEASURE_COUNT\<rparr> else s)
      else s)"

definition battery_check_critical_low :: "battery \<Rightarrow> battery" where
  "battery_check_critical_low s =
     (if voltage s < SHUTDOWN_VOLTAGE_VALUE then
        (if critical_low s \<le> CRITICAL_LOW_COUNT then
           (let s = s\<lparr>critical_low := critical_low s + 1\<rparr>
            in if critical_low s > CRITICAL_LOW_COUNT then bat_call LowBatteryShutdown s else s)
         else s)
      else if critical_low s \<le> CRITICAL_LOW_COUNT then s\<lparr>critical_low := 0\<rparr> else s)"

definition battery_power_on_sample :: "battery \<Rightarrow> bool" where
  "battery_power_on_sample s \<longleftrightarrow> power_on_sample s < VOLTAGE_POWER_ON_MEASURE_COUNT"

definition battery_timer_reset :: "u32 \<Rightarrow> battery \<Rightarrow> battery" where
  "battery_timer_reset rtc s = s\<lparr>bat_monitor_timer_buffer := rtc\<rparr>"

text \<open>\<open>rtc\<close> is the clock that runs while the controller sleeps; \<open>wireless\<close>: a wireless transport is selected, \<open>connected\<close>: it
  is connected; \<open>lit\<close>: the backlight is on for an indication; \<open>usb\<close>: USB power is present.\<close>

definition battery_sample :: "u32 \<Rightarrow> battery \<Rightarrow> battery" where
  "battery_sample rtc s =
     (let s = battery_check_critical_low (battery_check_empty s);
          s = s\<lparr>bat_monitor_timer_buffer := rtc\<rparr>;
          s = (if rtc > RTC_MAX_TIME then bat_call RtcClear (s\<lparr>bat_monitor_timer_buffer := 0\<rparr>) else s);
          s = bat_call MeasureBattery s
      in if power_on_sample s < VOLTAGE_POWER_ON_MEASURE_COUNT then s\<lparr>power_on_sample := power_on_sample s + 1\<rparr> else s)"

definition sample_due :: "u32 \<Rightarrow> bool \<Rightarrow> bool \<Rightarrow> bool \<Rightarrow> battery \<Rightarrow> bool" where
  "sample_due rtc wireless connected lit s \<longleftrightarrow>
     (let t = timer_elapsed32 rtc (bat_monitor_timer_buffer s) in
      wireless \<and> (connected \<or> battery_power_on_sample s) \<and>
      (battery_power_on_sample s \<and> \<not> lit \<and> t > BACKLIGHT_OFF_VOLTAGE_MEASURE_INTERVAL \<or> t > VOLTAGE_MEASURE_INTERVAL))"

text \<open>USB power ends the supervision of a low battery.\<close>

definition battery_usb_reset :: "bool \<Rightarrow> battery \<Rightarrow> battery" where
  "battery_usb_reset usb s =
     (if (bat_empty s \<noteq> 0 \<or> critical_low s \<noteq> 0) \<and> usb
      then bat_call (BatteryLowEnable False) (s\<lparr>bat_empty := 0, critical_low := 0\<rparr>) else s)"

definition battery_task :: "u32 \<Rightarrow> bool \<Rightarrow> bool \<Rightarrow> bool \<Rightarrow> bool \<Rightarrow> battery \<Rightarrow> battery" where
  "battery_task rtc wireless connected lit usb s =
     battery_usb_reset usb (if sample_due rtc wireless connected lit s then battery_sample rtc s else s)"

section \<open>The charge shown\<close>

definition charge :: "int \<Rightarrow> int" where
  "charge v = (if v > 4100 then 100 else if v > 3500 then (v - 3500) * 80 div 600 + 20 else if v > 3300 then (v - 3300) * 20 div 200 else 0)"

lemma part_bounds:
  "3500 < v \<Longrightarrow> v \<le> 4100 \<Longrightarrow> 0 \<le> (v - 3500) * 80 div (600 :: int) \<and> (v - 3500) * 80 div (600 :: int) \<le> 80"
  "3300 < v \<Longrightarrow> v \<le> 3500 \<Longrightarrow> 0 \<le> (v - 3300) * 20 div (200 :: int) \<and> (v - 3300) * 20 div (200 :: int) \<le> 20"
  using zdiv_mono1 [of "(v - 3500) * 80" 48000 600] zdiv_mono1 [of "(v - 3300) * 20" 4000 200]
  by (simp_all add: pos_imp_zdiv_nonneg_iff)

lemma charge_bounds: "0 \<le> charge v" "charge v \<le> 100"
  using part_bounds [of v] by (auto simp: charge_def)

lemma charge_mono:
  assumes "v \<le> w"
  shows "charge v \<le> charge w"
proof -
  have "(v - 3500) * 80 div 600 \<le> (w - 3500) * 80 div (600 :: int)" "(v - 3300) * 20 div 200 \<le> (w - 3300) * 20 div (200 :: int)"
    using assms by (intro zdiv_mono1; simp)+
  then show ?thesis using assms part_bounds [of v] part_bounds [of w] unfolding charge_def by (smt (verit))
qed

lemma percentage_charge: "uint (battery_get_percentage s) = charge (uint (voltage s))"
proof -
  have "battery_get_percentage s = as_u8 (charge (uint (voltage s)))"
    by (simp add: battery_get_percentage_def charge_def Let_def)
  then show ?thesis using charge_bounds [of "uint (voltage s)"] by (simp add: unat_word_of_int_id)
qed

text \<open>The percentage shown is at most 100 and never falls when the voltage rises.\<close>

lemma battery_percentage_monotone:
  "battery_get_percentage (battery_set_voltage v s) \<le> 100 \<and>
   (v \<le> w \<longrightarrow> battery_get_percentage (battery_set_voltage v s) \<le> battery_get_percentage (battery_set_voltage w t))"
  using charge_bounds charge_mono by (simp add: word_le_def percentage_charge battery_set_voltage_def)

lemma battery_percentage_monotone_witness:
  "battery_get_percentage (battery_set_voltage 3400 battery_start) \<le> battery_get_percentage (battery_set_voltage 3900 battery_start)"
  using battery_percentage_monotone [of 3400 battery_start 3900 battery_start] by simp

section \<open>Low readings\<close>

text \<open>The counters over a sequence of readings, each followed by the two checks.\<close>

definition reading :: "u16 \<Rightarrow> battery \<Rightarrow> battery" where
  "reading v s = battery_check_critical_low (battery_check_empty (battery_set_voltage v s))"

definition low_run :: "u16 list \<Rightarrow> nat \<Rightarrow> bool" where
  "low_run vs n \<longleftrightarrow> n \<le> length vs \<and> (\<forall>v \<in> set (drop (length vs - n) vs). v < SHUTDOWN_VOLTAGE_VALUE)"

lemma low_run_snoc: "v < SHUTDOWN_VOLTAGE_VALUE \<Longrightarrow> low_run vs n \<Longrightarrow> low_run (vs @ [v]) (Suc n)"
  by (auto simp: low_run_def)

definition shutdowns :: "battery \<Rightarrow> nat" where
  "shutdowns s = length (filter (\<lambda>c. c = LowBatteryShutdown) (bat_calls s))"

definition supervised :: "u16 list \<Rightarrow> battery \<Rightarrow> bool" where
  "supervised vs s \<longleftrightarrow> critical_low s \<le> 21 \<and>
     (if critical_low s = 21 then shutdowns s = 1 \<and> (\<exists>us ws. vs = us @ ws \<and> low_run us 21)
      else shutdowns s = 0 \<and> low_run vs (unat (critical_low s)))"

lemma check_empty_frame [simp]:
  "critical_low (battery_check_empty s) = critical_low s" "voltage (battery_check_empty s) = voltage s"
  "shutdowns (battery_check_empty s) = shutdowns s"
  by (simp_all add: battery_check_empty_def bat_call_def shutdowns_def Let_def)

lemma critical_step:
  "critical_low (battery_check_critical_low s) =
     (if critical_low s \<le> 20 then if voltage s < SHUTDOWN_VOLTAGE_VALUE then critical_low s + 1 else 0 else critical_low s)"
  "shutdowns (battery_check_critical_low s) = shutdowns s + (if voltage s < SHUTDOWN_VOLTAGE_VALUE \<and> critical_low s = 20 then 1 else 0)"
proof -
  have "20 < n + 1 \<longleftrightarrow> n = 20" if "n \<le> 20" for n :: u8
    using that by (auto simp: word_less_nat_alt word_le_nat_alt unat_word_ariths word_unat_eq_iff)
  then show "critical_low (battery_check_critical_low s) =
     (if critical_low s \<le> 20 then if voltage s < SHUTDOWN_VOLTAGE_VALUE then critical_low s + 1 else 0 else critical_low s)"
    "shutdowns (battery_check_critical_low s) = shutdowns s + (if voltage s < SHUTDOWN_VOLTAGE_VALUE \<and> critical_low s = 20 then 1 else 0)"
    by (simp_all add: battery_check_critical_low_def bat_call_def shutdowns_def Let_def)
qed

lemma reading_supervised:
  assumes "supervised vs s"
  shows "supervised (vs @ [v]) (reading v s)"
proof -
  let ?c = "critical_low s"
  have f: "critical_low (battery_set_voltage v s) = ?c" "voltage (battery_set_voltage v s) = v" "shutdowns (battery_set_voltage v s) = shutdowns s"
    by (simp_all add: battery_set_voltage_def shutdowns_def)
  note step = critical_step [of "battery_check_empty (battery_set_voltage v s)", simplified f check_empty_frame]
  show ?thesis
  proof (cases "?c = 21")
    case True
    then obtain us ws where u: "vs = us @ ws" "low_run us 21" "shutdowns s = 1" using assms by (auto simp: supervised_def)
    then have "\<exists>us' ws'. vs @ [v] = us' @ ws' \<and> low_run us' 21" by (metis append_assoc)
    then show ?thesis using True u step by (simp add: supervised_def reading_def)
  next
    case False
    then have c: "?c \<le> 20" "shutdowns s = 0" "low_run vs (unat ?c)"
      using assms by (auto simp: supervised_def word_le_nat_alt word_unat_eq_iff)
    have n: "unat (?c + 1) = Suc (unat ?c)" using c(1) by (simp add: word_le_nat_alt unat_word_ariths)
    have e: "?c + 1 = 21 \<longleftrightarrow> ?c = 20" "?c + 1 \<le> 21" using n c(1) by (simp_all add: word_unat_eq_iff word_le_nat_alt)
    show ?thesis
    proof (cases "v < SHUTDOWN_VOLTAGE_VALUE")
      case True
      then have r: "low_run (vs @ [v]) (Suc (unat ?c))" using low_run_snoc c(3) by blast
      have "\<exists>us ws. vs @ [v] = us @ ws \<and> low_run us 21" if "?c = 20"
      proof (intro exI conjI)
        show "vs @ [v] = (vs @ [v]) @ []" by simp
        show "low_run (vs @ [v]) 21" using r that by simp
      qed
      moreover have "critical_low (reading v s) = ?c + 1" "shutdowns (reading v s) = (if ?c = 20 then 1 else 0)"
        using True c step by (simp_all add: reading_def)
      ultimately show ?thesis using e n r by (cases "?c = 20") (simp_all add: supervised_def)
    next
      case False
      then show ?thesis using c step by (simp add: supervised_def reading_def low_run_def)
    qed
  qed
qed

text \<open>The low battery shutdown is called only after more than twenty samples in a row below the
  shutdown voltage: one better sample starts the count again.\<close>

lemma shutdown_needs_low_run:
  "shutdowns (fold reading vs battery_start) \<le> 1 \<and>
   (shutdowns (fold reading vs battery_start) = 1 \<longrightarrow> (\<exists>us ws. vs = us @ ws \<and> low_run us 21))"
proof -
  have "supervised vs (fold reading vs battery_start)"
  proof (induction vs rule: rev_induct)
    case Nil
    then show ?case by (simp add: supervised_def battery_start_def shutdowns_def low_run_def)
  next
    case (snoc v vs)
    then show ?case using reading_supervised by simp
  qed
  then show ?thesis by (auto simp: supervised_def split: if_splits)
qed

lemma shutdown_needs_low_run_witness:
  "shutdowns (fold reading (replicate 21 3200) battery_start) = 1 \<and> (\<exists>us ws. replicate 21 3200 = us @ ws \<and> low_run us 21)"
proof -
  have "shutdowns (fold reading (replicate 21 3200) battery_start) = 1" by code_simp
  then show ?thesis using shutdown_needs_low_run [of "replicate 21 3200"] by blast
qed

text \<open>The other counter is never taken back by a good reading: it counts the low readings of all time.\<close>

lemma empty_counts_all:
  assumes "unat (bat_empty s) + length (filter (\<lambda>v. v < EMPTY_VOLTAGE_VALUE) vs) \<le> 11"
  shows "unat (bat_empty (fold reading vs s)) = unat (bat_empty s) + length (filter (\<lambda>v. v < EMPTY_VOLTAGE_VALUE) vs)"
  using assms
proof (induction vs arbitrary: s)
  case (Cons v vs)
  have k: "bat_empty (battery_check_critical_low u) = bat_empty u" for u
    by (simp add: battery_check_critical_low_def bat_call_def Let_def)
  have "unat (bat_empty (reading v s)) = unat (bat_empty s) + (if v < EMPTY_VOLTAGE_VALUE then 1 else 0)"
    using Cons.prems by (auto simp: reading_def k battery_check_empty_def battery_set_voltage_def bat_call_def Let_def word_le_nat_alt unat_word_ariths split: if_splits)
  then show ?case using Cons by (auto split: if_splits)
qed simp

end
