(* ===== verification/WirelessEvents.thy ===== *)
theory WirelessEvents
  imports RingBuffer
begin

text \<open>
  The events the radio module reports and the queue they wait in (\<open>wireless_event_type.h\<close>,
  \<open>keyboards/keychron/common/wireless/wireless.c\<close>): sixteen entries, and an event that finds no room replaces the oldest.
\<close>

section \<open>Events\<close>

datatype event_type =
    EVT_NONE | EVT_RESET | EVT_DISCOVERABLE | EVT_RECONNECTING | EVT_CONNECTED | EVT_DISCONNECTED | EVT_BT_PINCODE_ENTRY
  | EVT_EXIT_BT_PINCODE_ENTRY | EVT_SLEEP | EVT_HID_SET_PROTOCOL | EVT_HID_INDICATOR | EVT_CONECTION_INTERVAL | EVT_RAW_HID

text \<open>The members of the union share one byte; \<open>raw_hid_data\<close> is a pointer to a buffer, here its bytes.\<close>

record wireless_event =
  evt_type :: event_type
  evt_param :: u8
  evt_raw :: "u8 list"
  evt_data :: u8

definition no_wireless_event :: wireless_event where
  "no_wireless_event = \<lparr>evt_type = EVT_NONE, evt_param = 0, evt_raw = [], evt_data = 0\<rparr>"

section \<open>The queue\<close>

abbreviation WT_EVENT_QUEUE_SIZE :: nat where "WT_EVENT_QUEUE_SIZE \<equiv> 16"

record event_queue =
  wireless_event_queue :: "wireless_event list"
  wireless_event_queue_head :: nat
  wireless_event_queue_tail :: nat

definition wireless_event_queue_init :: event_queue where
  "wireless_event_queue_init =
     \<lparr>wireless_event_queue = replicate WT_EVENT_QUEUE_SIZE no_wireless_event, wireless_event_queue_head = 0, wireless_event_queue_tail = 0\<rparr>"

definition wireless_event_enqueue :: "wireless_event \<Rightarrow> event_queue \<Rightarrow> event_queue" where
  "wireless_event_enqueue e q =
     (let nxt = (wireless_event_queue_head q + 1) mod WT_EVENT_QUEUE_SIZE;
          q = (if nxt = wireless_event_queue_tail q
               then q\<lparr>wireless_event_queue_tail := (wireless_event_queue_tail q + 1) mod WT_EVENT_QUEUE_SIZE\<rparr> else q)
      in q\<lparr>wireless_event_queue := (wireless_event_queue q)[wireless_event_queue_head q := e], wireless_event_queue_head := nxt\<rparr>)"

definition wireless_event_dequeue :: "event_queue \<Rightarrow> wireless_event option \<times> event_queue" where
  "wireless_event_dequeue q =
     (if wireless_event_queue_head q = wireless_event_queue_tail q then (None, q)
      else (Some (wireless_event_queue q ! wireless_event_queue_tail q),
            q\<lparr>wireless_event_queue_tail := (wireless_event_queue_tail q + 1) mod WT_EVENT_QUEUE_SIZE\<rparr>))"

definition event_queue_ok :: "event_queue \<Rightarrow> bool" where
  "event_queue_ok q \<longleftrightarrow> ring_inv WT_EVENT_QUEUE_SIZE (wireless_event_queue q) (wireless_event_queue_head q) (wireless_event_queue_tail q)"

definition queued_events :: "event_queue \<Rightarrow> wireless_event list" where
  "queued_events q = ring_contents WT_EVENT_QUEUE_SIZE (wireless_event_queue q) (wireless_event_queue_head q) (wireless_event_queue_tail q)"

text \<open>With room left, the queue is a bounded queue; \<open>wireless_event_offer\<close> is the operation that refuses instead of replacing.\<close>

definition wireless_event_offer :: "wireless_event \<Rightarrow> event_queue \<Rightarrow> bool \<times> event_queue" where
  "wireless_event_offer e q =
     (if Suc (wireless_event_queue_head q) mod WT_EVENT_QUEUE_SIZE = wireless_event_queue_tail q then (False, q)
      else (True, wireless_event_enqueue e q))"

interpretation events: bounded_fifo "WT_EVENT_QUEUE_SIZE - 1" event_queue_ok queued_events wireless_event_offer wireless_event_dequeue
  unfolding event_queue_ok_def [abs_def] queued_events_def [abs_def]
  by (rule ring_bounded_fifo) (auto simp: wireless_event_offer_def wireless_event_enqueue_def wireless_event_dequeue_def Let_def)

lemma event_queue_init: "event_queue_ok wireless_event_queue_init" "queued_events wireless_event_queue_init = []"
  by (simp_all add: event_queue_ok_def queued_events_def wireless_event_queue_init_def ring_inv_def ring_contents_def)

lemma ring_push_full:
  assumes "ring_inv n buf h t" and "Suc h mod n = t"
  shows "ring_contents n (buf[h := x]) t (Suc t mod n) = tl (ring_contents n buf h t) @ [x]"
proof -
  have n: "1 < n" "length buf = n" "h < n" "t < n" using assms(1) by (auto simp: ring_inv_def)
  have ne: "h \<noteq> t" using assms(2) n by (auto simp: mod_Suc split: if_splits)
  have p: "ring_contents n buf h t = buf ! t # ring_contents n buf h (Suc t mod n)" by (rule ring_pop [OF assms(1) ne])
  have "Suc h mod n \<noteq> Suc t mod n" using n ne assms(2) by (auto simp: mod_Suc split: if_splits)
  then have "ring_contents n (buf[h := x]) (Suc h mod n) (Suc t mod n) = ring_contents n buf h (Suc t mod n) @ [x]"
    using ring_push [of n buf h "Suc t mod n" x] assms(1) n by (simp add: ring_inv_def)
  then show ?thesis using p assms(2) by simp
qed

lemma enqueue_events:
  assumes "event_queue_ok q"
  shows "event_queue_ok (wireless_event_enqueue e q) \<and>
    queued_events (wireless_event_enqueue e q) =
      (if length (queued_events q) < 15 then queued_events q @ [e] else tl (queued_events q) @ [e])"
proof -
  let ?n = WT_EVENT_QUEUE_SIZE and ?b = "wireless_event_queue q" and ?h = "wireless_event_queue_head q" and ?t = "wireless_event_queue_tail q"
  have inv: "ring_inv ?n ?b ?h ?t" using assms by (simp add: event_queue_ok_def)
  have full: "Suc ?h mod ?n = ?t \<longleftrightarrow> \<not> length (queued_events q) < 15"
    using ring_full_iff [OF inv] ring_length_bound [OF inv] by (auto simp: queued_events_def)
  show ?thesis
    using full inv ring_push [OF inv, of e] ring_push_full [OF inv, of e] ring_inv_push [OF inv, of e] ring_inv_pop [of ?n "?b[?h := e]" ?t ?t]
    by (auto simp: event_queue_ok_def queued_events_def wireless_event_enqueue_def Let_def ring_inv_def)
qed

definition newest :: "nat \<Rightarrow> 'a list \<Rightarrow> 'a list" where
  "newest n xs = drop (length xs - n) xs"

lemma newest_snoc:
  assumes "0 < n"
  shows "(if length (newest n xs) < n then newest n xs @ [x] else tl (newest n xs) @ [x]) = newest n (xs @ [x])"
proof (cases "length xs < n")
  case True
  then show ?thesis by (simp add: newest_def)
next
  case False
  then have "length (xs @ [x]) - n = Suc (length xs - n)" "\<not> length (newest n xs) < n" using assms by (simp_all add: newest_def)
  then show ?thesis using False assms by (simp add: newest_def drop_Suc tl_drop)
qed

text \<open>Whatever was reported since the queue was last served, the newest fifteen events are what the task will find.\<close>

lemma enqueued_newest:
  assumes "event_queue_ok q"
  shows "event_queue_ok (fold wireless_event_enqueue es q) \<and>
    queued_events (fold wireless_event_enqueue es q) = newest 15 (queued_events q @ es)"
  using assms
proof (induction es rule: rev_induct)
  case Nil
  then have "length (queued_events q) \<le> 15"
    using ring_length_bound [of WT_EVENT_QUEUE_SIZE] by (fastforce simp: event_queue_ok_def queued_events_def)
  then show ?case using Nil by (simp add: newest_def)
next
  case (snoc e es)
  then show ?case
    using enqueue_events [of "fold wireless_event_enqueue es q" e] newest_snoc [of 15 "queued_events q @ es" e]
    by (auto simp del: not_less split: if_splits)
qed

end
