(* ===== verification/Lkbt51.thy ===== *)
theory Lkbt51
  imports ReportBuffer Battery WirelessEvents
begin

text \<open>
  The driver of the radio module (\<open>keyboards/keychron/common/wireless/lkbt51.c\<close>, with \<open>RAW_ENABLE\<close>, \<open>JOYSTICK_ENABLE\<close>,
  \<open>XINPUT_ENABLE\<close> and a reset pin): the commands it sends over SPI, the packet it reads when the module asks for attention,
  and the relay of firmware-update frames.  \<open>spi_sent\<close>, \<open>raw_sent\<close> and \<open>factory_sent\<close> are what went to the module, to the
  raw HID endpoint and to the factory test.  A read outside the receive buffer, which C leaves undefined, is \<open>None\<close>.
\<close>

section \<open>State\<close>

record radio =
  rq :: report_queue
  evq :: event_queue
  bat :: battery
  cmd_sn :: u8
  connection_interval :: u16
  wake_time :: u32
  factory_reset_timer :: u32
  last_comm_time :: u32
  wait_for_new_pkt :: bool
  rx_len :: u8
  rx_sn :: u8
  dfu_sn :: u8
  dfu_buf :: "u8 list"
  radio_clock :: u32
  spi_sent :: "u8 list list"
  raw_sent :: "u8 list list"
  factory_sent :: "u8 list list"

abbreviation PACKET_MAX_LEN :: nat where "PACKET_MAX_LEN \<equiv> 64"
abbreviation BUFFER_SIZE :: nat where "BUFFER_SIZE \<equiv> 64"
abbreviation VALID_DATA_START_INDEX :: nat where "VALID_DATA_START_INDEX \<equiv> 4"
abbreviation PACKECT_HEADER_LEN :: nat where "PACKECT_HEADER_LEN \<equiv> 5"
abbreviation RAW_EPSIZE :: nat where "RAW_EPSIZE \<equiv> 32"
abbreviation LKBT51_COMM_TIMEOUT_MS :: u32 where "LKBT51_COMM_TIMEOUT_MS \<equiv> 2000"

definition radio_start :: radio where
  "radio_start = \<lparr>rq = report_queue_start, evq = wireless_event_queue_init, bat = battery_start, cmd_sn = 0, connection_interval = 1,
     wake_time = 0, factory_reset_timer = 0, last_comm_time = 0, wait_for_new_pkt = True, rx_len = 0xFF, rx_sn = 0, dfu_sn = 0,
     dfu_buf = replicate RAW_EPSIZE 0, radio_clock = 0, spi_sent = [], raw_sent = [], factory_sent = []\<rparr>"

definition radio_wait :: "u32 \<Rightarrow> radio \<Rightarrow> radio" where
  "radio_wait d s = s\<lparr>radio_clock := radio_clock s + d\<rparr>"

definition post_event :: "wireless_event \<Rightarrow> radio \<Rightarrow> radio" where
  "post_event e s = s\<lparr>evq := wireless_event_enqueue e (evq s)\<rparr>"

section \<open>Commands\<close>

definition checksum :: "u8 list \<Rightarrow> u16" where
  "checksum xs = fold (\<lambda>b c. c + ucast b) xs 0"

definition lo8 :: "u16 \<Rightarrow> u8" where "lo8 w = ucast w"
definition hi8 :: "u16 \<Rightarrow> u8" where "hi8 w = ucast (drop_bit 8 w)"

text \<open>The bytes of a frame from the sync byte on: kind, length and its complement, serial number, payload, checksum.\<close>

definition frame :: "u8 \<Rightarrow> u8 \<Rightarrow> u8 list \<Rightarrow> u8 list" where
  "frame kind n payload =
     (let len = of_nat (length payload + 2)
      in [0xAA, kind, len, NOT len, n] @ payload @ [lo8 (checksum payload), hi8 (checksum payload)])"

definition lkbt51_send_cmd :: "u8 list \<Rightarrow> bool \<Rightarrow> bool \<Rightarrow> radio \<Rightarrow> radio" where
  "lkbt51_send_cmd payload ack_enable again s =
     (let n = (if again then cmd_sn s else cmd_sn s + 1);
          n = (if n = 0 then n + 1 else n)
      in s\<lparr>cmd_sn := n, spi_sent := spi_sent s @ [[0x84, 0x7E, 0, 0] @ frame (if ack_enable then 0x56 else 0x55) n payload]\<rparr>)"

definition lkbt51_wake :: "radio \<Rightarrow> radio" where
  "lkbt51_wake s =
     (if timer_elapsed32 (radio_clock s) (wake_time s) > 3000
      then radio_wait 310 (s\<lparr>wake_time := radio_clock s\<rparr>) else s)"

definition comm_started :: "radio \<Rightarrow> radio" where
  "comm_started s = (if last_comm_time s = 0 then s\<lparr>last_comm_time := radio_clock s\<rparr> else s)"

definition lkbt51_send_keyboard :: "u8 list \<Rightarrow> radio \<Rightarrow> radio" where
  "lkbt51_send_keyboard r s = comm_started (lkbt51_send_cmd (0x11 # take 8 r) True False s)"

definition lkbt51_send_nkro :: "u8 list \<Rightarrow> radio \<Rightarrow> radio" where
  "lkbt51_send_nkro r s = comm_started (lkbt51_send_cmd (0x12 # take 20 r) True False s)"

definition lkbt51_send_consumer :: "u16 \<Rightarrow> radio \<Rightarrow> radio" where
  "lkbt51_send_consumer r s = comm_started (lkbt51_send_cmd [0x13, lo8 r, hi8 r, 0, 0, 0, 0] True False s)"

definition lkbt51_send_system :: "u16 \<Rightarrow> radio \<Rightarrow> radio" where
  "lkbt51_send_system r s =
     (let usage = lo8 r in
      if (usage < 0x81 \<or> usage > 0x83) \<and> usage \<noteq> 0x9B \<and> usage \<noteq> 0 then s
      else comm_started (lkbt51_send_cmd [0x14, if usage = 0 then 0 else if usage = 0x9B then 8 else push_bit (unat (usage - 0x81)) 1] True False s))"

definition sign_byte :: "u8 \<Rightarrow> u8" where "sign_byte b = (if b AND 0x80 \<noteq> 0 then 0xFF else 0)"

definition lkbt51_send_mouse :: "u8 list \<Rightarrow> radio \<Rightarrow> radio" where
  "lkbt51_send_mouse r =
     lkbt51_send_cmd [0x16, r ! 1, r ! 2, sign_byte (r ! 2), r ! 3, sign_byte (r ! 3), r ! 4, r ! 5] False False"

definition lkbt51_send_joysticks :: "u8 list \<Rightarrow> radio \<Rightarrow> radio" where
  "lkbt51_send_joysticks r = lkbt51_send_cmd (0x18 # take 10 r) False False"

definition lkbt51_send_xinput :: "u8 list \<Rightarrow> radio \<Rightarrow> radio" where
  "lkbt51_send_xinput r = lkbt51_send_cmd (0x19 # take 20 r) False False"

definition lkbt51_send_raw_hid :: "u8 list \<Rightarrow> radio \<Rightarrow> radio" where
  "lkbt51_send_raw_hid data = lkbt51_send_cmd (0x93 # data) False False"

definition lkbt51_send_conn_evt_ack :: "radio \<Rightarrow> radio" where
  "lkbt51_send_conn_evt_ack = lkbt51_send_cmd [0xA4] False False"

text \<open>Pairing with the default parameters: no timeout, LESC or SSP (3), classic (1), default power, no name.\<close>

definition lkbt51_become_discoverable :: "u8 \<Rightarrow> radio \<Rightarrow> radio" where
  "lkbt51_become_discoverable host_idx s = lkbt51_send_cmd [0x21, host_idx, 0, 0, 3, 1, 0] True False (lkbt51_wake s)"

definition lkbt51_connect :: "u8 \<Rightarrow> u16 \<Rightarrow> radio \<Rightarrow> radio" where
  "lkbt51_connect hostIndex timeout s =
     comm_started (lkbt51_send_cmd [0x22, hostIndex, lo8 timeout, hi8 timeout] True False (lkbt51_wake s))"

definition lkbt51_disconnect :: "radio \<Rightarrow> radio" where
  "lkbt51_disconnect s = lkbt51_send_cmd [0x23, 0] True False (radio_wait 100 s)"

definition lkbt51_switch_host :: "u8 \<Rightarrow> radio \<Rightarrow> radio" where
  "lkbt51_switch_host hostIndex = lkbt51_send_cmd [0x24, hostIndex] True False"

definition lkbt51_read_state_reg :: "u8 \<Rightarrow> u8 \<Rightarrow> radio \<Rightarrow> radio" where
  "lkbt51_read_state_reg reg len = lkbt51_send_cmd [0x25, reg, len] False False"

definition lkbt51_set_xinput_mode :: "bool \<Rightarrow> radio \<Rightarrow> radio" where
  "lkbt51_set_xinput_mode enable = lkbt51_send_cmd [0x26, if enable then 1 else 0] False False"

definition lkbt51_update_bat_lvl :: "u8 \<Rightarrow> radio \<Rightarrow> radio" where
  "lkbt51_update_bat_lvl lvl = lkbt51_send_cmd [0x32, lvl] False False"

definition lkbt51_update_bat_state :: "u8 \<Rightarrow> radio \<Rightarrow> radio" where
  "lkbt51_update_bat_state st = lkbt51_send_cmd [0x33, st] False False"

definition lkbt51_get_info :: "radio \<Rightarrow> radio" where "lkbt51_get_info = lkbt51_send_cmd [0x40] False False"

definition lkbt51_set_param :: "u8 list \<Rightarrow> radio \<Rightarrow> radio" where
  "lkbt51_set_param param = lkbt51_send_cmd (0x41 # param) False False"

definition lkbt51_get_param :: "radio \<Rightarrow> radio" where "lkbt51_get_param = lkbt51_send_cmd [0x42] False False"

definition lkbt51_set_local_name :: "u8 list \<Rightarrow> radio \<Rightarrow> radio" where
  "lkbt51_set_local_name nm = lkbt51_send_cmd (0x45 # nm) False False"

definition lkbt51_get_local_name :: "radio \<Rightarrow> radio" where "lkbt51_get_local_name = lkbt51_send_cmd [0x46] False False"

definition lkbt51_set_ms_swift_pair_name :: "u8 list \<Rightarrow> radio \<Rightarrow> radio" where
  "lkbt51_set_ms_swift_pair_name nm s = (if length nm > 13 then s else lkbt51_send_cmd (0x4A # nm) False False s)"

definition lkbt51_factory_reset :: "u8 \<Rightarrow> radio \<Rightarrow> radio" where
  "lkbt51_factory_reset msk s =
     (let s = lkbt51_send_cmd [0x71, msk] False False (lkbt51_wake s) in s\<lparr>factory_reset_timer := radio_clock s\<rparr>)"

definition lkbt51_int_pin_test :: "bool \<Rightarrow> radio \<Rightarrow> radio" where
  "lkbt51_int_pin_test enable = lkbt51_send_cmd [0x72, if enable then 1 else 0] False False"

text \<open>The data itself goes out after its own header, then a command that tells of it.\<close>

definition lkbt51_write_customize_data :: "u8 list \<Rightarrow> radio \<Rightarrow> radio" where
  "lkbt51_write_customize_data data s =
     lkbt51_send_cmd [0x49] False False (s\<lparr>spi_sent := spi_sent s @ [[0x84, 0x7A, 0, 0] @ data]\<rparr>)"

definition lkbt51_send_protocol_ver :: "u16 \<Rightarrow> radio \<Rightarrow> radio" where
  "lkbt51_send_protocol_ver ver s =
     s\<lparr>spi_sent := spi_sent s @ [[0x84, 0x7E, 0, 0, 0xAA, 0x54, lo8 ver, hi8 ver, NOT 0x54, NOT 0xAA]]\<rparr>"

definition lkbt51_radio_test :: "u8 \<Rightarrow> radio \<Rightarrow> radio" where
  "lkbt51_radio_test channel = lkbt51_send_cmd [0x73, channel, 0] False False"

section \<open>The status part of a received packet\<close>

definition status_type :: "u8 \<Rightarrow> event_type \<Rightarrow> event_type" where
  "status_type code old =
     (if code = 0x20 then EVT_CONNECTED else if code = 0x21 then EVT_DISCOVERABLE else if code = 0x22 then EVT_RECONNECTING
      else if code = 0x23 then EVT_DISCONNECTED else if code = 0x24 then EVT_BT_PINCODE_ENTRY
      else if code = 0x25 then EVT_EXIT_BT_PINCODE_ENTRY else if code = 0x26 then EVT_SLEEP else old)"

text \<open>The connection event; a disconnection soon after a factory reset is marked.\<close>

definition status_connection :: "u8 \<Rightarrow> u8 \<Rightarrow> wireless_event \<Rightarrow> radio \<Rightarrow> radio" where
  "status_connection code host_idx e s =
     (let s = lkbt51_send_conn_evt_ack s;
          mark = (code = 0x23 \<and> factory_reset_timer s \<noteq> 0 \<and> timer_elapsed32 (radio_clock s) (factory_reset_timer s) < 3000);
          s = (if mark then s\<lparr>factory_reset_timer := 0\<rparr> else s);
          e = e\<lparr>evt_type := status_type code (evt_type e), evt_param := host_idx, evt_data := if mark then 1 else evt_data e\<rparr>
      in post_event e s)"

definition report_rate_interval :: "u8 \<Rightarrow> u16" where
  "report_rate_interval b =
     (let i = uint (b AND 0x7F) * (if b AND 0x80 \<noteq> 0 then 1250 else 125) div 1000 in as_u16 (if i > 7 then i div 3 else i))"

text \<open>\<open>p\<close> is the packet from the first valid byte on; \<open>compensation\<close> is the argument of \<open>battery_calculate_voltage\<close>.\<close>

definition rx_status :: "u32 option \<Rightarrow> u8 list \<Rightarrow> radio \<Rightarrow> radio" where
  "rx_status compensation p s =
     (if p ! 0 = 0xAA \<and> p ! 1 = 0x54 \<and> p ! 4 = NOT 0x54 \<and> p ! 5 = NOT 0xAA then s
      else if p ! 0 = 0xAA then
        (let m = p ! 1;
             s = s\<lparr>last_comm_time := 0\<rparr>;
             e = (if m AND 0x08 \<noteq> 0 then no_wireless_event\<lparr>evt_type := EVT_RESET, evt_param := p ! 2\<rparr> else no_wireless_event);
             s = (if m AND 0x08 \<noteq> 0 then post_event e s else s);
             s = (if m AND 0x01 \<noteq> 0 then status_connection (p ! 2) (p ! 3) e s else s);
             s = (if m AND 0x02 \<noteq> 0 then post_event (no_wireless_event\<lparr>evt_type := EVT_HID_INDICATOR, evt_param := p ! 4\<rparr>) s else s);
             s = (if m AND 0x10 \<noteq> 0 then
                    (let i = report_rate_interval (p ! 8)
                     in post_event (no_wireless_event\<lparr>evt_type := EVT_CONECTION_INTERVAL, evt_param := ucast i\<rparr>) (s\<lparr>connection_interval := i\<rparr>))
                  else s)
         in if m AND 0x04 \<noteq> 0
            then s\<lparr>bat := battery_calculate_voltage True (push_bit 8 (ucast (p ! 6)) OR ucast (p ! 5)) compensation (bat s)\<rparr> else s)
      else s)"

section \<open>The frame in a received packet\<close>

text \<open>A header anywhere from index 10 on; the scan does not stop at the first one, so the last one counts.\<close>

definition header_at :: "u8 list \<Rightarrow> nat \<Rightarrow> bool" where
  "header_at buf i \<longleftrightarrow> buf ! i = 0xAA \<and> buf ! (i + 1) = 0x57 \<and> NOT (buf ! (i + 2)) = buf ! (i + 3)"

definition rx_scan :: "u8 list \<Rightarrow> radio \<Rightarrow> nat \<times> radio" where
  "rx_scan buf s =
     fold (\<lambda>i (start, s). if header_at buf i
             then (i + 5, s\<lparr>rx_len := buf ! (i + 2), rx_sn := buf ! (i + 4), wait_for_new_pkt := False\<rparr>) else (start, s))
       [10..<BUFFER_SIZE - 5] (0, s)"

definition ack_handler :: "u8 \<Rightarrow> u8 \<Rightarrow> radio \<Rightarrow> radio" where
  "ack_handler cmd status s =
     (if cmd \<in> {0x11, 0x12, 0x13, 0x14, 0x16} then
        (let interval = (\<lambda>d. report_buffer_set_inverval (ucast (connection_interval s + d))) in
         if status = 0 then s\<lparr>rq := interval 0 (report_buffer_set_retry 0 (rq s))\<rparr>
         else if status = 2 then s\<lparr>rq := interval 5 (report_buffer_set_retry 0 (rq s))\<rparr>
         else if status = 3 then s\<lparr>rq := interval 10 (rq s)\<rparr>
         else s)
      else s)"

text \<open>The rest of a firmware answer after its first report, 31 bytes at a time.\<close>

function dfu_rest :: "u8 list \<Rightarrow> u8 list list" where
  "dfu_rest xs = (if xs = [] then [] else splice (replicate RAW_EPSIZE 0) 0 (3 # take 31 xs) # dfu_rest (drop 31 xs))"
  by pat_completeness auto
termination
  by (relation "measure length") auto

declare dfu_rest.simps [simp del]

definition lkbt51_dfu_tx :: "u8 \<Rightarrow> u8 list \<Rightarrow> u8 \<Rightarrow> radio \<Rightarrow> radio" where
  "lkbt51_dfu_tx rsp data n s =
     (let len = of_nat (length data);
          first = splice (dfu_buf s) 0 ([3, 0xAA, 0x57, len, NOT len, n, rsp] @ take (RAW_EPSIZE - 7) data);
          rest = dfu_rest (drop (RAW_EPSIZE - 7) data)
      in s\<lparr>dfu_buf := last (first # rest), raw_sent := raw_sent s @ first # rest\<rparr>)"

text \<open>\<open>data\<close> is the buffer from the byte after the event type to its end, \<open>len\<close> the length the frame claims.\<close>

definition lkbt51_event_handler :: "u8 \<Rightarrow> u8 list \<Rightarrow> u8 \<Rightarrow> u8 \<Rightarrow> radio \<Rightarrow> radio option" where
  "lkbt51_event_handler evt data len n s =
     (let fits = (\<lambda>k. k \<le> length data) in
      if evt = 0xA1 then (if fits 3 then Some (ack_handler (data ! 1) (data ! 2) s) else None)
      else if evt = 0xB0 then
        (if fits 1 then Some (post_event (no_wireless_event\<lparr>evt_type := EVT_RESET, evt_param := data ! 0\<rparr>) s) else None)
      else if evt = 0xB4 then
        (if fits 1 then Some (post_event (no_wireless_event\<lparr>evt_type := EVT_HID_INDICATOR, evt_param := data ! 0\<rparr>) s) else None)
      else if evt = 0xA2 then
        (if \<not> fits 3 then None
         else if data ! 2 = 0 \<and> data ! 1 = 0x72
         then (if fits (unat len) then Some (s\<lparr>factory_sent := factory_sent s @ [take (unat len) data]\<rparr>) else None) else Some s)
      else if evt = 0xA3 then (if fits (unat len) then Some (lkbt51_dfu_tx 0xA3 (take (unat len) data) n s) else None)
      else if evt = 0x92 then
        (if fits (unat len) \<and> unat len \<le> 64
         then Some (post_event (no_wireless_event\<lparr>evt_type := EVT_RAW_HID, evt_raw := take (unat len) data\<rparr>) s) else None)
      else Some s)"

text \<open>The check of the frame that starts at \<open>start\<close>: its checksum, then its event.  The tests read the two checksum bytes
  one after the other.\<close>

definition rx_frame :: "u8 list \<Rightarrow> nat \<Rightarrow> radio \<Rightarrow> radio option" where
  "rx_frame buf start s =
     (let n = unat (rx_len s) in
      if start + n \<le> 1 \<or> BUFFER_SIZE < start + n - 1 then None
      else let c = checksum (take (n - 2) (drop start buf)) in
        if lo8 c \<noteq> buf ! (start + n - 2) then Some s
        else if BUFFER_SIZE < start + n then None
        else if hi8 c \<noteq> buf ! (start + n - 1) then Some s
        else lkbt51_event_handler (buf ! start) (drop (start + 1) buf) (rx_len s - 3) (rx_sn s) s)"

definition lkbt51_rx :: "u32 option \<Rightarrow> u8 list \<Rightarrow> radio \<Rightarrow> radio option" where
  "lkbt51_rx compensation buf s =
     (let s = rx_status compensation (drop VALID_DATA_START_INDEX buf) s;
          (start, s) = (if wait_for_new_pkt s then rx_scan buf s else (0, s))
      in if \<not> wait_for_new_pkt s \<and> unat (rx_len s) \<le> BUFFER_SIZE - 5
         then rx_frame buf start (s\<lparr>wait_for_new_pkt := True\<rparr>) else Some s)"

text \<open>\<open>attention\<close>: the module pulls its line low, and this packet is read.\<close>

definition lkbt51_task :: "u32 option \<Rightarrow> u8 list option \<Rightarrow> radio \<Rightarrow> radio option" where
  "lkbt51_task compensation attention s =
     (case (case attention of None \<Rightarrow> Some s | Some buf \<Rightarrow> lkbt51_rx compensation buf s) of
        None \<Rightarrow> None
      | Some s \<Rightarrow>
          Some (if last_comm_time s \<noteq> 0 \<and> timer_elapsed32 (radio_clock s) (last_comm_time s) > LKBT51_COMM_TIMEOUT_MS
                then (lkbt51_connect 0 0 (radio_wait 210 s))\<lparr>last_comm_time := 0\<rparr> else s))"

section \<open>Firmware update\<close>

text \<open>A frame from the host is relayed to the module under a serial number of its own.\<close>

definition lkbt51_dfu_rx :: "u8 list \<Rightarrow> radio \<Rightarrow> radio" where
  "lkbt51_dfu_rx data s =
     (if data ! 0 = 0xAA \<and> (data ! 1 = 0x55 \<or> data ! 1 = 0x56) \<and> data ! 2 = NOT (data ! 3) then
        (let len = unat (data ! 2); payload = drop PACKECT_HEADER_LEN data; c = checksum (take (len - 2) payload) in
         if len > RAW_EPSIZE - PACKECT_HEADER_LEN then s
         else if lo8 c \<noteq> data ! (PACKECT_HEADER_LEN + len - 2) \<or> hi8 c \<noteq> data ! (PACKECT_HEADER_LEN + len - 1) then s
         else let again = (dfu_sn s = data ! 4); s = s\<lparr>dfu_sn := data ! 4\<rparr>
           in if payload ! 0 AND 0xF0 = 0x60
              then lkbt51_send_cmd (take (unat (data ! 2 - 2)) payload) (data ! 1 = 0x56) again (lkbt51_wake s) else s)
      else s)"

section \<open>A well-formed frame is handled\<close>

lemma unat_u8_of_nat: "n < 256 \<Longrightarrow> unat (of_nat n :: u8) = n"
  by (simp add: unat_of_nat take_bit_nat_eq_self)

lemma length_frame [simp]: "length (frame k n p) = length p + 7"
  by (simp add: frame_def Let_def)

lemma frame_nth [simp]:
  "frame k n p ! 0 = 0xAA" "frame k n p ! Suc 0 = k" "frame k n p ! 2 = of_nat (length p + 2)" "frame k n p ! 3 = NOT (of_nat (length p + 2))"
  "frame k n p ! 4 = n" "frame k n p ! (5 + length p) = lo8 (checksum p)" "frame k n p ! (6 + length p) = hi8 (checksum p)"
  by (simp_all add: frame_def Let_def nth_append nth_Cons' numeral_eq_Suc)

lemma frame_drop: "drop 5 (frame k n p) = p @ [lo8 (checksum p), hi8 (checksum p)]"
  by (simp add: frame_def Let_def)

text \<open>The scan ends at the last header.\<close>

lemma rx_scan_last:
  assumes "10 \<le> i" "i < 59" and "header_at buf i" and "\<forall>j. i < j \<and> j < 59 \<longrightarrow> \<not> header_at buf j"
  shows "rx_scan buf s = (i + 5, s\<lparr>rx_len := buf ! (i + 2), rx_sn := buf ! (i + 4), wait_for_new_pkt := False\<rparr>)"
proof -
  let ?f = "\<lambda>i (start, s). if header_at buf i
     then (i + 5, s\<lparr>rx_len := buf ! (i + 2), rx_sn := buf ! (i + 4), wait_for_new_pkt := False\<rparr>) else (start, s :: radio)"
  have sub: "\<exists>st l m w. fold ?f js (0, s) = (st, s\<lparr>rx_len := l, rx_sn := m, wait_for_new_pkt := w\<rparr>)" for js
  proof (induction js rule: rev_induct)
    case Nil
    have "s = s\<lparr>rx_len := rx_len s, rx_sn := rx_sn s, wait_for_new_pkt := wait_for_new_pkt s\<rparr>" by simp
    then show ?case by (metis fold_simps(1))
  next
    case (snoc j js)
    then obtain st l m w where *: "fold ?f js (0, s) = (st, s\<lparr>rx_len := l, rx_sn := m, wait_for_new_pkt := w\<rparr>)" by blast
    show ?case
    proof (cases "header_at buf j")
      case True
      then have "fold ?f (js @ [j]) (0, s) = (j + 5, s\<lparr>rx_len := buf ! (j + 2), rx_sn := buf ! (j + 4), wait_for_new_pkt := False\<rparr>)"
        by (simp add: *)
      then show ?thesis by blast
    next
      case False
      then have "fold ?f (js @ [j]) (0, s) = (st, s\<lparr>rx_len := l, rx_sn := m, wait_for_new_pkt := w\<rparr>)" by (simp add: *)
      then show ?thesis by blast
    qed
  qed
  have rest: "fold ?f js c = c" if "\<forall>j \<in> set js. i < j \<and> j < 59" for js c
    using that assms(4) by (induction js arbitrary: c) auto
  have l: "[10..<BUFFER_SIZE - 5] = [10..<i] @ i # [Suc i..<59]"
    using assms(1,2) upt_add_eq_append [of 10 i "59 - i"] upt_conv_Cons [of i 59] by simp
  obtain st l' m w where "fold ?f [10..<i] (0, s) = (st, s\<lparr>rx_len := l', rx_sn := m, wait_for_new_pkt := w\<rparr>)" using sub by blast
  then have "fold ?f ([10..<i] @ i # [Suc i..<59]) (0, s) =
      (i + 5, s\<lparr>rx_len := buf ! (i + 2), rx_sn := buf ! (i + 4), wait_for_new_pkt := False\<rparr>)"
    using assms(3) rest [of "[Suc i..<59]"] by (simp del: upt_Suc upt_rec_numeral)
  then show ?thesis unfolding rx_scan_def l by simp
qed

lemma rx_status_frame [simp]:
  "wait_for_new_pkt (rx_status c p s) = wait_for_new_pkt s" "rx_len (rx_status c p s) = rx_len s" "rq (rx_status c p s) = rq s"
  "raw_sent (rx_status c p s) = raw_sent s" "factory_sent (rx_status c p s) = factory_sent s"
  by (simp_all add: rx_status_def status_connection_def post_event_def lkbt51_send_conn_evt_ack_def lkbt51_send_cmd_def Let_def)


text \<open>A packet of 64 bytes that carries nothing but the frame.\<close>

definition packet :: "u8 \<Rightarrow> u8 list \<Rightarrow> u8 list" where
  "packet n p = replicate 10 0 @ frame 0x57 n p @ replicate (47 - length p) 0"


section \<open>After a frame that claims too much\<close>

text \<open>The packets of successive calls, each with the argument of its battery reading.\<close>

fun lkbt51_rx_all :: "(u32 option \<times> u8 list) list \<Rightarrow> radio \<Rightarrow> radio option" where
  "lkbt51_rx_all [] s = Some s"
| "lkbt51_rx_all (p # ps) s = (case lkbt51_rx (fst p) (snd p) s of None \<Rightarrow> None | Some s \<Rightarrow> lkbt51_rx_all ps s)"

lemma rx_deaf:
  assumes "\<not> wait_for_new_pkt s" and "59 < unat (rx_len s)"
  shows "lkbt51_rx c buf s = Some (rx_status c (drop VALID_DATA_START_INDEX buf) s)"
  using assms by (simp add: lkbt51_rx_def Let_def)

lemma rx_all_deaf:
  assumes "\<not> wait_for_new_pkt s" and "59 < unat (rx_len s)"
  shows "\<exists>t. lkbt51_rx_all ps s = Some t \<and> rq t = rq s \<and> raw_sent t = raw_sent s \<and> factory_sent t = factory_sent s"
  using assms
proof (induction ps arbitrary: s)
  case (Cons p ps)
  then show ?case using Cons.IH [of "rx_status (fst p) (drop VALID_DATA_START_INDEX (snd p)) s"] by (simp add: rx_deaf)
qed simp

text \<open>After one packet whose last valid header claims a length of 60 or more, no later packet
  ever reaches the event handler: acknowledgements, firmware answers and test answers are lost
  until the controller restarts.\<close>

lemma long_frame_deafens:
  assumes "wait_for_new_pkt s" and "10 \<le> i" and "i < 59" and "header_at buf i" and "59 < unat (buf ! (i + 2))"
    and "\<forall>j. i < j \<and> j < 59 \<longrightarrow> \<not> header_at buf j"
  shows "\<exists>t. lkbt51_rx_all ((c, buf) # ps) s = Some t \<and> rq t = rq s \<and> raw_sent t = raw_sent s \<and> factory_sent t = factory_sent s"
proof -
  let ?s = "rx_status c (drop VALID_DATA_START_INDEX buf) s"
  let ?t = "?s\<lparr>rx_len := buf ! (i + 2), rx_sn := buf ! (i + 4), wait_for_new_pkt := False\<rparr>"
  have "lkbt51_rx c buf s = Some ?t"
    using assms(1,5) rx_scan_last [OF assms(2-4,6), of ?s] by (simp add: lkbt51_rx_def Let_def)
  then show ?thesis using rx_all_deaf [of ?t ps] assms(5) by simp
qed

text \<open>A header of length 100 at index 10, in an otherwise empty packet.\<close>

definition long_packet :: "u8 list" where
  "long_packet = replicate 10 0 @ [0xAA, 0x57, 100, NOT 100] @ replicate 50 0"

lemma long_frame_deafens_witness:
  "\<exists>t. lkbt51_rx_all [(None, long_packet), (None, packet 7 [0xA1, 0, 0x11, 2])] radio_start = Some t \<and> rq t = rq radio_start \<and>
     raw_sent t = raw_sent radio_start \<and> factory_sent t = factory_sent radio_start"
proof -
  have "list_all (\<lambda>j. \<not> header_at long_packet j) [11..<59]" by code_simp
  then have "\<forall>j. 10 < j \<and> j < 59 \<longrightarrow> \<not> header_at long_packet j" unfolding list_all_iff set_upt by simp
  moreover have "header_at long_packet 10" "59 < unat (long_packet ! (10 + 2))" "wait_for_new_pkt radio_start" by code_simp+
  ultimately show ?thesis using long_frame_deafens [of radio_start 10 long_packet None "[(None, packet 7 [0xA1, 0, 0x11, 2])]"] by simp
qed

text \<open>The length test leaves out where the frame starts: a header near the end is read past the end of the buffer.\<close>

lemma late_frame_overruns: "lkbt51_rx None (replicate 58 0 @ [0xAA, 0x57, 20, NOT 20, 1, 0]) radio_start = None"
  by code_simp

section \<open>A firmware frame passes through\<close>

text \<open>Every command is one frame, and its serial number is not zero.\<close>

lemma send_cmd_sent:
  "\<exists>m. m \<noteq> 0 \<and> spi_sent (lkbt51_send_cmd p a again s) = spi_sent s @ [[0x84, 0x7E, 0, 0] @ frame (if a then 0x56 else 0x55) m p]"
proof -
  let ?m = "if again then cmd_sn s else cmd_sn s + 1"
  let ?n = "if ?m = 0 then ?m + 1 else ?m"
  have "?n \<noteq> 0" by simp
  moreover have "spi_sent (lkbt51_send_cmd p a again s) = spi_sent s @ [[0x84, 0x7E, 0, 0] @ frame (if a then 0x56 else 0x55) ?n p]"
    by (simp add: lkbt51_send_cmd_def Let_def)
  ultimately show ?thesis by blast
qed

lemma wake_spi [simp]: "spi_sent (lkbt51_wake s) = spi_sent s"
  by (simp add: lkbt51_wake_def radio_wait_def)

text \<open>A well-formed firmware frame from the host goes to the module with the same kind and
  payload, under a serial number that is not zero.\<close>

lemma dfu_frame_relayed:
  assumes "k = 0x55 \<or> k = 0x56" and "p \<noteq> []" and "length p \<le> 25" and "p ! 0 AND 0xF0 = 0x60"
  shows "\<exists>m. m \<noteq> 0 \<and> spi_sent (lkbt51_dfu_rx (frame k n p @ post) s) = spi_sent s @ [[0x84, 0x7E, 0, 0] @ frame k m p]"
proof -
  let ?d = "frame k n p @ post"
  have b: "?d ! 0 = 0xAA" "?d ! 1 = k" "?d ! 2 = of_nat (length p + 2)" "?d ! 3 = NOT (of_nat (length p + 2))" "?d ! 4 = n"
      "?d ! (5 + length p) = lo8 (checksum p)" "?d ! (6 + length p) = hi8 (checksum p)"
    by (simp_all add: nth_append)
  have u: "unat (of_nat (length p + 2) :: u8) = length p + 2" using assms(3) by (intro unat_u8_of_nat) simp
  have l: "unat ((of_nat (length p + 2) :: u8) - 2) = length p" using assms(3) unat_u8_of_nat [of "length p"] by simp
  have dr: "drop 5 ?d = p @ [lo8 (checksum p), hi8 (checksum p)] @ post" by (simp add: frame_drop)
  have p0: "(p @ q) ! 0 = p ! 0" for q using assms(2) by (cases p) auto
  let ?again = "dfu_sn s = n" and ?s = "lkbt51_wake (s\<lparr>dfu_sn := n\<rparr>)"
  have "lkbt51_dfu_rx ?d s = lkbt51_send_cmd p (k = 0x56) ?again ?s"
    using assms u b dr p0 l by (simp add: lkbt51_dfu_rx_def Let_def add.commute [of 5] add.commute [of 6] del: of_nat_add)
  moreover have "(if k = 0x56 then 0x56 else 0x55) = k" using assms(1) by auto
  ultimately show ?thesis using send_cmd_sent [of p "k = 0x56" ?again ?s] by simp
qed

lemma dfu_frame_relayed_witness:
  "\<exists>m. m \<noteq> 0 \<and> spi_sent (lkbt51_dfu_rx (frame 0x56 9 [0x61, 1, 2] @ replicate 22 0) radio_start) = [[0x84, 0x7E, 0, 0] @ frame 0x56 m [0x61, 1, 2]]"
proof -
  have "(0x61 :: u8) AND 0xF0 = 0x60" by code_simp
  then show ?thesis
    using dfu_frame_relayed [of "0x56" "[0x61, 1, 2]" 9 "replicate 22 0" radio_start] by (simp add: radio_start_def)
qed

end
