(* ===== verification/Indicator.thy ===== *)
theory Indicator
  imports Prelude
begin

text \<open>
  The connection indicators of the wireless keyboards (\<open>keyboards/keychron/common/wireless/indicator.c\<close>, in a build with
  \<open>BT_INDICATION_LED_PIN_LIST\<close> of three pins, \<open>P24G_LED_PIN\<close>, \<open>BAT_LOW_LED_PIN\<close>, \<open>RGB_MATRIX_ENABLE\<close> and without
  \<open>KEYCOMBO_CONN_SWITCH_ENABLE\<close>): what each connection state shows, the timer that drives the blinking, and the blinking of
  the low battery LED.  A lit LED is \<open>True\<close>; \<open>ind_calls\<close> is the sequence of calls to the backlight and to the idle timer;
  \<open>wild_pin\<close> is set by a write through a pin read outside its list, which C leaves undefined.
\<close>

section \<open>State\<close>

datatype wt_state = WT_RESET | WT_INITIALIZED | WT_DISCONNECTED | WT_CONNECTED | WT_PARING | WT_RECONNECTING | WT_SUSPEND

datatype transport = TRANSPORT_NONE | TRANSPORT_USB | TRANSPORT_BLUETOOTH | TRANSPORT_P2P4

datatype indicator_type = INDICATOR_NONE | INDICATOR_OFF | INDICATOR_ON | INDICATOR_ON_OFF | INDICATOR_BLINK | INDICATOR_LAST

record indicator_config =
  ind_type :: indicator_type
  on_time :: u32
  off_time :: u32
  duration :: u32
  highlight :: bool
  ic_value :: u8
  elapsed :: u32

datatype indicator_call = IndicatorEnable | IndicatorDisable | RestoreBacklight | ShowIndicators | BacklitTimeout u32 | LpmTimerReset

record indicator =
  indicator_config :: indicator_config
  indicator_state :: wt_state
  next_period :: u16
  type_shown :: indicator_type
  indicator_timer_buffer :: u32
  direct_led_off_enabled :: bool
  pre_state :: wt_state
  current_state :: wt_state
  current_host :: u8
  bat_low_backlit_indicator :: u32
  bat_low_ind_state :: u8
  rtc_time :: u32
  bt_leds :: "bool list"
  p24g_led :: bool
  bat_low_led :: bool
  wild_pin :: bool
  ind_calls :: "indicator_call list"

abbreviation (input) INDEX_MASK :: u8 where "INDEX_MASK \<equiv> 0x0F"
abbreviation (input) P24G_IND_MASK :: u8 where "P24G_IND_MASK \<equiv> 0x10"
abbreviation (input) LED_ON :: u8 where "LED_ON \<equiv> 0x80"
abbreviation (input) IND_VAL_MASK :: u8 where "IND_VAL_MASK \<equiv> 0x3F"
abbreviation (input) P24G_HOST_INDEX :: u8 where "P24G_HOST_INDEX \<equiv> 24"
abbreviation (input) LOW_BAT_LED_BLINK_TIMES :: u8 where "LOW_BAT_LED_BLINK_TIMES \<equiv> 5"
abbreviation (input) LOW_BAT_LED_BLINK_PERIOD :: u32 where "LOW_BAT_LED_BLINK_PERIOD \<equiv> 1000"
abbreviation (input) LOW_BAT_LED_TRIG_INTERVAL :: u32 where "LOW_BAT_LED_TRIG_INTERVAL \<equiv> 30000"
abbreviation (input) DISCONNECTED_BACKLIGHT_DISABLE_TIMEOUT :: u32 where "DISCONNECTED_BACKLIGHT_DISABLE_TIMEOUT \<equiv> 40"

definition indication :: "indicator_type \<Rightarrow> u32 \<Rightarrow> u32 \<Rightarrow> u32 \<Rightarrow> bool \<Rightarrow> indicator_config" where
  "indication t on off d h = \<lparr>ind_type = t, on_time = on, off_time = off, duration = d, highlight = h, ic_value = 0, elapsed = 0\<rparr>"

definition pairing_config :: indicator_config where "pairing_config = indication INDICATOR_BLINK 1000 1000 0 True"
definition connected_config :: indicator_config where "connected_config = indication INDICATOR_ON_OFF 2000 250 2000 True"
definition reconnecting_config :: indicator_config where "reconnecting_config = indication INDICATOR_BLINK 100 100 600 True"
definition disconnected_config :: indicator_config where "disconnected_config = indication INDICATOR_NONE 100 100 600 False"

definition no_indicator_config :: indicator_config where "no_indicator_config = indication INDICATOR_NONE 0 0 0 False"

definition indicator_start :: indicator where
  "indicator_start = \<lparr>indicator_config = no_indicator_config, indicator_state = WT_RESET, next_period = 0, type_shown = INDICATOR_NONE,
     indicator_timer_buffer = 0, direct_led_off_enabled = True, pre_state = WT_RESET, current_state = WT_RESET, current_host = 0,
     bat_low_backlit_indicator = 0, bat_low_ind_state = 0, rtc_time = 0, bt_leds = [False, False, False], p24g_led = False,
     bat_low_led = False, wild_pin = False, ind_calls = []\<rparr>"

definition ind_call :: "indicator_call \<Rightarrow> indicator \<Rightarrow> indicator" where
  "ind_call c s = s\<lparr>ind_calls := ind_calls s @ [c]\<rparr>"

definition set_value :: "u8 \<Rightarrow> indicator \<Rightarrow> indicator" where
  "set_value v s = s\<lparr>indicator_config := (indicator_config s)\<lparr>ic_value := v\<rparr>\<rparr>"

abbreviation ind_value :: "indicator \<Rightarrow> u8" where "ind_value s \<equiv> ic_value (indicator_config s)"

section \<open>The indicator timer\<close>

definition indicator_init :: "indicator \<Rightarrow> indicator" where
  "indicator_init s = s\<lparr>indicator_config := no_indicator_config, bt_leds := map (\<lambda>_. False) (bt_leds s), p24g_led := False, bat_low_led := False\<rparr>"

definition indicator_is_running :: "indicator \<Rightarrow> bool" where
  "indicator_is_running s \<longleftrightarrow> bat_low_ind_state s \<noteq> 0 \<or> ind_value s \<noteq> 0"

definition indicator_enable_direct_led_off :: "bool \<Rightarrow> indicator \<Rightarrow> indicator" where
  "indicator_enable_direct_led_off enable s = s\<lparr>direct_led_off_enabled := enable\<rparr>"

definition indicator_turn_off_direct_leds :: "indicator \<Rightarrow> indicator" where
  "indicator_turn_off_direct_leds s =
     (if \<not> direct_led_off_enabled s then s else s\<lparr>bt_leds := map (\<lambda>_. False) (bt_leds s), p24g_led := False\<rparr>)"

text \<open>One write to the pin of \<open>led_pin_list[idx]\<close>; no write when the list is \<open>NULL\<close>, that is for a host that is neither the
  2.4 GHz one nor one of the three.\<close>

definition write_led :: "u8 \<Rightarrow> bool \<Rightarrow> indicator \<Rightarrow> indicator" where
  "write_led v lit s =
     (let idx = unat ((v AND INDEX_MASK) - 1) in
      if v AND P24G_IND_MASK \<noteq> 0 then (if idx = 0 then s\<lparr>p24g_led := lit\<rparr> else s\<lparr>wild_pin := True\<rparr>)
      else if idx < 3 then s\<lparr>bt_leds := (bt_leds s)[idx := lit]\<rparr> else s)"

text \<open>The loop writes \<open>led_pin_list[idx]\<close>, not \<open>led_pin_list[i]\<close>.\<close>

definition update_leds :: "bool \<Rightarrow> indicator \<Rightarrow> indicator" where
  "update_leds time_up s =
     (let v = ind_value s; idx = unat ((v AND INDEX_MASK) - 1);
          led_count = (if v AND P24G_IND_MASK \<noteq> 0 then 1 else 3)
      in if v = 0 then s
         else let s = fold (\<lambda>i s. if i \<noteq> idx then write_led v False s else s) [0..<led_count] s
           in write_led v (v AND LED_ON \<noteq> 0 \<and> \<not> time_up) s)"

text \<open>Whether the time of the indication goes on for another \<open>next_period\<close>.\<close>

definition another_period :: "indicator \<Rightarrow> bool \<times> indicator" where
  "another_period s =
     (let c = indicator_config s in
      if (duration c = 0 \<or> elapsed c \<le> duration c) \<and> next_period s \<noteq> 0
      then (False, s\<lparr>indicator_config := c\<lparr>elapsed := elapsed c + ucast (next_period s)\<rparr>\<rparr>) else (True, s))"

text \<open>The switch of \<open>indicator_timer_cb\<close>; the result is \<open>time_up\<close>.\<close>

definition indicator_switch :: "indicator \<Rightarrow> bool \<times> indicator" where
  "indicator_switch s =
     (let c = indicator_config s; v = ic_value c in
      case type_shown s of
        INDICATOR_NONE \<Rightarrow> (False, s)
      | INDICATOR_OFF \<Rightarrow> (True, s\<lparr>next_period := 0\<rparr>)
      | INDICATOR_ON \<Rightarrow>
          (if v = 0 then (False, s)
           else if elapsed c = 0
           then (False, s\<lparr>indicator_config := c\<lparr>ic_value := v OR LED_ON, elapsed := (if duration c \<noteq> 0 then elapsed c + duration c else elapsed c)\<rparr>\<rparr>)
           else (True, s))
      | INDICATOR_ON_OFF \<Rightarrow>
          (if v = 0 then (False, s)
           else another_period
             (if elapsed c = 0 then (set_value (v OR LED_ON) s)\<lparr>next_period := ucast (on_time c)\<rparr>
              else (set_value (v AND IND_VAL_MASK) s)\<lparr>next_period := ucast (duration c - on_time c)\<rparr>))
      | INDICATOR_BLINK \<Rightarrow>
          (if v = 0 then (False, s)
           else another_period
             (if v AND LED_ON \<noteq> 0 then (set_value (v AND IND_VAL_MASK) s)\<lparr>next_period := ucast (off_time c)\<rparr>
              else (set_value (v OR LED_ON) s)\<lparr>next_period := ucast (on_time c)\<rparr>))
      | INDICATOR_LAST \<Rightarrow> (True, s\<lparr>next_period := 0\<rparr>))"

definition indicator_timer_cb :: "indicator_type \<Rightarrow> indicator \<Rightarrow> indicator" where
  "indicator_timer_cb arg s =
     (let s = (if arg \<noteq> INDICATOR_LAST then s\<lparr>type_shown := arg\<rparr> else s);
          (time_up, s) = indicator_switch s;
          s = update_leds time_up s;
          s = (if time_up then ind_call LpmTimerReset (set_value 0 (ind_call ShowIndicators (set_value (ind_value s AND IND_VAL_MASK) s))) else s)
      in if ind_value s = 0 then ind_call RestoreBacklight s else s)"

section \<open>What a connection state shows\<close>

definition decide_time :: "u32 \<Rightarrow> u32 \<Rightarrow> u32" where
  "decide_time t d = (if d = 0 then 0xFFFFFFFF else if t > d then t else d)"

definition start_indication :: "indicator_config \<Rightarrow> u8 \<Rightarrow> indicator \<Rightarrow> indicator" where
  "start_indication c v s =
     indicator_timer_cb (ind_type c) (s\<lparr>indicator_config := c\<lparr>ic_value := (if ind_type c = INDICATOR_NONE then 0 else v)\<rparr>\<rparr>)"

text \<open>The environment of \<open>indicator_set\<close>: the selected transport, the clock, the critical battery state, the seconds of
  backlight while connected, and whether an indication lights the backlight.\<close>

record ind_env =
  ie_transport :: transport
  ie_now :: u32
  ie_critical :: bool
  ie_backlit_disable_time :: u16
  ie_backlit_active :: bool

definition indicator_show :: "ind_env \<Rightarrow> wt_state \<Rightarrow> u8 \<Rightarrow> bool \<Rightarrow> indicator \<Rightarrow> indicator" where
  "indicator_show e state host_index host_index_changed s =
     (let timeout = (\<lambda>t s. ind_call (BacklitTimeout t) s);
          away = (\<lambda>s. timeout (decide_time (DISCONNECTED_BACKLIGHT_DISABLE_TIMEOUT * 1000) (duration (indicator_config s))) s)
      in case state of
           WT_DISCONNECTED \<Rightarrow>
             (let s = start_indication disconnected_config host_index s;
                  s = (if ie_critical e \<or> pre_state s = WT_CONNECTED then timeout 1000 s
                       else if pre_state s \<noteq> WT_RECONNECTING then away s else s)
              in indicator_turn_off_direct_leds s)
         | WT_CONNECTED \<Rightarrow>
             (let s = (if indicator_state s \<noteq> WT_CONNECTED \<or> host_index_changed then start_indication connected_config host_index s else s)
              in timeout (decide_time (ucast (ie_backlit_disable_time e) * 1000) (duration (indicator_config s))) s)
         | WT_PARING \<Rightarrow> away (start_indication pairing_config (LED_ON OR host_index) s)
         | WT_RECONNECTING \<Rightarrow> away (start_indication reconnecting_config (LED_ON OR host_index) s)
         | WT_SUSPEND \<Rightarrow>
             indicator_turn_off_direct_leds
               (timeout (if ie_backlit_active e then 3000 else 1000) (start_indication disconnected_config host_index s))
         | _ \<Rightarrow> s)"

definition indicator_set :: "ind_env \<Rightarrow> wt_state \<Rightarrow> u8 \<Rightarrow> indicator \<Rightarrow> indicator" where
  "indicator_set e state host_index s =
     (if ie_transport e = TRANSPORT_USB then s
      else let host_index = (if host_index = P24G_HOST_INDEX then P24G_IND_MASK OR 1 else host_index);
               host_index_changed = (current_host s \<noteq> host_index \<and> state \<noteq> WT_DISCONNECTED);
               s = (if host_index_changed then s\<lparr>current_host := host_index\<rparr> else s)
        in if current_state s \<noteq> state \<or> host_index_changed \<or> state = WT_RECONNECTING then
             (if current_state s = WT_SUSPEND \<and> state = WT_DISCONNECTED then s
              else let s = s\<lparr>pre_state := current_state s, current_state := state, indicator_timer_buffer := ie_now e\<rparr>;
                       s = ind_call IndicatorEnable s;
                       s = indicator_show e state host_index host_index_changed s
                in s\<lparr>indicator_state := state\<rparr>)
           else s)"

definition indicator_stop :: "bool \<Rightarrow> indicator \<Rightarrow> indicator" where
  "indicator_stop enabled s = ind_call (if enabled then IndicatorEnable else IndicatorDisable) (ind_call RestoreBacklight (set_value 0 s))"

section \<open>Low battery\<close>

text \<open>\<open>t\<close> is the clock that runs while the controller sleeps, read twice with the same value.\<close>

definition indicator_battery_low_enable :: "u32 \<Rightarrow> u32 \<Rightarrow> bool \<Rightarrow> indicator \<Rightarrow> indicator" where
  "indicator_battery_low_enable now t enable s =
     (if enable then
        (let s = (if rtc_time s > t then (if bat_low_ind_state s = 0 then s\<lparr>rtc_time := t\<rparr> else s\<lparr>rtc_time := rtc_time s + t\<rparr>) else s)
         in if (rtc_time s = 0 \<or> t - rtc_time s > LOW_BAT_LED_TRIG_INTERVAL) \<and> bat_low_ind_state s = 0
            then s\<lparr>bat_low_backlit_indicator := now, rtc_time := t, bat_low_ind_state := 1\<rparr> else s)
      else s\<lparr>rtc_time := 0, bat_low_ind_state := 0, bat_low_led := False\<rparr>)"

text \<open>\<open>allow_shutdown\<close>: no lock LED keeps the LED driver on.\<close>

definition indicator_battery_low :: "u32 \<Rightarrow> bool \<Rightarrow> indicator \<Rightarrow> indicator" where
  "indicator_battery_low now allow_shutdown s =
     (let st = bat_low_ind_state s in
      if st = 0 then s
      else if st AND 0x0F \<le> LOW_BAT_LED_BLINK_TIMES \<and> timer_elapsed32 now (bat_low_backlit_indicator s) > LOW_BAT_LED_BLINK_PERIOD then
        (let s = (if st AND 0x80 \<noteq> 0 then s\<lparr>bat_low_ind_state := (st AND 0x7F) + 1, bat_low_led := False\<rparr>
                  else s\<lparr>bat_low_ind_state := st OR 0x80, bat_low_led := True\<rparr>);
             s = s\<lparr>bat_low_backlit_indicator := now\<rparr>
         in if bat_low_ind_state s AND 0x0F > LOW_BAT_LED_BLINK_TIMES then
              (let s = s\<lparr>bat_low_led := False\<rparr> in if ind_value s = 0 \<and> allow_shutdown then ind_call IndicatorDisable s else s)
            else s)
      else if st AND 0x0F > LOW_BAT_LED_BLINK_TIMES then ind_call LpmTimerReset (s\<lparr>bat_low_led := False, bat_low_ind_state := 0\<rparr>)
      else s)"

definition indicator_task :: "u32 \<Rightarrow> bool \<Rightarrow> indicator \<Rightarrow> indicator" where
  "indicator_task now allow_shutdown s =
     (let s = (if ind_value s \<noteq> 0 \<and> timer_elapsed32 now (indicator_timer_buffer s) \<ge> ucast (next_period s)
               then (indicator_timer_cb (type_shown s) s)\<lparr>indicator_timer_buffer := now\<rparr> else s)
      in indicator_battery_low now allow_shutdown s)"

section \<open>A timed indication ends\<close>

text \<open>A call of the timer that is due, and the LED of a value.\<close>

definition timer_due :: "indicator \<Rightarrow> indicator" where
  "timer_due s = indicator_timer_cb (type_shown s) s"

definition led_of :: "u8 \<Rightarrow> indicator \<Rightarrow> bool" where
  "led_of v s = (let idx = unat ((v AND INDEX_MASK) - 1) in
     if v AND P24G_IND_MASK \<noteq> 0 then idx = 0 \<and> p24g_led s else idx < 3 \<and> bt_leds s ! idx)"

lemma write_led_fields [simp]:
  "indicator_config (write_led v b s) = indicator_config s" "type_shown (write_led v b s) = type_shown s"
  "next_period (write_led v b s) = next_period s" "length (bt_leds (write_led v b s)) = length (bt_leds s)"
  "ind_calls (write_led v b s) = ind_calls s" "bat_low_ind_state (write_led v b s) = bat_low_ind_state s"
  by (simp_all add: write_led_def Let_def)

lemma write_leds_fields [simp]:
  "indicator_config (fold (\<lambda>i s. if P i then write_led v b s else s) js s) = indicator_config s"
  "type_shown (fold (\<lambda>i s. if P i then write_led v b s else s) js s) = type_shown s"
  "next_period (fold (\<lambda>i s. if P i then write_led v b s else s) js s) = next_period s"
  "length (bt_leds (fold (\<lambda>i s. if P i then write_led v b s else s) js s)) = length (bt_leds s)"
  by (induction js arbitrary: s) simp_all

lemma update_leds_fields [simp]:
  "indicator_config (update_leds u s) = indicator_config s" "type_shown (update_leds u s) = type_shown s"
  "next_period (update_leds u s) = next_period s" "length (bt_leds (update_leds u s)) = length (bt_leds s)"
  by (simp_all add: update_leds_def Let_def del: upt_Suc)

lemma led_write_off: "3 \<le> length (bt_leds s) \<Longrightarrow> \<not> led_of w (write_led w False s)"
  by (auto simp: led_of_def write_led_def Let_def)

lemma led_of_update [simp]:
  "led_of v (set_value w s) = led_of v s" "led_of v (ind_call c s) = led_of v s" "ind_value (set_value w s) = w"
  "ind_value (ind_call c s) = ind_value s" "bt_leds (set_value w s) = bt_leds s" "led_of v (s\<lparr>next_period := p\<rparr>) = led_of v s"
  by (simp_all add: led_of_def set_value_def ind_call_def)

lemma led_of_masked [simp]: "led_of (v OR LED_ON) = led_of v" "led_of (v AND IND_VAL_MASK) = led_of v"
proof -
  have "(v OR LED_ON) AND INDEX_MASK = v AND INDEX_MASK" "(v OR LED_ON) AND P24G_IND_MASK = v AND P24G_IND_MASK"
    "(v AND IND_VAL_MASK) AND INDEX_MASK = v AND INDEX_MASK" "(v AND IND_VAL_MASK) AND P24G_IND_MASK = v AND P24G_IND_MASK"
    by (simp_all add: bit.conj_disj_distrib2 and.assoc)
  then show "led_of (v OR LED_ON) = led_of v" "led_of (v AND IND_VAL_MASK) = led_of v" by (simp_all add: led_of_def fun_eq_iff)
qed

text \<open>One due call of a blinking indication: it is over, or it goes on with more time elapsed.\<close>

lemma switch_flashing:
  assumes "type_shown s \<in> {INDICATOR_ON_OFF, INDICATOR_BLINK}" and "ind_value s \<noteq> 0"
  shows "\<exists>v p. indicator_switch s = another_period ((set_value v s)\<lparr>next_period := p\<rparr>) \<and> led_of v = led_of (ind_value s)"
proof -
  have "\<exists>p. indicator_switch s = another_period ((set_value (ind_value s OR LED_ON) s)\<lparr>next_period := p\<rparr>) \<or>
      indicator_switch s = another_period ((set_value (ind_value s AND IND_VAL_MASK) s)\<lparr>next_period := p\<rparr>)"
    using assms by (auto simp: indicator_switch_def Let_def)
  then show ?thesis using led_of_masked by metis
qed

lemma led_of_zero: "\<not> led_of 0 s"
proof -
  have "\<not> unat (- 1 :: u8) < 3" by code_simp
  then show ?thesis by (simp add: led_of_def Let_def)
qed

lemma update_leds_off:
  assumes "3 \<le> length (bt_leds s)"
  shows "\<not> led_of (ind_value s) (update_leds True s)"
  using led_of_zero led_write_off assms by (auto simp: update_leds_def Let_def simp del: upt_Suc upt_rec_numeral)

lemma timer_due_flashing:
  assumes "type_shown s \<in> {INDICATOR_ON_OFF, INDICATOR_BLINK}" and "ind_value s \<noteq> 0" and "length (bt_leds s) = 3"
  shows "ind_value (timer_due s) = 0 \<and> \<not> led_of (ind_value s) (timer_due s) \<or>
     (let c = indicator_config s; t = timer_due s; d = indicator_config t in
      type_shown t = type_shown s \<and> led_of (ic_value d) = led_of (ic_value c) \<and> length (bt_leds t) = 3 \<and> duration d = duration c \<and>
      ic_value d \<noteq> 0 \<and> (duration c = 0 \<or> elapsed c \<le> duration c) \<and> (\<exists>p :: u16. p \<noteq> 0 \<and> elapsed d = elapsed c + ucast p))"
proof -
  obtain v p where sw: "indicator_switch s = another_period ((set_value v s)\<lparr>next_period := p\<rparr>)" and v: "led_of v = led_of (ind_value s)"
    using switch_flashing [OF assms(1,2)] by blast
  let ?c = "indicator_config s"
  have arg: "type_shown s \<noteq> INDICATOR_LAST" "s\<lparr>type_shown := type_shown s\<rparr> = s" using assms(1) by auto
  have off: "\<not> led_of v (update_leds True t)" if "ind_value t = v" "length (bt_leds t) = 3" for t
    using update_leds_off [of t] that by simp
  show ?thesis
  proof (cases "(duration ?c = 0 \<or> elapsed ?c \<le> duration ?c) \<and> p \<noteq> 0")
    case True
    then show ?thesis
      using assms v led_of_zero by (auto simp: timer_due_def indicator_timer_cb_def sw arg another_period_def set_value_def ind_call_def Let_def)
  next
    case False
    then have "timer_due s = ind_call RestoreBacklight (ind_call LpmTimerReset (set_value 0 (ind_call ShowIndicators
        (set_value (v AND IND_VAL_MASK) (update_leds True ((set_value v s)\<lparr>next_period := p\<rparr>))))))"
      by (auto simp: timer_due_def indicator_timer_cb_def sw arg another_period_def set_value_def ind_call_def Let_def)
    then show ?thesis
      using off [of "(set_value v s)\<lparr>next_period := p\<rparr>"] assms(3) by (simp add: v [symmetric])
  qed
qed

lemma unat_add_ucast: "unat a + unat p < 2 ^ 32 \<Longrightarrow> unat (a + ucast (p :: u16) :: u32) = unat a + unat p"
  by (simp add: unat_word_ariths unsigned_ucast_eq take_bit_nat_eq_self order.strict_trans [OF unsigned_less])

text \<open>A blinking or on-off indication with a duration is over after finitely many runs of its
  timer, and the LED it used is then off.\<close>

lemma timed_indication_ends:
  assumes "type_shown s \<in> {INDICATOR_ON_OFF, INDICATOR_BLINK}" and "ind_value s \<noteq> 0" and "length (bt_leds s) = 3"
    and "duration (indicator_config s) \<noteq> 0" and "duration (indicator_config s) \<le> 0xFFFF0000"
  shows "\<exists>n \<le> unat (duration (indicator_config s)) + 2.
    ind_value ((timer_due ^^ n) s) = 0 \<and> \<not> led_of (ind_value s) ((timer_due ^^ n) s)"
proof -
  let ?left = "\<lambda>s. unat (duration (indicator_config s)) + 1 - unat (elapsed (indicator_config s))"
  have "\<exists>n \<le> ?left s + 1. ind_value ((timer_due ^^ n) s) = 0 \<and> \<not> led_of (ind_value s) ((timer_due ^^ n) s)"
    using assms
  proof (induction "?left s" arbitrary: s rule: less_induct)
    case less
    let ?c = "indicator_config s" and ?t = "timer_due s"
    consider (over) "ind_value ?t = 0" "\<not> led_of (ind_value s) ?t"
      | (on) p :: u16 where "type_shown ?t = type_shown s" "led_of (ind_value ?t) = led_of (ind_value s)" "length (bt_leds ?t) = 3"
          "duration (indicator_config ?t) = duration ?c" "ind_value ?t \<noteq> 0" "elapsed ?c \<le> duration ?c" "p \<noteq> 0"
          "elapsed (indicator_config ?t) = elapsed ?c + ucast p"
      using timer_due_flashing [OF less.prems(1-3)] less.prems(4) by (auto simp: Let_def)
    then show ?case
    proof cases
      case over
      then show ?thesis by (intro exI [of _ 1]) simp
    next
      case on
      have "unat (elapsed (indicator_config ?t)) = unat (elapsed ?c) + unat p"
        using on(6,8) less.prems(5) unsigned_less [of p, where ?'a = nat] by (simp add: unat_add_ucast word_le_nat_alt)
      moreover have "0 < unat p" using on(7) by (simp add: unat_gt_0)
      ultimately have less': "?left ?t < ?left s" using on(4,6) by (simp add: word_le_nat_alt)
      then obtain n where "n \<le> ?left ?t + 1" "ind_value ((timer_due ^^ n) ?t) = 0" "\<not> led_of (ind_value ?t) ((timer_due ^^ n) ?t)"
        using less.hyps [of ?t] on less.prems by auto
      then show ?thesis using less' on(2) by (intro exI [of _ "Suc n"]) (simp add: funpow_Suc_right del: funpow.simps)
    qed
  qed
  then obtain n where "n \<le> ?left s + 1" "ind_value ((timer_due ^^ n) s) = 0" "\<not> led_of (ind_value s) ((timer_due ^^ n) s)" by blast
  then show ?thesis by (intro exI [of _ n]) simp
qed

definition wireless_env :: "ind_env" where
  "wireless_env = \<lparr>ie_transport = TRANSPORT_BLUETOOTH, ie_now = 5, ie_critical = False, ie_backlit_disable_time = 600, ie_backlit_active = True\<rparr>"

lemma timed_indication_ends_witness:
  "let s = indicator_set wireless_env WT_RECONNECTING 1 indicator_start in
   \<exists>n \<le> 602. ind_value ((timer_due ^^ n) s) = 0 \<and> \<not> led_of (ind_value s) ((timer_due ^^ n) s)"
proof -
  let ?s = "indicator_set wireless_env WT_RECONNECTING 1 indicator_start"
  have "type_shown ?s = INDICATOR_BLINK" "ind_value ?s \<noteq> 0" "length (bt_leds ?s) = 3" "duration (indicator_config ?s) = 600" by code_simp+
  then show ?thesis using timed_indication_ends [of ?s] by simp
qed

section \<open>The pins written\<close>

text \<open>The value of an indication selects a pin of its list.\<close>

definition pins_ok :: "indicator \<Rightarrow> bool" where
  "pins_ok s \<longleftrightarrow> \<not> wild_pin s \<and> (ind_value s AND P24G_IND_MASK \<noteq> 0 \<longrightarrow> ind_value s AND INDEX_MASK = 1)"

definition host_ok :: "u8 \<Rightarrow> bool" where
  "host_ok h \<longleftrightarrow> h < 16 \<or> h = P24G_HOST_INDEX"

lemma value_masks:
  "(v OR LED_ON) AND P24G_IND_MASK = v AND P24G_IND_MASK" "(v OR LED_ON) AND INDEX_MASK = v AND INDEX_MASK"
  "(LED_ON OR v) AND P24G_IND_MASK = v AND P24G_IND_MASK" "(LED_ON OR v) AND INDEX_MASK = v AND INDEX_MASK"
  "(v AND IND_VAL_MASK) AND P24G_IND_MASK = v AND P24G_IND_MASK" "(v AND IND_VAL_MASK) AND INDEX_MASK = v AND INDEX_MASK"
  by (simp_all add: bit.conj_disj_distrib2 and.assoc)

lemma wild_write [simp]: "v AND P24G_IND_MASK \<noteq> 0 \<longrightarrow> v AND INDEX_MASK = 1 \<Longrightarrow> wild_pin (write_led v b s) = wild_pin s"
  by (simp add: write_led_def Let_def)

lemma wild_writes [simp]:
  "v AND P24G_IND_MASK \<noteq> 0 \<longrightarrow> v AND INDEX_MASK = 1 \<Longrightarrow> wild_pin (fold (\<lambda>i s. if P i then write_led v b s else s) js s) = wild_pin s"
  by (induction js arbitrary: s) simp_all

lemma pins_update: "pins_ok s \<Longrightarrow> pins_ok (update_leds u s)"
  by (auto simp: pins_ok_def update_leds_def Let_def simp del: upt_Suc upt_rec_numeral)

lemma pins_another: "pins_ok (snd (another_period s)) = pins_ok s"
  by (simp add: another_period_def pins_ok_def Let_def)

lemma pins_value:
  "pins_ok s \<Longrightarrow> pins_ok (set_value (ind_value s OR LED_ON) s)" "pins_ok s \<Longrightarrow> pins_ok (set_value (ind_value s AND IND_VAL_MASK) s)"
  "pins_ok s \<Longrightarrow> pins_ok (set_value 0 s)"
  by (simp_all add: pins_ok_def set_value_def value_masks)

lemma pins_mask: "pins_ok s \<Longrightarrow> pins_ok (set_value (ind_value s AND IND_VAL_MASK) (update_leds u s))"
  using pins_value(2) [OF pins_update, of s u] by simp

lemma pins_fields [simp]:
  "pins_ok (s\<lparr>next_period := p\<rparr>) = pins_ok s" "pins_ok (s\<lparr>type_shown := t\<rparr>) = pins_ok s" "pins_ok (ind_call c s) = pins_ok s"
  "pins_ok (s\<lparr>indicator_timer_buffer := n\<rparr>) = pins_ok s" "pins_ok (s\<lparr>indicator_state := w\<rparr>) = pins_ok s"
  "pins_ok (s\<lparr>current_state := w\<rparr>) = pins_ok s" "pins_ok (s\<lparr>pre_state := w\<rparr>) = pins_ok s" "pins_ok (s\<lparr>current_host := h\<rparr>) = pins_ok s"
  "pins_ok (s\<lparr>bat_low_led := b\<rparr>) = pins_ok s" "pins_ok (s\<lparr>bat_low_ind_state := v\<rparr>) = pins_ok s"
  "pins_ok (s\<lparr>bat_low_backlit_indicator := n\<rparr>) = pins_ok s"
  by (simp_all add: pins_ok_def ind_call_def)

lemma pins_switch: "pins_ok s \<Longrightarrow> pins_ok (snd (indicator_switch s))"
  using pins_value [of s]
  by (auto simp: indicator_switch_def Let_def pins_another split: indicator_type.splits) (simp_all add: pins_ok_def value_masks)

lemma pins_timer_cb: "pins_ok s \<Longrightarrow> pins_ok (indicator_timer_cb a s)"
  using pins_switch [of "if a \<noteq> INDICATOR_LAST then s\<lparr>type_shown := a\<rparr> else s"]
  by (auto simp: indicator_timer_cb_def Let_def case_prod_beta intro!: pins_value(3) pins_mask pins_update)

lemma pins_start:
  "\<not> wild_pin s \<Longrightarrow> v AND P24G_IND_MASK \<noteq> 0 \<longrightarrow> v AND INDEX_MASK = 1 \<Longrightarrow> pins_ok (start_indication c v s)"
  unfolding start_indication_def by (rule pins_timer_cb) (simp add: pins_ok_def)

lemma pins_off: "pins_ok (indicator_turn_off_direct_leds s) = pins_ok s"
  by (simp add: indicator_turn_off_direct_leds_def pins_ok_def)

lemma pins_indicator_show:
  assumes "pins_ok s" and "h AND P24G_IND_MASK \<noteq> 0 \<longrightarrow> h AND INDEX_MASK = 1"
  shows "pins_ok (indicator_show e w h ch s)"
proof -
  have "\<not> wild_pin s" using assms(1) by (simp add: pins_ok_def)
  then show ?thesis using assms by (cases w) (simp_all add: indicator_show_def Let_def pins_off pins_start value_masks)
qed

lemma host_ok_cases:
  assumes "host_ok h"
  shows "h = P24G_HOST_INDEX \<or> h AND P24G_IND_MASK = 0"
proof (rule disjCI)
  assume "h AND P24G_IND_MASK \<noteq> 0"
  moreover have "h AND P24G_IND_MASK = 0" if "h < 16"
  proof -
    have "take_bit 4 h = h" using that by (simp add: word_unat_eq_iff unsigned_take_bit_eq take_bit_nat_eq_self word_less_nat_alt)
    then have "h AND P24G_IND_MASK = (h AND mask 4) AND P24G_IND_MASK" by (simp add: take_bit_eq_mask)
    then show ?thesis by (simp add: mask_eq_exp_minus_1 and.assoc)
  qed
  ultimately show "h = P24G_HOST_INDEX" using assms by (auto simp: host_ok_def)
qed

text \<open>No host index the module or the keys give makes an indication write outside the pin lists.\<close>

lemma indicator_pins_in_range:
  assumes "pins_ok s" and "host_ok h"
  shows "pins_ok (indicator_set e w h s)"
  using host_ok_cases [OF assms(2)] assms(1) by (auto simp: indicator_set_def Let_def pins_indicator_show)

lemma indicator_pins_in_range_witness: "pins_ok (indicator_set wireless_env WT_PARING 24 indicator_start)"
proof -
  have "pins_ok indicator_start" "host_ok 24" by code_simp+
  then show ?thesis by (rule indicator_pins_in_range)
qed

lemma pins_indicator_task: "pins_ok s \<Longrightarrow> pins_ok (indicator_task now a s)"
  using pins_timer_cb [of s "type_shown s"] by (auto simp: indicator_task_def indicator_battery_low_def Let_def)

lemma connecting_host_wild: "wild_pin (indicator_set wireless_env WT_RECONNECTING 30 indicator_start)"
  by code_simp

lemma other_host_stays_lit:
  "bt_leds (timer_due (indicator_set wireless_env WT_RECONNECTING 1 indicator_start)) = [True, False, False]"
  "bt_leds (timer_due (indicator_set wireless_env WT_RECONNECTING 2 (timer_due (indicator_set wireless_env WT_RECONNECTING 1 indicator_start)))) =
     [True, True, False]"
  by code_simp+

section \<open>The low battery LED\<close>

fun low_battery_leds :: "bool \<Rightarrow> u32 list \<Rightarrow> indicator \<Rightarrow> bool list \<times> indicator" where
  "low_battery_leds a [] s = ([], s)"
| "low_battery_leds a (t # ts) s =
     (let s = indicator_battery_low t a s; (ls, u) = low_battery_leds a ts s in (bat_low_led s # ls, u))"

abbreviation blink_due :: "u32 \<Rightarrow> u32 \<Rightarrow> bool" where "blink_due prev t \<equiv> timer_elapsed32 t prev > LOW_BAT_LED_BLINK_PERIOD"

lemma blink:
  assumes "bat_low_ind_state s = k" and "k \<in> {1, 2, 3, 4, 5}" and "blink_due (bat_low_backlit_indicator s) t" and "blink_due t t'"
  shows "bat_low_led (indicator_battery_low t a s)" "\<not> bat_low_led (indicator_battery_low t' a (indicator_battery_low t a s))"
    "bat_low_ind_state (indicator_battery_low t' a (indicator_battery_low t a s)) = k + 1"
    "bat_low_backlit_indicator (indicator_battery_low t' a (indicator_battery_low t a s)) = t'"
proof -
  have k: "k AND 0x0F \<le> 5" "k AND 0x80 = 0" "k \<noteq> 0" "(k OR 0x80) AND 0x0F \<le> 5" "(k OR 0x80) AND 0x80 \<noteq> 0" "k OR 0x80 \<noteq> 0"
    "((k OR 0x80) AND 0x7F) + 1 = k + 1"
    using assms(2) by auto
  have on: "indicator_battery_low t a s = s\<lparr>bat_low_ind_state := k OR 0x80, bat_low_led := True, bat_low_backlit_indicator := t\<rparr>"
    using assms(1,3) k by (simp add: indicator_battery_low_def Let_def linorder_not_le [symmetric])
  show "bat_low_led (indicator_battery_low t a s)" by (simp add: on)
  show "\<not> bat_low_led (indicator_battery_low t' a (indicator_battery_low t a s))"
    "bat_low_ind_state (indicator_battery_low t' a (indicator_battery_low t a s)) = k + 1"
    "bat_low_backlit_indicator (indicator_battery_low t' a (indicator_battery_low t a s)) = t'"
    using assms(4) k by (simp_all add: on indicator_battery_low_def [of t'] ind_call_def Let_def)
qed

text \<open>A low battery blinks its LED five times, then the indication is over.\<close>

lemma low_battery_blinks:
  assumes "bat_low_ind_state s = 1" and "length ts = 10" and "successively blink_due (bat_low_backlit_indicator s # ts)"
  shows "fst (low_battery_leds a (ts @ [t]) s) = concat (replicate 5 [True, False]) @ [False] \<and>
    bat_low_ind_state (snd (low_battery_leds a (ts @ [t]) s)) = 0"
proof -
  obtain t1 t2 t3 t4 t5 t6 t7 t8 t9 t10 where ts: "ts = [t1, t2, t3, t4, t5, t6, t7, t8, t9, t10]"
    using assms(2) by (auto simp: length_Suc_conv eval_nat_numeral)
  let ?l = "\<lambda>t. indicator_battery_low t a"
  note d = assms(3) [unfolded ts]
  note 1 = blink [OF assms(1), of t1 t2 a]
  let ?s1 = "?l t2 (?l t1 s)"
  note 2 = blink [of ?s1 2 t3 t4 a]
  let ?s2 = "?l t4 (?l t3 ?s1)"
  note 3 = blink [of ?s2 3 t5 t6 a]
  let ?s3 = "?l t6 (?l t5 ?s2)"
  note 4 = blink [of ?s3 4 t7 t8 a]
  let ?s4 = "?l t8 (?l t7 ?s3)"
  note 5 = blink [of ?s4 5 t9 t10 a]
  let ?s5 = "?l t10 (?l t9 ?s4)"
  have out: "bat_low_ind_state (?l t u) = 0 \<and> \<not> bat_low_led (?l t u)" if "bat_low_ind_state u = 6" for u
    using that by (simp add: indicator_battery_low_def ind_call_def)
  have "concat (replicate 5 [True, False]) = [True, False, True, False, True, False, True, False, True, False]" by code_simp
  then show ?thesis using d 1 2 3 4 5 out [of ?s5] by (simp add: ts)
qed

lemma low_battery_blinks_witness:
  "fst (low_battery_leds True (map (\<lambda>i. of_nat i * 2000) [1..<11] @ [23000]) (indicator_battery_low_enable 0 9 True indicator_start)) =
     concat (replicate 5 [True, False]) @ [False]"
proof -
  let ?s = "indicator_battery_low_enable 0 9 True indicator_start"
  have "bat_low_ind_state ?s = 1"
    "successively blink_due (bat_low_backlit_indicator ?s # map (\<lambda>i. of_nat i * 2000) [1..<11])" by code_simp+
  then show ?thesis using low_battery_blinks [of ?s "map (\<lambda>i. of_nat i * 2000) [1..<11]" True 23000] by simp
qed

end
