(* ===== verification/Wireless.thy ===== *)
theory Wireless
  imports Lkbt51 Indicator
begin

text \<open>
  The wireless connection (\<open>keyboards/keychron/common/wireless/wireless.c\<close>, with \<open>transport.c\<close>, \<open>lpm.c\<close> and
  \<open>keychron_wireless_common.c\<close> of the same directory), on top of the radio module's driver, the report buffer, the battery
  and the indicators: the connection state and what the module's events do to it, the reports of the host driver, the
  settings, the pairing keys, the mode switch and the idle timer.  The build has \<open>LK_WIRELESS_ENABLE\<close>, \<open>NKRO_ENABLE\<close>,
  \<open>RGB_MATRIX_ENABLE\<close>, \<open>P24G_MODE_SELECT_PIN\<close>, \<open>BT_MODE_SELECT_PIN\<close> and no \<open>KEYCOMBO_CONN_SWITCH_ENABLE\<close>.
\<close>

section \<open>State\<close>

text \<open>A report handed to the host driver.\<close>

datatype hid =
    HidKeyboard "u8 list" | HidNkro "u8 list" | HidMouse "u8 list" | HidExtra u8 u16 | HidJoystick "u8 list" | HidXinput "u8 list"
  | HidRaw "u8 list"

text \<open>\<open>led_updates\<close> are the calls of \<open>led_update_kb\<close>, \<open>usb_reports\<close> the reports sent through USB on a change of transport;
  \<open>wl_eeprom\<close> holds the two settings, \<open>backlit_disable_time\<close> and \<open>connected_idle_time\<close>.\<close>

record wireless =
  rad :: radio
  ind :: indicator
  wireless_state :: wt_state
  host_index :: u8
  led_state :: u8
  pincode_entry :: bool
  report_protocol :: bool
  backlit_disable_time :: u16
  connected_idle_time :: u16
  keymap_nkro :: bool
  transport_now :: transport
  driver_wireless :: bool
  lpm_timer_buffer :: u32
  lpm_time_up :: bool
  lpm_reset_time :: u32
  pairing_key_timer :: u32
  bt_host_idx :: u8
  first_disconnect :: bool
  dip_switch_state :: u8
  dip_switch_time :: u32
  wl_eeprom :: "u16 \<times> u16"
  led_updates :: "u8 list"
  usb_reports :: "hid list"

text \<open>What the code calls outside this theory: the clock that runs in sleep, whether the backlight is on for an indication,
  whether the LED driver may shut down, USB power, the USB driver's state and its lock LEDs, the reports \<open>clear_keyboard\<close> sends, the mouse
  reports of the wiggle, the NKRO setting stored, and the module's parameters (\<open>PRODUCT\<close>, \<open>VID\<close> and \<open>PRODUCT_ID\<close>); the build
  options \<open>ANANLOG_MATRIX\<close> and \<open>WIRELESS_NKRO_ENABLE\<close>.\<close>

record wl_env =
  w_rtc :: u32
  w_backlit :: bool
  w_allow_shutdown :: bool
  w_usb_power :: bool
  w_usb_active :: bool
  w_usb_leds :: u8
  w_cleared :: "hid list"
  w_wiggle :: "hid list"
  w_stored_nkro :: bool
  w_product :: "u8 list"
  w_vendor_id :: u16
  w_product_id :: u16
  w_analog :: bool
  w_nkro :: bool

definition now_of :: "wireless \<Rightarrow> u32" where "now_of s = radio_clock (rad s)"
definition critical :: "wireless \<Rightarrow> bool" where "critical s \<longleftrightarrow> battery_is_critical_low (bat (rad s))"
definition is_wireless :: "transport \<Rightarrow> bool" where "is_wireless t \<longleftrightarrow> t = TRANSPORT_BLUETOOTH \<or> t = TRANSPORT_P2P4"

definition on_radio :: "(radio \<Rightarrow> radio) \<Rightarrow> wireless \<Rightarrow> wireless" where
  "on_radio f s = s\<lparr>rad := f (rad s)\<rparr>"

definition on_reports :: "(report_queue \<Rightarrow> report_queue) \<Rightarrow> wireless \<Rightarrow> wireless" where
  "on_reports f = on_radio (\<lambda>r. r\<lparr>rq := f (rq r)\<rparr>)"

section \<open>Idle timer\<close>

definition lpm_timer_reset :: "wl_env \<Rightarrow> wireless \<Rightarrow> wireless" where
  "lpm_timer_reset e s = s\<lparr>lpm_time_up := False, lpm_timer_buffer := now_of s,
     lpm_reset_time := (if w_analog e \<and> wireless_state s = WT_CONNECTED then 30 * 60 * 1000 else 3000)\<rparr>"

definition lpm_timer_stop :: "wireless \<Rightarrow> wireless" where
  "lpm_timer_stop s = s\<lparr>lpm_time_up := False, lpm_timer_buffer := 0\<rparr>"

section \<open>Calls to the indicators\<close>

text \<open>The calls of \<open>lpm_timer_reset\<close> an indicator function made; nothing it does afterwards depends on them.\<close>

definition on_indicator :: "wl_env \<Rightarrow> (indicator \<Rightarrow> indicator) \<Rightarrow> wireless \<Rightarrow> wireless" where
  "on_indicator e f s =
     (let i = f ((ind s)\<lparr>ind_calls := []\<rparr>); s' = s\<lparr>ind := i\<lparr>ind_calls := ind_calls (ind s) @ ind_calls i\<rparr>\<rparr>
      in if LpmTimerReset \<in> set (ind_calls i) then lpm_timer_reset e s' else s')"

definition ind_env_of :: "wl_env \<Rightarrow> wireless \<Rightarrow> ind_env" where
  "ind_env_of e s = \<lparr>ie_transport = transport_now s, ie_now = now_of s, ie_critical = critical s,
     ie_backlit_disable_time = backlit_disable_time s, ie_backlit_active = w_backlit e\<rparr>"

definition wl_indicator_set :: "wl_env \<Rightarrow> wt_state \<Rightarrow> u8 \<Rightarrow> wireless \<Rightarrow> wireless" where
  "wl_indicator_set e st h s = on_indicator e (indicator_set (ind_env_of e s) st h) s"

definition wl_battery_low_enable :: "wl_env \<Rightarrow> bool \<Rightarrow> wireless \<Rightarrow> wireless" where
  "wl_battery_low_enable e enable s = on_indicator e (indicator_battery_low_enable (now_of s) (w_rtc e) enable) s"

definition wl_backlit_timeout :: "wl_env \<Rightarrow> u32 \<Rightarrow> wireless \<Rightarrow> wireless" where
  "wl_backlit_timeout e t = on_indicator e (ind_call (BacklitTimeout t))"

section \<open>Connection requests\<close>

definition wireless_pairing_ex :: "u8 \<Rightarrow> wireless \<Rightarrow> wireless" where
  "wireless_pairing_ex host_idx s =
     (if critical s then s
      else (on_radio (lkbt51_become_discoverable host_idx) s)\<lparr>wireless_state := WT_PARING, host_index := host_idx\<rparr>)"

definition wireless_pairing :: "wireless \<Rightarrow> wireless" where
  "wireless_pairing s = (if critical s then s else (wireless_pairing_ex 0 s)\<lparr>wireless_state := WT_PARING\<rparr>)"

definition wireless_connect :: "wl_env \<Rightarrow> wireless \<Rightarrow> wireless" where
  "wireless_connect e s =
     (if critical s \<or> now_of s = 0 then s
      else let s = (if wireless_state s = WT_RECONNECTING \<and> \<not> indicator_is_running (ind s)
                    then wl_indicator_set e (wireless_state s) (host_index s) s else s)
        in (on_radio (lkbt51_connect 0 0) s)\<lparr>wireless_state := WT_RECONNECTING\<rparr>)"

definition wireless_connect_ex :: "u8 \<Rightarrow> u16 \<Rightarrow> wireless \<Rightarrow> wireless" where
  "wireless_connect_ex host_idx timeout s =
     (if critical s then s
      else if host_idx \<noteq> 0 \<and> host_index s = host_idx \<and> wireless_state s = WT_CONNECTED then s
      else let s = (if host_idx \<noteq> 0 then s\<lparr>host_index := host_idx, led_state := 0\<rparr> else s)
        in (on_radio (lkbt51_connect host_idx timeout) s)\<lparr>wireless_state := WT_RECONNECTING\<rparr>)"

definition wireless_disconnect :: "wireless \<Rightarrow> wireless" where
  "wireless_disconnect = on_radio lkbt51_disconnect"

section \<open>Reports\<close>

text \<open>The module takes reports while connected, and keyboard reports while a pin code is typed.\<close>

definition linked :: "wireless \<Rightarrow> bool" where
  "linked s \<longleftrightarrow> wireless_state s = WT_CONNECTED \<or> wireless_state s = WT_PARING \<and> pincode_entry s"

definition transmit :: "report \<Rightarrow> radio \<Rightarrow> radio" where
  "transmit r = (case r of NoReport \<Rightarrow> id | KbReport b \<Rightarrow> lkbt51_send_keyboard b | NkroReport b \<Rightarrow> lkbt51_send_nkro b
     | ConsumerReport c \<Rightarrow> lkbt51_send_consumer c)"

definition wl_report_task :: "wl_env \<Rightarrow> wireless \<Rightarrow> wireless" where
  "wl_report_task e s =
     (let (sent, q) = report_buffer_task (w_nkro e) (linked s) (now_of s) (rq (rad s));
          s = on_reports (\<lambda>_. q) s
      in if sent then lpm_timer_reset e (on_radio (fold transmit (transmitted (w_nkro e) (kb_rpt q))) s) else s)"

definition queue_report :: "wl_env \<Rightarrow> report \<Rightarrow> wireless \<Rightarrow> wireless" where
  "queue_report e r s =
     (let was_empty = report_buffer_is_empty (rq (rad s)); s = on_reports (\<lambda>q. snd (report_buffer_enqueue r q)) s
      in if was_empty then wl_report_task e s else s)"

text \<open>What a report does when the module cannot take it.\<close>

definition or_connect :: "wl_env \<Rightarrow> wireless \<Rightarrow> wireless" where
  "or_connect e s = (if wireless_state s \<noteq> WT_RESET then wireless_connect e s else s)"

text \<open>\<open>wireless_send_keyboard\<close> and \<open>wireless_send_nkro\<close>.\<close>

definition wireless_send_keys :: "wl_env \<Rightarrow> report \<Rightarrow> wireless \<Rightarrow> wireless" where
  "wireless_send_keys e r s =
     (if critical s then s
      else if wireless_state s = WT_PARING \<and> \<not> pincode_entry s then s
      else if linked s then queue_report e r s
      else or_connect e s)"

text \<open>The reports sent at once, while connected: mouse, joystick, XInput and raw HID.\<close>

definition wireless_send_now :: "wl_env \<Rightarrow> (radio \<Rightarrow> radio) \<Rightarrow> wireless \<Rightarrow> wireless" where
  "wireless_send_now e f s =
     (if critical s then s else if wireless_state s = WT_CONNECTED then on_radio f s else or_connect e s)"

definition wireless_send_system :: "wl_env \<Rightarrow> u16 \<Rightarrow> wireless \<Rightarrow> wireless" where
  "wireless_send_system e d s = (if wireless_state s = WT_CONNECTED then on_radio (lkbt51_send_system d) s else or_connect e s)"

definition wireless_send_consumer :: "wl_env \<Rightarrow> u16 \<Rightarrow> wireless \<Rightarrow> wireless" where
  "wireless_send_consumer e d s =
     (if wireless_state s = WT_CONNECTED then
        (if report_buffer_is_empty (rq (rad s)) \<and> report_buffer_next_inverval (now_of s) (rq (rad s))
         then on_reports (report_buffer_update_timer (now_of s)) (on_radio (lkbt51_send_consumer d) s)
         else on_reports (\<lambda>q. snd (report_buffer_enqueue (ConsumerReport d) q)) s)
      else or_connect e s)"

abbreviation REPORT_ID_SYSTEM :: u8 where "REPORT_ID_SYSTEM \<equiv> 3"
abbreviation REPORT_ID_CONSUMER :: u8 where "REPORT_ID_CONSUMER \<equiv> 4"

definition wireless_send_extra :: "wl_env \<Rightarrow> u8 \<Rightarrow> u16 \<Rightarrow> wireless \<Rightarrow> wireless" where
  "wireless_send_extra e report_id usage s =
     (if critical s then s
      else if report_id = REPORT_ID_SYSTEM then wireless_send_system e usage s
      else if report_id = REPORT_ID_CONSUMER then wireless_send_consumer e usage s
      else s)"

text \<open>The functions of \<open>wireless_driver\<close>.\<close>

definition wireless_send :: "wl_env \<Rightarrow> hid \<Rightarrow> wireless \<Rightarrow> wireless" where
  "wireless_send e h =
     (case h of HidKeyboard b \<Rightarrow> wireless_send_keys e (KbReport b) | HidNkro b \<Rightarrow> wireless_send_keys e (NkroReport b)
      | HidMouse b \<Rightarrow> wireless_send_now e (lkbt51_send_mouse b) | HidExtra i u \<Rightarrow> wireless_send_extra e i u
      | HidJoystick b \<Rightarrow> wireless_send_now e (lkbt51_send_joysticks b) | HidXinput b \<Rightarrow> wireless_send_now e (lkbt51_send_xinput b)
      | HidRaw b \<Rightarrow> wireless_send_now e (lkbt51_send_raw_hid b))"

definition wireless_keyboard_leds :: "wireless \<Rightarrow> u8" where
  "wireless_keyboard_leds s = (if wireless_state s = WT_CONNECTED then led_state s else 0)"

text \<open>The host driver in use, and what \<open>clear_keyboard\<close> sends through it.\<close>

definition host_send :: "wl_env \<Rightarrow> hid \<Rightarrow> wireless \<Rightarrow> wireless" where
  "host_send e h s = (if driver_wireless s then wireless_send e h s else s\<lparr>usb_reports := usb_reports s @ [h]\<rparr>)"

definition wl_clear_keyboard :: "wl_env \<Rightarrow> wireless \<Rightarrow> wireless" where
  "wl_clear_keyboard e = fold (host_send e) (w_cleared e)"

section \<open>Parameters of the module\<close>

definition module_param :: "wl_env \<Rightarrow> u16 \<Rightarrow> u8 list" where
  "module_param e idle = [2, lo8 idle, hi8 idle, 180, 0, 0, 5, 0, 90, 0, 0, 1, lo8 (w_vendor_id e), hi8 (w_vendor_id e),
     lo8 (w_product_id e), hi8 (w_product_id e), 0, 0, 0, 0, 0, 0]"

definition lkbt51_param_init :: "wl_env \<Rightarrow> wireless \<Rightarrow> wireless" where
  "lkbt51_param_init e s =
     on_radio (\<lambda>r. lkbt51_set_param (module_param e (connected_idle_time s)) (radio_wait 3 (lkbt51_set_local_name (w_product e) r))) s"

section \<open>What the events of the module do\<close>

definition wireless_enter_reset :: "wl_env \<Rightarrow> wireless \<Rightarrow> wireless" where
  "wireless_enter_reset e s = lkbt51_param_init e (s\<lparr>wireless_state := WT_RESET\<rparr>)"

definition wireless_enter_discoverable :: "wl_env \<Rightarrow> u8 \<Rightarrow> wireless \<Rightarrow> wireless" where
  "wireless_enter_discoverable e h s = wl_indicator_set e WT_PARING h (s\<lparr>host_index := h, wireless_state := WT_PARING\<rparr>)"

definition wireless_enter_reconnecting :: "wl_env \<Rightarrow> u8 \<Rightarrow> wireless \<Rightarrow> wireless" where
  "wireless_enter_reconnecting e h s = wl_indicator_set e WT_RECONNECTING h (s\<lparr>host_index := h, wireless_state := WT_RECONNECTING\<rparr>)"

definition wireless_enter_connected :: "wl_env \<Rightarrow> u8 \<Rightarrow> wireless \<Rightarrow> wireless" where
  "wireless_enter_connected e h s =
     (let s = wl_indicator_set e WT_CONNECTED h (s\<lparr>wireless_state := WT_CONNECTED\<rparr>);
          s = wl_clear_keyboard e (s\<lparr>host_index := h\<rparr>);
          s = (if w_nkro e then s else s\<lparr>keymap_nkro := False\<rparr>);
          s = (if battery_is_empty (bat (rad s)) then wl_battery_low_enable e True s else s)
      in lpm_timer_reset e (on_radio (lkbt51_update_bat_lvl (battery_get_percentage (bat (rad s)))) s))"

text \<open>\<open>wireless_enter_disconnected_kb\<close>: the module reports a disconnection once it has started.\<close>

definition disconnected_kb :: "wl_env \<Rightarrow> wireless \<Rightarrow> wireless" where
  "disconnected_kb e s =
     (if first_disconnect s \<and> now_of s < 1000 then
        (let s = lkbt51_param_init e s; s = (if transport_now s = TRANSPORT_BLUETOOTH then wireless_connect e s else s)
         in s\<lparr>first_disconnect := False\<rparr>)
      else s)"

definition clear_leds :: "wireless \<Rightarrow> wireless" where
  "clear_leds s = (let s = s\<lparr>led_state := 0\<rparr> in if is_wireless (transport_now s) then s\<lparr>led_updates := led_updates s @ [0]\<rparr> else s)"

definition wireless_enter_disconnected :: "wl_env \<Rightarrow> u8 \<Rightarrow> u8 \<Rightarrow> wireless \<Rightarrow> wireless" where
  "wireless_enter_disconnected e h reason s =
     (let was_connected = (wireless_state s = WT_CONNECTED);
          s = (clear_leds s)\<lparr>wireless_state := WT_DISCONNECTED\<rparr>;
          s = (if was_connected then wl_indicator_set e WT_SUSPEND h (lpm_timer_reset e s) else wl_indicator_set e WT_DISCONNECTED h s);
          s = (if reason \<noteq> 0 \<and> is_wireless (transport_now s) then wl_backlit_timeout e 40000 s else s);
          s = on_reports (report_buffer_set_retry 0 \<circ> report_buffer_init (now_of s)) s;
          s = disconnected_kb e s;
          s = wl_battery_low_enable e False s
      in on_radio (\<lambda>r. r\<lparr>bat := battery_timer_reset (w_rtc e) (bat r)\<rparr>) s)"

definition wireless_enter_bluetooth_pin_code_entry :: "wireless \<Rightarrow> wireless" where
  "wireless_enter_bluetooth_pin_code_entry s = s\<lparr>keymap_nkro := False, pincode_entry := True\<rparr>"

definition wireless_exit_bluetooth_pin_code_entry :: "wl_env \<Rightarrow> wireless \<Rightarrow> wireless" where
  "wireless_exit_bluetooth_pin_code_entry e s = s\<lparr>keymap_nkro := w_stored_nkro e, pincode_entry := False\<rparr>"

definition wireless_enter_sleep :: "wl_env \<Rightarrow> wireless \<Rightarrow> wireless" where
  "wireless_enter_sleep e s =
     (let was_up = (wireless_state s = WT_CONNECTED \<or> wireless_state s = WT_PARING);
          s = (clear_leds s)\<lparr>wireless_state := WT_SUSPEND\<rparr>
      in if was_up then wl_battery_low_enable e False (wl_indicator_set e WT_SUSPEND 0 (lpm_timer_reset e s)) else s)"

text \<open>The protocol event switches the report protocol off whatever it says.  \<open>EVT_RAW_HID\<close> falls to the default: the macro
  \<open>WILRESS_RAW_ENABLE\<close> that guards it is defined nowhere.\<close>

definition wireless_handle_event :: "wl_env \<Rightarrow> wireless_event \<Rightarrow> wireless \<Rightarrow> wireless" where
  "wireless_handle_event e ev s =
     (case evt_type ev of
        EVT_RESET \<Rightarrow> wireless_enter_reset e s
      | EVT_CONNECTED \<Rightarrow> wireless_enter_connected e (evt_param ev) s
      | EVT_DISCOVERABLE \<Rightarrow> wireless_enter_discoverable e (evt_param ev) s
      | EVT_RECONNECTING \<Rightarrow> wireless_enter_reconnecting e (evt_param ev) s
      | EVT_DISCONNECTED \<Rightarrow> wireless_enter_disconnected e (evt_param ev) (evt_data ev) s
      | EVT_BT_PINCODE_ENTRY \<Rightarrow> wireless_enter_bluetooth_pin_code_entry s
      | EVT_EXIT_BT_PINCODE_ENTRY \<Rightarrow> wireless_exit_bluetooth_pin_code_entry e s
      | EVT_SLEEP \<Rightarrow> wireless_enter_sleep e s
      | EVT_HID_INDICATOR \<Rightarrow> s\<lparr>led_state := evt_param ev\<rparr>
      | EVT_HID_SET_PROTOCOL \<Rightarrow> s\<lparr>report_protocol := False\<rparr>
      | EVT_CONECTION_INTERVAL \<Rightarrow> on_reports (report_buffer_set_inverval (evt_param ev)) s
      | _ \<Rightarrow> s)"

definition set_evq :: "event_queue \<Rightarrow> wireless \<Rightarrow> wireless" where
  "set_evq q = on_radio (\<lambda>r. r\<lparr>evq := q\<rparr>)"

text \<open>The loop over the queue, which has no bound of its own.\<close>

partial_function (option) wireless_event_task :: "wl_env \<Rightarrow> wireless \<Rightarrow> wireless option" where
  "wireless_event_task e s =
     (case wireless_event_dequeue (evq (rad s)) of
        (None, q) \<Rightarrow> Some s
      | (Some ev, q) \<Rightarrow> wireless_event_task e (wireless_handle_event e ev (set_evq q s)))"

section \<open>Low battery\<close>

text \<open>Everything is released, then the link is closed.\<close>

definition wireless_low_battery_shutdown :: "wl_env \<Rightarrow> wireless \<Rightarrow> wireless" where
  "wireless_low_battery_shutdown e s =
     (let s = wl_battery_low_enable e False s;
          s = on_reports (report_buffer_init (now_of s)) s;
          s = on_radio (radio_wait 50) (wl_clear_keyboard e s);
          s = on_radio (if keymap_nkro s then lkbt51_send_nkro (replicate 31 0) else lkbt51_send_keyboard (replicate 8 0)) s;
          s = on_radio (\<lambda>r. radio_wait 10 (lkbt51_send_consumer 0 (radio_wait 10 r))) s;
          s = on_radio (\<lambda>r. radio_wait 300 (lkbt51_send_mouse (replicate 6 0) r)) s
      in wireless_disconnect s)"

definition battery_calls :: "wl_env \<Rightarrow> battery_call \<Rightarrow> wireless \<Rightarrow> wireless" where
  "battery_calls e c s =
     (case c of BatteryLowEnable b \<Rightarrow> wl_battery_low_enable e b s | LowBatteryShutdown \<Rightarrow> wireless_low_battery_shutdown e s
      | MeasureBattery \<Rightarrow> on_radio (lkbt51_read_state_reg 5 2) s | RtcClear \<Rightarrow> s)"

text \<open>The calls a battery function made, in their order.\<close>

definition on_battery :: "wl_env \<Rightarrow> (battery \<Rightarrow> battery) \<Rightarrow> wireless \<Rightarrow> wireless" where
  "on_battery e f s =
     (let b = f ((bat (rad s))\<lparr>bat_calls := []\<rparr>)
      in fold (battery_calls e) (bat_calls b) (on_radio (\<lambda>r. r\<lparr>bat := b\<lparr>bat_calls := bat_calls (bat r) @ bat_calls b\<rparr>\<rparr>) s))"

definition wl_battery_task :: "wl_env \<Rightarrow> wireless \<Rightarrow> wireless" where
  "wl_battery_task e s =
     on_battery e (battery_usb_reset (w_usb_power e))
       (if sample_due (w_rtc e) (is_wireless (transport_now s)) (wireless_state s = WT_CONNECTED) (w_backlit e) (bat (rad s))
        then on_battery e (battery_sample (w_rtc e)) s else s)"

section \<open>Settings\<close>

abbreviation CONNECTED_BACKLIGHT_DISABLE_TIMEOUT :: u16 where "CONNECTED_BACKLIGHT_DISABLE_TIMEOUT \<equiv> 600"
abbreviation CONNECTED_IDLE_TIME :: u16 where "CONNECTED_IDLE_TIME \<equiv> 7200"

definition wireless_config_load :: "wireless \<Rightarrow> wireless" where
  "wireless_config_load s =
     (let (b, i) = wl_eeprom s
      in s\<lparr>backlit_disable_time := (if b = 0 then CONNECTED_BACKLIGHT_DISABLE_TIMEOUT else if b < 5 then 5 else b),
          connected_idle_time := (if i = 0 then CONNECTED_IDLE_TIME else if i < 30 then 30 else i)\<rparr>)"

definition wireless_config_save :: "wireless \<Rightarrow> wireless" where
  "wireless_config_save s = s\<lparr>wl_eeprom := (backlit_disable_time s, connected_idle_time s)\<rparr>"

definition u16_of :: "u8 \<Rightarrow> u8 \<Rightarrow> u16" where
  "u16_of lo hi = push_bit 8 (ucast hi) OR ucast lo"

text \<open>Three mouse reports wake the module, ten milliseconds apart.\<close>

definition wiggle :: "wl_env \<Rightarrow> wireless \<Rightarrow> wireless" where
  "wiggle e = fold (\<lambda>h s. on_radio (radio_wait 10) (host_send e h s)) (w_wiggle e)"

definition wireless_lpm_set :: "wl_env \<Rightarrow> u8 list \<Rightarrow> wireless \<Rightarrow> bool \<times> wireless" where
  "wireless_lpm_set e data s =
     (let s = s\<lparr>backlit_disable_time := u16_of (data ! 0) (data ! 1), connected_idle_time := u16_of (data ! 2) (data ! 3)\<rparr>
      in if backlit_disable_time s < 5 \<or> connected_idle_time s < 60 then (False, wireless_config_load s)
         else let s = wireless_config_save s;
                  s = (if is_wireless (transport_now s) \<and> wireless_state s = WT_CONNECTED
                       then wiggle e (wl_backlit_timeout e (ucast (backlit_disable_time s) * 1000) s) else s)
           in (True, lkbt51_param_init e s))"

definition wireless_lpm_get :: "wireless \<Rightarrow> u8 list" where
  "wireless_lpm_get s =
     [lo8 (backlit_disable_time s), hi8 (backlit_disable_time s), lo8 (connected_idle_time s), hi8 (connected_idle_time s)]"

definition wireless_config_reset :: "wl_env \<Rightarrow> wireless \<Rightarrow> wireless" where
  "wireless_config_reset e s =
     snd (wireless_lpm_set e [lo8 CONNECTED_BACKLIGHT_DISABLE_TIMEOUT, hi8 CONNECTED_BACKLIGHT_DISABLE_TIMEOUT,
       lo8 CONNECTED_IDLE_TIME, hi8 CONNECTED_IDLE_TIME] s)"

text \<open>A settings packet of the host: the packet becomes the answer, its third byte the outcome.\<close>

definition wireless_raw_hid_rx :: "wl_env \<Rightarrow> u8 list \<Rightarrow> wireless \<Rightarrow> u8 list \<times> wireless" where
  "wireless_raw_hid_rx e data s =
     (let (ok, data, s) =
        (if data ! 1 = 11 then (True, splice data 3 (wireless_lpm_get s), s)
         else if data ! 1 = 12 then (let (ok, s) = wireless_lpm_set e (drop 2 data) s in (ok, data, s))
         else (True, data[0 := 0xFF], s))
      in (data[2 := (if ok then 0 else 1)], s))"

section \<open>Pairing keys\<close>

abbreviation (input) BT_HST1 :: u16 where "BT_HST1 \<equiv> 0x7E0B"
abbreviation (input) BT_HST3 :: u16 where "BT_HST3 \<equiv> 0x7E0D"
abbreviation (input) P2P4G :: u16 where "P2P4G \<equiv> 0x7E0E"

definition host_key :: "u8 \<Rightarrow> bool \<Rightarrow> wireless \<Rightarrow> wireless" where
  "host_key h pressed s =
     (if pressed then s\<lparr>bt_host_idx := h, pairing_key_timer := now_of s\<rparr> else s\<lparr>bt_host_idx := 0, pairing_key_timer := 0\<rparr>)"

definition process_record_keychron_wireless :: "u16 \<Rightarrow> bool \<Rightarrow> wireless \<Rightarrow> wireless" where
  "process_record_keychron_wireless keycode pressed s =
     (if BT_HST1 \<le> keycode \<and> keycode \<le> BT_HST3 then
        (if transport_now s = TRANSPORT_BLUETOOTH then
           (let s = host_key (ucast (keycode - BT_HST1 + 1)) pressed s in if pressed then wireless_connect_ex (bt_host_idx s) 0 s else s)
         else s)
      else if keycode = P2P4G then (if transport_now s = TRANSPORT_P2P4 then host_key 24 pressed s else s)
      else s)"

definition process_record_wireless :: "wl_env \<Rightarrow> u16 \<Rightarrow> bool \<Rightarrow> wireless \<Rightarrow> wireless" where
  "process_record_wireless e keycode pressed s =
     (let s = (if is_wireless (transport_now s) then
                 (let s = lpm_timer_reset e s
                  in if battery_is_empty (bat (rad s)) \<and> wireless_state s = WT_CONNECTED \<and> pressed then wl_battery_low_enable e True s else s)
               else s)
      in process_record_keychron_wireless keycode pressed s)"

definition keychron_wireless_common_task :: "wireless \<Rightarrow> wireless" where
  "keychron_wireless_common_task s =
     (if pairing_key_timer s \<noteq> 0 \<and> timer_elapsed32 (now_of s) (pairing_key_timer s) > 2000
      then wireless_pairing_ex (bt_host_idx s) (s\<lparr>pairing_key_timer := 0\<rparr>) else s)"

section \<open>Choice of transport\<close>

text \<open>A packet of the module: the argument of its battery reading, and the packet when the module asks for attention.\<close>

type_synonym poll = "u32 option \<times> u8 list option"

definition module_task :: "poll \<Rightarrow> wireless \<Rightarrow> wireless option" where
  "module_task p s = map_option (\<lambda>r. s\<lparr>rad := r\<rparr>) (lkbt51_task (fst p) (snd p) (rad s))"

text \<open>Off: the test of the old transport comes after the new one is stored.\<close>

definition radio_transport_off :: "wl_env \<Rightarrow> transport \<Rightarrow> wireless \<Rightarrow> wireless" where
  "radio_transport_off e this s =
     (let s = on_indicator e (indicator_stop (w_backlit e)) s
      in if wireless_state s = WT_CONNECTED \<and> transport_now s = this then wireless_send e (HidKeyboard (replicate 8 0)) s else s)"

text \<open>On: the module is polled for 100 ms, here with the packets \<open>ps\<close>, and asked to connect.\<close>

definition radio_transport_on :: "poll list \<Rightarrow> u8 \<Rightarrow> wireless \<Rightarrow> wireless option" where
  "radio_transport_on ps host s =
     (let s = wireless_disconnect (s\<lparr>driver_wireless := True\<rparr>)
      in map_option (\<lambda>s. wireless_connect_ex host 0 (on_radio (radio_wait 100) s))
           (fold (\<lambda>p so. case so of None \<Rightarrow> None | Some s \<Rightarrow> module_task p s) ps (Some s)))"

definition usb_transport_off :: "wl_env \<Rightarrow> wireless \<Rightarrow> wireless" where
  "usb_transport_off e s = (if w_usb_active e then s\<lparr>usb_reports := usb_reports s @ [HidKeyboard (replicate 8 0)]\<rparr> else s)"

definition transport_changed :: "wl_env \<Rightarrow> wireless \<Rightarrow> wireless" where
  "transport_changed e s =
     (let s = on_indicator e indicator_init s
      in s\<lparr>led_updates := led_updates s @ [if driver_wireless s then wireless_keyboard_leds s else w_usb_leds e]\<rparr>)"

definition set_transport :: "wl_env \<Rightarrow> poll list \<Rightarrow> transport \<Rightarrow> wireless \<Rightarrow> wireless option" where
  "set_transport e ps new s =
     (if transport_now s = new then Some s
      else let s = (if transport_now s = TRANSPORT_USB \<or> wireless_state s = WT_CONNECTED then wl_clear_keyboard e s else s);
               s = s\<lparr>transport_now := new\<rparr>;
               finish = (\<lambda>s. transport_changed e (lpm_timer_reset e (usb_transport_off e s)))
        in case new of
             TRANSPORT_USB \<Rightarrow>
               Some (let s = radio_transport_off e TRANSPORT_BLUETOOTH (s\<lparr>driver_wireless := False\<rparr>);
                         s = radio_transport_off e TRANSPORT_P2P4 (on_radio (radio_wait 5) s)
                     in transport_changed e (lpm_timer_stop (wireless_disconnect s)))
           | TRANSPORT_BLUETOOTH \<Rightarrow>
               map_option finish (radio_transport_on ps 30 (on_radio (radio_wait 1) (radio_transport_off e TRANSPORT_P2P4 s)))
           | TRANSPORT_P2P4 \<Rightarrow>
               map_option finish (radio_transport_on ps 24 (on_radio (radio_wait 1) (radio_transport_off e TRANSPORT_BLUETOOTH s)))
           | TRANSPORT_NONE \<Rightarrow> Some s)"

text \<open>The mode switch: a change of the pins counts once it has lasted 100 ms.  The pins are read twice, here with the same
  result.\<close>

definition wireless_pre_task :: "wl_env \<Rightarrow> poll list \<Rightarrow> bool \<Rightarrow> bool \<Rightarrow> wireless \<Rightarrow> wireless option" where
  "wireless_pre_task e ps bt_pin p24g_pin s =
     (let pins = (if bt_pin then 2 else 0) OR (if p24g_pin then 1 else 0);
          s = (if dip_switch_time s = 0 \<and> pins \<noteq> dip_switch_state s then s\<lparr>dip_switch_state := pins, dip_switch_time := now_of s\<rparr> else s)
      in if dip_switch_time s \<noteq> 0 \<and> timer_elapsed32 (now_of s) (dip_switch_time s) > 100 \<or> transport_now s = TRANSPORT_NONE then
           (if pins = dip_switch_state s
            then set_transport e ps (if pins = 1 then TRANSPORT_BLUETOOTH else if pins = 2 then TRANSPORT_P2P4 else TRANSPORT_USB)
                   (s\<lparr>dip_switch_time := 0\<rparr>)
            else Some (s\<lparr>dip_switch_state := pins, dip_switch_time := now_of s\<rparr>))
         else Some s)"

section \<open>Sleep\<close>

text \<open>\<open>quiet\<close>: no key is down, the LED driver is off and low power is allowed.  The result says whether the controller slept.\<close>

definition lpm_task :: "wl_env \<Rightarrow> bool \<Rightarrow> wireless \<Rightarrow> bool \<times> wireless" where
  "lpm_task e quiet s =
     (let s = (if \<not> lpm_time_up s \<and> timer_elapsed32 (now_of s) (lpm_timer_buffer s) > lpm_reset_time s
               then s\<lparr>lpm_time_up := True, lpm_timer_buffer := 0\<rparr> else s)
      in if w_usb_power e \<or> \<not> is_wireless (transport_now s) then (False, s)
         else if \<not> (lpm_time_up s \<and> \<not> indicator_is_running (ind s)) \<or> \<not> quiet then (False, s)
         else (let s = lpm_timer_reset e s in (True, on_reports (report_buffer_init (now_of s)) s)))"

section \<open>The task\<close>

definition wireless_task :: "wl_env \<Rightarrow> poll \<Rightarrow> bool \<Rightarrow> wireless \<Rightarrow> wireless option" where
  "wireless_task e p quiet s =
     (case module_task p s of None \<Rightarrow> None
      | Some s \<Rightarrow>
        (case wireless_event_task e s of None \<Rightarrow> None
         | Some s \<Rightarrow>
             (let s = wl_report_task e s;
                  s = on_indicator e (indicator_task (now_of s) (w_allow_shutdown e)) s;
                  s = wl_battery_task e (keychron_wireless_common_task s)
              in Some (snd (lpm_task e quiet s)))))"

definition wireless_init :: "wl_env \<Rightarrow> wireless \<Rightarrow> wireless" where
  "wireless_init e s =
     (let s = on_reports (report_buffer_init (now_of s)) (set_evq wireless_event_queue_init (s\<lparr>wireless_state := WT_INITIALIZED\<rparr>))
      in wireless_config_load (lpm_timer_reset e (on_indicator e indicator_init s)))"

definition send_string_task :: "wl_env \<Rightarrow> poll \<Rightarrow> wireless \<Rightarrow> wireless option" where
  "send_string_task e p s =
     (if is_wireless (transport_now s) \<and> wireless_state s = WT_CONNECTED then map_option (wl_report_task e) (module_task p s) else Some s)"

definition wireless_start :: wireless where
  "wireless_start = \<lparr>rad = radio_start, ind = indicator_start, wireless_state = WT_RESET, host_index = 0, led_state = 0,
     pincode_entry = False, report_protocol = True, backlit_disable_time = CONNECTED_BACKLIGHT_DISABLE_TIMEOUT,
     connected_idle_time = CONNECTED_IDLE_TIME, keymap_nkro = False, transport_now = TRANSPORT_NONE, driver_wireless = False, lpm_timer_buffer = 0,
     lpm_time_up = False, lpm_reset_time = 3000, pairing_key_timer = 0, bt_host_idx = 0, first_disconnect = True,
     dip_switch_state = 0, dip_switch_time = 0, wl_eeprom = (0, 0), led_updates = [], usb_reports = []\<rparr>"

section \<open>The events of one task are handled once, in order\<close>

text \<open>Nothing the handlers do looks at the event queue or writes it.\<close>

lemma radio_evq [simp]:
  "lkbt51_send_cmd p a g (r\<lparr>evq := q\<rparr>) = (lkbt51_send_cmd p a g r)\<lparr>evq := q\<rparr>"
  "radio_wait d (r\<lparr>evq := q\<rparr>) = (radio_wait d r)\<lparr>evq := q\<rparr>"
  "lkbt51_wake (r\<lparr>evq := q\<rparr>) = (lkbt51_wake r)\<lparr>evq := q\<rparr>"
  "comm_started (r\<lparr>evq := q\<rparr>) = (comm_started r)\<lparr>evq := q\<rparr>"
  by (simp_all add: lkbt51_send_cmd_def radio_wait_def lkbt51_wake_def comm_started_def Let_def)

lemma command_evq [simp]:
  "lkbt51_send_keyboard b (r\<lparr>evq := q\<rparr>) = (lkbt51_send_keyboard b r)\<lparr>evq := q\<rparr>"
  "lkbt51_send_nkro b (r\<lparr>evq := q\<rparr>) = (lkbt51_send_nkro b r)\<lparr>evq := q\<rparr>"
  "lkbt51_send_consumer c (r\<lparr>evq := q\<rparr>) = (lkbt51_send_consumer c r)\<lparr>evq := q\<rparr>"
  "lkbt51_send_system c (r\<lparr>evq := q\<rparr>) = (lkbt51_send_system c r)\<lparr>evq := q\<rparr>"
  "lkbt51_send_mouse b (r\<lparr>evq := q\<rparr>) = (lkbt51_send_mouse b r)\<lparr>evq := q\<rparr>"
  "lkbt51_send_joysticks b (r\<lparr>evq := q\<rparr>) = (lkbt51_send_joysticks b r)\<lparr>evq := q\<rparr>"
  "lkbt51_send_xinput b (r\<lparr>evq := q\<rparr>) = (lkbt51_send_xinput b r)\<lparr>evq := q\<rparr>"
  "lkbt51_send_raw_hid b (r\<lparr>evq := q\<rparr>) = (lkbt51_send_raw_hid b r)\<lparr>evq := q\<rparr>"
  "lkbt51_become_discoverable h (r\<lparr>evq := q\<rparr>) = (lkbt51_become_discoverable h r)\<lparr>evq := q\<rparr>"
  "lkbt51_connect h t (r\<lparr>evq := q\<rparr>) = (lkbt51_connect h t r)\<lparr>evq := q\<rparr>"
  "lkbt51_disconnect (r\<lparr>evq := q\<rparr>) = (lkbt51_disconnect r)\<lparr>evq := q\<rparr>"
  "lkbt51_update_bat_lvl h (r\<lparr>evq := q\<rparr>) = (lkbt51_update_bat_lvl h r)\<lparr>evq := q\<rparr>"
  "lkbt51_read_state_reg h k (r\<lparr>evq := q\<rparr>) = (lkbt51_read_state_reg h k r)\<lparr>evq := q\<rparr>"
  "lkbt51_set_local_name b (r\<lparr>evq := q\<rparr>) = (lkbt51_set_local_name b r)\<lparr>evq := q\<rparr>"
  "lkbt51_set_param b (r\<lparr>evq := q\<rparr>) = (lkbt51_set_param b r)\<lparr>evq := q\<rparr>"
  by (simp_all add: lkbt51_send_keyboard_def lkbt51_send_nkro_def lkbt51_send_consumer_def lkbt51_send_system_def lkbt51_send_mouse_def lkbt51_send_joysticks_def lkbt51_send_xinput_def lkbt51_send_raw_hid_def lkbt51_become_discoverable_def lkbt51_connect_def lkbt51_disconnect_def lkbt51_update_bat_lvl_def lkbt51_read_state_reg_def lkbt51_set_local_name_def lkbt51_set_param_def Let_def)

lemma transmit_evq [simp]: "transmit p (r\<lparr>evq := q\<rparr>) = (transmit p r)\<lparr>evq := q\<rparr>"
  by (simp add: transmit_def split: report.split)

lemma transmits_evq [simp]: "fold transmit ps (r\<lparr>evq := q\<rparr>) = (fold transmit ps r)\<lparr>evq := q\<rparr>"
  by (induction ps arbitrary: r) simp_all

lemma evq_fields [simp]:
  "rad (set_evq q s) = (rad s)\<lparr>evq := q\<rparr>"
  "ind (set_evq q s) = ind s"
  "wireless_state (set_evq q s) = wireless_state s"
  "host_index (set_evq q s) = host_index s"
  "led_state (set_evq q s) = led_state s"
  "pincode_entry (set_evq q s) = pincode_entry s"
  "report_protocol (set_evq q s) = report_protocol s"
  "backlit_disable_time (set_evq q s) = backlit_disable_time s"
  "connected_idle_time (set_evq q s) = connected_idle_time s"
  "keymap_nkro (set_evq q s) = keymap_nkro s"
  "transport_now (set_evq q s) = transport_now s"
  "driver_wireless (set_evq q s) = driver_wireless s"
  "lpm_timer_buffer (set_evq q s) = lpm_timer_buffer s"
  "lpm_time_up (set_evq q s) = lpm_time_up s"
  "lpm_reset_time (set_evq q s) = lpm_reset_time s"
  "pairing_key_timer (set_evq q s) = pairing_key_timer s"
  "bt_host_idx (set_evq q s) = bt_host_idx s"
  "first_disconnect (set_evq q s) = first_disconnect s"
  "dip_switch_state (set_evq q s) = dip_switch_state s"
  "dip_switch_time (set_evq q s) = dip_switch_time s"
  "wl_eeprom (set_evq q s) = wl_eeprom s"
  "led_updates (set_evq q s) = led_updates s"
  "usb_reports (set_evq q s) = usb_reports s"
  "now_of (set_evq q s) = now_of s" "critical (set_evq q s) = critical s" "linked (set_evq q s) = linked s"
  by (simp_all add: set_evq_def on_radio_def now_of_def critical_def linked_def)

lemma evq_updates [simp]:
  "(set_evq q s)\<lparr>ind := x0\<rparr> = set_evq q (s\<lparr>ind := x0\<rparr>)"
  "(set_evq q s)\<lparr>wireless_state := x1\<rparr> = set_evq q (s\<lparr>wireless_state := x1\<rparr>)"
  "(set_evq q s)\<lparr>host_index := x2\<rparr> = set_evq q (s\<lparr>host_index := x2\<rparr>)"
  "(set_evq q s)\<lparr>led_state := x3\<rparr> = set_evq q (s\<lparr>led_state := x3\<rparr>)"
  "(set_evq q s)\<lparr>pincode_entry := x4\<rparr> = set_evq q (s\<lparr>pincode_entry := x4\<rparr>)"
  "(set_evq q s)\<lparr>report_protocol := x5\<rparr> = set_evq q (s\<lparr>report_protocol := x5\<rparr>)"
  "(set_evq q s)\<lparr>backlit_disable_time := x6\<rparr> = set_evq q (s\<lparr>backlit_disable_time := x6\<rparr>)"
  "(set_evq q s)\<lparr>connected_idle_time := x7\<rparr> = set_evq q (s\<lparr>connected_idle_time := x7\<rparr>)"
  "(set_evq q s)\<lparr>keymap_nkro := x8\<rparr> = set_evq q (s\<lparr>keymap_nkro := x8\<rparr>)"
  "(set_evq q s)\<lparr>transport_now := x9\<rparr> = set_evq q (s\<lparr>transport_now := x9\<rparr>)"
  "(set_evq q s)\<lparr>driver_wireless := x10\<rparr> = set_evq q (s\<lparr>driver_wireless := x10\<rparr>)"
  "(set_evq q s)\<lparr>lpm_timer_buffer := x11\<rparr> = set_evq q (s\<lparr>lpm_timer_buffer := x11\<rparr>)"
  "(set_evq q s)\<lparr>lpm_time_up := x12\<rparr> = set_evq q (s\<lparr>lpm_time_up := x12\<rparr>)"
  "(set_evq q s)\<lparr>lpm_reset_time := x13\<rparr> = set_evq q (s\<lparr>lpm_reset_time := x13\<rparr>)"
  "(set_evq q s)\<lparr>pairing_key_timer := x14\<rparr> = set_evq q (s\<lparr>pairing_key_timer := x14\<rparr>)"
  "(set_evq q s)\<lparr>bt_host_idx := x15\<rparr> = set_evq q (s\<lparr>bt_host_idx := x15\<rparr>)"
  "(set_evq q s)\<lparr>first_disconnect := x16\<rparr> = set_evq q (s\<lparr>first_disconnect := x16\<rparr>)"
  "(set_evq q s)\<lparr>dip_switch_state := x17\<rparr> = set_evq q (s\<lparr>dip_switch_state := x17\<rparr>)"
  "(set_evq q s)\<lparr>dip_switch_time := x18\<rparr> = set_evq q (s\<lparr>dip_switch_time := x18\<rparr>)"
  "(set_evq q s)\<lparr>wl_eeprom := x19\<rparr> = set_evq q (s\<lparr>wl_eeprom := x19\<rparr>)"
  "(set_evq q s)\<lparr>led_updates := x20\<rparr> = set_evq q (s\<lparr>led_updates := x20\<rparr>)"
  "(set_evq q s)\<lparr>usb_reports := x21\<rparr> = set_evq q (s\<lparr>usb_reports := x21\<rparr>)"
  by (simp_all add: set_evq_def on_radio_def)

lemma on_radio_evq [simp]: "(\<And>r. f (r\<lparr>evq := q\<rparr>) = (f r)\<lparr>evq := q\<rparr>) \<Longrightarrow> on_radio f (set_evq q s) = set_evq q (on_radio f s)"
  by (simp add: set_evq_def on_radio_def)

lemma if_evq [simp]: "(if b then set_evq q s else set_evq q t) = set_evq q (if b then s else t)"
  by simp

lemma on_reports_evq [simp]: "on_reports f (set_evq q s) = set_evq q (on_reports f s)"
  by (simp add: on_reports_def)

lemma lpm_evq [simp]: "lpm_timer_reset e (set_evq q s) = set_evq q (lpm_timer_reset e s)"
  by (simp add: lpm_timer_reset_def)

lemma indicator_evq [simp]:
  "on_indicator e f (set_evq q s) = set_evq q (on_indicator e f s)" "ind_env_of e (set_evq q s) = ind_env_of e s"
  "wl_indicator_set e w h (set_evq q s) = set_evq q (wl_indicator_set e w h s)"
  "wl_battery_low_enable e b (set_evq q s) = set_evq q (wl_battery_low_enable e b s)"
  "wl_backlit_timeout e t (set_evq q s) = set_evq q (wl_backlit_timeout e t s)"
  by (simp_all add: on_indicator_def ind_env_of_def wl_indicator_set_def wl_battery_low_enable_def wl_backlit_timeout_def Let_def)

lemma wl_indicator_evq' [simp]:
  "on_indicator e (f (set_evq q s)) t = on_indicator e (f s) t" if "f (set_evq q s) = f s"
  using that by simp

lemma connect_evq [simp]:
  "wireless_connect e (set_evq q s) = set_evq q (wireless_connect e s)" "or_connect e (set_evq q s) = set_evq q (or_connect e s)"
  by (simp_all add: wireless_connect_def or_connect_def Let_def)

lemma report_task_evq [simp]: "wl_report_task e (set_evq q s) = set_evq q (wl_report_task e s)"
  by (simp add: wl_report_task_def Let_def case_prod_beta)

lemma queue_report_evq [simp]: "queue_report e r (set_evq q s) = set_evq q (queue_report e r s)"
  by (simp add: queue_report_def Let_def)

lemma send_evq [simp]: "wireless_send e h (set_evq q s) = set_evq q (wireless_send e h s)"
  by (cases h) (simp_all add: wireless_send_def wireless_send_keys_def wireless_send_now_def wireless_send_extra_def
      wireless_send_system_def wireless_send_consumer_def)

lemma host_send_evq [simp]: "host_send e h (set_evq q s) = set_evq q (host_send e h s)"
  by (simp add: host_send_def)

lemma clear_keyboard_evq [simp]: "wl_clear_keyboard e (set_evq q s) = set_evq q (wl_clear_keyboard e s)"
proof -
  have "fold (host_send e) hs (set_evq q s) = set_evq q (fold (host_send e) hs s)" for hs
    by (induction hs arbitrary: s) simp_all
  then show ?thesis by (simp add: wl_clear_keyboard_def)
qed

lemma param_init_evq [simp]: "lkbt51_param_init e (set_evq q s) = set_evq q (lkbt51_param_init e s)"
  by (simp add: lkbt51_param_init_def)

lemma clear_leds_evq [simp]: "clear_leds (set_evq q s) = set_evq q (clear_leds s)"
  by (simp add: clear_leds_def Let_def)

lemma disconnected_kb_evq [simp]: "disconnected_kb e (set_evq q s) = set_evq q (disconnected_kb e s)"
  by (simp add: disconnected_kb_def Let_def)

lemma enter_evq [simp]:
  "wireless_enter_reset e (set_evq q s) = set_evq q (wireless_enter_reset e s)"
  "wireless_enter_discoverable e h (set_evq q s) = set_evq q (wireless_enter_discoverable e h s)"
  "wireless_enter_reconnecting e h (set_evq q s) = set_evq q (wireless_enter_reconnecting e h s)"
  "wireless_enter_connected e h (set_evq q s) = set_evq q (wireless_enter_connected e h s)"
  "wireless_enter_disconnected e h k (set_evq q s) = set_evq q (wireless_enter_disconnected e h k s)"
  "wireless_enter_bluetooth_pin_code_entry (set_evq q s) = set_evq q (wireless_enter_bluetooth_pin_code_entry s)"
  "wireless_exit_bluetooth_pin_code_entry e (set_evq q s) = set_evq q (wireless_exit_bluetooth_pin_code_entry e s)"
  "wireless_enter_sleep e (set_evq q s) = set_evq q (wireless_enter_sleep e s)"
  by (simp_all add: wireless_enter_reset_def wireless_enter_discoverable_def wireless_enter_reconnecting_def
      wireless_enter_connected_def wireless_enter_disconnected_def wireless_enter_bluetooth_pin_code_entry_def
      wireless_exit_bluetooth_pin_code_entry_def wireless_enter_sleep_def Let_def cong: if_cong split del: if_split)

lemma handle_event_evq [simp]: "wireless_handle_event e ev (set_evq q s) = set_evq q (wireless_handle_event e ev s)"
  by (simp add: wireless_handle_event_def split: event_type.split)

lemma set_evq_twice [simp]: "set_evq p (set_evq q s) = set_evq p s" "set_evq (evq (rad s)) s = s"
  by (simp_all add: set_evq_def on_radio_def)

text \<open>C27. The event loop, which has no bound of its own, always ends: it handles the events that
  wait, each once and in the order of their arrival, and leaves none.\<close>

theorem events_handled_in_order:
  assumes "event_queue_ok (evq (rad s))"
  shows "\<exists>q. event_queue_ok q \<and> queued_events q = [] \<and>
    wireless_event_task e s = Some (set_evq q (fold (wireless_handle_event e) (queued_events (evq (rad s))) s))"
proof -
  have "\<exists>q'. event_queue_ok q' \<and> queued_events q' = [] \<and>
      wireless_event_task e (set_evq q s) = Some (set_evq q' (fold (wireless_handle_event e) evs s))"
    if "event_queue_ok q" "queued_events q = evs" for evs q s
    using that
  proof (induction evs arbitrary: q s)
    case Nil
    then have "wireless_event_dequeue q = (None, q)" using events.deq_empty [of q] by simp
    then show ?case using Nil by (intro exI [of _ q]) (simp add: wireless_event_task.simps)
  next
    case (Cons ev evs)
    obtain q2 where "wireless_event_dequeue q = (Some ev, q2)" "event_queue_ok q2" "queued_events q2 = evs"
      using events.deq_first [of q ev evs] events.inv_deq [of q] Cons.prems by (cases "wireless_event_dequeue q") auto
    then show ?case using Cons.IH [of q2 "wireless_handle_event e ev s"]
      by (subst wireless_event_task.simps) simp
  qed
  from this [of "evq (rad s)" "queued_events (evq (rad s))" s] assms show ?thesis by simp
qed

definition plain_env :: wl_env where
  "plain_env = \<lparr>w_rtc = 9000, w_backlit = False, w_allow_shutdown = True, w_usb_power = False, w_usb_active = False, w_usb_leds = 0,
     w_cleared = [HidKeyboard (replicate 8 0)], w_wiggle = [HidMouse [2, 0, 1, 0, 0, 0]], w_stored_nkro = True,
     w_product = [75, 56], w_vendor_id = 0x3434, w_product_id = 0x0A80, w_analog = False, w_nkro = True\<rparr>"

definition event_for :: "event_type \<Rightarrow> u8 \<Rightarrow> wireless_event" where
  "event_for t p = no_wireless_event\<lparr>evt_type := t, evt_param := p\<rparr>"

lemma events_handled_in_order_witness:
  "let q0 = wireless_event_enqueue (event_for EVT_HID_INDICATOR 2) (wireless_event_enqueue (event_for EVT_CONNECTED 1) wireless_event_queue_init);
       s = set_evq q0 wireless_start
   in \<exists>q. event_queue_ok q \<and> queued_events q = [] \<and>
        wireless_event_task plain_env s = Some (set_evq q (fold (wireless_handle_event plain_env) (queued_events (evq (rad s))) s))"
proof -
  have "event_queue_ok (wireless_event_enqueue (event_for EVT_HID_INDICATOR 2) (wireless_event_enqueue (event_for EVT_CONNECTED 1) wireless_event_queue_init))"
    using enqueue_events event_queue_init by simp
  then show ?thesis
    using events_handled_in_order [of "set_evq (wireless_event_enqueue (event_for EVT_HID_INDICATOR 2)
      (wireless_event_enqueue (event_for EVT_CONNECTED 1) wireless_event_queue_init)) wireless_start" plain_env] by simp
qed

section \<open>Reports wait for the link\<close>

text \<open>The bytes of a command.\<close>

definition command :: "bool \<Rightarrow> u8 \<Rightarrow> u8 list \<Rightarrow> u8 list" where
  "command ack m p = [0x84, 0x7E, 0, 0] @ frame (if ack then 0x56 else 0x55) m p"

lemma send_cmd_command: "\<exists>m. m \<noteq> 0 \<and> spi_sent (lkbt51_send_cmd p a again r) = spi_sent r @ [command a m p]"
  using send_cmd_sent [of p a again r] by (simp add: command_def)

lemma radio_frame [simp]:
  "rq (lkbt51_send_cmd p a again r) = rq r" "bat (lkbt51_send_cmd p a again r) = bat r" "radio_clock (lkbt51_send_cmd p a again r) = radio_clock r"
  "rq (comm_started r) = rq r" "bat (comm_started r) = bat r" "spi_sent (comm_started r) = spi_sent r" "radio_clock (comm_started r) = radio_clock r"
  "rq (lkbt51_wake r) = rq r" "bat (lkbt51_wake r) = bat r"
  "rq (radio_wait d r) = rq r" "bat (radio_wait d r) = bat r" "spi_sent (radio_wait d r) = spi_sent r"
  by (simp_all add: lkbt51_send_cmd_def comm_started_def lkbt51_wake_def radio_wait_def Let_def)

lemma indicator_rad [simp]: "rad (on_indicator e f s) = rad s" "rad (wl_indicator_set e w h s) = rad s"
  "rad (wl_battery_low_enable e b s) = rad s" "rad (wl_backlit_timeout e t s) = rad s" "rad (lpm_timer_reset e s) = rad s"
  by (simp_all add: on_indicator_def wl_indicator_set_def wl_battery_low_enable_def wl_backlit_timeout_def lpm_timer_reset_def Let_def)

lemma or_connect_sends:
  "rq (rad (or_connect e s)) = rq (rad s) \<and>
   (spi_sent (rad (or_connect e s)) = spi_sent (rad s) \<or> (\<exists>m. spi_sent (rad (or_connect e s)) = spi_sent (rad s) @ [command True m [0x22, 0, 0, 0]]))"
proof -
  have zero: "lo8 0 = 0" "hi8 0 = 0" by (simp_all add: lo8_def hi8_def)
  have "\<exists>m. spi_sent (lkbt51_connect 0 0 r) = spi_sent r @ [command True m [0x22, 0, 0, 0]]" for r
    using send_cmd_command [of "[0x22, 0, 0, 0]" True False "lkbt51_wake r"] by (auto simp: lkbt51_connect_def zero)
  then show ?thesis by (auto simp: or_connect_def wireless_connect_def on_radio_def lkbt51_connect_def Let_def)
qed



text \<open>A keyboard report waits for the end of pairing, a mouse report ends it.\<close>

lemma mouse_ends_pairing:
  assumes "wireless_state s = WT_PARING" and "\<not> critical s" and "now_of s \<noteq> 0"
  shows "wireless_state (wireless_send e (HidMouse b) s) = WT_RECONNECTING"
    and "\<not> pincode_entry s \<Longrightarrow> wireless_send e (HidKeyboard b) s = s"
  using assms by (simp_all add: wireless_send_def wireless_send_now_def wireless_send_keys_def or_connect_def wireless_connect_def on_radio_def Let_def)

section \<open>The shutdown releases everything\<close>

lemma critical_send: "critical s \<Longrightarrow> wireless_send e h s = s"
  by (cases h) (simp_all add: wireless_send_def wireless_send_keys_def wireless_send_now_def wireless_send_extra_def)

lemma critical_clear:
  assumes "critical s"
  shows "rad (wl_clear_keyboard e s) = rad s" "keymap_nkro (wl_clear_keyboard e s) = keymap_nkro s"
proof -
  have "rad (fold (host_send e) hs s) = rad s \<and> keymap_nkro (fold (host_send e) hs s) = keymap_nkro s" for hs
    using assms
  proof (induction hs arbitrary: s)
    case (Cons h hs)
    have "critical (host_send e h s)" "rad (host_send e h s) = rad s" "keymap_nkro (host_send e h s) = keymap_nkro s"
      using Cons.prems by (simp_all add: host_send_def critical_send critical_def)
    then show ?case using Cons.IH by simp
  qed simp
  then show "rad (wl_clear_keyboard e s) = rad s" "keymap_nkro (wl_clear_keyboard e s) = keymap_nkro s" by (simp_all add: wl_clear_keyboard_def)
qed

lemma indicator_keeps [simp]:
  "wireless_state (on_indicator e f s) = wireless_state s" "keymap_nkro (on_indicator e f s) = keymap_nkro s"
  "pincode_entry (on_indicator e f s) = pincode_entry s" "first_disconnect (on_indicator e f s) = first_disconnect s"
  "transport_now (on_indicator e f s) = transport_now s" "wl_eeprom (on_indicator e f s) = wl_eeprom s"
  "backlit_disable_time (on_indicator e f s) = backlit_disable_time s" "connected_idle_time (on_indicator e f s) = connected_idle_time s"
  by (simp_all add: on_indicator_def lpm_timer_reset_def Let_def)

lemmas release_frames =
  send_cmd_command [of "0x11 # replicate 8 0" True False] send_cmd_command [of "0x12 # replicate 20 0" True False]
  send_cmd_command [of "[0x13, 0, 0, 0, 0, 0, 0]" True False] send_cmd_command [of "[0x16, 0, 0, 0, 0, 0, 0, 0]" False False]
  send_cmd_command [of "[0x23, 0]" True False]

lemma released:
  "\<exists>m. spi_sent (lkbt51_send_keyboard (replicate 8 0) r) = spi_sent r @ [command True m (0x11 # replicate 8 0)]"
  "\<exists>m. spi_sent (lkbt51_send_nkro (replicate 31 0) r) = spi_sent r @ [command True m (0x12 # replicate 20 0)]"
  "\<exists>m. spi_sent (lkbt51_send_consumer 0 r) = spi_sent r @ [command True m [0x13, 0, 0, 0, 0, 0, 0]]"
  "\<exists>m. spi_sent (lkbt51_send_mouse (replicate 6 0) r) = spi_sent r @ [command False m [0x16, 0, 0, 0, 0, 0, 0, 0]]"
  "\<exists>m. spi_sent (lkbt51_disconnect r) = spi_sent r @ [command True m [0x23, 0]]"
proof -
  have z: "lo8 0 = 0" "hi8 0 = 0" "sign_byte 0 = 0" by (simp_all add: lo8_def hi8_def sign_byte_def)
  have n: "take 20 (replicate 31 (0 :: u8)) = replicate 20 0" by simp
  have w: "spi_sent (radio_wait 100 r) = spi_sent r" by simp
  show "\<exists>m. spi_sent (lkbt51_send_keyboard (replicate 8 0) r) = spi_sent r @ [command True m (0x11 # replicate 8 0)]"
    "\<exists>m. spi_sent (lkbt51_send_nkro (replicate 31 0) r) = spi_sent r @ [command True m (0x12 # replicate 20 0)]"
    "\<exists>m. spi_sent (lkbt51_send_consumer 0 r) = spi_sent r @ [command True m [0x13, 0, 0, 0, 0, 0, 0]]"
    using release_frames(1-3) [of r] by (auto simp: lkbt51_send_keyboard_def lkbt51_send_nkro_def lkbt51_send_consumer_def z)
  show "\<exists>m. spi_sent (lkbt51_send_mouse (replicate 6 0) r) = spi_sent r @ [command False m [0x16, 0, 0, 0, 0, 0, 0, 0]]"
    using release_frames(4) [of r] by (auto simp: lkbt51_send_mouse_def z)
  show "\<exists>m. spi_sent (lkbt51_disconnect r) = spi_sent r @ [command True m [0x23, 0]]"
    using release_frames(5) [of "radio_wait 100 r"] w by (auto simp: lkbt51_disconnect_def)
qed

text \<open>C29. The low battery shutdown sends, in this order and nothing else, an empty keyboard report of
  the kind in use, an empty consumer report, an empty mouse report and the disconnection.\<close>

theorem shutdown_releases_all:
  assumes "critical s"
  shows "\<exists>k c m d. spi_sent (rad (wireless_low_battery_shutdown e s)) = spi_sent (rad s) @
    [command True k (if keymap_nkro s then 0x12 # replicate 20 0 else 0x11 # replicate 8 0),
     command True c [0x13, 0, 0, 0, 0, 0, 0], command False m [0x16, 0, 0, 0, 0, 0, 0, 0], command True d [0x23, 0]]"
proof -
  let ?r = "\<lambda>t. if keymap_nkro s then lkbt51_send_nkro (replicate 31 0) t else lkbt51_send_keyboard (replicate 8 0) t"
  have crit: "critical (on_reports f (wl_battery_low_enable e False s))" for f
    using assms by (simp add: critical_def on_reports_def on_radio_def)
  let ?r1 = "radio_wait 50 (rad (on_reports (report_buffer_init (now_of (wl_battery_low_enable e False s))) (wl_battery_low_enable e False s)))"
  let ?r3 = "lkbt51_send_consumer 0 (radio_wait 10 (?r ?r1))"
  let ?r4 = "lkbt51_send_mouse (replicate 6 0) (radio_wait 10 ?r3)"
  have shut: "rad (wireless_low_battery_shutdown e s) = lkbt51_disconnect (radio_wait 300 ?r4)"
    using critical_clear [OF crit]
    by (simp add: wireless_low_battery_shutdown_def wireless_disconnect_def on_radio_def wl_battery_low_enable_def on_reports_def Let_def)
  have start: "spi_sent ?r1 = spi_sent (rad s)" by (simp add: on_reports_def on_radio_def)
  obtain k where k: "spi_sent (?r ?r1) = spi_sent (rad s) @ [command True k (if keymap_nkro s then 0x12 # replicate 20 0 else 0x11 # replicate 8 0)]"
    using released(1,2) [of ?r1] start by (cases "keymap_nkro s") auto
  obtain c where c: "spi_sent ?r3 = spi_sent (?r ?r1) @ [command True c [0x13, 0, 0, 0, 0, 0, 0]]"
    using released(3) [of "radio_wait 10 (?r ?r1)"] by (auto simp del: if_split)
  obtain m where m: "spi_sent ?r4 = spi_sent ?r3 @ [command False m [0x16, 0, 0, 0, 0, 0, 0, 0]]"
    using released(4) [of "radio_wait 10 ?r3"] by (auto simp del: if_split)
  obtain d where d: "spi_sent (lkbt51_disconnect (radio_wait 300 ?r4)) = spi_sent ?r4 @ [command True d [0x23, 0]]"
    using released(5) [of "radio_wait 300 ?r4"] by (auto simp del: if_split)
  show ?thesis unfolding shut d m c k by (intro exI) simp
qed

lemma shutdown_releases_all_witness:
  "\<exists>k c m d. spi_sent (rad (wireless_low_battery_shutdown plain_env (wireless_start\<lparr>rad := radio_start\<lparr>bat := battery_start\<lparr>critical_low := 21\<rparr>\<rparr>\<rparr>))) =
    [command True k (0x11 # replicate 8 0), command True c [0x13, 0, 0, 0, 0, 0, 0], command False m [0x16, 0, 0, 0, 0, 0, 0, 0],
     command True d [0x23, 0]]"
proof -
  let ?s = "wireless_start\<lparr>rad := radio_start\<lparr>bat := battery_start\<lparr>critical_low := 21\<rparr>\<rparr>\<rparr>"
  have "critical ?s" by (simp add: critical_def battery_is_critical_low_def)
  then show ?thesis using shutdown_releases_all [of ?s plain_env] by (simp add: radio_start_def wireless_start_def)
qed

end
