(* ===== verification/Connection.thy ===== *)
theory Connection
  imports Wireless
begin

text \<open>
  The life of a wireless connection: the steps the operations of \<open>Wireless\<close> make from one connection state to another, what
  the module's events do to it, the settings kept across a restart, and pairing by holding a host key.
\<close>

section \<open>Steps\<close>

datatype wl_label = Event wireless_event | Other

text \<open>Everything that runs between two polls of the module, one operation at a time.\<close>

inductive wl_step :: "wl_env \<Rightarrow> wl_label \<Rightarrow> wireless \<Rightarrow> wireless \<Rightarrow> bool" for e where
  "wl_step e (Event ev) s (wireless_handle_event e ev (set_evq q s))"
| "module_task p s = Some t \<Longrightarrow> wl_step e Other s t"
| "wl_step e Other s (host_send e h s)"
| "wl_step e Other s (process_record_wireless e k b s)"
| "wl_step e Other s (wl_report_task e s)"
| "wl_step e Other s (on_indicator e f s)"
| "wl_step e Other s (keychron_wireless_common_task s)"
| "wl_step e Other s (wl_battery_task e s)"
| "wl_step e Other s (snd (lpm_task e quiet s))"
| "wl_step e Other s (snd (wireless_raw_hid_rx e data s))"
| "wireless_pre_task e ps bt p24 s = Some t \<Longrightarrow> wl_step e Other s t"

inductive_cases event_stepE: "wl_step e (Event ev) s t"
inductive_cases other_stepE: "wl_step e Other s t"

inductive wl_run :: "wl_env \<Rightarrow> wl_label list \<Rightarrow> wireless \<Rightarrow> wireless \<Rightarrow> bool" for e where
  run_start: "wl_run e [] s s"
| run_step: "wl_run e ls s t \<Longrightarrow> wl_step e l t u \<Longrightarrow> wl_run e (ls @ [l]) s u"

section \<open>The connection state of each operation\<close>

text \<open>An operation that does not connect.\<close>

definition no_connect :: "wireless \<Rightarrow> wireless \<Rightarrow> bool" where
  "no_connect s t \<longleftrightarrow> (wireless_state t = WT_CONNECTED \<longrightarrow> wireless_state s = WT_CONNECTED)"

lemma no_connect_refl [simp]: "no_connect s s"
  by (simp add: no_connect_def)

lemma no_connect_trans: "no_connect s t \<Longrightarrow> no_connect t u \<Longrightarrow> no_connect s u"
  by (auto simp: no_connect_def)

lemma no_connect_same: "wireless_state t = wireless_state s \<Longrightarrow> no_connect s t"
  by (simp add: no_connect_def)

lemma no_connect_other: "wireless_state t \<noteq> WT_CONNECTED \<Longrightarrow> no_connect s t"
  by (simp add: no_connect_def)

lemma state_simps [simp]:
  "wireless_state (on_radio f s) = wireless_state s" "wireless_state (on_reports g s) = wireless_state s"
  "wireless_state (lpm_timer_reset e s) = wireless_state s" "wireless_state (lpm_timer_stop s) = wireless_state s"
  "wireless_state (wl_indicator_set e w h s) = wireless_state s" "wireless_state (wl_battery_low_enable e b s) = wireless_state s"
  "wireless_state (wl_backlit_timeout e t s) = wireless_state s" "wireless_state (lkbt51_param_init e s) = wireless_state s"
  "wireless_state (clear_leds s) = wireless_state s" "wireless_state (wireless_disconnect s) = wireless_state s"
  by (simp_all add: on_radio_def on_reports_def lpm_timer_reset_def lpm_timer_stop_def wl_indicator_set_def wl_battery_low_enable_def
      wl_backlit_timeout_def lkbt51_param_init_def clear_leds_def wireless_disconnect_def Let_def)

lemma state_report_task [simp]: "wireless_state (wl_report_task e s) = wireless_state s" "wireless_state (queue_report e r s) = wireless_state s"
proof -
  have "wireless_state (wl_report_task e u) = wireless_state u" for u by (simp add: wl_report_task_def Let_def case_prod_beta)
  then show "wireless_state (wl_report_task e s) = wireless_state s" "wireless_state (queue_report e r s) = wireless_state s"
    by (simp_all add: queue_report_def Let_def)
qed

lemma state_connect: "wireless_state (or_connect e s) \<in> {wireless_state s, WT_RECONNECTING}" "wireless_state (wireless_connect e s) \<in> {wireless_state s, WT_RECONNECTING}"
  by (simp_all add: or_connect_def wireless_connect_def Let_def)

lemma state_send: "wireless_state (wireless_send e h s) \<in> {wireless_state s, WT_RECONNECTING}"
  using state_connect(1) [of e s]
  by (cases h) (auto simp: wireless_send_def wireless_send_keys_def wireless_send_now_def wireless_send_extra_def wireless_send_system_def
      wireless_send_consumer_def)

lemma state_connected_send: "wireless_state s = WT_CONNECTED \<Longrightarrow> wireless_state (wireless_send e h s) = WT_CONNECTED"
  by (cases h) (auto simp: wireless_send_def wireless_send_keys_def wireless_send_now_def wireless_send_extra_def wireless_send_system_def
      wireless_send_consumer_def linked_def)

lemma send_no_connect: "no_connect s (wireless_send e h s)" "no_connect s (host_send e h s)"
  using state_send [of e h s] by (auto simp: no_connect_def host_send_def)

lemma fold_no_connect:
  assumes "\<And>x s. no_connect s (f x s)"
  shows "no_connect s (fold f xs s)"
  using assms by (induction xs arbitrary: s) (auto intro: no_connect_trans)

lemma clear_no_connect: "no_connect s (wl_clear_keyboard e s)"
  unfolding wl_clear_keyboard_def by (rule fold_no_connect) (rule send_no_connect)

lemma clear_connected: "wireless_state s = WT_CONNECTED \<Longrightarrow> wireless_state (wl_clear_keyboard e s) = WT_CONNECTED"
proof -
  have "wireless_state s = WT_CONNECTED \<Longrightarrow> wireless_state (fold (host_send e) hs s) = WT_CONNECTED" for hs
    by (induction hs arbitrary: s) (simp_all add: host_send_def state_connected_send)
  then show "wireless_state s = WT_CONNECTED \<Longrightarrow> wireless_state (wl_clear_keyboard e s) = WT_CONNECTED" by (simp add: wl_clear_keyboard_def)
qed

lemma shutdown_no_connect: "no_connect s (wireless_low_battery_shutdown e s)"
proof -
  have "wireless_state (wireless_low_battery_shutdown e s) =
      wireless_state (wl_clear_keyboard e (on_reports (report_buffer_init (now_of (wl_battery_low_enable e False s))) (wl_battery_low_enable e False s)))"
    by (simp add: wireless_low_battery_shutdown_def Let_def)
  then show ?thesis
    using clear_no_connect [of "on_reports (report_buffer_init (now_of (wl_battery_low_enable e False s))) (wl_battery_low_enable e False s)" e]
    by (simp add: no_connect_def)
qed

lemma battery_no_connect: "no_connect s (on_battery e f s)"
proof -
  have "no_connect u (battery_calls e c u)" for c u
    by (cases c) (auto simp: battery_calls_def shutdown_no_connect intro: no_connect_same)
  then have "no_connect (on_radio g s) (fold (battery_calls e) cs (on_radio g s))" for cs g by (intro fold_no_connect)
  then show ?thesis by (simp add: on_battery_def no_connect_def Let_def)
qed

lemma pairing_no_connect: "no_connect s (wireless_pairing_ex h s)" "no_connect s (wireless_connect_ex h t s)"
  by (simp_all add: wireless_pairing_ex_def wireless_connect_ex_def no_connect_def Let_def)

lemma host_key_state [simp]: "wireless_state (host_key h b s) = wireless_state s"
  by (simp add: host_key_def)

lemma key_no_connect: "no_connect s (process_record_wireless e k b s)"
proof -
  have h: "no_connect u (host_key a b u)" for a u by (rule no_connect_same) simp
  have c: "no_connect u (wireless_connect_ex i j (host_key a b u))" for a i j u by (rule no_connect_trans [OF h pairing_no_connect(2)])
  have k: "no_connect u (process_record_keychron_wireless k b u)" for u
    unfolding process_record_keychron_wireless_def Let_def by (simp only: h c no_connect_refl split: if_split) simp
  define v where "v = (if is_wireless (transport_now s) then
      (let s = lpm_timer_reset e s
       in if battery_is_empty (bat (rad s)) \<and> wireless_state s = WT_CONNECTED \<and> b then wl_battery_low_enable e True s else s) else s)"
  have "no_connect s v" by (rule no_connect_same) (simp add: v_def Let_def)
  moreover have "process_record_wireless e k b s = process_record_keychron_wireless k b v" by (simp only: process_record_wireless_def v_def Let_def)
  ultimately show ?thesis using k no_connect_trans by metis
qed

lemma common_no_connect: "no_connect s (keychron_wireless_common_task s)"
  using pairing_no_connect(1) [of "s\<lparr>pairing_key_timer := 0\<rparr>"] by (simp add: keychron_wireless_common_task_def no_connect_def)

lemma config_load_state [simp]: "wireless_state (wireless_config_load s) = wireless_state s" "wireless_state (wireless_config_save s) = wireless_state s"
  by (simp_all add: wireless_config_load_def wireless_config_save_def case_prod_beta Let_def)

lemma wiggle_no_connect: "no_connect s (wiggle e s)"
  unfolding wiggle_def by (rule fold_no_connect) (simp add: no_connect_def send_no_connect(2) [unfolded no_connect_def])

lemma lpm_set_no_connect: "no_connect s (snd (wireless_lpm_set e d s))"
proof -
  define u where "u = s\<lparr>backlit_disable_time := u16_of (d ! 0) (d ! 1), connected_idle_time := u16_of (d ! 2) (d ! 3)\<rparr>"
  have u: "no_connect s u" by (rule no_connect_same) (simp add: u_def)
  define v where "v = wl_backlit_timeout e (ucast (backlit_disable_time (wireless_config_save u)) * 1000) (wireless_config_save u)"
  have v: "no_connect s v" by (rule no_connect_trans [OF u no_connect_same]) (simp add: v_def)
  have "snd (wireless_lpm_set e d s) \<in> {wireless_config_load u, lkbt51_param_init e (wiggle e v), lkbt51_param_init e (wireless_config_save u)}"
    unfolding wireless_lpm_set_def Let_def u_def [symmetric] v_def by simp
  moreover have "no_connect s (wireless_config_load u)" "no_connect s (lkbt51_param_init e (wireless_config_save u))"
    using u by (simp_all add: no_connect_def)
  moreover have "no_connect s (lkbt51_param_init e (wiggle e v))"
    using no_connect_trans [OF v wiggle_no_connect] by (simp add: no_connect_def)
  ultimately show ?thesis by auto
qed

lemma settings_no_connect: "no_connect s (snd (wireless_raw_hid_rx e data s))"
proof -
  have "snd (wireless_raw_hid_rx e data s) \<in> {s, snd (wireless_lpm_set e (drop 2 data) s)}"
    by (simp add: wireless_raw_hid_rx_def case_prod_beta)
  then show ?thesis using lpm_set_no_connect [of s e "drop 2 data"] by auto
qed

lemma module_task_state: "module_task p s = Some t \<Longrightarrow> wireless_state t = wireless_state s"
  by (auto simp: module_task_def)

lemma polls_state:
  "fold (\<lambda>p so. case so of None \<Rightarrow> None | Some s \<Rightarrow> module_task p s) ps so = Some t \<Longrightarrow> \<exists>s. so = Some s \<and> wireless_state t = wireless_state s"
proof (induction ps arbitrary: so)
  case (Cons p ps)
  let ?so = "case so of None \<Rightarrow> None | Some s \<Rightarrow> module_task p s"
  obtain u where "?so = Some u" "wireless_state t = wireless_state u" using Cons.IH [of ?so] Cons.prems by auto
  then show ?case using module_task_state [of p _ u] by (cases so) auto
qed simp

lemma transport_off_no_connect: "no_connect s (radio_transport_off e w s)"
  using send_no_connect(1) [of "on_indicator e (indicator_stop (w_backlit e)) s" e] by (simp add: radio_transport_off_def no_connect_def Let_def)

lemma transport_on_no_connect:
  assumes "radio_transport_on ps h s = Some t"
  shows "no_connect s t"
proof -
  obtain u where u: "fold (\<lambda>p so. case so of None \<Rightarrow> None | Some s \<Rightarrow> module_task p s) ps (Some (wireless_disconnect (s\<lparr>driver_wireless := True\<rparr>))) = Some u"
      "t = wireless_connect_ex h 0 (on_radio (radio_wait 100) u)"
    using assms by (auto simp: radio_transport_on_def Let_def)
  then show ?thesis using polls_state [OF u(1)] pairing_no_connect(2) [of "on_radio (radio_wait 100) u" h 0] by (simp add: no_connect_def)
qed

lemma transport_fields [simp]: "wireless_state (usb_transport_off e s) = wireless_state s" "wireless_state (transport_changed e s) = wireless_state s"
  by (simp_all add: usb_transport_off_def transport_changed_def Let_def)

lemma set_transport_no_connect:
  assumes "set_transport e ps w s = Some t"
  shows "no_connect s t"
proof (cases "transport_now s = w")
  case True
  then show ?thesis using assms by (simp add: set_transport_def)
next
  case False
  define u where "u = (if transport_now s = TRANSPORT_USB \<or> wireless_state s = WT_CONNECTED then wl_clear_keyboard e s else s)\<lparr>transport_now := w\<rparr>"
  have u: "no_connect s u" using clear_no_connect [of s e] by (simp add: u_def no_connect_def)
  have on: "no_connect v t" if "radio_transport_on ps h (on_radio g v) = Some z" "wireless_state t = wireless_state z" for h g v z
    using that transport_on_no_connect [OF that(1)] by (simp add: no_connect_def)
  have off: "no_connect x (radio_transport_off e v x)" for v x by (rule transport_off_no_connect)
  note set = assms [unfolded set_transport_def Let_def if_not_P [OF False], folded u_def]
  have "no_connect u t"
  proof (cases w)
    case TRANSPORT_USB
    let ?a = "radio_transport_off e TRANSPORT_BLUETOOTH (u\<lparr>driver_wireless := False\<rparr>)"
    have "wireless_state t = wireless_state (radio_transport_off e TRANSPORT_P2P4 (on_radio (radio_wait 5) ?a))"
      using set TRANSPORT_USB by auto
    then show ?thesis using off [of "on_radio (radio_wait 5) ?a" TRANSPORT_P2P4] off [of "u\<lparr>driver_wireless := False\<rparr>" TRANSPORT_BLUETOOTH]
      by (simp add: no_connect_def)
  next
    case TRANSPORT_BLUETOOTH
    then obtain z where "radio_transport_on ps 30 (on_radio (radio_wait 1) (radio_transport_off e TRANSPORT_P2P4 u)) = Some z"
        "wireless_state t = wireless_state z"
      using set by auto
    then show ?thesis using on off no_connect_trans by blast
  next
    case TRANSPORT_P2P4
    then obtain z where "radio_transport_on ps 24 (on_radio (radio_wait 1) (radio_transport_off e TRANSPORT_BLUETOOTH u)) = Some z"
        "wireless_state t = wireless_state z"
      using set by auto
    then show ?thesis using on off no_connect_trans by blast
  next
    case TRANSPORT_NONE
    then show ?thesis using set by simp
  qed
  then show ?thesis using u no_connect_trans by blast
qed

lemma pre_task_no_connect:
  assumes "wireless_pre_task e ps bt p24 s = Some t"
  shows "no_connect s t"
proof -
  define pins :: u8 where "pins = (if bt then 2 else 0) OR (if p24 then 1 else 0)"
  define s' where "s' = (if dip_switch_time s = 0 \<and> pins \<noteq> dip_switch_state s then s\<lparr>dip_switch_state := pins, dip_switch_time := now_of s\<rparr> else s)"
  have same: "wireless_state s' = wireless_state s" by (simp add: s'_def)
  have "wireless_state t = wireless_state s' \<or> (\<exists>w. set_transport e ps w (s'\<lparr>dip_switch_time := 0\<rparr>) = Some t)"
    using assms unfolding wireless_pre_task_def Let_def pins_def [symmetric] s'_def [symmetric] by (auto split: if_splits)
  then show ?thesis using same set_transport_no_connect [of e ps _ "s'\<lparr>dip_switch_time := 0\<rparr>" t] by (auto simp: no_connect_def)
qed

section \<open>What the events do to the state\<close>

definition state_after :: "event_type \<Rightarrow> wt_state \<Rightarrow> wt_state" where
  "state_after t w =
     (case t of EVT_RESET \<Rightarrow> WT_RESET | EVT_CONNECTED \<Rightarrow> WT_CONNECTED | EVT_DISCOVERABLE \<Rightarrow> WT_PARING | EVT_RECONNECTING \<Rightarrow> WT_RECONNECTING
      | EVT_DISCONNECTED \<Rightarrow> WT_DISCONNECTED | EVT_SLEEP \<Rightarrow> WT_SUSPEND | _ \<Rightarrow> w)"

definition pin_after :: "event_type \<Rightarrow> bool \<Rightarrow> bool" where
  "pin_after t b = (case t of EVT_BT_PINCODE_ENTRY \<Rightarrow> True | EVT_EXIT_BT_PINCODE_ENTRY \<Rightarrow> False | _ \<Rightarrow> b)"

text \<open>The first disconnection after a start may answer with a connection request.\<close>

lemma disconnected_kb_state: "wireless_state (disconnected_kb e s) \<in> {wireless_state s, WT_RECONNECTING}"
  using state_connect(2) [of e "lkbt51_param_init e s"] by (simp add: disconnected_kb_def Let_def)

lemma disconnected_state:
  "wireless_state (wireless_enter_disconnected e h r s) \<in> {WT_DISCONNECTED, WT_RECONNECTING}"
proof -
  define t where "t = on_reports (report_buffer_set_retry 0 \<circ> report_buffer_init (now_of
     (let was_connected = (wireless_state s = WT_CONNECTED); s = (clear_leds s)\<lparr>wireless_state := WT_DISCONNECTED\<rparr>;
          s = (if was_connected then wl_indicator_set e WT_SUSPEND h (lpm_timer_reset e s) else wl_indicator_set e WT_DISCONNECTED h s)
      in if r \<noteq> 0 \<and> is_wireless (transport_now s) then wl_backlit_timeout e 40000 s else s)))
     (let was_connected = (wireless_state s = WT_CONNECTED); s = (clear_leds s)\<lparr>wireless_state := WT_DISCONNECTED\<rparr>;
          s = (if was_connected then wl_indicator_set e WT_SUSPEND h (lpm_timer_reset e s) else wl_indicator_set e WT_DISCONNECTED h s)
      in if r \<noteq> 0 \<and> is_wireless (transport_now s) then wl_backlit_timeout e 40000 s else s)"
  have "wireless_state t = WT_DISCONNECTED" by (simp add: t_def Let_def)
  moreover have "wireless_state (wireless_enter_disconnected e h r s) = wireless_state (disconnected_kb e t)"
    by (simp add: wireless_enter_disconnected_def t_def Let_def)
  ultimately show ?thesis using disconnected_kb_state [of e t] by simp
qed

lemma event_state:
  "wireless_state (wireless_handle_event e ev s) =
     (if evt_type ev = EVT_DISCONNECTED then wireless_state (wireless_enter_disconnected e (evt_param ev) (evt_data ev) s)
      else state_after (evt_type ev) (wireless_state s))"
proof -
  have c: "wireless_state (wireless_enter_connected e h s) = WT_CONNECTED" for h
  proof -
    let ?u = "(wl_indicator_set e WT_CONNECTED h (s\<lparr>wireless_state := WT_CONNECTED\<rparr>))\<lparr>host_index := h\<rparr>"
    have "wireless_state (wireless_enter_connected e h s) = wireless_state (wl_clear_keyboard e ?u)"
      by (simp add: wireless_enter_connected_def Let_def)
    moreover have "wireless_state ?u = WT_CONNECTED" by simp
    ultimately show ?thesis using clear_connected by simp
  qed
  show ?thesis
    by (simp add: wireless_handle_event_def state_after_def c wireless_enter_reset_def wireless_enter_discoverable_def
        wireless_enter_reconnecting_def wireless_enter_bluetooth_pin_code_entry_def wireless_exit_bluetooth_pin_code_entry_def
        wireless_enter_sleep_def Let_def split: event_type.split)
qed

text \<open>The events after which the module is not connected.\<close>

definition ends_link :: "wl_label \<Rightarrow> bool" where
  "ends_link l = (case l of Event ev \<Rightarrow> evt_type ev \<in> {EVT_RESET, EVT_DISCOVERABLE, EVT_RECONNECTING, EVT_DISCONNECTED, EVT_SLEEP} | Other \<Rightarrow> False)"

definition starts_link :: "wl_label \<Rightarrow> bool" where
  "starts_link l = (case l of Event ev \<Rightarrow> evt_type ev = EVT_CONNECTED | Other \<Rightarrow> False)"

lemma other_no_connect: "wl_step e Other s t \<Longrightarrow> no_connect s t"
  by (erule other_stepE)
    (auto intro: no_connect_same send_no_connect key_no_connect common_no_connect settings_no_connect pre_task_no_connect
      module_task_state simp: wl_battery_task_def battery_no_connect no_connect_trans [OF battery_no_connect battery_no_connect]
      lpm_task_def Let_def)

lemma step_link:
  assumes "wl_step e l s t" and "wireless_state t = WT_CONNECTED"
  shows "starts_link l \<or> wireless_state s = WT_CONNECTED \<and> \<not> ends_link l"
proof (cases l)
  case (Event ev)
  then obtain q where t: "t = wireless_handle_event e ev (set_evq q s)" using assms(1) by (auto elim: event_stepE)
  show ?thesis
    using assms(2) disconnected_state [of e "evt_param ev" "evt_data ev" "set_evq q s"]
    by (auto simp: t event_state Event starts_link_def ends_link_def state_after_def split: if_splits event_type.splits)
next
  case Other
  then show ?thesis using other_no_connect [of e s t] assms by (simp add: no_connect_def ends_link_def)
qed

text \<open>C30. Over any run of reports, keys, polls, battery samples, settings and changes of transport,
  the connection state is "connected" only if the module has reported a connection and has
  reported nothing since that ends it.\<close>

theorem connected_means_module_said_so:
  assumes "wl_run e ls s t" and "wireless_state s \<noteq> WT_CONNECTED" and "wireless_state t = WT_CONNECTED"
  shows "\<exists>before l after. ls = before @ l # after \<and> starts_link l \<and> list_all (\<lambda>x. \<not> ends_link x) after"
  using assms
proof (induction rule: wl_run.induct)
  case (run_step ls s t l u)
  show ?case
  proof (cases "starts_link l")
    case True
    then show ?thesis by (intro exI [of _ ls] exI [of _ l] exI [of _ "[]"]) simp
  next
    case False
    then have "wireless_state t = WT_CONNECTED" "\<not> ends_link l" using step_link [OF run_step.hyps(2)] run_step.prems(2) by auto
    then obtain before x after where "ls = before @ x # after" "starts_link x" "list_all (\<lambda>x. \<not> ends_link x) after"
      using run_step.IH run_step.prems(1) by blast
    then show ?thesis using \<open>\<not> ends_link l\<close> by (intro exI [of _ before] exI [of _ x] exI [of _ "after @ [l]"]) simp
  qed
qed simp

lemma connected_means_module_said_so_witness:
  "let s = wireless_handle_event plain_env (event_for EVT_CONNECTED 1) (set_evq wireless_event_queue_init wireless_start);
       t = host_send plain_env (HidMouse (replicate 6 0)) s
   in wireless_state t = WT_CONNECTED \<and>
     (\<exists>before l after. [Event (event_for EVT_CONNECTED 1), Other] = before @ l # after \<and> starts_link l \<and> list_all (\<lambda>x. \<not> ends_link x) after)"
proof -
  let ?s = "wireless_handle_event plain_env (event_for EVT_CONNECTED 1) (set_evq wireless_event_queue_init wireless_start)"
  let ?t = "host_send plain_env (HidMouse (replicate 6 0)) ?s"
  have s: "wireless_state ?s = WT_CONNECTED" by (simp add: event_state event_for_def state_after_def)
  then have t: "wireless_state ?t = WT_CONNECTED" by (simp add: host_send_def state_connected_send)
  have "wl_run plain_env [Event (event_for EVT_CONNECTED 1)] wireless_start ?s"
    using run_step [OF run_start wl_step.intros(1)] by fastforce
  then have "wl_run plain_env [Event (event_for EVT_CONNECTED 1), Other] wireless_start ?t"
    using run_step [OF _ wl_step.intros(3)] by fastforce
  then show ?thesis using connected_means_module_said_so t by (simp add: wireless_start_def)
qed

section \<open>Settings\<close>

lemma u16_bytes [simp]: "lo8 (u16_of a b) = a" "hi8 (u16_of a b) = b"
  by (rule bit_word_eqI; auto simp: lo8_def hi8_def u16_of_def bit_simps dest: bit_imp_le_length)+

lemma bytes_u16 [simp]: "u16_of (lo8 w) (hi8 w) = w"
proof (rule bit_word_eqI)
  fix n assume "n < LENGTH(16)"
  then show "bit (u16_of (lo8 w) (hi8 w)) n = bit w n" by (cases "n < 8") (auto simp: lo8_def hi8_def u16_of_def bit_simps)
qed

text \<open>What the settings depend on: the two values and their stored copy.\<close>

definition same_settings :: "wireless \<Rightarrow> wireless \<Rightarrow> bool" where
  "same_settings s t \<longleftrightarrow> backlit_disable_time t = backlit_disable_time s \<and> connected_idle_time t = connected_idle_time s \<and> wl_eeprom t = wl_eeprom s"

lemma same_settings_refl [simp]: "same_settings s s"
  by (simp add: same_settings_def)

lemma same_settings_trans: "same_settings s t \<Longrightarrow> same_settings t u \<Longrightarrow> same_settings s u"
  by (simp add: same_settings_def)

lemma settings_simps [simp]:
  "same_settings u (on_radio f s) = same_settings u s" "same_settings u (on_reports g s) = same_settings u s"
  "same_settings u (lpm_timer_reset e s) = same_settings u s" "same_settings u (on_indicator e i s) = same_settings u s"
  "same_settings u (wl_indicator_set e w h s) = same_settings u s" "same_settings u (wl_backlit_timeout e t s) = same_settings u s"
  "same_settings u (lkbt51_param_init e s) = same_settings u s" "same_settings u (s\<lparr>wireless_state := w\<rparr>) = same_settings u s"
  "same_settings u (s\<lparr>usb_reports := x\<rparr>) = same_settings u s"
  by (simp_all add: same_settings_def on_radio_def on_reports_def lpm_timer_reset_def on_indicator_def wl_indicator_set_def
      wl_backlit_timeout_def lkbt51_param_init_def Let_def)

lemma settings_report [simp]: "same_settings u (wl_report_task e s) = same_settings u s" "same_settings u (queue_report e r s) = same_settings u s"
proof -
  have "same_settings u (wl_report_task e v) = same_settings u v" for v by (simp add: wl_report_task_def Let_def case_prod_beta)
  then show "same_settings u (wl_report_task e s) = same_settings u s" "same_settings u (queue_report e r s) = same_settings u s"
    by (simp_all add: queue_report_def Let_def)
qed

lemma settings_send [simp]: "same_settings s (host_send e h s)"
proof -
  have "same_settings s (or_connect e s)" by (simp add: or_connect_def wireless_connect_def Let_def)
  then show ?thesis
    by (cases h) (simp_all add: host_send_def wireless_send_def wireless_send_keys_def wireless_send_now_def wireless_send_extra_def
        wireless_send_system_def wireless_send_consumer_def)
qed

lemma settings_wiggle: "same_settings s (wiggle e s)"
proof -
  have "same_settings s (fold (\<lambda>h s. on_radio (radio_wait 10) (host_send e h s)) hs s)" for hs
  proof (induction hs arbitrary: s)
    case (Cons h hs)
    have "same_settings s (on_radio (radio_wait 10) (host_send e h s))" by simp
    then show ?case using Cons.IH same_settings_trans by fastforce
  qed simp
  then show ?thesis by (simp add: wiggle_def)
qed

text \<open>A restart keeps the EEPROM and loads the settings from it.\<close>

definition restarted :: "wl_env \<Rightarrow> wireless \<Rightarrow> wireless" where
  "restarted e s = wireless_init e (wireless_start\<lparr>wl_eeprom := wl_eeprom s\<rparr>)"

text \<open>Time-outs of at least 5 and 60 seconds set by the host are accepted, are read back as they
  were set, and are the ones in force after a restart.\<close>

lemma settings_survive_restart:
  assumes "5 \<le> u16_of a b" and "60 \<le> u16_of c d"
  shows "let (ok, t) = wireless_lpm_set e [a, b, c, d] s in
    ok \<and> wireless_lpm_get t = [a, b, c, d] \<and> wireless_lpm_get (restarted e t) = [a, b, c, d]"
proof -
  let ?u = "wireless_config_save (s\<lparr>backlit_disable_time := u16_of a b, connected_idle_time := u16_of c d\<rparr>)"
  obtain t where t: "wireless_lpm_set e [a, b, c, d] s = (True, t)" and same: "same_settings ?u t"
    using assms settings_wiggle [of "wl_backlit_timeout e (ucast (u16_of a b) * 1000) ?u" e]
    by (auto simp: wireless_lpm_set_def wireless_config_save_def linorder_not_less [symmetric] same_settings_def Let_def
        wl_backlit_timeout_def lkbt51_param_init_def on_radio_def)
  have stored: "wl_eeprom t = (u16_of a b, u16_of c d)" "backlit_disable_time t = u16_of a b" "connected_idle_time t = u16_of c d"
    using same by (simp_all add: same_settings_def wireless_config_save_def)
  have ne: "u16_of a b \<noteq> 0" "u16_of c d \<noteq> 0" "\<not> u16_of a b < 5" "\<not> u16_of c d < 30"
    using assms by (auto simp: word_le_nat_alt word_less_nat_alt)
  have eep: "wl_eeprom (set_evq q v) = wl_eeprom v" "wl_eeprom (on_reports f v) = wl_eeprom v" "wl_eeprom (lpm_timer_reset e v) = wl_eeprom v" for q f v
    by (simp_all add: on_reports_def on_radio_def lpm_timer_reset_def)
  have "wl_eeprom (lpm_timer_reset e (on_indicator e indicator_init v)) = wl_eeprom v" for v by (simp add: eep)
  then have "backlit_disable_time (restarted e t) = u16_of a b \<and> connected_idle_time (restarted e t) = u16_of c d"
    using ne by (simp add: restarted_def wireless_init_def wireless_config_load_def eep stored Let_def)
  then show ?thesis by (simp add: t wireless_lpm_get_def stored)
qed

lemma settings_survive_restart_witness:
  "let (ok, t) = wireless_lpm_set plain_env [120, 0, 16, 14] wireless_start in
    ok \<and> wireless_lpm_get t = [120, 0, 16, 14] \<and> wireless_lpm_get (restarted plain_env t) = [120, 0, 16, 14]"
proof -
  have "5 \<le> u16_of 120 0" "60 \<le> u16_of 16 14" by code_simp+
  then show ?thesis by (rule settings_survive_restart)
qed

text \<open>A stored idle time of 30 to 59 seconds is used, but the command refuses it.\<close>

lemma short_idle_time:
  "connected_idle_time (wireless_config_load (wireless_start\<lparr>wl_eeprom := (10, 45)\<rparr>)) = 45"
  "fst (wireless_lpm_set e [10, 0, 45, 0] s) = False"
proof -
  have "u16_of 45 0 < 60" by code_simp
  then show "fst (wireless_lpm_set e [10, 0, 45, 0] s) = False" by (simp add: wireless_lpm_set_def Let_def)
qed (simp add: wireless_config_load_def)

section \<open>Pairing by holding a host key\<close>

lemma connect_clock: "radio_clock (lkbt51_connect h t r) - radio_clock r \<in> {0, 310}"
  by (simp add: lkbt51_connect_def comm_started_def lkbt51_send_cmd_def lkbt51_wake_def radio_wait_def Let_def)

lemma become_discoverable_sends:
  "\<exists>m. m \<noteq> 0 \<and> spi_sent (lkbt51_become_discoverable h r) = spi_sent r @ [command True m [0x21, h, 0, 0, 3, 1, 0]]"
  using send_cmd_command [of "[0x21, h, 0, 0, 3, 1, 0]" True False "lkbt51_wake r"] by (simp add: lkbt51_become_discoverable_def)

text \<open>The state after the key has gone down, and what the pairing timer then reads.\<close>

lemma host_key_pressed:
  assumes "transport_now s = TRANSPORT_BLUETOOTH" and "BT_HST1 \<le> k" and "k \<le> BT_HST3"
  shows "let t = process_record_keychron_wireless k True s in
    bt_host_idx t = ucast (k - BT_HST1 + 1) \<and> pairing_key_timer t = now_of s \<and> now_of t - now_of s \<in> {0, 310} \<and> critical t = critical s"
  using assms connect_clock [of "ucast (k - BT_HST1 + 1)" 0 "rad s"]
  by (auto simp: process_record_keychron_wireless_def host_key_def wireless_connect_ex_def on_radio_def now_of_def critical_def
      lkbt51_connect_def Let_def)



end
