(* ===== verification/SendString.thy ===== *)
theory SendString
  imports Handlers
begin

text \<open>
  Typing text (\<open>quantum/send_string/send_string.c\<close>): the tables from characters to keys, the codes a text may hold (tap, down, up,
  delay) and the reports a text makes.  Configuration: no audio and no wireless driver, \<open>TAP_CODE_DELAY\<close> 0, plain \<open>char\<close> unsigned
  as on ARM.  The text is what the getter returns, in its order, and zeros after it (the getter of the macro area does this;
  \<open>DynamicKeymap\<close> uses it).  Reading a table past its end is \<open>None\<close>.
\<close>

section \<open>Tables\<close>

definition KCLUT_ENTRY :: "nat \<Rightarrow> nat \<Rightarrow> nat \<Rightarrow> nat \<Rightarrow> nat \<Rightarrow> nat \<Rightarrow> nat \<Rightarrow> nat \<Rightarrow> u8" where
  "KCLUT_ENTRY a b c d e f g h =
     (if a \<noteq> 0 then 1 else 0) OR (if b \<noteq> 0 then 2 else 0) OR (if c \<noteq> 0 then 4 else 0) OR (if d \<noteq> 0 then 8 else 0) OR
     (if e \<noteq> 0 then 16 else 0) OR (if f \<noteq> 0 then 32 else 0) OR (if g \<noteq> 0 then 64 else 0) OR (if h \<noteq> 0 then 128 else 0)"

definition ascii_to_shift_lut :: "u8 list" where
  "ascii_to_shift_lut =
    [KCLUT_ENTRY 0 0 0 0 0 0 0 0, KCLUT_ENTRY 0 0 0 0 0 0 0 0, KCLUT_ENTRY 0 0 0 0 0 0 0 0, KCLUT_ENTRY 0 0 0 0 0 0 0 0,
     KCLUT_ENTRY 0 1 1 1 1 1 1 0, KCLUT_ENTRY 1 1 1 1 0 0 0 0, KCLUT_ENTRY 0 0 0 0 0 0 0 0, KCLUT_ENTRY 0 0 1 0 1 0 1 1,
     KCLUT_ENTRY 1 1 1 1 1 1 1 1, KCLUT_ENTRY 1 1 1 1 1 1 1 1, KCLUT_ENTRY 1 1 1 1 1 1 1 1, KCLUT_ENTRY 1 1 1 0 0 0 1 1,
     KCLUT_ENTRY 0 0 0 0 0 0 0 0, KCLUT_ENTRY 0 0 0 0 0 0 0 0, KCLUT_ENTRY 0 0 0 0 0 0 0 0, KCLUT_ENTRY 0 0 0 1 1 1 1 0]"

definition ascii_to_altgr_lut :: "u8 list" where "ascii_to_altgr_lut = replicate 16 (KCLUT_ENTRY 0 0 0 0 0 0 0 0)"
definition ascii_to_dead_lut :: "u8 list" where "ascii_to_dead_lut = replicate 16 (KCLUT_ENTRY 0 0 0 0 0 0 0 0)"

definition ascii_to_keycode_lut :: "u8 list" where
  "ascii_to_keycode_lut =
    [0, 0, 0, 0, 0, 0, 0, 0,  0x2A, 0x2B, 0x28, 0, 0, 0, 0, 0,
     0, 0, 0, 0, 0, 0, 0, 0,  0, 0, 0, 0x29, 0, 0, 0, 0,
     0x2C, 0x1E, 0x34, 0x20, 0x21, 0x22, 0x24, 0x34,  0x26, 0x27, 0x25, 0x2E, 0x36, 0x2D, 0x37, 0x38,
     0x27, 0x1E, 0x1F, 0x20, 0x21, 0x22, 0x23, 0x24,  0x25, 0x26, 0x33, 0x33, 0x36, 0x2E, 0x37, 0x38,
     0x1F, 0x04, 0x05, 0x06, 0x07, 0x08, 0x09, 0x0A,  0x0B, 0x0C, 0x0D, 0x0E, 0x0F, 0x10, 0x11, 0x12,
     0x13, 0x14, 0x15, 0x16, 0x17, 0x18, 0x19, 0x1A,  0x1B, 0x1C, 0x1D, 0x2F, 0x31, 0x30, 0x23, 0x2D,
     0x35, 0x04, 0x05, 0x06, 0x07, 0x08, 0x09, 0x0A,  0x0B, 0x0C, 0x0D, 0x0E, 0x0F, 0x10, 0x11, 0x12,
     0x13, 0x14, 0x15, 0x16, 0x17, 0x18, 0x19, 0x1A,  0x1B, 0x1C, 0x1D, 0x2F, 0x31, 0x30, 0x35, 0x4C]"

definition PGM_LOADBIT :: "u8 list \<Rightarrow> u8 \<Rightarrow> bool" where
  "PGM_LOADBIT lut pos \<longleftrightarrow> drop_bit (unat pos mod 8) (lut ! (unat pos div 8)) AND 1 \<noteq> 0"

section \<open>Typing\<close>

abbreviation KC_LEFT_SHIFT :: u8 where "KC_LEFT_SHIFT \<equiv> 0xE1"
abbreviation KC_RIGHT_ALT :: u8 where "KC_RIGHT_ALT \<equiv> 0xE6"
abbreviation KC_SPACE :: u8 where "KC_SPACE \<equiv> 0x2C"
abbreviation SS_QMK_PREFIX :: u8 where "SS_QMK_PREFIX \<equiv> 1"
abbreviation SS_TAP_CODE :: u8 where "SS_TAP_CODE \<equiv> 1"
abbreviation SS_DOWN_CODE :: u8 where "SS_DOWN_CODE \<equiv> 2"
abbreviation SS_UP_CODE :: u8 where "SS_UP_CODE \<equiv> 3"
abbreviation SS_DELAY_CODE :: u8 where "SS_DELAY_CODE \<equiv> 4"

definition send_char_with_delay :: "kb_env \<Rightarrow> u8 \<Rightarrow> u8 \<Rightarrow> ('w, 'u) kbd \<Rightarrow> ('w, 'u) kbd option" where
  "send_char_with_delay env c interval s =
     (if unat c \<ge> length ascii_to_keycode_lut then None
      else
        let keycode = ascii_to_keycode_lut ! unat c;
            is_shifted = PGM_LOADBIT ascii_to_shift_lut c;
            is_altgred = PGM_LOADBIT ascii_to_altgr_lut c;
            is_dead = PGM_LOADBIT ascii_to_dead_lut c;
            pause = wait_ms (ucast interval);
            s = (if is_shifted then pause (register_code env KC_LEFT_SHIFT s) else s);
            s = (if is_altgred then pause (register_code env KC_RIGHT_ALT s) else s);
            s = pause (tap_code_delay env keycode (ucast interval) s);
            s = (if is_altgred then pause (unregister_code env KC_RIGHT_ALT s) else s);
            s = (if is_shifted then pause (unregister_code env KC_LEFT_SHIFT s) else s)
        in Some (if is_dead then pause (tap_code env KC_SPACE s) else s))"

definition send_char :: "kb_env \<Rightarrow> u8 \<Rightarrow> ('w, 'u) kbd \<Rightarrow> ('w, 'u) kbd option" where
  "send_char env c = send_char_with_delay env c 0"

text \<open>The next character of the text, and the rest.\<close>

fun getter :: "u8 list \<Rightarrow> u8 \<times> u8 list" where
  "getter [] = (0, [])"
| "getter (c # cs) = (c, cs)"

definition isdigit :: "u8 \<Rightarrow> bool" where
  "isdigit c \<longleftrightarrow> 48 \<le> c \<and> c \<le> 57"

text \<open>The digits of a delay, the character that ends them and the rest.\<close>

fun read_delay :: "int \<Rightarrow> u8 list \<Rightarrow> int \<times> u8 \<times> u8 list" where
  "read_delay ms [] = (ms, 0, [])"
| "read_delay ms (c # cs) = (if isdigit c then read_delay (ms * 10 + (uint c - 48)) cs else (ms, c, cs))"

text \<open>The codes after the prefix: the character they leave in \<open>ascii_code\<close>, the rest of the text and the keyboard.\<close>

definition run_code :: "kb_env \<Rightarrow> u8 \<Rightarrow> u8 list \<Rightarrow> ('w, 'u) kbd \<Rightarrow> u8 \<times> u8 list \<times> ('w, 'u) kbd" where
  "run_code env code cs s =
     (if code = SS_TAP_CODE then (let (k, cs) = getter cs in (code, cs, tap_code env k s))
      else if code = SS_DOWN_CODE then (let (k, cs) = getter cs in (code, cs, register_code env k s))
      else if code = SS_UP_CODE then (let (k, cs) = getter cs in (code, cs, unregister_code env k s))
      else if code = SS_DELAY_CODE then (let (ms, c, cs) = read_delay 0 cs in (c, cs, wait_ms (as_u32 ms) s))
      else (code, cs, s))"

lemma getter_shorter: "length (snd (getter cs)) \<le> length cs"
  by (cases cs) simp_all

lemma read_delay_shorter: "length (snd (snd (read_delay ms cs))) \<le> length cs"
  by (induction ms cs rule: read_delay.induct) auto

lemma run_code_shorter: "length (fst (snd (run_code env code cs s))) \<le> length cs"
  using getter_shorter [of cs] read_delay_shorter [of 0 cs] by (simp add: run_code_def case_prod_beta)

function send_string_with_delay_impl :: "kb_env \<Rightarrow> u8 \<Rightarrow> u8 list \<Rightarrow> ('w, 'u) kbd \<Rightarrow> ('w, 'u) kbd option" where
  "send_string_with_delay_impl env interval [] s = Some s"
| "send_string_with_delay_impl env interval (ascii_code # cs) s =
     (if ascii_code = 0 then Some s
      else if ascii_code = SS_QMK_PREFIX then
        (let (code, cs) = getter cs;
             (ascii_code, cs, s) = run_code env code cs s;
             s = wait_ms (ucast interval) s
         in if ascii_code = 0 then Some s else send_string_with_delay_impl env interval cs s)
      else (case send_char_with_delay env ascii_code interval s of
              None \<Rightarrow> None
            | Some s \<Rightarrow> send_string_with_delay_impl env interval cs s))"
  by pat_completeness auto

termination
proof (relation "measure (\<lambda>(env, interval, cs, s). length cs)", goal_cases)
  case 1 show ?case by simp
next
  case (2 env interval ascii_code cs s x code cs' y c z cs'' s' s'')
  have "length cs' \<le> length cs" using getter_shorter [of cs] 2(3,4) by (metis snd_conv)
  moreover have "length cs'' \<le> length cs'" using run_code_shorter [of env code cs' s] 2(5,6,7) by (metis fst_conv snd_conv)
  ultimately show ?case by simp
next
  case 3 then show ?case by simp
qed


section \<open>Numbers\<close>

text \<open>The digit is chosen by the low four bits, and printed from the whole byte.\<close>

definition send_nibble :: "kb_env \<Rightarrow> u8 \<Rightarrow> ('w, 'u) kbd \<Rightarrow> ('w, 'u) kbd option" where
  "send_nibble env number = (if number AND 0xF \<le> 9 then send_char env (number + 48) else send_char env (number - 10 + 97))"

definition send_byte :: "kb_env \<Rightarrow> u8 \<Rightarrow> ('w, 'u) kbd \<Rightarrow> ('w, 'u) kbd option" where
  "send_byte env number s = Option.bind (send_nibble env (drop_bit 4 number) s) (send_nibble env (number AND 0xF))"

definition send_word :: "kb_env \<Rightarrow> u16 \<Rightarrow> ('w, 'u) kbd \<Rightarrow> ('w, 'u) kbd option" where
  "send_word env number s = Option.bind (send_byte env (ucast (drop_bit 8 number)) s) (send_byte env (ucast (number AND 0xFF)))"

definition send_dword :: "kb_env \<Rightarrow> u32 \<Rightarrow> ('w, 'u) kbd \<Rightarrow> ('w, 'u) kbd option" where
  "send_dword env number s = Option.bind (send_word env (ucast (drop_bit 16 number)) s) (send_word env (ucast (number AND 0xFFFF)))"

section \<open>The reports of a text\<close>

text \<open>A host state with nothing held and nothing to send.\<close>

definition at_rest :: "host_state \<Rightarrow> bool" where
  "at_rest h \<longleftrightarrow> rp_keys h = replicate 6 0 \<and> kb_keys_count h = 0 \<and> nkro_bit_count h = 0 \<and> kb_report_changed h = 0 \<and>
     real_mods h = 0 \<and> weak_mods h = 0 \<and> weak_override_mods h = 0 \<and> suppressed_mods h = 0 \<and> oneshot_mods h = 0 \<and>
     last_std h = (0, replicate 6 0)"

definition key_reports :: "u8 \<Rightarrow> u8 \<Rightarrow> host_report list" where
  "key_reports m k = (if k = 0 then [] else [Std m (k # replicate 5 0), Std m (replicate 6 0)])"

definition needs_shift :: "u8 \<Rightarrow> bool" where "needs_shift c = PGM_LOADBIT ascii_to_shift_lut c"

definition char_reports :: "u8 \<Rightarrow> host_report list" where
  "char_reports c =
     (let k = ascii_to_keycode_lut ! unat c
      in if needs_shift c then Std 2 (replicate 6 0) # key_reports 2 k @ [Std 0 (replicate 6 0)] else key_reports 0 k)"

text \<open>At rest but for the modifiers of a shift key.\<close>

definition resting :: "u8 \<Rightarrow> host_state \<Rightarrow> bool" where
  "resting m h \<longleftrightarrow> at_rest (h\<lparr>real_mods := 0, last_std := (0, replicate 6 0)\<rparr>) \<and> real_mods h = m \<and> last_std h = (m, replicate 6 0)"

lemma resting_0: "resting 0 h \<longleftrightarrow> at_rest h"
  by (auto simp: resting_def at_rest_def)

lemma host_simps [simp]:
  "host (on_host f s) = f (host s)" "host (send_report env s) = send_keyboard_report (can_nkro env) (host s)"
  "host (wait_ms d s) = host s"
  by (simp_all add: on_host_def send_report_def wait_ms_def)

definition basic_key :: "u8 \<Rightarrow> bool" where
  "basic_key k \<longleftrightarrow> k \<noteq> 0 \<and> IS_BASIC_KEYCODE (ucast k)"

text \<open>What is left when the reports are out.\<close>

definition sent_on :: "host_report list \<Rightarrow> u8 \<Rightarrow> host_state \<Rightarrow> host_state" where
  "sent_on rs m h = h\<lparr>real_mods := m, last_std := (m, replicate 6 0), sent := sent h @ rs\<rparr>"

lemma resting_sent_on [simp]: "resting m h \<Longrightarrow> resting n (sent_on rs n h)"
  by (simp add: resting_def at_rest_def sent_on_def)

lemma sent_on_twice [simp]: "sent_on rs n (sent_on qs m h) = sent_on (qs @ rs) n h"
  by (simp add: sent_on_def)

lemmas sending = send_keyboard_report_def send_6kro_report_def get_mods_for_report_def col_mask_def

lemma register_basic:
  assumes "resting m (host s)" and "basic_key k"
  shows "host (register_code env k s) = (host s)\<lparr>rp_keys := k # replicate 5 0, kb_report_changed := 0, kb_keys_count := 1,
     last_std := (m, k # replicate 5 0), sent := sent (host s) @ [Std m (k # replicate 5 0)]\<rparr>"
  using assms
  by (simp add: register_code_def basic_key_def resting_def at_rest_def is_key_pressed_def add_key_to_report_def add_key_byte_def
      sending eval_nat_numeral Let_def)

lemma unregister_basic:
  assumes "resting m h" and "basic_key k"
    and "host s = h\<lparr>rp_keys := k # replicate 5 0, kb_report_changed := 0, kb_keys_count := 1,
     last_std := (m, k # replicate 5 0), sent := sent h @ [Std m (k # replicate 5 0)]\<rparr>"
  shows "host (unregister_code env k s) = sent_on [Std m (k # replicate 5 0), Std m (replicate 6 0)] m h"
  using assms
  by (cases h) (simp add: unregister_code_def basic_key_def resting_def at_rest_def del_key_from_report_def del_key_byte_eq
      sending sent_on_def eval_nat_numeral Let_def)

lemma tap_basic:
  assumes "resting m (host s)" and "k = 0 \<or> basic_key k"
  shows "host (tap_code_delay env k d s) = sent_on (key_reports m k) m (host s)"
proof (cases "k = 0")
  case True
  have "sent_on [] m (host s) = host s" using assms(1) by (cases "host s") (simp add: sent_on_def resting_def)
  with True show ?thesis by (simp add: tap_code_delay_def register_code_def unregister_code_def key_reports_def)
next
  case False
  then have k: "basic_key k" using assms(2) by simp
  have "host (wait_ms d (register_code env k s)) = (host s)\<lparr>rp_keys := k # replicate 5 0, kb_report_changed := 0, kb_keys_count := 1,
     last_std := (m, k # replicate 5 0), sent := sent (host s) @ [Std m (k # replicate 5 0)]\<rparr>"
    by (simp only: host_simps register_basic [OF assms(1) k])
  from unregister_basic [OF assms(1) k this] False show ?thesis by (simp add: tap_code_delay_def key_reports_def)
qed

lemma shift_down:
  assumes "resting 0 (host s)"
  shows "host (register_code env KC_LEFT_SHIFT s) = sent_on [Std 2 (replicate 6 0)] 2 (host s)"
proof -
  have "(host s)\<lparr>kb_report_changed := 0\<rparr> = host s" using assms by (cases "host s") (simp add: resting_def at_rest_def)
  then have e: "(host s)\<lparr>kb_report_changed := 0, real_mods := 2, last_std := (2, replicate 6 0), sent := sent (host s) @ [Std 2 (replicate 6 0)]\<rparr> =
    sent_on [Std 2 (replicate 6 0)] 2 (host s)" by (simp add: sent_on_def)
  have c: "(ucast KC_LEFT_SHIFT :: u16) = 0xE1" "IS_BASIC_KEYCODE 0xE1 = False" "IS_MODIFIER_KEYCODE 0xE1" "MOD_BIT 0xE1 = 2" by code_simp+
  from e [symmetric] assms show ?thesis
    by (simp add: register_code_def c add_mods_def flag_std_def resting_def at_rest_def sending Let_def)
qed

lemma shift_up:
  assumes "resting 2 (host s)"
  shows "host (unregister_code env KC_LEFT_SHIFT s) = sent_on [Std 0 (replicate 6 0)] 0 (host s)"
proof -
  have "(host s)\<lparr>kb_report_changed := 0\<rparr> = host s" using assms by (cases "host s") (simp add: resting_def at_rest_def)
  then have e: "(host s)\<lparr>kb_report_changed := 0, real_mods := 0, last_std := (0, replicate 6 0), sent := sent (host s) @ [Std 0 (replicate 6 0)]\<rparr> =
    sent_on [Std 0 (replicate 6 0)] 0 (host s)" by (simp add: sent_on_def)
  have c: "(ucast KC_LEFT_SHIFT :: u16) = 0xE1" "IS_BASIC_KEYCODE 0xE1 = False" "IS_MODIFIER_KEYCODE 0xE1" "MOD_BIT 0xE1 = 2" by code_simp+
  from e [symmetric] assms show ?thesis
    by (simp add: unregister_code_def c del_mods_def flag_std_def resting_def at_rest_def sending Let_def)
qed

lemma lut_keys: "list_all (\<lambda>k. k = 0 \<or> basic_key k) ascii_to_keycode_lut"
  by (simp add: ascii_to_keycode_lut_def basic_key_def IS_BASIC_KEYCODE_def)

lemma no_altgr_dead:
  assumes "unat c < 128"
  shows "\<not> PGM_LOADBIT ascii_to_altgr_lut c" "\<not> PGM_LOADBIT ascii_to_dead_lut c"
proof -
  have "unat c div 8 < 16" using assms by linarith
  then show "\<not> PGM_LOADBIT ascii_to_altgr_lut c" "\<not> PGM_LOADBIT ascii_to_dead_lut c"
    by (simp_all add: PGM_LOADBIT_def ascii_to_altgr_lut_def ascii_to_dead_lut_def KCLUT_ENTRY_def)
qed

lemma send_char_reports:
  assumes "at_rest (host s)" and "unat c < 128"
  shows "\<exists>s'. send_char_with_delay env c interval s = Some s' \<and> host s' = sent_on (char_reports c) 0 (host s)"
proof -
  have len: "length ascii_to_keycode_lut = 128" by (simp add: ascii_to_keycode_lut_def)
  have k: "ascii_to_keycode_lut ! unat c = 0 \<or> basic_key (ascii_to_keycode_lut ! unat c)"
    using lut_keys assms(2) unfolding list_all_length len by blast
  have r: "resting 0 (host s)" using assms(1) by (simp add: resting_0)
  show ?thesis
  proof (cases "needs_shift c")
    case False
    then show ?thesis using k r no_altgr_dead [OF assms(2)] assms(2)
      by (simp add: send_char_with_delay_def len Let_def char_reports_def needs_shift_def tap_basic)
  next
    case True
    define u where "u = wait_ms (ucast interval) (register_code env KC_LEFT_SHIFT s)"
    have u: "host u = sent_on [Std 2 (replicate 6 0)] 2 (host s)" by (simp add: u_def shift_down [OF r])
    then have ru: "resting 2 (host u)" using r by simp
    define v where "v = wait_ms (ucast interval) (tap_code_delay env (ascii_to_keycode_lut ! unat c) (ucast interval) u)"
    have v: "host v = sent_on (key_reports 2 (ascii_to_keycode_lut ! unat c)) 2 (host u)" by (simp add: v_def tap_basic [OF ru k])
    then have "resting 2 (host v)" using ru by simp
    from shift_up [OF this] have "host (unregister_code env KC_LEFT_SHIFT v) = sent_on (char_reports c) 0 (host s)"
      using True by (simp add: v u char_reports_def)
    then show ?thesis using True no_altgr_dead [OF assms(2)] assms(2)
      by (simp add: send_char_with_delay_def len Let_def needs_shift_def u_def v_def)
  qed
qed

text \<open>A text without codes types its characters one after the other, up to the first zero.\<close>

definition printable :: "u8 \<Rightarrow> bool" where
  "printable c \<longleftrightarrow> c \<noteq> 0 \<and> c \<noteq> SS_QMK_PREFIX \<and> unat c < 128"

lemma text_types_its_characters:
  assumes "at_rest (host s)" and "\<forall>c \<in> set text. printable c"
  shows "\<exists>s'. send_string_with_delay_impl env interval (text @ 0 # rest) s = Some s' \<and>
     host s' = (host s)\<lparr>sent := sent (host s) @ concat (map char_reports text)\<rparr> \<and> at_rest (host s')"
proof -
  have same: "sent_on rs 0 h = h\<lparr>sent := sent h @ rs\<rparr>" if "at_rest h" for rs h
    using that by (cases h) (simp add: sent_on_def at_rest_def)
  have "\<exists>s'. send_string_with_delay_impl env interval (text @ 0 # rest) s = Some s' \<and>
      host s' = sent_on (concat (map char_reports text)) 0 (host s)"
    using assms
  proof (induction "text" arbitrary: s)
    case Nil
    then show ?case by (simp add: same)
  next
    case (Cons c cs)
    then obtain t where t: "send_char_with_delay env c interval s = Some t" "host t = sent_on (char_reports c) 0 (host s)"
      using send_char_reports [OF Cons.prems(1), of c env interval] by (auto simp: printable_def)
    then have "at_rest (host t)" using Cons.prems(1) by (simp flip: resting_0)
    with Cons t show ?case by (fastforce simp: printable_def)
  qed
  moreover have "at_rest (sent_on rs 0 (host s))" for rs using assms(1) by (simp flip: resting_0)
  ultimately show ?thesis using same [OF assms(1)] by auto
qed

end
