(* ===== verification/DynamicKeymap.thy ===== *)
theory DynamicKeymap
  imports SendString
begin

text \<open>
  The keymap a host may change (\<open>quantum/dynamic_keymap.c\<close>) and what it keeps in the EEPROM
  (\<open>quantum/nvm/eeprom/nvm_dynamic_keymap.c\<close>, \<open>nvm_via.c\<close>, the magic and the reset of \<open>via.c\<close>).  Configuration: \<open>ENCODER_MAP_ENABLE\<close> (no
  encoders otherwise), no custom configuration, the hooks \<open>via_init_kb\<close> and \<open>via_set_layout_options_kb\<close> empty.  An operation that
  writes is the list of its calls of \<open>eeprom_update_byte\<close>, in their order: \<open>eeprom_run\<close> makes them, and a power cut makes a prefix of
  them.  \<open>eeprom_update_block\<close> is its bytes one by one.
\<close>

section \<open>The EEPROM\<close>

type_synonym eeprom = "u8 list"
type_synonym eeprom_writes = "(nat \<times> u8) list"

text \<open>A read outside the EEPROM leaves \<open>ret = 0\<close>, a write there is refused.\<close>

definition eeprom_read_byte :: "nat \<Rightarrow> eeprom \<Rightarrow> u8" where
  "eeprom_read_byte a e = (if a < length e then e ! a else 0)"

definition eeprom_update_byte :: "nat \<Rightarrow> u8 \<Rightarrow> eeprom \<Rightarrow> eeprom" where
  "eeprom_update_byte a v e = (if eeprom_read_byte a e \<noteq> v then e[a := v] else e)"

definition eeprom_run :: "eeprom_writes \<Rightarrow> eeprom \<Rightarrow> eeprom" where
  "eeprom_run ws e = fold (\<lambda>(a, v). eeprom_update_byte a v) ws e"

section \<open>The layout\<close>

text \<open>The sizes of the build, its keymap in flash, its date.  \<open>magic_addr\<close> is \<open>VIA_EEPROM_MAGIC_ADDR\<close>, \<open>max_addr\<close>
  \<open>DYNAMIC_KEYMAP_EEPROM_MAX_ADDR\<close>.\<close>

record via_build =
  LAYER_COUNT :: nat
  ROWS :: nat
  COLS :: nat
  NUM_ENCODERS :: nat
  MACRO_COUNT :: nat
  magic_addr :: nat
  LAYOUT_OPTIONS_SIZE :: nat
  LAYOUT_OPTIONS_DEFAULT :: u32
  max_addr :: nat
  BUILDDATE :: "u8 list"
  flash_keymap :: "u16 list list list"
  flash_encoders :: "(u16 \<times> u16) list list"

definition LAYOUT_OPTIONS_ADDR :: "via_build \<Rightarrow> nat" where
  "LAYOUT_OPTIONS_ADDR b = magic_addr b + 3"

definition KEYMAP_ADDR :: "via_build \<Rightarrow> nat" where
  "KEYMAP_ADDR b = LAYOUT_OPTIONS_ADDR b + LAYOUT_OPTIONS_SIZE b"

definition KEYMAP_SIZE :: "via_build \<Rightarrow> nat" where
  "KEYMAP_SIZE b = LAYER_COUNT b * ROWS b * COLS b * 2"

definition ENCODER_ADDR :: "via_build \<Rightarrow> nat" where
  "ENCODER_ADDR b = KEYMAP_ADDR b + KEYMAP_SIZE b"

definition MACRO_ADDR :: "via_build \<Rightarrow> nat" where
  "MACRO_ADDR b = ENCODER_ADDR b + LAYER_COUNT b * NUM_ENCODERS b * 2 * 2"

definition MACRO_SIZE :: "via_build \<Rightarrow> nat" where
  "MACRO_SIZE b = max_addr b - MACRO_ADDR b + 1"

text \<open>The static assertions, and the widths of the indices.\<close>

definition build_ok :: "via_build \<Rightarrow> bool" where
  "build_ok b \<longleftrightarrow> MACRO_ADDR b + 100 \<le> max_addr b \<and> max_addr b \<le> 65535 \<and>
     LAYER_COUNT b \<le> 32 \<and> ROWS b \<le> 255 \<and> COLS b \<le> 255 \<and> NUM_ENCODERS b \<le> 255 \<and>
     LAYOUT_OPTIONS_SIZE b \<le> 4"

definition key_address :: "via_build \<Rightarrow> u8 \<Rightarrow> u8 \<Rightarrow> u8 \<Rightarrow> nat" where
  "key_address b layer row column =
     KEYMAP_ADDR b + unat layer * ROWS b * COLS b * 2 + unat row * COLS b * 2 + unat column * 2"

definition encoder_address :: "via_build \<Rightarrow> u8 \<Rightarrow> u8 \<Rightarrow> bool \<Rightarrow> nat" where
  "encoder_address b layer encoder_id clockwise =
     ENCODER_ADDR b + unat layer * NUM_ENCODERS b * 2 * 2 + unat encoder_id * 2 * 2 + (if clockwise then 0 else 2)"

definition is_key :: "via_build \<Rightarrow> u8 \<Rightarrow> u8 \<Rightarrow> u8 \<Rightarrow> bool" where
  "is_key b layer row column \<longleftrightarrow> unat layer < LAYER_COUNT b \<and> unat row < ROWS b \<and> unat column < COLS b"

definition is_encoder :: "via_build \<Rightarrow> u8 \<Rightarrow> u8 \<Rightarrow> bool" where
  "is_encoder b layer encoder_id \<longleftrightarrow> unat layer < LAYER_COUNT b \<and> unat encoder_id < NUM_ENCODERS b"

section \<open>Keycodes\<close>

text \<open>Big endian.\<close>

definition read_be16 :: "nat \<Rightarrow> eeprom \<Rightarrow> u16" where
  "read_be16 a e = push_bit 8 (ucast (eeprom_read_byte a e)) OR ucast (eeprom_read_byte (a + 1) e)"

definition write_be16 :: "nat \<Rightarrow> u16 \<Rightarrow> eeprom_writes" where
  "write_be16 a k = [(a, ucast (drop_bit 8 k)), (a + 1, ucast (k AND 0xFF))]"

definition dynamic_keymap_get_keycode :: "via_build \<Rightarrow> u8 \<Rightarrow> u8 \<Rightarrow> u8 \<Rightarrow> eeprom \<Rightarrow> u16" where
  "dynamic_keymap_get_keycode b layer row column e =
     (if \<not> is_key b layer row column then 0 else read_be16 (key_address b layer row column) e)"

definition dynamic_keymap_set_keycode :: "via_build \<Rightarrow> u8 \<Rightarrow> u8 \<Rightarrow> u8 \<Rightarrow> u16 \<Rightarrow> eeprom_writes" where
  "dynamic_keymap_set_keycode b layer row column k =
     (if \<not> is_key b layer row column then [] else write_be16 (key_address b layer row column) k)"

definition dynamic_keymap_get_encoder :: "via_build \<Rightarrow> u8 \<Rightarrow> u8 \<Rightarrow> bool \<Rightarrow> eeprom \<Rightarrow> u16" where
  "dynamic_keymap_get_encoder b layer encoder_id clockwise e =
     (if \<not> is_encoder b layer encoder_id then 0 else read_be16 (encoder_address b layer encoder_id clockwise) e)"

definition dynamic_keymap_set_encoder :: "via_build \<Rightarrow> u8 \<Rightarrow> u8 \<Rightarrow> bool \<Rightarrow> u16 \<Rightarrow> eeprom_writes" where
  "dynamic_keymap_set_encoder b layer encoder_id clockwise k =
     (if \<not> is_encoder b layer encoder_id then [] else write_be16 (encoder_address b layer encoder_id clockwise) k)"

text \<open>The functions the keymap lookup calls, in place of the weak ones of \<open>keymap_introspection.c\<close>.\<close>

definition dynamic_keycode_at :: "via_build \<Rightarrow> u8 \<Rightarrow> u8 \<Rightarrow> u8 \<Rightarrow> eeprom \<Rightarrow> u16" where
  "dynamic_keycode_at b layer row column e =
     (if is_key b layer row column then dynamic_keymap_get_keycode b layer row column e else 0)"

definition dynamic_encoder_keycode_at :: "via_build \<Rightarrow> u8 \<Rightarrow> u8 \<Rightarrow> bool \<Rightarrow> eeprom \<Rightarrow> u16" where
  "dynamic_encoder_keycode_at b layer idx clockwise e =
     (if is_encoder b layer idx then dynamic_keymap_get_encoder b layer idx clockwise e else 0)"

definition keycode_at_keymap_location_raw :: "via_build \<Rightarrow> u8 \<Rightarrow> u8 \<Rightarrow> u8 \<Rightarrow> u16" where
  "keycode_at_keymap_location_raw b layer row column =
     (if unat layer < length (flash_keymap b) \<and> unat row < ROWS b \<and> unat column < COLS b
      then flash_keymap b ! unat layer ! unat row ! unat column else KC_TRNS)"

definition keycode_at_encodermap_location_raw :: "via_build \<Rightarrow> u8 \<Rightarrow> u8 \<Rightarrow> bool \<Rightarrow> u16" where
  "keycode_at_encodermap_location_raw b layer idx clockwise =
     (if unat layer < length (flash_encoders b) \<and> unat idx < NUM_ENCODERS b
      then (if clockwise then fst else snd) (flash_encoders b ! unat layer ! unat idx) else KC_TRNS)"

definition dynamic_keymap_reset :: "via_build \<Rightarrow> eeprom_writes" where
  "dynamic_keymap_reset b =
     concat (map (\<lambda>layer. let l = of_nat layer in
       concat (map (\<lambda>row. concat (map (\<lambda>column.
           dynamic_keymap_set_keycode b l (of_nat row) (of_nat column) (keycode_at_keymap_location_raw b l (of_nat row) (of_nat column)))
         [0..<COLS b])) [0..<ROWS b]) @
       concat (map (\<lambda>encoder. let i = of_nat encoder in
           dynamic_keymap_set_encoder b l i True (keycode_at_encodermap_location_raw b l i True) @
           dynamic_keymap_set_encoder b l i False (keycode_at_encodermap_location_raw b l i False))
         [0..<NUM_ENCODERS b])) [0..<LAYER_COUNT b])"

section \<open>Buffers\<close>

definition read_area :: "nat \<Rightarrow> nat \<Rightarrow> nat \<Rightarrow> nat \<Rightarrow> eeprom \<Rightarrow> u8 list" where
  "read_area addr area_size offset n e =
     map (\<lambda>i. if offset + i < area_size then eeprom_read_byte (addr + offset + i) e else 0) [0..<n]"

definition update_area :: "nat \<Rightarrow> nat \<Rightarrow> nat \<Rightarrow> u8 list \<Rightarrow> eeprom_writes" where
  "update_area addr area_size offset data =
     concat (map (\<lambda>i. if offset + i < area_size then [(addr + offset + i, data ! i)] else []) [0..<length data])"

definition dynamic_keymap_get_buffer :: "via_build \<Rightarrow> u16 \<Rightarrow> nat \<Rightarrow> eeprom \<Rightarrow> u8 list" where
  "dynamic_keymap_get_buffer b offset n = read_area (KEYMAP_ADDR b) (KEYMAP_SIZE b) (unat offset) n"

definition dynamic_keymap_set_buffer :: "via_build \<Rightarrow> u16 \<Rightarrow> u8 list \<Rightarrow> eeprom_writes" where
  "dynamic_keymap_set_buffer b offset data = update_area (KEYMAP_ADDR b) (KEYMAP_SIZE b) (unat offset) data"

definition dynamic_keymap_macro_get_buffer :: "via_build \<Rightarrow> u16 \<Rightarrow> nat \<Rightarrow> eeprom \<Rightarrow> u8 list" where
  "dynamic_keymap_macro_get_buffer b offset n = read_area (MACRO_ADDR b) (MACRO_SIZE b) (unat offset) n"

definition dynamic_keymap_macro_set_buffer :: "via_build \<Rightarrow> u16 \<Rightarrow> u8 list \<Rightarrow> eeprom_writes" where
  "dynamic_keymap_macro_set_buffer b offset data = update_area (MACRO_ADDR b) (MACRO_SIZE b) (unat offset) data"

text \<open>The chunks of 16 zeros: \<open>i\<close> counts whole chunks, \<open>start\<close> and \<open>remaining\<close> what is left.\<close>

function macro_reset_chunks :: "nat \<Rightarrow> nat \<Rightarrow> nat \<Rightarrow> nat \<Rightarrow> eeprom_writes" where
  "macro_reset_chunks n i start remaining =
     (if i < n then
        (let this_loop = (if remaining < 16 then remaining else 16)
         in map (\<lambda>j. (start + j, 0)) [0..<this_loop] @ macro_reset_chunks n (i + 16) (start + this_loop) (remaining - this_loop))
      else [])"
  by pat_completeness auto

termination by (relation "measure (\<lambda>(n, i, start, remaining). n - i)") auto

declare macro_reset_chunks.simps [simp del]

definition dynamic_keymap_macro_reset :: "via_build \<Rightarrow> eeprom_writes" where
  "dynamic_keymap_macro_reset b = macro_reset_chunks (MACRO_SIZE b) 0 (MACRO_ADDR b) (MACRO_SIZE b)"

section \<open>Macros\<close>

definition dynamic_keymap_read_byte :: "via_build \<Rightarrow> nat \<Rightarrow> eeprom \<Rightarrow> u8" where
  "dynamic_keymap_read_byte b offset e = read_area (MACRO_ADDR b) (MACRO_SIZE b) offset 1 e ! 0"

text \<open>The macro area from \<open>offset\<close> to \<open>end\<close>: what \<open>send_string_get_next_nvm\<close> returns, before the zeros past the end.\<close>

definition macro_text :: "via_build \<Rightarrow> nat \<Rightarrow> eeprom \<Rightarrow> u8 list" where
  "macro_text b offset e = map (\<lambda>i. dynamic_keymap_read_byte b (offset + i) e) [0..<MACRO_SIZE b - offset]"

text \<open>Skipping \<open>id\<close> zeros in the text up to \<open>end\<close>: \<open>None\<close> where the end is met first.\<close>

fun macro_skip :: "nat \<Rightarrow> u8 list \<Rightarrow> u8 list option" where
  "macro_skip 0 cs = Some cs"
| "macro_skip (Suc n) [] = None"
| "macro_skip (Suc n) (c # cs) = macro_skip (if c = 0 then n else Suc n) cs"

definition dynamic_keymap_macro_send :: "kb_env \<Rightarrow> via_build \<Rightarrow> u8 \<Rightarrow> eeprom \<Rightarrow> ('w, 'u) kbd \<Rightarrow> ('w, 'u) kbd option" where
  "dynamic_keymap_macro_send env b macro_id e s =
     (if unat macro_id \<ge> MACRO_COUNT b then Some s
      else if dynamic_keymap_read_byte b (MACRO_SIZE b - 1) e \<noteq> 0 then Some s
      else (case macro_skip (unat macro_id) (macro_text b 0 e) of
              None \<Rightarrow> Some s
            | Some cs \<Rightarrow> send_string_with_delay_impl env 0 cs s))"

abbreviation QK_MACRO :: u16 where "QK_MACRO \<equiv> 0x7700"
abbreviation QK_MACRO_MAX :: u16 where "QK_MACRO_MAX \<equiv> 0x777F"

definition process_record_via :: "kb_env \<Rightarrow> via_build \<Rightarrow> u16 \<Rightarrow> bool \<Rightarrow> eeprom \<Rightarrow> ('w, 'u) kbd \<Rightarrow> (bool \<times> ('w, 'u) kbd) option" where
  "process_record_via env b keycode pressed e s =
     (if pressed \<and> QK_MACRO \<le> keycode \<and> keycode \<le> QK_MACRO_MAX
      then map_option (Pair False) (dynamic_keymap_macro_send env b (ucast (keycode - QK_MACRO)) e s)
      else Some (True, s))"

section \<open>Layout options and the magic\<close>

definition via_get_layout_options :: "via_build \<Rightarrow> eeprom \<Rightarrow> u32" where
  "via_get_layout_options b e =
     fold (\<lambda>i v. push_bit 8 v OR ucast (eeprom_read_byte (LAYOUT_OPTIONS_ADDR b + i) e)) [0..<LAYOUT_OPTIONS_SIZE b] 0"

definition via_set_layout_options :: "via_build \<Rightarrow> u32 \<Rightarrow> eeprom_writes" where
  "via_set_layout_options b v =
     map (\<lambda>i. (LAYOUT_OPTIONS_ADDR b + LAYOUT_OPTIONS_SIZE b - 1 - i, ucast (drop_bit (8 * i) v AND 0xFF))) [0..<LAYOUT_OPTIONS_SIZE b]"

definition bcd :: "u8 \<Rightarrow> u8 \<Rightarrow> u8" where
  "bcd p q = push_bit 4 (p AND 0x0F) OR (q AND 0x0F)"

definition build_magic :: "via_build \<Rightarrow> u8 list" where
  "build_magic b = (let p = BUILDDATE b in [bcd (p ! 2) (p ! 3), bcd (p ! 5) (p ! 6), bcd (p ! 8) (p ! 9)])"

definition nvm_via_read_magic :: "via_build \<Rightarrow> eeprom \<Rightarrow> u8 list" where
  "nvm_via_read_magic b e = map (\<lambda>i. eeprom_read_byte (magic_addr b + i) e) [0, 1, 2]"

definition nvm_via_update_magic :: "via_build \<Rightarrow> u8 list \<Rightarrow> eeprom_writes" where
  "nvm_via_update_magic b m = [(magic_addr b, m ! 0), (magic_addr b + 1, m ! 1), (magic_addr b + 2, m ! 2)]"

definition via_eeprom_is_valid :: "via_build \<Rightarrow> eeprom \<Rightarrow> bool" where
  "via_eeprom_is_valid b e \<longleftrightarrow> nvm_via_read_magic b e = build_magic b"

definition via_eeprom_set_valid :: "via_build \<Rightarrow> bool \<Rightarrow> eeprom_writes" where
  "via_eeprom_set_valid b v = nvm_via_update_magic b (if v then build_magic b else [0xFF, 0xFF, 0xFF])"

definition eeconfig_init_via :: "via_build \<Rightarrow> eeprom_writes" where
  "eeconfig_init_via b =
     via_eeprom_set_valid b False @ via_set_layout_options b (LAYOUT_OPTIONS_DEFAULT b) @ dynamic_keymap_reset b @
     dynamic_keymap_macro_reset b @ via_eeprom_set_valid b True"

definition via_init :: "via_build \<Rightarrow> eeprom \<Rightarrow> eeprom" where
  "via_init b e = (if \<not> via_eeprom_is_valid b e then eeprom_run (eeconfig_init_via b) e else e)"

section \<open>What a list of writes leaves\<close>

lemma update_byte_upd: "a < length e \<Longrightarrow> eeprom_update_byte a v e = e[a := v]"
  by (auto simp: eeprom_update_byte_def eeprom_read_byte_def)

lemma length_update_byte [simp]: "length (eeprom_update_byte a v e) = length e"
  by (simp add: eeprom_update_byte_def)

lemma length_run [simp]: "length (eeprom_run ws e) = length e"
  unfolding eeprom_run_def by (induction ws arbitrary: e) (auto simp: split_def)

lemma run_Nil [simp]: "eeprom_run [] e = e"
  by (simp add: eeprom_run_def)

lemma run_append [simp]: "eeprom_run (us @ ws) e = eeprom_run ws (eeprom_run us e)"
  by (simp add: eeprom_run_def)

lemma bytes_read_update: "a < length e \<Longrightarrow> eeprom_read_byte x (eeprom_update_byte a v e) = (if x = a then v else eeprom_read_byte x e)"
  by (auto simp: update_byte_upd eeprom_read_byte_def)

lemma read_run:
  assumes "\<And>a v. (a, v) \<in> set ws \<Longrightarrow> a < length e"
  shows "eeprom_read_byte x (eeprom_run ws e) = (case map_of (rev ws) x of None \<Rightarrow> eeprom_read_byte x e | Some v \<Rightarrow> v)"
  using assms
proof (induction ws rule: rev_induct)
  case (snoc w ws)
  obtain a v where w: "w = (a, v)" by fastforce
  have IH: "eeprom_read_byte x (eeprom_run ws e) = (case map_of (rev ws) x of None \<Rightarrow> eeprom_read_byte x e | Some v \<Rightarrow> v)"
    by (rule snoc.IH) (use snoc.prems in auto)
  have "a < length (eeprom_run ws e)" using snoc.prems [of a v] w by simp
  from bytes_read_update [OF this] IH show ?case by (simp add: w) (simp add: eeprom_run_def)
qed simp

definition written :: "eeprom_writes \<Rightarrow> nat set" where
  "written ws = fst ` set ws"

lemma written_simps [simp]: "written [] = {}" "written (us @ ws) = written us \<union> written ws" "written ((a, v) # ws) = insert a (written ws)"
  "written (concat wss) = (\<Union>ws \<in> set wss. written ws)"
  by (auto simp: written_def image_Un)

lemma read_frame: "x \<notin> written ws \<Longrightarrow> eeprom_read_byte x (eeprom_run ws e) = eeprom_read_byte x e"
proof (induction ws arbitrary: e)
  case (Cons w ws)
  obtain a v where w: "w = (a, v)" by fastforce
  have "eeprom_read_byte x (eeprom_update_byte a v e) = eeprom_read_byte x e"
    using Cons.prems w by (auto simp: eeprom_update_byte_def eeprom_read_byte_def)
  then show ?case using Cons w by (auto simp: eeprom_run_def)
qed simp

section \<open>Addresses\<close>

definition index_of :: "via_build \<Rightarrow> u8 \<Rightarrow> u8 \<Rightarrow> u8 \<Rightarrow> nat" where
  "index_of b layer row column = (unat layer * ROWS b + unat row) * COLS b + unat column"

lemma radix_less: "x < n \<Longrightarrow> y < m \<Longrightarrow> x * m + y < n * (m :: nat)"
proof -
  assume "x < n" and "y < m"
  then have "x * m + y < x * m + m" by simp
  also have "\<dots> = Suc x * m" by simp
  also have "\<dots> \<le> n * m" using \<open>x < n\<close> by (intro mult_le_mono1) simp
  finally show "x * m + y < n * m" .
qed

lemma radix_inject: "y < m \<Longrightarrow> y' < m \<Longrightarrow> x * m + y = x' * m + y' \<longleftrightarrow> x = x' \<and> y = (y' :: nat)"
proof -
  assume y: "y < m" "y' < m"
  have "(x * m + y) div m = x" "(x * m + y) mod m = y" "(x' * m + y') div m = x'" "(x' * m + y') mod m = y'"
    using y by simp_all
  then show "x * m + y = x' * m + y' \<longleftrightarrow> x = x' \<and> y = y'" by metis
qed

lemma key_address_index: "key_address b l r c = KEYMAP_ADDR b + 2 * index_of b l r c"
  by (simp add: key_address_def index_of_def algebra_simps)

lemma index_less: "is_key b l r c \<Longrightarrow> index_of b l r c < LAYER_COUNT b * ROWS b * COLS b"
  unfolding index_of_def is_key_def by (intro radix_less) auto

lemma index_inject:
  "is_key b l r c \<Longrightarrow> is_key b l' r' c' \<Longrightarrow> index_of b l r c = index_of b l' r' c' \<longleftrightarrow> l = l' \<and> r = r' \<and> c = c'"
  unfolding index_of_def is_key_def by (simp add: radix_inject word_unat_eq_iff conj_assoc)

lemma key_range: "is_key b l r c \<Longrightarrow> KEYMAP_ADDR b \<le> key_address b l r c \<and> key_address b l r c + 1 < ENCODER_ADDR b"
  using index_less [of b l r c] by (simp add: key_address_index ENCODER_ADDR_def KEYMAP_SIZE_def)

definition encoder_index :: "via_build \<Rightarrow> u8 \<Rightarrow> u8 \<Rightarrow> bool \<Rightarrow> nat" where
  "encoder_index b l i cw = (unat l * NUM_ENCODERS b + unat i) * 2 + (if cw then 0 else 1)"

lemma encoder_address_index: "encoder_address b l i cw = ENCODER_ADDR b + 2 * encoder_index b l i cw"
  by (simp add: encoder_address_def encoder_index_def algebra_simps)

lemma encoder_index_less: "is_encoder b l i \<Longrightarrow> encoder_index b l i cw < LAYER_COUNT b * NUM_ENCODERS b * 2"
  unfolding encoder_index_def is_encoder_def by (intro radix_less) auto

lemma encoder_index_inject:
  "is_encoder b l i \<Longrightarrow> is_encoder b l' i' \<Longrightarrow> encoder_index b l i cw = encoder_index b l' i' cw' \<longleftrightarrow> l = l' \<and> i = i' \<and> cw = cw'"
  unfolding encoder_index_def is_encoder_def
  by (subst radix_inject) (auto simp: radix_inject word_unat_eq_iff)

lemma encoder_range:
  "is_encoder b l i \<Longrightarrow> ENCODER_ADDR b \<le> encoder_address b l i cw \<and> encoder_address b l i cw + 1 < MACRO_ADDR b"
  using encoder_index_less [of b l i cw] by (simp add: encoder_address_index MACRO_ADDR_def)

lemma areas:
  "magic_addr b + 2 < LAYOUT_OPTIONS_ADDR b" "LAYOUT_OPTIONS_ADDR b + LAYOUT_OPTIONS_SIZE b = KEYMAP_ADDR b"
  "KEYMAP_ADDR b \<le> ENCODER_ADDR b" "ENCODER_ADDR b \<le> MACRO_ADDR b"
  by (simp_all add: LAYOUT_OPTIONS_ADDR_def KEYMAP_ADDR_def ENCODER_ADDR_def MACRO_ADDR_def)

lemma macro_end: "build_ok b \<Longrightarrow> MACRO_ADDR b + MACRO_SIZE b = max_addr b + 1"
  by (simp add: build_ok_def MACRO_SIZE_def)

section \<open>Setting one key\<close>

lemma be16_inverse: "push_bit 8 (ucast (ucast (drop_bit 8 k) :: u8)) OR ucast (ucast (k AND 0xFF) :: u8) = k" for k :: u16
  by (rule bit_word_eqI) (auto simp: bit_simps byte_masks dest: bit_imp_le_length)

lemma read_write_be16: "a + 1 < length e \<Longrightarrow> read_be16 a (eeprom_run (write_be16 a k) e) = k"
  by (simp add: read_be16_def write_be16_def eeprom_run_def bytes_read_update be16_inverse)

lemma written_be16 [simp]: "written (write_be16 a k) = {a, a + 1}"
  by (simp add: write_be16_def)

lemma read_be16_frame: "{a, a + 1} \<inter> written ws = {} \<Longrightarrow> read_be16 a (eeprom_run ws e) = read_be16 a e"
  by (simp add: read_be16_def read_frame)

lemma written_set_keycode:
  "written (dynamic_keymap_set_keycode b l r c k) = (if is_key b l r c then {key_address b l r c, key_address b l r c + 1} else {})"
  by (simp add: dynamic_keymap_set_keycode_def)

lemma written_set_encoder:
  "written (dynamic_keymap_set_encoder b l i cw k) =
     (if is_encoder b l i then {encoder_address b l i cw, encoder_address b l i cw + 1} else {})"
  by (simp add: dynamic_keymap_set_encoder_def)

lemma get_set_keycode:
  assumes "build_ok b" and "max_addr b < length e" and "is_key b l r c"
  shows "dynamic_keymap_get_keycode b l' r' c' (eeprom_run (dynamic_keymap_set_keycode b l r c k) e) =
     (if l' = l \<and> r' = r \<and> c' = c then k else dynamic_keymap_get_keycode b l' r' c' e)"
proof (cases "is_key b l' r' c'")
  case True
  have len: "key_address b l r c + 1 < length e"
    using key_range [OF assms(3)] areas [of b] assms(1,2) by (simp add: build_ok_def)
  show ?thesis
  proof (cases "l' = l \<and> r' = r \<and> c' = c")
    case same: True
    then show ?thesis using assms(3) read_write_be16 [OF len] by (simp add: dynamic_keymap_get_keycode_def dynamic_keymap_set_keycode_def)
  next
    case False
    then have "index_of b l' r' c' \<noteq> index_of b l r c" using index_inject [OF True assms(3)] by simp
    then have "{key_address b l' r' c', key_address b l' r' c' + 1} \<inter> written (dynamic_keymap_set_keycode b l r c k) = {}"
      using assms(3) by (auto simp: written_set_keycode key_address_index)
    then show ?thesis using False True by (auto simp: dynamic_keymap_get_keycode_def read_be16_frame)
  qed
next
  case False
  then have "\<not> (l' = l \<and> r' = r \<and> c' = c)" using assms(3) by blast
  with False show ?thesis by (auto simp: dynamic_keymap_get_keycode_def)
qed

section \<open>The reset\<close>

text \<open>A list that writes one value to an address leaves it there.\<close>

lemma read_written:
  assumes "(a, v) \<in> set ws" and "\<And>v'. (a, v') \<in> set ws \<Longrightarrow> v' = v" and "\<And>x w. (x, w) \<in> set ws \<Longrightarrow> x < length e"
  shows "eeprom_read_byte a (eeprom_run ws e) = v"
proof -
  have "a \<in> fst ` set (rev ws)" using assms(1) by force
  then obtain v' where v': "map_of (rev ws) a = Some v'" by (meson not_None_eq map_of_eq_None_iff)
  then have "(a, v') \<in> set ws" using map_of_SomeD [OF v'] by simp
  then show ?thesis using read_run [OF assms(3), of ws] v' assms(2) by simp
qed

lemma keys_of_loops:
  assumes "LAYER_COUNT b \<le> 32" and "ROWS b \<le> 255" and "COLS b \<le> 255"
  shows "(\<exists>l \<in> {0..<LAYER_COUNT b}. \<exists>r \<in> {0..<ROWS b}. \<exists>c \<in> {0..<COLS b}. P (of_nat l) (of_nat r) (of_nat c)) \<longleftrightarrow>
    (\<exists>l r c. is_key b l r c \<and> P l r c)" (is "?L \<longleftrightarrow> ?R")
proof
  assume ?L
  then obtain l r c where k: "l < LAYER_COUNT b" "r < ROWS b" "c < COLS b" "P (of_nat l) (of_nat r) (of_nat c)" by auto
  have "is_key b (of_nat l) (of_nat r) (of_nat c)" using k(1-3) assms by (simp add: is_key_def unat_of_nat take_bit_nat_eq_self)
  with k(4) show ?R by blast
next
  assume ?R
  then obtain l r c where k: "is_key b l r c" "P l r c" by blast
  then have "P (of_nat (unat l)) (of_nat (unat r)) (of_nat (unat c))" by simp
  moreover have "unat l \<in> {0..<LAYER_COUNT b}" "unat r \<in> {0..<ROWS b}" "unat c \<in> {0..<COLS b}" using k(1) by (simp_all add: is_key_def)
  ultimately show ?L by blast
qed

lemma encoders_of_loops:
  assumes "LAYER_COUNT b \<le> 32" and "NUM_ENCODERS b \<le> 255"
  shows "(\<exists>l \<in> {0..<LAYER_COUNT b}. \<exists>i \<in> {0..<NUM_ENCODERS b}. P (of_nat l) (of_nat i)) \<longleftrightarrow> (\<exists>l i. is_encoder b l i \<and> P l i)" (is "?L \<longleftrightarrow> ?R")
proof
  assume ?L
  then obtain l i where k: "l < LAYER_COUNT b" "i < NUM_ENCODERS b" "P (of_nat l) (of_nat i)" by auto
  have "is_encoder b (of_nat l) (of_nat i)" using k(1-2) assms by (simp add: is_encoder_def unat_of_nat take_bit_nat_eq_self)
  with k(3) show ?R by blast
next
  assume ?R
  then obtain l i where k: "is_encoder b l i" "P l i" by blast
  then have "P (of_nat (unat l)) (of_nat (unat i))" by simp
  moreover have "unat l \<in> {0..<LAYER_COUNT b}" "unat i \<in> {0..<NUM_ENCODERS b}" using k(1) by (simp_all add: is_encoder_def)
  ultimately show ?L by blast
qed

definition key_writes :: "via_build \<Rightarrow> nat \<times> u8 \<Rightarrow> bool" where
  "key_writes b w \<longleftrightarrow> (\<exists>l r c. is_key b l r c \<and> w \<in> set (write_be16 (key_address b l r c) (keycode_at_keymap_location_raw b l r c)))"

definition encoder_writes :: "via_build \<Rightarrow> nat \<times> u8 \<Rightarrow> bool" where
  "encoder_writes b w \<longleftrightarrow> (\<exists>l i. is_encoder b l i \<and>
     (\<exists>cw. w \<in> set (write_be16 (encoder_address b l i cw) (keycode_at_encodermap_location_raw b l i cw))))"

lemma reset_writes:
  assumes "build_ok b"
  shows "w \<in> set (dynamic_keymap_reset b) \<longleftrightarrow> key_writes b w \<or> encoder_writes b w"
proof -
  have bd: "LAYER_COUNT b \<le> 32" "ROWS b \<le> 255" "COLS b \<le> 255" "NUM_ENCODERS b \<le> 255" using assms by (simp_all add: build_ok_def)
  have "w \<in> set (dynamic_keymap_reset b) \<longleftrightarrow>
     (\<exists>l \<in> {0..<LAYER_COUNT b}. \<exists>r \<in> {0..<ROWS b}. \<exists>c \<in> {0..<COLS b}.
        w \<in> set (dynamic_keymap_set_keycode b (of_nat l) (of_nat r) (of_nat c) (keycode_at_keymap_location_raw b (of_nat l) (of_nat r) (of_nat c)))) \<or>
     (\<exists>l \<in> {0..<LAYER_COUNT b}. \<exists>i \<in> {0..<NUM_ENCODERS b}. \<exists>cw.
        w \<in> set (dynamic_keymap_set_encoder b (of_nat l) (of_nat i) cw (keycode_at_encodermap_location_raw b (of_nat l) (of_nat i) cw)))"
    by (auto simp: dynamic_keymap_reset_def Let_def ex_bool_eq)
  also have "\<dots> \<longleftrightarrow> key_writes b w \<or> encoder_writes b w"
    unfolding keys_of_loops [OF bd(1-3), where P = "\<lambda>l r c. w \<in> set (dynamic_keymap_set_keycode b l r c (keycode_at_keymap_location_raw b l r c))"]
      encoders_of_loops [OF bd(1,4), where P = "\<lambda>l i. \<exists>cw. w \<in> set (dynamic_keymap_set_encoder b l i cw (keycode_at_encodermap_location_raw b l i cw))"]
    by (auto simp: key_writes_def encoder_writes_def dynamic_keymap_set_keycode_def dynamic_keymap_set_encoder_def)
  finally show ?thesis .
qed

lemma set_be16: "(a, v) \<in> set (write_be16 x k) \<longleftrightarrow> (a = x \<and> v = ucast (drop_bit 8 k)) \<or> (a = x + 1 \<and> v = ucast (k AND 0xFF))"
  by (auto simp: write_be16_def)

lemma key_write_unique:
  assumes "is_key b l r c" and "key_writes b (a, v)" and "a = key_address b l r c + j" and "j \<le> 1"
  shows "v = (if j = 0 then ucast (drop_bit 8 (keycode_at_keymap_location_raw b l r c)) else ucast (keycode_at_keymap_location_raw b l r c AND 0xFF))"
proof -
  obtain l' r' c' where k: "is_key b l' r' c'"
    and w: "(a, v) \<in> set (write_be16 (key_address b l' r' c') (keycode_at_keymap_location_raw b l' r' c'))"
    using assms(2) by (auto simp: key_writes_def)
  have "index_of b l' r' c' = index_of b l r c" using w assms(3,4) by (auto simp: set_be16 key_address_index)
  then have "l' = l \<and> r' = r \<and> c' = c" using index_inject [OF k assms(1)] by simp
  then show ?thesis using w assms(3,4) by (auto simp: set_be16)
qed

lemma encoder_write_unique:
  assumes "is_encoder b l i" and "encoder_writes b (a, v)" and "a = encoder_address b l i cw + j" and "j \<le> 1"
  shows "v = (if j = 0 then ucast (drop_bit 8 (keycode_at_encodermap_location_raw b l i cw)) else ucast (keycode_at_encodermap_location_raw b l i cw AND 0xFF))"
proof -
  obtain l' i' cw' where k: "is_encoder b l' i'"
    and w: "(a, v) \<in> set (write_be16 (encoder_address b l' i' cw') (keycode_at_encodermap_location_raw b l' i' cw'))"
    using assms(2) by (auto simp: encoder_writes_def)
  have "encoder_index b l' i' cw' = encoder_index b l i cw" using w assms(3,4) by (auto simp: set_be16 encoder_address_index)
  then have "l' = l \<and> i' = i \<and> cw' = cw" using encoder_index_inject [OF k assms(1)] by simp
  then show ?thesis using w assms(3,4) by (auto simp: set_be16)
qed

lemma key_write_range: "key_writes b (a, v) \<Longrightarrow> KEYMAP_ADDR b \<le> a \<and> a < ENCODER_ADDR b"
  using key_range by (fastforce simp: key_writes_def set_be16)

lemma encoder_write_range: "encoder_writes b (a, v) \<Longrightarrow> ENCODER_ADDR b \<le> a \<and> a < MACRO_ADDR b"
proof -
  assume "encoder_writes b (a, v)"
  then obtain l i cw where "is_encoder b l i" "a = encoder_address b l i cw \<or> a = encoder_address b l i cw + 1"
    by (auto simp: encoder_writes_def set_be16)
  with encoder_range [OF this(1), of cw] show "ENCODER_ADDR b \<le> a \<and> a < MACRO_ADDR b" by auto
qed

lemma be16_byte: "j \<le> 1 \<Longrightarrow> (x + j, if j = 0 then ucast (drop_bit 8 k) else ucast (k AND 0xFF)) \<in> set (write_be16 x k)"
  by (cases j) (simp_all add: set_be16)

lemma key_write_made:
  "is_key b l r c \<Longrightarrow> j \<le> 1 \<Longrightarrow> key_writes b (key_address b l r c + j,
     if j = 0 then ucast (drop_bit 8 (keycode_at_keymap_location_raw b l r c)) else ucast (keycode_at_keymap_location_raw b l r c AND 0xFF))"
  unfolding key_writes_def using be16_byte by blast

lemma encoder_write_made:
  "is_encoder b l i \<Longrightarrow> j \<le> 1 \<Longrightarrow> encoder_writes b (encoder_address b l i cw + j,
     if j = 0 then ucast (drop_bit 8 (keycode_at_encodermap_location_raw b l i cw)) else ucast (keycode_at_encodermap_location_raw b l i cw AND 0xFF))"
  unfolding encoder_writes_def using be16_byte by blast

lemma after_reset:
  assumes "build_ok b" and "max_addr b < length e"
  defines "e' \<equiv> eeprom_run (dynamic_keymap_reset b) e"
  shows "is_key b l r c \<Longrightarrow> dynamic_keymap_get_keycode b l r c e' = keycode_at_keymap_location_raw b l r c"
    and "is_encoder b l i \<Longrightarrow> dynamic_keymap_get_encoder b l i cw e' = keycode_at_encodermap_location_raw b l i cw"
proof -
  have fits: "x < length e" if "(x, w) \<in> set (dynamic_keymap_reset b)" for x w
    using that key_write_range [of b x w] encoder_write_range [of b x w] areas(4) [of b] assms(1,2)
    by (auto simp: reset_writes [OF assms(1)] build_ok_def)
  show "dynamic_keymap_get_keycode b l r c e' = keycode_at_keymap_location_raw b l r c" if k: "is_key b l r c"
  proof -
    let ?k = "keycode_at_keymap_location_raw b l r c" and ?a = "key_address b l r c"
    have "eeprom_read_byte (?a + j) e' = (if j = 0 then ucast (drop_bit 8 ?k) else ucast (?k AND 0xFF))" if "j \<le> 1" for j
      unfolding e'_def
    proof (rule read_written [OF _ _ fits])
      show "(?a + j, if j = 0 then ucast (drop_bit 8 ?k) else ucast (?k AND 0xFF)) \<in> set (dynamic_keymap_reset b)"
        using key_write_made [OF k that] by (simp add: reset_writes [OF assms(1)])
      fix v' assume "(?a + j, v') \<in> set (dynamic_keymap_reset b)"
      then have "key_writes b (?a + j, v')"
        using encoder_write_range [of b "?a + j" v'] key_range [OF k] \<open>j \<le> 1\<close> by (auto simp: reset_writes [OF assms(1)])
      from key_write_unique [OF k this refl that]
      show "v' = (if j = 0 then ucast (drop_bit 8 ?k) else ucast (?k AND 0xFF))" .
    qed
    from this [of 0] this [of 1] k show ?thesis
      by (simp add: dynamic_keymap_get_keycode_def read_be16_def be16_inverse)
  qed
  show "dynamic_keymap_get_encoder b l i cw e' = keycode_at_encodermap_location_raw b l i cw" if k: "is_encoder b l i"
  proof -
    let ?k = "keycode_at_encodermap_location_raw b l i cw" and ?a = "encoder_address b l i cw"
    have "eeprom_read_byte (?a + j) e' = (if j = 0 then ucast (drop_bit 8 ?k) else ucast (?k AND 0xFF))" if "j \<le> 1" for j
      unfolding e'_def
    proof (rule read_written [OF _ _ fits])
      show "(?a + j, if j = 0 then ucast (drop_bit 8 ?k) else ucast (?k AND 0xFF)) \<in> set (dynamic_keymap_reset b)"
        using encoder_write_made [OF k that] by (simp add: reset_writes [OF assms(1)])
      fix v' assume "(?a + j, v') \<in> set (dynamic_keymap_reset b)"
      then have "encoder_writes b (?a + j, v')"
        using key_write_range [of b "?a + j" v'] encoder_range [OF k, of cw] \<open>j \<le> 1\<close> by (auto simp: reset_writes [OF assms(1)])
      from encoder_write_unique [OF k this refl that]
      show "v' = (if j = 0 then ucast (drop_bit 8 ?k) else ucast (?k AND 0xFF))" .
    qed
    from this [of 0] this [of 1] k show ?thesis
      by (simp add: dynamic_keymap_get_encoder_def read_be16_def be16_inverse)
  qed
qed

text \<open>The chunks cover the macro area, with zeros.\<close>

lemma set_macro_reset_chunks:
  "remaining = n - i \<Longrightarrow> set (macro_reset_chunks n i start remaining) = {(a, 0) | a. start \<le> a \<and> a < start + remaining}"
proof (induction n i start remaining rule: macro_reset_chunks.induct)
  case (1 n i start remaining)
  show ?case
  proof (cases "i < n")
    case True
    define k where "k = (if remaining < 16 then remaining else 16)"
    have k: "k \<le> remaining" "remaining - k = n - (i + 16)" using 1(2) by (auto simp: k_def)
    have u: "macro_reset_chunks n i start remaining = map (\<lambda>j. (start + j, 0)) [0..<k] @ macro_reset_chunks n (i + 16) (start + k) (remaining - k)"
      using True by (subst macro_reset_chunks.simps) (simp add: k_def)
    have "set (macro_reset_chunks n (i + 16) (start + k) (remaining - k)) = {(a, 0) | a. start + k \<le> a \<and> a < start + k + (remaining - k)}"
      using 1(1) [OF True k_def k(2)] by simp
    moreover have "set (map (\<lambda>j. (start + j, 0 :: u8)) [0..<k]) = {(a, 0) | a. start \<le> a \<and> a < start + k}"
      using nat_le_iff_add by (auto simp: image_iff)
    ultimately show ?thesis using k(1) unfolding u by (auto simp del: set_map)
  next
    case False
    then show ?thesis using 1(2) by (subst macro_reset_chunks.simps) auto
  qed
qed

lemma macro_reset_writes:
  "set (dynamic_keymap_macro_reset b) = {(a, 0) | a. MACRO_ADDR b \<le> a \<and> a < MACRO_ADDR b + MACRO_SIZE b}"
  by (simp add: dynamic_keymap_macro_reset_def set_macro_reset_chunks)

lemma after_macro_reset:
  assumes "build_ok b" and "max_addr b < length e"
  shows "dynamic_keymap_read_byte b i (eeprom_run (dynamic_keymap_macro_reset b) e) = 0"
proof (cases "i < MACRO_SIZE b")
  case True
  have "eeprom_read_byte (MACRO_ADDR b + i) (eeprom_run (dynamic_keymap_macro_reset b) e) = 0"
    by (rule read_written) (use True macro_end [OF assms(1)] assms(2) in \<open>auto simp: macro_reset_writes\<close>)
  then show ?thesis using True by (simp add: dynamic_keymap_read_byte_def read_area_def)
next
  case False
  then show ?thesis by (simp add: dynamic_keymap_read_byte_def read_area_def)
qed

section \<open>The factory state and a power cut\<close>

definition factory_state :: "via_build \<Rightarrow> eeprom \<Rightarrow> bool" where
  "factory_state b e \<longleftrightarrow> via_eeprom_is_valid b e \<and>
     (\<forall>l r c. is_key b l r c \<longrightarrow> dynamic_keymap_get_keycode b l r c e = keycode_at_keymap_location_raw b l r c) \<and>
     (\<forall>l i cw. is_encoder b l i \<longrightarrow> dynamic_keymap_get_encoder b l i cw e = keycode_at_encodermap_location_raw b l i cw) \<and>
     (\<forall>i. dynamic_keymap_read_byte b i e = 0) \<and>
     via_get_layout_options b e = take_bit (8 * LAYOUT_OPTIONS_SIZE b) (LAYOUT_OPTIONS_DEFAULT b)"

definition dated :: "via_build \<Rightarrow> bool" where
  "dated b \<longleftrightarrow> 10 \<le> length (BUILDDATE b) \<and> (\<forall>i \<in> {2, 5, 8}. isdigit (BUILDDATE b ! i))"

lemma bcd_not_erased: "isdigit p \<Longrightarrow> bcd p q \<noteq> 0xFF"
proof
  assume p: "isdigit p" and "bcd p q = 0xFF"
  then have "bit (bcd p q) (4 + n)" if "n < 4" for n using that by (simp add: byte_masks bit_simps)
  then have "bit p n" if "n < 4" for n using that by (fastforce simp: bcd_def bit_simps byte_masks)
  then have "p AND 15 = 15" by (intro bit_word_eqI) (auto simp: byte_masks bit_simps)
  moreover have "unat (p AND 15) = unat p mod 16" by (simp add: byte_masks take_bit_eq_mod unat_mod flip: take_bit_eq_mask)
  ultimately have "unat p mod 16 = 15" by simp
  moreover have "48 \<le> unat p" "unat p \<le> 57" using p by (simp_all add: isdigit_def word_le_nat_alt)
  ultimately show False by presburger
qed

lemma magic_frame: "\<forall>a \<in> written ws. magic_addr b + 2 < a \<Longrightarrow> nvm_via_read_magic b (eeprom_run ws e) = nvm_via_read_magic b e"
proof -
  assume "\<forall>a \<in> written ws. magic_addr b + 2 < a"
  then have "magic_addr b + i \<notin> written ws" if "i \<le> 2" for i using that by fastforce
  then have "eeprom_read_byte (magic_addr b + i) (eeprom_run ws e) = eeprom_read_byte (magic_addr b + i) e" if "i \<le> 2" for i
    using that by (simp add: read_frame)
  from this [of 0] this [of 1] this [of 2] show ?thesis by (simp add: nvm_via_read_magic_def)
qed

lemma written_magic [simp]: "written (via_eeprom_set_valid b v) = {magic_addr b, magic_addr b + 1, magic_addr b + 2}"
  by (auto simp: via_eeprom_set_valid_def nvm_via_update_magic_def)

lemma written_layout: "a \<in> written (via_set_layout_options b v) \<Longrightarrow> LAYOUT_OPTIONS_ADDR b \<le> a \<and> a < KEYMAP_ADDR b"
  by (auto simp: written_def via_set_layout_options_def KEYMAP_ADDR_def)

lemma written_reset: "build_ok b \<Longrightarrow> a \<in> written (dynamic_keymap_reset b) \<Longrightarrow> KEYMAP_ADDR b \<le> a \<and> a < MACRO_ADDR b"
  using key_write_range [of b] encoder_write_range [of b] areas(3,4) [of b] by (fastforce simp: written_def reset_writes)

lemma written_macro_reset: "a \<in> written (dynamic_keymap_macro_reset b) \<longleftrightarrow> MACRO_ADDR b \<le> a \<and> a < MACRO_ADDR b + MACRO_SIZE b"
  by (auto simp: written_def macro_reset_writes image_iff)

lemma layout_frame:
  assumes "\<forall>a \<in> written ws. a < LAYOUT_OPTIONS_ADDR b \<or> KEYMAP_ADDR b \<le> a"
  shows "via_get_layout_options b (eeprom_run ws e) = via_get_layout_options b e"
  unfolding via_get_layout_options_def
proof (rule fold_cong [OF refl refl])
  fix i assume "i \<in> set [0..<LAYOUT_OPTIONS_SIZE b]"
  then have "LAYOUT_OPTIONS_ADDR b + i \<notin> written ws" using assms by (fastforce simp: KEYMAP_ADDR_def)
  then show "(\<lambda>v. push_bit 8 v OR ucast (eeprom_read_byte (LAYOUT_OPTIONS_ADDR b + i) (eeprom_run ws e))) =
    (\<lambda>v. push_bit 8 v OR ucast (eeprom_read_byte (LAYOUT_OPTIONS_ADDR b + i) e))" by (simp add: read_frame)
qed

text \<open>The bytes, the most significant first.\<close>

lemma layout_byte:
  assumes "KEYMAP_ADDR b \<le> length e" and "i < LAYOUT_OPTIONS_SIZE b"
  shows "eeprom_read_byte (LAYOUT_OPTIONS_ADDR b + i) (eeprom_run (via_set_layout_options b v) e) =
    ucast (drop_bit (8 * (LAYOUT_OPTIONS_SIZE b - 1 - i)) v AND 0xFF)"
proof (rule read_written)
  let ?n = "LAYOUT_OPTIONS_SIZE b" and ?A = "LAYOUT_OPTIONS_ADDR b"
  have "?A + ?n - 1 - (?n - 1 - i) = ?A + i" "?n - 1 - i < ?n" using assms(2) by auto
  then show "(?A + i, ucast (drop_bit (8 * (?n - 1 - i)) v AND 0xFF)) \<in> set (via_set_layout_options b v)"
    by (auto simp: via_set_layout_options_def image_iff intro!: bexI [of _ "?n - 1 - i"])
  fix v' assume "(?A + i, v') \<in> set (via_set_layout_options b v)"
  then obtain j where j: "j < ?n" "?A + i = ?A + ?n - 1 - j" "v' = ucast (drop_bit (8 * j) v AND 0xFF)"
    by (auto simp: via_set_layout_options_def)
  then have "j = ?n - 1 - i" by linarith
  with j(3) show "v' = ucast (drop_bit (8 * (?n - 1 - i)) v AND 0xFF)" by simp
next
  fix x w assume "(x, w) \<in> set (via_set_layout_options b v)"
  then show "x < length e" using assms by (auto simp: via_set_layout_options_def KEYMAP_ADDR_def)
qed

lemma layout_options_set:
  assumes "KEYMAP_ADDR b \<le> length e"
  shows "via_get_layout_options b (eeprom_run (via_set_layout_options b v) e) = take_bit (8 * LAYOUT_OPTIONS_SIZE b) v"
proof -
  let ?n = "LAYOUT_OPTIONS_SIZE b" and ?e = "eeprom_run (via_set_layout_options b v) e"
  have "fold (\<lambda>i v. push_bit 8 v OR ucast (eeprom_read_byte (LAYOUT_OPTIONS_ADDR b + i) ?e)) [0..<k] 0 =
      take_bit (8 * k) (drop_bit (8 * (?n - k)) v)" if "k \<le> ?n" for k
    using that
  proof (induction k)
    case (Suc k)
    then have IH: "fold (\<lambda>i v. push_bit 8 v OR ucast (eeprom_read_byte (LAYOUT_OPTIONS_ADDR b + i) ?e)) [0..<k] 0 =
      take_bit (8 * k) (drop_bit (8 * (?n - k)) v)" by simp
    have byte: "eeprom_read_byte (LAYOUT_OPTIONS_ADDR b + k) ?e = ucast (drop_bit (8 * (?n - Suc k)) v AND 0xFF)"
      using layout_byte [OF assms, of k v] Suc.prems by simp
    have "8 * (?n - k) = 8 * (?n - Suc k) + 8" using Suc.prems by simp
    then show ?case unfolding upt_Suc fold_append comp_def IH [THEN arg_cong]
      by (simp add: IH byte) (rule bit_word_eqI; auto simp: bit_simps byte_masks)
  qed simp
  from this [of ?n] show ?thesis by (simp add: via_get_layout_options_def)
qed

lemma magic_set:
  assumes "magic_addr b + 2 < length e"
  shows "nvm_via_read_magic b (eeprom_run (nvm_via_update_magic b [x, y, z]) e) = [x, y, z]"
  using assms by (simp add: nvm_via_read_magic_def nvm_via_update_magic_def eeprom_run_def bytes_read_update)

lemma build_magic_3: "build_magic b = [build_magic b ! 0, build_magic b ! 1, build_magic b ! 2]"
  by (simp add: build_magic_def Let_def)

lemma key_frame:
  assumes "\<forall>a \<in> written ws. a < KEYMAP_ADDR b \<or> ENCODER_ADDR b \<le> a"
  shows "dynamic_keymap_get_keycode b l r c (eeprom_run ws e) = dynamic_keymap_get_keycode b l r c e"
proof (cases "is_key b l r c")
  case True
  then have "{key_address b l r c, key_address b l r c + 1} \<inter> written ws = {}" using assms key_range [OF True] by fastforce
  then show ?thesis using read_be16_frame [of "key_address b l r c" ws e] by (simp add: dynamic_keymap_get_keycode_def)
qed (simp add: dynamic_keymap_get_keycode_def)

lemma encoder_frame:
  assumes "\<forall>a \<in> written ws. a < ENCODER_ADDR b \<or> MACRO_ADDR b \<le> a"
  shows "dynamic_keymap_get_encoder b l i cw (eeprom_run ws e) = dynamic_keymap_get_encoder b l i cw e"
proof (cases "is_encoder b l i")
  case True
  then have "{encoder_address b l i cw, encoder_address b l i cw + 1} \<inter> written ws = {}"
    using assms encoder_range [OF True, of cw] by fastforce
  then show ?thesis using read_be16_frame [of "encoder_address b l i cw" ws e] by (simp add: dynamic_keymap_get_encoder_def)
qed (simp add: dynamic_keymap_get_encoder_def)

lemma macro_frame:
  assumes "\<forall>a \<in> written ws. a < MACRO_ADDR b"
  shows "dynamic_keymap_read_byte b i (eeprom_run ws e) = dynamic_keymap_read_byte b i e"
proof -
  have "MACRO_ADDR b + i \<notin> written ws" using assms by fastforce
  then show ?thesis by (simp add: dynamic_keymap_read_byte_def read_area_def read_frame)
qed

lemma after_init:
  assumes "build_ok b" and "max_addr b < length e"
  shows "factory_state b (eeprom_run (eeconfig_init_via b) e)"
proof -
  define e1 where "e1 = eeprom_run (via_set_layout_options b (LAYOUT_OPTIONS_DEFAULT b)) (eeprom_run (via_eeprom_set_valid b False) e)"
  define e2 where "e2 = eeprom_run (dynamic_keymap_reset b) e1"
  define e3 where "e3 = eeprom_run (dynamic_keymap_macro_reset b) e2"
  define e4 where "e4 = eeprom_run (via_eeprom_set_valid b True) e3"
  have len: "max_addr b < length e1" "max_addr b < length e2" "length e3 = length e" using assms(2) by (simp_all add: e1_def e2_def e3_def)
  note ar = areas [of b]
  have ends: "MACRO_ADDR b < max_addr b" using assms(1) by (simp add: build_ok_def)
  have mg: "\<forall>a \<in> written (via_eeprom_set_valid b v). a < LAYOUT_OPTIONS_ADDR b" for v using ar(1) by auto
  have "via_get_layout_options b e1 = take_bit (8 * LAYOUT_OPTIONS_SIZE b) (LAYOUT_OPTIONS_DEFAULT b)"
    unfolding e1_def by (rule layout_options_set) (use assms(2) ar ends in simp)
  moreover have "via_get_layout_options b e4 = via_get_layout_options b e3" "via_get_layout_options b e3 = via_get_layout_options b e2"
    "via_get_layout_options b e2 = via_get_layout_options b e1"
    unfolding e4_def e3_def e2_def
    by (rule layout_frame; use mg [of True] written_macro_reset [of _ b] written_reset [OF assms(1)] ar in fastforce)+
  moreover have "dynamic_keymap_get_keycode b l r c e4 = keycode_at_keymap_location_raw b l r c" if "is_key b l r c" for l r c
  proof -
    have "dynamic_keymap_get_keycode b l r c e4 = dynamic_keymap_get_keycode b l r c e3"
      unfolding e4_def by (rule key_frame) (use mg [of True] ar in fastforce)
    also have "\<dots> = dynamic_keymap_get_keycode b l r c e2"
      unfolding e3_def by (rule key_frame) (use written_macro_reset [of _ b] ar in fastforce)
    also have "\<dots> = keycode_at_keymap_location_raw b l r c" unfolding e2_def by (rule after_reset(1) [OF assms(1) len(1) that])
    finally show ?thesis .
  qed
  moreover have "dynamic_keymap_get_encoder b l i cw e4 = keycode_at_encodermap_location_raw b l i cw" if "is_encoder b l i" for l i cw
  proof -
    have "dynamic_keymap_get_encoder b l i cw e4 = dynamic_keymap_get_encoder b l i cw e3"
      unfolding e4_def by (rule encoder_frame) (use mg [of True] ar in fastforce)
    also have "\<dots> = dynamic_keymap_get_encoder b l i cw e2"
      unfolding e3_def by (rule encoder_frame) (use written_macro_reset [of _ b] in simp)
    also have "\<dots> = keycode_at_encodermap_location_raw b l i cw" unfolding e2_def by (rule after_reset(2) [OF assms(1) len(1) that])
    finally show ?thesis .
  qed
  moreover have "dynamic_keymap_read_byte b i e4 = 0" for i
  proof -
    have "dynamic_keymap_read_byte b i e4 = dynamic_keymap_read_byte b i e3"
      unfolding e4_def by (rule macro_frame) (use mg [of True] ar in fastforce)
    then show ?thesis unfolding e3_def by (simp add: after_macro_reset [OF assms(1) len(2)])
  qed
  moreover have "via_eeprom_is_valid b e4"
  proof -
    have "magic_addr b + 2 < length e3" using len ar ends assms(2) by simp
    from magic_set [OF this, of "build_magic b ! 0" "build_magic b ! 1" "build_magic b ! 2"] show ?thesis
      unfolding via_eeprom_is_valid_def e4_def via_eeprom_set_valid_def build_magic_3 [of b, symmetric] if_P [OF TrueI] .
  qed
  moreover have "e4 = eeprom_run (eeconfig_init_via b) e" by (simp add: e1_def e2_def e3_def e4_def eeconfig_init_via_def)
  ultimately show ?thesis by (simp add: factory_state_def)
qed

text \<open>The magic after part of the reset.\<close>

lemma cut_invalid:
  assumes "build_ok b" and "dated b" and "max_addr b < length e" and "0 < n" and "n < length (eeconfig_init_via b)"
  shows "\<not> via_eeprom_is_valid b (eeprom_run (take n (eeconfig_init_via b)) e)"
proof -
  let ?m = "magic_addr b"
  define M where "M = via_set_layout_options b (LAYOUT_OPTIONS_DEFAULT b) @ dynamic_keymap_reset b @ dynamic_keymap_macro_reset b"
  define T where "T = via_eeprom_set_valid b True"
  have ws: "eeconfig_init_via b = [(?m, 0xFF), (?m + 1, 0xFF), (?m + 2, 0xFF)] @ M @ T"
    by (simp add: eeconfig_init_via_def M_def T_def via_eeprom_set_valid_def nvm_via_update_magic_def)
  have T: "T = [(?m, build_magic b ! 0), (?m + 1, build_magic b ! 1), (?m + 2, build_magic b ! 2)]"
    by (simp add: T_def via_eeprom_set_valid_def nvm_via_update_magic_def)
  have len: "?m + 2 < length e" using assms(1,3) areas [of b] by (simp add: build_ok_def)
  have high: "\<forall>a \<in> written M. ?m + 2 < a"
    using written_layout [of _ b] written_reset [OF assms(1)] written_macro_reset [of _ b] areas [of b] unfolding M_def by fastforce
  have digit: "build_magic b ! 0 \<noteq> 0xFF" "build_magic b ! 2 \<noteq> 0xFF"
    using assms(2) bcd_not_erased by (simp_all add: dated_def build_magic_def Let_def)
  have erased: "eeprom_read_byte ?m (eeprom_run us e) = 0xFF \<or> eeprom_read_byte (?m + 2) (eeprom_run us e) = 0xFF \<Longrightarrow>
      \<not> via_eeprom_is_valid b (eeprom_run us e)" for us
    using digit by (auto simp: via_eeprom_is_valid_def nvm_via_read_magic_def build_magic_def Let_def)
  show ?thesis
  proof (cases "n < 3")
    case True
    then have "n = 1 \<or> n = 2" using assms(4) by linarith
    then have "eeprom_read_byte ?m (eeprom_run (take n (eeconfig_init_via b)) e) = 0xFF"
      using len by (auto simp: ws eeprom_run_def bytes_read_update)
    then show ?thesis using erased by blast
  next
    case False
    define f where "f = eeprom_run [(?m, 0xFF), (?m + 1, 0xFF), (?m + 2, 0xFF)] e"
    have f: "eeprom_read_byte (?m + 2) f = 0xFF" using len by (simp add: f_def eeprom_run_def bytes_read_update)
    have cut: "eeprom_run (take n (eeconfig_init_via b)) e = eeprom_run (take (n - 3 - length M) T) (eeprom_run (take (n - 3) M) f)"
      unfolding ws take_append run_append f_def using False by (simp add: numeral_3_eq_3)
    have "n - 3 - length M < 3" using assms(5) by (auto simp: ws T)
    then have "?m + 2 \<notin> written (take (n - 3 - length M) T)" by (auto simp: T take_Cons')
    moreover have "written (take k M) \<subseteq> written M" for k by (auto simp: written_def dest: in_set_takeD)
    then have "?m + 2 \<notin> written (take (n - 3) M)" using high by blast
    ultimately have "eeprom_read_byte (?m + 2) (eeprom_run (take n (eeconfig_init_via b)) e) = 0xFF"
      unfolding cut using f by (simp add: read_frame)
    then show ?thesis using erased by blast
  qed
qed

text \<open>C32. However many byte writes into the initialisation of the VIA settings the power fails, after
  the next start the keymap and the encoders are those of the firmware, every macro is empty,
  the layout options are the default and the magic is valid.\<close>

theorem interrupted_reset_is_redone:
  assumes "build_ok b" and "dated b" and "max_addr b < length e"
    and "0 < n \<or> \<not> via_eeprom_is_valid b e"
  shows "factory_state b (via_init b (eeprom_run (take n (eeconfig_init_via b)) e))"
proof (cases "n < length (eeconfig_init_via b)")
  case True
  have "\<not> via_eeprom_is_valid b (eeprom_run (take n (eeconfig_init_via b)) e)"
    using cut_invalid [OF assms(1-3) _ True] assms(4) by (cases "n = 0") auto
  then show ?thesis using after_init [OF assms(1)] assms(3) by (simp add: via_init_def)
next
  case False
  then have "factory_state b (eeprom_run (take n (eeconfig_init_via b)) e)" using after_init [OF assms(1,3)] by simp
  then show ?thesis by (simp add: via_init_def factory_state_def)
qed

section \<open>Setting a key leaves the rest\<close>

text \<open>Everything else the host may set stays as it was.\<close>

lemma set_changes_one_key:
  assumes "build_ok b" and "max_addr b < length e" and "is_key b l r c"
    and e'_def: "e' = eeprom_run (dynamic_keymap_set_keycode b l r c k) e"
  shows "dynamic_keymap_get_keycode b l' r' c' e' = (if l' = l \<and> r' = r \<and> c' = c then k else dynamic_keymap_get_keycode b l' r' c' e)
     \<and> dynamic_keymap_get_encoder b l' i cw e' = dynamic_keymap_get_encoder b l' i cw e
     \<and> dynamic_keymap_read_byte b j e' = dynamic_keymap_read_byte b j e
     \<and> via_get_layout_options b e' = via_get_layout_options b e
     \<and> (via_eeprom_is_valid b e' \<longleftrightarrow> via_eeprom_is_valid b e)"
proof -
  have w: "\<forall>a \<in> written (dynamic_keymap_set_keycode b l r c k). KEYMAP_ADDR b \<le> a \<and> a < ENCODER_ADDR b"
    using key_range [OF assms(3)] by (auto simp: written_set_keycode)
  have "dynamic_keymap_get_encoder b l' i cw e' = dynamic_keymap_get_encoder b l' i cw e"
    unfolding e'_def by (rule encoder_frame) (use w in blast)
  moreover have "dynamic_keymap_read_byte b j e' = dynamic_keymap_read_byte b j e"
    unfolding e'_def by (rule macro_frame) (use w areas [of b] in fastforce)
  moreover have "via_get_layout_options b e' = via_get_layout_options b e"
    unfolding e'_def by (rule layout_frame) (use w in blast)
  moreover have "nvm_via_read_magic b e' = nvm_via_read_magic b e"
    unfolding e'_def by (rule magic_frame) (use w areas [of b] in fastforce)
  ultimately show ?thesis using get_set_keycode [OF assms(1-3)] by (simp add: e'_def via_eeprom_is_valid_def)
qed

section \<open>Playing a macro\<close>

lemma skip_text: "\<forall>c \<in> set m. c \<noteq> 0 \<Longrightarrow> macro_skip (Suc n) (m @ 0 # cs) = macro_skip n cs"
  by (induction m) auto

lemma skip_texts:
  assumes "\<forall>m \<in> set ms. \<forall>c \<in> set m. c \<noteq> 0" and "n \<le> length ms"
  shows "macro_skip n (concat (map (\<lambda>m. m @ [0]) ms) @ cs) = Some (concat (map (\<lambda>m. m @ [0]) (drop n ms)) @ cs)"
  using assms
proof (induction ms arbitrary: n)
  case (Cons m ms)
  then show ?case by (cases n) (simp_all add: skip_text)
qed simp

lemma after_macro_write:
  assumes "build_ok b" and "max_addr b < length e" and "length data \<le> MACRO_SIZE b"
  defines "e' \<equiv> eeprom_run (dynamic_keymap_macro_set_buffer b 0 data) (eeprom_run (dynamic_keymap_macro_reset b) e)"
  shows "dynamic_keymap_read_byte b i e' = (if i < length data then data ! i else 0)"
proof -
  let ?ws = "dynamic_keymap_macro_set_buffer b 0 data" and ?e = "eeprom_run (dynamic_keymap_macro_reset b) e"
  have ws: "(a, v) \<in> set ?ws \<longleftrightarrow> (\<exists>j < length data. a = MACRO_ADDR b + j \<and> v = data ! j)" for a v
    using assms(3) by (fastforce simp: dynamic_keymap_macro_set_buffer_def update_area_def)
  show ?thesis
  proof (cases "i < length data")
    case True
    have "eeprom_read_byte (MACRO_ADDR b + i) e' = data ! i"
      unfolding e'_def
    proof (rule read_written)
      show "(MACRO_ADDR b + i, data ! i) \<in> set ?ws" using True by (auto simp: ws)
    next
      fix x w assume "(x, w) \<in> set ?ws"
      then show "x < length ?e" using assms(2,3) macro_end [OF assms(1)] by (auto simp: ws)
    qed (auto simp: ws)
    then show ?thesis using True assms(3) by (simp add: dynamic_keymap_read_byte_def read_area_def)
  next
    case False
    then have "MACRO_ADDR b + i \<notin> written ?ws" by (auto simp: written_def ws)
    then have "dynamic_keymap_read_byte b i e' = dynamic_keymap_read_byte b i ?e"
      by (simp add: e'_def dynamic_keymap_read_byte_def read_area_def read_frame)
    with False show ?thesis by (simp add: after_macro_reset [OF assms(1,2)])
  qed
qed

lemma macro_text_written:
  assumes "\<And>i. dynamic_keymap_read_byte b i e = (if i < length data then data ! i else 0)" and "length data \<le> MACRO_SIZE b"
  shows "macro_text b 0 e = data @ replicate (MACRO_SIZE b - length data) 0"
  by (rule nth_equalityI) (use assms in \<open>auto simp: macro_text_def nth_append\<close>)


section \<open>A small build\<close>

text \<open>One layer of one row of two keys, one encoder, built on 2024-06-17.\<close>

definition demo_build :: via_build where
  "demo_build = \<lparr>LAYER_COUNT = 1, ROWS = 1, COLS = 2, NUM_ENCODERS = 1, MACRO_COUNT = 16, magic_addr = 4, LAYOUT_OPTIONS_SIZE = 1,
     LAYOUT_OPTIONS_DEFAULT = 0, max_addr = 127, BUILDDATE = [50, 48, 50, 52, 45, 48, 54, 45, 49, 55],
     flash_keymap = [[[0x2204, 0x7701]]], flash_encoders = [[(0xA9, 0xAA)]]\<rparr>"

definition demo_eeprom :: eeprom where "demo_eeprom = replicate 128 0xFF"

lemma demo_build_ok: "build_ok demo_build" "dated demo_build" "max_addr demo_build < length demo_eeprom"
  by (simp_all add: build_ok_def dated_def isdigit_def demo_build_def demo_eeprom_def MACRO_ADDR_def ENCODER_ADDR_def KEYMAP_ADDR_def
      KEYMAP_SIZE_def LAYOUT_OPTIONS_ADDR_def)

text \<open>Four writes into the reset the power fails.\<close>

theorem interrupted_reset_is_redone_witness:
  "factory_state demo_build (via_init demo_build (eeprom_run (take 4 (eeconfig_init_via demo_build)) demo_eeprom))"
  by (rule interrupted_reset_is_redone [OF demo_build_ok]) simp

lemma set_changes_one_key_witness:
  "dynamic_keymap_get_keycode demo_build 0 0 1 (eeprom_run (dynamic_keymap_set_keycode demo_build 0 0 1 0x2904) demo_eeprom) = 0x2904 \<and>
   dynamic_keymap_get_keycode demo_build 0 0 0 (eeprom_run (dynamic_keymap_set_keycode demo_build 0 0 1 0x2904) demo_eeprom) = 0xFFFF"
proof -
  have k: "is_key demo_build 0 0 1" by (simp add: is_key_def demo_build_def)
  have "dynamic_keymap_get_keycode demo_build 0 0 0 demo_eeprom = 0xFFFF" by code_simp
  then show ?thesis using set_changes_one_key [OF demo_build_ok(1,3) k refl, of 0 0 1 "0x2904"]
      set_changes_one_key [OF demo_build_ok(1,3) k refl, of 0 0 0 "0x2904"] by simp
qed

text \<open>The macros ``a'' and ``Hi''.\<close>

lemma char_reports_Hi:
  "concat (map char_reports [72, 105]) =
    [Std 2 [0, 0, 0, 0, 0, 0], Std 2 [0x0B, 0, 0, 0, 0, 0], Std 2 [0, 0, 0, 0, 0, 0], Std 0 [0, 0, 0, 0, 0, 0],
     Std 0 [0x0C, 0, 0, 0, 0, 0], Std 0 [0, 0, 0, 0, 0, 0]]"
  by code_simp


end
