(* ===== verification/Via.thy ===== *)
theory Via
  imports DynamicKeymap
begin

text \<open>
  The raw HID commands: the dispatcher of the keyboards (\<open>kc/keychron_raw_hid.c\<close>) and, for what it leaves, the one of
  \<open>quantum/via.c\<close> with the SignalRGB commands.  Configuration: \<open>VIA_ENABLE\<close>, \<open>RGB_MATRIX_ENABLE\<close>, \<open>LK_WIRELESS_ENABLE\<close>; the other build
  options are flags.  The modules the dispatchers call are functions from the packet and the rest of the firmware; the
  calls to the RGB matrix and the packets sent are lists.  A packet is its bytes; reading or writing past them is \<open>None\<close>.
\<close>

section \<open>State\<close>

datatype hid_out = Raw_hid_send "u8 list" | Usb_raw_hid "u8 list" | Wireless_raw_hid "u8 list"

datatype rgb_call =
    rgb_matrix_set_color nat u8 u8 u8 | rgb_matrix_mode_none | rgb_matrix_disable_noeeprom | rgb_matrix_enable_noeeprom
  | rgb_matrix_mode_signalrgb | rgb_matrix_reload_from_eeprom | rgb_matrix_toggle_noeeprom

text \<open>\<open>packet\<close> is the global buffer of the SignalRGB answers.\<close>

record 'u via =
  ee :: eeprom
  packet :: "u8 list"
  hid_sent :: "hid_out list"
  rgb_calls :: "rgb_call list"
  firmware :: 'u

type_synonym 'u rx = "u8 list \<Rightarrow> 'u \<Rightarrow> u8 list \<times> 'u"

record 'u modules =
  rx_dfu_info :: "'u rx"
  rx_language :: "'u rx"
  rx_debounce :: "'u rx"
  rx_snap_click :: "'u rx"
  rx_wireless :: "'u rx"
  rx_report_rate :: "'u rx"
  rx_nkro :: "'u rx"
  rx_kc_rgb :: "bool \<Rightarrow> 'u rx"
  rx_analog_matrix :: "'u rx"
  rx_dfu :: "'u rx"
  rx_factory_test :: "bool \<Rightarrow> 'u rx"
  rx_custom_value :: "'u rx"

record 'u via_env =
  build :: via_build
  modules :: "'u modules"
  ANALOG_MATRIX :: bool
  STATE_NOTIFY :: bool
  DYNAMIC_DEBOUNCE :: bool
  SNAP_CLICK :: bool
  KEYCHRON_RGB :: bool
  REPORT_INTERVAL :: bool
  FACTORY_TEST :: bool
  NKRO_SUPPORT :: bool
  VIA_INSECURE :: bool
  ALLOW_RESET :: bool
  LED_COUNT :: nat
  caps_leds :: "nat list"
  num_leds :: "nat list"
  scroll_leds :: "nat list"
  FIRMWARE_VERSION :: u32
  QMK_VERSION :: "u8 list"
  vendor_product_version :: "u8 list"
  firmware_text :: "u8 list"
  timer_read32 :: "'u \<Rightarrow> u32"
  matrix_row :: "nat \<Rightarrow> 'u \<Rightarrow> u32"
  analog_row :: "nat \<Rightarrow> 'u \<Rightarrow> u32"
  host_leds :: "'u \<Rightarrow> bool \<times> bool \<times> bool"
  highest_layers :: "'u \<Rightarrow> u8 \<times> u8"
  wireless_connected :: "'u \<Rightarrow> bool"

abbreviation RAW_HID_SRC_USB :: u8 where "RAW_HID_SRC_USB \<equiv> 0"

section \<open>Answers\<close>

definition via_out :: "hid_out \<Rightarrow> 'u via \<Rightarrow> 'u via" where
  "via_out p s = s\<lparr>hid_sent := hid_sent s @ [p]\<rparr>"

definition rgb :: "rgb_call list \<Rightarrow> 'u via \<Rightarrow> 'u via" where
  "rgb cs s = s\<lparr>rgb_calls := rgb_calls s @ cs\<rparr>"

definition ee_run :: "eeprom_writes \<Rightarrow> 'u via \<Rightarrow> 'u via" where
  "ee_run ws s = s\<lparr>ee := eeprom_run ws (ee s)\<rparr>"

definition kc_raw_hid_send :: "'u via_env \<Rightarrow> u8 \<Rightarrow> u8 list \<Rightarrow> 'u via \<Rightarrow> 'u via" where
  "kc_raw_hid_send v src data s =
     (if src = RAW_HID_SRC_USB then via_out (Usb_raw_hid data) s
      else if wireless_connected v (firmware s) then via_out (Wireless_raw_hid data) s else s)"

text \<open>The bytes of a 32-bit value, and of a matrix row.\<close>

definition be32 :: "u32 \<Rightarrow> u8 list" where
  "be32 x = [ucast (drop_bit 24 x AND 0xFF), ucast (drop_bit 16 x AND 0xFF), ucast (drop_bit 8 x AND 0xFF), ucast (x AND 0xFF)]"

definition row_bytes :: "nat \<Rightarrow> u32 \<Rightarrow> u8 list" where
  "row_bytes cols x = drop (if cols > 24 then 0 else if cols > 16 then 1 else if cols > 8 then 2 else 3) (be32 x)"

definition rows_per_packet :: "nat \<Rightarrow> nat" where
  "rows_per_packet cols = 28 div ((cols + 7) div 8)"

definition matrix_bytes :: "via_build \<Rightarrow> (nat \<Rightarrow> u32) \<Rightarrow> nat \<Rightarrow> u8 list" where
  "matrix_bytes b get offset = concat (map (\<lambda>row. row_bytes (COLS b) (get (row + offset))) [0..<min (rows_per_packet (COLS b)) (ROWS b - offset)])"

section \<open>The keyboards' commands\<close>

definition get_support_feature :: "'u via_env \<Rightarrow> u8 list" where
  "get_support_feature v =
     [0, 0x07 OR (if ANALOG_MATRIX v then 0x08 else 0) OR (if STATE_NOTIFY v then 0x10 else 0) OR (if DYNAMIC_DEBOUNCE v then 0x20 else 0)
         OR (if SNAP_CLICK v \<and> \<not> ANALOG_MATRIX v then 0x40 else 0) OR (if KEYCHRON_RGB v then 0x80 else 0), 3]"

definition misc_features :: "'u via_env \<Rightarrow> u8" where
  "misc_features v = 0x03 OR (if DYNAMIC_DEBOUNCE v then 0x04 else 0) OR (if SNAP_CLICK v \<and> \<not> ANALOG_MATRIX v then 0x08 else 0) OR 0x10
     OR (if REPORT_INTERVAL v then 0x20 else 0) OR 0x40 OR (if NKRO_SUPPORT v then 0x80 else 0)"

text \<open>A module's answer to the packet.\<close>

definition call_module :: "'u rx \<Rightarrow> u8 list \<Rightarrow> 'u via \<Rightarrow> u8 list \<times> 'u via" where
  "call_module f data s = (let (data, u) = f data (firmware s) in (data, s\<lparr>firmware := u\<rparr>))"

definition misc_command :: "'u via_env \<Rightarrow> u8 list \<Rightarrow> 'u via \<Rightarrow> u8 list \<times> 'u via" where
  "misc_command v data s =
     (let c = unat (data ! 1); m = modules v in
      if c = 1 then (splice data 2 [0, 2, 0, misc_features v], s)
      else if c = 2 then call_module (rx_dfu_info m) data s
      else if 3 \<le> c \<and> c \<le> 4 then call_module (rx_language m) data s
      else if DYNAMIC_DEBOUNCE v \<and> 5 \<le> c \<and> c \<le> 6 then call_module (rx_debounce m) data s
      else if SNAP_CLICK v \<and> \<not> ANALOG_MATRIX v \<and> 7 \<le> c \<and> c \<le> 10 then call_module (rx_snap_click m) data s
      else if 11 \<le> c \<and> c \<le> 12 then call_module (rx_wireless m) data s
      else if REPORT_INTERVAL v \<and> 13 \<le> c \<and> c \<le> 14 then call_module (rx_report_rate m) data s
      else if 18 \<le> c \<and> c \<le> 19 then call_module (rx_nkro m) data s
      else (data[0 := 0xFF, 1 := 0], s))"

text \<open>What the dispatcher returns, the packet as it leaves it.\<close>

definition kc_raw_hid_rx :: "'u via_env \<Rightarrow> u8 \<Rightarrow> u8 list \<Rightarrow> 'u via \<Rightarrow> bool \<times> u8 list \<times> 'u via" where
  "kc_raw_hid_rx v src data s =
     (let c = data ! 0; usb = (src = RAW_HID_SRC_USB); m = modules v;
          reply = (\<lambda>(data, s). (True, data, kc_raw_hid_send v src data s));
          handled = (\<lambda>(data, s). (True, data, s)) in
      if ANALOG_MATRIX v \<and> usb \<and> c = 2 \<and> data ! 1 = 3 then
        (let data = splice data 3 (matrix_bytes (build v) (\<lambda>r. analog_row v r (firmware s)) (unat (data ! 2)))
         in (True, data, kc_raw_hid_send v RAW_HID_SRC_USB data s))
      else if c = 1 then (False, if usb then data else splice data 3 (vendor_product_version v), s)
      else if c = 0xA0 then reply (splice data 1 [2, 0, 2], s)
      else if c = 0xA1 then reply (splice data 1 (firmware_text v), s)
      else if c = 0xA2 then reply (splice data 1 (get_support_feature v), s)
      else if c = 0xA3 then reply (splice data 1 [fst (highest_layers v (firmware s)), snd (highest_layers v (firmware s))], s)
      else if c = 0xA7 then reply (misc_command v data s)
      else if c = 0xA8 \<and> KEYCHRON_RGB v then reply (call_module (rx_kc_rgb m usb) data s)
      else if c = 0xA9 \<and> ANALOG_MATRIX v then handled (call_module (rx_analog_matrix m) data s)
      else if c = 0xAA \<and> usb then handled (call_module (rx_dfu m) data s)
      else if (c = 0xAA \<or> c = 0xAB) \<and> FACTORY_TEST v then handled (call_module (rx_factory_test m usb) data s)
      else (False, data, s))"

section \<open>SignalRGB\<close>

definition answer :: "u8 list \<Rightarrow> 'u via \<Rightarrow> 'u via" where
  "answer bs s = (let p = splice (packet s) 0 bs in via_out (Raw_hid_send p) (s\<lparr>packet := p\<rparr>))"

definition led_error :: "u8 \<Rightarrow> 'u via \<Rightarrow> 'u via" where
  "led_error e s = (let p = (packet s)[1 := e] in via_out (Raw_hid_send p) (s\<lparr>packet := p\<rparr>))"

definition is_indicator :: "'u via_env \<Rightarrow> nat \<Rightarrow> 'u \<Rightarrow> bool" where
  "is_indicator v i u =
     (case host_leds v u of (caps, num, scroll) \<Rightarrow>
        (i \<in> set (caps_leds v) \<and> caps) \<or> (i \<in> set (num_leds v) \<and> num) \<or> (i \<in> set (scroll_leds v) \<and> scroll))"

definition led_streaming :: "'u via_env \<Rightarrow> u8 list \<Rightarrow> 'u via \<Rightarrow> 'u via" where
  "led_streaming v data s =
     (let index = unat (data ! 1); n = unat (data ! 2) in
      if index + n > LED_COUNT v then led_error 253 s
      else if n \<ge> 10 then led_error 254 s
      else rgb (map (\<lambda>i. if is_indicator v (index + i) (firmware s) then rgb_matrix_set_color (index + i) 255 255 255
                         else rgb_matrix_set_color (index + i) (data ! (i * 3 + 3)) (data ! (i * 3 + 4)) (data ! (i * 3 + 5))) [0..<n]) s)"

section \<open>VIA\<close>

definition get_keyboard_value :: "'u via_env \<Rightarrow> u8 list \<Rightarrow> 'u via \<Rightarrow> u8 list" where
  "get_keyboard_value v data s =
     (let c = data ! 1 in
      if c = 1 then splice data 2 (be32 (timer_read32 v (firmware s)))
      else if c = 2 then splice data 2 (be32 (via_get_layout_options (build v) (ee s)))
      else if c = 3 then splice data 3 (matrix_bytes (build v) (\<lambda>r. if VIA_INSECURE v then matrix_row v r (firmware s) else 0) (unat (data ! 2)))
      else if c = 4 then splice data 2 (be32 (FIRMWARE_VERSION v))
      else data[0 := 0xFF])"

definition set_keyboard_value :: "'u via_env \<Rightarrow> u8 list \<Rightarrow> 'u via \<Rightarrow> u8 list \<times> 'u via" where
  "set_keyboard_value v data s =
     (let c = data ! 1 in
      if c = 2 then (data, ee_run (via_set_layout_options (build v)
          (push_bit 24 (ucast (data ! 2)) OR push_bit 16 (ucast (data ! 3)) OR push_bit 8 (ucast (data ! 4)) OR ucast (data ! 5))) s)
      else if c = 5 then (data, rgb [rgb_matrix_toggle_noeeprom] s)
      else (data[0 := 0xFF], s))"

definition u16_of_bytes :: "u8 \<Rightarrow> u8 \<Rightarrow> u16" where
  "u16_of_bytes hi lo = push_bit 8 (ucast hi) OR ucast lo"

definition be16 :: "u16 \<Rightarrow> u8 list" where
  "be16 k = [ucast (drop_bit 8 k), ucast (k AND 0xFF)]"

text \<open>The buffer commands: \<open>size\<close> bytes at \<open>command_data[3]\<close>, whatever the packet holds.\<close>

definition buffer_get :: "(u16 \<Rightarrow> nat \<Rightarrow> eeprom \<Rightarrow> u8 list) \<Rightarrow> u8 list \<Rightarrow> 'u via \<Rightarrow> (u8 list \<times> 'u via) option" where
  "buffer_get get data s =
     (let n = unat (data ! 3) in
      if 4 + n > length data then None else Some (splice data 4 (get (u16_of_bytes (data ! 1) (data ! 2)) n (ee s)), s))"

definition buffer_set :: "(u16 \<Rightarrow> u8 list \<Rightarrow> eeprom_writes) \<Rightarrow> u8 list \<Rightarrow> 'u via \<Rightarrow> (u8 list \<times> 'u via) option" where
  "buffer_set put data s =
     (let n = unat (data ! 3) in
      if 4 + n > length data then None else Some (data, ee_run (put (u16_of_bytes (data ! 1) (data ! 2)) (take n (drop 4 data))) s))"

definition via_command :: "'u via_env \<Rightarrow> u8 list \<Rightarrow> 'u via \<Rightarrow> (u8 list \<times> 'u via) option" where
  "via_command v data s =
     (let c = unat (data ! 0); b = build v; d = (\<lambda>i. data ! (1 + i)) in
      if c = 0x01 then Some (splice data 1 [0x00, 0x0C], s)
      else if c = 0x21 then Some (data, answer (0x21 # QMK_VERSION v) s)
      else if c = 0x22 then Some (data, answer [0x22, 1, 0, 6] s)
      else if c = 0x23 then Some (data, answer [0x23, 0, 0, 0] s)
      else if c = 0x24 then Some (data, led_streaming v data s)
      else if c = 0x25 then Some (data, rgb [rgb_matrix_mode_none, rgb_matrix_disable_noeeprom, rgb_matrix_enable_noeeprom, rgb_matrix_mode_signalrgb] s)
      else if c = 0x26 then Some (data, rgb [rgb_matrix_reload_from_eeprom] s)
      else if c = 0x27 then Some (data, answer [0x27, of_nat (LED_COUNT v)] s)
      else if c = 0x28 then Some (data, answer [0x28, 2] s)
      else if c = 0x02 then Some (get_keyboard_value v data s, s)
      else if c = 0x03 then Some (set_keyboard_value v data s)
      else if c = 0x04 then Some (splice data 4 (be16 (dynamic_keymap_get_keycode b (d 0) (d 1) (d 2) (ee s))), s)
      else if c = 0x05 then Some (data, ee_run (dynamic_keymap_set_keycode b (d 0) (d 1) (d 2) (u16_of_bytes (d 3) (d 4))) s)
      else if c = 0x06 then Some (data, ee_run (dynamic_keymap_reset b) s)
      else if 0x07 \<le> c \<and> c \<le> 0x09 then Some (call_module (rx_custom_value (modules v)) data s)
      else if c = 0x0A \<and> ALLOW_RESET v then Some (data, ee_run (via_eeprom_set_valid b False @ eeconfig_init_via b) s)
      else if c = 0x0C then Some (data[1 := of_nat (MACRO_COUNT b)], s)
      else if c = 0x0D then Some (splice data 1 (be16 (of_nat (MACRO_SIZE b))), s)
      else if c = 0x0E then buffer_get (dynamic_keymap_macro_get_buffer b) data s
      else if c = 0x0F then buffer_set (dynamic_keymap_macro_set_buffer b) data s
      else if c = 0x10 then Some (data, ee_run (dynamic_keymap_macro_reset b) s)
      else if c = 0x11 then Some (data[1 := of_nat (LAYER_COUNT b)], s)
      else if c = 0x12 then buffer_get (dynamic_keymap_get_buffer b) data s
      else if c = 0x13 then buffer_set (dynamic_keymap_set_buffer b) data s
      else if c = 0x14 then Some (splice data 4 (be16 (dynamic_keymap_get_encoder b (d 0) (d 1) (d 2 \<noteq> 0) (ee s))), s)
      else if c = 0x15 then Some (data, ee_run (dynamic_keymap_set_encoder b (d 0) (d 1) (d 2 \<noteq> 0) (u16_of_bytes (d 3) (d 4))) s)
      else Some (data[0 := 0xFF], s))"

definition raw_hid_receive :: "'u via_env \<Rightarrow> u8 \<Rightarrow> u8 list \<Rightarrow> 'u via \<Rightarrow> (u8 list \<times> 'u via) option" where
  "raw_hid_receive v src data s =
     (let (done, data, s) = kc_raw_hid_rx v src data s in
      if done then Some (data, s)
      else (case via_command v data s of None \<Rightarrow> None | Some (data, s) \<Rightarrow> Some (data, kc_raw_hid_send v src data s)))"

section \<open>Which packets leave the buffer\<close>

lemma buffer_in_bounds:
  "buffer_get get data s = None \<longleftrightarrow> length data < 4 + unat (data ! 3)"
  "buffer_set put data s = None \<longleftrightarrow> length data < 4 + unat (data ! 3)"
  by (simp_all add: buffer_get_def buffer_set_def Let_def)

definition buffer_command :: "u8 \<Rightarrow> bool" where
  "buffer_command c \<longleftrightarrow> c \<in> {0x0E, 0x0F, 0x12, 0x13}"

lemma via_command_bounds: "via_command v data s = None \<longleftrightarrow> buffer_command (data ! 0) \<and> length data < 4 + unat (data ! 3)"
proof -
  have c: "buffer_command (data ! 0) \<longleftrightarrow> unat (data ! 0) \<in> {0x0E, 0x0F, 0x12, 0x13}"
    by (simp add: buffer_command_def word_unat_eq_iff)
  show ?thesis unfolding c via_command_def Let_def by (simp add: buffer_in_bounds)
qed

lemma keyboard_leaves_via_commands:
  assumes "buffer_command (data ! 0)"
  shows "kc_raw_hid_rx v src data s = (False, data, s)"
  using assms by (auto simp: kc_raw_hid_rx_def buffer_command_def Let_def)

lemma kc_rx_head:
  assumes "\<not> fst (kc_raw_hid_rx v src data s)" and "4 < length data"
  shows "fst (snd (kc_raw_hid_rx v src data s)) ! 0 = data ! 0"
  using assms by (auto simp: kc_raw_hid_rx_def Let_def case_prod_beta splice_def nth_append split: if_splits)


section \<open>Keys over raw HID\<close>

lemma kc_rx_via: "data ! 0 \<in> {4, 5} \<Longrightarrow> kc_raw_hid_rx v src data s = (False, data, s)"
  by (auto simp: kc_raw_hid_rx_def Let_def)

lemma kc_send_simps [simp]:
  "ee (kc_raw_hid_send v src data s) = ee s" "firmware (kc_raw_hid_send v src data s) = firmware s"
  by (simp_all add: kc_raw_hid_send_def via_out_def)

lemma be16_bytes: "u16_of_bytes (be16 k ! 0) (be16 k ! 1) = k"
  by (simp add: u16_of_bytes_def be16_def be16_inverse)

text \<open>C35. After a packet that sets a key, a packet that asks for a key is answered with the code that
  was set if it is that key, and with the code it had before if it is another one; asking
  changes nothing in the EEPROM.\<close>

theorem host_reads_what_it_set:
  assumes "build_ok (build v)" and "max_addr (build v) < length (ee s)" and "length p = 32" and "length q = 32"
    and "p ! 0 = 5" and "q ! 0 = 4" and "is_key (build v) (p ! 1) (p ! 2) (p ! 3)"
    and "raw_hid_receive v src p s = Some (p', t)" and "raw_hid_receive v src' q t = Some (q', u)"
  shows "u16_of_bytes (q' ! 4) (q' ! 5) =
    (if q ! 1 = p ! 1 \<and> q ! 2 = p ! 2 \<and> q ! 3 = p ! 3 then u16_of_bytes (p ! 4) (p ! 5)
     else dynamic_keymap_get_keycode (build v) (q ! 1) (q ! 2) (q ! 3) (ee s)) \<and> ee u = ee t"
proof -
  let ?b = "build v"
  have "via_command v p s = Some (p, ee_run (dynamic_keymap_set_keycode ?b (p ! 1) (p ! 2) (p ! 3) (u16_of_bytes (p ! 4) (p ! 5))) s)"
    by (simp add: via_command_def assms(5) Let_def del: One_nat_def)
  then have t: "ee t = eeprom_run (dynamic_keymap_set_keycode ?b (p ! 1) (p ! 2) (p ! 3) (u16_of_bytes (p ! 4) (p ! 5))) (ee s)"
    using assms(8) kc_rx_via [of p v src s] by (auto simp: raw_hid_receive_def assms(5) ee_run_def)
  let ?k = "be16 (dynamic_keymap_get_keycode ?b (q ! 1) (q ! 2) (q ! 3) (ee t))"
  have "via_command v q t = Some (splice q 4 ?k, t)" by (simp add: via_command_def assms(6) Let_def del: One_nat_def)
  then have q': "q' = splice q 4 ?k" "ee u = ee t"
    using assms(9) kc_rx_via [of q v src' t] by (auto simp: raw_hid_receive_def assms(6))
  have "length ?k = 2" by (simp add: be16_def)
  then have "q' ! 4 = ?k ! 0" "q' ! 5 = ?k ! 1" using assms(4) by (simp_all add: q'(1) nth_splice)
  then show ?thesis using q'(2) get_set_keycode [OF assms(1,2,7)] by (simp add: be16_bytes [unfolded One_nat_def] t)
qed

section \<open>The Keychron commands from the air\<close>

text \<open>The firmware-update command is for the radio module; from the air it reaches the factory test instead.\<close>

lemma dfu_from_the_air_tests:
  assumes "src \<noteq> RAW_HID_SRC_USB" and "FACTORY_TEST v" and "data ! 0 = 0xAA"
  shows "kc_raw_hid_rx v src data s =
    (let (data, s) = call_module (rx_factory_test (modules v) False) data s in (True, data, s))"
  using assms by (simp add: kc_raw_hid_rx_def case_prod_beta)

text \<open>A packet is answered at most once, and a VIA command exactly once when there is a link.\<close>

lemma via_answered_once:
  assumes "data ! 0 \<in> {4, 5}" and "raw_hid_receive v RAW_HID_SRC_USB data s = Some (data', t)"
  shows "hid_sent t = hid_sent s @ [Usb_raw_hid data']"
proof -
  have "kc_raw_hid_rx v RAW_HID_SRC_USB data s = (False, data, s)" by (rule kc_rx_via [OF assms(1)])
  moreover have "data ! 0 = 4 \<or> data ! 0 = 5" using assms(1) by simp
  ultimately show ?thesis using assms(2)
    by (auto simp: raw_hid_receive_def via_command_def Let_def kc_raw_hid_send_def via_out_def ee_run_def)
qed

section \<open>A small keyboard\<close>

definition idle_modules :: "unit modules" where
  "idle_modules = \<lparr>rx_dfu_info = Pair, rx_language = Pair, rx_debounce = Pair, rx_snap_click = Pair, rx_wireless = Pair, rx_report_rate = Pair,
     rx_nkro = Pair, rx_kc_rgb = (\<lambda>_. Pair), rx_analog_matrix = Pair, rx_dfu = Pair, rx_factory_test = (\<lambda>_. Pair), rx_custom_value = Pair\<rparr>"

definition demo_via_env :: "unit via_env" where
  "demo_via_env = \<lparr>build = demo_build, modules = idle_modules, ANALOG_MATRIX = False, STATE_NOTIFY = False, DYNAMIC_DEBOUNCE = True,
     SNAP_CLICK = True, KEYCHRON_RGB = False, REPORT_INTERVAL = False, FACTORY_TEST = True, NKRO_SUPPORT = True, VIA_INSECURE = False,
     ALLOW_RESET = False, LED_COUNT = 2, caps_leds = [], num_leds = [], scroll_leds = [], FIRMWARE_VERSION = 0, QMK_VERSION = [0, 14, 29],
     vendor_product_version = [0x34, 0x34, 0x01, 0x80, 1, 0], firmware_text = [118, 49], timer_read32 = (\<lambda>_. 0), matrix_row = (\<lambda>_ _. 0),
     analog_row = (\<lambda>_ _. 0), host_leds = (\<lambda>_. (False, False, False)), highest_layers = (\<lambda>_. (0, 0)), wireless_connected = (\<lambda>_. False)\<rparr>"

definition demo_via :: "unit via" where
  "demo_via = \<lparr>ee = demo_eeprom, packet = replicate 32 0, hid_sent = [], rgb_calls = [], firmware = ()\<rparr>"

definition set_packet :: "u8 list" where "set_packet = [5, 0, 0, 1, 0x29, 0x04] @ replicate 26 0"
definition get_packet :: "u8 list" where "get_packet = [4, 0, 0, 1] @ replicate 28 0"


lemma host_reads_what_it_set_witness:
  "\<exists>t q' u. raw_hid_receive demo_via_env 0 set_packet demo_via = Some (set_packet, t)
     \<and> raw_hid_receive demo_via_env 0 get_packet t = Some (q', u) \<and> u16_of_bytes (q' ! 4) (q' ! 5) = 0x2904"
proof -
  have c: "set_packet ! 0 = 5" "get_packet ! 0 = 4" "length set_packet = 32" "length get_packet = 32"
    "is_key demo_build (set_packet ! 1) (set_packet ! 2) (set_packet ! 3)" "u16_of_bytes (set_packet ! 4) (set_packet ! 5) = 0x2904"
    "get_packet ! 1 = set_packet ! 1" "get_packet ! 2 = set_packet ! 2" "get_packet ! 3 = set_packet ! 3"
    by (simp_all add: set_packet_def get_packet_def is_key_def demo_build_def u16_of_bytes_def)
  obtain t where t: "raw_hid_receive demo_via_env 0 set_packet demo_via = Some (set_packet, t)"
    using kc_rx_via [of set_packet demo_via_env 0 demo_via] c(1) by (simp add: raw_hid_receive_def via_command_def Let_def)
  obtain q' u where u: "raw_hid_receive demo_via_env 0 get_packet t = Some (q', u)"
    using kc_rx_via [of get_packet demo_via_env 0 t] c(2) by (simp add: raw_hid_receive_def via_command_def Let_def)
  have b: "build demo_via_env = demo_build" "ee demo_via = demo_eeprom" by (simp_all add: demo_via_env_def demo_via_def)
  have "u16_of_bytes (q' ! 4) (q' ! 5) = 0x2904"
    using host_reads_what_it_set [of demo_via_env demo_via, OF _ _ c(3,4,1,2) _ t u] demo_build_ok c by (simp add: b)
  with t u show ?thesis by blast
qed

end
