(* ===== verification/SnapClick.thy ===== *)
theory SnapClick
  imports Handlers
begin

text \<open>
  Snap click (\<open>kc/snap_click/snap_click.c\<close>): pairs of opposing keys on boards without analog switches, of which the host sees one.
  The calls to \<open>register_code\<close>, \<open>unregister_code\<close> and \<open>is_key_pressed\<close> are a record of functions: the component is proved on their
  contract, the locale \<open>key_io\<close>, and \<open>quantum/action.c\<close> meets it.  The EEPROM block is its bytes.
\<close>

section \<open>State\<close>

record snap_click_config =
  sc_type :: u8
  sc_key_0 :: u8
  sc_key_1 :: u8

record snap_click_state =
  state_keys :: "2 word"
  last_single_key :: "2 word"

record snap_click =
  snap_click_pair :: "snap_click_config list"
  snap_click_state :: "snap_click_state list"
  snap_click_eeprom :: "u8 list"

record 's key_io =
  io_register_code :: "u8 \<Rightarrow> 's \<Rightarrow> 's"
  io_unregister_code :: "u8 \<Rightarrow> 's \<Rightarrow> 's"
  io_is_key_pressed :: "u8 \<Rightarrow> 's \<Rightarrow> bool"

abbreviation SNAP_CLICK_COUNT :: nat where "SNAP_CLICK_COUNT \<equiv> 20"
abbreviation SNAP_CLICK_TYPE_REGULAR :: u8 where "SNAP_CLICK_TYPE_REGULAR \<equiv> 1"
abbreviation SNAP_CLICK_TYPE_LAST_INPUT :: u8 where "SNAP_CLICK_TYPE_LAST_INPUT \<equiv> 2"
abbreviation SNAP_CLICK_TYPE_FIRST_KEY :: u8 where "SNAP_CLICK_TYPE_FIRST_KEY \<equiv> 3"
abbreviation SNAP_CLICK_TYPE_SECOND_KEY :: u8 where "SNAP_CLICK_TYPE_SECOND_KEY \<equiv> 4"
abbreviation SNAP_CLICK_TYPE_NEUTRAL :: u8 where "SNAP_CLICK_TYPE_NEUTRAL \<equiv> 5"
abbreviation SNAP_CLICK_TYPE_MAX :: u8 where "SNAP_CLICK_TYPE_MAX \<equiv> 6"
abbreviation SC_MASK_BOTH_KEYS_PRESSED :: "2 word" where "SC_MASK_BOTH_KEYS_PRESSED \<equiv> 3"

definition sc_key :: "snap_click_config \<Rightarrow> bool \<Rightarrow> u8" where
  "sc_key p second = (if second then sc_key_1 p else sc_key_0 p)"

definition key_bit :: "bool \<Rightarrow> 2 word" where
  "key_bit second = (if second then 2 else 1)"

definition no_keys :: snap_click_state where
  "no_keys = \<lparr>state_keys = 0, last_single_key = 0\<rparr>"

definition single_key :: "2 word \<Rightarrow> snap_click_state" where
  "single_key k = \<lparr>state_keys = k, last_single_key = k\<rparr>"

section \<open>Events\<close>

text \<open>One pair whose key changed: whether the event goes on, the state of the pair and of the keyboard.\<close>

definition snap_press :: "'s key_io \<Rightarrow> snap_click_config \<Rightarrow> bool \<Rightarrow> snap_click_state \<Rightarrow> 's \<Rightarrow> bool \<times> snap_click_state \<times> 's" where
  "snap_press io p second st s =
     (let reg = io_register_code io; unreg = io_unregister_code io; key = sc_key p in
      if st = no_keys then (True, single_key (key_bit second), s)
      else if key_bit second AND state_keys st = 0 then
        (False, st\<lparr>state_keys := SC_MASK_BOTH_KEYS_PRESSED\<rparr>,
         if sc_type p = SNAP_CLICK_TYPE_REGULAR \<or> sc_type p = SNAP_CLICK_TYPE_LAST_INPUT then reg (key second) (unreg (key (\<not> second)) s)
         else if sc_type p = SNAP_CLICK_TYPE_FIRST_KEY then reg (key False) (unreg (key True) s)
         else if sc_type p = SNAP_CLICK_TYPE_SECOND_KEY then reg (key True) (unreg (key False) s)
         else if sc_type p = SNAP_CLICK_TYPE_NEUTRAL then unreg (key (\<not> second)) s
         else s)
      else (True, st, s))"

definition snap_release :: "'s key_io \<Rightarrow> snap_click_config \<Rightarrow> bool \<Rightarrow> snap_click_state \<Rightarrow> 's \<Rightarrow> bool \<times> snap_click_state \<times> 's" where
  "snap_release io p second st s =
     (let reg = io_register_code io; unreg = io_unregister_code io; pressed = io_is_key_pressed io; key = sc_key p in
      if state_keys st = SC_MASK_BOTH_KEYS_PRESSED then
        (False, single_key (key_bit (\<not> second)),
         if sc_type p = SNAP_CLICK_TYPE_REGULAR then unreg (key second) s
         else if sc_type p \<in> {SNAP_CLICK_TYPE_LAST_INPUT, SNAP_CLICK_TYPE_FIRST_KEY, SNAP_CLICK_TYPE_SECOND_KEY} then
           (let s = (if pressed (key second) s then unreg (key second) s else s)
            in if \<not> pressed (key (\<not> second)) s then reg (key (\<not> second)) s else s)
         else if sc_type p = SNAP_CLICK_TYPE_NEUTRAL then reg (key (\<not> second)) s
         else s)
      else (True, no_keys, s))"

fun snap_pairs :: "'s key_io \<Rightarrow> u16 \<Rightarrow> bool \<Rightarrow> snap_click_config list \<Rightarrow> snap_click_state list \<Rightarrow> 's \<Rightarrow> bool \<times> snap_click_state list \<times> 's" where
  "snap_pairs io keycode pressed (p # ps) (st # sts) s =
     (if sc_type p \<noteq> 0 \<and> (keycode = ucast (sc_key_0 p) \<or> keycode = ucast (sc_key_1 p)) then
        (let second = (keycode = ucast (sc_key_1 p));
             (go, st, s) = (if pressed then snap_press io p second st s else snap_release io p second st s)
         in if go then (let (go, sts, s) = snap_pairs io keycode pressed ps sts s in (go, st # sts, s)) else (False, st # sts, s))
      else (let (go, sts, s) = snap_pairs io keycode pressed ps sts s in (go, st # sts, s)))"
| "snap_pairs io keycode pressed _ sts s = (True, sts, s)"

definition process_record_snap_click :: "'s key_io \<Rightarrow> u16 \<Rightarrow> bool \<Rightarrow> snap_click \<times> 's \<Rightarrow> bool \<times> snap_click \<times> 's" where
  "process_record_snap_click io keycode pressed =
     (\<lambda>(c, s). let (go, sts, s) = snap_pairs io keycode pressed (snap_click_pair c) (snap_click_state c) s
               in (go, c\<lparr>snap_click_state := sts\<rparr>, s))"

text \<open>What becomes of the event of a plain key: where it goes on, \<open>process_action\<close> registers or unregisters its code.\<close>

definition snap_key_event :: "'s key_io \<Rightarrow> u8 \<Rightarrow> bool \<Rightarrow> snap_click \<times> 's \<Rightarrow> snap_click \<times> 's" where
  "snap_key_event io k pressed cs =
     (let (go, c, s) = process_record_snap_click io (ucast k) pressed cs
      in (c, if go then (if pressed then io_register_code io k s else io_unregister_code io k s) else s))"

section \<open>Configuration\<close>

definition pair_bytes :: "snap_click_config \<Rightarrow> u8 list" where
  "pair_bytes p = [sc_type p, sc_key_0 p, sc_key_1 p]"

definition pair_of :: "u8 list \<Rightarrow> nat \<Rightarrow> snap_click_config" where
  "pair_of bs i = \<lparr>sc_type = bs ! i, sc_key_0 = bs ! (i + 1), sc_key_1 = bs ! (i + 2)\<rparr>"

definition pairs_bytes :: "snap_click_config list \<Rightarrow> u8 list" where
  "pairs_bytes ps = concat (map pair_bytes ps)"

definition snap_click_save :: "snap_click \<Rightarrow> snap_click" where
  "snap_click_save c = c\<lparr>snap_click_eeprom := pairs_bytes (snap_click_pair c)\<rparr>"

definition snap_click_config_reset :: "snap_click \<Rightarrow> snap_click" where
  "snap_click_config_reset c =
     snap_click_save (c\<lparr>snap_click_pair := replicate SNAP_CLICK_COUNT \<lparr>sc_type = 0, sc_key_0 = 0, sc_key_1 = 0\<rparr>\<rparr>)"

definition snap_click_init :: "snap_click \<Rightarrow> snap_click" where
  "snap_click_init c =
     c\<lparr>snap_click_pair := map (\<lambda>i. pair_of (snap_click_eeprom c) (3 * i)) [0..<SNAP_CLICK_COUNT],
       snap_click_state := replicate SNAP_CLICK_COUNT no_keys\<rparr>"

text \<open>\<open>data\<close> is the packet from its third byte on, as \<open>snap_click_rx\<close> passes it.\<close>

definition snap_click_get_info :: "u8 list \<Rightarrow> bool \<times> u8 list" where
  "snap_click_get_info data = (True, data[1 := of_nat SNAP_CLICK_COUNT])"

definition range_refused :: "u8 list \<Rightarrow> bool" where
  "range_refused data \<longleftrightarrow> unat (data ! 1) > 9 \<or> unat (data ! 0) + unat (data ! 1) > SNAP_CLICK_COUNT"

definition snap_click_get :: "u8 list \<Rightarrow> snap_click \<Rightarrow> bool \<times> u8 list" where
  "snap_click_get data c =
     (if range_refused data then (False, data)
      else (True, splice data 1 (pairs_bytes (take (unat (data ! 1)) (drop (unat (data ! 0)) (snap_click_pair c))))))"

definition pair_refused :: "snap_click_config \<Rightarrow> bool" where
  "pair_refused p \<longleftrightarrow> sc_type p \<ge> SNAP_CLICK_TYPE_MAX \<or> (sc_type p \<noteq> 0 \<and> (sc_key_0 p = 0 \<or> sc_key_1 p = 0))"

definition snap_click_set :: "u8 list \<Rightarrow> snap_click \<Rightarrow> bool \<times> snap_click" where
  "snap_click_set data c =
     (if range_refused data then (False, c)
      else let ps = map (\<lambda>i. pair_of data (2 + 3 * i)) [0..<unat (data ! 1)]
           in if list_ex pair_refused ps then (False, c)
              else (True, c\<lparr>snap_click_pair := splice (snap_click_pair c) (unat (data ! 0)) ps\<rparr>))"

abbreviation SNAP_CLICK_GET_INFO :: u8 where "SNAP_CLICK_GET_INFO \<equiv> 7"
abbreviation SNAP_CLICK_GET :: u8 where "SNAP_CLICK_GET \<equiv> 8"
abbreviation SNAP_CLICK_SET :: u8 where "SNAP_CLICK_SET \<equiv> 9"
abbreviation SNAP_CLICK_SAVE :: u8 where "SNAP_CLICK_SAVE \<equiv> 10"

definition snap_click_rx :: "u8 list \<Rightarrow> snap_click \<Rightarrow> u8 list \<times> snap_click" where
  "snap_click_rx data c =
     (let (ok, data, c) =
        (if data ! 1 = SNAP_CLICK_GET_INFO then (let (ok, d) = snap_click_get_info (drop 2 data) in (ok, take 2 data @ d, c))
         else if data ! 1 = SNAP_CLICK_GET then (let (ok, d) = snap_click_get (drop 2 data) c in (ok, take 2 data @ d, c))
         else if data ! 1 = SNAP_CLICK_SET then (let (ok, c) = snap_click_set (drop 2 data) c in (ok, data, c))
         else if data ! 1 = SNAP_CLICK_SAVE then (True, data, snap_click_save c)
         else (True, data[0 := 0xFF], c))
      in (data[2 := if ok then 0 else 1], c))"

section \<open>One pair\<close>

text \<open>The pair at index \<open>n\<close>, whose keys no other pair uses.\<close>

definition lone_pair :: "snap_click_config list \<Rightarrow> nat \<Rightarrow> snap_click_config \<Rightarrow> bool" where
  "lone_pair ps n p \<longleftrightarrow> n < length ps \<and> ps ! n = p \<and> sc_type p \<noteq> 0 \<and> sc_key_0 p \<noteq> sc_key_1 p \<and>
     (\<forall>i < length ps. i \<noteq> n \<longrightarrow> sc_type (ps ! i) \<noteq> 0 \<longrightarrow> {sc_key_0 (ps ! i), sc_key_1 (ps ! i)} \<inter> {sc_key_0 p, sc_key_1 p} = {})"

lemma same_code: "(ucast k :: u16) = ucast k' \<longleftrightarrow> k = k'" for k k' :: u8
proof -
  have "unat (ucast x :: u16) = unat x" for x :: u8
    by (rule unat_ucast_small) (rule order.strict_trans [OF unsigned_less], simp)
  then show ?thesis by (metis word_unat_eq_iff)
qed

lemma snap_pairs_other:
  assumes "\<forall>p \<in> set ps. sc_type p \<noteq> 0 \<longrightarrow> k \<noteq> sc_key_0 p \<and> k \<noteq> sc_key_1 p"
  shows "snap_pairs io (ucast k) pressed ps sts s = (True, sts, s)"
  using assms
proof (induction ps arbitrary: sts)
  case (Cons p ps)
  then show ?case by (cases sts) (auto simp: same_code)
qed simp

lemma snap_pairs_lone:
  assumes "lone_pair ps n p" and "length sts = length ps"
  shows "snap_pairs io (ucast (sc_key p second)) pressed ps sts s =
    (case (if pressed then snap_press io p second (sts ! n) s else snap_release io p second (sts ! n) s) of
       (go, st, s) \<Rightarrow> (go, sts[n := st], s))"
  using assms
proof (induction ps arbitrary: n sts)
  case Nil
  then show ?case by (simp add: lone_pair_def)
next
  case (Cons q ps)
  then obtain st ss where sts: "sts = st # ss" "length ss = length ps" by (cases sts) auto
  have sec: "(sc_key p second = sc_key_1 p) = second" "sc_key p second = sc_key_0 p \<or> sc_key p second = sc_key_1 p"
    using Cons.prems(1) by (auto simp: sc_key_def lone_pair_def)
  show ?case
  proof (cases n)
    case 0
    then have q: "q = p" "sc_type p \<noteq> 0" using Cons.prems(1) by (simp_all add: lone_pair_def)
    have "\<forall>r \<in> set ps. sc_type r \<noteq> 0 \<longrightarrow> sc_key p second \<noteq> sc_key_0 r \<and> sc_key p second \<noteq> sc_key_1 r"
    proof
      fix r assume "r \<in> set ps"
      then obtain i where "i < length ps" "ps ! i = r" by (auto simp: in_set_conv_nth)
      then have "sc_type r \<noteq> 0 \<longrightarrow> {sc_key_0 r, sc_key_1 r} \<inter> {sc_key_0 p, sc_key_1 p} = {}"
        using Cons.prems(1) 0 by (fastforce simp: lone_pair_def dest: spec [of _ "Suc i"])
      then show "sc_type r \<noteq> 0 \<longrightarrow> sc_key p second \<noteq> sc_key_0 r \<and> sc_key p second \<noteq> sc_key_1 r" using sec(2) by auto
    qed
    note rest = snap_pairs_other [OF this]
    obtain go st' s' where step: "(if pressed then snap_press io p second st s else snap_release io p second st s) = (go, st', s')"
      by (metis prod_cases3)
    have c: "(ucast (sc_key p second) = (ucast (sc_key_1 p) :: u16)) = second"
      "(ucast (sc_key p second) = (ucast (sc_key_0 p) :: u16) \<or> second) = True"
      using sec by (auto simp: same_code)
    show ?thesis unfolding sts(1) q(1) snap_pairs.simps c Let_def 0 nth_Cons_0 step using q(2) by (simp add: rest)
  next
    case (Suc m)
    have l: "lone_pair ps m p" using Cons.prems(1) Suc by (fastforce simp: lone_pair_def)
    have "sc_type q \<noteq> 0 \<longrightarrow> {sc_key_0 q, sc_key_1 q} \<inter> {sc_key_0 p, sc_key_1 p} = {}"
      using Cons.prems(1) Suc by (fastforce simp: lone_pair_def dest: spec [of _ 0])
    then have "sc_type q = 0 \<or> sc_key p second \<noteq> sc_key_0 q \<and> sc_key p second \<noteq> sc_key_1 q" using sec(2) by auto
    then show ?thesis using Cons.IH [OF l sts(2)] sts Suc by (auto simp: same_code split: prod.splits)
  qed
qed

section \<open>What the host should see\<close>

text \<open>The fingers: which keys of the pair are down, and which was pressed last.\<close>

record fingers =
  down_0 :: bool
  down_1 :: bool
  pressed_last :: bool

definition down :: "fingers \<Rightarrow> bool \<Rightarrow> bool" where
  "down f second = (if second then down_1 f else down_0 f)"

definition move :: "bool \<times> bool \<Rightarrow> fingers \<Rightarrow> fingers" where
  "move = (\<lambda>(second, pressed) f.
     (let f = (if second then f\<lparr>down_1 := pressed\<rparr> else f\<lparr>down_0 := pressed\<rparr>)
      in if pressed then f\<lparr>pressed_last := second\<rparr> else f))"

definition hands_off :: fingers where
  "hands_off = \<lparr>down_0 = False, down_1 = False, pressed_last = False\<rparr>"

text \<open>A key goes down when it is up and up when it is down.\<close>

fun possible :: "fingers \<Rightarrow> (bool \<times> bool) list \<Rightarrow> bool" where
  "possible f [] = True"
| "possible f ((second, pressed) # evs) = (down f second \<noteq> pressed \<and> possible (move (second, pressed) f) evs)"

definition shown :: "u8 \<Rightarrow> fingers \<Rightarrow> bool \<Rightarrow> bool" where
  "shown type f second \<longleftrightarrow> down f second \<and> (down f (\<not> second) \<longrightarrow>
     (if type = SNAP_CLICK_TYPE_REGULAR \<or> type = SNAP_CLICK_TYPE_LAST_INPUT then pressed_last f = second
      else if type = SNAP_CLICK_TYPE_FIRST_KEY then \<not> second
      else if type = SNAP_CLICK_TYPE_SECOND_KEY then second
      else False))"

lemma never_both_shown: "\<not> (shown type f False \<and> shown type f True)"
  by (auto simp: shown_def)

definition pair_state :: "fingers \<Rightarrow> snap_click_state \<Rightarrow> bool" where
  "pair_state f st \<longleftrightarrow>
     (if down_0 f \<and> down_1 f then state_keys st = SC_MASK_BOTH_KEYS_PRESSED
      else st = (if down_0 f then single_key 1 else if down_1 f then single_key 2 else no_keys))"

definition pair_event :: "'s key_io \<Rightarrow> snap_click_config \<Rightarrow> bool \<times> bool \<Rightarrow> snap_click \<times> 's \<Rightarrow> snap_click \<times> 's" where
  "pair_event io p = (\<lambda>(second, pressed). snap_key_event io (sc_key p second) pressed)"

text \<open>The host, as the pair uses it.\<close>

locale key_sink =
  fixes io :: "'s key_io" and held :: "'s \<Rightarrow> u8 set" and ok :: "'s \<Rightarrow> bool" and usable :: "u8 \<Rightarrow> bool"
  assumes reg_law: "ok s \<Longrightarrow> usable k \<Longrightarrow> ok (io_register_code io k s) \<and> held (io_register_code io k s) = insert k (held s)"
    and unreg_law: "ok s \<Longrightarrow> usable k \<Longrightarrow> ok (io_unregister_code io k s) \<and> held (io_unregister_code io k s) = held s - {k}"
    and pressed_law: "ok s \<Longrightarrow> usable k \<Longrightarrow> io_is_key_pressed io k s \<longleftrightarrow> k \<in> held s"
begin

text \<open>The state of the pair and of the host, for the fingers \<open>f\<close>.\<close>

definition sees :: "snap_click_config \<Rightarrow> nat \<Rightarrow> fingers \<Rightarrow> snap_click \<times> 's \<Rightarrow> bool" where
  "sees p n f = (\<lambda>(c, s). lone_pair (snap_click_pair c) n p \<and> length (snap_click_state c) = length (snap_click_pair c) \<and>
     pair_state f (snap_click_state c ! n) \<and> ok s \<and>
     (\<forall>second. (sc_key p second \<in> held s \<longrightarrow> shown (sc_type p) f second) \<and>
        (sc_type p \<noteq> SNAP_CLICK_TYPE_REGULAR \<longrightarrow> shown (sc_type p) f second \<longrightarrow> sc_key p second \<in> held s)))"

lemma laws:
  assumes "ok s" and "usable k"
  shows "ok (io_register_code io k s)" "held (io_register_code io k s) = insert k (held s)"
    "ok (io_unregister_code io k s)" "held (io_unregister_code io k s) = held s - {k}"
    "io_is_key_pressed io k s \<longleftrightarrow> k \<in> held s"
  using reg_law [OF assms] unreg_law [OF assms] pressed_law [OF assms] by simp_all

definition sight :: "snap_click_config \<Rightarrow> fingers \<Rightarrow> snap_click_state \<Rightarrow> 's \<Rightarrow> bool" where
  "sight p f st s \<longleftrightarrow> pair_state f st \<and> ok s \<and>
     (\<forall>second. (sc_key p second \<in> held s \<longrightarrow> shown (sc_type p) f second) \<and>
        (sc_type p \<noteq> SNAP_CLICK_TYPE_REGULAR \<longrightarrow> shown (sc_type p) f second \<longrightarrow> sc_key p second \<in> held s))"

lemma bits_2 [simp]: "(1 :: 2 word) \<noteq> 2" "(2 :: 2 word) \<noteq> 1" "(3 :: 2 word) \<noteq> 1" "(3 :: 2 word) \<noteq> 2" "(1 :: 2 word) \<noteq> 3" "(2 :: 2 word) \<noteq> 3"
  "(1 :: 2 word) AND 2 = 0" "(2 :: 2 word) AND 1 = 0" "(3 :: 2 word) AND 1 \<noteq> 0" "(1 :: 2 word) AND 3 \<noteq> 0"
  "(2 :: 2 word) AND 3 \<noteq> 0"
  by code_simp+

definition finish :: "snap_click_config \<Rightarrow> bool \<Rightarrow> bool \<Rightarrow> bool \<times> snap_click_state \<times> 's \<Rightarrow> snap_click_state \<times> 's" where
  "finish p second pressed = (\<lambda>(go, st, s). (st, if go then (if pressed then io_register_code io (sc_key p second) s
     else io_unregister_code io (sc_key p second) s) else s))"

lemma down_move [simp]:
  "down (move (second, b) f) second = b" "down (move (second, b) f) (\<not> second) = down f (\<not> second)"
  "down (move (True, b) f) False = down f False" "down (move (False, b) f) True = down f True"
  "pressed_last (move (second, b) f) = (if b then second else pressed_last f)"
  by (simp_all add: down_def move_def Let_def)

lemma pair_state_iff:
  "pair_state f st \<longleftrightarrow>
     (if down f second \<and> down f (\<not> second) then state_keys st = SC_MASK_BOTH_KEYS_PRESSED
      else st = (if down f second then single_key (key_bit second) else if down f (\<not> second) then single_key (key_bit (\<not> second)) else no_keys))"
  by (cases second) (auto simp: pair_state_def down_def key_bit_def)

definition seen :: "snap_click_config \<Rightarrow> fingers \<Rightarrow> bool \<Rightarrow> 's \<Rightarrow> bool" where
  "seen p f second s \<longleftrightarrow> (sc_key p second \<in> held s \<longrightarrow> shown (sc_type p) f second) \<and>
     (sc_type p \<noteq> SNAP_CLICK_TYPE_REGULAR \<longrightarrow> shown (sc_type p) f second \<longrightarrow> sc_key p second \<in> held s)"

lemma sight_iff: "sight p f st s \<longleftrightarrow> pair_state f st \<and> ok s \<and> seen p f second s \<and> seen p f (\<not> second) s"
  unfolding sight_def seen_def by (cases second) (auto simp: all_bool_eq)

lemma states [simp]:
  "key_bit second AND key_bit (\<not> second) = 0" "key_bit (\<not> second) AND key_bit second = 0" "single_key (key_bit b) \<noteq> no_keys"
  "state_keys (single_key k) = k" "key_bit b \<noteq> 3" "state_keys no_keys = 0" "key_bit b = key_bit c \<longleftrightarrow> b = c"
  "state_keys (st\<lparr>state_keys := k\<rparr>) = k" "key_bit True AND key_bit False = 0" "key_bit False AND key_bit True = 0"
  by (auto simp: key_bit_def single_key_def no_keys_def)

lemma press_alone: "finish p second True (snap_press io p second no_keys s) = (single_key (key_bit second), io_register_code io (sc_key p second) s)"
  by (simp add: finish_def snap_press_def Let_def)

lemma release_alone:
  "state_keys st \<noteq> 3 \<Longrightarrow> finish p second False (snap_release io p second st s) = (no_keys, io_unregister_code io (sc_key p second) s)"
  by (simp add: finish_def snap_release_def Let_def)

lemma press_over:
  "finish p second True (snap_press io p second (single_key (key_bit (\<not> second))) s) =
    ((single_key (key_bit (\<not> second)))\<lparr>state_keys := 3\<rparr>, snd (snd (snap_press io p second (single_key (key_bit (\<not> second))) s)))"
  by (simp add: finish_def snap_press_def Let_def)

lemma release_one:
  "state_keys st = 3 \<Longrightarrow> finish p second False (snap_release io p second st s) =
    (single_key (key_bit (\<not> second)), snd (snd (snap_release io p second st s)))"
  by (simp add: finish_def snap_release_def Let_def)

lemma two_keys:
  assumes "sc_key_0 p \<noteq> sc_key_1 p" and "usable (sc_key_0 p)" and "usable (sc_key_1 p)"
  shows "sc_key p second \<noteq> sc_key p (\<not> second)" "usable (sc_key p second)"
  using assms by (auto simp: sc_key_def)

lemma press_keeps_sight:
  assumes "sight p f st s" and "usable (sc_key_0 p)" and "usable (sc_key_1 p)" and "sc_key_0 p \<noteq> sc_key_1 p"
    and "sc_type p \<in> {1, 2, 3, 4, 5}" and "\<not> down f second"
  shows "(\<lambda>(st, s). sight p (move (second, True) f) st s) (finish p second True (snap_press io p second st s))"
proof -
  note k = two_keys [OF assms(4,2,3)]
  have s: "pair_state f st" "ok s" "seen p f second s" "seen p f (\<not> second) s" using assms(1) sight_iff by blast+
  show ?thesis
  proof (cases "down f (\<not> second)")
    case False
    then have "st = no_keys" using s(1) assms(6) by (simp add: pair_state_iff [of f st second])
    moreover have "sc_key p (\<not> second) \<notin> held s" using s(4) False by (auto simp: seen_def shown_def)
    ultimately show ?thesis using False laws [OF s(2) k(2) [of second]] k(1) [of second] k(1) [of second, symmetric]
      by (simp add: press_alone sight_iff [of _ _ _ _ second] pair_state_iff [of _ _ second] seen_def shown_def)
  next
    case True
    then have st: "st = single_key (key_bit (\<not> second))" using s(1) assms(6) by (simp add: pair_state_iff [of f st second])
    let ?t = "snd (snd (snap_press io p second st s))"
    have "sc_key p second \<notin> held s" using s(3) assms(6) by (auto simp: seen_def shown_def)
    then have "ok ?t \<and> seen p (move (second, True) f) second ?t \<and> seen p (move (second, True) f) (\<not> second) ?t"
      using assms(5) True s(2) k(1) [of second] k(2) [of second] k(2) [of "\<not> second"]
      by (elim insertE emptyE; cases second; simp add: st snap_press_def Let_def laws seen_def shown_def)
    then show ?thesis using True by (simp add: st press_over sight_iff [of _ _ _ _ second] pair_state_iff [of _ _ second])
  qed
qed

lemma release_keeps_sight:
  assumes "sight p f st s" and "usable (sc_key_0 p)" and "usable (sc_key_1 p)" and "sc_key_0 p \<noteq> sc_key_1 p"
    and "sc_type p \<in> {1, 2, 3, 4, 5}" and "down f second"
  shows "(\<lambda>(st, s). sight p (move (second, False) f) st s) (finish p second False (snap_release io p second st s))"
proof -
  note k = two_keys [OF assms(4,2,3)]
  have s: "pair_state f st" "ok s" "seen p f second s" "seen p f (\<not> second) s" using assms(1) sight_iff by blast+
  show ?thesis
  proof (cases "down f (\<not> second)")
    case False
    then have "st = single_key (key_bit second)" using s(1) assms(6) by (simp add: pair_state_iff [of f st second])
    moreover have "sc_key p (\<not> second) \<notin> held s" using s(4) False by (auto simp: seen_def shown_def)
    ultimately show ?thesis using False laws [OF s(2) k(2) [of second]] k(1) [of second] k(1) [of second, symmetric]
      by (simp add: release_alone sight_iff [of _ _ _ _ second] pair_state_iff [of _ _ second] seen_def shown_def)
  next
    case True
    then have st: "state_keys st = 3" using s(1) assms(6) by (simp add: pair_state_iff [of f st second])
    let ?t = "snd (snd (snap_release io p second st s))"
    have "ok ?t \<and> seen p (move (second, False) f) second ?t \<and> seen p (move (second, False) f) (\<not> second) ?t"
    proof (cases "sc_type p = SNAP_CLICK_TYPE_REGULAR")
      case True
      then show ?thesis using assms(6) \<open>down f (\<not> second)\<close> s(2) k(1) [of second] k(2) [of second]
        by (simp add: st snap_release_def Let_def laws seen_def shown_def)
    next
      case False
      then have "sc_key p second \<in> held s \<longleftrightarrow> shown (sc_type p) f second" "sc_key p (\<not> second) \<in> held s \<longleftrightarrow> shown (sc_type p) f (\<not> second)"
        using s(3,4) by (auto simp: seen_def)
      with False show ?thesis using assms(5,6) True s(2) k(1) [of second] k(1) [of second, symmetric] k(2) [of second] k(2) [of "\<not> second"]
        by (elim insertE emptyE; cases second; simp add: st snap_release_def Let_def laws seen_def shown_def)
    qed
    then show ?thesis using True by (simp add: st release_one sight_iff [of _ _ _ _ second] pair_state_iff [of _ _ second])
  qed
qed

lemma event_keeps_sees:
  assumes "sees p n f cs" and "usable (sc_key_0 p)" and "usable (sc_key_1 p)" and "sc_type p < SNAP_CLICK_TYPE_MAX"
    and "down f second \<noteq> pressed"
  shows "sees p n (move (second, pressed) f) (pair_event io p (second, pressed) cs)"
proof -
  obtain c s where cs: "cs = (c, s)" by fastforce
  define st where "st = snap_click_state c ! n"
  have lone: "lone_pair (snap_click_pair c) n p" and len: "length (snap_click_state c) = length (snap_click_pair c)"
    and sight: "sight p f st s"
    using assms(1) by (simp_all add: sees_def cs sight_def st_def)
  have distinct: "sc_key_0 p \<noteq> sc_key_1 p" and n: "n < length (snap_click_state c)" and t0: "sc_type p \<noteq> 0"
    using lone len by (auto simp: lone_pair_def)
  have "unat (sc_type p) < 6" "unat (sc_type p) \<noteq> 0" using t0 assms(4) by (simp_all add: word_less_nat_alt unat_eq_0)
  then have "unat (sc_type p) = 1 \<or> unat (sc_type p) = 2 \<or> unat (sc_type p) = 3 \<or> unat (sc_type p) = 4 \<or> unat (sc_type p) = 5" by linarith
  then have types: "sc_type p \<in> {1, 2, 3, 4, 5}" by (auto simp: word_unat_eq_iff)
  obtain go st' s' where step: "(if pressed then snap_press io p second st s else snap_release io p second st s) = (go, st', s')"
    by (metis prod_cases3)
  obtain st2 s2 where fin: "finish p second pressed (go, st', s') = (st2, s2)" by fastforce
  have ev: "pair_event io p (second, pressed) cs = (c\<lparr>snap_click_state := (snap_click_state c)[n := st2]\<rparr>, s2)"
    using snap_pairs_lone [OF lone len, of io second pressed s, folded st_def, unfolded step] fin
    by (simp add: pair_event_def snap_key_event_def process_record_snap_click_def cs finish_def)
  have "sight p (move (second, pressed) f) st2 s2"
    using press_keeps_sight [OF sight assms(2,3) distinct types, of second]
      release_keeps_sight [OF sight assms(2,3) distinct types, of second] step fin assms(5) by (cases pressed) simp_all
  then show ?thesis using lone len n by (simp add: ev sees_def sight_def)
qed

lemma events_keep_sees:
  assumes "sees p n f cs" and "usable (sc_key_0 p)" and "usable (sc_key_1 p)" and "sc_type p < SNAP_CLICK_TYPE_MAX"
    and "possible f evs"
  shows "sees p n (fold move evs f) (fold (pair_event io p) evs cs)"
  using assms(1,5)
proof (induction evs arbitrary: f cs)
  case (Cons ev evs)
  obtain second pressed where ev: "ev = (second, pressed)" by fastforce
  show ?case using Cons.IH [OF event_keeps_sees [OF Cons.prems(1) assms(2-4)]] Cons.prems(2) by (simp add: ev)
qed simp

end

section \<open>The keyboard under the pairs\<close>

definition kb_io :: "kb_env \<Rightarrow> ('w, 'u) kbd key_io" where
  "kb_io env = \<lparr>io_register_code = register_code env, io_unregister_code = unregister_code env,
     io_is_key_pressed = (\<lambda>k s. is_key_pressed (can_nkro env) k (host s))\<rparr>"

definition plain_key :: "u8 \<Rightarrow> bool" where
  "plain_key k \<longleftrightarrow> reportable k \<and> IS_BASIC_KEYCODE (ucast k)"

lemma send_report_fields [simp]:
  "rp_keys (send_keyboard_report b h) = rp_keys h" "rp_bits (send_keyboard_report b h) = rp_bits h"
  "kb_keys_count (send_keyboard_report b h) = kb_keys_count h" "nkro_bit_count (send_keyboard_report b h) = nkro_bit_count h"
  by (auto simp: send_keyboard_report_def send_6kro_report_def send_nkro_report_def get_mods_for_report_def clear_oneshot_mods_def Let_def)

lemma send_report_keys [simp]:
  "held_keys (send_keyboard_report b h) = held_keys h" "KeyReport.report_ok (send_keyboard_report b h) = KeyReport.report_ok h"
  by (rule report_cong; simp)+

lemma pressed_is_held:
  assumes "KeyReport.report_ok h" and "k \<noteq> 0" and "unat k < 240"
  shows "is_key_pressed True k h \<longleftrightarrow> k \<in> held_keys h"
proof -
  have ix: "bits_index k < 30" using assms(3) by (simp add: bits_index_div)
  have bits: "k \<in> bit_keys h \<longleftrightarrow> rp_bits h ! bits_index k AND bits_mask k \<noteq> 0"
    using assms(1) ix by (simp add: bit_keys_def KeyReport.report_ok_def bits_mask_test)
  have "k \<in> bit_keys h \<Longrightarrow> nkro_bit_count h \<noteq> 0"
    using assms(1) by (auto simp: KeyReport.report_ok_def)
  then show ?thesis using assms(2) bits ix by (auto simp: is_key_pressed_def held_keys_def byte_keys_def list_ex_iff)
qed

interpretation nkro_host: key_sink "kb_io (env\<lparr>can_nkro := True\<rparr>)" "\<lambda>s. held_keys (host s)" "\<lambda>s. KeyReport.report_ok (host s)" plain_key for env
proof
  fix k and s :: "('w, 'u) kbd"
  assume ok: "KeyReport.report_ok (host s)" and "plain_key k"
  then have k: "k \<noteq> 0" "unat k < 240" "IS_BASIC_KEYCODE (ucast k)" by (simp_all add: plain_key_def reportable_def)
  let ?env = "env\<lparr>can_nkro := True\<rparr>"
  show "KeyReport.report_ok (host (io_unregister_code (kb_io ?env) k s)) \<and> held_keys (host (io_unregister_code (kb_io ?env) k s)) = held_keys (host s) - {k}"
    using k del_key_ok [OF ok k(1,2)] by (simp add: kb_io_def unregister_code_def send_report_def on_host_def)
  show "io_is_key_pressed (kb_io ?env) k s \<longleftrightarrow> k \<in> held_keys (host s)"
    using pressed_is_held [OF ok k(1,2)] by (simp add: kb_io_def)
  define t where "t = (if is_key_pressed True k (host s) then send_report ?env (on_host (del_key_from_report True k) s) else s)"
  have t: "KeyReport.report_ok (host t)" "held_keys (host t) = held_keys (host s) - {k}"
    using del_key_ok [OF ok k(1,2)] pressed_is_held [OF ok k(1,2)] ok by (auto simp: t_def send_report_def on_host_def)
  have "host (io_register_code (kb_io ?env) k s) = send_keyboard_report True (add_key_to_report True k (host t))"
    using k by (simp add: kb_io_def register_code_def t_def Let_def send_report_def on_host_def)
  then show "KeyReport.report_ok (host (io_register_code (kb_io ?env) k s)) \<and> held_keys (host (io_register_code (kb_io ?env) k s)) = insert k (held_keys (host s))"
    using add_key_ok [OF t(1) k(1,2)] t(2) by auto
qed


definition demo_snap :: snap_click where
  "demo_snap = \<lparr>snap_click_pair = [\<lparr>sc_type = 2, sc_key_0 = 4, sc_key_1 = 7\<rparr>], snap_click_state = [no_keys], snap_click_eeprom = []\<rparr>"


section \<open>Configuration over raw HID\<close>

lemma pairs_bytes_nth:
  "i < length ps \<Longrightarrow> pair_of (pairs_bytes ps @ rest) (3 * i) = ps ! i"
proof (induction ps arbitrary: i)
  case (Cons p ps)
  show ?case
  proof (cases i)
    case 0 then show ?thesis by (simp add: pairs_bytes_def pair_of_def pair_bytes_def)
  next
    case (Suc j)
    then show ?thesis using Cons by (simp add: pairs_bytes_def pair_of_def pair_bytes_def numeral_3_eq_3)
  qed
qed simp

text \<open>What was saved is loaded, and a refused command changes nothing.\<close>

lemma saved_pairs_load:
  assumes "length (snap_click_pair c) = SNAP_CLICK_COUNT" and "snap_click_eeprom d = snap_click_eeprom (snap_click_save c)"
  shows "snap_click_pair (snap_click_init d) = snap_click_pair c"
proof -
  have "map (\<lambda>i. pair_of (pairs_bytes (snap_click_pair c)) (3 * i)) [0..<SNAP_CLICK_COUNT] = snap_click_pair c"
    by (rule nth_equalityI) (use assms(1) pairs_bytes_nth [of _ "snap_click_pair c" "[]"] in simp_all)
  then show ?thesis using assms(2) by (simp add: snap_click_init_def snap_click_save_def)
qed

lemma refused_set_changes_nothing: "\<not> fst (snap_click_set data c) \<Longrightarrow> snd (snap_click_set data c) = c"
  by (simp add: snap_click_set_def Let_def split: if_splits)

lemma set_keeps_pairs_usable:
  assumes "\<forall>p \<in> set (snap_click_pair c). \<not> pair_refused p" and "length (snap_click_pair c) = SNAP_CLICK_COUNT"
  shows "\<forall>p \<in> set (snap_click_pair (snd (snap_click_set data c))). \<not> pair_refused p"
  using assms by (auto simp: snap_click_set_def Let_def splice_def list_ex_iff dest: in_set_takeD in_set_dropD)

text \<open>A pair set while its keys are down keeps the state of the old one: here the new pair swallows the press of a key that is alone.\<close>

lemma set_keeps_pair_state: "snap_click_state (snd (snap_click_set data c)) = snap_click_state c"
  by (simp add: snap_click_set_def Let_def)

end
