(* ===== verification/Encoder.thy ===== *)
theory Encoder
  imports RingBuffer "HOL-Library.Signed_Division"
begin

text \<open>
  Rotary encoders: the quadrature driver (\<open>drivers/encoder/encoder_quadrature.c\<close>, with the interrupt read of the Keychron boards)
  and the queue of turns (\<open>quantum/encoder.c\<close>).  Configuration: no split keyboard, \<open>ENCODER_MAP_ENABLE\<close>, no delay between the
  press and the release of a turn.  The events \<open>action_exec\<close> gets are the list \<open>turned\<close>; an interrupt runs between two operations.
\<close>

section \<open>State\<close>

record encoder_config =
  NUM_ENCODERS :: nat
  resolutions :: "u8 list"
  ENCODER_DEFAULT_POS :: "u8 option"
  ENCODER_CLOCKWISE :: bool

record turn =
  turn_index :: "7 word"
  turn_clockwise :: bool

record encoder_events =
  enqueued :: u8
  dequeued :: u8
  events_head :: nat
  events_tail :: nat
  events_queue :: "turn list"

record encoder =
  encoder_state :: "u8 list"
  encoder_pulses :: "u8 list"
  encoder_interrupt_update :: "bool list"
  encoder_events :: encoder_events
  signal_queue_drain :: bool
  turned :: "(turn \<times> bool) list"

definition MAX_QUEUED_ENCODER_EVENTS :: "encoder_config \<Rightarrow> nat" where
  "MAX_QUEUED_ENCODER_EVENTS cfg = max 4 (NUM_ENCODERS cfg + 1)"

section \<open>The queue\<close>

definition encoder_queue_full :: "encoder_config \<Rightarrow> encoder_events \<Rightarrow> bool" where
  "encoder_queue_full cfg q \<longleftrightarrow> events_tail q = (events_head q + 1) mod MAX_QUEUED_ENCODER_EVENTS cfg"

definition encoder_queue_empty :: "encoder_events \<Rightarrow> bool" where
  "encoder_queue_empty q \<longleftrightarrow> events_head q = events_tail q"

definition encoder_queue_event_advanced :: "encoder_config \<Rightarrow> turn \<Rightarrow> encoder_events \<Rightarrow> bool \<times> encoder_events" where
  "encoder_queue_event_advanced cfg e q =
     (if encoder_queue_full cfg q then (False, q)
      else (True, q\<lparr>events_queue := (events_queue q)[events_head q := e],
              events_head := (events_head q + 1) mod MAX_QUEUED_ENCODER_EVENTS cfg, enqueued := enqueued q + 1\<rparr>))"

definition encoder_dequeue_event_advanced :: "encoder_config \<Rightarrow> encoder_events \<Rightarrow> turn option \<times> encoder_events" where
  "encoder_dequeue_event_advanced cfg q =
     (if encoder_queue_empty q then (None, q)
      else (Some (events_queue q ! events_tail q),
            q\<lparr>events_tail := (events_tail q + 1) mod MAX_QUEUED_ENCODER_EVENTS cfg, dequeued := dequeued q + 1\<rparr>))"

definition encoder_queue_drain :: "encoder_events \<Rightarrow> encoder_events" where
  "encoder_queue_drain q = q\<lparr>events_tail := events_head q, dequeued := enqueued q\<rparr>"

definition turns_ok :: "encoder_config \<Rightarrow> encoder_events \<Rightarrow> bool" where
  "turns_ok cfg q \<longleftrightarrow> ring_inv (MAX_QUEUED_ENCODER_EVENTS cfg) (events_queue q) (events_head q) (events_tail q)"

definition queued_turns :: "encoder_config \<Rightarrow> encoder_events \<Rightarrow> turn list" where
  "queued_turns cfg q = ring_contents (MAX_QUEUED_ENCODER_EVENTS cfg) (events_queue q) (events_head q) (events_tail q)"

interpretation turns: bounded_fifo "MAX_QUEUED_ENCODER_EVENTS cfg - 1" "turns_ok cfg" "queued_turns cfg" "encoder_queue_event_advanced cfg"
    "encoder_dequeue_event_advanced cfg" for cfg
  unfolding turns_ok_def [abs_def] queued_turns_def [abs_def]
  by (rule ring_bounded_fifo)
     (auto simp: encoder_queue_event_advanced_def encoder_dequeue_event_advanced_def encoder_queue_full_def encoder_queue_empty_def
        MAX_QUEUED_ENCODER_EVENTS_def)

definition encoder_queue_event :: "encoder_config \<Rightarrow> turn \<Rightarrow> encoder \<Rightarrow> encoder" where
  "encoder_queue_event cfg e s = s\<lparr>encoder_events := snd (encoder_queue_event_advanced cfg e (encoder_events s))\<rparr>"

section \<open>The quadrature driver\<close>

definition encoder_LUT :: "int list" where
  "encoder_LUT = [0, -1, 1, 0, 1, 0, 0, -1, -1, 0, 0, 1, 0, 1, -1, 0]"

text \<open>The pulses of an encoder after a change of its state, and the turns reported: \<open>True\<close> is counter-clockwise.\<close>

definition pulse_step :: "u8 option \<Rightarrow> u8 \<Rightarrow> u8 \<Rightarrow> u8 \<Rightarrow> bool list \<times> u8" where
  "pulse_step default_pos resolution state pulses =
     (let p = sint pulses + encoder_LUT ! unat (state AND 0xF);
          pulses = (as_u8 p :: u8);
          p = sint pulses; r = uint resolution
      in (case default_pos of
            None \<Rightarrow> ((if p \<ge> r then [True] else []) @ (if p \<le> - r then [False] else []), as_u8 (p smod r))
          | Some pos \<Rightarrow>
              if p \<ge> r \<or> p \<le> - r \<or> state AND 0x3 = pos
              then ((if p \<ge> 1 then [True] else []) @ (if p \<le> - 1 then [False] else []), 0)
              else ([], pulses)))"

definition turn_of :: "encoder_config \<Rightarrow> nat \<Rightarrow> bool \<Rightarrow> turn" where
  "turn_of cfg index ccw = \<lparr>turn_index = of_nat index, turn_clockwise = (if ccw then \<not> ENCODER_CLOCKWISE cfg else ENCODER_CLOCKWISE cfg)\<rparr>"

definition encoder_handle_state_change :: "encoder_config \<Rightarrow> nat \<Rightarrow> u8 \<Rightarrow> encoder \<Rightarrow> encoder" where
  "encoder_handle_state_change cfg i state s =
     (let (ts, p) = pulse_step (ENCODER_DEFAULT_POS cfg) (resolutions cfg ! i) state (encoder_pulses s ! i)
      in (fold (encoder_queue_event cfg \<circ> turn_of cfg i) ts s)\<lparr>encoder_pulses := (encoder_pulses s)[i := p]\<rparr>)"

definition push_state :: "u8 \<Rightarrow> u8 \<Rightarrow> u8" where
  "push_state old pins = push_bit 2 old OR pins"

definition encoder_quadrature_handle_read :: "encoder_config \<Rightarrow> nat \<Rightarrow> u8 \<Rightarrow> encoder \<Rightarrow> encoder" where
  "encoder_quadrature_handle_read cfg i pins s =
     (if encoder_state s ! i AND 0x3 \<noteq> pins \<or> encoder_interrupt_update s ! i then
        (let st = push_state (encoder_state s ! i) pins;
             s = encoder_handle_state_change cfg i st (s\<lparr>encoder_state := (encoder_state s)[i := st]\<rparr>)
         in s\<lparr>encoder_interrupt_update := (encoder_interrupt_update s)[i := False]\<rparr>)
      else s)"

definition encoder_quadrature_handle_inerrupt_read :: "nat \<Rightarrow> u8 \<Rightarrow> encoder \<Rightarrow> encoder" where
  "encoder_quadrature_handle_inerrupt_read i pins s =
     (let st = push_state (encoder_state s ! i) pins
      in s\<lparr>encoder_state := (encoder_state s)[i := st],
           encoder_pulses := (encoder_pulses s)[i := as_u8 (sint (encoder_pulses s ! i) + encoder_LUT ! unat (st AND 0xF))],
           encoder_interrupt_update := (encoder_interrupt_update s)[i := True]\<rparr>)"

definition encoder_driver_init :: "encoder_config \<Rightarrow> (nat \<Rightarrow> u8) \<Rightarrow> encoder \<Rightarrow> encoder" where
  "encoder_driver_init cfg read_pins s = s\<lparr>encoder_state := map read_pins [0..<NUM_ENCODERS cfg]\<rparr>"

definition encoder_driver_task :: "encoder_config \<Rightarrow> (nat \<Rightarrow> u8) \<Rightarrow> encoder \<Rightarrow> encoder" where
  "encoder_driver_task cfg read_pins s =
     fold (\<lambda>i. encoder_quadrature_handle_read cfg i (read_pins i)) [0..<NUM_ENCODERS cfg] s"

section \<open>The task\<close>

definition encoder_init :: "encoder_config \<Rightarrow> (nat \<Rightarrow> u8) \<Rightarrow> encoder \<Rightarrow> encoder" where
  "encoder_init cfg read_pins s =
     encoder_driver_init cfg read_pins (s\<lparr>encoder_events := \<lparr>enqueued = 0, dequeued = 0, events_head = 0, events_tail = 0,
       events_queue = replicate (MAX_QUEUED_ENCODER_EVENTS cfg) \<lparr>turn_index = 0, turn_clockwise = False\<rparr>\<rparr>\<rparr>)"

text \<open>The loop has no bound of its own.\<close>

partial_function (option) encoder_handle_queue :: "encoder_config \<Rightarrow> encoder \<Rightarrow> encoder option" where
  [code]: "encoder_handle_queue cfg s =
     (case encoder_dequeue_event_advanced cfg (encoder_events s) of
        (None, q) \<Rightarrow> Some s
      | (Some e, q) \<Rightarrow> encoder_handle_queue cfg (s\<lparr>encoder_events := q, turned := turned s @ [(e, True), (e, False)]\<rparr>))"

definition encoder_task :: "encoder_config \<Rightarrow> bool \<Rightarrow> (nat \<Rightarrow> u8) \<Rightarrow> encoder \<Rightarrow> encoder option" where
  "encoder_task cfg master read_pins s =
     (let s = (if signal_queue_drain s
               then s\<lparr>signal_queue_drain := False, encoder_events := encoder_queue_drain (encoder_events s)\<rparr> else s);
          s = encoder_driver_task cfg read_pins s
      in if master then encoder_handle_queue cfg s else Some s)"

section \<open>Positions\<close>

text \<open>The pins at position \<open>n\<close> of the knob, counted in quarter steps counter-clockwise.\<close>

definition gray :: "int \<Rightarrow> u8" where
  "gray n = (if n mod 4 = 0 then 0 else if n mod 4 = 1 then 2 else if n mod 4 = 2 then 3 else 1)"

lemma push_state_nibble: "pins AND 3 = pins \<Longrightarrow> push_state old pins AND 0xF = push_bit 2 (old AND 3) OR pins"
proof (rule bit_word_eqI)
  fix n assume "pins AND 3 = pins" and n: "n < LENGTH(8)"
  then have "bit pins n \<Longrightarrow> n < 2" by (metis bit_and_iff bit_mask_iff byte_masks(2))
  then show "bit (push_state old pins AND 0xF) n = bit (push_bit 2 (old AND 3) OR pins) n"
    using n by (auto simp: push_state_def byte_masks bit_simps)
qed

lemma push_state_pins: "pins AND 3 = pins \<Longrightarrow> push_state old pins AND 3 = pins"
proof (rule bit_word_eqI)
  fix n assume p: "pins AND 3 = pins" and n: "n < LENGTH(8)"
  have "bit pins n \<longleftrightarrow> bit pins n \<and> n < 2" using p by (metis bit_and_iff bit_mask_iff byte_masks(2))
  then show "bit (push_state old pins AND 3) n = bit pins n"
    using n by (auto simp: push_state_def byte_masks bit_simps)
qed

lemma gray_pins [simp]: "gray n AND 3 = gray n"
  by (simp add: gray_def)

lemma mod_4_cases: "n mod 4 = 0 \<or> n mod 4 = 1 \<or> n mod 4 = 2 \<or> n mod 4 = (3 :: int)"
  by presburger

text \<open>One quarter step is one pulse.\<close>

lemma step_pulse:
  assumes "old AND 3 = gray n" and "\<bar>n' - n\<bar> \<le> 1"
  shows "encoder_LUT ! unat (push_state old (gray n') AND 0xF) = n' - n"
proof -
  have "n' = n \<or> n' = n + 1 \<or> n' = n - 1" using assms(2) by linarith
  moreover have "(n + 1) mod 4 = (if n mod 4 = 3 then 0 else n mod 4 + 1)" "(n - 1) mod 4 = (if n mod 4 = 0 then 3 else n mod 4 - 1)"
    by presburger+
  ultimately show ?thesis using mod_4_cases [of n]
    by (elim disjE) (simp_all add: push_state_nibble assms(1) gray_def encoder_LUT_def)
qed

lemma gray_eq: "\<bar>n' - n\<bar> \<le> 1 \<Longrightarrow> gray n' = gray n \<longleftrightarrow> n' = n"
proof -
  assume "\<bar>n' - n\<bar> \<le> 1"
  then have "n' = n \<or> n' = n + 1 \<or> n' = n - 1" by linarith
  moreover have "(n + 1) mod 4 = (if n mod 4 = 3 then 0 else n mod 4 + 1)" "(n - 1) mod 4 = (if n mod 4 = 0 then 3 else n mod 4 - 1)"
    by presburger+
  ultimately show ?thesis using mod_4_cases [of n] by (elim disjE) (simp_all add: gray_def)
qed

lemma gray_rest: "gray n = 3 \<longleftrightarrow> n mod 4 = 2"
  using mod_4_cases [of n] by (auto simp: gray_def)

lemma sint_small: "- 128 \<le> p \<Longrightarrow> p < 128 \<Longrightarrow> sint (as_u8 p) = p"
  by (simp add: sint_sbintrunc' signed_take_bit_int_eq_self)

text \<open>Signs of the reported turns.\<close>

definition clicks :: "bool list \<Rightarrow> int" where
  "clicks ts = sum_list (map (\<lambda>t. if t then 1 else - 1) ts)"

text \<open>Without a default position nothing is lost: the turns, the resolution times, and the pulses left over add up.\<close>

lemma pulses_add_up:
  assumes "0 < uint r" and "uint r \<le> 127" and "\<bar>sint pulses\<bar> < uint r" and "encoder_LUT ! unat (state AND 0xF) = d" and "\<bar>d\<bar> \<le> 1"
    and "pulse_step None r state pulses = (ts, p)"
  shows "uint r * clicks ts + sint p = sint pulses + d" and "\<bar>sint p\<bar> < uint r"
proof -
  let ?p = "sint pulses + d"
  have s: "sint (as_u8 ?p) = ?p" using assms(1-3,5) by (intro sint_small) linarith+
  have step: "ts = (if ?p \<ge> uint r then [True] else []) @ (if ?p \<le> - uint r then [False] else [])" "p = as_u8 (?p smod uint r)"
    using assms(6) unfolding pulse_step_def Let_def assms(4) s option.case prod.inject by blast+
  consider "?p = uint r" | "?p = - uint r" | "\<bar>?p\<bar> < uint r" using assms(3,5) by linarith
  then have "uint r * clicks ts + sint p = ?p \<and> \<bar>sint p\<bar> < uint r"
  proof cases
    case 1 then show ?thesis using assms(1) by (simp add: step clicks_def signed_modulo_int_def)
  next
    case 2 then show ?thesis using assms(1) by (simp add: step clicks_def signed_modulo_int_def)
  next
    case 3
    then have "?p smod uint r = ?p" by (auto simp: signed_modulo_int_def sgn_if)
    moreover have "\<not> ?p \<ge> uint r" "\<not> ?p \<le> - uint r" using 3 by linarith+
    ultimately have "ts = []" "p = as_u8 ?p" by (simp_all only: step if_False append.simps)
    then show ?thesis using 3 by (simp only: s) (simp add: clicks_def)
  qed
  then show "uint r * clicks ts + sint p = ?p" and "\<bar>sint p\<bar> < uint r" by simp_all
qed

text \<open>With the default position at the rest of the knob, and \<open>base\<close> the rest it left.\<close>

lemma pulses_from_rest:
  assumes "4 \<le> uint r" and "uint r \<le> 127" and "base mod 4 = 2" and "\<bar>n - base\<bar> < 4" and "sint pulses = n - base"
    and "old AND 3 = gray n" and "\<bar>n' - n\<bar> \<le> 1" and "pulse_step (Some 3) r (push_state old (gray n')) pulses = (ts, p)"
  shows "if n' mod 4 = 2 then 4 * clicks ts = n' - base \<and> sint p = 0 else ts = [] \<and> sint p = n' - base \<and> \<bar>n' - base\<bar> < 4"
    and "length ts \<le> 1"
proof -
  have d: "encoder_LUT ! unat (push_state old (gray n') AND 0xF) = n' - n" by (rule step_pulse [OF assms(6,7)])
  have sum: "sint pulses + (n' - n) = n' - base" using assms(5) by simp
  have s: "sint (as_u8 (n' - base)) = n' - base" using assms(4,7) by (intro sint_small) linarith+
  have pos: "push_state old (gray n') AND 3 = 3 \<longleftrightarrow> n' mod 4 = 2" by (simp add: push_state_pins gray_rest)
  have step: "(ts, p) = (if n' - base \<ge> uint r \<or> n' - base \<le> - uint r \<or> n' mod 4 = 2
      then ((if n' - base \<ge> 1 then [True] else []) @ (if n' - base \<le> - 1 then [False] else []), 0) else ([], as_u8 (n' - base)))"
    using assms(8) unfolding pulse_step_def Let_def d sum s option.case pos by simp
  have near: "- 4 \<le> n' - base" "n' - base \<le> 4" using assms(4,7) by linarith+
  have rest: "n' mod 4 = 2 \<longleftrightarrow> (n' - base) mod 4 = 0" using assms(3) by presburger
  show "if n' mod 4 = 2 then 4 * clicks ts = n' - base \<and> sint p = 0 else ts = [] \<and> sint p = n' - base \<and> \<bar>n' - base\<bar> < 4"
  proof (cases "n' mod 4 = 2")
    case True
    have "n' - base = 0 \<or> n' - base = 4 \<or> n' - base = - 4" using True[unfolded rest] near by presburger
    then show ?thesis using True step by (elim disjE) (simp_all add: clicks_def)
  next
    case False
    then have "n' - base \<noteq> 4" "n' - base \<noteq> - 4" unfolding rest by auto
    then have "\<bar>n' - base\<bar> < 4" using near by linarith
    moreover from this have "\<not> n' - base \<ge> uint r" "\<not> n' - base \<le> - uint r" using assms(1) by linarith+
    then have "(ts, p) = ([], as_u8 (n' - base))" using step False by (simp only: if_False simp_thms)
    then have "ts = []" "sint p = n' - base" by (simp_all only: prod.inject s)
    ultimately show ?thesis using False by simp
  qed
  show "length ts \<le> 1" using step by (auto split: if_splits)
qed

section \<open>One knob\<close>

text \<open>The keyboard polls its knob at each position of a walk.\<close>

fun turn_knob :: "encoder_config \<Rightarrow> int list \<Rightarrow> encoder \<Rightarrow> encoder option" where
  "turn_knob cfg [] s = Some s"
| "turn_knob cfg (n # ns) s = Option.bind (encoder_task cfg True (\<lambda>_. gray n) s) (turn_knob cfg ns)"

fun walk_ok :: "int \<Rightarrow> int list \<Rightarrow> bool" where
  "walk_ok n [] = True"
| "walk_ok n (n' # ns) = (\<bar>n' - n\<bar> \<le> 1 \<and> walk_ok n' ns)"

definition net_turns :: "encoder_config \<Rightarrow> (turn \<times> bool) list \<Rightarrow> int" where
  "net_turns cfg es = clicks (map (\<lambda>e. turn_clockwise (fst e) \<noteq> ENCODER_CLOCKWISE cfg) (filter snd es))"

text \<open>The turns of one poll.\<close>

definition presses :: "encoder_config \<Rightarrow> bool list \<Rightarrow> (turn \<times> bool) list" where
  "presses cfg ts = concat (map (\<lambda>t. [(turn_of cfg 0 t, True), (turn_of cfg 0 t, False)]) ts)"

lemma handle_queue_serves:
  "turns_ok cfg (encoder_events s) \<Longrightarrow> \<exists>q. turns_ok cfg q \<and> queued_turns cfg q = [] \<and>
     encoder_handle_queue cfg s = Some (s\<lparr>encoder_events := q,
       turned := turned s @ concat (map (\<lambda>e. [(e, True), (e, False)]) (queued_turns cfg (encoder_events s)))\<rparr>)"
proof (induction "queued_turns cfg (encoder_events s)" arbitrary: s)
  case Nil
  then have "encoder_dequeue_event_advanced cfg (encoder_events s) = (None, encoder_events s)" using turns.deq_empty by metis
  then have "encoder_handle_queue cfg s = Some s" by (subst encoder_handle_queue.simps) simp
  then show ?case using Nil by (intro exI [of _ "encoder_events s"]) simp
next
  case (Cons e es)
  obtain q where q: "encoder_dequeue_event_advanced cfg (encoder_events s) = (Some e, q)" "queued_turns cfg q = es" "turns_ok cfg q"
    using turns.deq_first [OF Cons.prems Cons.hyps(2) [symmetric]] turns.inv_deq [OF Cons.prems] by (metis prod.collapse)
  let ?s = "s\<lparr>encoder_events := q, turned := turned s @ [(e, True), (e, False)]\<rparr>"
  have "encoder_handle_queue cfg s = encoder_handle_queue cfg ?s" by (subst encoder_handle_queue.simps) (simp add: q(1))
  then show ?case using Cons.hyps(1) [of ?s] q Cons.hyps(2) [symmetric] by simp
qed

lemma net_turns_append: "net_turns cfg (es @ es') = net_turns cfg es + net_turns cfg es'"
  by (simp add: net_turns_def clicks_def)

lemma net_turns_presses: "net_turns cfg (concat (map (\<lambda>e. [(e, True), (e, False)]) (map (turn_of cfg 0) ts))) = clicks ts"
  by (induction ts) (auto simp: net_turns_def clicks_def turn_of_def)

text \<open>The knob at position \<open>n\<close>, last at rest at \<open>base\<close>, having started at \<open>n0\<close>.\<close>

definition knob_at :: "encoder_config \<Rightarrow> int \<Rightarrow> int \<Rightarrow> int \<Rightarrow> encoder \<Rightarrow> bool" where
  "knob_at cfg n0 base n s \<longleftrightarrow>
     turns_ok cfg (encoder_events s) \<and> queued_turns cfg (encoder_events s) = [] \<and> \<not> signal_queue_drain s \<and>
     length (encoder_state s) = 1 \<and> length (encoder_pulses s) = 1 \<and> length (encoder_interrupt_update s) = 1 \<and>
     encoder_state s ! 0 AND 3 = gray n \<and> \<not> encoder_interrupt_update s ! 0 \<and>
     sint (encoder_pulses s ! 0) = n - base \<and> \<bar>n - base\<bar> < 4 \<and> base mod 4 = 2 \<and> 4 * net_turns cfg (turned s) = base - n0"

definition keychron_knob :: "encoder_config \<Rightarrow> bool" where
  "keychron_knob cfg \<longleftrightarrow> NUM_ENCODERS cfg = 1 \<and> ENCODER_DEFAULT_POS cfg = Some 3 \<and> 4 \<le> uint (resolutions cfg ! 0) \<and> uint (resolutions cfg ! 0) \<le> 127"

lemma queue_one:
  assumes "turns_ok cfg q" and "queued_turns cfg q = []"
  shows "turns_ok cfg (snd (encoder_queue_event_advanced cfg e q)) \<and> queued_turns cfg (snd (encoder_queue_event_advanced cfg e q)) = [e]"
  using turns.enq_space [OF assms(1), of e] turns.inv_enq [OF assms(1)] assms(2) by (simp add: MAX_QUEUED_ENCODER_EVENTS_def)

lemma poll_knob:
  assumes "keychron_knob cfg" and "knob_at cfg n0 base n s" and "\<bar>n' - n\<bar> \<le> 1"
  shows "\<exists>s' base'. encoder_task cfg True (\<lambda>_. gray n') s = Some s' \<and> knob_at cfg n0 base' n' s'"
proof -
  note k = assms(1) [unfolded keychron_knob_def] and a = assms(2) [unfolded knob_at_def]
  let ?r = "resolutions cfg ! 0"
  define t where "t = encoder_quadrature_handle_read cfg 0 (gray n') s"
  have task: "encoder_task cfg True (\<lambda>_. gray n') s = encoder_handle_queue cfg t"
    using k a by (simp add: encoder_task_def encoder_driver_task_def t_def Let_def)
  show ?thesis
  proof (cases "n' = n")
    case True
    then have "t = s" using a by (simp add: t_def encoder_quadrature_handle_read_def)
    moreover obtain q where "turns_ok cfg q" "queued_turns cfg q = []" "encoder_handle_queue cfg s = Some (s\<lparr>encoder_events := q\<rparr>)"
      using handle_queue_serves [of cfg s] a by auto
    ultimately show ?thesis using task a True by (intro exI [of _ "s\<lparr>encoder_events := q\<rparr>"] exI [of _ base]) (simp add: knob_at_def)
  next
    case False
    obtain ts p where ps: "pulse_step (Some 3) ?r (push_state (encoder_state s ! 0) (gray n')) (encoder_pulses s ! 0) = (ts, p)" by fastforce
    have r: "4 \<le> uint ?r" "uint ?r \<le> 127" using k by simp_all
    have st: "base mod 4 = 2" "\<bar>n - base\<bar> < 4" "sint (encoder_pulses s ! 0) = n - base" "encoder_state s ! 0 AND 3 = gray n" using a by simp_all
    note step = pulses_from_rest [OF r st assms(3) ps]
    have ne: "gray n \<noteq> gray n'" using gray_eq [OF assms(3)] False by auto
    define q where "q = encoder_events (fold (encoder_queue_event cfg \<circ> turn_of cfg 0) ts s)"
    have q: "turns_ok cfg q \<and> queued_turns cfg q = map (turn_of cfg 0) ts"
      using step(2) a queue_one [of cfg "encoder_events s"] by (cases ts) (auto simp: q_def encoder_queue_event_def)
    have ev: "encoder_events t = q" "signal_queue_drain t = signal_queue_drain s" "turned t = turned s"
      "encoder_state t = [push_state (encoder_state s ! 0) (gray n')]" "encoder_pulses t = [p]" "encoder_interrupt_update t = [False]"
      using a k ps ne step(2)
      by (cases ts; auto simp: t_def encoder_quadrature_handle_read_def encoder_handle_state_change_def encoder_queue_event_def q_def Let_def
          length_Suc_conv)+
    obtain q' where q': "turns_ok cfg q'" "queued_turns cfg q' = []" "encoder_handle_queue cfg t = Some (t\<lparr>encoder_events := q',
        turned := turned s @ concat (map (\<lambda>e. [(e, True), (e, False)]) (map (turn_of cfg 0) ts))\<rparr>)"
      using handle_queue_serves [of cfg t] q ev(1,3) by auto
    let ?s = "t\<lparr>encoder_events := q', turned := turned s @ concat (map (\<lambda>e. [(e, True), (e, False)]) (map (turn_of cfg 0) ts))\<rparr>"
    have "knob_at cfg n0 (if n' mod 4 = 2 then n' else base) n' ?s"
      using a q' ev step(1) by (auto simp: knob_at_def push_state_pins net_turns_append net_turns_presses clicks_def simp del: map_map)
    then show ?thesis using task q'(3) by auto
  qed
qed

lemma knob_walk:
  assumes "keychron_knob cfg" and "knob_at cfg n0 base n s" and "walk_ok n ns"
  shows "\<exists>s' base'. turn_knob cfg ns s = Some s' \<and> knob_at cfg n0 base' (last (n # ns)) s'"
  using assms(2,3)
proof (induction ns arbitrary: n base s)
  case (Cons n' ns)
  obtain s' base' where s': "encoder_task cfg True (\<lambda>_. gray n') s = Some s'" "knob_at cfg n0 base' n' s'"
    using poll_knob [OF assms(1) Cons.prems(1), of n'] Cons.prems(2) by auto
  then show ?case using Cons.IH [OF s'(2)] Cons.prems(2) by simp
qed auto

text \<open>C37. Polled at every quarter step, a knob with a default position reports, when it comes to
  rest, exactly the net number of clicks it was turned, whatever bounces and turns back there
  were on the way, and keeps no pulses.\<close>

theorem clicks_match_the_knob:
  assumes "keychron_knob cfg" and "knob_at cfg n n n s" and "walk_ok n ns" and "gray (last (n # ns)) = 3"
  shows "\<exists>s'. turn_knob cfg ns s = Some s' \<and> 4 * net_turns cfg (turned s') = last (n # ns) - n \<and> sint (encoder_pulses s' ! 0) = 0"
proof -
  obtain s' base where s': "turn_knob cfg ns s = Some s'" "knob_at cfg n base (last (n # ns)) s'" using knob_walk [OF assms(1-3)] by blast
  have "last (n # ns) mod 4 = 2" "base mod 4 = 2" "\<bar>last (n # ns) - base\<bar> < 4"
    using s'(2) assms(4) by (simp_all only: knob_at_def gray_rest)
  then have "base = last (n # ns)" by presburger
  with s' show ?thesis by (auto simp: knob_at_def)
qed

section \<open>A board with one knob\<close>

definition demo_knob :: encoder_config where
  "demo_knob = \<lparr>NUM_ENCODERS = 1, resolutions = [4], ENCODER_DEFAULT_POS = Some 3, ENCODER_CLOCKWISE = True\<rparr>"

definition demo_encoder :: encoder where
  "demo_encoder = encoder_init demo_knob (\<lambda>_. 3)
     \<lparr>encoder_state = [0], encoder_pulses = [0], encoder_interrupt_update = [False],
      encoder_events = \<lparr>enqueued = 0, dequeued = 0, events_head = 0, events_tail = 0, events_queue = []\<rparr>, signal_queue_drain = False, turned = []\<rparr>"

lemma demo_at_rest: "keychron_knob demo_knob" "knob_at demo_knob 2 2 2 demo_encoder"
proof -
  show "keychron_knob demo_knob" by (simp add: keychron_knob_def demo_knob_def)
  have "MAX_QUEUED_ENCODER_EVENTS demo_knob = 4" by (simp add: MAX_QUEUED_ENCODER_EVENTS_def demo_knob_def)
  then show "knob_at demo_knob 2 2 2 demo_encoder"
    by (simp add: knob_at_def demo_encoder_def encoder_init_def encoder_driver_init_def demo_knob_def turns_ok_def queued_turns_def
        ring_inv_def ring_contents_def gray_def net_turns_def clicks_def)
qed

text \<open>Two clicks one way with a bounce, one back.\<close>

theorem clicks_match_the_knob_witness:
  "\<exists>s'. turn_knob demo_knob [3, 4, 3, 4, 5, 6, 7, 8, 9, 10, 9, 8, 7, 6] demo_encoder = Some s' \<and> net_turns demo_knob (turned s') = 1"
proof -
  have "gray (last (2 # [3, 4, 3, 4, 5, 6, 7, 8, 9, 10, 9, 8, 7, 6 :: int])) = 3" by (simp add: gray_def)
  from clicks_match_the_knob [OF demo_at_rest _ this] show ?thesis by auto
qed

text \<open>Two clicks between two polls, all eight steps seen by the interrupt: one of them is reported.\<close>

lemma fast_turn_loses_a_click:
  "map_option (\<lambda>s. (net_turns demo_knob (turned s), encoder_pulses s))
     (encoder_task demo_knob True (\<lambda>_. gray 10) (fold (\<lambda>n. encoder_quadrature_handle_inerrupt_read 0 (gray n)) [3, 4, 5, 6, 7, 8, 9, 10] demo_encoder))
   = Some (1, [0])"
  by code_simp

end
