(* ===== verification/Matrix.thy ===== *)
theory Matrix
  imports Debounce
begin

text \<open>
  The scan of the switches: \<open>quantum/matrix.c\<close> (rows or columns on pins of the controller, or one pin per switch) and
  \<open>quantum/matrix_common.c\<close> (what every scan is followed by).  The pins are the list of accesses the code makes; what a
  pin reads is a parameter, a function of the accesses before it.  The locale \<open>switch_scanner\<close> is what the rest of
  the firmware relies on: a scan reads exactly the switches that are closed and leaves no line selected.
\<close>

section \<open>Pins\<close>

type_synonym pin_t = u32

definition NO_PIN :: pin_t where
  "NO_PIN = - 1"

datatype gpio =
  gpio_set_pin_output pin_t
  | gpio_set_pin_input_high pin_t
  | gpio_write_pin_high pin_t
  | gpio_write_pin_low pin_t
  | wait nat

text \<open>What a pin of the controller does after these accesses: \<open>odr\<close> is the level it is written to, \<open>drives\<close> whether it is an
  output, from a reset on, when every pin is an input.\<close>

record pin_board =
  odr :: "pin_t \<Rightarrow> bool"
  drives :: "pin_t \<Rightarrow> bool"

fun pin_access :: "gpio \<Rightarrow> pin_board \<Rightarrow> pin_board" where
  "pin_access (gpio_set_pin_output p) b = b\<lparr>drives := (drives b)(p := True)\<rparr>"
| "pin_access (gpio_set_pin_input_high p) b = b\<lparr>drives := (drives b)(p := False)\<rparr>"
| "pin_access (gpio_write_pin_high p) b = b\<lparr>odr := (odr b)(p := True)\<rparr>"
| "pin_access (gpio_write_pin_low p) b = b\<lparr>odr := (odr b)(p := False)\<rparr>"
| "pin_access (wait n) b = b"

definition reset_pins :: pin_board where
  "reset_pins = \<lparr>odr = (\<lambda>p. False), drives = (\<lambda>p. False)\<rparr>"

definition pins_after :: "gpio list \<Rightarrow> pin_board" where
  "pins_after tr = fold pin_access tr reset_pins"

definition pulled_low :: "gpio list \<Rightarrow> pin_t \<Rightarrow> bool" where
  "pulled_low tr p \<longleftrightarrow> drives (pins_after tr) p \<and> \<not> odr (pins_after tr) p"

lemma pins_after_Nil [simp]: "pins_after [] = reset_pins"
  by (simp add: pins_after_def)

lemma pins_after_append: "pins_after (tr @ tr') = fold pin_access tr' (pins_after tr)"
  by (simp add: pins_after_def)

text \<open>A parameter of every scan: the level \<open>gpio_read_pin\<close> finds on a pin after the accesses made so far.\<close>

type_synonym pin_reader = "gpio list \<Rightarrow> pin_t \<Rightarrow> bool"

section \<open>\<open>quantum/matrix.c\<close>\<close>

datatype diodes = DIRECT_PINS | COL2ROW | ROW2COL

record matrix_cfg =
  DIODE_DIRECTION :: diodes
  direct_pins :: "pin_t list list"
  row_pins :: "pin_t list"
  col_pins :: "pin_t list"
  MATRIX_ROWS :: nat
  MATRIX_COLS :: nat
  MATRIX_INPUT_PRESSED_STATE :: bool
  MATRIX_UNSELECT_DRIVE_HIGH :: bool
  matrix_output_select_delay :: nat
  matrix_output_unselect_delay :: "nat \<Rightarrow> bool \<Rightarrow> nat"

definition gpio_atomic_set_pin_output_low :: "pin_t \<Rightarrow> gpio list" where
  "gpio_atomic_set_pin_output_low pin = [gpio_set_pin_output pin, gpio_write_pin_low pin]"

definition gpio_atomic_set_pin_output_high :: "pin_t \<Rightarrow> gpio list" where
  "gpio_atomic_set_pin_output_high pin = [gpio_set_pin_output pin, gpio_write_pin_high pin]"

definition gpio_atomic_set_pin_input_high :: "pin_t \<Rightarrow> gpio list" where
  "gpio_atomic_set_pin_input_high pin = [gpio_set_pin_input_high pin]"

text \<open>\<open>True\<close> is 1, a switch that is open.\<close>

definition readMatrixPin :: "matrix_cfg \<Rightarrow> pin_reader \<Rightarrow> gpio list \<Rightarrow> pin_t \<Rightarrow> bool" where
  "readMatrixPin cfg gpio_read_pin tr pin =
     (if pin \<noteq> NO_PIN then \<not> (gpio_read_pin tr pin = MATRIX_INPUT_PRESSED_STATE cfg) else True)"

text \<open>The lines a scan drives: \<open>row_pins\<close> with \<open>COL2ROW\<close>, \<open>col_pins\<close> with \<open>ROW2COL\<close>; \<open>select_row\<close> and \<open>select_col\<close>,
  \<open>unselect_row\<close> and \<open>unselect_col\<close> differ in nothing else.\<close>

definition select_line :: "pin_t list \<Rightarrow> nat \<Rightarrow> (gpio list) option" where
  "select_line pins line =
     (let pin = pins ! line in if pin \<noteq> NO_PIN then Some (gpio_atomic_set_pin_output_low pin) else None)"

definition unselect_line :: "matrix_cfg \<Rightarrow> pin_t list \<Rightarrow> nat \<Rightarrow> gpio list" where
  "unselect_line cfg pins line =
     (let pin = pins ! line
      in if pin \<noteq> NO_PIN then
           (if MATRIX_UNSELECT_DRIVE_HIGH cfg then gpio_atomic_set_pin_output_high pin else gpio_atomic_set_pin_input_high pin)
         else [])"

definition unselect_lines :: "matrix_cfg \<Rightarrow> pin_t list \<Rightarrow> nat \<Rightarrow> gpio list" where
  "unselect_lines cfg pins n = concat (map (unselect_line cfg pins) [0 ..< n])"

definition inputs_of :: "pin_t list \<Rightarrow> gpio list" where
  "inputs_of pins = concat (map (\<lambda>pin. if pin \<noteq> NO_PIN then gpio_atomic_set_pin_input_high pin else []) pins)"

definition matrix_init_pins :: "matrix_cfg \<Rightarrow> gpio list" where
  "matrix_init_pins cfg =
     (case DIODE_DIRECTION cfg of
        DIRECT_PINS \<Rightarrow> inputs_of (concat (direct_pins cfg))
      | COL2ROW \<Rightarrow> unselect_lines cfg (row_pins cfg) (MATRIX_ROWS cfg) @ inputs_of (take (MATRIX_COLS cfg) (col_pins cfg))
      | ROW2COL \<Rightarrow> unselect_lines cfg (col_pins cfg) (MATRIX_COLS cfg) @ inputs_of (take (MATRIX_ROWS cfg) (row_pins cfg)))"

text \<open>\<open>for (col_index ..; row_shifter <<= 1) value |= pin_state ? 0 : row_shifter\<close>.\<close>

fun row_value :: "matrix_cfg \<Rightarrow> pin_reader \<Rightarrow> gpio list \<Rightarrow> pin_t list \<Rightarrow> 'r::len word \<Rightarrow> 'r word \<Rightarrow> 'r word" where
  "row_value cfg rd tr [] row_shifter v = v"
| "row_value cfg rd tr (pin # pins) row_shifter v =
     row_value cfg rd tr pins (push_bit 1 row_shifter) (v OR (if readMatrixPin cfg rd tr pin then 0 else row_shifter))"

definition matrix_read_cols_on_row ::
  "matrix_cfg \<Rightarrow> pin_reader \<Rightarrow> nat \<Rightarrow> gpio list \<times> 'r::len matrix \<Rightarrow> gpio list \<times> 'r matrix"
where
  "matrix_read_cols_on_row cfg rd current_row = (\<lambda>(tr, current_matrix).
     (case DIODE_DIRECTION cfg of
        DIRECT_PINS \<Rightarrow>
          (tr, current_matrix[current_row := row_value cfg rd tr (take (MATRIX_COLS cfg) (direct_pins cfg ! current_row)) 1 0])
      | _ \<Rightarrow>
          (case select_line (row_pins cfg) current_row of
             None \<Rightarrow> (tr, current_matrix)
           | Some ops \<Rightarrow>
               (let tr = tr @ ops @ [wait (matrix_output_select_delay cfg)];
                    v = row_value cfg rd tr (take (MATRIX_COLS cfg) (col_pins cfg)) 1 0
                in (tr @ unselect_line cfg (row_pins cfg) current_row @ [wait (matrix_output_unselect_delay cfg current_row (v \<noteq> 0))],
                    current_matrix[current_row := v])))))"

definition column_read :: "matrix_cfg \<Rightarrow> pin_reader \<Rightarrow> gpio list \<Rightarrow> 'r::len word \<Rightarrow> pin_t list \<Rightarrow> 'r matrix \<Rightarrow> 'r matrix" where
  "column_read cfg rd tr row_shifter pins current_matrix =
     map2 (\<lambda>pin row. if readMatrixPin cfg rd tr pin then row AND NOT row_shifter else row OR row_shifter) pins current_matrix"

definition matrix_read_rows_on_col_pins ::
  "matrix_cfg \<Rightarrow> pin_reader \<Rightarrow> nat \<Rightarrow> 'r::len word \<Rightarrow> gpio list \<times> 'r matrix \<Rightarrow> gpio list \<times> 'r matrix"
where
  "matrix_read_rows_on_col_pins cfg rd current_col row_shifter = (\<lambda>(tr, current_matrix).
     (case select_line (col_pins cfg) current_col of
        None \<Rightarrow> (tr, current_matrix)
      | Some ops \<Rightarrow>
          (let tr = tr @ ops @ [wait (matrix_output_select_delay cfg)];
               pins = take (MATRIX_ROWS cfg) (row_pins cfg);
               key_pressed = (\<exists>pin \<in> set pins. \<not> readMatrixPin cfg rd tr pin)
           in (tr @ unselect_line cfg (col_pins cfg) current_col @ [wait (matrix_output_unselect_delay cfg current_col key_pressed)],
               column_read cfg rd tr row_shifter pins current_matrix))))"

text \<open>The pass over the switches at the start of \<open>matrix_scan\<close>: \<open>raw_matrix\<close> and whether it changed.\<close>

fun read_columns :: "(nat \<Rightarrow> 'r::len word \<Rightarrow> 's \<Rightarrow> 's) \<Rightarrow> nat \<Rightarrow> nat \<Rightarrow> 'r word \<Rightarrow> 's \<Rightarrow> 's" where
  "read_columns f col 0 row_shifter s = s"
| "read_columns f col (Suc n) row_shifter s = read_columns f (Suc col) n (push_bit 1 row_shifter) (f col row_shifter s)"

definition scan_pins :: "matrix_cfg \<Rightarrow> pin_reader \<Rightarrow> gpio list \<times> 'r::len matrix \<Rightarrow> bool \<times> gpio list \<times> 'r matrix" where
  "scan_pins cfg rd = (\<lambda>(tr, raw_matrix).
     (let s = (tr, replicate (MATRIX_ROWS cfg) 0);
          (tr, curr_matrix) =
            (if DIODE_DIRECTION cfg = ROW2COL
             then read_columns (matrix_read_rows_on_col_pins cfg rd) 0 (MATRIX_COLS cfg) 1 s
             else fold (matrix_read_cols_on_row cfg rd) [0 ..< MATRIX_ROWS cfg] s)
      in (raw_matrix \<noteq> curr_matrix, tr, curr_matrix)))"

section \<open>\<open>quantum/matrix_common.c\<close>\<close>

record 'r matrix_state =
  raw_matrix :: "'r list"
  cooked_matrix :: "'r list"
  pin_trace :: "gpio list"

definition matrix_init ::
  "nat \<Rightarrow> gpio list \<Rightarrow> (nat \<Rightarrow> 'd) \<Rightarrow> gpio list \<Rightarrow> 'd \<times> ('r::len word) matrix_state"
where
  "matrix_init rows init_pins init_debounce tr =
     (init_debounce rows,
      \<lparr>raw_matrix = replicate rows 0, cooked_matrix = replicate rows 0, pin_trace = tr @ init_pins\<rparr>)"

definition matrix_is_on :: "'r::len word matrix_state \<Rightarrow> nat \<Rightarrow> nat \<Rightarrow> bool" where
  "matrix_is_on s row col \<longleftrightarrow> cooked_matrix s ! row AND push_bit col 1 \<noteq> 0"

definition matrix_get_row :: "('r::len word list) option \<Rightarrow> 'r word matrix_state \<Rightarrow> nat \<Rightarrow> 'r word" where
  "matrix_get_row matrix_mask s row =
     (case matrix_mask of Some mask_rows \<Rightarrow> cooked_matrix s ! row AND mask_rows ! row | None \<Rightarrow> cooked_matrix s ! row)"

definition peek_matrix :: "'r::len word matrix_state \<Rightarrow> nat \<Rightarrow> nat \<Rightarrow> bool \<Rightarrow> bool" where
  "peek_matrix s row_index col_index raw \<longleftrightarrow>
     (if raw then raw_matrix s ! row_index else cooked_matrix s ! row_index) AND push_bit col_index 1 \<noteq> 0"

text \<open>\<open>matrix_scan\<close>: the switches, then the debouncer; \<open>matrix_scan_kb\<close> is a hook.\<close>

definition matrix_scan ::
  "(gpio list \<times> 'r::len matrix \<Rightarrow> bool \<times> gpio list \<times> 'r matrix)
   \<Rightarrow> (u32 \<Rightarrow> bool \<Rightarrow> 'r matrix \<Rightarrow> 'd \<times> 'r matrix \<Rightarrow> bool \<times> 'd \<times> 'r matrix)
   \<Rightarrow> u32 \<Rightarrow> 'd \<times> 'r word matrix_state \<Rightarrow> bool \<times> 'd \<times> 'r word matrix_state"
where
  "matrix_scan scan run_debounce now = (\<lambda>(d, s).
     (let (changed, tr, raw) = scan (pin_trace s, raw_matrix s);
          (changed, d, cooked) = run_debounce now changed raw (d, cooked_matrix s)
      in (changed, d, \<lparr>raw_matrix = raw, cooked_matrix = cooked, pin_trace = tr\<rparr>)))"

section \<open>Pins and lines\<close>

lemma readMatrixPin_NO_PIN [simp]: "readMatrixPin cfg rd tr NO_PIN"
  by (simp add: readMatrixPin_def)

text \<open>Lines that a configuration names are distinct; a line without a pin is \<open>NO_PIN\<close>.\<close>

definition own_pins :: "pin_t list \<Rightarrow> bool" where
  "own_pins pins \<longleftrightarrow> distinct (filter (\<lambda>p. p \<noteq> NO_PIN) pins)"

lemma own_pins_nth:
  assumes "own_pins pins" and "i < length pins" and "j < length pins" and "pins ! i = pins ! j" and "pins ! i \<noteq> NO_PIN"
  shows "i = j"
  using assms
proof (induction pins arbitrary: i j)
  case (Cons p pins)
  have own: "own_pins pins" and p: "p \<noteq> NO_PIN \<Longrightarrow> p \<notin> set pins" using Cons.prems(1) by (auto simp: own_pins_def split: if_splits)
  have head: "k = 0" if "k < length (p # pins)" "(p # pins) ! k = p" "p \<noteq> NO_PIN" for k
    using that p by (cases k) auto
  show ?case
  proof (cases "(p # pins) ! i = p")
    case True
    then have "p \<noteq> NO_PIN" "(p # pins) ! j = p" using Cons.prems(4,5) by simp_all
    then show ?thesis using head [of i] head [of j] True Cons.prems(2,3) by simp
  next
    case False
    then have "i \<noteq> 0" by (cases i) auto
    moreover have "j \<noteq> 0" using False Cons.prems(4) by (cases j) auto
    ultimately obtain i' j' where "i = Suc i'" "j = Suc j'" using not0_implies_Suc by metis
    then show ?thesis using Cons.IH [OF own, of i' j'] Cons.prems(2-5) by simp
  qed
qed simp

definition no_line_low :: "pin_t list \<Rightarrow> gpio list \<Rightarrow> bool" where
  "no_line_low pins tr \<longleftrightarrow> (\<forall>p \<in> set pins. p \<noteq> NO_PIN \<longrightarrow> \<not> pulled_low tr p)"

lemma pulled_low_steps:
  "pulled_low (tr @ [wait d]) p = pulled_low tr p"
  "pulled_low (tr @ gpio_atomic_set_pin_output_low q) p \<longleftrightarrow> p = q \<or> pulled_low tr p"
  "pulled_low (tr @ gpio_atomic_set_pin_output_high q) p \<longleftrightarrow> p \<noteq> q \<and> pulled_low tr p"
  "pulled_low (tr @ gpio_atomic_set_pin_input_high q) p \<longleftrightarrow> p \<noteq> q \<and> pulled_low tr p"
  by (auto simp: pulled_low_def pins_after_append gpio_atomic_set_pin_output_low_def gpio_atomic_set_pin_output_high_def
      gpio_atomic_set_pin_input_high_def)

lemma line_selected:
  assumes "select_line pins i = Some ops" and "no_line_low pins tr"
  shows "pins ! i \<noteq> NO_PIN"
    and "p \<in> set pins \<Longrightarrow> p \<noteq> NO_PIN \<Longrightarrow> pulled_low (tr @ ops @ [wait d]) p \<longleftrightarrow> p = pins ! i"
proof -
  have ops: "pins ! i \<noteq> NO_PIN" "ops = gpio_atomic_set_pin_output_low (pins ! i)"
    using assms(1) by (simp_all add: select_line_def Let_def split: if_splits)
  then show "pins ! i \<noteq> NO_PIN" by simp
  assume "p \<in> set pins" "p \<noteq> NO_PIN"
  then have "\<not> pulled_low tr p" using assms(2) by (simp add: no_line_low_def)
  then show "pulled_low (tr @ ops @ [wait d]) p \<longleftrightarrow> p = pins ! i"
    by (simp add: ops pulled_low_steps append_assoc [symmetric] del: append_assoc)
qed

lemma line_unselected:
  assumes "pins ! i \<noteq> NO_PIN" and "\<And>p. p \<in> set pins \<Longrightarrow> p \<noteq> NO_PIN \<Longrightarrow> pulled_low tr p \<Longrightarrow> p = pins ! i"
  shows "no_line_low pins (tr @ unselect_line cfg pins i @ [wait d])"
  unfolding no_line_low_def append_assoc [symmetric] pulled_low_steps
  using assms by (auto simp: unselect_line_def Let_def pulled_low_steps)

text \<open>What a wired matrix answers: the pins that are read see a line that is pulled low through a closed switch.\<close>

definition wired :: "matrix_cfg \<Rightarrow> (nat \<Rightarrow> nat \<Rightarrow> bool) \<Rightarrow> pin_reader \<Rightarrow> bool" where
  "wired cfg switch rd \<longleftrightarrow>
     (\<forall>tr. case DIODE_DIRECTION cfg of
        DIRECT_PINS \<Rightarrow> \<forall>r < MATRIX_ROWS cfg. \<forall>c < MATRIX_COLS cfg.
          rd tr (direct_pins cfg ! r ! c) = (switch r c = MATRIX_INPUT_PRESSED_STATE cfg)
      | COL2ROW \<Rightarrow> \<forall>c < MATRIX_COLS cfg. rd tr (col_pins cfg ! c) =
          ((\<exists>r < MATRIX_ROWS cfg. row_pins cfg ! r \<noteq> NO_PIN \<and> pulled_low tr (row_pins cfg ! r) \<and> switch r c) = MATRIX_INPUT_PRESSED_STATE cfg)
      | ROW2COL \<Rightarrow> \<forall>r < MATRIX_ROWS cfg. rd tr (row_pins cfg ! r) =
          ((\<exists>c < MATRIX_COLS cfg. col_pins cfg ! c \<noteq> NO_PIN \<and> pulled_low tr (col_pins cfg ! c) \<and> switch r c) = MATRIX_INPUT_PRESSED_STATE cfg))"

text \<open>The switch counts only where it has its pins.\<close>

definition switch_pins :: "matrix_cfg \<Rightarrow> nat \<Rightarrow> nat \<Rightarrow> bool" where
  "switch_pins cfg r c \<longleftrightarrow>
     (case DIODE_DIRECTION cfg of DIRECT_PINS \<Rightarrow> direct_pins cfg ! r ! c \<noteq> NO_PIN
      | _ \<Rightarrow> row_pins cfg ! r \<noteq> NO_PIN \<and> col_pins cfg ! c \<noteq> NO_PIN)"

definition driven_lines :: "matrix_cfg \<Rightarrow> pin_t list" where
  "driven_lines cfg = (case DIODE_DIRECTION cfg of DIRECT_PINS \<Rightarrow> [] | COL2ROW \<Rightarrow> row_pins cfg | ROW2COL \<Rightarrow> col_pins cfg)"

definition cfg_ok :: "matrix_cfg \<Rightarrow> bool" where
  "cfg_ok cfg \<longleftrightarrow> own_pins (driven_lines cfg) \<and>
     (case DIODE_DIRECTION cfg of
        DIRECT_PINS \<Rightarrow> length (direct_pins cfg) = MATRIX_ROWS cfg \<and> list_all (\<lambda>ps. length ps = MATRIX_COLS cfg) (direct_pins cfg)
      | _ \<Rightarrow> length (row_pins cfg) = MATRIX_ROWS cfg \<and> length (col_pins cfg) = MATRIX_COLS cfg)"

definition shows_switches :: "nat \<Rightarrow> nat \<Rightarrow> (nat \<Rightarrow> nat \<Rightarrow> bool) \<Rightarrow> 'r::len matrix \<Rightarrow> bool" where
  "shows_switches rows cols closed m \<longleftrightarrow>
     length m = rows \<and> (\<forall>r < rows. \<forall>c. bit (m ! r) c \<longleftrightarrow> c < cols \<and> c < LENGTH('r) \<and> closed r c)"

section \<open>What a pass reads\<close>

lemma bit_row_value:
  "bit (row_value cfg rd tr pins (push_bit k 1) v :: 'r::len word) n \<longleftrightarrow>
     bit v n \<or> (k \<le> n \<and> n < k + length pins \<and> n < LENGTH('r) \<and> \<not> readMatrixPin cfg rd tr (pins ! (n - k)))"
proof (induction pins arbitrary: k v)
  case (Cons p pins)
  have p: "push_bit 1 (push_bit k (1 :: 'r word)) = push_bit (Suc k) 1" by (simp add: push_bit_push_bit)
  have b: "bit (push_bit k (1 :: 'r word)) n \<longleftrightarrow> n = k \<and> k < LENGTH('r)" by (auto simp: bit_simps)
  show ?case unfolding row_value.simps p Cons.IH
    by (cases "n = k"; cases "n < k"; cases "readMatrixPin cfg rd tr p")
      (auto simp: bit_simps b Suc_diff_Suc [symmetric])
qed auto

lemma bit_column_read:
  assumes "length pins = length m" and "r < length m"
  shows "bit (column_read cfg rd tr (push_bit k 1) pins m ! r :: 'r::len word) n \<longleftrightarrow>
    (if n = k then k < LENGTH('r) \<and> \<not> readMatrixPin cfg rd tr (pins ! r) else bit (m ! r) n)"
  using assms bit_imp_le_length [of "m ! r" n]
  by (auto simp: column_read_def bit_simps bit_1_iff)

lemma length_column_read [simp]: "length pins = length m \<Longrightarrow> length (column_read cfg rd tr w pins m) = length m"
  by (simp add: column_read_def)

definition closed :: "matrix_cfg \<Rightarrow> (nat \<Rightarrow> nat \<Rightarrow> bool) \<Rightarrow> nat \<Rightarrow> nat \<Rightarrow> bool" where
  "closed cfg switch r c \<longleftrightarrow> switch r c \<and> switch_pins cfg r c"

lemma row_read:
  fixes m :: "'r::len matrix"
  assumes "cfg_ok cfg" and "wired cfg switch rd" and "DIODE_DIRECTION cfg \<noteq> ROW2COL" and "no_line_low (driven_lines cfg) tr"
    and "i < MATRIX_ROWS cfg" and "m ! i = 0" and "length m = MATRIX_ROWS cfg"
  shows "\<exists>tr' v. matrix_read_cols_on_row cfg rd i (tr, m) = (tr', m[i := v]) \<and> no_line_low (driven_lines cfg) tr' \<and>
    (\<forall>c. bit v c \<longleftrightarrow> c < MATRIX_COLS cfg \<and> c < LENGTH('r) \<and> closed cfg switch i c)"
proof (cases "DIODE_DIRECTION cfg")
  case DIRECT_PINS
  have len: "length (direct_pins cfg ! i) = MATRIX_COLS cfg"
    using assms(1,5) DIRECT_PINS by (simp add: cfg_ok_def list_all_length)
  have "rd t (direct_pins cfg ! i ! c) = (switch i c = MATRIX_INPUT_PRESSED_STATE cfg)" if "c < MATRIX_COLS cfg" for c t
    using assms(2,5) that DIRECT_PINS by (simp add: wired_def)
  then have "bit (row_value cfg rd tr (take (MATRIX_COLS cfg) (direct_pins cfg ! i)) 1 (0 :: 'r word)) c \<longleftrightarrow>
      c < MATRIX_COLS cfg \<and> c < LENGTH('r) \<and> closed cfg switch i c" for c
    using bit_row_value [of cfg rd tr "direct_pins cfg ! i" 0 "0 :: 'r word" c] len DIRECT_PINS
    by (auto simp: readMatrixPin_def closed_def switch_pins_def)
  then show ?thesis using assms(4) DIRECT_PINS by (simp add: matrix_read_cols_on_row_def) blast
next
  case COL2ROW
  have lens: "length (row_pins cfg) = MATRIX_ROWS cfg" "length (col_pins cfg) = MATRIX_COLS cfg" "own_pins (row_pins cfg)"
    using assms(1) COL2ROW by (simp_all add: cfg_ok_def driven_lines_def)
  show ?thesis
  proof (cases "select_line (row_pins cfg) i")
    case None
    then have "row_pins cfg ! i = NO_PIN" by (simp add: select_line_def Let_def split: if_splits)
    then have "\<not> closed cfg switch i c" for c using COL2ROW by (simp add: closed_def switch_pins_def)
    moreover have "m[i := 0] = m" using assms(6) by (metis list_update_id)
    ultimately show ?thesis using None assms(4) COL2ROW
      by (intro exI [of _ tr] exI [of _ 0]) (simp add: matrix_read_cols_on_row_def)
  next
    case (Some ops)
    define u where "u = tr @ ops @ [wait (matrix_output_select_delay cfg)]"
    then have u_append: "tr @ ops @ wait (matrix_output_select_delay cfg) # X = u @ X" for X by simp
    have quiet: "no_line_low (row_pins cfg) tr" using assms(4) COL2ROW by (simp add: driven_lines_def)
    note sel = line_selected [OF Some quiet]
    have low: "pulled_low u (row_pins cfg ! r) \<longleftrightarrow> r = i" if "r < MATRIX_ROWS cfg" "row_pins cfg ! r \<noteq> NO_PIN" for r
      using sel(2) [of "row_pins cfg ! r" "matrix_output_select_delay cfg"] own_pins_nth [OF lens(3), of r i] that assms(5) lens(1) by (auto simp: u_def)
    have "rd u (col_pins cfg ! c) = (switch i c = MATRIX_INPUT_PRESSED_STATE cfg)" if "c < MATRIX_COLS cfg" for c
    proof -
      have "(\<exists>r < MATRIX_ROWS cfg. row_pins cfg ! r \<noteq> NO_PIN \<and> pulled_low u (row_pins cfg ! r) \<and> switch r c) \<longleftrightarrow> switch i c"
        using low sel(1) assms(5) by blast
      then show ?thesis using assms(2) that COL2ROW by (simp add: wired_def)
    qed
    then have v: "bit (row_value cfg rd u (col_pins cfg) 1 (0 :: 'r word)) c \<longleftrightarrow>
        c < MATRIX_COLS cfg \<and> c < LENGTH('r) \<and> closed cfg switch i c" for c
      using bit_row_value [of cfg rd u "col_pins cfg" 0 "0 :: 'r word" c] lens(2) COL2ROW sel(1)
      by (auto simp: readMatrixPin_def closed_def switch_pins_def)
    have "no_line_low (row_pins cfg) (u @ unselect_line cfg (row_pins cfg) i @ [wait d])" for d
      using sel(2) line_unselected [OF sel(1), of u] unfolding u_def by blast
    then show ?thesis using Some COL2ROW v lens(2)
      by (simp add: matrix_read_cols_on_row_def Let_def driven_lines_def u_def [symmetric] u_append) blast
  qed
qed (use assms(3) in simp)

lemma rows_read:
  fixes m :: "'r::len matrix"
  assumes "cfg_ok cfg" and "wired cfg switch rd" and "DIODE_DIRECTION cfg \<noteq> ROW2COL" and "no_line_low (driven_lines cfg) tr"
    and "n \<le> MATRIX_ROWS cfg"
  shows "case fold (matrix_read_cols_on_row cfg rd) [0 ..< n] (tr, replicate (MATRIX_ROWS cfg) (0 :: 'r word)) of (tr', m') \<Rightarrow>
    no_line_low (driven_lines cfg) tr' \<and> length m' = MATRIX_ROWS cfg \<and>
    (\<forall>r < MATRIX_ROWS cfg. \<forall>c. bit (m' ! r) c \<longleftrightarrow> r < n \<and> c < MATRIX_COLS cfg \<and> c < LENGTH('r) \<and> closed cfg switch r c)"
  using assms(5)
proof (induction n)
  case (Suc n)
  obtain tr1 m1 where f: "fold (matrix_read_cols_on_row cfg rd) [0 ..< n] (tr, replicate (MATRIX_ROWS cfg) (0 :: 'r word)) = (tr1, m1)" by fastforce
  with Suc have IH: "no_line_low (driven_lines cfg) tr1" "length m1 = MATRIX_ROWS cfg"
    "\<And>r c. r < MATRIX_ROWS cfg \<Longrightarrow> bit (m1 ! r) c \<longleftrightarrow> r < n \<and> c < MATRIX_COLS cfg \<and> c < LENGTH('r) \<and> closed cfg switch r c"
    by simp_all
  have "m1 ! n = 0" using IH(3) [of n] Suc.prems by (intro bit_eqI) simp
  from row_read [OF assms(1-3) IH(1) _ this IH(2)] Suc.prems obtain tr2 v where
    "matrix_read_cols_on_row cfg rd n (tr1, m1) = (tr2, m1[n := v])" "no_line_low (driven_lines cfg) tr2"
    "\<And>c. bit v c \<longleftrightarrow> c < MATRIX_COLS cfg \<and> c < LENGTH('r) \<and> closed cfg switch n c" by auto
  then show ?case using f IH(2,3) Suc.prems by (auto simp: nth_list_update less_Suc_eq)
qed (use assms(4) in simp)

lemma column_of_rows:
  fixes m :: "'r::len matrix"
  assumes "cfg_ok cfg" and "wired cfg switch rd" and "DIODE_DIRECTION cfg = ROW2COL" and "no_line_low (driven_lines cfg) tr"
    and "k < MATRIX_COLS cfg" and "length m = MATRIX_ROWS cfg"
  shows "\<exists>tr' m'. matrix_read_rows_on_col_pins cfg rd k (push_bit k 1) (tr, m) = (tr', m') \<and> no_line_low (driven_lines cfg) tr' \<and>
    length m' = MATRIX_ROWS cfg \<and> (\<forall>r < MATRIX_ROWS cfg. \<forall>c. bit (m' ! r) c \<longleftrightarrow>
      (if c = k \<and> col_pins cfg ! k \<noteq> NO_PIN then k < LENGTH('r) \<and> closed cfg switch r k else bit (m ! r) c))"
proof -
  have lens: "length (row_pins cfg) = MATRIX_ROWS cfg" "length (col_pins cfg) = MATRIX_COLS cfg" "own_pins (col_pins cfg)"
    using assms(1,3) by (simp_all add: cfg_ok_def driven_lines_def)
  show ?thesis
  proof (cases "select_line (col_pins cfg) k")
    case None
    then have "col_pins cfg ! k = NO_PIN" by (simp add: select_line_def Let_def split: if_splits)
    then show ?thesis using None assms(4,6) by (simp add: matrix_read_rows_on_col_pins_def)
  next
    case (Some ops)
    define u where "u = tr @ ops @ [wait (matrix_output_select_delay cfg)]"
    then have u_append: "tr @ ops @ wait (matrix_output_select_delay cfg) # X = u @ X" for X by simp
    have quiet: "no_line_low (col_pins cfg) tr" using assms(3,4) by (simp add: driven_lines_def)
    note sel = line_selected [OF Some quiet]
    have low: "pulled_low u (col_pins cfg ! c) \<longleftrightarrow> c = k" if "c < MATRIX_COLS cfg" "col_pins cfg ! c \<noteq> NO_PIN" for c
      using sel(2) [of "col_pins cfg ! c" "matrix_output_select_delay cfg"] own_pins_nth [OF lens(3), of c k] that assms(5) lens(2)
      by (auto simp: u_def)
    have "readMatrixPin cfg rd u (row_pins cfg ! r) \<longleftrightarrow> \<not> closed cfg switch r k" if "r < MATRIX_ROWS cfg" for r
    proof -
      have "(\<exists>c < MATRIX_COLS cfg. col_pins cfg ! c \<noteq> NO_PIN \<and> pulled_low u (col_pins cfg ! c) \<and> switch r c) \<longleftrightarrow> switch r k"
        using low sel(1) assms(5) by blast
      then have "rd u (row_pins cfg ! r) = (switch r k = MATRIX_INPUT_PRESSED_STATE cfg)" using assms(2,3) that by (simp add: wired_def)
      then show ?thesis using assms(3) sel(1) by (auto simp: readMatrixPin_def closed_def switch_pins_def)
    qed
    then have bits: "bit (column_read cfg rd u (push_bit k 1) (row_pins cfg) m ! r) c \<longleftrightarrow>
        (if c = k then k < LENGTH('r) \<and> closed cfg switch r k else bit (m ! r) c)" if "r < MATRIX_ROWS cfg" for r c
      using bit_column_read [of "row_pins cfg" m r cfg rd u k c] that lens(1) assms(6) by simp
    have "no_line_low (col_pins cfg) (u @ unselect_line cfg (col_pins cfg) k @ [wait d])" for d
      using sel(2) line_unselected [OF sel(1), of u] unfolding u_def by blast
    then show ?thesis using Some assms(3,6) bits lens sel(1)
      by (simp add: matrix_read_rows_on_col_pins_def Let_def driven_lines_def u_def [symmetric] u_append)
  qed
qed

lemma columns_read:
  fixes m :: "'r::len matrix"
  assumes "cfg_ok cfg" and "wired cfg switch rd" and "DIODE_DIRECTION cfg = ROW2COL" and "no_line_low (driven_lines cfg) tr"
    and "k + n \<le> MATRIX_COLS cfg" and "length m = MATRIX_ROWS cfg"
    and "\<And>r c. r < MATRIX_ROWS cfg \<Longrightarrow> bit (m ! r) c \<longleftrightarrow> c < k \<and> c < LENGTH('r) \<and> closed cfg switch r c"
  shows "case read_columns (matrix_read_rows_on_col_pins cfg rd) k n (push_bit k 1) (tr, m) of (tr', m') \<Rightarrow>
    no_line_low (driven_lines cfg) tr' \<and> length m' = MATRIX_ROWS cfg \<and>
    (\<forall>r < MATRIX_ROWS cfg. \<forall>c. bit (m' ! r) c \<longleftrightarrow> c < k + n \<and> c < LENGTH('r) \<and> closed cfg switch r c)"
  using assms(4-7)
proof (induction n arbitrary: k tr m)
  case (Suc n)
  from column_of_rows [OF assms(1-3) Suc.prems(1) _ Suc.prems(3), of k] Suc.prems(2) obtain tr1 m1 where
    s: "matrix_read_rows_on_col_pins cfg rd k (push_bit k 1) (tr, m) = (tr1, m1)" "no_line_low (driven_lines cfg) tr1" "length m1 = MATRIX_ROWS cfg"
    and b: "\<And>r c. r < MATRIX_ROWS cfg \<Longrightarrow> bit (m1 ! r) c \<longleftrightarrow>
      (if c = k \<and> col_pins cfg ! k \<noteq> NO_PIN then k < LENGTH('r) \<and> closed cfg switch r k else bit (m ! r) c)" by auto
  have "\<not> closed cfg switch r k" if "col_pins cfg ! k = NO_PIN" for r using assms(3) that by (simp add: closed_def switch_pins_def)
  then have "bit (m1 ! r) c \<longleftrightarrow> c < Suc k \<and> c < LENGTH('r) \<and> closed cfg switch r c" if "r < MATRIX_ROWS cfg" for r c
    using b [OF that] Suc.prems(4) [OF that] by (auto simp: less_Suc_eq)
  from Suc.IH [OF s(2) _ s(3) this] Suc.prems(2) show ?case by (simp add: s(1) [unfolded push_bit_of_1] push_bit_push_bit mult.commute [of 2])
qed simp

section \<open>The contract of a scan\<close>

locale switch_scanner =
  fixes scan :: "gpio list \<times> 'r::len matrix \<Rightarrow> bool \<times> gpio list \<times> 'r matrix"
    and rows cols :: nat
    and switches :: "nat \<Rightarrow> nat \<Rightarrow> bool"
    and ready :: "gpio list \<Rightarrow> bool"
  assumes reads: "ready tr \<Longrightarrow> scan (tr, raw) = (changed, tr', raw') \<Longrightarrow>
    ready tr' \<and> shows_switches rows cols switches raw' \<and> (changed \<longleftrightarrow> raw' \<noteq> raw)"
begin

text \<open>Two scans of the same switches find the same matrix: the second reports no change.\<close>

lemma scan_again:
  assumes "ready tr" and "scan (tr, raw) = (changed, tr', raw')" and "scan (tr', raw') = (changed', tr'', raw'')"
  shows "\<not> changed' \<and> raw'' = raw'"
proof -
  have s: "ready tr'" "shows_switches rows cols switches raw'" using reads [OF assms(1,2)] by simp_all
  have s': "shows_switches rows cols switches raw''" "changed' \<longleftrightarrow> raw'' \<noteq> raw'" using reads [OF s(1) assms(3)] by simp_all
  have "raw'' = raw'"
    using s(2) s'(1) by (intro nth_equalityI bit_eqI) (simp_all add: shows_switches_def)
  with s'(2) show ?thesis by simp
qed

end

lemma scan_pins_reads:
  fixes raw :: "'r::len matrix"
  assumes "cfg_ok cfg" and "wired cfg switch rd" and "no_line_low (driven_lines cfg) tr" and "scan_pins cfg rd (tr, raw) = (changed, tr', raw')"
  shows "no_line_low (driven_lines cfg) tr' \<and> shows_switches (MATRIX_ROWS cfg) (MATRIX_COLS cfg) (closed cfg switch) raw' \<and>
    (changed \<longleftrightarrow> raw' \<noteq> raw)"
proof (cases "DIODE_DIRECTION cfg = ROW2COL")
  case True
  then show ?thesis
    using columns_read [OF assms(1,2) True assms(3), of 0 "MATRIX_COLS cfg" "replicate (MATRIX_ROWS cfg) (0 :: 'r word)"] assms(4)
    by (auto simp: scan_pins_def shows_switches_def split: prod.splits)
next
  case False
  then show ?thesis
    using rows_read [OF assms(1,2) False assms(3), of "MATRIX_ROWS cfg", where ?'r = 'r] assms(4)
    by (auto simp: scan_pins_def shows_switches_def split: prod.splits)
qed

interpretation pins: switch_scanner "scan_pins cfg rd" "MATRIX_ROWS cfg" "MATRIX_COLS cfg" "closed cfg switch"
    "\<lambda>tr. cfg_ok cfg \<and> wired cfg switch rd \<and> no_line_low (driven_lines cfg) tr" for cfg rd switch
  by unfold_locales (use scan_pins_reads in blast)

section \<open>From a reset on\<close>

lemma no_line_low_inputs:
  "no_line_low pins tr \<Longrightarrow> no_line_low pins (tr @ inputs_of ps)"
proof (induction ps arbitrary: tr)
  case (Cons p ps)
  have "no_line_low pins (tr @ gpio_atomic_set_pin_input_high p)" using Cons.prems by (simp add: no_line_low_def pulled_low_steps)
  from Cons.IH [OF this] Cons.IH [OF Cons.prems] show ?case by (simp add: inputs_of_def)
qed (simp add: inputs_of_def)

lemma no_line_low_unselect: "no_line_low pins tr \<Longrightarrow> no_line_low pins (tr @ unselect_lines cfg ps n)"
  by (induction n) (auto simp: no_line_low_def unselect_lines_def unselect_line_def Let_def pulled_low_steps append_assoc [symmetric] simp del: append_assoc)

lemma no_line_low_init: "no_line_low (driven_lines cfg) (matrix_init_pins cfg)"
proof -
  have r: "no_line_low pins []" for pins by (simp add: no_line_low_def pulled_low_def reset_pins_def)
  have "no_line_low pins (unselect_lines cfg ps n @ inputs_of qs)" for pins ps n qs
    using no_line_low_inputs [OF no_line_low_unselect [OF r]] by simp
  then show ?thesis using no_line_low_inputs [OF r, of "driven_lines cfg" "concat (direct_pins cfg)"]
    by (simp add: matrix_init_pins_def split: diodes.split)
qed

text \<open>A run of scans: the switches may change from one to the next.\<close>

fun scan_all ::
  "(pin_reader \<Rightarrow> gpio list \<times> 'r::len matrix \<Rightarrow> bool \<times> gpio list \<times> 'r matrix) \<Rightarrow> pin_reader list \<Rightarrow> gpio list \<times> 'r matrix
   \<Rightarrow> (bool \<times> 'r matrix) list"
where
  "scan_all scan [] s = []"
| "scan_all scan (rd # rds) s = (case scan rd s of (changed, tr, raw) \<Rightarrow> (changed, raw) # scan_all scan rds (tr, raw))"

lemma scan_all_reads:
  assumes "\<And>rd switch tr raw changed tr' raw'. W switch rd \<Longrightarrow> ready tr \<Longrightarrow> scan rd (tr, raw) = (changed, tr', raw') \<Longrightarrow>
      ready tr' \<and> shows_switches rows cols (cl switch) raw'"
    and "list_all2 W switches rds" and "ready tr"
  shows "list_all2 (\<lambda>switch s. shows_switches rows cols (cl switch) (snd s)) switches (scan_all scan rds (tr, raw))"
  using assms(2,3)
proof (induction switches rds arbitrary: tr raw rule: list_all2_induct)
  case (Cons switch switches rd rds)
  obtain ch tr' raw' where s: "scan rd (tr, raw) = (ch, tr', raw')" by (metis prod_cases3)
  from assms(1) [OF Cons(1,4) s] Cons(3) [of tr' raw'] show ?case by (simp add: s)
qed simp

lemma pins_read_switches:
  assumes "cfg_ok cfg" and "list_all2 (wired cfg) switches rds"
  shows "list_all2 (\<lambda>switch s. shows_switches (MATRIX_ROWS cfg) (MATRIX_COLS cfg) (closed cfg switch) (snd s)) switches
    (scan_all (scan_pins cfg) rds (matrix_init_pins cfg, raw))"
  by (rule scan_all_reads [where ready = "no_line_low (driven_lines cfg)", OF _ assms(2) no_line_low_init]) (use scan_pins_reads [OF assms(1)] in blast)

section \<open>The scan and the debouncer\<close>

locale debounced_scanner = switch_scanner scan rows cols switches ready + debouncer step shape
  for scan :: "gpio list \<times> 'r::len matrix \<Rightarrow> bool \<times> gpio list \<times> 'r matrix" and rows cols switches ready
    and step :: "u32 \<Rightarrow> bool \<Rightarrow> 'r matrix \<Rightarrow> 'd \<times> 'r matrix \<Rightarrow> bool \<times> 'd \<times> 'r matrix" and shape
begin

text \<open>One \<open>matrix_scan\<close> changes a debounced key only to what its switch is at.\<close>

lemma scan_follows_switches:
  assumes "ready (pin_trace s)" and "shape rows d" and "length (cooked_matrix s) = rows"
    and "matrix_scan scan step now (d, s) = (changed, d', s')" and "r < rows"
  shows "bit (cooked_matrix s' ! r) c = bit (cooked_matrix s ! r) c \<or>
    bit (cooked_matrix s' ! r) c = (c < cols \<and> c < LENGTH('r) \<and> switches r c)"
    and "ready (pin_trace s')" and "shape rows d'" and "length (cooked_matrix s') = rows"
proof -
  obtain ch tr raw where sc: "scan (pin_trace s, raw_matrix s) = (ch, tr, raw)" by (metis prod_cases3)
  obtain ch' d1 ck where st: "step now ch raw (d, cooked_matrix s) = (ch', d1, ck)" by (metis prod_cases3)
  have out: "d' = d1" "s' = \<lparr>raw_matrix = raw, cooked_matrix = ck, pin_trace = tr\<rparr>"
    using assms(4) by (simp_all add: matrix_scan_def sc st)
  have r: "ready tr" "length raw = rows" "bit (raw ! r) c \<longleftrightarrow> c < cols \<and> c < LENGTH('r) \<and> switches r c"
    using reads [OF assms(1) sc] assms(5) by (simp_all add: shows_switches_def)
  show "bit (cooked_matrix s' ! r) c = bit (cooked_matrix s ! r) c \<or>
      bit (cooked_matrix s' ! r) c = (c < cols \<and> c < LENGTH('r) \<and> switches r c)"
    using follows_raw [OF assms(2) r(2) assms(3,5), of now ch c] r(3) by (simp add: st out)
  show "ready (pin_trace s')" "shape rows d'" "length (cooked_matrix s') = rows"
    using keeps_shape [OF assms(2) r(2) assms(3), of now ch] r(1) by (simp_all add: st out)
qed

end

interpretation scanned_pins: debounced_scanner "scan_pins cfg rd :: _ \<Rightarrow> _ \<times> _ \<times> 'r::len matrix" "MATRIX_ROWS cfg" "MATRIX_COLS cfg" "closed cfg switch"
    "\<lambda>tr. cfg_ok cfg \<and> wired cfg switch rd \<and> no_line_low (driven_lines cfg) tr"
    "debounce :: u32 \<Rightarrow> bool \<Rightarrow> 'r matrix \<Rightarrow> 'r word debounce_state \<times> 'r matrix \<Rightarrow> _" "db_shape LENGTH('r)" for cfg rd switch
  by unfold_locales

end
