(* ===== verification/Hc595.thy ===== *)
theory Hc595
  imports Matrix
begin

text \<open>
  The scan of boards whose columns hang on 74HC595 shift registers (\<open>keyboards/keychron/common/matrix.c\<close>): one zero is
  shifted along the outputs and the rows are read at each of its places.  The columns before the register and behind it
  are pins of the controller.
\<close>

section \<open>The code\<close>

record hc595_cfg =
  hc_row_pins :: "pin_t list"
  hc_col_pins :: "pin_t list"
  HC595_STCP :: pin_t
  HC595_SHCP :: pin_t
  HC595_DS :: pin_t
  HC595_START_INDEX :: nat
  HC595_END_INDEX :: nat
  HC595_OFFSET_INDEX :: nat
  HC595_DRIVE_HIGH :: bool

abbreviation hc_rows :: "hc595_cfg \<Rightarrow> nat" where "hc_rows cfg \<equiv> length (hc_row_pins cfg)"
abbreviation hc_cols :: "hc595_cfg \<Rightarrow> nat" where "hc_cols cfg \<equiv> length (hc_col_pins cfg)"

definition HC595_outputs :: "hc595_cfg \<Rightarrow> nat" where
  "HC595_outputs cfg = HC595_END_INDEX cfg - HC595_START_INDEX cfg + 1"

definition UNSELECT_ALL_COL :: "hc595_cfg \<Rightarrow> u32" where
  "UNSELECT_ALL_COL cfg = (if HC595_outputs cfg > 16 then 0xFFFFFFFF else if HC595_outputs cfg > 8 then 0xFFFF else 0xFF)"

definition SELECT_ALL_COL :: u32 where
  "SELECT_ALL_COL = 0"

definition readMatrixPin_595 :: "pin_reader \<Rightarrow> gpio list \<Rightarrow> pin_t \<Rightarrow> bool" where
  "readMatrixPin_595 gpio_read_pin tr pin = (if pin \<noteq> NO_PIN then gpio_read_pin tr pin else True)"

definition gpio_set_pin_output_push_pull_writeLow :: "pin_t \<Rightarrow> gpio list" where
  "gpio_set_pin_output_push_pull_writeLow pin = [gpio_set_pin_output pin, gpio_write_pin_low pin]"

definition gpio_set_pin_output_push_pull_writeHigh :: "pin_t \<Rightarrow> gpio list" where
  "gpio_set_pin_output_push_pull_writeHigh pin = [gpio_set_pin_output pin, gpio_write_pin_high pin]"

definition HC595_delay :: "nat \<Rightarrow> gpio list" where
  "HC595_delay n = [wait n]"

text \<open>One turn of the loop, and the loop: \<open>bit_flag\<close> leaves it after one bit.\<close>

definition shift_bit :: "hc595_cfg \<Rightarrow> bool \<Rightarrow> gpio list" where
  "shift_bit cfg d =
     [if d then gpio_write_pin_high (HC595_DS cfg) else gpio_write_pin_low (HC595_DS cfg), gpio_write_pin_high (HC595_SHCP cfg)]
     @ HC595_delay 1 @ [gpio_write_pin_low (HC595_SHCP cfg)] @ HC595_delay 1"

fun shift_out :: "hc595_cfg \<Rightarrow> bool \<Rightarrow> nat \<Rightarrow> u32 \<Rightarrow> gpio list" where
  "shift_out cfg bit_flag 0 data = []"
| "shift_out cfg bit_flag (Suc n) data =
     shift_bit cfg (data AND 1 \<noteq> 0) @ (if bit_flag then [] else shift_out cfg bit_flag n (drop_bit 1 data))"

definition HC595_output :: "hc595_cfg \<Rightarrow> u32 \<Rightarrow> bool \<Rightarrow> gpio list" where
  "HC595_output cfg data bit_flag =
     shift_out cfg bit_flag (HC595_outputs cfg) data
     @ [gpio_write_pin_high (HC595_STCP cfg)] @ HC595_delay 1 @ [gpio_write_pin_low (HC595_STCP cfg)] @ HC595_delay 1"

definition direct_col :: "hc595_cfg \<Rightarrow> nat \<Rightarrow> bool" where
  "direct_col cfg col \<longleftrightarrow> col < HC595_START_INDEX cfg \<or> col > HC595_END_INDEX cfg"

definition select_col :: "hc595_cfg \<Rightarrow> nat \<Rightarrow> gpio list" where
  "select_col cfg col =
     (if direct_col cfg col then gpio_set_pin_output_push_pull_writeLow (hc_col_pins cfg ! col)
      else if col = HC595_START_INDEX cfg then
        HC595_output cfg 0 True @ (if col < HC595_OFFSET_INDEX cfg then HC595_output cfg 1 True else [])
      else [])"

definition release_pin :: "hc595_cfg \<Rightarrow> pin_t \<Rightarrow> gpio list" where
  "release_pin cfg pin =
     (if HC595_DRIVE_HIGH cfg then gpio_set_pin_output_push_pull_writeHigh pin else [gpio_set_pin_input_high pin])"

definition unselect_col :: "hc595_cfg \<Rightarrow> nat \<Rightarrow> gpio list" where
  "unselect_col cfg col =
     (if direct_col cfg col then release_pin cfg (hc_col_pins cfg ! col) else HC595_output cfg 1 True)"

text \<open>The loops leave at the first column of the register.\<close>

fun cols_until_register :: "hc595_cfg \<Rightarrow> (pin_t \<Rightarrow> gpio list) \<Rightarrow> u32 \<Rightarrow> nat \<Rightarrow> nat \<Rightarrow> gpio list" where
  "cols_until_register cfg act data col 0 = []"
| "cols_until_register cfg act data col (Suc n) =
     (if direct_col cfg col then act (hc_col_pins cfg ! col) @ cols_until_register cfg act data (Suc col) n
      else if col = HC595_START_INDEX cfg then HC595_output cfg data False
      else [])"

definition unselect_cols :: "hc595_cfg \<Rightarrow> gpio list" where
  "unselect_cols cfg = cols_until_register cfg (release_pin cfg) (UNSELECT_ALL_COL cfg) 0 (hc_cols cfg)"

definition select_all_cols :: "hc595_cfg \<Rightarrow> gpio list" where
  "select_all_cols cfg = cols_until_register cfg gpio_set_pin_output_push_pull_writeLow SELECT_ALL_COL 0 (hc_cols cfg)"

definition matrix_read_rows_on_col_595 ::
  "hc595_cfg \<Rightarrow> pin_reader \<Rightarrow> nat \<Rightarrow> 'r::len word \<Rightarrow> gpio list \<times> 'r matrix \<Rightarrow> gpio list \<times> 'r matrix"
where
  "matrix_read_rows_on_col_595 cfg rd current_col row_shifter = (\<lambda>(tr, current_matrix).
     (let tr = tr @ select_col cfg current_col @ HC595_delay 200;
          current_matrix = map2 (\<lambda>pin row. if readMatrixPin_595 rd tr pin then row AND NOT row_shifter else row OR row_shifter)
            (hc_row_pins cfg) current_matrix
      in (tr @ unselect_col cfg current_col @ HC595_delay 200, current_matrix)))"

definition matrix_init_custom :: "hc595_cfg \<Rightarrow> gpio list" where
  "matrix_init_custom cfg =
     [gpio_set_pin_output (HC595_DS cfg), gpio_write_pin_low (HC595_DS cfg),
      gpio_set_pin_output (HC595_STCP cfg), gpio_write_pin_low (HC595_STCP cfg),
      gpio_set_pin_output (HC595_SHCP cfg), gpio_write_pin_low (HC595_SHCP cfg)]
     @ concat (map (\<lambda>pin. if pin \<noteq> NO_PIN then [gpio_set_pin_input_high pin] else []) (hc_row_pins cfg))
     @ unselect_cols cfg"

definition matrix_scan_custom_595 :: "hc595_cfg \<Rightarrow> pin_reader \<Rightarrow> gpio list \<times> 'r::len matrix \<Rightarrow> bool \<times> gpio list \<times> 'r matrix" where
  "matrix_scan_custom_595 cfg rd = (\<lambda>(tr, current_matrix).
     (let (tr, curr_matrix) =
        read_columns (matrix_read_rows_on_col_595 cfg rd) 0 (hc_cols cfg) 1 (tr, replicate (hc_rows cfg) 0)
      in (current_matrix \<noteq> curr_matrix, tr, curr_matrix)))"

section \<open>The register\<close>

text \<open>What a chain of 74HC595 does with the accesses to its pins: a rising edge of SHCP moves DS into the first stage and every
  stage into the next, a rising edge of STCP copies the stages to the outputs.\<close>

record hc595_chain =
  pins :: pin_board
  stages :: "nat \<Rightarrow> bool"
  outputs :: "nat \<Rightarrow> bool"

definition rises :: "pin_t \<Rightarrow> gpio \<Rightarrow> pin_board \<Rightarrow> bool" where
  "rises p g b \<longleftrightarrow> g = gpio_write_pin_high p \<and> drives b p \<and> \<not> odr b p"

definition chain_access :: "hc595_cfg \<Rightarrow> gpio \<Rightarrow> hc595_chain \<Rightarrow> hc595_chain" where
  "chain_access cfg g s =
     \<lparr>pins = pin_access g (pins s),
      stages = (if rises (HC595_SHCP cfg) g (pins s) then case_nat (odr (pins s) (HC595_DS cfg)) (stages s) else stages s),
      outputs = (if rises (HC595_STCP cfg) g (pins s) then stages s else outputs s)\<rparr>"

definition chain_after :: "hc595_cfg \<Rightarrow> (nat \<Rightarrow> bool) \<Rightarrow> gpio list \<Rightarrow> hc595_chain" where
  "chain_after cfg power_up tr = fold (chain_access cfg) tr \<lparr>pins = reset_pins, stages = power_up, outputs = power_up\<rparr>"

definition col_low :: "hc595_cfg \<Rightarrow> hc595_chain \<Rightarrow> nat \<Rightarrow> bool" where
  "col_low cfg s c \<longleftrightarrow>
     (if direct_col cfg c then drives (pins s) (hc_col_pins cfg ! c) \<and> \<not> odr (pins s) (hc_col_pins cfg ! c)
      else \<not> outputs s (c - HC595_START_INDEX cfg))"

text \<open>A board: the pins of the register are its own.\<close>

definition hc_ok :: "hc595_cfg \<Rightarrow> bool" where
  "hc_ok cfg \<longleftrightarrow>
     HC595_START_INDEX cfg \<le> HC595_END_INDEX cfg \<and> HC595_OFFSET_INDEX cfg \<le> HC595_START_INDEX cfg \<and> HC595_outputs cfg \<le> 32 \<and>
     distinct [HC595_DS cfg, HC595_SHCP cfg, HC595_STCP cfg] \<and>
     (\<forall>c < hc_cols cfg. direct_col cfg c \<longrightarrow> hc_col_pins cfg ! c \<notin> {HC595_DS cfg, HC595_SHCP cfg, HC595_STCP cfg}) \<and>
     (\<forall>c < hc_cols cfg. \<forall>c' < hc_cols cfg. direct_col cfg c \<longrightarrow> direct_col cfg c' \<longrightarrow> hc_col_pins cfg ! c = hc_col_pins cfg ! c' \<longrightarrow> c = c') \<and>
     (\<forall>p \<in> set (hc_row_pins cfg). p \<notin> {HC595_DS cfg, HC595_SHCP cfg, HC595_STCP cfg})"

text \<open>\<open>bus_idle\<close>: the register listens and no clock is high.  \<open>cols_kept\<close>: the columns on pins are as they were.\<close>

definition bus_idle :: "hc595_cfg \<Rightarrow> hc595_chain \<Rightarrow> bool" where
  "bus_idle cfg s \<longleftrightarrow> drives (pins s) (HC595_DS cfg) \<and> drives (pins s) (HC595_SHCP cfg) \<and> drives (pins s) (HC595_STCP cfg) \<and>
     \<not> odr (pins s) (HC595_SHCP cfg) \<and> \<not> odr (pins s) (HC595_STCP cfg)"

definition cols_kept :: "hc595_cfg \<Rightarrow> hc595_chain \<Rightarrow> hc595_chain \<Rightarrow> bool" where
  "cols_kept cfg s s' \<longleftrightarrow> (\<forall>p. p \<notin> {HC595_DS cfg, HC595_SHCP cfg, HC595_STCP cfg} \<longrightarrow>
     odr (pins s') p = odr (pins s) p \<and> drives (pins s') p = drives (pins s) p)"

lemma cols_kept_trans: "cols_kept cfg s s' \<Longrightarrow> cols_kept cfg s' s'' \<Longrightarrow> cols_kept cfg s s''"
  by (simp add: cols_kept_def)

lemma own_bus:
  "hc_ok cfg \<Longrightarrow> HC595_DS cfg \<noteq> HC595_SHCP cfg \<and> HC595_SHCP cfg \<noteq> HC595_DS cfg \<and> HC595_DS cfg \<noteq> HC595_STCP cfg \<and>
    HC595_STCP cfg \<noteq> HC595_DS cfg \<and> HC595_SHCP cfg \<noteq> HC595_STCP cfg \<and> HC595_STCP cfg \<noteq> HC595_SHCP cfg"
  by (auto simp: hc_ok_def)

lemma shift_bit_effect:
  assumes "hc_ok cfg" and "bus_idle cfg s"
    and "s' = fold (chain_access cfg) (shift_bit cfg d) s"
  shows "bus_idle cfg s' \<and> cols_kept cfg s s' \<and> stages s' = case_nat d (stages s) \<and> outputs s' = outputs s"
  using assms(2) own_bus [OF assms(1)] unfolding assms(3) by (simp add: bus_idle_def cols_kept_def shift_bit_def HC595_delay_def chain_access_def rises_def)

lemma latch_effect:
  assumes "hc_ok cfg" and "bus_idle cfg s"
    and "s' = fold (chain_access cfg) ([gpio_write_pin_high (HC595_STCP cfg)] @ HC595_delay 1 @ [gpio_write_pin_low (HC595_STCP cfg)] @ HC595_delay 1) s"
  shows "bus_idle cfg s' \<and> cols_kept cfg s s' \<and> stages s' = stages s \<and> outputs s' = stages s"
  using assms(2) own_bus [OF assms(1)] unfolding assms(3) by (simp add: bus_idle_def cols_kept_def HC595_delay_def chain_access_def rises_def)

lemma one_bit_effect:
  assumes "hc_ok cfg" and "bus_idle cfg s"
    and "s' = fold (chain_access cfg) (HC595_output cfg data True) s"
  shows "bus_idle cfg s' \<and> cols_kept cfg s s' \<and> stages s' = case_nat (data AND 1 \<noteq> 0) (stages s) \<and> outputs s' = stages s'"
proof -
  have "shift_out cfg True (HC595_outputs cfg) data = shift_bit cfg (data AND 1 \<noteq> 0)" by (simp add: HC595_outputs_def)
  then show ?thesis
    using shift_bit_effect [OF assms(1,2) refl, of "data AND 1 \<noteq> 0"] latch_effect [OF assms(1) _ refl, of "fold (chain_access cfg) (shift_bit cfg (data AND 1 \<noteq> 0)) s"]
    by (auto simp: assms(3) HC595_output_def intro: cols_kept_trans)
qed

lemma shift_out_effect:
  assumes "hc_ok cfg" and "bus_idle cfg s"
    and "s' = fold (chain_access cfg) (shift_out cfg False n data) s"
  shows "bus_idle cfg s' \<and> cols_kept cfg s s' \<and> stages s' = (\<lambda>j. if j < n then bit data (n - 1 - j) else stages s (j - n)) \<and> outputs s' = outputs s"
  using assms(2) unfolding assms(3)
proof (induction n arbitrary: data s)
  case (Suc n)
  let ?t = "fold (chain_access cfg) (shift_bit cfg (data AND 1 \<noteq> 0)) s"
  have t: "bus_idle cfg ?t" "cols_kept cfg s ?t" "stages ?t = case_nat (bit data 0) (stages s)" "outputs ?t = outputs s"
    using shift_bit_effect [OF assms(1) Suc.prems refl, of "data AND 1 \<noteq> 0"] and_col_mask_iff [of data 0] by (simp_all add: col_mask_def)
  have e: "(if j < n then bit (drop_bit 1 data) (n - 1 - j) else case_nat (bit data 0) (stages s) (j - n)) =
      (if j < Suc n then bit data (Suc n - 1 - j) else stages s (j - Suc n))" for j
  proof (cases "j < n")
    case True
    then have "Suc (n - 1 - j) = n - j" by simp
    with True show ?thesis by (simp add: bit_drop_bit_eq)
  next
    case False
    then show ?thesis by (cases "j = n") (simp_all add: Suc_diff_Suc [symmetric] split: nat.split)
  qed
  let ?u = "fold (chain_access cfg) (shift_out cfg False n (drop_bit 1 data)) ?t"
  have u: "bus_idle cfg ?u" "cols_kept cfg ?t ?u" "outputs ?u = outputs ?t"
    "stages ?u = (\<lambda>j. if j < n then bit (drop_bit 1 data) (n - 1 - j) else stages ?t (j - n))"
    using Suc.IH [OF t(1), of "drop_bit 1 data"] by blast+
  have "stages ?u = (\<lambda>j. if j < Suc n then bit data (Suc n - 1 - j) else stages s (j - Suc n))"
    unfolding u(4) t(3) e ..
  then show ?case using u(1,3) t(4) cols_kept_trans [OF t(2) u(2)] by simp
qed (simp add: cols_kept_def)

lemma all_bits_effect:
  assumes "hc_ok cfg" and "bus_idle cfg s" and "\<And>j. j < HC595_outputs cfg \<Longrightarrow> bit data j = b"
    and "s' = fold (chain_access cfg) (HC595_output cfg data False) s"
  shows "bus_idle cfg s' \<and> cols_kept cfg s s' \<and> (\<forall>j < HC595_outputs cfg. outputs s' j = b) \<and> outputs s' = stages s'"
proof -
  let ?t = "fold (chain_access cfg) (shift_out cfg False (HC595_outputs cfg) data) s"
  have t: "bus_idle cfg ?t" "cols_kept cfg s ?t" "\<And>j. j < HC595_outputs cfg \<Longrightarrow> stages ?t j = b"
    using shift_out_effect [OF assms(1,2) refl, of "HC595_outputs cfg" data] assms(3) by auto
  show ?thesis using latch_effect [OF assms(1) t(1) refl] t(2,3) by (auto simp: assms(4) HC595_output_def intro: cols_kept_trans)
qed

lemma all_high:
  assumes "hc_ok cfg" and "j < HC595_outputs cfg"
  shows "bit (UNSELECT_ALL_COL cfg) j"
proof -
  have m: "(0xFFFFFFFF :: u32) = mask 32" "(0xFFFF :: u32) = mask 16" "(0xFF :: u32) = mask 8" by (simp_all add: mask_eq_exp_minus_1)
  have "HC595_outputs cfg \<le> 32" using assms(1) by (simp add: hc_ok_def)
  then show ?thesis using assms(2) unfolding UNSELECT_ALL_COL_def m by (auto simp: bit_mask_iff)
qed

section \<open>The scan\<close>

text \<open>Between two columns: the next column to be selected is \<open>k\<close>.  The zero of the register, when there is one, is already at
  its place; outputs without a column do not matter.\<close>

definition before_col :: "hc595_cfg \<Rightarrow> nat \<Rightarrow> hc595_chain \<Rightarrow> bool" where
  "before_col cfg k s \<longleftrightarrow> bus_idle cfg s \<and> outputs s = stages s \<and>
     (\<forall>c < hc_cols cfg. direct_col cfg c \<longrightarrow> \<not> col_low cfg s c) \<and>
     (\<forall>c < hc_cols cfg. \<not> direct_col cfg c \<longrightarrow> stages s (c - HC595_START_INDEX cfg) = (k \<le> HC595_START_INDEX cfg \<or> c \<noteq> k))"

lemma col_low_kept:
  assumes "hc_ok cfg" and "cols_kept cfg s s'" and "c < hc_cols cfg" and "direct_col cfg c"
  shows "col_low cfg s' c = col_low cfg s c"
  using assms by (simp add: hc_ok_def cols_kept_def col_low_def)

text \<open>What an access to a column on a pin does.\<close>

lemma pin_select_effect:
  assumes "hc_ok cfg" and "c < hc_cols cfg" and "direct_col cfg c" and "bus_idle cfg s"
    and "s' = fold (chain_access cfg) (gpio_set_pin_output_push_pull_writeLow (hc_col_pins cfg ! c)) s"
  shows "bus_idle cfg s' \<and> stages s' = stages s \<and> outputs s' = outputs s"
    and "c' < hc_cols cfg \<Longrightarrow> col_low cfg s' c' \<longleftrightarrow> c' = c \<or> col_low cfg s c'"
proof -
  have own: "hc_col_pins cfg ! c \<notin> {HC595_DS cfg, HC595_SHCP cfg, HC595_STCP cfg}" using assms(1-3) by (simp add: hc_ok_def)
  then show st: "bus_idle cfg s' \<and> stages s' = stages s \<and> outputs s' = outputs s"
    using assms(4) unfolding assms(5)
    by (simp add: bus_idle_def gpio_set_pin_output_push_pull_writeLow_def chain_access_def rises_def)
  have p: "pins s' = (pins s)\<lparr>drives := (drives (pins s))(hc_col_pins cfg ! c := True), odr := (odr (pins s))(hc_col_pins cfg ! c := False)\<rparr>"
    unfolding assms(5) by (simp add: gpio_set_pin_output_push_pull_writeLow_def chain_access_def)
  assume c': "c' < hc_cols cfg"
  show "col_low cfg s' c' \<longleftrightarrow> c' = c \<or> col_low cfg s c'"
  proof (cases "direct_col cfg c'")
    case True
    then have "hc_col_pins cfg ! c' = hc_col_pins cfg ! c \<longleftrightarrow> c' = c" using assms(1-3) c' by (auto simp: hc_ok_def)
    with True show ?thesis by (simp add: col_low_def p)
  next
    case False
    then show ?thesis using assms(3) st by (auto simp: col_low_def)
  qed
qed

lemma pin_release_effect:
  assumes "hc_ok cfg" and "c < hc_cols cfg" and "direct_col cfg c" and "bus_idle cfg s"
    and "s' = fold (chain_access cfg) (release_pin cfg (hc_col_pins cfg ! c)) s"
  shows "bus_idle cfg s' \<and> stages s' = stages s \<and> outputs s' = outputs s"
    and "c' < hc_cols cfg \<Longrightarrow> col_low cfg s' c' \<longleftrightarrow> c' \<noteq> c \<and> col_low cfg s c'"
proof -
  have own: "hc_col_pins cfg ! c \<notin> {HC595_DS cfg, HC595_SHCP cfg, HC595_STCP cfg}" using assms(1-3) by (simp add: hc_ok_def)
  then show st: "bus_idle cfg s' \<and> stages s' = stages s \<and> outputs s' = outputs s"
    using assms(4) unfolding assms(5)
    by (auto simp: bus_idle_def release_pin_def gpio_set_pin_output_push_pull_writeHigh_def chain_access_def rises_def)
  have p: "drives (pins s') q \<and> \<not> odr (pins s') q \<longleftrightarrow> q \<noteq> hc_col_pins cfg ! c \<and> drives (pins s) q \<and> \<not> odr (pins s) q" for q
    unfolding assms(5) by (auto simp: release_pin_def gpio_set_pin_output_push_pull_writeHigh_def chain_access_def)
  assume c': "c' < hc_cols cfg"
  show "col_low cfg s' c' \<longleftrightarrow> c' \<noteq> c \<and> col_low cfg s c'"
  proof (cases "direct_col cfg c'")
    case True
    then have "hc_col_pins cfg ! c' = hc_col_pins cfg ! c \<longleftrightarrow> c' = c" using assms(1-3) c' by (auto simp: hc_ok_def)
    with True show ?thesis by (simp add: col_low_def p)
  next
    case False
    then show ?thesis using assms(3) st by (auto simp: col_low_def)
  qed
qed

lemma chain_waits: "fold (chain_access cfg) (HC595_delay n) s = s"
  by (simp add: HC595_delay_def chain_access_def rises_def)

lemma column_selected:
  assumes "hc_ok cfg" and "k < hc_cols cfg" and "before_col cfg k s"
    and "s' = fold (chain_access cfg) (select_col cfg k) s"
  shows "bus_idle cfg s'" and "c < hc_cols cfg \<Longrightarrow> col_low cfg s' c \<longleftrightarrow> c = k"
    and "fold (chain_access cfg) (unselect_col cfg k) s' = s'' \<Longrightarrow> before_col cfg (Suc k) s''"
proof -
  have b: "bus_idle cfg s" "outputs s = stages s"
    "\<And>c. c < hc_cols cfg \<Longrightarrow> direct_col cfg c \<Longrightarrow> \<not> col_low cfg s c"
    "\<And>c. c < hc_cols cfg \<Longrightarrow> \<not> direct_col cfg c \<Longrightarrow> stages s (c - HC595_START_INDEX cfg) = (k \<le> HC595_START_INDEX cfg \<or> c \<noteq> k)"
    using assms(3) by (simp_all add: before_col_def)
  have off: "\<not> HC595_START_INDEX cfg < HC595_OFFSET_INDEX cfg" using assms(1) by (simp add: hc_ok_def)
  have "bus_idle cfg s' \<and> (\<forall>c < hc_cols cfg. col_low cfg s' c \<longleftrightarrow> c = k) \<and>
    before_col cfg (Suc k) (fold (chain_access cfg) (unselect_col cfg k) s')"
  proof (cases "direct_col cfg k")
    case True
    then have e: "s' = fold (chain_access cfg) (gpio_set_pin_output_push_pull_writeLow (hc_col_pins cfg ! k)) s"
      by (simp add: assms(4) select_col_def)
    note sel = pin_select_effect [OF assms(1,2) True b(1) e]
    have low: "col_low cfg s' c \<longleftrightarrow> c = k" if "c < hc_cols cfg" for c
      using sel(2) [OF that] b(2,3) b(4) [OF that] True that by (cases "direct_col cfg c") (auto simp: col_low_def)
    let ?t = "fold (chain_access cfg) (release_pin cfg (hc_col_pins cfg ! k)) s'"
    have idle: "bus_idle cfg s'" using sel(1) by blast
    note un = pin_release_effect [OF assms(1,2) True idle refl]
    have "before_col cfg (Suc k) ?t"
      using un(1) un(2) low sel(1) b(2,4) True by (auto simp: before_col_def direct_col_def)
    then show ?thesis using idle low True by (simp add: unselect_col_def)
  next
    case False
    let ?S = "HC595_START_INDEX cfg"
    have s': "bus_idle cfg s' \<and> cols_kept cfg s s' \<and> outputs s' = stages s' \<and>
      (\<forall>c < hc_cols cfg. \<not> direct_col cfg c \<longrightarrow> stages s' (c - ?S) = (c \<noteq> k))"
    proof (cases "k = ?S")
      case True
      then have "s' = fold (chain_access cfg) (HC595_output cfg 0 True) s" using False off by (simp add: assms(4) select_col_def)
      from one_bit_effect [OF assms(1) b(1) this] have e: "bus_idle cfg s' \<and> cols_kept cfg s s' \<and> outputs s' = stages s'"
        "stages s' = case_nat False (stages s)" by auto
      have "stages s' (c - ?S) = (c \<noteq> k)" if c: "c < hc_cols cfg" "\<not> direct_col cfg c" for c
      proof (cases "c = ?S")
        case c': False
        then obtain d where d: "c = Suc d" "?S \<le> d" using c(2) by (cases c) (auto simp: direct_col_def)
        have "\<not> direct_col cfg d" using c(2) d by (auto simp: direct_col_def)
        then have "stages s (d - ?S)" using b(4) [of d] c(1) d True by simp
        then show ?thesis using d True by (simp add: e(2) Suc_diff_le)
      qed (simp add: e(2) True)
      with e show ?thesis by blast
    next
      case k: False
      then have "s' = s" using False by (simp add: assms(4) select_col_def)
      moreover have "\<not> k \<le> ?S" using False k by (simp add: direct_col_def)
      ultimately show ?thesis using b by (auto simp: cols_kept_def)
    qed
    then have low: "col_low cfg s' c \<longleftrightarrow> c = k" if "c < hc_cols cfg" for c
      using b(3) [OF that] col_low_kept [OF assms(1) _ that, of s s'] False that by (cases "direct_col cfg c") (auto simp: col_low_def)
    let ?t = "fold (chain_access cfg) (HC595_output cfg 1 True) s'"
    have e: "bus_idle cfg ?t \<and> cols_kept cfg s' ?t \<and> outputs ?t = stages ?t" "stages ?t = case_nat True (stages s')"
      using one_bit_effect [OF assms(1) _ refl, of s' 1] s' by simp_all
    have "stages ?t (c - ?S) = (Suc k \<le> ?S \<or> c \<noteq> Suc k)" if c: "c < hc_cols cfg" "\<not> direct_col cfg c" for c
    proof (cases "c = ?S")
      case c': False
      then obtain d where d: "c = Suc d" "?S \<le> d" using c(2) by (cases c) (auto simp: direct_col_def)
      have "\<not> direct_col cfg d" using c(2) d by (auto simp: direct_col_def)
      then have "stages s' (d - ?S) = (d \<noteq> k)" using s' c(1) d by simp
      then show ?thesis using d False by (auto simp: e(2) Suc_diff_le direct_col_def)
    qed (use False in \<open>auto simp: e(2) direct_col_def\<close>)
    moreover have "\<not> col_low cfg ?t c" if "c < hc_cols cfg" "direct_col cfg c" for c
      using col_low_kept [OF assms(1) _ that, of s' ?t] low [OF that(1)] e(1) that False by auto
    ultimately have "before_col cfg (Suc k) ?t" using e(1) by (simp add: before_col_def)
    then show ?thesis using s' low False by (simp add: unselect_col_def)
  qed
  then show "bus_idle cfg s'" and "c < hc_cols cfg \<Longrightarrow> col_low cfg s' c \<longleftrightarrow> c = k"
    and "fold (chain_access cfg) (unselect_col cfg k) s' = s'' \<Longrightarrow> before_col cfg (Suc k) s''" by auto
qed

text \<open>What a wired board answers: a row is low when a column that is low is joined to it by a closed switch.\<close>

definition wired_595 :: "hc595_cfg \<Rightarrow> (nat \<Rightarrow> bool) \<Rightarrow> (nat \<Rightarrow> nat \<Rightarrow> bool) \<Rightarrow> pin_reader \<Rightarrow> bool" where
  "wired_595 cfg power_up switch rd \<longleftrightarrow>
     (\<forall>tr. \<forall>r < hc_rows cfg. rd tr (hc_row_pins cfg ! r) = (\<not> (\<exists>c < hc_cols cfg. col_low cfg (chain_after cfg power_up tr) c \<and> switch r c)))"

definition closed_595 :: "hc595_cfg \<Rightarrow> (nat \<Rightarrow> nat \<Rightarrow> bool) \<Rightarrow> nat \<Rightarrow> nat \<Rightarrow> bool" where
  "closed_595 cfg switch r c \<longleftrightarrow> switch r c \<and> hc_row_pins cfg ! r \<noteq> NO_PIN"

lemma chain_after_append: "chain_after cfg pu (tr @ tr') = fold (chain_access cfg) tr' (chain_after cfg pu tr)"
  by (simp add: chain_after_def)

lemma rows_on_col:
  fixes m :: "'r::len matrix"
  assumes "hc_ok cfg" and "wired_595 cfg pu switch rd" and "before_col cfg k (chain_after cfg pu tr)" and "k < hc_cols cfg"
    and "length m = hc_rows cfg" and "matrix_read_rows_on_col_595 cfg rd k (push_bit k 1) (tr, m) = (tr', m')"
  shows "before_col cfg (Suc k) (chain_after cfg pu tr')" and "length m' = hc_rows cfg"
    and "r < hc_rows cfg \<Longrightarrow> bit (m' ! r) c \<longleftrightarrow> (if c = k then k < LENGTH('r) \<and> closed_595 cfg switch r k else bit (m ! r) c)"
proof -
  define u where "u = tr @ select_col cfg k @ HC595_delay 200"
  have out: "tr' = u @ unselect_col cfg k @ HC595_delay 200"
    "m' = map2 (\<lambda>pin row. if readMatrixPin_595 rd u pin then row AND NOT (push_bit k 1) else row OR push_bit k 1) (hc_row_pins cfg) m"
    using assms(6) by (auto simp: matrix_read_rows_on_col_595_def Let_def u_def simp del: push_bit_of_1)
  have cu: "chain_after cfg pu u = fold (chain_access cfg) (select_col cfg k) (chain_after cfg pu tr)"
    by (simp add: u_def chain_after_append chain_waits)
  note sel = column_selected [OF assms(1,4,3) cu]
  show "before_col cfg (Suc k) (chain_after cfg pu tr')"
    using sel(3) [OF refl] by (simp add: out(1) chain_after_append chain_waits)
  show "length m' = hc_rows cfg" using assms(5) by (simp add: out(2))
  assume r: "r < hc_rows cfg"
  have "(\<exists>c < hc_cols cfg. col_low cfg (chain_after cfg pu u) c \<and> switch r c) \<longleftrightarrow> switch r k" using sel(2) assms(4) by blast
  then have "readMatrixPin_595 rd u (hc_row_pins cfg ! r) \<longleftrightarrow> \<not> closed_595 cfg switch r k"
    using assms(2) r by (auto simp: readMatrixPin_595_def wired_595_def closed_595_def)
  then show "bit (m' ! r) c \<longleftrightarrow> (if c = k then k < LENGTH('r) \<and> closed_595 cfg switch r k else bit (m ! r) c)"
    using r assms(5) bit_imp_le_length [of "m ! r" c] by (auto simp: out(2) bit_simps bit_1_iff)
qed

lemma columns_read_595:
  fixes m :: "'r::len matrix"
  assumes "hc_ok cfg" and "wired_595 cfg pu switch rd" and "before_col cfg k (chain_after cfg pu tr)" and "k + n = hc_cols cfg"
    and "length m = hc_rows cfg" and "\<And>r c. r < hc_rows cfg \<Longrightarrow> bit (m ! r) c \<longleftrightarrow> c < k \<and> c < LENGTH('r) \<and> closed_595 cfg switch r c"
    and "read_columns (matrix_read_rows_on_col_595 cfg rd) k n (push_bit k 1) (tr, m) = (tr', m')"
  shows "before_col cfg (hc_cols cfg) (chain_after cfg pu tr') \<and> shows_switches (hc_rows cfg) (hc_cols cfg) (closed_595 cfg switch) m'"
  using assms(3-7)
proof (induction n arbitrary: k tr m)
  case (Suc n)
  obtain tr1 m1 where s: "matrix_read_rows_on_col_595 cfg rd k (push_bit k 1) (tr, m) = (tr1, m1)" by fastforce
  have k: "k < hc_cols cfg" using Suc.prems(2) by simp
  note r = rows_on_col [OF assms(1,2) Suc.prems(1) k Suc.prems(3) s]
  have "bit (m1 ! r) c \<longleftrightarrow> c < Suc k \<and> c < LENGTH('r) \<and> closed_595 cfg switch r c" if "r < hc_rows cfg" for r c
    using r(3) [OF that] Suc.prems(4) [OF that] by (auto simp: less_Suc_eq)
  moreover have "read_columns (matrix_read_rows_on_col_595 cfg rd) (Suc k) n (push_bit (Suc k) 1) (tr1, m1) = (tr', m')"
    using Suc.prems(5) s by (simp add: push_bit_push_bit mult.commute [of 2])
  ultimately show ?case using Suc.IH [OF r(1) _ r(2)] Suc.prems(2) by simp
qed (auto simp: shows_switches_def)

text \<open>The zero that is left in the register after the last column is past the columns.\<close>

lemma before_first_col: "before_col cfg (hc_cols cfg) s \<Longrightarrow> before_col cfg 0 s"
  by (simp add: before_col_def)

lemma scan_custom_reads:
  fixes raw :: "'r::len matrix"
  assumes "hc_ok cfg" and "wired_595 cfg pu switch rd" and "before_col cfg 0 (chain_after cfg pu tr)"
    and "matrix_scan_custom_595 cfg rd (tr, raw) = (changed, tr', raw')"
  shows "before_col cfg 0 (chain_after cfg pu tr') \<and> shows_switches (hc_rows cfg) (hc_cols cfg) (closed_595 cfg switch) raw' \<and>
    (changed \<longleftrightarrow> raw' \<noteq> raw)"
proof -
  have "read_columns (matrix_read_rows_on_col_595 cfg rd) 0 (hc_cols cfg) (push_bit 0 1) (tr, replicate (hc_rows cfg) (0 :: 'r word)) = (tr', raw')"
    "changed \<longleftrightarrow> raw' \<noteq> raw"
    using assms(4) by (auto simp: matrix_scan_custom_595_def split: prod.splits)
  then show ?thesis using columns_read_595 [OF assms(1-3), of "hc_cols cfg" "replicate (hc_rows cfg) (0 :: 'r word)" tr' raw'] before_first_col by auto
qed

interpretation shift_registers: switch_scanner "matrix_scan_custom_595 cfg rd" "hc_rows cfg" "hc_cols cfg" "closed_595 cfg switch"
    "\<lambda>tr. hc_ok cfg \<and> wired_595 cfg pu switch rd \<and> before_col cfg 0 (chain_after cfg pu tr)" for cfg rd pu switch
  by unfold_locales (use scan_custom_reads in blast)

section \<open>From a reset on\<close>

lemma cols_until_register_effect:
  assumes "hc_ok cfg" and "bus_idle cfg s" and "\<And>c. c < hc_cols cfg \<Longrightarrow> direct_col cfg c \<Longrightarrow> \<not> col_low cfg s c"
    and "k \<le> HC595_START_INDEX cfg" and "k + n = hc_cols cfg"
    and "s' = fold (chain_access cfg) (cols_until_register cfg (release_pin cfg) (UNSELECT_ALL_COL cfg) k n) s"
  shows "bus_idle cfg s' \<and> (\<forall>c < hc_cols cfg. direct_col cfg c \<longrightarrow> \<not> col_low cfg s' c) \<and>
    (HC595_START_INDEX cfg < hc_cols cfg \<longrightarrow> outputs s' = stages s' \<and> (\<forall>j < HC595_outputs cfg. outputs s' j)) \<and>
    (hc_cols cfg \<le> HC595_START_INDEX cfg \<longrightarrow> outputs s' = outputs s \<and> stages s' = stages s)"
  using assms(2-6)
proof (induction n arbitrary: k s)
  case (Suc n)
  have k: "k < hc_cols cfg" using Suc.prems(4) by simp
  show ?case
  proof (cases "direct_col cfg k")
    case True
    then have "k < HC595_START_INDEX cfg" using Suc.prems(3) assms(1) by (auto simp: direct_col_def hc_ok_def)
    let ?t = "fold (chain_access cfg) (release_pin cfg (hc_col_pins cfg ! k)) s"
    note rel = pin_release_effect [OF assms(1) k True Suc.prems(1) refl]
    show ?thesis
      using Suc.IH [of ?t "Suc k"] rel Suc.prems(2,4,5) True \<open>k < HC595_START_INDEX cfg\<close> by (auto simp: Suc_le_eq)
  next
    case False
    then have "k = HC595_START_INDEX cfg" using Suc.prems(3) by (simp add: direct_col_def)
    moreover have "s' = fold (chain_access cfg) (HC595_output cfg (UNSELECT_ALL_COL cfg) False) s"
      using Suc.prems(5) False calculation by simp
    note out = all_bits_effect [OF assms(1) Suc.prems(1) _ this, of True]
    ultimately show ?thesis
      using out all_high [OF assms(1)] k col_low_kept [OF assms(1)] Suc.prems(2) by auto
  qed
qed auto

lemma inputs_effect:
  assumes "bus_idle cfg s" and "\<forall>p \<in> set ps. p \<notin> {HC595_DS cfg, HC595_SHCP cfg, HC595_STCP cfg}"
    and "s' = fold (chain_access cfg) (concat (map (\<lambda>pin. if pin \<noteq> NO_PIN then [gpio_set_pin_input_high pin] else []) ps)) s"
  shows "bus_idle cfg s' \<and> stages s' = stages s \<and> outputs s' = outputs s \<and> (\<forall>p. drives (pins s') p \<longrightarrow> drives (pins s) p) \<and> odr (pins s') = odr (pins s)"
  using assms
proof (induction ps arbitrary: s)
  case (Cons p ps)
  show ?case
  proof (cases "p = NO_PIN")
    case True
    then show ?thesis using Cons by simp
  next
    case False
    let ?t = "chain_access cfg (gpio_set_pin_input_high p) s"
    have t: "bus_idle cfg ?t" "stages ?t = stages s" "outputs ?t = outputs s" "odr (pins ?t) = odr (pins s)"
      "\<And>q. drives (pins ?t) q \<Longrightarrow> drives (pins s) q"
      using Cons.prems(1,2) by (auto simp: bus_idle_def chain_access_def rises_def split: if_splits)
    have "s' = fold (chain_access cfg) (concat (map (\<lambda>pin. if pin \<noteq> NO_PIN then [gpio_set_pin_input_high pin] else []) ps)) ?t"
      using Cons.prems(3) False by simp
    from Cons.IH [OF t(1) _ this] Cons.prems(2) t show ?thesis by auto
  qed
qed simp

lemma ready_after_init:
  assumes "hc_ok cfg"
  shows "before_col cfg 0 (chain_after cfg pu (matrix_init_custom cfg))"
proof -
  let ?bus = "[gpio_set_pin_output (HC595_DS cfg), gpio_write_pin_low (HC595_DS cfg), gpio_set_pin_output (HC595_STCP cfg),
    gpio_write_pin_low (HC595_STCP cfg), gpio_set_pin_output (HC595_SHCP cfg), gpio_write_pin_low (HC595_SHCP cfg)]"
  define s where "s = chain_after cfg pu ?bus"
  have s: "bus_idle cfg s" "outputs s = stages s" "\<And>p. drives (pins s) p \<longleftrightarrow> p \<in> {HC595_DS cfg, HC595_SHCP cfg, HC595_STCP cfg}"
    by (auto simp: s_def chain_after_def chain_access_def rises_def reset_pins_def bus_idle_def)
  define t where "t = fold (chain_access cfg) (concat (map (\<lambda>pin. if pin \<noteq> NO_PIN then [gpio_set_pin_input_high pin] else []) (hc_row_pins cfg))) s"
  have rows: "\<forall>p \<in> set (hc_row_pins cfg). p \<notin> {HC595_DS cfg, HC595_SHCP cfg, HC595_STCP cfg}" using assms by (simp add: hc_ok_def)
  have t: "bus_idle cfg t" "outputs t = stages t" "\<And>p. drives (pins t) p \<Longrightarrow> drives (pins s) p"
    using inputs_effect [OF s(1) rows t_def] s(2) by auto
  have "\<not> col_low cfg t c" if "c < hc_cols cfg" "direct_col cfg c" for c
    using t(3) s(3) that assms by (auto simp: col_low_def hc_ok_def)
  note un = cols_until_register_effect [OF assms t(1) this le0 add_0_left refl, simplified]
  let ?u = "fold (chain_access cfg) (unselect_cols cfg) t"
  have u: "bus_idle cfg ?u" "\<forall>c < hc_cols cfg. direct_col cfg c \<longrightarrow> \<not> col_low cfg ?u c"
    "HC595_START_INDEX cfg < hc_cols cfg \<Longrightarrow> outputs ?u = stages ?u \<and> (\<forall>j < HC595_outputs cfg. outputs ?u j)"
    "hc_cols cfg \<le> HC595_START_INDEX cfg \<Longrightarrow> outputs ?u = outputs t \<and> stages ?u = stages t"
    unfolding unselect_cols_def using un by blast+
  have "outputs ?u = stages ?u" using u(3,4) t(2) by (cases "HC595_START_INDEX cfg < hc_cols cfg") auto
  moreover have "stages ?u (c - HC595_START_INDEX cfg)" if "c < hc_cols cfg" "\<not> direct_col cfg c" for c
  proof -
    have "HC595_START_INDEX cfg < hc_cols cfg" "c - HC595_START_INDEX cfg < HC595_outputs cfg"
      using that by (auto simp: direct_col_def HC595_outputs_def)
    then show ?thesis using u(3) calculation by auto
  qed
  moreover have "chain_after cfg pu (matrix_init_custom cfg) = ?u"
    unfolding matrix_init_custom_def chain_after_append append_assoc [symmetric] s_def [symmetric] t_def [symmetric] ..
  ultimately show ?thesis using u(1,2) by (simp add: before_col_def)
qed

text \<open>C38. On a board wired as configured, from start-up on and whatever the registers hold at power-
  up, every scan over the shift registers finds exactly the switches that are closed then,
  column by column, in any run of scans.\<close>

theorem scan_reads_switches:
  fixes raw :: "'r::len matrix"
  assumes "hc_ok cfg" and "list_all2 (wired_595 cfg power_up) switches rds"
  shows "list_all2 (\<lambda>switch s. shows_switches (hc_rows cfg) (hc_cols cfg) (closed_595 cfg switch) (snd s)) switches
    (scan_all (matrix_scan_custom_595 cfg) rds (matrix_init_custom cfg, raw))"
  by (rule scan_all_reads [where ready = "\<lambda>tr. before_col cfg 0 (chain_after cfg power_up tr)", OF _ assms(2) ready_after_init [OF assms(1)]])
    (use scan_custom_reads [OF assms(1)] in blast)

text \<open>A board of 2 rows, two columns on pins and three on a register, and what its rows read.\<close>

definition demo_595 :: hc595_cfg where
  "demo_595 = \<lparr>hc_row_pins = [20, 21], hc_col_pins = [10, 11, NO_PIN, NO_PIN, NO_PIN], HC595_STCP = 1, HC595_SHCP = 2, HC595_DS = 3,
     HC595_START_INDEX = 2, HC595_END_INDEX = 4, HC595_OFFSET_INDEX = 0, HC595_DRIVE_HIGH = False\<rparr>"

definition board_reads :: "hc595_cfg \<Rightarrow> (nat \<Rightarrow> nat \<Rightarrow> bool) \<Rightarrow> pin_reader" where
  "board_reads cfg switch tr pin \<longleftrightarrow>
     \<not> (\<exists>r \<in> set [0 ..< hc_rows cfg]. hc_row_pins cfg ! r = pin \<and>
        (\<exists>c \<in> set [0 ..< hc_cols cfg]. col_low cfg (chain_after cfg (\<lambda>j. even j) tr) c \<and> switch r c))"

lemma board_wired: "distinct (hc_row_pins cfg) \<Longrightarrow> wired_595 cfg (\<lambda>j. even j) switch (board_reads cfg switch)"
  by (auto simp: wired_595_def board_reads_def nth_eq_iff_index_eq)

lemma below_2_5: "(\<forall>r < (2 :: nat). P r) \<longleftrightarrow> P 0 \<and> P 1" "(\<forall>c < (5 :: nat). P c) \<longleftrightarrow> P 0 \<and> P 1 \<and> P 2 \<and> P 3 \<and> P 4"
  "(\<exists>c < (5 :: nat). P c) \<longleftrightarrow> P 0 \<or> P 1 \<or> P 2 \<or> P 3 \<or> P 4"
  by (auto simp: eval_nat_numeral less_Suc_eq)

lemma scan_reads_switches_witness:
  "list_all2 (\<lambda>switch s. shows_switches 2 5 switch (snd s)) [\<lambda>r c. c = r + 3, \<lambda>r c. False]
    (scan_all (matrix_scan_custom_595 demo_595) (map (board_reads demo_595) [\<lambda>r c. c = r + 3, \<lambda>r c. False])
       (matrix_init_custom demo_595, [0, 0 :: u8]))"
proof -
  have len: "hc_rows demo_595 = 2" "hc_cols demo_595 = 5" by (simp_all add: demo_595_def)
  have ok: "hc_ok demo_595"
    unfolding hc_ok_def len below_2_5 by (simp add: demo_595_def direct_col_def HC595_outputs_def NO_PIN_def)
  have "wired_595 demo_595 (\<lambda>j. even j) switch (board_reads demo_595 switch)" for switch
    by (rule board_wired) (simp add: demo_595_def)
  then have "list_all2 (wired_595 demo_595 (\<lambda>j. even j)) [\<lambda>r c. c = r + 3, \<lambda>r c. False]
      (map (board_reads demo_595) [\<lambda>r c. c = r + 3, \<lambda>r c. False])" by simp
  from scan_reads_switches [OF ok this, of "[0, 0 :: u8]"] show ?thesis
    unfolding shows_switches_def len below_2_5 by (simp add: closed_595_def demo_595_def NO_PIN_def)
qed

section \<open>Waking up\<close>

text \<open>Before the controller sleeps \<open>select_all_cols\<close> pulls the columns down, so that any key wakes it: the loop stops at the
  register, so the columns on pins behind the register are not selected and their keys do not wake the board.\<close>

lemma select_until_register:
  assumes "hc_ok cfg" and "bus_idle cfg s" and "\<And>c. c < hc_cols cfg \<Longrightarrow> direct_col cfg c \<Longrightarrow> col_low cfg s c \<longleftrightarrow> c < k"
    and "k \<le> HC595_START_INDEX cfg" and "k + n = hc_cols cfg" and "c < hc_cols cfg"
    and "s' = fold (chain_access cfg) (cols_until_register cfg gpio_set_pin_output_push_pull_writeLow SELECT_ALL_COL k n) s"
  shows "col_low cfg s' c \<longleftrightarrow> c \<le> HC595_END_INDEX cfg"
  using assms(2-7)
proof (induction n arbitrary: k s)
  case 0
  then have "c < HC595_START_INDEX cfg" by simp
  then show ?case using 0 assms(1) by (simp add: direct_col_def hc_ok_def)
next
  case (Suc n)
  have k: "k < hc_cols cfg" using Suc.prems(4) by simp
  show ?case
  proof (cases "direct_col cfg k")
    case True
    then have ks: "k < HC595_START_INDEX cfg" using Suc.prems(3) assms(1) by (auto simp: direct_col_def hc_ok_def)
    note sel = pin_select_effect [OF assms(1) k True Suc.prems(1) refl]
    show ?thesis
      by (rule Suc.IH [of _ "Suc k"]) (use sel Suc.prems ks True in \<open>auto simp: less_Suc_eq\<close>)
  next
    case False
    then have ks: "k = HC595_START_INDEX cfg" using Suc.prems(3) by (simp add: direct_col_def)
    then have "s' = fold (chain_access cfg) (HC595_output cfg SELECT_ALL_COL False) s"
      using Suc.prems(6) False by simp
    note out = all_bits_effect [OF assms(1) Suc.prems(1) _ this, of False]
    show ?thesis
    proof (cases "direct_col cfg c")
      case True
      then have "col_low cfg s' c \<longleftrightarrow> c < k"
        using col_low_kept [OF assms(1) _ Suc.prems(5) True, of s s'] out Suc.prems(2) [OF Suc.prems(5) True] by (simp add: SELECT_ALL_COL_def)
      then show ?thesis using True ks assms(1) by (auto simp: direct_col_def hc_ok_def)
    next
      case c: False
      then have "c - HC595_START_INDEX cfg < HC595_outputs cfg" by (auto simp: direct_col_def HC595_outputs_def)
      then show ?thesis using out c by (auto simp: col_low_def direct_col_def SELECT_ALL_COL_def)
    qed
  qed
qed

lemma wake_columns:
  assumes "hc_ok cfg" and "before_col cfg 0 s" and "c < hc_cols cfg"
  shows "col_low cfg (fold (chain_access cfg) (select_all_cols cfg) s) c \<longleftrightarrow> c \<le> HC595_END_INDEX cfg"
  unfolding select_all_cols_def
  by (rule select_until_register [OF assms(1) _ _ le0 add_0_left assms(3) refl]) (use assms(2) in \<open>simp_all add: before_col_def\<close>)

end
