(* ===== verification/Keyboard.thy ===== *)
theory Keyboard
  imports Hc595 Pipeline Bits
begin

text \<open>
  The main loop (\<open>quantum/keyboard.c\<close>): \<open>matrix_task\<close> scans the matrix, compares it with what was processed before, leaves
  out rows that may hold ghosts, and hands every change to \<open>action_exec\<close>; \<open>keyboard_task\<close> runs it with the other tasks and
  keeps the times of activity.  The modules it calls are arguments that act on a state \<open>'s\<close>; at the end the loop is put
  together with the path of an event of \<open>Pipeline\<close>.
\<close>

section \<open>State and callees\<close>

record ('r, 'd, 's) main_loop =
  matrix_st :: "'r matrix_state"
  debounce_st :: 'd
  matrix_previous :: "'r list"
  last_tick :: u16
  last_input_modification_time :: u32
  last_matrix_modification_time :: u32
  last_encoder_modification_time :: u32
  last_pointing_device_modification_time :: u32
  sys :: 's

text \<open>The time goes on while a pass runs: what \<open>timer_read\<close> gives at the scan, when the key at a place is
  processed, at the tick, and when the activity is noted.\<close>

record pass_times =
  at_scan :: u32
  at_key :: "nat \<Rightarrow> nat \<Rightarrow> u32"
  at_tick :: u32
  at_activity :: u32

record ('r, 'd, 's) loop_env =
  loop_rows :: nat
  loop_cols :: nat
  matrix_mask :: "'r list option"
  MATRIX_HAS_GHOST :: bool
  layer0_keycode :: "nat \<Rightarrow> nat \<Rightarrow> u16"
  matrix_can_read :: "'s \<Rightarrow> bool"
  should_process_keypress :: "'s \<Rightarrow> bool"
  call_matrix_scan :: "u32 \<Rightarrow> 'd \<times> 'r matrix_state \<Rightarrow> bool \<times> 'd \<times> 'r matrix_state"
  call_action_exec :: "u32 \<times> keyevent \<Rightarrow> 's \<Rightarrow> 's"
  call_switch_events :: "nat \<Rightarrow> nat \<Rightarrow> bool \<Rightarrow> 's \<Rightarrow> 's"
  call_quantum_task :: "'s \<Rightarrow> 's"
  call_light_tasks :: "'s \<Rightarrow> 's"
  call_encoder_task :: "'s \<Rightarrow> bool \<times> 's"
  call_pointing_device_task :: "'s \<Rightarrow> bool \<times> 's"
  call_last_tasks :: "'s \<Rightarrow> 's"

section \<open>Activity\<close>

definition last_input_activity_elapsed :: "u32 \<Rightarrow> ('r, 'd, 's) main_loop \<Rightarrow> u32" where
  "last_input_activity_elapsed now s = timer_elapsed32 now (last_input_modification_time s)"

definition last_matrix_activity_elapsed :: "u32 \<Rightarrow> ('r, 'd, 's) main_loop \<Rightarrow> u32" where
  "last_matrix_activity_elapsed now s = timer_elapsed32 now (last_matrix_modification_time s)"

definition last_matrix_activity_trigger :: "u32 \<Rightarrow> ('r, 'd, 's) main_loop \<Rightarrow> ('r, 'd, 's) main_loop" where
  "last_matrix_activity_trigger now s = s\<lparr>last_matrix_modification_time := now, last_input_modification_time := now\<rparr>"

definition last_encoder_activity_trigger :: "u32 \<Rightarrow> ('r, 'd, 's) main_loop \<Rightarrow> ('r, 'd, 's) main_loop" where
  "last_encoder_activity_trigger now s = s\<lparr>last_encoder_modification_time := now, last_input_modification_time := now\<rparr>"

definition last_pointing_device_activity_trigger :: "u32 \<Rightarrow> ('r, 'd, 's) main_loop \<Rightarrow> ('r, 'd, 's) main_loop" where
  "last_pointing_device_activity_trigger now s =
     s\<lparr>last_pointing_device_modification_time := now, last_input_modification_time := now\<rparr>"

definition set_activity_timestamps :: "u32 \<Rightarrow> u32 \<Rightarrow> u32 \<Rightarrow> ('r, 'd, 's) main_loop \<Rightarrow> ('r, 'd, 's) main_loop" where
  "set_activity_timestamps matrix_timestamp encoder_timestamp pointing_device_timestamp s =
     s\<lparr>last_matrix_modification_time := matrix_timestamp, last_encoder_modification_time := encoder_timestamp,
       last_pointing_device_modification_time := pointing_device_timestamp,
       last_input_modification_time := max matrix_timestamp (max encoder_timestamp pointing_device_timestamp)\<rparr>"

section \<open>Ghosts\<close>

fun real_keys_from :: "('r word, 'd, 's) loop_env \<Rightarrow> nat \<Rightarrow> 'r::len word \<Rightarrow> nat \<Rightarrow> 'r word \<Rightarrow> 'r word" where
  "real_keys_from env row rowdata 0 out = out"
| "real_keys_from env row rowdata (Suc n) out =
     (let col = loop_cols env - Suc n
      in real_keys_from env row rowdata n
           (if layer0_keycode env row col \<noteq> 0 \<and> rowdata AND col_mask col \<noteq> 0 then out OR col_mask col else out))"

definition get_real_keys :: "('r word, 'd, 's) loop_env \<Rightarrow> nat \<Rightarrow> 'r::len word \<Rightarrow> 'r word" where
  "get_real_keys env row rowdata = real_keys_from env row rowdata (loop_cols env) 0"

definition popcount_more_than_one :: "'r::len word \<Rightarrow> bool" where
  "popcount_more_than_one rowdata \<longleftrightarrow> rowdata AND (rowdata - 1) \<noteq> 0"

definition has_ghost_in_row :: "('r word, 'd, 's) loop_env \<Rightarrow> (nat \<Rightarrow> 'r word) \<Rightarrow> nat \<Rightarrow> 'r::len word \<Rightarrow> bool" where
  "has_ghost_in_row env get_row row rowdata \<longleftrightarrow>
     MATRIX_HAS_GHOST env \<and>
     (let rowdata = get_real_keys env row rowdata
      in popcount_more_than_one rowdata \<and>
         list_ex (\<lambda>i. i \<noteq> row \<and> popcount_more_than_one (get_real_keys env i (get_row i) AND rowdata)) [0 ..< loop_rows env])"

section \<open>\<open>matrix_task\<close>\<close>

definition MAKE_EVENT :: "u32 \<Rightarrow> nat \<Rightarrow> nat \<Rightarrow> bool \<Rightarrow> u8 \<Rightarrow> keyevent" where
  "MAKE_EVENT now row col press event_type = \<lparr>ev_key = (row, col), ev_time = ucast now, ev_type = event_type, ev_pressed = press\<rparr>"

definition generate_tick_event :: "('r word, 'd, 's) loop_env \<Rightarrow> u32 \<Rightarrow> ('r word, 'd, 's) main_loop \<Rightarrow> ('r::len word, 'd, 's) main_loop" where
  "generate_tick_event env now32 s =
     (let now = ucast now32
      in if timer_diff now (last_tick s) \<noteq> 0
         then s\<lparr>sys := call_action_exec env (now32, MAKE_EVENT now32 0 0 False TICK_EVENT) (sys s), last_tick := now\<rparr>
         else s)"

definition key_change :: "('r word, 'd, 's) loop_env \<Rightarrow> pass_times \<Rightarrow> bool \<Rightarrow> nat \<times> nat \<times> bool \<Rightarrow> 's \<Rightarrow> 's" where
  "key_change env t process_keypress = (\<lambda>(row, col, pressed) w.
     call_switch_events env row col pressed
       (if process_keypress then call_action_exec env (at_key t row col, MAKE_EVENT (at_key t row col) row col pressed KEY_EVENT) w else w))"

text \<open>The loop over the columns: \<open>col_mask\<close> moves with \<open>col\<close>.\<close>

fun row_changes_from ::
  "('r word, 'd, 's) loop_env \<Rightarrow> pass_times \<Rightarrow> bool \<Rightarrow> nat \<Rightarrow> 'r::len word \<Rightarrow> 'r word \<Rightarrow> nat \<Rightarrow> nat \<Rightarrow> 's \<Rightarrow> 's"
where
  "row_changes_from env t process_keypress row current_row row_changes col 0 w = w"
| "row_changes_from env t process_keypress row current_row row_changes col (Suc n) w =
     row_changes_from env t process_keypress row current_row row_changes (Suc col) n
       (if row_changes AND col_mask col \<noteq> 0 then key_change env t process_keypress (row, col, current_row AND col_mask col \<noteq> 0) w else w)"

definition process_row ::
  "('r word, 'd, 's) loop_env \<Rightarrow> pass_times \<Rightarrow> bool \<Rightarrow> nat \<Rightarrow> ('r word, 'd, 's) main_loop \<Rightarrow> ('r::len word, 'd, 's) main_loop"
where
  "process_row env t process_keypress row s =
     (let current_row = matrix_get_row (matrix_mask env) (matrix_st s) row;
          row_changes = current_row XOR matrix_previous s ! row
      in if row_changes = 0 \<or> has_ghost_in_row env (matrix_get_row (matrix_mask env) (matrix_st s)) row current_row then s
         else s\<lparr>sys := row_changes_from env t process_keypress row current_row row_changes 0 (loop_cols env) (sys s),
                matrix_previous := (matrix_previous s)[row := current_row]\<rparr>)"

definition matrix_task ::
  "('r word, 'd, 's) loop_env \<Rightarrow> pass_times \<Rightarrow> ('r word, 'd, 's) main_loop \<Rightarrow> bool \<times> ('r::len word, 'd, 's) main_loop"
where
  "matrix_task env t s =
     (if \<not> matrix_can_read env (sys s) then (False, generate_tick_event env (at_tick t) s)
      else
        (let (_, d, m) = call_matrix_scan env (at_scan t) (debounce_st s, matrix_st s);
             s = s\<lparr>debounce_st := d, matrix_st := m\<rparr>;
             matrix_changed = list_ex (\<lambda>row. matrix_previous s ! row XOR matrix_get_row (matrix_mask env) m row \<noteq> 0) [0 ..< loop_rows env]
         in if \<not> matrix_changed then (False, generate_tick_event env (at_tick t) s)
            else (let process_keypress = should_process_keypress env (sys s)
                  in (True, fold (process_row env t process_keypress) [0 ..< loop_rows env] s))))"

section \<open>\<open>keyboard_task\<close>\<close>

text \<open>\<open>call_light_tasks\<close> stands for the tasks of lights between \<open>quantum_task\<close> and \<open>encoder_task\<close>, \<open>call_last_tasks\<close> for those
  after \<open>pointing_device_task\<close>, from the mouse keys to \<open>led_task\<close>.\<close>

definition keyboard_task ::
  "('r word, 'd, 's) loop_env \<Rightarrow> pass_times \<Rightarrow> ('r word, 'd, 's) main_loop \<Rightarrow> ('r::len word, 'd, 's) main_loop"
where
  "keyboard_task env t s =
     (let (activity, s) = matrix_task env t s;
          s = (if activity then last_matrix_activity_trigger (at_activity t) s else s);
          s = s\<lparr>sys := call_light_tasks env (call_quantum_task env (sys s))\<rparr>;
          (activity, w) = call_encoder_task env (sys s);
          s = (if activity then last_encoder_activity_trigger (at_activity t) (s\<lparr>sys := w\<rparr>) else s\<lparr>sys := w\<rparr>);
          (activity, w) = call_pointing_device_task env (sys s);
          s = (if activity then last_pointing_device_activity_trigger (at_activity t) (s\<lparr>sys := w\<rparr>) else s\<lparr>sys := w\<rparr>)
      in s\<lparr>sys := call_last_tasks env (sys s)\<rparr>)"

section \<open>What a ghost is\<close>

lemma two_bits: "popcount_more_than_one w \<longleftrightarrow> (\<exists>a b. a \<noteq> b \<and> bit w a \<and> bit w b)" for w :: "'r::len word"
proof (cases "w = 0")
  case True
  then show ?thesis by (simp add: popcount_more_than_one_def)
next
  case False
  let ?n = "unat w"
  have n: "0 < ?n" using False by (simp add: unat_eq_0 flip: neq0_conv)
  have bits: "{k. bit ?n k} = {k. bit w k}" using bit_imp_le_length [of w] by (auto simp: bit_unsigned_iff)
  have "popcount_more_than_one w \<longleftrightarrow> ?n AND (?n - 1) \<noteq> 0"
    using False by (simp add: popcount_more_than_one_def unat_eq_0 [symmetric] unsigned_and_eq unat_minus_one)
  also have "\<dots> \<longleftrightarrow> ones (?n AND (?n - 1)) \<noteq> 0"
    using finite_bits [of "?n AND (?n - 1)"] bit_eq_iff [of "?n AND (?n - 1)" 0] by (simp add: ones_def)
  also have "\<dots> \<longleftrightarrow> \<not> card {k. bit w k} \<le> 1"
  proof -
    have "Suc (ones (?n AND (?n - 1))) = card {k. bit w k}" using ones_clear_lowest [OF n] unfolding ones_def bits .
    then show ?thesis by linarith
  qed
  also have "\<dots> \<longleftrightarrow> (\<exists>a b. a \<noteq> b \<and> bit w a \<and> bit w b)"
    using finite_bits [of ?n] by (auto simp: bits card_le_Suc0_iff_eq)
  finally show ?thesis .
qed

lemma bit_real_keys_from:
  "n \<le> loop_cols env \<Longrightarrow> bit (real_keys_from env row rowdata n out) c \<longleftrightarrow>
     bit out c \<or> (loop_cols env - n \<le> c \<and> c < loop_cols env \<and> layer0_keycode env row c \<noteq> 0 \<and> bit rowdata c)"
proof (induction n arbitrary: out)
  case (Suc n)
  let ?col = "loop_cols env - Suc n"
  have s: "loop_cols env - n = Suc ?col" using Suc.prems by simp
  have IH: "bit (real_keys_from env row rowdata n out') c \<longleftrightarrow>
      bit out' c \<or> (Suc ?col \<le> c \<and> c < loop_cols env \<and> layer0_keycode env row c \<noteq> 0 \<and> bit rowdata c)" for out'
    using Suc.IH [of out'] Suc.prems s by simp
  show ?case unfolding real_keys_from.simps Let_def IH
    using Suc.prems bit_imp_le_length [of rowdata c] by (cases "c = ?col"; cases "c < ?col") (auto simp: row_simps)
qed auto

lemma bit_get_real_keys:
  "bit (get_real_keys env row rowdata) c \<longleftrightarrow> c < loop_cols env \<and> layer0_keycode env row c \<noteq> 0 \<and> bit rowdata c"
  by (simp add: get_real_keys_def bit_real_keys_from)

text \<open>A row is left out exactly when two of its keys and the keys in the same columns of another row are down, all four of
  them keys of the keymap: the corners of a rectangle.\<close>

lemma ghost_rectangle:
  "has_ghost_in_row env get_row row (get_row row) \<longleftrightarrow> MATRIX_HAS_GHOST env \<and>
     (\<exists>i < loop_rows env. \<exists>a < loop_cols env. \<exists>b < loop_cols env. i \<noteq> row \<and> a \<noteq> b \<and>
        (\<forall>r \<in> {row, i}. \<forall>c \<in> {a, b}. layer0_keycode env r c \<noteq> 0 \<and> bit (get_row r) c))"
proof -
  define two where "two w \<longleftrightarrow> (\<exists>a b. a \<noteq> b \<and> bit w a \<and> bit w b)" for w :: "'a word"
  let ?k = "\<lambda>r. get_real_keys env r (get_row r)"
  have "two (?k i AND ?k row) \<Longrightarrow> two (?k row)" for i by (auto simp: two_def bit_and_iff)
  moreover have "has_ghost_in_row env get_row row (get_row row) \<longleftrightarrow>
      MATRIX_HAS_GHOST env \<and> two (?k row) \<and> (\<exists>i < loop_rows env. i \<noteq> row \<and> two (?k i AND ?k row))"
    unfolding has_ghost_in_row_def Let_def two_bits list_ex_iff two_def [symmetric] by auto
  moreover have "two (?k i AND ?k row) \<longleftrightarrow> (\<exists>a < loop_cols env. \<exists>b < loop_cols env. a \<noteq> b \<and>
      (\<forall>r \<in> {row, i}. \<forall>c \<in> {a, b}. layer0_keycode env r c \<noteq> 0 \<and> bit (get_row r) c))" for i
    by (simp add: two_def bit_and_iff bit_get_real_keys) blast
  ultimately show ?thesis by blast
qed

section \<open>The events of a pass\<close>

definition row_diff :: "nat \<Rightarrow> nat \<Rightarrow> 'r::len word \<Rightarrow> 'r word \<Rightarrow> (nat \<times> nat \<times> bool) list" where
  "row_diff cols row prev cur = map (\<lambda>c. (row, c, bit cur c)) (filter (\<lambda>c. bit cur c \<noteq> bit prev c) [0 ..< cols])"

definition matrix_diff ::
  "('r word, 'd, 's) loop_env \<Rightarrow> (nat \<Rightarrow> 'r::len word) \<Rightarrow> 'r word list \<Rightarrow> nat \<Rightarrow> (nat \<times> nat \<times> bool) list"
where
  "matrix_diff env get_row prev n =
     concat (map (\<lambda>r. if has_ghost_in_row env get_row r (get_row r) then [] else row_diff (loop_cols env) r (prev ! r) (get_row r)) [0 ..< n])"

lemma row_changes_diff:
  "row_changes_from env t pk row cur (cur XOR prev) col n w =
     fold (key_change env t pk) (map (\<lambda>c. (row, c, bit cur c)) (filter (\<lambda>c. bit cur c \<noteq> bit prev c) [col ..< col + n])) w"
proof (induction n arbitrary: col w)
  case (Suc n)
  have "[col ..< col + Suc n] = col # [Suc col ..< Suc col + n]" by (simp add: upt_conv_Cons)
  then show ?case by (simp add: Suc.IH row_simps bit_xor_iff)
qed simp

definition rows_of :: "('r word, 'd, 's) loop_env \<Rightarrow> ('r::len word, 'd, 's) main_loop \<Rightarrow> nat \<Rightarrow> 'r word" where
  "rows_of env s = matrix_get_row (matrix_mask env) (matrix_st s)"

lemma process_row_effect:
  fixes s :: "('r::len word, 'd, 's) main_loop" and env :: "('r word, 'd, 's) loop_env" and row :: nat
  defines "ghost \<equiv> has_ghost_in_row env (rows_of env s) row (rows_of env s row)"
  shows "process_row env t pk row s = s\<lparr>
    sys := fold (key_change env t pk) (if ghost then [] else row_diff (loop_cols env) row (matrix_previous s ! row) (rows_of env s row)) (sys s),
    matrix_previous := (if ghost then matrix_previous s else (matrix_previous s)[row := rows_of env s row])\<rparr>"
proof (cases "rows_of env s row XOR matrix_previous s ! row = 0")
  case True
  then have e: "rows_of env s row = matrix_previous s ! row" by (auto simp: bit_eq_iff bit_xor_iff)
  then have "(matrix_previous s)[row := rows_of env s row] = matrix_previous s" by (metis list_update_id)
  then show ?thesis using True e by (simp add: process_row_def rows_of_def [symmetric] row_diff_def Let_def)
next
  case False
  then show ?thesis
    using row_changes_diff [of env t pk row "rows_of env s row" "matrix_previous s ! row" 0 "loop_cols env" "sys s"]
    by (simp add: process_row_def rows_of_def [symmetric] ghost_def row_diff_def Let_def)
qed

lemma process_rows_effect:
  fixes s :: "('r::len word, 'd, 's) main_loop"
  assumes "length (matrix_previous s) = loop_rows env" and "n \<le> loop_rows env"
  shows "\<exists>prev. fold (process_row env t pk) [0 ..< n] s =
      s\<lparr>sys := fold (key_change env t pk) (matrix_diff env (rows_of env s) (matrix_previous s) n) (sys s), matrix_previous := prev\<rparr> \<and>
    length prev = loop_rows env \<and> (\<forall>r < loop_rows env. prev ! r =
      (if r < n \<and> \<not> has_ghost_in_row env (rows_of env s) r (rows_of env s r) then rows_of env s r else matrix_previous s ! r))"
  using assms(2)
proof (induction n)
  case (Suc n)
  then obtain prev where f: "fold (process_row env t pk) [0 ..< n] s =
      s\<lparr>sys := fold (key_change env t pk) (matrix_diff env (rows_of env s) (matrix_previous s) n) (sys s), matrix_previous := prev\<rparr>"
    and prev: "length prev = loop_rows env" "\<And>r. r < loop_rows env \<Longrightarrow> prev ! r =
      (if r < n \<and> \<not> has_ghost_in_row env (rows_of env s) r (rows_of env s r) then rows_of env s r else matrix_previous s ! r)" by auto
  let ?g = "has_ghost_in_row env (rows_of env s) n (rows_of env s n)"
  have rows: "rows_of env (fold (process_row env t pk) [0 ..< n] s) = rows_of env s" by (simp add: f rows_of_def)
  have "prev ! n = matrix_previous s ! n" using prev(2) [of n] Suc.prems by simp
  then have "fold (process_row env t pk) [0 ..< Suc n] s =
      s\<lparr>sys := fold (key_change env t pk) (matrix_diff env (rows_of env s) (matrix_previous s) (Suc n)) (sys s),
        matrix_previous := (if ?g then prev else prev[n := rows_of env s n])\<rparr>"
    using process_row_effect [of env t pk n "fold (process_row env t pk) [0 ..< n] s"] unfolding rows
    by (simp add: f matrix_diff_def)
  moreover have "length (if ?g then prev else prev[n := rows_of env s n]) = loop_rows env" using prev(1) by simp
  moreover have "(if ?g then prev else prev[n := rows_of env s n]) ! r =
      (if r < Suc n \<and> \<not> has_ghost_in_row env (rows_of env s) r (rows_of env s r) then rows_of env s r else matrix_previous s ! r)"
    if "r < loop_rows env" for r
    using prev(1) prev(2) [OF that] that by (cases "r = n") (auto simp: less_Suc_eq)
  ultimately show ?case by blast
qed (use assms(1) in \<open>auto simp: matrix_diff_def intro!: exI [of _ "matrix_previous s"]\<close>)

text \<open>The events a pass hands to \<open>action_exec\<close>, and the keys they are about.\<close>

definition scanned :: "('r word, 'd, 's) loop_env \<Rightarrow> pass_times \<Rightarrow> ('r word, 'd, 's) main_loop \<Rightarrow> ('r::len word, 'd, 's) main_loop" where
  "scanned env t s =
     (case call_matrix_scan env (at_scan t) (debounce_st s, matrix_st s) of (_, d, m) \<Rightarrow> s\<lparr>debounce_st := d, matrix_st := m\<rparr>)"

definition pass_changes ::
  "('r::len word, 'd, 's) loop_env \<Rightarrow> pass_times \<Rightarrow> ('r word, 'd, 's) main_loop \<Rightarrow> (nat \<times> nat \<times> bool) list"
where
  "pass_changes env t s =
     (if matrix_can_read env (sys s) then matrix_diff env (rows_of env (scanned env t s)) (matrix_previous s) (loop_rows env) else [])"

lemma rows_of_upd [simp]: "rows_of env (s\<lparr>sys := w\<rparr>) = rows_of env s" "rows_of env (s\<lparr>matrix_previous := p\<rparr>) = rows_of env s"
  "rows_of env (s\<lparr>last_tick := k\<rparr>) = rows_of env s"
  by (simp_all add: rows_of_def)

lemma scanned_keeps [simp]: "matrix_previous (scanned env t s) = matrix_previous s" "sys (scanned env t s) = sys s"
  by (simp_all add: scanned_def split: prod.splits)

lemma generate_tick_keeps [simp]: "matrix_previous (generate_tick_event env now s) = matrix_previous s"
  by (simp add: generate_tick_event_def Let_def)

lemma no_changes:
  assumes "\<forall>r < loop_rows env. prev ! r = get_row r"
  shows "matrix_diff env get_row prev (loop_rows env) = []"
  using assms by (auto simp: matrix_diff_def row_diff_def)

text \<open>What one pass leaves behind: the rows it processed are those of the debounced matrix, the ones with ghosts stay as they were.\<close>

lemma matrix_task_rows:
  fixes s :: "('r::len word, 'd, 's) main_loop"
  assumes "length (matrix_previous s) = loop_rows env"
  shows "length (matrix_previous (snd (matrix_task env t s))) = loop_rows env"
    and "r < loop_rows env \<Longrightarrow> matrix_previous (snd (matrix_task env t s)) ! r =
      (if matrix_can_read env (sys s) \<and> \<not> has_ghost_in_row env (rows_of env (scanned env t s)) r (rows_of env (scanned env t s) r)
       then rows_of env (scanned env t s) r else matrix_previous s ! r)"
    and "\<not> fst (matrix_task env t s) \<Longrightarrow> pass_changes env t s = []"
    and "fst (matrix_task env t s) \<Longrightarrow> sys (snd (matrix_task env t s)) =
      fold (key_change env t (should_process_keypress env (sys s))) (pass_changes env t s) (sys s)"
proof -
  let ?u = "scanned env t s"
  let ?changed = "list_ex (\<lambda>row. matrix_previous s ! row XOR rows_of env ?u row \<noteq> 0) [0 ..< loop_rows env]"
  have task: "matrix_task env t s =
      (if \<not> matrix_can_read env (sys s) then (False, generate_tick_event env (at_tick t) s)
       else if \<not> ?changed then (False, generate_tick_event env (at_tick t) ?u)
       else (True, fold (process_row env t (should_process_keypress env (sys s))) [0 ..< loop_rows env] ?u))"
    by (simp add: matrix_task_def scanned_def rows_of_def Let_def split: prod.splits)
  have len: "length (matrix_previous ?u) = loop_rows env" using assms by simp
  obtain prev where f: "fold (process_row env t (should_process_keypress env (sys s))) [0 ..< loop_rows env] ?u =
      ?u\<lparr>sys := fold (key_change env t (should_process_keypress env (sys s))) (matrix_diff env (rows_of env ?u) (matrix_previous s) (loop_rows env)) (sys s),
         matrix_previous := prev\<rparr>"
    and prev: "length prev = loop_rows env" "\<And>r. r < loop_rows env \<Longrightarrow> prev ! r =
      (if \<not> has_ghost_in_row env (rows_of env ?u) r (rows_of env ?u r) then rows_of env ?u r else matrix_previous s ! r)"
    using process_rows_effect [OF len order_refl, of t "should_process_keypress env (sys s)"] by auto
  have same: "\<forall>r < loop_rows env. matrix_previous s ! r = rows_of env ?u r" if "\<not> ?changed"
    using that by (auto simp: list_ex_iff bit_eq_iff bit_xor_iff)
  show "length (matrix_previous (snd (matrix_task env t s))) = loop_rows env"
    using assms prev(1) by (simp add: task f)
  show "matrix_previous (snd (matrix_task env t s)) ! r =
      (if matrix_can_read env (sys s) \<and> \<not> has_ghost_in_row env (rows_of env ?u) r (rows_of env ?u r) then rows_of env ?u r else matrix_previous s ! r)"
    if "r < loop_rows env" using same prev(2) [OF that] that by (auto simp: task f)
  show "pass_changes env t s = []" if "\<not> fst (matrix_task env t s)"
    using that no_changes [OF same] by (auto simp: task pass_changes_def split: if_splits)
  show "sys (snd (matrix_task env t s)) = fold (key_change env t (should_process_keypress env (sys s))) (pass_changes env t s) (sys s)"
    if "fst (matrix_task env t s)"
    using that by (auto simp: task f pass_changes_def split: if_splits)
qed

section \<open>Presses and releases alternate\<close>

text \<open>A run of passes.\<close>

fun run_changes :: "('r word, 'd, 's) loop_env \<Rightarrow> pass_times list \<Rightarrow> ('r::len word, 'd, 's) main_loop \<Rightarrow> (nat \<times> nat \<times> bool) list" where
  "run_changes env [] s = []"
| "run_changes env (t # ts) s = pass_changes env t s @ run_changes env ts (snd (matrix_task env t s))"

definition run_loop :: "('r word, 'd, 's) loop_env \<Rightarrow> pass_times list \<Rightarrow> ('r::len word, 'd, 's) main_loop \<Rightarrow> ('r word, 'd, 's) main_loop" where
  "run_loop env ts s = fold (\<lambda>t s. snd (matrix_task env t s)) ts s"

definition levels_of :: "nat \<Rightarrow> nat \<Rightarrow> (nat \<times> nat \<times> bool) list \<Rightarrow> bool list" where
  "levels_of r c evs = map (\<lambda>e. snd (snd e)) (filter (\<lambda>e. fst e = r \<and> fst (snd e) = c) evs)"

fun alternates :: "bool \<Rightarrow> bool list \<Rightarrow> bool" where
  "alternates b [] = True"
| "alternates b (p # ps) = (p \<noteq> b \<and> alternates p ps)"

lemma alternates_append: "alternates b (ps @ qs) \<longleftrightarrow> alternates b ps \<and> alternates (last (b # ps)) qs"
  by (induction ps arbitrary: b) auto

lemma levels_of_append [simp]: "levels_of r c [] = []" "levels_of r c (es @ es') = levels_of r c es @ levels_of r c es'"
  by (simp_all add: levels_of_def)

lemma levels_of_row: "levels_of r c (row_diff cols row prev cur) = (if row = r \<and> c < cols \<and> bit cur c \<noteq> bit prev c then [bit cur c] else [])"
proof -
  have "filter (\<lambda>x. x = c) (filter (\<lambda>c. bit cur c \<noteq> bit prev c) [0 ..< cols]) = (if c < cols \<and> bit cur c \<noteq> bit prev c then [c] else [])"
    by (induction cols) auto
  then show ?thesis by (cases "row = r") (simp_all add: levels_of_def row_diff_def filter_map o_def conj_commute)
qed

lemma levels_of_diff:
  assumes "r < n" and "c < loop_cols env"
  shows "levels_of r c (matrix_diff env get_row prev n) =
    (if \<not> has_ghost_in_row env get_row r (get_row r) \<and> bit (get_row r) c \<noteq> bit (prev ! r) c then [bit (get_row r) c] else [])"
proof -
  have none: "levels_of r c (matrix_diff env get_row prev m) = []" if "m \<le> r" for m
    using that by (induction m) (simp_all add: matrix_diff_def levels_of_row)
  show ?thesis
    using assms(1)
  proof (induction n)
    case (Suc n)
    then show ?case using none [of n] assms(2)
      by (cases "r = n") (simp_all add: matrix_diff_def levels_of_row)
  qed simp
qed

lemma pass_levels:
  assumes "length (matrix_previous s) = loop_rows env" and "r < loop_rows env" and "c < loop_cols env"
  shows "alternates (bit (matrix_previous s ! r) c) (levels_of r c (pass_changes env t s)) \<and>
    bit (matrix_previous (snd (matrix_task env t s)) ! r) c = last (bit (matrix_previous s ! r) c # levels_of r c (pass_changes env t s))"
  using matrix_task_rows(2) [OF assms(1), of r t] assms(2,3)
  by (auto simp: pass_changes_def levels_of_diff)


section \<open>The loop and the path of an event\<close>

text \<open>The loop of a board whose events go to \<open>action_exec\<close> as \<open>Pipeline\<close> models it; what lights do with a switch is left out.\<close>

definition event_loop ::
  "kb_env \<Rightarrow> 'u hooks \<Rightarrow> bool \<Rightarrow> ('r word list) option
   \<Rightarrow> (u32 \<Rightarrow> 'd \<times> 'r word matrix_state \<Rightarrow> bool \<times> 'd \<times> 'r::len word matrix_state) \<Rightarrow> ('r word, 'd, 'u keyboard tapping) loop_env"
where
  "event_loop kenv hk ghosts masked scan =
     \<lparr>loop_rows = matrix_rows kenv, loop_cols = matrix_cols kenv, matrix_mask = masked, MATRIX_HAS_GHOST = ghosts,
      layer0_keycode = (\<lambda>r c. keymap_key_to_keycode kenv 0 (r, c)),
      matrix_can_read = (\<lambda>_. True), should_process_keypress = (\<lambda>_. True), call_matrix_scan = scan,
      call_action_exec = action_exec kenv hk, call_switch_events = (\<lambda>_ _ _ w. w),
      call_quantum_task = id, call_light_tasks = id, call_encoder_task = Pair False, call_pointing_device_task = Pair False,
      call_last_tasks = id\<rparr>"

definition key_input :: "pass_times \<Rightarrow> nat \<times> nat \<times> bool \<Rightarrow> u32 \<times> keyevent" where
  "key_input t = (\<lambda>(r, c, p). (at_key t r c, MAKE_EVENT (at_key t r c) r c p KEY_EVENT))"

definition pass_inputs ::
  "('r::len word, 'd, 's) loop_env \<Rightarrow> pass_times \<Rightarrow> ('r word, 'd, 's) main_loop \<Rightarrow> (u32 \<times> keyevent) list"
where
  "pass_inputs env t s =
     (if fst (matrix_task env t s) then map (key_input t) (pass_changes env t s)
      else if timer_diff (ucast (at_tick t)) (last_tick s) \<noteq> 0 then [(at_tick t, MAKE_EVENT (at_tick t) 0 0 False TICK_EVENT)] else [])"

fun run_inputs :: "('r word, 'd, 's) loop_env \<Rightarrow> pass_times list \<Rightarrow> ('r::len word, 'd, 's) main_loop \<Rightarrow> (u32 \<times> keyevent) list" where
  "run_inputs env [] s = []"
| "run_inputs env (t # ts) s = pass_inputs env t s @ run_inputs env ts (snd (matrix_task env t s))"

definition change_of :: "keyevent \<Rightarrow> nat \<times> nat \<times> bool" where
  "change_of e = (fst (ev_key e), snd (ev_key e), ev_pressed e)"

lemma fold_key_changes:
  "fold (key_change (event_loop kenv hk g m scan) t True) cs w = fold (action_exec kenv hk) (map (key_input t) cs) w"
  by (induction cs arbitrary: w) (auto simp: key_change_def event_loop_def key_input_def)

lemma pass_sys:
  fixes s :: "('r::len word, 'd, 'u keyboard tapping) main_loop" and kenv :: kb_env and hk :: "'u hooks" and g m scan
  defines "env \<equiv> event_loop kenv hk g m scan"
  assumes "length (matrix_previous s) = loop_rows env"
  shows "sys (snd (matrix_task env t s)) = fold (action_exec kenv hk) (pass_inputs env t s) (sys s)"
proof (cases "fst (matrix_task env t s)")
  case True
  then show ?thesis using matrix_task_rows(4) [OF assms(2) True] fold_key_changes [of kenv hk g m scan t]
    by (simp add: pass_inputs_def env_def) (simp add: event_loop_def)
next
  case False
  then have "snd (matrix_task env t s) = generate_tick_event env (at_tick t) (scanned env t s)"
    by (auto simp: matrix_task_def scanned_def env_def event_loop_def Let_def split: prod.splits if_splits)
  moreover have "last_tick (scanned env t s) = last_tick s" by (simp add: scanned_def split: prod.splits)
  ultimately show ?thesis using False
    by (simp add: pass_inputs_def generate_tick_event_def Let_def) (simp add: env_def event_loop_def)
qed

lemma run_sys:
  fixes s :: "('r::len word, 'd, 'u keyboard tapping) main_loop" and kenv :: kb_env and hk :: "'u hooks" and g m scan
  defines "env \<equiv> event_loop kenv hk g m scan"
  assumes "length (matrix_previous s) = loop_rows env"
  shows "sys (run_loop env ts s) = fold (action_exec kenv hk) (run_inputs env ts s) (sys s)"
  using assms(2)
proof (induction ts arbitrary: s)
  case (Cons t ts)
  have "length (matrix_previous (snd (matrix_task env t s))) = loop_rows env" by (rule matrix_task_rows(1) [OF Cons.prems])
  from Cons.IH [OF this] show ?case using pass_sys [OF Cons.prems [unfolded env_def], of t] by (simp add: run_loop_def env_def)
qed (simp add: run_loop_def)

lemma inputs_changes:
  assumes "length (matrix_previous s) = loop_rows env"
  shows "map change_of (concat (map (\<lambda>i. real_events (snd i)) (run_inputs env ts s))) = run_changes env ts s"
  using assms
proof (induction ts arbitrary: s)
  case (Cons t ts)
  have "map change_of (concat (map (\<lambda>i. real_events (snd i)) (map (key_input t) cs))) = cs" for cs
    by (induction cs) (auto simp: key_input_def MAKE_EVENT_def real_events_def IS_NOEVENT_def change_of_def)
  then have "map change_of (concat (map (\<lambda>i. real_events (snd i)) (pass_inputs env t s))) = pass_changes env t s"
    using matrix_task_rows(3) [OF Cons.prems, of t]
    by (auto simp: pass_inputs_def MAKE_EVENT_def real_events_def IS_NOEVENT_def)
  with Cons.IH [OF matrix_task_rows(1) [OF Cons.prems]] show ?case by simp
qed simp

text \<open>C40. From the start of the tap-hold machine on, over any run of the main loop in which its
  buffer does not overflow, process_record has handled, with what still waits, exactly the
  changes of the processed matrix: each once, none invented but releases.\<close>

theorem every_change_is_processed:
  fixes s :: "('r::len word, 'd, 'u keyboard tapping) main_loop"
  assumes "length (matrix_previous s) = matrix_rows kenv" and "sys s = tapping_init w" and "history w = []"
    and "calm_run (\<lambda>_. True) (action_exec kenv hk) (run_inputs (event_loop kenv hk g m scan) ts s) (tapping_init w)"
  shows "\<exists>X. (\<forall>x \<in> set X. \<not> ev_pressed x) \<and>
    mset (map change_of (history (world (sys (run_loop (event_loop kenv hk g m scan) ts s))) @ owed (sys (run_loop (event_loop kenv hk g m scan) ts s)))) =
    mset (run_changes (event_loop kenv hk g m scan) ts s) + mset (map change_of X)"
proof -
  let ?env = "event_loop kenv hk g m scan"
  have len: "length (matrix_previous s) = loop_rows ?env" using assms(1) by (simp add: event_loop_def)
  have start: "world (tapping_init w) = w" "owed (tapping_init w) = []"
    using idle_init [of w] by (simp_all add: tapping_init_def owed_def idle_def pending_key_def no_record_def queued_def ring_contents_def)
  from key_path.run_events [OF tapping_ok_init assms(4) [unfolded action_exec_def]] obtain X where X: "\<forall>x \<in> set X. \<not> ev_pressed x"
    "mset (history (world (sys (run_loop ?env ts s))) @ owed (sys (run_loop ?env ts s))) =
      mset (concat (map (\<lambda>i. real_events (snd i)) (run_inputs ?env ts s))) + mset X"
    unfolding run_sys [OF len] assms(2) action_exec_def [symmetric] start assms(3) append_Nil by blast
  have "mset (map change_of (history (world (sys (run_loop ?env ts s))) @ owed (sys (run_loop ?env ts s)))) =
      image_mset change_of (mset (concat (map (\<lambda>i. real_events (snd i)) (run_inputs ?env ts s)))) + mset (map change_of X)"
    using arg_cong [OF X(2), of "image_mset change_of"] by simp
  then show ?thesis using X(1) inputs_changes [OF len, of ts] by (auto simp flip: mset_map)
qed

section \<open>A run on a small board\<close>

text \<open>One row of two keys without debouncing: the left key is down from 100 to 150.\<close>

definition demo_scan :: "u32 \<Rightarrow> unit \<times> u8 matrix_state \<Rightarrow> bool \<times> unit \<times> u8 matrix_state" where
  "demo_scan now = (\<lambda>(d, m). (True, d, m\<lparr>cooked_matrix := [if 100 \<le> now \<and> now < 150 then 1 else 0]\<rparr>))"

definition demo_loop :: "(u8, unit, unit keyboard tapping) main_loop" where
  "demo_loop = \<lparr>matrix_st = \<lparr>raw_matrix = [0], cooked_matrix = [0], pin_trace = []\<rparr>, debounce_st = (), matrix_previous = [0],
     last_tick = 90, last_input_modification_time = 0, last_matrix_modification_time = 0, last_encoder_modification_time = 0,
     last_pointing_device_modification_time = 0, sys = tapping_init demo_kbd\<rparr>"

definition pass_at :: "u32 \<Rightarrow> pass_times" where
  "pass_at t = \<lparr>at_scan = t, at_key = (\<lambda>_ _. t), at_tick = t, at_activity = t\<rparr>"


lemma demo_inputs:
  "run_inputs (event_loop demo_env no_hooks False None demo_scan) [pass_at 100, pass_at 150] demo_loop =
     [(100, key_event_at 0 100 True), (150, key_event_at 0 150 False)]"
proof -
  have x: "[0 ..< 2 :: nat] = [0, 1]" by (simp add: numeral_2_eq_2)
  show ?thesis
    by (simp add: pass_inputs_def pass_changes_def scanned_def matrix_task_def demo_loop_def event_loop_def demo_env_def demo_scan_def pass_at_def
        rows_of_def matrix_get_row_def matrix_diff_def row_diff_def has_ghost_in_row_def key_input_def MAKE_EVENT_def key_event_at_def
        process_row_def Let_def x)
qed

lemma every_change_is_processed_witness:
  "\<exists>X. (\<forall>x \<in> set X. \<not> ev_pressed x) \<and>
    mset (map change_of (history (world (sys (run_loop (event_loop demo_env no_hooks False None demo_scan) [pass_at 100, pass_at 150] demo_loop)))
      @ owed (sys (run_loop (event_loop demo_env no_hooks False None demo_scan) [pass_at 100, pass_at 150] demo_loop)))) =
    mset (run_changes (event_loop demo_env no_hooks False None demo_scan) [pass_at 100, pass_at 150] demo_loop) + mset (map change_of X)"
proof -
  have "calm_run (\<lambda>_. True) (action_exec demo_env no_hooks)
      (run_inputs (event_loop demo_env no_hooks False None demo_scan) [pass_at 100, pass_at 150] demo_loop) (tapping_init demo_kbd)"
    unfolding demo_inputs using demo_calm by simp
  then show ?thesis by (rule every_change_is_processed [rotated -1]) (simp_all add: demo_loop_def demo_env_def demo_kbd_def)
qed

end
