(* ===== verification/Spec2Isabelle.thy ===== *)
theory Spec2Isabelle
  imports RingBuffer Triggers Debounce Socd Bits WearLeveling DeferredExec AnalogMatrix Pipeline Connection Via SnapClick Encoder Keyboard
begin

text \<open>
  A verification development for the Keychron QMK firmware: the firmware of a keyboard, from the scan of its switches to
  the reports its host receives over USB or over the air.

  \<^bold>\<open>The program.\<close>  A scan fills a matrix of raw rows; a debouncer, or on Hall-effect boards the trigger machine of each key and
  the filter of opposing keys, turns it into the matrix the firmware acts on.  Each change of it is an event.  The
  tap-hold state machine withholds an event until it is known whether a dual-role key is tapped or held; then the keycode
  handlers, the keymap lookup and the execution of the action change the key reports, the modifiers, the layers and the
  mouse, and what changed is sent to the host.  On wireless boards the host driver is the one of the radio module: reports
  wait in a buffer, are framed, sent over SPI and repeated until they are acknowledged, and the events of the module drive
  the state of the connection.  Settings live in an EEPROM, emulated in flash by the wear-leveling store.

  \<^bold>\<open>Theories and sources.\<close>  Paths are relative to \<open>src/\<close>; \<open>kc\<close> stands for \<open>keyboards/keychron/common\<close>.
  \<^item> \<open>Prelude\<close>, \<open>Packed\<close>, \<open>Floats\<close>: C integers, timers, byte images of packed structures, floats as rounded rationals.
  \<^item> \<open>RingBuffer\<close> (\<open>quantum/ring_buffer.h\<close>), \<open>Bits\<close> (\<open>quantum/bitwise.c\<close>, \<open>quantum/crc.c\<close>), \<open>DeferredExec\<close>
    (\<open>quantum/deferred_exec.c\<close>), \<open>Sqrt\<close> (\<open>kc/analog_matrix/sqrt.c\<close>).
  \<^item> \<open>DebounceCore\<close>, \<open>DebouncePerKey\<close>, \<open>DebounceKeys\<close>, \<open>Debounce\<close>: the seven algorithms and the dispatcher of \<open>kc/debounce/\<close>.
  \<^item> \<open>Triggers\<close>, \<open>Socd\<close>, \<open>Okmc\<close>, \<open>Profile\<close>, \<open>GameController\<close>, \<open>Calibration\<close>, \<open>AnalogMatrix\<close>: \<open>kc/analog_matrix/\<close>, one theory per
    file or pair of files; \<open>AnalogMatrix\<close> composes them into the scan, the boot and the raw HID command handler.
  \<^item> \<open>WearLeveling\<close>: \<open>quantum/wear_leveling/\<close> and the legacy flash driver of \<open>platforms/\<close>.
  \<^item> \<open>KeyReport\<close> (\<open>tmk_core/protocol/report.c\<close>), \<open>Modifiers\<close> (\<open>quantum/action_util.c\<close>), \<open>Layers\<close> (\<open>quantum/action_layer.c\<close>,
    \<open>layer_lock.c\<close>, \<open>tri_layer.c\<close>), \<open>Keycodes\<close>, \<open>Mousekey\<close>, \<open>Tapping\<close> (\<open>quantum/action_tapping.c\<close>), \<open>Actions\<close> (\<open>quantum/action.c\<close>),
    \<open>Handlers\<close> (\<open>quantum/quantum.c\<close>, \<open>quantum/process_keycode/\<close>) and \<open>Pipeline\<close>, which composes them into the path of an event.
  \<^item> \<open>ReportBuffer\<close>, \<open>Battery\<close>, \<open>WirelessEvents\<close>, \<open>Lkbt51\<close>, \<open>Indicator\<close> and \<open>Wireless\<close>: \<open>kc/wireless/\<close>; \<open>Wireless\<close> composes the
    others into the connection, with \<open>transport.c\<close>, the idle timer of \<open>lpm.c\<close> and \<open>keychron_wireless_common.c\<close>.
  \<^item> \<open>Matrix\<close> (\<open>quantum/matrix.c\<close>, \<open>quantum/matrix_common.c\<close>), \<open>Hc595\<close> (\<open>kc/matrix.c\<close>) and \<open>Keyboard\<close> (\<open>quantum/keyboard.c\<close>): the scan of the
    pins and the main loop, put together with \<open>Pipeline\<close>.
  \<^item> \<open>Connection\<close>: the states of the connection as a step relation over what the commands, the module's events and the timers
    of \<open>wireless.c\<close> do, with the pairing screens and the restart of the settings.
  \<^item> \<open>SendString\<close> (\<open>quantum/send_string/\<close>), \<open>DynamicKeymap\<close> (\<open>quantum/dynamic_keymap.c\<close>, \<open>quantum/nvm/eeprom/\<close> and the EEPROM part of
    \<open>quantum/via.c\<close>) and \<open>Via\<close> (the commands of \<open>quantum/via.c\<close> and \<open>kc/keychron_raw_hid.c\<close>): what the host configures.
  \<^item> \<open>SnapClick\<close> (\<open>kc/snap_click/\<close>) and \<open>Encoder\<close> (\<open>quantum/encoder.c\<close>, \<open>drivers/encoder/encoder_quadrature.c\<close>).
  Each theory first has its state as a record (the file-level statics, under their names), then one definition per function, in
  the order of the source and under its name (a suffix where HOL has the name), then its lemmas.  Outputs (reports sent, SPI
  frames, calls to other modules) are lists in the state, in the order of the calls.  An access out of bounds, a division by
  zero or a call through a null pointer is the result \<open>None\<close>, or a flag where the theory says so.

  \<^bold>\<open>Interfaces.\<close>  \<open>bounded_fifo\<close> (\<open>RingBuffer\<close>) is the contract of a bounded queue: the byte ring, the report buffer and the event queue
  meet it through the one lemma on an array with two indices.  \<open>debouncer\<close>, \<open>reporting_debouncer\<close> and the automata \<open>pk_automaton\<close> and
  \<open>pk_timer\<close> carry the timing theorems of the per-key debouncers, the three of which are interpretations, as are the other
  four and the dispatcher.  \<open>trigger\<close> is a per-key trigger machine, met by the regular, toggle and rapid ones.  \<open>key_set\<close> says that
  adding and deleting keys of a report is a set; \<open>reliable_store\<close> and \<open>wear_leveling_store\<close> are the flash driver under the
  wear-leveling code, met by the legacy driver of the STM32F401; \<open>tap_client\<close> is what the tap-hold machine needs of the code it
  calls, met by \<open>Actions\<close> in \<open>Pipeline\<close>; \<open>key_sink\<close> is a set of keys a module presses and releases, met by the key reports of a host
  with NKRO.  \<open>switch_scanner\<close> says that a scan reads the closed switches and
  leaves no line selected, met by the pins and by the shift registers; \<open>debounced_scanner\<close> joins it with \<open>debouncer\<close>.  The turns of the encoders are one more \<open>bounded_fifo\<close>.

  \<^bold>\<open>What is shown.\<close>  Debouncing: no glitch shorter than the debounce time passes, every stable level is delivered.  Hall-effect
  keys: the rapid trigger refines an automaton over unbounded integers, opposing keys never pass together, multi-command keys
  release what they pressed, calibration never leaves its buffer and always leaves usable values, travel is monotone, joystick
  axes stay in range, the raw HID commands keep the profiles well-formed and change nothing when refused, a saved profile is
  loaded back.  Storage: what was written is what a restart reads.  Reports: the key bytes and the bitmap hold exactly the keys
  that are down, a send leaves the host up to date, a one-shot modifier is used once, a release resolves to the action of its
  press.  Events: none is lost, duplicated or reordered, a full buffer releases everything, a mod-tap key taps or holds.  Wireless:
  accepted reports leave in order and the buffer drains without an acknowledgement; frames are read back as they were made;
  the event loop ends and handles every event once; nothing is sent while the link is down or the battery critical; the
  low battery shutdown releases everything; settings and connection state follow the commands and events; indications end.
  Main loop: a scan finds exactly the closed switches; the events of a key alternate; each change of the processed matrix is
  processed once.
  Host side: a first start that loses power while it resets the stored keymap is redone at the next start; a text stored as a
  macro is typed key by key as the tables say; of all raw HID packets only the two buffer commands with a length beyond the
  packet leave it; a key the host sets is the key it reads and the key the matrix gives.  Of a snap click pair at most the
  key the pair's rule names reaches the host.  The clicks of an encoder are its pulses divided by its resolution, in order,
  unless a pulse is lost to the fast turns a lemma shows.
  Lemmas called in the text of a theory a defect of the code (a wrapped activation point, a stranded key, a late frame read past the
  buffer, a lit LED of another host) state it on the model, with the input that shows it.

  \<^bold>\<open>Bounds and fuel.\<close>  Integers keep their width and wrap as in C; an \<open>int\<close> expression is an \<open>int\<close>, stored by \<open>as_u8\<close>, \<open>as_u16\<close>.  Loops
  are structural or have a measure (Newton's iteration in \<open>Sqrt\<close>: the estimate), except three: draining the waiting buffer of
  \<open>Tapping\<close> has fuel 8, the size of the buffer, and \<open>Pipeline\<close> shows it is enough; the event loop of \<open>Wireless\<close> is a partial
  function, and that it ends is a property; so is the loop that handles the turns of \<open>Encoder\<close>, which a handler that queues
  turns of its own may keep running.

  \<^bold>\<open>Parameters.\<close>  The hooks a keyboard, a keymap or a module may define, the keymap data, the rounding of floats, the converters, the
  packets the radio module sends, the reports \<open>clear_keyboard\<close> sends when the wireless code calls it, the modules behind the
  raw HID dispatcher, and the build options each theory names.

  \<^bold>\<open>Not modelled.\<close>  The protocol stacks and drivers (USB descriptors and endpoints, ChibiOS, V-USB, LUFA, displays, LED drivers, split
  transport, audio, MIDI, sensors): register accesses and callbacks of code that is not here.  LED and RGB matrix, \<open>rgblight\<close> and the
  painter: effects on lights only.  Vendored libraries under \<open>lib/\<close>; keymaps and board files: data.  Of the optional
  features, those a default Keychron build leaves off and that no modelled part calls: combos, auto shift, autocorrect, unicode,
  secure, steno, haptics, key overrides' matching, leader sequences.  The second radio module, \<open>ckbt51\<close>, is the same
  protocol in an older form.  The components of the manifest give the reason for each part left out.
\<close>

end
